(* ===== verification/Py_Strings.thy ===== *)
theory Py_Strings
  imports Py_Prelude "HOL-Library.Sublist"
begin

text \<open>
  The methods of \<open>str\<close> and the number and date readers of the standard library that the
  program uses: \<open>split\<close>, \<open>strip\<close>, \<open>replace\<close>, \<open>endswith\<close>, \<open>join\<close>, slices,
  \<open>int(text)\<close>, \<open>Decimal(text)\<close>, \<open>datetime.strptime\<close> and \<open>str(datetime)\<close>.
\<close>

section \<open>split, join, strip, replace, slices\<close>

text \<open>\<open>s.split(c)\<close> for a one-character separator: always at least one part.\<close>

fun split_on :: "char \<Rightarrow> string \<Rightarrow> string list" where
  "split_on c [] = [[]]"
| "split_on c (x # xs) =
     (if x = c then [] # split_on c xs
      else case split_on c xs of [] \<Rightarrow> [[x]] | p # ps \<Rightarrow> (x # p) # ps)"

fun join :: "string \<Rightarrow> string list \<Rightarrow> string" where
  "join sep [] = []"
| "join sep [x] = x"
| "join sep (x # y # ys) = x @ sep @ join sep (y # ys)"

definition strip_by :: "(char \<Rightarrow> bool) \<Rightarrow> string \<Rightarrow> string" where
  "strip_by p s = rev (dropWhile p (rev (dropWhile p s)))"

definition strip :: "string \<Rightarrow> string" where
  "strip = strip_by is_space"

definition strip_chars :: "string \<Rightarrow> string \<Rightarrow> string" where
  "strip_chars cs = strip_by (\<lambda>c. c \<in> set cs)"

definition replace_char :: "char \<Rightarrow> char \<Rightarrow> string \<Rightarrow> string" where
  "replace_char a b s = map (\<lambda>c. if c = a then b else c) s"

text \<open>\<open>s.replace('[]', '')\<close>: left to right, matches do not overlap.\<close>

fun remove_brackets :: "string \<Rightarrow> string" where
  "remove_brackets [] = []"
| "remove_brackets [c] = [c]"
| "remove_brackets (c # d # s) =
     (if c = CHR ''['' \<and> d = CHR '']'' then remove_brackets s
      else c # remove_brackets (d # s))"

definition startswith :: "string \<Rightarrow> string \<Rightarrow> bool" where
  "startswith p s = prefix p s"

definition endswith :: "string \<Rightarrow> string \<Rightarrow> bool" where
  "endswith q s = suffix q s"

text \<open>\<open>s[-n:]\<close>\<close>

definition last_chars :: "nat \<Rightarrow> string \<Rightarrow> string" where
  "last_chars n s = drop (length s - n) s"

lemma split_on_nonempty [simp]: "split_on c s \<noteq> []"
  by (induction s) (auto split: list.splits)

lemma join_split_on: "join [c] (split_on c s) = s"
proof (induction s)
  case (Cons x xs)
  then show ?case
    by (cases "split_on c xs"; cases "tl (split_on c xs)") (auto split: list.splits)
qed simp

lemma split_on_no_sep: "p \<in> set (split_on c s) \<Longrightarrow> c \<notin> set p"
  by (induction s arbitrary: p) (auto split: list.splits if_splits)

lemma split_on_single: "c \<notin> set s \<Longrightarrow> split_on c s = [s]"
  by (induction s) auto

lemma split_on_append:
  "c \<notin> set s \<Longrightarrow> split_on c (s @ c # t) = s # split_on c t"
  by (induction s) auto

lemma split_on_join:
  "ps \<noteq> [] \<Longrightarrow> \<forall>p \<in> set ps. c \<notin> set p \<Longrightarrow> split_on c (join [c] ps) = ps"
  by (induction "[c]" ps rule: join.induct) (auto simp: split_on_single split_on_append)

lemma set_strip_by: "set (strip_by p s) \<subseteq> set s"
  by (auto simp: strip_by_def dest!: set_dropWhileD)

lemma strip_by_id: "s = [] \<or> (\<not> p (hd s) \<and> \<not> p (last s)) \<Longrightarrow> strip_by p s = s"
proof (cases s)
  case (Cons x xs)
  assume "s = [] \<or> (\<not> p (hd s) \<and> \<not> p (last s))"
  with Cons have "\<not> p x" and "\<not> p (hd (rev s))" and "s \<noteq> []"
    using hd_rev [of s] by simp_all
  then have "dropWhile p (rev s) = rev s" by (cases "rev s") simp_all
  moreover have "dropWhile p s = s" using \<open>\<not> p x\<close> Cons by simp
  ultimately show ?thesis by (simp add: strip_by_def)
qed (simp add: strip_by_def)

lemma strip_by_ends:
  assumes "strip_by p s \<noteq> []"
  shows "\<not> p (hd (strip_by p s)) \<and> \<not> p (last (strip_by p s))"
proof -
  define t where "t = dropWhile p s"
  from assms have ne: "dropWhile p (rev t) \<noteq> []"
    by (simp add: strip_by_def t_def)
  then have last: "\<not> p (last (strip_by p s))"
    using hd_dropWhile [OF ne] by (simp add: strip_by_def t_def last_rev)
  from ne obtain y where "y \<in> set t" and "\<not> p y" by (auto simp: dropWhile_eq_Nil_conv)
  then have "t \<noteq> []" by auto
  then have hd_t: "\<not> p (hd t)" unfolding t_def by (rule hd_dropWhile)
  have "suffix (dropWhile p (rev t)) (rev t)" by (rule suffix_dropWhile)
  then have "prefix (strip_by p s) t"
    by (simp add: strip_by_def t_def suffix_to_prefix)
  then have "hd (strip_by p s) = hd t"
    using assms by (auto simp: prefix_def hd_append)
  with hd_t last show ?thesis by simp
qed

lemma strip_idem [simp]: "strip (strip s) = strip s"
  unfolding strip_def using strip_by_ends [of is_space s] by (intro strip_by_id) blast

section \<open>Decimal notation\<close>

fun show_nat :: "nat \<Rightarrow> string" where
  "show_nat n = (if n < 10 then [digit_char n] else show_nat (n div 10) @ [digit_char (n mod 10)])"

declare show_nat.simps [simp del]

definition show_int :: "int \<Rightarrow> string" where
  "show_int i = (if i < 0 then ''-'' @ show_nat (nat (- i)) else show_nat (nat i))"

text \<open>\<open>'{:0>w}'.format(s)\<close>: pad with zeros on the left up to \<open>w\<close> characters.\<close>

definition zero_pad :: "nat \<Rightarrow> string \<Rightarrow> string" where
  "zero_pad w s = replicate (w - length s) (CHR ''0'') @ s"

text \<open>
  The digits of a Python integer literal: one underscore may stand between two digits.
  \<open>digits_from\<close> reads what follows a digit.
\<close>

fun digits_from :: "nat \<Rightarrow> string \<Rightarrow> nat option" where
  "digits_from acc [] = Some acc"
| "digits_from acc [c] = (if is_digit c then Some (10 * acc + digit_val c) else None)"
| "digits_from acc (c # d # s) =
     (if is_digit c then digits_from (10 * acc + digit_val c) (d # s)
      else if c = CHR ''_'' \<and> is_digit d then digits_from (10 * acc + digit_val d) s
      else None)"

definition digits_value :: "string \<Rightarrow> nat option" where
  "digits_value s =
     (case s of [] \<Rightarrow> None
      | c # cs \<Rightarrow> if is_digit c then digits_from (digit_val c) cs else None)"

text \<open>\<open>int(text)\<close>: \<open>ValueError\<close> unless the stripped text is a sign and digits.\<close>

definition py_int :: "string \<Rightarrow> int res" where
  "py_int s =
     (case strip s of
        [] \<Rightarrow> Inl ValueError
      | c # cs \<Rightarrow>
          if c = CHR ''-'' then map_sum id (\<lambda>n. - int n) (of_option ValueError (digits_value cs))
          else if c = CHR ''+'' then map_sum id int (of_option ValueError (digits_value cs))
          else map_sum id int (of_option ValueError (digits_value (c # cs))))"

lemma show_nat_nonempty [simp]: "show_nat n \<noteq> []"
  by (subst show_nat.simps) simp

lemma show_nat_digits: "\<forall>c \<in> set (show_nat n). is_digit c"
proof (induction n rule: show_nat.induct)
  case (1 n)
  then show ?case by (subst show_nat.simps) auto
qed

lemma digits_from_append:
  "\<forall>c \<in> set s. is_digit c \<Longrightarrow> digits_from a s = Some b \<Longrightarrow> digits_from a (s @ t) = digits_from b t"
proof (induction a s rule: digits_from.induct)
  case (2 a c)
  then show ?case by (cases t) auto
next
  case (3 a c d s)
  then show ?case by (auto split: if_splits)
qed simp

lemma digits_value_show_nat: "digits_value (show_nat n) = Some n"
proof (induction n rule: show_nat.induct)
  case (1 n)
  show ?case
  proof (cases "n < 10")
    case True
    then show ?thesis by (simp add: show_nat.simps [of n] digits_value_def)
  next
    case False
    let ?s = "show_nat (n div 10)"
    from False "1.IH" have IH: "digits_value ?s = Some (n div 10)" by simp
    obtain c cs where s: "?s = c # cs" by (cases ?s) simp_all
    with show_nat_digits [of "n div 10"] have c: "is_digit c" "\<forall>x \<in> set cs. is_digit x" by auto
    with IH s have "digits_from (digit_val c) cs = Some (n div 10)"
      by (simp add: digits_value_def)
    then have "digits_from (digit_val c) (cs @ [digit_char (n mod 10)]) = Some n"
      using digits_from_append [OF c(2)] by simp
    with False s c show ?thesis
      by (simp add: show_nat.simps [of n] digits_value_def)
  qed
qed

lemma strip_digits: "\<forall>c \<in> set s. is_digit c \<Longrightarrow> strip s = s"
  unfolding strip_def
  by (intro strip_by_id) (cases "s = []", auto dest: is_digit_not_space)

lemma py_int_show_nat: "py_int (show_nat n) = Inr (int n)"
proof -
  obtain c cs where s: "show_nat n = c # cs" by (cases "show_nat n") simp_all
  with show_nat_digits [of n] have "is_digit c" by auto
  then have "c \<noteq> CHR ''-''" and "c \<noteq> CHR ''+''" by (auto simp: is_digit_def)
  with s strip_digits [OF show_nat_digits [of n]] digits_value_show_nat [of n]
  show ?thesis by (simp add: py_int_def)
qed

lemma py_int_show_int: "py_int (show_int i) = Inr i"
proof (cases "i < 0")
  case True
  let ?s = "show_nat (nat (- i))"
  have "\<not> is_space (last (CHR ''-'' # ?s))"
    using show_nat_digits [of "nat (- i)"] by (auto dest: is_digit_not_space)
  then have "strip (CHR ''-'' # ?s) = CHR ''-'' # ?s"
    unfolding strip_def by (intro strip_by_id) (simp add: is_space_def)
  with True show ?thesis
    by (simp add: show_int_def py_int_def digits_value_show_nat)
qed (simp add: show_int_def py_int_show_nat)

section \<open>Decimal numbers\<close>

text \<open>
  \<open>Decimal(text)\<close>: sign, coefficient and exponent, or one of the special values.  White
  space around the number and underscores anywhere are dropped first.  Text that is no
  number raises \<open>InvalidOperation\<close>.  The exponent bounds of the C library (18 digits) are
  out of the model.
\<close>

datatype decimal =
    Finite bool nat int
  | Infinite bool
  | NaN bool bool string

fun span :: "(char \<Rightarrow> bool) \<Rightarrow> string \<Rightarrow> string \<times> string" where
  "span p s = (takeWhile p s, dropWhile p s)"

definition nat_of_digits :: "string \<Rightarrow> nat" where
  "nat_of_digits = foldl (\<lambda>n c. 10 * n + digit_val c) 0"

definition lower_char :: "char \<Rightarrow> char" where
  "lower_char c = (if 65 \<le> ord c \<and> ord c \<le> 90 then char_of (ord c + 32) else c)"

definition lower :: "string \<Rightarrow> string" where
  "lower = map lower_char"

text \<open>The exponent part: nothing, or \<open>e\<close>, a sign or none, and digits.\<close>

definition dec_exponent :: "string \<Rightarrow> int option" where
  "dec_exponent s =
     (case s of
        [] \<Rightarrow> Some 0
      | e # r \<Rightarrow>
          if lower_char e \<noteq> CHR ''e'' then None
          else
            let neg = (case r of x # _ \<Rightarrow> x = CHR ''-'' | [] \<Rightarrow> False);
                ds = (case r of x # xs \<Rightarrow> if x = CHR ''-'' \<or> x = CHR ''+'' then xs else r | [] \<Rightarrow> r)
            in if ds \<noteq> [] \<and> list_all is_digit ds
               then Some (if neg then - int (nat_of_digits ds) else int (nat_of_digits ds))
               else None)"

definition dec_unsigned :: "bool \<Rightarrow> string \<Rightarrow> decimal option" where
  "dec_unsigned neg s =
     (let l = lower s; (ip, r) = span is_digit s in
      if l = ''inf'' \<or> l = ''infinity'' then Some (Infinite neg)
      else if take 3 l = ''nan'' \<and> list_all is_digit (drop 3 l) then Some (NaN neg False (drop 3 l))
      else if take 4 l = ''snan'' \<and> list_all is_digit (drop 4 l) then Some (NaN neg True (drop 4 l))
      else
        let (fp, r') = (case r of x # xs \<Rightarrow> if x = CHR ''.'' then span is_digit xs else ([], r)
                                | [] \<Rightarrow> ([], r))
        in if ip @ fp = [] then None
           else map_option (\<lambda>e. Finite neg (nat_of_digits (ip @ fp)) (e - int (length fp)))
                  (dec_exponent r'))"

definition py_decimal :: "string \<Rightarrow> decimal res" where
  "py_decimal s =
     of_option InvalidOperation
       (case filter (\<lambda>c. c \<noteq> CHR ''_'') (strip s) of
          [] \<Rightarrow> None
        | c # cs \<Rightarrow> if c = CHR ''-'' then dec_unsigned True cs
                    else if c = CHR ''+'' then dec_unsigned False cs
                    else dec_unsigned False (c # cs))"

section \<open>Dates\<close>

record datetime =
  year :: nat
  month :: nat
  day :: nat
  hour :: nat
  minute :: nat
  second :: nat
  microsecond :: nat

definition is_leap :: "nat \<Rightarrow> bool" where
  "is_leap y = (y mod 4 = 0 \<and> (y mod 100 \<noteq> 0 \<or> y mod 400 = 0))"

definition days_in_month :: "nat \<Rightarrow> nat \<Rightarrow> nat" where
  "days_in_month y m =
     (if m = 2 then if is_leap y then 29 else 28
      else if m \<in> set [4, 6, 9, 11] then 30 else 31)"

text \<open>
  One numeric field of \<open>strptime\<close>: digits up to the literal character \<open>c\<close> that follows it
  in the format (compared without case), their number within \<open>[lo, hi]\<close>.
\<close>

definition time_field :: "nat \<Rightarrow> nat \<Rightarrow> char \<Rightarrow> string \<Rightarrow> (nat \<times> string) option" where
  "time_field lo hi c s =
     (let (ds, r) = span is_digit s in
      case r of
        [] \<Rightarrow> None
      | x # xs \<Rightarrow>
          if lower_char x = lower_char c \<and> lo \<le> length ds \<and> length ds \<le> hi
          then Some (nat_of_digits ds, xs) else None)"

text \<open>The day field also takes a space and one digit from 1 to 9.\<close>

definition day_field :: "char \<Rightarrow> string \<Rightarrow> (nat \<times> string) option" where
  "day_field c s =
     (case s of
        x # y # z # r \<Rightarrow>
          if x = CHR '' '' then
            (if is_digit y \<and> y \<noteq> CHR ''0'' \<and> lower_char z = lower_char c
             then Some (digit_val y, r) else None)
          else time_field 1 2 c s
      | _ \<Rightarrow> None)"

text \<open>
  \<open>datetime.strptime(s, '%Y-%m-%dT%H:%M:%SZ')\<close>.  \<open>%S\<close> matches up to 61, but a
  \<open>datetime\<close> has no second 60 or 61; both failures are a \<open>ValueError\<close>.
\<close>

definition strptime_iso :: "string \<Rightarrow> datetime res" where
  "strptime_iso s = of_option ValueError
     (case time_field 4 4 (CHR ''-'') s of None \<Rightarrow> None | Some (y, s1) \<Rightarrow>
      case time_field 1 2 (CHR ''-'') s1 of None \<Rightarrow> None | Some (m, s2) \<Rightarrow>
      case day_field (CHR ''T'') s2 of None \<Rightarrow> None | Some (d, s3) \<Rightarrow>
      case time_field 1 2 (CHR '':'') s3 of None \<Rightarrow> None | Some (h, s4) \<Rightarrow>
      case time_field 1 2 (CHR '':'') s4 of None \<Rightarrow> None | Some (mi, s5) \<Rightarrow>
      case time_field 1 2 (CHR ''Z'') s5 of None \<Rightarrow> None | Some (sec, s6) \<Rightarrow>
      if s6 = [] \<and> 1 \<le> y \<and> 1 \<le> m \<and> m \<le> 12 \<and> 1 \<le> d \<and> d \<le> days_in_month y m \<and>
         h \<le> 23 \<and> mi \<le> 59 \<and> sec \<le> 59
      then Some \<lparr>year = y, month = m, day = d, hour = h, minute = mi, second = sec, microsecond = 0\<rparr>
      else None)"

text \<open>\<open>str(datetime)\<close>: the microseconds are left out when they are 0.\<close>

definition show_datetime :: "datetime \<Rightarrow> string" where
  "show_datetime t =
     zero_pad 4 (show_nat (year t)) @ ''-'' @ zero_pad 2 (show_nat (month t)) @ ''-'' @
     zero_pad 2 (show_nat (day t)) @ '' '' @ zero_pad 2 (show_nat (hour t)) @ '':'' @
     zero_pad 2 (show_nat (minute t)) @ '':'' @ zero_pad 2 (show_nat (second t)) @
     (if microsecond t = 0 then [] else ''.'' @ zero_pad 6 (show_nat (microsecond t)))"

end
