(* ===== verification/Sql_Text.thy ===== *)
theory Sql_Text
  imports Py_Strings
begin

text \<open>
  The program builds its SQL by pasting values between single quotes.  This theory reads
  such text back: \<open>lex_out\<close> lists the string literals of a statement as PostgreSQL reads
  them (two quotes inside a literal stand for one), \<open>undouble\<close> is the value of the text
  pasted between two quotes, \<open>None\<close> where a lone quote would end the literal early.
\<close>

function (sequential) lex_out :: "string \<Rightarrow> string list option"
  and lex_in :: "string \<Rightarrow> string \<Rightarrow> string list option" where
  "lex_out [] = Some []"
| "lex_out (c # s) = (if c = quote then lex_in [] s else lex_out s)"
| "lex_in acc [] = None"
| "lex_in acc [c] = (if c = quote then Some [acc] else None)"
| "lex_in acc (c # d # s) =
     (if c = quote then
        if d = quote then lex_in (acc @ [quote]) s
        else map_option (Cons acc) (lex_out (d # s))
      else lex_in (acc @ [c]) (d # s))"
  by pat_completeness auto
termination
  by (relation "measure (\<lambda>x. case x of Inl s \<Rightarrow> length s | Inr (acc, s) \<Rightarrow> length s)") auto

fun undouble :: "string \<Rightarrow> string option" where
  "undouble [] = Some []"
| "undouble [c] = (if c = quote then None else Some [c])"
| "undouble (c # d # s) =
     (if c = quote then if d = quote then map_option (Cons quote) (undouble s) else None
      else map_option (Cons c) (undouble (d # s)))"

definition well_quoted :: "string \<Rightarrow> bool" where
  "well_quoted s = (undouble s \<noteq> None)"

definition unquoted :: "string \<Rightarrow> string" where
  "unquoted s = (case undouble s of None \<Rightarrow> [] | Some v \<Rightarrow> v)"

lemma undouble_plain: "quote \<notin> set s \<Longrightarrow> undouble s = Some s"
  by (induction s rule: undouble.induct) auto

lemma well_quoted_plain: "quote \<notin> set s \<Longrightarrow> well_quoted s"
  by (simp add: well_quoted_def undouble_plain)

lemma unquoted_plain: "quote \<notin> set s \<Longrightarrow> unquoted s = s"
  by (simp add: unquoted_def undouble_plain)

lemma undouble_append:
  "undouble s = Some v \<Longrightarrow> undouble (s @ t) = map_option ((@) v) (undouble t)"
proof (induction s arbitrary: v rule: undouble.induct)
  case 1
  then show ?case by (simp add: option.map_ident)
next
  case (2 c)
  then show ?case by (cases t) (auto split: if_splits)
next
  case (3 c d s)
  then show ?case by (auto split: if_splits simp: option.map_comp comp_def)
qed

lemma well_quoted_append: "well_quoted s \<Longrightarrow> well_quoted t \<Longrightarrow> well_quoted (s @ t)"
  by (auto simp: well_quoted_def undouble_append)

text \<open>Doubling every quote makes any text safe to paste.\<close>

definition sql_escape :: "string \<Rightarrow> string" where
  "sql_escape s = concat (map (\<lambda>c. if c = quote then [quote, quote] else [c]) s)"

lemma undouble_sql_escape: "undouble (sql_escape s) = Some s"
proof (induction s)
  case (Cons c s)
  have "sql_escape (c # s) = sql_escape [c] @ sql_escape s" by (simp add: sql_escape_def)
  moreover have "undouble (sql_escape [c]) = Some [c]" by (simp add: sql_escape_def)
  ultimately show ?case by (simp add: undouble_append Cons.IH)
qed (simp add: sql_escape_def)

section \<open>Reading a statement back\<close>

lemma lex_out_plain: "quote \<notin> set p \<Longrightarrow> lex_out (p @ s) = lex_out s"
  by (induction p) auto

lemma lex_out_plain_end: "quote \<notin> set p \<Longrightarrow> lex_out p = Some []"
  using lex_out_plain [of p "[]"] by simp

lemma lex_in_literal:
  assumes "undouble h = Some v" and "t = [] \<or> hd t \<noteq> quote"
  shows "lex_in acc (h @ quote # t) = map_option (Cons (acc @ v)) (lex_out t)"
  using assms
proof (induction h arbitrary: acc v rule: undouble.induct)
  case 1
  then show ?case by (cases t) auto
next
  case (2 c)
  then show ?case by (cases t) (auto split: if_splits)
next
  case (3 c d s)
  then show ?case by (auto split: if_splits)
qed

lemma lex_out_literal:
  assumes "quote \<notin> set p" and "undouble h = Some v" and "t = [] \<or> hd t \<noteq> quote"
  shows "lex_out (p @ quote # h @ quote # t) = map_option (Cons v) (lex_out t)"
  using assms lex_in_literal [of h v t "[]"] by (simp add: lex_out_plain)

lemma map_undouble:
  "list_all well_quoted hs \<Longrightarrow> map undouble hs = map Some (map unquoted hs)"
  by (induction hs) (auto simp: well_quoted_def unquoted_def split: option.splits)

text \<open>The literals of \<open>'a','b','c'\<close>, as \<open>"'" + "','".join(hs) + "'"\<close> writes them.\<close>

lemma lex_out_quoted_join:
  assumes "hs \<noteq> []" and "list_all well_quoted hs" and "t = [] \<or> hd t \<noteq> quote"
  shows "lex_out (quote # join [quote, CHR '','', quote] hs @ quote # t) =
    map_option ((@) (map unquoted hs)) (lex_out t)"
  using assms
proof (induction "[quote, CHR '','', quote]" hs rule: join.induct)
  case (2 h)
  then obtain v where "undouble h = Some v" by (auto simp: well_quoted_def)
  with 2 lex_out_literal [of "[]" h v t] show ?case by (simp add: unquoted_def del: lex_out.simps)
next
  case (3 h h' hs)
  from "3.prems" obtain v where v: "undouble h = Some v" by (auto simp: well_quoted_def)
  let ?rest = "quote # join [quote, CHR '','', quote] (h' # hs) @ quote # t"
  from "3.prems" have IH: "lex_out ?rest = map_option ((@) (map unquoted (h' # hs))) (lex_out t)"
    by (intro "3.hyps") auto
  have skip: "lex_out (CHR '','' # ?rest) = lex_out ?rest"
    by (simp only: lex_out.simps) simp
  have "quote # join [quote, CHR '','', quote] (h # h' # hs) @ quote # t =
      quote # h @ quote # (CHR '','' # ?rest)" by simp
  then have "lex_out (quote # join [quote, CHR '','', quote] (h # h' # hs) @ quote # t) =
      map_option (Cons v) (lex_out ?rest)"
    using lex_out_literal [of "[]" h v "CHR '','' # ?rest"] v
    by (simp only: append_Nil skip) simp
  then show ?case
    unfolding IH using v by (simp add: unquoted_def option.map_comp comp_def)
qed simp

end
