(* ===== verification/Meta_Db.thy ===== *)
theory Meta_Db
  imports Sql_Text
begin

text \<open>
  The metadata database of the Lambda, as the program sees it: the statements of logs.py
  and schemas_xml.py, each with the text the program sends, what PostgreSQL documents that
  the statement does, and the transaction rules of a psycopg2 connection.  PostgreSQL and
  the C part of psycopg2 are not part of the repository: they are the parameters of the
  locale \<open>pg_connection\<close>, whose assumptions are the documented behaviour.
\<close>

section \<open>Statements\<close>

datatype sql =
    CreateLogTable
  | InsertLog datetime string int "string list"
  | CreateSchemasTable
  | InsertSchema string string string string
  | SelectSchema string string

text \<open>The f-strings of \<open>create_xml_log_table\<close>, with the names of logs.py put in.\<close>

definition create_log_text :: string where
  "create_log_text =
     ''CREATE TABLE IF NOT EXISTS xml_log ('' @
     ''date_time_utc timestamp without time zone,'' @
     ''file text,'' @
     ''status smallint,'' @
     ''messages text[] NOT NULL,'' @
     ''PRIMARY KEY (date_time_utc));''"

definition log_lines :: "string list \<Rightarrow> string" where
  "log_lines msgs =
     ''ARRAY['' @ [quote] @ join [quote, CHR '','', quote] msgs @ [quote] @ '']''"

definition insert_log_text :: "datetime \<Rightarrow> string \<Rightarrow> int \<Rightarrow> string list \<Rightarrow> string" where
  "insert_log_text t file status msgs =
     ''INSERT INTO xml_log ('' @
     ''date_time_utc, file, status, messages) '' @
     ''VALUES ('' @
     [quote] @ show_datetime t @ [quote] @ '', '' @ [quote] @ file @ [quote] @ '', '' @
     show_int status @ '', '' @ log_lines msgs @ '');''"

text \<open>The f-strings of \<open>create_schemas_meta_table\<close>, \<open>add_schema\<close> and \<open>find_schema\<close>.\<close>

definition create_schemas_text :: string where
  "create_schemas_text =
     ''CREATE TABLE IF NOT EXISTS xml_schemas ('' @
     ''file_pattern text,'' @
     ''schema_datetime_utc timestamp without time zone,'' @
     ''schema_description text,'' @
     ''processing_schema json NOT NULL,'' @
     ''PRIMARY KEY (file_pattern, schema_datetime_utc));''"

definition insert_schema_text :: "string \<Rightarrow> string \<Rightarrow> string \<Rightarrow> string \<Rightarrow> string" where
  "insert_schema_text pattern time desc processing =
     ''INSERT INTO xml_schemas '' @
     ''(file_pattern, schema_datetime_utc, schema_description, processing_schema) '' @
     ''VALUES '' @
     ''('' @ [quote] @ pattern @ [quote] @ '', '' @ [quote] @ time @ [quote] @ '', '' @
     [quote] @ desc @ [quote] @ '', '' @ [quote] @ processing @ [quote] @ ''::json) '' @
     ''ON CONFLICT DO NOTHING;''"

definition select_schema_text :: "string \<Rightarrow> string \<Rightarrow> string" where
  "select_schema_text object_key date =
     ''SELECT * FROM xml_schemas AS t '' @
     ''WHERE '' @ [quote] @ object_key @ [quote] @ '' LIKE t.file_pattern'' @
     '' AND t.schema_datetime_utc <= '' @ [quote] @ date @ [quote] @ '' '' @
     ''ORDER BY t.schema_datetime_utc DESC '' @
     ''LIMIT 1;''"

fun sql_text :: "sql \<Rightarrow> string" where
  "sql_text CreateLogTable = create_log_text"
| "sql_text (InsertLog t f s ms) = insert_log_text t f s ms"
| "sql_text CreateSchemasTable = create_schemas_text"
| "sql_text (InsertSchema p t d j) = insert_schema_text p t d j"
| "sql_text (SelectSchema k d) = select_schema_text k d"

text \<open>The values the program pastes between quotes, in the order of the text.\<close>

fun sql_holes :: "sql \<Rightarrow> string list" where
  "sql_holes CreateLogTable = []"
| "sql_holes (InsertLog t f s ms) =
     show_datetime t # f # (if ms = [] then [[]] else ms)"
| "sql_holes CreateSchemasTable = []"
| "sql_holes (InsertSchema p t d j) = [p, t, d, j]"
| "sql_holes (SelectSchema k d) = [k, d]"

definition stmt_quoted :: "sql \<Rightarrow> bool" where
  "stmt_quoted st = list_all well_quoted (sql_holes st)"

lemma is_digit_not_quote: "is_digit c \<Longrightarrow> c \<noteq> quote"
  by (auto simp: is_digit_def)

lemma show_nat_no_quote [simp]: "quote \<notin> set (show_nat n)"
  using show_nat_digits [of n] is_digit_not_quote by blast

lemma zero_pad_no_quote [simp]: "quote \<notin> set s \<Longrightarrow> quote \<notin> set (zero_pad w s)"
  by (auto simp: zero_pad_def)

lemma show_datetime_no_quote [simp]: "quote \<notin> set (show_datetime t)"
  by (simp add: show_datetime_def)

lemma show_int_no_quote [simp]: "quote \<notin> set (show_int i)"
  by (simp add: show_int_def)

lemma lex_out_prefix:
  "quote \<notin> set p \<Longrightarrow> undouble h = Some v \<Longrightarrow> t = [] \<or> hd t \<noteq> quote \<Longrightarrow>
   lex_out (p @ [quote] @ h @ [quote] @ t) = map_option (Cons v) (lex_out t)"
  using lex_out_literal [of p h v t] by simp

lemma undouble_unquoted: "well_quoted h \<Longrightarrow> undouble h = Some (unquoted h)"
  by (auto simp: well_quoted_def unquoted_def)

lemma insert_log_literals:
  assumes "well_quoted f" and "list_all well_quoted ms"
  shows "lex_out (insert_log_text t f s ms) =
    Some (show_datetime t # unquoted f # (if ms = [] then [[]] else map unquoted ms))"
proof -
  let ?ms = "if ms = [] then [[]] else ms"
  let ?tail = "'', '' @ show_int s @ '', ARRAY['' @
     quote # join [quote, CHR '','', quote] ?ms @ quote # '']);''"
  have ms: "?ms \<noteq> []" "list_all well_quoted ?ms"
    using assms(2) by (auto simp: well_quoted_def)
  have "lex_out ?tail = lex_out (quote # join [quote, CHR '','', quote] ?ms @ quote # '']);'')"
    using lex_out_plain [of "'', '' @ show_int s @ '', ARRAY[''"] by simp
  also have "\<dots> = map_option ((@) (map unquoted ?ms)) (lex_out '']);'')"
    using lex_out_quoted_join [OF ms, of "'']);''"] by simp
  also have "lex_out '']);'' = Some []" by simp
  finally have tail: "lex_out ?tail = Some (map unquoted ?ms)" by simp
  have "lex_out ('', '' @ [quote] @ f @ [quote] @ ?tail) = Some (unquoted f # map unquoted ?ms)"
    using lex_out_prefix [of "'', ''" f "unquoted f" ?tail] undouble_unquoted [OF assms(1)] tail
    by simp
  moreover have "insert_log_text t f s ms =
     ''INSERT INTO xml_log (date_time_utc, file, status, messages) VALUES ('' @
     [quote] @ show_datetime t @ [quote] @ '', '' @ [quote] @ f @ [quote] @ ?tail"
    by (simp add: insert_log_text_def log_lines_def)
  ultimately show ?thesis
    using lex_out_prefix [of "''INSERT INTO xml_log (date_time_utc, file, status, messages) VALUES (''"
        "show_datetime t" "show_datetime t" "'', '' @ [quote] @ f @ [quote] @ ?tail"]
    by (simp add: undouble_plain unquoted_def)
qed

lemma insert_schema_literals:
  assumes "well_quoted p" "well_quoted t" "well_quoted d" "well_quoted j"
  shows "lex_out (insert_schema_text p t d j) = Some [unquoted p, unquoted t, unquoted d, unquoted j]"
proof -
  note u = assms [THEN undouble_unquoted]
  let ?t4 = "''::json) ON CONFLICT DO NOTHING;''"
  let ?t3 = "'', '' @ [quote] @ j @ [quote] @ ?t4"
  let ?t2 = "'', '' @ [quote] @ d @ [quote] @ ?t3"
  let ?t1 = "'', '' @ [quote] @ t @ [quote] @ ?t2"
  let ?p = "''INSERT INTO xml_schemas (file_pattern, schema_datetime_utc, schema_description, processing_schema) VALUES (''"
  have 4: "lex_out ?t4 = Some []" by (rule lex_out_plain_end) simp
  have 3: "lex_out ?t3 = Some [unquoted j]"
    using lex_out_prefix [of "'', ''" j "unquoted j" ?t4] u 4 by simp
  have 2: "lex_out ?t2 = Some [unquoted d, unquoted j]"
    using lex_out_prefix [of "'', ''" d "unquoted d" ?t3] u 3 by simp
  have 1: "lex_out ?t1 = Some [unquoted t, unquoted d, unquoted j]"
    using lex_out_prefix [of "'', ''" t "unquoted t" ?t2] u 2 by simp
  have "insert_schema_text p t d j = ?p @ [quote] @ p @ [quote] @ ?t1"
    by (simp add: insert_schema_text_def)
  with lex_out_prefix [of ?p p "unquoted p" ?t1] u 1 show ?thesis by simp
qed

lemma select_schema_literals:
  assumes "well_quoted k" "well_quoted d"
  shows "lex_out (select_schema_text k d) = Some [unquoted k, unquoted d]"
proof -
  note u = assms [THEN undouble_unquoted]
  let ?t2 = "'' ORDER BY t.schema_datetime_utc DESC LIMIT 1;''"
  let ?t1 = "'' LIKE t.file_pattern AND t.schema_datetime_utc <= '' @ [quote] @ d @ [quote] @ ?t2"
  let ?p = "''SELECT * FROM xml_schemas AS t WHERE ''"
  have 2: "lex_out ?t2 = Some []" by (rule lex_out_plain_end) simp
  have 1: "lex_out ?t1 = Some [unquoted d]"
    using lex_out_prefix [of "'' LIKE t.file_pattern AND t.schema_datetime_utc <= ''" d "unquoted d" ?t2] u 2
    by simp
  have "select_schema_text k d = ?p @ [quote] @ k @ [quote] @ ?t1"
    by (simp add: select_schema_text_def)
  with lex_out_prefix [of ?p k "unquoted k" ?t1] u 1 show ?thesis by simp
qed

lemma sql_text_literals:
  assumes "stmt_quoted st"
  shows "lex_out (sql_text st) = Some (map unquoted (sql_holes st))"
proof (cases st)
  case CreateLogTable
  then show ?thesis by (simp add: create_log_text_def lex_out_plain_end)
next
  case (InsertLog t f s ms)
  with assms have "well_quoted f" "list_all well_quoted ms"
    by (auto simp: stmt_quoted_def split: if_splits)
  with InsertLog show ?thesis
    by (simp add: insert_log_literals unquoted_plain)
next
  case CreateSchemasTable
  then show ?thesis by (simp add: create_schemas_text_def lex_out_plain_end)
next
  case (InsertSchema p t d j)
  with assms show ?thesis by (simp add: stmt_quoted_def insert_schema_literals)
next
  case (SelectSchema k d)
  with assms show ?thesis by (simp add: stmt_quoted_def select_schema_literals)
qed

section \<open>The two tables\<close>

record log_row =
  lr_time :: datetime
  lr_file :: string
  lr_status :: int
  lr_messages :: "string list"

record schema_row =
  sr_pattern :: string
  sr_time :: nat
  sr_description :: string
  sr_processing :: string

text \<open>\<open>None\<close> is a table that does not exist yet.\<close>

record meta_db =
  xml_log :: "log_row list option"
  xml_schemas :: "schema_row list option"

definition the_rows :: "'r list option \<Rightarrow> 'r list" where
  "the_rows t = (case t of None \<Rightarrow> [] | Some rs \<Rightarrow> rs)"

lemma the_rows_simps [simp]: "the_rows None = []" "the_rows (Some rs) = rs"
  by (simp_all add: the_rows_def)

text \<open>\<open>subject LIKE pattern\<close>: percent, underscore and the backslash escape.\<close>

fun like :: "string \<Rightarrow> string \<Rightarrow> bool" where
  "like [] s = (s = [])"
| "like (p # ps) [] = (p = CHR ''%'' \<and> like ps [])"
| "like (p # ps) (c # cs) =
     (if p = CHR ''%'' then like ps (c # cs) \<or> like (p # ps) cs
      else if p = CHR ''_'' then like ps cs
      else if p = CHR 0x5C then
        (case ps of [] \<Rightarrow> False | q # qs \<Rightarrow> q = c \<and> like qs cs)
      else p = c \<and> like ps cs)"

fun dangling_escape :: "string \<Rightarrow> bool" where
  "dangling_escape [] = False"
| "dangling_escape [c] = (c = CHR 0x5C)"
| "dangling_escape (c # d # s) = (if c = CHR 0x5C then dangling_escape s else dangling_escape (d # s))"

text \<open>
  Whether a statement is one whose behaviour the model describes, whether PostgreSQL
  accepts it, what it leaves behind and what it answers.  \<open>ts\<close> reads a timestamp (as
  microseconds of an epoch), \<open>json_ok\<close> is the check of a \<open>::json\<close> cast.
\<close>

definition described :: "meta_db \<Rightarrow> sql \<Rightarrow> bool" where
  "described db st =
     (stmt_quoted st \<and>
      (case st of
         SelectSchema k d \<Rightarrow>
           list_all (\<lambda>r. \<not> dangling_escape (sr_pattern r)) (the_rows (xml_schemas db))
       | _ \<Rightarrow> True))"

fun accepts :: "(string \<Rightarrow> nat option) \<Rightarrow> (string \<Rightarrow> bool) \<Rightarrow> meta_db \<Rightarrow> sql \<Rightarrow> bool" where
  "accepts ts json_ok db CreateLogTable = True"
| "accepts ts json_ok db (InsertLog t f s ms) =
     (case xml_log db of None \<Rightarrow> False
      | Some rows \<Rightarrow> t \<notin> lr_time ` set rows \<and> -32768 \<le> s \<and> s \<le> 32767)"
| "accepts ts json_ok db CreateSchemasTable = True"
| "accepts ts json_ok db (InsertSchema p t d j) =
     (xml_schemas db \<noteq> None \<and> ts (unquoted t) \<noteq> None \<and> json_ok (unquoted j))"
| "accepts ts json_ok db (SelectSchema k d) =
     (xml_schemas db \<noteq> None \<and> ts (unquoted d) \<noteq> None)"

definition same_key :: "schema_row \<Rightarrow> schema_row \<Rightarrow> bool" where
  "same_key r r' = (sr_pattern r = sr_pattern r' \<and> sr_time r = sr_time r')"

fun after :: "(string \<Rightarrow> nat option) \<Rightarrow> meta_db \<Rightarrow> sql \<Rightarrow> meta_db" where
  "after ts db CreateLogTable = db\<lparr>xml_log := Some (the_rows (xml_log db))\<rparr>"
| "after ts db (InsertLog t f s ms) =
     db\<lparr>xml_log := Some (the_rows (xml_log db) @
        [\<lparr>lr_time = t, lr_file = unquoted f, lr_status = s,
          lr_messages = (if ms = [] then [[]] else map unquoted ms)\<rparr>])\<rparr>"
| "after ts db CreateSchemasTable = db\<lparr>xml_schemas := Some (the_rows (xml_schemas db))\<rparr>"
| "after ts db (InsertSchema p t d j) =
     (let rows = the_rows (xml_schemas db);
          r = \<lparr>sr_pattern = unquoted p, sr_time = the (ts (unquoted t)),
               sr_description = unquoted d, sr_processing = unquoted j\<rparr>
      in if list_ex (same_key r) rows then db else db\<lparr>xml_schemas := Some (rows @ [r])\<rparr>)"
| "after ts db (SelectSchema k d) = db"

definition candidates :: "nat \<Rightarrow> string \<Rightarrow> schema_row list \<Rightarrow> schema_row list" where
  "candidates limit key rows = filter (\<lambda>r. like (sr_pattern r) key \<and> sr_time r \<le> limit) rows"

fun answers :: "(string \<Rightarrow> nat option) \<Rightarrow> meta_db \<Rightarrow> sql \<Rightarrow> schema_row list \<Rightarrow> bool" where
  "answers ts db (SelectSchema k d) out =
     (let cs = candidates (the (ts (unquoted d))) (unquoted k) (the_rows (xml_schemas db)) in
      case out of
        [] \<Rightarrow> cs = []
      | [r] \<Rightarrow> r \<in> set cs \<and> list_all (\<lambda>r'. sr_time r' \<le> sr_time r) cs
      | _ \<Rightarrow> False)"
| "answers ts db _ out = (out = [])"

section \<open>The connection\<close>

record 'c db_ops =
  db_execute :: "sql \<Rightarrow> 'c \<Rightarrow> (exn + schema_row list) \<times> 'c"
  db_commit :: "'c \<Rightarrow> (exn + unit) \<times> 'c"

text \<open>
  The contract of the connection: what the other sessions see (\<open>saved\<close>), what this
  transaction sees (\<open>pending\<close>), and whether the transaction still takes statements.  A
  refused statement aborts the transaction, and from then on every statement is refused
  until a rollback, which the program never asks for.
\<close>

locale pg_connection =
  fixes ops :: "('c, 'm) db_ops_scheme"
    and ts :: "string \<Rightarrow> nat option"
    and json_ok :: "string \<Rightarrow> bool"
    and saved :: "'c \<Rightarrow> meta_db"
    and pending :: "'c \<Rightarrow> meta_db"
    and usable :: "'c \<Rightarrow> bool"
  assumes execute_ok:
    "usable c \<Longrightarrow> described (pending c) st \<Longrightarrow> accepts ts json_ok (pending c) st \<Longrightarrow>
     \<exists>rows c'. db_execute ops st c = (Inr rows, c') \<and> answers ts (pending c) st rows \<and>
       usable c' \<and> saved c' = saved c \<and> pending c' = after ts (pending c) st"
  and execute_refused:
    "usable c \<Longrightarrow> described (pending c) st \<Longrightarrow> \<not> accepts ts json_ok (pending c) st \<Longrightarrow>
     \<exists>c'. db_execute ops st c = (Inl DatabaseError, c') \<and> \<not> usable c' \<and> saved c' = saved c"
  and execute_aborted:
    "\<not> usable c \<Longrightarrow>
     \<exists>c'. db_execute ops st c = (Inl DatabaseError, c') \<and> \<not> usable c' \<and> saved c' = saved c"
  and commit_ok:
    "usable c \<Longrightarrow>
     \<exists>c'. db_commit ops c = (Inr (), c') \<and> usable c' \<and> saved c' = pending c \<and> pending c' = pending c"

section \<open>A reference connection\<close>

text \<open>
  A connection that keeps the contract, with the texts it was sent.  It refuses a
  statement with a lone quote in a value; the contract says nothing of such a statement,
  which PostgreSQL may also run as something else.
\<close>

record ref_conn =
  rc_saved :: meta_db
  rc_pending :: meta_db
  rc_aborted :: bool
  rc_sent :: "string list"

fun latest :: "schema_row list \<Rightarrow> schema_row option" where
  "latest [] = None"
| "latest (r # rs) =
     (case latest rs of None \<Rightarrow> Some r
      | Some r' \<Rightarrow> if sr_time r' \<le> sr_time r then Some r else Some r')"

fun ref_answer :: "(string \<Rightarrow> nat option) \<Rightarrow> meta_db \<Rightarrow> sql \<Rightarrow> schema_row list" where
  "ref_answer ts db (SelectSchema k d) =
     (case latest (candidates (the (ts (unquoted d))) (unquoted k) (the_rows (xml_schemas db))) of
        None \<Rightarrow> [] | Some r \<Rightarrow> [r])"
| "ref_answer ts db _ = []"

definition ref_execute ::
  "(string \<Rightarrow> nat option) \<Rightarrow> (string \<Rightarrow> bool) \<Rightarrow> sql \<Rightarrow> ref_conn \<Rightarrow> (exn + schema_row list) \<times> ref_conn" where
  "ref_execute ts json_ok st c =
     (let c' = c\<lparr>rc_sent := rc_sent c @ [sql_text st]\<rparr> in
      if rc_aborted c then (Inl DatabaseError, c')
      else if described (rc_pending c) st \<and> accepts ts json_ok (rc_pending c) st
      then (Inr (ref_answer ts (rc_pending c) st), c'\<lparr>rc_pending := after ts (rc_pending c) st\<rparr>)
      else (Inl DatabaseError, c'\<lparr>rc_aborted := True\<rparr>))"

definition ref_commit :: "ref_conn \<Rightarrow> (exn + unit) \<times> ref_conn" where
  "ref_commit c =
     (if rc_aborted c then (Inr (), c\<lparr>rc_pending := rc_saved c, rc_aborted := False\<rparr>)
      else (Inr (), c\<lparr>rc_saved := rc_pending c\<rparr>))"

definition ref_ops :: "(string \<Rightarrow> nat option) \<Rightarrow> (string \<Rightarrow> bool) \<Rightarrow> ref_conn db_ops" where
  "ref_ops ts json_ok = \<lparr>db_execute = ref_execute ts json_ok, db_commit = ref_commit\<rparr>"

lemma latest_None_iff: "latest rs = None \<longleftrightarrow> rs = []"
  by (cases rs) (auto split: option.splits)

lemma latest_Some:
  "latest rs = Some r \<Longrightarrow> r \<in> set rs \<and> (\<forall>r' \<in> set rs. sr_time r' \<le> sr_time r)"
proof (induction rs arbitrary: r)
  case (Cons a rs)
  then show ?case
    by (cases "latest rs") (fastforce simp: latest_None_iff split: if_splits)+
qed simp

lemma ref_answer_answers: "answers ts db st (ref_answer ts db st)"
  by (cases st)
    (auto simp: latest_None_iff list_all_iff Let_def dest: latest_Some split: option.splits)

interpretation ref: pg_connection "ref_ops ts json_ok" ts json_ok rc_saved rc_pending
  "\<lambda>c. \<not> rc_aborted c"
  by unfold_locales
    (auto simp: ref_ops_def ref_execute_def ref_commit_def Let_def ref_answer_answers)

end
