(* ===== verification/Logs.thy ===== *)
theory Logs
  imports Meta_Db
begin

text \<open>
  logs.py: the in-memory logger and its commits to the table xml_log.  The state of the
  Lambda is a record: the database connection, the logger list \<open>[time, messages]\<close> as two
  fields, and how often the clock has been read; \<open>now k\<close> is the k-th reading of
  \<open>datetime.utcnow()\<close>.
\<close>

definition missing :: int where "missing = -1"
definition succeeded :: int where "succeeded = 0"
definition failed :: int where "failed = 1"
definition processing :: int where "processing = 2"

lemmas status_defs = missing_def succeeded_def failed_def processing_def

record 'c world =
  w_conn :: 'c
  w_log_time :: datetime
  w_log :: "string list"
  w_ticks :: nat

definition utcnow :: "(nat \<Rightarrow> datetime) \<Rightarrow> (('c, 'm) world_scheme, exn, datetime) act" where
  "utcnow now w = (Inr (now (w_ticks w)), w\<lparr>w_ticks := Suc (w_ticks w)\<rparr>)"

text \<open>Statements and commits of the connection, lifted to the state of the Lambda.\<close>

definition execute ::
  "('c, 'o) db_ops_scheme \<Rightarrow> sql \<Rightarrow> (('c, 'm) world_scheme, exn, schema_row list) act" where
  "execute ops st w =
     (case db_execute ops st (w_conn w) of (r, c) \<Rightarrow> (r, w\<lparr>w_conn := c\<rparr>))"

definition commit :: "('c, 'o) db_ops_scheme \<Rightarrow> (('c, 'm) world_scheme, exn, unit) act" where
  "commit ops w = (case db_commit ops (w_conn w) of (r, c) \<Rightarrow> (r, w\<lparr>w_conn := c\<rparr>))"

definition create_xml_log_table :: "('c, 'o) db_ops_scheme \<Rightarrow> (('c, 'm) world_scheme, exn, unit) act" where
  "create_xml_log_table ops = sbind (execute ops CreateLogTable) (\<lambda>_. commit ops)"

definition get_logger :: "(nat \<Rightarrow> datetime) \<Rightarrow> (('c, 'm) world_scheme, exn, unit) act" where
  "get_logger now =
     sbind (utcnow now) (\<lambda>t. modify (\<lambda>w. w\<lparr>w_log_time := t, w_log := []\<rparr>))"

definition push_message :: "(nat \<Rightarrow> datetime) \<Rightarrow> string \<Rightarrow> (('c, 'm) world_scheme, exn, unit) act" where
  "push_message now s =
     sbind (utcnow now) (\<lambda>t. modify (\<lambda>w. w\<lparr>w_log := w_log w @ [show_datetime t @ '': '' @ s]\<rparr>))"

fun push_messages :: "(nat \<Rightarrow> datetime) \<Rightarrow> string list \<Rightarrow> (('c, 'm) world_scheme, exn, unit) act" where
  "push_messages now [] = ret ()"
| "push_messages now (s # ss) = sbind (push_message now s) (\<lambda>_. push_messages now ss)"

definition commit_log ::
  "('c, 'o) db_ops_scheme \<Rightarrow> (nat \<Rightarrow> datetime) \<Rightarrow> string option \<Rightarrow> int \<Rightarrow>
   (('c, 'm) world_scheme, exn, unit) act" where
  "commit_log ops now filename status =
     sbind (create_xml_log_table ops) (\<lambda>_.
     sbind (\<lambda>w. execute ops
              (InsertLog (w_log_time w) (case filename of None \<Rightarrow> ''None'' | Some f \<Rightarrow> f)
                 status (w_log w)) w) (\<lambda>_.
     sbind (commit ops) (\<lambda>_.
     sbind (modify (\<lambda>w. w\<lparr>w_log := []\<rparr>)) (\<lambda>_.
     sbind (utcnow now) (\<lambda>t.
     modify (\<lambda>w. w\<lparr>w_log_time := t\<rparr>))))))"

section \<open>Messages\<close>

lemma utcnow_run [simp]: "utcnow now w = (Inr (now (w_ticks w)), w\<lparr>w_ticks := Suc (w_ticks w)\<rparr>)"
  by (simp add: utcnow_def)

lemma get_logger_run [simp]:
  "get_logger now w =
     (Inr (), w\<lparr>w_ticks := Suc (w_ticks w), w_log_time := now (w_ticks w), w_log := []\<rparr>)"
  by (simp add: get_logger_def sbind_def)

lemma push_message_run [simp]:
  "push_message now s w =
     (Inr (), w\<lparr>w_ticks := Suc (w_ticks w),
                w_log := w_log w @ [show_datetime (now (w_ticks w)) @ '': '' @ s]\<rparr>)"
  by (simp add: push_message_def sbind_def)

definition stamped :: "(nat \<Rightarrow> datetime) \<Rightarrow> nat \<Rightarrow> string list \<Rightarrow> string list" where
  "stamped now k ss = map (\<lambda>(i, s). show_datetime (now (k + i)) @ '': '' @ s) (enumerate 0 ss)"

lemma stamped_Cons:
  "stamped now k (s # ss) = (show_datetime (now k) @ '': '' @ s) # stamped now (Suc k) ss"
proof -
  have "enumerate (Suc 0) ss = map (\<lambda>(i, s). (Suc i, s)) (enumerate 0 ss)"
    by (simp add: enumerate_eq_zip zip_map1 [symmetric] map_Suc_upt [symmetric] del: upt_Suc)
  then show ?thesis by (simp add: stamped_def case_prod_beta comp_def)
qed

lemma push_messages_run:
  "push_messages now ss w =
     (Inr (), w\<lparr>w_ticks := w_ticks w + length ss, w_log := w_log w @ stamped now (w_ticks w) ss\<rparr>)"
proof (induction ss arbitrary: w)
  case Nil
  then show ?case by (simp add: stamped_def)
next
  case (Cons s ss)
  then show ?case by (simp add: sbind_def stamped_Cons)
qed

lemma stamped_quoted: "list_all well_quoted ss \<Longrightarrow> list_all well_quoted (stamped now k ss)"
proof (induction ss arbitrary: k)
  case (Cons s ss)
  have "well_quoted (show_datetime (now k) @ '': '')" by (rule well_quoted_plain) simp
  with Cons well_quoted_append [of "show_datetime (now k) @ '': ''" s]
  show ?case by (simp add: stamped_Cons)
qed (simp add: stamped_def)

section \<open>Commits\<close>

definition file_text :: "string option \<Rightarrow> string" where
  "file_text f = (case f of None \<Rightarrow> ''None'' | Some f \<Rightarrow> f)"

lemma described_insert_log:
  "described db (InsertLog t f s ms) \<longleftrightarrow> well_quoted f \<and> list_all well_quoted ms"
  by (auto simp: described_def stmt_quoted_def well_quoted_plain)

lemma described_create [simp]: "described db CreateLogTable" "described db CreateSchemasTable"
  by (simp_all add: described_def stmt_quoted_def)

definition committed_row :: "datetime \<Rightarrow> string option \<Rightarrow> int \<Rightarrow> string list \<Rightarrow> log_row" where
  "committed_row t f s ms =
     \<lparr>lr_time = t, lr_file = unquoted (file_text f), lr_status = s,
      lr_messages = (if ms = [] then [[]] else map unquoted ms)\<rparr>"

context pg_connection
begin

lemma execute_run:
  assumes "usable (w_conn w)" and "described (pending (w_conn w)) st"
    and "accepts ts json_ok (pending (w_conn w)) st"
  obtains rows c' where "execute ops st w = (Inr rows, w\<lparr>w_conn := c'\<rparr>)"
    and "answers ts (pending (w_conn w)) st rows" and "usable c'"
    and "saved c' = saved (w_conn w)" and "pending c' = after ts (pending (w_conn w)) st"
  using execute_ok [OF assms] by (auto simp: execute_def)

lemma commit_run:
  assumes "usable (w_conn w)"
  obtains c' where "commit ops w = (Inr (), w\<lparr>w_conn := c'\<rparr>)" and "usable c'"
    and "saved c' = pending (w_conn w)" and "pending c' = pending (w_conn w)"
  using commit_ok [OF assms] by (auto simp: commit_def)

lemma create_xml_log_table_run:
  assumes "usable (w_conn w)"
  obtains c' where "create_xml_log_table ops w = (Inr (), w\<lparr>w_conn := c'\<rparr>)" and "usable c'"
    and "pending c' = after ts (pending (w_conn w)) CreateLogTable" and "saved c' = pending c'"
proof -
  obtain rows c1 where c1: "execute ops CreateLogTable w = (Inr rows, w\<lparr>w_conn := c1\<rparr>)"
    "usable c1" "pending c1 = after ts (pending (w_conn w)) CreateLogTable"
    using execute_ok [OF assms described_create(1)] by (auto simp: execute_def)
  obtain c2 where "commit ops (w\<lparr>w_conn := c1\<rparr>) = (Inr (), w\<lparr>w_conn := c2\<rparr>)"
    "usable c2" "saved c2 = pending c1" "pending c2 = pending c1"
    using commit_ok [OF c1(2)] by (auto simp: commit_def)
  with c1 that show ?thesis by (simp add: create_xml_log_table_def)
qed

text \<open>
  A commit whose texts are well quoted and whose time is new saves one row with the
  messages so far, empties the logger and takes the next reading of the clock.
\<close>

lemma commit_log_run:
  assumes "usable (w_conn w)"
    and "well_quoted (file_text f)" and "list_all well_quoted (w_log w)"
    and "w_log_time w \<notin> lr_time ` set (the_rows (xml_log (pending (w_conn w))))"
    and "-32768 \<le> s" and "s \<le> 32767"
  obtains c' where
    "commit_log ops now f s w =
       (Inr (), w\<lparr>w_conn := c', w_log := [], w_log_time := now (w_ticks w), w_ticks := Suc (w_ticks w)\<rparr>)"
    and "usable c'" and "saved c' = pending c'"
    and "the_rows (xml_log (saved c')) =
         the_rows (xml_log (pending (w_conn w))) @ [committed_row (w_log_time w) f s (w_log w)]"
    and "xml_schemas (saved c') = xml_schemas (pending (w_conn w))"
proof -
  let ?st = "InsertLog (w_log_time w) (file_text f) s (w_log w)"
  from create_xml_log_table_run [OF assms(1)] obtain c1 where c1:
    "create_xml_log_table ops w = (Inr (), w\<lparr>w_conn := c1\<rparr>)" "usable c1"
    "pending c1 = after ts (pending (w_conn w)) CreateLogTable" by blast
  let ?w1 = "w\<lparr>w_conn := c1\<rparr>"
  have d: "described (pending c1) ?st" using assms(2,3) by (simp add: described_insert_log)
  have a: "accepts ts json_ok (pending c1) ?st" using c1(3) assms(4-6) by simp
  obtain rows c2 where c2: "execute ops ?st ?w1 = (Inr rows, ?w1\<lparr>w_conn := c2\<rparr>)"
    "usable c2" "pending c2 = after ts (pending c1) ?st"
    using execute_ok [OF c1(2) d a] by (auto simp: execute_def simp del: after.simps)
  obtain c3 where c3: "commit ops (w\<lparr>w_conn := c2\<rparr>) = (Inr (), w\<lparr>w_conn := c3\<rparr>)"
    "usable c3" "saved c3 = pending c2" "pending c3 = pending c2"
    using commit_ok [OF c2(2)] by (auto simp: commit_def)
  have "commit_log ops now f s w =
      (Inr (), w\<lparr>w_conn := c3, w_log := [], w_log_time := now (w_ticks w), w_ticks := Suc (w_ticks w)\<rparr>)"
    using c1(1) c2(1) c3(1) by (simp add: commit_log_def file_text_def sbind_def)
  moreover have "xml_log (pending c2) =
      Some (the_rows (xml_log (pending (w_conn w))) @ [committed_row (w_log_time w) f s (w_log w)])"
    "xml_schemas (pending c2) = xml_schemas (pending (w_conn w))"
    using c1(3) c2(3) by (simp_all add: committed_row_def)
  ultimately show ?thesis using that c3 by simp
qed

text \<open>On an aborted transaction nothing can be logged: the commit raises.\<close>

lemma commit_log_aborted:
  assumes "\<not> usable (w_conn w)"
  obtains c' where "commit_log ops now f s w = (Inl DatabaseError, w\<lparr>w_conn := c'\<rparr>)"
    and "\<not> usable c'" and "saved c' = saved (w_conn w)"
  using execute_aborted [OF assms, of CreateLogTable]
  by (auto simp: commit_log_def create_xml_log_table_def execute_def sbind_def)

end

end
