(* ===== verification/Py_Json.thy ===== *)
theory Py_Json
  imports Py_Strings
begin

text \<open>
  Python values as YAML and JSON files carry them, with the texts \<open>json.dumps\<close>, \<open>str\<close>
  and \<open>repr\<close> give them.  Dictionaries have string keys.  A float is kept as the text of
  its \<open>repr\<close>.  \<open>JOther\<close> is any other object (a date, bytes, a set), kept as the text of
  its \<open>str\<close>; \<open>json.dumps\<close> refuses it with a \<open>TypeError\<close>.
\<close>

datatype json =
    JNull
  | JBool bool
  | JInt int
  | JFloat string
  | JStr string
  | JList "json list"
  | JDict "(string \<times> json) list"
  | JOther string

definition hex_digit :: "nat \<Rightarrow> char" where
  "hex_digit d = (if d < 10 then char_of (48 + d) else char_of (87 + d))"

definition hex2 :: "char \<Rightarrow> string" where
  "hex2 c = [hex_digit (ord c div 16), hex_digit (ord c mod 16)]"

section \<open>json.dumps\<close>

definition json_char :: "char \<Rightarrow> string" where
  "json_char c =
     (if c = dquote \<or> c = CHR 0x5C then [CHR 0x5C, c]
      else if c = nl then [CHR 0x5C, CHR ''n'']
      else if c = CHR 0x0D then [CHR 0x5C, CHR ''r'']
      else if c = tab then [CHR 0x5C, CHR ''t'']
      else if c = CHR 0x0C then [CHR 0x5C, CHR ''f'']
      else if c = CHR 0x08 then [CHR 0x5C, CHR ''b'']
      else if ord c < 32 \<or> 126 < ord c then [CHR 0x5C, CHR ''u'', CHR ''0'', CHR ''0''] @ hex2 c
      else [c])"

definition json_string :: "string \<Rightarrow> string" where
  "json_string s = [dquote] @ concat (map json_char s) @ [dquote]"

definition json_float :: "string \<Rightarrow> string" where
  "json_float r = (if r = ''nan'' then ''NaN'' else if r = ''inf'' then ''Infinity''
     else if r = ''-inf'' then ''-Infinity'' else r)"

fun json_dumps :: "json \<Rightarrow> string res"
  and dumps_items :: "json list \<Rightarrow> string list res"
  and dumps_pairs :: "(string \<times> json) list \<Rightarrow> string list res" where
  "json_dumps JNull = Inr ''null''"
| "json_dumps (JBool b) = Inr (if b then ''true'' else ''false'')"
| "json_dumps (JInt i) = Inr (show_int i)"
| "json_dumps (JFloat r) = Inr (json_float r)"
| "json_dumps (JStr s) = Inr (json_string s)"
| "json_dumps (JList xs) = map_sum id (\<lambda>ps. ''['' @ join '', '' ps @ '']'') (dumps_items xs)"
| "json_dumps (JDict d) = map_sum id (\<lambda>ps. ''{'' @ join '', '' ps @ ''}'') (dumps_pairs d)"
| "json_dumps (JOther t) = Inl TypeError"
| "dumps_items [] = Inr []"
| "dumps_items (x # xs) =
     rbind (json_dumps x) (\<lambda>p. rbind (dumps_items xs) (\<lambda>ps. Inr (p # ps)))"
| "dumps_pairs [] = Inr []"
| "dumps_pairs ((k, x) # d) =
     rbind (json_dumps x) (\<lambda>p. rbind (dumps_pairs d) (\<lambda>ps. Inr ((json_string k @ '': '' @ p) # ps)))"

text \<open>\<open>json.dumps(d, indent=2)\<close> of a dictionary of strings.\<close>

definition json_dumps_indent :: "(string \<times> string) list \<Rightarrow> string" where
  "json_dumps_indent d =
     (if d = [] then ''{}''
      else ''{'' @ [nl] @ ''  '' @
        join ('','' @ [nl] @ ''  '') (map (\<lambda>(k, v). json_string k @ '': '' @ json_string v) d) @
        [nl] @ ''}'')"

section \<open>repr and str\<close>

definition repr_char :: "char \<Rightarrow> char \<Rightarrow> string" where
  "repr_char q c =
     (if c = q \<or> c = CHR 0x5C then [CHR 0x5C, c]
      else if c = nl then [CHR 0x5C, CHR ''n'']
      else if c = CHR 0x0D then [CHR 0x5C, CHR ''r'']
      else if c = tab then [CHR 0x5C, CHR ''t'']
      else if ord c < 32 \<or> (127 \<le> ord c \<and> ord c \<le> 160) \<or> ord c = 173
      then [CHR 0x5C, CHR ''x''] @ hex2 c
      else [c])"

definition repr_string :: "string \<Rightarrow> string" where
  "repr_string s =
     (let q = (if quote \<in> set s \<and> dquote \<notin> set s then dquote else quote)
      in [q] @ concat (map (repr_char q) s) @ [q])"

text \<open>
  \<open>repr\<close>; for \<open>JOther\<close> the text is that of \<open>str\<close>, which differs from \<open>repr\<close> inside
  lists and dictionaries only.
\<close>

fun py_repr :: "json \<Rightarrow> string"
  and repr_pairs :: "(string \<times> json) list \<Rightarrow> string list" where
  "py_repr JNull = ''None''"
| "py_repr (JBool b) = (if b then ''True'' else ''False'')"
| "py_repr (JInt i) = show_int i"
| "py_repr (JFloat r) = r"
| "py_repr (JStr s) = repr_string s"
| "py_repr (JList xs) = ''['' @ join '', '' (map py_repr xs) @ '']''"
| "py_repr (JDict d) = ''{'' @ join '', '' (repr_pairs d) @ ''}''"
| "py_repr (JOther t) = t"
| "repr_pairs [] = []"
| "repr_pairs ((k, x) # d) = (repr_string k @ '': '' @ py_repr x) # repr_pairs d"

definition py_str :: "json \<Rightarrow> string" where
  "py_str v = (case v of JStr s \<Rightarrow> s | _ \<Rightarrow> py_repr v)"

text \<open>\<open>v[key]\<close> for a string key: only a dictionary takes one.\<close>

definition subscript :: "json \<Rightarrow> string \<Rightarrow> json res" where
  "subscript v key =
     (case v of JDict d \<Rightarrow> of_option KeyError (map_of d key) | _ \<Rightarrow> Inl TypeError)"

section \<open>Where dumps succeeds, and the size of a value\<close>

fun plain_json :: "json \<Rightarrow> bool"
  and plain_items :: "json list \<Rightarrow> bool"
  and plain_pairs :: "(string \<times> json) list \<Rightarrow> bool" where
  "plain_json (JList xs) = plain_items xs"
| "plain_json (JDict d) = plain_pairs d"
| "plain_json (JOther t) = False"
| "plain_json _ = True"
| "plain_items [] = True"
| "plain_items (x # xs) = (plain_json x \<and> plain_items xs)"
| "plain_pairs [] = True"
| "plain_pairs ((k, x) # d) = (plain_json x \<and> plain_pairs d)"

lemma json_dumps_defined:
  "(\<exists>s. json_dumps v = Inr s) \<longleftrightarrow> plain_json v"
  "(\<exists>ss. dumps_items xs = Inr ss) \<longleftrightarrow> plain_items xs"
  "(\<exists>ss. dumps_pairs d = Inr ss) \<longleftrightarrow> plain_pairs d"
proof (induction v and xs and d rule: json_dumps_dumps_items_dumps_pairs.induct)
  case (6 xs)
  then show ?case by (cases "dumps_items xs") auto
next
  case (7 d)
  then show ?case by (cases "dumps_pairs d") auto
next
  case (10 x xs)
  then show ?case by (cases "json_dumps x"; cases "dumps_items xs") auto
next
  case (12 k x d)
  then show ?case by (cases "json_dumps x"; cases "dumps_pairs d") auto
qed auto

lemma json_dumps_TypeError:
  "json_dumps v = Inl e \<Longrightarrow> e = TypeError"
  "dumps_items xs = Inl e \<Longrightarrow> e = TypeError"
  "dumps_pairs d = Inl e \<Longrightarrow> e = TypeError"
proof (induction v and xs and d rule: json_dumps_dumps_items_dumps_pairs.induct)
  case (6 xs)
  then show ?case by (cases "dumps_items xs") auto
next
  case (7 d)
  then show ?case by (cases "dumps_pairs d") auto
next
  case (10 x xs)
  then show ?case by (cases "json_dumps x"; cases "dumps_items xs") auto
next
  case (12 k x d)
  then show ?case by (cases "json_dumps x"; cases "dumps_pairs d") auto
qed auto

fun jsize :: "json \<Rightarrow> nat"
  and isize :: "json list \<Rightarrow> nat"
  and psize :: "(string \<times> json) list \<Rightarrow> nat" where
  "jsize (JList xs) = Suc (isize xs)"
| "jsize (JDict d) = Suc (psize d)"
| "jsize _ = 1"
| "isize [] = 0"
| "isize (x # xs) = Suc (jsize x + isize xs)"
| "psize [] = 0"
| "psize ((k, x) # d) = Suc (jsize x + psize d)"

lemma psize_dict_del: "psize (dict_del k d) \<le> psize d"
  by (induction d) (auto simp: dict_del_def)

text \<open>No quote in a value means none in its dump.\<close>

fun json_free :: "char \<Rightarrow> json \<Rightarrow> bool"
  and items_free :: "char \<Rightarrow> json list \<Rightarrow> bool"
  and pairs_free :: "char \<Rightarrow> (string \<times> json) list \<Rightarrow> bool" where
  "json_free q (JStr s) = (q \<notin> set s)"
| "json_free q (JFloat s) = (q \<notin> set s)"
| "json_free q (JList xs) = items_free q xs"
| "json_free q (JDict d) = pairs_free q d"
| "json_free q (JOther t) = (q \<notin> set t)"
| "json_free q _ = True"
| "items_free q [] = True"
| "items_free q (x # xs) = (json_free q x \<and> items_free q xs)"
| "pairs_free q [] = True"
| "pairs_free q ((k, x) # d) = (q \<notin> set k \<and> json_free q x \<and> pairs_free q d)"

lemma hex_digit_not_quote: "d < 16 \<Longrightarrow> hex_digit d \<noteq> quote"
proof
  assume "d < 16" "hex_digit d = quote"
  then have "ord (hex_digit d) = 39" by simp
  with \<open>d < 16\<close> show False by (auto simp: hex_digit_def split: if_splits)
qed

lemma hex2_no_quote: "quote \<notin> set (hex2 c)"
proof -
  have "ord c < 256" by simp
  then have "ord c div 16 < 16" by (simp only: div_less_iff_less_mult)
  then show ?thesis
    using hex_digit_not_quote [of "ord c div 16"] hex_digit_not_quote [of "ord c mod 16"]
    by (simp add: hex2_def)
qed

lemma json_char_no_quote: "c \<noteq> quote \<Longrightarrow> quote \<notin> set (json_char c)"
  using hex2_no_quote by (auto simp: json_char_def)

lemma json_string_no_quote: "quote \<notin> set s \<Longrightarrow> quote \<notin> set (json_string s)"
proof -
  assume "quote \<notin> set s"
  then have "\<forall>c \<in> set s. quote \<notin> set (json_char c)"
    using json_char_no_quote by metis
  then show ?thesis by (simp add: json_string_def)
qed

lemma join_no_quote: "quote \<notin> set sep \<Longrightarrow> \<forall>p \<in> set ps. quote \<notin> set p \<Longrightarrow> quote \<notin> set (join sep ps)"
  by (induction sep ps rule: join.induct) auto

lemma json_dumps_indent_no_quote:
  assumes "\<forall>(k, v) \<in> set d. quote \<notin> set k \<and> quote \<notin> set v"
  shows "quote \<notin> set (json_dumps_indent d)"
proof -
  have "quote \<notin> set (join ('','' @ [nl] @ ''  '') (map (\<lambda>(k, v). json_string k @ '': '' @ json_string v) d))"
    using assms by (intro join_no_quote) (auto simp: json_string_no_quote)
  then show ?thesis by (simp add: json_dumps_indent_def)
qed

end
