(* ===== verification/Schemas.thy ===== *)
theory Schemas
  imports Logs Py_Json
begin

text \<open>
  The first half of schemas_xml.py: the table of known schemas (\<open>create_schemas_meta_table\<close>,
  \<open>add_schema\<close>, \<open>find_schema\<close>), and what these leave in the database for any connection
  that keeps the contract \<open>pg_connection\<close>.
\<close>

definition create_schemas_meta_table ::
  "('c, 'o) db_ops_scheme \<Rightarrow> (('c, 'm) world_scheme, exn, unit) act" where
  "create_schemas_meta_table ops = sbind (execute ops CreateSchemasTable) (\<lambda>_. commit ops)"

definition add_schema ::
  "('c, 'o) db_ops_scheme \<Rightarrow> json \<Rightarrow> (('c, 'm) world_scheme, exn, unit) act" where
  "add_schema ops schema =
     sbind (create_schemas_meta_table ops) (\<lambda>_.
     sbind (lift_res (rbind (subscript schema ''meta'') (\<lambda>m. subscript m ''files''))) (\<lambda>file_pattern.
     sbind (lift_res (rbind (subscript schema ''meta'') (\<lambda>m. subscript m ''version''))) (\<lambda>time.
     sbind (lift_res (rbind (subscript schema ''meta'') (\<lambda>m. subscript m ''description''))) (\<lambda>description.
     sbind (lift_res (rbind (subscript schema ''processing'') json_dumps)) (\<lambda>processing_schema.
     sbind (execute ops (InsertSchema (py_str file_pattern) (py_str time) (py_str description)
                           processing_schema)) (\<lambda>_.
     commit ops))))))"

text \<open>\<open>rows[0] if len(rows) > 0 else None\<close>; the date is the text of an XML node, or \<open>None\<close>.\<close>

definition find_schema ::
  "('c, 'o) db_ops_scheme \<Rightarrow> string \<Rightarrow> string option \<Rightarrow>
   (('c, 'm) world_scheme, exn, schema_row option) act" where
  "find_schema ops object_key date =
     sbind (execute ops (SelectSchema object_key (case date of None \<Rightarrow> ''None'' | Some d \<Rightarrow> d)))
       (\<lambda>rows. ret (case rows of [] \<Rightarrow> None | r # _ \<Rightarrow> Some r))"

text \<open>The parts of a schema file that \<open>add_schema\<close> reads.\<close>

definition schema_parts :: "json \<Rightarrow> (string \<times> string \<times> string \<times> string) option" where
  "schema_parts schema =
     (case schema of
        JDict d \<Rightarrow>
          (case (map_of d ''meta'', map_of d ''processing'') of
             (Some (JDict m), Some p) \<Rightarrow>
               (case (map_of m ''files'', map_of m ''version'', map_of m ''description'', json_dumps p) of
                  (Some f, Some v, Some de, Inr j) \<Rightarrow> Some (py_str f, py_str v, py_str de, j)
                | _ \<Rightarrow> None)
           | _ \<Rightarrow> None)
      | _ \<Rightarrow> None)"

lemma schema_parts_Some:
  assumes "schema_parts schema = Some (f, v, de, j)"
  obtains d m fv vv dv pv where "schema = JDict d" "map_of d ''meta'' = Some (JDict m)"
    "map_of d ''processing'' = Some pv" "map_of m ''files'' = Some fv"
    "map_of m ''version'' = Some vv" "map_of m ''description'' = Some dv" "json_dumps pv = Inr j"
    "f = py_str fv" "v = py_str vv" "de = py_str dv"
  using assms by (auto simp: schema_parts_def split: json.splits option.splits sum.splits)

lemma add_schema_parts:
  assumes "schema_parts schema = Some (f, v, de, j)"
    and "create_schemas_meta_table ops w = (Inr (), w')"
  shows "add_schema ops schema w = sbind (execute ops (InsertSchema f v de j)) (\<lambda>_. commit ops) w'"
  using assms(1)
  by (rule schema_parts_Some) (simp add: add_schema_def subscript_def sbind_def assms(2))

text \<open>Without those parts the exception comes after the table and before the insert.\<close>

lemma add_schema_no_parts:
  assumes "schema_parts schema = None"
    and "create_schemas_meta_table ops w = (Inr (), w')"
  shows "\<exists>e. add_schema ops schema w = (Inl e, w') \<and> (e = KeyError \<or> e = TypeError)"
proof (cases schema)
  case (JDict d)
  show ?thesis
  proof (cases "map_of d ''meta''")
    case None
    with JDict show ?thesis by (simp add: add_schema_def subscript_def sbind_def assms(2))
  next
    case (Some m)
    show ?thesis
    proof (cases m)
      case (JDict md)
      note dumps = json_dumps_TypeError(1)
      from assms(1) \<open>schema = JDict d\<close> Some JDict dumps show ?thesis
        by (cases "map_of md ''files''"; cases "map_of md ''version''";
            cases "map_of md ''description''"; cases "map_of d ''processing''")
          (auto simp: add_schema_def subscript_def sbind_def assms(2) schema_parts_def
             split: sum.splits)
    qed (use \<open>schema = JDict d\<close> Some in
        \<open>simp_all add: add_schema_def subscript_def sbind_def assms(2)\<close>)
  qed
qed (simp_all add: add_schema_def subscript_def sbind_def assms(2))

definition schema_of :: "(string \<Rightarrow> nat option) \<Rightarrow> string \<Rightarrow> string \<Rightarrow> string \<Rightarrow> string \<Rightarrow> schema_row" where
  "schema_of ts f v de j =
     \<lparr>sr_pattern = unquoted f, sr_time = the (ts (unquoted v)),
      sr_description = unquoted de, sr_processing = unquoted j\<rparr>"

definition schema_rows :: "meta_db \<Rightarrow> schema_row list" where
  "schema_rows db = the_rows (xml_schemas db)"

definition keys_distinct :: "schema_row list \<Rightarrow> bool" where
  "keys_distinct rows = distinct (map (\<lambda>r. (sr_pattern r, sr_time r)) rows)"

lemma same_key_iff: "list_ex (same_key r) rows \<longleftrightarrow>
    (sr_pattern r, sr_time r) \<in> (\<lambda>r. (sr_pattern r, sr_time r)) ` set rows"
  by (auto simp: list_ex_iff same_key_def image_iff)

lemma after_keys_distinct:
  "keys_distinct (schema_rows db) \<Longrightarrow> keys_distinct (schema_rows (after ts db st))"
  by (cases st) (auto simp: schema_rows_def keys_distinct_def Let_def same_key_iff)

context pg_connection
begin

lemma create_schemas_meta_table_run:
  assumes "usable (w_conn w)"
  obtains c' where "create_schemas_meta_table ops w = (Inr (), w\<lparr>w_conn := c'\<rparr>)" and "usable c'"
    and "pending c' = after ts (pending (w_conn w)) CreateSchemasTable" and "saved c' = pending c'"
proof -
  obtain rows c1 where c1: "execute ops CreateSchemasTable w = (Inr rows, w\<lparr>w_conn := c1\<rparr>)"
    "usable c1" "pending c1 = after ts (pending (w_conn w)) CreateSchemasTable"
    using execute_ok [OF assms described_create(2)] by (auto simp: execute_def)
  obtain c2 where "commit ops (w\<lparr>w_conn := c1\<rparr>) = (Inr (), w\<lparr>w_conn := c2\<rparr>)"
    "usable c2" "saved c2 = pending c1" "pending c2 = pending c1"
    using commit_ok [OF c1(2)] by (auto simp: commit_def)
  with c1 that show ?thesis by (simp add: create_schemas_meta_table_def)
qed

text \<open>
  A schema file with its parts, well quoted, with a readable version: afterwards the saved
  table holds a row with that pattern and version; a row that was there with the same key
  is kept as it was.
\<close>

lemma add_schema_run:
  assumes "usable (w_conn w)" and "schema_parts schema = Some (f, v, de, j)"
    and "list_all well_quoted [f, v, de, j]"
    and "ts (unquoted v) \<noteq> None" and "json_ok (unquoted j)"
  obtains c' where "add_schema ops schema w = (Inr (), w\<lparr>w_conn := c'\<rparr>)" and "usable c'"
    and "saved c' = pending c'"
    and "xml_log (saved c') = xml_log (pending (w_conn w))"
    and "schema_rows (saved c') =
      (let old = schema_rows (pending (w_conn w)); r = schema_of ts f v de j
       in if list_ex (same_key r) old then old else old @ [r])"
proof -
  let ?st = "InsertSchema f v de j"
  from create_schemas_meta_table_run [OF assms(1)] obtain c1 where c1:
    "create_schemas_meta_table ops w = (Inr (), w\<lparr>w_conn := c1\<rparr>)" "usable c1"
    "pending c1 = after ts (pending (w_conn w)) CreateSchemasTable" by blast
  have d: "described (pending c1) ?st"
    using assms(3) by (simp add: described_def stmt_quoted_def)
  have a: "accepts ts json_ok (pending c1) ?st" using assms(4,5) c1(3) by simp
  obtain rows c2 where c2: "execute ops ?st (w\<lparr>w_conn := c1\<rparr>) = (Inr rows, w\<lparr>w_conn := c2\<rparr>)"
    "usable c2" "pending c2 = after ts (pending c1) ?st"
    using execute_ok [OF c1(2) d a] by (auto simp: execute_def simp del: after.simps)
  obtain c3 where c3: "commit ops (w\<lparr>w_conn := c2\<rparr>) = (Inr (), w\<lparr>w_conn := c3\<rparr>)"
    "usable c3" "saved c3 = pending c2" "pending c3 = pending c2"
    using commit_ok [OF c2(2)] by (auto simp: commit_def)
  have "add_schema ops schema w = (Inr (), w\<lparr>w_conn := c3\<rparr>)"
    using add_schema_parts [OF assms(2) c1(1)] c2(1) c3(1) by simp
  moreover have "xml_log (pending c2) = xml_log (pending (w_conn w))"
    using c1(3) c2(3) by (simp add: Let_def)
  moreover have "schema_rows (pending c2) =
      (let old = schema_rows (pending (w_conn w)); r = schema_of ts f v de j
       in if list_ex (same_key r) old then old else old @ [r])"
    using c1(3) c2(3) by (simp add: schema_rows_def schema_of_def Let_def)
  ultimately show ?thesis using that c3 by simp
qed

text \<open>A schema whose insert PostgreSQL refuses leaves the connection aborted.\<close>

lemma add_schema_refused:
  assumes "usable (w_conn w)" and "schema_parts schema = Some (f, v, de, j)"
    and "list_all well_quoted [f, v, de, j]"
    and "ts (unquoted v) = None \<or> \<not> json_ok (unquoted j)"
  obtains c' where "add_schema ops schema w = (Inl DatabaseError, w\<lparr>w_conn := c'\<rparr>)"
    and "\<not> usable c'" and "xml_log (saved c') = xml_log (pending (w_conn w))"
proof -
  let ?st = "InsertSchema f v de j"
  from create_schemas_meta_table_run [OF assms(1)] obtain c1 where c1:
    "create_schemas_meta_table ops w = (Inr (), w\<lparr>w_conn := c1\<rparr>)" "usable c1"
    "pending c1 = after ts (pending (w_conn w)) CreateSchemasTable" "saved c1 = pending c1" by blast
  have d: "described (pending c1) ?st"
    using assms(3) by (simp add: described_def stmt_quoted_def)
  have a: "\<not> accepts ts json_ok (pending c1) ?st" using assms(4) by auto
  obtain c2 where c2: "execute ops ?st (w\<lparr>w_conn := c1\<rparr>) = (Inl DatabaseError, w\<lparr>w_conn := c2\<rparr>)"
    "\<not> usable c2" "saved c2 = saved c1"
    using execute_refused [OF c1(2) d a] by (auto simp: execute_def simp del: accepts.simps)
  with add_schema_parts [OF assms(2) c1(1)] that c1(3,4) show ?thesis by simp
qed

text \<open>
  \<open>find_schema\<close> returns a row whose pattern the key is like, not newer than the date, and
  the newest of these; \<open>None\<close> only if there is none.
\<close>

lemma find_schema_run:
  assumes "usable (w_conn w)" and "xml_schemas (pending (w_conn w)) \<noteq> None"
    and "list_all (\<lambda>r. \<not> dangling_escape (sr_pattern r)) (schema_rows (pending (w_conn w)))"
    and "well_quoted key" and "well_quoted date" and "ts (unquoted date) = Some limit"
  obtains r c' where "find_schema ops key (Some date) w = (Inr r, w\<lparr>w_conn := c'\<rparr>)"
    and "usable c'" and "pending c' = pending (w_conn w)" and "saved c' = saved (w_conn w)"
    and "let cs = candidates limit (unquoted key) (schema_rows (pending (w_conn w))) in
         case r of None \<Rightarrow> cs = []
         | Some x \<Rightarrow> x \<in> set cs \<and> (\<forall>y \<in> set cs. sr_time y \<le> sr_time x)"
proof -
  let ?st = "SelectSchema key date" and ?db = "pending (w_conn w)"
  have d: "described ?db ?st"
    using assms(3-5) by (simp add: described_def stmt_quoted_def schema_rows_def)
  have a: "accepts ts json_ok ?db ?st" using assms(2,6) by simp
  obtain rows c1 where c1: "execute ops ?st w = (Inr rows, w\<lparr>w_conn := c1\<rparr>)"
    "usable c1" "pending c1 = ?db" "saved c1 = saved (w_conn w)" "answers ts ?db ?st rows"
    using execute_ok [OF assms(1) d a] by (auto simp: execute_def)
  have "find_schema ops key (Some date) w =
      (Inr (case rows of [] \<Rightarrow> None | r # _ \<Rightarrow> Some r), w\<lparr>w_conn := c1\<rparr>)"
    using c1(1) by (simp add: find_schema_def)
  moreover have "let cs = candidates limit (unquoted key) (schema_rows ?db) in
       case (case rows of [] \<Rightarrow> None | r # _ \<Rightarrow> Some r) of None \<Rightarrow> cs = []
         | Some x \<Rightarrow> x \<in> set cs \<and> (\<forall>y \<in> set cs. sr_time y \<le> sr_time x)"
    using c1(5) assms(6)
    by (auto simp: Let_def schema_rows_def list_all_iff split: list.splits)
  ultimately show ?thesis using that c1 by blast
qed

end

end
