(* ===== verification/Extract.thy ===== *)
theory Extract
  imports Py_Json Sql_Text
begin

text \<open>
  The second half of schemas_xml.py: \<open>expand_prefix\<close>, \<open>parse_val\<close> and \<open>extract_data\<close>.
  An XML document is a tree of elements as xml.etree gives them; \<open>Element.iter\<close> is
  \<open>et_iter\<close>.  \<open>Element.find\<close> is a parameter of the extraction, with \<open>et_find\<close> as the
  instance for the paths the schema files use.
\<close>

datatype xml =
  Elem (e_tag: string) (e_attrib: "(string \<times> string) list") (e_text: "string option")
    (e_children: "xml list")

fun et_iter :: "string \<Rightarrow> xml \<Rightarrow> xml list" where
  "et_iter t (Elem tag a x ch) =
     (if t = ''*'' \<or> tag = t then [Elem tag a x ch] else []) @ concat (map (et_iter t) ch)"

datatype pyval =
    VNone
  | VBool bool
  | VInt int
  | VDec decimal
  | VStr string
  | VList "pyval list"
  | VDict "(string \<times> pyval) list"

type_synonym prefix_map = "(string \<times> string) list"

type_synonym record_dict = "(string \<times> pyval) list"

type_synonym 'a logged = "'a res \<times> string list"

type_synonym find_fn = "xml \<Rightarrow> string \<Rightarrow> prefix_map \<Rightarrow> xml option res"

section \<open>Names and values\<close>

definition expand_prefix :: "string \<Rightarrow> prefix_map \<Rightarrow> string" where
  "expand_prefix tag prefs =
     (case split_on (CHR '':'') tag of
        p0 # p1 # _ \<Rightarrow>
          (case map_of prefs p0 of
             Some ns \<Rightarrow> ''{'' @ ns @ ''}'' @ p1
           | None \<Rightarrow> tag)
      | _ \<Rightarrow> tag)"

definition parse_val :: "string option \<Rightarrow> string \<Rightarrow> pyval res" where
  "parse_val raw_val val_type =
     (if val_type = ''int'' then
        (case raw_val of None \<Rightarrow> Inl TypeError | Some s \<Rightarrow> map_sum id VInt (py_int s))
      else if val_type = ''timestamp'' then
        (case raw_val of None \<Rightarrow> Inl TypeError
         | Some s \<Rightarrow> map_sum id (\<lambda>_. VStr s) (strptime_iso s))
      else if val_type = ''float'' then
        (case raw_val of None \<Rightarrow> Inl TypeError | Some s \<Rightarrow> map_sum id VDec (py_decimal s))
      else if val_type = ''bool'' then
        Inr (VBool (case raw_val of None \<Rightarrow> False | Some s \<Rightarrow> s \<noteq> []))
      else Inr (case raw_val of None \<Rightarrow> VNone | Some s \<Rightarrow> VStr s))"

section \<open>The messages\<close>

definition indent :: string where
  "indent = [tab] @ replicate 22 (CHR '' '')"

definition backquoted :: "string \<Rightarrow> string" where
  "backquoted s = [CHR 0x60] @ s @ [CHR 0x60]"

definition parse_error_msg :: "string \<Rightarrow> xml \<Rightarrow> string \<Rightarrow> string \<Rightarrow> string \<Rightarrow> string" where
  "parse_error_msg what root reason placeholder field =
     [tab] @ ''extract_data: [error] Couldn'' @ [quote, quote] @ ''t parse '' @ backquoted what @
     '' for a '' @ backquoted (e_tag root) @ '' node'' @ [nl] @
     indent @ ''('' @ reason @ '')'' @ [nl] @
     ''Node attributes:'' @ [nl] @
     json_dumps_indent (e_attrib root) @ [nl] @
     indent @ ''Writing '' @ placeholder @ '' for '' @ backquoted field @ [nl]"

definition no_value_msg :: "string \<Rightarrow> string" where
  "no_value_msg field =
     [tab] @ ''extract_data: [error] No value found for '' @ backquoted field @ [CHR ''.'', CHR 0x60, nl] @
     indent @ ''Writing <missing> (3) for '' @ backquoted field @ [nl]"

section \<open>Attribute entries and leaf entries\<close>

text \<open>
  Case 0 of the loop: an entry whose name starts with an underscore.  The value is stored
  under the second property.  \<open>ValueError\<close> and \<open>TypeError\<close> are caught; any other
  exception leaves the function.
\<close>

definition attr_entry ::
  "prefix_map \<Rightarrow> xml \<Rightarrow> string \<Rightarrow> json \<Rightarrow> string list \<Rightarrow> (string \<times> pyval) logged" where
  "attr_entry pref root name v log =
     (case v of
        JStr s \<Rightarrow>
          (case split_on (CHR '','') s of
             p0 # p1 # _ \<Rightarrow>
               (let attrib = expand_prefix (strip_chars ''_:'' name) pref;
                    attrib_type = strip p0;
                    field_name = strip p1
                in case parse_val (map_of (e_attrib root) attrib) attrib_type of
                     Inr x \<Rightarrow> (Inr (field_name, x), log)
                   | Inl e \<Rightarrow>
                       if is_ValueError e then
                         (Inr (field_name, VStr ''<parsing error (0)>''),
                          log @ [parse_error_msg (''@'' @ attrib) root ''wrong attribute type''
                                   ''<parsing error>'' field_name])
                       else if e = TypeError then
                         (Inr (field_name, VStr ''<missing>''),
                          log @ [parse_error_msg (''@'' @ attrib) root ''missing attribute''
                                   ''<missing> (1)'' field_name])
                       else (Inl e, log))
           | _ \<Rightarrow> (Inl IndexError, log))
      | _ \<Rightarrow> (Inl AttributeError, log))"

text \<open>Case 3: an entry without children, for one matching node.\<close>

definition leaf_entry ::
  "prefix_map \<Rightarrow> xml \<Rightarrow> xml \<Rightarrow> string \<Rightarrow> json \<Rightarrow> string list \<Rightarrow> (string \<times> pyval) logged" where
  "leaf_entry pref root node entry v log =
     (case v of
        JStr s \<Rightarrow>
          (case split_on (CHR '','') s of
             p0 # p1 # p2 # _ \<Rightarrow>
               (let getter = strip p0; val_type = strip p1; field_name = strip p2 in
                case (if startswith ''_'' getter then
                        (case split_on (CHR ''.'') getter of
                           _ # g1 # _ \<Rightarrow>
                             Inr (map_of (e_attrib node) (expand_prefix (strip g1) pref))
                         | _ \<Rightarrow> Inl IndexError)
                      else Inr (e_text node)) of
                  Inl e \<Rightarrow> (Inl e, log)
                | Inr raw_val \<Rightarrow>
                    (case parse_val raw_val val_type of
                       Inr x \<Rightarrow> (Inr (field_name, x), log)
                     | Inl e \<Rightarrow>
                         if is_ValueError e then
                           (Inr (field_name, VStr ''<parsing error (2)>''),
                            log @ [parse_error_msg entry root ''wrong value format''
                                     ''<parsing error>'' field_name])
                         else if e = TypeError then
                           (Inr (field_name, VStr ''<missing>''),
                            log @ [parse_error_msg entry root ''missing value''
                                     ''<missing> (2)'' field_name])
                         else (Inl e, log)))
           | _ \<Rightarrow> (Inl IndexError, log))
      | _ \<Rightarrow> (Inl AttributeError, log))"

section \<open>extract_data\<close>

definition entry_name :: "string \<Rightarrow> string" where
  "entry_name entry = remove_brackets (replace_char (CHR ''.'') (CHR '':'') (strip entry))"

definition entry_is_array :: "string \<Rightarrow> bool" where
  "entry_is_array entry = endswith ''[]'' (strip entry)"

text \<open>
  \<open>extract_entries\<close> is the loop over the schema's entries, \<open>extract_nodes\<close> the loop over
  the matching nodes of one entry (with the records so far and the current
  \<open>field_name\<close>), \<open>extract_options\<close> the loop over the alternatives of a list entry for
  one node.  The code deletes the key \<open>'_'\<close> of an option while it extracts with it and
  stores it again: by \<open>dict_del_restore\<close> every later use of the option sees the same
  remaining entries in the same order.
\<close>

function (sequential)
  extract_entries :: "find_fn \<Rightarrow> prefix_map \<Rightarrow> xml \<Rightarrow> (string \<times> json) list \<Rightarrow> record_dict \<Rightarrow>
    string list \<Rightarrow> record_dict logged"
  and extract_nodes :: "find_fn \<Rightarrow> prefix_map \<Rightarrow> xml \<Rightarrow> string \<Rightarrow> json \<Rightarrow> xml list \<Rightarrow> string \<Rightarrow>
    pyval list \<Rightarrow> string list \<Rightarrow> (pyval list \<times> string) logged"
  and extract_options :: "find_fn \<Rightarrow> prefix_map \<Rightarrow> xml \<Rightarrow> json list \<Rightarrow> string list \<Rightarrow>
    record_dict option logged" where
  "extract_entries xfind pref root [] record log = (Inr record, log)"
| "extract_entries xfind pref root ((entry, v) # es) record log =
     (let name = entry_name entry in
      if startswith ''_'' name then
        (case attr_entry pref root name v log of
           (Inl e, log') \<Rightarrow> (Inl e, log')
         | (Inr (field_name, x), log') \<Rightarrow>
             extract_entries xfind pref root es (dict_set record field_name x) log')
      else
        (case extract_nodes xfind pref root entry v (et_iter (expand_prefix name pref) root) name [] log of
           (Inl e, log') \<Rightarrow> (Inl e, log')
         | (Inr (sub_records, field_name), log') \<Rightarrow>
             if entry_is_array entry then
               extract_entries xfind pref root es (dict_set record field_name (VList sub_records)) log'
             else
               (case sub_records of
                  x # _ \<Rightarrow> extract_entries xfind pref root es (dict_set record field_name x) log'
                | [] \<Rightarrow>
                    extract_entries xfind pref root es
                      (dict_set record field_name (VStr ''<missing>''))
                      (log' @ [no_value_msg field_name]))))"
| "extract_nodes xfind pref root entry v [] field_name sub_records log =
     (Inr (sub_records, field_name), log)"
| "extract_nodes xfind pref root entry v (node # nodes) field_name sub_records log =
     (case v of
        JDict d \<Rightarrow>
          (case extract_entries xfind pref node d [] log of
             (Inl e, log') \<Rightarrow> (Inl e, log')
           | (Inr sub_rec, log') \<Rightarrow>
               if entry_is_array entry then
                 extract_nodes xfind pref root entry v nodes field_name (sub_records @ [VDict sub_rec]) log'
               else (Inr (sub_records @ [VDict sub_rec], field_name), log'))
      | JList options \<Rightarrow>
          (case extract_options xfind pref node options log of
             (Inl e, log') \<Rightarrow> (Inl e, log')
           | (Inr None, log') \<Rightarrow> extract_nodes xfind pref root entry v nodes field_name sub_records log'
           | (Inr (Some sub_rec), log') \<Rightarrow>
               extract_nodes xfind pref root entry v nodes field_name (sub_records @ [VDict sub_rec]) log')
      | _ \<Rightarrow>
          (case leaf_entry pref root node entry v log of
             (Inl e, log') \<Rightarrow> (Inl e, log')
           | (Inr (field_name', x), log') \<Rightarrow>
               if entry_is_array entry then
                 extract_nodes xfind pref root entry v nodes field_name' (sub_records @ [x]) log'
               else (Inr (sub_records @ [x], field_name'), log')))"
| "extract_options xfind pref node [] log = (Inr None, log)"
| "extract_options xfind pref node (option # options) log =
     (case option of
        JDict d \<Rightarrow>
          (case map_of d ''_'' of
             None \<Rightarrow> (Inl KeyError, log)
           | Some (JStr pattern1) \<Rightarrow>
               (case xfind node pattern1 pref of
                  Inl e \<Rightarrow> (Inl e, log)
                | Inr None \<Rightarrow> extract_options xfind pref node options log
                | Inr (Some match) \<Rightarrow>
                    (case extract_entries xfind pref match (dict_del ''_'' d) [] log of
                       (Inl e, log') \<Rightarrow> (Inl e, log')
                     | (Inr sub_rec, log') \<Rightarrow> (Inr (Some sub_rec), log')))
           | Some _ \<Rightarrow> (Inl TypeError, log))
      | _ \<Rightarrow> (Inl TypeError, log))"
  by pat_completeness auto
termination
by (relation "measures [
    \<lambda>x. case x of Inl (f, p, r, es, rec, l) \<Rightarrow> psize es
        | Inr (Inl (f, p, r, e, v, ns, n, s, l)) \<Rightarrow> jsize v
        | Inr (Inr (f, p, n, os, l)) \<Rightarrow> isize os,
    \<lambda>x. case x of Inl _ \<Rightarrow> 0 | Inr (Inl (f, p, r, e, v, ns, n, s, l)) \<Rightarrow> Suc (length ns)
        | Inr (Inr _) \<Rightarrow> 0]")
    (auto simp: le_imp_less_Suc intro: le_less_trans [OF psize_dict_del])

definition extract_data :: "find_fn \<Rightarrow> xml \<Rightarrow> (string \<times> json) list \<Rightarrow> prefix_map \<Rightarrow> record_dict logged" where
  "extract_data xfind root data_sch pref = extract_entries xfind pref root data_sch [] []"

section \<open>One induction for all properties of a run\<close>

text \<open>
  \<open>outcome M E lg out\<close>: the run only appended to the log, every new message satisfies
  \<open>M\<close>, and an exception that left the run satisfies \<open>E\<close>.
\<close>

definition outcome :: "(string \<Rightarrow> bool) \<Rightarrow> (exn \<Rightarrow> bool) \<Rightarrow> string list \<Rightarrow> 'a logged \<Rightarrow> bool" where
  "outcome M E lg out =
     ((\<exists>new. snd out = lg @ new \<and> list_all M new) \<and> (\<forall>e. fst out = Inl e \<longrightarrow> E e))"

lemma outcome_Inr [simp]: "outcome M E lg (Inr x, lg)"
  by (simp add: outcome_def)

lemma outcome_Inl [simp]: "outcome M E lg (Inl e, lg) = E e"
  by (simp add: outcome_def)

lemma outcome_msg [simp]: "outcome M E lg (Inr x, lg @ [m]) = M m"
  by (simp add: outcome_def)

lemma outcome_err: "outcome M E lg (Inl e, lg') \<Longrightarrow> outcome M E lg (Inl e, lg')"
  by (simp add: outcome_def)

lemma outcome_same_log:
  "outcome M E lg (Inr x, lg') \<Longrightarrow> outcome M E lg (Inr y, lg')"
  "outcome M E lg (Inl e, lg') \<Longrightarrow> outcome M E lg (Inl e, lg')"
  by (auto simp: outcome_def)

lemma outcome_trans:
  "outcome M E lg (Inr x, lg') \<Longrightarrow> outcome M E lg' out \<Longrightarrow> outcome M E lg out"
  by (auto simp: outcome_def)

lemma outcome_trans_msg:
  "outcome M E lg (Inr x, lg') \<Longrightarrow> M m \<Longrightarrow> outcome M E (lg' @ [m]) out \<Longrightarrow> outcome M E lg out"
  by (auto simp: outcome_def)

lemma outcome_InlD: "outcome M E lg (Inl e, lg') \<Longrightarrow> E e"
  by (simp add: outcome_def)

text \<open>When no record came out of the matching nodes, the field name is still the entry's.\<close>

lemma extract_nodes_no_record:
  "extract_nodes xfind pref root entry v nodes fieldn subs lg = (Inr (subs', fieldn'), lg') \<Longrightarrow>
   (subs' = [] \<longrightarrow> fieldn' = fieldn) \<and> (subs \<noteq> [] \<longrightarrow> subs' \<noteq> [])"
proof (induction nodes arbitrary: subs fieldn lg)
  case (Cons n nodes)
  show ?case
  proof (cases v)
    case (JDict d)
    with Cons show ?thesis by (auto split: prod.splits sum.splits if_splits)
  next
    case (JList os)
    with Cons show ?thesis by (auto split: prod.splits sum.splits option.splits)
  qed (use Cons in \<open>auto split: prod.splits sum.splits if_splits\<close>)
qed simp

definition is_leaf :: "json \<Rightarrow> bool" where
  "is_leaf v = ((\<forall>d. v \<noteq> JDict d) \<and> (\<forall>os. v \<noteq> JList os))"

lemma extract_nodes_leaf:
  "is_leaf v \<Longrightarrow> extract_nodes xfind pref root entry v (node # nodes) fieldn subs lg =
     (case leaf_entry pref root node entry v lg of
        (Inl e, lg') \<Rightarrow> (Inl e, lg')
      | (Inr (f, x), lg') \<Rightarrow>
          if entry_is_array entry then
            extract_nodes xfind pref root entry v nodes f (subs @ [x]) lg'
          else (Inr (subs @ [x], f), lg'))"
  by (cases v; hypsubst) (simp_all add: is_leaf_def)

locale extraction_contract =
  fixes xfind :: find_fn
    and pref :: prefix_map
    and node_ok :: "xml \<Rightarrow> bool"
    and entries_ok :: "(string \<times> json) list \<Rightarrow> bool"
    and value_ok :: "string \<Rightarrow> json \<Rightarrow> bool"
    and options_ok :: "json list \<Rightarrow> bool"
    and msg_ok :: "string \<Rightarrow> bool"
    and exn_ok :: "exn \<Rightarrow> bool"
  assumes iter_ok: "node_ok root \<Longrightarrow> n \<in> set (et_iter t root) \<Longrightarrow> node_ok n"
    and entries_tl: "entries_ok ((entry, v) # es) \<Longrightarrow> entries_ok es"
    and entries_hd: "entries_ok ((entry, v) # es) \<Longrightarrow>
      \<not> startswith ''_'' (entry_name entry) \<Longrightarrow> value_ok entry v"
    and attr_ok: "node_ok root \<Longrightarrow> entries_ok ((entry, v) # es) \<Longrightarrow>
      startswith ''_'' (entry_name entry) \<Longrightarrow>
      outcome msg_ok exn_ok lg (attr_entry pref root (entry_name entry) v lg)"
    and leaf_ok: "node_ok root \<Longrightarrow> node_ok node \<Longrightarrow> value_ok entry v \<Longrightarrow>
      is_leaf v \<Longrightarrow>
      outcome msg_ok exn_ok lg (leaf_entry pref root node entry v lg)"
    and none_ok: "value_ok entry v \<Longrightarrow> msg_ok (no_value_msg (entry_name entry))"
    and dict_ok: "value_ok entry (JDict d) \<Longrightarrow> entries_ok d"
    and list_ok: "value_ok entry (JList os) \<Longrightarrow> options_ok os"
    and options_tl: "options_ok (opt # os) \<Longrightarrow> options_ok os"
    and option_no_dict: "options_ok (opt # os) \<Longrightarrow> (\<forall>d. opt \<noteq> JDict d) \<Longrightarrow> exn_ok TypeError"
    and option_no_path: "options_ok (JDict d # os) \<Longrightarrow> map_of d ''_'' = None \<Longrightarrow> exn_ok KeyError"
    and option_bad_path: "options_ok (JDict d # os) \<Longrightarrow> map_of d ''_'' = Some pv \<Longrightarrow>
      (\<forall>s. pv \<noteq> JStr s) \<Longrightarrow> exn_ok TypeError"
    and option_rest: "options_ok (JDict d # os) \<Longrightarrow> map_of d ''_'' = Some (JStr p) \<Longrightarrow>
      entries_ok (dict_del ''_'' d)"
    and find_fails: "options_ok (JDict d # os) \<Longrightarrow> map_of d ''_'' = Some (JStr p) \<Longrightarrow>
      node_ok node \<Longrightarrow> xfind node p pref = Inl e \<Longrightarrow> exn_ok e"
    and find_ok: "options_ok (JDict d # os) \<Longrightarrow> map_of d ''_'' = Some (JStr p) \<Longrightarrow>
      node_ok node \<Longrightarrow> xfind node p pref = Inr (Some m) \<Longrightarrow> node_ok m"
begin

lemma extract_outcome_aux:
  "xf = xfind \<Longrightarrow> pf = pref \<Longrightarrow> node_ok root \<Longrightarrow> entries_ok es \<Longrightarrow>
   outcome msg_ok exn_ok lg (extract_entries xf pf root es recd lg)"
  "xf = xfind \<Longrightarrow> pf = pref \<Longrightarrow> node_ok root \<Longrightarrow> list_all node_ok nodes \<Longrightarrow> value_ok entry v \<Longrightarrow>
   outcome msg_ok exn_ok lg (extract_nodes xf pf root entry v nodes fieldn subs lg)"
  "xf = xfind \<Longrightarrow> pf = pref \<Longrightarrow> node_ok node \<Longrightarrow> options_ok opts \<Longrightarrow>
   outcome msg_ok exn_ok lg (extract_options xf pf node opts lg)"
proof (induction xf pf root es recd lg and xf pf root entry v nodes fieldn subs lg
    and xf pf node opts lg rule: extract_entries_extract_nodes_extract_options.induct)
  case (2 xf pf root entry v es recd lg)
  note IH = "2.IH" and prems = "2.prems"
  have es: "entries_ok es" using entries_tl prems by blast
  show ?case
  proof (cases "startswith ''_'' (entry_name entry)")
    case True
    obtain r lg' where a: "attr_entry pf root (entry_name entry) v lg = (r, lg')" by fastforce
    have o: "outcome msg_ok exn_ok lg (r, lg')"
      using attr_ok [OF prems(3,4) True, of lg] a prems(2) by simp
    show ?thesis
    proof (cases r)
      case (Inl e)
      with True a o show ?thesis by (auto intro: outcome_same_log)
    next
      case (Inr fx)
      obtain f x where fx: "fx = (f, x)" by fastforce
      from IH(1) [OF refl True a [symmetric] Inr fx [symmetric] prems(1,2,3) es]
      have "outcome msg_ok exn_ok lg' (extract_entries xf pf root es (dict_set recd f x) lg')" by simp
      with True a o Inr fx show ?thesis by (auto intro: outcome_trans)
    qed
  next
    case False
    have v: "value_ok entry v" using entries_hd [OF prems(4) False] .
    let ?nodes = "et_iter (expand_prefix (entry_name entry) pf) root"
    obtain r lg' where a:
      "extract_nodes xf pf root entry v ?nodes (entry_name entry) [] lg = (r, lg')" by fastforce
    have "list_all node_ok ?nodes" using iter_ok prems(3) by (simp add: list_all_iff)
    with IH(2) [OF refl False prems(1,2,3)] v a
    have o: "outcome msg_ok exn_ok lg (r, lg')" by simp
    show ?thesis
    proof (cases r)
      case (Inl e)
      with False a o show ?thesis by (auto intro: outcome_same_log)
    next
      case (Inr sf)
      obtain subs f where sf: "sf = (subs, f)" by fastforce
      note step = refl False a [symmetric] Inr sf [symmetric]
      show ?thesis
      proof (cases "entry_is_array entry")
        case True
        from IH(3) [OF step True prems(1,2,3) es] False True a o Inr sf
        show ?thesis by (auto intro: outcome_trans)
      next
        case noarr: False
        show ?thesis
        proof (cases subs)
          case Nil
          with a Inr sf have "f = entry_name entry"
            using extract_nodes_no_record [of xf pf root entry v ?nodes "entry_name entry" "[]" lg] by simp
          with none_ok [OF v] have "msg_ok (no_value_msg f)" by simp
          with IH(4) [OF step noarr Nil prems(1,2,3) es] False noarr a o Inr sf Nil
          show ?thesis by (auto intro: outcome_trans_msg)
        next
          case (Cons x xs)
          from IH(5) [OF step noarr Cons prems(1,2,3) es] False noarr a o Inr sf Cons
          show ?thesis by (auto intro: outcome_trans)
        qed
      qed
    qed
  qed
next
  case (4 xf pf root entry v node nodes fieldn subs lg)
  note IH = "4.IH" and prems = "4.prems"
  have n: "node_ok node" and ns: "list_all node_ok nodes" using prems(4) by simp_all
  consider (d) d where "v = JDict d" | (l) os where "v = JList os" | (leaf) "is_leaf v"
    by (auto simp: is_leaf_def)
  then show ?case
  proof cases
    case d
    obtain r lg' where a: "extract_entries xf pf node d [] lg = (r, lg')" by fastforce
    have o: "outcome msg_ok exn_ok lg (r, lg')"
      using IH(9) [OF d prems(1,2) n] dict_ok prems(5) d a by simp
    show ?thesis
    proof (cases r)
      case (Inr b)
      with IH(10) [OF d a [symmetric] Inr _ prems(1,2,3) ns prems(5)] d a o
      show ?thesis by (auto intro: outcome_trans outcome_same_log)
    qed (use d a o in \<open>auto intro: outcome_same_log\<close>)
  next
    case l
    obtain r lg' where a: "extract_options xf pf node os lg = (r, lg')" by fastforce
    have o: "outcome msg_ok exn_ok lg (r, lg')"
      using IH(6) [OF l prems(1,2) n] list_ok prems(5) l a by simp
    show ?thesis
    proof (cases r)
      case (Inr b)
      with IH(7) [OF l a [symmetric] Inr _ prems(1,2,3) ns prems(5)]
        IH(8) [OF l a [symmetric] Inr _ prems(1,2,3) ns prems(5)] l a o
      show ?thesis by (cases b) (auto intro: outcome_trans)
    qed (use l a o in \<open>auto intro: outcome_same_log\<close>)
  next
    case leaf
    obtain r lg' where a: "leaf_entry pf root node entry v lg = (r, lg')" by fastforce
    have o: "outcome msg_ok exn_ok lg (r, lg')"
      using leaf_ok [OF prems(3) n prems(5) leaf, of lg] a prems(2) by simp
    show ?thesis
    proof (cases r)
      case (Inr b)
      obtain f x where b: "b = (f, x)" by fastforce
      have "entry_is_array entry \<Longrightarrow>
          outcome msg_ok exn_ok lg' (extract_nodes xf pf root entry v nodes f (subs @ [x]) lg')"
        using IH(1-5,11) [OF _ a [symmetric] Inr b [symmetric] _ prems(1,2,3) ns prems(5)] leaf
        by (cases v) (auto simp: is_leaf_def)
      with leaf a o Inr b show ?thesis
        by (auto simp: extract_nodes_leaf simp del: extract_nodes.simps
            intro: outcome_trans outcome_same_log)
    qed (use leaf a o in \<open>auto simp: extract_nodes_leaf simp del: extract_nodes.simps
           intro: outcome_same_log\<close>)
  qed
next
  case (6 xf pf node opt opts lg)
  note IH = "6.IH" and prems = "6.prems"
  have os: "options_ok opts" using options_tl prems(4) by blast
  show ?case
  proof (cases opt)
    case (JDict d)
    note opts = prems(4) [unfolded JDict]
    show ?thesis
    proof (cases "map_of d ''_''")
      case None
      with JDict option_no_path [OF opts] show ?thesis by simp
    next
      case (Some pv)
      show ?thesis
      proof (cases pv)
        case (JStr pat)
        note path = Some [unfolded JStr]
        show ?thesis
        proof (cases "xf node pat pf")
          case (Inl e)
          with JDict path find_fails [OF opts path prems(3)] prems(1,2) show ?thesis by simp
        next
          case (Inr mo)
          show ?thesis
          proof (cases mo)
            case None
            from IH(1) [OF JDict Some JStr Inr None prems(1,2,3) os] JDict path Inr None
            show ?thesis by simp
          next
            case (Some m)
            obtain r lg' where a: "extract_entries xf pf m (dict_del ''_'' d) [] lg = (r, lg')"
              by fastforce
            have "node_ok m" using find_ok [OF opts path prems(3)] Inr Some prems(1,2) by simp
            with IH(2) [OF JDict \<open>map_of d ''_'' = Some pv\<close> JStr Inr Some prems(1,2)]
              option_rest [OF opts path] a
            have "outcome msg_ok exn_ok lg (r, lg')" by simp
            with JDict path Inr Some a show ?thesis
              by (cases r) (auto intro: outcome_same_log)
          qed
        qed
      qed (use JDict Some option_bad_path [OF opts Some] in simp_all)
    qed
  qed (use option_no_dict [OF prems(4)] in simp_all)
qed simp_all

lemmas extract_outcome = extract_outcome_aux [OF refl refl]

end

end
