(* ===== verification/Ingest.thy ===== *)
theory Ingest
  imports Schemas Extract
begin

text \<open>
  lambda_function_xml.py: the handler \<open>main\<close> of the Lambda.  What it calls outside the
  repository is the record \<open>env\<close>: S3, gzip, the UTF-8 decoder, the YAML and XML parsers,
  the decoding of a json column by psycopg2, and DynamoDB's answer to one item.  The
  writes to DynamoDB are kept as the list of batches, each the items put in it.
\<close>

type_synonym bytes = string

record env =
  s3_get :: "string \<Rightarrow> string \<Rightarrow> bytes res"
  gunzip :: "bytes \<Rightarrow> bytes res"
  utf8_decode :: "bytes \<Rightarrow> string res"
  yaml_load :: "string \<Rightarrow> json res"
  fromstring :: "string \<Rightarrow> xml res"
  json_loads :: "string \<Rightarrow> json"
  element_find :: find_fn
  dynamo_put :: "pyval \<Rightarrow> unit res"

record 'c ingest = "'c world" +
  batches :: "pyval list list"

text \<open>A \<open>try\<close> block: its exception becomes a value, the state is kept.\<close>

definition attempt :: "('s, exn, 'a) act \<Rightarrow> ('s, exn, exn + 'a) act" where
  "attempt m s = (case m s of (r, s') \<Rightarrow> (Inr r, s'))"

lemma attempt_run [simp]: "m s = (r, s') \<Longrightarrow> attempt m s = (Inr r, s')"
  by (simp add: attempt_def)

section \<open>Uploading\<close>

definition chunk_size :: nat where
  "chunk_size = 500"

text \<open>The pairs \<open>(i, j)\<close> of the loop \<open>for i in range(0, size, chunk_size)\<close>.\<close>

function chunk_bounds :: "nat \<Rightarrow> nat \<Rightarrow> (nat \<times> nat) list" where
  "chunk_bounds n i =
     (if i < n then (i, min n (i + chunk_size)) # chunk_bounds n (i + chunk_size) else [])"
  by pat_completeness auto
termination
  by (relation "measure (\<lambda>(n, i). n - i)") (auto simp: chunk_size_def)

declare chunk_bounds.simps [simp del]

definition py_len :: "pyval \<Rightarrow> nat res" where
  "py_len v = (case v of VList xs \<Rightarrow> Inr (length xs) | VStr s \<Rightarrow> Inr (length s)
     | VDict d \<Rightarrow> Inr (length d) | _ \<Rightarrow> Inl TypeError)"

text \<open>\<open>data[i:j]\<close>, as the list of what the loop over it yields; a dictionary takes no slice.\<close>

definition py_slice :: "pyval \<Rightarrow> nat \<Rightarrow> nat \<Rightarrow> pyval list res" where
  "py_slice v i j =
     (case v of VList xs \<Rightarrow> Inr (take (j - i) (drop i xs))
      | VStr s \<Rightarrow> Inr (map (\<lambda>c. VStr [c]) (take (j - i) (drop i s)))
      | _ \<Rightarrow> Inl TypeError)"

definition add_to_last :: "'a \<Rightarrow> 'a list list \<Rightarrow> 'a list list" where
  "add_to_last x bs = butlast bs @ [last bs @ [x]]"

fun put_items :: "('m env_scheme) \<Rightarrow> pyval list \<Rightarrow> (('c, 'w) ingest_scheme, exn, unit) act" where
  "put_items E [] = ret ()"
| "put_items E (x # xs) =
     sbind (lift_res (dynamo_put E x)) (\<lambda>_.
     sbind (modify (\<lambda>w. w\<lparr>batches := add_to_last x (batches w)\<rparr>)) (\<lambda>_. put_items E xs))"

text \<open>One \<open>with ... batch_writer(...) as batch\<close> block.\<close>

definition write_batch ::
  "('m env_scheme) \<Rightarrow> pyval \<Rightarrow> nat \<Rightarrow> nat \<Rightarrow> (('c, 'w) ingest_scheme, exn, unit) act" where
  "write_batch E data i j =
     sbind (modify (\<lambda>w. w\<lparr>batches := batches w @ [[]]\<rparr>)) (\<lambda>_.
     sbind (lift_res (py_slice data i j)) (put_items E))"

fun upload ::
  "('m env_scheme) \<Rightarrow> (nat \<Rightarrow> datetime) \<Rightarrow> pyval \<Rightarrow> (nat \<times> nat) list \<Rightarrow>
   (('c, 'w) ingest_scheme, exn, unit) act" where
  "upload E now data [] = ret ()"
| "upload E now data ((i, j) # bs) =
     sbind (write_batch E data i j) (\<lambda>_.
     sbind (push_message now (''Sent data for items '' @ show_nat i @ ''-'' @ show_nat j)) (\<lambda>_.
     upload E now data bs))"

section \<open>The handler\<close>

definition key_name :: "string \<Rightarrow> string" where
  "key_name k = [CHR 0x60] @ k @ [CHR 0x60]"

definition key_stem :: "string \<Rightarrow> string" where
  "key_stem k = hd (split_on (CHR ''.'') k)"

definition couldnt :: string where
  "couldnt = ''Couldn'' @ [quote, quote] @ ''t ''"

text \<open>\<open>obj.get()['Body'].read()\<close> in its \<open>try\<close>: only a \<open>ClientError\<close> is caught.\<close>

definition fetch ::
  "('c, 'o) db_ops_scheme \<Rightarrow> (nat \<Rightarrow> datetime) \<Rightarrow> ('m env_scheme) \<Rightarrow> string \<Rightarrow> string \<Rightarrow>
   (bytes \<Rightarrow> (('c, 'w) ingest_scheme, exn, unit) act) \<Rightarrow> (('c, 'w) ingest_scheme, exn, unit) act" where
  "fetch ops now E bucket key rest =
     (case s3_get E bucket key of
        Inr contents \<Rightarrow> rest contents
      | Inl (ClientError code) \<Rightarrow>
          sbind (push_message now (''Error while retrieving '' @ key_name key @ '': '' @ code)) (\<lambda>_.
          commit_log ops now (Some key) failed)
      | Inl e \<Rightarrow> throw e)"

definition fail_with ::
  "('c, 'o) db_ops_scheme \<Rightarrow> (nat \<Rightarrow> datetime) \<Rightarrow> string \<Rightarrow> string \<Rightarrow>
   (('c, 'w) ingest_scheme, exn, unit) act" where
  "fail_with ops now key msg =
     sbind (push_message now msg) (\<lambda>_. commit_log ops now (Some key) failed)"

definition main_yml ::
  "('c, 'o) db_ops_scheme \<Rightarrow> (nat \<Rightarrow> datetime) \<Rightarrow> ('m env_scheme) \<Rightarrow> string \<Rightarrow> string \<Rightarrow>
   (('c, 'w) ingest_scheme, exn, unit) act" where
  "main_yml ops now E bucket key =
     sbind (push_message now (''Requesting file '' @ key_name key @ '' from S3'')) (\<lambda>_.
     fetch ops now E bucket key (\<lambda>contents.
     sbind (push_message now (''Read '' @ key_name key @ '' from S3'')) (\<lambda>_.
     sbind (attempt
        (sbind (lift_res (rbind (utf8_decode E contents) (yaml_load E))) (\<lambda>schema.
         sbind (push_message now (''Read the schema from '' @ key_name key)) (\<lambda>_.
         sbind (add_schema ops schema) (\<lambda>_.
         push_message now (''Put the schema from '' @ key_name key @ '' into the database''))))))
       (\<lambda>r. case r of
          Inl e \<Rightarrow> fail_with ops now key (couldnt @ ''process '' @ key_name key)
        | Inr _ \<Rightarrow>
            sbind (push_message now (''Finished processing schema from '' @ key_name key)) (\<lambda>_.
            commit_log ops now (Some key) succeeded)))))"

text \<open>
  \<open>schema[3]['prefixes']\<close> and \<open>schema[3]['data']\<close>.  The model takes prefixes that map
  strings to strings and a data schema that is a dictionary; other shapes are a
  \<open>TypeError\<close> of the extraction here, whatever the code would make of them.
\<close>

definition prefix_dict :: "json \<Rightarrow> prefix_map res" where
  "prefix_dict v =
     (case v of
        JDict d \<Rightarrow>
          if list_all (\<lambda>(k, x). case x of JStr s \<Rightarrow> True | _ \<Rightarrow> False) d
          then Inr (map (\<lambda>(k, x). (k, case x of JStr s \<Rightarrow> s | _ \<Rightarrow> [])) d)
          else Inl TypeError
      | _ \<Rightarrow> Inl TypeError)"

definition data_dict :: "json \<Rightarrow> (string \<times> json) list res" where
  "data_dict v = (case v of JDict d \<Rightarrow> Inr d | _ \<Rightarrow> Inl TypeError)"

definition publication_tag :: string where
  "publication_tag = ''{http://datex2.eu/schema/2/2_0}publicationTime''"

text \<open>\<open>next(xml_data.iter(...)).text\<close>\<close>

definition publication_time :: "xml \<Rightarrow> string option res" where
  "publication_time root =
     (case et_iter publication_tag root of [] \<Rightarrow> Inl StopIteration | n # _ \<Rightarrow> Inr (e_text n))"

text \<open>\<open>extract_data(...).popitem()[1]\<close>, the messages pushed to the logger.\<close>

definition run_extract ::
  "(nat \<Rightarrow> datetime) \<Rightarrow> ('m env_scheme) \<Rightarrow> xml \<Rightarrow> json \<Rightarrow> json \<Rightarrow>
   (('c, 'w) ingest_scheme, exn, pyval) act" where
  "run_extract now E root data_schema xml_prefixes =
     sbind (lift_res (data_dict data_schema)) (\<lambda>sch.
     sbind (lift_res (prefix_dict xml_prefixes)) (\<lambda>pref.
       case extract_data (element_find E) root sch pref of
         (r, msgs) \<Rightarrow>
           sbind (push_messages now msgs) (\<lambda>_.
           sbind (lift_res r) (\<lambda>recd.
           if recd = [] then throw KeyError else ret (snd (last recd))))))"

definition store_data ::
  "('c, 'o) db_ops_scheme \<Rightarrow> (nat \<Rightarrow> datetime) \<Rightarrow> ('m env_scheme) \<Rightarrow> string \<Rightarrow> pyval \<Rightarrow>
   (('c, 'w) ingest_scheme, exn, unit) act" where
  "store_data ops now E key data =
     sbind (lift_res (py_len data)) (\<lambda>size.
     sbind (push_message now (''Extracted data from '' @ key_name key @ '', found readings for '' @
              show_nat size @ '' locations'')) (\<lambda>_.
     sbind (push_message now ''Started writing to DynamoDB'') (\<lambda>_.
     sbind (commit_log ops now (Some key) processing) (\<lambda>_.
     sbind (upload E now data (chunk_bounds size 0)) (\<lambda>_.
     sbind (push_message now (''Finished processing traffic data from '' @ key_name key)) (\<lambda>_.
     commit_log ops now (Some key) succeeded))))))"

text \<open>From the row \<open>find_schema\<close> returned to the upload.\<close>

definition use_schema ::
  "('c, 'o) db_ops_scheme \<Rightarrow> (nat \<Rightarrow> datetime) \<Rightarrow> ('m env_scheme) \<Rightarrow> string \<Rightarrow> xml \<Rightarrow>
   schema_row option \<Rightarrow> (('c, 'w) ingest_scheme, exn, unit) act" where
  "use_schema ops now E key xml_data schema =
     (case schema of
        None \<Rightarrow>
          fail_with ops now key
            (couldnt @ ''find a matching schema for '' @ key_name (key_stem key) @ '' in the database'')
      | Some row \<Rightarrow>
          sbind (push_message now ''Found a matching schema in the database'') (\<lambda>_.
          case (let s3 = json_loads E (sr_processing row) in
                rbind (subscript s3 ''prefixes'') (\<lambda>p. rbind (subscript s3 ''data'') (\<lambda>d. Inr (p, d)))) of
            Inl e \<Rightarrow> fail_with ops now key ''Unexpected schema format''
          | Inr (xml_prefixes, data_schema) \<Rightarrow>
              sbind (push_message now ''Started extracting data from the datafile'') (\<lambda>_.
              sbind (commit_log ops now (Some key) processing) (\<lambda>_.
              sbind (run_extract now E xml_data data_schema xml_prefixes)
                (store_data ops now E key)))))"

definition process_xml ::
  "('c, 'o) db_ops_scheme \<Rightarrow> (nat \<Rightarrow> datetime) \<Rightarrow> ('m env_scheme) \<Rightarrow> string \<Rightarrow> xml \<Rightarrow>
   (('c, 'w) ingest_scheme, exn, unit) act" where
  "process_xml ops now E key xml_data =
     sbind (push_message now ''Read the XML data'') (\<lambda>_.
     sbind (lift_res (publication_time xml_data)) (\<lambda>date.
     sbind (find_schema ops key date) (use_schema ops now E key xml_data)))"

definition parse_xml ::
  "('c, 'o) db_ops_scheme \<Rightarrow> (nat \<Rightarrow> datetime) \<Rightarrow> ('m env_scheme) \<Rightarrow> string \<Rightarrow> bytes \<Rightarrow>
   (('c, 'w) ingest_scheme, exn, unit) act" where
  "parse_xml ops now E key contents =
     sbind (push_message now ''Decompressed the GZIP data'') (\<lambda>_.
     case rbind (utf8_decode E contents) (fromstring E) of
       Inl ParseError \<Rightarrow>
         fail_with ops now key (couldnt @ ''parse XML data from '' @ [dquote] @ key_stem key @ [dquote])
     | Inl e \<Rightarrow> throw e
     | Inr xml_data \<Rightarrow>
         sbind (push_message now ''Read the XML data'') (\<lambda>_. process_xml ops now E key xml_data))"

definition main_xml ::
  "('c, 'o) db_ops_scheme \<Rightarrow> (nat \<Rightarrow> datetime) \<Rightarrow> ('m env_scheme) \<Rightarrow> string \<Rightarrow> string \<Rightarrow>
   (('c, 'w) ingest_scheme, exn, unit) act" where
  "main_xml ops now E bucket key =
     sbind (push_message now (''Requesting a traffic data file, '' @ key_name key @ '', from S3'')) (\<lambda>_.
     sbind (commit_log ops now (Some key) processing) (\<lambda>_.
     fetch ops now E bucket key (\<lambda>contents.
     sbind (push_message now (''Read '' @ key_name key @ '' from S3'')) (\<lambda>_.
     sbind (commit_log ops now (Some key) processing) (\<lambda>_.
     if last_chars 2 key = ''gz'' then
       sbind (push_message now ''Found GZIP extension'') (\<lambda>_.
       case gunzip E contents of
         Inl e \<Rightarrow> fail_with ops now key (couldnt @ ''decompress the GZIP data'')
       | Inr plain \<Rightarrow> parse_xml ops now E key plain)
     else parse_xml ops now E key contents)))))"

definition main ::
  "('c, 'o) db_ops_scheme \<Rightarrow> (nat \<Rightarrow> datetime) \<Rightarrow> ('m env_scheme) \<Rightarrow> string \<Rightarrow> string \<Rightarrow>
   (('c, 'w) ingest_scheme, exn, unit) act" where
  "main ops now E bucket key =
     sbind (get_logger now) (\<lambda>_.
       if last_chars 3 key = ''yml'' then main_yml ops now E bucket key
       else if last_chars 3 key = ''xml'' \<or> last_chars 2 key = ''gz''
       then main_xml ops now E bucket key
       else ret ())"

end
