(* ===== verification/Extract_Props.thy ===== *)
theory Extract_Props
  imports Extract
begin

text \<open>
  What the extraction guarantees: which schemas never make it raise, that its messages are
  safe to paste into SQL, which keys a record has, and what the loops over nodes and over
  alternatives compute.  The first two are interpretations of \<open>extraction_contract\<close>.
\<close>

section \<open>Exceptions of parse_val\<close>

lemma of_option_Inl [simp]: "of_option e m = Inl e' \<longleftrightarrow> m = None \<and> e' = e"
  by (cases m) auto

lemma map_sum_Inl [simp]: "map_sum id f m = Inl e \<longleftrightarrow> m = Inl e"
  by (cases m) auto

lemma py_int_error: "py_int s = Inl e \<Longrightarrow> e = ValueError"
  by (auto simp: py_int_def split: list.splits if_splits)

lemma py_decimal_error: "py_decimal s = Inl e \<Longrightarrow> e = InvalidOperation"
  by (auto simp: py_decimal_def)

lemma strptime_error: "strptime_iso s = Inl e \<Longrightarrow> e = ValueError"
  by (simp add: strptime_iso_def)

lemma parse_val_error:
  "parse_val raw t = Inl e \<Longrightarrow>
   (e = TypeError \<and> raw = None) \<or> e = ValueError \<or> (e = InvalidOperation \<and> t = ''float'')"
  by (auto simp: parse_val_def split: if_splits option.splits
      dest: py_int_error py_decimal_error strptime_error)

section \<open>Schemas that cannot make the extraction raise\<close>

text \<open>
  \<open>wf_entries fl sk es\<close>: every entry has the properties the code reads; the type
  \<open>float\<close> occurs only if \<open>fl\<close>; with \<open>sk\<close> the key \<open>'_'\<close> is the path of an option.
\<close>

definition wf_attr :: "bool \<Rightarrow> json \<Rightarrow> bool" where
  "wf_attr fl v =
     (case v of JStr s \<Rightarrow>
        (case split_on (CHR '','') s of p0 # p1 # _ \<Rightarrow> fl \<or> strip p0 \<noteq> ''float'' | _ \<Rightarrow> False)
      | _ \<Rightarrow> False)"

definition wf_leaf :: "bool \<Rightarrow> string \<Rightarrow> bool" where
  "wf_leaf fl s =
     (case split_on (CHR '','') s of
        p0 # p1 # p2 # _ \<Rightarrow>
          (fl \<or> strip p1 \<noteq> ''float'') \<and>
          (startswith ''_'' (strip p0) \<longrightarrow> tl (split_on (CHR ''.'') (strip p0)) \<noteq> [])
      | _ \<Rightarrow> False)"

definition has_path :: "(string \<times> json) list \<Rightarrow> bool" where
  "has_path d = (case map_of d ''_'' of Some (JStr p) \<Rightarrow> True | _ \<Rightarrow> False)"

fun wf_value :: "bool \<Rightarrow> json \<Rightarrow> bool"
  and wf_options :: "bool \<Rightarrow> json list \<Rightarrow> bool"
  and wf_entries :: "bool \<Rightarrow> bool \<Rightarrow> (string \<times> json) list \<Rightarrow> bool" where
  "wf_value fl (JStr s) = wf_leaf fl s"
| "wf_value fl (JList os) = wf_options fl os"
| "wf_value fl (JDict d) = wf_entries fl False d"
| "wf_value fl _ = False"
| "wf_options fl [] = True"
| "wf_options fl (JDict d # os) = (has_path d \<and> wf_entries fl True d \<and> wf_options fl os)"
| "wf_options fl (_ # os) = False"
| "wf_entries fl sk [] = True"
| "wf_entries fl sk ((k, v) # es) =
     (((sk \<and> k = ''_'') \<or>
       (if startswith ''_'' (entry_name k) then wf_attr fl v else wf_value fl v)) \<and>
      wf_entries fl sk es)"

lemma wf_entries_dict_del: "wf_entries fl True d \<Longrightarrow> wf_entries fl False (dict_del ''_'' d)"
  by (induction d) (auto simp: dict_del_def)

lemma attr_entry_wf:
  assumes "wf_attr fl v"
  shows "outcome (\<lambda>_. True) (\<lambda>e. fl \<and> e = InvalidOperation) lg (attr_entry pref root name v lg)"
proof -
  from assms obtain s p0 p1 ps where v: "v = JStr s" "split_on (CHR '','') s = p0 # p1 # ps"
    and t: "fl \<or> strip p0 \<noteq> ''float''"
    by (auto simp: wf_attr_def split: json.splits list.splits)
  let ?raw = "map_of (e_attrib root) (expand_prefix (strip_chars ''_:'' name) pref)"
  show ?thesis
  proof (cases "parse_val ?raw (strip p0)")
    case (Inl e)
    with parse_val_error [OF Inl] t v show ?thesis by (auto simp: attr_entry_def Let_def)
  qed (simp add: attr_entry_def Let_def v)
qed

lemma leaf_entry_wf:
  assumes "wf_value fl v" and "is_leaf v"
  shows "outcome (\<lambda>_. True) (\<lambda>e. fl \<and> e = InvalidOperation) lg (leaf_entry pref root node entry v lg)"
proof -
  from assms obtain s p0 p1 p2 ps where v: "v = JStr s" "split_on (CHR '','') s = p0 # p1 # p2 # ps"
    and t: "fl \<or> strip p1 \<noteq> ''float''"
    and g: "startswith ''_'' (strip p0) \<longrightarrow> tl (split_on (CHR ''.'') (strip p0)) \<noteq> []"
    by (cases v) (auto simp: wf_leaf_def is_leaf_def split: list.splits)
  let ?raw = "if startswith ''_'' (strip p0)
    then (case split_on (CHR ''.'') (strip p0) of _ # g1 # _ \<Rightarrow>
            Inr (map_of (e_attrib node) (expand_prefix (strip g1) pref)) | _ \<Rightarrow> Inl IndexError)
    else Inr (e_text node)"
  have "\<exists>raw. ?raw = Inr raw" using g by (auto split: list.splits)
  then obtain raw where raw: "?raw = Inr raw" by blast
  show ?thesis
  proof (cases "parse_val raw (strip p1)")
    case (Inl e)
    with parse_val_error [OF Inl] t v raw show ?thesis by (auto simp: leaf_entry_def Let_def)
  qed (use v raw in \<open>auto simp: leaf_entry_def Let_def\<close>)
qed

text \<open>\<open>find\<close> answers for every path: a documented error of its own is out of reach.\<close>

definition find_total :: "find_fn \<Rightarrow> bool" where
  "find_total xfind = (\<forall>node p pf e. xfind node p pf \<noteq> Inl e)"

lemma wf_contract:
  assumes "find_total xfind"
  shows "extraction_contract xfind pref (\<lambda>_. True) (wf_entries fl False) (\<lambda>_. wf_value fl)
    (wf_options fl) (\<lambda>_. True) (\<lambda>e. fl \<and> e = InvalidOperation)"
proof unfold_locales
  fix d os pv
  assume "wf_options fl (JDict d # os)" "map_of d ''_'' = Some pv" "\<forall>s. pv \<noteq> JStr s"
  then show "fl \<and> TypeError = InvalidOperation" by (auto simp: has_path_def split: json.splits)
next
  fix opt os
  assume "wf_options fl (opt # os)" "\<forall>d. opt \<noteq> JDict d"
  then show "fl \<and> TypeError = InvalidOperation" by (cases opt) auto
next
  fix opt os
  assume "wf_options fl (opt # os)"
  then show "wf_options fl os" by (cases opt) auto
qed (use assms in \<open>auto simp: attr_entry_wf leaf_entry_wf wf_entries_dict_del has_path_def find_total_def
       split: if_splits\<close>)

lemma extract_wf:
  assumes "find_total xfind" and "wf_entries fl False es"
  shows "outcome (\<lambda>_. True) (\<lambda>e. fl \<and> e = InvalidOperation) lg
    (extract_entries xfind pref root es recd lg)"
  using extraction_contract.extract_outcome(1) [OF wf_contract [OF assms(1)]] assms(2) by blast

section \<open>Messages are well quoted\<close>

fun quote_free_xml :: "xml \<Rightarrow> bool" where
  "quote_free_xml (Elem tag a x ch) =
     (quote \<notin> set tag \<and> list_all (\<lambda>(k, v). quote \<notin> set k \<and> quote \<notin> set v) a \<and>
      list_all quote_free_xml ch)"

definition find_in_tree :: "find_fn \<Rightarrow> bool" where
  "find_in_tree xfind = (\<forall>node p pf m. xfind node p pf = Inr (Some m) \<longrightarrow> m \<in> set (et_iter ''*'' node))"

lemma quote_free_iter: "quote_free_xml root \<Longrightarrow> n \<in> set (et_iter t root) \<Longrightarrow> quote_free_xml n"
proof (induction t root rule: et_iter.induct)
  case (1 t tag a x ch)
  then show ?case by (fastforce simp: list_all_iff split: if_splits)
qed

lemma quote_free_attrib: "quote_free_xml n \<Longrightarrow> quote \<notin> set (json_dumps_indent (e_attrib n))"
  by (cases n) (auto simp: list_all_iff intro!: json_dumps_indent_no_quote)

lemma quote_free_tag: "quote_free_xml n \<Longrightarrow> quote \<notin> set (e_tag n)"
  by (cases n) simp

lemma parse_error_msg_quoted:
  assumes "quote \<notin> set w" "quote_free_xml root" "quote \<notin> set r" "quote \<notin> set p" "quote \<notin> set f"
  shows "well_quoted (parse_error_msg w root r p f)"
proof -
  let ?a = "[tab] @ ''extract_data: [error] Couldn''" and ?q = "[quote, quote]"
  define b where "b = ''t parse '' @ backquoted w @
     '' for a '' @ backquoted (e_tag root) @ '' node'' @ [nl] @
     indent @ ''('' @ r @ '')'' @ [nl] @ ''Node attributes:'' @ [nl] @
     json_dumps_indent (e_attrib root) @ [nl] @
     indent @ ''Writing '' @ p @ '' for '' @ backquoted f @ [nl]"
  have "quote \<notin> set b"
    using assms quote_free_attrib quote_free_tag by (simp add: b_def backquoted_def indent_def)
  then have "well_quoted b" by (rule well_quoted_plain)
  moreover have "well_quoted ?a" by (rule well_quoted_plain) simp
  moreover have "well_quoted ?q" by (simp add: well_quoted_def)
  moreover have "parse_error_msg w root r p f = (?a @ ?q) @ b"
    by (simp add: parse_error_msg_def b_def)
  ultimately show ?thesis by (simp only: well_quoted_append)
qed

lemma no_value_msg_quoted: "quote \<notin> set f \<Longrightarrow> well_quoted (no_value_msg f)"
  by (rule well_quoted_plain) (simp add: no_value_msg_def backquoted_def indent_def)

lemma set_split_on: "p \<in> set (split_on c s) \<Longrightarrow> set p \<subseteq> set s"
  by (induction s arbitrary: p) (auto split: list.splits if_splits; blast)+

lemma set_strip: "set (strip s) \<subseteq> set s"
  by (simp add: strip_def set_strip_by)

lemma set_remove_brackets: "set (remove_brackets s) \<subseteq> set s"
  by (induction s rule: remove_brackets.induct) auto

lemma entry_name_no_quote: "quote \<notin> set entry \<Longrightarrow> quote \<notin> set (entry_name entry)"
proof -
  assume a: "quote \<notin> set entry"
  then have "quote \<notin> set (strip entry)" using set_strip by blast
  then have "quote \<notin> set (replace_char (CHR ''.'') (CHR '':'') (strip entry))"
    by (auto simp: replace_char_def)
  then show ?thesis using set_remove_brackets by (auto simp: entry_name_def)
qed

lemma part_no_quote: "quote \<notin> set s \<Longrightarrow> p \<in> set (split_on c s) \<Longrightarrow> quote \<notin> set (strip p)"
  using set_split_on [of p c s] set_strip [of p] by blast

lemma expand_prefix_no_quote:
  assumes "quote \<notin> set tag" "\<forall>(k, v) \<in> set pref. quote \<notin> set v"
  shows "quote \<notin> set (expand_prefix tag pref)"
proof -
  have "quote \<notin> set ns" if "map_of pref p = Some ns" for p ns
    using assms(2) map_of_SomeD [OF that] by auto
  moreover have "quote \<notin> set q" if "q \<in> set (split_on (CHR '':'') tag)" for q
    using set_split_on [OF that] assms(1) by blast
  ultimately show ?thesis
    using assms(1) by (auto simp: expand_prefix_def split: list.splits option.splits)
qed

definition prefixes_free :: "prefix_map \<Rightarrow> bool" where
  "prefixes_free pref = list_all (\<lambda>(k, v). quote \<notin> set v) pref"

lemma attr_entry_quoted:
  assumes "quote_free_xml root" "quote \<notin> set name" "json_free quote v" "prefixes_free pref"
  shows "outcome well_quoted (\<lambda>_. True) lg (attr_entry pref root name v lg)"
proof (cases v)
  case (JStr s)
  have n: "quote \<notin> set (strip_chars ''_:'' name)"
    using assms(2) set_strip_by by (fastforce simp: strip_chars_def)
  have a: "quote \<notin> set (''@'' @ expand_prefix (strip_chars ''_:'' name) pref)"
    using expand_prefix_no_quote [OF n] assms(4) by (simp add: prefixes_free_def list_all_iff)
  show ?thesis
  proof (cases "split_on (CHR '','') s")
    case (Cons p0 ps)
    then show ?thesis
    proof (cases ps)
      case (Cons p1 ps')
      have "quote \<notin> set (strip p1)"
        using part_no_quote [of s p1 "CHR '',''"] assms(3) JStr \<open>split_on _ s = p0 # ps\<close> Cons by simp
      then have "well_quoted (parse_error_msg (''@'' @ expand_prefix (strip_chars ''_:'' name) pref) root r q (strip p1))"
        if "quote \<notin> set r" "quote \<notin> set q" for r q
        using parse_error_msg_quoted [OF a assms(1)] that by blast
      then show ?thesis
        using JStr \<open>split_on _ s = p0 # ps\<close> Cons
        by (auto simp: attr_entry_def Let_def split: sum.splits)
    qed (use JStr in \<open>simp add: attr_entry_def\<close>)
  qed simp
qed (simp_all add: attr_entry_def)

lemma leaf_entry_quoted:
  assumes "quote_free_xml root" "quote \<notin> set entry" "json_free quote v"
  shows "outcome well_quoted (\<lambda>_. True) lg (leaf_entry pref root node entry v lg)"
proof -
  have msg: "well_quoted (parse_error_msg entry root r q (strip p))"
    if "v = JStr s" "p \<in> set (split_on (CHR '','') s)" "quote \<notin> set r" "quote \<notin> set q" for s p r q
    using parse_error_msg_quoted [OF assms(2,1)] part_no_quote [OF _ that(2)] assms(3) that by simp
  show ?thesis
    by (auto simp: leaf_entry_def Let_def msg split: json.splits list.splits sum.splits)
qed

lemma quoted_contract:
  assumes "find_in_tree xfind" and "prefixes_free pref"
  shows "extraction_contract xfind pref quote_free_xml (pairs_free quote)
    (\<lambda>entry v. quote \<notin> set entry \<and> json_free quote v) (items_free quote) well_quoted (\<lambda>_. True)"
proof unfold_locales
  fix root :: xml and n t
  assume "quote_free_xml root" "n \<in> set (et_iter t root)"
  then show "quote_free_xml n" by (rule quote_free_iter)
next
  fix root entry v es lg
  assume "quote_free_xml root" "pairs_free quote ((entry, v) # es)"
  with assms(2) entry_name_no_quote
  show "outcome well_quoted (\<lambda>_. True) lg (attr_entry pref root (entry_name entry) v lg)"
    by (simp add: attr_entry_quoted)
next
  fix d os p
  assume "items_free quote (JDict d # os)"
  then have "pairs_free quote d" by simp
  then show "pairs_free quote (dict_del ''_'' d)" by (induction d) (auto simp: dict_del_def)
next
  fix d os p node m
  assume "quote_free_xml node" "xfind node p pref = Inr (Some m)"
  then show "quote_free_xml m"
    using assms(1) quote_free_iter [of node m "''*''"] by (auto simp: find_in_tree_def)
qed (auto simp: leaf_entry_quoted no_value_msg_quoted entry_name_no_quote)

lemma extract_quoted:
  assumes "find_in_tree xfind" "prefixes_free pref" "quote_free_xml root" "pairs_free quote es"
  shows "outcome well_quoted (\<lambda>_. True) lg (extract_entries xfind pref root es recd lg)"
  using extraction_contract.extract_outcome(1) [OF quoted_contract [OF assms(1,2)]] assms(3,4)
  by blast

section \<open>Element.find for the paths of the schema files\<close>

text \<open>
  \<open>et_find\<close> is \<open>Element.find\<close> of xml.etree for paths \<open>.[@name]\<close> and
  \<open>.[@name="value"]\<close>, any number of brackets: the node itself if every test holds.  It
  answers \<open>None\<close> for paths of another form.
\<close>

definition attr_name :: "prefix_map \<Rightarrow> string \<Rightarrow> string" where
  "attr_name pref s =
     (case split_on (CHR '':'') s of
        [p, n] \<Rightarrow> (case map_of pref p of Some ns \<Rightarrow> ''{'' @ ns @ ''}'' @ n | None \<Rightarrow> s)
      | _ \<Rightarrow> s)"

definition attr_test :: "prefix_map \<Rightarrow> xml \<Rightarrow> string \<Rightarrow> bool" where
  "attr_test pref node body =
     (case body of
        c # r \<Rightarrow>
          c = CHR ''@'' \<and>
          (case split_on (CHR ''='') r of
             [n] \<Rightarrow> map_of (e_attrib node) (attr_name pref n) \<noteq> None
           | [n, v] \<Rightarrow> map_of (e_attrib node) (attr_name pref n) = Some (strip_chars [quote, dquote] v)
           | _ \<Rightarrow> False)
      | [] \<Rightarrow> False)"

definition path_tests :: "string \<Rightarrow> string list" where
  "path_tests path = map (\<lambda>p. remove_brackets (filter (\<lambda>c. c \<noteq> CHR '']'') p)) (tl (split_on (CHR ''['') path))"

definition et_find :: find_fn where
  "et_find node path pref =
     Inr (if take 2 path = ''.['' \<and> list_all (attr_test pref node) (path_tests path)
          then Some node else None)"

lemma et_iter_self: "n \<in> set (et_iter ''*'' n)"
  by (cases n) simp

lemma et_find_total: "find_total et_find"
  by (simp add: find_total_def et_find_def)

lemma et_find_in_tree: "find_in_tree et_find"
  by (auto simp: find_in_tree_def et_find_def et_iter_self split: if_splits)

interpretation wf: extraction_contract et_find pref "\<lambda>_. True" "wf_entries fl False" "\<lambda>_. wf_value fl"
  "wf_options fl" "\<lambda>_. True" "\<lambda>e. fl \<and> e = InvalidOperation"
  by (rule wf_contract [OF et_find_total])

section \<open>What the loops compute\<close>

text \<open>An array entry with a map of sub-entries: one record per matching node, in order.\<close>

lemma extract_nodes_array:
  assumes "entry_is_array entry"
  shows "extract_nodes xfind pref root entry (JDict d) nodes fieldn subs lg = (Inr (subs', f'), lg') \<Longrightarrow>
    f' = fieldn \<and> (\<exists>recs. subs' = subs @ map VDict recs \<and>
      list_all2 (\<lambda>n r. \<exists>l l'. extract_entries xfind pref n d [] l = (Inr r, l')) nodes recs)"
proof (induction nodes arbitrary: subs lg)
  case (Cons n nodes)
  obtain r l' where a: "extract_entries xfind pref n d [] lg = (r, l')" by fastforce
  with Cons.prems assms obtain rec where r: "r = Inr rec"
    by (cases r) auto
  with Cons.prems a assms
  have "extract_nodes xfind pref root entry (JDict d) nodes fieldn (subs @ [VDict rec]) l' =
      (Inr (subs', f'), lg')" by simp
  from Cons.IH [OF this] obtain recs where recs: "f' = fieldn"
    "subs' = (subs @ [VDict rec]) @ map VDict recs"
    "list_all2 (\<lambda>n r. \<exists>l l'. extract_entries xfind pref n d [] l = (Inr r, l')) nodes recs"
    by blast
  have "\<exists>l l'. extract_entries xfind pref n d [] l = (Inr rec, l')" using a r by blast
  with recs show ?case by (intro conjI exI [of _ "rec # recs"]) simp_all
qed simp

lemma extract_array_top:
  assumes "entry_is_array entry" and "\<not> startswith ''_'' (entry_name entry)"
    and "extract_data xfind root [(entry, JDict d)] pref = (Inr recd, lg)"
  obtains recs where "recd = [(entry_name entry, VList (map VDict recs))]"
    and "list_all2 (\<lambda>n r. \<exists>l l'. extract_entries xfind pref n d [] l = (Inr r, l'))
      (et_iter (expand_prefix (entry_name entry) pref) root) recs"
proof -
  let ?nodes = "et_iter (expand_prefix (entry_name entry) pref) root"
  obtain r lg' where a:
    "extract_nodes xfind pref root entry (JDict d) ?nodes (entry_name entry) [] [] = (r, lg')" by fastforce
  with assms obtain subs f where r: "r = Inr (subs, f)"
    by (cases r) (auto simp: extract_data_def Let_def)
  with a assms have "recd = [(f, VList subs)]" by (simp add: extract_data_def Let_def)
  with extract_nodes_array [OF assms(1) a [unfolded r]] that show ?thesis by auto
qed

text \<open>A list entry: the first alternative whose path finds something decides.\<close>

fun option_finds :: "find_fn \<Rightarrow> prefix_map \<Rightarrow> xml \<Rightarrow> json \<Rightarrow> xml option" where
  "option_finds xfind pref node (JDict d) =
     (case map_of d ''_'' of
        Some (JStr p) \<Rightarrow> (case xfind node p pref of Inr m \<Rightarrow> m | Inl e \<Rightarrow> None)
      | _ \<Rightarrow> None)"
| "option_finds xfind pref node _ = None"

fun first_option :: "find_fn \<Rightarrow> prefix_map \<Rightarrow> xml \<Rightarrow> json list \<Rightarrow> ((string \<times> json) list \<times> xml) option" where
  "first_option xfind pref node [] = None"
| "first_option xfind pref node (opt # opts) =
     (case (opt, option_finds xfind pref node opt) of
        (JDict d, Some m) \<Rightarrow> Some (d, m)
      | _ \<Rightarrow> first_option xfind pref node opts)"

lemma extract_options_first:
  "extract_options xfind pref node opts lg = (Inr out, lg') \<Longrightarrow>
   (case first_option xfind pref node opts of
      None \<Rightarrow> out = None \<and> lg' = lg
    | Some (d, m) \<Rightarrow> \<exists>recd. out = Some recd \<and>
        extract_entries xfind pref m (dict_del ''_'' d) [] lg = (Inr recd, lg'))"
proof (induction opts)
  case (Cons opt opts)
  then obtain d p where d: "opt = JDict d" "map_of d ''_'' = Some (JStr p)"
    by (auto split: json.splits option.splits)
  show ?case
  proof (cases "xfind node p pref")
    case (Inr mo)
    with Cons d show ?thesis
      by (cases mo) (auto split: prod.splits sum.splits)
  qed (use Cons.prems d in simp)
qed simp

section \<open>The keys of a record\<close>

text \<open>
  The keys an entry may store under: the second property of an attribute entry, the third
  property of a leaf or, when no node matches, its name; the name of any other entry.
\<close>

definition entry_keys :: "string \<Rightarrow> json \<Rightarrow> string list" where
  "entry_keys entry v =
     (let parts = (case v of JStr s \<Rightarrow> map strip (split_on (CHR '','') s) | _ \<Rightarrow> []) in
      if startswith ''_'' (entry_name entry) then take 1 (drop 1 parts)
      else entry_name entry # take 1 (drop 2 parts))"

lemma attr_entry_key:
  "attr_entry pref root name v lg = (Inr (f, x), lg') \<Longrightarrow> startswith ''_'' (entry_name entry) \<Longrightarrow>
   f \<in> set (entry_keys entry v)"
  by (auto simp: attr_entry_def entry_keys_def Let_def
      split: json.splits list.splits sum.splits if_splits)

lemma leaf_entry_key:
  "leaf_entry pref root node entry v lg = (Inr (f, x), lg') \<Longrightarrow> \<not> startswith ''_'' (entry_name entry) \<Longrightarrow>
   f \<in> set (entry_keys entry v)"
  by (auto simp: leaf_entry_def entry_keys_def Let_def
      split: json.splits list.splits sum.splits if_splits)

lemma extract_nodes_key:
  "extract_nodes xfind pref root entry v nodes fieldn subs lg = (Inr (subs', f), lg') \<Longrightarrow>
   \<not> startswith ''_'' (entry_name entry) \<Longrightarrow> fieldn \<in> set (entry_keys entry v) \<Longrightarrow>
   f \<in> set (entry_keys entry v)"
proof (induction nodes arbitrary: fieldn subs lg)
  case (Cons n nodes)
  consider (d) d where "v = JDict d" | (l) os where "v = JList os" | (leaf) "is_leaf v"
    by (auto simp: is_leaf_def)
  then show ?case
  proof cases
    case d
    with Cons show ?thesis by (auto split: prod.splits sum.splits if_splits)
  next
    case l
    with Cons show ?thesis by (auto split: prod.splits sum.splits option.splits)
  next
    case leaf
    with Cons leaf_entry_key [of pref root n entry v lg] show ?thesis
      by (auto simp: extract_nodes_leaf simp del: extract_nodes.simps
          split: prod.splits sum.splits if_splits)
  qed
qed simp

definition keys_of :: "('k \<times> 'v) list \<Rightarrow> 'k set" where
  "keys_of d = fst ` set d"

lemma keys_of_dict_set [simp]: "keys_of (dict_set d k v) = insert k (keys_of d)"
  by (simp add: keys_of_def)

lemma extract_entries_step:
  assumes "extract_entries xfind pref root ((entry, v) # es) recd lg = (Inr recd', lg')"
  obtains f x l where "f \<in> set (entry_keys entry v)"
    and "extract_entries xfind pref root es (dict_set recd f x) l = (Inr recd', lg')"
proof (cases "startswith ''_'' (entry_name entry)")
  case True
  obtain r l where a: "attr_entry pref root (entry_name entry) v lg = (r, l)" by fastforce
  with assms True obtain f x where r: "r = Inr (f, x)" by (cases r) auto
  with assms True a have "extract_entries xfind pref root es (dict_set recd f x) l = (Inr recd', lg')"
    by simp
  with attr_entry_key [OF a [unfolded r] True] that show ?thesis by blast
next
  case False
  then have e: "entry_name entry \<in> set (entry_keys entry v)" by (simp add: entry_keys_def Let_def)
  obtain r l where a: "extract_nodes xfind pref root entry v
      (et_iter (expand_prefix (entry_name entry) pref) root) (entry_name entry) [] lg = (r, l)"
    by fastforce
  with assms False obtain subs f where r: "r = Inr (subs, f)" by (cases r) (auto simp: Let_def)
  note key = extract_nodes_key [OF a [unfolded r] False e]
  from assms False a r that key show ?thesis
    by (cases subs) (auto simp: Let_def split: if_splits)
qed

lemma extract_keys:
  "extract_entries xfind pref root es recd lg = (Inr recd', lg') \<Longrightarrow>
   keys_of recd \<subseteq> keys_of recd' \<and>
   keys_of recd' \<subseteq> keys_of recd \<union> (\<Union>(e, v) \<in> set es. set (entry_keys e v)) \<and>
   (\<forall>(e, v) \<in> set es. set (entry_keys e v) \<inter> keys_of recd' \<noteq> {})"
proof (induction es arbitrary: recd lg)
  case (Cons ev es)
  obtain entry v where ev: "ev = (entry, v)" by fastforce
  from Cons.prems [unfolded ev] obtain f x l where f: "f \<in> set (entry_keys entry v)"
    and rest: "extract_entries xfind pref root es (dict_set recd f x) l = (Inr recd', lg')"
    by (rule extract_entries_step)
  from Cons.IH [OF rest] f show ?case unfolding ev by auto
qed simp

lemma extract_distinct:
  "extract_entries xfind pref root es recd lg = (Inr recd', lg') \<Longrightarrow>
   distinct (map fst recd) \<Longrightarrow> distinct (map fst recd')"
proof (induction es arbitrary: recd lg)
  case (Cons ev es)
  obtain entry v where ev: "ev = (entry, v)" by fastforce
  from Cons.prems(1) [unfolded ev] obtain f x l where
    "extract_entries xfind pref root es (dict_set recd f x) l = (Inr recd', lg')"
    by (rule extract_entries_step)
  with Cons show ?case by simp
qed simp

end
