(* ===== verification/Ingest_Props.thy ===== *)
theory Ingest_Props
  imports Ingest Extract_Props
begin

text \<open>
  What a run of the handler guarantees: the batches sent to DynamoDB, and the rows it
  leaves in xml_log.  The second is proved with triples over an invariant of the log that
  every message and every commit keeps.
\<close>

section \<open>Batches\<close>

lemma chunk_bounds_end: "n \<le> i \<Longrightarrow> chunk_bounds n i = []"
  by (subst chunk_bounds.simps) simp

lemma chunk_bounds_step:
  "i < n \<Longrightarrow> chunk_bounds n i = (i, min n (i + chunk_size)) # chunk_bounds n (i + chunk_size)"
  by (subst chunk_bounds.simps) simp

lemma chunk_bounds_cover:
  "concat (map (\<lambda>(i, j). take (j - i) (drop i xs)) (chunk_bounds (length xs) k)) = drop k xs"
proof (induction "length xs" k rule: chunk_bounds.induct)
  case (1 k)
  show ?case
  proof (cases "k < length xs")
    case True
    have "take (min (length xs) (k + chunk_size) - k) (drop k xs) = take chunk_size (drop k xs)"
      by (cases "k + chunk_size \<le> length xs") (simp_all add: min_def)
    moreover have "take chunk_size (drop k xs) @ drop (k + chunk_size) xs = drop k xs"
      using append_take_drop_id [of chunk_size "drop k xs"] by (simp add: add.commute)
    ultimately show ?thesis using True 1 by (simp add: chunk_bounds_step)
  qed (simp add: chunk_bounds_end)
qed

lemma chunk_bounds_sizes:
  "(i, j) \<in> set (chunk_bounds n k) \<Longrightarrow> i < j \<and> j - i \<le> chunk_size \<and> j \<le> n \<and> k \<le> i"
proof (induction n k rule: chunk_bounds.induct)
  case (1 n k)
  show ?case
  proof (cases "k < n")
    case True
    with "1.prems" have "(i, j) = (k, min n (k + chunk_size)) \<or> (i, j) \<in> set (chunk_bounds n (k + chunk_size))"
      by (simp add: chunk_bounds_step)
    with True "1.IH" show ?thesis by (auto simp: chunk_size_def)
  qed (use "1.prems" in \<open>simp add: chunk_bounds_end\<close>)
qed

lemma chunk_bounds_length: "length (chunk_bounds n k) = (n - k + (chunk_size - 1)) div chunk_size"
proof (induction n k rule: chunk_bounds.induct)
  case (1 n k)
  show ?case
  proof (cases "k < n")
    case True
    with 1 have "length (chunk_bounds n k) = Suc ((n - (k + chunk_size) + (chunk_size - 1)) div chunk_size)"
      by (simp add: chunk_bounds_step)
    also have "\<dots> = (n - k + (chunk_size - 1)) div chunk_size"
      using True by (cases "k + chunk_size \<le> n") (auto simp: chunk_size_def)
    finally show ?thesis .
  qed (simp add: chunk_bounds_end chunk_size_def)
qed

lemma put_items_run:
  assumes "\<forall>x \<in> set xs. dynamo_put E x = Inr ()" and "batches w \<noteq> []"
  shows "put_items E xs w =
    (Inr (), w\<lparr>batches := butlast (batches w) @ [last (batches w) @ xs]\<rparr>)"
  using assms
proof (induction xs arbitrary: w)
  case (Cons x xs)
  then show ?case by (simp add: sbind_def add_to_last_def)
qed simp

lemma write_batch_run:
  assumes "py_slice data i j = Inr items" and "\<forall>x \<in> set items. dynamo_put E x = Inr ()"
  shows "write_batch E data i j w = (Inr (), w\<lparr>batches := batches w @ [items]\<rparr>)"
  using assms by (simp add: write_batch_def sbind_def put_items_run)

lemma upload_run:
  assumes "\<forall>x \<in> set xs. dynamo_put E x = Inr ()"
  shows "\<exists>w'. upload E now (VList xs) bs w = (Inr (), w') \<and> w_conn w' = w_conn w \<and>
    batches w' = batches w @ map (\<lambda>(i, j). take (j - i) (drop i xs)) bs"
proof (induction bs arbitrary: w)
  case (Cons b bs)
  obtain i j where b: "b = (i, j)" by fastforce
  let ?items = "take (j - i) (drop i xs)"
  have "\<forall>x \<in> set ?items. dynamo_put E x = Inr ()"
    using assms by (auto dest!: in_set_takeD in_set_dropD)
  then have 1: "write_batch E (VList xs) i j w = (Inr (), w\<lparr>batches := batches w @ [?items]\<rparr>)"
    by (intro write_batch_run) (simp_all add: py_slice_def)
  obtain w1 where 2: "push_message now (''Sent data for items '' @ show_nat i @ ''-'' @ show_nat j)
      (w\<lparr>batches := batches w @ [?items]\<rparr>) = (Inr (), w1)"
    and w1: "batches w1 = batches w @ [?items]" "w_conn w1 = w_conn w" by simp
  from Cons.IH [of w1] obtain w' where "upload E now (VList xs) bs w1 = (Inr (), w')"
    "w_conn w' = w_conn w" "batches w' = batches w @ map (\<lambda>(i, j). take (j - i) (drop i xs)) (b # bs)"
    using w1 b by auto
  with 1 2 b show ?case by (auto simp: sbind_def)
qed simp

section \<open>The rows of a run\<close>

text \<open>
  \<open>rows_added saved base sts w\<close>: the saved table is \<open>base\<close> and then rows with the
  statuses \<open>sts\<close>.  \<open>log_state\<close> adds what the next commit needs: a live transaction
  that agrees with what is saved, well quoted messages, a new time for the next row.
\<close>

definition log_rows :: "meta_db \<Rightarrow> log_row list" where
  "log_rows db = the_rows (xml_log db)"

definition rows_added ::
  "('c \<Rightarrow> meta_db) \<Rightarrow> log_row list \<Rightarrow> int list \<Rightarrow> ('c, 'w) world_scheme \<Rightarrow> bool" where
  "rows_added saved base sts w =
     (\<exists>new. log_rows (saved (w_conn w)) = base @ new \<and> map lr_status new = sts)"

definition fresh_time :: "(nat \<Rightarrow> datetime) \<Rightarrow> log_row list \<Rightarrow> ('c, 'w) world_scheme \<Rightarrow> bool" where
  "fresh_time now rows w =
     (\<exists>i < w_ticks w. w_log_time w = now i \<and> (\<forall>r \<in> set rows. lr_time r \<notin> now ` {i..}))"

definition log_state ::
  "('c \<Rightarrow> meta_db) \<Rightarrow> ('c \<Rightarrow> meta_db) \<Rightarrow> ('c \<Rightarrow> bool) \<Rightarrow> (nat \<Rightarrow> datetime) \<Rightarrow> log_row list \<Rightarrow>
   int list \<Rightarrow> ('c, 'w) world_scheme \<Rightarrow> bool" where
  "log_state saved pending usable now base sts w =
     (usable (w_conn w) \<and> rows_added saved base sts w \<and>
      log_rows (pending (w_conn w)) = log_rows (saved (w_conn w)) \<and>
      list_all well_quoted (w_log w) \<and>
      fresh_time now (log_rows (saved (w_conn w))) w)"

definition patterns_ok :: "('c \<Rightarrow> meta_db) \<Rightarrow> ('c, 'w) world_scheme \<Rightarrow> bool" where
  "patterns_ok pending w =
     list_all (\<lambda>r. \<not> dangling_escape (sr_pattern r)) (schema_rows (pending (w_conn w)))"

lemma fresh_time_next:
  assumes "inj now" and "fresh_time now rows w" and "lr_time r = w_log_time w"
    and "w_log_time w' = now (w_ticks w)" and "w_ticks w' = Suc (w_ticks w)"
  shows "fresh_time now (rows @ [r]) w'"
proof -
  from assms(2) obtain i where i: "i < w_ticks w" "w_log_time w = now i"
    "\<forall>r \<in> set rows. lr_time r \<notin> now ` {i..}" by (auto simp: fresh_time_def)
  have "now i \<notin> now ` {w_ticks w..}" using i(1) assms(1) by (auto dest: injD)
  moreover have "now ` {w_ticks w..} \<subseteq> now ` {i..}" using i(1) by auto
  ultimately show ?thesis
    unfolding fresh_time_def using i assms(3-5) by (intro exI [of _ "w_ticks w"]) auto
qed

lemma message_quoted:
  assumes "quote \<notin> set s"
  shows "well_quoted s" and "well_quoted (couldnt @ s)"
proof -
  show s: "well_quoted s" using assms by (rule well_quoted_plain)
  have "well_quoted couldnt" by (simp add: couldnt_def well_quoted_def)
  with s show "well_quoted (couldnt @ s)" by (rule well_quoted_append [rotated])
qed

lemma key_stem_no_quote: "quote \<notin> set k \<Longrightarrow> quote \<notin> set (key_stem k)"
  using set_split_on [of "key_stem k" "CHR ''.''" k] by (auto simp: key_stem_def)

lemma triple_push:
  fixes saved :: "'c \<Rightarrow> meta_db" and R :: "exn \<Rightarrow> ('c, 'w) world_scheme \<Rightarrow> bool"
  assumes "well_quoted s"
  shows "triple (log_state saved pending usable now base sts) (push_message now s)
    (\<lambda>_. log_state saved pending usable now base sts) R"
  unfolding triple_def
proof (intro allI impI)
  fix w :: "('c, 'w) world_scheme"
  assume "log_state saved pending usable now base sts w"
  moreover have "list_all well_quoted (stamped now (w_ticks w) [s])"
    using assms by (intro stamped_quoted) simp
  ultimately show "case push_message now s w of (Inl e, s') \<Rightarrow> R e s'
      | (Inr x, s') \<Rightarrow> log_state saved pending usable now base sts s'"
    by (auto simp: log_state_def rows_added_def fresh_time_def stamped_def intro: less_SucI)
qed

lemma triple_push_patterns:
  fixes saved :: "'c \<Rightarrow> meta_db" and R :: "exn \<Rightarrow> ('c, 'w) world_scheme \<Rightarrow> bool"
  assumes "well_quoted s"
  shows "triple (\<lambda>w. log_state saved pending usable now base sts w \<and> patterns_ok pending w)
    (push_message now s)
    (\<lambda>_ w. log_state saved pending usable now base sts w \<and> patterns_ok pending w) R"
  using triple_push [OF assms, of saved pending usable now base sts R]
  by (auto simp: triple_def patterns_ok_def)

lemma triple_push_all:
  assumes "list_all well_quoted ss"
  shows "triple (log_state saved pending usable now base sts) (push_messages now ss)
    (\<lambda>_. log_state saved pending usable now base sts) R"
  using assms
proof (induction ss)
  case Nil
  then show ?case by (simp add: triple_def)
next
  case (Cons s ss)
  then have s: "well_quoted s" and ss: "list_all well_quoted ss" by simp_all
  show ?case
    unfolding push_messages.simps by (rule triple_sbind [OF triple_push [OF s] Cons.IH [OF ss]])
qed

lemma triple_lift:
  "(\<And>e s. r = Inl e \<Longrightarrow> P s \<Longrightarrow> R e s) \<Longrightarrow> triple P (lift_res r) (\<lambda>x s. r = Inr x \<and> P s) R"
  by (cases r) (auto simp: triple_def)

context pg_connection
begin

lemma triple_commit_log:
  fixes R :: "exn \<Rightarrow> ('c, 'w) world_scheme \<Rightarrow> bool"
  assumes "inj now" and "quote \<notin> set key" and "-32768 \<le> st" and "st \<le> 32767"
  shows "triple (log_state saved pending usable now base sts) (commit_log ops now (Some key) st)
    (\<lambda>_. log_state saved pending usable now base (sts @ [st])) R"
  unfolding triple_def
proof (intro allI impI)
  fix w :: "('c, 'w) world_scheme"
  assume l: "log_state saved pending usable now base sts w"
  let ?rows = "log_rows (pending (w_conn w))"
  have u: "usable (w_conn w)" and q: "list_all well_quoted (w_log w)"
    and same: "?rows = log_rows (saved (w_conn w))" and f: "fresh_time now ?rows w"
    using l by (auto simp: log_state_def)
  from l obtain new where new: "?rows = base @ new" "map lr_status new = sts"
    by (auto simp: log_state_def rows_added_def)
  have t: "w_log_time w \<notin> lr_time ` set (the_rows (xml_log (pending (w_conn w))))"
    using f by (fastforce simp: fresh_time_def log_rows_def)
  have k: "well_quoted (file_text (Some key))" using assms(2) by (simp add: file_text_def well_quoted_plain)
  let ?r = "committed_row (w_log_time w) (Some key) st (w_log w)"
  obtain c' where c': "commit_log ops now (Some key) st w =
       (Inr (), w\<lparr>w_conn := c', w_log := [], w_log_time := now (w_ticks w), w_ticks := Suc (w_ticks w)\<rparr>)"
    "usable c'" "saved c' = pending c'"
    "the_rows (xml_log (saved c')) = the_rows (xml_log (pending (w_conn w))) @ [?r]"
    by (rule commit_log_run [OF u k q t assms(3,4)])
  let ?w' = "w\<lparr>w_conn := c', w_log := [], w_log_time := now (w_ticks w), w_ticks := Suc (w_ticks w)\<rparr>"
  have rows: "log_rows (saved c') = ?rows @ [?r]" using c'(4) by (simp add: log_rows_def)
  have "fresh_time now (?rows @ [?r]) ?w'"
    by (rule fresh_time_next [OF assms(1) f]) (simp_all add: committed_row_def)
  with c' rows new have "log_state saved pending usable now base (sts @ [st]) ?w'"
    by (auto simp: log_state_def rows_added_def committed_row_def intro!: exI [of _ "new @ [?r]"])
  with c'(1) show "case commit_log ops now (Some key) st w of (Inl e, s') \<Rightarrow> R e s'
      | (Inr x, s') \<Rightarrow> log_state saved pending usable now base (sts @ [st]) s'" by simp
qed

lemma triple_find_schema:
  fixes R :: "exn \<Rightarrow> ('c, 'w) world_scheme \<Rightarrow> bool"
  assumes "quote \<notin> set key" and "\<forall>d. date = Some d \<longrightarrow> quote \<notin> set d"
    and R: "\<And>e w. rows_added saved base sts w \<Longrightarrow> R e w"
  shows "triple (\<lambda>w. log_state saved pending usable now base sts w \<and> patterns_ok pending w)
    (find_schema ops key date) (\<lambda>_. log_state saved pending usable now base sts) R"
  unfolding triple_def
proof (intro allI impI)
  fix w :: "('c, 'w) world_scheme"
  assume a: "log_state saved pending usable now base sts w \<and> patterns_ok pending w"
  let ?d = "case date of None \<Rightarrow> ''None'' | Some d \<Rightarrow> d" and ?db = "pending (w_conn w)"
  let ?st = "SelectSchema key ?d"
  have u: "usable (w_conn w)" using a by (simp add: log_state_def)
  have "well_quoted ?d" using assms(2) by (cases date) (simp_all add: well_quoted_plain)
  then have d: "described ?db ?st"
    using a assms(1) by (simp add: described_def stmt_quoted_def patterns_ok_def schema_rows_def well_quoted_plain)
  show "case find_schema ops key date w of (Inl e, s') \<Rightarrow> R e s'
      | (Inr x, s') \<Rightarrow> log_state saved pending usable now base sts s'"
  proof (cases "accepts ts json_ok ?db ?st")
    case True
    obtain rows c' where "db_execute ops ?st (w_conn w) = (Inr rows, c')" "usable c'"
      "saved c' = saved (w_conn w)" "pending c' = ?db"
      using execute_ok [OF u d True] by auto
    with a show ?thesis
      by (simp add: find_schema_def execute_def sbind_def log_state_def rows_added_def fresh_time_def)
  next
    case False
    obtain c' where "db_execute ops ?st (w_conn w) = (Inl DatabaseError, c')"
      "saved c' = saved (w_conn w)"
      using execute_refused [OF u d False] by blast
    with a show ?thesis
      by (auto simp: find_schema_def execute_def sbind_def log_state_def rows_added_def intro!: R)
  qed
qed

end

section \<open>The status of a run\<close>

definition clean_env :: "('m env_scheme) \<Rightarrow> string \<Rightarrow> string \<Rightarrow> bool" where
  "clean_env E bucket key =
     (quote \<notin> set key \<and>
      (\<forall>code. s3_get E bucket key = Inl (ClientError code) \<longrightarrow> quote \<notin> set code) \<and>
      find_in_tree (element_find E) \<and>
      (\<forall>t root. fromstring E t = Inr root \<longrightarrow>
         quote_free_xml root \<and> (\<forall>d. publication_time root = Inr (Some d) \<longrightarrow> quote \<notin> set d)) \<and>
      (\<forall>t. json_free quote (json_loads E t)) \<and>
      (\<forall>b schema f v d j. rbind (utf8_decode E b) (yaml_load E) = Inr schema \<longrightarrow>
         schema_parts schema = Some (f, v, d, j) \<longrightarrow> list_all well_quoted [f, v, d, j]))"

text \<open>How a run that returns leaves the log, and how one that raises does.\<close>

definition finished ::
  "('c \<Rightarrow> meta_db) \<Rightarrow> log_row list \<Rightarrow> ('c, 'w) world_scheme \<Rightarrow> bool" where
  "finished saved base w =
     (\<exists>sts st. rows_added saved base (sts @ [st]) w \<and> set sts \<subseteq> {processing} \<and>
        (st = succeeded \<or> st = failed))"

definition escaped ::
  "('c \<Rightarrow> meta_db) \<Rightarrow> log_row list \<Rightarrow> ('c, 'w) world_scheme \<Rightarrow> bool" where
  "escaped saved base w = (\<exists>sts. rows_added saved base sts w \<and> set sts \<subseteq> {processing})"

lemma log_state_escaped:
  "log_state saved pending usable now base sts w \<Longrightarrow> set sts \<subseteq> {processing} \<Longrightarrow> escaped saved base w"
  by (auto simp: log_state_def escaped_def)

lemma log_state_finished:
  "log_state saved pending usable now base (sts @ [st]) w \<Longrightarrow> set sts \<subseteq> {processing} \<Longrightarrow>
   st = succeeded \<or> st = failed \<Longrightarrow> finished saved base w"
  unfolding log_state_def finished_def by blast

lemma key_name_no_quote: "quote \<notin> set k \<Longrightarrow> quote \<notin> set (key_name k)"
  by (simp add: key_name_def)

lemma subscript_free: "json_free q v \<Longrightarrow> subscript v k = Inr x \<Longrightarrow> json_free q x"
proof (cases v)
  case (JDict d)
  assume "json_free q v" "subscript v k = Inr x"
  with JDict have "map_of d k = Some x" "pairs_free q d" by (simp_all add: subscript_def)
  then show ?thesis by (induction d) (auto split: if_splits)
qed (simp_all add: subscript_def)

lemma prefix_dict_free: "json_free quote v \<Longrightarrow> prefix_dict v = Inr pref \<Longrightarrow> prefixes_free pref"
proof (cases v)
  case (JDict d)
  assume a: "json_free quote v" "prefix_dict v = Inr pref"
  have "pairs_free quote d \<Longrightarrow> list_all (\<lambda>(k, x). case x of JStr s \<Rightarrow> True | _ \<Rightarrow> False) d \<Longrightarrow>
      prefixes_free (map (\<lambda>(k, x). (k, case x of JStr s \<Rightarrow> s | _ \<Rightarrow> [])) d)"
    by (induction d) (auto simp: prefixes_free_def split: json.splits)
  with a JDict show ?thesis by (auto simp: prefix_dict_def split: if_splits)
qed (simp_all add: prefix_dict_def)

context pg_connection
begin

lemma triple_fail_with:
  assumes "inj now" and "quote \<notin> set key" and "well_quoted msg" and "set sts \<subseteq> {processing}"
  shows "triple (log_state saved pending usable now base sts) (fail_with ops now key msg)
    (\<lambda>_. finished saved base) R"
proof -
  have "triple (log_state saved pending usable now base sts) (fail_with ops now key msg)
      (\<lambda>_. log_state saved pending usable now base (sts @ [failed])) R"
    unfolding fail_with_def
    by (rule triple_sbind [OF triple_push [OF assms(3)] triple_commit_log [OF assms(1,2)]])
      (simp_all add: failed_def)
  then show ?thesis
    by (rule triple_conseq) (simp_all add: log_state_finished [OF _ assms(4)])
qed

lemma triple_succeed:
  assumes "inj now" and "quote \<notin> set key" and "well_quoted msg" and "set sts \<subseteq> {processing}"
  shows "triple (log_state saved pending usable now base sts)
    (sbind (push_message now msg) (\<lambda>_. commit_log ops now (Some key) succeeded))
    (\<lambda>_. finished saved base) R"
proof -
  have "triple (log_state saved pending usable now base sts)
      (sbind (push_message now msg) (\<lambda>_. commit_log ops now (Some key) succeeded))
      (\<lambda>_. log_state saved pending usable now base (sts @ [succeeded])) R"
    by (rule triple_sbind [OF triple_push [OF assms(3)] triple_commit_log [OF assms(1,2)]])
      (simp_all add: succeeded_def)
  then show ?thesis
    by (rule triple_conseq) (simp_all add: log_state_finished [OF _ assms(4)])
qed

lemma triple_fetch:
  assumes "inj now" and "quote \<notin> set key" and "set sts \<subseteq> {processing}"
    and "\<And>code. s3_get E bucket key = Inl (ClientError code) \<Longrightarrow> quote \<notin> set code"
    and I: "\<And>w. I w \<Longrightarrow> log_state saved pending usable now base sts w"
    and rest: "\<And>contents. triple I (rest contents) (\<lambda>_. finished saved base) (\<lambda>_. escaped saved base)"
  shows "triple I (fetch ops now E bucket key rest) (\<lambda>_. finished saved base) (\<lambda>_. escaped saved base)"
proof (cases "s3_get E bucket key")
  case (Inl e)
  show ?thesis
  proof (cases "\<exists>code. e = ClientError code")
    case True
    then obtain code where e: "e = ClientError code" by blast
    have "quote \<notin> set (''Error while retrieving '' @ key_name key @ '': '' @ code)"
      using assms(2,4) Inl e by (simp add: key_name_no_quote)
    note q = message_quoted(1) [OF this]
    have eq: "fetch ops now E bucket key rest =
        fail_with ops now key (''Error while retrieving '' @ key_name key @ '': '' @ code)"
      using Inl e by (simp add: fetch_def fail_with_def)
    show ?thesis
      unfolding eq by (rule triple_conseq [OF triple_fail_with [OF assms(1,2) q assms(3)]]) (simp_all add: I)
  next
    case False
    with Inl have eq: "fetch ops now E bucket key rest = throw e" by (cases e) (simp_all add: fetch_def)
    show ?thesis unfolding eq by (rule triple_throw) (auto intro: log_state_escaped [OF I assms(3)])
  qed
qed (simp add: fetch_def rest)

lemma triple_upload:
  fixes E :: "'e env_scheme"
  shows "triple (log_state saved pending usable now base sts)
    (upload E now data bs :: (('c, 'w) ingest_scheme, exn, unit) act)
    (\<lambda>_. log_state saved pending usable now base sts) (\<lambda>_. log_state saved pending usable now base sts)"
proof (induction bs)
  case Nil
  then show ?case by (simp add: triple_def)
next
  case (Cons b bs)
  obtain i j where b: "b = (i, j)" by fastforce
  let ?I = "log_state saved pending usable now base sts"
  have frame: "?I (w\<lparr>batches := x\<rparr>) = ?I w" for w :: "('c, 'w) ingest_scheme" and x
    by (simp add: log_state_def rows_added_def fresh_time_def)
  have put: "triple ?I (put_items E xs :: (('c, 'w) ingest_scheme, exn, unit) act) (\<lambda>_. ?I) (\<lambda>_. ?I)" for xs
  proof (induction xs)
    case (Cons x xs)
    show ?case
    proof (cases "dynamo_put E x")
      case (Inr u)
      with Cons.IH show ?thesis by (simp add: triple_def sbind_def frame)
    qed (simp add: triple_def sbind_def)
  qed (simp add: triple_def)
  have wb: "triple ?I (write_batch E data i j :: (('c, 'w) ingest_scheme, exn, unit) act) (\<lambda>_. ?I) (\<lambda>_. ?I)"
  proof (cases "py_slice data i j")
    case (Inr xs)
    with put [of xs] show ?thesis by (simp add: triple_def sbind_def write_batch_def frame)
  qed (simp add: triple_def sbind_def write_batch_def frame)
  have "quote \<notin> set (''Sent data for items '' @ show_nat i @ ''-'' @ show_nat j)" by simp
  note q = message_quoted(1) [OF this]
  show ?case
    unfolding b upload.simps by (rule triple_sbind [OF wb triple_sbind [OF triple_push [OF q] Cons.IH]])
qed

lemma triple_run_extract:
  fixes E :: "'e env_scheme"
  assumes "find_in_tree (element_find E)" and "quote_free_xml root"
    and "json_free quote data_schema" and "json_free quote xml_prefixes"
  shows "triple (log_state saved pending usable now base sts)
    (run_extract now E root data_schema xml_prefixes :: (('c, 'w) ingest_scheme, exn, pyval) act)
    (\<lambda>_. log_state saved pending usable now base sts) (\<lambda>_. log_state saved pending usable now base sts)"
proof (cases "data_dict data_schema")
  case (Inr sch)
  show ?thesis
  proof (cases "prefix_dict xml_prefixes")
    case pref: (Inr pref)
    obtain r msgs where x: "extract_data (element_find E) root sch pref = (r, msgs)" by fastforce
    have "pairs_free quote sch" using assms(3) Inr by (cases data_schema) (simp_all add: data_dict_def)
    from extract_quoted [OF assms(1) prefix_dict_free [OF assms(4) pref] assms(2) this, of "[]" "[]"]
    have q: "list_all well_quoted msgs"
      using x by (simp add: outcome_def extract_data_def)
    have "(run_extract now E root data_schema xml_prefixes :: (('c, 'w) ingest_scheme, exn, pyval) act) =
        sbind (push_messages now msgs) (\<lambda>_. sbind (lift_res r) (\<lambda>recd.
          if recd = [] then throw KeyError else ret (snd (last recd))))"
      using Inr pref x by (simp add: run_extract_def fun_eq_iff sbind_def)
    moreover have "triple (log_state saved pending usable now base sts)
        (sbind (lift_res r) (\<lambda>recd. if recd = [] then throw KeyError else ret (snd (last recd)))
          :: (('c, 'w) ingest_scheme, exn, pyval) act)
        (\<lambda>_. log_state saved pending usable now base sts) (\<lambda>_. log_state saved pending usable now base sts)"
      by (cases r) (simp_all add: triple_def sbind_def)
    ultimately show ?thesis
      using triple_sbind [OF triple_push_all [OF q]] by simp
  qed (use Inr in \<open>simp add: run_extract_def triple_def sbind_def\<close>)
qed (simp add: run_extract_def triple_def sbind_def)

lemma triple_store_data:
  fixes E :: "'e env_scheme"
  assumes "inj now" and "quote \<notin> set key" and "set sts \<subseteq> {processing}"
  shows "triple (log_state saved pending usable now base sts)
    (store_data ops now E key data :: (('c, 'w) ingest_scheme, exn, unit) act)
    (\<lambda>_. finished saved base) (\<lambda>_. escaped saved base)"
proof (cases "py_len data")
  case (Inl e)
  then show ?thesis
    using log_state_escaped assms(3) by (auto simp: store_data_def triple_def sbind_def)
next
  case (Inr n)
  have n: "quote \<notin> set (''Extracted data from '' @ key_name key @ '', found readings for '' @
      show_nat n @ '' locations'')" using assms(2) by (simp add: key_name_no_quote)
  have f: "quote \<notin> set (''Finished processing traffic data from '' @ key_name key)"
    using assms(2) by (simp add: key_name_no_quote)
  have w: "quote \<notin> set ''Started writing to DynamoDB''" by simp
  have p: "set (sts @ [processing]) \<subseteq> {processing}" using assms(3) by simp
  have range: "-32768 \<le> processing" "processing \<le> 32767" by (simp_all add: processing_def)
  have up: "triple (log_state saved pending usable now base (sts @ [processing]))
      (upload E now data (chunk_bounds n 0) :: (('c, 'w) ingest_scheme, exn, unit) act)
      (\<lambda>_. log_state saved pending usable now base (sts @ [processing])) (\<lambda>_. escaped saved base)"
    by (rule triple_conseq [OF triple_upload]) (auto intro: log_state_escaped [OF _ p])
  have eq: "(store_data ops now E key data :: (('c, 'w) ingest_scheme, exn, unit) act) =
      sbind (push_message now (''Extracted data from '' @ key_name key @ '', found readings for '' @
              show_nat n @ '' locations'')) (\<lambda>_.
      sbind (push_message now ''Started writing to DynamoDB'') (\<lambda>_.
      sbind (commit_log ops now (Some key) processing) (\<lambda>_.
      sbind (upload E now data (chunk_bounds n 0)) (\<lambda>_.
      sbind (push_message now (''Finished processing traffic data from '' @ key_name key)) (\<lambda>_.
      commit_log ops now (Some key) succeeded)))))"
    using Inr by (simp add: store_data_def fun_eq_iff sbind_def)
  show ?thesis
    unfolding eq by (rule triple_sbind [OF triple_push [OF message_quoted(1) [OF n]]
        triple_sbind [OF triple_push [OF message_quoted(1) [OF w]]
        triple_sbind [OF triple_commit_log [OF assms(1,2) range]
        triple_sbind [OF up triple_succeed [OF assms(1,2) message_quoted(1) [OF f] p]]]]])
qed

lemma triple_use_schema:
  fixes E :: "'e env_scheme"
  assumes "inj now" and "clean_env E bucket key" and "set sts \<subseteq> {processing}" and "quote_free_xml root"
  shows "triple (log_state saved pending usable now base sts)
    (use_schema ops now E key root schema :: (('c, 'w) ingest_scheme, exn, unit) act)
    (\<lambda>_. finished saved base) (\<lambda>_. escaped saved base)"
proof -
  have key: "quote \<notin> set key" and find: "find_in_tree (element_find E)"
    and loads: "json_free quote (json_loads E t)" for t
    using assms(2) by (auto simp: clean_env_def)
  show ?thesis
  proof (cases schema)
    case None
    have "quote \<notin> set (''find a matching schema for '' @ key_name (key_stem key) @ '' in the database'')"
      using key by (simp add: key_name_no_quote key_stem_no_quote)
    from triple_fail_with [OF assms(1) key message_quoted(2) [OF this] assms(3)] None
    show ?thesis by (simp add: use_schema_def)
  next
    case (Some row)
    let ?s3 = "json_loads E (sr_processing row)"
    let ?parts = "rbind (subscript ?s3 ''prefixes'') (\<lambda>p. rbind (subscript ?s3 ''data'') (\<lambda>d. Inr (p, d)))"
    have f: "quote \<notin> set ''Found a matching schema in the database''"
      and u: "quote \<notin> set ''Unexpected schema format''"
      and st: "quote \<notin> set ''Started extracting data from the datafile''" by simp_all
    have p: "set (sts @ [processing]) \<subseteq> {processing}" using assms(3) by simp
    have range: "-32768 \<le> processing" "processing \<le> 32767" by (simp_all add: processing_def)
    show ?thesis
    proof (cases ?parts)
      case (Inl e)
      from triple_sbind [OF triple_push [OF message_quoted(1) [OF f]]
          triple_fail_with [OF assms(1) key message_quoted(1) [OF u] assms(3)]] Some Inl
      show ?thesis by (simp add: use_schema_def)
    next
      case (Inr pd)
      obtain pv dv where pd: "pd = (pv, dv)" by fastforce
      with Inr have "subscript ?s3 ''prefixes'' = Inr pv" "subscript ?s3 ''data'' = Inr dv"
        by (auto simp: rbind_eq_Inr)
      then have free: "json_free quote pv" "json_free quote dv" using loads subscript_free by blast+
      have x: "triple (log_state saved pending usable now base (sts @ [processing]))
          (run_extract now E root dv pv :: (('c, 'w) ingest_scheme, exn, pyval) act)
          (\<lambda>_. log_state saved pending usable now base (sts @ [processing])) (\<lambda>_. escaped saved base)"
        by (rule triple_conseq [OF triple_run_extract [OF find assms(4) free(2,1)]])
          (auto intro: log_state_escaped [OF _ p])
      show ?thesis
        unfolding use_schema_def Some option.case Let_def Inr pd sum.case prod.case
        by (rule triple_sbind [OF triple_push [OF message_quoted(1) [OF f]]
            triple_sbind [OF triple_push [OF message_quoted(1) [OF st]]
            triple_sbind [OF triple_commit_log [OF assms(1) key range]
            triple_sbind [OF x triple_store_data [OF assms(1) key p]]]]])
    qed
  qed
qed

lemma triple_process_xml:
  fixes E :: "'e env_scheme"
  assumes "inj now" and "clean_env E bucket key" and "set sts \<subseteq> {processing}"
    and "quote_free_xml root" and "\<forall>d. publication_time root = Inr (Some d) \<longrightarrow> quote \<notin> set d"
  shows "triple (\<lambda>w. log_state saved pending usable now base sts w \<and> patterns_ok pending w)
    (process_xml ops now E key root :: (('c, 'w) ingest_scheme, exn, unit) act)
    (\<lambda>_. finished saved base) (\<lambda>_. escaped saved base)"
proof -
  let ?I = "\<lambda>w. log_state saved pending usable now base sts w \<and> patterns_ok pending w"
  have key: "quote \<notin> set key" using assms(2) by (simp add: clean_env_def)
  have "quote \<notin> set ''Read the XML data''" by simp
  note push = triple_push_patterns [OF message_quoted(1) [OF this]]
  show ?thesis
  proof (cases "publication_time root")
    case (Inl e)
    have "triple ?I (throw e :: (('c, 'w) ingest_scheme, exn, unit) act)
        (\<lambda>_. finished saved base) (\<lambda>_. escaped saved base)"
      by (rule triple_throw) (auto intro: log_state_escaped [OF _ assms(3)])
    moreover have "(process_xml ops now E key root :: (('c, 'w) ingest_scheme, exn, unit) act) =
        sbind (push_message now ''Read the XML data'') (\<lambda>_. throw e)"
      using Inl by (simp add: process_xml_def fun_eq_iff sbind_def)
    ultimately show ?thesis using triple_sbind [OF push] by simp
  next
    case (Inr date)
    with assms(5) have d: "\<forall>d. date = Some d \<longrightarrow> quote \<notin> set d" by blast
    have esc: "escaped saved base w" if "rows_added saved base sts w" for w :: "('c, 'w) ingest_scheme"
      using that assms(3) by (auto simp: escaped_def)
    have eq: "(process_xml ops now E key root :: (('c, 'w) ingest_scheme, exn, unit) act) =
        sbind (push_message now ''Read the XML data'') (\<lambda>_.
        sbind (find_schema ops key date) (use_schema ops now E key root))"
      using Inr by (simp add: process_xml_def fun_eq_iff sbind_def)
    have find: "triple ?I (find_schema ops key date :: (('c, 'w) ingest_scheme, exn, schema_row option) act)
        (\<lambda>_. log_state saved pending usable now base sts) (\<lambda>_. escaped saved base)"
      by (rule triple_find_schema [OF key d]) (rule esc)
    show ?thesis
      unfolding eq by (rule triple_sbind [OF push triple_sbind [OF find triple_use_schema [OF assms(1-4)]]])
  qed
qed

lemma triple_parse_xml:
  fixes E :: "'e env_scheme"
  assumes "inj now" and "clean_env E bucket key" and "set sts \<subseteq> {processing}"
  shows "triple (\<lambda>w. log_state saved pending usable now base sts w \<and> patterns_ok pending w)
    (parse_xml ops now E key contents :: (('c, 'w) ingest_scheme, exn, unit) act)
    (\<lambda>_. finished saved base) (\<lambda>_. escaped saved base)"
proof -
  let ?I = "\<lambda>w. log_state saved pending usable now base sts w \<and> patterns_ok pending w"
  have key: "quote \<notin> set key" using assms(2) by (simp add: clean_env_def)
  have q1: "quote \<notin> set ''Decompressed the GZIP data''" and q2: "quote \<notin> set ''Read the XML data''" by simp_all
  note push = triple_push_patterns [OF message_quoted(1)]
  show ?thesis
  proof (cases "rbind (utf8_decode E contents) (fromstring E)")
    case (Inl e)
    have q: "quote \<notin> set (''parse XML data from '' @ [dquote] @ key_stem key @ [dquote])"
      using key by (simp add: key_stem_no_quote)
    have "triple ?I (fail_with ops now key (couldnt @ ''parse XML data from '' @ [dquote] @ key_stem key @ [dquote])
        :: (('c, 'w) ingest_scheme, exn, unit) act) (\<lambda>_. finished saved base) (\<lambda>_. escaped saved base)"
      by (rule triple_conseq [OF triple_fail_with [OF assms(1) key message_quoted(2) [OF q] assms(3)]]) auto
    moreover have "triple ?I (throw e :: (('c, 'w) ingest_scheme, exn, unit) act)
        (\<lambda>_. finished saved base) (\<lambda>_. escaped saved base)"
      by (rule triple_throw) (auto intro: log_state_escaped [OF _ assms(3)])
    ultimately have rest: "triple ?I (if e = ParseError
        then fail_with ops now key (couldnt @ ''parse XML data from '' @ [dquote] @ key_stem key @ [dquote])
        else throw e :: (('c, 'w) ingest_scheme, exn, unit) act)
        (\<lambda>_. finished saved base) (\<lambda>_. escaped saved base)" by simp
    have eq: "(parse_xml ops now E key contents :: (('c, 'w) ingest_scheme, exn, unit) act) =
        sbind (push_message now ''Decompressed the GZIP data'') (\<lambda>_. if e = ParseError
        then fail_with ops now key (couldnt @ ''parse XML data from '' @ [dquote] @ key_stem key @ [dquote])
        else throw e)"
      using Inl by (cases e) (simp_all add: parse_xml_def)
    show ?thesis unfolding eq by (rule triple_sbind [OF push [OF q1] rest])
  next
    case (Inr root)
    then obtain t where "fromstring E t = Inr root" by (auto simp: rbind_eq_Inr)
    with assms(2) have r: "quote_free_xml root"
      "\<forall>d. publication_time root = Inr (Some d) \<longrightarrow> quote \<notin> set d" by (auto simp: clean_env_def)
    have eq: "(parse_xml ops now E key contents :: (('c, 'w) ingest_scheme, exn, unit) act) =
        sbind (push_message now ''Decompressed the GZIP data'') (\<lambda>_.
        sbind (push_message now ''Read the XML data'') (\<lambda>_. process_xml ops now E key root))"
      using Inr by (simp add: parse_xml_def)
    show ?thesis
      unfolding eq
      by (rule triple_sbind [OF push [OF q1] triple_sbind [OF push [OF q2] triple_process_xml [OF assms r]]])
  qed
qed

lemma triple_commit_patterns:
  fixes R :: "exn \<Rightarrow> ('c, 'w) world_scheme \<Rightarrow> bool"
  assumes "inj now" and "quote \<notin> set key" and "-32768 \<le> st" and "st \<le> 32767"
  shows "triple (\<lambda>w. log_state saved pending usable now base sts w \<and> patterns_ok pending w)
    (commit_log ops now (Some key) st)
    (\<lambda>_ w. log_state saved pending usable now base (sts @ [st]) w \<and> patterns_ok pending w) R"
  unfolding triple_def
proof (intro allI impI)
  fix w :: "('c, 'w) world_scheme"
  assume l: "log_state saved pending usable now base sts w \<and> patterns_ok pending w"
  have u: "usable (w_conn w)" and q: "list_all well_quoted (w_log w)"
    using l by (auto simp: log_state_def)
  have t: "w_log_time w \<notin> lr_time ` set (the_rows (xml_log (pending (w_conn w))))"
    using l by (fastforce simp: log_state_def fresh_time_def log_rows_def)
  have k: "well_quoted (file_text (Some key))" using assms(2) by (simp add: file_text_def well_quoted_plain)
  obtain c' where c': "commit_log ops now (Some key) st w =
       (Inr (), w\<lparr>w_conn := c', w_log := [], w_log_time := now (w_ticks w), w_ticks := Suc (w_ticks w)\<rparr>)"
    "saved c' = pending c'" "xml_schemas (saved c') = xml_schemas (pending (w_conn w))"
    by (rule commit_log_run [OF u k q t assms(3,4), where now = now])
  with l have "patterns_ok pending (snd (commit_log ops now (Some key) st w))"
    by (simp add: patterns_ok_def schema_rows_def)
  with triple_run_Inr [OF triple_commit_log [OF assms] conjunct1 [OF l] c'(1)] c'(1)
  show "case commit_log ops now (Some key) st w of (Inl e, s') \<Rightarrow> R e s'
      | (Inr x, s') \<Rightarrow> log_state saved pending usable now base (sts @ [st]) s' \<and> patterns_ok pending s'" by simp
qed

lemma triple_main_xml:
  fixes E :: "'e env_scheme"
  assumes "inj now" and "clean_env E bucket key"
  shows "triple (\<lambda>w. log_state saved pending usable now base [] w \<and> patterns_ok pending w)
    (main_xml ops now E bucket key :: (('c, 'w) ingest_scheme, exn, unit) act)
    (\<lambda>_. finished saved base) (\<lambda>_. escaped saved base)"
proof -
  let ?I = "\<lambda>sts w. log_state saved pending usable now base sts w \<and> patterns_ok pending w"
  have key: "quote \<notin> set key" and code: "s3_get E bucket key = Inl (ClientError code) \<Longrightarrow> quote \<notin> set code"
    for code using assms(2) by (auto simp: clean_env_def)
  have range: "-32768 \<le> processing" "processing \<le> 32767" by (simp_all add: processing_def)
  have sts: "set [processing] \<subseteq> {processing}" "set [processing, processing] \<subseteq> {processing}" by simp_all
  note push = triple_push_patterns [OF message_quoted(1)]
  have q1: "quote \<notin> set (''Requesting a traffic data file, '' @ key_name key @ '', from S3'')"
    and q2: "quote \<notin> set (''Read '' @ key_name key @ '' from S3'')"
    and q3: "quote \<notin> set ''Found GZIP extension''" and q4: "quote \<notin> set ''decompress the GZIP data''"
    using key by (simp_all add: key_name_no_quote)
  have commit: "triple (?I sts) (commit_log ops now (Some key) processing :: (('c, 'w) ingest_scheme, exn, unit) act)
      (\<lambda>_. ?I (sts @ [processing])) (\<lambda>_. escaped saved base)" for sts
    by (rule triple_commit_patterns [OF assms(1) key range])
  note parse = triple_parse_xml [OF assms sts(2)]
  have gz: "triple (?I [processing, processing])
      ((case gunzip E contents of
         Inl e \<Rightarrow> fail_with ops now key (couldnt @ ''decompress the GZIP data'')
       | Inr plain \<Rightarrow> parse_xml ops now E key plain) :: (('c, 'w) ingest_scheme, exn, unit) act)
      (\<lambda>_. finished saved base) (\<lambda>_. escaped saved base)" for contents
  proof (cases "gunzip E contents")
    case (Inl e)
    have "triple (?I [processing, processing])
        (fail_with ops now key (couldnt @ ''decompress the GZIP data'') :: (('c, 'w) ingest_scheme, exn, unit) act)
        (\<lambda>_. finished saved base) (\<lambda>_. escaped saved base)"
      by (rule triple_conseq [OF triple_fail_with [OF assms(1) key message_quoted(2) [OF q4] sts(2)]]) auto
    with Inl show ?thesis by simp
  qed (simp add: parse)
  have body: "triple (?I [processing, processing])
      ((if last_chars 2 key = ''gz'' then
         sbind (push_message now ''Found GZIP extension'') (\<lambda>_.
         case gunzip E contents of
           Inl e \<Rightarrow> fail_with ops now key (couldnt @ ''decompress the GZIP data'')
         | Inr plain \<Rightarrow> parse_xml ops now E key plain)
       else parse_xml ops now E key contents) :: (('c, 'w) ingest_scheme, exn, unit) act)
      (\<lambda>_. finished saved base) (\<lambda>_. escaped saved base)" for contents
    using triple_sbind [OF push [OF q3] gz [of contents]] by (simp add: parse)
  have "triple (?I [processing]) (fetch ops now E bucket key (\<lambda>contents.
      sbind (push_message now (''Read '' @ key_name key @ '' from S3'')) (\<lambda>_.
      sbind (commit_log ops now (Some key) processing) (\<lambda>_.
      if last_chars 2 key = ''gz'' then
        sbind (push_message now ''Found GZIP extension'') (\<lambda>_.
        case gunzip E contents of
          Inl e \<Rightarrow> fail_with ops now key (couldnt @ ''decompress the GZIP data'')
        | Inr plain \<Rightarrow> parse_xml ops now E key plain)
      else parse_xml ops now E key contents))) :: (('c, 'w) ingest_scheme, exn, unit) act)
      (\<lambda>_. finished saved base) (\<lambda>_. escaped saved base)"
    by (rule triple_fetch [OF assms(1) key sts(1) code])
      (simp, simp, rule triple_sbind [OF push [OF q2] triple_sbind [OF commit [of "[processing]", simplified] body]])
  note rest = this
  show ?thesis
    unfolding main_xml_def
    by (rule triple_sbind [OF push [OF q1] triple_sbind [OF commit [of "[]", simplified] rest]])
qed

text \<open>
  A schema that PostgreSQL refuses leaves an aborted transaction: \<open>stuck\<close>.  From there the
  report of the failure raises as well.
\<close>

definition stuck :: "log_row list \<Rightarrow> ('c, 'w) world_scheme \<Rightarrow> bool" where
  "stuck base w = (\<not> usable (w_conn w) \<and> escaped saved base w)"

lemma triple_fail_stuck:
  fixes Q :: "unit \<Rightarrow> ('c, 'w) ingest_scheme \<Rightarrow> bool"
  shows "triple (stuck base) (fail_with ops now key msg) Q (\<lambda>_. escaped saved base)"
  unfolding triple_def
proof (intro allI impI)
  fix w :: "('c, 'w) ingest_scheme"
  assume s: "stuck base w"
  let ?w = "snd (push_message now msg w)"
  have "\<not> usable (w_conn ?w)" using s by (simp add: stuck_def)
  then obtain c' where "commit_log ops now (Some key) failed ?w = (Inl DatabaseError, ?w\<lparr>w_conn := c'\<rparr>)"
    "saved c' = saved (w_conn ?w)" by (rule commit_log_aborted)
  with s show "case fail_with ops now key msg w of (Inl e, s') \<Rightarrow> escaped saved base s' | (Inr x, s') \<Rightarrow> Q x s'"
    by (simp add: fail_with_def sbind_def stuck_def escaped_def rows_added_def)
qed

lemma triple_add_schema:
  assumes "\<And>f v d j. schema_parts schema = Some (f, v, d, j) \<Longrightarrow> list_all well_quoted [f, v, d, j]"
    and "set sts \<subseteq> {processing}"
  shows "triple (log_state saved pending usable now base sts) (add_schema ops schema)
    (\<lambda>_. log_state saved pending usable now base sts)
    (\<lambda>_ w. log_state saved pending usable now base sts w \<or> stuck base w)"
  unfolding triple_def
proof (intro allI impI)
  fix w :: "('c, 'w) world_scheme"
  assume l: "log_state saved pending usable now base sts w"
  then have u: "usable (w_conn w)" and same: "log_rows (pending (w_conn w)) = log_rows (saved (w_conn w))"
    by (simp_all add: log_state_def)
  have keep: "log_state saved pending usable now base sts (w\<lparr>w_conn := c'\<rparr>)"
    if "usable c'" "saved c' = pending c'" "log_rows (saved c') = log_rows (pending (w_conn w))" for c'
    using l that same by (simp add: log_state_def rows_added_def fresh_time_def)
  let ?goal = "case add_schema ops schema w of
        (Inl e, s') \<Rightarrow> log_state saved pending usable now base sts s' \<or> stuck base s'
      | (Inr x, s') \<Rightarrow> log_state saved pending usable now base sts s'"
  show ?goal
  proof (cases "schema_parts schema")
    case None
    obtain c' where c': "create_schemas_meta_table ops w = (Inr (), w\<lparr>w_conn := c'\<rparr>)" "usable c'"
      "pending c' = after ts (pending (w_conn w)) CreateSchemasTable" "saved c' = pending c'"
      using create_schemas_meta_table_run [OF u] by blast
    from add_schema_no_parts [OF None c'(1)] keep [OF c'(2,4)] c'(3,4)
    show ?goal by (auto simp: log_rows_def)
  next
    case (Some p)
    then obtain f v d j where p: "schema_parts schema = Some (f, v, d, j)" by (cases p) auto
    note q = assms(1) [OF p]
    show ?goal
    proof (cases "ts (unquoted v) \<noteq> None \<and> json_ok (unquoted j)")
      case True
      then have t: "ts (unquoted v) \<noteq> None" and jo: "json_ok (unquoted j)" by auto
      from add_schema_run [OF u p q t jo] obtain c' where
        "add_schema ops schema w = (Inr (), w\<lparr>w_conn := c'\<rparr>)" "usable c'" "saved c' = pending c'"
        "xml_log (saved c') = xml_log (pending (w_conn w))" by blast
      with keep [of c'] show ?goal by (simp add: log_rows_def)
    next
      case False
      then have r: "ts (unquoted v) = None \<or> \<not> json_ok (unquoted j)" by auto
      obtain c' where c': "add_schema ops schema w = (Inl DatabaseError, w\<lparr>w_conn := c'\<rparr>)" "\<not> usable c'"
        "xml_log (saved c') = xml_log (pending (w_conn w))" by (rule add_schema_refused [OF u p q r])
      have "log_rows (saved c') = log_rows (saved (w_conn w))" using same c'(3) by (simp add: log_rows_def)
      with l assms(2) c' show ?goal
        by (auto simp: stuck_def escaped_def log_state_def rows_added_def)
    qed
  qed
qed

lemma triple_attempt:
  "triple P m Q R \<Longrightarrow> triple P (attempt m) (\<lambda>r. case r of Inl e \<Rightarrow> R e | Inr x \<Rightarrow> Q x) R'"
  by (auto simp: triple_def attempt_def split: prod.splits sum.splits)

lemma triple_main_yml:
  fixes E :: "'e env_scheme"
  assumes "inj now" and "clean_env E bucket key"
  shows "triple (log_state saved pending usable now base [])
    (main_yml ops now E bucket key :: (('c, 'w) ingest_scheme, exn, unit) act)
    (\<lambda>_. finished saved base) (\<lambda>_. escaped saved base)"
proof -
  let ?I = "log_state saved pending usable now base []"
  have key: "quote \<notin> set key" and code: "s3_get E bucket key = Inl (ClientError code) \<Longrightarrow> quote \<notin> set code"
    for code using assms(2) by (auto simp: clean_env_def)
  have parts: "list_all well_quoted [f, v, d, j]"
    if "rbind (utf8_decode E b) (yaml_load E) = Inr schema" "schema_parts schema = Some (f, v, d, j)"
    for b schema f v d j using assms(2) that by (auto simp: clean_env_def)
  have q: "quote \<notin> set (''Requesting file '' @ key_name key @ '' from S3'')"
    "quote \<notin> set (''Read '' @ key_name key @ '' from S3'')"
    "quote \<notin> set (''Read the schema from '' @ key_name key)"
    "quote \<notin> set (''Put the schema from '' @ key_name key @ '' into the database'')"
    "quote \<notin> set (''Finished processing schema from '' @ key_name key)"
    "quote \<notin> set (''process '' @ key_name key)"
    using key by (simp_all add: key_name_no_quote)
  let ?R = "\<lambda>(e::exn) (w :: ('c, 'w) ingest_scheme). ?I w \<or> stuck base w"
  let ?put = "\<lambda>schema. sbind (push_message now (''Read the schema from '' @ key_name key)) (\<lambda>_.
      sbind (add_schema ops schema) (\<lambda>_.
      push_message now (''Put the schema from '' @ key_name key @ '' into the database'')))"
  let ?block = "\<lambda>contents. sbind (lift_res (rbind (utf8_decode E contents) (yaml_load E))) ?put
      :: (('c, 'w) ingest_scheme, exn, unit) act"
  have block: "triple ?I (?block contents) (\<lambda>_. ?I) ?R" for contents
  proof (cases "rbind (utf8_decode E contents) (yaml_load E)")
    case (Inl e)
    then show ?thesis by (simp add: triple_def sbind_def)
  next
    case (Inr schema)
    have eq: "?block contents = ?put schema" using Inr by (simp add: fun_eq_iff sbind_def)
    have "triple ?I (add_schema ops schema :: (('c, 'w) ingest_scheme, exn, unit) act) (\<lambda>_. ?I) ?R"
      by (rule triple_add_schema) (use parts [OF Inr] in simp_all)
    then show ?thesis
      unfolding eq by (rule triple_sbind [OF triple_push [OF message_quoted(1) [OF q(3)]]
        triple_sbind [OF _ triple_push [OF message_quoted(1) [OF q(4)]]]])
  qed
  let ?after = "\<lambda>r. case r of
          Inl e \<Rightarrow> fail_with ops now key (couldnt @ ''process '' @ key_name key)
        | Inr _ \<Rightarrow>
            sbind (push_message now (''Finished processing schema from '' @ key_name key)) (\<lambda>_.
            commit_log ops now (Some key) succeeded :: (('c, 'w) ingest_scheme, exn, unit) act)"
  have fail: "triple (?R e) (fail_with ops now key (couldnt @ ''process '' @ key_name key)
      :: (('c, 'w) ingest_scheme, exn, unit) act) (\<lambda>_. finished saved base) (\<lambda>_. escaped saved base)" for e
  proof -
    have "triple ?I (fail_with ops now key (couldnt @ ''process '' @ key_name key)
        :: (('c, 'w) ingest_scheme, exn, unit) act) (\<lambda>_. finished saved base) (\<lambda>_. escaped saved base)"
      by (rule triple_fail_with [OF assms(1) key message_quoted(2) [OF q(6)]]) simp
    moreover have "triple (stuck base) (fail_with ops now key (couldnt @ ''process '' @ key_name key)
        :: (('c, 'w) ingest_scheme, exn, unit) act) (\<lambda>_. finished saved base) (\<lambda>_. escaped saved base)"
      by (rule triple_fail_stuck)
    ultimately show ?thesis by (auto simp: triple_def)
  qed
  have after: "triple (case r of Inl e \<Rightarrow> ?R e | Inr x \<Rightarrow> ?I) (?after r)
      (\<lambda>_. finished saved base) (\<lambda>_. escaped saved base)" for r :: "exn + unit"
  proof (cases r)
    case (Inr x)
    have "triple ?I (?after (Inr x)) (\<lambda>_. finished saved base) (\<lambda>_. escaped saved base)"
      unfolding sum.case by (rule triple_succeed [OF assms(1) key message_quoted(1) [OF q(5)]]) simp
    with Inr show ?thesis by simp
  next
    case (Inl e)
    show ?thesis unfolding Inl sum.case by (rule fail)
  qed
  have rest: "triple ?I (fetch ops now E bucket key (\<lambda>contents.
      sbind (push_message now (''Read '' @ key_name key @ '' from S3'')) (\<lambda>_.
      sbind (attempt (?block contents)) ?after))) (\<lambda>_. finished saved base) (\<lambda>_. escaped saved base)"
    by (rule triple_fetch [where sts = "[]", OF assms(1) key _ code])
      (simp, assumption, assumption, rule triple_sbind [OF triple_push [OF message_quoted(1) [OF q(2)]]
        triple_sbind [OF triple_attempt [OF block] after]])
  show ?thesis
    unfolding main_yml_def
    by (rule triple_sbind [OF triple_push [OF message_quoted(1) [OF q(1)]] rest])
qed

end

section \<open>The handler\<close>

text \<open>
  Before a run: a live connection whose transaction holds what is saved, a clock whose
  readings from now on are not the times of rows in the log, patterns a LIKE accepts.
\<close>

definition ready ::
  "('c \<Rightarrow> meta_db) \<Rightarrow> ('c \<Rightarrow> meta_db) \<Rightarrow> ('c \<Rightarrow> bool) \<Rightarrow> (nat \<Rightarrow> datetime) \<Rightarrow> ('c, 'w) world_scheme \<Rightarrow> bool" where
  "ready saved pending usable now w =
     (usable (w_conn w) \<and> log_rows (pending (w_conn w)) = log_rows (saved (w_conn w)) \<and>
      inj now \<and> (\<forall>r \<in> set (log_rows (saved (w_conn w))). lr_time r \<notin> now ` {w_ticks w..}) \<and>
      patterns_ok pending w)"

definition handled :: "string \<Rightarrow> bool" where
  "handled key = (last_chars 3 key = ''yml'' \<or> last_chars 3 key = ''xml'' \<or> last_chars 2 key = ''gz'')"

lemma main_not_handled:
  "\<not> handled key \<Longrightarrow> main ops now E bucket key w =
     (Inr (), w\<lparr>w_ticks := Suc (w_ticks w), w_log_time := now (w_ticks w), w_log := []\<rparr>)"
  by (simp add: main_def handled_def sbind_def)

lemma get_logger_ready:
  assumes "ready saved pending usable now w"
  shows "log_state saved pending usable now (log_rows (saved (w_conn w))) [] (snd (get_logger now w)) \<and>
    patterns_ok pending (snd (get_logger now w))"
  using assms
  by (auto simp: ready_def log_state_def rows_added_def fresh_time_def patterns_ok_def
      intro!: exI [of _ "w_ticks w"])

context pg_connection
begin

lemma main_status:
  fixes w :: "('c, 'w) ingest_scheme"
  assumes "ready saved pending usable now w" and "clean_env E bucket key" and "handled key"
  shows "case main ops now E bucket key w of
      (Inl e, w') \<Rightarrow> escaped saved (log_rows (saved (w_conn w))) w'
    | (Inr r, w') \<Rightarrow> finished saved (log_rows (saved (w_conn w))) w'"
proof -
  let ?base = "log_rows (saved (w_conn w))" and ?w = "snd (get_logger now w)"
  have inj: "inj now" using assms(1) by (simp add: ready_def)
  have s: "log_state saved pending usable now ?base [] ?w" "patterns_ok pending ?w"
    using get_logger_ready [OF assms(1)] by blast+
  note result = triple_def [THEN iffD1, rule_format]
  show ?thesis
  proof (cases "last_chars 3 key = ''yml''")
    case True
    then have eq: "main ops now E bucket key w = main_yml ops now E bucket key ?w"
      by (simp add: main_def sbind_def)
    show ?thesis unfolding eq by (rule result [OF triple_main_yml [OF inj assms(2)] s(1)])
  next
    case False
    then have eq: "main ops now E bucket key w = main_xml ops now E bucket key ?w"
      using assms(3) by (auto simp: main_def handled_def sbind_def)
    show ?thesis unfolding eq by (rule result [OF triple_main_xml [OF inj assms(2)] conjI [OF s]])
  qed
qed

lemma main_refused:
  fixes w :: "('c, 'w) ingest_scheme"
  assumes "usable (w_conn w)" and "log_rows (pending (w_conn w)) = log_rows (saved (w_conn w))"
    and "last_chars 3 key = ''yml''" and "s3_get E bucket key = Inr contents"
    and "rbind (utf8_decode E contents) (yaml_load E) = Inr schema"
    and "schema_parts schema = Some (f, v, d, j)" and "list_all well_quoted [f, v, d, j]"
    and "ts (unquoted v) = None \<or> \<not> json_ok (unquoted j)"
  shows "\<exists>w'. main ops now E bucket key w = (Inl DatabaseError, w') \<and>
    log_rows (saved (w_conn w')) = log_rows (saved (w_conn w))"
proof -
  let ?say = "\<lambda>m w. snd (push_message now m w) :: ('c, 'w) ingest_scheme"
  let ?w = "?say (''Read the schema from '' @ key_name key) (?say (''Read '' @ key_name key @ '' from S3'')
    (?say (''Requesting file '' @ key_name key @ '' from S3'') (snd (get_logger now w))))"
  have u: "usable (w_conn ?w)" and c: "w_conn ?w = w_conn w" using assms(1) by simp_all
  obtain c1 where c1: "add_schema ops schema ?w = (Inl DatabaseError, ?w\<lparr>w_conn := c1\<rparr>)" "\<not> usable c1"
    "xml_log (saved c1) = xml_log (pending (w_conn ?w))"
    by (rule add_schema_refused [OF u assms(6-8)])
  let ?w1 = "?say (couldnt @ ''process '' @ key_name key) (?w\<lparr>w_conn := c1\<rparr>)"
  have "\<not> usable (w_conn ?w1)" using c1(2) by simp
  then obtain c2 where c2: "commit_log ops now (Some key) failed ?w1 = (Inl DatabaseError, ?w1\<lparr>w_conn := c2\<rparr>)"
    "saved c2 = saved (w_conn ?w1)" by (rule commit_log_aborted)
  have "main ops now E bucket key w = (Inl DatabaseError, ?w1\<lparr>w_conn := c2\<rparr>)"
    using assms(3-5) c1(1) c2(1)
    by (simp add: main_def main_yml_def fetch_def fail_with_def sbind_def attempt_def)
  moreover have "log_rows (saved c2) = log_rows (saved (w_conn w))"
    using c1(3) c2(2) c assms(2) by (simp add: log_rows_def)
  ultimately show ?thesis by simp
qed

end

end
