(* ===== verification/Ingest_Theorems.thy ===== *)
theory Ingest_Theorems
  imports Ingest_Props
begin

text \<open>
  The properties of the ingestion Lambda: the status a run leaves in xml_log, the rows
  \<open>commit_log\<close> and \<open>add_schema\<close> save, the schema \<open>find_schema\<close> picks, what the extraction
  returns and reports, and the batches sent to DynamoDB.  Each with the concrete run that
  shows its hypotheses can hold: \<open>sample_env\<close>, a small traffic file and its schema.
\<close>

section \<open>A concrete run\<close>

definition sample_now :: "nat \<Rightarrow> datetime" where
  "sample_now i = \<lparr>year = 2018 + i, month = 6, day = 20, hour = 7, minute = 3, second = 0, microsecond = 0\<rparr>"

definition sample_site :: "string \<Rightarrow> string \<Rightarrow> xml" where
  "sample_site i speed = Elem ''site'' [(''id'', i)] None [Elem ''speed'' [] (Some speed) []]"

definition sample_root :: xml where
  "sample_root = Elem ''d2'' [] None
     [Elem publication_tag [] (Some ''2018-06-20T07:03:00'') [], sample_site ''A'' ''81'', sample_site ''B'' ''x'']"

definition sample_fields :: "(string \<times> json) list" where
  "sample_fields = [(''_id'', JStr ''str, ref''), (''speed'', JStr ''text, int, avg'')]"

definition sample_schema :: json where
  "sample_schema = JDict [(''prefixes'', JDict []), (''data'', JDict [(''site[]'', JDict sample_fields)])]"

definition sample_env :: env where
  "sample_env = \<lparr>s3_get = (\<lambda>b k. Inr ''xml''), gunzip = Inr, utf8_decode = Inr,
     yaml_load = (\<lambda>t. Inr (JDict [])), fromstring = (\<lambda>t. Inr sample_root),
     json_loads = (\<lambda>t. sample_schema), element_find = et_find, dynamo_put = (\<lambda>x. Inr ())\<rparr>"

definition sample_key :: string where
  "sample_key = ''Traffic/2018-06-20/0703_Trafficspeed.xml''"

definition sample_ts :: "string \<Rightarrow> nat option" where
  "sample_ts s = (if s = [] then None else Some (length s))"

abbreviation sample_ops :: "ref_conn db_ops" where
  "sample_ops \<equiv> ref_ops sample_ts (\<lambda>_. True)"

definition sample_conn :: "schema_row list \<Rightarrow> ref_conn" where
  "sample_conn rows = \<lparr>rc_saved = \<lparr>xml_log = None, xml_schemas = Some rows\<rparr>,
     rc_pending = \<lparr>xml_log = None, xml_schemas = Some rows\<rparr>, rc_aborted = False, rc_sent = []\<rparr>"

definition sample_row :: schema_row where
  "sample_row = \<lparr>sr_pattern = ''Traffic%Trafficspeed%'', sr_time = 5, sr_description = [], sr_processing = []\<rparr>"

definition sample_world :: "schema_row list \<Rightarrow> ref_conn ingest" where
  "sample_world rows = \<lparr>w_conn = sample_conn rows, w_log_time = sample_now 0, w_log = [], w_ticks = 1, batches = []\<rparr>"

lemma sample_now_inj: "inj sample_now"
  by (rule injI) (simp add: sample_now_def)

lemma sample_ready: "ready rc_saved rc_pending (\<lambda>c. \<not> rc_aborted c) sample_now (sample_world [sample_row])"
proof -
  have "\<not> dangling_escape (sr_pattern sample_row)" by code_simp
  then show ?thesis
    by (simp add: ready_def sample_world_def sample_conn_def log_rows_def patterns_ok_def schema_rows_def
        sample_now_inj)
qed

lemma sample_clean: "clean_env sample_env bucket sample_key"
proof -
  have "quote \<notin> set sample_key" by (simp add: sample_key_def)
  moreover have "quote_free_xml sample_root" by code_simp
  moreover have "publication_time sample_root = Inr (Some ''2018-06-20T07:03:00'')" by code_simp
  moreover have "json_free quote sample_schema" by code_simp
  moreover have "schema_parts (JDict []) = None" by (simp add: schema_parts_def)
  ultimately show ?thesis
    by (auto simp: clean_env_def sample_env_def et_find_in_tree rbind_eq_Inr)
qed

section \<open>The status of a file\<close>



text \<open>Any other object is ignored: nothing is asked of the database and nothing is sent.\<close>

theorem main_ignores_other:
  assumes "\<not> handled key"
  shows "\<exists>w'. main ops now E bucket key w = (Inr (), w') \<and> w_conn w' = w_conn w \<and> batches w' = batches w"
  by (intro exI conjI, rule main_not_handled [OF assms]) simp_all

lemma main_ignores_other_witness:
  "\<exists>w'. main sample_ops sample_now sample_env ''bucket'' ''notes.txt'' (sample_world []) = (Inr (), w') \<and>
     w_conn w' = sample_conn [] \<and> batches w' = []"
proof -
  have "\<not> handled ''notes.txt''" by code_simp
  from main_ignores_other [OF this, of sample_ops sample_now sample_env "''bucket''" "sample_world []"]
  show ?thesis by (simp add: sample_world_def)
qed

section \<open>Rows\<close>



text \<open>
  C3. A schema that PostgreSQL refuses (its version is no timestamp, or its JSON is not
  accepted) is not reported: the insert aborts the transaction, the commit of the failure
  raises in its turn, and the run ends in a \<open>DatabaseError\<close> without any new row.
\<close>

theorem main_refused_schema:
  assumes "pg_connection ops ts json_ok saved pending usable"
    and "usable (w_conn w)" and "log_rows (pending (w_conn w)) = log_rows (saved (w_conn w))"
    and "last_chars 3 key = ''yml''" and "s3_get E bucket key = Inr contents"
    and "rbind (utf8_decode E contents) (yaml_load E) = Inr schema"
    and "schema_parts schema = Some (f, v, d, j)" and "list_all well_quoted [f, v, d, j]"
    and "ts (unquoted v) = None \<or> \<not> json_ok (unquoted j)"
  shows "\<exists>w'. main ops now E bucket key (w :: ('c, 'w) ingest_scheme) = (Inl DatabaseError, w') \<and>
    log_rows (saved (w_conn w')) = log_rows (saved (w_conn w))"
  by (rule pg_connection.main_refused [OF assms])

definition refused_env :: env where
  "refused_env = sample_env\<lparr>yaml_load := (\<lambda>t. Inr (JDict [
     (''meta'', JDict [(''files'', JStr ''%''), (''version'', JStr []), (''description'', JStr [])]),
     (''processing'', JDict [])]))\<rparr>"

lemma main_refused_schema_witness:
  "\<exists>w'. main sample_ops sample_now refused_env ''bucket'' ''a.yml'' (sample_world []) = (Inl DatabaseError, w') \<and>
     log_rows (rc_saved (w_conn w')) = []"
proof -
  let ?w = "sample_world []"
  have k: "last_chars 3 ''a.yml'' = ''yml''" by code_simp
  have y: "rbind (utf8_decode refused_env ''xml'') (yaml_load refused_env) = Inr (JDict [
     (''meta'', JDict [(''files'', JStr ''%''), (''version'', JStr []), (''description'', JStr [])]),
     (''processing'', JDict [])])" by (simp add: refused_env_def sample_env_def)
  have p: "schema_parts (JDict [
     (''meta'', JDict [(''files'', JStr ''%''), (''version'', JStr []), (''description'', JStr [])]),
     (''processing'', JDict [])]) = Some (''%'', [], [], ''{}'')" by code_simp
  have q: "list_all well_quoted [''%'', [], [], ''{}'']" by code_simp
  have t: "sample_ts (unquoted []) = None \<or> \<not> True" by code_simp
  have w: "\<not> rc_aborted (w_conn ?w)" "log_rows (rc_pending (w_conn ?w)) = log_rows (rc_saved (w_conn ?w))"
    and b: "log_rows (rc_saved (w_conn ?w)) = []"
    by (simp_all add: sample_world_def sample_conn_def log_rows_def)
  have e: "s3_get refused_env ''bucket'' ''a.yml'' = Inr ''xml''" by (simp add: refused_env_def sample_env_def)
  show ?thesis
    using main_refused_schema [OF ref.pg_connection_axioms [of sample_ts "\<lambda>_. True"] w k e y p q t] b by simp
qed

text \<open>
  C4. A schema file whose parts are well quoted and whose version and JSON PostgreSQL
  accepts: the saved table gains exactly the row of that schema at its end, unless a row
  with the same pattern and version is there already, which is then kept as it was.
\<close>

theorem add_schema_saves_row:
  assumes "pg_connection ops ts json_ok saved pending usable" and "usable (w_conn w)"
    and "schema_parts schema = Some (f, v, d, j)" and "list_all well_quoted [f, v, d, j]"
    and "ts (unquoted v) \<noteq> None" and "json_ok (unquoted j)"
  shows "\<exists>c'. add_schema ops schema w = (Inr (), w\<lparr>w_conn := c'\<rparr>) \<and> usable c' \<and>
    saved c' = pending c' \<and> log_rows (saved c') = log_rows (pending (w_conn w)) \<and>
    (let old = schema_rows (pending (w_conn w)); r = schema_of ts f v d j in
     schema_rows (saved c') = (if list_ex (same_key r) old then old else old @ [r]))"
  by (rule pg_connection.add_schema_run [OF assms]) (auto simp: log_rows_def Let_def)

lemma add_schema_saves_row_witness:
  "\<exists>c'. add_schema sample_ops (JDict [
     (''meta'', JDict [(''files'', JStr ''%''), (''version'', JStr ''v1''), (''description'', JStr [])]),
     (''processing'', JDict [])]) (sample_world [sample_row]) = (Inr (), (sample_world [sample_row])\<lparr>w_conn := c'\<rparr>) \<and>
   map sr_pattern (schema_rows (rc_saved c')) = [''Traffic%Trafficspeed%'', ''%'']"
proof -
  have p: "schema_parts (JDict [
     (''meta'', JDict [(''files'', JStr ''%''), (''version'', JStr ''v1''), (''description'', JStr [])]),
     (''processing'', JDict [])]) = Some (''%'', ''v1'', [], ''{}'')" by code_simp
  have q: "list_all well_quoted [''%'', ''v1'', [], ''{}'']" by code_simp
  have t: "sample_ts (unquoted ''v1'') \<noteq> None" by code_simp
  have w: "\<not> rc_aborted (w_conn (sample_world [sample_row]))"
    "schema_rows (rc_pending (w_conn (sample_world [sample_row]))) = [sample_row]"
    by (simp_all add: sample_world_def sample_conn_def schema_rows_def)
  have r: "sr_pattern (schema_of sample_ts ''%'' ''v1'' [] ''{}'') = ''%''" by code_simp
  show ?thesis
    using add_schema_saves_row [OF ref.pg_connection_axioms [of sample_ts "\<lambda>_. True"] w(1) p q t] w(2) r
    by (auto simp: Let_def same_key_def sample_row_def)
qed



section \<open>The extraction\<close>

text \<open>
  C6. A schema with the properties the code reads, in which no value has the type float,
  never makes the extraction raise, whatever the document; only a float can: what then
  escapes is \<open>InvalidOperation\<close>, which the code catches nowhere.
\<close>

theorem extract_data_raises_only_for_floats:
  assumes "find_total xfind" and "wf_entries fl False sch" and "extract_data xfind root sch pref = (Inl e, msgs)"
  shows "fl \<and> e = InvalidOperation"
  using extract_wf [OF assms(1,2), of "[]" pref root "[]"] assms(3)
  by (simp add: extract_data_def outcome_def)

definition float_schema :: "(string \<times> json) list" where
  "float_schema = [(''site[]'', JDict [(''speed'', JStr ''text, float, avg'')])]"

lemma extract_data_raises_only_for_floats_witness:
  "\<exists>msgs. extract_data et_find sample_root float_schema [] = (Inl InvalidOperation, msgs)"
proof -
  obtain r msgs where x: "extract_data et_find sample_root float_schema [] = (r, msgs)" by fastforce
  have "isl (fst (extract_data et_find sample_root float_schema []))" by code_simp
  with x obtain e where e: "r = Inl e" by (cases r) simp_all
  have "wf_entries True False float_schema" by code_simp
  from extract_data_raises_only_for_floats [OF et_find_total this x [unfolded e]] x e show ?thesis by simp
qed

text \<open>
  With a schema, prefixes and a document free of quotes, every message the extraction
  logs may be pasted between quotes in SQL: it is read back as one literal.
\<close>

theorem extract_data_messages_quoted:
  assumes "find_in_tree xfind" and "prefixes_free pref" and "quote_free_xml root" and "pairs_free quote sch"
  shows "list_all well_quoted (snd (extract_data xfind root sch pref))"
  using extract_quoted [OF assms, of "[]" "[]"] by (simp add: extract_data_def outcome_def)

lemma extract_data_messages_quoted_witness:
  "list_all well_quoted (snd (extract_data et_find sample_root [(''site[]'', JDict sample_fields)] []))"
proof (rule extract_data_messages_quoted [OF et_find_in_tree])
  show "prefixes_free []" "quote_free_xml sample_root" "pairs_free quote [(''site[]'', JDict sample_fields)]"
    by code_simp+
qed

text \<open>
  C7. A record the extraction returns has each key once, only keys that its schema's entries
  may store under, and for every entry of the schema at least one of that entry's keys.
\<close>

theorem extract_data_keys:
  assumes "extract_data xfind root sch pref = (Inr recd, msgs)"
  shows "distinct (map fst recd) \<and> keys_of recd \<subseteq> (\<Union>(e, v) \<in> set sch. set (entry_keys e v)) \<and>
    (\<forall>(e, v) \<in> set sch. set (entry_keys e v) \<inter> keys_of recd \<noteq> {})"
  using extract_keys [OF assms [unfolded extract_data_def]]
    extract_distinct [OF assms [unfolded extract_data_def]]
  by (simp add: keys_of_def)

lemma extract_data_keys_witness:
  "set (entry_keys ''site[]'' (JDict sample_fields)) \<inter>
     keys_of (projr (fst (extract_data et_find sample_root [(''site[]'', JDict sample_fields)] []))) \<noteq> {}"
proof -
  obtain r msgs where x: "extract_data et_find sample_root [(''site[]'', JDict sample_fields)] [] = (r, msgs)"
    by fastforce
  have "\<not> isl (fst (extract_data et_find sample_root [(''site[]'', JDict sample_fields)] []))" by code_simp
  with x obtain recd where r: "r = Inr recd" by (cases r) simp_all
  from extract_data_keys [OF x [unfolded r]] x r show ?thesis by simp
qed

text \<open>
  A top entry \<open>tag[]\<close> with a map of sub-entries, which is the shape of every schema file
  the Lambda is given: the result has one key, the tag, holding one record per element of
  that tag, in document order, each record the extraction of that element.
\<close>

theorem extract_data_array:
  assumes "entry_is_array entry" and "\<not> startswith ''_'' (entry_name entry)"
    and "extract_data xfind root [(entry, JDict d)] pref = (Inr recd, msgs)"
  shows "\<exists>recs. recd = [(entry_name entry, VList (map VDict recs))] \<and>
    list_all2 (\<lambda>n r. \<exists>l l'. extract_entries xfind pref n d [] l = (Inr r, l'))
      (et_iter (expand_prefix (entry_name entry) pref) root) recs"
  by (rule extract_array_top [OF assms]) blast

lemma extract_data_array_witness:
  "\<exists>recs. fst (extract_data et_find sample_root [(''site[]'', JDict sample_fields)] []) =
     Inr [(''site'', VList (map VDict recs))] \<and> length recs = 2"
proof -
  obtain r msgs where x: "extract_data et_find sample_root [(''site[]'', JDict sample_fields)] [] = (r, msgs)"
    by fastforce
  have "\<not> isl (fst (extract_data et_find sample_root [(''site[]'', JDict sample_fields)] []))" by code_simp
  with x obtain recd where r: "r = Inr recd" by (cases r) simp_all
  have a: "entry_is_array ''site[]''" "\<not> startswith ''_'' (entry_name ''site[]'')" by code_simp+
  have n: "entry_name ''site[]'' = ''site''"
    "length (et_iter (expand_prefix (entry_name ''site[]'') []) sample_root) = 2" by code_simp+
  from extract_data_array [OF a x [unfolded r]] obtain recs where
    recs: "recd = [(entry_name ''site[]'', VList (map VDict recs))]"
      "length (et_iter (expand_prefix (entry_name ''site[]'') []) sample_root) = length recs"
    by (auto dest: list_all2_lengthD)
  have "length recs = 2" using recs(2) n(2) by simp
  then show ?thesis using x r recs(1) n(1) by (intro exI [of _ recs]) simp
qed

text \<open>
  A list entry tries its alternatives in order: the first whose path finds an element
  decides, and the record is the extraction of that element with the alternative's other
  keys; when none does, no record comes out and nothing is logged.
\<close>

theorem extract_options_first_match:
  assumes "extract_options xfind pref node opts lg = (Inr out, lg')"
  shows "case first_option xfind pref node opts of
      None \<Rightarrow> out = None \<and> lg' = lg
    | Some (d, m) \<Rightarrow> \<exists>recd. out = Some recd \<and>
        extract_entries xfind pref m (dict_del ''_'' d) [] lg = (Inr recd, lg')"
  by (rule extract_options_first [OF assms])

lemma extract_options_first_match_witness:
  "first_option et_find [] (sample_site ''A'' ''81'')
     [JDict [(''_'', JStr ''.[@lang]'')], JDict ((''_'', JStr ''.[@id]'') # sample_fields)] \<noteq> None \<and>
   (\<exists>recd. fst (extract_options et_find [] (sample_site ''A'' ''81'')
     [JDict [(''_'', JStr ''.[@lang]'')], JDict ((''_'', JStr ''.[@id]'') # sample_fields)] []) = Inr (Some recd))"
proof -
  let ?os = "[JDict [(''_'', JStr ''.[@lang]'')], JDict ((''_'', JStr ''.[@id]'') # sample_fields)]"
  obtain r lg' where x: "extract_options et_find [] (sample_site ''A'' ''81'') ?os [] = (r, lg')" by fastforce
  have "\<not> isl (fst (extract_options et_find [] (sample_site ''A'' ''81'') ?os []))" by code_simp
  with x obtain out where r: "r = Inr out" by (cases r) simp_all
  have f: "first_option et_find [] (sample_site ''A'' ''81'') ?os \<noteq> None" by code_simp
  from extract_options_first_match [OF x [unfolded r]] f x r show ?thesis by auto
qed

section \<open>Batches and statements\<close>



text \<open>
  C9. No injection from quoted values: if every value pasted into a statement is well
  quoted, the string literals of the statement's text are exactly these values, with their
  doubled quotes undone, in the order of the text.
\<close>

theorem sql_text_has_only_its_literals:
  assumes "stmt_quoted st"
  shows "lex_out (sql_text st) = Some (map unquoted (sql_holes st))"
  by (rule sql_text_literals [OF assms])

lemma sql_text_has_only_its_literals_witness:
  "lex_out (sql_text (InsertLog (sample_now 0) ''a.yml'' 0 [''it'' @ [quote, quote] @ ''s''])) =
     Some [''2018-06-20 07:03:00'', ''a.yml'', ''it'' @ [quote] @ ''s'']"
proof -
  let ?st = "InsertLog (sample_now 0) ''a.yml'' 0 [''it'' @ [quote, quote] @ ''s'']"
  have "stmt_quoted ?st" by code_simp
  moreover have "map unquoted (sql_holes ?st) = [''2018-06-20 07:03:00'', ''a.yml'', ''it'' @ [quote] @ ''s'']"
    by code_simp
  ultimately show ?thesis using sql_text_has_only_its_literals [of ?st] by simp
qed

end
