(* ===== verification/Dashboard.thy ===== *)
theory Dashboard
  imports Py_Strings "HOL-Library.Multiset"
begin

text \<open>
  dash/app.py: the grid of the minutes of a day with the status of the file of each, the
  figure built from it, and the three callbacks.  PostgreSQL is the record \<open>pg\<close> of what
  connecting and the two queries return; the process globals are the record \<open>dash\<close>.
\<close>

section \<open>The grid and the figure\<close>

type_synonym cell = "int \<times> int \<times> int"

record trace =
  t_x :: "int list"
  t_y :: "int list"
  t_hovertext :: "string list"
  t_color :: string
  t_name :: string

definition colors :: "int \<Rightarrow> string res" where
  "colors i = (if i = -1 then Inr ''lightgray'' else if i = 0 then Inr ''green''
     else if i = 1 then Inr ''red'' else if i = 2 then Inr ''orange'' else Inl KeyError)"

definition status :: "int \<Rightarrow> string res" where
  "status i = (if i = -1 then Inr ''No Traffic Data Received'' else if i = 0 then Inr ''Processing Finished''
     else if i = 1 then Inr ''Processing Failed'' else if i = 2 then Inr ''Currently Processing''
     else Inl KeyError)"

definition initial_status :: "cell list" where
  "initial_status = concat (map (\<lambda>i. map (\<lambda>j. (int i, int j, -1)) [0..<60]) [0..<24])"

definition hover :: "string \<Rightarrow> cell \<Rightarrow> string" where
  "hover name x = (case x of (h, m, s) \<Rightarrow>
     zero_pad 2 (show_int h) @ '':'' @ zero_pad 2 (show_int m) @ '' '' @ name)"

definition scatter :: "cell list \<Rightarrow> int \<Rightarrow> trace res" where
  "scatter upload_status i =
     (let xs = filter (\<lambda>(h, m, s). s = i) upload_status in
      rbind (colors i) (\<lambda>c. rbind (status i) (\<lambda>name.
      Inr \<lparr>t_x = map (\<lambda>(h, m, s). m) xs, t_y = map (\<lambda>(h, m, s). h) xs,
           t_hovertext = map (hover name) xs, t_color = c, t_name = name\<rparr>)))"

fun map_res :: "('a \<Rightarrow> 'b res) \<Rightarrow> 'a list \<Rightarrow> 'b list res" where
  "map_res f [] = Inr []"
| "map_res f (x # xs) = rbind (f x) (\<lambda>y. rbind (map_res f xs) (\<lambda>ys. Inr (y # ys)))"

definition table_plot :: "cell list \<Rightarrow> trace list res" where
  "table_plot upload_status = map_res (scatter upload_status) [-1 .. 2]"

section \<open>The callbacks\<close>

record pg =
  pg_connect :: "unit res"
  pg_statuses :: "string \<Rightarrow> (string \<times> int) list res"
  pg_messages :: "string \<Rightarrow> string option list res"

record dash =
  upload_status :: "cell list"
  current_date :: string
  open_connections :: nat
  printed :: "string list"

definition init_date :: "string \<Rightarrow> nat \<Rightarrow> (dash, exn, string) act" where
  "init_date today n =
     sbind (if n = 0 then modify (\<lambda>w. w\<lparr>current_date := today\<rparr>) else ret ())
       (\<lambda>_. gets current_date)"

definition file_expr :: string where
  "file_expr = ''split_part(file, '' @ [quote] @ ''.'' @ [quote] @ '', 1)''"

definition status_query :: "string \<Rightarrow> string" where
  "status_query date =
     ''SELECT t1.file, t1.status FROM  (SELECT max(date_time_utc) AS time, file  FROM (SELECT date_time_utc, ''
     @ file_expr @ '' AS file from xml_log) AS sub  GROUP BY file) AS t JOIN xml_log AS t1 ''
     @ '' ON t.time = t1.date_time_utc AND t.file = split_part(t1.file, '' @ [quote] @ ''.'' @ [quote] @ '', 1) ''
     @ ''WHERE t.file LIKE '' @ [quote] @ ''Traffic/'' @ date @ ''/%Trafficspeed'' @ [quote] @ '';''"

text \<open>The loop over the rows: \<open>row_time\<close> reads the hour and the minute from the file's name.\<close>

definition row_time :: "string \<Rightarrow> (int \<times> int) res" where
  "row_time file =
     rbind (list_get (split_on (CHR ''/'') file) 2) (\<lambda>part.
     let time = take 4 part in
     rbind (py_int (take 2 time)) (\<lambda>hh. rbind (py_int (drop 2 time)) (\<lambda>mm.
     Inr (hh, mm))))"

definition place_row :: "string \<times> int \<Rightarrow> cell list \<Rightarrow> cell list res" where
  "place_row row cells =
     rbind (row_time (fst row)) (\<lambda>(hh, mm).
     list_set cells (hh * 60 + mm) (hh, mm, snd row))"

fun place_rows :: "(string \<times> int) list \<Rightarrow> (dash, exn, unit) act" where
  "place_rows [] = ret ()"
| "place_rows (row # rows) =
     sbind (gets (\<lambda>w. place_row row (upload_status w))) (\<lambda>r.
     sbind (lift_res r) (\<lambda>cells.
     sbind (modify (\<lambda>w. w\<lparr>upload_status := cells\<rparr>)) (\<lambda>_. place_rows rows)))"

definition connect :: "pg \<Rightarrow> (dash, exn, unit) act" where
  "connect db = sbind (lift_res (pg_connect db)) (\<lambda>_.
     modify (\<lambda>w. w\<lparr>open_connections := Suc (open_connections w)\<rparr>))"

definition close :: "(dash, exn, unit) act" where
  "close = modify (\<lambda>w. w\<lparr>open_connections := open_connections w - 1\<rparr>)"

definition show_date_status :: "pg \<Rightarrow> string \<Rightarrow> (dash, exn, trace list) act" where
  "show_date_status db date =
     sbind (modify (\<lambda>w. w\<lparr>current_date := date, upload_status := initial_status,
                         printed := printed w @ [''Date: '' @ date]\<rparr>)) (\<lambda>_.
     sbind (connect db) (\<lambda>_.
     sbind (lift_res (pg_statuses db (status_query date))) (\<lambda>rows.
     sbind close (\<lambda>_.
     sbind (place_rows rows) (\<lambda>_.
     sbind (gets (\<lambda>w. table_plot (upload_status w))) lift_res)))))"

definition message_query :: "string \<Rightarrow> int \<Rightarrow> int \<Rightarrow> string" where
  "message_query date hh mm =
     ''SELECT (CASE   WHEN array_length(messages, 1) > 0 THEN messages[array_length(messages, 1)]   ELSE ''
     @ [quote, quote] @ '' END) AS message FROM (SELECT max(date_time_utc) AS time, messages, ''
     @ file_expr @ '' AS file FROM xml_log GROUP BY messages, file) AS t WHERE file LIKE ''
     @ [quote] @ ''Traf%ic/'' @ date @ ''/'' @ zero_pad 2 (show_int hh) @ zero_pad 2 (show_int mm)
     @ ''%Trafficspeed'' @ [quote] @ '' ORDER BY time DESC LIMIT 1;''"

text \<open>\<open>click\<close>: the \<open>(x, y)\<close>, minute and hour, of the first clicked point.\<close>

definition show_log :: "pg \<Rightarrow> (int \<times> int) option \<Rightarrow> (dash, exn, string option) act" where
  "show_log db click =
     (case click of
        None \<Rightarrow> ret (Some [])
      | Some (mm, hh) \<Rightarrow>
          sbind (connect db) (\<lambda>_.
          sbind (gets (\<lambda>w. pg_messages db (message_query (current_date w) hh mm))) (\<lambda>r.
          sbind (lift_res r) (\<lambda>rows.
          sbind close (\<lambda>_.
          ret (case rows of [] \<Rightarrow> Some [] | m # _ \<Rightarrow> m))))))"

section \<open>The figure shows every point of the grid once\<close>

lemma upto_statuses: "[-1 .. 2] = [-1, 0, 1, 2 :: int]"
  by code_simp

lemma table_plot_defined: "\<exists>ts. table_plot cells = Inr ts"
  by (simp add: table_plot_def upto_statuses scatter_def colors_def status_def Let_def)

definition points :: "trace \<Rightarrow> (int \<times> int) list" where
  "points t = zip (t_y t) (t_x t)"

lemma scatter_points:
  "scatter cells i = Inr t \<Longrightarrow> points t = map (\<lambda>(h, m, s). (h, m)) (filter (\<lambda>(h, m, s). s = i) cells)"
proof -
  have "zip (map (\<lambda>(h, m, s). h) xs) (map (\<lambda>(h, m, s). m) xs) = map (\<lambda>(h, m, s). (h, m)) xs"
    for xs :: "cell list" by (induction xs) auto
  then show "scatter cells i = Inr t \<Longrightarrow> ?thesis"
    by (auto simp: scatter_def points_def Let_def rbind_eq_Inr)
qed

lemma statuses_partition:
  "mset (filter (\<lambda>(h, m, s). s = -1) xs) + (mset (filter (\<lambda>(h, m, s). s = 0) xs) +
   (mset (filter (\<lambda>(h, m, s). s = 1) xs) + mset (filter (\<lambda>(h, m, s). s = 2) xs))) =
   mset (filter (\<lambda>(h, m, s). -1 \<le> s \<and> s \<le> (2 :: int)) xs)"
proof (induction xs)
  case (Cons x xs)
  obtain h m s where x: "x = (h, m, s)" by (cases x) auto
  have "s = -1 \<or> s = 0 \<or> s = 1 \<or> s = 2 \<or> \<not> (-1 \<le> s \<and> s \<le> 2)" by arith
  with Cons.IH show ?case unfolding x by (elim disjE) auto
qed simp

lemma table_plot_points:
  assumes "table_plot cells = Inr ts"
  shows "mset (concat (map points ts)) =
    mset (map (\<lambda>(h, m, s). (h, m)) (filter (\<lambda>(h, m, s). -1 \<le> s \<and> s \<le> 2) cells))"
proof -
  from assms obtain a b c d where ts: "ts = [a, b, c, d]" and
    sc: "scatter cells (-1) = Inr a" "scatter cells 0 = Inr b" "scatter cells 1 = Inr c" "scatter cells 2 = Inr d"
    by (auto simp: table_plot_def upto_statuses rbind_eq_Inr)
  show ?thesis
    unfolding ts mset_map statuses_partition [symmetric]
    by (simp add: sc [THEN scatter_points])
qed

section \<open>The status of a day\<close>

lemma length_initial_status [simp]: "length initial_status = 1440"
  by (simp add: initial_status_def length_concat comp_def sum_list_triv)

lemma nth_concat_rows:
  "(\<And>i. i < n \<Longrightarrow> length (f i) = k) \<Longrightarrow> i < n \<Longrightarrow> j < k \<Longrightarrow>
   concat (map f [0..<n]) ! (i * k + j) = f i ! j"
proof (induction n)
  case (Suc n)
  have "map (\<lambda>i. length (f i)) [0..<n] = map (\<lambda>_. k) [0..<n]" using Suc.prems(1) by simp
  then have "sum_list (map (\<lambda>i. length (f i)) [0..<n]) = n * k" by (simp only: sum_list_triv) simp
  then have len: "length (concat (map f [0..<n])) = n * k" by (simp add: length_concat comp_def)
  show ?case
  proof (cases "i = n")
    case True
    then show ?thesis using len by (simp add: nth_append)
  next
    case False
    with Suc.prems have i: "i < n" by simp
    have "i * k + j < Suc i * k" using Suc.prems(3) by simp
    also have "\<dots> \<le> n * k" using i by (intro mult_le_mono1) simp
    finally show ?thesis using len Suc.IH [OF _ i Suc.prems(3)] Suc.prems(1) by (simp add: nth_append)
  qed
qed simp

lemma nth_initial_status:
  "h < 24 \<Longrightarrow> m < 60 \<Longrightarrow> initial_status ! (h * 60 + m) = (int h, int m, -1)"
  unfolding initial_status_def by (subst nth_concat_rows) simp_all

lemma cell_index_inj:
  fixes m :: nat
  assumes "m < 60" and "m' < 60"
  shows "h * 60 + m = h' * 60 + m' \<longleftrightarrow> h = h' \<and> m = m'"
proof -
  have "(h * 60 + m) div 60 = h" "(h' * 60 + m') div 60 = h'" using assms by simp_all
  then show ?thesis by (metis add_left_cancel)
qed

text \<open>The status a day's rows give to a minute: that of the last row for it.\<close>

definition minute_status :: "(string \<times> int) list \<Rightarrow> nat \<Rightarrow> nat \<Rightarrow> int" where
  "minute_status rows h m =
     (let xs = filter (\<lambda>(f, s). row_time f = Inr (int h, int m)) rows in
      if xs = [] then -1 else snd (last xs))"

lemma minute_status_snoc:
  "minute_status (rows @ [(f, s)]) h m =
     (if row_time f = Inr (int h, int m) then s else minute_status rows h m)"
  by (simp add: minute_status_def Let_def)

definition day_row :: "string \<times> int \<Rightarrow> bool" where
  "day_row row = (case row_time (fst row) of
     Inr (h, m) \<Rightarrow> 0 \<le> h \<and> h < 24 \<and> 0 \<le> m \<and> m < 60 | Inl _ \<Rightarrow> False)"

lemma day_row_obtains:
  assumes "day_row (f, s)"
  obtains h m where "row_time f = Inr (int h, int m)" "h < 24" "m < 60"
proof -
  from assms obtain h m where "row_time f = Inr (h, m)" "0 \<le> h" "h < 24" "0 \<le> m" "m < 60"
    by (auto simp: day_row_def split: sum.splits)
  then show ?thesis using that [of "nat h" "nat m"] by simp
qed

definition day_grid :: "(string \<times> int) list \<Rightarrow> cell list \<Rightarrow> bool" where
  "day_grid rows cells =
     (length cells = 1440 \<and>
      (\<forall>h < 24. \<forall>m < 60. cells ! (h * 60 + m) = (int h, int m, minute_status rows h m)))"

lemma place_row_grid:
  assumes "day_grid done_rows cells" and "day_row row"
  obtains cells' where "place_row row cells = Inr cells'" and "day_grid (done_rows @ [row]) cells'"
proof -
  obtain f s where row: "row = (f, s)" by (cases row) auto
  obtain h m where t: "row_time f = Inr (int h, int m)" "h < 24" "m < 60"
    using assms(2) unfolding row by (rule day_row_obtains)
  have len: "length cells = 1440" using assms(1) by (simp add: day_grid_def)
  have k: "int h * 60 + int m = int (h * 60 + m)" by simp
  have "h * 60 + m < length cells" using t(2,3) len by simp
  then have "place_row row cells = Inr (cells[h * 60 + m := (int h, int m, s)])"
    by (simp add: place_row_def row t(1) k del: of_nat_add of_nat_mult)
  moreover have "day_grid (done_rows @ [row]) (cells[h * 60 + m := (int h, int m, s)])"
    unfolding day_grid_def row
    using assms(1) t len
    by (auto simp: day_grid_def minute_status_snoc nth_list_update cell_index_inj)
  ultimately show ?thesis by (rule that)
qed

lemma place_rows_grid:
  assumes "day_grid done_rows (upload_status w)" and "\<forall>row \<in> set rows. day_row row"
  shows "\<exists>cells. place_rows rows w = (Inr (), w\<lparr>upload_status := cells\<rparr>) \<and> day_grid (done_rows @ rows) cells"
  using assms
proof (induction rows arbitrary: w done_rows)
  case Nil
  then show ?case by (auto intro!: exI [of _ "upload_status w"])
next
  case (Cons row rows)
  from Cons.prems(2) have r: "day_row row" by simp
  obtain c where c: "place_row row (upload_status w) = Inr c" "day_grid (done_rows @ [row]) c"
    by (rule place_row_grid [OF Cons.prems(1) r])
  have "day_grid (done_rows @ [row]) (upload_status (w\<lparr>upload_status := c\<rparr>))" using c(2) by simp
  from Cons.IH [OF this] Cons.prems(2) c(1) show ?case by (auto simp: sbind_def)
qed

lemma initial_grid: "day_grid [] initial_status"
  by (simp add: day_grid_def nth_initial_status minute_status_def)

text \<open>The name of a traffic file gives its minute.\<close>

lemma digit_char_string: "n < 10 \<Longrightarrow> show_nat n = [digit_char n]"
  by (simp add: show_nat.simps)

lemma two_digits: "h < 100 \<Longrightarrow> zero_pad 2 (show_int (int h)) = [digit_char (h div 10), digit_char (h mod 10)]"
proof -
  have z: "digit_char 0 = CHR ''0''" by code_simp
  show "h < 100 \<Longrightarrow> ?thesis"
    by (cases "h < 10") (simp_all add: zero_pad_def show_int_def show_nat.simps [of h] digit_char_string z)
qed

lemma is_digit_char: "n < 10 \<Longrightarrow> is_digit (digit_char n)"
  using show_nat_digits [of n] by (simp add: digit_char_string)

lemma py_int_two_digits:
  assumes "h < 100"
  shows "py_int [digit_char (h div 10), digit_char (h mod 10)] = Inr (int h)"
proof -
  let ?a = "digit_char (h div 10)" and ?b = "digit_char (h mod 10)"
  have d: "is_digit ?a" "is_digit ?b" using assms by (simp_all add: is_digit_char)
  have v: "digit_val (digit_char n) = n" if "n < 10" for n
    using digits_value_show_nat [of n] is_digit_char [OF that] that
    by (simp add: digit_char_string digits_value_def)
  have "strip [?a, ?b] = [?a, ?b]" by (rule strip_digits) (use d in auto)
  moreover have "?a \<noteq> CHR ''-''" "?a \<noteq> CHR ''+''" using d by (auto simp: is_digit_def)
  ultimately show ?thesis using d v assms by (simp add: py_int_def digits_value_def)
qed

lemma row_time_name:
  assumes "CHR ''/'' \<notin> set bucket" and "CHR ''/'' \<notin> set date" and "h < 100" and "m < 100"
  shows "row_time (bucket @ ''/'' @ date @ ''/'' @ zero_pad 2 (show_int (int h)) @ zero_pad 2 (show_int (int m)) @ name)
    = Inr (int h, int m)"
proof -
  have ns: "digit_char n \<noteq> CHR ''/''" if "n < 10" for n
    using is_digit_char [OF that] by (auto simp: is_digit_def)
  have part: "split_on (CHR ''/'') (bucket @ CHR ''/'' # date @ CHR ''/'' # rest) =
      bucket # date # split_on (CHR ''/'') rest" for rest
    using assms(1,2) by (simp add: split_on_append)
  let ?ds = "[digit_char (h div 10), digit_char (h mod 10), digit_char (m div 10), digit_char (m mod 10)]"
  have "CHR ''/'' \<notin> set ?ds" using assms(3,4) by (simp add: ns [symmetric] eq_commute ns)
  then obtain ps where "split_on (CHR ''/'') (?ds @ name) = (?ds @ hd (split_on (CHR ''/'') name)) # ps"
    by (cases "split_on (CHR ''/'') name") (auto split: list.splits)
  with part [of "?ds @ name"]
  have "list_get (split_on (CHR ''/'') (bucket @ CHR ''/'' # date @ CHR ''/'' # ?ds @ name)) 2 =
      Inr (?ds @ hd (split_on (CHR ''/'') name))"
    by (simp add: list_get_def py_index_def)
  then show ?thesis
    using assms(3,4) by (simp add: row_time_def two_digits py_int_two_digits)
qed

section \<open>Properties of the dashboard\<close>

text \<open>
  The figure can always be built, and its four traces together show each point of the
  grid whose status is known exactly once, and no other point.
\<close>

theorem table_plot_shows_grid:
  "\<exists>ts. table_plot cells = Inr ts \<and>
     mset (concat (map points ts)) =
     mset (map (\<lambda>(h, m, s). (h, m)) (filter (\<lambda>(h, m, s). -1 \<le> s \<and> s \<le> 2) cells))"
  using table_plot_defined [of cells] table_plot_points [of cells] by blast

text \<open>
  C10. Selecting a date, when PostgreSQL answers with files named by their minute: the
  callback returns the figure of a grid in which every minute of the day has the status of
  its last row, or -1, it remembers the date, and it closes its connection.
\<close>

theorem show_date_status_grid:
  assumes "pg_connect db = Inr ()" and "pg_statuses db (status_query date) = Inr rows"
    and "\<forall>row \<in> set rows. day_row row"
  shows "\<exists>ts w'. show_date_status db date w = (Inr ts, w') \<and> day_grid rows (upload_status w') \<and>
    table_plot (upload_status w') = Inr ts \<and> current_date w' = date \<and>
    open_connections w' = open_connections w"
proof -
  let ?w = "w\<lparr>current_date := date, upload_status := initial_status, printed := printed w @ [''Date: '' @ date]\<rparr>"
  have "day_grid [] (upload_status ?w)" by (simp add: initial_grid)
  from place_rows_grid [OF this assms(3)] obtain cells where
    cells: "place_rows rows ?w = (Inr (), ?w\<lparr>upload_status := cells\<rparr>)" "day_grid rows cells" by auto
  obtain ts where ts: "table_plot cells = Inr ts" using table_plot_defined by blast
  have "show_date_status db date w = (Inr ts, ?w\<lparr>upload_status := cells\<rparr>)"
    using cells(1) ts assms(1,2) by (simp add: show_date_status_def connect_def close_def sbind_def)
  with cells(2) ts show ?thesis by simp
qed

definition sample_pg :: pg where
  "sample_pg = \<lparr>pg_connect = Inr (),
     pg_statuses = (\<lambda>_. Inr [(''Traffic/2018-06-20/0703_Trafficspeed.gz'', 2), (''Traffic/2018-06-20/0703_Trafficspeed.gz'', 0)]),
     pg_messages = (\<lambda>_. Inr [])\<rparr>"

lemma show_date_status_grid_witness:
  "\<exists>ts w'. show_date_status sample_pg ''2018-06-20'' \<lparr>upload_status = [], current_date = [], open_connections = 0, printed = []\<rparr>
     = (Inr ts, w') \<and> upload_status w' ! 423 = (7, 3, 0)"
proof -
  have r: "row_time ''Traffic/2018-06-20/0703_Trafficspeed.gz'' = Inr (7, 3)" by code_simp
  let ?rows = "[(''Traffic/2018-06-20/0703_Trafficspeed.gz'', 2), (''Traffic/2018-06-20/0703_Trafficspeed.gz'', 0)]"
  have d: "\<forall>row \<in> set ?rows. day_row row" using r by (simp add: day_row_def)
  have m: "minute_status ?rows 7 3 = 0" using r by (simp add: minute_status_def)
  have a: "pg_connect sample_pg = Inr ()" "pg_statuses sample_pg (status_query ''2018-06-20'') = Inr ?rows"
    by (simp_all add: sample_pg_def)
  from show_date_status_grid [OF a d, of "\<lparr>upload_status = [], current_date = [], open_connections = 0, printed = []\<rparr>"]
  obtain ts w' where w': "show_date_status sample_pg ''2018-06-20''
      \<lparr>upload_status = [], current_date = [], open_connections = 0, printed = []\<rparr> = (Inr ts, w')"
    "day_grid ?rows (upload_status w')" by blast
  from w'(2) have "upload_status w' ! (7 * 60 + 3) = (int 7, int 3, minute_status ?rows 7 3)"
    unfolding day_grid_def by (elim conjE allE [where x = 7] impE allE [where x = 3]) simp_all
  with w'(1) m show ?thesis by auto
qed

text \<open>
  A query that fails leaves the connection open, and leaves the cleared grid under the
  new date.
\<close>

theorem show_date_status_leak:
  assumes "pg_connect db = Inr ()" and "pg_statuses db (status_query date) = Inl e"
  shows "\<exists>w'. show_date_status db date w = (Inl e, w') \<and>
    open_connections w' = Suc (open_connections w) \<and> upload_status w' = initial_status"
  using assms by (simp add: show_date_status_def connect_def sbind_def)

lemma show_date_status_leak_witness:
  "\<exists>w'. show_date_status (sample_pg\<lparr>pg_statuses := (\<lambda>_. Inl DatabaseError)\<rparr>) ''2018-06-20''
      \<lparr>upload_status = [], current_date = [], open_connections = 0, printed = []\<rparr> = (Inl DatabaseError, w') \<and>
    open_connections w' = 1"
  using show_date_status_leak [of "sample_pg\<lparr>pg_statuses := (\<lambda>_. Inl DatabaseError)\<rparr>" "''2018-06-20''" DatabaseError
      "\<lparr>upload_status = [], current_date = [], open_connections = 0, printed = []\<rparr>"]
  by (auto simp: sample_pg_def)

text \<open>
  A name whose minutes are 60 or more is not refused: within the day it overwrites the
  cell of a later minute, with a point outside the grid.
\<close>

theorem place_row_overflow:
  assumes "length cells = 1440" and "row_time f = Inr (int h, int m)" and "60 \<le> m" and "h * 60 + m < 1440"
  shows "\<exists>cells'. place_row (f, s) cells = Inr cells' \<and>
    cells' ! ((h + m div 60) * 60 + m mod 60) = (int h, int m, s)"
proof -
  have k: "int h * 60 + int m = int (h * 60 + m)" by simp
  have e: "(h + m div 60) * 60 + m mod 60 = h * 60 + m" by (simp add: add_mult_distrib)
  show ?thesis
    unfolding e using assms by (simp add: place_row_def k del: of_nat_add of_nat_mult)
qed

lemma place_row_overflow_witness:
  "\<exists>cells'. place_row (''Traffic/2018-06-20/0175_Trafficspeed'', 0) initial_status = Inr cells' \<and>
     cells' ! (2 * 60 + 15) = (1, 75, 0)"
proof -
  have "row_time ''Traffic/2018-06-20/0175_Trafficspeed'' = Inr (int 1, int 75)" by code_simp
  from place_row_overflow [OF length_initial_status this] show ?thesis by simp
qed

end
