(* ===== verification/Pool.thy ===== *)
theory Pool
  imports Py_Prelude
begin

text \<open>
  psycopg2/pool.py: the connection pools.  A connection is a number, the position of its
  \<open>psycopg2.connect\<close> call; \<open>net\<close> holds what the pool reads of it, whether it is closed and
  its transaction status.  The driver, outside the repository's Python code, is the record
  \<open>driver\<close>: which calls of connect succeed, and which rollbacks.
\<close>

datatype tx_status = Idle | Active | InTransaction | InError | Unknown

record conn_state =
  cn_closed :: bool
  cn_status :: tx_status

record driver =
  dr_connect :: "nat \<Rightarrow> bool"
  dr_rollback :: "nat \<Rightarrow> tx_status \<Rightarrow> bool"

text \<open>The keys a caller may give; the pool itself makes numbers.\<close>

datatype pool_key = KInt int | KStr string

fun truthy :: "pool_key \<Rightarrow> bool" where
  "truthy (KInt i) = (i \<noteq> 0)"
| "truthy (KStr s) = (s \<noteq> [])"

record pool =
  minconn :: int
  maxconn :: int
  closed :: bool
  p_pool :: "nat list"
  p_used :: "(pool_key \<times> nat) list"
  p_rused :: "(nat \<times> pool_key) list"
  p_keys :: nat
  net :: "nat \<Rightarrow> conn_state"
  next_id :: nat

section \<open>Operations\<close>

definition driver_connect :: "driver \<Rightarrow> (pool, exn, nat) act" where
  "driver_connect d p =
     (if dr_connect d (next_id p)
      then (Inr (next_id p), p\<lparr>next_id := Suc (next_id p),
              net := (net p)(next_id p := \<lparr>cn_closed = False, cn_status = Idle\<rparr>)\<rparr>)
      else (Inl OperationalError, p\<lparr>next_id := Suc (next_id p)\<rparr>))"

definition conn_close :: "nat \<Rightarrow> (pool, exn, unit) act" where
  "conn_close c = modify (\<lambda>p. p\<lparr>net := (net p)(c := (net p c)\<lparr>cn_closed := True\<rparr>)\<rparr>)"

definition conn_rollback :: "driver \<Rightarrow> nat \<Rightarrow> (pool, exn, unit) act" where
  "conn_rollback d c p =
     (if dr_rollback d c (cn_status (net p c))
      then (Inr (), p\<lparr>net := (net p)(c := (net p c)\<lparr>cn_status := Idle\<rparr>)\<rparr>)
      else (Inl OperationalError, p))"

definition assign :: "pool_key \<Rightarrow> nat \<Rightarrow> pool \<Rightarrow> pool" where
  "assign key c p = p\<lparr>p_used := dict_set (p_used p) key c, p_rused := dict_set (p_rused p) c key\<rparr>"

definition connect :: "driver \<Rightarrow> pool_key option \<Rightarrow> (pool, exn, nat) act" where
  "connect d key =
     sbind (driver_connect d) (\<lambda>c.
     sbind (modify (case key of
              Some k \<Rightarrow> assign k c | None \<Rightarrow> (\<lambda>p. p\<lparr>p_pool := p_pool p @ [c]\<rparr>))) (\<lambda>_.
     ret c))"

definition getkey :: "(pool, exn, pool_key) act" where
  "getkey = sbind (modify (\<lambda>p. p\<lparr>p_keys := Suc (p_keys p)\<rparr>)) (\<lambda>_. gets (\<lambda>p. KInt (int (p_keys p))))"

definition take_conn :: "driver \<Rightarrow> pool_key \<Rightarrow> (pool, exn, nat) act" where
  "take_conn d key p =
     (case map_of (p_used p) key of
        Some c \<Rightarrow> (Inr c, p)
      | None \<Rightarrow>
          if p_pool p \<noteq> [] then
            (Inr (last (p_pool p)), assign key (last (p_pool p)) (p\<lparr>p_pool := butlast (p_pool p)\<rparr>))
          else if int (length (p_used p)) = maxconn p then (Inl PoolError, p)
          else connect d (Some key) p)"

definition getconn :: "driver \<Rightarrow> pool_key option \<Rightarrow> (pool, exn, nat) act" where
  "getconn d key p =
     (if closed p then (Inl PoolError, p)
      else sbind (case key of None \<Rightarrow> getkey | Some k \<Rightarrow> ret k) (take_conn d) p)"

definition give_back :: "driver \<Rightarrow> nat \<Rightarrow> (pool, exn, unit) act" where
  "give_back d c p =
     (if cn_closed (net p c) then (Inr (), p)
      else if cn_status (net p c) = Unknown then conn_close c p
      else sbind (if cn_status (net p c) \<noteq> Idle then conn_rollback d c else ret ())
             (\<lambda>_. modify (\<lambda>p. p\<lparr>p_pool := p_pool p @ [c]\<rparr>)) p)"

definition forget :: "pool_key \<Rightarrow> nat \<Rightarrow> (pool, exn, unit) act" where
  "forget k c p =
     (if \<not> closed p \<or> k \<in> fst ` set (p_used p) then
        if k \<notin> fst ` set (p_used p) then (Inl KeyError, p)
        else let p' = p\<lparr>p_used := dict_del k (p_used p)\<rparr> in
          if c \<notin> fst ` set (p_rused p') then (Inl KeyError, p')
          else (Inr (), p'\<lparr>p_rused := dict_del c (p_rused p')\<rparr>)
      else (Inr (), p))"

definition putconn :: "driver \<Rightarrow> nat \<Rightarrow> pool_key option \<Rightarrow> bool \<Rightarrow> (pool, exn, unit) act" where
  "putconn d c key cls p =
     (if closed p then (Inl PoolError, p)
      else case (case key of None \<Rightarrow> map_of (p_rused p) c | Some k \<Rightarrow> Some k) of
        None \<Rightarrow> (Inl PoolError, p)
      | Some k \<Rightarrow>
          if \<not> truthy k then (Inl PoolError, p)
          else sbind (if int (length (p_pool p)) < minconn p \<and> \<not> cls then give_back d c else conn_close c)
                 (\<lambda>_. forget k c) p)"

fun close_each :: "nat list \<Rightarrow> (pool, exn, unit) act" where
  "close_each [] = ret ()"
| "close_each (c # cs) = sbind (conn_close c) (\<lambda>_. close_each cs)"

definition closeall :: "(pool, exn, unit) act" where
  "closeall p =
     (if closed p then (Inl PoolError, p)
      else sbind (close_each (p_pool p @ map snd (p_used p))) (\<lambda>_. modify (\<lambda>p. p\<lparr>closed := True\<rparr>)) p)"

fun connect_n :: "driver \<Rightarrow> nat \<Rightarrow> (pool, exn, unit) act" where
  "connect_n d 0 = ret ()"
| "connect_n d (Suc n) = sbind (connect d None) (\<lambda>_. connect_n d n)"

text \<open>\<open>__init__\<close>; the connections of the process so far are those below \<open>i\<close>.\<close>

definition new_pool :: "driver \<Rightarrow> int \<Rightarrow> int \<Rightarrow> nat \<Rightarrow> (nat \<Rightarrow> conn_state) \<Rightarrow> (exn + unit) \<times> pool" where
  "new_pool d mn mx i nt =
     connect_n d (nat mn)
       \<lparr>minconn = mn, maxconn = mx, closed = False, p_pool = [], p_used = [], p_rused = [],
        p_keys = 0, net = nt, next_id = i\<rparr>"

section \<open>The invariant\<close>

text \<open>
  \<open>consistent\<close>: \<open>_used\<close> and \<open>_rused\<close> are inverse dictionaries, no connection is both in the
  pool and in use, or twice in one of them, and those waiting in an open pool are open and
  outside a transaction.
\<close>

definition consistent :: "pool \<Rightarrow> bool" where
  "consistent p =
     (distinct (map fst (p_used p)) \<and> distinct (map snd (p_used p)) \<and>
      distinct (map fst (p_rused p)) \<and>
      (\<forall>c k. (c, k) \<in> set (p_rused p) \<longleftrightarrow> (k, c) \<in> set (p_used p)) \<and>
      distinct (p_pool p) \<and> set (p_pool p) \<inter> snd ` set (p_used p) = {} \<and>
      (\<forall>c \<in> set (p_pool p) \<union> snd ` set (p_used p). c < next_id p) \<and>
      (\<not> closed p \<longrightarrow> (\<forall>c \<in> set (p_pool p). net p c = \<lparr>cn_closed = False, cn_status = Idle\<rparr>)))"

definition within_bounds :: "pool \<Rightarrow> bool" where
  "within_bounds p = (int (length (p_pool p) + length (p_used p)) \<le> maxconn p)"

definition fair_bounds :: "pool \<Rightarrow> bool" where
  "fair_bounds p = (minconn p \<le> maxconn p \<and> 0 \<le> maxconn p)"

lemma consistentD:
  assumes "consistent p"
  shows keys_distinct: "distinct (map fst (p_used p))" and conns_distinct: "distinct (map snd (p_used p))"
    and rkeys_distinct: "distinct (map fst (p_rused p))" and linked: "(c, k) \<in> set (p_rused p) \<longleftrightarrow> (k, c) \<in> set (p_used p)"
    and pool_distinct: "distinct (p_pool p)" and apart: "set (p_pool p) \<inter> snd ` set (p_used p) = {}"
    and known: "c \<in> set (p_pool p) \<union> snd ` set (p_used p) \<Longrightarrow> c < next_id p"
    and waiting: "\<not> closed p \<Longrightarrow> c \<in> set (p_pool p) \<Longrightarrow> net p c = \<lparr>cn_closed = False, cn_status = Idle\<rparr>"
  using assms unfolding consistent_def by blast+

lemma distinct_map_snd_unique:
  "distinct (map snd xs) \<Longrightarrow> (a, c) \<in> set xs \<Longrightarrow> (b, c) \<in> set xs \<Longrightarrow> a = b"
  by (induction xs) force+

lemma distinct_map_fst_unique:
  "distinct (map fst xs) \<Longrightarrow> (a, c) \<in> set xs \<Longrightarrow> (a, d) \<in> set xs \<Longrightarrow> c = d"
  by (induction xs) force+

lemma set_dict_del: "set (dict_del k d) = {x \<in> set d. fst x \<noteq> k}"
  by (auto simp: dict_del_def)

lemma consistent_lookup:
  assumes "consistent p"
  shows "map_of (p_rused p) c = Some k \<longleftrightarrow> map_of (p_used p) k = Some c"
proof -
  have "map_of (p_rused p) c = Some k \<longleftrightarrow> (c, k) \<in> set (p_rused p)"
    using assms by (auto simp: consistent_def)
  moreover have "map_of (p_used p) k = Some c \<longleftrightarrow> (k, c) \<in> set (p_used p)"
    using assms by (auto simp: consistent_def)
  ultimately show ?thesis using assms by (simp add: consistent_def)
qed

lemma consistent_assign:
  assumes "consistent p" and "k \<notin> fst ` set (p_used p)" and "c \<notin> set (p_pool p) \<union> snd ` set (p_used p)"
    and "c < next_id p"
  shows "consistent (assign k c p)"
proof -
  have c2: "c \<notin> snd ` set (p_used p)" using assms(3) by simp
  have "(y, c) \<in> set (p_used p)" if "(c, y) \<in> set (p_rused p)" for y
    using assms(1) that by (simp add: consistent_def)
  then have c1: "c \<notin> fst ` set (p_rused p)" using c2 by (auto simp: image_iff) (metis snd_conv)
  note c = c1 c2
  have p: "assign k c p = p\<lparr>p_used := p_used p @ [(k, c)], p_rused := p_rused p @ [(c, k)]\<rparr>"
    using assms(2) c(1) by (simp add: assign_def dict_set_new)
  have k: "k \<notin> set (map fst (p_used p))" and c': "c \<notin> set (map snd (p_used p))" "c \<notin> set (map fst (p_rused p))"
    using assms(2) c by simp_all
  note con = assms(1) [unfolded consistent_def]
  show ?thesis
    unfolding consistent_def p
  proof (intro conjI)
    let ?q = "p\<lparr>p_used := p_used p @ [(k, c)], p_rused := p_rused p @ [(c, k)]\<rparr>"
    show "distinct (map fst (p_used ?q))" "distinct (map snd (p_used ?q))" "distinct (map fst (p_rused ?q))"
      using con k c' by auto
    show "\<forall>x y. (x, y) \<in> set (p_rused ?q) \<longleftrightarrow> (y, x) \<in> set (p_used ?q)" using con by auto
    show "set (p_pool ?q) \<inter> snd ` set (p_used ?q) = {}" using con assms(3) by auto
    show "\<forall>x \<in> set (p_pool ?q) \<union> snd ` set (p_used ?q). x < next_id ?q" using con assms(4) by auto
  qed (use con in simp_all)
qed

lemma consistent_take_last:
  assumes "consistent p" and "p_pool p \<noteq> []"
  shows "consistent (p\<lparr>p_pool := butlast (p_pool p)\<rparr>)" and "last (p_pool p) \<notin> set (butlast (p_pool p))"
    and "last (p_pool p) \<notin> snd ` set (p_used p)" and "last (p_pool p) < next_id p"
proof -
  obtain xs x where p: "p_pool p = xs @ [x]" using assms(2) by (cases "p_pool p" rule: rev_cases) auto
  with assms(1) show "consistent (p\<lparr>p_pool := butlast (p_pool p)\<rparr>)" "last (p_pool p) \<notin> set (butlast (p_pool p))"
    "last (p_pool p) \<notin> snd ` set (p_used p)" "last (p_pool p) < next_id p"
    by (auto simp: consistent_def)
qed

lemma driver_connect_cases:
  obtains (fail) "driver_connect d p = (Inl OperationalError, p\<lparr>next_id := Suc (next_id p)\<rparr>)"
  | (ok) "driver_connect d p = (Inr (next_id p), p\<lparr>next_id := Suc (next_id p),
      net := (net p)(next_id p := \<lparr>cn_closed = False, cn_status = Idle\<rparr>)\<rparr>)"
  by (cases "dr_connect d (next_id p)") (auto simp: driver_connect_def)

lemma consistent_next:
  assumes "consistent p"
  shows "consistent (p\<lparr>next_id := Suc (next_id p)\<rparr>)"
    and "consistent (p\<lparr>next_id := Suc (next_id p),
      net := (net p)(next_id p := \<lparr>cn_closed = False, cn_status = Idle\<rparr>)\<rparr>)"
    and "next_id p \<notin> set (p_pool p) \<union> snd ` set (p_used p)"
proof -
  have l: "\<forall>c \<in> set (p_pool p) \<union> snd ` set (p_used p). c < next_id p" using assms by (simp add: consistent_def)
  show n: "next_id p \<notin> set (p_pool p) \<union> snd ` set (p_used p)" using l by blast
  have s: "\<forall>c \<in> set (p_pool p) \<union> snd ` set (p_used p). c < Suc (next_id p)" using l less_SucI by blast
  show "consistent (p\<lparr>next_id := Suc (next_id p)\<rparr>)" using assms s unfolding consistent_def by simp
  show "consistent (p\<lparr>next_id := Suc (next_id p),
      net := (net p)(next_id p := \<lparr>cn_closed = False, cn_status = Idle\<rparr>)\<rparr>)"
    using assms s unfolding consistent_def by simp
qed

lemma consistent_connect_None:
  assumes "consistent p"
  shows "consistent (snd (connect d None p))"
proof (cases rule: driver_connect_cases [of d p])
  case fail
  with consistent_next(1) [OF assms] show ?thesis by (simp add: connect_def)
next
  case ok
  with consistent_next [OF assms] show ?thesis by (auto simp: connect_def sbind_def consistent_def)
qed

lemma consistent_connect_Some:
  assumes "consistent p" and "k \<notin> fst ` set (p_used p)"
  shows "consistent (snd (connect d (Some k) p))"
proof (cases rule: driver_connect_cases [of d p])
  case fail
  with consistent_next(1) [OF assms(1)] show ?thesis by (simp add: connect_def)
next
  case ok
  with consistent_assign [OF consistent_next(2) [OF assms(1)]] consistent_next(3) [OF assms(1)] assms(2)
  show ?thesis by (auto simp: connect_def sbind_def)
qed

lemma consistent_release:
  assumes "consistent p" and "(k, c) \<in> set (p_used p)"
  shows "consistent (p\<lparr>p_used := dict_del k (p_used p), p_rused := dict_del c (p_rused p)\<rparr>)"
    and "c \<notin> set (p_pool p) \<union> snd ` set (dict_del k (p_used p))" and "c < next_id p"
proof -
  note con = consistentD [OF assms(1)]
  have c: "c \<in> snd ` set (p_used p)" using assms(2) by force
  have once: "y = k" if "(y, c) \<in> set (p_used p)" for y
    by (rule distinct_map_snd_unique [OF con(2) that assms(2)])
  have "c \<notin> set (p_pool p)" using con(6) c by blast
  moreover have "c \<notin> snd ` set (dict_del k (p_used p))" using once by (auto simp: set_dict_del)
  ultimately show "c \<notin> set (p_pool p) \<union> snd ` set (dict_del k (p_used p))" by simp
  show "c < next_id p" using con(7) [of c] c by simp
  have d: "distinct (map snd (dict_del k (p_used p)))"
    using con(2) by (auto simp: dict_del_def intro: distinct_map_filter)
  have l: "(x, y) \<in> set (dict_del c (p_rused p)) \<longleftrightarrow> (y, x) \<in> set (dict_del k (p_used p))" for x y
  proof -
    have "x \<noteq> c \<longleftrightarrow> y \<noteq> k" if "(y, x) \<in> set (p_used p)"
      using that assms(2) once distinct_map_fst_unique [OF con(1), of k] by blast
    with con(4) [of x y] show ?thesis by (auto simp: set_dict_del)
  qed
  let ?q = "p\<lparr>p_used := dict_del k (p_used p), p_rused := dict_del c (p_rused p)\<rparr>"
  have sub: "snd ` set (dict_del k (p_used p)) \<subseteq> snd ` set (p_used p)" by (auto simp: set_dict_del)
  show "consistent ?q"
    unfolding consistent_def
  proof (intro conjI)
    show "distinct (map fst (p_used ?q))" "distinct (map snd (p_used ?q))" "distinct (map fst (p_rused ?q))"
      using con(1,3) d by simp_all
    show "\<forall>x y. (x, y) \<in> set (p_rused ?q) \<longleftrightarrow> (y, x) \<in> set (p_used ?q)" using l by simp
    show "set (p_pool ?q) \<inter> snd ` set (p_used ?q) = {}" using con(6) sub by simp blast
    show "\<forall>x \<in> set (p_pool ?q) \<union> snd ` set (p_used ?q). x < next_id ?q" using con(7) sub by simp blast
  qed (use con(5,8) in simp_all)
qed

lemma consistent_add:
  assumes "consistent p" and "c \<notin> set (p_pool p) \<union> snd ` set (p_used p)" and "c < next_id p"
    and "net p c = \<lparr>cn_closed = False, cn_status = Idle\<rparr>"
  shows "consistent (p\<lparr>p_pool := p_pool p @ [c]\<rparr>)"
  using assms unfolding consistent_def by simp

lemma consistent_net:
  assumes "consistent p" and "\<And>c. c \<in> set (p_pool p) \<Longrightarrow> nt c = net p c"
  shows "consistent (p\<lparr>net := nt\<rparr>)"
  using assms unfolding consistent_def by simp

lemma consistent_keys [simp]: "consistent (p\<lparr>p_keys := n\<rparr>) = consistent p"
  by (simp add: consistent_def)

section \<open>Every operation keeps the invariant\<close>

lemma take_conn_consistent:
  assumes "consistent p"
  shows "consistent (snd (take_conn d k p))"
proof (cases "map_of (p_used p) k")
  case None
  then have k: "k \<notin> fst ` set (p_used p)" by (simp add: map_of_eq_None_iff)
  show ?thesis
  proof (cases "p_pool p = []")
    case True
    with None consistent_connect_Some [OF assms k] assms show ?thesis by (simp add: take_conn_def)
  next
    case False
    note last = consistent_take_last [OF assms False]
    have "consistent (assign k (last (p_pool p)) (p\<lparr>p_pool := butlast (p_pool p)\<rparr>))"
      by (rule consistent_assign [OF last(1)]) (use k last(2-4) in simp_all)
    with None False show ?thesis by (simp add: take_conn_def)
  qed
qed (simp add: take_conn_def assms)

lemma getconn_consistent:
  assumes "consistent p"
  shows "consistent (snd (getconn d key p))"
  using assms take_conn_consistent [of "p\<lparr>p_keys := Suc (p_keys p)\<rparr>"] take_conn_consistent [of p]
  by (cases key) (simp_all add: getconn_def getkey_def sbind_def)

text \<open>
  \<open>put_result\<close>: what a \<open>putconn\<close> of a connection under its own key does when it returns.
\<close>

definition put_result :: "pool \<Rightarrow> pool_key \<Rightarrow> nat \<Rightarrow> bool \<Rightarrow> pool" where
  "put_result p k c keep =
     p\<lparr>net := (if keep then (net p)(c := \<lparr>cn_closed = False, cn_status = Idle\<rparr>)
               else (net p)(c := (net p c)\<lparr>cn_closed := True\<rparr>)),
       p_pool := (if keep then p_pool p @ [c] else p_pool p),
       p_used := dict_del k (p_used p), p_rused := dict_del c (p_rused p)\<rparr>"

lemma put_result_consistent:
  assumes "consistent p" and "(k, c) \<in> set (p_used p)"
  shows "consistent (put_result p k c keep)"
proof -
  note rel = consistent_release [OF assms]
  let ?q = "p\<lparr>p_used := dict_del k (p_used p), p_rused := dict_del c (p_rused p)\<rparr>"
  show ?thesis
  proof (cases keep)
    case True
    let ?nt = "(net p)(c := \<lparr>cn_closed = False, cn_status = Idle\<rparr>)"
    have "consistent (?q\<lparr>net := ?nt\<rparr>)" by (rule consistent_net [OF rel(1)]) (use rel(2) in auto)
    then have "consistent ((?q\<lparr>net := ?nt\<rparr>)\<lparr>p_pool := p_pool (?q\<lparr>net := ?nt\<rparr>) @ [c]\<rparr>)"
      by (rule consistent_add) (use rel(2,3) in auto)
    moreover have "put_result p k c keep = (?q\<lparr>net := ?nt\<rparr>)\<lparr>p_pool := p_pool (?q\<lparr>net := ?nt\<rparr>) @ [c]\<rparr>"
      using True by (cases p) (simp add: put_result_def)
    ultimately show ?thesis by simp
  next
    case False
    let ?nt = "(net p)(c := (net p c)\<lparr>cn_closed := True\<rparr>)"
    have "consistent (?q\<lparr>net := ?nt\<rparr>)" by (rule consistent_net [OF rel(1)]) (use rel(2) in auto)
    moreover have "put_result p k c keep = ?q\<lparr>net := ?nt\<rparr>"
      using False by (cases p) (simp add: put_result_def)
    ultimately show ?thesis by simp
  qed
qed

definition keeps :: "pool \<Rightarrow> nat \<Rightarrow> bool \<Rightarrow> bool" where
  "keeps p c cls = (int (length (p_pool p)) < minconn p \<and> \<not> cls \<and>
     \<not> cn_closed (net p c) \<and> cn_status (net p c) \<noteq> Unknown)"

lemma conn_state_idle: "\<not> cn_closed s \<Longrightarrow> s\<lparr>cn_status := Idle\<rparr> = \<lparr>cn_closed = False, cn_status = Idle\<rparr>"
  by (cases s) simp

lemma conn_state_eta: "cn_closed (net p c) = b \<Longrightarrow> cn_status (net p c) = s \<Longrightarrow>
    (net p)(c := \<lparr>cn_closed = b, cn_status = s\<rparr>) = net p"
  by (rule ext) simp

lemma putconn_linked:
  assumes "consistent p" and "\<not> closed p" and "(k, c) \<in> set (p_used p)" and "truthy k"
    and "key = None \<or> key = Some k"
  shows "putconn d c key cls p =
    (if keeps p c cls \<and> cn_status (net p c) \<noteq> Idle \<and> \<not> dr_rollback d c (cn_status (net p c))
     then (Inl OperationalError, p)
     else if int (length (p_pool p)) < minconn p \<and> \<not> cls \<and> cn_closed (net p c)
     then (Inr (), p\<lparr>p_used := dict_del k (p_used p), p_rused := dict_del c (p_rused p)\<rparr>)
     else (Inr (), put_result p k c (keeps p c cls)))"
proof -
  have r: "(c, k) \<in> set (p_rused p)" using linked [OF assms(1)] assms(3) by simp
  then have "map_of (p_rused p) c = Some k" using rkeys_distinct [OF assms(1)] by simp
  then have "(case key of None \<Rightarrow> map_of (p_rused p) c | Some k \<Rightarrow> Some k) = Some k" using assms(5) by auto
  moreover have "k \<in> fst ` set (p_used p)" "c \<in> fst ` set (p_rused p)" using assms(3) r by force+
  ultimately show ?thesis
    using assms(2,4)
    by (auto simp: putconn_def give_back_def forget_def conn_close_def conn_rollback_def put_result_def
        keeps_def sbind_def Let_def conn_state_eta conn_state_idle)
qed

lemma putconn_consistent:
  assumes "consistent p" and "key = None \<or> (\<exists>k. key = Some k \<and> (k, c) \<in> set (p_used p))"
  shows "consistent (snd (putconn d c key cls p))"
proof (cases "closed p")
  case False
  show ?thesis
  proof (cases "\<exists>k. (k, c) \<in> set (p_used p)")
    case True
    then obtain k where k: "(k, c) \<in> set (p_used p)" by blast
    have r: "map_of (p_rused p) c = Some k"
      using linked [OF assms(1)] rkeys_distinct [OF assms(1)] k by simp
    have key: "key = None \<or> key = Some k"
      using assms(2) distinct_map_snd_unique [OF conns_distinct [OF assms(1)] _ k] by blast
    show ?thesis
    proof (cases "truthy k")
      case True
      with putconn_linked [OF assms(1) False k True key] put_result_consistent [OF assms(1) k]
        consistent_release(1) [OF assms(1) k] assms(1)
      show ?thesis by simp
    next
      case False
      with key r assms(1) show ?thesis by (auto simp: putconn_def)
    qed
  next
    case no: False
    then have "key = None" using assms(2) by blast
    moreover have "map_of (p_rused p) c = None"
      using no linked [OF assms(1)] by (auto simp: map_of_eq_None_iff)
    ultimately show ?thesis using assms(1) by (simp add: putconn_def)
  qed
qed (simp add: putconn_def assms(1))

lemma close_each_run:
  "close_each cs p = (Inr (), p\<lparr>net := (\<lambda>c. if c \<in> set cs then (net p c)\<lparr>cn_closed := True\<rparr> else net p c)\<rparr>)"
proof (induction cs arbitrary: p)
  case (Cons c cs)
  show ?case
    by (simp add: sbind_def conn_close_def Cons.IH) (rule arg_cong [where f = "\<lambda>n. p\<lparr>net := n\<rparr>"], auto simp: fun_eq_iff)
qed simp

lemma closeall_run:
  "\<not> closed p \<Longrightarrow> closeall p = (Inr (), p\<lparr>closed := True,
     net := (\<lambda>c. if c \<in> set (p_pool p) \<union> snd ` set (p_used p) then (net p c)\<lparr>cn_closed := True\<rparr> else net p c)\<rparr>)"
  by (simp add: closeall_def close_each_run sbind_def)

lemma closeall_consistent: "consistent p \<Longrightarrow> consistent (snd (closeall p))"
  by (cases "closed p") (simp_all add: closeall_def close_each_run sbind_def consistent_def)

section \<open>The bound on the number of connections\<close>

definition pool_inv :: "pool \<Rightarrow> bool" where
  "pool_inv p = (consistent p \<and> (fair_bounds p \<longrightarrow> within_bounds p))"

lemma length_dict_del: "distinct (map fst d) \<Longrightarrow> (k, c) \<in> set d \<Longrightarrow> Suc (length (dict_del k d)) = length d"
proof (induction d)
  case (Cons x d)
  show ?case
  proof (cases "fst x = k")
    case True
    with Cons.prems(1) have "dict_del k d = d"
      by (auto simp: dict_del_def filter_id_conv image_iff)
    with True show ?thesis by (simp add: dict_del_def)
  next
    case False
    with Cons show ?thesis by (auto simp: dict_del_def)
  qed
qed simp

lemma connect_bounds:
  assumes "k \<notin> fst ` set (p_used p)"
  shows "minconn (snd (connect d (Some k) p)) = minconn p" and "maxconn (snd (connect d (Some k) p)) = maxconn p"
    and "length (p_pool (snd (connect d (Some k) p))) + length (p_used (snd (connect d (Some k) p))) \<le>
      Suc (length (p_pool p) + length (p_used p))"
  using assms by (cases rule: driver_connect_cases [of d p];
      simp add: connect_def sbind_def assign_def dict_set_new)+

lemma take_conn_inv:
  assumes "pool_inv p"
  shows "pool_inv (snd (take_conn d k p))"
proof -
  have c: "consistent p" using assms by (simp add: pool_inv_def)
  let ?q = "snd (take_conn d k p)"
  have "fair_bounds ?q \<longrightarrow> within_bounds ?q"
  proof (cases "map_of (p_used p) k")
    case None
    then have k: "k \<notin> fst ` set (p_used p)" by (simp add: map_of_eq_None_iff)
    show ?thesis
    proof (cases "p_pool p = []")
      case False
      then have "int (length (p_pool p) - Suc 0) = int (length (p_pool p)) - 1" by (cases "p_pool p") simp_all
      with False assms None k show ?thesis
        by (auto simp: take_conn_def pool_inv_def fair_bounds_def within_bounds_def assign_def dict_set_new)
    next
      case True
      show ?thesis
      proof (cases "int (length (p_used p)) = maxconn p")
        case False
        with assms None True connect_bounds [OF k, of d] show ?thesis
          by (auto simp: take_conn_def pool_inv_def fair_bounds_def within_bounds_def)
      qed (use assms None True in \<open>simp add: take_conn_def pool_inv_def\<close>)
    qed
  qed (use assms in \<open>simp add: take_conn_def pool_inv_def\<close>)
  with take_conn_consistent [OF c] show ?thesis by (simp add: pool_inv_def)
qed

lemma pool_inv_keys [simp]: "pool_inv (p\<lparr>p_keys := n\<rparr>) = pool_inv p"
  by (simp add: pool_inv_def fair_bounds_def within_bounds_def)

lemma getconn_inv: "pool_inv p \<Longrightarrow> pool_inv (snd (getconn d key p))"
  using take_conn_inv [of "p\<lparr>p_keys := Suc (p_keys p)\<rparr>"] take_conn_inv [of p]
  by (cases key) (simp_all add: getconn_def getkey_def sbind_def)

lemma putconn_cases:
  assumes "consistent p" and "key = None \<or> (\<exists>k. key = Some k \<and> (k, c) \<in> set (p_used p))"
  obtains (same) "snd (putconn d c key cls p) = p"
  | (drop) k where "(k, c) \<in> set (p_used p)"
      "snd (putconn d c key cls p) = p\<lparr>p_used := dict_del k (p_used p), p_rused := dict_del c (p_rused p)\<rparr>"
  | (put) k keep where "(k, c) \<in> set (p_used p)" "snd (putconn d c key cls p) = put_result p k c keep"
proof (cases "closed p")
  case True
  then show ?thesis using same by (simp add: putconn_def)
next
  case False
  show ?thesis
  proof (cases "\<exists>k. (k, c) \<in> set (p_used p)")
    case True
    then obtain k where k: "(k, c) \<in> set (p_used p)" by blast
    have key: "key = None \<or> key = Some k"
      using assms(2) distinct_map_snd_unique [OF conns_distinct [OF assms(1)] _ k] by blast
    show ?thesis
    proof (cases "truthy k")
      case True
      with putconn_linked [OF assms(1) False k True key, of d cls] same drop [OF k] put [OF k] show ?thesis
        by (auto split: if_splits)
    next
      case False
      have r: "map_of (p_rused p) c = Some k"
        using linked [OF assms(1)] rkeys_distinct [OF assms(1)] k by simp
      with key False same show ?thesis by (auto simp: putconn_def)
    qed
  next
    case no: False
    then have "key = None" using assms(2) by blast
    moreover have "map_of (p_rused p) c = None"
      using no linked [OF assms(1)] by (auto simp: map_of_eq_None_iff)
    ultimately show ?thesis using same by (simp add: putconn_def)
  qed
qed

lemma putconn_inv:
  assumes "pool_inv p" and "key = None \<or> (\<exists>k. key = Some k \<and> (k, c) \<in> set (p_used p))"
  shows "pool_inv (snd (putconn d c key cls p))"
proof -
  have con: "consistent p" using assms(1) by (simp add: pool_inv_def)
  note len = length_dict_del [OF keys_distinct [OF con]]
  show ?thesis
  proof (rule putconn_cases [OF con assms(2), of d cls])
    fix k
    assume k: "(k, c) \<in> set (p_used p)" and q: "snd (putconn d c key cls p) =
      p\<lparr>p_used := dict_del k (p_used p), p_rused := dict_del c (p_rused p)\<rparr>"
    from len [OF k] consistent_release(1) [OF con k] assms(1) show ?thesis
      unfolding q by (auto simp: pool_inv_def fair_bounds_def within_bounds_def)
  next
    fix k keep
    assume k: "(k, c) \<in> set (p_used p)" and q: "snd (putconn d c key cls p) = put_result p k c keep"
    from len [OF k] put_result_consistent [OF con k, of keep] assms(1) show ?thesis
      unfolding q by (auto simp: pool_inv_def fair_bounds_def within_bounds_def put_result_def)
  qed (simp add: assms(1))
qed

lemma closeall_inv: "pool_inv p \<Longrightarrow> pool_inv (snd (closeall p))"
  using closeall_consistent [of p]
  by (cases "closed p") (simp_all add: pool_inv_def closeall_def close_each_run sbind_def fair_bounds_def within_bounds_def)

lemma connect_n_inv:
  "consistent p \<Longrightarrow> consistent (snd (connect_n d n p)) \<and> minconn (snd (connect_n d n p)) = minconn p \<and>
   maxconn (snd (connect_n d n p)) = maxconn p \<and> p_used (snd (connect_n d n p)) = p_used p \<and>
   length (p_pool (snd (connect_n d n p))) \<le> length (p_pool p) + n"
proof (induction n arbitrary: p)
  case (Suc n)
  obtain r q where q: "connect d None p = (r, q)" by fastforce
  have c: "consistent q" using consistent_connect_None [OF Suc.prems, of d] q by simp
  have same: "minconn q = minconn p" "maxconn q = maxconn p" "p_used q = p_used p"
    "length (p_pool q) \<le> Suc (length (p_pool p))"
    using q by (cases rule: driver_connect_cases [of d p]; force simp: connect_def sbind_def)+
  show ?case
  proof (cases r)
    case (Inl e)
    with q c same show ?thesis by (simp add: sbind_def)
  next
    case (Inr x)
    with q c same Suc.IH [OF c] show ?thesis by (simp add: sbind_def)
  qed
qed simp

lemma new_pool_inv: "pool_inv (snd (new_pool d mn mx i nt))"
proof -
  let ?p = "\<lparr>minconn = mn, maxconn = mx, closed = False, p_pool = [], p_used = [], p_rused = [],
        p_keys = 0, net = nt, next_id = i\<rparr>"
  have "consistent ?p" by (simp add: consistent_def)
  from connect_n_inv [OF this, of d "nat mn"] show ?thesis
    by (auto simp: new_pool_def pool_inv_def fair_bounds_def within_bounds_def)
qed

end
