(* ===== verification/Pool_Threads.thy ===== *)
theory Pool_Threads
  imports Pool
begin

text \<open>
  The thread-safe pools of pool.py: ThreadedConnectionPool and PersistentConnectionPool, whose
  methods hold a lock around the methods of the base class.  An object guarded by a lock is
  a step relation over all threads (\<open>locked_step\<close>); what its lock gives is proved once in
  the locale \<open>guarded\<close> and interpreted on both pools.
\<close>

section \<open>An object guarded by a lock\<close>

datatype ('op, 'r) thread_state = Away | Wanting 'op | Inside 'op | Leaving 'r

record ('s, 'op, 'r) threads =
  shared :: 's
  lock :: "nat option"
  thr :: "nat \<Rightarrow> ('op, 'r) thread_state"

definition set_thr :: "nat \<Rightarrow> ('op, 'r) thread_state \<Rightarrow> ('s, 'op, 'r) threads \<Rightarrow> ('s, 'op, 'r) threads" where
  "set_thr t x w = w\<lparr>thr := (thr w)(t := x)\<rparr>"

text \<open>
  A call, \<open>acquire\<close>, the body, which runs whether it returns or raises up to the \<open>finally\<close>,
  \<open>release\<close>; and what the owners of connections do with them meanwhile.
\<close>

inductive locked_step ::
  "(nat \<Rightarrow> 'op \<Rightarrow> 's \<Rightarrow> 'r \<times> 's) \<Rightarrow> (nat \<Rightarrow> 'op \<Rightarrow> 's \<Rightarrow> bool) \<Rightarrow> ('s \<Rightarrow> 's \<Rightarrow> bool) \<Rightarrow>
   ('s, 'op, 'r) threads \<Rightarrow> ('s, 'op, 'r) threads \<Rightarrow> bool"
  for run allowed env where
  call: "thr w t = Away \<Longrightarrow> locked_step run allowed env w (set_thr t (Wanting op) w)"
| acquire: "thr w t = Wanting op \<Longrightarrow> lock w = None \<Longrightarrow>
    locked_step run allowed env w (set_thr t (Inside op) (w\<lparr>lock := Some t\<rparr>))"
| body: "thr w t = Inside op \<Longrightarrow> allowed t op (shared w) \<Longrightarrow> run t op (shared w) = (r, s) \<Longrightarrow>
    locked_step run allowed env w (set_thr t (Leaving r) (w\<lparr>shared := s\<rparr>))"
| release: "thr w t = Leaving r \<Longrightarrow>
    locked_step run allowed env w (set_thr t Away (w\<lparr>lock := None\<rparr>))"
| environment: "env (shared w) s \<Longrightarrow> locked_step run allowed env w (w\<lparr>shared := s\<rparr>)"

definition start :: "'s \<Rightarrow> ('s, 'op, 'r) threads" where
  "start s = \<lparr>shared = s, lock = None, thr = (\<lambda>_. Away)\<rparr>"

definition holds :: "('op, 'r) thread_state \<Rightarrow> bool" where
  "holds x = (case x of Inside _ \<Rightarrow> True | Leaving _ \<Rightarrow> True | _ \<Rightarrow> False)"

lemma holds_simps [simp]: "\<not> holds Away" "\<not> holds (Wanting a)" "holds (Inside a)" "holds (Leaving r)"
  by (simp_all add: holds_def)

definition exclusive :: "('s, 'op, 'r) threads \<Rightarrow> bool" where
  "exclusive w = (\<forall>t. holds (thr w t) \<longleftrightarrow> lock w = Some t)"

lemma holds_set_thr [simp]: "holds (thr (set_thr t x w) u) = (if u = t then holds x else holds (thr w u))"
  by (simp add: set_thr_def)

lemma set_thr_rest [simp]: "lock (set_thr t x w) = lock w" "shared (set_thr t x w) = shared w"
  by (simp_all add: set_thr_def)

lemma exclusiveD: "exclusive w \<Longrightarrow> holds (thr w t) \<longleftrightarrow> lock w = Some t"
  by (simp add: exclusive_def)

lemma exclusive_step: "locked_step run allowed env w w' \<Longrightarrow> exclusive w \<Longrightarrow> exclusive w'"
proof (induction rule: locked_step.induct)
  case (call w t op)
  with exclusiveD [OF call(2)] exclusiveD [OF call(2), of t] show ?case by (auto simp: exclusive_def)
next
  case (acquire w t op)
  with exclusiveD [OF acquire(3)] show ?case by (auto simp: exclusive_def)
next
  case (body w t op r s)
  with exclusiveD [OF body(4)] exclusiveD [OF body(4), of t] show ?case by (auto simp: exclusive_def)
next
  case (release w t r)
  with exclusiveD [OF release(2)] exclusiveD [OF release(2), of t] show ?case by (auto simp: exclusive_def)
next
  case (environment w s)
  then show ?case by (simp add: exclusive_def)
qed

locale guarded =
  fixes run :: "nat \<Rightarrow> 'op \<Rightarrow> 's \<Rightarrow> 'r \<times> 's"
    and allowed :: "nat \<Rightarrow> 'op \<Rightarrow> 's \<Rightarrow> bool"
    and env :: "'s \<Rightarrow> 's \<Rightarrow> bool"
    and inv :: "'s \<Rightarrow> bool"
  assumes run_inv: "inv s \<Longrightarrow> allowed t op s \<Longrightarrow> run t op s = (r, s') \<Longrightarrow> inv s'"
    and env_inv: "inv s \<Longrightarrow> env s s' \<Longrightarrow> inv s'"
begin

lemma step_inv: "locked_step run allowed env w w' \<Longrightarrow> inv (shared w) \<Longrightarrow> inv (shared w')"
  by (induction rule: locked_step.induct) (auto simp: set_thr_def intro: run_inv env_inv)

lemma reachable_inv:
  "(locked_step run allowed env)\<^sup>*\<^sup>* (start s) w \<Longrightarrow> inv s \<Longrightarrow> inv (shared w) \<and> exclusive w"
proof (induction rule: rtranclp_induct)
  case base
  then show ?case by (simp add: start_def exclusive_def)
next
  case (step w w')
  then show ?case using step_inv exclusive_step by blast
qed

lemma at_most_one:
  assumes "(locked_step run allowed env)\<^sup>*\<^sup>* (start s) w" and "inv s"
    and "holds (thr w t)" and "holds (thr w t')"
  shows "t = t'"
  using reachable_inv [OF assms(1,2)] assms(3,4) by (auto simp: exclusive_def)

text \<open>A thread that holds the lock can always go on, whatever the others do.\<close>

lemma holder_can_step:
  assumes "holds (thr w t)" and "\<And>op. thr w t = Inside op \<Longrightarrow> allowed t op (shared w)"
  shows "\<exists>w'. locked_step run allowed env w w' \<and> thr w' t \<noteq> thr w t"
proof (cases "thr w t")
  case (Inside op)
  obtain r s where "run t op (shared w) = (r, s)" by fastforce
  with assms(2) [OF Inside] Inside
  have "locked_step run allowed env w (set_thr t (Leaving r) (w\<lparr>shared := s\<rparr>))" by (intro body)
  with Inside show ?thesis by (auto simp: set_thr_def)
next
  case (Leaving r)
  then have "locked_step run allowed env w (set_thr t Away (w\<lparr>lock := None\<rparr>))" by (rule release)
  with Leaving show ?thesis by (auto simp: set_thr_def)
qed (use assms(1) in simp_all)

end

section \<open>The two pools\<close>

text \<open>
  \<open>putconn(conn=None)\<close>: \<open>id(None)\<close> is no key of \<open>_rused\<close>, and with a key the code reads an
  attribute of \<open>None\<close>.
\<close>

definition put_none :: "pool_key option \<Rightarrow> (pool, exn, unit) act" where
  "put_none key p =
     (if closed p then (Inl PoolError, p)
      else case key of None \<Rightarrow> (Inl PoolError, p)
      | Some k \<Rightarrow> (Inl (if truthy k then AttributeError else PoolError), p))"

datatype pool_op = Get "pool_key option" | Put "nat option" "pool_key option" bool | CloseAll

definition no_conn :: "(pool, exn, unit) act \<Rightarrow> (pool, exn, nat option) act" where
  "no_conn m = sbind m (\<lambda>_. ret None)"

fun threaded_run :: "driver \<Rightarrow> nat \<Rightarrow> pool_op \<Rightarrow> pool \<Rightarrow> (exn + nat option) \<times> pool" where
  "threaded_run d t (Get key) = sbind (getconn d key) (\<lambda>c. ret (Some c))"
| "threaded_run d t (Put (Some c) key cls) = no_conn (putconn d c key cls)"
| "threaded_run d t (Put None key cls) = no_conn (put_none key)"
| "threaded_run d t CloseAll = no_conn closeall"

datatype persistent_op = PGet | PPut "nat option" bool | PCloseAll

definition ident_key :: "nat \<Rightarrow> pool_key" where
  "ident_key t = KInt (int t)"

fun persistent_run :: "driver \<Rightarrow> nat \<Rightarrow> persistent_op \<Rightarrow> pool \<Rightarrow> (exn + nat option) \<times> pool" where
  "persistent_run d t PGet = sbind (getconn d (Some (ident_key t))) (\<lambda>c. ret (Some c))"
| "persistent_run d t (PPut conn cls) =
     sbind (case conn of
         Some c \<Rightarrow> ret c
       | None \<Rightarrow> sbind (gets (\<lambda>p. map_of (p_used p) (ident_key t))) (\<lambda>c. lift_res (of_option KeyError c)))
       (\<lambda>c. no_conn (putconn d c (Some (ident_key t)) cls))"
| "persistent_run d t PCloseAll = no_conn closeall"

text \<open>What the callers promise: a connection is put back under its own key, or under none.\<close>

fun threaded_allowed :: "nat \<Rightarrow> pool_op \<Rightarrow> pool \<Rightarrow> bool" where
  "threaded_allowed t (Put (Some c) (Some k) cls) p = ((k, c) \<in> set (p_used p))"
| "threaded_allowed t op p = True"

fun persistent_allowed :: "nat \<Rightarrow> persistent_op \<Rightarrow> pool \<Rightarrow> bool" where
  "persistent_allowed t (PPut (Some c) cls) p = ((ident_key t, c) \<in> set (p_used p))"
| "persistent_allowed t op p = True"

text \<open>Owners close or use connections they hold; those waiting in the pool stay as they are.\<close>

definition owners :: "pool \<Rightarrow> pool \<Rightarrow> bool" where
  "owners p p' = (\<exists>nt. p' = p\<lparr>net := nt\<rparr> \<and> (\<forall>c \<in> set (p_pool p). nt c = net p c))"

lemma owners_inv: "pool_inv p \<Longrightarrow> owners p p' \<Longrightarrow> pool_inv p'"
  by (auto simp: owners_def pool_inv_def fair_bounds_def within_bounds_def intro: consistent_net)

lemma snd_no_conn [simp]: "snd (no_conn m p) = snd (m p)"
  by (auto simp: no_conn_def sbind_def split: prod.splits sum.splits)

lemma snd_result [simp]: "snd (sbind m (\<lambda>c. ret (f c)) p) = snd (m p)"
  by (auto simp: sbind_def split: prod.splits sum.splits)

lemma threaded_run_inv: "pool_inv p \<Longrightarrow> threaded_allowed t op p \<Longrightarrow> pool_inv (snd (threaded_run d t op p))"
proof (cases op)
  case (Put conn key cls)
  assume a: "pool_inv p" "threaded_allowed t op p"
  show ?thesis
  proof (cases conn)
    case (Some c)
    from a(2) Put Some have "key = None \<or> (\<exists>k. key = Some k \<and> (k, c) \<in> set (p_used p))"
      by (cases key) simp_all
    with Put Some a(1) show ?thesis by (simp add: putconn_inv)
  qed (use Put a in \<open>simp add: put_none_def split: option.split\<close>)
qed (simp_all add: getconn_inv closeall_inv)

lemma persistent_run_inv:
  "pool_inv p \<Longrightarrow> persistent_allowed t op p \<Longrightarrow> pool_inv (snd (persistent_run d t op p))"
proof (cases op)
  case (PPut conn cls)
  assume a: "pool_inv p" "persistent_allowed t op p"
  show ?thesis
  proof (cases conn)
    case (Some c)
    with a PPut show ?thesis by (simp add: putconn_inv)
  next
    case None
    show ?thesis
    proof (cases "map_of (p_used p) (ident_key t)")
      case (Some c)
      with a(1) PPut None show ?thesis by (simp add: sbind_def putconn_inv map_of_SomeD)
    qed (use a PPut None in \<open>simp add: sbind_def\<close>)
  qed
qed (simp_all add: getconn_inv closeall_inv)

interpretation threaded: guarded "threaded_run d" threaded_allowed owners pool_inv
  by unfold_locales (metis threaded_run_inv snd_conv, rule owners_inv)

interpretation persistent: guarded "persistent_run d" persistent_allowed owners pool_inv
  by unfold_locales (metis persistent_run_inv snd_conv, rule owners_inv)

section \<open>Properties of the pools\<close>

definition sample_driver :: driver where
  "sample_driver = \<lparr>dr_connect = (\<lambda>_. True), dr_rollback = (\<lambda>_ _. True)\<rparr>"

definition sample_pool :: pool where
  "sample_pool = snd (new_pool sample_driver 1 2 0 (\<lambda>_. \<lparr>cn_closed = True, cn_status = Unknown\<rparr>))"



text \<open>
  The same for a PersistentConnectionPool, whose key is the calling thread, when each
  thread puts back its own connection.
\<close>

theorem persistent_pool_safe:
  assumes "(locked_step (persistent_run d) persistent_allowed owners)\<^sup>*\<^sup>* (start (snd (new_pool d mn mx i nt))) w"
  shows "consistent (shared w) \<and> (fair_bounds (shared w) \<longrightarrow> within_bounds (shared w)) \<and>
    (\<forall>t t'. holds (thr w t) \<and> holds (thr w t') \<longrightarrow> t = t')"
  using persistent.reachable_inv [OF assms new_pool_inv] persistent.at_most_one [OF assms new_pool_inv]
  by (simp add: pool_inv_def)

lemma persistent_pool_safe_witness:
  "consistent (shared (set_thr 1 (Wanting PGet) (start sample_pool)))"
proof -
  let ?w0 = "start sample_pool :: (pool, persistent_op, exn + nat option) threads"
  let ?w1 = "set_thr 1 (Wanting PGet) ?w0"
  let ?R = "locked_step (persistent_run sample_driver) persistent_allowed owners"
  have "?R ?w0 ?w1" by (rule locked_step.call) (simp add: start_def)
  then have "?R\<^sup>*\<^sup>* ?w0 ?w1" by simp
  from persistent_pool_safe [OF this [unfolded sample_pool_def]] show ?thesis
    by (simp add: start_def set_thr_def sample_pool_def)
qed

text \<open>Keys made by the pool: numbers up to \<open>_keys\<close>, while no caller gives a number of its own.\<close>

definition numbered :: "pool \<Rightarrow> bool" where
  "numbered p = (\<forall>k \<in> fst ` set (p_used p). case k of KInt i \<Rightarrow> i \<le> int (p_keys p) | KStr _ \<Rightarrow> True)"

text \<open>
  \<open>getconn()\<close> without a key, while callers gave no number as a key: the connection it
  returns was not in use, is open and outside a transaction, is now in use under a key that
  was free, and nobody else's connection changed.
\<close>

theorem getconn_exclusive:
  assumes "consistent p" and "numbered p" and "getconn d None p = (Inr c, p')"
  shows "c \<notin> snd ` set (p_used p) \<and> net p' c = \<lparr>cn_closed = False, cn_status = Idle\<rparr> \<and>
    numbered p' \<and> p_used p' = p_used p @ [(KInt (int (p_keys p) + 1), c)] \<and> (\<forall>c' \<noteq> c. net p' c' = net p c')"
proof -
  let ?k = "KInt (int (p_keys p) + 1)" and ?q = "p\<lparr>p_keys := Suc (p_keys p)\<rparr>"
  have k: "?k \<notin> fst ` set (p_used p)" using assms(2) by (fastforce simp: numbered_def)
  then have m: "map_of (p_used p) ?k = None" by (simp add: map_of_eq_None_iff)
  have open_pool: "\<not> closed p" using assms(3) by (auto simp: getconn_def)
  have run: "take_conn d ?k ?q = (Inr c, p')"
    using assms(3) open_pool by (simp add: getconn_def getkey_def sbind_def add.commute)
  have num: "numbered p'" if "p_used p' = p_used p @ [(?k, c)]" "p_keys p' = Suc (p_keys p)"
    using assms(2) that by (fastforce simp: numbered_def split: pool_key.splits)
  show ?thesis
  proof (cases "p_pool p = []")
    case False
    note last = consistent_take_last [OF assms(1) False]
    have p': "c = last (p_pool p)" "p' = assign ?k c (?q\<lparr>p_pool := butlast (p_pool p)\<rparr>)"
      using run m False by (auto simp: take_conn_def)
    have "net p c = \<lparr>cn_closed = False, cn_status = Idle\<rparr>"
      using waiting [OF assms(1) open_pool] False p'(1) by simp
    then show ?thesis using p' last(3) num k by (simp add: assign_def dict_set_new)
  next
    case True
    from run m True have "connect d (Some ?k) ?q = (Inr c, p')" by (simp add: take_conn_def split: if_splits)
    then have p': "c = next_id p" "p' = assign ?k c (?q\<lparr>next_id := Suc (next_id p),
        net := (net p)(next_id p := \<lparr>cn_closed = False, cn_status = Idle\<rparr>)\<rparr>)"
      by (auto simp: connect_def driver_connect_def sbind_def split: if_splits)
    with consistent_next(3) [OF assms(1)] num k show ?thesis by (simp add: assign_def dict_set_new)
  qed
qed

lemma sample_pool_eq: "sample_pool = \<lparr>minconn = 1, maxconn = 2, closed = False, p_pool = [0], p_used = [],
    p_rused = [], p_keys = 0,
    net = (\<lambda>_. \<lparr>cn_closed = True, cn_status = Unknown\<rparr>)(0 := \<lparr>cn_closed = False, cn_status = Idle\<rparr>), next_id = 1\<rparr>"
  by (simp add: sample_pool_def new_pool_def connect_def driver_connect_def sample_driver_def sbind_def)

lemma getconn_exclusive_witness:
  "\<exists>p'. getconn sample_driver None sample_pool = (Inr 0, p') \<and> p_used p' = [(KInt 1, 0)]"
proof -
  obtain p' where p': "getconn sample_driver None sample_pool = (Inr 0, p')"
    by (simp add: sample_pool_eq getconn_def getkey_def take_conn_def sbind_def)
  have "consistent sample_pool" "numbered sample_pool"
    by (simp_all add: sample_pool_eq consistent_def numbered_def)
  from getconn_exclusive [OF this p'] p' show ?thesis by (simp add: sample_pool_eq)
qed

text \<open>
  C29. A number given as a key collides with the pool's own keys: if a caller already took
  a connection under the number the pool makes next, \<open>getconn()\<close> without a key returns that
  same connection, which is in use.
\<close>

theorem getconn_key_collision:
  assumes "consistent p" and "\<not> closed p" and "(KInt (int (p_keys p) + 1), c) \<in> set (p_used p)"
  shows "getconn d None p = (Inr c, p\<lparr>p_keys := Suc (p_keys p)\<rparr>)"
proof -
  have "map_of (p_used p) (KInt (int (p_keys p) + 1)) = Some c"
    using keys_distinct [OF assms(1)] assms(3) by simp
  with assms(2) show ?thesis
    by (simp add: getconn_def getkey_def take_conn_def sbind_def add.commute)
qed

lemma getconn_key_collision_witness:
  "\<exists>p. getconn sample_driver (Some (KInt 1)) sample_pool = (Inr 0, p) \<and> fst (getconn sample_driver None p) = Inr 0"
proof -
  let ?p = "assign (KInt 1) 0 (sample_pool\<lparr>p_pool := []\<rparr>)"
  have g: "getconn sample_driver (Some (KInt 1)) sample_pool = (Inr 0, ?p)"
    by (simp add: sample_pool_eq getconn_def take_conn_def sbind_def)
  have "consistent ?p" "\<not> closed ?p" "(KInt (int (p_keys ?p) + 1), 0) \<in> set (p_used ?p)"
    by (auto simp: sample_pool_eq consistent_def assign_def)
  from getconn_key_collision [OF this] g show ?thesis by simp
qed

text \<open>
  C30. Nothing checks that a connection is put back under its own key: a thread that puts back
  a connection of another key gives it to the pool while the other still uses it.
\<close>

theorem putconn_other_key_shares:
  assumes "consistent p" and "\<not> closed p" and "(k, c) \<in> set (p_used p)" and "(k', c') \<in> set (p_used p)"
    and "k \<noteq> k'" and "truthy k" and "int (length (p_pool p)) < minconn p"
    and "net p c' = \<lparr>cn_closed = False, cn_status = Idle\<rparr>"
  shows "\<exists>p'. putconn d c' (Some k) False p = (Inr (), p') \<and> c' \<in> set (p_pool p') \<and> (k', c') \<in> set (p_used p')"
proof -
  have "k \<in> fst ` set (p_used p)" using assms(3) by force
  moreover have "c' \<in> fst ` set (p_rused p)" using linked [OF assms(1)] assms(4) by force
  ultimately show ?thesis
    using assms(2,4-8) by (auto simp: putconn_def give_back_def forget_def sbind_def Let_def set_dict_del)
qed

definition two_users :: pool where
  "two_users = \<lparr>minconn = 1, maxconn = 2, closed = False, p_pool = [], p_used = [(KInt 1, 0), (KInt 2, 1)],
    p_rused = [(0, KInt 1), (1, KInt 2)], p_keys = 2,
    net = (\<lambda>_. \<lparr>cn_closed = False, cn_status = Idle\<rparr>), next_id = 2\<rparr>"

lemma putconn_other_key_shares_witness:
  "\<exists>p'. putconn sample_driver 1 (Some (KInt 1)) False two_users = (Inr (), p') \<and>
     1 \<in> set (p_pool p') \<and> (KInt 2, 1) \<in> set (p_used p')"
proof -
  have "consistent two_users" "\<not> closed two_users" by (auto simp: two_users_def consistent_def)
  from putconn_other_key_shares [OF this, of "KInt 1" 0 "KInt 2" 1 sample_driver] show ?thesis
    by (simp add: two_users_def)
qed

text \<open>
  After \<open>closeall\<close> every connection of the pool, waiting or in use, is closed, and every
  further call raises a \<open>PoolError\<close> and changes nothing.
\<close>

theorem closeall_closes:
  assumes "\<not> closed p" and "closeall p = (r, p')"
  shows "r = Inr () \<and> (\<forall>c \<in> set (p_pool p) \<union> snd ` set (p_used p). cn_closed (net p' c)) \<and>
    getconn d key p' = (Inl PoolError, p') \<and> putconn d c key' cls p' = (Inl PoolError, p') \<and>
    closeall p' = (Inl PoolError, p')"
proof -
  have p': "r = Inr ()" "p' = p\<lparr>closed := True, net := (\<lambda>c. if c \<in> set (p_pool p) \<union> snd ` set (p_used p)
      then (net p c)\<lparr>cn_closed := True\<rparr> else net p c)\<rparr>"
    using closeall_run [OF assms(1)] assms(2) by auto
  then have "\<forall>c \<in> set (p_pool p) \<union> snd ` set (p_used p). cn_closed (net p' c)" and "closed p'" by simp_all
  with p'(1) show ?thesis by (simp add: getconn_def putconn_def closeall_def)
qed

lemma closeall_closes_witness:
  "\<exists>p'. closeall two_users = (Inr (), p') \<and> cn_closed (net p' 1)"
proof -
  obtain r p' where p': "closeall two_users = (r, p')" by fastforce
  have "\<not> closed two_users" by (simp add: two_users_def)
  from closeall_closes [OF this p', of sample_driver None 0 None False] p' show ?thesis
    by (auto simp: two_users_def)
qed

end
