(* ===== verification/Pg_Range.thy ===== *)
theory Pg_Range
  imports Py_Strings "HOL-Library.Option_ord" "HOL-Library.List_Lexorder" "HOL-Library.Char_ord"
    "HOL-Library.Product_Lexorder"
begin

text \<open>
  psycopg2/_range.py: the class \<open>Range\<close> and its order, the two adapters that write a range as
  SQL, the caster that reads PostgreSQL's text of a range, and the lookup of a range type in
  the catalog.  How a bound is written and read (\<open>adapt\<close>, \<open>cur.cast\<close>) is C code outside the
  repository: a parameter here, with its laws in the locale \<open>range_subtype\<close>.
\<close>

section \<open>Range\<close>

text \<open>\<open>_bounds\<close> is \<open>None\<close> for the empty range.\<close>

datatype 'a range = Range (r_lower: "'a option") (r_upper: "'a option") (r_bounds: "string option")

definition valid_bounds :: "string list" where
  "valid_bounds = [''[)'', ''(]'', ''()'', ''[]'']"

definition range_new :: "'a option \<Rightarrow> 'a option \<Rightarrow> string \<Rightarrow> bool \<Rightarrow> 'a range res" where
  "range_new lo up bs emp =
     (if \<not> emp then if bs \<notin> set valid_bounds then Inl ValueError else Inr (Range lo up (Some bs))
      else Inr (Range None None None))"

definition isempty :: "'a range \<Rightarrow> bool" where
  "isempty r = (r_bounds r = None)"

definition lower_inf :: "'a range \<Rightarrow> bool" where
  "lower_inf r = (r_bounds r \<noteq> None \<and> r_lower r = None)"

definition upper_inf :: "'a range \<Rightarrow> bool" where
  "upper_inf r = (r_bounds r \<noteq> None \<and> r_upper r = None)"

definition lower_inc :: "'a range \<Rightarrow> bool" where
  "lower_inc r = (case r_bounds r of None \<Rightarrow> False
     | Some bs \<Rightarrow> r_lower r \<noteq> None \<and> bs ! 0 = CHR ''['')"

definition upper_inc :: "'a range \<Rightarrow> bool" where
  "upper_inc r = (case r_bounds r of None \<Rightarrow> False
     | Some bs \<Rightarrow> r_upper r \<noteq> None \<and> bs ! 1 = CHR '']'')"

definition range_contains :: "'a :: linorder range \<Rightarrow> 'a \<Rightarrow> bool" where
  "range_contains r x =
     (case r_bounds r of
        None \<Rightarrow> False
      | Some bs \<Rightarrow>
          (case r_lower r of None \<Rightarrow> True
           | Some l \<Rightarrow> if bs ! 0 = CHR ''['' then \<not> x < l else \<not> x \<le> l) \<and>
          (case r_upper r of None \<Rightarrow> True
           | Some u \<Rightarrow> if bs ! 1 = CHR '']'' then \<not> x > u else \<not> x \<ge> u))"

text \<open>One attribute of the loop of \<open>__lt__\<close>: a decision, or go on with the next.\<close>

definition attr_lt :: "'b :: linorder option \<Rightarrow> 'b option \<Rightarrow> bool option" where
  "attr_lt x y =
     (if x = y then None
      else case x of None \<Rightarrow> Some True | Some a \<Rightarrow>
        (case y of None \<Rightarrow> Some False | Some b \<Rightarrow> Some (a < b)))"

definition range_lt :: "'a :: linorder range \<Rightarrow> 'a range \<Rightarrow> bool" where
  "range_lt r s =
     (case attr_lt (r_lower r) (r_lower s) of Some b \<Rightarrow> b
      | None \<Rightarrow>
          (case attr_lt (r_upper r) (r_upper s) of Some b \<Rightarrow> b
           | None \<Rightarrow> (case attr_lt (r_bounds r) (r_bounds s) of Some b \<Rightarrow> b | None \<Rightarrow> False)))"

definition range_le :: "'a :: linorder range \<Rightarrow> 'a range \<Rightarrow> bool" where
  "range_le r s = (if r = s then True else range_lt r s)"

definition range_gt :: "'a :: linorder range \<Rightarrow> 'a range \<Rightarrow> bool" where
  "range_gt r s = range_lt s r"

definition range_ge :: "'a :: linorder range \<Rightarrow> 'a range \<Rightarrow> bool" where
  "range_ge r s = (if r = s then True else range_gt r s)"

text \<open>The order is the lexicographic one, absent values first.\<close>

definition range_key :: "'a range \<Rightarrow> 'a option \<times> 'a option \<times> string option" where
  "range_key r = (r_lower r, r_upper r, r_bounds r)"

lemma range_key_eq: "range_key r = range_key s \<longleftrightarrow> r = s"
  by (cases r; cases s) (simp add: range_key_def)

lemma attr_lt_order: "attr_lt x y = (if x = y then None else Some (x < y))"
  by (cases x; cases y) (simp_all add: attr_lt_def)

lemma range_lt_lex: "range_lt r s \<longleftrightarrow> range_key r < range_key s"
proof -
  have "a \<noteq> b \<Longrightarrow> (a, p) < (b, q) \<longleftrightarrow> a < b" for a b :: "'b :: linorder" and p q :: "'c :: linorder"
    by auto
  then show ?thesis by (auto simp: range_lt_def range_key_def attr_lt_order)
qed

lemma range_le_lex: "range_le r s \<longleftrightarrow> range_key r \<le> range_key s"
  by (simp add: range_le_def range_lt_lex order.order_iff_strict range_key_eq)

instantiation range :: (linorder) linorder
begin

definition less_range :: "'a range \<Rightarrow> 'a range \<Rightarrow> bool" where
  "less_range = range_lt"

definition less_eq_range :: "'a range \<Rightarrow> 'a range \<Rightarrow> bool" where
  "less_eq_range = range_le"

instance
proof
  fix r s t :: "'a range"
  note order = less_range_def less_eq_range_def range_lt_lex range_le_lex
  show "r < s \<longleftrightarrow> r \<le> s \<and> \<not> s \<le> r" unfolding order by (rule less_le_not_le)
  show "r \<le> r" unfolding order by simp
  show "r \<le> s \<Longrightarrow> s \<le> t \<Longrightarrow> r \<le> t" unfolding order by (rule order_trans)
  show "r \<le> s \<Longrightarrow> s \<le> r \<Longrightarrow> r = s" unfolding order by (drule (1) antisym) (simp add: range_key_eq)
  show "r \<le> s \<or> s \<le> r" unfolding order by (rule linear)
qed

end

section \<open>Writing a range\<close>

definition bound_sql :: "('a \<Rightarrow> string) \<Rightarrow> 'a option \<Rightarrow> string" where
  "bound_sql adapt v = (case v of None \<Rightarrow> ''NULL'' | Some x \<Rightarrow> adapt x)"

definition range_getquoted :: "string option \<Rightarrow> ('a \<Rightarrow> string) \<Rightarrow> 'a range \<Rightarrow> string res" where
  "range_getquoted name adapt r =
     (case name of
        None \<Rightarrow> Inl NotImplementedError
      | Some nm \<Rightarrow>
          (case r_bounds r of
             None \<Rightarrow> Inr ([quote] @ ''empty'' @ [quote] @ ''::'' @ nm)
           | Some bs \<Rightarrow> Inr (nm @ ''('' @ bound_sql adapt (r_lower r) @ '', '' @ bound_sql adapt (r_upper r)
               @ '', '' @ [quote] @ bs @ [quote] @ '')'')))"

definition bound_text :: "('a \<Rightarrow> string) \<Rightarrow> 'a option \<Rightarrow> string" where
  "bound_text adapt v = (case v of None \<Rightarrow> [] | Some x \<Rightarrow> adapt x)"

definition number_getquoted :: "('a \<Rightarrow> string) \<Rightarrow> 'a range \<Rightarrow> string" where
  "number_getquoted adapt r =
     (case r_bounds r of
        None \<Rightarrow> [quote] @ ''empty'' @ [quote]
      | Some bs \<Rightarrow> [quote] @ [bs ! 0] @ bound_text adapt (r_lower r) @ '','' @ bound_text adapt (r_upper r)
          @ [bs ! 1] @ [quote])"

section \<open>Reading a range\<close>

text \<open>
  The regular expression, written out.  After its opening quote a quoted string ends at the
  first quote that is not doubled, which is the only way it can match: what must follow is a
  comma or a bracket, never another quote.
\<close>

fun quoted_body :: "string \<Rightarrow> (string \<times> string) option" where
  "quoted_body [] = None"
| "quoted_body [c] = (if c = dquote then Some ([], []) else None)"
| "quoted_body (c # d # s) =
     (if c = dquote then
        if d = dquote then map_option (\<lambda>(b, r). (dquote # dquote # b, r)) (quoted_body s)
        else Some ([], d # s)
      else map_option (\<lambda>(b, r). (c # b, r)) (quoted_body (d # s)))"

text \<open>\<open>_re_undouble.sub(r"\1", text)\<close>\<close>

fun undouble_text :: "string \<Rightarrow> string" where
  "undouble_text [] = []"
| "undouble_text [c] = [c]"
| "undouble_text (c # d # s) =
     (if c = d \<and> (c = dquote \<or> c = CHR 0x5C) then c # undouble_text s else c # undouble_text (d # s))"

text \<open>One bound: its text, if there is one, and the rest; \<open>stop\<close> ends an unquoted one.\<close>

definition match_bound :: "(char \<Rightarrow> bool) \<Rightarrow> string \<Rightarrow> (string option \<times> string) option" where
  "match_bound stop s =
     (case s of
        c # r \<Rightarrow>
          if c = dquote then map_option (\<lambda>(b, r'). (Some (undouble_text b), r')) (quoted_body r)
          else let t = takeWhile (\<lambda>c. c \<noteq> dquote \<and> \<not> stop c) s in
            Some (if t = [] then None else Some t, drop (length t) s)
      | [] \<Rightarrow> Some (None, []))"

definition is_open :: "char \<Rightarrow> bool" where
  "is_open c = (c = CHR ''('' \<or> c = CHR ''['')"

definition is_close :: "char \<Rightarrow> bool" where
  "is_close c = (c = CHR '')'' \<or> c = CHR '']'')"

definition match_range :: "string \<Rightarrow> (string option \<times> string option \<times> string) option" where
  "match_range s =
     (case s of
        b # s1 \<Rightarrow>
          if \<not> is_open b then None
          else (case match_bound (\<lambda>c. c = CHR '','') s1 of
            Some (lo, c # s2) \<Rightarrow>
              if c \<noteq> CHR '','' then None
              else (case match_bound is_close s2 of
                Some (up, e # _) \<Rightarrow> if is_close e then Some (lo, up, [b, e]) else None
              | _ \<Rightarrow> None)
          | _ \<Rightarrow> None)
      | [] \<Rightarrow> None)"

text \<open>\<open>cast\<close> is \<open>cur.cast\<close> for the subtype, which maps \<open>None\<close> to \<open>None\<close>.\<close>

definition range_parse :: "(string \<Rightarrow> 'a) \<Rightarrow> string option \<Rightarrow> 'a range option res" where
  "range_parse cast s =
     (case s of
        None \<Rightarrow> Inr None
      | Some t \<Rightarrow>
          if t = ''empty'' then map_sum id Some (range_new None None ''[)'' True)
          else (case match_range t of
            None \<Rightarrow> Inl InterfaceError
          | Some (lo, up, bs) \<Rightarrow>
              map_sum id Some (range_new (map_option cast lo) (map_option cast up) bs False)))"

section \<open>What is read back\<close>

fun double_text :: "string \<Rightarrow> string" where
  "double_text [] = []"
| "double_text (c # s) = (if c = dquote \<or> c = CHR 0x5C then c # c # double_text s else c # double_text s)"

lemma undouble_double: "undouble_text (double_text s) = s"
proof (induction s)
  case (Cons c s)
  show ?case
  proof (cases "c = dquote \<or> c = CHR 0x5C")
    case False
    then show ?thesis using Cons by (cases "double_text s") auto
  qed (use Cons in auto)
qed simp

lemma quoted_body_double:
  "r = [] \<or> hd r \<noteq> dquote \<Longrightarrow> quoted_body (double_text s @ dquote # r) = Some (double_text s, r)"
proof (induction s)
  case Nil
  then show ?case by (cases r) auto
next
  case (Cons c s)
  have "quoted_body (c # t) = map_option (\<lambda>(b, r). (c # b, r)) (quoted_body t)" if "c \<noteq> dquote" "t \<noteq> []" for c t
    using that by (cases t) auto
  with Cons show ?case by auto
qed

lemma match_bound_quoted:
  "r = [] \<or> hd r \<noteq> dquote \<Longrightarrow> match_bound stop (dquote # double_text s @ dquote # r) = Some (Some s, r)"
  by (simp add: match_bound_def quoted_body_double undouble_double)

lemma match_bound_plain:
  assumes "t \<noteq> []" and "\<forall>c \<in> set t. c \<noteq> dquote \<and> \<not> stop c" and "stop e" and "e \<noteq> dquote"
  shows "match_bound stop (t @ e # r) = Some (Some t, e # r)"
proof -
  have "takeWhile (\<lambda>c. c \<noteq> dquote \<and> \<not> stop c) (t @ e # r) = t"
    using assms by (subst takeWhile_append2) auto
  moreover obtain c t' where "t = c # t'" using assms(1) by (cases t) auto
  ultimately show ?thesis using assms by (auto simp: match_bound_def Let_def)
qed

lemma match_bound_none: "stop e \<Longrightarrow> e \<noteq> dquote \<Longrightarrow> match_bound stop (e # r) = Some (None, e # r)"
  by (simp add: match_bound_def)

locale range_subtype =
  fixes adapt :: "'a \<Rightarrow> string" and cast :: "string \<Rightarrow> 'a"
  assumes cast_adapt: "cast (adapt x) = x"
    and adapt_nonempty: "adapt x \<noteq> []"
    and adapt_plain: "c \<in> set (adapt x) \<Longrightarrow> c \<notin> {dquote, quote, CHR '','', CHR '')'', CHR '']''}"
begin

lemma match_bound_text:
  assumes "stop e" and "e \<noteq> dquote" and "\<And>c. stop c \<Longrightarrow> c \<in> {CHR '','', CHR '')'', CHR '']''}"
  shows "match_bound stop (bound_text adapt v @ e # r) = Some (map_option adapt v, e # r)"
proof (cases v)
  case (Some x)
  have "\<forall>c \<in> set (adapt x). c \<noteq> dquote \<and> \<not> stop c" using adapt_plain [of _ x] assms(3) by blast
  with match_bound_plain [of "adapt x" stop e r] adapt_nonempty [of x] assms(1,2) Some show ?thesis
    by (simp add: bound_text_def)
qed (simp add: bound_text_def match_bound_none assms)

lemma parse_number:
  assumes "is_open b" and "is_close e"
  shows "range_parse cast (Some ([b] @ bound_text adapt lo @ '','' @ bound_text adapt up @ [e])) =
    Inr (Some (Range lo up (Some [b, e])))"
proof -
  have c: "map_option cast (map_option adapt v) = v" for v by (cases v) (simp_all add: cast_adapt)
  have e: "e \<noteq> dquote" "e = CHR '')'' \<or> e = CHR '']''" using assms(2) by (auto simp: is_close_def)
  have up: "match_bound is_close (bound_text adapt up @ [e]) = Some (map_option adapt up, [e])"
    using assms(2) e(1) by (rule match_bound_text) (auto simp: is_close_def)
  have lo: "match_bound (\<lambda>c. c = CHR '','') (bound_text adapt lo @ CHR '','' # bound_text adapt up @ [e]) =
      Some (map_option adapt lo, CHR '','' # bound_text adapt up @ [e])"
    by (rule match_bound_text) simp_all
  have "[b, e] \<in> set valid_bounds" using assms by (auto simp: is_open_def is_close_def valid_bounds_def)
  then show ?thesis
    using assms up lo c
    by (auto simp: range_parse_def match_range_def range_new_def is_open_def)
qed

lemma number_round_trip:
  assumes "r_bounds r = None \<longrightarrow> r_lower r = None \<and> r_upper r = None"
    and "\<forall>bs. r_bounds r = Some bs \<longrightarrow> bs \<in> set valid_bounds"
  shows "range_parse cast (Some (butlast (tl (number_getquoted adapt r)))) = Inr (Some r)"
proof (cases "r_bounds r")
  case None
  with assms(1) show ?thesis
    by (cases r) (simp add: number_getquoted_def range_parse_def range_new_def)
next
  case (Some bs)
  with assms(2) have "bs \<in> set valid_bounds" by blast
  then obtain b e where b: "bs = [b, e]" "is_open b" "is_close e"
    by (auto simp: valid_bounds_def is_open_def is_close_def)
  from Some b(1) have q: "butlast (tl (number_getquoted adapt r)) =
      [b] @ bound_text adapt (r_lower r) @ '','' @ bound_text adapt (r_upper r) @ [e]"
    by (simp add: number_getquoted_def butlast_append)
  show ?thesis unfolding q parse_number [OF b(2,3)] using Some b(1) by (cases r) simp
qed

end

section \<open>Numbers\<close>

text \<open>
  How psycopg2 writes an integer: in decimal, with a space in front of a minus sign; reading
  it back is \<open>int(text)\<close>.
\<close>

definition adapt_int :: "int \<Rightarrow> string" where
  "adapt_int i = (if i < 0 then '' '' @ show_int i else show_int i)"

definition cast_int :: "string \<Rightarrow> int" where
  "cast_int s = (case py_int s of Inr i \<Rightarrow> i | Inl _ \<Rightarrow> 0)"

lemma strip_space: "strip (CHR '' '' # s) = strip s"
  by (simp add: strip_def strip_by_def is_space_def)

lemma cast_adapt_int: "cast_int (adapt_int i) = i"
proof -
  have "py_int (CHR '' '' # show_int i) = py_int (show_int i)" by (simp add: py_int_def strip_space)
  then show ?thesis by (simp add: cast_int_def adapt_int_def py_int_show_int)
qed

lemma adapt_int_chars: "c \<in> set (adapt_int i) \<Longrightarrow> is_digit c \<or> c = CHR ''-'' \<or> c = CHR '' ''"
  using show_nat_digits by (auto simp: adapt_int_def show_int_def split: if_splits)

interpretation int_range: range_subtype adapt_int cast_int
proof
  show "cast_int (adapt_int x) = x" for x by (rule cast_adapt_int)
  show "adapt_int x \<noteq> []" for x by (simp add: adapt_int_def show_int_def)
  show "c \<notin> {dquote, quote, CHR '','', CHR '')'', CHR '']''}" if "c \<in> set (adapt_int x)" for c x
    using adapt_int_chars [OF that] by (auto simp: is_digit_def)
qed

section \<open>The lookup of a range type\<close>

text \<open>
  \<open>RangeCaster._from_db\<close>, up to the arguments of the constructor.  The connection is what the
  code reads of it; \<open>query\<close> is the answer of the catalog for a type's name and schema.
\<close>

record catalog =
  server_version :: nat
  in_transaction :: bool
  autocommit :: bool
  rollbacks :: nat

definition split_name :: "string \<Rightarrow> string \<times> string" where
  "split_name name =
     (case split_on (CHR ''.'') name of
        schema # t # ts \<Rightarrow> (join ''.'' (t # ts), schema)
      | _ \<Rightarrow> (name, ''public''))"

definition roll_back :: "(catalog, exn, unit) act" where
  "roll_back = modify (\<lambda>c. c\<lparr>rollbacks := Suc (rollbacks c), in_transaction := False\<rparr>)"

definition from_db ::
  "(string \<Rightarrow> string \<Rightarrow> (nat \<times> nat \<times> nat option) option res) \<Rightarrow> string \<Rightarrow>
   (catalog, exn, nat \<times> nat \<times> nat option) act" where
  "from_db query name c =
     (if server_version c < 90200 then (Inl ProgrammingError, c)
      else let was = in_transaction c;
               (tname, schema) = split_name name;
               c' = c\<lparr>in_transaction := in_transaction c \<or> \<not> autocommit c\<rparr> in
        (case query tname schema of
           Inl e \<Rightarrow>
             if e = ProgrammingError
             then sbind (if \<not> autocommit c' then roll_back else ret ()) (\<lambda>_. throw e) c'
             else (Inl e, c')
         | Inr rec \<Rightarrow>
             sbind (if \<not> was \<and> \<not> autocommit c' then roll_back else ret ())
               (\<lambda>_. lift_res (of_option ProgrammingError rec)) c'))"

section \<open>Properties of ranges\<close>


text \<open>
  C32. A numeric range survives the trip through SQL: the text \<open>NumberRangeAdapter\<close> writes for a
  range of integers that the constructor can build is, inside its quotes, parsed back to
  that range, empty and unbounded ones included.
\<close>

theorem number_range_round_trip:
  assumes "range_new lo up bs emp = Inr r"
  shows "range_parse cast_int (Some (butlast (tl (number_getquoted adapt_int r)))) = Inr (Some r)"
  by (rule int_range.number_round_trip)
    (use assms in \<open>auto simp: range_new_def split: if_splits\<close>)

lemma number_range_round_trip_witness:
  "range_parse cast_int (Some (butlast (tl (number_getquoted adapt_int (Range (Some (-5)) None (Some ''[)'')))))) =
     Inr (Some (Range (Some (-5)) None (Some ''[)'')))"
proof -
  have "range_new (Some (-5)) None ''[)'' False = Inr (Range (Some (-5 :: int)) None (Some ''[)''))" by code_simp
  then show ?thesis by (rule number_range_round_trip)
qed

text \<open>
  Bounds in the form PostgreSQL prints them, quoted and with quotes and backslashes
  doubled, are read back exactly, whatever characters they hold.
\<close>

theorem range_parse_quoted:
  assumes "is_open b" and "is_close e"
  shows "range_parse id (Some ([b, dquote] @ double_text lo @ [dquote, CHR '','', dquote] @ double_text up @ [dquote, e])) =
    Inr (Some (Range (Some lo) (Some up) (Some [b, e])))"
proof -
  have "[b, e] \<in> set valid_bounds" using assms by (auto simp: is_open_def is_close_def valid_bounds_def)
  moreover have "e \<noteq> dquote" using assms(2) by (auto simp: is_close_def)
  ultimately show ?thesis
    using assms match_bound_quoted [of "CHR '','' # dquote # double_text up @ [dquote, e]" "\<lambda>c. c = CHR '',''" lo]
      match_bound_quoted [of "[e]" is_close up]
    by (auto simp: range_parse_def match_range_def range_new_def is_open_def)
qed

lemma range_parse_quoted_witness:
  "range_parse id (Some ''[\"a,b\",\"c\")'') = Inr (Some (Range (Some ''a,b'') (Some ''c'') (Some ''[)'')))"
  using range_parse_quoted [of "CHR ''[''" "CHR '')''" "''a,b''" "''c''"]
  by (simp add: is_open_def is_close_def)

text \<open>
  Looking up a range type leaves the transaction as it was: outside autocommit, a
  connection that was not in a transaction is rolled back exactly once when the catalog
  answers, and a failed query is always rolled back; in autocommit nothing is.
\<close>

theorem from_db_transaction:
  assumes "90200 \<le> server_version c" and "from_db query name c = (r, c')"
  shows "case query (fst (split_name name)) (snd (split_name name)) of
      Inr rec \<Rightarrow> r = of_option ProgrammingError rec \<and> in_transaction c' = in_transaction c \<and>
        rollbacks c' = rollbacks c + (if autocommit c \<or> in_transaction c then 0 else 1)
    | Inl e \<Rightarrow> r = Inl e \<and>
        rollbacks c' = rollbacks c + (if autocommit c \<or> e \<noteq> ProgrammingError then 0 else 1)"
proof -
  obtain t s where n: "split_name name = (t, s)" by fastforce
  have v: "\<not> server_version c < 90200" using assms(1) by simp
  note run = assms(2) [unfolded from_db_def Let_def n prod.case]
  show ?thesis
  proof (cases "query t s")
    case (Inl e)
    with run v n show ?thesis by (auto simp: roll_back_def split: if_splits)
  next
    case (Inr rec)
    with run v n show ?thesis by (auto simp: roll_back_def split: if_splits)
  qed
qed

lemma from_db_transaction_witness:
  "rollbacks (snd (from_db (\<lambda>t s. Inr (Some (1, 2, None))) ''myrange''
     \<lparr>server_version = 100000, in_transaction = False, autocommit = False, rollbacks = 0\<rparr>)) = 1"
proof -
  let ?c = "\<lparr>server_version = 100000, in_transaction = False, autocommit = False, rollbacks = 0\<rparr>"
  obtain r c' where r: "from_db (\<lambda>t s. Inr (Some (1, 2, None))) ''myrange'' ?c = (r, c')" by fastforce
  have "90200 \<le> server_version ?c" by simp
  from from_db_transaction [OF this r] r show ?thesis by simp
qed

end
