(* ===== verification/Sql_Compose.thy ===== *)
theory Sql_Compose
  imports Py_Strings
begin

text \<open>
  psycopg2/sql.py: the objects that compose a statement and their operators, \<open>SQL.format\<close>
  with the template parser of \<open>string.Formatter\<close>, and \<open>as_string\<close>.  The quoting of
  identifiers and values is done by the C library for a connection: the record \<open>sql_context\<close>.
\<close>

datatype 'v composable =
    Composed "'v composable list"
  | SQL string
  | Identifier string
  | Literal 'v
  | Placeholder "string option"

record 'v sql_context =
  is_connection :: bool
  quote_ident :: "string \<Rightarrow> string"
  adapt :: "'v \<Rightarrow> string"

section \<open>Operators\<close>

text \<open>A member of a sequence that is not a \<open>Composable\<close> is \<open>None\<close>.\<close>

definition composed :: "'v composable option list \<Rightarrow> 'v composable res" where
  "composed xs = (if None \<in> set xs then Inl TypeError else Inr (Composed (map the xs)))"

definition plus_sql :: "'v composable \<Rightarrow> 'v composable \<Rightarrow> 'v composable" where
  "plus_sql x y =
     (case x of
        Composed xs \<Rightarrow> (case y of Composed ys \<Rightarrow> Composed (xs @ ys) | _ \<Rightarrow> Composed (xs @ [y]))
      | _ \<Rightarrow> (case y of Composed ys \<Rightarrow> Composed ([x] @ ys) | _ \<Rightarrow> Composed ([x] @ [y])))"

definition times_sql :: "'v composable \<Rightarrow> int \<Rightarrow> 'v composable" where
  "times_sql x n = Composed (replicate (nat n) x)"

fun intersperse :: "'a \<Rightarrow> 'a list \<Rightarrow> 'a list" where
  "intersperse s [] = []"
| "intersperse s (x # xs) = x # concat (map (\<lambda>y. [s, y]) xs)"

definition join_sql :: "string \<Rightarrow> 'v composable option list \<Rightarrow> 'v composable res" where
  "join_sql s xs = composed (intersperse (Some (SQL s)) xs)"

definition placeholder :: "string option \<Rightarrow> 'v composable res" where
  "placeholder name =
     (case name of None \<Rightarrow> Inr (Placeholder None)
      | Some s \<Rightarrow> if CHR '')'' \<in> set s then Inl ValueError else Inr (Placeholder (Some s)))"

fun as_string :: "'v sql_context \<Rightarrow> 'v composable \<Rightarrow> string res"
  and as_strings :: "'v sql_context \<Rightarrow> 'v composable list \<Rightarrow> string res" where
  "as_string cx (Composed xs) = as_strings cx xs"
| "as_string cx (SQL s) = Inr s"
| "as_string cx (Identifier s) = (if is_connection cx then Inr (quote_ident cx s) else Inl TypeError)"
| "as_string cx (Literal v) = (if is_connection cx then Inr (adapt cx v) else Inl TypeError)"
| "as_string cx (Placeholder n) =
     Inr (case n of Some s \<Rightarrow> ''%('' @ s @ '')s'' | None \<Rightarrow> ''%s'')"
| "as_strings cx [] = Inr []"
| "as_strings cx (x # xs) = rbind (as_string cx x) (\<lambda>s. rbind (as_strings cx xs) (\<lambda>ss. Inr (s @ ss)))"

section \<open>Templates\<close>

text \<open>
  \<open>string.Formatter().parse\<close>, one item at a time: literal text, and the field after it if
  there is one, as name, format specification and conversion.
\<close>

type_synonym field = "string \<times> string \<times> char option"

definition is_brace :: "char \<Rightarrow> bool" where
  "is_brace c = (c = CHR ''{'' \<or> c = CHR ''}'')"

text \<open>The name of a field, up to a closing brace, a colon or an exclamation mark, and that character.\<close>

fun skip_bracket :: "string \<Rightarrow> string \<times> string" where
  "skip_bracket [] = ([], [])"
| "skip_bracket (c # s) = (if c = CHR '']'' then ([], c # s) else (let (a, r) = skip_bracket s in (c # a, r)))"

lemma skip_bracket_length: "skip_bracket s = (a, r) \<Longrightarrow> length r \<le> length s"
  by (induction s arbitrary: a r) (auto split: if_splits prod.splits intro: le_SucI)

function field_name :: "string \<Rightarrow> (string \<times> char \<times> string) res" where
  "field_name [] = Inl ValueError"
| "field_name (c # s) =
     (if c = CHR ''{'' then Inl ValueError
      else if c = CHR ''['' then
        (let (a, r) = skip_bracket s in rbind (field_name r) (\<lambda>(n, e, q). Inr (c # a @ n, e, q)))
      else if c = CHR ''}'' \<or> c = CHR '':'' \<or> c = CHR ''!'' then Inr ([], c, s)
      else rbind (field_name s) (\<lambda>(n, e, q). Inr (c # n, e, q)))"
  by pat_completeness auto
termination
  by (relation "measure length") (auto dest: skip_bracket_length[OF sym])

fun format_spec :: "nat \<Rightarrow> string \<Rightarrow> (string \<times> string) res" where
  "format_spec n [] = Inl ValueError"
| "format_spec n (c # s) =
     (if c = CHR ''}'' then
        if n = 1 then Inr ([], s) else rbind (format_spec (n - 1) s) (\<lambda>(a, r). Inr (c # a, r))
      else rbind (format_spec (if c = CHR ''{'' then Suc n else n) s) (\<lambda>(a, r). Inr (c # a, r)))"

definition parse_field :: "string \<Rightarrow> (field \<times> string) res" where
  "parse_field s =
     rbind (field_name s) (\<lambda>(name, e, r).
       if e = CHR ''}'' then Inr ((name, [], None), r)
       else if e = CHR '':'' then rbind (format_spec 1 r) (\<lambda>(sp, r'). Inr ((name, sp, None), r'))
       else case r of
          [] \<Rightarrow> Inl ValueError
        | cv # r1 \<Rightarrow>
            (case r1 of
               [] \<Rightarrow> Inl ValueError
             | c # r2 \<Rightarrow>
                 if c = CHR ''}'' then Inr ((name, [], Some cv), r2)
                 else if c = CHR '':'' then rbind (format_spec 1 r2) (\<lambda>(sp, r'). Inr ((name, sp, Some cv), r'))
                 else Inl ValueError))"

definition next_markup :: "string \<Rightarrow> ((string \<times> field option) \<times> string) res" where
  "next_markup s =
     (let lit = takeWhile (\<lambda>c. \<not> is_brace c) s in
      case dropWhile (\<lambda>c. \<not> is_brace c) s of
        [] \<Rightarrow> Inr ((lit, None), [])
      | [c] \<Rightarrow> Inl ValueError
      | c # d # r \<Rightarrow>
          if c = d then Inr ((lit @ [c], None), r)
          else if c = CHR ''}'' then Inl ValueError
          else rbind (parse_field (d # r)) (\<lambda>(f, r'). Inr ((lit, Some f), r')))"

lemma field_name_length: "field_name s = Inr (n, e, r) \<Longrightarrow> length r < length s"
proof (induction s arbitrary: n e r rule: field_name.induct)
  case (2 c s)
  show ?case
  proof (cases "c = CHR ''[''")
    case True
    obtain a q where a: "skip_bracket s = (a, q)" by fastforce
    from 2(3) True a obtain n' where "field_name q = Inr (n', e, r)"
      by (cases "field_name q") (auto simp: Let_def)
    with 2(1)[of "(a, q)" a q] True a skip_bracket_length [OF a] show ?thesis by fastforce
  next
    case False
    show ?thesis
    proof (cases "c = CHR ''}'' \<or> c = CHR '':'' \<or> c = CHR ''!''")
      case True
      with False 2(3) show ?thesis by (auto split: if_splits)
    next
      case other: False
      with False 2(3) obtain n' where f: "c \<noteq> CHR ''{''" "field_name s = Inr (n', e, r)"
        by (auto simp: rbind_eq_Inr split: if_splits)
      with 2(2) [OF f(1) False other f(2)] show ?thesis by simp
    qed
  qed
qed simp

lemma format_spec_length: "format_spec n s = Inr (a, r) \<Longrightarrow> length r < length s"
  by (induction n s arbitrary: a r rule: format_spec.induct)
    (fastforce simp: rbind_eq_Inr split: if_splits)+

lemma parse_field_length: "parse_field s = Inr (f, r) \<Longrightarrow> length r < length s"
  by (auto simp: parse_field_def rbind_eq_Inr split: if_splits list.splits
      dest!: field_name_length format_spec_length)

lemma next_markup_length: "next_markup s = Inr (x, r) \<Longrightarrow> s \<noteq> [] \<Longrightarrow> length r < length s"
proof -
  assume a: "next_markup s = Inr (x, r)" "s \<noteq> []"
  have l: "length (dropWhile P s) \<le> length s" for P :: "char \<Rightarrow> bool" by (rule length_dropWhile_le)
  from a l [of "\<lambda>c. \<not> is_brace c"] show ?thesis
    by (fastforce simp: next_markup_def Let_def rbind_eq_Inr split: list.splits if_splits
        dest: parse_field_length)
qed

text \<open>
  The loop of \<open>SQL.format\<close>.  \<open>autonum\<close> is \<open>None\<close> after a numbered field, the next number
  after automatic ones.
\<close>

definition is_digits :: "string \<Rightarrow> bool" where
  "is_digits s = (s \<noteq> [] \<and> list_all is_digit s)"

definition field_arg ::
  "'v composable option list \<Rightarrow> (string \<times> 'v composable option) list \<Rightarrow> nat option \<Rightarrow> string \<Rightarrow>
   ('v composable option \<times> nat option) res" where
  "field_arg args kwargs autonum name =
     (if is_digits name then
        if autonum \<noteq> None \<and> autonum \<noteq> Some 0 then Inl ValueError
        else let i = nat_of_digits name in
          if i < length args then Inr (args ! i, None) else Inl IndexError
      else if name = [] then
        (case autonum of None \<Rightarrow> Inl ValueError
         | Some i \<Rightarrow> if i < length args then Inr (args ! i, Some (Suc i)) else Inl IndexError)
      else map_sum id (\<lambda>x. (x, autonum)) (of_option KeyError (map_of kwargs name)))"

function format_loop ::
  "'v composable option list \<Rightarrow> (string \<times> 'v composable option) list \<Rightarrow> nat option \<Rightarrow>
   'v composable option list \<Rightarrow> string \<Rightarrow> 'v composable option list res" where
  "format_loop args kwargs autonum rv s =
     (if s = [] then Inr rv
      else case next_markup s of
        Inl e \<Rightarrow> Inl e
      | Inr ((pre, fld), r) \<Rightarrow>
          let rv' = (if pre = [] then rv else rv @ [Some (SQL pre)]) in
          (case fld of
             None \<Rightarrow> format_loop args kwargs autonum rv' r
           | Some (name, spec, conv) \<Rightarrow>
               if spec \<noteq> [] then Inl ValueError
               else if conv \<noteq> None then Inl ValueError
               else (case field_arg args kwargs autonum name of
                  Inl e \<Rightarrow> Inl e
                | Inr (x, autonum') \<Rightarrow> format_loop args kwargs autonum' (rv' @ [x]) r)))"
  by pat_completeness auto
termination
  by (relation "measure (\<lambda>(a, k, n, rv, s). length s)") (auto dest: next_markup_length)

declare format_loop.simps [simp del]

definition format_sql ::
  "string \<Rightarrow> 'v composable option list \<Rightarrow> (string \<times> 'v composable option) list \<Rightarrow> 'v composable res" where
  "format_sql s args kwargs = rbind (format_loop args kwargs (Some 0) [] s) composed"

section \<open>Text of a composition\<close>

lemma as_strings_append:
  "as_strings cx (xs @ ys) = rbind (as_strings cx xs) (\<lambda>a. rbind (as_strings cx ys) (\<lambda>b. Inr (a @ b)))"
proof (induction xs)
  case Nil
  then show ?case by (cases "as_strings cx ys") simp_all
next
  case (Cons x xs)
  then show ?case
    by (cases "as_string cx x"; cases "as_strings cx xs"; cases "as_strings cx ys") simp_all
qed

lemma as_strings_single: "as_strings cx [x] = as_string cx x"
  by (cases "as_string cx x") simp_all

definition texts :: "'v sql_context \<Rightarrow> 'v composable list \<Rightarrow> string list \<Rightarrow> bool" where
  "texts cx xs ss = list_all2 (\<lambda>x s. as_string cx x = Inr s) xs ss"

lemma texts_simps [simp]:
  "texts cx [] ss = (ss = [])"
  "texts cx (x # xs) ss = (\<exists>s ss'. ss = s # ss' \<and> as_string cx x = Inr s \<and> texts cx xs ss')"
  by (auto simp: texts_def list_all2_Cons1)

lemma as_strings_texts: "texts cx xs ss \<Longrightarrow> as_strings cx xs = Inr (concat ss)"
  by (induction xs arbitrary: ss) auto

lemma composed_Some [simp]: "composed (map Some xs) = Inr (Composed xs)"
  by (simp add: composed_def comp_def image_iff)

lemma intersperse_map: "intersperse (f s) (map f xs) = map f (intersperse s xs)"
  by (cases xs) (simp_all add: map_concat comp_def)

lemma join_Cons: "join s (x # xs) = x @ concat (map (\<lambda>y. s @ y) xs)"
  by (induction xs arbitrary: x) simp_all

lemma texts_intersperse:
  "texts cx xs ss \<Longrightarrow> as_strings cx (intersperse (SQL s) xs) = Inr (join s ss)"
proof (cases xs)
  case (Cons x ys)
  have "texts cx ys ts \<Longrightarrow> as_strings cx (concat (map (\<lambda>y. [SQL s, y]) ys)) = Inr (concat (map (\<lambda>y. s @ y) ts))"
    for ts by (induction ys arbitrary: ts) auto
  moreover assume "texts cx xs ss"
  ultimately show ?thesis using Cons by (auto simp: join_Cons)
qed simp

section \<open>Templates with escaped text\<close>

fun escape_braces :: "string \<Rightarrow> string" where
  "escape_braces [] = []"
| "escape_braces (c # s) = (if is_brace c then c # c # escape_braces s else c # escape_braces s)"

text \<open>The template with the literals \<open>ls\<close> and an automatic field between any two.\<close>

fun template :: "string list \<Rightarrow> string" where
  "template [] = []"
| "template [l] = escape_braces l"
| "template (l # l' # ls) = escape_braces l @ ''{}'' @ template (l' # ls)"

fun interleave :: "string list \<Rightarrow> string list \<Rightarrow> string" where
  "interleave (l # ls) (s # ss) = l @ s @ interleave ls ss"
| "interleave ls ss = concat ls"

lemma escape_plain: "\<forall>c \<in> set p. \<not> is_brace c \<Longrightarrow> escape_braces (p @ s) = p @ escape_braces s"
  by (induction p) auto

lemma next_markup_plain: "\<forall>c \<in> set p. \<not> is_brace c \<Longrightarrow> next_markup p = Inr ((p, None), [])"
proof -
  assume p: "\<forall>c \<in> set p. \<not> is_brace c"
  then have t: "takeWhile (\<lambda>c. \<not> is_brace c) p = p" "dropWhile (\<lambda>c. \<not> is_brace c) p = []"
    by (simp_all add: takeWhile_eq_all_conv dropWhile_eq_Nil_conv)
  show ?thesis unfolding next_markup_def Let_def t by simp
qed

lemma next_markup_escaped:
  assumes "\<forall>c \<in> set p. \<not> is_brace c" and "is_brace b"
  shows "next_markup (p @ b # b # r) = Inr ((p @ [b], None), r)"
proof -
  have "takeWhile (\<lambda>c. \<not> is_brace c) (p @ b # b # r) = p"
    "dropWhile (\<lambda>c. \<not> is_brace c) (p @ b # b # r) = b # b # r"
    using assms by (simp_all add: takeWhile_append2 dropWhile_append2)
  then show ?thesis by (simp add: next_markup_def)
qed

lemma next_markup_field:
  assumes "\<forall>c \<in> set p. \<not> is_brace c"
  shows "next_markup (p @ ''{}'' @ r) = Inr ((p, Some ([], [], None)), r)"
proof -
  have "takeWhile (\<lambda>c. \<not> is_brace c) (p @ ''{}'' @ r) = p"
    "dropWhile (\<lambda>c. \<not> is_brace c) (p @ ''{}'' @ r) = ''{}'' @ r"
    using assms by (simp_all add: takeWhile_append2 dropWhile_append2 is_brace_def)
  then show ?thesis by (simp add: next_markup_def parse_field_def)
qed

definition add_text :: "string \<Rightarrow> 'v composable list" where
  "add_text p = (if p = [] then [] else [SQL p])"

lemma as_strings_add_text [simp]: "as_strings cx (add_text p) = Inr p"
  by (simp add: add_text_def)

lemma format_loop_step:
  assumes "next_markup s = Inr ((pre, None), r)"
  shows "format_loop args kw n rv s = format_loop args kw n (rv @ map Some (add_text pre)) r"
proof (cases "s = []")
  case True
  with assms show ?thesis by (simp add: next_markup_def add_text_def)
next
  case False
  with assms show ?thesis by (subst format_loop.simps) (simp add: add_text_def)
qed

lemma format_loop_nil [simp]: "format_loop args kw n rv [] = Inr rv"
  by (subst format_loop.simps) simp

lemma format_loop_field:
  assumes "next_markup s = Inr ((pre, Some (name, [], None)), r)"
  shows "format_loop args kw n rv s =
    (case field_arg args kw n name of Inl e \<Rightarrow> Inl e
     | Inr (x, n') \<Rightarrow> format_loop args kw n' (rv @ map Some (add_text pre) @ [x]) r)"
proof -
  have "s \<noteq> []" using assms by (auto simp: next_markup_def)
  with assms show ?thesis
    by (subst format_loop.simps) (auto simp: add_text_def split: sum.split)
qed

text \<open>A literal: some pieces of text that together are the literal.\<close>

lemma split_brace:
  obtains "\<forall>c \<in> set l. \<not> is_brace c"
  | p b l' where "l = p @ b # l'" "\<forall>c \<in> set p. \<not> is_brace c" "is_brace b"
proof (cases "\<exists>c \<in> set l. is_brace c")
  case True
  from split_list_first_prop [OF True] show ?thesis using that(2) by blast
qed (use that(1) in blast)

lemma format_loop_last:
  "\<exists>ps. as_strings cx ps = Inr l \<and>
     format_loop args kw n rv (escape_braces l) = Inr (rv @ map Some ps)"
proof (induction l arbitrary: rv rule: measure_induct_rule [where f = length])
  case (less l)
  show ?case
  proof (rule split_brace [of l])
    assume p: "\<forall>c \<in> set l. \<not> is_brace c"
    then have "escape_braces l = l" using escape_plain [of l "[]"] by simp
    with format_loop_step [OF next_markup_plain [OF p]] show ?thesis
      by (intro exI [of _ "add_text l"]) simp
  next
    fix p b l'
    assume l: "l = p @ b # l'" and p: "\<forall>c \<in> set p. \<not> is_brace c" and b: "is_brace b"
    have e: "escape_braces l = p @ b # b # escape_braces l'" using l b by (simp add: escape_plain [OF p])
    have "length l' < length l" using l by simp
    from less.IH [OF this, of "rv @ map Some (add_text (p @ [b]))"] obtain ps where
      "as_strings cx ps = Inr l'" "format_loop args kw n rv (escape_braces l) =
        Inr (rv @ map Some (add_text (p @ [b]) @ ps))"
      unfolding e format_loop_step [OF next_markup_escaped [OF p b]] by auto
    with l show ?thesis by (intro exI [of _ "add_text (p @ [b]) @ ps"]) (simp add: as_strings_append)
  qed
qed

lemma format_loop_literal:
  "\<exists>ps. as_strings cx ps = Inr l \<and>
     format_loop args kw n rv (escape_braces l @ ''{}'' @ r) =
       (case field_arg args kw n [] of Inl e \<Rightarrow> Inl e
        | Inr (x, n') \<Rightarrow> format_loop args kw n' (rv @ map Some ps @ [x]) r)"
proof (induction l arbitrary: rv rule: measure_induct_rule [where f = length])
  case (less l)
  show ?case
  proof (rule split_brace [of l])
    assume p: "\<forall>c \<in> set l. \<not> is_brace c"
    then have e: "escape_braces l = l" using escape_plain [of l "[]"] by simp
    show ?thesis
      unfolding e format_loop_field [OF next_markup_field [OF p]]
      by (intro exI [of _ "add_text l"]) simp
  next
    fix p b l'
    assume l: "l = p @ b # l'" and p: "\<forall>c \<in> set p. \<not> is_brace c" and b: "is_brace b"
    have e: "escape_braces l @ ''{}'' @ r = p @ b # b # (escape_braces l' @ ''{}'' @ r)"
      using l b by (simp add: escape_plain [OF p])
    have "length l' < length l" using l by simp
    from less.IH [OF this, of "rv @ map Some (add_text (p @ [b]))"] obtain ps where ps:
      "as_strings cx ps = Inr l'"
      "format_loop args kw n (rv @ map Some (add_text (p @ [b]))) (escape_braces l' @ ''{}'' @ r) =
        (case field_arg args kw n [] of Inl e \<Rightarrow> Inl e
         | Inr (x, n') \<Rightarrow> format_loop args kw n' ((rv @ map Some (add_text (p @ [b]))) @ map Some ps @ [x]) r)"
      by blast
    show ?thesis
      unfolding e format_loop_step [OF next_markup_escaped [OF p b]] ps(2)
      using l ps(1)
      by (intro exI [of _ "add_text (p @ [b]) @ ps"]) (auto simp: as_strings_append split: sum.split)
  qed
qed

lemma format_loop_template:
  "length ls = Suc (length xs) \<Longrightarrow> texts cx xs ss \<Longrightarrow>
   \<exists>ps. as_strings cx ps = Inr (interleave ls ss) \<and>
     format_loop (map Some (ys @ xs)) kw (Some (length ys)) rv (template ls) = Inr (rv @ map Some ps)"
proof (induction ls arbitrary: xs ss ys rv rule: template.induct)
  case (2 l)
  then have "xs = []" "ss = []" by auto
  with format_loop_last [of cx l "map Some (ys @ xs)" kw "Some (length ys)" rv] show ?case by auto
next
  case (3 l l' ls)
  then obtain x xs' s ss' where x: "xs = x # xs'" "ss = s # ss'" "as_string cx x = Inr s" "texts cx xs' ss'"
    by (cases xs) auto
  let ?args = "map Some (ys @ xs)"
  have f: "field_arg ?args kw (Some (length ys)) [] = Inr (Some x, Some (Suc (length ys)))"
    by (simp add: field_arg_def is_digits_def x(1) nth_append)
  obtain ps where ps: "as_strings cx ps = Inr l"
    "format_loop ?args kw (Some (length ys)) rv (template (l # l' # ls)) =
      format_loop ?args kw (Some (Suc (length ys))) (rv @ map Some ps @ [Some x]) (template (l' # ls))"
    using format_loop_literal [of cx l ?args kw "Some (length ys)" rv "template (l' # ls)"] f by auto
  have len: "length (l' # ls) = Suc (length xs')" using 3(2) x(1) by simp
  from 3(1) [OF len x(4), of "ys @ [x]" "rv @ map Some ps @ [Some x]"] obtain qs where
    "as_strings cx qs = Inr (interleave (l' # ls) ss')"
    "format_loop ?args kw (Some (Suc (length ys))) (rv @ map Some ps @ [Some x]) (template (l' # ls)) =
      Inr ((rv @ map Some ps @ [Some x]) @ map Some qs)"
    using x(1) by auto
  with ps x show ?case by (intro exI [of _ "ps @ [x] @ qs"]) (simp add: as_strings_append)
qed simp

section \<open>Properties of compositions\<close>

text \<open>
  The text of a sum is the text of its parts in order, and the text of \<open>x * n\<close> is that of
  \<open>x\<close> repeated: composing never changes what the parts mean.
\<close>

theorem as_string_operators:
  "as_string cx (plus_sql x y) =
     rbind (as_string cx x) (\<lambda>a. rbind (as_string cx y) (\<lambda>b. Inr (a @ b))) \<and>
   as_string cx (times_sql x n) =
     (if n \<le> 0 then Inr [] else map_sum id (\<lambda>a. concat (replicate (nat n) a)) (as_string cx x))"
proof
  have one: "as_strings cx (z # zs) = rbind (as_strings cx [z]) (\<lambda>a. rbind (as_strings cx zs) (\<lambda>b. Inr (a @ b)))"
    for z zs using as_strings_append [of cx "[z]" zs] by simp
  show "as_string cx (plus_sql x y) = rbind (as_string cx x) (\<lambda>a. rbind (as_string cx y) (\<lambda>b. Inr (a @ b)))"
    by (cases x; cases y)
      (simp_all add: plus_sql_def as_strings_append one as_strings_single del: as_strings.simps(2))
  have "as_strings cx (replicate (Suc k) x) = map_sum id (\<lambda>a. concat (replicate (Suc k) a)) (as_string cx x)" for k
  proof (induction k)
    case (Suc k)
    then show ?case by (cases "as_string cx x") simp_all
  qed (cases "as_string cx x", simp_all)
  note power = this
  show "as_string cx (times_sql x n) =
     (if n \<le> 0 then Inr [] else map_sum id (\<lambda>a. concat (replicate (nat n) a)) (as_string cx x))"
  proof (cases "n \<le> 0")
    case False
    then obtain k where k: "nat n = Suc k" by (cases "nat n") auto
    show ?thesis using False power [of k] by (simp only: times_sql_def as_string.simps k if_False)
  qed (simp add: times_sql_def)
qed

text \<open>
  \<open>SQL(s).join(seq)\<close> always succeeds on composables, and its text is the texts of the
  members with \<open>s\<close> between them.
\<close>

theorem join_sql_text:
  assumes "texts cx xs ss"
  shows "\<exists>c. join_sql s (map Some xs) = Inr c \<and> as_string cx c = Inr (join s ss)"
  using texts_intersperse [OF assms, of s]
  by (simp add: join_sql_def intersperse_map [of Some "SQL s" xs])

definition sample_context :: "int sql_context" where
  "sample_context = \<lparr>is_connection = True, quote_ident = (\<lambda>s. [dquote] @ s @ [dquote]), adapt = show_int\<rparr>"

lemma join_sql_text_witness:
  "\<exists>c. join_sql '', '' (map Some [Identifier ''a'', Literal 42, Placeholder None]) = Inr c \<and>
     as_string sample_context c = Inr ''\"a\", 42, %s''"
proof -
  have "texts sample_context [Identifier ''a'', Literal 42, Placeholder None] [''\"a\"'', ''42'', ''%s'']"
    by code_simp
  from join_sql_text [OF this, of "'', ''"] show ?thesis by simp
qed

text \<open>
  C33. Formatting a template of any literal texts, their braces doubled, with an automatic
  field between any two: the text of the result is the literals with the texts of the
  arguments between them, so neither literals nor arguments are ever read as template.
\<close>

theorem format_template_text:
  assumes "length ls = Suc (length xs)" and "texts cx xs ss"
  shows "\<exists>c. format_sql (template ls) (map Some xs) [] = Inr c \<and> as_string cx c = Inr (interleave ls ss)"
  using format_loop_template [OF assms, of "[]" "[]" "[]"] by (auto simp: format_sql_def)

lemma format_template_text_witness:
  "\<exists>c. format_sql ''select {} from {{{}'' (map Some [Literal 1, Identifier ''t{}'']) [] = Inr c \<and>
     as_string sample_context c = Inr ''select 1 from {\"t{}\"''"
proof -
  have "length [''select '', '' from {'', ''''] = Suc (length [Literal 1, Identifier ''t{}''])" by simp
  moreover have "texts sample_context [Literal 1, Identifier ''t{}''] [''1'', ''\"t{}\"'']" by code_simp
  ultimately show ?thesis using format_template_text [of "[''select '', '' from {'', '''']"]
    by (fastforce simp: is_brace_def)
qed

text \<open>
  Automatic and numbered fields do not mix: after an automatic field a numbered one is a
  \<open>ValueError\<close>, and after a numbered one an automatic one is, whatever the rest.
\<close>

theorem format_no_mixing:
  assumes "is_digits d" and "\<forall>c \<in> set d. c \<noteq> CHR ''}''"
  shows "format_loop args kw (Some (Suc i)) rv (''{'' @ d @ ''}'' @ r) = Inl ValueError \<and>
    format_loop args kw None rv (''{}'' @ r) = Inl ValueError"
proof
  have name: "field_name (d @ CHR ''}'' # r) = Inr (d, CHR ''}'', r)" if "list_all is_digit d" for d r
    using that by (induction d) (auto simp: is_digit_def)
  have d: "list_all is_digit d" "d \<noteq> []" using assms(1) by (auto simp: is_digits_def)
  then obtain c cs where c: "d = c # cs" "is_digit c" by (cases d) auto
  then have "c \<noteq> CHR ''{''" by (auto simp: is_digit_def)
  with name [OF d(1), of r] c have "next_markup (''{'' @ d @ ''}'' @ r) = Inr (([], Some (d, [], None)), r)"
    by (simp add: next_markup_def is_brace_def parse_field_def)
  moreover have "field_arg args kw (Some (Suc i)) d = Inl ValueError"
    using assms(1) by (simp add: field_arg_def)
  ultimately show "format_loop args kw (Some (Suc i)) rv (''{'' @ d @ ''}'' @ r) = Inl ValueError"
    by (simp only: format_loop_field sum.case)
  have "field_arg args kw None [] = Inl ValueError" by (simp add: field_arg_def is_digits_def)
  moreover have "next_markup (''{}'' @ r) = Inr (([], Some ([], [], None)), r)"
    using next_markup_field [of "[]" r] by simp
  ultimately show "format_loop args kw None rv (''{}'' @ r) = Inl ValueError"
    by (simp only: format_loop_field sum.case)
qed

lemma format_no_mixing_witness:
  "format_loop [] [] (Some 1) [] ''{0} from'' = (Inl ValueError :: int composable option list res)"
  using format_no_mixing [of "''0''" "[] :: int composable option list" "[]" 0 "[]" "'' from''"]
  by (simp add: is_digits_def is_digit_def)

end
