(* ===== verification/Tz.thy ===== *)
theory Tz
  imports Py_Strings
begin

text \<open>
  psycopg2/tz.py: the time zones with a fixed offset, their cache and their names, and the
  local time zone.  A \<open>timedelta\<close> is its normal form of days and seconds.
\<close>

record timedelta =
  td_days :: int
  td_seconds :: int

definition timedelta_minutes :: "int \<Rightarrow> timedelta" where
  "timedelta_minutes m = \<lparr>td_days = m * 60 div 86400, td_seconds = m * 60 mod 86400\<rparr>"

record fixed_zone =
  z_offset :: timedelta
  z_name :: "string option"

text \<open>
  \<open>_cache\<close> maps the arguments of the constructor to an instance; instances are numbers, and
  \<open>zones\<close> their fields.  \<open>new_zone\<close> is \<open>__new__\<close> and then \<open>__init__\<close>, which sets the
  fields of a cached instance again.
\<close>

type_synonym zone_args = "int option \<times> string option"

record zone_heap =
  cache :: "(zone_args \<times> nat) list"
  zones :: "fixed_zone list"

definition zone_init :: "zone_args \<Rightarrow> fixed_zone \<Rightarrow> fixed_zone" where
  "zone_init a z =
     (let z' = (case fst a of None \<Rightarrow> z | Some m \<Rightarrow> z\<lparr>z_offset := timedelta_minutes m\<rparr>) in
      case snd a of None \<Rightarrow> z' | Some n \<Rightarrow> z'\<lparr>z_name := Some n\<rparr>)"

definition fresh_zone :: fixed_zone where
  "fresh_zone = \<lparr>z_offset = \<lparr>td_days = 0, td_seconds = 0\<rparr>, z_name = None\<rparr>"

definition new_zone :: "zone_args \<Rightarrow> zone_heap \<Rightarrow> nat \<times> zone_heap" where
  "new_zone a h =
     (case map_of (cache h) a of
        Some i \<Rightarrow> (i, h\<lparr>zones := (zones h)[i := zone_init a (zones h ! i)]\<rparr>)
      | None \<Rightarrow>
          let i = length (zones h) in
          (i, h\<lparr>cache := dict_set (cache h) a i, zones := zones h @ [zone_init a fresh_zone]\<rparr>))"

definition offset_mins :: "fixed_zone \<Rightarrow> int" where
  "offset_mins z = td_seconds (z_offset z) div 60 + td_days (z_offset z) * 24 * 60"

definition getinitargs :: "fixed_zone \<Rightarrow> zone_args" where
  "getinitargs z = (Some (offset_mins z), z_name z)"

text \<open>\<open>'%+03d'\<close>: a sign and at least two digits.\<close>

definition signed_03 :: "int \<Rightarrow> string" where
  "signed_03 i = (if i < 0 then ''-'' else ''+'') @ zero_pad 2 (show_nat (nat \<bar>i\<bar>))"

text \<open>\<open>seconds / 60\<close> is a float; \<open>'%d'\<close> truncates it.\<close>

definition tzname :: "fixed_zone \<Rightarrow> string" where
  "tzname z =
     (case z_name z of
        Some n \<Rightarrow> n
      | None \<Rightarrow>
          let total = td_seconds (z_offset z) + td_days (z_offset z) * 86400;
              hours = total div 3600; seconds = total mod 3600 in
          if seconds \<noteq> 0 then signed_03 hours @ '':'' @ show_int (seconds div 60)
          else signed_03 hours)"

section \<open>The local time zone\<close>

text \<open>What the code reads of the module \<open>time\<close>.\<close>

record time_module =
  tm_timezone :: int
  tm_altzone :: int
  tm_daylight :: bool
  tm_isdst :: "datetime \<Rightarrow> int"

definition std_offset :: "time_module \<Rightarrow> int" where
  "std_offset t = - tm_timezone t"

definition dst_offset :: "time_module \<Rightarrow> int" where
  "dst_offset t = (if tm_daylight t then - tm_altzone t else std_offset t)"

definition is_dst :: "time_module \<Rightarrow> datetime \<Rightarrow> bool" where
  "is_dst t dt = (tm_isdst t dt > 0)"

definition local_utcoffset :: "time_module \<Rightarrow> datetime \<Rightarrow> int" where
  "local_utcoffset t dt = (if is_dst t dt then dst_offset t else std_offset t)"

definition local_dst :: "time_module \<Rightarrow> datetime \<Rightarrow> int" where
  "local_dst t dt = (if is_dst t dt then dst_offset t - std_offset t else 0)"

section \<open>Properties of time zones\<close>

definition zone_heap_ok :: "zone_heap \<Rightarrow> bool" where
  "zone_heap_ok h =
     (distinct (map fst (cache h)) \<and> distinct (map snd (cache h)) \<and>
      (\<forall>(a, i) \<in> set (cache h). i < length (zones h) \<and> zones h ! i = zone_init a fresh_zone))"

lemma zone_init_again: "zone_init a (zone_init a z) = zone_init a z"
  by (cases a) (auto simp: zone_init_def Let_def split: option.splits)

lemma timedelta_minutes_alt: "timedelta_minutes m = \<lparr>td_days = m div 1440, td_seconds = m mod 1440 * 60\<rparr>"
  using mod_mult_mult2 [of m 60 1440] by (simp add: timedelta_minutes_def)

lemma total_seconds: "td_seconds (timedelta_minutes m) + td_days (timedelta_minutes m) * 86400 = m * 60"
proof -
  have "m mod 1440 + m div 1440 * 1440 = m" by (rule mod_div_mult_eq)
  then show ?thesis by (simp only: timedelta_minutes_alt timedelta.simps)
qed

lemma offset_round_trip: "offset_mins (zone_init (Some m, n) z) = m"
proof -
  have "m mod 1440 + m div 1440 * 1440 = m" by (rule mod_div_mult_eq)
  then show ?thesis
    by (cases n) (simp_all add: offset_mins_def zone_init_def timedelta_minutes_alt)
qed

lemma hours_of_minutes: "m * 60 div 3600 = m div (60 :: int)" "m * 60 mod 3600 = m mod 60 * (60 :: int)"
  using mod_mult_mult2 [of m 60 60] by simp_all

lemma cache_extend:
  assumes "zone_heap_ok h" and "map_of (cache h) a = None"
  shows "zone_heap_ok (snd (new_zone a h))"
proof -
  have a: "a \<notin> fst ` set (cache h)" using assms(2) by (simp add: map_of_eq_None_iff)
  have "length (zones h) \<notin> snd ` set (cache h)" using assms(1) by (fastforce simp: zone_heap_ok_def)
  with assms a show ?thesis
    by (fastforce simp: new_zone_def zone_heap_ok_def dict_set_new nth_append Let_def)
qed

lemma cache_hit:
  assumes "zone_heap_ok h" and "map_of (cache h) a = Some i"
  shows "new_zone a h = (i, h)"
proof -
  have "zones h ! i = zone_init a fresh_zone"
    using assms map_of_SomeD [OF assms(2)] by (auto simp: zone_heap_ok_def)
  then have "(zones h)[i := zone_init a (zones h ! i)] = zones h"
    by (metis list_update_id zone_init_again)
  with assms(2) show ?thesis by (simp add: new_zone_def)
qed

text \<open>
  The cache of fixed zones: a construction keeps the heap well formed, its result has the
  arguments' fields, the same arguments give the same instance again and leave everything
  as it is, and other arguments give another instance.
\<close>

theorem new_zone_cached:
  assumes "zone_heap_ok h" and "new_zone a h = (i, h')"
  shows "zone_heap_ok h' \<and> zones h' ! i = zone_init a fresh_zone \<and> new_zone a h' = (i, h') \<and>
    (fst (new_zone b h') = i \<longleftrightarrow> b = a)"
proof -
  have hit: "map_of (cache h') a = Some i \<and> zone_heap_ok h'"
  proof (cases "map_of (cache h) a")
    case None
    with assms cache_extend [OF assms(1) None] show ?thesis by (auto simp: new_zone_def Let_def)
  next
    case (Some j)
    with assms cache_hit [OF assms(1) Some] show ?thesis by simp
  qed
  then have m: "map_of (cache h') a = Some i" and ok: "zone_heap_ok h'" by simp_all
  have i: "i < length (zones h')" "zones h' ! i = zone_init a fresh_zone"
    using ok map_of_SomeD [OF m] by (auto simp: zone_heap_ok_def)
  have "b = a" if "fst (new_zone b h') = i"
  proof (cases "map_of (cache h') b")
    case None
    with that i(1) show ?thesis by (simp add: new_zone_def Let_def)
  next
    case (Some j)
    with that cache_hit [OF ok Some] have "map_of (cache h') b = Some i" by simp
    moreover have "distinct (map snd (cache h'))" using ok by (simp add: zone_heap_ok_def)
    ultimately show ?thesis using m
      by (auto dest!: map_of_SomeD simp: distinct_map inj_on_def) (metis prod.inject snd_conv)
  qed
  with i ok cache_hit [OF ok m] show ?thesis by auto
qed

definition empty_zones :: zone_heap where
  "empty_zones = \<lparr>cache = [], zones = []\<rparr>"

lemma new_zone_cached_witness:
  "fst (new_zone (Some 60, None) (snd (new_zone (Some 60, None) empty_zones))) = 0 \<and>
   fst (new_zone (Some 90, None) (snd (new_zone (Some 60, None) empty_zones))) \<noteq> 0"
proof -
  have h: "zone_heap_ok empty_zones" by (simp add: zone_heap_ok_def empty_zones_def)
  obtain h' where h': "new_zone (Some 60, None) empty_zones = (0, h')"
    by (simp add: new_zone_def empty_zones_def Let_def)
  from new_zone_cached [OF h h', of "(Some 90, None)"] h' show ?thesis by simp
qed

text \<open>
  The name of a zone without a name of its own is the floor of its offset in hours, with
  a sign and at least two digits, and for a part of an hour a colon and the minutes above
  that floor, not padded: 65 minutes are \<open>+01:5\<close> and -90 minutes are \<open>-02:30\<close>.
  The arguments pickle keeps rebuild the same offset.
\<close>

theorem tzname_form:
  "tzname (zone_init (Some m, None) fresh_zone) =
     (if m mod 60 = 0 then signed_03 (m div 60)
      else signed_03 (m div 60) @ '':'' @ show_int (m mod 60)) \<and>
   zone_init (getinitargs (zone_init (Some m, n) fresh_zone)) fresh_zone = zone_init (Some m, n) fresh_zone \<and>
   tzname (zone_init (Some 65, None) fresh_zone) = ''+01:5'' \<and>
   tzname (zone_init (Some (-90), None) fresh_zone) = ''-02:30''"
proof (intro conjI)
  have z: "z_name (zone_init (Some m, None) fresh_zone) = None"
    "z_offset (zone_init (Some m, None) fresh_zone) = timedelta_minutes m"
    by (simp_all add: zone_init_def fresh_zone_def)
  show "tzname (zone_init (Some m, None) fresh_zone) =
     (if m mod 60 = 0 then signed_03 (m div 60) else signed_03 (m div 60) @ '':'' @ show_int (m mod 60))"
    by (simp only: tzname_def z option.case Let_def total_seconds hours_of_minutes) simp
  show "zone_init (getinitargs (zone_init (Some m, n) fresh_zone)) fresh_zone = zone_init (Some m, n) fresh_zone"
    using offset_round_trip [of m n fresh_zone]
    by (cases n) (simp_all add: getinitargs_def zone_init_def fresh_zone_def)
  show "tzname (zone_init (Some 65, None) fresh_zone) = ''+01:5''"
    "tzname (zone_init (Some (-90), None) fresh_zone) = ''-02:30''" by code_simp+
qed

text \<open>
  The local zone keeps the rule every \<open>tzinfo\<close> must keep: for every time the offset from
  UTC less the daylight saving is the same, the standard offset.
\<close>

theorem local_standard_offset:
  "local_utcoffset t dt - local_dst t dt = std_offset t"
  by (simp add: local_utcoffset_def local_dst_def)

end
