(* ===== verification/Batch.thy ===== *)
theory Batch
  imports Py_Strings
begin

text \<open>
  The helpers at the end of psycopg2/extras.py: \<open>_paginate\<close>, \<open>execute_batch\<close>, \<open>_split_sql\<close> and
  \<open>execute_values\<close>, and the wait loop \<open>wait_select\<close>.  A cursor is the record \<open>cursor_ops\<close> of
  the two methods of the C library that are called; what was executed is kept as a list.
\<close>

section \<open>Pages\<close>

text \<open>
  One turn of the loop \<open>while 1\<close>: the inner \<open>for\<close> takes \<open>page_size\<close> items, or runs into the
  end of the sequence, which ends the generator after a last page, if that is not empty.
\<close>

definition paginate_turn :: "int \<Rightarrow> 'a list \<Rightarrow> ('a list \<times> 'a list) + 'a list list" where
  "paginate_turn page_size seq =
     (if int (length seq) < page_size then Inr (if seq = [] then [] else [seq])
      else Inl (take (nat page_size) seq, drop (nat page_size) seq))"

text \<open>The list of all pages, \<open>None\<close> when the generator never ends.\<close>

partial_function (option) paginate :: "int \<Rightarrow> 'a list \<Rightarrow> 'a list list option" where
  "paginate page_size seq =
     (case paginate_turn page_size seq of
        Inr pages \<Rightarrow> Some pages
      | Inl (page, rest) \<Rightarrow>
          Option.bind (paginate page_size rest) (\<lambda>pages. Some (page # pages)))"

lemma paginate_end: "int (length seq) < n \<Longrightarrow> paginate n seq = Some (if seq = [] then [] else [seq])"
  by (subst paginate.simps) (simp add: paginate_turn_def)

lemma paginate_page: "\<not> int (length seq) < n \<Longrightarrow>
    paginate n seq = map_option (\<lambda>ps. take (nat n) seq # ps) (paginate n (drop (nat n) seq))"
  by (subst paginate.simps) (simp add: paginate_turn_def map_conv_bind_option comp_def)

lemma paginate_pages:
  "0 < n \<Longrightarrow> \<exists>pages. paginate n seq = Some pages \<and> concat pages = seq \<and>
     (\<forall>p \<in> set pages. p \<noteq> [] \<and> int (length p) \<le> n) \<and> (\<forall>p \<in> set (butlast pages). int (length p) = n)"
proof (induction "length seq" arbitrary: seq rule: less_induct)
  case less
  show ?case
  proof (cases "int (length seq) < n")
    case True
    then show ?thesis by (simp add: paginate_end)
  next
    case False
    have len: "length (drop (nat n) seq) < length seq" using less.prems False by (cases seq) auto
    from less.hyps [OF len less.prems] obtain ps where ps: "paginate n (drop (nat n) seq) = Some ps"
      "concat ps = drop (nat n) seq" "\<forall>p \<in> set ps. p \<noteq> [] \<and> int (length p) \<le> n"
      "\<forall>p \<in> set (butlast ps). int (length p) = n" by blast
    have t: "int (length (take (nat n) seq)) = n" "take (nat n) seq \<noteq> []"
      using False less.prems by auto
    have "paginate n seq = Some (take (nat n) seq # ps)" using ps(1) False by (simp add: paginate_page)
    moreover have "concat (take (nat n) seq # ps) = seq" using ps(2) by simp
    ultimately show ?thesis
      using ps(3,4) t by (intro exI [of _ "take (nat n) seq # ps"]) (auto split: if_splits)
  qed
qed

text \<open>A page size below one never ends: it makes empty pages for ever.\<close>

lemma paginate_some_size:
  assumes "paginate n seq = Some pages"
  shows "0 < n"
proof (rule paginate.raw_induct [OF _ assms])
  fix f :: "int \<Rightarrow> 'a list \<Rightarrow> 'a list list option" and n seq pages
  assume IH: "\<And>n seq pages. f n seq = Some pages \<Longrightarrow> 0 < n"
    and step: "(case paginate_turn n seq of Inl (page, rest) \<Rightarrow> Option.bind (f n rest) (\<lambda>pages. Some (page # pages))
      | Inr pages \<Rightarrow> Some pages) = Some pages"
  show "0 < n"
  proof (cases "int (length seq) < n")
    case False
    then have "paginate_turn n seq = Inl (take (nat n) seq, drop (nat n) seq)" by (simp add: paginate_turn_def)
    with step show ?thesis by (auto simp: bind_eq_Some_conv intro: IH)
  qed simp
qed

section \<open>Statements in batches\<close>

text \<open>\<open>mogrify\<close> merges arguments into a statement; \<open>run\<close> is the answer of the server.\<close>

record 'a cursor_ops =
  mogrify :: "string \<Rightarrow> 'a \<Rightarrow> string res"
  run :: "string list \<Rightarrow> string \<Rightarrow> unit res"

definition cur_execute :: "'a cursor_ops \<Rightarrow> string \<Rightarrow> (string list, exn, unit) act" where
  "cur_execute cur q sent =
     (case run cur sent q of Inl e \<Rightarrow> (Inl e, sent) | Inr u \<Rightarrow> (Inr (), sent @ [q]))"

fun mogrify_all :: "'a cursor_ops \<Rightarrow> string \<Rightarrow> 'a list \<Rightarrow> string list res" where
  "mogrify_all cur sql [] = Inr []"
| "mogrify_all cur sql (a # as) =
     rbind (mogrify cur sql a) (\<lambda>s. rbind (mogrify_all cur sql as) (\<lambda>ss. Inr (s # ss)))"

fun batch_pages :: "'a cursor_ops \<Rightarrow> string \<Rightarrow> 'a list list \<Rightarrow> (string list, exn, unit) act" where
  "batch_pages cur sql [] = ret ()"
| "batch_pages cur sql (page # pages) =
     sbind (lift_res (mogrify_all cur sql page)) (\<lambda>sqls.
     sbind (cur_execute cur (join '';'' sqls)) (\<lambda>_. batch_pages cur sql pages))"

text \<open>\<open>None\<close>: the loop never ends.\<close>

definition execute_batch ::
  "'a cursor_ops \<Rightarrow> string \<Rightarrow> 'a list \<Rightarrow> int \<Rightarrow> string list \<Rightarrow> ((exn + unit) \<times> string list) option" where
  "execute_batch cur sql argslist page_size sent =
     map_option (\<lambda>pages. batch_pages cur sql pages sent) (paginate page_size argslist)"

section \<open>Splitting on the placeholder\<close>

text \<open>
  \<open>re.split('(%.)', sql)\<close>: text and two-character tokens in turn; the dot does not match a
  newline.  A list item is a token or text as the loop tells them apart: by its length and
  its first character.
\<close>

fun re_split :: "string \<Rightarrow> string \<Rightarrow> string list" where
  "re_split acc [] = [acc]"
| "re_split acc [c] = [acc @ [c]]"
| "re_split acc (c # d # s) =
     (if c = CHR ''%'' \<and> d \<noteq> nl then acc # [c, d] # re_split [] s else re_split (acc @ [c]) (d # s))"

fun split_loop :: "string list \<Rightarrow> string list \<Rightarrow> string list option \<Rightarrow> (string list \<times> string list option) res" where
  "split_loop [] pre post = Inr (pre, post)"
| "split_loop (t # ts) pre post =
     (let add = (\<lambda>x. case post of None \<Rightarrow> split_loop ts (pre @ [x]) None
                        | Some q \<Rightarrow> split_loop ts pre (Some (q @ [x]))) in
      if length t \<noteq> 2 \<or> hd t \<noteq> CHR ''%'' then add t
      else if t ! 1 = CHR ''s'' then
        (case post of None \<Rightarrow> split_loop ts pre (Some []) | Some q \<Rightarrow> Inl ValueError)
      else if t ! 1 = CHR ''%'' then add ''%''
      else Inl ValueError)"

definition split_sql :: "string \<Rightarrow> (string list \<times> string list) res" where
  "split_sql sql =
     rbind (split_loop (re_split [] sql) [] None) (\<lambda>(pre, post).
       case post of None \<Rightarrow> Inl ValueError | Some q \<Rightarrow> Inr (pre, q))"

text \<open>\<open>n_fields\<close> is \<open>len\<close> of an argument, for the template made from the first one.\<close>

definition default_template :: "nat \<Rightarrow> string" where
  "default_template n = ''('' @ join '','' (replicate n ''%s'') @ '')''"

definition values_text :: "string list \<Rightarrow> string list \<Rightarrow> string list \<Rightarrow> string" where
  "values_text pre parts post = concat (butlast (pre @ concat (map (\<lambda>p. [p, '','']) parts)) @ post)"

fun values_pages ::
  "'a cursor_ops \<Rightarrow> ('a \<Rightarrow> nat) \<Rightarrow> string list \<Rightarrow> string list \<Rightarrow> string option \<Rightarrow> 'a list list \<Rightarrow>
   (string list, exn, unit) act" where
  "values_pages cur n_fields pre post tmpl [] = ret ()"
| "values_pages cur n_fields pre post tmpl (page # pages) =
     (let t = (case tmpl of None \<Rightarrow> default_template (n_fields (hd page)) | Some t \<Rightarrow> t) in
      sbind (lift_res (mogrify_all cur t page)) (\<lambda>parts.
      sbind (cur_execute cur (values_text pre parts post)) (\<lambda>_.
      values_pages cur n_fields pre post (Some t) pages)))"

definition execute_values ::
  "'a cursor_ops \<Rightarrow> ('a \<Rightarrow> nat) \<Rightarrow> string \<Rightarrow> 'a list \<Rightarrow> string option \<Rightarrow> int \<Rightarrow> string list \<Rightarrow>
   ((exn + unit) \<times> string list) option" where
  "execute_values cur n_fields sql argslist tmpl page_size sent =
     (case split_sql sql of
        Inl e \<Rightarrow> Some (Inl e, sent)
      | Inr (pre, post) \<Rightarrow>
          map_option (\<lambda>pages. values_pages cur n_fields pre post tmpl pages sent) (paginate page_size argslist))"

section \<open>Waiting\<close>

datatype poll = PollOk | PollRead | PollWrite | PollOther | Interrupted

datatype wait_event = SelectRead | SelectWrite | Cancel

text \<open>
  \<open>wait_select\<close> over the answers of \<open>conn.poll()\<close> and \<open>select\<close>, the \<open>i\<close>th turn getting the
  \<open>i\<close>th; \<open>Interrupted\<close> is a \<open>KeyboardInterrupt\<close> in that turn.
\<close>

definition wait_turn :: "poll \<Rightarrow> wait_event list \<Rightarrow> (exn + unit) option \<times> wait_event list" where
  "wait_turn p evs =
     (case p of
        PollOk \<Rightarrow> (Some (Inr ()), evs)
      | PollRead \<Rightarrow> (None, evs @ [SelectRead])
      | PollWrite \<Rightarrow> (None, evs @ [SelectWrite])
      | PollOther \<Rightarrow> (Some (Inl OperationalError), evs)
      | Interrupted \<Rightarrow> (None, evs @ [Cancel]))"

fun wait_select :: "poll list \<Rightarrow> wait_event list \<Rightarrow> ((exn + unit) \<times> wait_event list) option" where
  "wait_select [] evs = None"
| "wait_select (p # ps) evs =
     (case wait_turn p evs of (Some r, evs') \<Rightarrow> Some (r, evs') | (None, evs') \<Rightarrow> wait_select ps evs')"

section \<open>What is executed\<close>

text \<open>A cursor that merges and executes everything: \<open>m\<close> is what a statement becomes.\<close>

definition accepting :: "'a cursor_ops \<Rightarrow> (string \<Rightarrow> 'a \<Rightarrow> string) \<Rightarrow> bool" where
  "accepting cur m = ((\<forall>q a. mogrify cur q a = Inr (m q a)) \<and> (\<forall>d q. run cur d q = Inr ()))"

lemma mogrify_all_accepting: "accepting cur m \<Longrightarrow> mogrify_all cur q as = Inr (map (m q) as)"
  by (induction as) (auto simp: accepting_def)

lemma cur_execute_accepting: "accepting cur m \<Longrightarrow> cur_execute cur q sent = (Inr (), sent @ [q])"
  by (simp add: cur_execute_def accepting_def)

lemma batch_pages_accepting:
  "accepting cur m \<Longrightarrow> batch_pages cur sql pages sent =
     (Inr (), sent @ map (\<lambda>p. join '';'' (map (m sql) p)) pages)"
  by (induction pages arbitrary: sent) (simp_all add: mogrify_all_accepting cur_execute_accepting)

fun escape_percent :: "string \<Rightarrow> string" where
  "escape_percent [] = []"
| "escape_percent (c # s) = (if c = CHR ''%'' then c # c # escape_percent s else c # escape_percent s)"

text \<open>Adding text to the part before the placeholder, or to the one after it.\<close>

definition grows :: "string list \<times> string list option \<Rightarrow> string \<Rightarrow> string list \<times> string list option \<Rightarrow> bool" where
  "grows st t st' =
     (case (snd st, snd st') of
        (None, None) \<Rightarrow> concat (fst st') = concat (fst st) @ t
      | (Some q, Some q') \<Rightarrow> fst st' = fst st \<and> concat q' = concat q @ t
      | _ \<Rightarrow> False)"

fun add_piece :: "string \<Rightarrow> string list \<times> string list option \<Rightarrow> string list \<times> string list option" where
  "add_piece t (pre, None) = (pre @ [t], None)"
| "add_piece t (pre, Some q) = (pre, Some (q @ [t]))"

definition split_from :: "string list \<Rightarrow> string list \<times> string list option \<Rightarrow> (string list \<times> string list option) res" where
  "split_from ts st = split_loop ts (fst st) (snd st)"

lemma split_from_simps:
  "length t \<noteq> 2 \<or> hd t \<noteq> CHR ''%'' \<Longrightarrow> split_from (t # ts) st = split_from ts (add_piece t st)"
  "split_from (''%%'' # ts) st = split_from ts (add_piece ''%'' st)"
  "split_from [] st = Inr st"
  by (cases st; cases "snd st"; simp add: split_from_def Let_def)+

lemma grows_piece: "grows st t (add_piece t st)"
  by (cases st; cases "snd st") (simp_all add: grows_def)

lemma grows_trans: "grows x s y \<Longrightarrow> grows y t z \<Longrightarrow> grows x (s @ t) z"
  by (auto simp: grows_def split: option.splits)

lemma split_from_escaped:
  assumes "CHR ''%'' \<notin> set acc" and "r = [] \<or> (\<exists>r'. r = ''%s'' @ r')"
  shows "\<exists>st'. grows st (acc @ s) st' \<and>
    split_from (re_split acc (escape_percent s @ r)) st =
      (case r of [] \<Rightarrow> Inr st' | _ \<Rightarrow> split_from (''%s'' # re_split [] (drop 2 r)) st')"
  using assms(1)
proof (induction s arbitrary: acc st)
  case Nil
  have plain: "length acc \<noteq> 2 \<or> hd acc \<noteq> CHR ''%''" using Nil by (cases acc) auto
  show ?case
  proof (cases r)
    case Nil
    have "re_split acc [] = [acc]" by simp
    with Nil plain grows_piece show ?thesis
      by (intro exI [of _ "add_piece acc st"]) (simp add: split_from_simps)
  next
    case (Cons c q)
    with assms(2) obtain r' where "r = ''%s'' @ r'" by auto
    with plain grows_piece show ?thesis
      by (intro exI [of _ "add_piece acc st"]) (simp add: split_from_simps)
  qed
next
  case (Cons c s)
  show ?case
  proof (cases "c = CHR ''%''")
    case False
    have "re_split acc (escape_percent (c # s) @ r) = re_split (acc @ [c]) (escape_percent s @ r)"
    proof (cases "escape_percent s @ r")
      case Nil
      with False show ?thesis by simp
    qed (use False in simp)
    moreover have "CHR ''%'' \<notin> set (acc @ [c])" using Cons.prems False by auto
    ultimately show ?thesis using Cons.IH [of "acc @ [c]" st] by simp
  next
    case True
    have plain: "length acc \<noteq> 2 \<or> hd acc \<noteq> CHR ''%''" using Cons.prems by (cases acc) auto
    let ?st = "add_piece ''%'' (add_piece acc st)"
    have e: "split_from (re_split acc (escape_percent (c # s) @ r)) st =
        split_from (re_split [] (escape_percent s @ r)) ?st"
      using True plain by (simp add: split_from_simps)
    from Cons.IH [of "[]" ?st] obtain st' where st': "grows ?st s st'"
      "split_from (re_split [] (escape_percent s @ r)) ?st =
        (case r of [] \<Rightarrow> Inr st' | _ \<Rightarrow> split_from (''%s'' # re_split [] (drop 2 r)) st')" by auto
    have "grows st (acc @ c # s) st'"
      using grows_trans [OF grows_trans [OF grows_piece grows_piece] st'(1)] True by simp
    with st'(2) e show ?thesis by (intro exI [of _ st']) simp
  qed
qed

lemma split_sql_escaped:
  "\<exists>pre post. split_sql (escape_percent a @ ''%s'' @ escape_percent b) = Inr (pre, post) \<and>
     concat pre = a \<and> concat post = b"
proof -
  obtain p1 q1 where 1: "grows ([], None) a (p1, q1)"
    "split_from (re_split [] (escape_percent a @ ''%s'' @ escape_percent b)) ([], None) =
      split_from (''%s'' # re_split [] (escape_percent b)) (p1, q1)"
    using split_from_escaped [of "[]" "''%s'' @ escape_percent b" "([], None)" a] by auto
  then have q: "q1 = None" "concat p1 = a" by (auto simp: grows_def split: option.splits)
  obtain p2 q2 where 2: "grows (p1, Some []) b (p2, q2)"
    "split_from (re_split [] (escape_percent b)) (p1, Some []) = Inr (p2, q2)"
    using split_from_escaped [of "[]" "[]" "(p1, Some [])" b] by auto
  then obtain q3 where q3: "q2 = Some q3" "p2 = p1" "concat q3 = b" by (auto simp: grows_def split: option.splits)
  have "split_loop (re_split [] (escape_percent a @ ''%s'' @ escape_percent b)) [] None = Inr (p1, Some q3)"
    using 1(2) 2(2) q q3 by (simp add: split_from_def)
  with q q3 show ?thesis by (simp add: split_sql_def)
qed

lemma values_text_join:
  assumes "parts \<noteq> []"
  shows "values_text pre parts post = concat pre @ join '','' parts @ concat post"
proof -
  have J: "join '','' (ps @ [x]) = concat (concat (map (\<lambda>p. [p, '','']) ps)) @ x" for ps x
    by (induction ps) (auto simp: neq_Nil_conv append_eq_Cons_conv, case_tac ps, auto)
  obtain ps x where "parts = ps @ [x]" using assms by (cases parts rule: rev_cases) auto
  then show ?thesis by (simp add: values_text_def butlast_append J)
qed

lemma values_pages_accepting:
  assumes "accepting cur m" and "\<forall>p \<in> set pages. p \<noteq> []"
  shows "values_pages cur n pre post (Some t) pages sent =
    (Inr (), sent @ map (\<lambda>p. concat pre @ join '','' (map (m t) p) @ concat post) pages)"
  using assms(2)
proof (induction pages arbitrary: sent)
  case (Cons p ps)
  have "values_text pre (map (m t) p) post = concat pre @ join '','' (map (m t) p) @ concat post"
    using Cons.prems by (intro values_text_join) simp
  with Cons show ?case
    by (simp add: mogrify_all_accepting [OF assms(1)] cur_execute_accepting [OF assms(1)])
qed simp

section \<open>Properties of the helpers\<close>

text \<open>
  C34. \<open>_paginate\<close> with a positive page size ends, gives every item once and in order, and
  makes pages that are never empty, never larger than the page size, and all but the last
  of exactly that size.
\<close>

theorem paginate_correct:
  assumes "0 < n"
  shows "\<exists>pages. paginate n seq = Some pages \<and> concat pages = seq \<and>
     (\<forall>p \<in> set pages. p \<noteq> [] \<and> int (length p) \<le> n) \<and> (\<forall>p \<in> set (butlast pages). int (length p) = n)"
  using assms by (rule paginate_pages)

lemma paginate_correct_witness:
  "\<exists>pages. paginate 2 [1, 2, 3 :: int] = Some pages \<and> concat pages = [1, 2, 3]"
  using paginate_correct [of 2 "[1, 2, 3 :: int]"] by auto

text \<open>
  With a page size below one it never ends, whatever the sequence: it makes empty pages
  for ever, which its description says it never does.
\<close>

theorem paginate_diverges:
  assumes "n \<le> 0"
  shows "paginate n seq = None \<and> paginate_turn n seq = Inl ([], seq)"
proof
  show "paginate n seq = None" using paginate_some_size [of n seq] assms by (cases "paginate n seq") auto
  show "paginate_turn n seq = Inl ([], seq)" using assms by (simp add: paginate_turn_def)
qed

lemma paginate_diverges_witness: "paginate 0 [1 :: int] = None"
  using paginate_diverges [of 0 "[1 :: int]"] by simp

text \<open>
  \<open>_split_sql\<close> undoes the doubling of percent signs around the one placeholder: the texts
  before and after it come back exactly, whatever they hold, newlines too.
\<close>

theorem split_sql_round_trip:
  "\<exists>pre post. split_sql (escape_percent a @ ''%s'' @ escape_percent b) = Inr (pre, post) \<and>
     concat pre = a \<and> concat post = b"
  by (rule split_sql_escaped)

text \<open>
  \<open>execute_batch\<close> and \<open>execute_values\<close> on a cursor that accepts every statement end, and
  what they execute is one statement for each page of the arguments: the page's merged
  statements joined by semicolons, or the query with the page's merged templates, joined by
  commas, in place of the placeholder.
\<close>

theorem batches_executed:
  assumes "accepting cur m" and "0 < n"
  shows "\<exists>pages. concat pages = as \<and> (\<forall>p \<in> set pages. p \<noteq> [] \<and> int (length p) \<le> n) \<and>
    execute_batch cur sql as n sent = Some (Inr (), sent @ map (\<lambda>p. join '';'' (map (m sql) p)) pages) \<and>
    execute_values cur k (escape_percent a @ ''%s'' @ escape_percent b) as (Some t) n sent =
      Some (Inr (), sent @ map (\<lambda>p. a @ join '','' (map (m t) p) @ b) pages)"
proof -
  obtain pages where pages: "paginate n as = Some pages" "concat pages = as"
    "\<forall>p \<in> set pages. p \<noteq> [] \<and> int (length p) \<le> n" using paginate_pages [OF assms(2), of as] by blast
  obtain pre post where sp: "split_sql (escape_percent a @ ''%s'' @ escape_percent b) = Inr (pre, post)"
    "concat pre = a" "concat post = b" using split_sql_escaped [of a b] by blast
  have "values_pages cur k pre post (Some t) pages sent =
      (Inr (), sent @ map (\<lambda>p. concat pre @ join '','' (map (m t) p) @ concat post) pages)"
    by (rule values_pages_accepting [OF assms(1)]) (use pages(3) in blast)
  then have "execute_values cur k (escape_percent a @ ''%s'' @ escape_percent b) as (Some t) n sent =
      Some (Inr (), sent @ map (\<lambda>p. a @ join '','' (map (m t) p) @ b) pages)"
    by (simp only: execute_values_def sp sum.case prod.case pages(1) option.map)
  moreover have "execute_batch cur sql as n sent = Some (Inr (), sent @ map (\<lambda>p. join '';'' (map (m sql) p)) pages)"
    by (simp add: execute_batch_def pages(1) batch_pages_accepting [OF assms(1)])
  ultimately show ?thesis using pages by blast
qed

definition sample_cursor :: "int cursor_ops" where
  "sample_cursor = \<lparr>mogrify = (\<lambda>q a. Inr (q @ show_int a)), run = (\<lambda>d q. Inr ())\<rparr>"

lemma batches_executed_witness:
  "\<exists>pages. concat pages = [1, 2, 3] \<and>
     execute_batch sample_cursor ''select '' [1, 2, 3] 2 [] =
       Some (Inr (), map (\<lambda>p. join '';'' (map (\<lambda>a. ''select '' @ show_int a) p)) pages)"
proof -
  have a: "accepting sample_cursor (\<lambda>q a. q @ show_int a)" by (simp add: accepting_def sample_cursor_def)
  have p: "(0 :: int) < 2" by simp
  from batches_executed [OF a p, of "[1, 2, 3]" "''select ''" "[]" "\<lambda>_. 0" "[]" "[]" "[]"] show ?thesis
    by (simp only: append_Nil) blast
qed

fun wait_event_of :: "poll \<Rightarrow> wait_event" where
  "wait_event_of PollRead = SelectRead"
| "wait_event_of PollWrite = SelectWrite"
| "wait_event_of _ = Cancel"

text \<open>
  \<open>wait_select\<close> ends exactly when a poll says the connection is done or in a bad state;
  before that it selects for what each poll asks for, and answers each interrupt with one
  cancel and goes on.
\<close>

theorem wait_select_waits:
  assumes "\<forall>p \<in> set ps. p \<noteq> PollOk \<and> p \<noteq> PollOther"
  shows "wait_select (ps @ PollOk # qs) evs = Some (Inr (), evs @ map wait_event_of ps) \<and>
    wait_select (ps @ PollOther # qs) evs = Some (Inl OperationalError, evs @ map wait_event_of ps) \<and>
    wait_select ps evs = None"
  using assms
proof (induction ps arbitrary: evs)
  case (Cons p ps)
  then show ?case by (cases p) (simp_all add: wait_turn_def)
qed (simp add: wait_turn_def)

lemma wait_select_waits_witness:
  "wait_select [PollWrite, Interrupted, PollRead, PollOk] [] = Some (Inr (), [SelectWrite, Cancel, SelectRead])"
  using wait_select_waits [of "[PollWrite, Interrupted, PollRead]" "[]" "[]"] by simp

end
