(* ===== verification/Pg_Types.thy ===== *)
theory Pg_Types
  imports Pg_Range
begin

text \<open>
  The hstore adapter and the composite caster of psycopg2/extras.py: how a dictionary is
  written as SQL, how PostgreSQL's text of an hstore and of a composite value is read, and
  the lookups of their types in the catalog.
\<close>

section \<open>hstore\<close>

text \<open>
  \<open>_getquoted_8\<close> and \<open>_getquoted_9\<close>; \<open>adapt\<close> quotes a text and \<open>adapt_array\<close> a list, for the
  connection that \<open>prepare\<close> was given.
\<close>

definition hstore_getquoted_8 :: "('a \<Rightarrow> string) \<Rightarrow> ('a \<times> 'a option) list \<Rightarrow> string" where
  "hstore_getquoted_8 adapt d =
     (if d = [] then [quote, quote] @ ''::hstore''
      else ''('' @ join ''||'' (map (\<lambda>(k, v). ''('' @ adapt k @ '' => '' @
             (case v of Some x \<Rightarrow> adapt x | None \<Rightarrow> ''NULL'') @ '')'') d) @ '')'')"

definition hstore_getquoted_9 ::
  "('a option list \<Rightarrow> string) \<Rightarrow> ('a \<times> 'a option) list \<Rightarrow> string" where
  "hstore_getquoted_9 adapt_array d =
     (if d = [] then [quote, quote] @ ''::hstore''
      else ''hstore('' @ adapt_array (map (Some \<circ> fst) d) @ '', '' @ adapt_array (map snd d) @ '')'')"

definition hstore_getquoted ::
  "('a \<Rightarrow> string) \<Rightarrow> ('a option list \<Rightarrow> string) \<Rightarrow> nat \<Rightarrow> ('a \<times> 'a option) list \<Rightarrow> string" where
  "hstore_getquoted adapt adapt_array version d =
     (if version < 90000 then hstore_getquoted_8 adapt d else hstore_getquoted_9 adapt_array d)"

text \<open>
  The pieces of \<open>_re_hstore\<close>, each taking the text from its place: a quoted string, after its
  opening quote, up to the first quote that is not escaped; an arrow; the end of a pair.
  The pattern \<open>.\<close> does not match a newline.
\<close>

fun hs_quoted :: "string \<Rightarrow> (string \<times> string) option" where
  "hs_quoted [] = None"
| "hs_quoted (c # s) =
     (if c = dquote then Some ([], s)
      else if c = CHR 0x5C then
        (case s of [] \<Rightarrow> None
         | d # s' \<Rightarrow> if d = nl then None else map_option (\<lambda>(b, r). (c # d # b, r)) (hs_quoted s'))
      else map_option (\<lambda>(b, r). (c # b, r)) (hs_quoted s))"

definition skip_space :: "string \<Rightarrow> string" where
  "skip_space s = dropWhile is_space s"

definition hs_string :: "string \<Rightarrow> (string \<times> string) option" where
  "hs_string s = (case s of c # r \<Rightarrow> if c = dquote then hs_quoted r else None | [] \<Rightarrow> None)"

definition hs_arrow :: "string \<Rightarrow> string option" where
  "hs_arrow s =
     (case skip_space s of
        c # d # r \<Rightarrow> if c = CHR ''='' \<and> d = CHR ''>'' then Some (skip_space r) else None
      | _ \<Rightarrow> None)"

definition hs_value :: "string \<Rightarrow> (string option \<times> string) option" where
  "hs_value s = (if take 4 s = ''NULL'' then Some (None, drop 4 s)
     else map_option (\<lambda>(b, r). (Some b, r)) (hs_string s))"

text \<open>A comma, or the end of the text; before a last newline the pattern \<open>$\<close> matches too.\<close>

definition hs_end :: "string \<Rightarrow> string option" where
  "hs_end s =
     (case skip_space s of
        c # r \<Rightarrow> if c = CHR '','' then Some (skip_space r) else None
      | [] \<Rightarrow> if s = [] \<or> s = [nl] then Some s else None)"

definition hs_match :: "string \<Rightarrow> ((string \<times> string option) \<times> string) option" where
  "hs_match s =
     (case hs_string s of None \<Rightarrow> None
      | Some (k, r) \<Rightarrow>
          (case hs_arrow r of None \<Rightarrow> None
           | Some r1 \<Rightarrow>
               (case hs_value r1 of None \<Rightarrow> None
                | Some (v, r2) \<Rightarrow> map_option (\<lambda>r3. ((k, v), r3)) (hs_end r2))))"

fun bsdec :: "string \<Rightarrow> string" where
  "bsdec [] = []"
| "bsdec [c] = [c]"
| "bsdec (c # d # s) = (if c = CHR 0x5C \<and> d \<noteq> nl then d # bsdec s else c # bsdec (d # s))"

lemma hs_quoted_length: "hs_quoted s = Some (b, r) \<Longrightarrow> length r < length s"
  by (induction s arbitrary: b r rule: hs_quoted.induct)
    (fastforce split: if_splits list.splits)+

lemma hs_string_length: "hs_string s = Some (b, r) \<Longrightarrow> length r < length s"
  by (auto simp: hs_string_def split: list.splits if_splits dest: hs_quoted_length)

lemma skip_space_length: "length (skip_space s) \<le> length s"
  by (simp add: skip_space_def length_dropWhile_le)

lemma hs_arrow_length: "hs_arrow s = Some r \<Longrightarrow> length r \<le> length s"
proof -
  assume "hs_arrow s = Some r"
  then obtain c d q where "skip_space s = c # d # q" "r = skip_space q"
    by (auto simp: hs_arrow_def split: list.splits if_splits)
  with skip_space_length [of s] skip_space_length [of q] show ?thesis by simp
qed

lemma hs_value_length: "hs_value s = Some (v, r) \<Longrightarrow> length r \<le> length s"
  by (auto simp: hs_value_def split: if_splits dest: hs_string_length)

lemma hs_end_length: "hs_end s = Some r \<Longrightarrow> length r \<le> length s"
proof -
  assume "hs_end s = Some r"
  then consider "r = s" | c q where "skip_space s = c # q" "r = skip_space q"
    by (auto simp: hs_end_def split: list.splits if_splits)
  then show ?thesis using skip_space_length [of s] skip_space_length [of "tl (skip_space s)"]
    by cases simp_all
qed

lemma hs_match_length: "hs_match s = Some (x, r) \<Longrightarrow> length r < length s"
  by (auto simp: hs_match_def split: option.splits prod.splits
      dest!: hs_string_length hs_arrow_length hs_value_length hs_end_length)

text \<open>
  The loop over \<open>finditer\<close>.  A match that does not begin where the last one ended raises, and
  so does text that is left when there is no further match: in both cases the text from the
  end of the last match is not empty and does not begin with a match.
\<close>

function hstore_pairs :: "(string \<times> string option) list \<Rightarrow> string \<Rightarrow> (string \<times> string option) list res" where
  "hstore_pairs rv s =
     (case hs_match s of
        Some ((k, v), r) \<Rightarrow> hstore_pairs (dict_set rv (bsdec k) (map_option bsdec v)) r
      | None \<Rightarrow> if s = [] then Inr rv else Inl InterfaceError)"
  by pat_completeness auto
termination
  by (relation "measure (\<lambda>(rv, s). length s)") (auto dest: hs_match_length)

declare hstore_pairs.simps [simp del]

definition hstore_parse :: "string option \<Rightarrow> (string \<times> string option) list option res" where
  "hstore_parse s = (case s of None \<Rightarrow> Inr None | Some t \<Rightarrow> map_sum id Some (hstore_pairs [] t))"

section \<open>Composite values\<close>

text \<open>
  The three alternatives of \<open>_re_tokenize\<close>, tried in order where the scan stands; \<open>finditer\<close>
  skips a character where none of them matches.
\<close>

definition drop_paren :: "string \<Rightarrow> string" where
  "drop_paren s = (case s of c # r \<Rightarrow> if c = CHR ''('' then r else s | [] \<Rightarrow> s)"

definition is_sep :: "char \<Rightarrow> bool" where
  "is_sep c = (c = CHR '','' \<or> c = CHR '')'')"

definition token_empty :: "string \<Rightarrow> string option" where
  "token_empty s = (case drop_paren s of c # r \<Rightarrow> if is_sep c then Some r else None | [] \<Rightarrow> None)"

definition token_quoted :: "string \<Rightarrow> (string \<times> string) option" where
  "token_quoted s =
     (case drop_paren s of
        c # r \<Rightarrow>
          if c = dquote then
            (case quoted_body r of
               Some (b, e # r') \<Rightarrow> if is_sep e then Some (undouble_text b, r') else None
             | _ \<Rightarrow> None)
          else None
      | [] \<Rightarrow> None)"

definition token_plain :: "string \<Rightarrow> (string \<times> string) option" where
  "token_plain s =
     (let t = takeWhile (\<lambda>c. c \<noteq> dquote \<and> \<not> is_sep c) (drop_paren s) in
      case drop (length t) (drop_paren s) of
        e # r \<Rightarrow> if t \<noteq> [] \<and> is_sep e then Some (t, r) else None
      | [] \<Rightarrow> None)"

definition token_match :: "string \<Rightarrow> (string option \<times> string) option" where
  "token_match s =
     (case token_empty s of Some r \<Rightarrow> Some (None, r)
      | None \<Rightarrow>
          (case token_quoted s of Some (b, r) \<Rightarrow> Some (Some b, r)
           | None \<Rightarrow> map_option (\<lambda>(t, r). (Some t, r)) (token_plain s)))"

lemma drop_paren_length: "length (drop_paren s) \<le> length s"
  by (auto simp: drop_paren_def split: list.splits)

lemma quoted_body_length: "quoted_body s = Some (b, r) \<Longrightarrow> length r < length s"
  by (induction s arbitrary: b r rule: quoted_body.induct) (fastforce split: if_splits)+

lemma token_match_length: "token_match s = Some (x, r) \<Longrightarrow> length r < length s"
proof -
  note d = drop_paren_length [of s]
  have 1: "token_empty s = Some r \<Longrightarrow> length r < length s" for r
    using d by (auto simp: token_empty_def split: list.splits if_splits)
  have 2: "token_quoted s = Some (b, r) \<Longrightarrow> length r < length s" for b r
    using d by (auto simp: token_quoted_def split: list.splits if_splits option.splits dest!: quoted_body_length)
  have 3: "token_plain s = Some (b, r) \<Longrightarrow> length r < length s" for b r
  proof -
    assume a: "token_plain s = Some (b, r)"
    define t where "t = takeWhile (\<lambda>c. c \<noteq> dquote \<and> \<not> is_sep c) (drop_paren s)"
    from a obtain e where "drop (length t) (drop_paren s) = e # r"
      unfolding token_plain_def t_def [symmetric] Let_def by (auto split: list.splits if_splits)
    then have "Suc (length r) = length (drop_paren s) - length t" by (metis length_Cons length_drop)
    with d show ?thesis by linarith
  qed
  show "token_match s = Some (x, r) \<Longrightarrow> length r < length s"
    by (auto simp: token_match_def split: option.splits dest: 1 2 3)
qed

function tokenize :: "string \<Rightarrow> string option list" where
  "tokenize s =
     (case token_match s of
        Some (x, r) \<Rightarrow> x # tokenize r
      | None \<Rightarrow> (case s of [] \<Rightarrow> [] | _ # r \<Rightarrow> tokenize r))"
  by pat_completeness auto
termination
  by (relation "measure length") (auto dest: token_match_length)

declare tokenize.simps [simp del]

text \<open>\<open>parse\<close>: \<open>types\<close> are the attributes' types; the values make the tuple.\<close>

definition composite_parse ::
  "('t \<Rightarrow> string option \<Rightarrow> 'v res) \<Rightarrow> 't list \<Rightarrow> string option \<Rightarrow> 'v list option res" where
  "composite_parse cast types s =
     (case s of
        None \<Rightarrow> Inr None
      | Some t \<Rightarrow>
          let tokens = tokenize t in
          if length tokens \<noteq> length types then Inl DatabaseError
          else map_sum id Some
            (fold (\<lambda>(ty, tok) acc. rbind acc (\<lambda>vs. rbind (cast ty tok) (\<lambda>v. Inr (vs @ [v]))))
              (zip types tokens) (Inr [])))"

section \<open>Lookups in the catalog\<close>

text \<open>
  \<open>CompositeCaster._from_db\<close>: \<open>query\<close> answers with the rows of oid, array oid, attribute and
  type, for the type's name and schema.  \<open>HstoreAdapter.get_oids\<close> does the same without a name.
\<close>

definition lookup :: "'r list res \<Rightarrow> (catalog, exn, 'r list) act" where
  "lookup answer c =
     (let c' = c\<lparr>in_transaction := in_transaction c \<or> \<not> autocommit c\<rparr> in
      case answer of
        Inl e \<Rightarrow> (Inl e, c')
      | Inr recs \<Rightarrow>
          sbind (if \<not> in_transaction c \<and> \<not> autocommit c' then roll_back else ret ()) (\<lambda>_. ret recs) c')"

definition composite_from_db ::
  "(string \<Rightarrow> string \<Rightarrow> (nat \<times> nat option \<times> string \<times> nat) list res) \<Rightarrow> string \<Rightarrow>
   (catalog, exn, nat \<times> nat option \<times> (string \<times> nat) list) act" where
  "composite_from_db query name =
     (let (tname, schema) = split_name name in
      sbind (lookup (query tname schema)) (\<lambda>recs.
        case recs of
          [] \<Rightarrow> throw ProgrammingError
        | (oid, array_oid, _) # _ \<Rightarrow> ret (oid, array_oid, map (\<lambda>(o1, o2, n, t). (n, t)) recs)))"

definition hstore_get_oids :: "(nat \<times> nat option) list res \<Rightarrow> (catalog, exn, nat list \<times> nat option list) act" where
  "hstore_get_oids answer = sbind (lookup answer) (\<lambda>recs. ret (map fst recs, map snd recs))"

section \<open>What PostgreSQL prints is read back\<close>

text \<open>
  PostgreSQL prints an hstore as quoted keys and values with an arrow between them and a
  comma and a space between pairs; quotes and backslashes are escaped with a backslash.
\<close>

fun hs_escape :: "string \<Rightarrow> string" where
  "hs_escape [] = []"
| "hs_escape (c # s) = (if c = dquote \<or> c = CHR 0x5C then CHR 0x5C # c # hs_escape s else c # hs_escape s)"

definition hs_pair_text :: "string \<times> string option \<Rightarrow> string" where
  "hs_pair_text kv = [dquote] @ hs_escape (fst kv) @ [dquote] @ ''=>'' @
     (case snd kv of None \<Rightarrow> ''NULL'' | Some v \<Rightarrow> [dquote] @ hs_escape v @ [dquote])"

definition hstore_text :: "(string \<times> string option) list \<Rightarrow> string" where
  "hstore_text d = join '', '' (map hs_pair_text d)"

lemma hs_quoted_escape: "hs_quoted (hs_escape s @ dquote # r) = Some (hs_escape s, r)"
  by (induction s) auto

lemma bsdec_escape: "bsdec (hs_escape s) = s"
proof (induction s)
  case (Cons c s)
  show ?case
  proof (cases "c = dquote \<or> c = CHR 0x5C")
    case False
    have "bsdec (c # t) = c # bsdec t" if "c \<noteq> CHR 0x5C" for t using that by (cases t) auto
    with False Cons show ?thesis by simp
  qed (use Cons in auto)
qed simp

lemma hs_value_text:
  "hs_value ((case v of None \<Rightarrow> ''NULL'' | Some v \<Rightarrow> [dquote] @ hs_escape v @ [dquote]) @ r) =
     Some (map_option hs_escape v, r)"
  by (cases v) (simp_all add: hs_value_def hs_string_def hs_quoted_escape)

lemma skip_space_id: "s = [] \<or> \<not> is_space (hd s) \<Longrightarrow> skip_space s = s"
  by (cases s) (simp_all add: skip_space_def)

lemma is_space_simps [simp]:
  "\<not> is_space (CHR ''='')" "\<not> is_space dquote" "\<not> is_space (CHR ''N'')" "\<not> is_space (CHR '','')" "is_space (CHR '' '')"
  by code_simp+

lemma hs_match_pair:
  assumes "hs_end r = Some r'"
  shows "hs_match (hs_pair_text (k, v) @ r) = Some ((hs_escape k, map_option hs_escape v), r')"
proof -
  let ?v = "case v of None \<Rightarrow> ''NULL'' | Some v \<Rightarrow> [dquote] @ hs_escape v @ [dquote]"
  have k: "hs_string (hs_pair_text (k, v) @ r) = Some (hs_escape k, ''=>'' @ ?v @ r)"
    by (simp add: hs_pair_text_def hs_string_def hs_quoted_escape)
  have "skip_space (?v @ r) = ?v @ r" by (rule skip_space_id) (cases v, simp_all)
  then have "hs_arrow (''=>'' @ ?v @ r) = Some (?v @ r)"
    by (simp add: hs_arrow_def skip_space_id)
  with k hs_value_text [of v r] assms show ?thesis by (simp add: hs_match_def)
qed

lemma hstore_pairs_text:
  "distinct (map fst d) \<Longrightarrow> fst ` set d \<inter> fst ` set rv = {} \<Longrightarrow>
   hstore_pairs rv (hstore_text d) = Inr (rv @ d)"
proof (induction d arbitrary: rv)
  case Nil
  have "hs_match [] = None" by (simp add: hs_match_def hs_string_def)
  then show ?case by (subst hstore_pairs.simps) (simp add: hstore_text_def)
next
  case (Cons kv d)
  obtain k v where kv: "kv = (k, v)" by fastforce
  have dec: "map_option (bsdec \<circ> hs_escape) v = v" by (cases v) (simp_all add: bsdec_escape)
  have new: "dict_set rv k v = rv @ [(k, v)]" using Cons.prems(2) kv by (intro dict_set_new) auto
  have "\<exists>r r'. hstore_text (kv # d) = hs_pair_text (k, v) @ r \<and> hs_end r = Some r' \<and> r' = hstore_text d"
  proof (cases d)
    case Nil
    then show ?thesis by (auto simp: hstore_text_def kv hs_end_def skip_space_def)
  next
    case (Cons x d')
    then have t: "hstore_text d = dquote # tl (hstore_text d)"
      by (cases d') (simp_all add: hstore_text_def hs_pair_text_def)
    have "hstore_text (kv # d) = hs_pair_text (k, v) @ '', '' @ hstore_text d"
      using Cons by (simp add: hstore_text_def kv)
    moreover have "skip_space (hstore_text d) = hstore_text d"
      by (rule skip_space_id) (subst t, simp)
    then have "hs_end ('', '' @ hstore_text d) = Some (hstore_text d)"
      by (simp add: hs_end_def skip_space_def)
    ultimately show ?thesis by blast
  qed
  then obtain r where r: "hstore_text (kv # d) = hs_pair_text (k, v) @ r" "hs_end r = Some (hstore_text d)"
    by blast
  have "hstore_pairs rv (hstore_text (kv # d)) = hstore_pairs (rv @ [(k, v)]) (hstore_text d)"
    unfolding r(1) by (subst hstore_pairs.simps)
      (simp add: hs_match_pair [OF r(2)] bsdec_escape dec new option.map_comp)
  also have "\<dots> = Inr ((rv @ [(k, v)]) @ d)"
    by (rule Cons.IH) (use Cons.prems kv in auto)
  finally show ?case by (simp add: kv)
qed

text \<open>
  PostgreSQL prints a composite value as its fields between parentheses: nothing for NULL, a
  quoted text with quotes and backslashes doubled, or a plain text without special characters.
\<close>

datatype field_text = Null | Quoted string | Plain string

fun field_value :: "field_text \<Rightarrow> string option" where
  "field_value Null = None"
| "field_value (Quoted s) = Some s"
| "field_value (Plain s) = Some s"

fun field_print :: "field_text \<Rightarrow> string" where
  "field_print Null = []"
| "field_print (Quoted s) = [dquote] @ double_text s @ [dquote]"
| "field_print (Plain s) = s"

fun field_ok :: "field_text \<Rightarrow> bool" where
  "field_ok (Plain s) = (s \<noteq> [] \<and> list_all (\<lambda>c. c \<notin> {dquote, CHR '','', CHR ''('', CHR '')''}) s)"
| "field_ok _ = True"

lemma token_match_field:
  assumes "field_ok f" and "is_sep e" and "p = [] \<or> p = ''(''"
  shows "token_match (p @ field_print f @ e # r) = Some (field_value f, r)"
proof -
  have e: "e \<noteq> dquote" "e \<noteq> CHR ''(''" using assms(2) by (auto simp: is_sep_def)
  have dp: "drop_paren (p @ field_print f @ e # r) = field_print f @ e # r"
    using assms(1,3) e by (cases f; cases "field_print f") (auto simp: drop_paren_def split: if_splits)
  show ?thesis
  proof (cases f)
    case Null
    with dp assms(2) show ?thesis by (simp add: token_match_def token_empty_def)
  next
    case (Quoted s)
    have "quoted_body (double_text s @ dquote # e # r) = Some (double_text s, e # r)"
      by (rule quoted_body_double) (simp add: e(1))
    moreover have "\<not> is_sep dquote" by (simp add: is_sep_def)
    ultimately show ?thesis
      using dp assms(2) Quoted by (simp add: token_match_def token_empty_def token_quoted_def undouble_double)
  next
    case (Plain s)
    obtain c s' where s: "s = c # s'" using assms(1) Plain by (cases s) auto
    have c: "c \<noteq> dquote" "\<not> is_sep c" using assms(1) Plain s by (auto simp: is_sep_def)
    have tw: "takeWhile (\<lambda>c. c \<noteq> dquote \<and> \<not> is_sep c) (s @ e # r) = s"
      using assms(1,2) Plain by (subst takeWhile_append2) (auto simp: is_sep_def list_all_iff)
    then have "token_plain (p @ field_print f @ e # r) = Some (s, r)"
      using dp Plain s assms(2) by (simp add: token_plain_def Let_def)
    moreover have "token_empty (p @ field_print f @ e # r) = None" "token_quoted (p @ field_print f @ e # r) = None"
      using dp Plain s c by (simp_all add: token_empty_def token_quoted_def)
    ultimately show ?thesis using Plain by (simp add: token_match_def)
  qed
qed

lemma tokenize_fields:
  assumes "fs \<noteq> []" and "\<forall>f \<in> set fs. field_ok f" and "p = [] \<or> p = ''(''"
  shows "tokenize (p @ join '','' (map field_print fs) @ '')'') = map field_value fs"
  using assms
proof (induction fs arbitrary: p)
  case (Cons f fs)
  have sep: "is_sep (CHR '','')" "is_sep (CHR '')'')" by (simp_all add: is_sep_def)
  have end_text: "tokenize [] = []"
  proof -
    have "token_match [] = None" by (simp add: token_match_def token_empty_def token_quoted_def token_plain_def drop_paren_def)
    then show ?thesis by (subst tokenize.simps) simp
  qed
  show ?case
  proof (cases fs)
    case Nil
    with Cons.prems token_match_field [of f "CHR '')''" p "[]"] sep end_text show ?thesis
      by (subst tokenize.simps) simp
  next
    case (Cons g gs)
    let ?r = "join '','' (map field_print fs) @ '')''"
    have "token_match (p @ field_print f @ CHR '','' # ?r) = Some (field_value f, ?r)"
      using Cons.prems by (intro token_match_field sep) auto
    moreover have "p @ join '','' (map field_print (f # fs)) @ '')'' = p @ field_print f @ CHR '','' # ?r"
      using Cons by simp
    ultimately have "tokenize (p @ join '','' (map field_print (f # fs)) @ '')'') = field_value f # tokenize ?r"
      by (subst tokenize.simps) simp
    with Cons.IH [of "[]"] Cons.prems Cons show ?thesis by simp
  qed
qed simp

section \<open>Properties of composed types\<close>

text \<open>
  C35. An hstore in the form PostgreSQL prints it, with any distinct keys, any values and
  NULLs, is parsed to exactly that dictionary, in its order.
\<close>

theorem hstore_round_trip:
  assumes "distinct (map fst d)"
  shows "hstore_parse (Some (hstore_text d)) = Inr (Some d)"
  using hstore_pairs_text [OF assms, of "[]"] by (simp add: hstore_parse_def)

lemma hstore_round_trip_witness:
  "hstore_parse (Some ''\"a\"=>\"1\", \"b\"=>NULL'') = Inr (Some [(''a'', Some ''1''), (''b'', None)])"
  using hstore_round_trip [of "[(''a'', Some ''1''), (''b'', None)]"]
  by (simp add: hstore_text_def hs_pair_text_def)

text \<open>
  A composite value in the form PostgreSQL prints it is split into exactly its fields:
  NULLs, quoted texts with any characters, and plain texts.
\<close>

theorem tokenize_round_trip:
  assumes "fs \<noteq> []" and "\<forall>f \<in> set fs. field_ok f"
  shows "tokenize (''('' @ join '','' (map field_print fs) @ '')'') = map field_value fs"
  using assms by (rule tokenize_fields) simp

lemma tokenize_round_trip_witness:
  "tokenize ''(1,,\"a,b\")'' = [Some ''1'', None, Some ''a,b'']"
  using tokenize_round_trip [of "[Plain ''1'', Null, Quoted ''a,b'']"] by simp

end
