(* ===== verification/Cursors.thy ===== *)
theory Cursors
  imports Py_Strings
begin

text \<open>
  The cursors of psycopg2/extras.py whose rows know their columns: DictCursor with DictRow,
  RealDictCursor with RealDictRow, NamedTupleCursor.  The index of a DictCursor is an object
  that its rows share and that the cursor fills after it made the first row, so indexes live
  on a heap and rows hold references.  The C cursor underneath is the answer to the last
  statement: the names of its columns, if it has any, and the rows not fetched yet.
\<close>

datatype row_key = ByPos int | ByName string

record dict_row =
  dr_index :: nat
  dr_values :: "string option list"

record dict_cursor =
  heap :: "(string \<times> nat) list list"
  index :: "nat option"
  query_executed :: bool
  description :: "string list option"
  results :: "string option list list"

section \<open>DictCursor\<close>

type_synonym answer = "(string list option \<times> string option list list) res"

definition dict_execute :: "answer \<Rightarrow> (dict_cursor, exn, unit) act" where
  "dict_execute ans c =
     (let c' = c\<lparr>heap := heap c @ [[]], index := Some (length (heap c)), query_executed := True\<rparr> in
      case ans of
        Inl e \<Rightarrow> (Inl e, c'\<lparr>description := None, results := []\<rparr>)
      | Inr (names, rows) \<Rightarrow> (Inr (), c'\<lparr>description := names, results := rows\<rparr>))"

fun fill_index :: "(string \<times> nat) list \<Rightarrow> nat \<Rightarrow> string list \<Rightarrow> (string \<times> nat) list" where
  "fill_index d i [] = d"
| "fill_index d i (n # ns) = fill_index (dict_set d n i) (Suc i) ns"

definition build_index :: "dict_cursor \<Rightarrow> dict_cursor" where
  "build_index c =
     (case (index c, description c) of
        (Some r, Some names) \<Rightarrow>
          if query_executed c \<and> names \<noteq> []
          then c\<lparr>heap := (heap c)[r := fill_index (heap c ! r) 0 names], query_executed := False\<rparr>
          else c
      | _ \<Rightarrow> c)"

text \<open>
  The fetch of the C cursor: it makes a row with the row factory, which reads \<open>cursor.index\<close>,
  and stores the values.
\<close>

definition make_row :: "dict_cursor \<Rightarrow> string option list \<Rightarrow> dict_row res" where
  "make_row c vs =
     (case index c of None \<Rightarrow> Inl AttributeError | Some r \<Rightarrow> Inr \<lparr>dr_index = r, dr_values = vs\<rparr>)"

definition super_fetchone :: "(dict_cursor, exn, dict_row option) act" where
  "super_fetchone c =
     (case description c of
        None \<Rightarrow> (Inl ProgrammingError, c)
      | Some _ \<Rightarrow>
          (case results c of
             [] \<Rightarrow> (Inr None, c)
           | vs # rest \<Rightarrow> (map_sum id Some (make_row c vs), c\<lparr>results := rest\<rparr>)))"

fun make_rows :: "dict_cursor \<Rightarrow> string option list list \<Rightarrow> dict_row list res" where
  "make_rows c [] = Inr []"
| "make_rows c (vs # vss) = rbind (make_row c vs) (\<lambda>r. rbind (make_rows c vss) (\<lambda>rs. Inr (r # rs)))"

definition super_fetchmany :: "nat \<Rightarrow> (dict_cursor, exn, dict_row list) act" where
  "super_fetchmany n c =
     (case description c of
        None \<Rightarrow> (Inl ProgrammingError, c)
      | Some _ \<Rightarrow> (make_rows c (take n (results c)), c\<lparr>results := drop n (results c)\<rparr>))"

definition super_fetchall :: "(dict_cursor, exn, dict_row list) act" where
  "super_fetchall c = super_fetchmany (length (results c)) c"

text \<open>The methods of DictCursorBase for a cursor with \<open>_prefetch = 1\<close>: the row before the index.\<close>

definition after_fetch :: "(dict_cursor, exn, 'a) act \<Rightarrow> (dict_cursor, exn, 'a) act" where
  "after_fetch m = sbind m (\<lambda>res. sbind (modify (\<lambda>c. if query_executed c then build_index c else c)) (\<lambda>_. ret res))"

definition dict_fetchone :: "(dict_cursor, exn, dict_row option) act" where
  "dict_fetchone = after_fetch super_fetchone"

definition dict_fetchmany :: "nat \<Rightarrow> (dict_cursor, exn, dict_row list) act" where
  "dict_fetchmany n = after_fetch (super_fetchmany n)"

definition dict_fetchall :: "(dict_cursor, exn, dict_row list) act" where
  "dict_fetchall = after_fetch super_fetchall"

section \<open>DictRow\<close>

definition row_index :: "(string \<times> nat) list list \<Rightarrow> dict_row \<Rightarrow> (string \<times> nat) list" where
  "row_index h r = h ! dr_index r"

definition row_get :: "(string \<times> nat) list list \<Rightarrow> dict_row \<Rightarrow> row_key \<Rightarrow> string option res" where
  "row_get h r x =
     (case x of
        ByPos i \<Rightarrow> list_get (dr_values r) i
      | ByName n \<Rightarrow> rbind (of_option KeyError (map_of (row_index h r) n)) (\<lambda>i. list_get (dr_values r) (int i)))"

definition row_set ::
  "(string \<times> nat) list list \<Rightarrow> dict_row \<Rightarrow> row_key \<Rightarrow> string option \<Rightarrow> dict_row res" where
  "row_set h r x v =
     map_sum id (\<lambda>vs. r\<lparr>dr_values := vs\<rparr>)
       (case x of
          ByPos i \<Rightarrow> list_set (dr_values r) i v
        | ByName n \<Rightarrow> rbind (of_option KeyError (map_of (row_index h r) n)) (\<lambda>i. list_set (dr_values r) (int i) v))"

definition row_keys :: "(string \<times> nat) list list \<Rightarrow> dict_row \<Rightarrow> string list" where
  "row_keys h r = map fst (row_index h r)"

fun row_pairs :: "string option list \<Rightarrow> (string \<times> nat) list \<Rightarrow> (string \<times> string option) list res" where
  "row_pairs vs [] = Inr []"
| "row_pairs vs ((n, i) # d) =
     rbind (list_get vs (int i)) (\<lambda>v. rbind (row_pairs vs d) (\<lambda>ps. Inr ((n, v) # ps)))"

definition row_items :: "(string \<times> nat) list list \<Rightarrow> dict_row \<Rightarrow> (string \<times> string option) list res" where
  "row_items h r = row_pairs (dr_values r) (row_index h r)"

definition row_get_default ::
  "(string \<times> nat) list list \<Rightarrow> dict_row \<Rightarrow> row_key \<Rightarrow> string option \<Rightarrow> string option" where
  "row_get_default h r x dflt = (case row_get h r x of Inr v \<Rightarrow> v | Inl _ \<Rightarrow> dflt)"

definition row_has :: "(string \<times> nat) list list \<Rightarrow> dict_row \<Rightarrow> string \<Rightarrow> bool" where
  "row_has h r n = (n \<in> fst ` set (row_index h r))"

section \<open>RealDictCursor and RealDictRow\<close>

text \<open>
  Its index is the list of the names; it is built before the row, and the C cursor stores
  the values by position, which \<open>RealDictRow.__setitem__\<close> turns into names.
\<close>

definition real_set :: "string list \<Rightarrow> (string \<times> string option) list \<Rightarrow> row_key \<Rightarrow> string option \<Rightarrow>
    (string \<times> string option) list res" where
  "real_set names d x v =
     (case x of
        ByPos i \<Rightarrow> rbind (list_get names i) (\<lambda>n. Inr (dict_set d n v))
      | ByName n \<Rightarrow> Inr (dict_set d n v))"

fun real_fill :: "string list \<Rightarrow> (string \<times> string option) list \<Rightarrow> nat \<Rightarrow> string option list \<Rightarrow>
    (string \<times> string option) list res" where
  "real_fill names d i [] = Inr d"
| "real_fill names d i (v # vs) =
     rbind (real_set names d (ByPos (int i)) v) (\<lambda>d'. real_fill names d' (Suc i) vs)"

definition real_row :: "string list \<Rightarrow> string option list \<Rightarrow> (string \<times> string option) list res" where
  "real_row names vs = real_fill names [] 0 vs"

section \<open>NamedTupleCursor\<close>

text \<open>\<open>Record\<close> is \<open>None\<close> until the first fetch; \<open>valid\<close> is what \<open>namedtuple\<close> accepts as names.\<close>

record nt_cursor =
  nt_record :: "string list option"
  nt_description :: "string list option"
  nt_results :: "string option list list"

definition nt_execute :: "answer \<Rightarrow> (nt_cursor, exn, unit) act" where
  "nt_execute ans c =
     (case ans of
        Inl e \<Rightarrow> (Inl e, c\<lparr>nt_record := None, nt_description := None, nt_results := []\<rparr>)
      | Inr (names, rows) \<Rightarrow>
          (Inr (), c\<lparr>nt_record := None, nt_description := names, nt_results := rows\<rparr>))"

definition nt_class :: "(string list \<Rightarrow> bool) \<Rightarrow> (nt_cursor, exn, string list) act" where
  "nt_class valid c =
     (case nt_record c of
        Some names \<Rightarrow> (Inr names, c)
      | None \<Rightarrow>
          let names = (case nt_description c of None \<Rightarrow> [] | Some ns \<Rightarrow> ns) in
          if valid names then (Inr names, c\<lparr>nt_record := Some names\<rparr>) else (Inl ValueError, c))"

text \<open>\<open>_make\<close>: a tuple of the class, which has as many values as names.\<close>

definition nt_make :: "string list \<Rightarrow> string option list \<Rightarrow> (string \<times> string option) list res" where
  "nt_make names vs = (if length vs = length names then Inr (zip names vs) else Inl TypeError)"

fun nt_make_all :: "string list \<Rightarrow> string option list list \<Rightarrow> (string \<times> string option) list list res" where
  "nt_make_all names [] = Inr []"
| "nt_make_all names (vs # vss) =
     rbind (nt_make names vs) (\<lambda>t. rbind (nt_make_all names vss) (\<lambda>ts. Inr (t # ts)))"

definition nt_fetchone :: "(string list \<Rightarrow> bool) \<Rightarrow> (nt_cursor, exn, (string \<times> string option) list option) act" where
  "nt_fetchone valid c =
     (case nt_description c of
        None \<Rightarrow> (Inl ProgrammingError, c)
      | Some _ \<Rightarrow>
          (case nt_results c of
             [] \<Rightarrow> (Inr None, c)
           | vs # rest \<Rightarrow>
               sbind (nt_class valid) (\<lambda>names. lift_res (map_sum id Some (nt_make names vs)))
                 (c\<lparr>nt_results := rest\<rparr>)))"

definition nt_fetchmany :: "(string list \<Rightarrow> bool) \<Rightarrow> nat \<Rightarrow> (nt_cursor, exn, (string \<times> string option) list list) act" where
  "nt_fetchmany valid n c =
     (case nt_description c of
        None \<Rightarrow> (Inl ProgrammingError, c)
      | Some _ \<Rightarrow>
          sbind (nt_class valid) (\<lambda>names. lift_res (nt_make_all names (take n (nt_results c))))
            (c\<lparr>nt_results := drop n (nt_results c)\<rparr>))"

definition nt_fetchall :: "(string list \<Rightarrow> bool) \<Rightarrow> (nt_cursor, exn, (string \<times> string option) list list) act" where
  "nt_fetchall valid c = nt_fetchmany valid (length (nt_results c)) c"

section \<open>Lookup by name\<close>

text \<open>The position of the last column of a name.\<close>

definition last_pos :: "string list \<Rightarrow> string \<Rightarrow> nat option" where
  "last_pos names n = map_of (rev (zip names [0..<length names])) n"

lemma fill_index_lookup:
  "map_of (fill_index d i names) n =
     (case map_of (rev (zip names [i..<i + length names])) n of Some k \<Rightarrow> Some k | None \<Rightarrow> map_of d n)"
proof (induction names arbitrary: d i)
  case (Cons m names)
  have "[i..<i + length (m # names)] = i # [Suc i..<Suc i + length names]"
    by (subst upt_conv_Cons) auto
  then show ?case using Cons [of "dict_set d m i" "Suc i"]
    by (auto simp: map_add_def split: option.splits)
qed simp

lemma fill_index_last_pos: "map_of (fill_index [] 0 names) n = last_pos names n"
  by (simp add: fill_index_lookup last_pos_def split: option.split)

lemma last_pos_less: "last_pos names n = Some i \<Longrightarrow> i < length names"
  by (auto simp: last_pos_def dest!: map_of_SomeD set_zip_rightD)

lemma last_pos_None: "last_pos names n = None \<longleftrightarrow> n \<notin> set names"
proof -
  have "fst ` set (zip names [0..<length names]) = set (map fst (zip names [0..<length names]))" by (simp only: set_map)
  also have "map fst (zip names [0..<length names]) = names" by (rule map_fst_zip) simp
  finally show ?thesis by (simp add: last_pos_def map_of_eq_None_iff)
qed

lemma last_pos_nth: "last_pos names n = Some i \<Longrightarrow> names ! i = n"
  by (auto simp: last_pos_def in_set_zip dest!: map_of_SomeD)

lemma last_pos_last:
  assumes "last_pos names n = Some i" and "i < j" and "j < length names"
  shows "names ! j \<noteq> n"
proof
  assume n: "names ! j = n"
  let ?ps = "zip names [0..<length names]"
  have split: "?ps = take j ?ps @ (n, j) # drop (Suc j) ?ps"
    using id_take_nth_drop [of j ?ps] assms(3) n by simp
  have "map_of (rev ?ps) n = (case map_of (rev (drop (Suc j) ?ps)) n of Some k \<Rightarrow> Some k | None \<Rightarrow> Some j)"
    by (subst split) (simp add: map_add_def split: option.split)
  moreover have "k > j" if "map_of (rev (drop (Suc j) ?ps)) n = Some k" for k
  proof -
    from map_of_SomeD [OF that] obtain m where m: "m < length (drop (Suc j) ?ps)" "drop (Suc j) ?ps ! m = (n, k)"
      by (auto simp: in_set_conv_nth)
    then have "?ps ! (Suc j + m) = (n, k)" "Suc j + m < length ?ps" by auto
    then show ?thesis by auto
  qed
  ultimately show False using assms(1,2) unfolding last_pos_def by (fastforce split: option.splits)
qed

lemma make_rows_map: "index c = Some r \<Longrightarrow>
    make_rows c vss = Inr (map (\<lambda>vs. \<lparr>dr_index = r, dr_values = vs\<rparr>) vss)"
  by (induction vss) (simp_all add: make_row_def)

text \<open>After a statement and the first fetch, the current index is the new one, filled.\<close>

lemma dict_fetchmany_run:
  assumes "dict_execute (Inr (Some names, rows)) c = (Inr (), c1)" and "names \<noteq> []"
  shows "dict_fetchmany k c1 =
    (Inr (map (\<lambda>vs. \<lparr>dr_index = length (heap c), dr_values = vs\<rparr>) (take k rows)),
     c1\<lparr>results := drop k rows, heap := heap c @ [fill_index [] 0 names], query_executed := False\<rparr>)"
proof -
  have c1: "c1 = c\<lparr>heap := heap c @ [[]], index := Some (length (heap c)), query_executed := True,
      description := Some names, results := rows\<rparr>"
    using assms(1) by (simp add: dict_execute_def Let_def)
  show ?thesis
    using assms(2) by (simp add: c1 dict_fetchmany_def after_fetch_def super_fetchmany_def sbind_def build_index_def
        make_rows_map)
qed

lemma row_get_name:
  assumes "row_index h r = fill_index [] 0 names" and "length (dr_values r) = length names"
  shows "row_get h r (ByName n) =
    (case last_pos names n of None \<Rightarrow> Inl KeyError | Some i \<Rightarrow> Inr (dr_values r ! i))"
  using assms last_pos_less [of names n]
  by (auto simp: row_get_def fill_index_last_pos split: option.split)

lemma real_fill_run:
  fixes done_vs :: "string option list"
  assumes "length done_vs + length vs \<le> length names"
  shows "real_fill names d (length done_vs) vs =
    Inr (fold (\<lambda>(n, v) d. dict_set d n v) (zip (drop (length done_vs) names) vs) d)"
  using assms
proof (induction vs arbitrary: d done_vs)
  case (Cons v vs)
  have k: "length done_vs < length names" using Cons.prems by simp
  have "drop (length done_vs) names = names ! length done_vs # drop (Suc (length done_vs)) names"
    using k by (simp add: Cons_nth_drop_Suc)
  with Cons.IH [of "done_vs @ [v]"] Cons.prems k show ?case by (simp add: real_set_def)
qed simp

lemma fold_dict_set_lookup:
  "map_of (fold (\<lambda>(n, v) d. dict_set d n v) ps d) n =
     (case map_of (rev ps) n of Some v \<Rightarrow> Some v | None \<Rightarrow> map_of d n)"
  by (induction ps arbitrary: d) (auto simp: map_add_def split: option.splits)

section \<open>Properties of the cursors\<close>

text \<open>
  C40. Rows of a DictCursor: whatever was executed before, a fetch after a statement gives the
  next rows with their values, and in each a column's name stands for the last column of
  that name, a name that is no column's raises \<open>KeyError\<close>.  Executing the statement and
  fetching leaves every index made before as it was, so rows fetched earlier keep theirs.
\<close>

theorem dict_rows_by_name:
  assumes "dict_execute (Inr (Some names, rows)) c = (Inr (), c1)" and "names \<noteq> []"
    and "\<forall>vs \<in> set rows. length vs = length names" and "dict_fetchmany k c1 = (Inr rs, c2)"
  shows "map dr_values rs = take k rows \<and> take (length (heap c)) (heap c2) = heap c \<and>
    (\<forall>r \<in> set rs. row_get (heap c2) r (ByName n) =
      (case last_pos names n of None \<Rightarrow> Inl KeyError | Some i \<Rightarrow> Inr (dr_values r ! i)))"
proof -
  have rs: "rs = map (\<lambda>vs. \<lparr>dr_index = length (heap c), dr_values = vs\<rparr>) (take k rows)"
    and c2: "heap c2 = heap c @ [fill_index [] 0 names]"
    using dict_fetchmany_run [OF assms(1,2), of k] assms(4) by auto
  have "row_get (heap c2) r (ByName n) =
      (case last_pos names n of None \<Rightarrow> Inl KeyError | Some i \<Rightarrow> Inr (dr_values r ! i))" if "r \<in> set rs" for r
  proof (rule row_get_name)
    show "row_index (heap c2) r = fill_index [] 0 names" using that by (auto simp: rs c2 row_index_def)
    show "length (dr_values r) = length names" using that assms(3) by (auto simp: rs dest: in_set_takeD)
  qed
  then show ?thesis by (simp add: rs c2 comp_def)
qed

definition sample_cursor_state :: dict_cursor where
  "sample_cursor_state = \<lparr>heap = [[(''old'', 0)]], index = Some 0, query_executed = False,
     description = Some [''old''], results = []\<rparr>"

lemma dict_rows_by_name_witness:
  "\<exists>rs c2. dict_fetchmany 1 (snd (dict_execute (Inr (Some [''id'', ''x'', ''x''],
       [[Some ''1'', Some ''a'', Some ''b'']])) sample_cursor_state)) = (Inr rs, c2) \<and>
     map (\<lambda>r. row_get (heap c2) r (ByName ''x'')) rs = [Inr (Some ''b'')]"
proof -
  let ?ns = "[''id'', ''x'', ''x'']" and ?rows = "[[Some ''1'', Some ''a'', Some ''b'']]"
  obtain c1 where c1: "dict_execute (Inr (Some ?ns, ?rows)) sample_cursor_state = (Inr (), c1)"
    by (simp add: dict_execute_def Let_def)
  have ns: "?ns \<noteq> []" "\<forall>vs \<in> set ?rows. length vs = length ?ns" by simp_all
  obtain rs c2 where c2: "dict_fetchmany 1 c1 = (Inr rs, c2)"
    using dict_fetchmany_run [OF c1 ns(1), of 1] by auto
  have p: "last_pos ?ns ''x'' = Some 2" by code_simp
  from dict_rows_by_name [OF c1 ns c2, of "''x''"] p
  have "map dr_values rs = ?rows" "\<forall>r \<in> set rs. row_get (heap c2) r (ByName ''x'') = Inr (dr_values r ! 2)"
    by simp_all
  then have "map (\<lambda>r. row_get (heap c2) r (ByName ''x'')) rs = [Inr (Some ''b'')]" by auto
  with c1 c2 show ?thesis by auto
qed

text \<open>
  A row of a RealDictCursor maps each column's name to a value of its row: a name that
  occurs more than once to that of its last column, and no other name to anything.
\<close>

theorem real_row_lookup:
  assumes "length vs = length names"
  shows "\<exists>d. real_row names vs = Inr d \<and>
    map_of d n = map_option (\<lambda>i. vs ! i) (last_pos names n)"
proof -
  let ?d = "fold (\<lambda>(n, v) d. dict_set d n v) (zip names vs) []"
  have run: "real_row names vs = Inr ?d"
    using real_fill_run [of "[]" vs names "[]"] assms by (simp add: real_row_def)
  have "zip names vs = map (\<lambda>(n, i). (n, vs ! i)) (zip names [0..<length names])"
    using assms by (intro nth_equalityI) simp_all
  then have "map_of (rev (zip names vs)) n = map_option (\<lambda>i. vs ! i) (last_pos names n)"
    by (simp add: rev_map map_of_map last_pos_def comp_def)
  moreover have "map_of ?d n = map_of (rev (zip names vs)) n"
    by (simp add: fold_dict_set_lookup split: option.split)
  ultimately show ?thesis using run by simp
qed

lemma real_row_lookup_witness:
  "\<exists>d. real_row [''id'', ''x'', ''x''] [Some ''1'', Some ''a'', None] = Inr d \<and> map_of d ''x'' = Some None"
proof -
  have "length [Some ''1'', Some ''a'', None] = length [''id'', ''x'', ''x'']" by simp
  moreover have "last_pos [''id'', ''x'', ''x''] ''x'' = Some 2" by code_simp
  ultimately show ?thesis using real_row_lookup [of "[Some ''1'', Some ''a'', None]" "[''id'', ''x'', ''x'']" "''x''"]
    by simp
qed

text \<open>
  A NamedTupleCursor makes its class once for a statement, from that statement's columns:
  a fetch gives the rows as tuples under these names; when \<open>namedtuple\<close> refuses the names it
  raises, and the rows it already took from the server are lost.
\<close>

theorem named_tuples:
  assumes "nt_execute (Inr (Some names, rows)) c = (Inr (), c1)" and "\<forall>vs \<in> set rows. length vs = length names"
  shows "if valid names
    then nt_fetchmany valid k c1 = (Inr (map (zip names) (take k rows)),
           c1\<lparr>nt_results := drop k rows, nt_record := Some names\<rparr>)
    else nt_fetchmany valid k c1 = (Inl ValueError, c1\<lparr>nt_results := drop k rows\<rparr>)"
proof -
  have c1: "c1 = c\<lparr>nt_record := None, nt_description := Some names, nt_results := rows\<rparr>"
    using assms(1) by (simp add: nt_execute_def)
  have "nt_make_all names vss = Inr (map (zip names) vss)" if "\<forall>vs \<in> set vss. length vs = length names" for vss
    using that by (induction vss) (simp_all add: nt_make_def)
  then have "nt_make_all names (take k rows) = Inr (map (zip names) (take k rows))"
    using assms(2) by (meson in_set_takeD)
  then show ?thesis by (simp add: c1 nt_fetchmany_def nt_class_def sbind_def)
qed

lemma named_tuples_witness:
  "\<exists>c1. nt_fetchmany (\<lambda>ns. distinct ns) 1 c1 = (Inl ValueError, c1\<lparr>nt_results := []\<rparr>)"
proof -
  let ?c = "\<lparr>nt_record = None, nt_description = None, nt_results = []\<rparr>"
  obtain c1 where c1: "nt_execute (Inr (Some [''x'', ''x''], [[None, None]])) ?c = (Inr (), c1)"
    by (simp add: nt_execute_def)
  have "\<forall>vs \<in> set [[None, None]]. length vs = length [''x'', ''x'']" by simp
  from named_tuples [OF c1 this, of "\<lambda>ns. distinct ns" 1] show ?thesis by auto
qed

end
