(* ===== verification/Py_Values.thy ===== *)
theory Py_Values
  imports Py_Strings Complex_Main
begin

text \<open>
  The readers of the standard library that the constructor of the YAML library uses beside
  those of \<open>Py_Strings\<close>: \<open>int(text, base)\<close>, \<open>float(text)\<close> with the arithmetic of doubles,
  dates with a shift by minutes, and base64.
\<close>

section \<open>Integers to a base\<close>

definition digit_in :: "nat \<Rightarrow> char \<Rightarrow> nat option" where
  "digit_in b c =
     (let v = (if is_digit c then digit_val c
               else if 97 \<le> ord (lower_char c) \<and> ord (lower_char c) \<le> 122 then ord (lower_char c) - 87 else b)
      in if v < b then Some v else None)"

text \<open>What follows a first digit: digits, with single underscores between them.\<close>

fun base_digits :: "nat \<Rightarrow> nat \<Rightarrow> string \<Rightarrow> nat option" where
  "base_digits b acc [] = Some acc"
| "base_digits b acc [c] = map_option (\<lambda>v. b * acc + v) (digit_in b c)"
| "base_digits b acc (c # d # s) =
     (if c = CHR ''_'' then (case digit_in b d of None \<Rightarrow> None | Some v \<Rightarrow> base_digits b (b * acc + v) s)
      else case digit_in b c of None \<Rightarrow> None | Some v \<Rightarrow> base_digits b (b * acc + v) (d # s))"

definition base_letter :: "nat \<Rightarrow> char option" where
  "base_letter b = (if b = 2 then Some CHR ''b'' else if b = 8 then Some CHR ''o'' else if b = 16 then Some CHR ''x'' else None)"

definition drop_base_prefix :: "nat \<Rightarrow> string \<Rightarrow> string" where
  "drop_base_prefix b s =
     (case s of
        z # l # r \<Rightarrow>
          if z = CHR ''0'' \<and> base_letter b = Some (lower_char l)
          then (case r of u # r' \<Rightarrow> if u = CHR ''_'' then r' else r | [] \<Rightarrow> r) else s
      | _ \<Rightarrow> s)"

definition base_number :: "nat \<Rightarrow> string \<Rightarrow> nat option" where
  "base_number b s =
     (case drop_base_prefix b s of
        [] \<Rightarrow> None
      | c # r \<Rightarrow> (case digit_in b c of None \<Rightarrow> None | Some v \<Rightarrow> base_digits b v r))"

definition py_int_base :: "nat \<Rightarrow> string \<Rightarrow> int res" where
  "py_int_base b s = of_option ValueError
     (case strip s of
        [] \<Rightarrow> None
      | c # r \<Rightarrow> if c = CHR ''-'' then map_option (\<lambda>n. - int n) (base_number b r)
                 else if c = CHR ''+'' then map_option int (base_number b r)
                 else map_option int (base_number b (c # r)))"

text \<open>The notation of a number to a base, lower-case digits, for the lemmas.\<close>

definition base_char :: "nat \<Rightarrow> char" where
  "base_char d = (if d < 10 then digit_char d else char_of (d + 87))"

fun show_base :: "nat \<Rightarrow> nat \<Rightarrow> string" where
  "show_base b n = (if b < 2 \<or> n < b then [base_char n] else show_base b (n div b) @ [base_char (n mod b)])"

declare show_base.simps [simp del]

lemma digit_in_base_char: "d < b \<Longrightarrow> b \<le> 16 \<Longrightarrow> digit_in b (base_char d) = Some d"
proof -
  assume d: "d < b" "b \<le> 16"
  show ?thesis
  proof (cases "d < 10")
    case True
    then show ?thesis using d by (simp add: digit_in_def base_char_def)
  next
    case False
    then have "d \<in> {10, 11, 12, 13, 14, 15}" using d by auto
    then show ?thesis using d
      by (auto simp: digit_in_def base_char_def is_digit_def lower_char_def)
  qed
qed

lemma digit_in_not_special: "digit_in b c = Some v \<Longrightarrow> b \<le> 16 \<Longrightarrow> c \<notin> set ''_+-: xo'' \<and> \<not> is_space c \<and> (b \<le> 10 \<longrightarrow> c \<noteq> CHR ''b'')"
  by (auto simp: digit_in_def is_digit_def lower_char_def is_space_def Let_def split: if_splits)

lemma base_digits_append:
  assumes "\<forall>c \<in> set s. digit_in b c \<noteq> None" and "base_digits b a s = Some v" and "b \<le> 16"
  shows "base_digits b a (s @ [c]) = map_option (\<lambda>d. b * v + d) (digit_in b c)"
  using assms
proof (induction b a s arbitrary: v rule: base_digits.induct)
  case (2 b acc x)
  then show ?case using digit_in_not_special [of b x] by auto
next
  case (3 b acc x y s)
  have x: "x \<noteq> CHR ''_''" using 3(3,5) digit_in_not_special [of b x] by auto
  obtain d where d: "digit_in b x = Some d" using 3(3) by auto
  then show ?case using 3(2) [OF x d] 3(3-5) x by simp
qed auto

lemma show_base_digits: "1 < b \<Longrightarrow> b \<le> 16 \<Longrightarrow> \<forall>c \<in> set (show_base b n). digit_in b c \<noteq> None"
proof (induction b n rule: show_base.induct)
  case (1 b n)
  then show ?case
    by (subst show_base.simps) (auto simp: digit_in_base_char)
qed

definition all_digits :: "nat \<Rightarrow> string \<Rightarrow> nat option" where
  "all_digits b s = (case s of [] \<Rightarrow> None | c # r \<Rightarrow> (case digit_in b c of None \<Rightarrow> None | Some v \<Rightarrow> base_digits b v r))"

lemma all_digits_show: "1 < b \<Longrightarrow> b \<le> 16 \<Longrightarrow> all_digits b (show_base b n) = Some n"
proof (induction b n rule: show_base.induct)
  case (1 b n)
  show ?case
  proof (cases "n < b")
    case True
    then show ?thesis using 1 by (subst show_base.simps) (simp add: all_digits_def digit_in_base_char)
  next
    case False
    let ?s = "show_base b (n div b)"
    have IH: "all_digits b ?s = Some (n div b)" using 1 False by simp
    have ds: "\<forall>c \<in> set ?s. digit_in b c \<noteq> None" using show_base_digits 1 by blast
    obtain c r where s: "?s = c # r" using IH by (cases ?s) (auto simp: all_digits_def)
    obtain v where v: "digit_in b c = Some v" "base_digits b v r = Some (n div b)"
      using IH s by (auto simp: all_digits_def split: option.splits)
    have "base_digits b v (r @ [base_char (n mod b)]) = Some n"
      using base_digits_append [of r b v "n div b" "base_char (n mod b)"] v(2) ds s 1 by (simp add: digit_in_base_char)
    then show ?thesis using False 1 s v(1) by (subst show_base.simps) (simp add: all_digits_def)
  qed
qed

lemma py_int_base_digits:
  assumes "all_digits b s = Some n" and "\<forall>c \<in> set s. digit_in b c \<noteq> None" and "b \<in> {2, 8, 16}"
  shows "py_int_base b s = Inr (int n)"
proof -
  have b: "b \<le> 16" using assms(3) by auto
  have sp: "c \<notin> set ''_+-: xo'' \<and> \<not> is_space c \<and> (b \<le> 10 \<longrightarrow> c \<noteq> CHR ''b'')" if "c \<in> set s" for c
    using assms(2) that digit_in_not_special [OF _ b, of c] by auto
  obtain c r where s: "s = c # r" using assms(1) by (cases s) (auto simp: all_digits_def)
  have "strip s = s" unfolding strip_def using sp s by (intro strip_by_id) auto
  moreover have "drop_base_prefix b s = s"
  proof (cases r)
    case (Cons l r')
    have "l \<in> set s" using s Cons by simp
    then have "digit_in b l \<noteq> None" using assms(2) by blast
    have "base_letter b \<noteq> Some (lower_char l)"
    proof
      assume "base_letter b = Some (lower_char l)"
      then have "lower_char l = the (base_letter b)" by simp
      moreover have "ord (the (base_letter b)) = (if b = 2 then 98 else if b = 8 then 111 else 120)"
        using assms(3) by (auto simp: base_letter_def)
      ultimately have "ord (lower_char l) = (if b = 2 then 98 else if b = 8 then 111 else 120)" by simp
      moreover have "is_digit l \<Longrightarrow> ord (lower_char l) \<le> 57" by (auto simp: is_digit_def lower_char_def)
      ultimately show False using \<open>digit_in b l \<noteq> None\<close> assms(3)
        by (auto simp: digit_in_def Let_def split: if_splits)
    qed
    then show ?thesis using s Cons by (simp add: drop_base_prefix_def)
  qed (simp add: s drop_base_prefix_def)
  ultimately show ?thesis
    using assms(1) s sp [of c] by (simp add: py_int_base_def base_number_def all_digits_def)
qed

text \<open>A notation may start with zeros, and its letters may be capitals.\<close>

lemma all_digits_zero:
  assumes "all_digits b s = Some n" and "1 < b"
  shows "all_digits b (CHR ''0'' # s) = Some n"
proof -
  obtain c r v where s: "s = c # r" "digit_in b c = Some v" "base_digits b v r = Some n"
    using assms(1) by (auto simp: all_digits_def split: list.splits option.splits)
  have z: "digit_in b (CHR ''0'') = Some 0" using assms(2) by (simp add: digit_in_def is_digit_def digit_val_def)
  have "c \<noteq> CHR ''_''" using s(2) by (auto simp: digit_in_def is_digit_def lower_char_def Let_def split: if_splits)
  then have "base_digits b 0 (c # r) = Some n" using s by (cases r) auto
  with z s(1) show ?thesis by (simp add: all_digits_def)
qed

definition upper_char :: "char \<Rightarrow> char" where
  "upper_char c = (if 97 \<le> ord c \<and> ord c \<le> 122 then char_of (ord c - 32) else c)"

lemma upper_char_small:
  assumes "97 \<le> ord c" "ord c \<le> 122"
  shows "ord (upper_char c) = ord c - 32" and "lower_char (upper_char c) = c" and "\<not> is_digit (upper_char c)"
proof -
  have m: "(ord c - 32) mod 256 = ord c - 32" using assms by (intro mod_less) linarith
  then show o: "ord (upper_char c) = ord c - 32" using assms by (simp add: upper_char_def)
  have "65 \<le> ord c - 32" "ord c - 32 \<le> 90" "ord c - 32 + 32 = ord c" using assms by linarith+
  then show "lower_char (upper_char c) = c" "\<not> is_digit (upper_char c)"
    using o by (simp_all add: lower_char_def is_digit_def)
qed

lemma digit_in_upper: "digit_in b (upper_char c) = digit_in b c"
proof (cases "97 \<le> ord c \<and> ord c \<le> 122")
  case True
  then have "\<not> is_digit c" "lower_char c = c" by (auto simp: lower_char_def is_digit_def)
  then show ?thesis using True by (simp add: digit_in_def upper_char_small)
qed (auto simp: upper_char_def)

lemma upper_char_underscore: "upper_char c = CHR ''_'' \<longleftrightarrow> c = CHR ''_''"
proof (cases "97 \<le> ord c \<and> ord c \<le> 122")
  case True
  then have "ord (upper_char c) \<le> 90" using upper_char_small(1) [of c] by linarith
  then show ?thesis using True by auto
qed (auto simp: upper_char_def)

lemma base_digits_upper: "base_digits b a (map upper_char s) = base_digits b a s"
  by (induction b a s rule: base_digits.induct)
    (auto simp: digit_in_upper upper_char_underscore split: option.split)

lemma all_digits_upper: "all_digits b (map upper_char s) = all_digits b s"
  by (cases s) (simp_all add: all_digits_def digit_in_upper base_digits_upper split: option.split)

section \<open>Doubles\<close>

text \<open>
  A double is a signed zero, a rational that has 53 bits, an infinity or not a number.
  \<open>to_double\<close> rounds to the nearest, halves to even, with the exponents of IEEE doubles.
\<close>

datatype pyfloat = FZero bool | FNum rat | FInf bool | FNan

function bit_length :: "int \<Rightarrow> nat" where
  "bit_length n = (if n \<le> 0 then 0 else Suc (bit_length (n div 2)))"
  by auto
termination by (relation "measure nat") auto

declare bit_length.simps [simp del]

definition pow2 :: "int \<Rightarrow> rat" where
  "pow2 e = (if 0 \<le> e then 2 ^ nat e else 1 / 2 ^ nat (- e))"

text \<open>\<open>\<lfloor>log2 x\<rfloor>\<close> of a positive \<open>x\<close>.\<close>

definition log2_floor :: "rat \<Rightarrow> int" where
  "log2_floor x =
     (let (p, q) = quotient_of x; k = int (bit_length p) - int (bit_length q)
      in if pow2 k \<le> x then k else k - 1)"

definition round_half_even :: "rat \<Rightarrow> int" where
  "round_half_even x =
     (let f = \<lfloor>x\<rfloor>; d = x - of_int f in
      if d < 1 / 2 then f else if 1 / 2 < d then f + 1 else if even f then f else f + 1)"

definition to_double :: "bool \<Rightarrow> rat \<Rightarrow> pyfloat" where
  "to_double neg x =
     (if x = 0 then FZero neg
      else let e = max (log2_floor x - 52) (- 1074); y = of_int (round_half_even (x / pow2 e)) * pow2 e
           in if y = 0 then FZero neg else if pow2 1024 \<le> y then FInf neg else FNum (if neg then - y else y))"

definition of_rat_double :: "rat \<Rightarrow> pyfloat" where
  "of_rat_double x = to_double (x < 0) \<bar>x\<bar>"

text \<open>\<open>float(text)\<close>, where an underscore is refused: the callers have removed them.\<close>

definition py_float :: "string \<Rightarrow> pyfloat res" where
  "py_float s = of_option ValueError
     (case (case strip s of [] \<Rightarrow> None
            | c # r \<Rightarrow> if c = CHR ''-'' then dec_unsigned True r else if c = CHR ''+'' then dec_unsigned False r
                       else dec_unsigned False (c # r)) of
        Some (Finite neg n e) \<Rightarrow>
          Some (to_double neg (of_nat n * (if 0 \<le> e then 10 ^ nat e else 1 / 10 ^ nat (- e))))
      | Some (Infinite neg) \<Rightarrow> Some (FInf neg)
      | Some (NaN neg signalling payload) \<Rightarrow> if \<not> signalling \<and> payload = [] then Some FNan else None
      | None \<Rightarrow> None)"

fun float_neg :: "pyfloat \<Rightarrow> pyfloat" where
  "float_neg (FZero s) = FZero (\<not> s)"
| "float_neg (FNum x) = FNum (- x)"
| "float_neg (FInf s) = FInf (\<not> s)"
| "float_neg FNan = FNan"

text \<open>A float times a positive integer: the integer is made a float first, or is too large.\<close>

fun float_times :: "pyfloat \<Rightarrow> nat \<Rightarrow> pyfloat res" where
  "float_times x n =
     (case to_double False (of_nat n) of
        FNum y \<Rightarrow> Inr (case x of FNum z \<Rightarrow> of_rat_double (z * y) | _ \<Rightarrow> x)
      | _ \<Rightarrow> Inl OverflowError)"

fun float_add :: "pyfloat \<Rightarrow> pyfloat \<Rightarrow> pyfloat" where
  "float_add FNan y = FNan"
| "float_add x FNan = FNan"
| "float_add (FInf s) (FInf t) = (if s = t then FInf s else FNan)"
| "float_add (FInf s) y = FInf s"
| "float_add x (FInf t) = FInf t"
| "float_add (FZero s) (FZero t) = FZero (s \<and> t)"
| "float_add (FZero s) y = y"
| "float_add x (FZero t) = x"
| "float_add (FNum x) (FNum y) = of_rat_double (x + y)"

section \<open>Dates\<close>

record date =
  d_year :: nat
  d_month :: nat
  d_day :: nat

definition valid_date :: "nat \<Rightarrow> nat \<Rightarrow> nat \<Rightarrow> bool" where
  "valid_date y m d = (1 \<le> y \<and> y \<le> 9999 \<and> 1 \<le> m \<and> m \<le> 12 \<and> 1 \<le> d \<and> d \<le> days_in_month y m)"

definition new_date :: "nat \<Rightarrow> nat \<Rightarrow> nat \<Rightarrow> date res" where
  "new_date y m d = (if valid_date y m d then Inr \<lparr>d_year = y, d_month = m, d_day = d\<rparr> else Inl ValueError)"

definition new_datetime :: "nat \<Rightarrow> nat \<Rightarrow> nat \<Rightarrow> nat \<Rightarrow> nat \<Rightarrow> nat \<Rightarrow> nat \<Rightarrow> datetime res" where
  "new_datetime y m d h mi s us =
     (if valid_date y m d \<and> h \<le> 23 \<and> mi \<le> 59 \<and> s \<le> 59 \<and> us < 1000000
      then Inr \<lparr>year = y, month = m, day = d, hour = h, minute = mi, second = s, microsecond = us\<rparr> else Inl ValueError)"

definition next_day :: "nat \<times> nat \<times> nat \<Rightarrow> nat \<times> nat \<times> nat" where
  "next_day = (\<lambda>(y, m, d). if d < days_in_month y m then (y, m, d + 1) else if m < 12 then (y, m + 1, 1) else (y + 1, 1, 1))"

definition prev_day :: "nat \<times> nat \<times> nat \<Rightarrow> nat \<times> nat \<times> nat" where
  "prev_day = (\<lambda>(y, m, d). if 1 < d then (y, m, d - 1) else if 1 < m then (y, m - 1, days_in_month y (m - 1)) else (y - 1, 12, 31))"

text \<open>\<open>t + timedelta(minutes=k)\<close>: years 1 to 9999, else \<open>OverflowError\<close>.\<close>

definition add_minutes :: "int \<Rightarrow> datetime \<Rightarrow> datetime res" where
  "add_minutes k t =
     (let total = 60 * int (hour t) + int (minute t) + k; days = total div 1440; rest = nat (total mod 1440);
          (y, m, d) = (if 0 \<le> days then (next_day ^^ nat days) (year t, month t, day t)
                       else (prev_day ^^ nat (- days)) (year t, month t, day t))
      in if 1 \<le> y \<and> y \<le> 9999
         then Inr (t\<lparr>year := y, month := m, day := d, hour := rest div 60, minute := rest mod 60\<rparr>) else Inl OverflowError)"

section \<open>Base64\<close>

definition base64_value :: "char \<Rightarrow> nat option" where
  "base64_value c =
     (let n = ord c in
      if 65 \<le> n \<and> n \<le> 90 then Some (n - 65) else if 97 \<le> n \<and> n \<le> 122 then Some (n - 71)
      else if 48 \<le> n \<and> n \<le> 57 then Some (n + 4) else if c = CHR ''+'' then Some 62
      else if c = CHR ''/'' then Some 63 else None)"

text \<open>
  \<open>binascii.a2b_base64\<close>: characters outside the alphabet are skipped; padding that completes
  a group of four ends the text; a group left open is a \<open>binascii.Error\<close>, a \<open>ValueError\<close>.
  \<open>q\<close> is the place in the group, \<open>left\<close> the bits left over, \<open>pads\<close> the padding seen.
\<close>

fun base64_loop :: "string \<Rightarrow> nat \<Rightarrow> nat \<Rightarrow> nat \<Rightarrow> string \<Rightarrow> string option" where
  "base64_loop [] q left pads acc = (if q = 0 then Some acc else None)"
| "base64_loop (c # s) q left pads acc =
     (if c = CHR ''='' then
        (if 2 \<le> q \<and> 4 \<le> q + (pads + 1) then Some acc
         else base64_loop s q left (if 2 \<le> q then pads + 1 else pads) acc)
      else case base64_value c of
        None \<Rightarrow> base64_loop s q left pads acc
      | Some v \<Rightarrow>
          if q = 0 then base64_loop s 1 v 0 acc
          else if q = 1 then base64_loop s 2 (v mod 16) 0 (acc @ [char_of (left * 4 + v div 16)])
          else if q = 2 then base64_loop s 3 (v mod 4) 0 (acc @ [char_of (left * 16 + v div 4)])
          else base64_loop s 0 0 0 (acc @ [char_of (left * 64 + v)]))"

definition base64_decode :: "string \<Rightarrow> string res" where
  "base64_decode s = of_option ValueError (base64_loop s 0 0 0 [])"

end
