(* ===== verification/Pg_Connect.thy ===== *)
theory Pg_Connect
  imports Pg_Types Py_Values
begin

text \<open>
  The way into psycopg2: \<open>connect\<close> of its \<open>__init__.py\<close>, the connection strings and the
  adapters of \<open>extensions.py\<close>, the JSON adapter and its types of \<open>_json.py\<close>, the casters of
  \<open>_ipaddress.py\<close>, and the interface of psycopg 1 in \<open>psycopg1.py\<close>.  \<open>parse_dsn\<close>, which is
  libpq's, what \<open>adapt\<close> finds for an object and the C classes are parameters.
\<close>

section \<open>Connection strings\<close>

text \<open>\<open>_param_escape\<close>: \<open>re_escape\<close> puts a backslash before backslashes and quotes.\<close>

fun escape_param :: "string \<Rightarrow> string" where
  "escape_param [] = []"
| "escape_param (c # s) = (if c = CHR 0x5C \<or> c = quote then CHR 0x5C # c # escape_param s else c # escape_param s)"

definition param_escape :: "string \<Rightarrow> string" where
  "param_escape s =
     (if s = [] then [quote, quote]
      else let s = escape_param s in if list_ex is_space s then quote # s @ [quote] else s)"

text \<open>The keywords are a dict; a value is \<open>None\<close> or has the text \<open>str\<close> gives.\<close>

type_synonym kwdict = "(string \<times> string option) list"

definition rename_database :: "kwdict \<Rightarrow> kwdict res" where
  "rename_database kwargs =
     (case map_of kwargs ''database'' of
        None \<Rightarrow> Inr kwargs
      | Some v \<Rightarrow> if map_of kwargs ''dbname'' \<noteq> None then Inl TypeError
          else Inr (dict_set (dict_del ''database'' kwargs) ''dbname'' v))"

definition given :: "kwdict \<Rightarrow> (string \<times> string) list" where
  "given kwargs = concat (map (\<lambda>(k, v). case v of None \<Rightarrow> [] | Some t \<Rightarrow> [(k, t)]) kwargs)"

definition dsn_text :: "(string \<times> string) list \<Rightarrow> string" where
  "dsn_text d = join '' '' (map (\<lambda>(k, v). k @ ''='' @ param_escape v) d)"

definition make_dsn :: "(string \<Rightarrow> (string \<times> string) list res) \<Rightarrow> string option \<Rightarrow> kwdict \<Rightarrow> string res" where
  "make_dsn parse_dsn dsn kwargs =
     (if kwargs = [] then
        (case dsn of None \<Rightarrow> Inr [] | Some t \<Rightarrow> rbind (parse_dsn t) (\<lambda>_. Inr t))
      else
        rbind (rename_database kwargs) (\<lambda>kwargs.
        let kwargs = given kwargs in
        rbind (case dsn of None \<Rightarrow> Inr kwargs | Some t \<Rightarrow> rbind (parse_dsn t) (\<lambda>tmp. Inr (dict_update tmp kwargs))) (\<lambda>d.
        rbind (parse_dsn (dsn_text d)) (\<lambda>_. Inr (dsn_text d)))))"

text \<open>
  \<open>connect\<close>: the keywords \<open>async\<close> and \<open>async_\<close> are taken out and handed to the C function
  \<open>_connect\<close> beside the connection string.
\<close>

definition connect ::
  "(string \<Rightarrow> (string \<times> string) list res) \<Rightarrow> (string \<Rightarrow> kwdict \<Rightarrow> 'conn res) \<Rightarrow> ('conn \<Rightarrow> 'conn) option \<Rightarrow>
   string option \<Rightarrow> kwdict \<Rightarrow> 'conn res" where
  "connect parse_dsn open_connection set_factory dsn kwargs =
     (let async = filter (\<lambda>(k, v). k = ''async'') kwargs @ filter (\<lambda>(k, v). k = ''async_'') kwargs;
          kwargs = dict_del ''async_'' (dict_del ''async'' kwargs) in
      if dsn = None \<and> kwargs = [] then Inl TypeError
      else rbind (make_dsn parse_dsn dsn kwargs) (\<lambda>dsn.
        rbind (open_connection dsn async) (\<lambda>conn. Inr (case set_factory of None \<Rightarrow> conn | Some f \<Rightarrow> f conn))))"

section \<open>Adapters\<close>

fun rmap :: "('a \<Rightarrow> 'b res) \<Rightarrow> 'a list \<Rightarrow> 'b list res" where
  "rmap f [] = Inr []"
| "rmap f (x # xs) = rbind (f x) (\<lambda>y. rbind (rmap f xs) (\<lambda>ys. Inr (y # ys)))"

text \<open>
  \<open>adapters[(typ, ISQLQuote)] = callable\<close>, and \<open>SQL_IN.getquoted\<close>: every object is adapted,
  then prepared for the connection if there is one, then quoted.
\<close>

definition register_adapter :: "('t \<times> 'a) list \<Rightarrow> 't \<Rightarrow> 'a \<Rightarrow> ('t \<times> 'a) list" where
  "register_adapter adapters typ callable = dict_set adapters typ callable"

definition sql_in_getquoted ::
  "('a \<Rightarrow> 'o res) \<Rightarrow> ('conn \<Rightarrow> 'o \<Rightarrow> 'o res) \<Rightarrow> ('o \<Rightarrow> string res) \<Rightarrow> 'conn option \<Rightarrow> 'a list \<Rightarrow> string res" where
  "sql_in_getquoted adapt prepare getquoted conn xs =
     rbind (rmap adapt xs) (\<lambda>pobjs.
     rbind (case conn of None \<Rightarrow> Inr pobjs | Some c \<Rightarrow> rmap (prepare c) pobjs) (\<lambda>pobjs.
     rbind (rmap getquoted pobjs) (\<lambda>qobjs. Inr (''('' @ join '', '' qobjs @ '')''))))"

definition none_getquoted :: string where
  "none_getquoted = ''NULL''"

text \<open>
  \<open>Json\<close>: its \<open>dumps\<close> is the one it is given or the one of the module; \<open>QuotedString\<close> quotes
  the text.  A JSON value that is not NULL is read with \<open>loads\<close>.
\<close>

definition json_getquoted :: "('a \<Rightarrow> string res) \<Rightarrow> ('a \<Rightarrow> string res) option \<Rightarrow> (string \<Rightarrow> string) \<Rightarrow> 'a \<Rightarrow> string res" where
  "json_getquoted json_dumps dumps quoted_string obj =
     rbind ((case dumps of None \<Rightarrow> json_dumps | Some f \<Rightarrow> f) obj) (\<lambda>s. Inr (quoted_string s))"

definition typecast_json :: "(string \<Rightarrow> 'a res) \<Rightarrow> string option \<Rightarrow> 'a option res" where
  "typecast_json loads s = (case s of None \<Rightarrow> Inr None | Some t \<Rightarrow> map_sum id Some (loads t))"

text \<open>A caster is registered by its oids, its name and how it reads a text.\<close>

record 'a caster =
  c_oids :: "nat list"
  c_name :: string
  c_read :: "string option \<Rightarrow> 'a option res"
  c_array :: bool

definition create_json_typecasters ::
  "nat \<Rightarrow> nat option \<Rightarrow> (string \<Rightarrow> 'a res) \<Rightarrow> string \<Rightarrow> 'a caster \<times> 'a caster option" where
  "create_json_typecasters oid array_oid loads name =
     (let JSON = \<lparr>c_oids = [oid], c_name = name, c_read = typecast_json loads, c_array = False\<rparr> in
      (JSON, map_option (\<lambda>a. \<lparr>c_oids = [a], c_name = name @ ''ARRAY'', c_read = typecast_json loads, c_array = True\<rparr>) array_oid))"

text \<open>
  \<open>_solve_conn_curs\<close>, and \<open>_get_json_oids\<close>: the first row of the catalog's answer for the
  column of array types, which an old server does not have, and the name of the type.
\<close>

definition solve_conn_curs :: "'conn option \<Rightarrow> (catalog, exn, 'conn) act" where
  "solve_conn_curs conn_or_curs = (case conn_or_curs of None \<Rightarrow> throw ProgrammingError | Some c \<Rightarrow> ret c)"

definition typarray :: "catalog \<Rightarrow> string" where
  "typarray c = (if 80300 \<le> server_version c then ''typarray'' else ''NULL'')"

definition get_json_oids ::
  "(string \<Rightarrow> string \<Rightarrow> (nat \<times> nat option) list res) \<Rightarrow> 'conn option \<Rightarrow> string \<Rightarrow> (catalog, exn, nat \<times> nat option) act" where
  "get_json_oids query conn_or_curs name =
     sbind (solve_conn_curs conn_or_curs) (\<lambda>_.
     sbind (\<lambda>c. lookup (query (typarray c) name) c) (\<lambda>recs.
     case recs of [] \<Rightarrow> throw ProgrammingError | r # _ \<Rightarrow> ret r))"

text \<open>
  \<open>register_json\<close>: the two types, and what is registered in which scope: \<open>None\<close> is global.
\<close>

definition scope :: "bool \<Rightarrow> 'conn option \<Rightarrow> 'conn option" where
  "scope globally conn_or_curs = (if globally then None else conn_or_curs)"

definition register_json ::
  "(string \<Rightarrow> string \<Rightarrow> (nat \<times> nat option) list res) \<Rightarrow> (string \<Rightarrow> 'a res) \<Rightarrow> 'conn option \<Rightarrow> bool \<Rightarrow>
   nat option \<Rightarrow> nat option \<Rightarrow> string \<Rightarrow>
   (catalog, exn, 'a caster \<times> 'a caster option \<times> ('a caster \<times> 'conn option) list) act" where
  "register_json query loads conn_or_curs globally oid array_oid name =
     sbind (case oid of None \<Rightarrow> get_json_oids query conn_or_curs name | Some i \<Rightarrow> ret (i, array_oid)) (\<lambda>(oid, array_oid).
     let (JSON, JSONARRAY) = create_json_typecasters oid array_oid loads (map upper_char name);
         sc = scope globally conn_or_curs
     in ret (JSON, JSONARRAY,
       (JSON, sc) # (case JSONARRAY of None \<Rightarrow> [] | Some a \<Rightarrow> [(a, sc)])))"

definition register_default_json ::
  "(string \<Rightarrow> string \<Rightarrow> (nat \<times> nat option) list res) \<Rightarrow> (string \<Rightarrow> 'a res) \<Rightarrow> 'conn option \<Rightarrow> bool \<Rightarrow>
   (catalog, exn, 'a caster \<times> 'a caster option \<times> ('a caster \<times> 'conn option) list) act" where
  "register_default_json query loads conn_or_curs globally =
     register_json query loads conn_or_curs globally (Some 114) (Some 199) ''json''"

definition register_default_jsonb ::
  "(string \<Rightarrow> string \<Rightarrow> (nat \<times> nat option) list res) \<Rightarrow> (string \<Rightarrow> 'a res) \<Rightarrow> 'conn option \<Rightarrow> bool \<Rightarrow>
   (catalog, exn, 'a caster \<times> 'a caster option \<times> ('a caster \<times> 'conn option) list) act" where
  "register_default_jsonb query loads conn_or_curs globally =
     register_json query loads conn_or_curs globally (Some 3802) (Some 3807) ''jsonb''"

text \<open>The casters of addresses, where \<open>ip_interface\<close> and \<open>ip_network\<close> are Python's.\<close>

definition cast_address :: "(string \<Rightarrow> 'ip res) \<Rightarrow> string option \<Rightarrow> 'ip option res" where
  "cast_address read s = (case s of None \<Rightarrow> Inr None | Some t \<Rightarrow> map_sum id Some (read t))"

definition make_casters :: "(string \<Rightarrow> 'ip res) \<Rightarrow> (string \<Rightarrow> 'ip res) \<Rightarrow> 'ip caster list" where
  "make_casters ip_interface ip_network =
     [\<lparr>c_oids = [869], c_name = ''INET'', c_read = cast_address ip_interface, c_array = False\<rparr>,
      \<lparr>c_oids = [1041], c_name = ''INET[]'', c_read = cast_address ip_interface, c_array = True\<rparr>,
      \<lparr>c_oids = [650], c_name = ''CIDR'', c_read = cast_address ip_network, c_array = False\<rparr>,
      \<lparr>c_oids = [651], c_name = ''CIDR[]'', c_read = cast_address ip_network, c_array = True\<rparr>]"

text \<open>
  \<open>register_ipaddress\<close>: the casters are made once and kept in \<open>_casters\<close>; the adapters of the
  four classes quote the text of an address.
\<close>

record 'ip ip_state =
  ip_casters :: "'ip caster list option"
  ip_registered :: "'ip caster list"
  ip_adapters :: "(string \<times> ('ip \<Rightarrow> string)) list"

definition adapt_ipaddress :: "(string \<Rightarrow> string) \<Rightarrow> ('ip \<Rightarrow> string) \<Rightarrow> 'ip \<Rightarrow> string" where
  "adapt_ipaddress quoted_string str_of obj = quoted_string (str_of obj)"

definition register_ipaddress ::
  "(string \<Rightarrow> 'ip res) \<Rightarrow> (string \<Rightarrow> 'ip res) \<Rightarrow> ('ip \<Rightarrow> string) \<Rightarrow> 'ip ip_state \<Rightarrow> 'ip ip_state" where
  "register_ipaddress ip_interface ip_network adapt s =
     (let cs = (case ip_casters s of None \<Rightarrow> make_casters ip_interface ip_network | Some cs \<Rightarrow> cs) in
      s\<lparr>ip_casters := Some cs, ip_registered := ip_registered s @ cs,
        ip_adapters := foldl (\<lambda>d t. register_adapter d t adapt) (ip_adapters s)
          [''IPv4Interface'', ''IPv6Interface'', ''IPv4Network'', ''IPv6Network'']\<rparr>)"

section \<open>psycopg 1\<close>

text \<open>\<open>__build_dict\<close>: a column that comes twice keeps its last value.\<close>

fun build_dict :: "string list \<Rightarrow> string option list \<Rightarrow> nat \<Rightarrow> (string \<times> string option) list \<Rightarrow> (string \<times> string option) list res" where
  "build_dict [] row i res = Inr res"
| "build_dict (n # ns) row i res = rbind (list_get row (int i)) (\<lambda>v. build_dict ns row (Suc i) (dict_set res n v))"

definition dictfetchone :: "string list \<Rightarrow> string option list option \<Rightarrow> (string \<times> string option) list option res" where
  "dictfetchone names row =
     (case row of None \<Rightarrow> Inr None | Some r \<Rightarrow> if r = [] then Inr (Some []) else map_sum id Some (build_dict names r 0 []))"

definition dictfetchall :: "string list \<Rightarrow> string option list list \<Rightarrow> (string \<times> string option) list list res" where
  "dictfetchall names rows = rmap (\<lambda>r. build_dict names r 0 []) rows"

datatype isolation = Autocommit | ReadCommitted

definition psycopg1_autocommit :: "int \<Rightarrow> isolation" where
  "psycopg1_autocommit on_off = (if 0 < on_off then Autocommit else ReadCommitted)"


section \<open>Connection strings are read back\<close>

text \<open>
  The syntax that PostgreSQL documents for connection strings, as a reader: settings \<open>k=v\<close>
  with space between them; a value stands between single quotes or ends at a space, and a
  backslash in it makes the next character an ordinary one.
\<close>

fun quoted_value :: "string \<Rightarrow> (string \<times> string) option" where
  "quoted_value [] = None"
| "quoted_value [c] = (if c = quote then Some ([], []) else None)"
| "quoted_value (c # d # s) =
     (if c = quote then Some ([], d # s)
      else if c = CHR 0x5C then map_option (\<lambda>(v, r). (d # v, r)) (quoted_value s)
      else map_option (\<lambda>(v, r). (c # v, r)) (quoted_value (d # s)))"

fun plain_value :: "string \<Rightarrow> string \<times> string" where
  "plain_value [] = ([], [])"
| "plain_value [c] = (if is_space c then ([], [c]) else ([c], []))"
| "plain_value (c # d # s) =
     (if is_space c then ([], c # d # s)
      else if c = CHR 0x5C then (case plain_value s of (v, r) \<Rightarrow> (d # v, r))
      else (case plain_value (d # s) of (v, r) \<Rightarrow> (c # v, r)))"

definition read_value :: "string \<Rightarrow> (string \<times> string) option" where
  "read_value s = (case s of [] \<Rightarrow> Some ([], []) | c # r \<Rightarrow> if c = quote then quoted_value r else Some (plain_value s))"

lemma quoted_value_length: "quoted_value s = Some (v, r) \<Longrightarrow> length r < length s"
  by (induction s arbitrary: v r rule: quoted_value.induct) (fastforce split: if_splits)+

lemma plain_value_length: "plain_value s = (v, r) \<Longrightarrow> length r \<le> length s"
  by (induction s arbitrary: v r rule: plain_value.induct) (fastforce split: if_splits prod.splits)+

lemma read_value_length: "read_value s = Some (v, r) \<Longrightarrow> length r \<le> length s"
  by (auto simp: read_value_def split: list.splits if_splits dest!: quoted_value_length dest: plain_value_length)

lemma dropWhile_rest: "dropWhile p s = c # r \<Longrightarrow> length r < length s"
  using length_dropWhile_le [of p s] by simp

function read_settings :: "string \<Rightarrow> (string \<times> string) list option" where
  "read_settings s =
     (case dropWhile is_space s of
        [] \<Rightarrow> Some []
      | t \<Rightarrow>
          (case dropWhile (\<lambda>c. c \<noteq> CHR ''='' \<and> \<not> is_space c) t of
             e # r \<Rightarrow> if e \<noteq> CHR ''='' then None
               else (case read_value r of None \<Rightarrow> None
                 | Some (v, r') \<Rightarrow> map_option (\<lambda>d. (takeWhile (\<lambda>c. c \<noteq> CHR ''='' \<and> \<not> is_space c) t, v) # d) (read_settings r'))
           | [] \<Rightarrow> None))"
  by auto
termination
  by (relation "measure length") (auto dest!: dropWhile_rest read_value_length split: if_splits)

declare read_settings.simps [simp del]


lemma plain_value_escaped:
  "\<not> list_ex is_space v \<Longrightarrow> r = [] \<or> is_space (hd r) \<Longrightarrow> plain_value (escape_param v @ r) = (v, r)"
proof (induction v)
  case Nil
  then show ?case by (cases r rule: plain_value.cases) auto
next
  case (Cons c v)
  have e: "plain_value (CHR 0x5C # c # escape_param v @ r) = (c # v, r)" using Cons by (simp add: is_space_def)
  show ?case
  proof (cases "c = CHR 0x5C \<or> c = quote")
    case True
    then show ?thesis using e by simp
  next
    case False
    have "plain_value (c # t) = (c # fst (plain_value t), snd (plain_value t))" for t
      using Cons.prems(1) False by (cases t) (auto split: prod.split)
    then show ?thesis using False Cons by simp
  qed
qed

lemma quoted_value_escaped: "quoted_value (escape_param v @ quote # r) = Some (v, r)"
proof (induction v)
  case Nil
  then show ?case by (cases r) auto
next
  case (Cons c v)
  show ?case
  proof (cases "c = CHR 0x5C \<or> c = quote")
    case True
    then show ?thesis using Cons by simp
  next
    case False
    obtain d t where t: "escape_param v @ quote # r = d # t" by (cases "escape_param v @ quote # r") auto
    then show ?thesis using Cons False by simp
  qed
qed

lemma list_ex_escape: "list_ex is_space (escape_param v) = list_ex is_space v"
  by (induction v) (auto simp: is_space_def)

lemma read_param: "r = [] \<or> is_space (hd r) \<Longrightarrow> read_value (param_escape v @ r) = Some (v, r)"
proof (cases v)
  case Nil
  then show ?thesis by (simp add: read_value_def param_escape_def) (cases r; simp)
next
  case (Cons c w)
  assume r: "r = [] \<or> is_space (hd r)"
  show ?thesis
  proof (cases "list_ex is_space v")
    case True
    then show ?thesis using Cons quoted_value_escaped [of v r]
      by (simp add: read_value_def param_escape_def list_ex_escape Let_def del: escape_param.simps)
  next
    case False
    obtain d t where t: "escape_param v = d # t" "d \<noteq> quote" using Cons by (cases "c = CHR 0x5C \<or> c = quote") auto
    have "param_escape v = escape_param v" using False Cons by (simp add: param_escape_def list_ex_escape Let_def del: escape_param.simps)
    then show ?thesis using t plain_value_escaped [OF False r] by (simp add: read_value_def)
  qed
qed

text \<open>A keyword: a word without an equals sign.\<close>

definition keyword :: "string \<Rightarrow> bool" where
  "keyword k = (k \<noteq> [] \<and> (\<forall>c \<in> set k. c \<noteq> CHR ''='' \<and> \<not> is_space c))"

lemma settings_step:
  assumes k: "keyword k" and r: "r = [] \<or> is_space (hd r)"
  shows "read_settings (k @ ''='' @ param_escape v @ r) = map_option (\<lambda>d. (k, v) # d) (read_settings r)"
proof -
  let ?p = "\<lambda>c. c \<noteq> CHR ''='' \<and> \<not> is_space c"
  obtain c k' where c: "k = c # k'" "\<not> is_space c" using k by (cases k) (auto simp: keyword_def)
  have drop: "dropWhile ?p (k @ CHR ''='' # t) = CHR ''='' # t" "takeWhile ?p (k @ CHR ''='' # t) = k" for t
    using k by (auto simp: keyword_def dropWhile_append takeWhile_append)
  show ?thesis
    using read_param [OF r, of v] drop c by (subst read_settings.simps) (simp del: dropWhile.simps takeWhile.simps add: dropWhile.simps(2) [of is_space])
qed

lemma settings_read: "\<forall>(k, v) \<in> set d. keyword k \<Longrightarrow> read_settings (dsn_text d) = Some d"
proof (induction d)
  case Nil
  then show ?case by (simp add: dsn_text_def read_settings.simps)
next
  case (Cons x d)
  obtain k v where x: "x = (k, v)" by (cases x)
  show ?case
  proof (cases d)
    case Nil
    then show ?thesis using settings_step [of k "[]" v] Cons.prems x by (simp add: dsn_text_def read_settings.simps [of "[]"])
  next
    case (Cons y d')
    have "dsn_text (x # d) = k @ ''='' @ param_escape v @ CHR '' '' # dsn_text d" using x Cons by (simp add: dsn_text_def)
    moreover have "read_settings (CHR '' '' # s) = read_settings s" for s
      by (subst (1 2) read_settings.simps) (simp add: is_space_def)
    ultimately show ?thesis using settings_step [of k "CHR '' '' # dsn_text d" v] Cons.IH Cons.prems x by (simp add: is_space_def)
  qed
qed


section \<open>The settings of a connection\<close>

lemma given_keys: "fst ` set (given kw) \<subseteq> fst ` set kw"
  unfolding given_def by (force split: option.splits)

lemma given_lookup:
  "distinct (map fst kw) \<Longrightarrow> map_of (given kw) k = (case map_of kw k of Some (Some v) \<Rightarrow> Some v | _ \<Rightarrow> None)"
proof (induction kw)
  case (Cons x kw)
  then have "map_of (given kw) (fst x) = None" using given_keys [of kw] by (auto simp: map_of_eq_None_iff)
  then show ?case using Cons by (cases x) (auto simp: given_def split: option.splits)
qed (simp add: given_def)

lemma given_distinct: "distinct (map fst kw) \<Longrightarrow> distinct (map fst (given kw))"
proof (induction kw)
  case (Cons x kw)
  have "fst x \<notin> fst ` set (given kw)" using Cons.prems given_keys [of kw] by auto
  then show ?case using Cons by (cases x) (auto simp: given_def split: option.splits)
qed (simp add: given_def)

text \<open>The value that the keywords give to a setting; \<open>database\<close> is another name of \<open>dbname\<close>.\<close>

definition wanted :: "kwdict \<Rightarrow> string \<Rightarrow> string option" where
  "wanted kwargs k =
     (if k = ''database'' then None
      else Option.bind (map_of kwargs (if k = ''dbname'' \<and> map_of kwargs ''database'' \<noteq> None then ''database'' else k)) id)"

lemma rename_database_run:
  assumes "rename_database kwargs = Inr kw" and "distinct (map fst kwargs)" and "\<forall>k \<in> fst ` set kwargs. keyword k"
  shows "distinct (map fst kw)" and "\<forall>k \<in> fst ` set kw. keyword k" and "map_of (given kw) k = wanted kwargs k"
proof -
  have word: "keyword ''dbname''" by (simp add: keyword_def is_space_def)
  have kw: "kw = kwargs \<and> map_of kwargs ''database'' = None \<or>
      (\<exists>v. map_of kwargs ''database'' = Some v \<and> kw = dict_set (dict_del ''database'' kwargs) ''dbname'' v)"
    using assms(1) by (auto simp: rename_database_def split: option.splits if_splits)
  then show d: "distinct (map fst kw)" using assms(2) by auto
  have "fst ` set kw \<subseteq> insert ''dbname'' (fst ` set kwargs)"
    using kw
  proof (elim disjE exE conjE)
    fix v assume "kw = dict_set (dict_del ''database'' kwargs) ''dbname'' v"
    then have "fst ` set kw = insert ''dbname'' (fst ` set kwargs - {''database''})" by (simp only: keys_dict_set keys_dict_del)
    then show ?thesis by blast
  qed blast
  then show "\<forall>k \<in> fst ` set kw. keyword k"
  proof (intro ballI)
    fix k assume "fst ` set kw \<subseteq> insert ''dbname'' (fst ` set kwargs)" "k \<in> fst ` set kw"
    then have "k = ''dbname'' \<or> k \<in> fst ` set kwargs" by (rule subsetD [THEN insertE]) simp_all
    then show "keyword k" using assms(3) [rule_format, of k] word by (elim disjE) (simp_all only:)
  qed
  show "map_of (given kw) k = wanted kwargs k"
    using kw
  proof (elim disjE exE conjE)
    assume "kw = kwargs" "map_of kwargs ''database'' = None"
    then show ?thesis by (simp add: given_lookup [OF assms(2)] wanted_def split: option.split)
  next
    fix v assume "map_of kwargs ''database'' = Some v" "kw = dict_set (dict_del ''database'' kwargs) ''dbname'' v"
    then show ?thesis using given_lookup [OF d, of k] by (simp add: wanted_def split: option.splits)
  qed
qed

text \<open>
  C36. A connection string made from keywords is read back, by the syntax PostgreSQL documents,
  as exactly the settings it should hold: what a keyword gives that is not \<open>None\<close>, whatever
  blanks, quotes and backslashes are in it, else what the old connection string gave; and
  \<open>database\<close> sets \<open>dbname\<close>.
\<close>

theorem make_dsn_read_back:
  assumes "make_dsn parse_dsn dsn kwargs = Inr t" and "kwargs \<noteq> []" and "distinct (map fst kwargs)"
    and "\<forall>k \<in> fst ` set kwargs. keyword k" and "\<And>s d. parse_dsn s = Inr d \<Longrightarrow> \<forall>k \<in> fst ` set d. keyword k"
  shows "\<exists>base d. (case dsn of None \<Rightarrow> base = [] | Some s \<Rightarrow> parse_dsn s = Inr base) \<and> read_settings t = Some d \<and>
    (\<forall>k. map_of d k = (case wanted kwargs k of Some v \<Rightarrow> Some v | None \<Rightarrow> map_of base k))"
proof -
  obtain kw d where kw: "rename_database kwargs = Inr kw"
    and d: "(case dsn of None \<Rightarrow> Inr (given kw) | Some t \<Rightarrow> rbind (parse_dsn t) (\<lambda>tmp. Inr (dict_update tmp (given kw)))) = Inr d"
    and t: "t = dsn_text d"
    using assms(1,2) unfolding make_dsn_def Let_def by (auto simp: rbind_eq_Inr)
  note run = rename_database_run [OF kw assms(3,4)]
  have words: "\<forall>k \<in> fst ` set (given kw). keyword k" using run(2) given_keys [of kw] by blast
  have rev: "map_of (rev (given kw)) k = wanted kwargs k" for k
    using run(3) [of k] map_of_rev [OF given_distinct [OF run(1)]] by simp
  obtain base where base: "case dsn of None \<Rightarrow> base = [] | Some s \<Rightarrow> parse_dsn s = Inr base" "\<forall>k \<in> fst ` set base. keyword k"
    and look: "\<forall>k. map_of d k = (case wanted kwargs k of Some v \<Rightarrow> Some v | None \<Rightarrow> map_of base k)" and keys: "fst ` set d \<subseteq> fst ` set base \<union> fst ` set (given kw)"
  proof (cases dsn)
    case None
    then show ?thesis using that [of "[]"] d run(3) by (auto split: option.split)
  next
    case (Some s)
    then obtain tmp where "parse_dsn s = Inr tmp" "d = dict_update tmp (given kw)" using d by (auto simp: rbind_eq_Inr)
    then show ?thesis using that [of tmp] Some assms(5) rev by (simp add: dict_update_lookup dict_update_keys)
  qed
  have "\<forall>(k, v) \<in> set d. keyword k" using keys base(2) words by (force simp: image_iff)
  from settings_read [OF this] show ?thesis using base(1) look t by blast
qed

definition sample_parse :: "string \<Rightarrow> (string \<times> string) list res" where
  "sample_parse s = Inr [(''user'', ''reader''), (''port'', ''5432'')]"

definition sample_keywords :: kwdict where
  "sample_keywords = [(''database'', Some ''log''), (''user'', None), (''port'', Some ''6432''), (''password'', Some [CHR ''a'', quote, CHR '' '', CHR 0x5C])]"

lemma make_dsn_read_back_witness:
  "\<exists>t d. make_dsn sample_parse (Some ''user=reader port=5432'') sample_keywords = Inr t \<and> read_settings t = Some d \<and>
     map_of d ''dbname'' = Some ''log'' \<and> map_of d ''user'' = Some ''reader'' \<and> map_of d ''port'' = Some ''6432'' \<and>
     map_of d ''password'' = Some [CHR ''a'', quote, CHR '' '', CHR 0x5C]"
proof -
  obtain t where t: "make_dsn sample_parse (Some ''user=reader port=5432'') sample_keywords = Inr t"
    by (simp add: make_dsn_def sample_keywords_def sample_parse_def rename_database_def Let_def)
  have "\<exists>base d. (case Some ''user=reader port=5432'' of None \<Rightarrow> base = [] | Some s \<Rightarrow> sample_parse s = Inr base) \<and>
      read_settings t = Some d \<and> (\<forall>k. map_of d k = (case wanted sample_keywords k of Some v \<Rightarrow> Some v | None \<Rightarrow> map_of base k))"
    by (rule make_dsn_read_back [OF t]) (simp_all add: sample_keywords_def sample_parse_def keyword_def is_space_def)
  then show ?thesis using t by (auto simp: sample_parse_def wanted_def sample_keywords_def)
qed

end
