(* ===== verification/Pg_Replication.thy ===== *)
theory Pg_Replication
  imports Py_Values
begin

text \<open>
  More of psycopg2/extras.py: the cursors that log their statements, the commands of the
  replication cursor, the adapters of UUIDs and addresses.  What the C cursor does, the clock
  and how the library quotes an identifier or a text are parameters.
\<close>

section \<open>Logging\<close>

text \<open>
  \<open>curs.query\<close> is the statement as bytes, \<open>None\<close> if none has been sent.  A filter gives the
  message to log, or none.
\<close>

datatype message = TextMsg string | BytesMsg string

fun message_text :: "message \<Rightarrow> string" where
  "message_text (TextMsg s) = s"
| "message_text (BytesMsg s) = s"

record logging_conn =
  log_object :: "bool option"
  log_lines :: "message list"
  min_time :: "rat option"

record logging_cursor =
  l_conn :: logging_conn
  l_query :: "message option"
  l_timestamp :: rat

text \<open>
  \<open>initialize\<close> keeps the file (\<open>False\<close>) or the logger (\<open>True\<close>), and the time of a
  \<open>MinTimeLoggingConnection\<close>; \<open>_check\<close> refuses a connection that was not initialized.
\<close>

definition log_initialize :: "bool \<Rightarrow> rat option \<Rightarrow> logging_conn \<Rightarrow> logging_conn" where
  "log_initialize logger mintime c = c\<lparr>log_object := Some logger, min_time := mintime\<rparr>"

definition log_check :: "logging_conn \<Rightarrow> unit res" where
  "log_check c = (if log_object c = None then Inl ProgrammingError else Inr ())"

text \<open>
  \<open>MinTimeLoggingConnection.filter\<close> joins the message with text: for bytes a \<open>TypeError\<close>, and
  for \<open>None\<close> too.
\<close>

definition time_note :: "rat \<Rightarrow> string" where
  "time_note t = nl # ''  (execution time: '' @ show_int \<lfloor>t\<rfloor> @ '' ms)''"

definition log_filter :: "rat \<Rightarrow> logging_cursor \<Rightarrow> message option \<Rightarrow> message option res" where
  "log_filter now c msg =
     (case min_time (l_conn c) of
        None \<Rightarrow> Inr msg
      | Some m \<Rightarrow>
          let t = (now - l_timestamp c) * 1000 in
          if m < t then
            (case msg of Some (TextMsg s) \<Rightarrow> Inr (Some (TextMsg (s @ time_note t))) | _ \<Rightarrow> Inl TypeError)
          else Inr None)"

text \<open>
  \<open>_logtofile\<close> decodes bytes and adds a line end, \<open>_logtologger\<close> hands the message on; an empty
  message is not logged.
\<close>

definition log_message :: "(string \<Rightarrow> string) \<Rightarrow> rat \<Rightarrow> message option \<Rightarrow> (logging_cursor, exn, unit) act" where
  "log_message decode now msg c =
     (case log_object (l_conn c) of
        None \<Rightarrow> (Inl AttributeError, c)
      | Some logger \<Rightarrow>
          (case log_filter now c msg of
             Inl e \<Rightarrow> (Inl e, c)
           | Inr None \<Rightarrow> (Inr (), c)
           | Inr (Some m) \<Rightarrow>
               if message_text m = [] then (Inr (), c)
               else let line = (if logger then m
                                else TextMsg ((case m of BytesMsg b \<Rightarrow> decode b | TextMsg t \<Rightarrow> t) @ [nl]))
                    in (Inr (), c\<lparr>l_conn := (l_conn c)\<lparr>log_lines := log_lines (l_conn c) @ [line]\<rparr>\<rparr>)))"

text \<open>
  \<open>execute\<close> and \<open>callproc\<close>: \<open>try: return super.execute(...) finally: connection.log(query)\<close>; an
  error of the log takes the place of the result.
\<close>

definition logged ::
  "(string \<Rightarrow> string) \<Rightarrow> rat \<Rightarrow> (logging_cursor, exn, 'r) act \<Rightarrow> (logging_cursor, exn, 'r) act" where
  "logged decode now super c =
     (case super c of (r, c') \<Rightarrow>
        (case log_message decode now (l_query c') c' of
           (Inl e, c'') \<Rightarrow> (Inl e, c'')
         | (Inr _, c'') \<Rightarrow> (r, c'')))"

definition min_time_logged ::
  "(string \<Rightarrow> string) \<Rightarrow> rat \<Rightarrow> rat \<Rightarrow> (logging_cursor, exn, 'r) act \<Rightarrow> (logging_cursor, exn, 'r) act" where
  "min_time_logged decode start now super c = logged decode now super (c\<lparr>l_timestamp := start\<rparr>)"

section \<open>Replication\<close>

datatype replication_type = Logical | Physical | OtherType int

text \<open>The slot type that is given, else the one of the connection.\<close>

definition slot_kind :: "replication_type \<Rightarrow> replication_type option \<Rightarrow> replication_type" where
  "slot_kind conn_type slot_type = (case slot_type of None \<Rightarrow> conn_type | Some t \<Rightarrow> t)"

definition create_replication_slot ::
  "(string \<Rightarrow> string) \<Rightarrow> replication_type \<Rightarrow> string \<Rightarrow> replication_type option \<Rightarrow> string option \<Rightarrow> string res" where
  "create_replication_slot quote_ident conn_type slot_name slot_type output_plugin =
     (let command = ''CREATE_REPLICATION_SLOT '' @ quote_ident slot_name @ '' '' in
      case slot_kind conn_type slot_type of
        Logical \<Rightarrow> (case output_plugin of None \<Rightarrow> Inl ProgrammingError
          | Some p \<Rightarrow> Inr (command @ ''LOGICAL '' @ quote_ident p))
      | Physical \<Rightarrow> if output_plugin \<noteq> None then Inl ProgrammingError else Inr (command @ ''PHYSICAL'')
      | OtherType _ \<Rightarrow> Inl ProgrammingError)"

definition drop_replication_slot :: "(string \<Rightarrow> string) \<Rightarrow> string \<Rightarrow> string" where
  "drop_replication_slot quote_ident slot_name = ''DROP_REPLICATION_SLOT '' @ quote_ident slot_name"

text \<open>\<open>%X\<close> and \<open>%08X\<close>, where the sign counts for the width.\<close>

definition hex_upper :: "int \<Rightarrow> string" where
  "hex_upper i = (if i < 0 then ''-'' else '''') @ map upper_char (show_base 16 (nat \<bar>i\<bar>))"

definition hex_upper_8 :: "int \<Rightarrow> string" where
  "hex_upper_8 i =
     (if i < 0 then CHR ''-'' # zero_pad 7 (map upper_char (show_base 16 (nat \<bar>i\<bar>)))
      else zero_pad 8 (map upper_char (show_base 16 (nat i))))"

datatype lsn = LsnText string | LsnNumber int

definition lsn_text :: "lsn \<Rightarrow> string res" where
  "lsn_text start =
     (case start of
        LsnText s \<Rightarrow>
          (let parts = split_on (CHR ''/'') s in
           rbind (list_get parts 0) (\<lambda>h. rbind (py_int_base 16 h) (\<lambda>hi.
           rbind (list_get parts 1) (\<lambda>l. rbind (py_int_base 16 l) (\<lambda>lo.
           Inr (hex_upper hi @ ''/'' @ hex_upper_8 lo))))))
      | LsnNumber n \<Rightarrow> Inr (hex_upper (n div 2 ^ 32 mod 2 ^ 32) @ ''/'' @ hex_upper_8 (n mod 2 ^ 32)))"

text \<open>The separator is left out where the command ends with the bracket.\<close>

definition add_option :: "(string \<Rightarrow> string) \<Rightarrow> (string \<Rightarrow> string) \<Rightarrow> string \<Rightarrow> string \<times> string \<Rightarrow> string" where
  "add_option quote_ident adapt command = (\<lambda>(k, v).
     (if command \<noteq> [] \<and> last command = CHR ''('' then command else command @ '', '') @ quote_ident k @ '' '' @ adapt v)"

definition options_text :: "(string \<Rightarrow> string) \<Rightarrow> (string \<Rightarrow> string) \<Rightarrow> (string \<times> string) list \<Rightarrow> string" where
  "options_text quote_ident adapt options = foldl (add_option quote_ident adapt) '' ('' options @ '')''"

definition start_replication ::
  "(string \<Rightarrow> string) \<Rightarrow> (string \<Rightarrow> string) \<Rightarrow> replication_type \<Rightarrow> string option \<Rightarrow> replication_type option \<Rightarrow>
   lsn \<Rightarrow> int \<Rightarrow> (string \<times> string) list \<Rightarrow> string res" where
  "start_replication quote_ident adapt conn_type slot_name slot_type start_lsn timeline options =
     (let kind = slot_kind conn_type slot_type;
          slot = (case slot_name of Some n \<Rightarrow> if n \<noteq> [] then Some (''SLOT '' @ quote_ident n @ '' '') else None | None \<Rightarrow> None) in
      rbind (case kind of
               Logical \<Rightarrow> (case slot of Some t \<Rightarrow> Inr (t @ ''LOGICAL '') | None \<Rightarrow> Inl ProgrammingError)
             | Physical \<Rightarrow> Inr (case slot of Some t \<Rightarrow> t | None \<Rightarrow> [])
             | OtherType _ \<Rightarrow> Inl ProgrammingError) (\<lambda>head.
      rbind (lsn_text start_lsn) (\<lambda>lsn.
      rbind (if timeline = 0 then Inr []
             else if kind = Logical then Inl ProgrammingError else Inr ('' TIMELINE '' @ show_int timeline)) (\<lambda>tl.
      rbind (if options = [] then Inr []
             else if kind = Physical then Inl ProgrammingError else Inr (options_text quote_ident adapt options)) (\<lambda>opts.
      Inr (''START_REPLICATION '' @ head @ lsn @ tl @ opts))))))"

section \<open>UUIDs and addresses\<close>

definition uuid_text :: "string \<Rightarrow> string" where
  "uuid_text u = quote # u @ [quote] @ ''::uuid''"

text \<open>The oids of a type and of its array: those given, one given, or the standard ones.\<close>

datatype oids = NoOids | OneOid nat | TwoOids nat nat

fun type_oids :: "nat \<Rightarrow> nat \<Rightarrow> oids \<Rightarrow> nat \<times> nat" where
  "type_oids a b NoOids = (a, b)"
| "type_oids a b (TwoOids x y) = (x, y)"
| "type_oids a b (OneOid x) = (if x = 0 then (a, b) else (x, b))"

definition uuid_oids :: "oids \<Rightarrow> nat \<times> nat" where
  "uuid_oids = type_oids 2950 2951"

definition inet_oids :: "oids \<Rightarrow> nat \<times> nat" where
  "inet_oids = type_oids 869 1041"

text \<open>\<open>data and uuid.UUID(data) or None\<close>: a NULL and an empty text are \<open>None\<close>.\<close>

definition cast_text :: "(string \<Rightarrow> 'a res) \<Rightarrow> string option \<Rightarrow> 'a option res" where
  "cast_text read data = (case data of None \<Rightarrow> Inr None | Some t \<Rightarrow> if t = [] then Inr None else map_sum id Some (read t))"

text \<open>
  \<open>Inet.getquoted\<close>: what \<open>adapt\<close> gives for the address is prepared, if it can be, for the
  connection that \<open>prepare\<close> has kept, then quoted.
\<close>

definition inet_getquoted ::
  "(string \<Rightarrow> 'o res) \<Rightarrow> ('o \<Rightarrow> ('conn \<Rightarrow> 'o) option) \<Rightarrow> ('o \<Rightarrow> string res) \<Rightarrow> 'conn option \<Rightarrow> string \<Rightarrow> string res" where
  "inet_getquoted adapt prepare getquoted conn addr =
     rbind (adapt addr) (\<lambda>obj.
     rbind (case prepare obj of None \<Rightarrow> Inr obj
            | Some f \<Rightarrow> (case conn of None \<Rightarrow> Inl AttributeError | Some c \<Rightarrow> Inr (f c))) (\<lambda>obj.
     rbind (getquoted obj) (\<lambda>t. Inr (t @ ''::inet''))))"

section \<open>Positions in the log of the server\<close>

text \<open>The number that a position \<open>h/l\<close> stands for.\<close>

definition lsn_value :: "string \<Rightarrow> int res" where
  "lsn_value s =
     (let parts = split_on (CHR ''/'') s in
      rbind (list_get parts 0) (\<lambda>h. rbind (py_int_base 16 h) (\<lambda>hi.
      rbind (list_get parts 1) (\<lambda>l. rbind (py_int_base 16 l) (\<lambda>lo. Inr (hi * 2 ^ 32 + lo))))))"

definition hex_word :: "string \<Rightarrow> nat \<Rightarrow> bool" where
  "hex_word s n = (all_digits 16 s = Some n \<and> (\<forall>c \<in> set s. digit_in 16 c \<noteq> None))"

lemma hex_word_show: "hex_word (map upper_char (show_base 16 n)) n"
  using show_base_digits [of 16 n] all_digits_show [of 16 n]
  by (auto simp: hex_word_def all_digits_upper digit_in_upper)

lemma digit_in_zero: "digit_in 16 (CHR ''0'') = Some 0"
  by (simp add: digit_in_def is_digit_def digit_val_def)

lemma hex_word_pad: "hex_word s n \<Longrightarrow> hex_word (zero_pad w s) n"
proof -
  have "hex_word (replicate k (CHR ''0'') @ s) n" if "hex_word s n" for k
    using that by (induction k) (auto simp: hex_word_def all_digits_zero digit_in_zero)
  then show "hex_word s n \<Longrightarrow> hex_word (zero_pad w s) n" by (simp add: zero_pad_def)
qed

lemma hex_word_read: "hex_word s n \<Longrightarrow> py_int_base 16 s = Inr (int n)"
  by (rule py_int_base_digits) (auto simp: hex_word_def)

lemma hex_word_slash: "hex_word s n \<Longrightarrow> CHR ''/'' \<notin> set s"
  by (auto simp: hex_word_def digit_in_def is_digit_def lower_char_def Let_def split: if_splits)

lemma hex_upper_word: "0 \<le> i \<Longrightarrow> hex_word (hex_upper i) (nat i)"
  by (simp add: hex_upper_def hex_word_show)

lemma hex_upper_8_word: "0 \<le> i \<Longrightarrow> hex_word (hex_upper_8 i) (nat i)"
  by (simp add: hex_upper_8_def hex_word_show hex_word_pad)

lemma lsn_parts:
  assumes "0 \<le> h" and "0 \<le> l"
  shows "split_on (CHR ''/'') (hex_upper h @ ''/'' @ hex_upper_8 l) = [hex_upper h, hex_upper_8 l]"
  using hex_word_slash [OF hex_upper_word [OF assms(1)]] hex_word_slash [OF hex_upper_8_word [OF assms(2)]]
  by (simp add: split_on_append split_on_single)

lemma lsn_read:
  assumes "0 \<le> h" and "0 \<le> l"
  shows "lsn_text (LsnText (hex_upper h @ ''/'' @ hex_upper_8 l)) = Inr (hex_upper h @ ''/'' @ hex_upper_8 l)"
    and "lsn_value (hex_upper h @ ''/'' @ hex_upper_8 l) = Inr (h * 2 ^ 32 + l)"
  using hex_word_read [OF hex_upper_word [OF assms(1)]] hex_word_read [OF hex_upper_8_word [OF assms(2)]] assms lsn_parts [OF assms]
  by (simp_all add: lsn_text_def lsn_value_def list_get_def py_index_def)

text \<open>
  C37. The position of a replication is sent in the form the server reads: \<open>start_lsn\<close> given as
  a number of any size is cut to 64 bits, its two halves are the hexadecimal words before and
  after the slash, and giving the text of a position that was sent gives the same command.
\<close>

theorem start_lsn_round_trip:
  "\<exists>t. lsn_text (LsnNumber n) = Inr t \<and> lsn_value t = Inr (n mod 2 ^ 64) \<and> lsn_text (LsnText t) = Inr t"
proof -
  let ?h = "n div 2 ^ 32 mod 2 ^ 32" and ?l = "n mod 2 ^ 32"
  have "?h * 2 ^ 32 + ?l = n mod 2 ^ 64"
    using mod_mult2_eq' [of n "2 ^ 32" "2 ^ 32"] by simp
  then show ?thesis using lsn_read [of ?h ?l] by (simp add: lsn_text_def)
qed

section \<open>What the log holds\<close>

text \<open>
  C38. A statement that runs longer than the least time of a \<open>MinTimeLoggingConnection\<close>, where
  the cursor keeps the statement as bytes, ends with a \<open>TypeError\<close> whatever the statement gave
  or raised, and nothing is logged; a faster one gives what it gives and is not logged either.
\<close>

theorem slow_statement_fails:
  assumes "super (c\<lparr>l_timestamp := start\<rparr>) = (r, c')" and "l_query c' = Some (BytesMsg b)"
    and "min_time (l_conn c') = Some m" and "log_object (l_conn c') \<noteq> None" and "l_timestamp c' = start"
  shows "min_time_logged decode start now super c =
    (if m < (now - start) * 1000 then Inl TypeError else r, c')"
  using assms by (auto simp: min_time_logged_def logged_def log_message_def log_filter_def Let_def split: option.splits)

definition sample_cursor :: logging_cursor where
  "sample_cursor = \<lparr>l_conn = log_initialize False (Some 500) \<lparr>log_object = None, log_lines = [], min_time = None\<rparr>,
     l_query = Some (BytesMsg ''SELECT 1''), l_timestamp = 0\<rparr>"

lemma slow_statement_fails_witness:
  "min_time_logged id 1 2 (\<lambda>c. (Inr ''1'', c)) sample_cursor = (Inl TypeError, sample_cursor\<lparr>l_timestamp := 1\<rparr>)"
  using slow_statement_fails [where super = "\<lambda>c. (Inr ''1'', c)" and c = sample_cursor and start = 1
    and c' = "sample_cursor\<lparr>l_timestamp := 1\<rparr>" and m = 500 and decode = id and now = 2]
  by (simp add: sample_cursor_def log_initialize_def)

text \<open>
  A \<open>LoggingCursor\<close> logs every statement that was sent, also one that raises, as the last
  line of the log, and gives what the statement gives.
\<close>

theorem statement_logged:
  assumes "super c = (r, c')" and "l_query c' = Some m" and "message_text m \<noteq> []"
    and "min_time (l_conn c') = None" and "log_object (l_conn c') = Some logger"
  shows "\<exists>line. logged decode now super c =
      (r, c'\<lparr>l_conn := (l_conn c')\<lparr>log_lines := log_lines (l_conn c') @ [line]\<rparr>\<rparr>) \<and>
    line = (if logger then m else TextMsg ((case m of BytesMsg b \<Rightarrow> decode b | TextMsg t \<Rightarrow> t) @ [nl]))"
  using assms by (simp add: logged_def log_message_def log_filter_def Let_def)

end
