(* ===== verification/Pg_Errors.thy ===== *)
theory Pg_Errors
  imports Py_Strings
begin

text \<open>
  psycopg2/errorcodes.py: the names of the error codes and \<open>lookup\<close>, which finds the name of a
  code in the globals of the module.
\<close>

section \<open>The names, as the module assigns them\<close>

text \<open>Error classes.\<close>

definition error_classes :: "(string \<times> string) list" where
  "error_classes =
     [(''CLASS_SUCCESSFUL_COMPLETION'', ''00''), (''CLASS_WARNING'', ''01''), (''CLASS_NO_DATA'', ''02''),
      (''CLASS_SQL_STATEMENT_NOT_YET_COMPLETE'', ''03''), (''CLASS_CONNECTION_EXCEPTION'', ''08''),
      (''CLASS_TRIGGERED_ACTION_EXCEPTION'', ''09''), (''CLASS_FEATURE_NOT_SUPPORTED'', ''0A''),
      (''CLASS_INVALID_TRANSACTION_INITIATION'', ''0B''), (''CLASS_LOCATOR_EXCEPTION'', ''0F''),
      (''CLASS_INVALID_GRANTOR'', ''0L''), (''CLASS_INVALID_ROLE_SPECIFICATION'', ''0P''),
      (''CLASS_DIAGNOSTICS_EXCEPTION'', ''0Z''), (''CLASS_CASE_NOT_FOUND'', ''20''),
      (''CLASS_CARDINALITY_VIOLATION'', ''21''), (''CLASS_DATA_EXCEPTION'', ''22''),
      (''CLASS_INTEGRITY_CONSTRAINT_VIOLATION'', ''23''), (''CLASS_INVALID_CURSOR_STATE'', ''24''),
      (''CLASS_INVALID_TRANSACTION_STATE'', ''25''), (''CLASS_INVALID_SQL_STATEMENT_NAME'', ''26''),
      (''CLASS_TRIGGERED_DATA_CHANGE_VIOLATION'', ''27''),
      (''CLASS_INVALID_AUTHORIZATION_SPECIFICATION'', ''28''),
      (''CLASS_DEPENDENT_PRIVILEGE_DESCRIPTORS_STILL_EXIST'', ''2B''),
      (''CLASS_INVALID_TRANSACTION_TERMINATION'', ''2D''), (''CLASS_SQL_ROUTINE_EXCEPTION'', ''2F''),
      (''CLASS_INVALID_CURSOR_NAME'', ''34''), (''CLASS_EXTERNAL_ROUTINE_EXCEPTION'', ''38''),
      (''CLASS_EXTERNAL_ROUTINE_INVOCATION_EXCEPTION'', ''39''), (''CLASS_SAVEPOINT_EXCEPTION'', ''3B''),
      (''CLASS_INVALID_CATALOG_NAME'', ''3D''), (''CLASS_INVALID_SCHEMA_NAME'', ''3F''),
      (''CLASS_TRANSACTION_ROLLBACK'', ''40''), (''CLASS_SYNTAX_ERROR_OR_ACCESS_RULE_VIOLATION'', ''42''),
      (''CLASS_WITH_CHECK_OPTION_VIOLATION'', ''44''), (''CLASS_INSUFFICIENT_RESOURCES'', ''53''),
      (''CLASS_PROGRAM_LIMIT_EXCEEDED'', ''54''), (''CLASS_OBJECT_NOT_IN_PREREQUISITE_STATE'', ''55''),
      (''CLASS_OPERATOR_INTERVENTION'', ''57''), (''CLASS_SYSTEM_ERROR'', ''58''),
      (''CLASS_CONFIGURATION_FILE_ERROR'', ''F0''), (''CLASS_FOREIGN_DATA_WRAPPER_ERROR'', ''HV''),
      (''CLASS_PL_PGSQL_ERROR'', ''P0''), (''CLASS_INTERNAL_ERROR'', ''XX'')]"

text \<open>From Class 00, Successful Completion to Class 21, Cardinality Violation.\<close>

definition codes_00_to_21 :: "(string \<times> string) list" where
  "codes_00_to_21 =
     [(''SUCCESSFUL_COMPLETION'', ''00000''), (''WARNING'', ''01000''),
      (''NULL_VALUE_ELIMINATED_IN_SET_FUNCTION'', ''01003''), (''STRING_DATA_RIGHT_TRUNCATION'', ''01004''),
      (''PRIVILEGE_NOT_REVOKED'', ''01006''), (''PRIVILEGE_NOT_GRANTED'', ''01007''),
      (''IMPLICIT_ZERO_BIT_PADDING'', ''01008''), (''DYNAMIC_RESULT_SETS_RETURNED'', ''0100C''),
      (''DEPRECATED_FEATURE'', ''01P01''), (''NO_DATA'', ''02000''),
      (''NO_ADDITIONAL_DYNAMIC_RESULT_SETS_RETURNED'', ''02001''),
      (''SQL_STATEMENT_NOT_YET_COMPLETE'', ''03000''), (''CONNECTION_EXCEPTION'', ''08000''),
      (''SQLCLIENT_UNABLE_TO_ESTABLISH_SQLCONNECTION'', ''08001''), (''CONNECTION_DOES_NOT_EXIST'', ''08003''),
      (''SQLSERVER_REJECTED_ESTABLISHMENT_OF_SQLCONNECTION'', ''08004''), (''CONNECTION_FAILURE'', ''08006''),
      (''TRANSACTION_RESOLUTION_UNKNOWN'', ''08007''), (''PROTOCOL_VIOLATION'', ''08P01''),
      (''TRIGGERED_ACTION_EXCEPTION'', ''09000''), (''FEATURE_NOT_SUPPORTED'', ''0A000''),
      (''INVALID_TRANSACTION_INITIATION'', ''0B000''), (''LOCATOR_EXCEPTION'', ''0F000''),
      (''INVALID_LOCATOR_SPECIFICATION'', ''0F001''), (''INVALID_GRANTOR'', ''0L000''),
      (''INVALID_GRANT_OPERATION'', ''0LP01''), (''INVALID_ROLE_SPECIFICATION'', ''0P000''),
      (''DIAGNOSTICS_EXCEPTION'', ''0Z000''),
      (''STACKED_DIAGNOSTICS_ACCESSED_WITHOUT_ACTIVE_HANDLER'', ''0Z002''), (''CASE_NOT_FOUND'', ''20000''),
      (''CARDINALITY_VIOLATION'', ''21000'')]"

text \<open>From Class 22, Data Exception to Class 22, Data Exception.\<close>

definition codes_22_to_22 :: "(string \<times> string) list" where
  "codes_22_to_22 =
     [(''DATA_EXCEPTION'', ''22000''), (''STRING_DATA_RIGHT_TRUNCATION'', ''22001''),
      (''NULL_VALUE_NO_INDICATOR_PARAMETER'', ''22002''), (''NUMERIC_VALUE_OUT_OF_RANGE'', ''22003''),
      (''NULL_VALUE_NOT_ALLOWED'', ''22004''), (''ERROR_IN_ASSIGNMENT'', ''22005''),
      (''INVALID_DATETIME_FORMAT'', ''22007''), (''DATETIME_FIELD_OVERFLOW'', ''22008''),
      (''INVALID_TIME_ZONE_DISPLACEMENT_VALUE'', ''22009''), (''ESCAPE_CHARACTER_CONFLICT'', ''2200B''),
      (''INVALID_USE_OF_ESCAPE_CHARACTER'', ''2200C''), (''INVALID_ESCAPE_OCTET'', ''2200D''),
      (''ZERO_LENGTH_CHARACTER_STRING'', ''2200F''), (''MOST_SPECIFIC_TYPE_MISMATCH'', ''2200G''),
      (''NOT_AN_XML_DOCUMENT'', ''2200L''), (''INVALID_XML_DOCUMENT'', ''2200M''),
      (''INVALID_XML_CONTENT'', ''2200N''), (''INVALID_XML_COMMENT'', ''2200S''),
      (''INVALID_XML_PROCESSING_INSTRUCTION'', ''2200T''), (''INVALID_INDICATOR_PARAMETER_VALUE'', ''22010''),
      (''SUBSTRING_ERROR'', ''22011''), (''DIVISION_BY_ZERO'', ''22012''),
      (''INVALID_ARGUMENT_FOR_NTILE_FUNCTION'', ''22014''), (''INTERVAL_FIELD_OVERFLOW'', ''22015''),
      (''INVALID_ARGUMENT_FOR_NTH_VALUE_FUNCTION'', ''22016''), (''INVALID_CHARACTER_VALUE_FOR_CAST'', ''22018''),
      (''INVALID_ESCAPE_CHARACTER'', ''22019''), (''INVALID_REGULAR_EXPRESSION'', ''2201B''),
      (''INVALID_ARGUMENT_FOR_LOGARITHM'', ''2201E''), (''INVALID_ARGUMENT_FOR_POWER_FUNCTION'', ''2201F''),
      (''INVALID_ARGUMENT_FOR_WIDTH_BUCKET_FUNCTION'', ''2201G''),
      (''INVALID_ROW_COUNT_IN_LIMIT_CLAUSE'', ''2201W''),
      (''INVALID_ROW_COUNT_IN_RESULT_OFFSET_CLAUSE'', ''2201X''), (''INVALID_LIMIT_VALUE'', ''22020''),
      (''CHARACTER_NOT_IN_REPERTOIRE'', ''22021''), (''INDICATOR_OVERFLOW'', ''22022''),
      (''INVALID_PARAMETER_VALUE'', ''22023''), (''UNTERMINATED_C_STRING'', ''22024''),
      (''INVALID_ESCAPE_SEQUENCE'', ''22025''), (''STRING_DATA_LENGTH_MISMATCH'', ''22026''),
      (''TRIM_ERROR'', ''22027''), (''ARRAY_SUBSCRIPT_ERROR'', ''2202E''),
      (''INVALID_TABLESAMPLE_REPEAT'', ''2202G''), (''INVALID_TABLESAMPLE_ARGUMENT'', ''2202H''),
      (''FLOATING_POINT_EXCEPTION'', ''22P01''), (''INVALID_TEXT_REPRESENTATION'', ''22P02''),
      (''INVALID_BINARY_REPRESENTATION'', ''22P03''), (''BAD_COPY_FILE_FORMAT'', ''22P04''),
      (''UNTRANSLATABLE_CHARACTER'', ''22P05''), (''NONSTANDARD_USE_OF_ESCAPE_CHARACTER'', ''22P06'')]"

text \<open>From Class 23, Integrity Constraint Violation to Class 3B, Savepoint Exception.\<close>

definition codes_23_to_3b :: "(string \<times> string) list" where
  "codes_23_to_3b =
     [(''INTEGRITY_CONSTRAINT_VIOLATION'', ''23000''), (''RESTRICT_VIOLATION'', ''23001''),
      (''NOT_NULL_VIOLATION'', ''23502''), (''FOREIGN_KEY_VIOLATION'', ''23503''),
      (''UNIQUE_VIOLATION'', ''23505''), (''CHECK_VIOLATION'', ''23514''), (''EXCLUSION_VIOLATION'', ''23P01''),
      (''INVALID_CURSOR_STATE'', ''24000''), (''INVALID_TRANSACTION_STATE'', ''25000''),
      (''ACTIVE_SQL_TRANSACTION'', ''25001''), (''BRANCH_TRANSACTION_ALREADY_ACTIVE'', ''25002''),
      (''INAPPROPRIATE_ACCESS_MODE_FOR_BRANCH_TRANSACTION'', ''25003''),
      (''INAPPROPRIATE_ISOLATION_LEVEL_FOR_BRANCH_TRANSACTION'', ''25004''),
      (''NO_ACTIVE_SQL_TRANSACTION_FOR_BRANCH_TRANSACTION'', ''25005''),
      (''READ_ONLY_SQL_TRANSACTION'', ''25006''), (''SCHEMA_AND_DATA_STATEMENT_MIXING_NOT_SUPPORTED'', ''25007''),
      (''HELD_CURSOR_REQUIRES_SAME_ISOLATION_LEVEL'', ''25008''), (''NO_ACTIVE_SQL_TRANSACTION'', ''25P01''),
      (''IN_FAILED_SQL_TRANSACTION'', ''25P02''), (''INVALID_SQL_STATEMENT_NAME'', ''26000''),
      (''TRIGGERED_DATA_CHANGE_VIOLATION'', ''27000''), (''INVALID_AUTHORIZATION_SPECIFICATION'', ''28000''),
      (''INVALID_PASSWORD'', ''28P01''), (''DEPENDENT_PRIVILEGE_DESCRIPTORS_STILL_EXIST'', ''2B000''),
      (''DEPENDENT_OBJECTS_STILL_EXIST'', ''2BP01''), (''INVALID_TRANSACTION_TERMINATION'', ''2D000''),
      (''SQL_ROUTINE_EXCEPTION'', ''2F000''), (''MODIFYING_SQL_DATA_NOT_PERMITTED'', ''2F002''),
      (''PROHIBITED_SQL_STATEMENT_ATTEMPTED'', ''2F003''), (''READING_SQL_DATA_NOT_PERMITTED'', ''2F004''),
      (''FUNCTION_EXECUTED_NO_RETURN_STATEMENT'', ''2F005''), (''INVALID_CURSOR_NAME'', ''34000''),
      (''EXTERNAL_ROUTINE_EXCEPTION'', ''38000''), (''CONTAINING_SQL_NOT_PERMITTED'', ''38001''),
      (''MODIFYING_SQL_DATA_NOT_PERMITTED'', ''38002''), (''PROHIBITED_SQL_STATEMENT_ATTEMPTED'', ''38003''),
      (''READING_SQL_DATA_NOT_PERMITTED'', ''38004''), (''EXTERNAL_ROUTINE_INVOCATION_EXCEPTION'', ''39000''),
      (''INVALID_SQLSTATE_RETURNED'', ''39001''), (''NULL_VALUE_NOT_ALLOWED'', ''39004''),
      (''TRIGGER_PROTOCOL_VIOLATED'', ''39P01''), (''SRF_PROTOCOL_VIOLATED'', ''39P02''),
      (''EVENT_TRIGGER_PROTOCOL_VIOLATED'', ''39P03''), (''SAVEPOINT_EXCEPTION'', ''3B000''),
      (''INVALID_SAVEPOINT_SPECIFICATION'', ''3B001'')]"

text \<open>From Class 3D, Invalid Catalog Name to Class 40, Transaction Rollback.\<close>

definition codes_3d_to_40 :: "(string \<times> string) list" where
  "codes_3d_to_40 =
     [(''INVALID_CATALOG_NAME'', ''3D000''), (''INVALID_SCHEMA_NAME'', ''3F000''),
      (''TRANSACTION_ROLLBACK'', ''40000''), (''SERIALIZATION_FAILURE'', ''40001''),
      (''TRANSACTION_INTEGRITY_CONSTRAINT_VIOLATION'', ''40002''), (''STATEMENT_COMPLETION_UNKNOWN'', ''40003''),
      (''DEADLOCK_DETECTED'', ''40P01'')]"

text \<open>From Class 42, Syntax Error or Access Rule Violation to Class 44, WITH CHECK OPTION Violation.\<close>

definition codes_42_to_44 :: "(string \<times> string) list" where
  "codes_42_to_44 =
     [(''SYNTAX_ERROR_OR_ACCESS_RULE_VIOLATION'', ''42000''), (''INSUFFICIENT_PRIVILEGE'', ''42501''),
      (''SYNTAX_ERROR'', ''42601''), (''INVALID_NAME'', ''42602''), (''INVALID_COLUMN_DEFINITION'', ''42611''),
      (''NAME_TOO_LONG'', ''42622''), (''DUPLICATE_COLUMN'', ''42701''), (''AMBIGUOUS_COLUMN'', ''42702''),
      (''UNDEFINED_COLUMN'', ''42703''), (''UNDEFINED_OBJECT'', ''42704''), (''DUPLICATE_OBJECT'', ''42710''),
      (''DUPLICATE_ALIAS'', ''42712''), (''DUPLICATE_FUNCTION'', ''42723''), (''AMBIGUOUS_FUNCTION'', ''42725''),
      (''GROUPING_ERROR'', ''42803''), (''DATATYPE_MISMATCH'', ''42804''), (''WRONG_OBJECT_TYPE'', ''42809''),
      (''INVALID_FOREIGN_KEY'', ''42830''), (''CANNOT_COERCE'', ''42846''), (''UNDEFINED_FUNCTION'', ''42883''),
      (''RESERVED_NAME'', ''42939''), (''UNDEFINED_TABLE'', ''42P01''), (''UNDEFINED_PARAMETER'', ''42P02''),
      (''DUPLICATE_CURSOR'', ''42P03''), (''DUPLICATE_DATABASE'', ''42P04''),
      (''DUPLICATE_PREPARED_STATEMENT'', ''42P05''), (''DUPLICATE_SCHEMA'', ''42P06''),
      (''DUPLICATE_TABLE'', ''42P07''), (''AMBIGUOUS_PARAMETER'', ''42P08''), (''AMBIGUOUS_ALIAS'', ''42P09''),
      (''INVALID_COLUMN_REFERENCE'', ''42P10''), (''INVALID_CURSOR_DEFINITION'', ''42P11''),
      (''INVALID_DATABASE_DEFINITION'', ''42P12''), (''INVALID_FUNCTION_DEFINITION'', ''42P13''),
      (''INVALID_PREPARED_STATEMENT_DEFINITION'', ''42P14''), (''INVALID_SCHEMA_DEFINITION'', ''42P15''),
      (''INVALID_TABLE_DEFINITION'', ''42P16''), (''INVALID_OBJECT_DEFINITION'', ''42P17''),
      (''INDETERMINATE_DATATYPE'', ''42P18''), (''INVALID_RECURSION'', ''42P19''),
      (''WINDOWING_ERROR'', ''42P20''), (''COLLATION_MISMATCH'', ''42P21''),
      (''INDETERMINATE_COLLATION'', ''42P22''), (''WITH_CHECK_OPTION_VIOLATION'', ''44000'')]"

text \<open>From Class 53, Insufficient Resources to Class F0, Configuration File Error.\<close>

definition codes_53_to_f0 :: "(string \<times> string) list" where
  "codes_53_to_f0 =
     [(''INSUFFICIENT_RESOURCES'', ''53000''), (''DISK_FULL'', ''53100''), (''OUT_OF_MEMORY'', ''53200''),
      (''TOO_MANY_CONNECTIONS'', ''53300''), (''CONFIGURATION_LIMIT_EXCEEDED'', ''53400''),
      (''PROGRAM_LIMIT_EXCEEDED'', ''54000''), (''STATEMENT_TOO_COMPLEX'', ''54001''),
      (''TOO_MANY_COLUMNS'', ''54011''), (''TOO_MANY_ARGUMENTS'', ''54023''),
      (''OBJECT_NOT_IN_PREREQUISITE_STATE'', ''55000''), (''OBJECT_IN_USE'', ''55006''),
      (''CANT_CHANGE_RUNTIME_PARAM'', ''55P02''), (''LOCK_NOT_AVAILABLE'', ''55P03''),
      (''OPERATOR_INTERVENTION'', ''57000''), (''QUERY_CANCELED'', ''57014''), (''ADMIN_SHUTDOWN'', ''57P01''),
      (''CRASH_SHUTDOWN'', ''57P02''), (''CANNOT_CONNECT_NOW'', ''57P03''), (''DATABASE_DROPPED'', ''57P04''),
      (''SYSTEM_ERROR'', ''58000''), (''IO_ERROR'', ''58030''), (''UNDEFINED_FILE'', ''58P01''),
      (''DUPLICATE_FILE'', ''58P02''), (''CONFIG_FILE_ERROR'', ''F0000''), (''LOCK_FILE_EXISTS'', ''F0001'')]"

text \<open>From Class HV, Foreign Data Wrapper Error to Class XX, Internal Error.\<close>

definition codes_hv_to_xx :: "(string \<times> string) list" where
  "codes_hv_to_xx =
     [(''FDW_ERROR'', ''HV000''), (''FDW_OUT_OF_MEMORY'', ''HV001''),
      (''FDW_DYNAMIC_PARAMETER_VALUE_NEEDED'', ''HV002''), (''FDW_INVALID_DATA_TYPE'', ''HV004''),
      (''FDW_COLUMN_NAME_NOT_FOUND'', ''HV005''), (''FDW_INVALID_DATA_TYPE_DESCRIPTORS'', ''HV006''),
      (''FDW_INVALID_COLUMN_NAME'', ''HV007''), (''FDW_INVALID_COLUMN_NUMBER'', ''HV008''),
      (''FDW_INVALID_USE_OF_NULL_POINTER'', ''HV009''), (''FDW_INVALID_STRING_FORMAT'', ''HV00A''),
      (''FDW_INVALID_HANDLE'', ''HV00B''), (''FDW_INVALID_OPTION_INDEX'', ''HV00C''),
      (''FDW_INVALID_OPTION_NAME'', ''HV00D''), (''FDW_OPTION_NAME_NOT_FOUND'', ''HV00J''),
      (''FDW_REPLY_HANDLE'', ''HV00K''), (''FDW_UNABLE_TO_CREATE_EXECUTION'', ''HV00L''),
      (''FDW_UNABLE_TO_CREATE_REPLY'', ''HV00M''), (''FDW_UNABLE_TO_ESTABLISH_CONNECTION'', ''HV00N''),
      (''FDW_NO_SCHEMAS'', ''HV00P''), (''FDW_SCHEMA_NOT_FOUND'', ''HV00Q''),
      (''FDW_TABLE_NOT_FOUND'', ''HV00R''), (''FDW_FUNCTION_SEQUENCE_ERROR'', ''HV010''),
      (''FDW_TOO_MANY_HANDLES'', ''HV014''), (''FDW_INCONSISTENT_DESCRIPTOR_INFORMATION'', ''HV021''),
      (''FDW_INVALID_ATTRIBUTE_VALUE'', ''HV024''), (''FDW_INVALID_STRING_LENGTH_OR_BUFFER_LENGTH'', ''HV090''),
      (''FDW_INVALID_DESCRIPTOR_FIELD_IDENTIFIER'', ''HV091''), (''PLPGSQL_ERROR'', ''P0000''),
      (''RAISE_EXCEPTION'', ''P0001''), (''NO_DATA_FOUND'', ''P0002''), (''TOO_MANY_ROWS'', ''P0003''),
      (''ASSERT_FAILURE'', ''P0004''), (''INTERNAL_ERROR'', ''XX000''), (''DATA_CORRUPTED'', ''XX001''),
      (''INDEX_CORRUPTED'', ''XX002'')]"


definition module_codes :: "(string \<times> string) list" where
  "module_codes = error_classes @ codes_00_to_21 @ codes_22_to_22 @ codes_23_to_3b @ codes_3d_to_40 @ codes_42_to_44 @ codes_53_to_f0 @ codes_hv_to_xx"

section \<open>lookup\<close>

text \<open>
  \<open>globals()\<close> holds what else is in the module, \<open>None\<close> for what is not a text, then the names in
  the order of their first assignments, each with the value of its last one.
\<close>

definition module_globals :: "(string \<times> string option) list \<Rightarrow> (string \<times> string option) list" where
  "module_globals others = dict_update others (map (\<lambda>(k, v). (k, Some v)) module_codes)"

definition is_code :: "string option \<Rightarrow> bool" where
  "is_code v = (case v of None \<Rightarrow> False | Some t \<Rightarrow> length t = 2 \<or> length t = 5)"

fun reverse_codes :: "(string \<times> string option) list \<Rightarrow> (string \<times> string) list \<Rightarrow> (string \<times> string) list" where
  "reverse_codes [] tmp = tmp"
| "reverse_codes ((k, v) # g) tmp = reverse_codes g (if is_code v then dict_set tmp (the v) k else tmp)"

definition get_code :: "(string \<times> string) list \<Rightarrow> string \<Rightarrow> string res" where
  "get_code d code = (case map_of d code of None \<Rightarrow> Inl KeyError | Some k \<Rightarrow> Inr k)"

definition error_lookup ::
  "(string \<times> string option) list \<Rightarrow> string \<Rightarrow> ((string \<times> string) list, exn, string) act" where
  "error_lookup others code cache =
     (if cache \<noteq> [] then (get_code cache code, cache)
      else let tmp = reverse_codes (module_globals others) [] in
        if tmp = [] then (Inl AssertionError, cache) else (get_code tmp code, dict_update cache tmp))"

section \<open>What lookup finds\<close>

lemma reverse_codes_found:
  "map_of (reverse_codes g tmp) c = Some k \<Longrightarrow> (k, Some c) \<in> set g \<and> is_code (Some c) \<or> map_of tmp c = Some k"
proof (induction g tmp rule: reverse_codes.induct)
  case (2 k' v g tmp)
  then show ?case by (cases v) (auto simp: is_code_def split: if_splits)
qed simp

lemma reverse_codes_keeps: "map_of tmp c \<noteq> None \<Longrightarrow> map_of (reverse_codes g tmp) c \<noteq> None"
  by (induction g tmp rule: reverse_codes.induct) (auto split: if_splits)

lemma reverse_codes_finds: "(k, Some c) \<in> set g \<Longrightarrow> is_code (Some c) \<Longrightarrow> map_of (reverse_codes g tmp) c \<noteq> None"
proof (induction g tmp rule: reverse_codes.induct)
  case (2 k' v g tmp)
  then show ?case using reverse_codes_keeps [of "dict_set tmp c k'" c g] by (cases "(k', v) = (k, Some c)") auto
qed simp

lemma reverse_codes_distinct: "distinct (map fst tmp) \<Longrightarrow> distinct (map fst (reverse_codes g tmp))"
  by (induction g tmp rule: reverse_codes.induct) auto

lemma distinct_dict_update: "distinct (map fst d) \<Longrightarrow> distinct (map fst (dict_update d e))"
  unfolding dict_update_def by (induction e arbitrary: d) auto

lemma module_codes_short: "list_all (\<lambda>(k, v). is_code (Some v)) module_codes"
proof -
  have "list_all (\<lambda>(k, v). is_code (Some v)) error_classes" by code_simp
  moreover have "list_all (\<lambda>(k, v). is_code (Some v)) codes_00_to_21" by code_simp
  moreover have "list_all (\<lambda>(k, v). is_code (Some v)) codes_22_to_22" by code_simp
  moreover have "list_all (\<lambda>(k, v). is_code (Some v)) codes_23_to_3b" by code_simp
  moreover have "list_all (\<lambda>(k, v). is_code (Some v)) codes_3d_to_40" by code_simp
  moreover have "list_all (\<lambda>(k, v). is_code (Some v)) codes_42_to_44" by code_simp
  moreover have "list_all (\<lambda>(k, v). is_code (Some v)) codes_53_to_f0" by code_simp
  moreover have "list_all (\<lambda>(k, v). is_code (Some v)) codes_hv_to_xx" by code_simp
  ultimately show ?thesis by (simp only: module_codes_def list_all_append simp_thms)
qed

lemma map_of_some_values: "map_of (rev (map (\<lambda>(k, v). (k, Some v)) xs)) k = map_option Some (map_of (rev xs) k)"
  by (simp add: rev_map map_of_map)

lemma globals_name:
  assumes "distinct (map fst others)" and "\<forall>v \<in> snd ` set others. \<not> is_code v"
  shows "(k, Some c) \<in> set (module_globals others) \<and> is_code (Some c) \<longleftrightarrow> map_of (rev module_codes) k = Some c"
proof -
  have m: "(k, Some c) \<in> set (module_globals others) \<longleftrightarrow> map_of (module_globals others) k = Some (Some c)"
    using distinct_dict_update [OF assms(1)] by (simp add: module_globals_def)
  have l: "map_of (module_globals others) k =
      (case map_of (rev module_codes) k of Some v \<Rightarrow> Some (Some v) | None \<Rightarrow> map_of others k)"
    by (simp add: module_globals_def dict_update_lookup map_of_some_values split: option.split)
  have "is_code (Some v)" if "map_of (rev module_codes) k = Some v" for v
    using module_codes_short map_of_SomeD [OF that] by (auto simp: list_all_iff)
  moreover have "\<not> is_code v" if "map_of others k = Some v" for v
    using assms(2) map_of_SomeD [OF that] by force
  ultimately show ?thesis using m l by (auto split: option.splits)
qed

lemma reverse_names:
  assumes "distinct (map fst others)" and "\<forall>v \<in> snd ` set others. \<not> is_code v"
  shows "case map_of (reverse_codes (module_globals others) []) code of
      Some k \<Rightarrow> map_of (rev module_codes) k = Some code
    | None \<Rightarrow> \<forall>k. map_of (rev module_codes) k \<noteq> Some code"
proof (cases "map_of (reverse_codes (module_globals others) []) code")
  case None
  then show ?thesis using globals_name [OF assms] reverse_codes_finds [of _ code "module_globals others" "[]"] by auto
next
  case (Some k)
  then show ?thesis using reverse_codes_found [OF Some] globals_name [OF assms, of k code] by simp
qed

lemma error_lookup_value:
  assumes "distinct (map fst others)" and "\<forall>v \<in> snd ` set others. \<not> is_code v"
    and "cache = [] \<or> cache = snd (error_lookup others code' [])"
  shows "fst (error_lookup others code cache) = get_code (reverse_codes (module_globals others) []) code"
proof -
  let ?tmp = "reverse_codes (module_globals others) []"
  have "map_of (rev codes_hv_to_xx) ''INDEX_CORRUPTED'' = Some ''XX002''" by (simp add: codes_hv_to_xx_def)
  then have known: "map_of (rev module_codes) ''INDEX_CORRUPTED'' = Some ''XX002''" by (simp add: module_codes_def)
  then have "?tmp \<noteq> []" using reverse_names [OF assms(1,2), of "''XX002''"] by auto
  moreover have "map_of (dict_update [] ?tmp) c = map_of ?tmp c" for c
    using map_of_rev [OF reverse_codes_distinct, of "[]"] by (simp add: dict_update_lookup split: option.split)
  moreover from this have "dict_update [] ?tmp \<noteq> []"
    using reverse_names [OF assms(1,2), of "''XX002''"] known by (cases "dict_update [] ?tmp") auto
  ultimately show ?thesis using assms(3) by (auto simp: error_lookup_def Let_def get_code_def)
qed

text \<open>
  \<open>lookup\<close> finds the names as the module leaves them: the name it gives is one whose last
  assignment is the code, and it raises a \<open>KeyError\<close> exactly where there is none; later calls,
  which read the map that the first one has cached, give the same.
\<close>

theorem error_lookup_names:
  assumes "distinct (map fst others)" and "\<forall>v \<in> snd ` set others. \<not> is_code v"
    and "cache = [] \<or> cache = snd (error_lookup others code' [])"
  shows "case fst (error_lookup others code cache) of
      Inr k \<Rightarrow> map_of (rev module_codes) k = Some code
    | Inl e \<Rightarrow> e = KeyError \<and> (\<forall>k. map_of (rev module_codes) k \<noteq> Some code)"
  using reverse_names [OF assms(1,2), of code]
  by (auto simp: error_lookup_value [OF assms] get_code_def split: option.splits)

lemma error_lookup_names_witness:
  "case fst (error_lookup [(''lookup'', None)] ''42P01'' (snd (error_lookup [(''lookup'', None)] ''00'' []))) of
      Inr k \<Rightarrow> map_of (rev module_codes) k = Some ''42P01''
    | Inl e \<Rightarrow> e = KeyError \<and> (\<forall>k. map_of (rev module_codes) k \<noteq> Some ''42P01'')"
  by (rule error_lookup_names [where code' = "''00''"]) (simp_all add: is_code_def)

text \<open>A code is lost where every name that gets it is assigned again.\<close>

fun overwritten :: "string \<Rightarrow> (string \<times> string) list \<Rightarrow> bool" where
  "overwritten c [] = True"
| "overwritten c ((k, v) # xs) = (if v = c then list_ex (\<lambda>(k', v'). k' = k) xs \<and> overwritten c xs else overwritten c xs)"

lemma overwritten_gone: "overwritten c xs \<Longrightarrow> map_of (rev xs) k \<noteq> Some c"
proof (induction c xs rule: overwritten.induct)
  case (2 c k' v xs)
  have "map_of (rev xs) k' \<noteq> None" if "v = c"
    using 2(3) that by (auto simp: map_of_eq_None_iff list_ex_iff image_iff) (metis fst_conv)
  moreover have "overwritten c xs" using 2(3) by (auto split: if_splits)
  ultimately show ?case using 2(1,2) by (auto simp: map_add_def split: option.splits)
qed simp

definition lost_codes :: "string list" where
  "lost_codes = [''01004'', ''22004'', ''2F002'', ''2F003'', ''2F004'']"

lemma overwritten_skip: "c \<notin> set (map snd xs) \<Longrightarrow> overwritten c (xs @ ys) = overwritten c ys"
  by (induction xs) auto

lemma overwritten_none: "c \<notin> set (map snd xs) \<Longrightarrow> overwritten c xs"
  using overwritten_skip [of c xs "[]"] by simp

text \<open>The groups that do not have a code, and those that have it once.\<close>

lemma lost_elsewhere:
  "list_all (\<lambda>c. c \<notin> set (map snd error_classes)) lost_codes"
  "list_all (\<lambda>c. c \<notin> set (map snd codes_00_to_21)) (tl lost_codes)"
  "list_all (\<lambda>c. c \<notin> set (map snd codes_22_to_22)) [''01004'', ''2F002'', ''2F003'', ''2F004'']"
  "list_all (\<lambda>c. c \<notin> set (map snd codes_23_to_3b)) [''01004'', ''22004'']"
  "list_all (\<lambda>c. c \<notin> set (map snd codes_3d_to_40)) lost_codes"
  "list_all (\<lambda>c. c \<notin> set (map snd codes_42_to_44)) lost_codes"
  "list_all (\<lambda>c. c \<notin> set (map snd codes_53_to_f0)) lost_codes"
  "list_all (\<lambda>c. c \<notin> set (map snd codes_hv_to_xx)) lost_codes"
  by (simp_all add: lost_codes_def error_classes_def codes_00_to_21_def codes_22_to_22_def codes_23_to_3b_def
    codes_3d_to_40_def codes_42_to_44_def codes_53_to_f0_def codes_hv_to_xx_def)

lemma lost_here:
  "overwritten ''01004'' (codes_00_to_21 @ ys) =
    (list_ex (\<lambda>(k, v). k = ''STRING_DATA_RIGHT_TRUNCATION'') ys \<and> overwritten ''01004'' ys)"
  "overwritten ''22004'' (codes_22_to_22 @ ys) =
    (list_ex (\<lambda>(k, v). k = ''NULL_VALUE_NOT_ALLOWED'') ys \<and> overwritten ''22004'' ys)"
  "overwritten ''2F002'' (codes_23_to_3b @ ys) = overwritten ''2F002'' ys"
  "overwritten ''2F003'' (codes_23_to_3b @ ys) = overwritten ''2F003'' ys"
  "overwritten ''2F004'' (codes_23_to_3b @ ys) = overwritten ''2F004'' ys"
  by (simp_all add: codes_00_to_21_def codes_22_to_22_def codes_23_to_3b_def)

lemma lost_again:
  "list_ex (\<lambda>(k, v). k = ''STRING_DATA_RIGHT_TRUNCATION'') codes_22_to_22"
  "list_ex (\<lambda>(k, v). k = ''NULL_VALUE_NOT_ALLOWED'') codes_23_to_3b"
  by (simp_all add: codes_22_to_22_def codes_23_to_3b_def)

lemma lost_overwritten:
  "overwritten ''01004'' module_codes" "overwritten ''22004'' module_codes" "overwritten ''2F002'' module_codes"
  "overwritten ''2F003'' module_codes" "overwritten ''2F004'' module_codes"
  unfolding module_codes_def append_assoc
  using lost_elsewhere lost_again
  by (simp_all add: lost_codes_def lost_here overwritten_skip overwritten_none)

lemma lost_listed: "list_all (\<lambda>c. c \<in> set (map snd module_codes)) lost_codes"
proof -
  have "''01004'' \<in> set (map snd codes_00_to_21)" by (simp add: codes_00_to_21_def)
  moreover have "''22004'' \<in> set (map snd codes_22_to_22)" by (simp add: codes_22_to_22_def)
  moreover have "list_all (\<lambda>c. c \<in> set (map snd codes_23_to_3b)) [''2F002'', ''2F003'', ''2F004'']"
    by (simp add: codes_23_to_3b_def)
  ultimately show ?thesis by (simp add: module_codes_def lost_codes_def del: set_map)
qed

text \<open>
  C39. Five names are assigned twice in the module, for the same condition of two classes; so for
  the first code of each, which PostgreSQL sends like any other, \<open>lookup\<close> raises a \<open>KeyError\<close>.
\<close>

theorem error_codes_lost:
  assumes "distinct (map fst others)" and "\<forall>v \<in> snd ` set others. \<not> is_code v" and "code \<in> set lost_codes"
  shows "code \<in> snd ` set module_codes \<and> fst (error_lookup others code []) = Inl KeyError"
proof -
  have "\<forall>k. map_of (rev module_codes) k \<noteq> Some code"
    using assms(3) lost_overwritten [THEN overwritten_gone] by (auto simp: lost_codes_def)
  moreover have "code \<in> snd ` set module_codes"
    using assms(3) lost_listed by (auto simp: list_all_iff)
  ultimately show ?thesis using reverse_names [OF assms(1,2), of code]
    by (simp add: error_lookup_value [OF assms(1,2)] get_code_def split: option.splits)
qed

lemma error_codes_lost_witness:
  "fst (error_lookup [(''__name__'', Some ''psycopg2.errorcodes''), (''lookup'', None)] ''22004'' []) = Inl KeyError"
  using error_codes_lost [of "[(''__name__'', Some ''psycopg2.errorcodes''), (''lookup'', None)]" "''22004''"]
  by (simp add: is_code_def lost_codes_def)

end
