(* ===== verification/Yaml_Data.thy ===== *)
theory Yaml_Data
  imports Py_Strings
begin

text \<open>
  The data of the bundled YAML library: the marks that locate a problem and the texts of
  errors (\<open>yaml/error.py\<close>), tokens (\<open>yaml/tokens.py\<close>), events (\<open>yaml/events.py\<close>) and
  nodes (\<open>yaml/nodes.py\<close>).  A class hierarchy with marks in its base class is a record
  of the marks and a \<^theory_text>\<open>datatype\<close> of the subclasses.
\<close>

section \<open>Marks\<close>

record mark =
  mk_name :: string
  mk_index :: nat
  mk_line :: nat
  mk_column :: nat
  mk_buffer :: "string option"
  mk_pointer :: nat

text \<open>The line breaks of \<open>get_snippet\<close> below code point 256, and the end of the stream.\<close>

definition ends_line :: "char \<Rightarrow> bool" where
  "ends_line c = (ord c \<in> {0, 13, 10, 133})"

text \<open>
  The two loops of \<open>get_snippet\<close>.  The bound \<open>max_length/2-1\<close> is a float; the comparison is
  doubled.  Each returns the position and whether the line was cut.
\<close>

fun snippet_start :: "nat \<Rightarrow> string \<Rightarrow> nat \<Rightarrow> nat \<Rightarrow> (nat \<times> string) res" where
  "snippet_start m buf p 0 = Inr (0, '''')"
| "snippet_start m buf p (Suc k) =
     rbind (list_get buf (int k)) (\<lambda>c.
       if ends_line c then Inr (Suc k, '''')
       else if m < 2 * (p - k) + 2 then Inr (k + 5, '' ... '')
       else snippet_start m buf p k)"

fun snippet_end :: "nat \<Rightarrow> string \<Rightarrow> nat \<Rightarrow> nat \<Rightarrow> nat \<times> string" where
  "snippet_end m [] p e = (e, '''')"
| "snippet_end m (c # rest) p e =
     (if ends_line c then (e, '''')
      else if m < 2 * (Suc e - p) + 2 then (Suc e - 5, '' ... '')
      else snippet_end m rest p (Suc e))"

definition spaces :: "nat \<Rightarrow> string" where
  "spaces n = replicate n CHR '' ''"

definition get_snippet :: "nat \<Rightarrow> nat \<Rightarrow> mark \<Rightarrow> string option res" where
  "get_snippet ind m mk =
     (case mk_buffer mk of None \<Rightarrow> Inr None
      | Some buf \<Rightarrow> (let p = mk_pointer mk in
          rbind (snippet_start m buf p p) (\<lambda>(s, head).
            let (e, tail) = snippet_end m (drop p buf) p p in
            Inr (Some (spaces ind @ head @ drop s (take e buf) @ tail @ [nl]
                       @ spaces (ind + p + length head - s) @ ''^'')))))"

definition mark_str :: "mark \<Rightarrow> string res" where
  "mark_str mk = rbind (get_snippet 4 75 mk) (\<lambda>snippet.
     let loc = ''  in '' @ [dquote] @ mk_name mk @ [dquote] @ '', line '' @ show_nat (mk_line mk + 1)
               @ '', column '' @ show_nat (mk_column mk + 1)
     in Inr (case snippet of None \<Rightarrow> loc | Some t \<Rightarrow> loc @ '':'' @ [nl] @ t))"

section \<open>Errors\<close>

record marked_error =
  err_context :: "string option"
  err_context_mark :: "mark option"
  err_problem :: "string option"
  err_problem_mark :: "mark option"
  err_note :: "string option"

text \<open>The exceptions of the library; a Python one raised inside it is \<open>Raised\<close>.\<close>

datatype yaml_error =
    ParserError marked_error
  | ComposerError marked_error
  | ScannerError marked_error
  | ConstructorError marked_error
  | SerializerError string
  | RepresenterError string
  | ResolverError string
  | Raised exn

definition same_place :: "mark \<Rightarrow> mark \<Rightarrow> bool" where
  "same_place a b = (mk_name a = mk_name b \<and> mk_line a = mk_line b \<and> mk_column a = mk_column b)"

definition shows_context_mark :: "marked_error \<Rightarrow> bool" where
  "shows_context_mark e =
     (case err_context_mark e of None \<Rightarrow> False
      | Some cm \<Rightarrow> (case (err_problem e, err_problem_mark e) of
            (Some _, Some pm) \<Rightarrow> \<not> same_place cm pm
          | _ \<Rightarrow> True))"

definition opt_line :: "string option \<Rightarrow> string list" where
  "opt_line m = (case m of None \<Rightarrow> [] | Some t \<Rightarrow> [t])"

definition mark_line :: "mark option \<Rightarrow> string list res" where
  "mark_line m = (case m of None \<Rightarrow> Inr [] | Some mk \<Rightarrow> rbind (mark_str mk) (\<lambda>t. Inr [t]))"

definition marked_str :: "marked_error \<Rightarrow> string res" where
  "marked_str e =
     rbind (mark_line (if shows_context_mark e then err_context_mark e else None)) (\<lambda>cm.
     rbind (mark_line (err_problem_mark e)) (\<lambda>pm.
     Inr (join [nl] (opt_line (err_context e) @ cm @ opt_line (err_problem e) @ pm @ opt_line (err_note e)))))"

section \<open>Tokens\<close>

text \<open>
  The tokens are over a type of characters: code points where the scanner makes them,
  \<^typ>\<open>char\<close> where the parser reads them.  The value of a directive token goes by its
  name: \<open>YAML\<close>, \<open>TAG\<close>, or another name (\<open>None\<close>).
\<close>

datatype 'c directive_of = YamlDirective int int | TagDirective "'c list" "'c list" | OtherDirective "'c list"

datatype 'c token_of =
    DirectiveToken "'c directive_of"
  | DocumentStartToken
  | DocumentEndToken
  | StreamStartToken "string option"
  | StreamEndToken
  | BlockSequenceStartToken
  | BlockMappingStartToken
  | BlockEndToken
  | FlowSequenceStartToken
  | FlowMappingStartToken
  | FlowSequenceEndToken
  | FlowMappingEndToken
  | KeyToken
  | ValueToken
  | BlockEntryToken
  | FlowEntryToken
  | AliasToken "'c list"
  | AnchorToken "'c list"
  | TagToken "'c list option" "'c list"
  | ScalarToken "'c list" bool "char option"

type_synonym token_kind = "char token_of"

record token =
  tk :: token_kind
  start_mark :: mark
  end_mark :: mark

fun token_id :: "'c token_of \<Rightarrow> string" where
  "token_id (DirectiveToken _) = ''<directive>''"
| "token_id DocumentStartToken = ''<document start>''"
| "token_id DocumentEndToken = ''<document end>''"
| "token_id (StreamStartToken _) = ''<stream start>''"
| "token_id StreamEndToken = ''<stream end>''"
| "token_id BlockSequenceStartToken = ''<block sequence start>''"
| "token_id BlockMappingStartToken = ''<block mapping start>''"
| "token_id BlockEndToken = ''<block end>''"
| "token_id FlowSequenceStartToken = ''[''"
| "token_id FlowMappingStartToken = ''{''"
| "token_id FlowSequenceEndToken = '']''"
| "token_id FlowMappingEndToken = ''}''"
| "token_id KeyToken = ''?''"
| "token_id ValueToken = '':''"
| "token_id BlockEntryToken = ''-''"
| "token_id FlowEntryToken = '',''"
| "token_id (AliasToken _) = ''<alias>''"
| "token_id (AnchorToken _) = ''<anchor>''"
| "token_id (TagToken _ _) = ''<tag>''"
| "token_id (ScalarToken _ _ _) = ''<scalar>''"

section \<open>Events\<close>

text \<open>So are the events: the emitter writes code points.\<close>

datatype 'c event_of =
    StreamStartEvent "string option"
  | StreamEndEvent
  | DocumentStartEvent "bool option" "(int \<times> int) option" "('c list \<times> 'c list) list option"
  | DocumentEndEvent "bool option"
  | AliasEvent "'c list option"
  | ScalarEvent "'c list option" "'c list option" "bool \<times> bool" "'c list" "char option"
  | SequenceStartEvent "'c list option" "'c list option" bool "bool option"
  | SequenceEndEvent
  | MappingStartEvent "'c list option" "'c list option" bool "bool option"
  | MappingEndEvent

type_synonym event_kind = "char event_of"

record event =
  ev :: event_kind
  ev_start :: "mark option"
  ev_end :: "mark option"

section \<open>The shape of an event stream\<close>

text \<open>
  What a reader of the events still expects, innermost first: the stream, further documents,
  a document's end, a node, further entries of a sequence, a key or the end of a mapping, and
  a value.
\<close>

datatype expect = AStream | ADocs | ADocEnd | ANode | AEntry | AKey | AValue

fun node_shape :: "expect list \<Rightarrow> 'c event_of \<Rightarrow> expect list option" where
  "node_shape r (AliasEvent _) = Some r"
| "node_shape r (ScalarEvent _ _ _ _ _) = Some r"
| "node_shape r (SequenceStartEvent _ _ _ _) = Some (AEntry # r)"
| "node_shape r (MappingStartEvent _ _ _ _) = Some (AKey # r)"
| "node_shape r _ = None"

fun shape_step :: "expect list \<Rightarrow> 'c event_of \<Rightarrow> expect list option" where
  "shape_step (AStream # r) (StreamStartEvent _) = Some (ADocs # r)"
| "shape_step (AStream # r) _ = None"
| "shape_step (ADocs # r) (DocumentStartEvent _ _ _) = Some (ANode # ADocEnd # ADocs # r)"
| "shape_step (ADocs # r) StreamEndEvent = Some r"
| "shape_step (ADocs # r) _ = None"
| "shape_step (ADocEnd # r) (DocumentEndEvent _) = Some r"
| "shape_step (ADocEnd # r) _ = None"
| "shape_step (ANode # r) k = node_shape r k"
| "shape_step (AEntry # r) SequenceEndEvent = Some r"
| "shape_step (AEntry # r) k = node_shape (AEntry # r) k"
| "shape_step (AKey # r) MappingEndEvent = Some r"
| "shape_step (AKey # r) k = node_shape (AValue # r) k"
| "shape_step (AValue # r) k = node_shape (AKey # r) k"
| "shape_step [] _ = None"

fun shape :: "expect list \<Rightarrow> 'c event_of list \<Rightarrow> expect list option" where
  "shape es [] = Some es"
| "shape es (k # ks) = (case shape_step es k of None \<Rightarrow> None | Some es' \<Rightarrow> shape es' ks)"

lemma shape_append: "shape es (xs @ ys) = (case shape es xs of None \<Rightarrow> None | Some es' \<Rightarrow> shape es' ys)"
  by (induction xs arbitrary: es) (auto split: option.split)

section \<open>Nodes\<close>

text \<open>
  Nodes are mutable objects that an anchor may share, or even close into a cycle, so a
  graph is a list of nodes and a node is named by its position.
\<close>

type_synonym node_ref = nat

datatype node_value =
    ScalarNode string "char option"
  | SequenceNode "node_ref list" "bool option"
  | MappingNode "(node_ref \<times> node_ref) list" "bool option"

record node =
  node_tag :: string
  node_value :: node_value
  node_start :: "mark option"
  node_end :: "mark option"

datatype node_class = ScalarClass | SequenceClass | MappingClass

fun class_of :: "node_value \<Rightarrow> node_class" where
  "class_of (ScalarNode _ _) = ScalarClass"
| "class_of (SequenceNode _ _) = SequenceClass"
| "class_of (MappingNode _ _) = MappingClass"

section \<open>The caret of a snippet\<close>

lemma snippet_start_run:
  assumes "p < length buf" and "k \<le> p" and "snippet_start m buf p k = Inr (s, head)" and "12 \<le> m"
    and "2 * (p - k) + 2 \<le> m"
  shows "s \<le> p \<and> (head = '''' \<or> head = '' ... '' \<and> 5 \<le> s)"
  using assms(2,3,5)
proof (induction k)
  case (Suc k)
  have "k < length buf" using assms(1) Suc.prems(1) by simp
  with Suc assms(4) show ?case by (auto split: if_splits)
qed simp

lemma snippet_start_total: "p < length buf \<Longrightarrow> k \<le> p \<Longrightarrow> \<exists>s head. snippet_start m buf p k = Inr (s, head)"
  by (induction k) auto

lemma snippet_end_run:
  assumes "snippet_end m rest p e = (e', tail)" and "p \<le> e" and "12 \<le> m" and "2 * (e - p) + 2 \<le> m"
    and "e = p \<longrightarrow> (\<exists>c cs. rest = c # cs \<and> \<not> ends_line c)"
  shows "p < e' \<and> e' \<le> e + length rest"
  using assms
proof (induction m rest p e rule: snippet_end.induct)
  case (2 m c rest p e)
  show ?case
  proof (cases "ends_line c \<or> m < 2 * (Suc e - p) + 2")
    case True
    then show ?thesis using "2.prems" by (auto split: if_splits)
  next
    case False
    then show ?thesis using "2.IH" "2.prems" by fastforce
  qed
qed auto

text \<open>
  The caret of an error snippet stands under the character the mark points at: when the
  mark lies inside the buffer and not on a line break, \<open>get_snippet\<close> returns a line of the
  buffer around it, indented, and below it a run of blanks as long as the text to the left
  of that character, ended by the caret; also where \<open>max_length\<close> cuts the line at either
  side and ellipses stand in.
\<close>

theorem snippet_caret:
  fixes mk :: mark
  assumes "mk_buffer mk = Some buf" and "mk_pointer mk < length buf"
    and "\<not> ends_line (buf ! mk_pointer mk)" and "12 \<le> m"
  shows "\<exists>line k. get_snippet ind m mk = Inr (Some (line @ [nl] @ spaces k @ ''^'')) \<and>
    k < length line \<and> line ! k = buf ! mk_pointer mk \<and> ind \<le> k \<and> take ind line = spaces ind"
proof -
  let ?p = "mk_pointer mk"
  from snippet_start_total [OF assms(2), of ?p m] obtain s head
    where s: "snippet_start m buf ?p ?p = Inr (s, head)" by auto
  have sp: "s \<le> ?p \<and> (head = '''' \<or> head = '' ... '' \<and> 5 \<le> s)"
    using snippet_start_run [OF assms(2) _ s assms(4)] assms(4) by simp
  obtain e tail where e: "snippet_end m (drop ?p buf) ?p ?p = (e, tail)" by fastforce
  have d: "drop ?p buf = buf ! ?p # drop (Suc ?p) buf" using assms(2) by (simp add: Cons_nth_drop_Suc)
  have ep: "?p < e \<and> e \<le> ?p + length (drop ?p buf)"
    by (rule snippet_end_run [OF e]) (use assms(3,4) d in auto)
  then have el: "e \<le> length buf" using assms(2) by simp
  let ?line = "spaces ind @ head @ drop s (take e buf) @ tail"
  let ?k = "ind + ?p + length head - s"
  have k: "?k = ind + length head + (?p - s)" using sp by simp
  have "?line ! ?k = (drop s (take e buf) @ tail) ! (?p - s)"
    unfolding k by (simp add: nth_append spaces_def)
  also have "\<dots> = buf ! ?p" using sp ep el diff_less_mono [of ?p e s] by (simp add: nth_append)
  finally have 1: "?line ! ?k = buf ! ?p" .
  have 2: "?k < length ?line"
  proof -
    have "?p - s < e - s" using sp ep by (simp add: diff_less_mono)
    moreover have "length ?line = ind + (length head + (e - s + length tail))"
      using el by (simp add: spaces_def)
    ultimately show ?thesis unfolding k by linarith
  qed
  have "get_snippet ind m mk = Inr (Some (?line @ [nl] @ spaces ?k @ ''^''))"
    by (simp add: get_snippet_def assms(1) s e)
  with 1 2 show ?thesis using k by (intro exI [of _ ?line] exI [of _ ?k]) (simp add: spaces_def)
qed

definition sample_mark :: mark where
  "sample_mark = \<lparr>mk_name = ''<file>'', mk_index = 3, mk_line = 1, mk_column = 1,
     mk_buffer = Some (''a'' @ [nl] @ ''b:c''), mk_pointer = 3\<rparr>"

lemma snippet_caret_witness:
  "(\<exists>line k. get_snippet 4 75 sample_mark = Inr (Some (line @ [nl] @ spaces k @ ''^'')) \<and>
    k < length line \<and> line ! k = CHR '':'' \<and> 4 \<le> k \<and> take 4 line = spaces 4)"
  using snippet_caret [of sample_mark "''a'' @ [nl] @ ''b:c''" 75 4]
  by (simp add: sample_mark_def ends_line_def)

end
