(* ===== verification/Yaml_Parser.thy ===== *)
theory Yaml_Parser
  imports Yaml_Data Py_Json
begin

text \<open>
  The parser of the bundled YAML library (\<open>yaml/parser.py\<close>): a machine whose states are
  the bound methods \<open>parse_*\<close>, with a stack of the states to return to and one of the
  marks of the open collections, that reads tokens and gives one event at a time.  The
  scanner is what \<open>peek_token\<close> would answer at each place of its input: a list of tokens,
  with an error where it raises; a scanner asked beyond its last token answers \<open>None\<close>.
\<close>

section \<open>The state of the parser\<close>

datatype pstate =
    StreamStart
  | ImplicitDocumentStart
  | DocumentStart
  | DocumentEnd
  | DocumentContent
  | BlockNode
  | BlockSequenceFirstEntry
  | BlockSequenceEntry
  | IndentlessSequenceEntry
  | BlockMappingFirstKey
  | BlockMappingKey
  | BlockMappingValue
  | FlowSequenceFirstEntry
  | FlowSequenceEntry
  | FlowSequenceEntryMappingKey
  | FlowSequenceEntryMappingValue
  | FlowSequenceEntryMappingEnd
  | FlowMappingFirstKey
  | FlowMappingKey
  | FlowMappingValue
  | FlowMappingEmptyValue

text \<open>The two stacks have their top in front.\<close>

record parser =
  p_toks :: "(yaml_error + token) list"
  current_event :: "event option"
  yaml_version :: "(int \<times> int) option"
  tag_handles :: "(string \<times> string) list"
  p_states :: "pstate list"
  p_marks :: "mark list"
  p_state :: "pstate option"

type_synonym 'a parse = "(parser, yaml_error, 'a) act"

definition default_tags :: "(string \<times> string) list" where
  "default_tags = [(''!'', ''!''), (''!!'', ''tag:yaml.org,2002:'')]"

definition new_parser :: "(yaml_error + token) list \<Rightarrow> parser" where
  "new_parser ts = \<lparr>p_toks = ts, current_event = None, yaml_version = None, tag_handles = [],
     p_states = [], p_marks = [], p_state = Some StreamStart\<rparr>"

section \<open>Tokens\<close>

definition peek_token :: "token option parse" where
  "peek_token p = (case p_toks p of [] \<Rightarrow> (Inr None, p) | Inl e # _ \<Rightarrow> (Inl e, p) | Inr t # _ \<Rightarrow> (Inr (Some t), p))"

definition get_token :: "token option parse" where
  "get_token p = (case p_toks p of [] \<Rightarrow> (Inr None, p) | Inl e # _ \<Rightarrow> (Inl e, p)
     | Inr t # ts \<Rightarrow> (Inr (Some t), p\<lparr>p_toks := ts\<rparr>))"

definition check_token :: "(token_kind \<Rightarrow> bool) \<Rightarrow> bool parse" where
  "check_token c = sbind peek_token (\<lambda>t. ret (case t of None \<Rightarrow> False | Some t \<Rightarrow> c (tk t)))"

text \<open>An attribute of the token, which \<open>None\<close> does not have.\<close>

definition attr :: "token option \<Rightarrow> (token \<Rightarrow> 'a) \<Rightarrow> 'a parse" where
  "attr t f = lift_res (of_option (Raised AttributeError) (map_option f t))"

fun is_alias :: "token_kind \<Rightarrow> bool" where
  "is_alias (AliasToken _) = True" | "is_alias _ = False"

fun is_anchor :: "token_kind \<Rightarrow> bool" where
  "is_anchor (AnchorToken _) = True" | "is_anchor _ = False"

fun is_tag :: "token_kind \<Rightarrow> bool" where
  "is_tag (TagToken _ _) = True" | "is_tag _ = False"

fun is_scalar :: "token_kind \<Rightarrow> bool" where
  "is_scalar (ScalarToken _ _ _) = True" | "is_scalar _ = False"

fun is_directive :: "token_kind \<Rightarrow> bool" where
  "is_directive (DirectiveToken _) = True" | "is_directive _ = False"

fun alias_value :: "token_kind \<Rightarrow> string" where
  "alias_value (AliasToken a) = a" | "alias_value (AnchorToken a) = a" | "alias_value _ = ''''"

fun tag_value :: "token_kind \<Rightarrow> string option \<times> string" where
  "tag_value (TagToken h s) = (h, s)" | "tag_value _ = (None, '''')"

fun scalar_value :: "token_kind \<Rightarrow> string \<times> bool \<times> char option" where
  "scalar_value (ScalarToken v p s) = (v, p, s)" | "scalar_value _ = ('''', False, None)"

fun stream_encoding :: "token_kind \<Rightarrow> yaml_error + string option" where
  "stream_encoding (StreamStartToken enc) = Inr enc"
| "stream_encoding _ = Inl (Raised AttributeError)"

section \<open>The stacks\<close>

definition set_state :: "pstate option \<Rightarrow> unit parse" where
  "set_state s = modify (\<lambda>p. p\<lparr>p_state := s\<rparr>)"

definition push_state :: "pstate \<Rightarrow> unit parse" where
  "push_state s = modify (\<lambda>p. p\<lparr>p_states := s # p_states p\<rparr>)"

definition push_mark :: "mark \<Rightarrow> unit parse" where
  "push_mark m = modify (\<lambda>p. p\<lparr>p_marks := m # p_marks p\<rparr>)"

text \<open>\<open>self.state = self.states.pop()\<close>, \<open>self.marks.pop()\<close> and \<open>self.marks[-1]\<close>\<close>

definition pop_state :: "unit parse" where
  "pop_state p = (case p_states p of [] \<Rightarrow> (Inl (Raised IndexError), p)
     | s # ss \<Rightarrow> (Inr (), p\<lparr>p_states := ss, p_state := Some s\<rparr>))"

definition pop_mark :: "unit parse" where
  "pop_mark p = (case p_marks p of [] \<Rightarrow> (Inl (Raised IndexError), p)
     | m # ms \<Rightarrow> (Inr (), p\<lparr>p_marks := ms\<rparr>))"

definition top_mark :: "mark parse" where
  "top_mark p = (case p_marks p of [] \<Rightarrow> (Inl (Raised IndexError), p) | m # ms \<Rightarrow> (Inr m, p))"

definition assert_that :: "(parser \<Rightarrow> bool) \<Rightarrow> unit parse" where
  "assert_that c p = (if c p then (Inr (), p) else (Inl (Raised AssertionError), p))"

definition mk_event :: "event_kind \<Rightarrow> mark \<Rightarrow> mark \<Rightarrow> event" where
  "mk_event k s e = \<lparr>ev = k, ev_start = Some s, ev_end = Some e\<rparr>"

definition process_empty_scalar :: "mark \<Rightarrow> event" where
  "process_empty_scalar m = mk_event (ScalarEvent None None (True, False) '''' None) m m"

definition parser_error :: "string option \<Rightarrow> mark option \<Rightarrow> string \<Rightarrow> mark \<Rightarrow> yaml_error" where
  "parser_error c cm pr pm = ParserError \<lparr>err_context = c, err_context_mark = cm,
     err_problem = Some pr, err_problem_mark = Some pm, err_note = None\<rparr>"

text \<open>The messages \<open>"... but found %r" % token.id\<close>; an id holds no quote, so its repr adds two.\<close>

definition repr_id :: "token \<Rightarrow> string" where
  "repr_id t = [quote] @ token_id (tk t) @ [quote]"

text \<open>Raise the error of an unexpected token.\<close>

definition unexpected :: "string option \<Rightarrow> mark option \<Rightarrow> string \<Rightarrow> 'a parse" where
  "unexpected c cm pr = sbind peek_token (\<lambda>t. sbind (attr t (\<lambda>t. (repr_id t, start_mark t))) (\<lambda>(i, m).
     throw (parser_error c cm (pr @ i) m)))"

section \<open>Directives\<close>

text \<open>The loop of \<open>process_directives\<close> over the directive tokens in front.\<close>

fun directive_loop :: "(yaml_error + token) list \<Rightarrow> unit parse" where
  "directive_loop [] p = (Inr (), p)"
| "directive_loop (Inl e # ts) p = (Inl e, p)"
| "directive_loop (Inr t # ts) p =
     (case tk t of
        DirectiveToken d \<Rightarrow>
          (let p = p\<lparr>p_toks := ts\<rparr> in
           case d of
             YamlDirective major minor \<Rightarrow>
               (if yaml_version p \<noteq> None then
                  (Inl (parser_error None None ''found duplicate YAML directive'' (start_mark t)), p)
                else if major \<noteq> 1 then
                  (Inl (parser_error None None
                     ''found incompatible YAML document (version 1.* is required)'' (start_mark t)), p)
                else directive_loop ts (p\<lparr>yaml_version := Some (major, minor)\<rparr>))
           | TagDirective handle pre \<Rightarrow>
               (if handle \<in> fst ` set (tag_handles p) then
                  (Inl (parser_error None None (''duplicate tag handle '' @ repr_string handle) (start_mark t)), p)
                else directive_loop ts (p\<lparr>tag_handles := dict_set (tag_handles p) handle pre\<rparr>))
           | OtherDirective name \<Rightarrow> directive_loop ts p)
      | _ \<Rightarrow> (Inr (), p))"

definition add_default :: "(string \<times> string) list \<Rightarrow> string \<times> string \<Rightarrow> (string \<times> string) list" where
  "add_default hs kv = (if fst kv \<in> fst ` set hs then hs else dict_set hs (fst kv) (snd kv))"

definition process_directives :: "((int \<times> int) option \<times> (string \<times> string) list option) parse" where
  "process_directives =
     sbind (modify (\<lambda>p. p\<lparr>yaml_version := None, tag_handles := []\<rparr>)) (\<lambda>_.
     sbind (\<lambda>p. directive_loop (p_toks p) p) (\<lambda>_.
     sbind (gets (\<lambda>p. (yaml_version p, if tag_handles p = [] then None else Some (tag_handles p)))) (\<lambda>value.
     sbind (modify (\<lambda>p. p\<lparr>tag_handles := foldl add_default (tag_handles p) default_tags\<rparr>)) (\<lambda>_.
     ret value))))"

section \<open>Nodes\<close>

text \<open>
  The properties of a node: anchor, tag, and the marks of the start, the end and the tag.
\<close>

definition anchor_then_tag ::
  "(string option \<times> (string option \<times> string) option \<times> mark option \<times> mark option \<times> mark option) parse" where
  "anchor_then_tag =
     sbind get_token (\<lambda>t. sbind (attr t (\<lambda>t. (start_mark t, end_mark t, alias_value (tk t)))) (\<lambda>(sm, em, anchor).
     sbind (check_token is_tag) (\<lambda>b.
       if b then sbind get_token (\<lambda>t. sbind (attr t (\<lambda>t. (start_mark t, end_mark t, tag_value (tk t)))) (\<lambda>(tm, em, tag).
         ret (Some anchor, Some tag, Some sm, Some em, Some tm)))
       else ret (Some anchor, None, Some sm, Some em, None))))"

definition tag_then_anchor ::
  "(string option \<times> (string option \<times> string) option \<times> mark option \<times> mark option \<times> mark option) parse" where
  "tag_then_anchor =
     sbind get_token (\<lambda>t. sbind (attr t (\<lambda>t. (start_mark t, end_mark t, tag_value (tk t)))) (\<lambda>(sm, em, tag).
     sbind (check_token is_anchor) (\<lambda>b.
       if b then sbind get_token (\<lambda>t. sbind (attr t (\<lambda>t. (end_mark t, alias_value (tk t)))) (\<lambda>(em, anchor).
         ret (Some anchor, Some tag, Some sm, Some em, Some sm)))
       else ret (None, Some tag, Some sm, Some em, Some sm))))"

definition node_properties ::
  "(string option \<times> (string option \<times> string) option \<times> mark option \<times> mark option \<times> mark option) parse" where
  "node_properties =
     sbind (check_token is_anchor) (\<lambda>b. if b then anchor_then_tag else
     sbind (check_token is_tag) (\<lambda>b. if b then tag_then_anchor else
     ret (None, None, None, None, None)))"

definition resolve_tag ::
  "(string option \<times> string) option \<Rightarrow> mark option \<Rightarrow> mark option \<Rightarrow> string option parse" where
  "resolve_tag tag sm tm p =
     (case tag of None \<Rightarrow> (Inr None, p)
      | Some (None, suf) \<Rightarrow> (Inr (Some suf), p)
      | Some (Some handle, suf) \<Rightarrow>
          (case map_of (tag_handles p) handle of
             None \<Rightarrow> (Inl (ParserError \<lparr>err_context = Some ''while parsing a node'', err_context_mark = sm,
                 err_problem = Some (''found undefined tag handle '' @ repr_string handle),
                 err_problem_mark = tm, err_note = None\<rparr>), p)
           | Some pre \<Rightarrow> (Inr (Some (pre @ suf)), p)))"

text \<open>
  \<open>implicit = (tag is None or tag == '!')\<close>, and the pair a scalar gets.
\<close>

definition tag_implicit :: "string option \<Rightarrow> bool" where
  "tag_implicit tag = (tag = None \<or> tag = Some ''!'')"

definition scalar_implicit :: "bool \<Rightarrow> string option \<Rightarrow> bool \<times> bool" where
  "scalar_implicit plain tag =
     (if (plain \<and> tag = None) \<or> tag = Some ''!'' then (True, False)
      else if tag = None then (False, True)
      else (False, False))"

text \<open>The start event of a collection whose first token is not consumed here.\<close>

definition start_collection :: "event_kind \<Rightarrow> mark \<Rightarrow> (token \<Rightarrow> mark) \<Rightarrow> pstate \<Rightarrow> event parse" where
  "start_collection k sm f st =
     sbind peek_token (\<lambda>t. sbind (attr t f) (\<lambda>em.
     sbind (set_state (Some st)) (\<lambda>_. ret (mk_event k sm em))))"

definition node_content ::
  "bool \<Rightarrow> bool \<Rightarrow> string option \<Rightarrow> string option \<Rightarrow> mark \<Rightarrow> mark \<Rightarrow> event parse" where
  "node_content block indentless anchor tag sm em =
     (let imp = tag_implicit tag in
      sbind (check_token (\<lambda>k. indentless \<and> k = BlockEntryToken)) (\<lambda>b. if b then
        start_collection (SequenceStartEvent anchor tag imp None) sm end_mark IndentlessSequenceEntry else
      sbind (check_token is_scalar) (\<lambda>b. if b then
        sbind get_token (\<lambda>t. sbind (attr t (\<lambda>t. (end_mark t, scalar_value (tk t)))) (\<lambda>(em, v, plain, style).
        sbind pop_state (\<lambda>_. ret (mk_event (ScalarEvent anchor tag (scalar_implicit plain tag) v style) sm em)))) else
      sbind (check_token (\<lambda>k. k = FlowSequenceStartToken)) (\<lambda>b. if b then
        start_collection (SequenceStartEvent anchor tag imp (Some True)) sm end_mark FlowSequenceFirstEntry else
      sbind (check_token (\<lambda>k. k = FlowMappingStartToken)) (\<lambda>b. if b then
        start_collection (MappingStartEvent anchor tag imp (Some True)) sm end_mark FlowMappingFirstKey else
      sbind (check_token (\<lambda>k. block \<and> k = BlockSequenceStartToken)) (\<lambda>b. if b then
        start_collection (SequenceStartEvent anchor tag imp (Some False)) sm start_mark BlockSequenceFirstEntry else
      sbind (check_token (\<lambda>k. block \<and> k = BlockMappingStartToken)) (\<lambda>b. if b then
        start_collection (MappingStartEvent anchor tag imp (Some False)) sm start_mark BlockMappingFirstKey else
      if anchor \<noteq> None \<or> tag \<noteq> None then
        sbind pop_state (\<lambda>_. ret (mk_event (ScalarEvent anchor tag (imp, False) '''' None) sm em))
      else unexpected (Some (''while parsing a '' @ (if block then ''block'' else ''flow'') @ '' node'')) (Some sm)
        ''expected the node content, but found '')))))))"

definition parse_node :: "bool \<Rightarrow> bool \<Rightarrow> event parse" where
  "parse_node block indentless =
     sbind (check_token is_alias) (\<lambda>b. if b then
       sbind get_token (\<lambda>t. sbind (attr t (\<lambda>t. mk_event (AliasEvent (Some (alias_value (tk t)))) (start_mark t) (end_mark t))) (\<lambda>e.
       sbind pop_state (\<lambda>_. ret e)))
     else
       sbind node_properties (\<lambda>(anchor, tag, sm, em, tm).
       sbind (resolve_tag tag sm tm) (\<lambda>tag.
       sbind (case (sm, em) of (Some sm, Some em) \<Rightarrow> ret (sm, em)
              | _ \<Rightarrow> sbind peek_token (\<lambda>t. attr t (\<lambda>t. (start_mark t, start_mark t)))) (\<lambda>(sm, em).
       node_content block indentless anchor tag sm em))))"

section \<open>Documents\<close>

definition parse_stream_start :: "event parse" where
  "parse_stream_start =
     sbind get_token (\<lambda>t. sbind (attr t (\<lambda>t. (start_mark t, end_mark t, tk t))) (\<lambda>(sm, em, k).
     sbind (lift_res (stream_encoding k)) (\<lambda>enc.
     sbind (set_state (Some ImplicitDocumentStart)) (\<lambda>_.
     ret (mk_event (StreamStartEvent enc) sm em)))))"

fun document_end_loop :: "(yaml_error + token) list \<Rightarrow> unit parse" where
  "document_end_loop [] p = (Inr (), p)"
| "document_end_loop (Inl e # ts) p = (Inl e, p)"
| "document_end_loop (Inr t # ts) p =
     (if tk t = DocumentEndToken then document_end_loop ts (p\<lparr>p_toks := ts\<rparr>) else (Inr (), p))"

definition end_of_stream :: "event parse" where
  "end_of_stream =
     sbind get_token (\<lambda>t. sbind (attr t (\<lambda>t. mk_event StreamEndEvent (start_mark t) (end_mark t))) (\<lambda>e.
     sbind (assert_that (\<lambda>p. p_states p = [])) (\<lambda>_.
     sbind (assert_that (\<lambda>p. p_marks p = [])) (\<lambda>_.
     sbind (set_state None) (\<lambda>_. ret e)))))"

definition explicit_document :: "event parse" where
  "explicit_document =
     sbind peek_token (\<lambda>t. sbind (attr t start_mark) (\<lambda>sm.
     sbind process_directives (\<lambda>(version, tags).
     sbind (check_token (\<lambda>k. k = DocumentStartToken)) (\<lambda>b. if \<not> b then
       unexpected None None (''expected '' @ [quote] @ ''<document start>'' @ [quote] @ '', but found '') else
     sbind get_token (\<lambda>t. sbind (attr t end_mark) (\<lambda>em.
     sbind (push_state DocumentEnd) (\<lambda>_.
     sbind (set_state (Some DocumentContent)) (\<lambda>_.
     ret (mk_event (DocumentStartEvent (Some True) version tags) sm em)))))))))"

definition parse_document_start :: "event parse" where
  "parse_document_start =
     sbind (\<lambda>p. document_end_loop (p_toks p) p) (\<lambda>_.
     sbind (check_token (\<lambda>k. k = StreamEndToken)) (\<lambda>b. if \<not> b then explicit_document else end_of_stream))"

definition parse_implicit_document_start :: "event parse" where
  "parse_implicit_document_start =
     sbind (check_token (\<lambda>k. is_directive k \<or> k = DocumentStartToken \<or> k = StreamEndToken)) (\<lambda>b. if \<not> b then
       sbind (modify (\<lambda>p. p\<lparr>tag_handles := default_tags\<rparr>)) (\<lambda>_.
       sbind peek_token (\<lambda>t. sbind (attr t start_mark) (\<lambda>sm.
       sbind (push_state DocumentEnd) (\<lambda>_.
       sbind (set_state (Some BlockNode)) (\<lambda>_.
       ret (mk_event (DocumentStartEvent (Some False) None None) sm sm))))))
     else parse_document_start)"

definition parse_document_end :: "event parse" where
  "parse_document_end =
     sbind peek_token (\<lambda>t. sbind (attr t start_mark) (\<lambda>sm.
     sbind (check_token (\<lambda>k. k = DocumentEndToken)) (\<lambda>b.
     sbind (if b then sbind get_token (\<lambda>t. attr t (\<lambda>t. (end_mark t, True))) else ret (sm, False)) (\<lambda>(em, explicit).
     sbind (set_state (Some DocumentStart)) (\<lambda>_.
     ret (mk_event (DocumentEndEvent (Some explicit)) sm em))))))"

definition parse_document_content :: "event parse" where
  "parse_document_content =
     sbind (check_token (\<lambda>k. is_directive k \<or> k = DocumentStartToken \<or> k = DocumentEndToken \<or> k = StreamEndToken))
       (\<lambda>b. if b then
         sbind peek_token (\<lambda>t. sbind (attr t start_mark) (\<lambda>m.
         sbind pop_state (\<lambda>_. ret (process_empty_scalar m))))
       else parse_node True False)"

section \<open>Block collections\<close>

text \<open>Go on in a state with an empty scalar, and return to a state after a node.\<close>

definition empty_then :: "pstate \<Rightarrow> mark \<Rightarrow> event parse" where
  "empty_then st m = sbind (set_state (Some st)) (\<lambda>_. ret (process_empty_scalar m))"

definition node_then :: "bool \<Rightarrow> bool \<Rightarrow> pstate \<Rightarrow> event parse" where
  "node_then block indentless st = sbind (push_state st) (\<lambda>_. parse_node block indentless)"

text \<open>The last lines of a collection that keeps a mark: consume its end token, pop both stacks.\<close>

definition end_collection :: "event_kind \<Rightarrow> event parse" where
  "end_collection k =
     sbind get_token (\<lambda>t. sbind (attr t (\<lambda>t. mk_event k (start_mark t) (end_mark t))) (\<lambda>e.
     sbind pop_state (\<lambda>_. sbind pop_mark (\<lambda>_. ret e))))"

definition opened :: "event parse \<Rightarrow> event parse" where
  "opened entry = sbind get_token (\<lambda>t. sbind (attr t start_mark) (\<lambda>m. sbind (push_mark m) (\<lambda>_. entry)))"

text \<open>A node after the token just taken, or an empty scalar at its end when one of \<open>stop\<close> follows.\<close>

definition entry_node :: "(token_kind \<Rightarrow> bool) \<Rightarrow> bool \<Rightarrow> bool \<Rightarrow> pstate \<Rightarrow> event parse" where
  "entry_node stop block indentless st =
     sbind get_token (\<lambda>t. sbind (check_token stop) (\<lambda>b.
       if \<not> b then node_then block indentless st
       else sbind (attr t end_mark) (empty_then st)))"

text \<open>An empty scalar at the start of the next token, which is not taken.\<close>

definition empty_here :: "pstate \<Rightarrow> event parse" where
  "empty_here st = sbind (set_state (Some st)) (\<lambda>_. sbind peek_token (\<lambda>t.
     sbind (attr t start_mark) (\<lambda>m. ret (process_empty_scalar m))))"

definition expected_end :: "string \<Rightarrow> string \<Rightarrow> (token_kind \<Rightarrow> bool) \<Rightarrow> event parse \<Rightarrow> event parse" where
  "expected_end what msg c done_act =
     sbind (check_token c) (\<lambda>b. if \<not> b then
       sbind top_mark (\<lambda>m. unexpected (Some what) (Some m) msg)
     else done_act)"

definition parse_block_sequence_entry :: "event parse" where
  "parse_block_sequence_entry =
     sbind (check_token (\<lambda>k. k = BlockEntryToken)) (\<lambda>b. if b then
       entry_node (\<lambda>k. k = BlockEntryToken \<or> k = BlockEndToken) True False BlockSequenceEntry
     else expected_end ''while parsing a block collection'' ''expected <block end>, but found ''
       (\<lambda>k. k = BlockEndToken) (end_collection SequenceEndEvent))"

definition parse_indentless_sequence_entry :: "event parse" where
  "parse_indentless_sequence_entry =
     sbind (check_token (\<lambda>k. k = BlockEntryToken)) (\<lambda>b. if b then
       entry_node (\<lambda>k. k = BlockEntryToken \<or> k = KeyToken \<or> k = ValueToken \<or> k = BlockEndToken)
         True False IndentlessSequenceEntry
     else sbind peek_token (\<lambda>t. sbind (attr t start_mark) (\<lambda>m.
       sbind pop_state (\<lambda>_. ret (mk_event SequenceEndEvent m m)))))"

definition parse_block_mapping_key :: "event parse" where
  "parse_block_mapping_key =
     sbind (check_token (\<lambda>k. k = KeyToken)) (\<lambda>b. if b then
       entry_node (\<lambda>k. k = KeyToken \<or> k = ValueToken \<or> k = BlockEndToken) True True BlockMappingValue
     else expected_end ''while parsing a block mapping'' ''expected <block end>, but found ''
       (\<lambda>k. k = BlockEndToken) (end_collection MappingEndEvent))"

definition parse_block_mapping_value :: "event parse" where
  "parse_block_mapping_value =
     sbind (check_token (\<lambda>k. k = ValueToken)) (\<lambda>b. if b then
       entry_node (\<lambda>k. k = KeyToken \<or> k = ValueToken \<or> k = BlockEndToken) True True BlockMappingKey
     else empty_here BlockMappingKey)"

section \<open>Flow collections\<close>

definition flow_comma :: "string \<Rightarrow> string \<Rightarrow> event parse \<Rightarrow> event parse" where
  "flow_comma what msg rest =
     sbind (check_token (\<lambda>k. k = FlowEntryToken)) (\<lambda>b. if b then sbind get_token (\<lambda>_. rest)
     else sbind top_mark (\<lambda>m. unexpected (Some what) (Some m) msg))"

definition flow_sequence_item :: "event parse" where
  "flow_sequence_item =
     sbind (check_token (\<lambda>k. k = KeyToken)) (\<lambda>b. if b then
       sbind peek_token (\<lambda>t. sbind (attr t (\<lambda>t. (start_mark t, end_mark t))) (\<lambda>(sm, em).
       sbind (set_state (Some FlowSequenceEntryMappingKey)) (\<lambda>_.
       ret (mk_event (MappingStartEvent None None True (Some True)) sm em))))
     else sbind (check_token (\<lambda>k. k = FlowSequenceEndToken)) (\<lambda>b. if \<not> b then
       node_then False False FlowSequenceEntry
     else end_collection SequenceEndEvent))"

definition parse_flow_sequence_entry :: "bool \<Rightarrow> event parse" where
  "parse_flow_sequence_entry first =
     sbind (check_token (\<lambda>k. k = FlowSequenceEndToken)) (\<lambda>b. if b then end_collection SequenceEndEvent
     else if first then flow_sequence_item
     else flow_comma ''while parsing a flow sequence'' ''expected ',' or ']', but got '' flow_sequence_item)"

definition parse_flow_sequence_entry_mapping_key :: "event parse" where
  "parse_flow_sequence_entry_mapping_key =
     entry_node (\<lambda>k. k = ValueToken \<or> k = FlowEntryToken \<or> k = FlowSequenceEndToken) False False
       FlowSequenceEntryMappingValue"

definition parse_flow_sequence_entry_mapping_value :: "event parse" where
  "parse_flow_sequence_entry_mapping_value =
     sbind (check_token (\<lambda>k. k = ValueToken)) (\<lambda>b. if b then
       entry_node (\<lambda>k. k = FlowEntryToken \<or> k = FlowSequenceEndToken) False False FlowSequenceEntryMappingEnd
     else empty_here FlowSequenceEntryMappingEnd)"

definition parse_flow_sequence_entry_mapping_end :: "event parse" where
  "parse_flow_sequence_entry_mapping_end =
     sbind (set_state (Some FlowSequenceEntry)) (\<lambda>_. sbind peek_token (\<lambda>t.
     sbind (attr t start_mark) (\<lambda>m. ret (mk_event MappingEndEvent m m))))"

definition flow_mapping_item :: "event parse" where
  "flow_mapping_item =
     sbind (check_token (\<lambda>k. k = KeyToken)) (\<lambda>b. if b then
       entry_node (\<lambda>k. k = ValueToken \<or> k = FlowEntryToken \<or> k = FlowMappingEndToken) False False FlowMappingValue
     else sbind (check_token (\<lambda>k. k = FlowMappingEndToken)) (\<lambda>b. if \<not> b then
       node_then False False FlowMappingEmptyValue
     else end_collection MappingEndEvent))"

definition parse_flow_mapping_key :: "bool \<Rightarrow> event parse" where
  "parse_flow_mapping_key first =
     sbind (check_token (\<lambda>k. k = FlowMappingEndToken)) (\<lambda>b. if b then end_collection MappingEndEvent
     else if first then flow_mapping_item
     else flow_comma ''while parsing a flow mapping'' ''expected ',' or '}', but got '' flow_mapping_item)"

definition parse_flow_mapping_value :: "event parse" where
  "parse_flow_mapping_value =
     sbind (check_token (\<lambda>k. k = ValueToken)) (\<lambda>b. if b then
       entry_node (\<lambda>k. k = FlowEntryToken \<or> k = FlowMappingEndToken) False False FlowMappingKey
     else empty_here FlowMappingKey)"

definition parse_flow_mapping_empty_value :: "event parse" where
  "parse_flow_mapping_empty_value = empty_here FlowMappingKey"

text \<open>The states that take the first token of a collection.\<close>

definition parse_block_sequence_first_entry :: "event parse" where
  [simp]: "parse_block_sequence_first_entry = opened parse_block_sequence_entry"

definition parse_block_mapping_first_key :: "event parse" where
  [simp]: "parse_block_mapping_first_key = opened parse_block_mapping_key"

definition parse_flow_sequence_first_entry :: "event parse" where
  [simp]: "parse_flow_sequence_first_entry = opened (parse_flow_sequence_entry True)"

definition parse_flow_mapping_first_key :: "event parse" where
  [simp]: "parse_flow_mapping_first_key = opened (parse_flow_mapping_key True)"

section \<open>The machine\<close>

text \<open>\<open>self.state()\<close>\<close>

fun run_state :: "pstate \<Rightarrow> event parse" where
  "run_state StreamStart = parse_stream_start"
| "run_state ImplicitDocumentStart = parse_implicit_document_start"
| "run_state DocumentStart = parse_document_start"
| "run_state DocumentEnd = parse_document_end"
| "run_state DocumentContent = parse_document_content"
| "run_state BlockNode = parse_node True False"
| "run_state BlockSequenceFirstEntry = parse_block_sequence_first_entry"
| "run_state BlockSequenceEntry = parse_block_sequence_entry"
| "run_state IndentlessSequenceEntry = parse_indentless_sequence_entry"
| "run_state BlockMappingFirstKey = parse_block_mapping_first_key"
| "run_state BlockMappingKey = parse_block_mapping_key"
| "run_state BlockMappingValue = parse_block_mapping_value"
| "run_state FlowSequenceFirstEntry = parse_flow_sequence_first_entry"
| "run_state FlowSequenceEntry = parse_flow_sequence_entry False"
| "run_state FlowSequenceEntryMappingKey = parse_flow_sequence_entry_mapping_key"
| "run_state FlowSequenceEntryMappingValue = parse_flow_sequence_entry_mapping_value"
| "run_state FlowSequenceEntryMappingEnd = parse_flow_sequence_entry_mapping_end"
| "run_state FlowMappingFirstKey = parse_flow_mapping_first_key"
| "run_state FlowMappingKey = parse_flow_mapping_key False"
| "run_state FlowMappingValue = parse_flow_mapping_value"
| "run_state FlowMappingEmptyValue = parse_flow_mapping_empty_value"

text \<open>The head of \<open>check_event\<close>, \<open>peek_event\<close> and \<open>get_event\<close>: have a current event if there is one.\<close>

definition fill_event :: "unit parse" where
  "fill_event p =
     (case (current_event p, p_state p) of
        (None, Some st) \<Rightarrow> sbind (run_state st) (\<lambda>e. modify (\<lambda>p. p\<lparr>current_event := Some e\<rparr>)) p
      | _ \<Rightarrow> (Inr (), p))"

definition check_event :: "(event_kind \<Rightarrow> bool) \<Rightarrow> bool parse" where
  "check_event c = sbind fill_event (\<lambda>_. gets (\<lambda>p. case current_event p of None \<Rightarrow> False | Some e \<Rightarrow> c (ev e)))"

definition peek_event :: "event option parse" where
  "peek_event = sbind fill_event (\<lambda>_. gets current_event)"

definition get_event :: "event option parse" where
  "get_event = sbind fill_event (\<lambda>_. sbind (gets current_event) (\<lambda>e.
     sbind (modify (\<lambda>p. p\<lparr>current_event := None\<rparr>)) (\<lambda>_. ret e)))"

definition dispose :: "unit parse" where
  "dispose = modify (\<lambda>p. p\<lparr>p_states := [], p_state := None\<rparr>)"

text \<open>
  The loop of \<open>yaml.parse\<close>, \<open>while loader.check_event(): yield loader.get_event()\<close>: what it
  yields, and the error it ends with; \<open>None\<close> if it never ends.
\<close>

partial_function (option) parse_loop :: "parser \<Rightarrow> (event option list \<times> yaml_error option) option" where
  "parse_loop p =
     (case check_event (\<lambda>_. True) p of
        (Inl e, q) \<Rightarrow> Some ([], Some e)
      | (Inr b, q) \<Rightarrow>
          if \<not> b then Some ([], None)
          else (case get_event q of
              (Inl e, q') \<Rightarrow> Some ([], Some e)
            | (Inr e, q') \<Rightarrow> Option.bind (parse_loop q') (\<lambda>(es, err). Some (e # es, err))))"

declare parse_loop.simps [code]

definition yaml_parse :: "(yaml_error + token) list \<Rightarrow> (event option list \<times> yaml_error option) option" where
  "yaml_parse ts = parse_loop (new_parser ts)"

end
