(* ===== verification/Yaml_Parser_Props.thy ===== *)
theory Yaml_Parser_Props
  imports Yaml_Parser
begin

text \<open>
  What holds of the parser's machine: the events it gives are those of a well-nested stream,
  its asserts and its stacks never fail, and it ends.  The three ride on one invariant of a
  state and one lemma for each of the 21 states.
\<close>

section \<open>Running an action\<close>

definition wp :: "('s, 'e, 'a) act \<Rightarrow> ('e + 'a \<Rightarrow> 's \<Rightarrow> bool) \<Rightarrow> 's \<Rightarrow> bool" where
  "wp m Q p = Q (fst (m p)) (snd (m p))"

lemma wp_sbind [simp]:
  "wp (sbind m f) Q p = wp m (\<lambda>r p'. case r of Inl e \<Rightarrow> Q (Inl e) p' | Inr x \<Rightarrow> wp (f x) Q p') p"
  by (auto simp: wp_def sbind_def split: prod.splits sum.splits)

lemma wp_ret [simp]: "wp (ret x) Q p = Q (Inr x) p"
  by (simp add: wp_def)

lemma wp_throw [simp]: "wp (throw e) Q p = Q (Inl e) p"
  by (simp add: wp_def)

lemma wp_gets [simp]: "wp (gets h) Q p = Q (Inr (h p)) p"
  by (simp add: wp_def)

lemma wp_lift_res [simp]: "wp (lift_res r) Q p = Q r p"
  by (simp add: wp_def)

lemma wp_attr [simp]:
  "wp (attr (Some t) f) Q q = Q (Inr (f t)) q"
  "wp (attr None f) Q q = Q (Inl (Raised AttributeError)) q"
  by (simp_all add: wp_def attr_def)

lemma wp_update [simp]:
  "wp (modify g) Q q = Q (Inr ()) (g q)"
  "wp (set_state st) R p = R (Inr ()) (p\<lparr>p_state := st\<rparr>)"
  "wp (push_state s) R p = R (Inr ()) (p\<lparr>p_states := s # p_states p\<rparr>)"
  "wp (push_mark m) R p = R (Inr ()) (p\<lparr>p_marks := m # p_marks p\<rparr>)"
  "wp (assert_that c) R p = (if c p then R (Inr ()) p else R (Inl (Raised AssertionError)) p)"
  by (simp_all add: wp_def modify_def set_state_def push_state_def push_mark_def assert_that_def)

lemma wp_peek [simp]:
  "p_toks q = [] \<Longrightarrow> wp peek_token Q q = Q (Inr None) q"
  "p_toks q = Inl e # ts \<Longrightarrow> wp peek_token Q q = Q (Inl e) q"
  "p_toks q = Inr t # ts \<Longrightarrow> wp peek_token Q q = Q (Inr (Some t)) q"
  by (simp_all add: wp_def peek_token_def)

lemma wp_get [simp]:
  "p_toks q = [] \<Longrightarrow> wp get_token Q q = Q (Inr None) q"
  "p_toks q = Inl e # ts \<Longrightarrow> wp get_token Q q = Q (Inl e) q"
  "p_toks q = Inr t # ts \<Longrightarrow> wp get_token Q q = Q (Inr (Some t)) (q\<lparr>p_toks := ts\<rparr>)"
  by (simp_all add: wp_def get_token_def)

lemma wp_check [simp]:
  "p_toks q = [] \<Longrightarrow> wp (check_token c) Q q = Q (Inr False) q"
  "p_toks q = Inl e # ts \<Longrightarrow> wp (check_token c) Q q = Q (Inl e) q"
  "p_toks q = Inr t # ts \<Longrightarrow> wp (check_token c) Q q = Q (Inr (c (tk t))) q"
  by (simp_all add: check_token_def)

lemma wp_pop [simp]:
  "p_states q = s # ss \<Longrightarrow> wp pop_state Q q = Q (Inr ()) (q\<lparr>p_states := ss, p_state := Some s\<rparr>)"
  "p_marks q = m # ms \<Longrightarrow> wp pop_mark Q q = Q (Inr ()) (q\<lparr>p_marks := ms\<rparr>)"
  by (simp_all add: wp_def pop_state_def pop_mark_def)

lemma wp_top_mark [simp]: "p_marks q = m # ms \<Longrightarrow> wp top_mark Q q = Q (Inr m) q"
  by (simp add: wp_def top_mark_def)

lemma wp_if [simp]: "wp (if b then m else n) Q p = (if b then wp m Q p else wp n Q p)"
  by simp

lemma wp_mono: "wp m Q p \<Longrightarrow> (\<And>r p'. Q r p' \<Longrightarrow> R r p') \<Longrightarrow> wp m R p"
  by (simp add: wp_def)

lemma wp_run: "wp m Q p \<Longrightarrow> m p = (r, p') \<Longrightarrow> Q r p'"
  by (simp add: wp_def)

lemma wp_sbindI:
  assumes "wp m (\<lambda>r p'. case r of Inl e \<Rightarrow> A e p' | Inr x \<Rightarrow> B x p') p"
    and "\<And>e p'. A e p' \<Longrightarrow> Q (Inl e) p'" and "\<And>x p'. B x p' \<Longrightarrow> wp (f x) Q p'"
  shows "wp (sbind m f) Q p"
  using assms by (auto simp: wp_def sbind_def split: prod.splits sum.splits)

section \<open>What a state stands for\<close>

text \<open>
  For each state: what it still has to give, whether its collection holds a mark, and how
  many events it may give before it takes a token.
\<close>

fun expects :: "pstate \<Rightarrow> expect list" where
  "expects StreamStart = [AStream]"
| "expects ImplicitDocumentStart = [ADocs]"
| "expects DocumentStart = [ADocs]"
| "expects DocumentEnd = [ADocEnd, ADocs]"
| "expects DocumentContent = [ANode]"
| "expects BlockNode = [ANode]"
| "expects BlockSequenceFirstEntry = [AEntry]"
| "expects BlockSequenceEntry = [AEntry]"
| "expects IndentlessSequenceEntry = [AEntry]"
| "expects BlockMappingFirstKey = [AKey]"
| "expects BlockMappingKey = [AKey]"
| "expects BlockMappingValue = [AValue]"
| "expects FlowSequenceFirstEntry = [AEntry]"
| "expects FlowSequenceEntry = [AEntry]"
| "expects FlowSequenceEntryMappingKey = [AKey, AEntry]"
| "expects FlowSequenceEntryMappingValue = [AValue, AEntry]"
| "expects FlowSequenceEntryMappingEnd = [AKey, AEntry]"
| "expects FlowMappingFirstKey = [AKey]"
| "expects FlowMappingKey = [AKey]"
| "expects FlowMappingValue = [AValue]"
| "expects FlowMappingEmptyValue = [AValue]"

fun marked :: "pstate \<Rightarrow> nat" where
  "marked BlockSequenceEntry = 1"
| "marked BlockMappingKey = 1"
| "marked BlockMappingValue = 1"
| "marked FlowSequenceEntry = 1"
| "marked FlowSequenceEntryMappingKey = 1"
| "marked FlowSequenceEntryMappingValue = 1"
| "marked FlowSequenceEntryMappingEnd = 1"
| "marked FlowMappingKey = 1"
| "marked FlowMappingValue = 1"
| "marked FlowMappingEmptyValue = 1"
| "marked _ = 0"

fun idle :: "pstate \<Rightarrow> nat" where
  "idle StreamStart = 1"
| "idle ImplicitDocumentStart = 5"
| "idle DocumentStart = 1"
| "idle DocumentEnd = 2"
| "idle DocumentContent = 2"
| "idle BlockNode = 2"
| "idle BlockMappingValue = 2"
| "idle FlowSequenceEntryMappingValue = 3"
| "idle FlowSequenceEntryMappingEnd = 2"
| "idle FlowMappingValue = 2"
| "idle FlowMappingEmptyValue = 2"
| "idle _ = 1"

text \<open>The states a stack may hold above its bottom, and the states that give one node or a part of it.\<close>

fun resumable :: "pstate \<Rightarrow> bool" where
  "resumable BlockSequenceEntry = True"
| "resumable IndentlessSequenceEntry = True"
| "resumable BlockMappingKey = True"
| "resumable BlockMappingValue = True"
| "resumable FlowSequenceEntry = True"
| "resumable FlowSequenceEntryMappingValue = True"
| "resumable FlowSequenceEntryMappingEnd = True"
| "resumable FlowMappingKey = True"
| "resumable FlowMappingValue = True"
| "resumable FlowMappingEmptyValue = True"
| "resumable _ = False"

fun inner :: "pstate \<Rightarrow> bool" where
  "inner StreamStart = False"
| "inner ImplicitDocumentStart = False"
| "inner DocumentStart = False"
| "inner DocumentEnd = False"
| "inner _ = True"

fun stack_ok :: "pstate list \<Rightarrow> bool" where
  "stack_ok [] = False"
| "stack_ok [s] = (s = DocumentEnd)"
| "stack_ok (s # ss) = (resumable s \<and> stack_ok ss)"

lemma stack_ok_Cons [simp]: "resumable s \<Longrightarrow> stack_ok (s # ss) = stack_ok ss"
  by (cases ss) auto

text \<open>A stream that does not run out of tokens before its end is taken.\<close>

fun proper :: "(yaml_error + token) list \<Rightarrow> bool" where
  "proper [] = False"
| "proper (Inl e # ts) = True"
| "proper (Inr t # ts) = (tk t = StreamEndToken \<or> proper ts)"

text \<open>What the states that take a token unseen rely on: the token they were entered for.\<close>

fun awaits :: "pstate \<Rightarrow> token_kind \<Rightarrow> bool" where
  "awaits BlockSequenceFirstEntry k = (k = BlockSequenceStartToken)"
| "awaits BlockMappingFirstKey k = (k = BlockMappingStartToken)"
| "awaits FlowSequenceFirstEntry k = (k = FlowSequenceStartToken)"
| "awaits FlowMappingFirstKey k = (k = FlowMappingStartToken)"
| "awaits FlowSequenceEntryMappingKey k = (k = KeyToken)"
| "awaits _ k = True"

fun picky :: "pstate \<Rightarrow> bool" where
  "picky BlockSequenceFirstEntry = True"
| "picky BlockMappingFirstKey = True"
| "picky FlowSequenceFirstEntry = True"
| "picky FlowMappingFirstKey = True"
| "picky FlowSequenceEntryMappingKey = True"
| "picky StreamStart = True"
| "picky _ = False"

definition ready_for :: "pstate \<Rightarrow> (yaml_error + token) list \<Rightarrow> bool" where
  "ready_for s ts = (picky s \<longrightarrow> (\<exists>t ts'. ts = Inr t # ts' \<and> awaits s (tk t) \<and>
     (s = StreamStart \<longrightarrow> (\<exists>enc. tk t = StreamStartToken enc))))"

definition base :: "parser \<Rightarrow> nat" where
  "base p = 10 * length (p_toks p) + sum_list (map idle (p_states p))"

definition marks_below :: "parser \<Rightarrow> nat" where
  "marks_below p = sum_list (map marked (p_states p))"

definition rest_shape :: "parser \<Rightarrow> expect list" where
  "rest_shape p = concat (map expects (p_states p))"

definition budget :: "parser \<Rightarrow> nat" where
  "budget p = (case p_state p of None \<Rightarrow> 0 | Some s \<Rightarrow> base p + idle s)"

definition config :: "parser \<Rightarrow> expect list" where
  "config p = (case p_state p of None \<Rightarrow> [] | Some s \<Rightarrow> expects s @ rest_shape p)"

definition parser_inv :: "parser \<Rightarrow> bool" where
  "parser_inv p = (case p_state p of
       None \<Rightarrow> p_states p = [] \<and> p_marks p = []
     | Some s \<Rightarrow> proper (p_toks p) \<and> ready_for s (p_toks p) \<and>
         length (p_marks p) = marked s + marks_below p \<and>
         (if inner s then stack_ok (p_states p) else p_states p = []))"

text \<open>The errors a run may raise: the parser's own, and what the scanner raises.\<close>

definition lawful :: "(yaml_error + token) list \<Rightarrow> yaml_error \<Rightarrow> bool" where
  "lawful ts e = ((\<exists>m. e = ParserError m) \<or> Inl e \<in> set ts)"

text \<open>
  The outcome of a step: an error that is lawful, or an event that fits and leaves the
  invariant, with the budget below \<open>n\<close>.
\<close>

definition outcome ::
  "(yaml_error + token) list \<Rightarrow> expect list \<Rightarrow> nat \<Rightarrow> yaml_error + event \<Rightarrow> parser \<Rightarrow> bool" where
  "outcome ts es n r p =
     (case r of Inl e \<Rightarrow> lawful ts e
      | Inr e \<Rightarrow> parser_inv p \<and> shape_step es (ev e) = Some (config p) \<and> budget p < n \<and>
          (\<exists>pre. ts = map Inr pre @ p_toks p))"

section \<open>A node\<close>

text \<open>The state in which a node is read: a token to come, and a state to return to.\<close>

definition node_pre :: "(yaml_error + token) list \<Rightarrow> parser \<Rightarrow> bool" where
  "node_pre ts p = (proper (p_toks p) \<and> stack_ok (p_states p) \<and> length (p_marks p) = marks_below p \<and>
     (\<exists>pre. ts = map Inr pre @ p_toks p))"

lemma lawful_prefix [simp]: "lawful (map Inr pre @ ts) e = lawful ts e"
  by (auto simp: lawful_def)

lemma lawful_simps [simp]:
  "lawful (Inr t # ts) e' = lawful ts e'"
  "lawful ts (ParserError er)"
  "lawful (Inl e # ts) e"
  "lawful ts (parser_error c cm pr m)"
  by (auto simp: lawful_def parser_error_def)

text \<open>The properties of a node: only tokens are taken, and one at least if there are any properties.\<close>

definition took :: "parser \<Rightarrow> parser \<Rightarrow> bool" where
  "took p p' = ((\<exists>pre. p_toks p = map Inr pre @ p_toks p' \<and> StreamEndToken \<notin> tk ` set pre) \<and>
     p' = p\<lparr>p_toks := p_toks p'\<rparr>)"

lemma took_refl [simp]: "took p p"
  unfolding took_def by (auto intro: exI [of _ "[]"])

lemma took_one: "p_toks p = Inr t # ts \<Longrightarrow> tk t \<noteq> StreamEndToken \<Longrightarrow> took p (p\<lparr>p_toks := ts\<rparr>)"
  unfolding took_def by (auto intro: exI [of _ "[t]"])

lemma took_two: "p_toks p = Inr t # Inr t' # ts \<Longrightarrow> tk t \<noteq> StreamEndToken \<Longrightarrow> tk t' \<noteq> StreamEndToken \<Longrightarrow>
    took p (p\<lparr>p_toks := ts\<rparr>)"
  unfolding took_def by (intro conjI exI [of _ "[t, t']"]) auto

lemma took_proper: "took p p' \<Longrightarrow> proper (p_toks p) = proper (p_toks p')"
proof -
  have "StreamEndToken \<notin> tk ` set pre \<Longrightarrow> proper (map Inr pre @ ts) = proper ts" for pre ts
    by (induction pre) auto
  then show "took p p' \<Longrightarrow> ?thesis" by (auto simp: took_def)
qed

lemma kind_tests:
  "is_anchor k \<Longrightarrow> k \<noteq> StreamEndToken" "is_tag k \<Longrightarrow> k \<noteq> StreamEndToken"
  "is_scalar k \<Longrightarrow> k \<noteq> StreamEndToken" "is_alias k \<Longrightarrow> k \<noteq> StreamEndToken"
  "is_directive k \<Longrightarrow> k \<noteq> StreamEndToken"
  by auto

lemma node_properties_wp:
  "wp node_properties (\<lambda>r p'. case r of
      Inl e \<Rightarrow> lawful (p_toks p) e
    | Inr (anchor, tag, sm, em, tm) \<Rightarrow> took p p' \<and> (sm = None \<longleftrightarrow> em = None) \<and>
        (if sm = None then anchor = None \<and> tag = None \<and> p' = p
         else length (p_toks p') < length (p_toks p))) p"
proof (cases "p_toks p")
  case (Cons x ts)
  then show ?thesis
  proof (cases x)
    case (Inr t)
    have ts: "p_toks p = Inr t # ts" using Cons Inr by simp
    show ?thesis
    proof (cases ts)
      case Nil
      then show ?thesis
        by (simp add: node_properties_def anchor_then_tag_def tag_then_anchor_def ts took_one kind_tests)
    next
      case (Cons y ts')
      then show ?thesis
        by (cases y) (simp_all add: node_properties_def anchor_then_tag_def tag_then_anchor_def ts took_one
            took_two kind_tests)
    qed
  qed (simp add: node_properties_def)
qed (simp add: node_properties_def)

lemma stack_ok_resume:
  assumes "stack_ok (s # ss)"
  shows "\<not> picky s" and "if inner s then stack_ok ss else ss = []"
  using assms by (cases ss; cases s; simp)+

lemma ready_not_picky [simp]: "\<not> picky s \<Longrightarrow> ready_for s ts"
  by (simp add: ready_for_def)

text \<open>Returning to the state on the stack, and going on in one that opens a collection.\<close>

lemma outcome_return:
  assumes "stack_ok (s # ss)" and "p_states p' = ss" and "p_state p' = Some s" and "proper (p_toks p')"
    and "length (p_marks p') = marked s + sum_list (map marked ss)"
    and "shape_step es (ev e) = Some (expects s @ concat (map expects ss))"
    and "10 * length (p_toks p') + idle s + sum_list (map idle ss) < n"
    and "ts = map Inr pre @ p_toks p'"
  shows "outcome ts es n (Inr e) p'"
  using assms stack_ok_resume [OF assms(1)]
  by (auto simp: outcome_def parser_inv_def config_def budget_def base_def marks_below_def rest_shape_def)

lemma outcome_enter:
  assumes "p_state p' = Some s" and "inner s" and "marked s = 0" and "stack_ok (p_states p')" and "proper (p_toks p')"
    and "ready_for s (p_toks p')" and "length (p_marks p') = marks_below p'"
    and "shape_step es (ev e) = Some (expects s @ rest_shape p')" and "base p' + idle s < n"
    and "ts = map Inr pre @ p_toks p'"
  shows "outcome ts es n (Inr e) p'"
  using assms by (auto simp: outcome_def parser_inv_def config_def budget_def)

lemma outcome_error [simp]: "outcome ts es n (Inl e) p' = lawful ts e"
  by (simp add: outcome_def)

lemma node_content_wp:
  assumes pre: "node_pre ts p" and n: "base p + 1 < n"
  shows "wp (node_content block indentless anchor tag sm em) (outcome ts (ANode # rest_shape p) n) p"
proof -
  from pre obtain q where q: "ts = map Inr q @ p_toks p" and ok: "proper (p_toks p)" "stack_ok (p_states p)"
      "length (p_marks p) = marks_below p"
    by (auto simp: node_pre_def)
  obtain s ss where st: "p_states p = s # ss" using ok(2) by (cases "p_states p") auto
  obtain x ts' where x: "p_toks p = x # ts'" using ok(1) by (cases "p_toks p") auto
  show ?thesis
  proof (cases x)
    case (Inl e)
    with x q show ?thesis by (simp add: node_content_def Let_def)
  next
    case (Inr t)
    then have t: "p_toks p = Inr t # ts'" using x by simp
    have enter: "outcome ts (ANode # rest_shape p) n (Inr (mk_event k m1 m2)) (p\<lparr>p_state := Some st\<rparr>)"
      if "node_shape (rest_shape p) k = Some (expects st @ rest_shape p)" "awaits st (tk t)" "inner st"
         "marked st = 0" "idle st = 1" for k m1 m2 st
      by (rule outcome_enter [where s = st and pre = q])
        (use that ok n t q in \<open>auto simp: ready_for_def rest_shape_def marks_below_def base_def mk_event_def picky.simps\<close>)
    have leaf: "outcome ts (ANode # rest_shape p) n (Inr (mk_event k m1 m2)) (p\<lparr>p_toks := ts'', p_states := ss, p_state := Some s\<rparr>)"
      if "node_shape (rest_shape p) k = Some (rest_shape p)" "p_toks p = map Inr pre @ ts''" "proper ts''" for k m1 m2 pre ts''
      by (rule outcome_return [where s = s and ss = ss and pre = "q @ pre"])
        (use that ok n q st in \<open>auto simp: rest_shape_def marks_below_def base_def mk_event_def\<close>)
    have leaf0: "outcome ts (ANode # rest_shape p) n (Inr (mk_event k m1 m2)) (p\<lparr>p_states := ss, p_state := Some s\<rparr>)"
      if "node_shape (rest_shape p) k = Some (rest_shape p)" for k m1 m2
      using leaf [of k "[]" "p_toks p"] that ok(1) by simp
    have leaf1: "outcome ts (ANode # rest_shape p) n (Inr (mk_event k m1 m2)) (p\<lparr>p_toks := ts', p_states := ss, p_state := Some s\<rparr>)"
      if "node_shape (rest_shape p) k = Some (rest_shape p)" "is_scalar (tk t)" for k m1 m2
      using leaf [of k "[t]" ts'] that ok(1) kind_tests(3) [OF that(2)] by (simp add: t)
    show ?thesis
      by (simp add: node_content_def start_collection_def t st Let_def unexpected_def enter leaf0 leaf1 split_beta)
  qed
qed

lemma took_node_pre: "node_pre ts p \<Longrightarrow> took p p' \<Longrightarrow> node_pre ts p'"
  using took_proper [of p p'] unfolding node_pre_def took_def marks_below_def
  by (metis append_assoc map_append parser.select_convs(5,6) parser.surjective parser.update_convs(1))

lemma took_base: "took p p' \<Longrightarrow> base p' \<le> base p \<and> rest_shape p' = rest_shape p"
  unfolding took_def base_def rest_shape_def
  by (metis append_eq_conv_conj length_append le_add2 add_le_mono1 mult_le_mono2 parser.select_convs(5)
      parser.surjective parser.update_convs(1))

lemma resolve_tag_wp:
  "(\<And>t. Q (Inr t) p) \<Longrightarrow> (\<And>m. Q (Inl (ParserError m)) p) \<Longrightarrow> wp (resolve_tag tag sm tm) Q p"
  by (auto simp: wp_def resolve_tag_def split: option.split)

lemma alias_wp:
  assumes pre: "node_pre ts p" and n: "base p + 1 < n" and t: "p_toks p = Inr t # ts'" and a: "is_alias (tk t)"
  shows "wp (parse_node block indentless) (outcome ts (ANode # rest_shape p) n) p"
proof -
  from pre obtain q where q: "ts = map Inr q @ p_toks p" and ok: "proper (p_toks p)" "stack_ok (p_states p)"
      "length (p_marks p) = marks_below p"
    by (auto simp: node_pre_def)
  obtain s ss where st: "p_states p = s # ss" using ok(2) by (cases "p_states p") auto
  have "outcome ts (ANode # rest_shape p) n (Inr (mk_event (AliasEvent a) m1 m2))
      (p\<lparr>p_toks := ts', p_states := ss, p_state := Some s\<rparr>)" for a m1 m2
    by (rule outcome_return [where s = s and ss = ss and pre = "q @ [t]"])
      (use ok n q t st kind_tests(4) [OF a] in \<open>auto simp: rest_shape_def marks_below_def base_def mk_event_def\<close>)
  then show ?thesis by (simp add: parse_node_def t a st)
qed

lemma parse_node_wp:
  assumes pre: "node_pre ts p" and n: "base p + 1 < n"
  shows "wp (parse_node block indentless) (outcome ts (ANode # rest_shape p) n) p"
proof -
  from pre obtain q where q: "ts = map Inr q @ p_toks p" and "proper (p_toks p)"
    by (auto simp: node_pre_def)
  then obtain x ts' where x: "p_toks p = x # ts'" by (cases "p_toks p") auto
  show ?thesis
  proof (cases x)
    case (Inl e)
    with x q show ?thesis by (simp add: parse_node_def)
  next
    case (Inr t)
    then have t: "p_toks p = Inr t # ts'" using x by simp
    show ?thesis
    proof (cases "is_alias (tk t)")
      case True
      then show ?thesis using alias_wp [OF pre n t] by simp
    next
      case False
      have "wp (parse_node block indentless) (outcome ts (ANode # rest_shape p) n) p =
        wp node_properties (\<lambda>r p'. case r of Inl e \<Rightarrow> lawful ts e | Inr (anchor, tag, sm, em, tm) \<Rightarrow>
          wp (resolve_tag tag sm tm) (\<lambda>r p'. case r of Inl e \<Rightarrow> lawful ts e | Inr tag \<Rightarrow>
          wp (case (sm, em) of (Some sm, Some em) \<Rightarrow> ret (sm, em)
                | _ \<Rightarrow> sbind peek_token (\<lambda>t. attr t (\<lambda>t. (start_mark t, start_mark t))))
            (\<lambda>r p'. case r of Inl e \<Rightarrow> lawful ts e | Inr (sm, em) \<Rightarrow>
               wp (node_content block indentless anchor tag sm em) (outcome ts (ANode # rest_shape p) n) p') p') p') p"
        unfolding parse_node_def using False
        by (simp add: t split_beta cong: sum.case_cong)
      also have "\<dots>"
      proof (rule wp_mono [OF node_properties_wp], goal_cases)
        case (1 r p')
        show ?case
        proof (cases r)
          case (Inl e)
          with 1 show ?thesis using q by simp
        next
          case (Inr r')
          obtain anchor tag sm em tm where r': "r' = (anchor, tag, sm, em, tm)" by (cases r') auto
          from 1 have took: "took p p'" and marks: "sm = None \<longleftrightarrow> em = None"
            and none: "sm = None \<Longrightarrow> p' = p" by (auto simp: Inr r' split: if_splits)
          have content: "wp (node_content block indentless anchor tag sm em) (outcome ts (ANode # rest_shape p) n) p'"
            for tag sm em
            using node_content_wp [OF took_node_pre [OF pre took], of n block indentless anchor tag sm em]
              took_base [OF took] n by simp
          show ?thesis
          proof (simp add: Inr r', rule resolve_tag_wp, goal_cases)
            case (1 tag)
            show ?case
            proof (cases sm)
              case None
              with none marks content [of tag] show ?thesis by (simp add: t)
            next
              case (Some m)
              with marks show ?thesis by (auto simp: content)
            qed
          qed simp
        qed
      qed
      finally show ?thesis .
    qed
  qed
qed

section \<open>The pieces of the states\<close>

text \<open>
  \<open>held ts m p\<close>: the run of \<open>ts\<close> has come to \<open>p\<close> inside a collection that holds \<open>m\<close> marks;
  \<open>fits es st p\<close>: a node and then the state \<open>st\<close> is one way to go on from \<open>es\<close>.
\<close>

definition held :: "(yaml_error + token) list \<Rightarrow> nat \<Rightarrow> parser \<Rightarrow> bool" where
  "held ts m p = (proper (p_toks p) \<and> stack_ok (p_states p) \<and> length (p_marks p) = m + marks_below p \<and>
     (\<exists>pre. ts = map Inr pre @ p_toks p))"

definition fits :: "expect list \<Rightarrow> pstate \<Rightarrow> parser \<Rightarrow> bool" where
  "fits es st p = (\<forall>(k :: event_kind) x. node_shape (expects st @ rest_shape p) k = Some x \<longrightarrow> shape_step es k = Some x)"

lemma held_cases:
  assumes "held ts m p"
    and "\<And>e ts'. p_toks p = Inl e # ts' \<Longrightarrow> lawful ts e \<Longrightarrow> P"
    and "\<And>t ts'. p_toks p = Inr t # ts' \<Longrightarrow> P"
  shows P
proof (cases "p_toks p")
  case Nil
  with assms(1) show ?thesis by (simp add: held_def)
next
  case (Cons x ts')
  with assms show ?thesis by (cases x) (auto simp: held_def)
qed

lemma held_take:
  assumes "held ts m p" and "p_toks p = Inr t # ts'" and "tk t \<noteq> StreamEndToken"
  shows "held ts m (p\<lparr>p_toks := ts'\<rparr>)"
proof -
  from assms obtain pre where "ts = map Inr (pre @ [t]) @ ts'" by (auto simp: held_def)
  with assms show ?thesis by (auto simp: held_def marks_below_def simp del: map_append)
qed

lemma base_take: "p_toks p = Inr t # ts' \<Longrightarrow> base (p\<lparr>p_toks := ts'\<rparr>) + 10 = base p"
  by (simp add: base_def)

lemma idle_le: "idle st \<le> 5"
  by (cases st) auto

lemma idle_inner: "inner st \<Longrightarrow> idle st \<le> 3"
  by (cases st) auto

lemma resumable_inner: "resumable st \<Longrightarrow> inner st \<and> \<not> picky st"
  by (cases st) auto

lemma outcome_mono:
  assumes "outcome ts es n r p" and "\<And>(k :: event_kind) x. shape_step es k = Some x \<Longrightarrow> shape_step es' k = Some x" and "n \<le> n'"
  shows "outcome ts es' n' r p"
  using assms by (auto simp: outcome_def split: sum.splits)

lemma node_then_wp:
  assumes "held ts (marked st) p" and "resumable st" and "base p + 4 < n" and "fits es st p"
  shows "wp (node_then block indentless st) (outcome ts es n) p"
proof -
  let ?p = "p\<lparr>p_states := st # p_states p\<rparr>"
  have "node_pre ts ?p" using assms(1,2) by (auto simp: node_pre_def held_def marks_below_def)
  moreover have "base ?p + 1 < n" using assms(2,3) resumable_inner [of st] idle_inner [of st] by (simp add: base_def)
  ultimately have "wp (parse_node block indentless) (outcome ts (ANode # rest_shape ?p) n) ?p" by (rule parse_node_wp)
  then have "wp (parse_node block indentless) (outcome ts es n) ?p"
    by (rule wp_mono) (use assms(4) in \<open>auto simp: fits_def rest_shape_def elim: outcome_mono\<close>)
  then show ?thesis by (simp add: node_then_def)
qed

text \<open>A step that stays in the collection and gives an event.\<close>

lemma outcome_stay:
  assumes "held ts (marked st) p" and "inner st" and "\<not> picky st" and "base p + idle st < n"
    and "shape_step es (ev e) = Some (expects st @ rest_shape p)"
  shows "outcome ts es n (Inr e) (p\<lparr>p_state := Some st\<rparr>)"
  using assms by (auto simp: outcome_def parser_inv_def config_def budget_def held_def marks_below_def base_def rest_shape_def)

lemma fits_empty: "fits es st p \<Longrightarrow> shape_step es (ev (process_empty_scalar m)) = Some (expects st @ rest_shape p)"
  by (simp add: fits_def process_empty_scalar_def mk_event_def)

lemma empty_here_wp:
  assumes "held ts (marked st) p" and "resumable st" and "base p + idle st < n" and "fits es st p"
  shows "wp (empty_here st) (outcome ts es n) p"
  using assms(1)
proof (rule held_cases)
  fix e ts' assume "p_toks p = Inl e # ts'" "lawful ts e"
  then show ?thesis by (simp add: empty_here_def)
next
  fix t ts' assume "p_toks p = Inr t # ts'"
  then show ?thesis
    using outcome_stay [OF assms(1) _ _ assms(3)] resumable_inner [OF assms(2)] fits_empty [OF assms(4)]
    by (simp add: empty_here_def)
qed

lemma entry_node_wp:
  assumes h: "held ts (marked st) p" and t: "p_toks p = Inr t # ts'" "tk t \<noteq> StreamEndToken"
    and r: "resumable st" and n: "base p < n + 5" and f: "fits es st p"
  shows "wp (entry_node stop block indentless st) (outcome ts es n) p"
proof -
  let ?p = "p\<lparr>p_toks := ts'\<rparr>"
  have h': "held ts (marked st) ?p" using held_take [OF h t] .
  have f': "fits es st ?p" using f by (simp add: fits_def rest_shape_def)
  have n': "base ?p + 4 < n" using base_take [OF t(1)] n by simp
  have node: "wp (node_then block indentless st) (outcome ts es n) ?p"
    using node_then_wp [OF h' r n' f'] .
  have empty: "outcome ts es n (Inr (process_empty_scalar m)) (?p\<lparr>p_state := Some st\<rparr>)" for m
    by (rule outcome_stay [OF h']) (use r n' f' resumable_inner idle_inner fits_empty in \<open>fastforce+\<close>)
  from h' show ?thesis
  proof (rule held_cases)
    fix e ts'' assume "p_toks ?p = Inl e # ts''" "lawful ts e"
    then show ?thesis by (simp add: entry_node_def t(1))
  next
    fix t' ts'' assume "p_toks ?p = Inr t' # ts''"
    then show ?thesis using node empty by (simp add: entry_node_def t(1) empty_then_def)
  qed
qed

lemma end_collection_wp:
  assumes h: "held ts 1 p" and t: "p_toks p = Inr t # ts'" "tk t \<noteq> StreamEndToken"
    and n: "base p < n + 10" and k: "shape_step es k = Some (rest_shape p)"
  shows "wp (end_collection k) (outcome ts es n) p"
proof -
  from h obtain pre where q: "ts = map Inr (pre @ [t]) @ ts'" by (auto simp: held_def t)
  obtain s ss where st: "p_states p = s # ss" using h by (cases "p_states p") (auto simp: held_def)
  obtain m ms where mk: "p_marks p = m # ms" using h by (cases "p_marks p") (auto simp: held_def)
  have "outcome ts es n (Inr (mk_event k m1 m2)) (p\<lparr>p_toks := ts', p_states := ss, p_state := Some s, p_marks := ms\<rparr>)"
    for m1 m2
    by (rule outcome_return [where s = s and ss = ss and pre = "pre @ [t]"])
      (use h t n k st mk q in \<open>auto simp: held_def rest_shape_def marks_below_def base_def mk_event_def\<close>)
  then show ?thesis by (simp add: end_collection_def t(1) st mk)
qed

lemma unexpected_wp:
  assumes "held ts m p" and "p_toks p = Inr t # ts'"
  shows "wp (unexpected c cm msg) (outcome ts es n) p"
  using assms by (simp add: unexpected_def)

lemma top_mark_wp:
  assumes "held ts (Suc m) p" and "\<And>mk. wp (f mk) Q p"
  shows "wp (sbind top_mark f) Q p"
proof -
  obtain mk ms where "p_marks p = mk # ms" using assms(1) by (cases "p_marks p") (auto simp: held_def)
  with assms(2) show ?thesis by simp
qed

lemma opened_wp:
  assumes h: "held ts 0 p" and t: "p_toks p = Inr t # ts'" "tk t \<noteq> StreamEndToken"
    and entry: "\<And>q. held ts 1 q \<Longrightarrow> base q + 10 = base p \<Longrightarrow> rest_shape q = rest_shape p \<Longrightarrow> wp entry Q q"
  shows "wp (opened entry) Q p"
proof -
  let ?q = "p\<lparr>p_toks := ts', p_marks := start_mark t # p_marks p\<rparr>"
  have "held ts 1 ?q" using held_take [OF h t] by (auto simp: held_def marks_below_def)
  moreover have "base ?q + 10 = base p" by (simp add: base_def t)
  ultimately have "wp entry Q ?q" by (intro entry) (simp_all add: rest_shape_def)
  then show ?thesis by (simp add: opened_def t(1))
qed

section \<open>The states\<close>

lemma shape_of_entry: "node_shape (AEntry # r) k = Some x \<Longrightarrow> shape_step (AEntry # r) k = Some x"
  by (cases k) auto

lemma shape_of_key: "node_shape (AValue # r) k = Some x \<Longrightarrow> shape_step (AKey # r) k = Some x"
  by (cases k) auto

lemma shape_of_value: "node_shape (AKey # r) k = Some x \<Longrightarrow> shape_step (AValue # r) k = Some x"
  by (cases k) auto

lemmas shape_of_node = shape_of_entry shape_of_key shape_of_value

lemma fits_expects:
  "fits (AEntry # rest_shape p) BlockSequenceEntry p"
  "fits (AEntry # rest_shape p) IndentlessSequenceEntry p"
  "fits (AEntry # rest_shape p) FlowSequenceEntry p"
  "fits (AKey # rest_shape p) BlockMappingValue p"
  "fits (AValue # rest_shape p) BlockMappingKey p"
  "fits (AKey # rest_shape p) FlowMappingValue p"
  "fits (AKey # rest_shape p) FlowMappingEmptyValue p"
  "fits (AValue # rest_shape p) FlowMappingKey p"
  "fits (AKey # AEntry # rest_shape p) FlowSequenceEntryMappingValue p"
  "fits (AValue # AEntry # rest_shape p) FlowSequenceEntryMappingEnd p"
  by (auto simp: fits_def shape_of_node)

lemmas entry_wps = entry_node_wp end_collection_wp unexpected_wp fits_expects

lemma expected_end_wp:
  assumes h: "held ts 1 p" and t: "p_toks p = Inr t # ts'" and c: "c (tk t) \<Longrightarrow> wp m (outcome ts es n) p"
  shows "wp (expected_end what msg c m) (outcome ts es n) p"
proof -
  have "wp (sbind top_mark (\<lambda>m. unexpected (Some what) (Some m) msg)) (outcome ts es n) p"
    using h by (intro top_mark_wp [of ts 0] unexpected_wp [OF h t]) simp
  with c show ?thesis
    by (cases "c (tk t)") (simp_all only: expected_end_def wp_sbind wp_check(3) [OF t] sum.case if_True if_False not_True_eq_False
        not_False_eq_True)
qed

lemma block_sequence_entry_wp:
  assumes h: "held ts 1 p" and n: "base p < n + 5"
  shows "wp parse_block_sequence_entry (outcome ts (AEntry # rest_shape p) n) p"
  using h
proof (rule held_cases)
  fix t ts' assume t: "p_toks p = Inr t # ts'"
  show ?thesis
  proof (cases "tk t = BlockEntryToken")
    case True
    have "wp (entry_node stop True False BlockSequenceEntry) (outcome ts (AEntry # rest_shape p) n) p" for stop
      by (rule entry_node_wp [OF _ t _ _ n]) (use h True in \<open>simp_all add: fits_expects\<close>)
    then show ?thesis by (simp add: parse_block_sequence_entry_def t True)
  next
    case False
    have "wp (expected_end what msg (\<lambda>k. k = BlockEndToken) (end_collection SequenceEndEvent))
        (outcome ts (AEntry # rest_shape p) n) p" for what msg
      by (rule expected_end_wp [OF h t], rule end_collection_wp [OF h t]) (use n in simp_all)
    then show ?thesis by (simp add: parse_block_sequence_entry_def t False)
  qed
qed (simp add: parse_block_sequence_entry_def)

lemma block_mapping_key_wp:
  assumes h: "held ts 1 p" and n: "base p < n + 5"
  shows "wp parse_block_mapping_key (outcome ts (AKey # rest_shape p) n) p"
  using h
proof (rule held_cases)
  fix t ts' assume t: "p_toks p = Inr t # ts'"
  show ?thesis
  proof (cases "tk t = KeyToken")
    case True
    have "wp (entry_node stop True True BlockMappingValue) (outcome ts (AKey # rest_shape p) n) p" for stop
      by (rule entry_node_wp [OF _ t _ _ n]) (use h True in \<open>simp_all add: fits_expects\<close>)
    then show ?thesis by (simp add: parse_block_mapping_key_def t True)
  next
    case False
    have "wp (expected_end what msg (\<lambda>k. k = BlockEndToken) (end_collection MappingEndEvent))
        (outcome ts (AKey # rest_shape p) n) p" for what msg
      by (rule expected_end_wp [OF h t], rule end_collection_wp [OF h t]) (use n in simp_all)
    then show ?thesis by (simp add: parse_block_mapping_key_def t False)
  qed
qed (simp add: parse_block_mapping_key_def)

text \<open>A value, or nothing where none is given; the three states that read one differ in the next state only.\<close>

lemma value_wp:
  assumes h: "held ts (marked st) p" and r: "resumable st" and n: "base p + idle st < n" and f: "fits es st p"
  shows "wp (sbind (check_token (\<lambda>k. k = ValueToken)) (\<lambda>b. if b then entry_node stop block indentless st
    else empty_here st)) (outcome ts es n) p"
  using h
proof (rule held_cases)
  fix t ts' assume t: "p_toks p = Inr t # ts'"
  have n': "base p < n + 5" using n by simp
  show ?thesis
    using entry_node_wp [OF h t _ r n' f] empty_here_wp [OF h r n f] by (simp add: t)
qed simp

lemma indentless_entry_wp:
  assumes h: "held ts 0 p" and n: "base p < n"
  shows "wp parse_indentless_sequence_entry (outcome ts (AEntry # rest_shape p) n) p"
  using h
proof (rule held_cases)
  fix t ts' assume t: "p_toks p = Inr t # ts'"
  obtain s ss where st: "p_states p = s # ss" using h by (cases "p_states p") (auto simp: held_def)
  from h obtain pre where q: "ts = map Inr pre @ p_toks p" by (auto simp: held_def)
  have n': "base p < n + 5" using n by simp
  have finish: "outcome ts (AEntry # rest_shape p) n (Inr (mk_event SequenceEndEvent m m)) (p\<lparr>p_states := ss, p_state := Some s\<rparr>)" for m
    by (rule outcome_return [where s = s and ss = ss and pre = pre])
      (use h n st q in \<open>auto simp: held_def rest_shape_def marks_below_def base_def mk_event_def\<close>)
  have "wp (entry_node stop True False IndentlessSequenceEntry) (outcome ts (AEntry # rest_shape p) n) p"
    if "tk t = BlockEntryToken" for stop
    by (rule entry_node_wp [OF _ t _ _ n']) (use h that in \<open>simp_all add: fits_expects\<close>)
  then show ?thesis by (simp add: parse_indentless_sequence_entry_def t st finish)
qed (simp add: parse_indentless_sequence_entry_def)

lemma flow_sequence_item_wp:
  assumes h: "held ts 1 p" and n: "base p + 4 < n"
  shows "wp flow_sequence_item (outcome ts (AEntry # rest_shape p) n) p"
  using h
proof (rule held_cases)
  fix t ts' assume t: "p_toks p = Inr t # ts'"
  have key: "outcome ts (AEntry # rest_shape p) n (Inr (mk_event (MappingStartEvent None None True (Some True)) m1 m2))
      (p\<lparr>p_state := Some FlowSequenceEntryMappingKey\<rparr>)" if "tk t = KeyToken" for m1 m2
    using h n t that
    by (auto simp: outcome_def parser_inv_def held_def ready_for_def marks_below_def budget_def base_def config_def
        rest_shape_def mk_event_def)
  have "wp (end_collection SequenceEndEvent) (outcome ts (AEntry # rest_shape p) n) p" if "tk t = FlowSequenceEndToken"
    by (rule end_collection_wp [OF h t]) (use n that in simp_all)
  moreover have "wp (node_then False False FlowSequenceEntry) (outcome ts (AEntry # rest_shape p) n) p"
    by (rule node_then_wp) (use h n in \<open>simp_all add: fits_expects\<close>)
  ultimately show ?thesis using key by (simp add: flow_sequence_item_def t)
qed (simp add: flow_sequence_item_def)

lemma flow_mapping_item_wp:
  assumes h: "held ts 1 p" and n: "base p + 4 < n"
  shows "wp flow_mapping_item (outcome ts (AKey # rest_shape p) n) p"
  using h
proof (rule held_cases)
  fix t ts' assume t: "p_toks p = Inr t # ts'"
  have n': "base p < n + 5" using n by simp
  have "wp (end_collection MappingEndEvent) (outcome ts (AKey # rest_shape p) n) p" if "tk t = FlowMappingEndToken"
    by (rule end_collection_wp [OF h t]) (use n that in simp_all)
  moreover have "wp (node_then False False FlowMappingEmptyValue) (outcome ts (AKey # rest_shape p) n) p"
    by (rule node_then_wp) (use h n in \<open>simp_all add: fits_expects\<close>)
  moreover have "wp (entry_node stop False False FlowMappingValue) (outcome ts (AKey # rest_shape p) n) p"
    if "tk t = KeyToken" for stop
    by (rule entry_node_wp [OF _ t _ _ n']) (use h that in \<open>simp_all add: fits_expects\<close>)
  ultimately show ?thesis by (simp add: flow_mapping_item_def t)
qed (simp add: flow_mapping_item_def)

text \<open>The comma between two entries is a token, which pays for what the entry adds to the stack.\<close>

lemma flow_comma_wp:
  assumes h: "held ts 1 p" and t: "p_toks p = Inr t # ts'"
    and rest: "\<And>q. held ts 1 q \<Longrightarrow> base q + 10 = base p \<Longrightarrow> rest_shape q = rest_shape p \<Longrightarrow> wp rest (outcome ts es n) q"
  shows "wp (flow_comma what msg rest) (outcome ts es n) p"
proof -
  have "wp rest (outcome ts es n) (p\<lparr>p_toks := ts'\<rparr>)" if "tk t = FlowEntryToken"
    by (rule rest) (use held_take [OF h t] base_take [OF t] that in \<open>simp_all add: rest_shape_def\<close>)
  moreover have "wp (sbind top_mark (\<lambda>m. unexpected (Some what) (Some m) msg)) (outcome ts es n) p"
    using h by (intro top_mark_wp [of ts 0] unexpected_wp [OF h t]) simp
  ultimately show ?thesis
    by (cases "tk t = FlowEntryToken") (simp_all add: flow_comma_def t)
qed

lemma flow_sequence_entry_wp:
  assumes h: "held ts 1 p" and n: "base p < n" and f: "first \<Longrightarrow> base p + 4 < n"
  shows "wp (parse_flow_sequence_entry first) (outcome ts (AEntry # rest_shape p) n) p"
  using h
proof (rule held_cases)
  fix t ts' assume t: "p_toks p = Inr t # ts'"
  have "wp (end_collection SequenceEndEvent) (outcome ts (AEntry # rest_shape p) n) p" if "tk t = FlowSequenceEndToken"
    by (rule end_collection_wp [OF h t]) (use n that in simp_all)
  moreover have "wp (flow_comma what msg flow_sequence_item) (outcome ts (AEntry # rest_shape p) n) p" for what msg
  proof (rule flow_comma_wp [OF h t])
    fix q assume "held ts 1 q" "base q + 10 = base p" "rest_shape q = rest_shape p"
    then show "wp flow_sequence_item (outcome ts (AEntry # rest_shape p) n) q"
      using flow_sequence_item_wp [of ts q n] n by simp
  qed
  ultimately show ?thesis using flow_sequence_item_wp [OF h] f by (simp add: parse_flow_sequence_entry_def t)
qed (simp add: parse_flow_sequence_entry_def)

lemma flow_mapping_key_wp:
  assumes h: "held ts 1 p" and n: "base p < n" and f: "first \<Longrightarrow> base p + 4 < n"
  shows "wp (parse_flow_mapping_key first) (outcome ts (AKey # rest_shape p) n) p"
  using h
proof (rule held_cases)
  fix t ts' assume t: "p_toks p = Inr t # ts'"
  have "wp (end_collection MappingEndEvent) (outcome ts (AKey # rest_shape p) n) p" if "tk t = FlowMappingEndToken"
    by (rule end_collection_wp [OF h t]) (use n that in simp_all)
  moreover have "wp (flow_comma what msg flow_mapping_item) (outcome ts (AKey # rest_shape p) n) p" for what msg
  proof (rule flow_comma_wp [OF h t])
    fix q assume "held ts 1 q" "base q + 10 = base p" "rest_shape q = rest_shape p"
    then show "wp flow_mapping_item (outcome ts (AKey # rest_shape p) n) q"
      using flow_mapping_item_wp [of ts q n] n by simp
  qed
  ultimately show ?thesis using flow_mapping_item_wp [OF h] f by (simp add: parse_flow_mapping_key_def t)
qed (simp add: parse_flow_mapping_key_def)

lemma mapping_end_wp:
  assumes h: "held ts 1 p" and n: "base p + 1 < n"
  shows "wp parse_flow_sequence_entry_mapping_end (outcome ts (AKey # AEntry # rest_shape p) n) p"
  using h
proof (rule held_cases)
  fix t ts' assume t: "p_toks p = Inr t # ts'"
  have "outcome ts (AKey # AEntry # rest_shape p) n (Inr (mk_event MappingEndEvent m m))
      (p\<lparr>p_state := Some FlowSequenceEntry\<rparr>)" for m
    by (rule outcome_stay) (use h n in \<open>simp_all add: mk_event_def\<close>)
  then show ?thesis by (simp add: parse_flow_sequence_entry_mapping_end_def t)
qed (simp add: parse_flow_sequence_entry_mapping_end_def)

section \<open>Documents\<close>

text \<open>\<open>between ts p\<close>: the run of \<open>ts\<close> has come to \<open>p\<close> outside any document.\<close>

definition between :: "(yaml_error + token) list \<Rightarrow> parser \<Rightarrow> bool" where
  "between ts p = (proper (p_toks p) \<and> p_states p = [] \<and> p_marks p = [] \<and> (\<exists>pre. ts = map Inr pre @ p_toks p))"

lemma between_take:
  assumes "between ts p" and "p_toks p = Inr t # ts'" and "tk t \<noteq> StreamEndToken"
  shows "between ts (p\<lparr>p_toks := ts'\<rparr>)"
proof -
  from assms obtain pre where "ts = map Inr (pre @ [t]) @ ts'" by (auto simp: between_def)
  with assms show ?thesis by (auto simp: between_def simp del: map_append)
qed

lemma between_cases:
  assumes "between ts p"
    and "\<And>e ts'. p_toks p = Inl e # ts' \<Longrightarrow> lawful ts e \<Longrightarrow> P"
    and "\<And>t ts'. p_toks p = Inr t # ts' \<Longrightarrow> P"
  shows P
proof (cases "p_toks p")
  case Nil
  with assms(1) show ?thesis by (simp add: between_def)
next
  case (Cons x ts')
  with assms show ?thesis by (cases x) (auto simp: between_def)
qed

lemma document_end_loop_wp:
  assumes "between ts p" and "p_toks p = us"
  shows "wp (document_end_loop us) (\<lambda>r p'. case r of Inl e \<Rightarrow> lawful ts e
    | Inr _ \<Rightarrow> between ts p' \<and> base p' \<le> base p) p"
  using assms
proof (induction us arbitrary: p)
  case Nil
  then show ?case by (simp add: wp_def)
next
  case (Cons x us)
  show ?case
  proof (cases x)
    case (Inl e)
    with Cons.prems show ?thesis by (auto simp: wp_def between_def)
  next
    case (Inr t)
    have t: "p_toks p = Inr t # us" using Cons.prems(2) Inr by simp
    show ?thesis
    proof (cases "tk t = DocumentEndToken")
      case True
      have "between ts (p\<lparr>p_toks := us\<rparr>)" by (rule between_take [OF Cons.prems(1) t]) (simp add: True)
      from Cons.IH [OF this] base_take [OF t]
      have "wp (document_end_loop us) (\<lambda>r p'. case r of Inl e \<Rightarrow> lawful ts e
        | Inr _ \<Rightarrow> between ts p' \<and> base p' \<le> base p) (p\<lparr>p_toks := us\<rparr>)"
        by (auto elim!: wp_mono split: sum.splits)
      then show ?thesis by (simp add: wp_def Inr True)
    qed (use Cons.prems in \<open>simp add: wp_def Inr\<close>)
  qed
qed

lemma directive_loop_wp:
  assumes "between ts p" and "p_toks p = us"
  shows "wp (directive_loop us) (\<lambda>r p'. case r of Inl e \<Rightarrow> lawful ts e
    | Inr _ \<Rightarrow> between ts p' \<and> base p' \<le> base p) p"
  using assms
proof (induction us arbitrary: p)
  case Nil
  then show ?case by (simp add: wp_def)
next
  case (Cons x us)
  show ?case
  proof (cases x)
    case (Inl e)
    with Cons.prems show ?thesis by (auto simp: wp_def between_def)
  next
    case (Inr t)
    have t: "p_toks p = Inr t # us" using Cons.prems(2) Inr by simp
    show ?thesis
    proof (cases "is_directive (tk t)")
      case True
      then obtain d where d: "tk t = DirectiveToken d" by (cases "tk t") auto
      have b: "between ts (p\<lparr>p_toks := us\<rparr>)" by (rule between_take [OF Cons.prems(1) t]) (simp add: d)
      have go: "wp (directive_loop us) (\<lambda>r p'. case r of Inl e \<Rightarrow> lawful ts e
        | Inr _ \<Rightarrow> between ts p' \<and> base p' \<le> base p) (p\<lparr>p_toks := us, yaml_version := v, tag_handles := h\<rparr>)" for v h
      proof -
        let ?q = "p\<lparr>p_toks := us, yaml_version := v, tag_handles := h\<rparr>"
        have "between ts ?q" "base ?q + 10 = base p" using b base_take [OF t] by (simp_all add: between_def base_def)
        then show ?thesis using Cons.IH [of ?q] by (auto elim!: wp_mono split: sum.splits)
      qed
      show ?thesis
      proof (cases d)
        case (YamlDirective major minor)
        then show ?thesis using go [where v = "Some (major, minor)" and h = "tag_handles p"]
          by (auto simp: wp_def Inr d Let_def cong: sum.case_cong)
      next
        case (TagDirective handle pre)
        then show ?thesis using go [where v = "yaml_version p" and h = "dict_set (tag_handles p) handle pre"]
          by (auto simp: wp_def Inr d Let_def cong: sum.case_cong)
      next
        case (OtherDirective name)
        then show ?thesis using go [where v = "yaml_version p" and h = "tag_handles p"]
          by (auto simp: wp_def Inr d Let_def cong: sum.case_cong)
      qed
    next
      case False
      then show ?thesis using Cons.prems by (cases "tk t") (simp_all add: wp_def Inr)
    qed
  qed
qed

lemma process_directives_wp:
  assumes "between ts p"
  shows "wp process_directives (\<lambda>r p'. case r of Inl e \<Rightarrow> lawful ts e
    | Inr _ \<Rightarrow> between ts p' \<and> base p' \<le> base p) p"
proof -
  let ?p = "p\<lparr>yaml_version := None, tag_handles := []\<rparr>"
  have "between ts ?p" "base ?p = base p" using assms by (simp_all add: between_def base_def)
  then have "wp (directive_loop (p_toks ?p)) (\<lambda>r p'. case r of Inl e \<Rightarrow> lawful ts e
    | Inr _ \<Rightarrow> between ts p' \<and> base p' \<le> base p) ?p"
    using directive_loop_wp [of ts ?p "p_toks ?p"] \<open>base ?p = base p\<close> by (simp cong: sum.case_cong)
  then show ?thesis
    by (auto simp: process_directives_def wp_def sbind_def between_def base_def split: sum.splits prod.splits)
qed

lemma explicit_document_wp:
  assumes b: "between ts p" and n: "base p < n"
  shows "wp explicit_document (outcome ts [ADocs] n) p"
  using b
proof (rule between_cases)
  fix t us assume t: "p_toks p = Inr t # us"
  have after: "wp (sbind (check_token (\<lambda>k. k = DocumentStartToken)) (\<lambda>b. if \<not> b then
       unexpected None None msg else
     sbind get_token (\<lambda>t. sbind (attr t end_mark) (\<lambda>em.
     sbind (push_state DocumentEnd) (\<lambda>_.
     sbind (set_state (Some DocumentContent)) (\<lambda>_.
     ret (mk_event (DocumentStartEvent (Some True) version tags) sm em))))))) (outcome ts [ADocs] n) q"
    if q: "between ts q" "base q \<le> base p" for q msg version tags sm
    using q(1)
  proof (rule between_cases)
    fix t us assume t: "p_toks q = Inr t # us"
    from q obtain pre where pre: "ts = map Inr (pre @ [t]) @ us" by (auto simp: between_def t)
    have "outcome ts [ADocs] n (Inr (mk_event (DocumentStartEvent (Some True) version tags) sm em))
       (q\<lparr>p_toks := us, p_states := DocumentEnd # p_states q, p_state := Some DocumentContent\<rparr>)"
      if "tk t = DocumentStartToken" for em
      by (rule outcome_enter [where s = DocumentContent and pre = "pre @ [t]"])
        (use q n t that pre in \<open>auto simp: between_def rest_shape_def marks_below_def base_def mk_event_def\<close>)
    then show ?thesis using t by (simp add: unexpected_def)
  qed simp
  have "wp (sbind process_directives f) (outcome ts [ADocs] n) p"
    if "\<And>v q. between ts q \<Longrightarrow> base q \<le> base p \<Longrightarrow> wp (f v) (outcome ts [ADocs] n) q" for f
    by (rule wp_sbindI [OF process_directives_wp [OF b]]) (use that in auto)
  note body = this
  show ?thesis
    unfolding explicit_document_def wp_sbind [of peek_token] wp_peek(3) [OF t] sum.case
      wp_sbind [of "attr _ _"] wp_attr(1)
    by (rule body) (simp only: split_paired_all prod.case, rule after)
qed (simp add: explicit_document_def)

lemma end_of_stream_wp:
  assumes b: "between ts p" and n: "0 < n" and t: "p_toks p = Inr t # us"
  shows "wp end_of_stream (outcome ts [ADocs] n) p"
proof -
  from b obtain pre where "ts = map Inr (pre @ [t]) @ us" by (auto simp: between_def t)
  then have "\<exists>pre. ts = map Inr pre @ us" by blast
  then show ?thesis using b n
    by (simp add: end_of_stream_def t between_def outcome_def parser_inv_def config_def budget_def mk_event_def)
qed

lemma document_start_wp:
  assumes b: "between ts p" and n: "base p < n"
  shows "wp parse_document_start (outcome ts [ADocs] n) p"
proof -
  have "wp (sbind (check_token (\<lambda>k. k = StreamEndToken)) (\<lambda>b. if \<not> b then explicit_document else end_of_stream))
      (outcome ts [ADocs] n) q" if q: "between ts q" "base q \<le> base p" for q
    using q(1)
  proof (rule between_cases)
    fix t us assume t: "p_toks q = Inr t # us"
    show ?thesis using explicit_document_wp [OF q(1), of n] end_of_stream_wp [OF q(1) _ t, of n] q(2) n by (simp add: t)
  qed simp
  note rest = this
  have loop: "wp (\<lambda>p. document_end_loop (p_toks p) p) (\<lambda>r p'. case r of Inl e \<Rightarrow> lawful ts e
      | Inr _ \<Rightarrow> between ts p' \<and> base p' \<le> base p) p"
    using document_end_loop_wp [OF b refl] by (simp add: wp_def)
  show ?thesis
    unfolding parse_document_start_def by (rule wp_sbindI [OF loop]) (use rest in \<open>simp, blast\<close>)
qed

text \<open>A step from outside a document into a state with the given stack.\<close>

lemma implicit_document_wp:
  assumes b: "between ts p" and n: "base p + 4 < n"
  shows "wp parse_implicit_document_start (outcome ts [ADocs] n) p"
  using b
proof (rule between_cases)
  fix t us assume t: "p_toks p = Inr t # us"
  from b obtain pre where pre: "ts = map Inr pre @ p_toks p" by (auto simp: between_def)
  have "outcome ts [ADocs] n (Inr (mk_event (DocumentStartEvent (Some False) None None) m m))
      (p\<lparr>tag_handles := h, p_states := DocumentEnd # p_states p, p_state := Some BlockNode\<rparr>)" for m h
    by (rule outcome_enter [where s = BlockNode and pre = pre])
      (use b n t pre in \<open>auto simp: between_def rest_shape_def marks_below_def base_def mk_event_def\<close>)
  then show ?thesis using document_start_wp [OF b, of n] n by (simp add: parse_implicit_document_start_def t)
qed (simp add: parse_implicit_document_start_def)

lemma document_end_wp:
  assumes b: "between ts p" and n: "base p + 1 < n"
  shows "wp parse_document_end (outcome ts [ADocEnd, ADocs] n) p"
  using b
proof (rule between_cases)
  fix t us assume t: "p_toks p = Inr t # us"
  have stop: "outcome ts [ADocEnd, ADocs] n (Inr (mk_event (DocumentEndEvent x) m1 m2)) (q\<lparr>p_state := Some DocumentStart\<rparr>)"
    if "between ts q" "base q \<le> base p" for q x m1 m2
    using that n by (auto simp: outcome_def between_def parser_inv_def config_def budget_def marks_below_def base_def
        rest_shape_def mk_event_def)
  have "between ts (p\<lparr>p_toks := us\<rparr>)" if "tk t = DocumentEndToken" using between_take [OF b t] that by simp
  then show ?thesis using stop [OF b] stop [of "p\<lparr>p_toks := us\<rparr>"] base_take [OF t]
    by (auto simp add: parse_document_end_def t)
qed (simp add: parse_document_end_def)

lemma document_content_wp:
  assumes h: "held ts 0 p" and n: "base p + 1 < n"
  shows "wp parse_document_content (outcome ts (ANode # rest_shape p) n) p"
  using h
proof (rule held_cases)
  fix t us assume t: "p_toks p = Inr t # us"
  obtain s ss where st: "p_states p = s # ss" using h by (cases "p_states p") (auto simp: held_def)
  from h obtain pre where pre: "ts = map Inr pre @ p_toks p" by (auto simp: held_def)
  have "outcome ts (ANode # rest_shape p) n (Inr (process_empty_scalar m)) (p\<lparr>p_states := ss, p_state := Some s\<rparr>)" for m
    by (rule outcome_return [where s = s and ss = ss and pre = pre])
      (use h n st pre in \<open>auto simp: held_def rest_shape_def marks_below_def base_def mk_event_def process_empty_scalar_def\<close>)
  moreover have "node_pre ts p" using h by (simp add: held_def node_pre_def)
  ultimately show ?thesis using parse_node_wp [of ts p n] n by (simp add: parse_document_content_def t st)
qed (simp add: parse_document_content_def)

lemma stream_start_wp:
  assumes b: "between ts p" and n: "base p < n" and t: "p_toks p = Inr t # us" "tk t = StreamStartToken enc"
  shows "wp parse_stream_start (outcome ts [AStream] n) p"
proof -
  have "between ts (p\<lparr>p_toks := us\<rparr>)" using between_take [OF b t(1)] t(2) by simp
  then show ?thesis using n base_take [OF t(1)]
    by (auto simp: parse_stream_start_def t outcome_def between_def parser_inv_def config_def budget_def
        marks_below_def base_def rest_shape_def mk_event_def)
qed

section \<open>Every state\<close>

lemma inv_held: "parser_inv p \<Longrightarrow> p_state p = Some s \<Longrightarrow> inner s \<Longrightarrow> held (p_toks p) (marked s) p"
  by (auto simp: parser_inv_def held_def intro: exI [of _ "[]"])

lemma inv_between: "parser_inv p \<Longrightarrow> p_state p = Some s \<Longrightarrow> \<not> inner s \<Longrightarrow> between (p_toks p) p"
  by (cases s) (auto simp: parser_inv_def between_def marks_below_def intro: exI [of _ "[]"])

lemma inv_first:
  assumes "parser_inv p" and "p_state p = Some s" and "picky s"
  obtains t us where "p_toks p = Inr t # us" and "awaits s (tk t)" and "s = StreamStart \<Longrightarrow> \<exists>enc. tk t = StreamStartToken enc"
  using assms by (auto simp: parser_inv_def ready_for_def)

lemma run_state_wp:
  assumes inv: "parser_inv p" and s: "p_state p = Some s"
  shows "wp (run_state s) (outcome (p_toks p) (config p) (budget p)) p"
proof -
  let ?ts = "p_toks p" and ?n = "budget p"
  have n: "?n = base p + idle s" by (simp add: budget_def s)
  have c: "config p = expects s @ rest_shape p" by (simp add: config_def s)
  have out: "rest_shape p = []" if "\<not> inner s" using inv s that by (simp add: parser_inv_def rest_shape_def)
  note held = inv_held [OF inv s] and out' = inv_between [OF inv s]
  have opened: "wp (opened entry) (outcome ?ts (config p) ?n) p"
    if "inner s" "marked s = 0" "picky s" "\<And>k. awaits s k \<Longrightarrow> k \<noteq> StreamEndToken"
      "\<And>q. held ?ts 1 q \<Longrightarrow> base q + 10 = base p \<Longrightarrow> rest_shape q = rest_shape p \<Longrightarrow>
         wp entry (outcome ?ts (expects s @ rest_shape q) ?n) q" for entry
  proof -
    from inv_first [OF inv s \<open>picky s\<close>] obtain t us where t: "p_toks p = Inr t # us" "awaits s (tk t)" by metis
    show ?thesis by (rule opened_wp [OF _ t(1)]) (use held that t c in auto)
  qed
  show ?thesis
  proof (cases s)
    case StreamStart
    with inv_first [OF inv s] obtain t us enc where "p_toks p = Inr t # us" "tk t = StreamStartToken enc" by (simp, metis)
    then show ?thesis using stream_start_wp [OF out', of ?n] StreamStart n c out by simp
  next
    case ImplicitDocumentStart
    then show ?thesis using implicit_document_wp [OF out', of ?n] n c out by simp
  next
    case DocumentStart
    then show ?thesis using document_start_wp [OF out', of ?n] n c out by simp
  next
    case DocumentEnd
    then show ?thesis using document_end_wp [OF out', of ?n] n c out by simp
  next
    case DocumentContent
    then show ?thesis using document_content_wp [of ?ts p ?n] held n c by simp
  next
    case BlockNode
    moreover have "node_pre ?ts p" if "held ?ts 0 p" using that by (simp add: held_def node_pre_def)
    ultimately show ?thesis using parse_node_wp [of ?ts p ?n] held n c by simp
  next
    case BlockSequenceFirstEntry
    have "wp (opened parse_block_sequence_entry) (outcome ?ts (config p) ?n) p"
    proof (rule opened)
      fix q assume "held ?ts 1 q" "base q + 10 = base p"
      then show "wp parse_block_sequence_entry (outcome ?ts (expects s @ rest_shape q) ?n) q"
        using block_sequence_entry_wp [of ?ts q ?n] n BlockSequenceFirstEntry by simp
    qed (use BlockSequenceFirstEntry in simp_all)
    with BlockSequenceFirstEntry show ?thesis by simp
  next
    case BlockSequenceEntry
    then show ?thesis using block_sequence_entry_wp [of ?ts p ?n] held n c by simp
  next
    case IndentlessSequenceEntry
    then show ?thesis using indentless_entry_wp [of ?ts p ?n] held n c by simp
  next
    case BlockMappingFirstKey
    have "wp (opened parse_block_mapping_key) (outcome ?ts (config p) ?n) p"
    proof (rule opened)
      fix q assume "held ?ts 1 q" "base q + 10 = base p"
      then show "wp parse_block_mapping_key (outcome ?ts (expects s @ rest_shape q) ?n) q"
        using block_mapping_key_wp [of ?ts q ?n] n BlockMappingFirstKey by simp
    qed (use BlockMappingFirstKey in simp_all)
    with BlockMappingFirstKey show ?thesis by simp
  next
    case BlockMappingKey
    then show ?thesis using block_mapping_key_wp [of ?ts p ?n] held n c by simp
  next
    case BlockMappingValue
    then show ?thesis
      using value_wp [of ?ts BlockMappingKey p ?n] held n c fits_expects by (simp add: parse_block_mapping_value_def del: wp_sbind)
  next
    case FlowSequenceFirstEntry
    have "wp (opened (parse_flow_sequence_entry True)) (outcome ?ts (config p) ?n) p"
    proof (rule opened)
      fix q assume "held ?ts 1 q" "base q + 10 = base p"
      then show "wp (parse_flow_sequence_entry True) (outcome ?ts (expects s @ rest_shape q) ?n) q"
        using flow_sequence_entry_wp [of ?ts q ?n] n FlowSequenceFirstEntry by simp
    qed (use FlowSequenceFirstEntry in simp_all)
    with FlowSequenceFirstEntry show ?thesis by simp
  next
    case FlowSequenceEntry
    then show ?thesis using flow_sequence_entry_wp [of ?ts p ?n False] held n c by simp
  next
    case FlowSequenceEntryMappingKey
    with inv_first [OF inv s] obtain t us where t: "p_toks p = Inr t # us" "tk t = KeyToken" by auto
    show ?thesis
      using entry_node_wp [of ?ts FlowSequenceEntryMappingValue p t us ?n] FlowSequenceEntryMappingKey held n c t fits_expects
      by (simp add: parse_flow_sequence_entry_mapping_key_def)
  next
    case FlowSequenceEntryMappingValue
    then show ?thesis
      using value_wp [of ?ts FlowSequenceEntryMappingEnd p ?n] held n c fits_expects
      by (simp add: parse_flow_sequence_entry_mapping_value_def del: wp_sbind)
  next
    case FlowSequenceEntryMappingEnd
    then show ?thesis using mapping_end_wp [of ?ts p ?n] held n c by simp
  next
    case FlowMappingFirstKey
    have "wp (opened (parse_flow_mapping_key True)) (outcome ?ts (config p) ?n) p"
    proof (rule opened)
      fix q assume "held ?ts 1 q" "base q + 10 = base p"
      then show "wp (parse_flow_mapping_key True) (outcome ?ts (expects s @ rest_shape q) ?n) q"
        using flow_mapping_key_wp [of ?ts q ?n] n FlowMappingFirstKey by simp
    qed (use FlowMappingFirstKey in simp_all)
    with FlowMappingFirstKey show ?thesis by simp
  next
    case FlowMappingKey
    then show ?thesis using flow_mapping_key_wp [of ?ts p ?n False] held n c by simp
  next
    case FlowMappingValue
    then show ?thesis
      using value_wp [of ?ts FlowMappingKey p ?n] held n c fits_expects by (simp add: parse_flow_mapping_value_def del: wp_sbind)
  next
    case FlowMappingEmptyValue
    then show ?thesis
      using empty_here_wp [of ?ts FlowMappingKey p ?n] held n c fits_expects by (simp add: parse_flow_mapping_empty_value_def)
  qed
qed

section \<open>The loop over the events\<close>

lemma current_event_irrelevant [simp]:
  "parser_inv (p\<lparr>current_event := e\<rparr>) = parser_inv p"
  "config (p\<lparr>current_event := e\<rparr>) = config p"
  "budget (p\<lparr>current_event := e\<rparr>) = budget p"
  by (simp_all add: parser_inv_def config_def budget_def marks_below_def rest_shape_def base_def split: option.split)

lemma parse_loop_end: "p_state p = None \<Longrightarrow> current_event p = None \<Longrightarrow> parse_loop p = Some ([], None)"
  by (simp add: parse_loop.simps check_event_def fill_event_def)

lemma parse_loop_error:
  "p_state p = Some s \<Longrightarrow> current_event p = None \<Longrightarrow> run_state s p = (Inl e, p') \<Longrightarrow> parse_loop p = Some ([], Some e)"
  by (simp add: parse_loop.simps check_event_def fill_event_def)

lemma parse_loop_event:
  "p_state p = Some s \<Longrightarrow> current_event p = None \<Longrightarrow> run_state s p = (Inr e, p') \<Longrightarrow>
   parse_loop p = Option.bind (parse_loop (p'\<lparr>current_event := None\<rparr>)) (\<lambda>(es, err). Some (Some e # es, err))"
  by (subst parse_loop.simps) (simp add: check_event_def get_event_def fill_event_def)

definition well_parsed :: "(yaml_error + token) list \<Rightarrow> expect list \<Rightarrow> event list \<Rightarrow> yaml_error option \<Rightarrow> bool" where
  "well_parsed ts es evs err =
     (case err of
        None \<Rightarrow> shape es (map ev evs) = Some []
      | Some e \<Rightarrow> lawful ts e \<and> shape es (map ev evs) \<noteq> None)"

lemma parse_loop_run:
  assumes "parser_inv p" and "current_event p = None"
  shows "\<exists>evs err. parse_loop p = Some (map Some evs, err) \<and> length evs \<le> budget p \<and>
    well_parsed (p_toks p) (config p) evs err"
  using assms
proof (induction "budget p" arbitrary: p rule: less_induct)
  case less
  show ?case
  proof (cases "p_state p")
    case None
    then show ?thesis using parse_loop_end [OF None less.prems(2)]
      by (intro exI [of _ "[]"] exI [of _ None]) (simp add: well_parsed_def config_def)
  next
    case (Some s)
    obtain r p' where run: "run_state s p = (r, p')" by fastforce
    from wp_run [OF run_state_wp [OF less.prems(1) Some] run] have out: "outcome (p_toks p) (config p) (budget p) r p'" .
    show ?thesis
    proof (cases r)
      case (Inl e)
      then show ?thesis using parse_loop_error [OF Some less.prems(2)] run out
        by (intro exI [of _ "[]"] exI [of _ "Some e"]) (simp add: well_parsed_def)
    next
      case (Inr e)
      let ?q = "p'\<lparr>current_event := None\<rparr>"
      from out Inr have q: "parser_inv ?q" "budget ?q < budget p" "shape_step (config p) (ev e) = Some (config ?q)"
        and "\<exists>pre. p_toks p = map Inr pre @ p_toks ?q" by (auto simp: outcome_def)
      then obtain pre where pre: "p_toks p = map Inr pre @ p_toks ?q" by blast
      from less.hyps [OF q(2) q(1)] obtain evs err where "parse_loop ?q = Some (map Some evs, err)"
        "length evs \<le> budget ?q" "well_parsed (p_toks ?q) (config ?q) evs err" by auto
      with q(2,3) pre parse_loop_event [OF Some less.prems(2)] run Inr show ?thesis
        by (intro exI [of _ "e # evs"] exI [of _ err]) (auto simp: well_parsed_def split: option.splits)
    qed
  qed
qed

lemma new_parser_inv:
  "proper (Inr t # ts) \<Longrightarrow> tk t = StreamStartToken enc \<Longrightarrow> parser_inv (new_parser (Inr t # ts))"
  by (simp add: parser_inv_def new_parser_def ready_for_def marks_below_def)

section \<open>Properties of the parser\<close>

lemma yaml_parse_run:
  assumes "proper (Inr t # ts)" and "tk t = StreamStartToken enc"
  shows "\<exists>evs err. yaml_parse (Inr t # ts) = Some (map Some evs, err) \<and> length evs \<le> 10 * length ts + 11 \<and>
    well_parsed (Inr t # ts) [AStream] evs err"
  using parse_loop_run [OF new_parser_inv [OF assms]]
  by (auto simp: yaml_parse_def new_parser_def config_def budget_def base_def rest_shape_def)

definition at_mark :: "token_kind \<Rightarrow> token" where
  "at_mark k = (let m = \<lparr>mk_name = ''f'', mk_index = 0, mk_line = 0, mk_column = 0, mk_buffer = None, mk_pointer = 0\<rparr>
     in \<lparr>tk = k, start_mark = m, end_mark = m\<rparr>)"

definition sample_tokens :: "(yaml_error + token) list" where
  "sample_tokens = map (\<lambda>k. Inr (at_mark k))
     [BlockMappingStartToken, KeyToken, ScalarToken ''a'' True None, ValueToken, FlowSequenceStartToken,
      ScalarToken ''b'' True None, FlowSequenceEndToken, BlockEndToken, StreamEndToken]"

text \<open>
  C11. \<open>yaml.parse\<close> ends on every stream of tokens that starts with the start of the stream and
  does not run out before its end (an error of the scanner may cut it anywhere), and the
  number of events is bounded by the number of tokens.
\<close>

theorem yaml_parse_terminates:
  assumes "proper (Inr t # ts)" and "tk t = StreamStartToken enc"
  shows "\<exists>evs err. yaml_parse (Inr t # ts) = Some (map Some evs, err) \<and> length evs \<le> 10 * length ts + 11"
  using yaml_parse_run [OF assms] by blast

lemma yaml_parse_terminates_witness:
  "\<exists>evs err. yaml_parse (Inr (at_mark (StreamStartToken None)) # sample_tokens) = Some (map Some evs, err) \<and>
     length evs \<le> 10 * length sample_tokens + 11"
  by (rule yaml_parse_terminates) (simp_all add: sample_tokens_def at_mark_def Let_def)

text \<open>
  C12. When it ends without an error, its events are those of a whole stream: documents in it,
  one node in each, collections closed in the order they were opened, keys and values in turn.
\<close>

theorem yaml_parse_nested:
  assumes "proper (Inr t # ts)" and "tk t = StreamStartToken enc" and "yaml_parse (Inr t # ts) = Some (os, None)"
  shows "\<exists>evs. os = map Some evs \<and> shape [AStream] (map ev evs) = Some []"
  using yaml_parse_run [OF assms(1,2)] assms(3) by (auto simp: well_parsed_def)

lemma yaml_parse_nested_witness:
  "\<exists>evs os. yaml_parse (Inr (at_mark (StreamStartToken None)) # sample_tokens) = Some (os, None) \<and>
     os = map Some evs \<and> shape [AStream] (map ev evs) = Some []"
proof -
  have "map_option snd (yaml_parse (Inr (at_mark (StreamStartToken None)) # sample_tokens)) = Some None"
    by code_simp
  then obtain os where "yaml_parse (Inr (at_mark (StreamStartToken None)) # sample_tokens) = Some (os, None)"
    by auto
  with yaml_parse_nested [of "at_mark (StreamStartToken None)" sample_tokens None os] show ?thesis
    by (auto simp: sample_tokens_def at_mark_def Let_def)
qed

text \<open>
  C13. When it ends with an error, that is a \<open>ParserError\<close> or one the scanner raised: no assert
  fails, no stack is popped while empty, and no token is missing; and the events before it
  are the beginning of a stream.
\<close>

theorem yaml_parse_errors:
  assumes "proper (Inr t # ts)" and "tk t = StreamStartToken enc" and "yaml_parse (Inr t # ts) = Some (os, Some e)"
  shows "((\<exists>m. e = ParserError m) \<or> Inl e \<in> set ts) \<and> (\<exists>evs. os = map Some evs \<and> shape [AStream] (map ev evs) \<noteq> None)"
  using yaml_parse_run [OF assms(1,2)] assms(3) by (auto simp: well_parsed_def lawful_def)

lemma yaml_parse_errors_witness:
  "\<exists>os evs m. yaml_parse [Inr (at_mark (StreamStartToken None)), Inr (at_mark KeyToken), Inr (at_mark StreamEndToken)] =
       Some (os, Some (ParserError m)) \<and> os = map Some evs \<and> shape [AStream] (map ev evs) \<noteq> None"
proof -
  let ?t = "at_mark (StreamStartToken None)" and ?ts = "[Inr (at_mark KeyToken), Inr (at_mark StreamEndToken)]"
  have "map_option (\<lambda>r. snd r = None) (yaml_parse (Inr ?t # ?ts)) = Some False"
    by code_simp
  then obtain os e where run: "yaml_parse (Inr ?t # ?ts) = Some (os, Some e)"
    by auto
  from yaml_parse_errors [of ?t ?ts None os e] run show ?thesis
    by (auto simp: at_mark_def Let_def)
qed

end
