(* ===== verification/Py_Regex.thy ===== *)
theory Py_Regex
  imports Py_Strings
begin

text \<open>
  Regular expressions as the source writes them between \<open>^(?:\<close> and \<open>)$\<close>: their language, and
  a matcher by derivatives that is proved to decide it.  With the whole text to be matched,
  which alternative the backtracking matcher of Python tries first makes no difference.
\<close>

datatype regex =
    Eps
  | Chars "char \<Rightarrow> bool"
  | Sq regex regex
  | Alt regex regex
  | Star regex
  | Nothing

inductive lang :: "regex \<Rightarrow> string \<Rightarrow> bool" where
  lang_Eps: "lang Eps []"
| lang_Chars: "f c \<Longrightarrow> lang (Chars f) [c]"
| lang_Sq: "lang r s \<Longrightarrow> lang q t \<Longrightarrow> lang (Sq r q) (s @ t)"
| lang_Alt1: "lang r s \<Longrightarrow> lang (Alt r q) s"
| lang_Alt2: "lang q s \<Longrightarrow> lang (Alt r q) s"
| lang_Star_Nil: "lang (Star r) []"
| lang_Star_step: "lang r s \<Longrightarrow> lang (Star r) t \<Longrightarrow> lang (Star r) (s @ t)"

inductive_simps lang_simps [simp]:
  "lang Eps s"
  "lang (Chars f) s"
  "lang (Sq r q) s"
  "lang (Alt r q) s"
  "lang Nothing s"

fun nullable :: "regex \<Rightarrow> bool" where
  "nullable Eps = True"
| "nullable (Chars f) = False"
| "nullable (Sq r q) = (nullable r \<and> nullable q)"
| "nullable (Alt r q) = (nullable r \<or> nullable q)"
| "nullable (Star r) = True"
| "nullable Nothing = False"

fun deriv :: "char \<Rightarrow> regex \<Rightarrow> regex" where
  "deriv c Eps = Nothing"
| "deriv c (Chars f) = (if f c then Eps else Nothing)"
| "deriv c (Sq r q) = (if nullable r then Alt (Sq (deriv c r) q) (deriv c q) else Sq (deriv c r) q)"
| "deriv c (Alt r q) = Alt (deriv c r) (deriv c q)"
| "deriv c (Star r) = Sq (deriv c r) (Star r)"
| "deriv c Nothing = Nothing"

fun full_match :: "regex \<Rightarrow> string \<Rightarrow> bool" where
  "full_match r [] = nullable r"
| "full_match r (c # cs) = full_match (deriv c r) cs"

text \<open>\<open>$\<close> matches at the end and before a newline at the end.\<close>

definition re_match :: "regex \<Rightarrow> string \<Rightarrow> bool" where
  "re_match r s = (full_match r s \<or> s \<noteq> [] \<and> last s = nl \<and> full_match r (butlast s))"

section \<open>Writing expressions\<close>

definition lit :: "string \<Rightarrow> regex" where
  "lit s = foldr (\<lambda>c. Sq (Chars (\<lambda>d. d = c))) s Eps"

definition among :: "string \<Rightarrow> regex" where
  "among cs = Chars (\<lambda>c. c \<in> set cs)"

definition alts :: "regex list \<Rightarrow> regex" where
  "alts rs = foldr Alt rs Nothing"

definition sq :: "regex list \<Rightarrow> regex" where
  "sq rs = foldr Sq rs Eps"

definition opt :: "regex \<Rightarrow> regex" where
  "opt r = Alt r Eps"

definition plus :: "regex \<Rightarrow> regex" where
  "plus r = Sq r (Star r)"

definition digit :: regex where
  "digit = Chars is_digit"

section \<open>The matcher decides the language\<close>

lemma nullable_lang: "nullable r \<longleftrightarrow> lang r []"
  by (induction r) (simp_all add: lang_Star_Nil)

lemma lang_Star_Cons: "lang (Star r) (c # t) \<longleftrightarrow> (\<exists>u v. t = u @ v \<and> lang r (c # u) \<and> lang (Star r) v)"
proof
  assume "lang (Star r) (c # t)"
  then show "\<exists>u v. t = u @ v \<and> lang r (c # u) \<and> lang (Star r) v"
  proof (induction "Star r" "c # t" arbitrary: t)
    case (lang_Star_step s u)
    then show ?case by (cases s) auto
  qed
next
  assume "\<exists>u v. t = u @ v \<and> lang r (c # u) \<and> lang (Star r) v"
  then obtain u v where "t = u @ v" "lang r (c # u)" "lang (Star r) v" by blast
  then show "lang (Star r) (c # t)" using lang_Star_step [of r "c # u" v] by simp
qed

lemma lang_Sq_Cons: "lang (Sq r q) (c # t) \<longleftrightarrow>
    (\<exists>u v. t = u @ v \<and> lang r (c # u) \<and> lang q v) \<or> lang r [] \<and> lang q (c # t)"
  by (auto simp: Cons_eq_append_conv)

lemma deriv_lang: "lang (deriv c r) s \<longleftrightarrow> lang r (c # s)"
proof (induction r arbitrary: s)
  case (Sq r q)
  show ?case
    unfolding lang_Sq_Cons using Sq.IH by (simp add: nullable_lang)
next
  case (Star r)
  then show ?case by (simp add: lang_Star_Cons)
qed simp_all

lemma full_match_lang: "full_match r s \<longleftrightarrow> lang r s"
  by (induction s arbitrary: r) (simp_all add: nullable_lang deriv_lang)

section \<open>Membership\<close>

lemma lang_among [simp]: "lang (among cs) s \<longleftrightarrow> (\<exists>c \<in> set cs. s = [c])"
  by (auto simp: among_def)

lemma lang_digit [simp]: "lang digit s \<longleftrightarrow> (\<exists>c. is_digit c \<and> s = [c])"
  by (auto simp: digit_def)

lemma lang_lit [simp]: "lang (lit t) s \<longleftrightarrow> s = t"
  by (induction t arbitrary: s) (auto simp: lit_def)

lemma lang_alts [simp]: "lang (alts rs) s \<longleftrightarrow> (\<exists>r \<in> set rs. lang r s)"
  by (induction rs) (auto simp: alts_def)

lemma lang_sq_Nil [simp]: "lang (sq []) s \<longleftrightarrow> s = []"
  by (simp add: sq_def)

lemma lang_sq_Cons [simp]: "lang (sq (r # rs)) s \<longleftrightarrow> (\<exists>u v. s = u @ v \<and> lang r u \<and> lang (sq rs) v)"
  by (simp add: sq_def)

lemma lang_opt [simp]: "lang (opt r) s \<longleftrightarrow> s = [] \<or> lang r s"
  by (auto simp: opt_def)

lemma lang_plus [simp]: "lang (plus r) s \<longleftrightarrow> (\<exists>u v. s = u @ v \<and> lang r u \<and> lang (Star r) v)"
  by (simp add: plus_def)

lemma lang_Star_all: "\<forall>c \<in> set s. lang r [c] \<Longrightarrow> lang (Star r) s"
  by (induction s) (auto intro: lang_Star_Nil lang_Star_step [of r "[_]", simplified])

lemma lang_Star_chars:
  assumes "lang (Star r) s" and "\<And>u. lang r u \<Longrightarrow> \<forall>c \<in> set u. P c"
  shows "\<forall>c \<in> set s. P c"
  using assms(1) by (induction "Star r" s) (use assms(2) in auto)

end
