(* ===== verification/Yaml_Resolver.thy ===== *)
theory Yaml_Resolver
  imports Yaml_Data Py_Regex
begin

text \<open>
  The resolver of the bundled YAML library (\<open>yaml/resolver.py\<close>): the table of implicit
  resolvers by first character, the experimental path resolvers, and \<open>resolve\<close>, which finds
  the tag of a node that has none.  The tables are attributes of the class, so they outlive
  every loader: they are fields of the state here.
\<close>

section \<open>The tables\<close>

text \<open>The keys of \<open>yaml_implicit_resolvers\<close>: \<open>None\<close>, the empty string, or one character.\<close>

datatype first_key = AnyFirst | EmptyFirst | First char

datatype node_check = AnyNode | OfClass node_class | OfTag string

datatype index_check = NoIndex | BoolIndex bool | KeyIndex string | NumIndex int

type_synonym path = "(node_check \<times> index_check) list"

type_synonym implicit_table = "(first_key \<times> (string \<times> regex) list) list"

type_synonym path_kind = "path \<times> node_class option"

record resolver =
  implicit_table :: implicit_table
  path_table :: "(path_kind \<times> string) list"
  exact_stack :: "(node_class option \<times> string) list list"
  prefix_stack :: "path_kind list list"

definition table_get :: "implicit_table \<Rightarrow> first_key \<Rightarrow> (string \<times> regex) list" where
  "table_get tb k = (case map_of tb k of None \<Rightarrow> [] | Some rs \<Rightarrow> rs)"

definition add_implicit_resolver ::
  "string \<Rightarrow> regex \<Rightarrow> first_key list option \<Rightarrow> implicit_table \<Rightarrow> implicit_table" where
  "add_implicit_resolver tag rx first tb =
     foldl (\<lambda>tb ch. dict_set tb ch (table_get tb ch @ [(tag, rx)])) tb
       (case first of None \<Rightarrow> [AnyFirst] | Some chs \<Rightarrow> chs)"

text \<open>
  An element of a path as the caller writes it: a pair, a sequence of one element or of
  another number, or the index alone.  What is neither a type, a node class, a tag nor
  \<open>None\<close> (an index: neither a string, a number nor \<open>None\<close>) is \<open>Odd\<close>.
\<close>

datatype raw_node = RawStr | RawList | RawDict | RawClass node_class | RawTag string | RawNone | Odd

datatype raw_index = RawIndex index_check | OddIndex

datatype raw_element = Pair raw_node raw_index | Single raw_node | Malformed | Bare raw_index

fun node_checker :: "raw_node \<Rightarrow> yaml_error + node_check" where
  "node_checker RawStr = Inr (OfClass ScalarClass)"
| "node_checker RawList = Inr (OfClass SequenceClass)"
| "node_checker RawDict = Inr (OfClass MappingClass)"
| "node_checker (RawClass k) = Inr (OfClass k)"
| "node_checker (RawTag t) = Inr (OfTag t)"
| "node_checker RawNone = Inr AnyNode"
| "node_checker Odd = Inl (ResolverError ''Invalid node checker'')"

fun index_checker :: "raw_index \<Rightarrow> yaml_error + index_check" where
  "index_checker (RawIndex i) = Inr i"
| "index_checker OddIndex = Inl (ResolverError ''Invalid index checker'')"

fun path_element :: "raw_element \<Rightarrow> yaml_error + (node_check \<times> index_check)" where
  "path_element (Pair n i) = rbind (node_checker n) (\<lambda>n. rbind (index_checker i) (\<lambda>i. Inr (n, i)))"
| "path_element (Single n) = rbind (node_checker n) (\<lambda>n. Inr (n, BoolIndex True))"
| "path_element Malformed = Inl (ResolverError ''Invalid path element'')"
| "path_element (Bare i) = rbind (index_checker i) (\<lambda>i. Inr (AnyNode, i))"

fun path_elements :: "raw_element list \<Rightarrow> yaml_error + path" where
  "path_elements [] = Inr []"
| "path_elements (e # es) = rbind (path_element e) (\<lambda>x. rbind (path_elements es) (\<lambda>xs. Inr (x # xs)))"

fun kind_checker :: "raw_node \<Rightarrow> yaml_error + node_class option" where
  "kind_checker RawStr = Inr (Some ScalarClass)"
| "kind_checker RawList = Inr (Some SequenceClass)"
| "kind_checker RawDict = Inr (Some MappingClass)"
| "kind_checker (RawClass k) = Inr (Some k)"
| "kind_checker RawNone = Inr None"
| "kind_checker _ = Inl (ResolverError ''Invalid node kind'')"

definition add_path_resolver ::
  "string \<Rightarrow> raw_element list \<Rightarrow> raw_node \<Rightarrow> (path_kind \<times> string) list \<Rightarrow> yaml_error + (path_kind \<times> string) list" where
  "add_path_resolver tag path kind tb =
     rbind (path_elements path) (\<lambda>new_path.
     rbind (kind_checker kind) (\<lambda>k. Inr (dict_set tb (new_path, k) tag)))"

section \<open>Path resolvers\<close>

text \<open>The index of a node in its parent: none, a number in a sequence, or the key of a mapping.\<close>

datatype current_index = NoneIndex | AtNumber nat | AtKey node

definition node_checks :: "node_check \<Rightarrow> node \<Rightarrow> bool" where
  "node_checks nc n =
     (case nc of AnyNode \<Rightarrow> True | OfTag t \<Rightarrow> node_tag n = t | OfClass k \<Rightarrow> class_of (node_value n) = k)"

definition index_checks :: "index_check \<Rightarrow> current_index \<Rightarrow> bool" where
  "index_checks ic i =
     (case ic of
        BoolIndex True \<Rightarrow> i = NoneIndex
      | BoolIndex False \<Rightarrow> i \<noteq> NoneIndex
      | NoIndex \<Rightarrow> i \<noteq> NoneIndex
      | KeyIndex s \<Rightarrow> (case i of AtKey k \<Rightarrow> (case node_value k of ScalarNode v _ \<Rightarrow> v = s | _ \<Rightarrow> False) | _ \<Rightarrow> False)
      | NumIndex m \<Rightarrow> (case i of AtNumber n \<Rightarrow> m = int n | _ \<Rightarrow> False))"

definition check_resolver_prefix :: "nat \<Rightarrow> path \<Rightarrow> node \<Rightarrow> current_index \<Rightarrow> yaml_error + bool" where
  "check_resolver_prefix depth path n i =
     (case list_get path (int depth - 1) of
        Inl e \<Rightarrow> Inl (Raised e)
      | Inr (nc, ic) \<Rightarrow> Inr (node_checks nc n \<and> index_checks ic i))"

text \<open>The loop of \<open>descend_resolver\<close> below the root; a matched path is a key of the table.\<close>

fun descend_loop ::
  "(path_kind \<times> string) list \<Rightarrow> nat \<Rightarrow> node \<Rightarrow> current_index \<Rightarrow> path_kind list \<Rightarrow>
   (node_class option \<times> string) list \<times> path_kind list \<Rightarrow>
   yaml_error + (node_class option \<times> string) list \<times> path_kind list" where
  "descend_loop tb depth n i [] acc = Inr acc"
| "descend_loop tb depth n i ((path, kind) # pks) (exact, prefs) =
     rbind (check_resolver_prefix depth path n i) (\<lambda>b.
       if \<not> b then descend_loop tb depth n i pks (exact, prefs)
       else if depth < length path then descend_loop tb depth n i pks (exact, prefs @ [(path, kind)])
       else rbind (of_option (Raised KeyError) (map_of tb (path, kind))) (\<lambda>tag.
         descend_loop tb depth n i pks (dict_set exact kind tag, prefs)))"

fun root_loop ::
  "(path_kind \<times> string) list \<Rightarrow> (node_class option \<times> string) list \<times> path_kind list \<Rightarrow>
   (node_class option \<times> string) list \<times> path_kind list" where
  "root_loop [] acc = acc"
| "root_loop (((path, kind), tag) # tb) (exact, prefs) =
     (if path = [] then root_loop tb (dict_set exact kind tag, prefs)
      else root_loop tb (exact, prefs @ [(path, kind)]))"

definition descend_resolver :: "node option \<Rightarrow> current_index \<Rightarrow> (resolver, yaml_error, unit) act" where
  "descend_resolver parent i r =
     (if path_table r = [] then (Inr (), r)
      else case (case parent of
          None \<Rightarrow> Inr (root_loop (path_table r) ([], []))
        | Some n \<Rightarrow> (case prefix_stack r of
              [] \<Rightarrow> Inl (Raised IndexError)
            | pks # _ \<Rightarrow> descend_loop (path_table r) (length (prefix_stack r)) n i pks ([], []))) of
        Inl e \<Rightarrow> (Inl e, r)
      | Inr (exact, prefs) \<Rightarrow>
          (Inr (), r\<lparr>exact_stack := exact # exact_stack r, prefix_stack := prefs # prefix_stack r\<rparr>))"

definition ascend_resolver :: "(resolver, yaml_error, unit) act" where
  "ascend_resolver r =
     (if path_table r = [] then (Inr (), r)
      else case (exact_stack r, prefix_stack r) of
        (_ # es, _ # ps) \<Rightarrow> (Inr (), r\<lparr>exact_stack := es, prefix_stack := ps\<rparr>)
      | (_ # es, []) \<Rightarrow> (Inl (Raised IndexError), r\<lparr>exact_stack := es\<rparr>)
      | ([], _) \<Rightarrow> (Inl (Raised IndexError), r))"

section \<open>Resolving a tag\<close>

definition str_tag :: string where "str_tag = ''tag:yaml.org,2002:str''"
definition seq_tag :: string where "seq_tag = ''tag:yaml.org,2002:seq''"
definition map_tag :: string where "map_tag = ''tag:yaml.org,2002:map''"

fun default_tag :: "node_class \<Rightarrow> string" where
  "default_tag ScalarClass = str_tag"
| "default_tag SequenceClass = seq_tag"
| "default_tag MappingClass = map_tag"

definition first_of :: "string \<Rightarrow> first_key" where
  "first_of v = (case v of [] \<Rightarrow> EmptyFirst | c # _ \<Rightarrow> First c)"

fun first_matching :: "(string \<times> regex) list \<Rightarrow> string \<Rightarrow> string option" where
  "first_matching [] v = None"
| "first_matching ((tag, rx) # rs) v = (if re_match rx v then Some tag else first_matching rs v)"

text \<open>
  \<open>resolvers += ...\<close> extends the list that \<open>get\<close> returned in place: where the table has the
  key, the list in the table of the class grows.
\<close>

definition extend_in_place :: "first_key \<Rightarrow> implicit_table \<Rightarrow> implicit_table" where
  "extend_in_place k tb =
     (case map_of tb k of None \<Rightarrow> tb | Some rs \<Rightarrow> dict_set tb k (rs @ table_get tb AnyFirst))"

definition path_tag :: "node_class \<Rightarrow> resolver \<Rightarrow> yaml_error + string option" where
  "path_tag kind r =
     (if path_table r = [] then Inr None
      else case exact_stack r of
        [] \<Rightarrow> Inl (Raised IndexError)
      | exact # _ \<Rightarrow> Inr (case map_of exact (Some kind) of Some t \<Rightarrow> Some t | None \<Rightarrow> map_of exact None))"

definition resolve_rest :: "node_class \<Rightarrow> resolver \<Rightarrow> yaml_error + string" where
  "resolve_rest kind r =
     rbind (path_tag kind r) (\<lambda>t. Inr (case t of Some t \<Rightarrow> t | None \<Rightarrow> default_tag kind))"

text \<open>\<open>plain\<close> is \<open>implicit[0]\<close> for a scalar; for a collection it is not looked at.\<close>

definition resolve :: "node_class \<Rightarrow> string \<Rightarrow> bool \<Rightarrow> (resolver, yaml_error, string) act" where
  "resolve kind v plain r =
     (if kind = ScalarClass \<and> plain then
        (let k = first_of v;
             rs = table_get (implicit_table r) k @ table_get (implicit_table r) AnyFirst;
             r = r\<lparr>implicit_table := extend_in_place k (implicit_table r)\<rparr>
         in case first_matching rs v of
              Some tag \<Rightarrow> (Inr tag, r)
            | None \<Rightarrow> (resolve_rest kind r, r))
      else (resolve_rest kind r, r))"

section \<open>The implicit resolvers of the class Resolver\<close>

definition firsts :: "string \<Rightarrow> first_key list option" where
  "firsts cs = Some (map First cs)"

definition sign :: regex where "sign = opt (among ''-+'')"
definition digit_or_bar :: regex where "digit_or_bar = among ''0123456789_''"
definition digits :: regex where "digits = plus digit"

definition bool_regex :: regex where
  "bool_regex = alts (map lit
     [''yes'', ''Yes'', ''YES'', ''no'', ''No'', ''NO'', ''true'', ''True'', ''TRUE'', ''false'', ''False'', ''FALSE'',
      ''on'', ''On'', ''ON'', ''off'', ''Off'', ''OFF''])"

definition exponent :: regex where
  "exponent = opt (sq [among ''eE'', among ''-+'', digits])"

definition sexagesimal :: regex where
  "sexagesimal = plus (sq [lit '':'', opt (among ''012345''), digit])"

definition float_regex :: regex where
  "float_regex = alts
     [sq [sign, digit, Star digit_or_bar, lit ''.'', Star digit_or_bar, exponent],
      sq [lit ''.'', plus digit_or_bar, exponent],
      sq [sign, digit, Star digit_or_bar, sexagesimal, lit ''.'', Star digit_or_bar],
      sq [sign, lit ''.'', alts (map lit [''inf'', ''Inf'', ''INF''])],
      sq [lit ''.'', alts (map lit [''nan'', ''NaN'', ''NAN''])]]"

definition int_regex :: regex where
  "int_regex = alts
     [sq [sign, lit ''0b'', plus (among ''01_'')],
      sq [sign, lit ''0'', plus (among ''01234567_'')],
      sq [sign, alts [lit ''0'', sq [among ''123456789'', Star digit_or_bar]]],
      sq [sign, lit ''0x'', plus (among ''0123456789abcdefABCDEF_'')],
      sq [sign, among ''123456789'', Star digit_or_bar, sexagesimal]]"

definition merge_regex :: regex where "merge_regex = lit ''<<''"

definition null_regex :: regex where
  "null_regex = alts (map lit [''~'', ''null'', ''Null'', ''NULL'', ''''])"

definition blank :: regex where "blank = among [CHR '' '', tab]"

definition one_or_two :: regex where "one_or_two = sq [digit, opt digit]"
definition two_digits :: regex where "two_digits = sq [digit, digit]"
definition four_digits :: regex where "four_digits = sq [digit, digit, digit, digit]"

definition timestamp_regex :: regex where
  "timestamp_regex = alts
     [sq [four_digits, lit ''-'', two_digits, lit ''-'', two_digits],
      sq [four_digits, lit ''-'', one_or_two, lit ''-'', one_or_two,
          alts [among ''Tt'', plus blank], one_or_two, lit '':'', two_digits, lit '':'', two_digits,
          opt (sq [lit ''.'', Star digit]),
          opt (sq [Star blank, alts [lit ''Z'', sq [among ''-+'', one_or_two, opt (sq [lit '':'', two_digits])]]])]]"

definition value_regex :: regex where "value_regex = lit ''=''"
definition yaml_regex :: regex where "yaml_regex = alts (map lit [''!'', ''&'', ''*''])"

definition resolver_table :: implicit_table where
  "resolver_table =
     add_implicit_resolver ''tag:yaml.org,2002:yaml'' yaml_regex (firsts ''!&*'')
    (add_implicit_resolver ''tag:yaml.org,2002:value'' value_regex (firsts ''='')
    (add_implicit_resolver ''tag:yaml.org,2002:timestamp'' timestamp_regex (firsts ''0123456789'')
    (add_implicit_resolver ''tag:yaml.org,2002:null'' null_regex (Some [First CHR ''~'', First CHR ''n'', First CHR ''N'', EmptyFirst])
    (add_implicit_resolver ''tag:yaml.org,2002:merge'' merge_regex (firsts ''<'')
    (add_implicit_resolver ''tag:yaml.org,2002:int'' int_regex (firsts ''-+0123456789'')
    (add_implicit_resolver ''tag:yaml.org,2002:float'' float_regex (firsts ''-+0123456789.'')
    (add_implicit_resolver ''tag:yaml.org,2002:bool'' bool_regex (firsts ''yYnNtTfFoO'') [])))))))"

definition new_resolver :: "implicit_table \<Rightarrow> (path_kind \<times> string) list \<Rightarrow> resolver" where
  "new_resolver tb paths = \<lparr>implicit_table = tb, path_table = paths, exact_stack = [], prefix_stack = []\<rparr>"

section \<open>Lemmas\<close>

lemma first_matching_append:
  "first_matching (rs @ qs) v = (case first_matching rs v of Some t \<Rightarrow> Some t | None \<Rightarrow> first_matching qs v)"
  by (induction rs v rule: first_matching.induct) auto

text \<open>Ascending undoes a descent.\<close>

lemma ascend_descend:
  "descend_resolver parent i r = (Inr (), r') \<Longrightarrow> ascend_resolver r' = (Inr (), r)"
  by (auto simp: descend_resolver_def ascend_resolver_def split: if_splits option.splits list.splits sum.splits prod.splits)

lemma resolve_frame:
  "snd (resolve kind v plain r) = r\<lparr>implicit_table := implicit_table (snd (resolve kind v plain r))\<rparr>"
  by (auto simp: resolve_def Let_def split: option.split)

lemma first_of_not_any [simp]: "first_of v \<noteq> AnyFirst"
  by (auto simp: first_of_def split: list.split)

lemma extended_get:
  "table_get (extend_in_place k tb) k' =
     (if k' = k \<and> map_of tb k \<noteq> None then table_get tb k @ table_get tb AnyFirst else table_get tb k')"
  by (auto simp: extend_in_place_def table_get_def split: option.split)

text \<open>What the table answers for a value, wildcards last; growing a list changes no answer.\<close>

definition table_answer :: "implicit_table \<Rightarrow> string \<Rightarrow> string option" where
  "table_answer tb v = first_matching (table_get tb (first_of v) @ table_get tb AnyFirst) v"

lemma table_answer_extended:
  assumes "k \<noteq> AnyFirst"
  shows "table_answer (extend_in_place k tb) v = table_answer tb v"
  using assms by (auto simp: table_answer_def extended_get first_matching_append split: option.splits)

lemma resolve_answer:
  "fst (resolve kind v plain r) =
     (case (if kind = ScalarClass \<and> plain then table_answer (implicit_table r) v else None) of
        Some tag \<Rightarrow> Inr tag | None \<Rightarrow> resolve_rest kind r)"
  by (auto simp: resolve_def table_answer_def Let_def resolve_rest_def path_tag_def split: option.split)

lemma resolve_table:
  "implicit_table (snd (resolve kind v plain r)) =
     (if kind = ScalarClass \<and> plain then extend_in_place (first_of v) (implicit_table r) else implicit_table r)"
  by (auto simp: resolve_def Let_def split: option.split)

section \<open>Integers\<close>

lemma table_get_add:
  "table_get (add_implicit_resolver tag rx (Some ks) tb) k =
     table_get tb k @ concat (map (\<lambda>k'. if k' = k then [(tag, rx)] else []) ks)"
  unfolding add_implicit_resolver_def option.case
  by (induction ks arbitrary: tb) (auto simp: table_get_def split: option.splits)

lemma table_get_Nil [simp]: "table_get [] k = []"
  by (simp add: table_get_def)

lemma first_in_chars:
  "distinct cs \<Longrightarrow> concat (map (\<lambda>k. if k = First c then [x] else []) (map First cs)) = (if c \<in> set cs then [x] else [])"
  by (induction cs) auto

lemma number_resolvers:
  assumes "c \<in> set ''-0123456789''"
  shows "\<exists>rest. table_get resolver_table (First c) =
    (''tag:yaml.org,2002:float'', float_regex) # (''tag:yaml.org,2002:int'', int_regex) # rest"
proof -
  have "c \<notin> set ''yYnNtTfFoO''" "c \<in> set ''-+0123456789.''" "c \<in> set ''-+0123456789''" using assms by auto
  moreover have "distinct ''yYnNtTfFoO''" "distinct ''-+0123456789.''" "distinct ''-+0123456789''" by simp_all
  ultimately have numbers: "table_get (add_implicit_resolver ''tag:yaml.org,2002:int'' int_regex (firsts ''-+0123456789'')
      (add_implicit_resolver ''tag:yaml.org,2002:float'' float_regex (firsts ''-+0123456789.'')
      (add_implicit_resolver ''tag:yaml.org,2002:bool'' bool_regex (firsts ''yYnNtTfFoO'') []))) (First c) =
      [(''tag:yaml.org,2002:float'', float_regex), (''tag:yaml.org,2002:int'', int_regex)]"
    by (simp only: firsts_def table_get_add first_in_chars if_True if_False table_get_Nil append_Nil append_Cons)
  have more: "\<exists>rest. table_get (add_implicit_resolver tag rx (Some ks) tb) k = xs @ rest"
    if "\<exists>rest. table_get tb k = xs @ rest" for tag rx ks tb k xs
    using that by (auto simp: table_get_add)
  have "\<exists>rest. table_get resolver_table (First c) =
    [(''tag:yaml.org,2002:float'', float_regex), (''tag:yaml.org,2002:int'', int_regex)] @ rest"
    unfolding resolver_table_def firsts_def
    by (rule more, rule more, rule more, rule more, rule more, rule exI [of _ "[]"])
      (simp only: numbers [unfolded firsts_def] append_Nil2)
  then show ?thesis by simp
qed

lemma lang_sq_mem: "lang (sq rs) s \<Longrightarrow> lit [c] \<in> set rs \<Longrightarrow> c \<in> set s"
  by (induction rs arbitrary: s) auto

lemma float_has_point:
  assumes "lang float_regex s"
  shows "CHR ''.'' \<in> set s"
  using assms unfolding float_regex_def lang_alts
  by (elim bexE) (auto dest!: lang_sq_mem [where c = "CHR ''.''"] simp del: lang_sq_Cons)

lemma digit_chars:
  "digit_char 0 = CHR ''0''" "digit_char 1 = CHR ''1''" "digit_char 2 = CHR ''2''" "digit_char 3 = CHR ''3''"
  "digit_char 4 = CHR ''4''" "digit_char 5 = CHR ''5''" "digit_char 6 = CHR ''6''" "digit_char 7 = CHR ''7''"
  "digit_char 8 = CHR ''8''" "digit_char 9 = CHR ''9''"
  by code_simp+

lemma below_ten: "d < 10 \<Longrightarrow> d = 0 \<or> d = 1 \<or> d = 2 \<or> d = 3 \<or> d = 4 \<or> d = 5 \<or> d = 6 \<or> d = 7 \<or> d = 8 \<or> d = (9::nat)"
  by arith

lemma digit_char_mem: "d < 10 \<Longrightarrow> digit_char d \<in> set ''0123456789''"
  by (drule below_ten) (elim disjE; simp add: digit_chars del: One_nat_def)

lemma digit_char_lead: "0 < d \<Longrightarrow> d < 10 \<Longrightarrow> digit_char d \<in> set ''123456789''"
  by (drule below_ten) (elim disjE; simp add: digit_chars del: One_nat_def)

lemma is_digit_mem: "is_digit c \<Longrightarrow> c \<in> set ''0123456789''"
proof -
  assume c: "is_digit c"
  then have "ord c - 48 < (10::nat)" unfolding is_digit_def by linarith
  moreover have "digit_char (ord c - 48) = c" using c by (simp add: is_digit_def digit_char_def)
  ultimately show ?thesis using digit_char_mem [of "ord c - 48"] by simp
qed

lemma show_nat_lead:
  "0 < n \<Longrightarrow> \<exists>c cs. show_nat n = c # cs \<and> c \<in> set ''123456789'' \<and> list_all is_digit cs"
proof (induction n rule: show_nat.induct)
  case (1 n)
  show ?case
  proof (cases "n < 10")
    case True
    then have "show_nat n = digit_char n # []" by (simp add: show_nat.simps [of n])
    moreover have "list_all is_digit []" by simp
    ultimately show ?thesis using digit_char_lead [OF "1.prems" True] by blast
  next
    case False
    then have "0 < n div 10" by simp
    from "1.IH" [OF False this] obtain c cs where "show_nat (n div 10) = c # cs" "c \<in> set ''123456789''"
      "list_all is_digit cs" by blast
    moreover from this False have "show_nat n = c # (cs @ [digit_char (n mod 10)])" by (simp add: show_nat.simps [of n])
    moreover have "list_all is_digit (cs @ [digit_char (n mod 10)])" using \<open>list_all is_digit cs\<close> by simp
    ultimately show ?thesis by blast
  qed
qed

lemma lang_sq_pair: "lang r u \<Longrightarrow> lang q v \<Longrightarrow> lang (sq [r, q]) (u @ v)"
  by (auto simp: sq_def)

lemma show_nat_int: "lang (alts [lit ''0'', sq [among ''123456789'', Star digit_or_bar]]) (show_nat n)"
proof (cases "n = 0")
  case True
  then have "show_nat n = ''0''" by (simp add: show_nat.simps [of 0] digit_chars)
  then show ?thesis by (simp add: lang_lit)
next
  case False
  with show_nat_lead [of n] obtain c cs where s: "show_nat n = c # cs" "c \<in> set ''123456789''"
    "list_all is_digit cs" by blast
  have "\<forall>d \<in> set cs. d \<in> set ''0123456789_''" using s(3) is_digit_mem by (fastforce simp: list_all_iff)
  then have "lang (Star digit_or_bar) cs" unfolding digit_or_bar_def by (intro lang_Star_all) (simp only: lang_among, blast)
  moreover have "lang (among ''123456789'') [c]" using s(2) by (simp only: lang_among) blast
  ultimately have "lang (sq [among ''123456789'', Star digit_or_bar]) ([c] @ cs)" by (intro lang_sq_pair)
  then show ?thesis unfolding lang_alts using s(1) by (intro bexI [of _ "sq [among ''123456789'', Star digit_or_bar]"]) simp_all
qed

lemma show_int_lang: "lang int_regex (show_int i)"
proof -
  have "lang sign ''-''" "lang sign []" by (simp_all add: sign_def)
  then have "lang (sq [sign, alts [lit ''0'', sq [among ''123456789'', Star digit_or_bar]]]) (show_int i)"
    using lang_sq_pair [of sign "''-''"] lang_sq_pair [of sign "[]"] show_nat_int by (simp only: show_int_def append_Nil split: if_split) blast
  then show ?thesis unfolding int_regex_def lang_alts
    by (intro bexI [of _ "sq [sign, alts [lit ''0'', sq [among ''123456789'', Star digit_or_bar]]]"]) simp_all
qed

lemma show_int_chars: "c \<in> set (show_int i) \<Longrightarrow> is_digit c \<or> c = CHR ''-''"
  using show_nat_digits by (auto simp: show_int_def split: if_splits)

section \<open>Properties of the resolver\<close>

text \<open>
  C27. \<open>resolve\<close> extends the lists of the class in place, but the tags it answers never change
  through that: after any resolution every value has the tag it had before.
\<close>

theorem resolve_stable:
  "fst (resolve kind v plain (snd (resolve kind' v' plain' r))) = fst (resolve kind v plain r)"
proof -
  let ?r = "snd (resolve kind' v' plain' r)"
  have "table_answer (implicit_table ?r) v = table_answer (implicit_table r) v"
    by (simp add: resolve_table table_answer_extended)
  moreover have "resolve_rest kind ?r = resolve_rest kind r"
    by (subst resolve_frame) (simp add: resolve_rest_def path_tag_def)
  ultimately show ?thesis by (simp only: resolve_answer)
qed

text \<open>With a resolver for any first character, the list of a value's first character grows each time.\<close>

lemma resolve_grows:
  assumes "map_of (implicit_table r) (first_of v) = Some rs"
  shows "map_of (implicit_table (snd (resolve ScalarClass v True r))) (first_of v) =
    Some (rs @ table_get (implicit_table r) AnyFirst)"
  using assms by (simp add: resolve_table extend_in_place_def)

text \<open>
  An integer written in decimal resolves to the tag of integers, however large it is and
  whatever its sign.
\<close>

theorem resolve_int:
  "fst (resolve ScalarClass (show_int i) True (new_resolver resolver_table paths)) = Inr ''tag:yaml.org,2002:int''"
proof -
  obtain c cs where s: "show_int i = c # cs" by (cases "show_int i") (auto simp: show_int_def split: if_splits)
  have "c \<in> set ''-0123456789''" using show_int_chars [of c i] s is_digit_mem [of c] by auto
  with number_resolvers obtain rest where tb: "table_get resolver_table (First c) =
    (''tag:yaml.org,2002:float'', float_regex) # (''tag:yaml.org,2002:int'', int_regex) # rest" by blast
  have "CHR ''.'' \<notin> set (show_int i)" using show_int_chars by (fastforce simp: is_digit_def)
  then have "\<not> re_match float_regex (show_int i)"
    using float_has_point in_set_butlastD by (fastforce simp: re_match_def full_match_lang)
  moreover have "re_match int_regex (show_int i)"
    by (simp add: re_match_def full_match_lang show_int_lang)
  ultimately show ?thesis
    by (simp add: resolve_answer table_answer_def new_resolver_def tb s first_of_def)
qed

end
