(* ===== verification/Py_Loops.thy ===== *)
theory Py_Loops
  imports Py_Prelude
begin

text \<open>
  Actions that may not return: a state-passing action of \<open>Py_Prelude\<close> under an option, where
  \<open>None\<close> is a run that does not end (or, where a model has fuel, one that ran out of it).
  \<open>ploop\<close> is a loop with its local variables; \<open>runs\<close> is total correctness, so that proving a
  postcondition proves that the run ends.
\<close>

type_synonym ('s, 'e, 'a) pact = "'s \<Rightarrow> (('e + 'a) \<times> 's) option"

definition pbind :: "('s, 'e, 'a) pact \<Rightarrow> ('a \<Rightarrow> ('s, 'e, 'b) pact) \<Rightarrow> ('s, 'e, 'b) pact" where
  "pbind m f s =
     (case m s of None \<Rightarrow> None | Some (Inl e, s') \<Rightarrow> Some (Inl e, s') | Some (Inr x, s') \<Rightarrow> f x s')"

definition run :: "('s, 'e, 'a) act \<Rightarrow> ('s, 'e, 'a) pact" where
  "run m s = Some (m s)"

definition pret :: "'a \<Rightarrow> ('s, 'e, 'a) pact" where
  "pret x s = Some (Inr x, s)"

definition pthrow :: "'e \<Rightarrow> ('s, 'e, 'a) pact" where
  "pthrow e s = Some (Inl e, s)"

definition pgets :: "('s \<Rightarrow> 'a) \<Rightarrow> ('s, 'e, 'a) pact" where
  "pgets f s = Some (Inr (f s), s)"

definition pmodify :: "('s \<Rightarrow> 's) \<Rightarrow> ('s, 'e, unit) pact" where
  "pmodify f s = Some (Inr (), f s)"

text \<open>\<open>while True\<close>: the body continues with new local variables (\<open>Inl\<close>) or leaves with a result.\<close>

partial_function (option) ploop :: "('a \<Rightarrow> ('s, 'e, 'a + 'b) pact) \<Rightarrow> 'a \<Rightarrow> ('s, 'e, 'b) pact" where
  "ploop body x s =
     (case body x s of
        None \<Rightarrow> None
      | Some (Inl e, s') \<Rightarrow> Some (Inl e, s')
      | Some (Inr (Inl y), s') \<Rightarrow> ploop body y s'
      | Some (Inr (Inr z), s') \<Rightarrow> Some (Inr z, s'))"

declare ploop.simps [code]

definition again :: "'a \<Rightarrow> ('s, 'e, 'a + 'b) pact" where
  "again x = pret (Inl x)"

definition leave :: "'b \<Rightarrow> ('s, 'e, 'a + 'b) pact" where
  "leave x = pret (Inr x)"

text \<open>\<open>while c: b\<close> without local variables.\<close>

definition pwhile :: "('s, 'e, bool) pact \<Rightarrow> ('s, 'e, unit) pact \<Rightarrow> ('s, 'e, unit) pact" where
  "pwhile c b = ploop (\<lambda>_. pbind c (\<lambda>go. if go then pbind b (\<lambda>_. again ()) else leave ())) ()"

text \<open>\<open>for x in xs: f(x)\<close>, and \<open>[f(x) for x in xs]\<close>.\<close>

primrec peach :: "('a \<Rightarrow> ('s, 'e, unit) pact) \<Rightarrow> 'a list \<Rightarrow> ('s, 'e, unit) pact" where
  "peach f [] = pret ()"
| "peach f (x # xs) = pbind (f x) (\<lambda>_. peach f xs)"

primrec pcollect :: "('a \<Rightarrow> ('s, 'e, 'b) pact) \<Rightarrow> 'a list \<Rightarrow> ('s, 'e, 'b list) pact" where
  "pcollect f [] = pret []"
| "pcollect f (x # xs) = pbind (f x) (\<lambda>y. pbind (pcollect f xs) (\<lambda>ys. pret (y # ys)))"

section \<open>Total correctness\<close>

definition runs :: "('s, 'e, 'a) pact \<Rightarrow> 's \<Rightarrow> ('a \<Rightarrow> 's \<Rightarrow> bool) \<Rightarrow> ('e \<Rightarrow> 's \<Rightarrow> bool) \<Rightarrow> bool" where
  "runs m s Q R = (case m s of None \<Rightarrow> False | Some (Inr x, s') \<Rightarrow> Q x s' | Some (Inl e, s') \<Rightarrow> R e s')"

named_theorems runs_rules

lemma runs_pret [runs_rules]: "Q x s \<Longrightarrow> runs (pret x) s Q R"
  by (simp add: runs_def pret_def)

lemma runs_again [runs_rules]: "Q (Inl x) s \<Longrightarrow> runs (again x) s Q R"
  by (simp add: again_def runs_pret)

lemma runs_leave [runs_rules]: "Q (Inr x) s \<Longrightarrow> runs (leave x) s Q R"
  by (simp add: leave_def runs_pret)

lemma runs_pthrow [runs_rules]: "R e s \<Longrightarrow> runs (pthrow e) s Q R"
  by (simp add: runs_def pthrow_def)

lemma runs_pgets [runs_rules]: "Q (f s) s \<Longrightarrow> runs (pgets f) s Q R"
  by (simp add: runs_def pgets_def)

lemma runs_pmodify [runs_rules]: "Q () (f s) \<Longrightarrow> runs (pmodify f) s Q R"
  by (simp add: runs_def pmodify_def)

lemma runs_pbind: "runs m s (\<lambda>x s'. runs (f x) s' Q R) R \<Longrightarrow> runs (pbind m f) s Q R"
  by (auto simp: runs_def pbind_def split: option.splits sum.splits)

lemma runs_conseq:
  "runs m s Q R \<Longrightarrow> (\<And>x s'. Q x s' \<Longrightarrow> Q' x s') \<Longrightarrow> (\<And>e s'. R e s' \<Longrightarrow> R' e s') \<Longrightarrow> runs m s Q' R'"
  by (auto simp: runs_def split: option.splits sum.splits)

lemma runs_pbind_seq:
  "runs m s M R \<Longrightarrow> (\<And>x s'. M x s' \<Longrightarrow> runs (f x) s' Q R) \<Longrightarrow> runs (pbind m f) s Q R"
  by (rule runs_pbind) (rule runs_conseq)

lemma runs_if [runs_rules]:
  "(b \<Longrightarrow> runs m s Q R) \<Longrightarrow> (\<not> b \<Longrightarrow> runs m' s Q R) \<Longrightarrow> runs (if b then m else m') s Q R"
  by simp

lemma runs_returns: "runs m s Q R \<Longrightarrow> m s \<noteq> None"
  by (auto simp: runs_def split: option.splits)

lemma runs_Inr: "runs m s Q R \<Longrightarrow> m s = Some (Inr x, s') \<Longrightarrow> Q x s'"
  by (simp add: runs_def)

lemma runs_Inl: "runs m s Q R \<Longrightarrow> m s = Some (Inl e, s') \<Longrightarrow> R e s'"
  by (simp add: runs_def)

lemma runs_sure:
  assumes "runs m s Q (\<lambda>_ _. False)"
  shows "\<exists>x t. m s = Some (Inr x, t) \<and> Q x t"
proof -
  from assms obtain a t where a: "m s = Some (a, t)" by (cases "m s") (auto simp: runs_def)
  then show ?thesis using assms by (cases a) (auto simp: runs_def)
qed

text \<open>
  The rule of the loop: an invariant, and a well-founded relation (or a measure) that every
  turn goes down.
\<close>

lemma runs_ploop_wf:
  assumes wf: "wf W" and body: "\<And>x s. I x s \<Longrightarrow>
    runs (body x) s (\<lambda>r s'. case r of Inl y \<Rightarrow> I y s' \<and> ((y, s'), (x, s)) \<in> W | Inr z \<Rightarrow> Q z s') R"
  shows "I x s \<Longrightarrow> runs (ploop body x) s Q R"
proof (induction "(x, s)" arbitrary: x s rule: wf_induct_rule [OF wf])
  case (1 x s)
  note step = body [OF 1(2)]
  show ?case
  proof (cases "body x s")
    case None
    with step show ?thesis by (simp add: runs_def)
  next
    case (Some p)
    obtain r s' where p: "p = (r, s')" by (cases p)
    consider e where "r = Inl e" | y where "r = Inr (Inl y)" | z where "r = Inr (Inr z)"
      by (metis sum.exhaust)
    then show ?thesis
    proof cases
      case 2
      with step Some p have "I y s'" "((y, s'), (x, s)) \<in> W" by (simp_all add: runs_def)
      then have "runs (ploop body y) s' Q R" by (intro 1(1))
      then show ?thesis using Some p 2 by (simp add: runs_def ploop.simps [of body x])
    qed (use step Some p in \<open>simp_all add: runs_def ploop.simps [of body x]\<close>)
  qed
qed

lemma runs_ploop:
  fixes m :: "'a \<Rightarrow> 's \<Rightarrow> nat"
  assumes "\<And>x s. I x s \<Longrightarrow>
    runs (body x) s (\<lambda>r s'. case r of Inl y \<Rightarrow> I y s' \<and> m y s' < m x s | Inr z \<Rightarrow> Q z s') R"
  shows "I x s \<Longrightarrow> runs (ploop body x) s Q R"
  by (rule runs_ploop_wf [where W = "measure (\<lambda>(x, s). m x s)" and I = I])
     (simp, simp only: in_measure case_prod_conv, erule assms)

lemma runs_pwhile:
  fixes m :: "'s \<Rightarrow> nat"
  assumes "\<And>s. I s \<Longrightarrow>
    runs c s (\<lambda>go s'. if go then runs b s' (\<lambda>_ s''. I s'' \<and> m s'' < m s) R else Q () s') R"
  shows "I s \<Longrightarrow> runs (pwhile c b) s Q R"
  unfolding pwhile_def
  apply (rule runs_ploop [where I = "\<lambda>_. I" and m = "\<lambda>_. m"])
   apply (rule runs_pbind)
   apply (rule runs_conseq [OF assms], assumption)
    apply (auto intro!: runs_rules runs_pbind intro: runs_conseq split: if_splits)
  done

section \<open>Partial correctness\<close>

text \<open>What holds of a run that returns; an exception or a run that does not end says nothing.\<close>

definition ensures :: "('s, 'e, 'a) pact \<Rightarrow> 's \<Rightarrow> ('a \<Rightarrow> 's \<Rightarrow> bool) \<Rightarrow> bool" where
  "ensures m s Q = (\<forall>x s'. m s = Some (Inr x, s') \<longrightarrow> Q x s')"

lemma ensures_pret: "Q x s \<Longrightarrow> ensures (pret x) s Q"
  by (simp add: ensures_def pret_def)

lemma ensures_pthrow: "ensures (pthrow e) s Q"
  by (simp add: ensures_def pthrow_def)

lemma ensures_pgets: "Q (f s) s \<Longrightarrow> ensures (pgets f) s Q"
  by (simp add: ensures_def pgets_def)

lemma ensures_pmodify: "Q () (f s) \<Longrightarrow> ensures (pmodify f) s Q"
  by (simp add: ensures_def pmodify_def)

lemma ensures_pbind: "ensures m s (\<lambda>x s'. ensures (f x) s' Q) \<Longrightarrow> ensures (pbind m f) s Q"
  by (auto simp: ensures_def pbind_def split: option.splits sum.splits)

lemma ensures_conseq: "ensures m s Q \<Longrightarrow> (\<And>x s'. Q x s' \<Longrightarrow> Q' x s') \<Longrightarrow> ensures m s Q'"
  by (auto simp: ensures_def)

lemma ensures_seq: "ensures m s M \<Longrightarrow> (\<And>x s'. M x s' \<Longrightarrow> ensures (f x) s' Q) \<Longrightarrow> ensures (pbind m f) s Q"
  by (rule ensures_pbind) (rule ensures_conseq)

lemma ensures_if: "(b \<Longrightarrow> ensures m s Q) \<Longrightarrow> (\<not> b \<Longrightarrow> ensures m' s Q) \<Longrightarrow> ensures (if b then m else m') s Q"
  by simp

lemma ploop_induct:
  assumes "ploop b x s = Some r"
    and "\<And>rec b x s r. (\<And>b x s y. rec b x s = Some y \<Longrightarrow> P b x s y) \<Longrightarrow>
      (case b x s of None \<Rightarrow> None | Some (Inl e, s') \<Rightarrow> Some (Inl e, s')
        | Some (Inr (Inl y), s') \<Rightarrow> rec b y s' | Some (Inr (Inr z), s') \<Rightarrow> Some (Inr z, s')) = Some r \<Longrightarrow> P b x s r"
  shows "P b x s r"
  by (rule ploop.raw_induct [of P "((b, x), s)" r, unfolded prod.case]) (erule assms(2), assumption, rule assms(1))

lemma ensures_ploop:
  assumes body: "\<And>x s. I x s \<Longrightarrow> ensures (body x) s (\<lambda>r s'. case r of Inl y \<Rightarrow> I y s' | Inr z \<Rightarrow> Q z s')"
    and "I x s"
  shows "ensures (ploop body x) s Q"
proof -
  let ?P = "\<lambda>b x s r. b = body \<longrightarrow> I x s \<longrightarrow> (case r of (Inr z, t) \<Rightarrow> Q z t | (Inl e, t) \<Rightarrow> True)"
  have "?P body x s r" if "ploop body x s = Some r" for r
    using that
  proof (rule ploop_induct [where P = ?P])
    fix rec b x s r
    assume IH: "\<And>b x s y. rec b x s = Some y \<Longrightarrow> ?P b x s y"
      and step: "(case b x s of None \<Rightarrow> None | Some (Inl e, s') \<Rightarrow> Some (Inl e, s')
        | Some (Inr (Inl y), s') \<Rightarrow> rec b y s' | Some (Inr (Inr z), s') \<Rightarrow> Some (Inr z, s')) = Some r"
    show "?P b x s r"
    proof (intro impI)
      assume b: "b = body" and I: "I x s"
      have "ensures (body x) s (\<lambda>r s'. case r of Inl y \<Rightarrow> I y s' | Inr z \<Rightarrow> Q z s')" using I by (rule body)
      with IH step b show "case r of (Inr z, t) \<Rightarrow> Q z t | (Inl e, t) \<Rightarrow> True"
        by (fastforce simp: ensures_def split: option.splits sum.splits prod.splits)
    qed
  qed
  then show ?thesis using assms(2) by (fastforce simp: ensures_def)
qed

lemma ensures_pwhile:
  assumes "\<And>s. I s \<Longrightarrow> ensures c s (\<lambda>go s'. if go then ensures b s' (\<lambda>_ s''. I s'') else Q () s')" and "I s"
  shows "ensures (pwhile c b) s Q"
  unfolding pwhile_def
proof (rule ensures_ploop [where I = "\<lambda>_. I"])
  fix s assume "I s"
  then show "ensures (pbind c (\<lambda>go. if go then pbind b (\<lambda>_. again ()) else leave ())) s
      (\<lambda>r s'. case r of Inl y \<Rightarrow> I s' | Inr z \<Rightarrow> Q z s')"
    by (intro ensures_seq [OF assms(1)])
       (auto simp: again_def leave_def intro!: ensures_pret ensures_pbind elim: ensures_conseq split: if_splits)
qed (rule assms(2))

section \<open>Recursion through sequences and loops\<close>

text \<open>
  A function that calls itself from inside a sequence or a loop is a
  \<^theory_text>\<open>partial_function\<close> too: sequencing and loops are monotone in the calls they make.
\<close>

lemma pbind_mono [partial_function_mono]:
  fixes m :: "('a \<Rightarrow> 'b option) \<Rightarrow> ('s, 'e, 'c) pact"
  assumes "mono_option (\<lambda>f. m f s)" and "\<And>x t. mono_option (\<lambda>f. g f x t)"
  shows "mono_option (\<lambda>f. pbind (m f) (g f) s)"
proof (rule monotoneI)
  fix f f' :: "'a \<Rightarrow> 'b option"
  assume le: "fun_ord option_ord f f'"
  have "option_ord (m f s) (m f' s)" using assms(1) le unfolding monotone_on_def by blast
  moreover have "option_ord (g f x t) (g f' x t)" for x t
    using assms(2) [of x t] le unfolding monotone_on_def by blast
  ultimately show "option_ord (pbind (m f) (g f) s) (pbind (m f') (g f') s)"
    unfolding flat_ord_def pbind_def by (cases "m f' s") (auto split: sum.split, metis)
qed

lemma peach_mono [partial_function_mono]:
  assumes "\<And>x t. mono_option (\<lambda>f. g f x t)"
  shows "mono_option (\<lambda>f. peach (g f) xs s)"
  by (induction xs arbitrary: s) (auto intro!: pbind_mono assms simp: pret_def option.const_mono)

lemma pcollect_mono [partial_function_mono]:
  assumes "\<And>x t. mono_option (\<lambda>f. g f x t)"
  shows "mono_option (\<lambda>f. pcollect (g f) xs s)"
  by (induction xs arbitrary: s) (auto intro!: pbind_mono assms simp: pret_def option.const_mono)

lemma if_act_mono [partial_function_mono]:
  "mono_option (\<lambda>f. m f s) \<Longrightarrow> mono_option (\<lambda>f. m' f s) \<Longrightarrow> mono_option (\<lambda>f. (if b then m f else m' f) s)"
  by (cases b) simp_all

lemma ploop_less:
  assumes "ploop b x s = Some r" and less: "\<And>x s y. b x s = Some y \<Longrightarrow> b' x s = Some y"
  shows "ploop b' x s = Some r"
proof -
  have "(\<forall>x s y. b x s = Some y \<longrightarrow> b' x s = Some y) \<longrightarrow> ploop b' x s = Some r"
    using assms(1)
  proof (rule ploop_induct)
    fix rec b x s r
    assume IH: "\<And>b x s y. rec b x s = Some y \<Longrightarrow> (\<forall>x s y. b x s = Some y \<longrightarrow> b' x s = Some y) \<longrightarrow> ploop b' x s = Some y"
      and step: "(case b x s of None \<Rightarrow> None | Some (Inl e, s') \<Rightarrow> Some (Inl e, s')
        | Some (Inr (Inl y), s') \<Rightarrow> rec b y s' | Some (Inr (Inr z), s') \<Rightarrow> Some (Inr z, s')) = Some r"
    show "(\<forall>x s y. b x s = Some y \<longrightarrow> b' x s = Some y) \<longrightarrow> ploop b' x s = Some r"
    proof
      assume less: "\<forall>x s y. b x s = Some y \<longrightarrow> b' x s = Some y"
      obtain q t where q: "b x s = Some (q, t)" using step by (auto split: option.splits)
      then have "b' x s = Some (q, t)" using less by blast
      with q step IH less show "ploop b' x s = Some r"
        by (subst ploop.simps) (auto split: sum.splits)
    qed
  qed
  then show ?thesis using less by blast
qed

lemma ploop_mono [partial_function_mono]:
  fixes g :: "('a \<Rightarrow> 'b option) \<Rightarrow> 'x \<Rightarrow> ('s, 'e, 'x + 'y) pact"
  assumes "\<And>x t. mono_option (\<lambda>f. g f x t)"
  shows "mono_option (\<lambda>f. ploop (g f) x s)"
proof (rule monotoneI)
  fix f f' :: "'a \<Rightarrow> 'b option"
  assume le: "fun_ord option_ord f f'"
  have less: "g f' x t = Some y" if "g f x t = Some y" for x t y
    using assms [of x t] le that unfolding monotone_on_def flat_ord_def by fastforce
  show "option_ord (ploop (g f) x s) (ploop (g f') x s)"
    unfolding flat_ord_def
  proof (cases "ploop (g f) x s")
    case (Some r)
    then show "ploop (g f) x s = None \<or> ploop (g f) x s = ploop (g f') x s"
      using ploop_less [OF Some] less by simp
  qed simp
qed

end
