(* ===== verification/Yaml_Compose.thy ===== *)
theory Yaml_Compose
  imports Yaml_Resolver Py_Json Py_Loops
begin

text \<open>
  The composer of the bundled YAML library (\<open>yaml/composer.py\<close>), which builds a graph of
  nodes from events.  Events come as the list of what \<open>peek_event\<close> would answer, an error where it
  raises.  Nodes are allocated in a list and never move; an alias is a second reference.
\<close>

section \<open>The state of the composer\<close>

record composer =
  c_events :: "(yaml_error + event) list"
  c_anchors :: "(string \<times> node_ref) list"
  c_nodes :: "node list"
  c_resolver :: resolver

definition peek_event :: "(composer, yaml_error, event option) act" where
  "peek_event c = (case c_events c of [] \<Rightarrow> (Inr None, c) | Inl e # _ \<Rightarrow> (Inl e, c) | Inr e # _ \<Rightarrow> (Inr (Some e), c))"

definition get_event :: "(composer, yaml_error, event option) act" where
  "get_event c = (case c_events c of [] \<Rightarrow> (Inr None, c) | Inl e # _ \<Rightarrow> (Inl e, c)
     | Inr e # es \<Rightarrow> (Inr (Some e), c\<lparr>c_events := es\<rparr>))"

definition check_event :: "(event_kind \<Rightarrow> bool) \<Rightarrow> (composer, yaml_error, bool) act" where
  "check_event p = sbind peek_event (\<lambda>e. ret (case e of None \<Rightarrow> False | Some e \<Rightarrow> p (ev e)))"

definition ev_attr :: "event option \<Rightarrow> (event \<Rightarrow> 'a) \<Rightarrow> (composer, yaml_error, 'a) act" where
  "ev_attr e f = lift_res (of_option (Raised AttributeError) (map_option f e))"

fun is_alias :: "event_kind \<Rightarrow> bool" where
  "is_alias (AliasEvent _) = True" | "is_alias _ = False"

fun is_scalar :: "event_kind \<Rightarrow> bool" where
  "is_scalar (ScalarEvent _ _ _ _ _) = True" | "is_scalar _ = False"

fun is_sequence :: "event_kind \<Rightarrow> bool" where
  "is_sequence (SequenceStartEvent _ _ _ _) = True" | "is_sequence _ = False"

fun is_mapping :: "event_kind \<Rightarrow> bool" where
  "is_mapping (MappingStartEvent _ _ _ _) = True" | "is_mapping _ = False"

fun is_stream_start :: "event_kind \<Rightarrow> bool" where
  "is_stream_start (StreamStartEvent _) = True" | "is_stream_start _ = False"

text \<open>\<open>event.anchor\<close>, which only node events have.\<close>

fun anchor_of :: "event_kind \<Rightarrow> yaml_error + string option" where
  "anchor_of (AliasEvent a) = Inr a"
| "anchor_of (ScalarEvent a _ _ _ _) = Inr a"
| "anchor_of (SequenceStartEvent a _ _ _) = Inr a"
| "anchor_of (MappingStartEvent a _ _ _) = Inr a"
| "anchor_of _ = Inl (Raised AttributeError)"

definition on_resolver :: "(resolver, yaml_error, 'a) act \<Rightarrow> (composer, yaml_error, 'a) act" where
  "on_resolver m c = (case m (c_resolver c) of (r, q) \<Rightarrow> (r, c\<lparr>c_resolver := q\<rparr>))"

definition event_tag :: "node_class \<Rightarrow> string option \<Rightarrow> string \<Rightarrow> bool \<Rightarrow> (composer, yaml_error, string) act" where
  "event_tag k tag v plain =
     (case tag of
        None \<Rightarrow> on_resolver (resolve k v plain)
      | Some t \<Rightarrow> if t = ''!'' then on_resolver (resolve k v plain) else ret t)"

definition new_node :: "node \<Rightarrow> (composer, yaml_error, node_ref) act" where
  "new_node n c = (Inr (length (c_nodes c)), c\<lparr>c_nodes := c_nodes c @ [n]\<rparr>)"

definition set_anchor :: "string option \<Rightarrow> node_ref \<Rightarrow> (composer, yaml_error, unit) act" where
  "set_anchor a r = modify (\<lambda>c. case a of None \<Rightarrow> c | Some x \<Rightarrow> c\<lparr>c_anchors := dict_set (c_anchors c) x r\<rparr>)"

definition update_node :: "node_ref \<Rightarrow> (node \<Rightarrow> node) \<Rightarrow> (composer, yaml_error, unit) act" where
  "update_node r f = modify (\<lambda>c. c\<lparr>c_nodes := (c_nodes c)[r := f (c_nodes c ! r)]\<rparr>)"

fun add_item :: "node_ref \<Rightarrow> node_value \<Rightarrow> node_value" where
  "add_item i (SequenceNode xs fl) = SequenceNode (xs @ [i]) fl" | "add_item i v = v"

fun add_pair :: "node_ref \<Rightarrow> node_ref \<Rightarrow> node_value \<Rightarrow> node_value" where
  "add_pair k i (MappingNode xs fl) = MappingNode (xs @ [(k, i)]) fl" | "add_pair k i v = v"

section \<open>Composing a node\<close>

definition composer_error :: "string option \<Rightarrow> mark option \<Rightarrow> string \<Rightarrow> mark option \<Rightarrow> yaml_error" where
  "composer_error c cm pr pm = ComposerError \<lparr>err_context = c, err_context_mark = cm,
     err_problem = Some pr, err_problem_mark = pm, err_note = None\<rparr>"

definition repr_anchor :: "string option \<Rightarrow> string" where
  "repr_anchor a = (case a of None \<Rightarrow> ''None'' | Some s \<Rightarrow> repr_string s)"

definition anchor_lookup :: "string option \<Rightarrow> composer \<Rightarrow> node_ref option" where
  "anchor_lookup a c = (case a of None \<Rightarrow> None | Some s \<Rightarrow> map_of (c_anchors c) s)"

definition compose_alias :: "(composer, yaml_error, node_ref) act" where
  "compose_alias =
     sbind get_event (\<lambda>e. sbind (ev_attr e id) (\<lambda>e. sbind (lift_res (anchor_of (ev e))) (\<lambda>a.
     sbind (gets (anchor_lookup a)) (\<lambda>r. case r of
         None \<Rightarrow> throw (composer_error None None (''found undefined alias '' @ repr_anchor a) (ev_start e))
       | Some r \<Rightarrow> ret r))))"

definition check_anchor :: "event \<Rightarrow> string option \<Rightarrow> (composer, yaml_error, unit) act" where
  "check_anchor e a =
     sbind (gets (\<lambda>c. map_option (\<lambda>r. node_start (c_nodes c ! r)) (anchor_lookup a c))) (\<lambda>first.
       case first of
         None \<Rightarrow> ret ()
       | Some m \<Rightarrow> throw (ComposerError \<lparr>err_context = Some (''found duplicate anchor '' @ repr_anchor a @ ''; first occurence''),
           err_context_mark = m, err_problem = Some ''second occurence'', err_problem_mark = ev_start e, err_note = None\<rparr>))"

definition compose_scalar_node :: "string option \<Rightarrow> (composer, yaml_error, node_ref) act" where
  "compose_scalar_node a =
     sbind get_event (\<lambda>e. sbind (ev_attr e id) (\<lambda>e. case ev e of
         ScalarEvent _ tag imp v style \<Rightarrow>
           sbind (event_tag ScalarClass tag v (fst imp)) (\<lambda>tag.
           sbind (new_node \<lparr>node_tag = tag, node_value = ScalarNode v style, node_start = ev_start e, node_end = ev_end e\<rparr>) (\<lambda>r.
           sbind (set_anchor a r) (\<lambda>_. ret r)))
       | _ \<Rightarrow> throw (Raised AttributeError)))"

text \<open>The start of a collection: the node is made empty, and known under its anchor before its items are.\<close>

definition open_collection :: "string option \<Rightarrow> (composer, yaml_error, node_ref) act" where
  "open_collection a =
     sbind get_event (\<lambda>e. sbind (ev_attr e id) (\<lambda>e.
     sbind (case ev e of
         SequenceStartEvent _ tag _ fl \<Rightarrow> sbind (event_tag SequenceClass tag [] False) (\<lambda>t. ret (t, SequenceNode [] fl))
       | MappingStartEvent _ tag _ fl \<Rightarrow> sbind (event_tag MappingClass tag [] False) (\<lambda>t. ret (t, MappingNode [] fl))
       | _ \<Rightarrow> throw (Raised AttributeError)) (\<lambda>(t, v).
     sbind (new_node \<lparr>node_tag = t, node_value = v, node_start = ev_start e, node_end = None\<rparr>) (\<lambda>r.
     sbind (set_anchor a r) (\<lambda>_. ret r)))))"

definition close_collection :: "node_ref \<Rightarrow> (composer, yaml_error, unit) act" where
  "close_collection r =
     sbind get_event (\<lambda>e. sbind (ev_attr e ev_end) (\<lambda>m. update_node r (\<lambda>n. n\<lparr>node_end := m\<rparr>)))"

text \<open>The recursion.  The index of a child is its number, its key, or nothing for a key.\<close>

type_synonym 'a compose = "(composer, yaml_error, 'a) pact"

datatype child_index = NoChild | Nth nat | Keyed node_ref

definition child_at :: "child_index \<Rightarrow> node list \<Rightarrow> current_index" where
  "child_at i g = (case i of NoChild \<Rightarrow> NoneIndex | Nth n \<Rightarrow> AtNumber n | Keyed r \<Rightarrow> AtKey (g ! r))"

definition descend :: "node_ref option \<Rightarrow> child_index \<Rightarrow> (composer, yaml_error, unit) act" where
  "descend parent i c = on_resolver (descend_resolver (map_option (\<lambda>r. c_nodes c ! r) parent) (child_at i (c_nodes c))) c"

definition append_item :: "node_ref \<Rightarrow> node_ref \<Rightarrow> (composer, yaml_error, unit) act" where
  "append_item r i = update_node r (\<lambda>x. x\<lparr>node_value := add_item i (node_value x)\<rparr>)"

definition append_pair :: "node_ref \<Rightarrow> node_ref \<Rightarrow> node_ref \<Rightarrow> (composer, yaml_error, unit) act" where
  "append_pair r k i = update_node r (\<lambda>x. x\<lparr>node_value := add_pair k i (node_value x)\<rparr>)"

text \<open>The loops of \<open>compose_sequence_node\<close> and \<open>compose_mapping_node\<close> over the items of node \<open>r\<close>.\<close>

definition sequence_turn ::
  "(node_ref option \<Rightarrow> child_index \<Rightarrow> node_ref compose) \<Rightarrow> node_ref \<Rightarrow> nat \<Rightarrow> (nat + unit) compose" where
  "sequence_turn compose r k =
     pbind (run (check_event (\<lambda>x. x = SequenceEndEvent))) (\<lambda>b. if b then leave () else
     pbind (compose (Some r) (Nth k)) (\<lambda>i.
     pbind (run (append_item r i)) (\<lambda>_. again (Suc k))))"

definition mapping_turn ::
  "(node_ref option \<Rightarrow> child_index \<Rightarrow> node_ref compose) \<Rightarrow> node_ref \<Rightarrow> (unit + unit) compose" where
  "mapping_turn compose r =
     pbind (run (check_event (\<lambda>x. x = MappingEndEvent))) (\<lambda>b. if b then leave () else
     pbind (compose (Some r) NoChild) (\<lambda>k.
     pbind (compose (Some r) (Keyed k)) (\<lambda>i.
     pbind (run (append_pair r k i)) (\<lambda>_. again ()))))"

definition compose_sequence_node ::
  "(node_ref option \<Rightarrow> child_index \<Rightarrow> node_ref compose) \<Rightarrow> string option \<Rightarrow> node_ref compose" where
  "compose_sequence_node compose a =
     pbind (run (open_collection a)) (\<lambda>r.
     pbind (ploop (sequence_turn compose r) 0) (\<lambda>_.
     pbind (run (close_collection r)) (\<lambda>_. pret r)))"

definition compose_mapping_node ::
  "(node_ref option \<Rightarrow> child_index \<Rightarrow> node_ref compose) \<Rightarrow> string option \<Rightarrow> node_ref compose" where
  "compose_mapping_node compose a =
     pbind (run (open_collection a)) (\<lambda>r.
     pbind (ploop (\<lambda>_. mapping_turn compose r) ()) (\<lambda>_.
     pbind (run (close_collection r)) (\<lambda>_. pret r)))"

lemma compose_collection_mono [partial_function_mono]:
  assumes "\<And>p i c. mono_option (\<lambda>f. compose f p i c)"
  shows "mono_option (\<lambda>f. compose_sequence_node (compose f) a c)"
    and "mono_option (\<lambda>f. compose_mapping_node (compose f) a c)"
  unfolding compose_sequence_node_def sequence_turn_def compose_mapping_node_def mapping_turn_def
  by (intro partial_function_mono assms)+

text \<open>An event that has an anchor and is no alias, no scalar and no sequence starts a mapping.\<close>

partial_function (option) compose_node ::
  "node_ref option \<Rightarrow> child_index \<Rightarrow> composer \<Rightarrow> ((yaml_error + node_ref) \<times> composer) option" where
  "compose_node parent i c =
     pbind (run (check_event is_alias)) (\<lambda>b. if b then run compose_alias else
     pbind (run (sbind peek_event (\<lambda>e. ev_attr e id))) (\<lambda>e.
     pbind (run (lift_res (anchor_of (ev e)))) (\<lambda>a.
     pbind (run (check_anchor e a)) (\<lambda>_.
     pbind (run (descend parent i)) (\<lambda>_.
     pbind (if is_scalar (ev e) then run (compose_scalar_node a)
            else if is_sequence (ev e) then compose_sequence_node compose_node a
            else compose_mapping_node compose_node a) (\<lambda>r.
     pbind (run (on_resolver ascend_resolver)) (\<lambda>_. pret r))))))) c"

section \<open>Documents\<close>

definition compose_document :: "node_ref compose" where
  "compose_document =
     pbind (run get_event) (\<lambda>_.
     pbind (compose_node None NoChild) (\<lambda>r.
     pbind (run get_event) (\<lambda>_.
     pbind (run (modify (\<lambda>c. c\<lparr>c_anchors := []\<rparr>))) (\<lambda>_. run (ret r)))))"

definition check_node :: "(composer, yaml_error, bool) act" where
  "check_node =
     sbind (check_event is_stream_start) (\<lambda>b.
     sbind (if b then get_event else ret None) (\<lambda>_.
     sbind (check_event (\<lambda>k. k = StreamEndEvent)) (\<lambda>b. ret (\<not> b))))"

definition get_node :: "node_ref option compose" where
  "get_node =
     pbind (run (check_event (\<lambda>k. k = StreamEndEvent))) (\<lambda>b.
       if \<not> b then pbind compose_document (\<lambda>r. run (ret (Some r))) else run (ret None))"

text \<open>
  The document's start mark is read for the message only; it is an attribute of \<open>None\<close> when
  the stream ran out in front of the first document, which then is no document either.
\<close>

definition get_single_node :: "node_ref option compose" where
  "get_single_node =
     pbind (run get_event) (\<lambda>_.
     pbind get_node (\<lambda>document.
     pbind (run (check_event (\<lambda>k. k = StreamEndEvent))) (\<lambda>b. if \<not> b then
       pbind (run get_event) (\<lambda>e.
       pbind (run (gets (\<lambda>c. map_option (\<lambda>r. node_start (c_nodes c ! r)) document))) (\<lambda>m.
       pbind (run (lift_res (of_option (Raised AttributeError) m))) (\<lambda>m.
       pbind (run (ev_attr e ev_start)) (\<lambda>em.
       run (throw (ComposerError \<lparr>err_context = Some ''expected a single document in the stream'', err_context_mark = m,
         err_problem = Some ''but found another document'', err_problem_mark = em, err_note = None\<rparr>))))))
     else pbind (run get_event) (\<lambda>_. run (ret document)))))"

text \<open>\<open>compose_all\<close> of \<open>yaml/__init__.py\<close>: the nodes it yields.\<close>

definition yaml_compose_all :: "node_ref option list compose" where
  "yaml_compose_all = ploop (\<lambda>roots.
     pbind (run check_node) (\<lambda>b. if b then pbind get_node (\<lambda>r. again (roots @ [r])) else leave roots)) []"

definition new_composer :: "resolver \<Rightarrow> (yaml_error + event) list \<Rightarrow> composer" where
  "new_composer r es = \<lparr>c_events = es, c_anchors = [], c_nodes = [], c_resolver = r\<rparr>"

end
