(* ===== verification/Yaml_Serialize.thy ===== *)
theory Yaml_Serialize
  imports Yaml_Compose
begin

text \<open>
  The serializer of the bundled YAML library (\<open>yaml/serializer.py\<close>), which turns graphs of
  nodes into events, and the proof that the composer takes its events back to a copy of the
  graph: the same tags, values and styles, and the same sharing, cycles included.  What is
  given to \<open>emit\<close> is collected in the state.
\<close>

section \<open>The serializer\<close>

record serializer_options =
  use_encoding :: "string option"
  use_explicit_start :: "bool option"
  use_explicit_end :: "bool option"
  use_version :: "(int \<times> int) option"
  use_tags :: "(string \<times> string) list option"

record serializer =
  se_events :: "event_kind list"
  serialized_nodes :: "node_ref list"
  se_anchors :: "(node_ref \<times> string option) list"
  last_anchor_id :: nat
  se_closed :: "bool option"
  se_resolver :: resolver

type_synonym 'a serial = "(serializer, yaml_error, 'a) pact"

definition emit :: "event_kind \<Rightarrow> unit serial" where
  "emit e = pmodify (\<lambda>s. s\<lparr>se_events := se_events s @ [e]\<rparr>)"

definition serializer_error :: "string \<Rightarrow> 'a serial" where
  "serializer_error m = pthrow (SerializerError m)"

definition open_serializer :: "serializer_options \<Rightarrow> unit serial" where
  "open_serializer opts =
     pbind (pgets se_closed) (\<lambda>closed. case closed of
         None \<Rightarrow> pbind (emit (StreamStartEvent (use_encoding opts))) (\<lambda>_. pmodify (\<lambda>s. s\<lparr>se_closed := Some False\<rparr>))
       | Some True \<Rightarrow> serializer_error ''serializer is closed''
       | Some False \<Rightarrow> serializer_error ''serializer is already opened'')"

definition close_serializer :: "unit serial" where
  "close_serializer =
     pbind (pgets se_closed) (\<lambda>closed. case closed of
         None \<Rightarrow> serializer_error ''serializer is not opened''
       | Some True \<Rightarrow> pret ()
       | Some False \<Rightarrow> pbind (emit StreamEndEvent) (\<lambda>_. pmodify (\<lambda>s. s\<lparr>se_closed := Some True\<rparr>)))"

section \<open>Anchors\<close>

text \<open>The template is \<open>id%03d\<close>.\<close>

definition anchor_name :: "nat \<Rightarrow> string" where
  "anchor_name n = ''id'' @ zero_pad 3 (show_nat n)"

definition generate_anchor :: "string serial" where
  "generate_anchor =
     pbind (pmodify (\<lambda>s. s\<lparr>last_anchor_id := last_anchor_id s + 1\<rparr>)) (\<lambda>_.
     pgets (\<lambda>s. anchor_name (last_anchor_id s)))"

definition put_anchor :: "node_ref \<Rightarrow> string option \<Rightarrow> unit serial" where
  "put_anchor r a = pmodify (\<lambda>s. s\<lparr>se_anchors := dict_set (se_anchors s) r a\<rparr>)"

text \<open>The nodes below a node in the order in which the loops go through them.\<close>

fun children :: "node_value \<Rightarrow> node_ref list" where
  "children (ScalarNode v style) = []"
| "children (SequenceNode items fl) = items"
| "children (MappingNode pairs fl) = concat (map (\<lambda>(k, v). [k, v]) pairs)"

partial_function (option) anchor_node ::
  "node list \<Rightarrow> node_ref \<Rightarrow> serializer \<Rightarrow> ((yaml_error + unit) \<times> serializer) option" where
  "anchor_node g r s =
     (case map_of (se_anchors s) r of
        Some (Some a) \<Rightarrow> pret () s
      | Some None \<Rightarrow> pbind generate_anchor (\<lambda>a. put_anchor r (Some a)) s
      | None \<Rightarrow> pbind (put_anchor r None) (\<lambda>_. peach (anchor_node g) (children (node_value (g ! r)))) s)"

section \<open>Nodes\<close>

definition with_resolver :: "(resolver, yaml_error, 'a) act \<Rightarrow> 'a serial" where
  "with_resolver m s = (case m (se_resolver s) of (x, q) \<Rightarrow> Some (x, s\<lparr>se_resolver := q\<rparr>))"

definition alias_of :: "node_ref \<Rightarrow> string option serial" where
  "alias_of r s = (case map_of (se_anchors s) r of
       None \<Rightarrow> Some (Inl (Raised KeyError), s) | Some a \<Rightarrow> Some (Inr a, s))"

definition serialize_scalar :: "string option \<Rightarrow> string \<Rightarrow> string \<Rightarrow> char option \<Rightarrow> unit serial" where
  "serialize_scalar alias tag v style =
     pbind (with_resolver (resolve ScalarClass v True)) (\<lambda>detected.
     pbind (with_resolver (resolve ScalarClass v False)) (\<lambda>default.
     emit (ScalarEvent alias (Some tag) (tag = detected, tag = default) v style)))"

type_synonym serialize_call = "node_ref \<Rightarrow> node_ref option \<Rightarrow> child_index \<Rightarrow> unit serial"

definition serialize_sequence ::
  "serialize_call \<Rightarrow> node_ref \<Rightarrow> string option \<Rightarrow> string \<Rightarrow> node_ref list \<Rightarrow> bool option \<Rightarrow> unit serial" where
  "serialize_sequence call r alias tag items fl =
     pbind (with_resolver (resolve SequenceClass [] True)) (\<lambda>t.
     pbind (emit (SequenceStartEvent alias (Some tag) (tag = t) fl)) (\<lambda>_.
     pbind (peach (\<lambda>(i, x). call x (Some r) (Nth i)) (enumerate 0 items)) (\<lambda>_.
     emit SequenceEndEvent)))"

definition serialize_mapping ::
  "serialize_call \<Rightarrow> node_ref \<Rightarrow> string option \<Rightarrow> string \<Rightarrow> (node_ref \<times> node_ref) list \<Rightarrow> bool option \<Rightarrow> unit serial" where
  "serialize_mapping call r alias tag pairs fl =
     pbind (with_resolver (resolve MappingClass [] True)) (\<lambda>t.
     pbind (emit (MappingStartEvent alias (Some tag) (tag = t) fl)) (\<lambda>_.
     pbind (peach (\<lambda>(k, v). pbind (call k (Some r) NoChild) (\<lambda>_. call v (Some r) (Keyed k))) pairs) (\<lambda>_.
     emit MappingEndEvent)))"

definition serialize_content :: "serialize_call \<Rightarrow> node list \<Rightarrow> node_ref \<Rightarrow> string option \<Rightarrow> unit serial" where
  "serialize_content call g r alias =
     (let tag = node_tag (g ! r) in case node_value (g ! r) of
        ScalarNode v style \<Rightarrow> serialize_scalar alias tag v style
      | SequenceNode items fl \<Rightarrow> serialize_sequence call r alias tag items fl
      | MappingNode pairs fl \<Rightarrow> serialize_mapping call r alias tag pairs fl)"

lemma serialize_content_mono [partial_function_mono]:
  assumes "\<And>x p i s. mono_option (\<lambda>f. call f x p i s)"
  shows "mono_option (\<lambda>f. serialize_content (call f) g r alias s)"
proof (cases "node_value (g ! r)")
  case ScalarNode
  then show ?thesis by (simp add: serialize_content_def option.const_mono)
next
  case SequenceNode
  then show ?thesis unfolding serialize_content_def serialize_sequence_def
    by (simp add: case_prod_unfold Let_def) (intro partial_function_mono assms)
next
  case MappingNode
  then show ?thesis unfolding serialize_content_def serialize_mapping_def
    by (simp add: case_prod_unfold Let_def) (intro partial_function_mono assms)
qed

partial_function (option) serialize_node ::
  "node list \<Rightarrow> node_ref \<Rightarrow> node_ref option \<Rightarrow> child_index \<Rightarrow> serializer \<Rightarrow>
   ((yaml_error + unit) \<times> serializer) option" where
  "serialize_node g r parent i s =
     pbind (alias_of r) (\<lambda>alias.
     pbind (pgets (\<lambda>s. r \<in> set (serialized_nodes s))) (\<lambda>known. if known then emit (AliasEvent alias) else
     pbind (pmodify (\<lambda>s. s\<lparr>serialized_nodes := serialized_nodes s @ [r]\<rparr>)) (\<lambda>_.
     pbind (with_resolver (descend_resolver (map_option (\<lambda>p. g ! p) parent) (child_at i g))) (\<lambda>_.
     pbind (serialize_content (serialize_node g) g r alias) (\<lambda>_.
     with_resolver ascend_resolver))))) s"

section \<open>Documents\<close>

definition serialize :: "serializer_options \<Rightarrow> node list \<Rightarrow> node_ref \<Rightarrow> unit serial" where
  "serialize opts g r =
     pbind (pgets se_closed) (\<lambda>closed. case closed of
         None \<Rightarrow> serializer_error ''serializer is not opened''
       | Some True \<Rightarrow> serializer_error ''serializer is closed''
       | Some False \<Rightarrow>
           pbind (emit (DocumentStartEvent (use_explicit_start opts) (use_version opts) (use_tags opts))) (\<lambda>_.
           pbind (anchor_node g r) (\<lambda>_.
           pbind (serialize_node g r None NoChild) (\<lambda>_.
           pbind (emit (DocumentEndEvent (use_explicit_end opts))) (\<lambda>_.
           pmodify (\<lambda>s. s\<lparr>serialized_nodes := [], se_anchors := [], last_anchor_id := 0\<rparr>))))))"

definition new_serializer :: "resolver \<Rightarrow> serializer" where
  "new_serializer q = \<lparr>se_events = [], serialized_nodes = [], se_anchors = [], last_anchor_id = 0,
     se_closed = None, se_resolver = q\<rparr>"

text \<open>\<open>serialize_all\<close> of \<open>yaml/__init__.py\<close>, up to the stream.\<close>

definition yaml_serialize_all :: "serializer_options \<Rightarrow> node list \<Rightarrow> node_ref list \<Rightarrow> unit serial" where
  "yaml_serialize_all opts g roots =
     pbind (open_serializer opts) (\<lambda>_. pbind (peach (serialize opts g) roots) (\<lambda>_. close_serializer))"

section \<open>Walks\<close>

text \<open>
  All three traversals visit a graph in the same order.  A walk is the tree of their calls:
  a node met for the first time with the walks from its children, or a node met again.
  \<open>walks g seen w\<close>: from the list of nodes seen so far, \<open>w\<close> is the walk of \<open>g\<close>.
\<close>

datatype walk = Met node_ref | Fresh node_ref "walk list"

fun root_of :: "walk \<Rightarrow> node_ref" where
  "root_of (Met r) = r"
| "root_of (Fresh r ws) = r"

fun news :: "walk \<Rightarrow> node_ref list" where
  "news (Met r) = []"
| "news (Fresh r ws) = r # concat (map news ws)"

abbreviation news_all :: "walk list \<Rightarrow> node_ref list" where
  "news_all ws \<equiv> concat (map news ws)"

fun mets :: "walk \<Rightarrow> node_ref list" where
  "mets (Met r) = [r]"
| "mets (Fresh r ws) = concat (map mets ws)"

abbreviation mets_all :: "walk list \<Rightarrow> node_ref list" where
  "mets_all ws \<equiv> concat (map mets ws)"

fun walks :: "node list \<Rightarrow> node_ref list \<Rightarrow> walk \<Rightarrow> bool"
  and walks_all :: "node list \<Rightarrow> node_ref list \<Rightarrow> walk list \<Rightarrow> bool" where
  "walks g seen (Met r) = (r \<in> set seen)"
| "walks g seen (Fresh r ws) =
     (r \<notin> set seen \<and> map root_of ws = children (node_value (g ! r)) \<and> walks_all g (seen @ [r]) ws)"
| "walks_all g seen [] = True"
| "walks_all g seen (w # ws) = (walks g seen w \<and> walks_all g (seen @ news w) ws)"

definition closed_graph :: "node list \<Rightarrow> bool" where
  "closed_graph g = (\<forall>n \<in> set g. set (children (node_value n)) \<subseteq> {..<length g})"

lemma walks_distinct:
  "walks g seen w \<Longrightarrow> distinct seen \<Longrightarrow> distinct (seen @ news w)"
  "walks_all g seen ws \<Longrightarrow> distinct seen \<Longrightarrow> distinct (seen @ news_all ws)"
  by (induction g seen w and g seen ws rule: walks_walks_all.induct) auto

lemma walks_root:
  "walks g seen w \<Longrightarrow> root_of w \<in> set (seen @ news w)"
  "walks_all g seen ws \<Longrightarrow> set (map root_of ws) \<subseteq> set (seen @ news_all ws)"
  by (induction g seen w and g seen ws rule: walks_walks_all.induct) auto

lemma walks_children:
  "walks g seen w \<Longrightarrow> x \<in> set (news w) \<Longrightarrow> set (children (node_value (g ! x))) \<subseteq> set (seen @ news w)"
  "walks_all g seen ws \<Longrightarrow> x \<in> set (news_all ws) \<Longrightarrow> set (children (node_value (g ! x))) \<subseteq> set (seen @ news_all ws)"
proof (induction g seen w and g seen ws rule: walks_walks_all.induct)
  case (2 g seen r ws)
  show ?case
  proof (cases "x = r")
    case True
    have "set (map root_of ws) \<subseteq> set ((seen @ [r]) @ news_all ws)" using 2 walks_root(2) by (meson walks.simps(2))
    moreover have "map root_of ws = children (node_value (g ! r))" using 2 by simp
    ultimately show ?thesis using True by simp
  qed (use 2 in auto)
qed auto

lemma walks_mets:
  "walks g seen w \<Longrightarrow> set (mets w) \<subseteq> set (seen @ news w)"
  "walks_all g seen ws \<Longrightarrow> set (mets_all ws) \<subseteq> set (seen @ news_all ws)"
  by (induction g seen w and g seen ws rule: walks_walks_all.induct) auto

lemma news_bound:
  assumes "closed_graph g"
  shows "walks g seen w \<Longrightarrow> root_of w < length g \<Longrightarrow> set (news w) \<subseteq> {..<length g}"
    and "walks_all g seen ws \<Longrightarrow> set (map root_of ws) \<subseteq> {..<length g} \<Longrightarrow> set (news_all ws) \<subseteq> {..<length g}"
  using assms
proof (induction g seen w and g seen ws rule: walks_walks_all.induct)
  case (2 g seen r ws)
  have "set (children (node_value (g ! r))) \<subseteq> {..<length g}"
    using 2(3-) by (auto simp: closed_graph_def)
  with 2 have "set (news_all ws) \<subseteq> {..<length g}" by (metis walks.simps(2))
  with 2 show ?case by simp
qed auto

text \<open>Every node of a closed graph has a walk: each step leaves fewer nodes unseen.\<close>

lemma walk_exists:
  assumes "closed_graph g"
  shows "r < length g \<Longrightarrow> \<exists>w. walks g seen w \<and> root_of w = r"
proof (induction "card ({..<length g} - set seen)" arbitrary: seen r rule: less_induct)
  case less
  have all: "\<exists>ws. walks_all g seen' ws \<and> map root_of ws = xs"
    if "set xs \<subseteq> {..<length g}" "set (seen @ [r]) \<subseteq> set seen'" "r \<notin> set seen" for xs seen'
    using that
  proof (induction xs arbitrary: seen')
    case (Cons x xs)
    have "r \<in> {..<length g} - set seen" "{..<length g} - set seen' \<subseteq> {..<length g} - set seen - {r}"
      using less(2) Cons by auto
    then have "card ({..<length g} - set seen') < card ({..<length g} - set seen)"
      by (intro psubset_card_mono) auto
    with less(1) [of seen' x] Cons(2) obtain w where w: "walks g seen' w" "root_of w = x" by auto
    moreover obtain ws where "walks_all g (seen' @ news w) ws" "map root_of ws = xs"
      using Cons(1) [of "seen' @ news w"] Cons(2-) by auto
    ultimately have "walks_all g seen' (w # ws) \<and> map root_of (w # ws) = x # xs" by simp
    then show ?case by (rule exI [of _ "w # ws"])
  qed simp
  show ?case
  proof (cases "r \<in> set seen")
    case True
    then show ?thesis by (intro exI [of _ "Met r"]) simp
  next
    case False
    have "set (children (node_value (g ! r))) \<subseteq> {..<length g}"
      using assms less(2) by (auto simp: closed_graph_def)
    with all [of _ "seen @ [r]"] False obtain ws
      where "walks_all g (seen @ [r]) ws" "map root_of ws = children (node_value (g ! r))" by auto
    with False show ?thesis by (intro exI [of _ "Fresh r ws"]) simp
  qed
qed

section \<open>Anchors of a walk\<close>

lemma digits_from_zeros:
  assumes "digits_value t = Some n"
  shows "digits_from 0 (replicate k (CHR ''0'') @ t) = Some n"
proof (induction k)
  case 0
  obtain c cs where "t = c # cs" "is_digit c" using assms by (auto simp: digits_value_def split: list.splits if_splits)
  with assms show ?case by (cases cs) (auto simp: digits_value_def)
next
  case (Suc k)
  obtain d ds where "replicate k (CHR ''0'') @ t = d # ds"
    using assms by (cases "replicate k (CHR ''0'') @ t") (auto simp: digits_value_def)
  with Suc show ?case by (simp add: is_digit_def digit_val_def)
qed

lemma digits_value_zero_pad:
  assumes "digits_value t = Some n"
  shows "digits_value (zero_pad w t) = Some n"
proof (cases "w - length t")
  case (Suc k)
  then show ?thesis using digits_from_zeros [OF assms, of k]
    by (simp add: zero_pad_def digits_value_def is_digit_def digit_val_def)
qed (simp add: zero_pad_def assms)

lemma anchor_name_inj: "anchor_name m = anchor_name n \<Longrightarrow> m = n"
  unfolding anchor_name_def same_append_eq
  by (metis digits_value_zero_pad digits_value_show_nat option.inject)

text \<open>The names in use were made by \<open>generate_anchor\<close>, each for one node.\<close>

definition anchors_named :: "serializer \<Rightarrow> bool" where
  "anchors_named s = (\<forall>r a. map_of (se_anchors s) r = Some (Some a) \<longrightarrow>
     (\<exists>k \<le> last_anchor_id s. a = anchor_name k) \<and> (\<forall>q. map_of (se_anchors s) q = Some (Some a) \<longrightarrow> q = r))"

definition anchored :: "serializer \<Rightarrow> node_ref list \<Rightarrow> node_ref list \<Rightarrow> serializer \<Rightarrow> bool" where
  "anchored s fresh met s' =
     (se_events s' = se_events s \<and> serialized_nodes s' = serialized_nodes s \<and>
      se_closed s' = se_closed s \<and> se_resolver s' = se_resolver s \<and>
      map fst (se_anchors s') = map fst (se_anchors s) @ fresh \<and>
      (anchors_named s \<longrightarrow> anchors_named s') \<and>
      (\<forall>x a. map_of (se_anchors s) x = Some (Some a) \<longrightarrow> map_of (se_anchors s') x = Some (Some a)) \<and>
      (\<forall>x \<in> set met. \<exists>a. map_of (se_anchors s') x = Some (Some a)))"

lemma anchored_trans:
  "anchored s f m s' \<Longrightarrow> anchored s' f' m' s'' \<Longrightarrow> anchored s (f @ f') (m @ m') s''"
  unfolding anchored_def by (elim conjE, intro conjI) (simp_all, blast+)

lemma keys_dict_set_old: "k \<in> fst ` set d \<Longrightarrow> map fst (dict_set d k v) = map fst d"
  by (induction d k v rule: dict_set.induct) auto

lemma put_name_named:
  assumes "anchors_named s"
  shows "anchors_named (s\<lparr>last_anchor_id := Suc (last_anchor_id s),
    se_anchors := dict_set (se_anchors s) r (Some (anchor_name (Suc (last_anchor_id s))))\<rparr>)"
proof -
  have "a \<noteq> anchor_name (Suc (last_anchor_id s))" if a: "map_of (se_anchors s) x = Some (Some a)" for x a
  proof -
    obtain k where "k \<le> last_anchor_id s" "a = anchor_name k" using assms a unfolding anchors_named_def by blast
    then show ?thesis using anchor_name_inj by fastforce
  qed
  then show ?thesis using assms by (auto simp: anchors_named_def) (meson le_SucI)+
qed

lemma anchor_met:
  assumes "r \<in> fst ` set (se_anchors s)"
  shows "\<exists>s'. anchor_node g r s = Some (Inr (), s') \<and> anchored s [] [r] s'"
proof -
  consider a where "map_of (se_anchors s) r = Some (Some a)" | "map_of (se_anchors s) r = Some None"
    using assms by (metis map_of_eq_None_iff not_None_eq)
  then show ?thesis
  proof cases
    case 1
    then show ?thesis by (subst anchor_node.simps) (simp add: pret_def anchored_def)
  next
    case 2
    then show ?thesis using assms put_name_named [of s r]
      by (subst anchor_node.simps)
         (simp add: pbind_def generate_anchor_def put_anchor_def pmodify_def pgets_def anchored_def keys_dict_set_old)
  qed
qed

lemma anchor_walk:
  "walks g seen w \<Longrightarrow> map fst (se_anchors s) = seen \<Longrightarrow>
     \<exists>s'. anchor_node g (root_of w) s = Some (Inr (), s') \<and> anchored s (news w) (mets w) s'"
  "walks_all g seen ws \<Longrightarrow> map fst (se_anchors s) = seen \<Longrightarrow>
     \<exists>s'. peach (anchor_node g) (map root_of ws) s = Some (Inr (), s') \<and> anchored s (news_all ws) (mets_all ws) s'"
proof (induction g seen w and g seen ws arbitrary: s and s rule: walks_walks_all.induct)
  case (1 g seen r)
  have "r \<in> fst ` set (se_anchors s)" using 1 by (metis image_set walks.simps(1))
  from anchor_met [OF this] show ?case by simp
next
  case (2 g seen r ws)
  let ?s = "s\<lparr>se_anchors := se_anchors s @ [(r, None)]\<rparr>"
  have r: "r \<notin> fst ` set (se_anchors s)" using 2(2,3) by (metis image_set walks.simps(2))
  obtain s' where s': "peach (anchor_node g) (map root_of ws) ?s = Some (Inr (), s')" "anchored ?s (news_all ws) (mets_all ws) s'"
    using "2.IH" [of ?s] 2(2,3) by auto
  have "anchors_named s \<Longrightarrow> anchors_named ?s"
    by (auto simp: anchors_named_def map_add_def split: option.splits)
  moreover have "map_of (se_anchors s) x = Some a \<Longrightarrow> map_of (se_anchors ?s) x = Some a" for x a
    by (simp add: map_add_def)
  ultimately have "anchored s [r] [] ?s" by (simp add: anchored_def)
  from anchored_trans [OF this s'(2)] s'(1) 2(2) show ?case
    using r by (subst anchor_node.simps)
      (simp add: pbind_def put_anchor_def pmodify_def dict_set_new map_of_eq_None_iff [THEN iffD2])
next
  case (4 g seen w ws)
  obtain s' where s': "anchor_node g (root_of w) s = Some (Inr (), s')" "anchored s (news w) (mets w) s'"
    using "4.IH"(1) [of s] 4(3,4) by auto
  moreover obtain s'' where "peach (anchor_node g) (map root_of ws) s' = Some (Inr (), s'')" "anchored s' (news_all ws) (mets_all ws) s''"
    using "4.IH"(2) [of s'] 4(3,4) s'(2) by (auto simp: anchored_def)
  ultimately show ?case using anchored_trans by (fastforce simp: pbind_def)
qed (simp_all add: pret_def anchored_def)

section \<open>Events of a walk\<close>

text \<open>
  \<open>spells al g w es\<close>: the events \<open>es\<close> spell the walk \<open>w\<close>, an alias for a node that was met
  again, up to the flags that say which tags may be left out.
\<close>

fun spells :: "(node_ref \<Rightarrow> string option) \<Rightarrow> node list \<Rightarrow> walk \<Rightarrow> event_kind list \<Rightarrow> bool"
  and spells_all :: "(node_ref \<Rightarrow> string option) \<Rightarrow> node list \<Rightarrow> walk list \<Rightarrow> event_kind list \<Rightarrow> bool" where
  "spells al g (Met r) es = (es = [AliasEvent (al r)])"
| "spells al g (Fresh r ws) es =
     (case node_value (g ! r) of
        ScalarNode v style \<Rightarrow> \<exists>imp. es = [ScalarEvent (al r) (Some (node_tag (g ! r))) imp v style]
      | SequenceNode items fl \<Rightarrow> \<exists>imp mid. spells_all al g ws mid \<and>
          es = SequenceStartEvent (al r) (Some (node_tag (g ! r))) imp fl # mid @ [SequenceEndEvent]
      | MappingNode pairs fl \<Rightarrow> \<exists>imp mid. spells_all al g ws mid \<and>
          es = MappingStartEvent (al r) (Some (node_tag (g ! r))) imp fl # mid @ [MappingEndEvent])"
| "spells_all al g [] es = (es = [])"
| "spells_all al g (w # ws) es = (\<exists>a b. es = a @ b \<and> spells al g w a \<and> spells_all al g ws b)"

text \<open>The children of a node with the index that each is serialized under.\<close>

fun indexed :: "node_value \<Rightarrow> (child_index \<times> node_ref) list" where
  "indexed (ScalarNode v style) = []"
| "indexed (SequenceNode items fl) = map (\<lambda>(i, x). (Nth i, x)) (enumerate 0 items)"
| "indexed (MappingNode pairs fl) = concat (map (\<lambda>(k, v). [(NoChild, k), (Keyed k, v)]) pairs)"

lemma indexed_children: "map snd (indexed v) = children v"
proof (cases v)
  case (MappingNode pairs fl)
  have "map snd (concat (map (\<lambda>(k, v). [(NoChild, k), (Keyed k, v)]) ps)) = concat (map (\<lambda>(k, v). [k, v]) ps)"
    for ps :: "(node_ref \<times> node_ref) list"
    by (induction ps) auto
  with MappingNode show ?thesis by simp
qed (simp_all add: case_prod_unfold comp_def)

lemma peach_map: "peach f (map h xs) = peach (\<lambda>x. f (h x)) xs"
  by (induction xs) simp_all

lemma pbind_assoc: "pbind (pbind m f) g = pbind m (\<lambda>x. pbind (f x) g)"
  by (rule ext) (simp add: pbind_def split: option.split sum.split)

lemma pbind_pret [simp]: "pbind (pret x) f = f x"
  by (rule ext) (simp add: pbind_def pret_def)

lemma pbind_pret_unit: "pbind m (\<lambda>_. pret ()) = m"
  by (rule ext) (simp add: pbind_def pret_def split: option.split sum.split prod.split)

lemma peach_pairs:
  "peach f (concat (map (\<lambda>(k, v). [(NoChild, k), (Keyed k, v)]) ps)) =
   peach (\<lambda>(k, v). pbind (f (NoChild, k)) (\<lambda>_. f (Keyed k, v))) ps"
  by (induction ps) (auto simp: pbind_assoc)

abbreviation serialize_items :: "node list \<Rightarrow> node_ref \<Rightarrow> (child_index \<times> node_ref) list \<Rightarrow> unit serial" where
  "serialize_items g r \<equiv> peach (\<lambda>(i, x). serialize_node g x (Some r) i)"

lemma items_sequence:
  "peach (\<lambda>(i, x). serialize_node g x (Some r) (Nth i)) (enumerate 0 items) =
   serialize_items g r (indexed (SequenceNode items fl))"
  by (simp add: peach_map case_prod_unfold)

lemma items_mapping:
  "peach (\<lambda>(k, v). pbind (serialize_node g k (Some r) NoChild) (\<lambda>_. serialize_node g v (Some r) (Keyed k))) pairs =
   serialize_items g r (indexed (MappingNode pairs fl))"
  by (simp add: peach_pairs)

text \<open>Without path resolvers \<open>resolve\<close> answers, and the state keeps having none.\<close>

lemma resolve_plain:
  assumes "path_table q = []"
  obtains t q' where "resolve k v b q = (Inr t, q')" "path_table q' = []"
proof -
  have "\<exists>t. fst (resolve k v b q) = Inr t"
    using assms by (auto simp: resolve_answer resolve_rest_def path_tag_def split: option.split)
  moreover have "path_table (snd (resolve k v b q)) = []"
    by (subst resolve_frame) (simp add: assms)
  ultimately show ?thesis using that by (cases "resolve k v b q") auto
qed

definition serialized :: "serializer \<Rightarrow> event_kind list \<Rightarrow> node_ref list \<Rightarrow> serializer \<Rightarrow> bool" where
  "serialized s es fresh s' =
     (se_events s' = se_events s @ es \<and> serialized_nodes s' = serialized_nodes s @ fresh \<and>
      se_anchors s' = se_anchors s \<and> last_anchor_id s' = last_anchor_id s \<and> se_closed s' = se_closed s \<and>
      path_table (se_resolver s') = [])"

lemma serialized_trans:
  "serialized s es f s' \<Longrightarrow> serialized s' es' f' s'' \<Longrightarrow> serialized s (es @ es') (f @ f') s''"
  by (auto simp: serialized_def)

lemma with_resolve:
  assumes "path_table (se_resolver s) = []"
  obtains t s' where "with_resolver (resolve k v b) s = Some (Inr t, s')" "serialized s [] [] s'"
proof -
  obtain t q where "resolve k v b (se_resolver s) = (Inr t, q)" "path_table q = []" by (rule resolve_plain [OF assms])
  then show ?thesis by (intro that [of t "s\<lparr>se_resolver := q\<rparr>"]) (simp_all add: with_resolver_def serialized_def)
qed

lemma serialized_table: "serialized s es f s' \<Longrightarrow> path_table (se_resolver s') = []"
  by (auto simp: serialized_def)

text \<open>
  The serializer on a walk: it returns, appends events that spell the walk, and marks the
  nodes of the walk in order.
\<close>

definition knows :: "serializer \<Rightarrow> node_ref list \<Rightarrow> bool" where
  "knows s rs = (set rs \<subseteq> fst ` set (se_anchors s))"

definition alias_in :: "serializer \<Rightarrow> node_ref \<Rightarrow> string option" where
  "alias_in s r = (case map_of (se_anchors s) r of None \<Rightarrow> None | Some a \<Rightarrow> a)"

lemma serialized_frame:
  "serialized s es f s' \<Longrightarrow> knows s' rs = knows s rs"
  "serialized s es f s' \<Longrightarrow> alias_in s' = alias_in s"
  "serialized s es f s' \<Longrightarrow> serialized_nodes s' = serialized_nodes s @ f"
  by (auto simp: serialized_def knows_def alias_in_def)

lemma alias_of_run: "knows s [r] \<Longrightarrow> alias_of r s = Some (Inr (alias_in s r), s)"
  by (auto simp: knows_def alias_of_def alias_in_def dest: weak_map_of_SomeI split: option.split)

lemma emit_serialized: "path_table (se_resolver s) = [] \<Longrightarrow> \<exists>s'. emit e s = Some (Inr (), s') \<and> serialized s [e] [] s'"
  unfolding emit_def pmodify_def
  by (rule exI [of _ "s\<lparr>se_events := se_events s @ [e]\<rparr>"], rule conjI [OF refl]) (simp add: serialized_def)

lemma no_paths:
  assumes "path_table (se_resolver s) = []"
  shows "with_resolver (descend_resolver p i) s = Some (Inr (), s)" "with_resolver ascend_resolver s = Some (Inr (), s)"
  using assms by (simp_all add: with_resolver_def descend_resolver_def ascend_resolver_def)

lemma serialize_leaf:
  assumes "path_table (se_resolver s) = []"
  shows "\<exists>s' imp. serialize_scalar al tag v style s = Some (Inr (), s') \<and>
    serialized s [ScalarEvent al (Some tag) imp v style] [] s'"
proof -
  obtain t1 s1 where s1: "with_resolver (resolve ScalarClass v True) s = Some (Inr t1, s1)" "serialized s [] [] s1"
    by (rule with_resolve [OF assms])
  obtain t2 s2 where s2: "with_resolver (resolve ScalarClass v False) s1 = Some (Inr t2, s2)" "serialized s1 [] [] s2"
    by (rule with_resolve [OF serialized_table [OF s1(2)]])
  let ?e = "ScalarEvent al (Some tag) (tag = t1, tag = t2) v style"
  obtain s3 where s3: "emit ?e s2 = Some (Inr (), s3)" "serialized s2 [?e] [] s3"
    using emit_serialized [OF serialized_table [OF s2(2)]] by blast
  have "serialized s [?e] [] s3"
    using serialized_trans [OF serialized_trans [OF s1(2) s2(2)] s3(2)] by simp
  moreover have "serialize_scalar al tag v style s = Some (Inr (), s3)"
    using s1(1) s2(1) s3(1) by (simp add: serialize_scalar_def pbind_def)
  ultimately show ?thesis by blast
qed

text \<open>A collection: a start, the items, an end.\<close>

lemma serialize_collection:
  assumes "path_table (se_resolver s) = []"
    and items: "\<And>s1 e. serialized s [e] [] s1 \<Longrightarrow> \<exists>s2 es. m s1 = Some (Inr (), s2) \<and> serialized s1 es f s2 \<and> P es"
  shows "\<exists>s' imp es. pbind (with_resolver (resolve k [] True)) (\<lambda>t. pbind (emit (start (tag = t))) (\<lambda>_. pbind m (\<lambda>_. emit stop))) s
      = Some (Inr (), s') \<and> serialized s (start imp # es @ [stop]) f s' \<and> P es"
proof -
  obtain t1 s1 where s1: "with_resolver (resolve k [] True) s = Some (Inr t1, s1)" "serialized s [] [] s1"
    by (rule with_resolve [OF assms(1)])
  obtain s2 where s2: "emit (start (tag = t1)) s1 = Some (Inr (), s2)" "serialized s1 [start (tag = t1)] [] s2"
    using emit_serialized [OF serialized_table [OF s1(2)]] by blast
  have "serialized s [start (tag = t1)] [] s2" using serialized_trans [OF s1(2) s2(2)] by simp
  moreover from items [OF this] obtain s3 es where s3: "m s2 = Some (Inr (), s3)" "serialized s2 es f s3" "P es" by blast
  moreover obtain s4 where s4: "emit stop s3 = Some (Inr (), s4)" "serialized s3 [stop] [] s4"
    using emit_serialized [OF serialized_table [OF s3(2)]] by blast
  ultimately have "serialized s (start (tag = t1) # es @ [stop]) f s4"
    using serialized_trans [OF serialized_trans [OF \<open>serialized s [start (tag = t1)] [] s2\<close> s3(2)] s4(2)] by simp
  moreover have "pbind (with_resolver (resolve k [] True)) (\<lambda>t. pbind (emit (start (tag = t))) (\<lambda>_. pbind m (\<lambda>_. emit stop))) s = Some (Inr (), s4)"
    using s1(1) s2(1) s3(1) s4(1) by (simp add: pbind_def)
  ultimately show ?thesis using s3(3) by blast
qed

lemma serialize_walk:
  "walks g seen w \<Longrightarrow> serialized_nodes s = seen \<Longrightarrow> knows s (seen @ news w) \<Longrightarrow> path_table (se_resolver s) = [] \<Longrightarrow>
     \<exists>s' es. serialize_node g (root_of w) p i s = Some (Inr (), s') \<and> serialized s es (news w) s' \<and> spells (alias_in s) g w es"
  "walks_all g seen ws \<Longrightarrow> serialized_nodes s = seen \<Longrightarrow> knows s (seen @ news_all ws) \<Longrightarrow> path_table (se_resolver s) = [] \<Longrightarrow>
     map snd ixs = map root_of ws \<Longrightarrow>
     \<exists>s' es. serialize_items g r ixs s = Some (Inr (), s') \<and> serialized s es (news_all ws) s' \<and> spells_all (alias_in s) g ws es"
proof (induction g seen w and g seen ws arbitrary: s p i and s ixs r rule: walks_walks_all.induct)
  case (1 g seen q)
  then obtain s' where "emit (AliasEvent (alias_in s q)) s = Some (Inr (), s')" "serialized s [AliasEvent (alias_in s q)] [] s'"
    using emit_serialized by blast
  moreover have "knows s [q]" using 1 by (auto simp: knows_def)
  ultimately show ?case using 1
    by (subst serialize_node.simps) (auto simp: pbind_def alias_of_run pgets_def)
next
  case (2 g seen q ws)
  let ?s = "s\<lparr>serialized_nodes := serialized_nodes s @ [q]\<rparr>" and ?v = "node_value (g ! q)"
  have s: "serialized s [] [q] ?s" using 2(5) by (simp add: serialized_def)
  have roots: "map snd (indexed ?v) = map root_of ws" using 2(2) by (simp add: indexed_children)
  have sub: "\<exists>s2 es. serialize_items g q (indexed ?v) s1 = Some (Inr (), s2) \<and> serialized s1 es (news_all ws) s2 \<and> spells_all (alias_in s) g ws es"
    if "serialized ?s es0 [] s1" for s1 es0
    using "2.IH" [of s1 "indexed ?v" q] that 2(2-5) roots serialized_frame [OF that] serialized_frame [OF s]
    by (simp add: serialized_table)
  have "\<exists>s' es. serialize_content (serialize_node g) g q (alias_in s q) ?s = Some (Inr (), s') \<and> serialized ?s es (news_all ws) s' \<and>
      spells (alias_in s) g (Fresh q ws) es"
  proof (cases ?v)
    case (ScalarNode v style)
    then have "ws = []" using 2(2) by simp
    then show ?thesis using ScalarNode serialize_leaf [of ?s "alias_in s q" "node_tag (g ! q)" v style] 2(5)
      by (fastforce simp: serialize_content_def)
  next
    case (SequenceNode items fl)
    have t: "path_table (se_resolver ?s) = []" using 2(5) by simp
    have c: "serialize_content (serialize_node g) g q (alias_in s q) =
      pbind (with_resolver (resolve SequenceClass [] True)) (\<lambda>t.
      pbind (emit (SequenceStartEvent (alias_in s q) (Some (node_tag (g ! q))) (node_tag (g ! q) = t) fl)) (\<lambda>_.
      pbind (serialize_items g q (indexed ?v)) (\<lambda>_. emit SequenceEndEvent)))"
      unfolding SequenceNode serialize_content_def Let_def node_value.case serialize_sequence_def items_sequence [of g q items fl] ..
    have "\<exists>s' imp es. serialize_content (serialize_node g) g q (alias_in s q) ?s = Some (Inr (), s') \<and>
      serialized ?s (SequenceStartEvent (alias_in s q) (Some (node_tag (g ! q))) imp fl # es @ [SequenceEndEvent]) (news_all ws) s' \<and>
      spells_all (alias_in s) g ws es"
      unfolding c by (rule serialize_collection [OF t]) (erule sub)
    then show ?thesis unfolding spells.simps SequenceNode node_value.case by blast
  next
    case (MappingNode pairs fl)
    have t: "path_table (se_resolver ?s) = []" using 2(5) by simp
    have c: "serialize_content (serialize_node g) g q (alias_in s q) =
      pbind (with_resolver (resolve MappingClass [] True)) (\<lambda>t.
      pbind (emit (MappingStartEvent (alias_in s q) (Some (node_tag (g ! q))) (node_tag (g ! q) = t) fl)) (\<lambda>_.
      pbind (serialize_items g q (indexed ?v)) (\<lambda>_. emit MappingEndEvent)))"
      unfolding MappingNode serialize_content_def Let_def node_value.case serialize_mapping_def items_mapping [of g q pairs fl] ..
    have "\<exists>s' imp es. serialize_content (serialize_node g) g q (alias_in s q) ?s = Some (Inr (), s') \<and>
      serialized ?s (MappingStartEvent (alias_in s q) (Some (node_tag (g ! q))) imp fl # es @ [MappingEndEvent]) (news_all ws) s' \<and>
      spells_all (alias_in s) g ws es"
      unfolding c by (rule serialize_collection [OF t]) (erule sub)
    then show ?thesis unfolding spells.simps MappingNode node_value.case by blast
  qed
  then obtain s' es where s': "serialize_content (serialize_node g) g q (alias_in s q) ?s = Some (Inr (), s')"
    "serialized ?s es (news_all ws) s'" "spells (alias_in s) g (Fresh q ws) es" by blast
  have "serialized s es (q # news_all ws) s'" using serialized_trans [OF s s'(2)] by simp
  moreover have "knows s [q]" "q \<notin> set (serialized_nodes s)" using 2(2-4) by (auto simp: knows_def)
  moreover have "with_resolver (descend_resolver x y) ?s = Some (Inr (), ?s)" for x y using 2(5) by (simp add: no_paths)
  ultimately have "serialize_node g (root_of (Fresh q ws)) p i s = Some (Inr (), s')"
    using s'(1) no_paths(2) [OF serialized_table [OF s'(2)]]
    by (subst serialize_node.simps) (simp add: pbind_def alias_of_run pgets_def pmodify_def)
  then show ?case using \<open>serialized s es (q # news_all ws) s'\<close> s'(3) by auto
next
  case (3 g seen)
  then show ?case by (simp add: pret_def serialized_def)
next
  case (4 g seen w ws)
  obtain i x ixs' where ixs: "ixs = (i, x) # ixs'" "x = root_of w" "map snd ixs' = map root_of ws"
    using 4(7) by (cases ixs) auto
  obtain s1 e1 where s1: "serialize_node g (root_of w) (Some r) i s = Some (Inr (), s1)" "serialized s e1 (news w) s1"
      "spells (alias_in s) g w e1"
    using "4.IH"(1) [of s "Some r" i] 4(3-) by (auto simp: knows_def)
  have "\<exists>s2 e2. serialize_items g r ixs' s1 = Some (Inr (), s2) \<and> serialized s1 e2 (news_all ws) s2 \<and>
      spells_all (alias_in s) g ws e2"
    using "4.IH"(2) [of s1 ixs' r] 4(3-6) ixs(3) serialized_frame [OF s1(2)] serialized_table [OF s1(2)] by simp
  then obtain s2 e2 where s2: "serialize_items g r ixs' s1 = Some (Inr (), s2)" "serialized s1 e2 (news_all ws) s2"
      "spells_all (alias_in s) g ws e2" by blast
  have "serialize_items g r ixs s = Some (Inr (), s2)" using s1(1) s2(1) ixs by (simp add: pbind_def)
  moreover have "serialized s (e1 @ e2) (news_all (w # ws)) s2" using serialized_trans [OF s1(2) s2(2)] by simp
  moreover have "spells_all (alias_in s) g (w # ws) (e1 @ e2)" using s1(3) s2(3) by auto
  ultimately show ?case by blast
qed

end
