(* ===== verification/Yaml_Copy.thy ===== *)
theory Yaml_Copy
  imports Yaml_Serialize
begin

text \<open>
  The composer reads back what the serializer wrote: the nodes it allocates are a copy of the
  graph in the order of the walk, node by node, under the renaming that sends a node to its
  place in that order.
\<close>

section \<open>Copies\<close>

fun copy_value :: "(node_ref \<Rightarrow> node_ref) \<Rightarrow> node_value \<Rightarrow> node_value" where
  "copy_value f (ScalarNode v style) = ScalarNode v style"
| "copy_value f (SequenceNode items fl) = SequenceNode (map f items) fl"
| "copy_value f (MappingNode pairs fl) = MappingNode (map (map_prod f f) pairs) fl"

definition copy_node :: "(node_ref \<Rightarrow> node_ref) \<Rightarrow> node \<Rightarrow> node" where
  "copy_node f n = \<lparr>node_tag = node_tag n, node_value = copy_value f (node_value n), node_start = None, node_end = None\<rparr>"

lemma copy_value_cong: "(\<And>x. x \<in> set (children v) \<Longrightarrow> f x = h x) \<Longrightarrow> copy_value f v = copy_value h v"
  by (cases v) (force simp: image_iff)+

text \<open>The place of a node in the list of nodes visited, from a base.\<close>

definition place :: "nat \<Rightarrow> node_ref list \<Rightarrow> node_ref \<Rightarrow> node_ref" where
  "place b xs x = b + length (takeWhile (\<lambda>y. y \<noteq> x) xs)"

lemma place_append: "x \<in> set xs \<Longrightarrow> place b (xs @ ys) x = place b xs x"
  by (induction xs) (auto simp: place_def)

lemma place_last: "x \<notin> set xs \<Longrightarrow> place b (xs @ [x]) x = b + length xs"
  by (induction xs) (auto simp: place_def)

lemma place_less: "x \<in> set xs \<Longrightarrow> place b xs x < b + length xs"
  by (induction xs) (auto simp: place_def)

lemma place_nth: "x \<in> set xs \<Longrightarrow> xs ! (place b xs x - b) = x"
  by (induction xs) (auto simp: place_def)

lemma place_inj: "x \<in> set xs \<Longrightarrow> y \<in> set xs \<Longrightarrow> place b xs x = place b xs y \<Longrightarrow> x = y"
  using place_nth by metis

lemma copies_stable:
  assumes "\<And>x. x \<in> set xs \<Longrightarrow> set (children (node_value (g ! x))) \<subseteq> set seen"
  shows "map (\<lambda>x. copy_node (place b (seen @ ys)) (g ! x)) xs = map (\<lambda>x. copy_node (place b seen) (g ! x)) xs"
proof (rule map_cong [OF refl])
  fix x assume "x \<in> set xs"
  then have "copy_value (place b (seen @ ys)) (node_value (g ! x)) = copy_value (place b seen) (node_value (g ! x))"
    using assms by (intro copy_value_cong) (auto intro: place_append)
  then show "copy_node (place b (seen @ ys)) (g ! x) = copy_node (place b seen) (g ! x)" by (simp add: copy_node_def)
qed

section \<open>The composer's state along a walk\<close>

definition bare :: "event_kind \<Rightarrow> event" where
  "bare e = \<lparr>ev = e, ev_start = None, ev_end = None\<rparr>"

definition answers :: "event_kind list \<Rightarrow> (yaml_error + event) list" where
  "answers es = map (\<lambda>e. Inr (bare e)) es"

lemma answers_simps [simp]:
  "answers [] = []" "answers (e # es) = Inr (bare e) # answers es" "answers (es @ es') = answers es @ answers es'"
  "ev (bare e) = e" "ev_start (bare e) = None" "ev_end (bare e) = None"
  by (simp_all add: answers_def bare_def)

definition tracks :: "nat \<Rightarrow> (node_ref \<Rightarrow> string option) \<Rightarrow> node_ref list \<Rightarrow> composer \<Rightarrow> bool" where
  "tracks b al seen c =
     (length (c_nodes c) = b + length seen \<and> path_table (c_resolver c) = [] \<and>
      (\<forall>a k. map_of (c_anchors c) a = Some k \<longleftrightarrow> (\<exists>x \<in> set seen. al x = Some a \<and> k = place b seen x)))"

definition own_names :: "(node_ref \<Rightarrow> string option) \<Rightarrow> bool" where
  "own_names al = (\<forall>x y a. al x = Some a \<longrightarrow> al y = Some a \<longrightarrow> x = y)"

text \<open>The first composition of a node: it is allocated next and takes its anchor.\<close>

lemma tracks_new:
  assumes "tracks b al seen c" and "r \<notin> set seen" and "own_names al"
    and "c_nodes c' = c_nodes c @ [n]" and "path_table (c_resolver c') = []"
    and "c_anchors c' = (case al r of None \<Rightarrow> c_anchors c | Some a \<Rightarrow> dict_set (c_anchors c) a (length (c_nodes c)))"
  shows "tracks b al (seen @ [r]) c'"
proof -
  have old: "place b (seen @ [r]) x = place b seen x" if "x \<in> set seen" for x using that by (rule place_append)
  have new: "place b (seen @ [r]) r = length (c_nodes c)" using assms(1,2) by (simp add: place_last tracks_def)
  have free: "\<nexists>x. x \<in> set seen \<and> al x = al r" if "al r \<noteq> None"
    using assms(2,3) that unfolding own_names_def by (metis not_None_eq)
  show ?thesis
  proof (cases "al r")
    case None
    then show ?thesis using assms old unfolding tracks_def by simp
  next
    case (Some a)
    then have a: "map_of (c_anchors c') = (map_of (c_anchors c))(a \<mapsto> length (c_nodes c))" using assms(6) by simp
    have "(map_of (c_anchors c') x = Some k) = (\<exists>y \<in> set (seen @ [r]). al y = Some x \<and> k = place b (seen @ [r]) y)" for x k
    proof (cases "x = a")
      case True
      have "(\<exists>y \<in> set (seen @ [r]). al y = Some x \<and> k = place b (seen @ [r]) y) \<longleftrightarrow> k = length (c_nodes c)"
        using True Some free new by auto
      then show ?thesis using a True by auto
    next
      case False
      have "(\<exists>y \<in> set (seen @ [r]). al y = Some x \<and> k = place b (seen @ [r]) y) \<longleftrightarrow>
          (\<exists>y \<in> set seen. al y = Some x \<and> k = place b seen y)"
        using False Some old by auto
      also have "\<dots> \<longleftrightarrow> map_of (c_anchors c) x = Some k" using assms(1) unfolding tracks_def by blast
      finally show ?thesis using a False by simp
    qed
    then show ?thesis using assms unfolding tracks_def by simp
  qed
qed

lemma tracks_frame:
  "tracks b al seen c \<Longrightarrow> length (c_nodes c') = length (c_nodes c) \<Longrightarrow> c_anchors c' = c_anchors c \<Longrightarrow>
   c_resolver c' = c_resolver c \<Longrightarrow> tracks b al seen c'"
  by (simp add: tracks_def)

section \<open>Steps of the composer\<close>

lemma check_event_run: "c_events c = Inr (bare e) # es \<Longrightarrow> check_event p c = (Inr (p e), c)"
  by (simp add: check_event_def peek_event_def sbind_def ret_def)

lemma get_event_run: "c_events c = Inr (bare e) # es \<Longrightarrow> get_event c = (Inr (Some (bare e)), c\<lparr>c_events := es\<rparr>)"
  by (simp add: get_event_def)

lemma peek_attr_run: "c_events c = Inr (bare e) # es \<Longrightarrow> sbind peek_event (\<lambda>e. ev_attr e id) c = (Inr (bare e), c)"
  by (simp add: peek_event_def sbind_def ev_attr_def lift_res_def)

lemma on_no_paths:
  assumes "path_table (c_resolver c) = []"
  shows "descend parent i c = (Inr (), c)" "on_resolver ascend_resolver c = (Inr (), c)"
  using assms by (simp_all add: descend_def on_resolver_def descend_resolver_def ascend_resolver_def)

lemma check_anchor_run:
  assumes "tracks b al seen c" and "r \<notin> set seen" and "own_names al"
  shows "check_anchor e (al r) c = (Inr (), c)"
proof -
  have "anchor_lookup (al r) c = None"
  proof (cases "al r")
    case (Some a)
    have "map_of (c_anchors c) a \<noteq> Some k" for k
      using assms Some unfolding tracks_def own_names_def by (metis (no_types, lifting))
    then have "map_of (c_anchors c) a = None" by (meson not_Some_eq)
    with Some show ?thesis by (simp add: anchor_lookup_def)
  qed (simp add: anchor_lookup_def)
  then show ?thesis by (simp add: check_anchor_def sbind_def ret_def)
qed

section \<open>Composing a walk\<close>

definition composes :: "nat \<Rightarrow> (node_ref \<Rightarrow> string option) \<Rightarrow> node list \<Rightarrow> node_ref list \<Rightarrow> walk \<Rightarrow> bool" where
  "composes b al g seen w =
     (\<forall>c parent i es rest. spells al g w es \<longrightarrow> tracks b al seen c \<longrightarrow> c_events c = answers es @ rest \<longrightarrow>
       (\<exists>c'. compose_node parent i c = Some (Inr (place b (seen @ news w) (root_of w)), c') \<and> c_events c' = rest \<and>
          tracks b al (seen @ news w) c' \<and>
          c_nodes c' = c_nodes c @ map (\<lambda>x. copy_node (place b (seen @ news w)) (g ! x)) (news w)))"

lemma composesD:
  assumes "composes b al g seen w" "spells al g w es" "tracks b al seen c" "c_events c = answers es @ rest"
  obtains c' where "compose_node parent i c = Some (Inr (place b (seen @ news w) (root_of w)), c')" "c_events c' = rest"
    "tracks b al (seen @ news w) c'"
    "c_nodes c' = c_nodes c @ map (\<lambda>x. copy_node (place b (seen @ news w)) (g ! x)) (news w)"
  using assms unfolding composes_def by blast

fun composes_all :: "nat \<Rightarrow> (node_ref \<Rightarrow> string option) \<Rightarrow> node list \<Rightarrow> node_ref list \<Rightarrow> walk list \<Rightarrow> bool" where
  "composes_all b al g seen [] = True"
| "composes_all b al g seen (w # ws) = (composes b al g seen w \<and> composes_all b al g (seen @ news w) ws)"

lemma spells_begin:
  assumes "spells al g w es"
  obtains e es' where "es = e # es'" "e \<noteq> SequenceEndEvent" "e \<noteq> MappingEndEvent"
  using assms by (cases w) (auto split: node_value.splits)

lemma update_node_run:
  "q < length (c_nodes c) \<Longrightarrow> update_node q f c = (Inr (), c\<lparr>c_nodes := (c_nodes c)[q := f (c_nodes c ! q)]\<rparr>)"
  by (simp add: update_node_def modify_def)

lemma sequence_items:
  "composes_all b al g seen ws \<Longrightarrow> walks_all g seen ws \<Longrightarrow> spells_all al g ws es \<Longrightarrow> tracks b al seen c \<Longrightarrow>
   c_events c = answers es @ Inr (bare SequenceEndEvent) # rest \<Longrightarrow> q < length (c_nodes c) \<Longrightarrow>
   node_value (c_nodes c ! q) = SequenceNode acc fl \<Longrightarrow>
   \<exists>c'. ploop (sequence_turn compose_node q) k c = Some (Inr (), c') \<and> c_events c' = Inr (bare SequenceEndEvent) # rest \<and>
     tracks b al (seen @ news_all ws) c' \<and>
     c_nodes c' = (c_nodes c)[q := (c_nodes c ! q)\<lparr>node_value :=
         SequenceNode (acc @ map (place b (seen @ news_all ws)) (map root_of ws)) fl\<rparr>] @
       map (\<lambda>x. copy_node (place b (seen @ news_all ws)) (g ! x)) (news_all ws)"
proof (induction ws arbitrary: seen es c acc k)
  case Nil
  then have "check_event (\<lambda>x. x = SequenceEndEvent) c = (Inr True, c)" by (simp add: check_event_run)
  then have "ploop (sequence_turn compose_node q) k c = Some (Inr (), c)"
    by (subst ploop.simps) (simp add: sequence_turn_def pbind_def run_def leave_def pret_def)
  moreover have "(c_nodes c)[q := (c_nodes c ! q)\<lparr>node_value := SequenceNode acc fl\<rparr>] = c_nodes c"
    using Nil.prems(7) by (metis list_update_id node.surjective node.update_convs(2))
  ultimately show ?case using Nil by simp
next
  case (Cons w ws)
  obtain e1 e2 where es: "es = e1 @ e2" "spells al g w e1" "spells_all al g ws e2" using Cons.prems(3) by auto
  obtain d ds where d: "e1 = d # ds" "d \<noteq> SequenceEndEvent" using es(2) by (rule spells_begin)
  let ?rest = "answers e2 @ Inr (bare SequenceEndEvent) # rest" and ?seen = "seen @ news w"
  let ?i = "place b ?seen (root_of w)" and ?copies = "map (\<lambda>x. copy_node (place b ?seen) (g ! x)) (news w)"
  have turn: "check_event (\<lambda>x. x = SequenceEndEvent) c = (Inr False, c)"
    using check_event_run [of c d "answers ds @ ?rest"] Cons.prems(5) es(1) d by simp
  obtain c1 where c1: "compose_node (Some q) (Nth k) c = Some (Inr ?i, c1)" "c_events c1 = ?rest"
      "tracks b al ?seen c1" "c_nodes c1 = c_nodes c @ ?copies"
    by (rule composesD [of b al g seen w e1 c ?rest "Some q" "Nth k"]) (use Cons.prems es(1,2) in auto)
  let ?n = "(c_nodes c ! q)\<lparr>node_value := SequenceNode (acc @ [?i]) fl\<rparr>"
  let ?c2 = "c1\<lparr>c_nodes := (c_nodes c)[q := ?n] @ ?copies\<rparr>"
  have "append_item q ?i c1 = (Inr (), ?c2)"
    using Cons.prems(6,7) c1(4) by (simp add: append_item_def update_node_run nth_append list_update_append)
  then have step: "ploop (sequence_turn compose_node q) k c = ploop (sequence_turn compose_node q) (Suc k) ?c2"
    by (subst ploop.simps) (simp add: sequence_turn_def pbind_def run_def turn c1(1) again_def pret_def)
  have "\<exists>c'. ploop (sequence_turn compose_node q) (Suc k) ?c2 = Some (Inr (), c') \<and> c_events c' = Inr (bare SequenceEndEvent) # rest \<and>
     tracks b al (?seen @ news_all ws) c' \<and>
     c_nodes c' = (c_nodes ?c2)[q := (c_nodes ?c2 ! q)\<lparr>node_value :=
         SequenceNode ((acc @ [?i]) @ map (place b (?seen @ news_all ws)) (map root_of ws)) fl\<rparr>] @
       map (\<lambda>x. copy_node (place b (?seen @ news_all ws)) (g ! x)) (news_all ws)"
    using Cons.prems c1 es(3) by (intro Cons.IH) (auto simp: nth_append intro: tracks_frame [OF c1(3)])
  then obtain c' where c': "ploop (sequence_turn compose_node q) (Suc k) ?c2 = Some (Inr (), c')"
     "c_events c' = Inr (bare SequenceEndEvent) # rest" "tracks b al (?seen @ news_all ws) c'"
     "c_nodes c' = (c_nodes ?c2)[q := (c_nodes ?c2 ! q)\<lparr>node_value :=
         SequenceNode ((acc @ [?i]) @ map (place b (?seen @ news_all ws)) (map root_of ws)) fl\<rparr>] @
       map (\<lambda>x. copy_node (place b (?seen @ news_all ws)) (g ! x)) (news_all ws)" by blast
  have w: "walks g seen w" using Cons.prems(2) by simp
  have "map (\<lambda>x. copy_node (place b (?seen @ news_all ws)) (g ! x)) (news w) = ?copies"
    using walks_children(1) [OF w] by (rule copies_stable)
  moreover have "place b (?seen @ news_all ws) (root_of w) = ?i"
    using walks_root(1) [OF w] by (rule place_append)
  ultimately show ?case using c' step Cons.prems(6) by (simp add: nth_append list_update_append)
qed

lemma mapping_items:
  "composes_all b al g seen ws \<Longrightarrow> walks_all g seen ws \<Longrightarrow> spells_all al g ws es \<Longrightarrow> tracks b al seen c \<Longrightarrow>
   c_events c = answers es @ Inr (bare MappingEndEvent) # rest \<Longrightarrow> q < length (c_nodes c) \<Longrightarrow>
   node_value (c_nodes c ! q) = MappingNode acc fl \<Longrightarrow> map root_of ws = concat (map (\<lambda>(k, v). [k, v]) pairs) \<Longrightarrow>
   \<exists>c'. ploop (\<lambda>_. mapping_turn compose_node q) () c = Some (Inr (), c') \<and> c_events c' = Inr (bare MappingEndEvent) # rest \<and>
     tracks b al (seen @ news_all ws) c' \<and>
     c_nodes c' = (c_nodes c)[q := (c_nodes c ! q)\<lparr>node_value :=
         MappingNode (acc @ map (map_prod (place b (seen @ news_all ws)) (place b (seen @ news_all ws))) pairs) fl\<rparr>] @
       map (\<lambda>x. copy_node (place b (seen @ news_all ws)) (g ! x)) (news_all ws)"
proof (induction pairs arbitrary: seen ws es c acc)
  case Nil
  then have "check_event (\<lambda>x. x = MappingEndEvent) c = (Inr True, c)" by (simp add: check_event_run)
  then have "ploop (\<lambda>_. mapping_turn compose_node q) () c = Some (Inr (), c)"
    by (subst ploop.simps) (simp add: mapping_turn_def pbind_def run_def leave_def pret_def)
  moreover have "(c_nodes c)[q := (c_nodes c ! q)\<lparr>node_value := MappingNode acc fl\<rparr>] = c_nodes c"
    using Nil.prems(7) by (metis list_update_id node.surjective node.update_convs(2))
  ultimately show ?case using Nil by simp
next
  case (Cons kv pairs)
  obtain wk wv ws' where ws: "ws = wk # wv # ws'" "kv = (root_of wk, root_of wv)"
      "map root_of ws' = concat (map (\<lambda>(k, v). [k, v]) pairs)"
    using Cons.prems(8) by (cases ws; cases "tl ws"; cases kv) auto
  obtain e1 e2 e3 where es: "es = e1 @ e2 @ e3" "spells al g wk e1" "spells al g wv e2" "spells_all al g ws' e3"
    using Cons.prems(3) ws(1) by auto
  obtain d ds where d: "e1 = d # ds" "d \<noteq> MappingEndEvent" using es(2) by (rule spells_begin)
  let ?rest2 = "answers e3 @ Inr (bare MappingEndEvent) # rest"
  let ?rest1 = "answers e2 @ ?rest2" and ?seen1 = "seen @ news wk" and ?seen2 = "(seen @ news wk) @ news wv"
  let ?k = "place b ?seen1 (root_of wk)" and ?i = "place b ?seen2 (root_of wv)"
  let ?copies1 = "map (\<lambda>x. copy_node (place b ?seen1) (g ! x)) (news wk)"
  let ?copies2 = "map (\<lambda>x. copy_node (place b ?seen2) (g ! x)) (news wv)"
  have turn: "check_event (\<lambda>x. x = MappingEndEvent) c = (Inr False, c)"
    using check_event_run [of c d "answers ds @ ?rest1"] Cons.prems(5) es(1) d by simp
  obtain c1 where c1: "compose_node (Some q) NoChild c = Some (Inr ?k, c1)" "c_events c1 = ?rest1"
      "tracks b al ?seen1 c1" "c_nodes c1 = c_nodes c @ ?copies1"
    by (rule composesD [of b al g seen wk e1 c ?rest1 "Some q" NoChild]) (use Cons.prems es(1,2) ws in auto)
  obtain c2 where c2: "compose_node (Some q) (Keyed ?k) c1 = Some (Inr ?i, c2)" "c_events c2 = ?rest2"
      "tracks b al ?seen2 c2" "c_nodes c2 = c_nodes c1 @ ?copies2"
    by (rule composesD [of b al g ?seen1 wv e2 c1 ?rest2 "Some q" "Keyed ?k"]) (use Cons.prems c1 es(3) ws in auto)
  let ?n = "(c_nodes c ! q)\<lparr>node_value := MappingNode (acc @ [(?k, ?i)]) fl\<rparr>"
  let ?c3 = "c2\<lparr>c_nodes := (c_nodes c)[q := ?n] @ ?copies1 @ ?copies2\<rparr>"
  have "append_pair q ?k ?i c2 = (Inr (), ?c3)"
    using Cons.prems(6,7) c1(4) c2(4) by (simp add: append_pair_def update_node_run nth_append list_update_append)
  then have step: "ploop (\<lambda>_. mapping_turn compose_node q) () c = ploop (\<lambda>_. mapping_turn compose_node q) () ?c3"
    by (subst ploop.simps) (simp add: mapping_turn_def pbind_def run_def turn c1(1) c2(1) again_def pret_def)
  let ?last = "?seen2 @ news_all ws'"
  have "\<exists>c'. ploop (\<lambda>_. mapping_turn compose_node q) () ?c3 = Some (Inr (), c') \<and> c_events c' = Inr (bare MappingEndEvent) # rest \<and>
     tracks b al ?last c' \<and>
     c_nodes c' = (c_nodes ?c3)[q := (c_nodes ?c3 ! q)\<lparr>node_value :=
         MappingNode ((acc @ [(?k, ?i)]) @ map (map_prod (place b ?last) (place b ?last)) pairs) fl\<rparr>] @
       map (\<lambda>x. copy_node (place b ?last) (g ! x)) (news_all ws')"
  proof (rule Cons.IH)
    show "tracks b al ?seen2 ?c3" by (rule tracks_frame [OF c2(3)]) (simp_all add: c1(4) c2(4))
  qed (use Cons.prems(1,2,6) ws c2(2) es(4) in \<open>simp_all add: nth_append\<close>)
  then obtain c' where c': "ploop (\<lambda>_. mapping_turn compose_node q) () ?c3 = Some (Inr (), c')"
     "c_events c' = Inr (bare MappingEndEvent) # rest" "tracks b al ?last c'"
     "c_nodes c' = (c_nodes ?c3)[q := (c_nodes ?c3 ! q)\<lparr>node_value :=
         MappingNode ((acc @ [(?k, ?i)]) @ map (map_prod (place b ?last) (place b ?last)) pairs) fl\<rparr>] @
       map (\<lambda>x. copy_node (place b ?last) (g ! x)) (news_all ws')" by blast
  have w: "walks g seen wk" "walks g ?seen1 wv" using Cons.prems(2) ws(1) by simp_all
  have "map (\<lambda>x. copy_node (place b (?seen1 @ (news wv @ news_all ws'))) (g ! x)) (news wk) = ?copies1"
    using walks_children(1) [OF w(1)] by (rule copies_stable)
  moreover have "map (\<lambda>x. copy_node (place b ?last) (g ! x)) (news wv) = ?copies2"
    using walks_children(1) [OF w(2)] by (rule copies_stable)
  moreover have "place b (?seen1 @ (news wv @ news_all ws')) (root_of wk) = ?k"
    using walks_root(1) [OF w(1)] by (rule place_append)
  moreover have "place b ?last (root_of wv) = ?i" using walks_root(1) [OF w(2)] by (rule place_append)
  ultimately show ?case using c' step ws Cons.prems(6) by (simp add: nth_append list_update_append)
qed

text \<open>A collection: the node is allocated empty, then filled, then closed.\<close>

definition opened :: "event_kind \<Rightarrow> (string option \<times> string option \<times> node_value) option" where
  "opened e = (case e of
     SequenceStartEvent a t imp fl \<Rightarrow> Some (a, t, SequenceNode [] fl)
   | MappingStartEvent a t imp fl \<Rightarrow> Some (a, t, MappingNode [] fl)
   | _ \<Rightarrow> None)"

lemma open_collection_run:
  assumes "c_events c = Inr (bare e) # es" and "opened e = Some (a, Some t, v)" and "t \<noteq> ''!''"
  shows "open_collection a c = (Inr (length (c_nodes c)), c\<lparr>c_events := es,
      c_nodes := c_nodes c @ [\<lparr>node_tag = t, node_value = v, node_start = None, node_end = None\<rparr>],
      c_anchors := (case a of None \<Rightarrow> c_anchors c | Some x \<Rightarrow> dict_set (c_anchors c) x (length (c_nodes c)))\<rparr>)"
  using assms
  by (cases e) (auto simp: open_collection_def opened_def sbind_def get_event_run ev_attr_def lift_res_def event_tag_def
      ret_def new_node_def set_anchor_def modify_def split: option.split)

lemma close_collection_run:
  assumes "c_events c = Inr (bare e) # es" and "q < length (c_nodes c)"
  shows "close_collection q c = (Inr (), c\<lparr>c_events := es, c_nodes := (c_nodes c)[q := (c_nodes c ! q)\<lparr>node_end := None\<rparr>]\<rparr>)"
  using assms by (simp add: close_collection_def sbind_def get_event_run ev_attr_def lift_res_def update_node_run)

lemma compose_scalar_run:
  assumes "c_events c = Inr (bare (ScalarEvent a (Some t) imp v style)) # es" and "t \<noteq> ''!''"
  shows "compose_scalar_node a c = (Inr (length (c_nodes c)), c\<lparr>c_events := es,
      c_nodes := c_nodes c @ [\<lparr>node_tag = t, node_value = ScalarNode v style, node_start = None, node_end = None\<rparr>],
      c_anchors := (case a of None \<Rightarrow> c_anchors c | Some x \<Rightarrow> dict_set (c_anchors c) x (length (c_nodes c)))\<rparr>)"
  using assms
  by (auto simp: compose_scalar_node_def sbind_def get_event_run ev_attr_def lift_res_def event_tag_def
      ret_def new_node_def set_anchor_def modify_def split: option.split)

lemma compose_alias_run:
  assumes "c_events c = Inr (bare (AliasEvent (Some a))) # es" and "map_of (c_anchors c) a = Some k"
  shows "compose_alias c = (Inr k, c\<lparr>c_events := es\<rparr>)"
  using assms by (simp add: compose_alias_def sbind_def get_event_run ev_attr_def lift_res_def gets_def anchor_lookup_def ret_def)

lemma compose_met:
  assumes "r \<in> set seen" and "al r \<noteq> None"
  shows "composes b al g seen (Met r)"
  unfolding composes_def
proof (intro allI impI)
  fix c parent i es rest
  assume "spells al g (Met r) es" and t: "tracks b al seen c" and "c_events c = answers es @ rest"
  moreover obtain a where a: "al r = Some a" using assms(2) by blast
  ultimately have e: "c_events c = Inr (bare (AliasEvent (Some a))) # rest" by simp
  have "map_of (c_anchors c) a = Some (place b seen r)" using t a assms(1) unfolding tracks_def by blast
  then have "compose_node parent i c = Some (Inr (place b seen r), c\<lparr>c_events := rest\<rparr>)"
    using e by (subst compose_node.simps) (simp add: pbind_def run_def check_event_run compose_alias_run)
  moreover have "tracks b al seen (c\<lparr>c_events := rest\<rparr>)" by (rule tracks_frame [OF t]) simp_all
  ultimately show "\<exists>c'. compose_node parent i c = Some (Inr (place b (seen @ news (Met r)) (root_of (Met r))), c') \<and> c_events c' = rest \<and>
      tracks b al (seen @ news (Met r)) c' \<and>
      c_nodes c' = c_nodes c @ map (\<lambda>x. copy_node (place b (seen @ news (Met r))) (g ! x)) (news (Met r))"
    by simp
qed

lemma pbind_step: "m s = Some (Inr x, s') \<Longrightarrow> pbind m f s = f x s'"
  by (simp add: pbind_def)

lemma pbind_act: "m s = (Inr x, s') \<Longrightarrow> pbind (run m) f s = f x s'"
  by (simp add: pbind_def run_def)

text \<open>A node that is met for the first time: up to the event of its kind, then the rest.\<close>

lemma compose_first:
  assumes e: "c_events c = Inr (bare e) # es" and "tracks b al seen c" and "r \<notin> set seen" and "own_names al"
    and "\<not> is_alias e" and "anchor_of e = Inr (al r)"
    and m: "(if is_scalar e then run (compose_scalar_node (al r)) else if is_sequence e then compose_sequence_node compose_node (al r)
        else compose_mapping_node compose_node (al r)) c = Some (Inr k, c')"
    and "path_table (c_resolver c') = []"
  shows "compose_node parent i c = Some (Inr k, c')"
proof -
  let ?M = "if is_scalar e then run (compose_scalar_node (al r)) else if is_sequence e then compose_sequence_node compose_node (al r)
        else compose_mapping_node compose_node (al r)"
  have p: "path_table (c_resolver c) = []" using assms(2) by (simp add: tracks_def)
  have "lift_res (anchor_of e) c = (Inr (al r), c)" by (simp add: lift_res_def assms(6))
  note steps = pbind_act [where m = "check_event is_alias", OF check_event_run [OF e]]
    pbind_act [where m = "sbind peek_event (\<lambda>e. ev_attr e id)", OF peek_attr_run [OF e]]
    pbind_act [where m = "lift_res (anchor_of e)", OF this]
    pbind_act [where m = "check_anchor (bare e) (al r)", OF check_anchor_run [OF assms(2-4)]]
    pbind_act [where m = "descend parent i", OF on_no_paths(1) [OF p]]
  have up: "on_resolver ascend_resolver c' = (Inr (), c')" by (rule on_no_paths(2) [OF assms(8)])
  have "compose_node parent i c = pbind ?M (\<lambda>r. pbind (run (on_resolver ascend_resolver)) (\<lambda>_. pret r)) c"
    by (subst compose_node.simps) (simp only: steps assms(5) if_False answers_simps)
  also have "\<dots> = Some (Inr k, c')"
    using m up by (simp only: pbind_def run_def option.case prod.case sum.case pret_def)
  finally show ?thesis .
qed

lemma compose_collection:
  assumes c: "c_events c = Inr (bare e) # rest1" and t: "tracks b al seen c" and "r \<notin> set seen" and "own_names al"
    and e: "opened e = Some (al r, Some tag, v)" and "tag \<noteq> ''!''"
    and loop: "\<And>c1. c_events c1 = rest1 \<Longrightarrow> tracks b al (seen @ [r]) c1 \<Longrightarrow>
      c_nodes c1 = c_nodes c @ [\<lparr>node_tag = tag, node_value = v, node_start = None, node_end = None\<rparr>] \<Longrightarrow>
      \<exists>c2. m (length (c_nodes c)) c1 = Some (Inr (), c2) \<and> c_events c2 = Inr (bare stop) # rest \<and> tracks b al seen' c2 \<and>
        c_nodes c2 = (c_nodes c1)[length (c_nodes c) := (c_nodes c1 ! length (c_nodes c))\<lparr>node_value := v'\<rparr>] @ copies"
  shows "\<exists>c'. pbind (run (open_collection (al r))) (\<lambda>q. pbind (m q) (\<lambda>_. pbind (run (close_collection q)) (\<lambda>_. pret q))) c
      = Some (Inr (length (c_nodes c)), c') \<and> c_events c' = rest \<and> tracks b al seen' c' \<and>
      c_nodes c' = c_nodes c @ \<lparr>node_tag = tag, node_value = v', node_start = None, node_end = None\<rparr> # copies"
proof -
  let ?n = "length (c_nodes c)"
  let ?c1 = "c\<lparr>c_events := rest1,
      c_nodes := c_nodes c @ [\<lparr>node_tag = tag, node_value = v, node_start = None, node_end = None\<rparr>],
      c_anchors := (case al r of None \<Rightarrow> c_anchors c | Some x \<Rightarrow> dict_set (c_anchors c) x ?n)\<rparr>"
  have o: "open_collection (al r) c = (Inr ?n, ?c1)" by (rule open_collection_run [OF c e assms(6)])
  have "tracks b al (seen @ [r]) ?c1"
    by (rule tracks_new [OF t assms(3,4)]) (use t in \<open>simp_all add: tracks_def\<close>)
  then have "\<exists>c2. m ?n ?c1 = Some (Inr (), c2) \<and> c_events c2 = Inr (bare stop) # rest \<and> tracks b al seen' c2 \<and>
        c_nodes c2 = (c_nodes ?c1)[?n := (c_nodes ?c1 ! ?n)\<lparr>node_value := v'\<rparr>] @ copies"
    by (intro loop) simp_all
  then obtain c2 where c2: "m ?n ?c1 = Some (Inr (), c2)" "c_events c2 = Inr (bare stop) # rest" "tracks b al seen' c2"
      "c_nodes c2 = c_nodes c @ \<lparr>node_tag = tag, node_value = v', node_start = None, node_end = None\<rparr> # copies"
    by (auto simp: list_update_append nth_append)
  let ?c' = "c2\<lparr>c_events := rest\<rparr>"
  have "(c_nodes c2)[?n := (c_nodes c2 ! ?n)\<lparr>node_end := None\<rparr>] = c_nodes c2"
    using c2(4) by (simp add: list_update_append nth_append)
  then have "close_collection ?n c2 = (Inr (), ?c')"
    using close_collection_run [OF c2(2), of ?n] c2(4) by simp
  then have "pbind (run (open_collection (al r))) (\<lambda>q. pbind (m q) (\<lambda>_. pbind (run (close_collection q)) (\<lambda>_. pret q))) c
      = Some (Inr ?n, ?c')"
    using o c2(1) by (simp add: pbind_def run_def pret_def)
  moreover have "tracks b al seen' ?c'" by (rule tracks_frame [OF c2(3)]) simp_all
  ultimately show ?thesis using c2(4) by (intro exI [of _ ?c']) simp
qed

lemma opened_kinds:
  assumes "opened e = Some (a, Some t, v)"
  shows "\<not> is_alias e" "\<not> is_scalar e" "anchor_of e = Inr a"
  using assms by (cases e; simp add: opened_def)+

lemma compose_scalar:
  assumes "r \<notin> set seen" and "own_names al" and "node_tag (g ! r) \<noteq> ''!''" and v: "node_value (g ! r) = ScalarNode v style"
  shows "composes b al g seen (Fresh r [])"
  unfolding composes_def
proof (intro allI impI)
  fix c parent i es rest
  assume sp: "spells al g (Fresh r []) es" and t: "tracks b al seen c" and ev: "c_events c = answers es @ rest"
  let ?ord = "seen @ [r]" and ?n = "length (c_nodes c)"
  obtain imp where "es = [ScalarEvent (al r) (Some (node_tag (g ! r))) imp v style]" using sp v by auto
  with ev have e: "c_events c = Inr (bare (ScalarEvent (al r) (Some (node_tag (g ! r))) imp v style)) # rest" by simp
  let ?c' = "c\<lparr>c_events := rest,
      c_nodes := c_nodes c @ [\<lparr>node_tag = node_tag (g ! r), node_value = ScalarNode v style, node_start = None, node_end = None\<rparr>],
      c_anchors := (case al r of None \<Rightarrow> c_anchors c | Some x \<Rightarrow> dict_set (c_anchors c) x ?n)\<rparr>"
  have p: "path_table (c_resolver ?c') = []" using t by (simp add: tracks_def)
  have t': "tracks b al ?ord ?c'" by (rule tracks_new [OF t assms(1,2) _ p]) simp_all
  have "compose_node parent i c = Some (Inr ?n, ?c')"
    by (rule compose_first [OF e t assms(1,2) _ _ _ p]) (simp_all add: run_def compose_scalar_run [OF e assms(3)])
  moreover have "place b ?ord r = ?n" using t assms(1) by (simp add: place_last tracks_def)
  ultimately show "\<exists>c'. compose_node parent i c = Some (Inr (place b (seen @ news (Fresh r [])) (root_of (Fresh r []))), c') \<and>
      c_events c' = rest \<and> tracks b al (seen @ news (Fresh r [])) c' \<and>
      c_nodes c' = c_nodes c @ map (\<lambda>x. copy_node (place b (seen @ news (Fresh r []))) (g ! x)) (news (Fresh r []))"
    using t' by (intro exI [of _ ?c']) (simp add: copy_node_def v)
qed

text \<open>One lemma for both kinds of collections: \<open>m\<close> is the loop over the items.\<close>

lemma composes_collection:
  assumes "r \<notin> set seen" and "own_names al" and "node_tag (g ! r) \<noteq> ''!''"
    and start: "\<And>es. spells al g (Fresh r ws) es \<Longrightarrow>
      \<exists>e mid. es = e # mid @ [stop] \<and> spells_all al g ws mid \<and> opened e = Some (al r, Some (node_tag (g ! r)), v) \<and> is_sequence e = ordered"
    and call: "\<And>a. (if ordered then compose_sequence_node compose_node a else compose_mapping_node compose_node a) =
      pbind (run (open_collection a)) (\<lambda>q. pbind (m q) (\<lambda>_. pbind (run (close_collection q)) (\<lambda>_. pret q)))"
    and loop: "\<And>mid c1 rest q. spells_all al g ws mid \<Longrightarrow> tracks b al (seen @ [r]) c1 \<Longrightarrow>
      c_events c1 = answers mid @ Inr (bare stop) # rest \<Longrightarrow> q < length (c_nodes c1) \<Longrightarrow> node_value (c_nodes c1 ! q) = v \<Longrightarrow>
      \<exists>c2. m q c1 = Some (Inr (), c2) \<and> c_events c2 = Inr (bare stop) # rest \<and> tracks b al ((seen @ [r]) @ news_all ws) c2 \<and>
        c_nodes c2 = (c_nodes c1)[q := (c_nodes c1 ! q)\<lparr>node_value :=
            copy_value (place b ((seen @ [r]) @ news_all ws)) (node_value (g ! r))\<rparr>] @
          map (\<lambda>x. copy_node (place b ((seen @ [r]) @ news_all ws)) (g ! x)) (news_all ws)"
  shows "composes b al g seen (Fresh r ws)"
  unfolding composes_def
proof (intro allI impI)
  fix c parent i es rest
  assume sp: "spells al g (Fresh r ws) es" and t: "tracks b al seen c" and ev: "c_events c = answers es @ rest"
  let ?ord = "(seen @ [r]) @ news_all ws" and ?n = "length (c_nodes c)" and ?tag = "node_tag (g ! r)"
  let ?copies = "map (\<lambda>x. copy_node (place b ?ord) (g ! x)) (news_all ws)" and ?v' = "copy_value (place b ?ord) (node_value (g ! r))"
  obtain e mid where mid: "spells_all al g ws mid" "es = e # mid @ [stop]"
      and o: "opened e = Some (al r, Some ?tag, v)" "is_sequence e = ordered" using start [OF sp] by blast
  have e: "c_events c = Inr (bare e) # answers mid @ Inr (bare stop) # rest" using ev mid(2) by simp
  have "\<exists>c'. (if ordered then compose_sequence_node compose_node (al r) else compose_mapping_node compose_node (al r)) c = Some (Inr ?n, c') \<and>
      c_events c' = rest \<and> tracks b al ?ord c' \<and>
      c_nodes c' = c_nodes c @ \<lparr>node_tag = ?tag, node_value = ?v', node_start = None, node_end = None\<rparr> # ?copies"
    unfolding call by (rule compose_collection [OF e t assms(1,2) o(1) assms(3)]) (rule loop [OF mid(1)], simp_all)
  then obtain c' where c': "(if ordered then compose_sequence_node compose_node (al r) else compose_mapping_node compose_node (al r)) c =
        Some (Inr ?n, c')" "c_events c' = rest" "tracks b al ?ord c'"
      "c_nodes c' = c_nodes c @ \<lparr>node_tag = ?tag, node_value = ?v', node_start = None, node_end = None\<rparr> # ?copies" by blast
  have "path_table (c_resolver c') = []" using c'(3) by (simp add: tracks_def)
  then have "compose_node parent i c = Some (Inr ?n, c')"
    using c'(1) o(2) opened_kinds [OF o(1)] by (intro compose_first [OF e t assms(1,2)]) simp_all
  moreover have "place b ?ord r = ?n" using t assms(1) place_append [of r "seen @ [r]"] by (simp add: place_last tracks_def)
  ultimately show "\<exists>c'. compose_node parent i c = Some (Inr (place b (seen @ news (Fresh r ws)) (root_of (Fresh r ws))), c') \<and>
      c_events c' = rest \<and> tracks b al (seen @ news (Fresh r ws)) c' \<and>
      c_nodes c' = c_nodes c @ map (\<lambda>x. copy_node (place b (seen @ news (Fresh r ws))) (g ! x)) (news (Fresh r ws))"
    using c' by (intro exI [of _ c']) (simp add: copy_node_def [of _ "g ! r"])
qed

lemma compose_walk:
  assumes "own_names al"
  shows "walks g seen w \<Longrightarrow> \<forall>x \<in> set (mets w). al x \<noteq> None \<Longrightarrow> \<forall>x \<in> set (news w). node_tag (g ! x) \<noteq> ''!'' \<Longrightarrow>
      composes b al g seen w"
    and "walks_all g seen ws \<Longrightarrow> \<forall>x \<in> set (mets_all ws). al x \<noteq> None \<Longrightarrow> \<forall>x \<in> set (news_all ws). node_tag (g ! x) \<noteq> ''!'' \<Longrightarrow>
      composes_all b al g seen ws"
proof (induction g seen w and g seen ws rule: walks_walks_all.induct)
  case (1 g seen r)
  then show ?case by (intro compose_met) simp_all
next
  case (2 g seen r ws)
  then have all: "composes_all b al g (seen @ [r]) ws" and w: "walks_all g (seen @ [r]) ws" and r: "r \<notin> set seen"
    and tag: "node_tag (g ! r) \<noteq> ''!''" and roots: "map root_of ws = children (node_value (g ! r))" by simp_all
  show ?case
  proof (cases "node_value (g ! r)")
    case (ScalarNode v style)
    then show ?thesis using compose_scalar [OF r assms tag] roots by simp
  next
    case (SequenceNode items fl)
    show ?thesis
    proof (rule composes_collection [OF r assms tag, where stop = SequenceEndEvent and ordered = True and v = "SequenceNode [] fl"
            and m = "\<lambda>q. ploop (sequence_turn compose_node q) 0"])
      show "\<exists>e mid. es = e # mid @ [SequenceEndEvent] \<and> spells_all al g ws mid \<and>
          opened e = Some (al r, Some (node_tag (g ! r)), SequenceNode [] fl) \<and> is_sequence e = True"
        if "spells al g (Fresh r ws) es" for es using that SequenceNode by (fastforce simp: opened_def)
    qed (use SequenceNode roots sequence_items [OF all w, where acc = "[]"] in \<open>simp_all add: compose_sequence_node_def\<close>)
  next
    case (MappingNode pairs fl)
    show ?thesis
    proof (rule composes_collection [OF r assms tag, where stop = MappingEndEvent and ordered = False and v = "MappingNode [] fl"
            and m = "\<lambda>q. ploop (\<lambda>_. mapping_turn compose_node q) ()"])
      show "\<exists>e mid. es = e # mid @ [MappingEndEvent] \<and> spells_all al g ws mid \<and>
          opened e = Some (al r, Some (node_tag (g ! r)), MappingNode [] fl) \<and> is_sequence e = False"
        if "spells al g (Fresh r ws) es" for es using that MappingNode by (fastforce simp: opened_def)
    qed (use MappingNode roots mapping_items [OF all w, where acc = "[]"] in \<open>simp_all add: compose_mapping_node_def\<close>)
  qed
qed simp_all

section \<open>Documents\<close>

definition between_documents :: "serializer \<Rightarrow> bool" where
  "between_documents s = (se_closed s = Some False \<and> serialized_nodes s = [] \<and> se_anchors s = [] \<and>
     last_anchor_id s = 0 \<and> path_table (se_resolver s) = [])"

text \<open>A document as the serializer writes it: the events of a walk from its root, with names for the nodes met again.\<close>

definition document :: "node list \<Rightarrow> node_ref \<Rightarrow> event_kind list \<Rightarrow> bool" where
  "document g r es = (\<exists>w al. walks g [] w \<and> root_of w = r \<and> spells al g w es \<and> own_names al \<and>
     (\<forall>x \<in> set (mets w). al x \<noteq> None) \<and> (\<forall>x a. al x = Some a \<longrightarrow> (\<exists>k. a = anchor_name k)))"

lemma serialize_document:
  assumes g: "closed_graph g" "r < length g" and s: "between_documents s"
  obtains s' es where "serialize opts g r s = Some (Inr (), s')" "between_documents s'" "document g r es"
    "se_events s' = se_events s @
      DocumentStartEvent (use_explicit_start opts) (use_version opts) (use_tags opts) # es @ [DocumentEndEvent (use_explicit_end opts)]"
proof -
  let ?start = "DocumentStartEvent (use_explicit_start opts) (use_version opts) (use_tags opts)"
  let ?stop = "DocumentEndEvent (use_explicit_end opts)"
  let ?s0 = "s\<lparr>se_events := se_events s @ [?start]\<rparr>"
  obtain w where w: "walks g [] w" "root_of w = r" using walk_exists [OF g] by blast
  have s0: "serialized_nodes ?s0 = []" "se_anchors ?s0 = []" "last_anchor_id ?s0 = 0" "path_table (se_resolver ?s0) = []"
    "anchors_named ?s0" "se_closed ?s0 = Some False"
    using s by (simp_all add: between_documents_def anchors_named_def)
  obtain s1 where s1: "anchor_node g r ?s0 = Some (Inr (), s1)" "anchored ?s0 (news w) (mets w) s1"
    using anchor_walk(1) [OF w(1), of ?s0] s0(2) w(2) by auto
  have named: "anchors_named s1" using s1(2) s0(5) by (simp add: anchored_def)
  have "knows s1 (news w)" using s1(2) s0(2) unfolding anchored_def knows_def by (metis append_Nil image_set list.map_disc_iff order_refl)
  then obtain s2 es where s2: "serialize_node g r None NoChild s1 = Some (Inr (), s2)" "serialized s1 es (news w) s2"
      "spells (alias_in s1) g w es"
    using serialize_walk(1) [OF w(1), of s1 None NoChild] s1(2) s0 w(2) by (auto simp: anchored_def)
  let ?s' = "s2\<lparr>se_events := se_events s2 @ [?stop], serialized_nodes := [], se_anchors := [], last_anchor_id := 0\<rparr>"
  have "serialize opts g r s = Some (Inr (), ?s')"
    using s s1(1) s2(1) by (simp add: serialize_def between_documents_def pbind_def pgets_def emit_def pmodify_def)
  moreover have "between_documents ?s'" using s1(2) s2(2) s0 by (simp add: between_documents_def serialized_def anchored_def)
  moreover have "document g r es"
  proof -
    have "alias_in s1 x = Some a \<longleftrightarrow> map_of (se_anchors s1) x = Some (Some a)" for x a
      by (auto simp: alias_in_def split: option.splits)
    then have "own_names (alias_in s1)" "\<forall>x \<in> set (mets w). alias_in s1 x \<noteq> None"
        "\<forall>x a. alias_in s1 x = Some a \<longrightarrow> (\<exists>k. a = anchor_name k)"
      using named s1(2) unfolding own_names_def anchors_named_def anchored_def by (metis, metis option.distinct(1), metis)
    with w s2(3) show ?thesis unfolding document_def by blast
  qed
  ultimately show thesis using that [of ?s' es] s1(2) s2(2) by (simp add: serialized_def anchored_def)
qed

definition composer_ready :: "composer \<Rightarrow> bool" where
  "composer_ready c = (c_anchors c = [] \<and> path_table (c_resolver c) = [])"

inductive_set reachable :: "node list \<Rightarrow> node_ref \<Rightarrow> node_ref set" for g :: "node list" and r :: node_ref where
  root: "r \<in> reachable g r"
| child: "x \<in> reachable g r \<Longrightarrow> y \<in> set (children (node_value (g ! x))) \<Longrightarrow> y \<in> reachable g r"

text \<open>
  The abstract specification: the nodes reachable from \<open>r\<close> in \<open>g\<close> and from \<open>r'\<close> in \<open>h\<close> are
  the same graph, under a renaming that identifies no two nodes.
\<close>

definition is_copy :: "node list \<Rightarrow> node_ref \<Rightarrow> node list \<Rightarrow> node_ref \<Rightarrow> bool" where
  "is_copy g r h r' = (\<exists>f. f r = r' \<and> inj_on f (reachable g r) \<and>
     (\<forall>x \<in> reachable g r. f x < length h \<and> h ! f x = copy_node f (g ! x)))"

lemma is_copy_append: "is_copy g r h r' \<Longrightarrow> is_copy g r (h @ h') r'"
  unfolding is_copy_def by (elim exE conjE, intro exI conjI) (auto simp: nth_append)

lemma walk_reaches:
  assumes "walks g [] w"
  shows "reachable g (root_of w) \<subseteq> set (news w)"
proof
  fix x assume "x \<in> reachable g (root_of w)"
  then show "x \<in> set (news w)"
  proof induction
    case root
    then show ?case using walks_root(1) [OF assms] by simp
  next
    case (child x y)
    then show ?case using walks_children(1) [OF assms, of x] by auto
  qed
qed

lemma walk_is_copy:
  assumes w: "walks g [] w" and h: "h = h0 @ map (\<lambda>x. copy_node (place (length h0) (news w)) (g ! x)) (news w)"
  shows "is_copy g (root_of w) h (place (length h0) (news w) (root_of w))"
proof -
  let ?f = "place (length h0) (news w)"
  have "?f x < length h \<and> h ! ?f x = copy_node ?f (g ! x)" if "x \<in> set (news w)" for x
  proof -
    have "?f x < length h0 + length (news w)" using that by (rule place_less)
    moreover have "length h0 \<le> ?f x" by (simp add: place_def)
    moreover have "news w ! (?f x - length h0) = x" using that by (rule place_nth)
    ultimately show ?thesis unfolding h by (simp add: nth_append)
  qed
  moreover have "inj_on ?f (set (news w))" by (auto intro: inj_onI place_inj)
  ultimately show ?thesis using walk_reaches [OF w] unfolding is_copy_def
    by (intro exI [of _ ?f]) (auto intro: inj_on_subset)
qed

lemma compose_document_walk:
  assumes w: "walks g [] w" "spells al g w es" "own_names al" "\<forall>x \<in> set (mets w). al x \<noteq> None"
    and tags: "\<forall>n \<in> set g. node_tag n \<noteq> ''!''" and g: "closed_graph g" "root_of w < length g"
    and c: "composer_ready c" "c_events c = answers (DocumentStartEvent x y z # es @ [DocumentEndEvent d]) @ rest"
  shows "\<exists>c'. compose_document c = Some (Inr (place (length (c_nodes c)) (news w) (root_of w)), c') \<and> composer_ready c' \<and>
    c_events c' = rest \<and> c_nodes c' = c_nodes c @ map (\<lambda>x. copy_node (place (length (c_nodes c)) (news w)) (g ! x)) (news w)"
proof -
  have "\<forall>x \<in> set (news w). node_tag (g ! x) \<noteq> ''!''"
    using news_bound(1) [OF g(1) w(1)] g(2) tags by (auto simp: subset_iff)
  then have comp: "composes (length (c_nodes c)) al g [] w" by (intro compose_walk(1) [OF w(3,1,4)])
  let ?c0 = "c\<lparr>c_events := answers es @ Inr (bare (DocumentEndEvent d)) # rest\<rparr>" and ?b = "length (c_nodes c)"
  have t: "tracks ?b al [] ?c0" using c(1) by (simp add: tracks_def composer_ready_def)
  obtain c1 where c1: "compose_node None NoChild ?c0 = Some (Inr (place ?b (news w) (root_of w)), c1)"
      "c_events c1 = Inr (bare (DocumentEndEvent d)) # rest" "tracks ?b al (news w) c1"
      "c_nodes c1 = c_nodes c @ map (\<lambda>x. copy_node (place ?b (news w)) (g ! x)) (news w)"
    using composesD [OF comp w(2) t, of "Inr (bare (DocumentEndEvent d)) # rest" None NoChild] by auto
  let ?c' = "c1\<lparr>c_events := rest, c_anchors := []\<rparr>"
  have "get_event c = (Inr (Some (bare (DocumentStartEvent x y z))), ?c0)" using c(2) by (simp add: get_event_def)
  then have "compose_document c = Some (Inr (place ?b (news w) (root_of w)), ?c')"
    using c1(1) get_event_run [OF c1(2)] by (simp add: compose_document_def pbind_def run_def modify_def ret_def)
  moreover have "composer_ready ?c'" using c1(3) by (simp add: composer_ready_def tracks_def)
  ultimately show ?thesis using c1(4) by (intro exI [of _ ?c']) simp
qed

lemma compose_document_run:
  assumes "document g r es" and tags: "\<forall>n \<in> set g. node_tag n \<noteq> ''!''"
    and g: "closed_graph g" "r < length g"
    and c: "composer_ready c" "c_events c = answers (DocumentStartEvent x y z # es @ [DocumentEndEvent d]) @ rest"
  shows "\<exists>c' r' new. compose_document c = Some (Inr r', c') \<and> composer_ready c' \<and> c_events c' = rest \<and>
    c_nodes c' = c_nodes c @ new \<and> is_copy g r (c_nodes c') r'"
proof -
  obtain w al where w: "walks g [] w" "root_of w = r" "spells al g w es" "own_names al" "\<forall>x \<in> set (mets w). al x \<noteq> None"
    using assms(1) unfolding document_def by blast
  obtain c' where c': "compose_document c = Some (Inr (place (length (c_nodes c)) (news w) r), c')" "composer_ready c'"
    "c_events c' = rest" "c_nodes c' = c_nodes c @ map (\<lambda>x. copy_node (place (length (c_nodes c)) (news w)) (g ! x)) (news w)"
    using compose_document_walk [OF w(1,3-5) tags g(1) _ c] w(2) g(2) by auto
  have "is_copy g r (c_nodes c') (place (length (c_nodes c)) (news w) r)"
    using walk_is_copy [OF w(1) c'(4)] w(2) by simp
  then show ?thesis using c' by blast
qed

section \<open>Streams\<close>

definition wrapped :: "serializer_options \<Rightarrow> event_kind list \<Rightarrow> event_kind list" where
  "wrapped opts es = DocumentStartEvent (use_explicit_start opts) (use_version opts) (use_tags opts) # es @
     [DocumentEndEvent (use_explicit_end opts)]"

lemma serialize_documents:
  assumes "closed_graph g"
  shows "set roots \<subseteq> {..<length g} \<Longrightarrow> between_documents s \<Longrightarrow>
    \<exists>s' docs. peach (serialize opts g) roots s = Some (Inr (), s') \<and> between_documents s' \<and>
      list_all2 (document g) roots docs \<and> se_events s' = se_events s @ concat (map (wrapped opts) docs)"
proof (induction roots arbitrary: s)
  case Nil
  then show ?case by (auto simp: pret_def)
next
  case (Cons r roots)
  have r: "r < length g" using Cons.prems(1) by simp
  obtain s1 es where s1: "serialize opts g r s = Some (Inr (), s1)" "between_documents s1" "document g r es"
      "se_events s1 = se_events s @ wrapped opts es"
    using serialize_document [OF assms r Cons.prems(2), of opts] unfolding wrapped_def by metis
  obtain s' docs where "peach (serialize opts g) roots s1 = Some (Inr (), s')" "between_documents s'"
      "list_all2 (document g) roots docs" "se_events s' = se_events s1 @ concat (map (wrapped opts) docs)"
    using Cons.IH [OF _ s1(2)] Cons.prems(1) by auto
  with s1 show ?case by (intro exI [of _ s'] exI [of _ "es # docs"]) (simp add: pbind_def)
qed

lemma check_node_run:
  "c_events c = Inr (bare e) # es \<Longrightarrow> \<not> is_stream_start e \<Longrightarrow> check_node c = (Inr (e \<noteq> StreamEndEvent), c)"
  by (simp add: check_node_def sbind_def check_event_run ret_def)

text \<open>\<open>compose_all\<close>: the stream's start is dropped, every document is one turn, and the stream's end stops the loop.\<close>

definition compose_turn :: "node_ref option list \<Rightarrow> (node_ref option list + node_ref option list) compose" where
  "compose_turn roots = pbind (run check_node) (\<lambda>b. if b then pbind get_node (\<lambda>r. again (roots @ [r])) else leave roots)"

lemma compose_all_turns: "yaml_compose_all = ploop compose_turn []"
  unfolding yaml_compose_all_def compose_turn_def ..

lemma compose_all_start:
  assumes "es = d # ds" and "\<not> is_stream_start d"
  shows "yaml_compose_all (new_composer q (answers (StreamStartEvent x # es))) = yaml_compose_all (new_composer q (answers es))"
proof -
  let ?c = "new_composer q (answers (StreamStartEvent x # es))" and ?body = "new_composer q (answers es)"
  have e: "c_events ?c = Inr (bare (StreamStartEvent x)) # answers es" "c_events ?body = Inr (bare d) # answers ds"
    "?c\<lparr>c_events := answers es\<rparr> = ?body" using assms(1) by (simp_all add: new_composer_def)
  have "check_node ?c = (Inr (d \<noteq> StreamEndEvent), ?body)"
    using e check_event_run [OF e(2)] by (simp add: check_node_def sbind_def check_event_run get_event_run ret_def)
  then have "check_node ?c = check_node ?body" using check_node_run [OF e(2) assms(2)] by simp
  then show ?thesis unfolding compose_all_turns by (subst (1 2) ploop.simps) (simp add: compose_turn_def pbind_def run_def)
qed

lemma compose_turn_end: "c_events c = answers [StreamEndEvent] \<Longrightarrow> ploop compose_turn acc c = Some (Inr acc, c)"
  using check_node_run [of c StreamEndEvent "[]"]
  by (subst ploop.simps) (simp add: compose_turn_def pbind_def run_def leave_def pret_def)

lemma compose_turn_document:
  assumes e: "c_events c = answers (wrapped opts es) @ more_events" and c1: "compose_document c = Some (Inr r, c1)"
  shows "ploop compose_turn acc c = ploop compose_turn (acc @ [Some r]) c1"
proof -
  have ce: "check_node c = (Inr True, c)" "check_event (\<lambda>k. k = StreamEndEvent) c = (Inr False, c)"
    using check_node_run [of c "DocumentStartEvent (use_explicit_start opts) (use_version opts) (use_tags opts)"]
      check_event_run [of c "DocumentStartEvent (use_explicit_start opts) (use_version opts) (use_tags opts)"] e
    by (simp_all add: wrapped_def)
  have "get_node c = Some (Inr (Some r), c1)" using ce(2) c1 by (simp add: get_node_def pbind_def run_def ret_def)
  then show ?thesis by (subst ploop.simps) (simp add: compose_turn_def pbind_def run_def ce(1) again_def pret_def)
qed

lemma compose_documents:
  assumes g: "closed_graph g" and tags: "\<forall>n \<in> set g. node_tag n \<noteq> ''!''"
  shows "list_all2 (document g) roots docs \<Longrightarrow> set roots \<subseteq> {..<length g} \<Longrightarrow> composer_ready c \<Longrightarrow>
    c_events c = answers (concat (map (wrapped opts) docs) @ [StreamEndEvent]) \<Longrightarrow>
    \<exists>c' out. ploop compose_turn acc c = Some (Inr (acc @ map Some out), c') \<and>
      list_all2 (\<lambda>r r'. is_copy g r (c_nodes c') r') roots out \<and> (\<exists>new. c_nodes c' = c_nodes c @ new)"
proof (induction roots arbitrary: docs c acc)
  case Nil
  then show ?case using compose_turn_end [of c acc] by (intro exI [of _ c] exI [of _ "[]"]) simp
next
  case (Cons r roots)
  obtain es docs' where d: "docs = es # docs'" "document g r es" "list_all2 (document g) roots docs'"
    using Cons.prems(1) by (auto simp: list_all2_Cons1)
  let ?rest = "answers (concat (map (wrapped opts) docs') @ [StreamEndEvent])"
  have e: "c_events c = answers (wrapped opts es) @ ?rest" using Cons.prems(4) d(1) by simp
  obtain c1 r' new where c1: "compose_document c = Some (Inr r', c1)" "composer_ready c1" "c_events c1 = ?rest"
      "c_nodes c1 = c_nodes c @ new" "is_copy g r (c_nodes c1) r'"
    using compose_document_run [OF d(2) tags g _ Cons.prems(3) e [unfolded wrapped_def [of opts es]]] Cons.prems(2) by auto
  obtain c' out new' where c': "ploop compose_turn (acc @ [Some r']) c1 = Some (Inr ((acc @ [Some r']) @ map Some out), c')"
      "list_all2 (\<lambda>r r'. is_copy g r (c_nodes c') r') roots out" "c_nodes c' = c_nodes c1 @ new'"
    using Cons.IH [OF d(3) _ c1(2,3), of "acc @ [Some r']"] Cons.prems(2) by auto
  have "is_copy g r (c_nodes c') r'" unfolding c'(3) by (rule is_copy_append [OF c1(5)])
  then show ?case using compose_turn_document [OF e c1(1)] c' c1(4) by (intro exI [of _ c'] exI [of _ "r' # out"]) simp
qed

text \<open>What \<open>serialize_all\<close> emits.\<close>

lemma serialize_all_events:
  assumes "closed_graph g" and "set roots \<subseteq> {..<length g}" and "path_table q = []"
  obtains s docs where "yaml_serialize_all opts g roots (new_serializer q) = Some (Inr (), s)" "list_all2 (document g) roots docs"
    "se_events s = StreamStartEvent (use_encoding opts) # concat (map (wrapped opts) docs) @ [StreamEndEvent]"
proof -
  let ?start = "StreamStartEvent (use_encoding opts)"
  let ?opened = "new_serializer q\<lparr>se_events := [?start], se_closed := Some False\<rparr>"
  have "between_documents ?opened" using assms(3) by (simp add: between_documents_def new_serializer_def)
  from serialize_documents [OF assms(1,2) this, of opts] obtain s' docs where
    s': "peach (serialize opts g) roots ?opened = Some (Inr (), s')" "between_documents s'" "list_all2 (document g) roots docs"
      "se_events s' = ?start # concat (map (wrapped opts) docs)" by auto
  let ?s = "s'\<lparr>se_events := se_events s' @ [StreamEndEvent], se_closed := Some True\<rparr>"
  have "open_serializer opts (new_serializer q) = Some (Inr (), ?opened)"
    by (simp add: open_serializer_def pbind_def pgets_def emit_def pmodify_def new_serializer_def)
  moreover have "close_serializer s' = Some (Inr (), ?s)"
    using s'(2) by (simp add: close_serializer_def pbind_def pgets_def emit_def pmodify_def between_documents_def)
  ultimately have "yaml_serialize_all opts g roots (new_serializer q) = Some (Inr (), ?s)"
    using s'(1) by (simp only: yaml_serialize_all_def pbind_def option.case prod.case sum.case)
  with that [of ?s docs] s' show thesis by simp
qed

lemma wrapped_begin: "\<exists>d ds. concat (map (wrapped opts) docs) @ [StreamEndEvent] = d # ds \<and> \<not> is_stream_start d"
  by (cases docs) (auto simp: wrapped_def)

text \<open>
  C19. What the serializer writes the composer reads back as a copy.  For every graph of nodes,
  shared and cyclic ones included, and every list of roots in it, \<open>serialize_all\<close> returns its
  events, and \<open>compose_all\<close> on these events returns one node for each root, from which the
  same graph is reachable: the tags, values and styles are the same, two references lead to
  one node where they did before, and no two nodes are merged.  The tag \<open>!\<close>, which the
  composer resolves anew, must not occur, and there are no path resolvers.
\<close>

theorem serialize_compose_copy:
  assumes "closed_graph g" and "set roots \<subseteq> {..<length g}" and "\<forall>n \<in> set g. node_tag n \<noteq> ''!''"
    and "path_table q = []" and "path_table q' = []"
  shows "\<exists>s c out. yaml_serialize_all opts g roots (new_serializer q) = Some (Inr (), s) \<and>
    yaml_compose_all (new_composer q' (answers (se_events s))) = Some (Inr (map Some out), c) \<and>
    list_all2 (\<lambda>r r'. is_copy g r (c_nodes c) r') roots out"
proof -
  obtain s docs where s: "yaml_serialize_all opts g roots (new_serializer q) = Some (Inr (), s)" "list_all2 (document g) roots docs"
    "se_events s = StreamStartEvent (use_encoding opts) # concat (map (wrapped opts) docs) @ [StreamEndEvent]"
    by (rule serialize_all_events [OF assms(1,2,4)])
  let ?body = "new_composer q' (answers (concat (map (wrapped opts) docs) @ [StreamEndEvent]))"
  have "yaml_compose_all (new_composer q' (answers (se_events s))) = yaml_compose_all ?body"
    using wrapped_begin [of opts docs] unfolding s(3) by (blast intro: compose_all_start)
  moreover have "composer_ready ?body" using assms(5) by (simp add: composer_ready_def new_composer_def)
  from compose_documents [OF assms(1,3) s(2) assms(2) this, where acc = "[]" and opts = opts]
  obtain c out where "yaml_compose_all ?body = Some (Inr (map Some out), c)"
    "list_all2 (\<lambda>r r'. is_copy g r (c_nodes c) r') roots out"
    unfolding compose_all_turns by (auto simp: new_composer_def)
  ultimately show ?thesis using s(1) by (intro exI [of _ s] exI [of _ c] exI [of _ out]) simp
qed

definition sample_graph :: "node list" where
  "sample_graph =
     [\<lparr>node_tag = seq_tag, node_value = SequenceNode [1, 0, 1] None, node_start = None, node_end = None\<rparr>,
      \<lparr>node_tag = str_tag, node_value = ScalarNode ''a'' None, node_start = None, node_end = None\<rparr>]"

lemma serialize_compose_copy_witness:
  "\<exists>s c out. yaml_serialize_all \<lparr>use_encoding = None, use_explicit_start = None, use_explicit_end = None, use_version = None,
        use_tags = None\<rparr> sample_graph [0, 1] (new_serializer (new_resolver resolver_table [])) = Some (Inr (), s) \<and>
    yaml_compose_all (new_composer (new_resolver resolver_table []) (answers (se_events s))) = Some (Inr (map Some out), c) \<and>
    list_all2 (\<lambda>r r'. is_copy sample_graph r (c_nodes c) r') [0, 1] out"
  by (rule serialize_compose_copy)
     (simp_all add: closed_graph_def sample_graph_def new_resolver_def seq_tag_def str_tag_def lessThan_def)

end
