(* ===== verification/Yaml_Scalars.thy ===== *)
theory Yaml_Scalars
  imports Py_Values Yaml_Data
begin

text \<open>
  The scalars of \<open>SafeConstructor\<close> (\<open>yaml/constructor.py\<close>) as functions of the text of a
  node: integers in their five notations, floats, booleans, timestamps and binary data, with
  the exceptions of Python they let through.
\<close>

section \<open>Integers and floats\<close>

definition remove_bars :: "string \<Rightarrow> string" where
  "remove_bars = filter (\<lambda>c. c \<noteq> CHR ''_'')"

text \<open>\<open>value[0]\<close> raises for an empty text; the sign is taken off the front.\<close>

definition signed_text :: "string \<Rightarrow> (bool \<times> string) res" where
  "signed_text v = rbind (list_get v 0) (\<lambda>c. Inr (c = CHR ''-'', if c \<in> set ''+-'' then tl v else v))"

definition with_sign :: "bool \<Rightarrow> int \<Rightarrow> int" where
  "with_sign neg i = (if neg then - i else i)"

fun int_parts :: "string list \<Rightarrow> int list res" where
  "int_parts [] = Inr []"
| "int_parts (p # ps) = rbind (py_int p) (\<lambda>i. rbind (int_parts ps) (\<lambda>is. Inr (i # is)))"

text \<open>The digits come in reverse, the base grows by 60.\<close>

fun sixty_loop :: "int list \<Rightarrow> int \<Rightarrow> int \<Rightarrow> int" where
  "sixty_loop [] base value = value"
| "sixty_loop (d # ds) base value = sixty_loop ds (base * 60) (value + d * base)"

definition yaml_int :: "string \<Rightarrow> int res" where
  "yaml_int text =
     rbind (signed_text (remove_bars text)) (\<lambda>(neg, v).
       if v = ''0'' then Inr 0
       else if startswith ''0b'' v then rbind (py_int_base 2 (drop 2 v)) (\<lambda>i. Inr (with_sign neg i))
       else if startswith ''0x'' v then rbind (py_int_base 16 (drop 2 v)) (\<lambda>i. Inr (with_sign neg i))
       else rbind (list_get v 0) (\<lambda>c.
         if c = CHR ''0'' then rbind (py_int_base 8 v) (\<lambda>i. Inr (with_sign neg i))
         else if CHR '':'' \<in> set v then
           rbind (int_parts (split_on (CHR '':'') v)) (\<lambda>ds. Inr (with_sign neg (sixty_loop (rev ds) 1 0)))
         else rbind (py_int v) (\<lambda>i. Inr (with_sign neg i))))"

definition float_sign :: "bool \<Rightarrow> pyfloat \<Rightarrow> pyfloat" where
  "float_sign neg x = (if neg then float_neg x else x)"

fun float_parts :: "string list \<Rightarrow> pyfloat list res" where
  "float_parts [] = Inr []"
| "float_parts (p # ps) = rbind (py_float p) (\<lambda>x. rbind (float_parts ps) (\<lambda>xs. Inr (x # xs)))"

fun float_sixty :: "pyfloat list \<Rightarrow> nat \<Rightarrow> pyfloat \<Rightarrow> pyfloat res" where
  "float_sixty [] base value = Inr value"
| "float_sixty (d # ds) base value = rbind (float_times d base) (\<lambda>x. float_sixty ds (base * 60) (float_add value x))"

text \<open>
  \<open>None\<close> stands for the one object \<open>nan_value\<close> of the class: two of them are the same key of
  a dictionary, two other NaNs are not.
\<close>

definition yaml_float :: "string \<Rightarrow> pyfloat option res" where
  "yaml_float text =
     rbind (signed_text (lower (remove_bars text))) (\<lambda>(neg, v).
       if v = ''.inf'' then Inr (Some (FInf neg))
       else if v = ''.nan'' then Inr None
       else if CHR '':'' \<in> set v then
         rbind (float_parts (split_on (CHR '':'') v)) (\<lambda>ds.
         rbind (float_sixty (rev ds) 1 (FZero False)) (\<lambda>x. Inr (Some (float_sign neg x))))
       else rbind (py_float v) (\<lambda>x. Inr (Some (float_sign neg x))))"

section \<open>Booleans and binary data\<close>

definition bool_values :: "(string \<times> bool) list" where
  "bool_values = [(''yes'', True), (''no'', False), (''true'', True), (''false'', False), (''on'', True), (''off'', False)]"

definition yaml_bool :: "string \<Rightarrow> bool res" where
  "yaml_bool text = of_option KeyError (map_of bool_values (lower text))"

text \<open>The message of \<open>UnicodeEncodeError\<close> for the first run of characters that are not ASCII.\<close>

definition ascii_problem :: "string \<Rightarrow> string option" where
  "ascii_problem v =
     (let s = length (takeWhile (\<lambda>c. ord c < 128) v); run = takeWhile (\<lambda>c. 128 \<le> ord c) (drop s v) in
      case run of
        [] \<Rightarrow> None
      | [c] \<Rightarrow> Some (''failed to convert base64 data into ascii: '' @ [quote] @ ''ascii'' @ [quote] @ '' codec can'' @ [quote] @
            ''t encode character '' @ [quote, CHR 0x5C, CHR ''x''] @ show_base 16 (ord c) @ [quote] @ '' in position '' @ show_nat s @
            '': ordinal not in range(128)'')
      | _ \<Rightarrow> Some (''failed to convert base64 data into ascii: '' @ [quote] @ ''ascii'' @ [quote] @ '' codec can'' @ [quote] @
            ''t encode characters in position '' @ show_nat s @ ''-'' @ show_nat (s + length run - 1) @
            '': ordinal not in range(128)''))"

text \<open>A failure is the problem that the \<open>ConstructorError\<close> states.\<close>

definition yaml_binary :: "string \<Rightarrow> string + string" where
  "yaml_binary v =
     (case ascii_problem v of
        Some p \<Rightarrow> Inl p
      | None \<Rightarrow> (case base64_decode v of
            Inl e \<Rightarrow> Inl ''failed to decode base64 data: Incorrect padding''
          | Inr bytes \<Rightarrow> Inr bytes))"

section \<open>Timestamps\<close>

text \<open>
  \<open>timestamp_regexp\<close> with its groups.  Every run of digits ends at a character that is no
  digit, so the longest run is the only one that can match.
\<close>

definition digits_upto :: "nat \<Rightarrow> nat \<Rightarrow> string \<Rightarrow> (string \<times> string) option" where
  "digits_upto lo hi s =
     (let (ds, r) = Py_Strings.span is_digit s in if lo \<le> length ds \<and> length ds \<le> hi then Some (ds, r) else None)"

fun expect :: "char \<Rightarrow> string \<Rightarrow> string option" where
  "expect c [] = None"
| "expect c (x # s) = (if x = c then Some s else None)"

record time_groups =
  g_hour :: string
  g_minute :: string
  g_second :: string
  g_fraction :: "string option"
  g_zone :: "(bool \<times> string \<times> string option) option"

text \<open>The end of the text, where one line feed may follow.\<close>

definition at_end :: "string \<Rightarrow> bool" where
  "at_end s = (s = [] \<or> s = [nl])"

definition skip_blanks :: "string \<Rightarrow> string" where
  "skip_blanks = dropWhile (\<lambda>c. c = CHR '' '' \<or> c = tab)"

text \<open>The zone: \<open>Z\<close>, or a sign (true for minus), hours, and minutes or none.\<close>

definition zone_groups :: "string \<Rightarrow> (bool \<times> string \<times> string option) option option" where
  "zone_groups s =
     (if at_end s then Some None
      else case skip_blanks s of
        [] \<Rightarrow> None
      | c # r \<Rightarrow>
          if c = CHR ''Z'' then (if at_end r then Some None else None)
          else if c = CHR ''+'' \<or> c = CHR ''-'' then
            (case digits_upto 1 2 r of
               None \<Rightarrow> None
             | Some (h, r) \<Rightarrow>
                 if at_end r then Some (Some (c = CHR ''-'', h, None))
                 else case expect (CHR '':'') r of
                   None \<Rightarrow> None
                 | Some r \<Rightarrow> (case digits_upto 2 2 r of
                     None \<Rightarrow> None
                   | Some (m, r) \<Rightarrow> if at_end r then Some (Some (c = CHR ''-'', h, Some m)) else None))
          else None)"

definition time_part :: "string \<Rightarrow> time_groups option" where
  "time_part s =
     (case digits_upto 1 2 s of None \<Rightarrow> None | Some (h, s) \<Rightarrow>
      case expect (CHR '':'') s of None \<Rightarrow> None | Some s \<Rightarrow>
      case digits_upto 2 2 s of None \<Rightarrow> None | Some (mi, s) \<Rightarrow>
      case expect (CHR '':'') s of None \<Rightarrow> None | Some s \<Rightarrow>
      case digits_upto 2 2 s of None \<Rightarrow> None | Some (sec, s) \<Rightarrow>
      let (frac, s) = (case expect (CHR ''.'') s of None \<Rightarrow> (None, s) | Some s \<Rightarrow> (let (ds, r) = Py_Strings.span is_digit s in (Some ds, r)))
      in map_option (\<lambda>z. \<lparr>g_hour = h, g_minute = mi, g_second = sec, g_fraction = frac, g_zone = z\<rparr>) (zone_groups s))"

definition timestamp_groups :: "string \<Rightarrow> (string \<times> string \<times> string \<times> time_groups option) option" where
  "timestamp_groups s =
     (case digits_upto 4 4 s of None \<Rightarrow> None | Some (y, s) \<Rightarrow>
      case expect (CHR ''-'') s of None \<Rightarrow> None | Some s \<Rightarrow>
      case digits_upto 1 2 s of None \<Rightarrow> None | Some (mo, s) \<Rightarrow>
      case expect (CHR ''-'') s of None \<Rightarrow> None | Some s \<Rightarrow>
      case digits_upto 1 2 s of None \<Rightarrow> None | Some (d, s) \<Rightarrow>
      if at_end s then Some (y, mo, d, None)
      else case s of
        [] \<Rightarrow> None
      | c # r \<Rightarrow>
          if c = CHR ''T'' \<or> c = CHR ''t'' then map_option (\<lambda>t. (y, mo, d, Some t)) (time_part r)
          else if c = CHR '' '' \<or> c = tab then map_option (\<lambda>t. (y, mo, d, Some t)) (time_part (skip_blanks r))
          else None)"

datatype timestamp = OnlyDate date | DateAndTime datetime

text \<open>The first six digits of the fraction, filled up with zeros.\<close>

definition fraction_value :: "string option \<Rightarrow> nat" where
  "fraction_value f = (case f of None \<Rightarrow> 0 | Some ds \<Rightarrow>
     if ds = [] then 0 else nat_of_digits (take 6 ds @ replicate (6 - length ds) (CHR ''0'')))"

definition zone_minutes :: "(bool \<times> string \<times> string option) option \<Rightarrow> int" where
  "zone_minutes z = (case z of None \<Rightarrow> 0 | Some (neg, h, m) \<Rightarrow>
     with_sign neg (60 * int (nat_of_digits h) + (case m of None \<Rightarrow> 0 | Some m \<Rightarrow> int (nat_of_digits m))))"

text \<open>Text that the expression does not match has no groups, an \<open>AttributeError\<close>.\<close>

definition yaml_timestamp :: "string \<Rightarrow> timestamp res" where
  "yaml_timestamp text =
     rbind (of_option AttributeError (timestamp_groups text)) (\<lambda>(y, mo, d, t). case t of
         None \<Rightarrow> rbind (new_date (nat_of_digits y) (nat_of_digits mo) (nat_of_digits d)) (\<lambda>x. Inr (OnlyDate x))
       | Some t \<Rightarrow>
           rbind (new_datetime (nat_of_digits y) (nat_of_digits mo) (nat_of_digits d) (nat_of_digits (g_hour t))
             (nat_of_digits (g_minute t)) (nat_of_digits (g_second t)) (fraction_value (g_fraction t))) (\<lambda>x.
           rbind (let delta = zone_minutes (g_zone t) in if delta \<noteq> 0 then add_minutes (- delta) x else Inr x) (\<lambda>x.
           Inr (DateAndTime x))))"

section \<open>The notations of an integer\<close>

lemma remove_bars_id: "CHR ''_'' \<notin> set s \<Longrightarrow> remove_bars s = s"
  by (auto simp: remove_bars_def filter_id_conv)

lemma show_base_no_bar: "1 < b \<Longrightarrow> b \<le> 16 \<Longrightarrow> c \<in> set ''_:'' \<Longrightarrow> c \<notin> set (show_base b n)"
  using show_base_digits [of b n] digit_in_not_special [of b c] by (cases "digit_in b c") auto

lemma signed_text_plain: "s \<noteq> [] \<Longrightarrow> hd s \<notin> set ''+-'' \<Longrightarrow> signed_text s = Inr (False, s)"
  by (cases s) (auto simp: signed_text_def list_get_def py_index_def)

lemma signed_text_minus: "signed_text (CHR ''-'' # s) = Inr (True, s)"
  by (simp add: signed_text_def list_get_def py_index_def)

definition sign_text :: "bool \<Rightarrow> string" where
  "sign_text neg = (if neg then ''-'' else [])"

lemma signed_sign_text: "s \<noteq> [] \<Longrightarrow> hd s \<notin> set ''+-'' \<Longrightarrow> signed_text (sign_text neg @ s) = Inr (neg, s)"
  by (cases neg) (simp_all add: sign_text_def signed_text_minus signed_text_plain)

lemma yaml_int_prefixed:
  assumes "(p, b) \<in> {(''0b'', 2), (''0x'', 16)}"
  shows "yaml_int (sign_text neg @ p @ show_base b n) = Inr (with_sign neg (int n))"
proof -
  have b: "1 < b" "b \<le> 16" "b \<in> {2, 8, 16}" using assms by auto
  have "CHR ''_'' \<notin> set (sign_text neg @ p @ show_base b n)"
    using assms show_base_no_bar [OF b(1,2), of "CHR ''_''" n] by (auto simp: sign_text_def)
  moreover have "py_int_base b (show_base b n) = Inr (int n)"
    by (rule py_int_base_digits [OF all_digits_show show_base_digits]) (use b in auto)
  moreover have "signed_text (sign_text neg @ p @ show_base b n) = Inr (neg, p @ show_base b n)"
    using assms by (intro signed_sign_text) auto
  ultimately show ?thesis
    using assms by (auto simp: yaml_int_def remove_bars_id startswith_def)
qed

lemma yaml_int_octal: "yaml_int (sign_text neg @ ''0'' @ show_base 8 n) = Inr (with_sign neg (int n))"
proof -
  let ?s = "''0'' @ show_base 8 n"
  have ds: "\<forall>c \<in> set ?s. digit_in 8 c \<noteq> None" using show_base_digits [of 8 n] by (auto simp: digit_in_def is_digit_def digit_val_def)
  have "show_base 8 n \<noteq> []" using all_digits_show [of 8 n] by (auto simp: all_digits_def)
  then obtain c r where c: "show_base 8 n = c # r" by (cases "show_base 8 n") auto
  have cc: "c \<notin> set ''bx''" using ds c by (auto simp: digit_in_def is_digit_def lower_char_def Let_def split: if_splits)
  have "CHR ''_'' \<notin> set (sign_text neg @ ?s)"
    using show_base_no_bar [of 8 "CHR ''_''" n] by (auto simp: sign_text_def)
  moreover have "signed_text (sign_text neg @ ?s) = Inr (neg, ?s)" by (intro signed_sign_text) auto
  moreover have "py_int_base 8 ?s = Inr (int n)"
    using py_int_base_digits [of 8 ?s n] all_digits_zero [OF all_digits_show, of 8 n] ds by simp
  ultimately show ?thesis using c cc
    by (auto simp: yaml_int_def remove_bars_id startswith_def list_get_def py_index_def)
qed

lemma show_nat_chars: "c \<in> set (show_nat n) \<Longrightarrow> is_digit c"
  using show_nat_digits by blast

lemma show_nat_zero_lead: "0 < n \<Longrightarrow> hd (show_nat n) \<noteq> CHR ''0''"
proof (induction n rule: show_nat.induct)
  case (1 n)
  show ?case
  proof (cases "n < 10")
    case True
    then show ?thesis using 1 by (subst show_nat.simps) (auto simp: digit_char_def dest: arg_cong [of _ _ ord])
  next
    case False
    then have "hd (show_nat (n div 10)) \<noteq> CHR ''0''" using 1 by simp
    then show ?thesis using False by (subst show_nat.simps) (simp add: hd_append)
  qed
qed

lemma yaml_int_decimal: "yaml_int (sign_text neg @ show_nat n) = Inr (with_sign neg (int n))"
proof (cases "n = 0")
  case True
  have "digit_char 0 = CHR ''0''" by code_simp
  with True show ?thesis by (cases neg)
    (simp_all add: show_nat.simps sign_text_def yaml_int_def remove_bars_def signed_text_def list_get_def py_index_def with_sign_def)
next
  case False
  obtain c r where c: "show_nat n = c # r" by (cases "show_nat n") simp_all
  have d: "is_digit x" if "x \<in> set (show_nat n)" for x using that by (rule show_nat_chars)
  have "CHR ''_'' \<notin> set (sign_text neg @ show_nat n)" "CHR '':'' \<notin> set (show_nat n)"
    using d [of "CHR ''_''"] d [of "CHR '':''"] by (auto simp: sign_text_def is_digit_def)
  moreover have "hd (show_nat n) \<notin> set ''+-''" using d [of "hd (show_nat n)"] by (auto simp: is_digit_def)
  then have "signed_text (sign_text neg @ show_nat n) = Inr (neg, show_nat n)" by (intro signed_sign_text) simp_all
  moreover have "c \<noteq> CHR ''0''" using show_nat_zero_lead [of n] False c by simp
  ultimately show ?thesis using c py_int_show_nat [of n]
    by (auto simp: yaml_int_def remove_bars_id startswith_def list_get_def py_index_def)
qed


end
