(* ===== verification/Yaml_Construct.thy ===== *)
theory Yaml_Construct
  imports Yaml_Scalars Yaml_Compose
begin

text \<open>
  The constructor of the bundled YAML library (\<open>yaml/constructor.py\<close>): Python objects from
  a graph of nodes.  Lists, dictionaries and sets are objects in a store, so that they can be
  shared and cyclic; a generator that has yielded its empty container is a task that fills
  the container later.  \<open>BaseConstructor\<close> and \<open>SafeConstructor\<close> are modelled, with the
  tuples and bytes of \<open>Constructor\<close>; the constructors of \<open>Constructor\<close> that import modules
  and call them are parameters, in \<open>multi_constructors\<close>.
\<close>

section \<open>Objects\<close>

type_synonym obj_ref = nat

text \<open>A float that is not a number is a key of its own: it carries the node it was made from.\<close>

datatype obj =
    ONone
  | OBool bool
  | OInt int
  | OFloat pyfloat "node_ref option"
  | OStr string
  | OBytes string
  | ODate timestamp
  | OTuple "obj list"
  | ORef obj_ref

datatype container = PyList "obj list" | PyDict "(obj \<times> obj) list" | PySet "obj list"

text \<open>
  Equality of keys is that of one representative: a boolean or an integer equals the float of
  the same value, and the two zeros are equal.
\<close>

definition number_key :: "rat \<Rightarrow> obj" where
  "number_key r = OFloat (if r = 0 then FZero False else FNum r) None"

fun key_of :: "obj \<Rightarrow> obj" where
  "key_of (OBool b) = number_key (of_bool b)"
| "key_of (OInt i) = number_key (of_int i)"
| "key_of (OFloat (FZero s) n) = number_key 0"
| "key_of (OFloat (FNum r) n) = number_key r"
| "key_of (OFloat (FInf s) n) = OFloat (FInf s) None"
| "key_of (OTuple xs) = OTuple (map key_of xs)"
| "key_of x = x"

text \<open>\<open>isinstance(key, collections.Hashable)\<close>; \<open>hash\<close> itself fails for a tuple that holds a container.\<close>

definition is_hashable :: "obj \<Rightarrow> bool" where
  "is_hashable x = (case x of ORef r \<Rightarrow> False | _ \<Rightarrow> True)"

fun can_hash :: "obj \<Rightarrow> bool" where
  "can_hash (ORef r) = False"
| "can_hash (OTuple xs) = list_all can_hash xs"
| "can_hash x = True"

fun dict_put :: "(obj \<times> obj) list \<Rightarrow> obj \<Rightarrow> obj \<Rightarrow> (obj \<times> obj) list" where
  "dict_put [] k v = [(k, v)]"
| "dict_put ((k', v') # d) k v = (if key_of k' = key_of k then (k', v) # d else (k', v') # dict_put d k v)"

definition set_add :: "obj list \<Rightarrow> obj \<Rightarrow> obj list" where
  "set_add xs x = (if key_of x \<in> key_of ` set xs then xs else xs @ [x])"

section \<open>The state\<close>

datatype constructor =
    YamlNull | YamlBool | YamlInt | YamlFloat | YamlBinary | YamlTimestamp | YamlOmap | YamlPairs | YamlSet
  | YamlStr | YamlSeq | YamlMap | YamlUndefined | PythonTuple | PlainSequence | PlainMapping

datatype task =
    FillOmap node_ref obj_ref
  | FillPairs node_ref obj_ref
  | FillSet node_ref obj_ref
  | FillSeq node_ref obj_ref
  | FillMap node_ref obj_ref

record builder =
  b_nodes :: "node list"
  constructed_objects :: "(node_ref \<times> obj) list"
  recursive_objects :: "node_ref list"
  state_generators :: "task list"
  deep_construct :: bool
  b_objects :: "container list"

type_synonym 'a build = "(builder, yaml_error, 'a) pact"

type_synonym multi = "string \<Rightarrow> node_ref \<Rightarrow> obj build"

record tables =
  yaml_constructors :: "(string option \<times> constructor) list"
  yaml_multi_constructors :: "(string option \<times> multi) list"

text \<open>\<open>add_constructor\<close> and \<open>add_multi_constructor\<close>, on the class's own copy of the table.\<close>

definition add_constructor :: "string option \<Rightarrow> constructor \<Rightarrow> tables \<Rightarrow> tables" where
  "add_constructor tag c t = t\<lparr>yaml_constructors := dict_set (yaml_constructors t) tag c\<rparr>"

definition add_multi_constructor :: "string option \<Rightarrow> multi \<Rightarrow> tables \<Rightarrow> tables" where
  "add_multi_constructor pre m t = t\<lparr>yaml_multi_constructors := dict_set (yaml_multi_constructors t) pre m\<rparr>"

definition yaml_tag :: "string \<Rightarrow> string option" where
  "yaml_tag name = Some (''tag:yaml.org,2002:'' @ name)"

definition safe_tables :: tables where
  "safe_tables =
     foldl (\<lambda>t (tag, c). add_constructor tag c t) \<lparr>yaml_constructors = [], yaml_multi_constructors = []\<rparr>
       [(yaml_tag ''null'', YamlNull), (yaml_tag ''bool'', YamlBool), (yaml_tag ''int'', YamlInt),
        (yaml_tag ''float'', YamlFloat), (yaml_tag ''binary'', YamlBinary), (yaml_tag ''timestamp'', YamlTimestamp),
        (yaml_tag ''omap'', YamlOmap), (yaml_tag ''pairs'', YamlPairs), (yaml_tag ''set'', YamlSet),
        (yaml_tag ''str'', YamlStr), (yaml_tag ''seq'', YamlSeq), (yaml_tag ''map'', YamlMap), (None, YamlUndefined)]"

text \<open>
  The tags of \<open>Constructor\<close>.  The multi-constructors import modules and call what they find
  there, and are arguments; \<open>python/complex\<close>, between the floats and the lists, is left out.
\<close>

definition python_scalar_tables :: "tables \<Rightarrow> tables" where
  "python_scalar_tables t =
     foldl (\<lambda>t (tag, c). add_constructor tag c t) t
       [(yaml_tag ''python/none'', YamlNull), (yaml_tag ''python/bool'', YamlBool), (yaml_tag ''python/str'', YamlStr),
        (yaml_tag ''python/unicode'', YamlStr), (yaml_tag ''python/bytes'', YamlBinary), (yaml_tag ''python/int'', YamlInt),
        (yaml_tag ''python/long'', YamlInt), (yaml_tag ''python/float'', YamlFloat)]"

definition python_collection_tables :: "tables \<Rightarrow> tables" where
  "python_collection_tables t =
     foldl (\<lambda>t (tag, c). add_constructor tag c t) t
       [(yaml_tag ''python/list'', YamlSeq), (yaml_tag ''python/tuple'', PythonTuple), (yaml_tag ''python/dict'', YamlMap)]"

definition python_multi_tables :: "multi \<Rightarrow> multi \<Rightarrow> multi \<Rightarrow> multi \<Rightarrow> multi \<Rightarrow> tables \<Rightarrow> tables" where
  "python_multi_tables name modul object apply new t =
     foldl (\<lambda>t (pre, m). add_multi_constructor pre m t) t
       [(yaml_tag ''python/name:'', name), (yaml_tag ''python/module:'', modul), (yaml_tag ''python/object:'', object),
        (yaml_tag ''python/object/apply:'', apply), (yaml_tag ''python/object/new:'', new)]"

definition python_tables :: "multi \<Rightarrow> multi \<Rightarrow> multi \<Rightarrow> multi \<Rightarrow> multi \<Rightarrow> tables" where
  "python_tables name modul object apply new =
     python_multi_tables name modul object apply new (python_collection_tables (python_scalar_tables safe_tables))"

definition node_at :: "node_ref \<Rightarrow> node build" where
  "node_at r = pgets (\<lambda>s. b_nodes s ! r)"

definition constructor_error :: "string option \<Rightarrow> mark option \<Rightarrow> string \<Rightarrow> mark option \<Rightarrow> 'a build" where
  "constructor_error c cm p pm = pthrow (ConstructorError \<lparr>err_context = c, err_context_mark = cm, err_problem = Some p,
     err_problem_mark = pm, err_note = None\<rparr>)"

definition raises :: "'a res \<Rightarrow> 'a build" where
  "raises r = (case r of Inl e \<Rightarrow> pthrow (Raised e) | Inr x \<Rightarrow> pret x)"

fun node_id :: "node_value \<Rightarrow> string" where
  "node_id (ScalarNode v style) = ''scalar''"
| "node_id (SequenceNode items fl) = ''sequence''"
| "node_id (MappingNode pairs fl) = ''mapping''"

definition new_object :: "container \<Rightarrow> obj_ref build" where
  "new_object c = (\<lambda>s. Some (Inr (length (b_objects s)), s\<lparr>b_objects := b_objects s @ [c]\<rparr>))"

definition update_object :: "obj_ref \<Rightarrow> (container \<Rightarrow> container) \<Rightarrow> unit build" where
  "update_object d f = pmodify (\<lambda>s. s\<lparr>b_objects := (b_objects s)[d := f (b_objects s ! d)]\<rparr>)"

section \<open>Scalars\<close>

definition merge_tag :: string where "merge_tag = ''tag:yaml.org,2002:merge''"
definition value_tag :: string where "value_tag = ''tag:yaml.org,2002:value''"

definition value_pair :: "node list \<Rightarrow> (node_ref \<times> node_ref) list \<Rightarrow> node_ref option" where
  "value_pair g pairs = map_option snd (find (\<lambda>(k, v). node_tag (g ! k) = value_tag) pairs)"

text \<open>A mapping with a key \<open>=\<close> stands for the scalar under it; a cycle of these does not end.\<close>

partial_function (option) construct_scalar ::
  "node_ref \<Rightarrow> builder \<Rightarrow> ((yaml_error + string) \<times> builder) option" where
  "construct_scalar r s =
     (let n = b_nodes s ! r in
      case (case node_value n of MappingNode pairs fl \<Rightarrow> value_pair (b_nodes s) pairs | _ \<Rightarrow> None) of
        Some v \<Rightarrow> construct_scalar v s
      | None \<Rightarrow> (case node_value n of
            ScalarNode v style \<Rightarrow> pret v s
          | _ \<Rightarrow> constructor_error None None (''expected a scalar node, but found '' @ node_id (node_value n)) (node_start n) s))"

definition construct_yaml_binary :: "node_ref \<Rightarrow> obj build" where
  "construct_yaml_binary r =
     pbind (construct_scalar r) (\<lambda>v. pbind (node_at r) (\<lambda>n.
       case yaml_binary v of Inl p \<Rightarrow> constructor_error None None p (node_start n) | Inr bytes \<Rightarrow> pret (OBytes bytes)))"

text \<open>The expression is matched against \<open>node.value\<close>, which is a list where a mapping stands for a scalar.\<close>

definition construct_yaml_timestamp :: "node_ref \<Rightarrow> obj build" where
  "construct_yaml_timestamp r =
     pbind (construct_scalar r) (\<lambda>_. pbind (node_at r) (\<lambda>n.
       case node_value n of
         ScalarNode v style \<Rightarrow> pbind (raises (yaml_timestamp v)) (\<lambda>t. pret (ODate t))
       | _ \<Rightarrow> pthrow (Raised TypeError)))"

definition construct_yaml_float :: "node_ref \<Rightarrow> obj build" where
  "construct_yaml_float r =
     pbind (construct_scalar r) (\<lambda>v. pbind (raises (yaml_float v)) (\<lambda>x. pret (case x of
         None \<Rightarrow> OFloat FNan None | Some FNan \<Rightarrow> OFloat FNan (Some r) | Some x \<Rightarrow> OFloat x None)))"

section \<open>Merge keys\<close>

definition pairs_of :: "node_value \<Rightarrow> (node_ref \<times> node_ref) list" where
  "pairs_of v = (case v of MappingNode pairs fl \<Rightarrow> pairs | _ \<Rightarrow> [])"

fun with_pairs :: "((node_ref \<times> node_ref) list \<Rightarrow> (node_ref \<times> node_ref) list) \<Rightarrow> node \<Rightarrow> node" where
  "with_pairs f n = (case node_value n of MappingNode pairs fl \<Rightarrow> n\<lparr>node_value := MappingNode (f pairs) fl\<rparr> | _ \<Rightarrow> n)"

definition set_node :: "node_ref \<Rightarrow> (node \<Rightarrow> node) \<Rightarrow> unit build" where
  "set_node r f = pmodify (\<lambda>s. s\<lparr>b_nodes := (b_nodes s)[r := f (b_nodes s ! r)]\<rparr>)"

definition current_pairs :: "node_ref \<Rightarrow> (node_ref \<times> node_ref) list build" where
  "current_pairs r = pbind (node_at r) (\<lambda>n. pret (pairs_of (node_value n)))"

text \<open>The values of a list of mappings to merge, each flattened first.\<close>

definition submerge :: "(node_ref \<Rightarrow> unit build) \<Rightarrow> node_ref \<Rightarrow> node_ref \<Rightarrow> (node_ref \<times> node_ref) list build" where
  "submerge flatten r sub =
     pbind (node_at sub) (\<lambda>n. case node_value n of
         MappingNode pairs fl \<Rightarrow> pbind (flatten sub) (\<lambda>_. current_pairs sub)
       | _ \<Rightarrow> pbind (node_at r) (\<lambda>m. constructor_error (Some ''while constructing a mapping'') (node_start m)
           (''expected a mapping for merging, but found '' @ node_id (node_value n)) (node_start n)))"

definition merged_pairs :: "(node_ref \<Rightarrow> unit build) \<Rightarrow> node_ref \<Rightarrow> node_ref \<Rightarrow> (node_ref \<times> node_ref) list build" where
  "merged_pairs flatten r v =
     pbind (node_at v) (\<lambda>n. case node_value n of
         MappingNode pairs fl \<Rightarrow> pbind (flatten v) (\<lambda>_. current_pairs v)
       | SequenceNode items fl \<Rightarrow> pbind (pcollect (submerge flatten r) items) (\<lambda>vs. pret (concat (rev vs)))
       | ScalarNode t style \<Rightarrow> pbind (node_at r) (\<lambda>m. constructor_error (Some ''while constructing a mapping'') (node_start m)
           (''expected a mapping or list of mappings for merging, but found '' @ node_id (node_value n)) (node_start n)))"

definition flatten_turn ::
  "(node_ref \<Rightarrow> unit build) \<Rightarrow> node_ref \<Rightarrow> nat \<times> (node_ref \<times> node_ref) list \<Rightarrow>
   (nat \<times> (node_ref \<times> node_ref) list + (node_ref \<times> node_ref) list) build" where
  "flatten_turn flatten r = (\<lambda>(index, merge).
     pbind (current_pairs r) (\<lambda>pairs.
       if length pairs \<le> index then leave merge else
       pbind (node_at (fst (pairs ! index))) (\<lambda>k.
         if node_tag k = merge_tag then
           pbind (set_node r (with_pairs (\<lambda>ps. take index ps @ drop (Suc index) ps))) (\<lambda>_.
           pbind (merged_pairs flatten r (snd (pairs ! index))) (\<lambda>ps. again (index, merge @ ps)))
         else if node_tag k = value_tag then
           pbind (set_node (fst (pairs ! index)) (\<lambda>n. n\<lparr>node_tag := str_tag\<rparr>)) (\<lambda>_. again (Suc index, merge))
         else again (Suc index, merge))))"

lemma merge_mono [partial_function_mono]:
  assumes "\<And>x s. mono_option (\<lambda>f. flatten f x s)"
  shows "mono_option (\<lambda>f. merged_pairs (flatten f) r v s)" and "mono_option (\<lambda>f. submerge (flatten f) r v s)"
proof -
  have sub: "mono_option (\<lambda>f. submerge (flatten f) r v s)" for v s
    unfolding submerge_def
    by (intro pbind_mono option.const_mono; case_tac "node_value x") (auto intro!: pbind_mono assms option.const_mono)
  then show "mono_option (\<lambda>f. submerge (flatten f) r v s)" .
  show "mono_option (\<lambda>f. merged_pairs (flatten f) r v s)"
    unfolding merged_pairs_def
    by (intro pbind_mono option.const_mono; case_tac "node_value x")
       (auto intro!: pbind_mono pcollect_mono sub assms option.const_mono)
qed

lemma flatten_turn_mono [partial_function_mono]:
  assumes "\<And>x s. mono_option (\<lambda>f. flatten f x s)"
  shows "mono_option (\<lambda>f. flatten_turn (flatten f) r x s)"
  unfolding flatten_turn_def case_prod_unfold by (intro partial_function_mono assms)

partial_function (option) flatten_mapping :: "node_ref \<Rightarrow> builder \<Rightarrow> ((yaml_error + unit) \<times> builder) option" where
  "flatten_mapping r s =
     pbind (ploop (flatten_turn flatten_mapping r) (0, [])) (\<lambda>merge.
       if merge \<noteq> [] then set_node r (with_pairs (\<lambda>ps. merge @ ps)) else pret ()) s"

section \<open>Collections\<close>

type_synonym construct_call = "node_ref \<Rightarrow> bool \<Rightarrow> obj build"

definition expected_node :: "string \<Rightarrow> node \<Rightarrow> 'a build" where
  "expected_node what n =
     constructor_error None None (''expected a '' @ what @ '' node, but found '' @ node_id (node_value n)) (node_start n)"

definition construct_sequence :: "construct_call \<Rightarrow> node_ref \<Rightarrow> bool \<Rightarrow> obj list build" where
  "construct_sequence call r deep =
     pbind (node_at r) (\<lambda>n. case node_value n of
         SequenceNode items fl \<Rightarrow> pcollect (\<lambda>x. call x deep) items
       | _ \<Rightarrow> expected_node ''sequence'' n)"

definition construct_key :: "construct_call \<Rightarrow> node \<Rightarrow> node_ref \<Rightarrow> bool \<Rightarrow> obj build" where
  "construct_key call n k deep =
     pbind (call k deep) (\<lambda>key.
       if is_hashable key then pret key
       else pbind (node_at k) (\<lambda>kn. constructor_error (Some ''while constructing a mapping'') (node_start n)
         ''found unhashable key'' (node_start kn)))"

fun mapping_loop ::
  "construct_call \<Rightarrow> node \<Rightarrow> bool \<Rightarrow> (node_ref \<times> node_ref) list \<Rightarrow> (obj \<times> obj) list \<Rightarrow> (obj \<times> obj) list build" where
  "mapping_loop call n deep [] m = pret m"
| "mapping_loop call n deep ((k, v) # ps) m =
     pbind (construct_key call n k deep) (\<lambda>key.
     pbind (call v deep) (\<lambda>x.
       if can_hash key then mapping_loop call n deep ps (dict_put m key x) else pthrow (Raised TypeError)))"

definition base_construct_mapping :: "construct_call \<Rightarrow> node_ref \<Rightarrow> bool \<Rightarrow> (obj \<times> obj) list build" where
  "base_construct_mapping call r deep =
     pbind (node_at r) (\<lambda>n. case node_value n of
         MappingNode pairs fl \<Rightarrow> mapping_loop call n deep pairs []
       | _ \<Rightarrow> expected_node ''mapping'' n)"

definition is_mapping_node :: "node \<Rightarrow> bool" where
  "is_mapping_node n = (case node_value n of MappingNode pairs fl \<Rightarrow> True | _ \<Rightarrow> False)"

text \<open>\<open>SafeConstructor.construct_mapping\<close>\<close>

definition construct_mapping :: "construct_call \<Rightarrow> node_ref \<Rightarrow> bool \<Rightarrow> (obj \<times> obj) list build" where
  "construct_mapping call r deep =
     pbind (node_at r) (\<lambda>n.
     pbind (if is_mapping_node n then flatten_mapping r else pret ()) (\<lambda>_.
     base_construct_mapping call r deep))"

definition construct_pairs :: "construct_call \<Rightarrow> node_ref \<Rightarrow> bool \<Rightarrow> (obj \<times> obj) list build" where
  "construct_pairs call r deep =
     pbind (node_at r) (\<lambda>n. case node_value n of
         MappingNode pairs fl \<Rightarrow> pcollect (\<lambda>(k, v). pbind (call k deep) (\<lambda>x. pbind (call v deep) (\<lambda>y. pret (x, y)))) pairs
       | _ \<Rightarrow> expected_node ''mapping'' n)"

section \<open>The generators\<close>

text \<open>One element of an ordered map, or of a list of pairs.\<close>

definition construct_single :: "construct_call \<Rightarrow> string \<Rightarrow> node_ref \<Rightarrow> obj_ref \<Rightarrow> node_ref \<Rightarrow> unit build" where
  "construct_single call context r d sub =
     pbind (node_at r) (\<lambda>n. pbind (node_at sub) (\<lambda>m. case node_value m of
         MappingNode pairs fl \<Rightarrow>
           if length pairs \<noteq> 1 then constructor_error (Some context) (node_start n)
             (''expected a single mapping item, but found '' @ show_nat (length pairs) @ '' items'') (node_start m)
           else pbind (call (fst (hd pairs)) False) (\<lambda>x. pbind (call (snd (hd pairs)) False) (\<lambda>y.
             update_object d (\<lambda>c. case c of PyList xs \<Rightarrow> PyList (xs @ [OTuple [x, y]]) | _ \<Rightarrow> c)))
       | _ \<Rightarrow> constructor_error (Some context) (node_start n)
           (''expected a mapping of length 1, but found '' @ node_id (node_value m)) (node_start m)))"

definition fill_pairs :: "construct_call \<Rightarrow> string \<Rightarrow> node_ref \<Rightarrow> obj_ref \<Rightarrow> unit build" where
  "fill_pairs call context r d =
     pbind (node_at r) (\<lambda>n. case node_value n of
         SequenceNode items fl \<Rightarrow> peach (construct_single call context r d) items
       | _ \<Rightarrow> constructor_error (Some context) (node_start n)
           (''expected a sequence, but found '' @ node_id (node_value n)) (node_start n))"

definition fill_seq :: "construct_call \<Rightarrow> node_ref \<Rightarrow> obj_ref \<Rightarrow> unit build" where
  "fill_seq call r d =
     pbind (construct_sequence call r False) (\<lambda>ys.
     update_object d (\<lambda>c. case c of PyList xs \<Rightarrow> PyList (xs @ ys) | _ \<Rightarrow> c))"

definition fill_map :: "construct_call \<Rightarrow> node_ref \<Rightarrow> obj_ref \<Rightarrow> unit build" where
  "fill_map call r d =
     pbind (construct_mapping call r False) (\<lambda>m.
     update_object d (\<lambda>c. case c of PyDict xs \<Rightarrow> PyDict (foldl (\<lambda>d (k, v). dict_put d k v) xs m) | _ \<Rightarrow> c))"

definition fill_set :: "construct_call \<Rightarrow> node_ref \<Rightarrow> obj_ref \<Rightarrow> unit build" where
  "fill_set call r d =
     pbind (construct_mapping call r False) (\<lambda>m.
     update_object d (\<lambda>c. case c of PySet xs \<Rightarrow> PySet (foldl (\<lambda>d (k, v). set_add d k) xs m) | _ \<Rightarrow> c))"

fun run_task :: "construct_call \<Rightarrow> task \<Rightarrow> unit build" where
  "run_task call (FillOmap r d) = fill_pairs call ''while constructing an ordered map'' r d"
| "run_task call (FillPairs r d) = fill_pairs call ''while constructing pairs'' r d"
| "run_task call (FillSet r d) = fill_set call r d"
| "run_task call (FillSeq r d) = fill_seq call r d"
| "run_task call (FillMap r d) = fill_map call r d"

section \<open>Objects of nodes\<close>

text \<open>
  The choice of a constructor.  The loop over the prefixes meets the key \<open>None\<close> as it meets
  any other and raises there, so what follows the loop never finds that key.
\<close>

fun multi_constructor :: "(string option \<times> multi) list \<Rightarrow> string \<Rightarrow> (string \<times> multi) option res" where
  "multi_constructor [] tag = Inr None"
| "multi_constructor ((None, m) # ms) tag = Inl TypeError"
| "multi_constructor ((Some p, m) # ms) tag =
     (if startswith p tag then Inr (Some (drop (length p) tag, m)) else multi_constructor ms tag)"

definition plain_constructor :: "node_value \<Rightarrow> constructor" where
  "plain_constructor v = (case v of ScalarNode t style \<Rightarrow> YamlStr | SequenceNode items fl \<Rightarrow> PlainSequence
     | MappingNode pairs fl \<Rightarrow> PlainMapping)"

definition find_constructor :: "tables \<Rightarrow> node \<Rightarrow> (constructor + string \<times> multi) res" where
  "find_constructor t n =
     (case map_of (yaml_constructors t) (Some (node_tag n)) of
        Some c \<Rightarrow> Inr (Inl c)
      | None \<Rightarrow> rbind (multi_constructor (yaml_multi_constructors t) (node_tag n)) (\<lambda>m. case m of
            Some sm \<Rightarrow> Inr (Inr sm)
          | None \<Rightarrow> (case map_of (yaml_constructors t) None of
                Some c \<Rightarrow> Inr (Inl c)
              | None \<Rightarrow> Inr (Inl (plain_constructor (node_value n))))))"

text \<open>What calling a constructor gives: an object, and the rest of it where it is a generator.\<close>

definition container_of :: "container \<Rightarrow> (obj_ref \<Rightarrow> task) \<Rightarrow> (obj \<times> task option) build" where
  "container_of c t = pbind (new_object c) (\<lambda>d. pret (ORef d, Some (t d)))"

definition whole :: "obj build \<Rightarrow> (obj \<times> task option) build" where
  "whole m = pbind m (\<lambda>x. pret (x, None))"

fun call_constructor :: "construct_call \<Rightarrow> constructor \<Rightarrow> node_ref \<Rightarrow> (obj \<times> task option) build" where
  "call_constructor call YamlNull r = whole (pbind (construct_scalar r) (\<lambda>_. pret ONone))"
| "call_constructor call YamlBool r = whole (pbind (construct_scalar r) (\<lambda>v. pbind (raises (yaml_bool v)) (\<lambda>b. pret (OBool b))))"
| "call_constructor call YamlInt r = whole (pbind (construct_scalar r) (\<lambda>v. pbind (raises (yaml_int v)) (\<lambda>i. pret (OInt i))))"
| "call_constructor call YamlFloat r = whole (construct_yaml_float r)"
| "call_constructor call YamlBinary r = whole (construct_yaml_binary r)"
| "call_constructor call YamlTimestamp r = whole (construct_yaml_timestamp r)"
| "call_constructor call YamlStr r = whole (pbind (construct_scalar r) (\<lambda>v. pret (OStr v)))"
| "call_constructor call YamlOmap r = container_of (PyList []) (FillOmap r)"
| "call_constructor call YamlPairs r = container_of (PyList []) (FillPairs r)"
| "call_constructor call YamlSet r = container_of (PySet []) (FillSet r)"
| "call_constructor call YamlSeq r = container_of (PyList []) (FillSeq r)"
| "call_constructor call YamlMap r = container_of (PyDict []) (FillMap r)"
| "call_constructor call YamlUndefined r = pbind (node_at r) (\<lambda>n. constructor_error None None
     (''could not determine a constructor for the tag '' @ repr_string (node_tag n)) (node_start n))"
| "call_constructor call PythonTuple r = whole (pbind (construct_sequence call r False) (\<lambda>xs. pret (OTuple xs)))"
| "call_constructor call PlainSequence r = whole (pbind (construct_sequence call r False) (\<lambda>xs.
     pbind (new_object (PyList xs)) (\<lambda>d. pret (ORef d))))"
| "call_constructor call PlainMapping r = whole (pbind (construct_mapping call r False) (\<lambda>m.
     pbind (new_object (PyDict m)) (\<lambda>d. pret (ORef d))))"

definition enter_object :: "node_ref \<Rightarrow> bool \<Rightarrow> bool build" where
  "enter_object r deep =
     pbind (pgets deep_construct) (\<lambda>old.
     pbind (if deep then pmodify (\<lambda>s. s\<lparr>deep_construct := True\<rparr>) else pret ()) (\<lambda>_.
     pbind (pgets (\<lambda>s. r \<in> set (recursive_objects s))) (\<lambda>again.
     pbind (if again then pbind (node_at r) (\<lambda>n. constructor_error None None ''found unconstructable recursive node'' (node_start n))
            else pmodify (\<lambda>s. s\<lparr>recursive_objects := recursive_objects s @ [r]\<rparr>)) (\<lambda>_.
     pret old))))"

definition leave_object :: "node_ref \<Rightarrow> bool \<Rightarrow> bool \<Rightarrow> obj \<Rightarrow> obj build" where
  "leave_object r deep old x =
     pbind (pmodify (\<lambda>s. s\<lparr>constructed_objects := dict_set (constructed_objects s) r x,
       recursive_objects := removeAll r (recursive_objects s)\<rparr>)) (\<lambda>_.
     pbind (if deep then pmodify (\<lambda>s. s\<lparr>deep_construct := old\<rparr>) else pret ()) (\<lambda>_. pret x))"

definition make_object :: "tables \<Rightarrow> construct_call \<Rightarrow> node_ref \<Rightarrow> (obj \<times> task option) build" where
  "make_object t call r =
     pbind (node_at r) (\<lambda>n. pbind (raises (find_constructor t n)) (\<lambda>c.
       case c of Inl c \<Rightarrow> call_constructor call c r | Inr (rest, m) \<Rightarrow> whole (m rest r)))"

definition finish_object :: "construct_call \<Rightarrow> task option \<Rightarrow> unit build" where
  "finish_object call t =
     (case t of None \<Rightarrow> pret ()
      | Some t \<Rightarrow> pbind (pgets deep_construct) (\<lambda>now. if now then run_task call t
          else pmodify (\<lambda>s. s\<lparr>state_generators := state_generators s @ [t]\<rparr>)))"

lemma construct_sequence_mono:
  assumes call: "\<And>x d s. mono_option (\<lambda>f. call f x d s)"
  shows "mono_option (\<lambda>f. construct_sequence (call f) r d s)"
  unfolding construct_sequence_def
  by (intro pbind_mono option.const_mono; case_tac "node_value x") (auto intro!: pcollect_mono call option.const_mono)

lemma mapping_loop_mono:
  assumes call: "\<And>x d s. mono_option (\<lambda>f. call f x d s)"
  shows "mono_option (\<lambda>f. mapping_loop (call f) n d ps m s)"
proof (induction ps arbitrary: m s)
  case (Cons p ps)
  have key: "mono_option (\<lambda>f. construct_key (call f) n k d s)" for k s
    unfolding construct_key_def by (intro partial_function_mono call)
  show ?case by (cases p) (simp add: pbind_mono key call if_act_mono Cons option.const_mono)
qed (simp add: option.const_mono)

lemma construct_mapping_mono:
  assumes call: "\<And>x d s. mono_option (\<lambda>f. call f x d s)"
  shows "mono_option (\<lambda>f. construct_mapping (call f) r d s)"
  unfolding construct_mapping_def base_construct_mapping_def
  by (intro pbind_mono option.const_mono; case_tac "node_value xb") (auto intro!: mapping_loop_mono [OF call] option.const_mono)

lemma construct_single_mono:
  assumes call: "\<And>x d s. mono_option (\<lambda>f. call f x d s)"
  shows "mono_option (\<lambda>f. construct_single (call f) c r d sub s)"
  unfolding construct_single_def
  by (intro pbind_mono option.const_mono; case_tac "node_value xa")
     (auto intro!: pbind_mono if_act_mono call option.const_mono)

lemma run_task_mono:
  assumes call: "\<And>x d s. mono_option (\<lambda>f. call f x d s)"
  shows "mono_option (\<lambda>f. run_task (call f) t s)"
proof -
  have fill: "mono_option (\<lambda>f. fill_pairs (call f) c r d s)" for c r d s
    unfolding fill_pairs_def
    by (intro pbind_mono option.const_mono; case_tac "node_value x")
       (auto intro!: peach_mono construct_single_mono [OF call] option.const_mono)
  show ?thesis
    by (cases t) (simp_all add: fill fill_seq_def fill_map_def fill_set_def pbind_mono construct_sequence_mono [OF call]
        construct_mapping_mono [OF call] option.const_mono)
qed

lemma call_constructor_mono:
  assumes call: "\<And>x d s. mono_option (\<lambda>f. call f x d s)"
  shows "mono_option (\<lambda>f. call_constructor (call f) c r s)"
  by (cases c) (simp_all add: whole_def pbind_mono construct_sequence_mono [OF call] construct_mapping_mono [OF call] option.const_mono)

lemma make_object_mono:
  assumes call: "\<And>x d s. mono_option (\<lambda>f. call f x d s)"
  shows "mono_option (\<lambda>f. make_object t (call f) r s)"
  unfolding make_object_def
  by (intro pbind_mono option.const_mono; case_tac xa)
     (auto intro!: call_constructor_mono [OF call] option.const_mono split: prod.split)

lemma finish_object_mono:
  assumes call: "\<And>x d s. mono_option (\<lambda>f. call f x d s)"
  shows "mono_option (\<lambda>f. finish_object (call f) t s)"
  unfolding finish_object_def
  by (cases t) (auto intro!: pbind_mono if_act_mono run_task_mono [OF call] option.const_mono)

declare make_object_mono [partial_function_mono] finish_object_mono [partial_function_mono]

partial_function (option) construct_object ::
  "tables \<Rightarrow> node_ref \<Rightarrow> bool \<Rightarrow> builder \<Rightarrow> ((yaml_error + obj) \<times> builder) option" where
  "construct_object t r deep s =
     (case map_of (constructed_objects s) r of
        Some x \<Rightarrow> pret x s
      | None \<Rightarrow>
          pbind (enter_object r deep) (\<lambda>old.
          pbind (make_object t (construct_object t) r) (\<lambda>p.
          pbind (finish_object (construct_object t) (snd p)) (\<lambda>_.
          leave_object r deep old (fst p)))) s)"

section \<open>Documents\<close>

text \<open>The rounds of \<open>while self.state_generators\<close>: a round runs the generators of the last one.\<close>

definition generators_turn :: "tables \<Rightarrow> (unit + unit) build" where
  "generators_turn t =
     pbind (pgets state_generators) (\<lambda>tasks.
       if tasks = [] then leave () else
       pbind (pmodify (\<lambda>s. s\<lparr>state_generators := []\<rparr>)) (\<lambda>_.
       pbind (peach (run_task (construct_object t)) tasks) (\<lambda>_. again ())))"

definition construct_document :: "tables \<Rightarrow> node_ref \<Rightarrow> obj build" where
  "construct_document t r =
     pbind (construct_object t r False) (\<lambda>x.
     pbind (ploop (\<lambda>_. generators_turn t) ()) (\<lambda>_.
     pbind (pmodify (\<lambda>s. s\<lparr>constructed_objects := [], recursive_objects := [], deep_construct := False\<rparr>)) (\<lambda>_.
     pret x)))"

definition new_builder :: "node list \<Rightarrow> builder" where
  "new_builder g = \<lparr>b_nodes = g, constructed_objects = [], recursive_objects = [], state_generators = [],
     deep_construct = False, b_objects = []\<rparr>"

text \<open>
  \<open>get_single_data\<close>, which is \<open>yaml.load\<close> after the parser: the composer's nodes are the
  constructor's.  The result is the object and the store, or \<open>None\<close> for an empty stream.
\<close>

definition get_single_data ::
  "tables \<Rightarrow> resolver \<Rightarrow> (yaml_error + event) list \<Rightarrow> (yaml_error + (obj \<times> container list)) option" where
  "get_single_data t q es =
     (case get_single_node (new_composer q es) of
        None \<Rightarrow> None
      | Some (Inl e, c) \<Rightarrow> Some (Inl e)
      | Some (Inr None, c) \<Rightarrow> Some (Inr (ONone, []))
      | Some (Inr (Some r), c) \<Rightarrow>
          (case construct_document t r (new_builder (c_nodes c)) of
             None \<Rightarrow> None
           | Some (Inl e, s) \<Rightarrow> Some (Inl e)
           | Some (Inr x, s) \<Rightarrow> Some (Inr (x, b_objects s))))"

end
