(* ===== verification/Yaml_Merge.thy ===== *)
theory Yaml_Merge
  imports Yaml_Construct Yaml_Serialize
begin

text \<open>
  Merge keys: \<open>flatten_mapping\<close> ends on every graph, mappings that merge one another or
  themselves included, because it deletes a merge key before it goes into what is merged; and
  what it leaves has no merge key.
\<close>

section \<open>What is left to merge\<close>

definition merging :: "node list \<Rightarrow> node_ref \<times> node_ref \<Rightarrow> bool" where
  "merging g p = (node_tag (g ! fst p) = merge_tag)"

definition merges :: "node list \<Rightarrow> node_ref \<Rightarrow> nat" where
  "merges g r = length (filter (merging g) (pairs_of (node_value (g ! r))))"

definition total_merges :: "node list \<Rightarrow> nat" where
  "total_merges g = sum_list (map (merges g) [0..<length g])"

text \<open>
  A step of flattening: no node becomes or stops being a merge key, the rest of a graph that
  is closed stays closed, a node keeps its pairs or is free of merge keys from then on.
\<close>

definition flattens :: "node list \<Rightarrow> node list \<Rightarrow> bool" where
  "flattens g h = (length h = length g \<and> (closed_graph g \<longrightarrow> closed_graph h) \<and>
     (\<forall>x. node_tag (h ! x) = merge_tag \<longleftrightarrow> node_tag (g ! x) = merge_tag) \<and>
     (\<forall>x < length g. pairs_of (node_value (h ! x)) = pairs_of (node_value (g ! x)) \<or> merges h x = 0))"

lemma merging_cong: "(\<forall>x. node_tag (h ! x) = merge_tag \<longleftrightarrow> node_tag (g ! x) = merge_tag) \<Longrightarrow> merging h = merging g"
  by (auto simp: merging_def fun_eq_iff)

lemma flattens_refl: "flattens g g"
  by (simp add: flattens_def)

lemma flattens_merges:
  assumes "flattens g h" and "x < length g"
  shows "merges h x \<le> merges g x"
proof -
  have "merging h = merging g" using assms(1) by (intro merging_cong) (simp add: flattens_def)
  then show ?thesis using assms by (auto simp: flattens_def merges_def)
qed

lemma flattens_trans:
  assumes "flattens g h" and "flattens h k"
  shows "flattens g k"
  unfolding flattens_def
proof (intro conjI allI impI)
  fix x assume x: "x < length g"
  have m: "merging k = merging h" "merging h = merging g"
    using assms by (auto intro!: merging_cong simp: flattens_def)
  have "pairs_of (node_value (k ! x)) = pairs_of (node_value (h ! x)) \<or> merges k x = 0"
    "pairs_of (node_value (h ! x)) = pairs_of (node_value (g ! x)) \<or> merges h x = 0"
    using assms x by (auto simp: flattens_def)
  then show "pairs_of (node_value (k ! x)) = pairs_of (node_value (g ! x)) \<or> merges k x = 0"
    by (auto simp: merges_def m)
qed (use assms in \<open>auto simp: flattens_def\<close>)

lemma total_le:
  assumes "length h = length g" and "\<And>x. x < length g \<Longrightarrow> merges h x \<le> merges g x"
  shows "total_merges h \<le> total_merges g"
  unfolding total_merges_def assms(1) by (rule sum_list_mono) (simp add: assms(2))

lemma total_less:
  assumes "length h = length g" and "\<And>x. x < length g \<Longrightarrow> merges h x \<le> merges g x" and "r < length g" and "merges h r < merges g r"
  shows "total_merges h < total_merges g"
proof -
  have "(\<Sum>x<length g. merges h x) < (\<Sum>x<length g. merges g x)"
    using assms by (intro sum_strict_mono_ex1) auto
  then show ?thesis using assms(1) by (simp add: total_merges_def interv_sum_list_conv_sum_set_nat atLeast0LessThan)
qed

lemma flattens_total: "flattens g h \<Longrightarrow> total_merges h \<le> total_merges g"
  by (rule total_le) (auto simp: flattens_def intro: flattens_merges)

section \<open>One turn\<close>

definition same_rest :: "builder \<Rightarrow> builder \<Rightarrow> bool" where
  "same_rest s s' = (constructed_objects s' = constructed_objects s \<and> recursive_objects s' = recursive_objects s \<and>
     state_generators s' = state_generators s \<and> deep_construct s' = deep_construct s \<and> b_objects s' = b_objects s)"

definition flattened :: "builder \<Rightarrow> builder \<Rightarrow> bool" where
  "flattened s s' = (flattens (b_nodes s) (b_nodes s') \<and> same_rest s s')"

lemma flattened_refl: "flattened s s"
  by (simp add: flattened_def flattens_refl same_rest_def)

lemma flattened_trans: "flattened s s' \<Longrightarrow> flattened s' s'' \<Longrightarrow> flattened s s''"
  unfolding flattened_def same_rest_def using flattens_trans by auto

definition in_range :: "node list \<Rightarrow> (node_ref \<times> node_ref) list \<Rightarrow> bool" where
  "in_range g ps = (\<forall>(k, v) \<in> set ps. k < length g \<and> v < length g)"

text \<open>Pairs that came out of flattened mappings: inside the graph, none of them a merge.\<close>

definition settled :: "node list \<Rightarrow> (node_ref \<times> node_ref) list \<Rightarrow> bool" where
  "settled g ps = (in_range g ps \<and> (\<forall>p \<in> set ps. \<not> merging g p))"

lemma settled_flattens: "flattens g h \<Longrightarrow> settled h ps = settled g ps"
  by (auto simp: settled_def in_range_def merging_def flattens_def)

lemma settled_simps [simp]: "settled g []" "settled g (ps @ qs) = (settled g ps \<and> settled g qs)"
  by (auto simp: settled_def in_range_def)

lemma closed_children: "closed_graph g \<Longrightarrow> x < length g \<Longrightarrow> set (children (node_value (g ! x))) \<subseteq> {..<length g}"
  by (auto simp: closed_graph_def)

lemma pairs_in_range: "closed_graph g \<Longrightarrow> x < length g \<Longrightarrow> in_range g (pairs_of (node_value (g ! x)))"
  using closed_children [of g x] by (cases "node_value (g ! x)") (auto simp: in_range_def pairs_of_def)

lemma free_settled: "closed_graph g \<Longrightarrow> x < length g \<Longrightarrow> merges g x = 0 \<Longrightarrow> settled g (pairs_of (node_value (g ! x)))"
  using pairs_in_range by (auto simp: settled_def merges_def filter_empty_conv)

definition flat_below :: "nat \<Rightarrow> (node_ref \<Rightarrow> unit build) \<Rightarrow> bool" where
  "flat_below n flatten = (\<forall>x t. closed_graph (b_nodes t) \<longrightarrow> x < length (b_nodes t) \<longrightarrow> total_merges (b_nodes t) < n \<longrightarrow>
     runs (flatten x) t (\<lambda>_ t'. flattened t t' \<and> merges (b_nodes t') x = 0) (\<lambda>_ _. True))"

definition settles :: "builder \<Rightarrow> (node_ref \<times> node_ref) list \<Rightarrow> builder \<Rightarrow> bool" where
  "settles t ps t' = (flattened t t' \<and> settled (b_nodes t') ps)"

lemma flattened_closed: "flattened t t' \<Longrightarrow> closed_graph (b_nodes t) \<Longrightarrow> closed_graph (b_nodes t')"
  by (simp add: flattened_def flattens_def)

lemma flattened_length: "flattened t t' \<Longrightarrow> length (b_nodes t') = length (b_nodes t)"
  by (simp add: flattened_def flattens_def)

lemma flattened_total: "flattened t t' \<Longrightarrow> total_merges (b_nodes t') \<le> total_merges (b_nodes t)"
  by (simp add: flattened_def flattens_total)

lemma node_at_runs: "Q (b_nodes s ! r) s \<Longrightarrow> runs (node_at r) s Q R"
  unfolding node_at_def by (rule runs_pgets)

lemma constructor_error_runs: "R (ConstructorError \<lparr>err_context = c, err_context_mark = cm, err_problem = Some p,
     err_problem_mark = pm, err_note = None\<rparr>) s \<Longrightarrow> runs (constructor_error c cm p pm) s Q R"
  unfolding constructor_error_def by (rule runs_pthrow)

lemma flat_pairs_run:
  assumes "flat_below n flatten" and "closed_graph (b_nodes t)" and "x < length (b_nodes t)" and "total_merges (b_nodes t) < n"
  shows "runs (pbind (flatten x) (\<lambda>_. current_pairs x)) t (settles t) (\<lambda>_ _. True)"
proof (rule runs_pbind_seq)
  show "runs (flatten x) t (\<lambda>_ t'. flattened t t' \<and> merges (b_nodes t') x = 0) (\<lambda>_ _. True)"
    using assms unfolding flat_below_def by blast
next
  fix y t' assume t': "flattened t t' \<and> merges (b_nodes t') x = 0"
  then have "settled (b_nodes t') (pairs_of (node_value (b_nodes t' ! x)))"
    using assms by (intro free_settled) (auto intro: flattened_closed simp: flattened_length)
  then show "runs (current_pairs x) t' (settles t) (\<lambda>_ _. True)"
    unfolding current_pairs_def using t' by (intro runs_pbind node_at_runs runs_pret) (simp add: settles_def)
qed

lemma submerge_run:
  assumes "flat_below n flatten" and "closed_graph (b_nodes t)" and "x < length (b_nodes t)" and "total_merges (b_nodes t) < n"
  shows "runs (submerge flatten r x) t (settles t) (\<lambda>_ _. True)"
  unfolding submerge_def
  using flat_pairs_run [OF assms]
  by (intro runs_pbind node_at_runs) (auto split: node_value.split intro!: runs_pbind node_at_runs constructor_error_runs)

lemma submerges_run:
  assumes "flat_below n flatten"
  shows "closed_graph (b_nodes t) \<Longrightarrow> set xs \<subseteq> {..<length (b_nodes t)} \<Longrightarrow> total_merges (b_nodes t) < n \<Longrightarrow>
    runs (pcollect (submerge flatten r) xs) t (\<lambda>vs t'. settles t (concat (rev vs)) t') (\<lambda>_ _. True)"
proof (induction xs arbitrary: t)
  case Nil
  then show ?case by (simp add: runs_pret settles_def flattened_refl)
next
  case (Cons x xs)
  show ?case
    unfolding pcollect.simps
  proof (rule runs_pbind_seq [OF submerge_run [OF assms]])
    fix y t1 assume t1: "settles t y t1"
    then have f: "flattened t t1" by (simp add: settles_def)
    show "runs (pbind (pcollect (submerge flatten r) xs) (\<lambda>ys. pret (y # ys))) t1 (\<lambda>vs t'. settles t (concat (rev vs)) t') (\<lambda>_ _. True)"
    proof (rule runs_pbind_seq [OF Cons.IH])
      fix ys t2 assume t2: "settles t1 (concat (rev ys)) t2"
      then have "settled (b_nodes t2) y" using t1 settled_flattens [of "b_nodes t1" "b_nodes t2" y]
        by (simp add: settles_def flattened_def)
      then show "runs (pret (y # ys)) t2 (\<lambda>vs t'. settles t (concat (rev vs)) t') (\<lambda>_ _. True)"
        using t2 flattened_trans [OF f] by (intro runs_pret) (simp add: settles_def)
    qed (use Cons.prems flattened_closed [OF f] flattened_length [OF f] flattened_total [OF f] in auto)
  qed (use Cons.prems in auto)
qed

lemma merged_pairs_run:
  assumes "flat_below n flatten" and "closed_graph (b_nodes t)" and "v < length (b_nodes t)" and "total_merges (b_nodes t) < n"
  shows "runs (merged_pairs flatten r v) t (settles t) (\<lambda>_ _. True)"
proof -
  have "runs (pbind (pcollect (submerge flatten r) items) (\<lambda>vs. pret (concat (rev vs)))) t (settles t) (\<lambda>_ _. True)"
    if "node_value (b_nodes t ! v) = SequenceNode items fl" for items fl
    using closed_children [OF assms(2,3)] that
    by (intro runs_pbind_seq [OF submerges_run [OF assms(1,2)]] runs_pret) (auto simp: assms(4))
  then show ?thesis
    unfolding merged_pairs_def using flat_pairs_run [OF assms]
    by (intro runs_pbind node_at_runs) (auto split: node_value.split intro!: runs_pbind node_at_runs constructor_error_runs)
qed

section \<open>The loop\<close>

text \<open>The pairs of \<open>r\<close> itself are in flux while the loop over them runs.\<close>

definition loosened :: "node_ref \<Rightarrow> builder \<Rightarrow> builder \<Rightarrow> bool" where
  "loosened r s t = (same_rest s t \<and> length (b_nodes t) = length (b_nodes s) \<and> closed_graph (b_nodes t) \<and>
     total_merges (b_nodes t) \<le> total_merges (b_nodes s) \<and>
     (\<forall>x. node_tag (b_nodes t ! x) = merge_tag \<longleftrightarrow> node_tag (b_nodes s ! x) = merge_tag) \<and>
     (\<forall>x < length (b_nodes s). x \<noteq> r \<longrightarrow>
        pairs_of (node_value (b_nodes t ! x)) = pairs_of (node_value (b_nodes s ! x)) \<or> merges (b_nodes t) x = 0))"

lemma loosened_flattened:
  assumes "loosened r s t" and "flattened t u"
  shows "loosened r s u"
proof -
  have f: "flattens (b_nodes t) (b_nodes u)" "same_rest t u" using assms(2) by (simp_all add: flattened_def)
  have "pairs_of (node_value (b_nodes u ! x)) = pairs_of (node_value (b_nodes s ! x)) \<or> merges (b_nodes u) x = 0"
    if "x < length (b_nodes s)" "x \<noteq> r" for x
  proof -
    have "pairs_of (node_value (b_nodes t ! x)) = pairs_of (node_value (b_nodes s ! x)) \<or> merges (b_nodes t) x = 0"
      and x: "x < length (b_nodes t)"
      using assms(1) that by (simp_all add: loosened_def)
    moreover have "pairs_of (node_value (b_nodes u ! x)) = pairs_of (node_value (b_nodes t ! x)) \<or> merges (b_nodes u) x = 0"
      using f(1) x by (simp add: flattens_def)
    ultimately show ?thesis using flattens_merges [OF f(1) x] by (metis le_zero_eq)
  qed
  then show ?thesis using assms(1) f flattens_total [OF f(1)]
    by (auto simp: loosened_def flattens_def same_rest_def)
qed

lemma loosened_free:
  assumes "loosened r s t" and "merges (b_nodes t) r = 0"
  shows "flattened s t"
  using assms by (auto simp: loosened_def flattened_def flattens_def)

text \<open>Deleting a merge key.\<close>

definition drop_pair :: "nat \<Rightarrow> (node_ref \<times> node_ref) list \<Rightarrow> (node_ref \<times> node_ref) list" where
  "drop_pair i ps = take i ps @ drop (Suc i) ps"

lemma set_node_runs:
  "Q () (s\<lparr>b_nodes := (b_nodes s)[r := f (b_nodes s ! r)]\<rparr>) \<Longrightarrow> runs (set_node r f) s Q R"
  unfolding set_node_def by (rule runs_pmodify)

lemma with_pairs_simps [simp]:
  "node_tag (with_pairs f n) = node_tag n"
  "pairs_of (node_value n) \<noteq> [] \<Longrightarrow> pairs_of (node_value (with_pairs f n)) = f (pairs_of (node_value n))"
  by (auto simp: pairs_of_def split: node_value.splits)

declare with_pairs.simps [simp del]

lemma drop_pair_facts:
  assumes "i < length ps"
  shows "set (drop_pair i ps) \<subseteq> set ps" "length (drop_pair i ps) < length ps"
    "length (filter P (drop_pair i ps)) + (if P (ps ! i) then 1 else 0) = length (filter P ps)"
    "j < i \<Longrightarrow> drop_pair i ps ! j = ps ! j"
proof -
  have "ps = take i ps @ ps ! i # drop (Suc i) ps" using assms by (rule id_take_nth_drop)
  then have "filter P ps = filter P (take i ps) @ filter P (ps ! i # drop (Suc i) ps)" by (metis filter_append)
  then show "length (filter P (drop_pair i ps)) + (if P (ps ! i) then 1 else 0) = length (filter P ps)"
    by (simp add: drop_pair_def)
qed (use assms in \<open>auto simp: drop_pair_def nth_append dest: in_set_takeD in_set_dropD\<close>)

lemma closed_with_pairs:
  assumes "closed_graph g" and "\<And>ps. set (f ps) \<subseteq> set ps \<union> set qs" and "in_range g qs"
  shows "closed_graph (g[r := with_pairs f (g ! r)])"
proof (cases "r < length g")
  case True
  have old: "set (children (node_value (g ! r))) \<subseteq> {..<length g}" using closed_children [OF assms(1) True] .
  have "set (children (node_value (with_pairs f (g ! r)))) \<subseteq> {..<length g}"
  proof (cases "node_value (g ! r)")
    case (MappingNode ps fl)
    have "in_range g ps" using old MappingNode by (auto simp: in_range_def)
    then have "in_range g (f ps)" using assms(2) [of ps] assms(3) unfolding in_range_def by blast
    then show ?thesis using MappingNode by (auto simp: in_range_def with_pairs.simps)
  qed (use old in \<open>simp_all add: with_pairs.simps\<close>)
  moreover have "set (g[r := with_pairs f (g ! r)]) \<subseteq> insert (with_pairs f (g ! r)) (set g)" by (rule set_update_subset_insert)
  ultimately show ?thesis using assms(1) unfolding closed_graph_def by auto
next
  case False
  then show ?thesis using assms(1) by (simp add: list_update_beyond not_less)
qed

lemma delete_merge:
  assumes t: "loosened r s t" and r: "r < length (b_nodes t)" and i: "i < length (pairs_of (node_value (b_nodes t ! r)))"
    and m: "merging (b_nodes t) (pairs_of (node_value (b_nodes t ! r)) ! i)"
  defines "u \<equiv> t\<lparr>b_nodes := (b_nodes t)[r := with_pairs (drop_pair i) (b_nodes t ! r)]\<rparr>"
  shows "loosened r s u" "total_merges (b_nodes u) < total_merges (b_nodes t)"
    "pairs_of (node_value (b_nodes u ! r)) = drop_pair i (pairs_of (node_value (b_nodes t ! r)))"
proof -
  let ?ps = "pairs_of (node_value (b_nodes t ! r))"
  have ne: "?ps \<noteq> []" using i by auto
  show p: "pairs_of (node_value (b_nodes u ! r)) = drop_pair i ?ps" using r ne by (simp add: u_def)
  have tag: "node_tag (b_nodes u ! x) = node_tag (b_nodes t ! x)" for x
    using r by (cases "x = r") (simp_all add: u_def)
  have mg: "merging (b_nodes u) = merging (b_nodes t)" by (simp add: merging_def fun_eq_iff tag)
  have other: "b_nodes u ! x = b_nodes t ! x" if "x \<noteq> r" for x using that by (simp add: u_def)
  have mo: "merges (b_nodes u) x = merges (b_nodes t) x" if "x \<noteq> r" for x using other [OF that] by (simp add: merges_def mg)
  have mr: "merges (b_nodes u) r < merges (b_nodes t) r"
    using drop_pair_facts(3) [OF i, of "merging (b_nodes t)"] m by (simp add: merges_def mg p)
  have len: "length (b_nodes u) = length (b_nodes t)" by (simp add: u_def)
  show less: "total_merges (b_nodes u) < total_merges (b_nodes t)"
    by (rule total_less [OF len _ r mr]) (metis less_imp_le mo mr order_refl)
  have "closed_graph (b_nodes u)"
    unfolding u_def using t by simp (rule closed_with_pairs [where qs = "[]"], auto simp: loosened_def in_range_def drop_pair_def dest: in_set_takeD in_set_dropD)
  then show "loosened r s u"
    using t less len tag other mo by (auto simp: loosened_def same_rest_def u_def)
qed

text \<open>A key \<open>=\<close> becomes a string.\<close>

lemma retag_value:
  assumes "closed_graph (b_nodes t)" and "node_tag (b_nodes t ! k) = value_tag"
  defines "u \<equiv> t\<lparr>b_nodes := (b_nodes t)[k := (b_nodes t ! k)\<lparr>node_tag := str_tag\<rparr>]\<rparr>"
  shows "flattened t u" "pairs_of (node_value (b_nodes u ! x)) = pairs_of (node_value (b_nodes t ! x))"
proof -
  have v: "node_value (b_nodes u ! x) = node_value (b_nodes t ! x)" for x
    by (cases "x = k"; cases "k < length (b_nodes t)") (simp_all add: u_def list_update_beyond not_less)
  show "pairs_of (node_value (b_nodes u ! x)) = pairs_of (node_value (b_nodes t ! x))" by (simp add: v)
  have len: "length (b_nodes u) = length (b_nodes t)" by (simp add: u_def)
  have "closed_graph (b_nodes u)"
    unfolding closed_graph_def all_set_conv_all_nth using closed_children [OF assms(1)] v len by simp
  moreover have "node_tag (b_nodes u ! x) = merge_tag \<longleftrightarrow> node_tag (b_nodes t ! x) = merge_tag" for x
    using assms(2) by (cases "x = k"; cases "k < length (b_nodes t)")
      (simp_all add: u_def list_update_beyond not_less value_tag_def merge_tag_def str_tag_def)
  ultimately show "flattened t u" using len v by (auto simp: flattened_def flattens_def same_rest_def u_def)
qed

text \<open>
  The invariant of the loop: the keys before the index are no merges, unless an inner call
  has freed the whole mapping; what was collected is settled.
\<close>

definition sweeping :: "node_ref \<Rightarrow> builder \<Rightarrow> nat \<times> (node_ref \<times> node_ref) list \<Rightarrow> builder \<Rightarrow> bool" where
  "sweeping r s x t = (loosened r s t \<and> settled (b_nodes t) (snd x) \<and>
     (merges (b_nodes t) r = 0 \<or>
      (\<forall>j < fst x. j < length (pairs_of (node_value (b_nodes t ! r))) \<longrightarrow>
         \<not> merging (b_nodes t) (pairs_of (node_value (b_nodes t ! r)) ! j))))"

definition sweep_order :: "node_ref \<Rightarrow> (((nat \<times> (node_ref \<times> node_ref) list) \<times> builder) \<times>
    ((nat \<times> (node_ref \<times> node_ref) list) \<times> builder)) set" where
  "sweep_order r = inv_image (less_than <*lex*> less_than)
     (\<lambda>(x, t). (total_merges (b_nodes t), length (pairs_of (node_value (b_nodes t ! r))) - fst x))"

lemma flatten_turn_run:
  assumes flat: "flat_below (total_merges (b_nodes s)) flatten" and r: "r < length (b_nodes s)"
    and I: "sweeping r s x t"
  shows "runs (flatten_turn flatten r x) t
    (\<lambda>y u. case y of Inl x' \<Rightarrow> sweeping r s x' u \<and> ((x', u), (x, t)) \<in> sweep_order r
       | Inr merge \<Rightarrow> loosened r s u \<and> settled (b_nodes u) merge \<and> merges (b_nodes u) r = 0) (\<lambda>_ _. True)"
proof -
  obtain i m where x: "x = (i, m)" by (cases x)
  let ?ps = "pairs_of (node_value (b_nodes t ! r))"
  have t: "loosened r s t" "closed_graph (b_nodes t)" "r < length (b_nodes t)" "settled (b_nodes t) m"
    using I r x by (auto simp: sweeping_def loosened_def)
  have ends: "merges (b_nodes t) r = 0" if "length ?ps \<le> i"
  proof (rule ccontr)
    assume n: "merges (b_nodes t) r \<noteq> 0"
    then have "\<forall>j < length ?ps. \<not> merging (b_nodes t) (?ps ! j)" using I x that by (auto simp: sweeping_def)
    then have "\<forall>p \<in> set ?ps. \<not> merging (b_nodes t) p" unfolding all_set_conv_all_nth .
    then show False using n by (simp add: merges_def)
  qed
  have merge: "runs (pbind (set_node r (with_pairs (\<lambda>ps. take i ps @ drop (Suc i) ps))) (\<lambda>_.
        pbind (merged_pairs flatten r (snd (?ps ! i))) (\<lambda>ps. again (i, m @ ps)))) t
      (\<lambda>y u. case y of Inl x' \<Rightarrow> sweeping r s x' u \<and> ((x', u), (x, t)) \<in> sweep_order r
       | Inr merge \<Rightarrow> loosened r s u \<and> settled (b_nodes u) merge \<and> merges (b_nodes u) r = 0) (\<lambda>_ _. True)"
    if i: "i < length ?ps" and mg: "merging (b_nodes t) (?ps ! i)"
  proof (rule runs_pbind, rule set_node_runs)
    let ?u = "t\<lparr>b_nodes := (b_nodes t)[r := with_pairs (\<lambda>ps. take i ps @ drop (Suc i) ps) (b_nodes t ! r)]\<rparr>"
    have u: "loosened r s ?u" "total_merges (b_nodes ?u) < total_merges (b_nodes t)"
      "pairs_of (node_value (b_nodes ?u ! r)) = drop_pair i ?ps"
      using delete_merge [OF t(1,3) i mg] unfolding drop_pair_def by auto
    have "in_range (b_nodes t) ?ps" using t by (intro pairs_in_range)
    then have v: "snd (?ps ! i) < length (b_nodes ?u)" using nth_mem [OF i] by (auto simp: in_range_def)
    have "merges (b_nodes t) r \<noteq> 0" using nth_mem [OF i] mg by (auto simp: merges_def filter_empty_conv)
    then have before: "\<not> merging (b_nodes t) (?ps ! j)" if "j < i" for j
      using I x i that by (auto simp: sweeping_def)
    have tu: "merging (b_nodes ?u) = merging (b_nodes t)"
      by (rule merging_cong) (use u(1) t(1) in \<open>simp add: loosened_def\<close>)
    show "runs (pbind (merged_pairs flatten r (snd (?ps ! i))) (\<lambda>ps. again (i, m @ ps))) ?u
      (\<lambda>y u. case y of Inl x' \<Rightarrow> sweeping r s x' u \<and> ((x', u), (x, t)) \<in> sweep_order r
       | Inr merge \<Rightarrow> loosened r s u \<and> settled (b_nodes u) merge \<and> merges (b_nodes u) r = 0) (\<lambda>_ _. True)"
    proof (rule runs_pbind_seq [OF merged_pairs_run [OF flat]])
      fix qs w assume w: "settles ?u qs w"
      then have f: "flattened ?u w" by (simp add: settles_def)
      have lw: "loosened r s w" by (rule loosened_flattened [OF u(1) f])
      have mw: "merging (b_nodes w) = merging (b_nodes t)"
        by (rule merging_cong) (use lw t(1) in \<open>simp add: loosened_def\<close>)
      have "settled (b_nodes w) m" using t(4) lw t(1) unfolding settled_def in_range_def mw by (simp add: loosened_def)
      moreover have "merges (b_nodes w) r = 0 \<or>
          (\<forall>j < i. j < length (pairs_of (node_value (b_nodes w ! r))) \<longrightarrow>
             \<not> merging (b_nodes w) (pairs_of (node_value (b_nodes w ! r)) ! j))"
      proof -
        have "pairs_of (node_value (b_nodes w ! r)) = drop_pair i ?ps \<or> merges (b_nodes w) r = 0"
          using f u(3) t(3) by (auto simp: flattened_def flattens_def)
        then show ?thesis using before drop_pair_facts(4) [OF i] by (auto simp: mw)
      qed
      ultimately have "sweeping r s (i, m @ qs) w" using lw w by (simp add: sweeping_def settles_def)
      moreover have "total_merges (b_nodes w) < total_merges (b_nodes t)" using flattened_total [OF f] u(2) by simp
      ultimately show "runs (again (i, m @ qs)) w (\<lambda>y u. case y of Inl x' \<Rightarrow> sweeping r s x' u \<and> ((x', u), (x, t)) \<in> sweep_order r
          | Inr merge \<Rightarrow> loosened r s u \<and> settled (b_nodes u) merge \<and> merges (b_nodes u) r = 0) (\<lambda>_ _. True)"
        by (intro runs_again) (simp add: sweep_order_def x)
    qed (use u v t(1) in \<open>auto simp: loosened_def\<close>)
  qed
  have retag: "runs (pbind (set_node (fst (?ps ! i)) (\<lambda>n. n\<lparr>node_tag := str_tag\<rparr>)) (\<lambda>_. again (Suc i, m))) t
      (\<lambda>y u. case y of Inl x' \<Rightarrow> sweeping r s x' u \<and> ((x', u), (x, t)) \<in> sweep_order r
       | Inr merge \<Rightarrow> loosened r s u \<and> settled (b_nodes u) merge \<and> merges (b_nodes u) r = 0) (\<lambda>_ _. True)"
    if i: "i < length ?ps" and k: "node_tag (b_nodes t ! fst (?ps ! i)) = value_tag"
  proof -
    define u where "u = t\<lparr>b_nodes := (b_nodes t)[fst (?ps ! i) := (b_nodes t ! fst (?ps ! i))\<lparr>node_tag := str_tag\<rparr>]\<rparr>"
    note u = retag_value [OF t(2) k, folded u_def]
    have lu: "loosened r s u" by (rule loosened_flattened [OF t(1) u(1)])
    have mu: "merging (b_nodes u) = merging (b_nodes t)"
      by (rule merging_cong) (use lu t(1) in \<open>simp add: loosened_def\<close>)
    have "\<not> merging (b_nodes t) (?ps ! i)" using k by (simp add: merging_def value_tag_def merge_tag_def)
    moreover have "settled (b_nodes u) m" using t(4) lu t(1) by (simp add: settled_def in_range_def mu loosened_def)
    ultimately have "sweeping r s (Suc i, m) u"
      using lu I x u(2) by (auto simp: sweeping_def mu merges_def less_Suc_eq)
    moreover have "total_merges (b_nodes u) \<le> total_merges (b_nodes t)" by (rule flattened_total [OF u(1)])
    then have "(((Suc i, m), u), (x, t)) \<in> sweep_order r" using i x u(2) [of r] by (auto simp: sweep_order_def)
    ultimately show ?thesis by (intro runs_pbind set_node_runs, fold u_def) (simp add: runs_again)
  qed
  have skip: "sweeping r s (Suc i, m) t \<and> (((Suc i, m), t), (x, t)) \<in> sweep_order r"
    if "i < length ?ps" "node_tag (b_nodes t ! fst (?ps ! i)) \<noteq> merge_tag"
    using I t(4) x that by (auto simp: sweeping_def sweep_order_def merging_def less_Suc_eq)
  show ?thesis
    unfolding flatten_turn_def x prod.case current_pairs_def
    apply (rule runs_pbind, rule runs_pbind, rule node_at_runs, rule runs_pret, rule runs_if)
    subgoal using ends t by (intro runs_leave) simp
    apply (rule runs_pbind, rule node_at_runs, intro runs_if)
    subgoal using merge unfolding x merging_def by auto
    subgoal using retag unfolding x by auto
    subgoal using skip unfolding x by (intro runs_again) auto
    done
qed

section \<open>Flattening ends\<close>

lemma fill_merge:
  assumes r: "r < length (b_nodes s)" and t: "loosened r s t" and m: "settled (b_nodes t) m" and free: "merges (b_nodes t) r = 0"
  defines "u \<equiv> t\<lparr>b_nodes := (b_nodes t)[r := with_pairs (\<lambda>ps. m @ ps) (b_nodes t ! r)]\<rparr>"
  shows "flattened s u" "merges (b_nodes u) r = 0"
proof -
  have len: "length (b_nodes u) = length (b_nodes t)" by (simp add: u_def)
  have rt: "r < length (b_nodes t)" using r t by (simp add: loosened_def)
  have tag: "node_tag (b_nodes u ! x) = node_tag (b_nodes t ! x)" for x
    using rt by (cases "x = r") (simp_all add: u_def)
  have mg: "merging (b_nodes u) = merging (b_nodes t)" by (simp add: merging_def fun_eq_iff tag)
  have "filter (merging (b_nodes t)) (pairs_of (node_value (with_pairs (\<lambda>ps. m @ ps) (b_nodes t ! r)))) = []"
    using m free by (auto simp: with_pairs.simps settled_def merges_def pairs_of_def filter_empty_conv split: node_value.splits)
  then show mu: "merges (b_nodes u) r = 0" unfolding merges_def mg using rt by (simp add: u_def)
  have mo: "merges (b_nodes u) x = merges (b_nodes t) x" if "x \<noteq> r" for x
    using that by (simp add: merges_def mg) (simp add: u_def)
  have "closed_graph (b_nodes u)"
    unfolding u_def using t m by simp (rule closed_with_pairs [where qs = m], auto simp: loosened_def settled_def)
  moreover have "total_merges (b_nodes u) \<le> total_merges (b_nodes t)"
    by (rule total_le [OF len]) (metis mo mu order_refl zero_le)
  ultimately have "loosened r s u"
    using t len tag mo by (auto simp: loosened_def same_rest_def) (auto simp: u_def)
  then show "flattened s u" using mu by (rule loosened_free)
qed

lemma flatten_runs:
  assumes "closed_graph (b_nodes s)" and "r < length (b_nodes s)"
  shows "runs (flatten_mapping r) s (\<lambda>_ t. flattened s t \<and> merges (b_nodes t) r = 0) (\<lambda>_ _. True)"
  using assms
proof (induction "total_merges (b_nodes s)" arbitrary: r s rule: less_induct)
  case less
  have flat: "flat_below (total_merges (b_nodes s)) flatten_mapping" unfolding flat_below_def using less.hyps by blast
  let ?P = "\<lambda>m t. loosened r s t \<and> settled (b_nodes t) m \<and> merges (b_nodes t) r = 0"
  have start: "sweeping r s (0, []) s" using less.prems by (simp add: sweeping_def loosened_def same_rest_def)
  have wf: "wf (sweep_order r)" unfolding sweep_order_def by (intro wf_inv_image wf_lex_prod wf_less_than)
  have loop: "runs (ploop (flatten_turn flatten_mapping r) (0, [])) s ?P (\<lambda>_ _. True)"
    by (rule runs_ploop_wf [where I = "sweeping r s", OF wf _ start]) (rule flatten_turn_run [OF flat less.prems(2)])
  have "runs (pbind (ploop (flatten_turn flatten_mapping r) (0, [])) (\<lambda>merge.
      if merge \<noteq> [] then set_node r (with_pairs (\<lambda>ps. merge @ ps)) else pret ())) s
      (\<lambda>_ t. flattened s t \<and> merges (b_nodes t) r = 0) (\<lambda>_ _. True)"
  proof (rule runs_pbind_seq [OF loop], rule runs_if)
    fix m t assume P: "?P m t"
    then show "runs (set_node r (with_pairs (\<lambda>ps. m @ ps))) t (\<lambda>_ t. flattened s t \<and> merges (b_nodes t) r = 0) (\<lambda>_ _. True)"
      using fill_merge [OF less.prems(2)] by (intro set_node_runs) blast
    show "runs (pret ()) t (\<lambda>_ t. flattened s t \<and> merges (b_nodes t) r = 0) (\<lambda>_ _. True)"
      using P loosened_free by (intro runs_pret) blast
  qed
  then show ?case by (simp add: runs_def flatten_mapping.simps [of r s])
qed

text \<open>
  C25. Merge keys are always resolved: on every closed graph of nodes, also where mappings
  merge each other or themselves, \<open>flatten_mapping\<close> comes to an end, and where it raises no
  error the mapping has no merge key left, no other node has gained one, and every other node
  has its pairs as they were or is free of merge keys itself.
\<close>

theorem flatten_mapping_ends:
  assumes "closed_graph (b_nodes s)" and "r < length (b_nodes s)"
  shows "\<exists>answer t. flatten_mapping r s = Some (answer, t) \<and> (answer = Inr () \<longrightarrow>
    (\<forall>p \<in> set (pairs_of (node_value (b_nodes t ! r))). node_tag (b_nodes t ! fst p) \<noteq> merge_tag) \<and>
    (\<forall>x. node_tag (b_nodes t ! x) = merge_tag \<longleftrightarrow> node_tag (b_nodes s ! x) = merge_tag) \<and>
    (\<forall>x < length (b_nodes s). pairs_of (node_value (b_nodes t ! x)) = pairs_of (node_value (b_nodes s ! x)) \<or>
       (\<forall>p \<in> set (pairs_of (node_value (b_nodes t ! x))). node_tag (b_nodes t ! fst p) \<noteq> merge_tag)))"
proof -
  have zero: "merges g x = 0 \<longleftrightarrow> (\<forall>p \<in> set (pairs_of (node_value (g ! x))). node_tag (g ! fst p) \<noteq> merge_tag)" for g x
    by (auto simp: merges_def filter_empty_conv merging_def)
  show ?thesis
  proof (cases "flatten_mapping r s")
    case None
    then show ?thesis using flatten_runs [OF assms] by (simp add: runs_def)
  next
    case (Some p)
    obtain a t where p: "p = (a, t)" by (cases p)
    have "a = Inr () \<Longrightarrow> flattened s t \<and> merges (b_nodes t) r = 0"
      using flatten_runs [OF assms] Some p by (simp add: runs_def)
    then show ?thesis using Some p by (auto simp: zero flattened_def flattens_def)
  qed
qed

definition merging_graph :: "node list" where
  "merging_graph =
     [\<lparr>node_tag = map_tag, node_value = MappingNode [(1, 0), (1, 2)] None, node_start = None, node_end = None\<rparr>,
      \<lparr>node_tag = merge_tag, node_value = ScalarNode ''<<'' None, node_start = None, node_end = None\<rparr>,
      \<lparr>node_tag = map_tag, node_value = MappingNode [(1, 0), (3, 3)] None, node_start = None, node_end = None\<rparr>,
      \<lparr>node_tag = str_tag, node_value = ScalarNode ''a'' None, node_start = None, node_end = None\<rparr>]"

lemma flatten_mapping_ends_witness:
  "\<exists>answer t. flatten_mapping 0 (new_builder merging_graph) = Some (answer, t) \<and> (answer = Inr () \<longrightarrow>
    (\<forall>p \<in> set (pairs_of (node_value (b_nodes t ! 0))). node_tag (b_nodes t ! fst p) \<noteq> merge_tag))"
  using flatten_mapping_ends [of "new_builder merging_graph" 0]
  by (auto simp: new_builder_def closed_graph_def merging_graph_def)

end
