(* ===== verification/Yaml_Construct_Props.thy ===== *)
theory Yaml_Construct_Props
  imports Yaml_Construct Yaml_Copy
begin

text \<open>
  \<open>construct_document\<close> on documents of plain data: null, booleans, integers, floats and
  strings in sequences and mappings with scalar keys.  The object it returns represents the
  graph of nodes, with the same sharing and the same cycles.
\<close>

section \<open>Plain data\<close>

definition scalar_object :: "string \<Rightarrow> string \<Rightarrow> obj option" where
  "scalar_object tag v =
     (if Some tag = yaml_tag ''null'' then Some ONone
      else if Some tag = yaml_tag ''bool'' then (case yaml_bool v of Inr b \<Rightarrow> Some (OBool b) | Inl e \<Rightarrow> None)
      else if Some tag = yaml_tag ''int'' then (case yaml_int v of Inr i \<Rightarrow> Some (OInt i) | Inl e \<Rightarrow> None)
      else if Some tag = yaml_tag ''float'' then (case yaml_float v of Inr (Some x) \<Rightarrow> if x = FNan then None else Some (OFloat x None) | _ \<Rightarrow> None)
      else if Some tag = yaml_tag ''str'' then Some (OStr v)
      else None)"

definition is_scalar_node :: "node \<Rightarrow> bool" where
  "is_scalar_node n = (case node_value n of ScalarNode v style \<Rightarrow> True | _ \<Rightarrow> False)"

definition plain_node :: "node list \<Rightarrow> node \<Rightarrow> bool" where
  "plain_node g n = (case node_value n of
     ScalarNode v style \<Rightarrow> scalar_object (node_tag n) v \<noteq> None
   | SequenceNode items fl \<Rightarrow> node_tag n = seq_tag
   | MappingNode pairs fl \<Rightarrow> node_tag n = map_tag \<and> (\<forall>(k, v) \<in> set pairs. is_scalar_node (g ! k)))"

definition plain_graph :: "node list \<Rightarrow> bool" where
  "plain_graph g = (closed_graph g \<and> (\<forall>n \<in> set g. plain_node g n))"

text \<open>
  What represents what: a scalar its value, a sequence the list of what its items represent,
  a mapping the dictionary of its pairs in order, and different collections different objects.
\<close>

definition dict_of :: "(node_ref \<Rightarrow> obj) \<Rightarrow> (node_ref \<times> node_ref) list \<Rightarrow> (obj \<times> obj) list" where
  "dict_of f pairs = foldl (\<lambda>d (k, v). dict_put d (f k) (f v)) [] pairs"

definition represents :: "node list \<Rightarrow> (node_ref \<Rightarrow> obj) \<Rightarrow> container list \<Rightarrow> node_ref set \<Rightarrow> bool" where
  "represents g f store D =
     ((\<forall>x \<in> D. case node_value (g ! x) of
         ScalarNode v style \<Rightarrow> scalar_object (node_tag (g ! x)) v = Some (f x)
       | SequenceNode items fl \<Rightarrow> \<exists>d < length store. f x = ORef d \<and> store ! d = PyList (map f items)
       | MappingNode pairs fl \<Rightarrow> \<exists>d < length store. f x = ORef d \<and> store ! d = PyDict (dict_of f pairs)) \<and>
      (\<forall>x \<in> D. \<forall>y \<in> D. \<forall>d. f x = ORef d \<longrightarrow> f y = ORef d \<longrightarrow> x = y))"

lemma scalar_object_key: "scalar_object tag v = Some x \<Longrightarrow> is_hashable x \<and> can_hash x"
  by (auto simp: scalar_object_def is_hashable_def split: if_splits sum.splits option.splits)

lemma plain_at: "plain_graph g \<Longrightarrow> x < length g \<Longrightarrow> plain_node g (g ! x)"
  by (simp add: plain_graph_def)

lemma plain_child: "plain_graph g \<Longrightarrow> x < length g \<Longrightarrow> y \<in> set (children (node_value (g ! x))) \<Longrightarrow> y < length g"
  by (auto simp: plain_graph_def closed_graph_def)

lemma scalar_tags: "scalar_object tag v = Some x \<Longrightarrow> tag \<noteq> merge_tag \<and> tag \<noteq> value_tag"
  by (auto simp: scalar_object_def yaml_tag_def merge_tag_def value_tag_def split: if_splits)

section \<open>The pieces that do not call back\<close>

lemma safe_lookup:
  "map_of (yaml_constructors safe_tables) (yaml_tag ''null'') = Some YamlNull"
  "map_of (yaml_constructors safe_tables) (yaml_tag ''bool'') = Some YamlBool"
  "map_of (yaml_constructors safe_tables) (yaml_tag ''int'') = Some YamlInt"
  "map_of (yaml_constructors safe_tables) (yaml_tag ''float'') = Some YamlFloat"
  "map_of (yaml_constructors safe_tables) (yaml_tag ''str'') = Some YamlStr"
  "map_of (yaml_constructors safe_tables) (Some seq_tag) = Some YamlSeq"
  "map_of (yaml_constructors safe_tables) (Some map_tag) = Some YamlMap"
  by (simp_all add: safe_tables_def yaml_tag_def seq_tag_def map_tag_def add_constructor_def)

lemma construct_scalar_run:
  "node_value (b_nodes s ! r) = ScalarNode v style \<Longrightarrow> construct_scalar r s = Some (Inr v, s)"
  by (subst construct_scalar.simps) (simp add: pret_def)

lemma make_scalar:
  assumes v: "node_value (b_nodes s ! r) = ScalarNode v style" and x: "scalar_object (node_tag (b_nodes s ! r)) v = Some x"
  shows "make_object safe_tables call r s = Some (Inr (x, None), s)"
proof -
  let ?t = "node_tag (b_nodes s ! r)"
  have m: "make_object safe_tables call r s = call_constructor call c r s"
    if "map_of (yaml_constructors safe_tables) (Some ?t) = Some c" for c
    using that by (simp add: make_object_def pbind_def node_at_def pgets_def find_constructor_def raises_def pret_def)
  note run = construct_scalar_run [OF v]
  consider "Some ?t = yaml_tag ''null''" | "Some ?t = yaml_tag ''bool''" | "Some ?t = yaml_tag ''int''"
    | "Some ?t = yaml_tag ''float''" | "Some ?t = yaml_tag ''str''"
    using x by (auto simp: scalar_object_def split: if_splits)
  then show ?thesis
  proof cases
    case 1
    then show ?thesis using m [of YamlNull] x safe_lookup run by (simp add: scalar_object_def whole_def pbind_def pret_def)
  next
    case 2
    then show ?thesis using m [of YamlBool] x safe_lookup run
      by (auto simp: scalar_object_def yaml_tag_def whole_def pbind_def pret_def raises_def split: sum.splits)
  next
    case 3
    then show ?thesis using m [of YamlInt] x safe_lookup run
      by (auto simp: scalar_object_def yaml_tag_def whole_def pbind_def pret_def raises_def split: sum.splits)
  next
    case 4
    then show ?thesis using m [of YamlFloat] x safe_lookup run
      by (auto simp: scalar_object_def yaml_tag_def whole_def pbind_def pret_def raises_def construct_yaml_float_def
          split: sum.splits option.splits if_splits pyfloat.splits)
  next
    case 5
    then show ?thesis using m [of YamlStr] x safe_lookup run
      by (auto simp: scalar_object_def yaml_tag_def whole_def pbind_def pret_def)
  qed
qed

lemma make_container:
  assumes "map_of (yaml_constructors safe_tables) (Some (node_tag (b_nodes s ! r))) = Some c"
    and "c = YamlSeq \<and> co = PyList [] \<and> t = FillSeq r (length (b_objects s)) \<or>
      c = YamlMap \<and> co = PyDict [] \<and> t = FillMap r (length (b_objects s))"
  shows "make_object safe_tables call r s =
    Some (Inr (ORef (length (b_objects s)), Some t), s\<lparr>b_objects := b_objects s @ [co]\<rparr>)"
  using assms by (auto simp: make_object_def pbind_def node_at_def pgets_def find_constructor_def raises_def pret_def
      container_of_def new_object_def)

text \<open>Without merge keys flattening does nothing.\<close>

lemma flatten_idle:
  assumes "\<And>p. p \<in> set (pairs_of (node_value (b_nodes s ! r))) \<Longrightarrow>
    node_tag (b_nodes s ! fst p) \<noteq> merge_tag \<and> node_tag (b_nodes s ! fst p) \<noteq> value_tag"
  shows "flatten_mapping r s = Some (Inr (), s)"
proof -
  let ?ps = "pairs_of (node_value (b_nodes s ! r))"
  let ?turn = "flatten_turn flatten_mapping r"
  have stop: "?turn (i, []) s = Some (Inr (Inr []), s)" if "length ?ps \<le> i" for i
    using that by (simp add: flatten_turn_def current_pairs_def pbind_def node_at_def pgets_def pret_def leave_def)
  have go: "?turn (i, []) s = Some (Inr (Inl (Suc i, [])), s)" if "i < length ?ps" for i
    using assms [OF nth_mem [OF that]] that
    by (simp add: flatten_turn_def current_pairs_def pbind_def node_at_def pgets_def pret_def again_def)
  have "ploop ?turn (i, []) s = Some (Inr [], s)" if "i \<le> length ?ps" for i
    using that
  proof (induction "length ?ps - i" arbitrary: i)
    case 0
    then show ?case using stop [of i] by (subst ploop.simps) (simp add: pbind_def pret_def)
  next
    case (Suc k)
    then have "ploop ?turn (Suc i, []) s = Some (Inr [], s)" by simp
    then show ?case using go [of i] Suc(2) by (subst ploop.simps) (simp add: pbind_def)
  qed
  from this [of 0] show ?thesis by (subst flatten_mapping.simps) (simp add: pbind_def pret_def)
qed

section \<open>The invariant\<close>

definition built :: "builder \<Rightarrow> node_ref \<Rightarrow> bool" where
  "built s x = (map_of (constructed_objects s) x \<noteq> None)"

definition object_at :: "builder \<Rightarrow> node_ref \<Rightarrow> obj" where
  "object_at s x = the (map_of (constructed_objects s) x)"

fun task_node :: "task \<Rightarrow> node_ref" where
  "task_node (FillOmap r d) = r"
| "task_node (FillPairs r d) = r"
| "task_node (FillSet r d) = r"
| "task_node (FillSeq r d) = r"
| "task_node (FillMap r d) = r"

fun fill_task :: "node_value \<Rightarrow> node_ref \<Rightarrow> obj_ref \<Rightarrow> task" where
  "fill_task (MappingNode pairs fl) x d = FillMap x d"
| "fill_task v x d = FillSeq x d"

fun empty_of :: "node_value \<Rightarrow> container" where
  "empty_of (MappingNode pairs fl) = PyDict []"
| "empty_of v = PyList []"

fun full_of :: "(node_ref \<Rightarrow> obj) \<Rightarrow> node_value \<Rightarrow> container" where
  "full_of f (ScalarNode v style) = PyList []"
| "full_of f (SequenceNode items fl) = PyList (map f items)"
| "full_of f (MappingNode pairs fl) = PyDict (dict_of f pairs)"

text \<open>
  The nodes whose generator has yet to run are those of \<open>state_generators\<close> and those of the
  round under way, \<open>W\<close>.
\<close>

definition pending :: "node_ref list \<Rightarrow> builder \<Rightarrow> node_ref list" where
  "pending W s = W @ map task_node (state_generators s)"

definition idle :: "node list \<Rightarrow> builder \<Rightarrow> bool" where
  "idle g s = (b_nodes s = g \<and> \<not> deep_construct s \<and> recursive_objects s = [])"

definition object_ok :: "node list \<Rightarrow> node_ref list \<Rightarrow> builder \<Rightarrow> node_ref \<Rightarrow> bool" where
  "object_ok g P s x = (if is_scalar_node (g ! x)
     then \<exists>v style. node_value (g ! x) = ScalarNode v style \<and> scalar_object (node_tag (g ! x)) v = Some (object_at s x)
     else \<exists>d < length (b_objects s). object_at s x = ORef d \<and>
       (if x \<in> set P then b_objects s ! d = empty_of (node_value (g ! x))
        else b_objects s ! d = full_of (object_at s) (node_value (g ! x)) \<and> (\<forall>y \<in> set (children (node_value (g ! x))). built s y)))"

definition task_ok :: "node list \<Rightarrow> builder \<Rightarrow> task \<Rightarrow> bool" where
  "task_ok g s t = (\<exists>d. object_at s (task_node t) = ORef d \<and> t = fill_task (node_value (g ! task_node t)) (task_node t) d)"

definition building :: "node list \<Rightarrow> node_ref list \<Rightarrow> builder \<Rightarrow> bool" where
  "building g W s = (idle g s \<and> (\<forall>x. built s x \<longrightarrow> x < length g \<and> object_ok g (pending W s) s x) \<and>
     (\<forall>x y d. built s x \<longrightarrow> built s y \<longrightarrow> object_at s x = ORef d \<longrightarrow> object_at s y = ORef d \<longrightarrow> x = y) \<and>
     distinct (pending W s) \<and> (\<forall>x \<in> set (pending W s). built s x \<and> \<not> is_scalar_node (g ! x)) \<and>
     (\<forall>t \<in> set (state_generators s). task_ok g s t))"

definition weight :: "node list \<Rightarrow> node_ref list \<Rightarrow> builder \<Rightarrow> nat" where
  "weight g W s = 2 * card {x. x < length g \<and> \<not> built s x} + length (pending W s)"

definition grew :: "node list \<Rightarrow> builder \<Rightarrow> builder \<Rightarrow> bool" where
  "grew g s t = ((\<forall>x. built s x \<longrightarrow> built t x \<and> object_at t x = object_at s x) \<and> (\<forall>W. weight g W t \<le> weight g W s))"

lemma grew_refl: "grew g s s"
  by (simp add: grew_def)

lemma grew_trans: "grew g s t \<Longrightarrow> grew g t u \<Longrightarrow> grew g s u"
  unfolding grew_def by (metis order_trans)

lemma full_of_cong: "(\<And>y. y \<in> set (children v) \<Longrightarrow> f y = h y) \<Longrightarrow> full_of f v = full_of h v"
proof (induction f v rule: full_of.induct)
  case (3 f pairs fl)
  have "f k = h k \<and> f v = h v" if "(k, v) \<in> set pairs" for k v
    using that by (intro conjI; intro 3) (auto intro!: bexI [of _ "(k, v)"])
  then have "foldl (\<lambda>d (k, v). dict_put d (f k) (f v)) m pairs = foldl (\<lambda>d (k, v). dict_put d (h k) (h v)) m pairs" for m
    by (intro foldl_cong) auto
  then show ?case by (simp add: dict_of_def)
qed auto

section \<open>One node\<close>

lemma built_dict_set:
  "built (s\<lparr>constructed_objects := dict_set (constructed_objects s) r x\<rparr>) y = (y = r \<or> built s y)"
  by (simp add: built_def)

text \<open>The state after a node that was not built: its object is known, and its generator waits.\<close>

definition after_node :: "node_value \<Rightarrow> node_ref \<Rightarrow> obj \<Rightarrow> builder \<Rightarrow> builder" where
  "after_node v r x s = (case v of
     ScalarNode t style \<Rightarrow> s\<lparr>constructed_objects := dict_set (constructed_objects s) r x\<rparr>
   | _ \<Rightarrow> s\<lparr>constructed_objects := dict_set (constructed_objects s) r (ORef (length (b_objects s))),
       b_objects := b_objects s @ [empty_of v], state_generators := state_generators s @ [fill_task v r (length (b_objects s))]\<rparr>)"

lemma construct_object_again:
  "built s r \<Longrightarrow> construct_object t r deep s = Some (Inr (object_at s r), s)"
  by (subst construct_object.simps) (auto simp: built_def object_at_def pret_def)

lemma construct_object_new:
  assumes idle: "idle g s" and plain: "plain_node g (g ! r)" and new: "\<not> built s r"
  shows "\<exists>x. construct_object safe_tables r False s = Some (Inr (object_at (after_node (node_value (g ! r)) r x s) r),
      after_node (node_value (g ! r)) r x s) \<and>
    (\<forall>v style. node_value (g ! r) = ScalarNode v style \<longrightarrow> scalar_object (node_tag (g ! r)) v = Some x)"
proof -
  let ?call = "construct_object safe_tables"
  let ?s = "s\<lparr>recursive_objects := [r]\<rparr>"
  have enter: "enter_object r False s = Some (Inr False, ?s)"
    using idle by (simp add: enter_object_def pbind_def pgets_def pret_def pmodify_def idle_def)
  have unset: "map_of (constructed_objects s) r = None" using new by (simp add: built_def)
  have run: "construct_object safe_tables r False s =
      Some (Inr x, u\<lparr>constructed_objects := dict_set (constructed_objects u) r x, recursive_objects := removeAll r (recursive_objects u)\<rparr>)"
    if "make_object safe_tables ?call r ?s = Some (Inr (x, t), w)" "finish_object ?call t w = Some (Inr (), u)" for x t w u
    using that enter unset
    by (subst construct_object.simps) (simp add: pbind_def leave_object_def pmodify_def pret_def)
  have g: "b_nodes s = g" "\<not> deep_construct s" "recursive_objects s = []" using idle by (simp_all add: idle_def)
  show ?thesis
  proof (cases "is_scalar_node (g ! r)")
    case True
    then obtain v style where v: "node_value (g ! r) = ScalarNode v style" by (auto simp: is_scalar_node_def split: node_value.splits)
    then obtain x where x: "scalar_object (node_tag (g ! r)) v = Some x" using plain by (auto simp: plain_node_def)
    have m: "make_object safe_tables ?call r ?s = Some (Inr (x, None), ?s)" by (rule make_scalar) (use g v x in simp_all)
    have "finish_object ?call None ?s = Some (Inr (), ?s)" by (simp add: finish_object_def pret_def)
    from run [OF m this] show ?thesis using v x g
      by (intro exI [of _ x]) (simp add: after_node_def object_at_def)
  next
    case False
    define t where "t = fill_task (node_value (g ! r)) r (length (b_objects s))"
    let ?w = "?s\<lparr>b_objects := b_objects s @ [empty_of (node_value (g ! r))]\<rparr>"
    have m: "make_object safe_tables ?call r ?s = Some (Inr (ORef (length (b_objects s)), Some t), ?w)"
    proof (cases "node_value (g ! r)")
      case (SequenceNode items fl)
      then show ?thesis using plain g make_container [of ?s r YamlSeq "PyList []" t] safe_lookup
        by (simp add: plain_node_def t_def)
    next
      case (MappingNode pairs fl)
      then show ?thesis using plain g make_container [of ?s r YamlMap "PyDict []" t] safe_lookup
        by (simp add: plain_node_def t_def)
    qed (use False in \<open>simp add: is_scalar_node_def\<close>)
    have "finish_object ?call (Some t) ?w = Some (Inr (), ?w\<lparr>state_generators := state_generators s @ [t]\<rparr>)"
      using g by (simp add: finish_object_def pbind_def pgets_def pmodify_def)
    from run [OF m this] show ?thesis using False g
      by (cases "node_value (g ! r)") (simp_all add: after_node_def t_def object_at_def is_scalar_node_def)
  qed
qed

lemma weight_built:
  assumes "r < length g" and "\<not> built s r" and "\<And>y. built t y \<longleftrightarrow> y = r \<or> built s y"
    and "length (state_generators t) \<le> Suc (length (state_generators s))"
  shows "weight g W t \<le> weight g W s"
proof -
  have "card {x. x < length g \<and> \<not> built s x} = Suc (card {x. x < length g \<and> \<not> built t x})"
    using assms(1-3) by (subst card_Suc_eq_finite) (intro exI [of _ r] exI [of _ "{x. x < length g \<and> \<not> built t x}"], auto)
  then show ?thesis using assms(4) by (simp add: weight_def pending_def)
qed

lemma after_node_frame:
  fixes s :: builder and v r x
  defines "u \<equiv> after_node v r x s"
  shows "built u y = (y = r \<or> built s y)" "y \<noteq> r \<Longrightarrow> object_at u y = object_at s y" "idle g u = idle g s"
    "\<exists>extra. b_objects u = b_objects s @ extra"
    "length (state_generators u) \<le> Suc (length (state_generators s))"
  by (cases v; simp add: u_def after_node_def built_def object_at_def idle_def; fail)+

lemma object_ok_kept:
  assumes ok: "object_ok g P s y" and y: "object_at u y = object_at s y" and g: "y \<in> set P \<longleftrightarrow> y \<in> set P'"
    and extra: "b_objects u = b_objects s @ extra" and grew: "\<And>z. built s z \<Longrightarrow> built u z \<and> object_at u z = object_at s z"
  shows "object_ok g P' u y"
proof (cases "is_scalar_node (g ! y)")
  case False
  have "full_of (object_at u) (node_value (g ! y)) = full_of (object_at s) (node_value (g ! y))"
    if "\<forall>z \<in> set (children (node_value (g ! y))). built s z"
    using that grew by (intro full_of_cong) auto
  then show ?thesis using ok False y g grew by (auto simp: object_ok_def extra nth_append)
qed (use ok y in \<open>simp add: object_ok_def\<close>)

lemma task_ok_kept: "task_ok g s t \<Longrightarrow> object_at u (task_node t) = object_at s (task_node t) \<Longrightarrow> task_ok g u t"
  by (simp add: task_ok_def)

lemma fill_task_node [simp]: "task_node (fill_task v x d) = x"
  by (cases v) simp_all

lemma object_bound:
  assumes "building g W s" and "built s y" and "object_at s y = ORef d"
  shows "d < length (b_objects s)"
proof -
  have ok: "object_ok g (pending W s) s y" using assms(1,2) by (simp add: building_def)
  show ?thesis
  proof (cases "is_scalar_node (g ! y)")
    case True
    then obtain v where "scalar_object (node_tag (g ! y)) v = Some (ORef d)"
      using ok assms(3) by (auto simp: object_ok_def)
    then show ?thesis by (auto simp: scalar_object_def split: if_splits sum.splits option.splits)
  next
    case False
    then show ?thesis using ok assms(3) by (auto simp only: object_ok_def if_False obj.inject)
  qed
qed

lemma after_node_building:
  assumes B: "building g W s" and r: "r < length g" "\<not> built s r"
    and x: "\<And>v style. node_value (g ! r) = ScalarNode v style \<Longrightarrow> scalar_object (node_tag (g ! r)) v = Some x"
  defines "u \<equiv> after_node (node_value (g ! r)) r x s"
  shows "building g W u" "grew g s u" "built u r"
proof -
  note frame = after_node_frame [where v = "node_value (g ! r)" and r = r and x = x and s = s, folded u_def]
  show "built u r" by (simp add: frame(1))
  have old: "built u z \<and> object_at u z = object_at s z" if "built s z" for z
    using that r(2) frame(1,2) by metis
  show grew: "grew g s u"
    unfolding grew_def using old weight_built [OF r frame(1,5)] by blast
  obtain extra where extra: "b_objects u = b_objects s @ extra" using frame(4) by blast
  have rp: "r \<notin> set (pending W s)" using B r(2) by (auto simp: building_def)
  have P: "is_scalar_node (g ! r) \<Longrightarrow> pending W u = pending W s" "\<not> is_scalar_node (g ! r) \<Longrightarrow> pending W u = pending W s @ [r]"
    by (cases "node_value (g ! r)"; simp add: u_def after_node_def pending_def is_scalar_node_def)+
  have pu: "y \<in> set (pending W s) \<longleftrightarrow> y \<in> set (pending W u)" if "y \<noteq> r" for y
    using P that by (cases "is_scalar_node (g ! r)") auto
  have okr: "object_ok g (pending W u) u r"
    using P x by (cases "node_value (g ! r)")
      (auto simp: object_ok_def is_scalar_node_def u_def after_node_def object_at_def)
  have obr: "object_at u r = ORef d \<Longrightarrow> d = length (b_objects s)" for d
    using x by (cases "node_value (g ! r)")
      (auto simp: u_def after_node_def object_at_def scalar_object_def split: if_splits sum.splits option.splits)
  have "x < length g \<and> object_ok g (pending W u) u x" if "built u x" for x
  proof (cases "x = r")
    case False
    then have "built s x" using that frame(1) by simp
    then show ?thesis using B object_ok_kept [OF _ frame(2) [OF False] pu [OF False] extra old]
      by (simp add: building_def)
  qed (use r okr in simp)
  moreover have "x = y" if "built u x" "built u y" "object_at u x = ORef d" "object_at u y = ORef d" for x y d
  proof -
    have "d \<noteq> length (b_objects s)" if "built s z" "object_at s z = ORef d" for z
      using object_bound [OF B that] by simp
    then show ?thesis using that obr frame(1,2) B unfolding building_def by metis
  qed
  moreover have "distinct (pending W u)" "\<forall>x \<in> set (pending W u). built u x \<and> \<not> is_scalar_node (g ! x)"
    using B P rp old \<open>built u r\<close> by (cases "is_scalar_node (g ! r)"; auto simp: building_def)+
  moreover have "task_ok g u t" if "t \<in> set (state_generators u)" for t
  proof (cases "t \<in> set (state_generators s)")
    case True
    then have "task_node t \<in> set (pending W s)" by (simp add: pending_def)
    then show ?thesis using True B old task_ok_kept unfolding building_def by metis
  next
    case False
    then show ?thesis using that
      by (cases "node_value (g ! r)") (auto simp: u_def after_node_def task_ok_def object_at_def)
  qed
  ultimately show "building g W u" using B frame(3) unfolding building_def by blast
qed

text \<open>\<open>construct_object\<close> on a node of a plain graph: built before, or built now.\<close>

lemma construct_object_run:
  assumes "plain_graph g" and B: "building g W s" and r: "r < length g"
  shows "runs (construct_object safe_tables r False) s
    (\<lambda>x t. building g W t \<and> grew g s t \<and> built t r \<and> x = object_at t r) (\<lambda>_ _. False)"
proof (cases "built s r")
  case True
  then show ?thesis using B construct_object_again by (simp add: runs_def grew_refl)
next
  case False
  obtain x where x: "construct_object safe_tables r False s = Some (Inr (object_at (after_node (node_value (g ! r)) r x s) r),
      after_node (node_value (g ! r)) r x s)"
    "\<And>v style. node_value (g ! r) = ScalarNode v style \<Longrightarrow> scalar_object (node_tag (g ! r)) v = Some x"
    using construct_object_new [of g s r] plain_at [OF assms(1) r] B False by (auto simp: building_def)
  then show ?thesis using after_node_building [OF B r False x(2)] by (simp add: runs_def)
qed

section \<open>Filling a container\<close>

definition kept :: "builder \<Rightarrow> builder \<Rightarrow> bool" where
  "kept s t = (\<forall>x. built s x \<longrightarrow> built t x \<and> object_at t x = object_at s x)"

lemma keptD: "kept s t \<Longrightarrow> built s x \<Longrightarrow> built t x \<and> object_at t x = object_at s x"
  by (simp add: kept_def)

lemma kept_refl: "kept s s"
  by (simp add: kept_def)

lemma kept_trans: "kept s t \<Longrightarrow> kept t u \<Longrightarrow> kept s u"
  by (simp add: kept_def)

lemma grew_kept: "grew g s t \<Longrightarrow> kept s t"
  by (simp add: grew_def kept_def)

lemma items_run:
  assumes plain: "plain_graph g"
  shows "building g W s \<Longrightarrow> set xs \<subseteq> {..<length g} \<Longrightarrow>
    runs (pcollect (\<lambda>x. construct_object safe_tables x False) xs) s
      (\<lambda>ys t. building g W t \<and> grew g s t \<and> (\<forall>x \<in> set xs. built t x) \<and> ys = map (object_at t) xs) (\<lambda>_ _. False)"
proof (induction xs arbitrary: s)
  case Nil
  then show ?case by (simp add: runs_pret grew_refl)
next
  case (Cons x xs)
  have "x < length g" using Cons.prems by simp
  then show ?case unfolding pcollect.simps
  proof (intro runs_pbind_seq [OF construct_object_run [OF plain Cons.prems(1)]], assumption)
    fix o1 t assume t: "building g W t \<and> grew g s t \<and> built t x \<and> o1 = object_at t x"
    have "runs (pcollect (\<lambda>x. construct_object safe_tables x False) xs) t
      (\<lambda>ys u. building g W u \<and> grew g t u \<and> (\<forall>x \<in> set xs. built u x) \<and> ys = map (object_at u) xs) (\<lambda>_ _. False)"
      using t Cons.prems(2) by (intro Cons.IH) auto
    then show "runs (pbind (pcollect (\<lambda>x. construct_object safe_tables x False) xs) (\<lambda>ys. pret (o1 # ys))) t
      (\<lambda>ys t. building g W t \<and> grew g s t \<and> (\<forall>x \<in> set (x # xs). built t x) \<and> ys = map (object_at t) (x # xs)) (\<lambda>_ _. False)"
    proof (rule runs_pbind_seq)
      fix ys u assume u: "building g W u \<and> grew g t u \<and> (\<forall>x \<in> set xs. built u x) \<and> ys = map (object_at u) xs"
      have "built u x" "object_at u x = o1" using t u by (simp_all add: grew_def)
      then show "runs (pret (o1 # ys)) u (\<lambda>ys t. building g W t \<and> grew g s t \<and> (\<forall>x \<in> set (x # xs). built t x) \<and>
          ys = map (object_at t) (x # xs)) (\<lambda>_ _. False)"
        using t u grew_trans by (intro runs_pret) auto
    qed
  qed
qed

definition put_pairs :: "(node_ref \<Rightarrow> obj) \<Rightarrow> (node_ref \<times> node_ref) list \<Rightarrow> (obj \<times> obj) list \<Rightarrow> (obj \<times> obj) list" where
  "put_pairs f pairs m = foldl (\<lambda>d (k, v). dict_put d (f k) (f v)) m pairs"

lemma pairs_run:
  assumes plain: "plain_graph g"
  shows "building g W s \<Longrightarrow> (\<forall>(k, v) \<in> set ps. k < length g \<and> v < length g \<and> is_scalar_node (g ! k)) \<Longrightarrow>
    runs (mapping_loop (construct_object safe_tables) n False ps m) s
      (\<lambda>d t. building g W t \<and> grew g s t \<and> (\<forall>(k, v) \<in> set ps. built t k \<and> built t v) \<and> d = put_pairs (object_at t) ps m) (\<lambda>_ _. False)"
proof (induction ps arbitrary: s m)
  case Nil
  then show ?case by (simp add: runs_pret grew_refl put_pairs_def)
next
  case (Cons p ps)
  obtain k v where p: "p = (k, v)" by (cases p)
  have kv: "k < length g" "v < length g" "is_scalar_node (g ! k)" using Cons.prems(2) p by auto
  let ?R = "\<lambda>d t. building g W t \<and> grew g s t \<and> (\<forall>(k, v) \<in> set (p # ps). built t k \<and> built t v) \<and> d = put_pairs (object_at t) (p # ps) m"
  show ?case unfolding p mapping_loop.simps construct_key_def
  proof (rule runs_pbind, intro runs_pbind_seq [OF construct_object_run [OF plain Cons.prems(1) kv(1)]], fold p)
    fix key t assume t: "building g W t \<and> grew g s t \<and> built t k \<and> key = object_at t k"
    have "object_ok g (pending W t) t k" using t by (simp add: building_def)
    then have key: "is_hashable key" "can_hash key" using kv(3) t scalar_object_key by (auto simp: object_ok_def)
    have "runs (pbind (construct_object safe_tables v False) (\<lambda>x.
        if can_hash key then mapping_loop (construct_object safe_tables) n False ps (dict_put m key x) else pthrow (Raised TypeError))) t ?R (\<lambda>_ _. False)"
    proof (intro runs_pbind_seq [OF construct_object_run [OF plain _ kv(2)]])
      fix x u assume u: "building g W u \<and> grew g t u \<and> built u v \<and> x = object_at u v"
      have "runs (mapping_loop (construct_object safe_tables) n False ps (dict_put m key x)) u
        (\<lambda>d w. building g W w \<and> grew g u w \<and> (\<forall>(k, v) \<in> set ps. built w k \<and> built w v) \<and>
          d = put_pairs (object_at w) ps (dict_put m key x)) (\<lambda>_ _. False)"
        using u Cons.prems(2) by (intro Cons.IH) auto
      then have "runs (mapping_loop (construct_object safe_tables) n False ps (dict_put m key x)) u ?R (\<lambda>_ _. False)"
      proof (rule runs_conseq)
        fix d w assume w: "building g W w \<and> grew g u w \<and> (\<forall>(k, v) \<in> set ps. built w k \<and> built w v) \<and>
          d = put_pairs (object_at w) ps (dict_put m key x)"
        have g: "built w k" "object_at w k = key" "built w v" "object_at w v = x"
          using t u w by (auto simp: grew_def)
        moreover have "grew g s w" using t u w grew_trans by blast
        ultimately show "?R d w" using w by (simp add: put_pairs_def p)
      qed
      then show "runs (if can_hash key then mapping_loop (construct_object safe_tables) n False ps (dict_put m key x)
          else pthrow (Raised TypeError)) u ?R (\<lambda>_ _. False)" using key by simp
    qed (use t in simp)
    then show "runs (if is_hashable key then pret key else pbind (node_at k) (\<lambda>kn. constructor_error
        (Some ''while constructing a mapping'') (node_start n) ''found unhashable key'' (node_start kn))) t
      (\<lambda>x t. runs (pbind (construct_object safe_tables v False) (\<lambda>y.
        if can_hash x then mapping_loop (construct_object safe_tables) n False ps (dict_put m x y) else pthrow (Raised TypeError))) t ?R (\<lambda>_ _. False)) (\<lambda>_ _. False)"
      using key by (simp add: runs_pret)
  qed
qed

text \<open>Putting the items of a dictionary into an empty one gives the dictionary.\<close>

definition key_list :: "(obj \<times> obj) list \<Rightarrow> obj list" where
  "key_list d = map (key_of \<circ> fst) d"

lemma dict_put_keys:
  "distinct (key_list d) \<Longrightarrow> distinct (key_list (dict_put d k v)) \<and> set (key_list (dict_put d k v)) = insert (key_of k) (set (key_list d))"
  by (induction d k v rule: dict_put.induct) (auto simp: key_list_def intro: rev_image_eqI)

lemma put_pairs_keys: "distinct (key_list m) \<Longrightarrow> distinct (key_list (put_pairs f ps m))"
  by (induction ps arbitrary: m) (auto simp: put_pairs_def dict_put_keys)

lemma dict_put_new: "key_of k \<notin> set (key_list d) \<Longrightarrow> dict_put d k v = d @ [(k, v)]"
  by (induction d k v rule: dict_put.induct) (auto simp: key_list_def)

lemma dict_rebuild: "distinct (key_list (acc @ d)) \<Longrightarrow> foldl (\<lambda>d (k, v). dict_put d k v) acc d = acc @ d"
proof (induction d arbitrary: acc)
  case (Cons p d)
  have "dict_put acc (fst p) (snd p) = acc @ [p]" using Cons.prems by (subst dict_put_new) (auto simp: key_list_def)
  then show ?case using Cons.IH [of "acc @ [p]"] Cons.prems by (simp add: case_prod_unfold)
qed simp

text \<open>When its children are built, the container of a node is filled and its generator is over.\<close>

lemma filled_building:
  assumes B: "building g (x # W) s" and built: "\<forall>y \<in> set (children (node_value (g ! x))). built s y" and d: "object_at s x = ORef d"
  defines "u \<equiv> s\<lparr>b_objects := (b_objects s)[d := full_of (object_at s) (node_value (g ! x))]\<rparr>"
  shows "building g W u" "kept s u" "weight g W u < weight g (x # W) s"
proof -
  have P: "pending (x # W) s = x # pending W u" by (simp add: pending_def u_def)
  have same: "built u = built s" "object_at u = object_at s" "state_generators u = state_generators s" "idle g u = idle g s"
    by (simp_all add: u_def built_def object_at_def fun_eq_iff idle_def)
  show "kept s u" by (simp add: kept_def same)
  show "weight g W u < weight g (x # W) s" using P by (simp add: weight_def same)
  have x: "built s x" "\<not> is_scalar_node (g ! x)" "x \<notin> set (pending W u)" using B P by (auto simp: building_def)
  have dl: "d < length (b_objects s)" using object_bound [OF B x(1) d] .
  have objs: "b_objects u = (b_objects s)[d := full_of (object_at s) (node_value (g ! x))]" by (simp add: u_def)
  have "object_ok g (pending W u) u y" if y: "built s y" for y
  proof (cases "y = x")
    case True
    then show ?thesis using x d dl built by (auto simp: object_ok_def same objs)
  next
    case False
    have ok: "object_ok g (x # pending W u) s y" using B y P by (simp add: building_def)
    have "object_at s y \<noteq> ORef d" using B y x(1) d False unfolding building_def by blast
    then show ?thesis using ok False by (cases "y \<in> set (pending W u)") (auto simp: object_ok_def same objs)
  qed
  then show "building g W u" using B P by (auto simp: building_def same task_ok_def)
qed

lemma run_task_run:
  assumes plain: "plain_graph g" and B: "building g (task_node t # W) s" and t: "task_ok g s t"
  shows "runs (run_task (construct_object safe_tables) t) s
    (\<lambda>_ u. building g W u \<and> kept s u \<and> weight g W u < weight g (task_node t # W) s) (\<lambda>_ _. False)"
proof -
  obtain x where x: "task_node t = x" by simp
  then obtain d where d: "object_at s x = ORef d" "t = fill_task (node_value (g ! x)) x d"
    using t by (auto simp: task_ok_def)
  have "x \<in> set (pending (x # W) s)" by (simp add: pending_def)
  then have bx: "built s x" "\<not> is_scalar_node (g ! x)" "x < length g" using B unfolding x building_def by blast+
  note plx = plain_at [OF plain bx(3)] and child = plain_child [OF plain bx(3)]
  have nodes: "b_nodes u = g" if "building g V u" for V u using that by (simp add: building_def idle_def)
  have filled: "runs (update_object d f) w (\<lambda>_ u. building g W u \<and> kept s u \<and> weight g W u < weight g (x # W) s) (\<lambda>_ _. False)"
    if w: "building g (x # W) w" "grew g s w" "\<forall>y \<in> set (children (node_value (g ! x))). built w y"
      and f: "f (empty_of (node_value (g ! x))) = full_of (object_at w) (node_value (g ! x))" for f w
  proof -
    have o: "object_at w x = ORef d" "built w x" using w(2) bx d by (auto simp: grew_def)
    have "object_ok g (pending (x # W) w) w x" using w(1) o(2) by (simp add: building_def)
    then have "b_objects w ! d = empty_of (node_value (g ! x))" using bx(2) o(1) by (auto simp: object_ok_def pending_def)
    moreover note filled_building [OF w(1,3) o(1)]
    moreover have "weight g (x # W) w \<le> weight g (x # W) s" using w(2) by (simp add: grew_def)
    ultimately show ?thesis using f kept_trans [OF grew_kept [OF w(2)]]
      unfolding update_object_def by (intro runs_pmodify) force
  qed
  show ?thesis
  proof (cases "node_value (g ! x)")
    case (SequenceNode items fl)
    then have t: "t = FillSeq x d" and sub: "set items \<subseteq> {..<length g}" using d child by auto
    show ?thesis unfolding t task_node.simps run_task.simps fill_seq_def construct_sequence_def node_at_def
    proof (rule runs_pbind, rule runs_pbind, rule runs_pgets, unfold nodes [OF B [unfolded x]] SequenceNode node_value.case,
        rule runs_conseq [OF items_run [OF plain B [unfolded x] sub]])
      fix ys w assume "building g (x # W) w \<and> grew g s w \<and> (\<forall>x \<in> set items. built w x) \<and> ys = map (object_at w) items"
      then show "runs (update_object d (\<lambda>c. case c of PyList xs \<Rightarrow> PyList (xs @ ys) | _ \<Rightarrow> c)) w
          (\<lambda>_ u. building g W u \<and> kept s u \<and> weight g W u < weight g (x # W) s) (\<lambda>_ _. False)"
        using SequenceNode by (intro filled) auto
    qed simp
  next
    case (MappingNode pairs fl)
    then have t: "t = FillMap x d" using d by simp
    have key: "k < length g \<and> v < length g \<and> is_scalar_node (g ! k)" if "(k, v) \<in> set pairs" for k v
      using child plx that MappingNode by (force simp: plain_node_def)
    have scalar: "node_tag (g ! k) \<noteq> merge_tag \<and> node_tag (g ! k) \<noteq> value_tag" if "(k, v) \<in> set pairs" for k v
      using plain_at [OF plain, of k] key [OF that] scalar_tags
      by (auto simp: plain_node_def is_scalar_node_def split: node_value.splits)
    have flat: "flatten_mapping x s = Some (Inr (), s)"
      by (rule flatten_idle) (use MappingNode scalar nodes [OF B] in \<open>auto simp: pairs_of_def\<close>)
    have flat: "runs (if is_mapping_node (g ! x) then flatten_mapping x else pret ()) s (\<lambda>_ s'. s' = s) (\<lambda>_ _. False)"
      using flat by (simp add: runs_def pret_def)
    have pairs: "runs (mapping_loop (construct_object safe_tables) (g ! x) False pairs []) s
      (\<lambda>m w. building g (x # W) w \<and> grew g s w \<and> (\<forall>(k, v) \<in> set pairs. built w k \<and> built w v) \<and> m = dict_of (object_at w) pairs) (\<lambda>_ _. False)"
      using pairs_run [OF plain B [unfolded x], of pairs "g ! x" "[]"] key by (auto simp: put_pairs_def dict_of_def)
    show ?thesis
      unfolding t task_node.simps run_task.simps fill_map_def construct_mapping_def base_construct_mapping_def node_at_def
    proof (rule runs_pbind, rule runs_pbind, rule runs_pgets, unfold nodes [OF B [unfolded x]],
        rule runs_pbind_seq [OF flat], simp only:, rule runs_pbind, rule runs_pgets,
        unfold nodes [OF B [unfolded x]] MappingNode node_value.case, rule runs_conseq [OF pairs])
      fix m w assume w: "building g (x # W) w \<and> grew g s w \<and> (\<forall>(k, v) \<in> set pairs. built w k \<and> built w v) \<and> m = dict_of (object_at w) pairs"
      have "distinct (key_list m)" using w put_pairs_keys [of "[]" "object_at w" pairs] by (simp add: dict_of_def put_pairs_def key_list_def)
      then have "foldl (\<lambda>d (k, v). dict_put d k v) [] m = m" using dict_rebuild [of "[]" m] by simp
      then show "runs (update_object d (\<lambda>c. case c of PyDict xs \<Rightarrow> PyDict (foldl (\<lambda>d (k, v). dict_put d k v) xs m) | _ \<Rightarrow> c)) w
          (\<lambda>_ u. building g W u \<and> kept s u \<and> weight g W u < weight g (x # W) s) (\<lambda>_ _. False)"
        using MappingNode w by (intro filled) auto
    qed simp
  qed (use bx in \<open>simp add: is_scalar_node_def\<close>)
qed

section \<open>The rounds\<close>

lemma round_run:
  assumes plain: "plain_graph g"
  shows "building g (map task_node ts) s \<Longrightarrow> (\<forall>t \<in> set ts. task_ok g s t) \<Longrightarrow>
    runs (peach (run_task (construct_object safe_tables)) ts) s
      (\<lambda>_ u. building g [] u \<and> kept s u \<and> weight g [] u + length ts \<le> weight g (map task_node ts) s) (\<lambda>_ _. False)"
proof (induction ts arbitrary: s)
  case Nil
  then show ?case by (simp add: runs_pret kept_refl)
next
  case (Cons t ts)
  have B: "building g (task_node t # map task_node ts) s" and t: "task_ok g s t" using Cons.prems by simp_all
  show ?case unfolding peach.simps
  proof (rule runs_pbind_seq [OF run_task_run [OF plain B t]])
    fix v u assume u: "building g (map task_node ts) u \<and> kept s u \<and>
      weight g (map task_node ts) u < weight g (task_node t # map task_node ts) s"
    have "task_ok g u a" if a: "a \<in> set ts" for a
    proof -
      have "task_node a \<in> set (pending (task_node t # map task_node ts) s)" using a by (simp add: pending_def)
      then have "built s (task_node a)" using B unfolding building_def by blast
      then have "object_at u (task_node a) = object_at s (task_node a)" using u keptD by blast
      moreover have "task_ok g s a" using Cons.prems(2) a by simp
      ultimately show ?thesis by (rule task_ok_kept [rotated])
    qed
    then have "\<forall>t \<in> set ts. task_ok g u t" by blast
    then have "runs (peach (run_task (construct_object safe_tables)) ts) u
      (\<lambda>_ w. building g [] w \<and> kept u w \<and> weight g [] w + length ts \<le> weight g (map task_node ts) u) (\<lambda>_ _. False)"
      using u by (intro Cons.IH) simp_all
    then show "runs (peach (run_task (construct_object safe_tables)) ts) u
      (\<lambda>_ w. building g [] w \<and> kept s w \<and> weight g [] w + length (t # ts) \<le> weight g (map task_node (t # ts)) s) (\<lambda>_ _. False)"
      using u kept_trans by (elim runs_conseq) auto
  qed
qed

lemma generators_run:
  assumes plain: "plain_graph g" and B: "building g [] s"
  shows "runs (ploop (\<lambda>_. generators_turn safe_tables) ()) s
    (\<lambda>_ u. building g [] u \<and> kept s u \<and> state_generators u = []) (\<lambda>_ _. False)"
proof (rule runs_ploop [where I = "\<lambda>_ t. building g [] t \<and> kept s t" and m = "\<lambda>_ t. weight g [] t"])
  fix x :: unit and t assume I: "building g [] t \<and> kept s t"
  let ?t = "t\<lparr>state_generators := []\<rparr>" and ?ts = "state_generators t"
  have same: "built ?t = built t" "object_at ?t = object_at t" by (simp_all add: built_def object_at_def fun_eq_iff)
  have P: "pending (map task_node ?ts) ?t = pending [] t" by (simp add: pending_def)
  have ok: "object_ok g P ?t y = object_ok g P t y" for P y by (simp add: object_ok_def same)
  have w: "weight g (map task_node ?ts) ?t = weight g [] t" by (simp add: weight_def P same)
  have "building g (map task_node ?ts) ?t"
    using I unfolding building_def by (simp add: P same ok idle_def)
  moreover have "\<forall>a \<in> set ?ts. task_ok g ?t a" using I by (simp add: building_def task_ok_def same)
  ultimately have run: "runs (peach (run_task (construct_object safe_tables)) ?ts) ?t
      (\<lambda>_ u. building g [] u \<and> kept ?t u \<and> weight g [] u + length ?ts \<le> weight g [] t) (\<lambda>_ _. False)"
    unfolding w [symmetric] by (rule round_run [OF plain])
  have "kept ?t u = kept t u" for u by (simp add: kept_def same)
  then have "runs (pbind (peach (run_task (construct_object safe_tables)) ?ts) (\<lambda>_. again ())) ?t
      (\<lambda>r u. case r of Inl y \<Rightarrow> (building g [] u \<and> kept s u) \<and> weight g [] u < weight g [] t
        | Inr z \<Rightarrow> building g [] u \<and> kept s u \<and> state_generators u = []) (\<lambda>_ _. False)" if "?ts \<noteq> []"
  proof (intro runs_pbind_seq [OF run] runs_again)
    fix v u assume u: "building g [] u \<and> kept ?t u \<and> weight g [] u + length ?ts \<le> weight g [] t"
    have "kept s u" using I u kept_trans [of s t u] \<open>\<And>u. kept ?t u = kept t u\<close> by simp
    moreover have "weight g [] u < weight g [] t" using u that by (cases ?ts) simp_all
    ultimately show "case Inl () of Inl y \<Rightarrow> (building g [] u \<and> kept s u) \<and> weight g [] u < weight g [] t
        | Inr z \<Rightarrow> building g [] u \<and> kept s u \<and> state_generators u = []" using u by simp
  qed
  then show "runs (generators_turn safe_tables) t
      (\<lambda>r u. case r of Inl y \<Rightarrow> (building g [] u \<and> kept s u) \<and> weight g [] u < weight g [] t
        | Inr z \<Rightarrow> building g [] u \<and> kept s u \<and> state_generators u = []) (\<lambda>_ _. False)"
    unfolding generators_turn_def using I
    by (intro runs_pbind [where m = "pgets state_generators"] runs_pgets runs_if runs_leave
        runs_pbind [where m = "pmodify (\<lambda>s. s\<lparr>state_generators := []\<rparr>)"] runs_pmodify) simp_all
qed (simp add: B kept_refl)

lemma building_represents:
  assumes plain: "plain_graph g" and B: "building g [] s" and over: "state_generators s = []" and r: "built s r"
  shows "represents g (object_at s) (b_objects s) (reachable g r)"
proof -
  have P: "pending [] s = []" using over by (simp add: pending_def)
  have ok: "object_ok g [] s x" if "built s x" for x using B that by (auto simp: building_def P)
  have all: "built s x" if "x \<in> reachable g r" for x
    using that
  proof (induction rule: reachable.induct)
    case (child x y)
    then show ?case using ok [OF child(3)] by (auto simp: object_ok_def is_scalar_node_def split: node_value.splits if_splits)
  qed (rule r)
  show ?thesis
    unfolding represents_def
  proof (intro conjI ballI)
    fix x assume "x \<in> reachable g r"
    from ok [OF all [OF this]] show "case node_value (g ! x) of
         ScalarNode v style \<Rightarrow> scalar_object (node_tag (g ! x)) v = Some (object_at s x)
       | SequenceNode items fl \<Rightarrow> \<exists>d < length (b_objects s). object_at s x = ORef d \<and> b_objects s ! d = PyList (map (object_at s) items)
       | MappingNode pairs fl \<Rightarrow> \<exists>d < length (b_objects s). object_at s x = ORef d \<and> b_objects s ! d = PyDict (dict_of (object_at s) pairs)"
      by (cases "node_value (g ! x)") (auto simp: object_ok_def is_scalar_node_def)
  next
    fix x y assume "x \<in> reachable g r" "y \<in> reachable g r"
    then show "\<forall>d. object_at s x = ORef d \<longrightarrow> object_at s y = ORef d \<longrightarrow> x = y" using all B unfolding building_def by blast
  qed
qed

lemma construct_represents:
  assumes "plain_graph g" and "r < length g"
  shows "\<exists>f s. construct_document safe_tables r (new_builder g) = Some (Inr (f r), s) \<and>
    represents g f (b_objects s) (reachable g r)"
proof -
  let ?done = "\<lambda>s. s\<lparr>constructed_objects := [], recursive_objects := [], deep_construct := False\<rparr>"
  have B: "building g [] (new_builder g)"
    by (simp add: building_def new_builder_def idle_def built_def pending_def)
  have "runs (construct_document safe_tables r) (new_builder g)
    (\<lambda>x s. \<exists>f. x = f r \<and> represents g f (b_objects s) (reachable g r)) (\<lambda>_ _. False)"
    unfolding construct_document_def
  proof (rule runs_pbind_seq [OF construct_object_run [OF assms(1) B assms(2)]])
    fix x s assume s: "building g [] s \<and> grew g (new_builder g) s \<and> built s r \<and> x = object_at s r"
    then have "building g [] s" by simp
    from generators_run [OF assms(1) this]
    show "runs (pbind (ploop (\<lambda>_. generators_turn safe_tables) ()) (\<lambda>_. pbind (pmodify ?done) (\<lambda>_. pret x))) s
      (\<lambda>x s. \<exists>f. x = f r \<and> represents g f (b_objects s) (reachable g r)) (\<lambda>_ _. False)"
    proof (rule runs_pbind_seq, intro runs_pbind runs_pmodify runs_pret)
      fix v u assume u: "building g [] u \<and> kept s u \<and> state_generators u = []"
      then have "built u r" "object_at u r = object_at s r" using s keptD by blast+
      then have "represents g (object_at u) (b_objects u) (reachable g r) \<and> x = object_at u r"
        using building_represents [OF assms(1), of u r] u s by simp
      then show "\<exists>f. x = f r \<and> represents g f (b_objects (?done u)) (reachable g r)" by auto
    qed
  qed
  from runs_sure [OF this] show ?thesis by auto
qed

text \<open>
  C20. \<open>construct_document\<close> implements the abstract reading of a graph of nodes.  On every
  closed graph of plain data, shared and cyclic collections included, the safe constructor
  comes to an end without an error, and the objects it leaves represent the graph: each scalar
  is its value, each sequence a list of what its items are, each mapping the dictionary of its
  pairs in order, and two nodes have one object only if they are one node.
\<close>

theorem construct_document_represents:
  assumes "plain_graph g" and "r < length g"
  shows "\<exists>f s. construct_document safe_tables r (new_builder g) = Some (Inr (f r), s) \<and>
    represents g f (b_objects s) (reachable g r)"
  using construct_represents [OF assms] .

definition plain_sample :: "node list" where
  "plain_sample =
     [\<lparr>node_tag = map_tag, node_value = MappingNode [(1, 2), (3, 0)] None, node_start = None, node_end = None\<rparr>,
      \<lparr>node_tag = str_tag, node_value = ScalarNode ''items'' None, node_start = None, node_end = None\<rparr>,
      \<lparr>node_tag = seq_tag, node_value = SequenceNode [3, 3, 2] None, node_start = None, node_end = None\<rparr>,
      \<lparr>node_tag = ''tag:yaml.org,2002:int'', node_value = ScalarNode ''7'' None, node_start = None, node_end = None\<rparr>]"

lemma construct_document_represents_witness:
  "\<exists>f s. construct_document safe_tables 0 (new_builder plain_sample) = Some (Inr (f 0), s) \<and>
    represents plain_sample f (b_objects s) (reachable plain_sample 0)"
proof (rule construct_document_represents)
  have "yaml_int ''7'' = Inr 7" by code_simp
  then show "plain_graph plain_sample"
    by (auto simp: plain_graph_def closed_graph_def plain_sample_def plain_node_def scalar_object_def yaml_tag_def
        is_scalar_node_def str_tag_def)
qed (simp add: plain_sample_def)

end
