(* ===== verification/Py_Codecs.thy ===== *)
theory Py_Codecs
  imports Py_Strings
begin

text \<open>
  Text by code points, and the decoders of the module \<open>codecs\<close> that the reader of the YAML
  library uses, as Python documents them: strict, resumable (without \<open>final\<close> an incomplete
  sequence at the end is left for the next call) and with the place and reason of a failure.
\<close>

type_synonym ucs = nat
type_synonym bytes = "nat list"

text \<open>Literals: the code points of a string of characters.\<close>

definition uc :: "string \<Rightarrow> ucs list" where
  "uc s = map of_char s"

section \<open>One character of UTF-8\<close>

text \<open>
  \<open>Code c k\<close> is a character of \<open>k + 1\<close> bytes, \<open>Incomplete\<close> a sequence that ends before its
  character does, \<open>Bad k\<close> a sequence whose first \<open>k\<close> bytes are wrong.
\<close>

datatype decoded = Code ucs nat | Incomplete string | Bad nat string

definition cont :: "nat \<Rightarrow> bool" where
  "cont b = (128 \<le> b \<and> b < 192)"

definition bad_start :: decoded where "bad_start = Bad 1 ''invalid start byte''"
definition bad_cont :: "nat \<Rightarrow> decoded" where "bad_cont k = Bad k ''invalid continuation byte''"
definition cut_short :: decoded where "cut_short = Incomplete ''unexpected end of data''"

fun utf8_two :: "nat \<Rightarrow> bytes \<Rightarrow> decoded" where
  "utf8_two b [] = cut_short"
| "utf8_two b (c # _) = (if cont c then Code ((b - 192) * 64 + (c - 128)) 1 else bad_cont 1)"

fun utf8_three :: "nat \<Rightarrow> bytes \<Rightarrow> decoded" where
  "utf8_three b [] = cut_short"
| "utf8_three b (c # r) =
     (if \<not> cont c \<or> (b = 224 \<and> c < 160) \<or> (b = 237 \<and> 160 \<le> c) then bad_cont 1
      else case r of [] \<Rightarrow> cut_short
       | d # _ \<Rightarrow> if cont d then Code ((b - 224) * 4096 + (c - 128) * 64 + (d - 128)) 2 else bad_cont 2)"

fun utf8_four :: "nat \<Rightarrow> bytes \<Rightarrow> decoded" where
  "utf8_four b [] = cut_short"
| "utf8_four b (c # r) =
     (if \<not> cont c \<or> (b = 240 \<and> c < 144) \<or> (b = 244 \<and> 144 \<le> c) then bad_cont 1
      else case r of [] \<Rightarrow> cut_short
       | d # q \<Rightarrow> if \<not> cont d then bad_cont 2 else case q of [] \<Rightarrow> cut_short
           | e # _ \<Rightarrow> if cont e
               then Code ((b - 240) * 262144 + (c - 128) * 4096 + (d - 128) * 64 + (e - 128)) 3
               else bad_cont 3)"

fun utf8_char :: "bytes \<Rightarrow> decoded" where
  "utf8_char [] = cut_short"
| "utf8_char (b # r) =
     (if b < 128 then Code b 0
      else if b < 194 then bad_start
      else if b < 224 then utf8_two b r
      else if b < 240 then utf8_three b r
      else if b < 245 then utf8_four b r
      else bad_start)"

section \<open>One character of UTF-16\<close>

fun utf16_char :: "(nat \<Rightarrow> nat \<Rightarrow> nat) \<Rightarrow> bytes \<Rightarrow> decoded" where
  "utf16_char unit (a # b # r) =
     (let w = unit a b in
      if w < 55296 \<or> 57344 \<le> w then Code w 1
      else if 56320 \<le> w then Bad 2 ''illegal encoding''
      else case r of
          c # d # _ \<Rightarrow> (let v = unit c d in
            if 56320 \<le> v \<and> v < 57344 then Code (65536 + (w - 55296) * 1024 + (v - 56320)) 3
            else Bad 2 ''illegal UTF-16 surrogate'')
        | _ \<Rightarrow> cut_short)"
| "utf16_char unit _ = Incomplete ''truncated data''"

section \<open>The decoders\<close>

datatype codec = Utf8 | Utf16le | Utf16be

fun codec_char :: "codec \<Rightarrow> bytes \<Rightarrow> decoded" where
  "codec_char Utf8 bs = utf8_char bs"
| "codec_char Utf16le bs = utf16_char (\<lambda>a b. a + 256 * b) bs"
| "codec_char Utf16be bs = utf16_char (\<lambda>a b. 256 * a + b) bs"

fun codec_name :: "codec \<Rightarrow> string" where
  "codec_name Utf8 = ''utf-8''"
| "codec_name Utf16le = ''utf-16-le''"
| "codec_name Utf16be = ''utf-16-be''"

text \<open>\<open>UnicodeDecodeError\<close>\<close>

record decode_error =
  de_encoding :: string
  de_start :: nat
  de_end :: nat
  de_reason :: string

definition decode_failure :: "string \<Rightarrow> nat \<Rightarrow> nat \<Rightarrow> string \<Rightarrow> decode_error" where
  "decode_failure name s e why = \<lparr>de_encoding = name, de_start = s, de_end = e, de_reason = why\<rparr>"

fun decode_from :: "(bytes \<Rightarrow> decoded) \<Rightarrow> string \<Rightarrow> bool \<Rightarrow> nat \<Rightarrow> bytes \<Rightarrow> decode_error + (ucs list \<times> nat)" where
  "decode_from char_at name final pos [] = Inr ([], pos)"
| "decode_from char_at name final pos (b # r) =
     (case char_at (b # r) of
        Code c k \<Rightarrow> rbind (decode_from char_at name final (pos + k + 1) (drop k r)) (\<lambda>(t, n). Inr (c # t, n))
      | Incomplete why \<Rightarrow>
          if final then Inl (decode_failure name pos (pos + length (b # r)) why) else Inr ([], pos)
      | Bad k why \<Rightarrow> Inl (decode_failure name pos (pos + k) why))"

text \<open>The decoded text and the number of bytes that were used up.\<close>

definition decode :: "codec \<Rightarrow> bytes \<Rightarrow> bool \<Rightarrow> decode_error + (ucs list \<times> nat)" where
  "decode cd bs final = decode_from (codec_char cd) (codec_name cd) final 0 bs"

section \<open>Decoding in pieces\<close>

text \<open>
  What a decoder of characters must satisfy for a text to be decoded piece by piece: a
  character, and a fault, is found in the same way whatever follows it.
\<close>

locale resumable =
  fixes char_at :: "bytes \<Rightarrow> decoded"
  assumes code_inside: "char_at bs = Code c k \<Longrightarrow> k < length bs"
    and code_extends: "char_at bs = Code c k \<Longrightarrow> char_at (bs @ ys) = Code c k"
    and bad_extends: "char_at bs = Bad k why \<Longrightarrow> char_at (bs @ ys) = Bad k why"
begin

lemma decode_bound:
  "decode_from char_at name final pos bs = Inr (t, n) \<Longrightarrow> pos + length t \<le> n \<and> n \<le> pos + length bs"
proof (induction bs arbitrary: pos t n rule: length_induct)
  case (1 bs)
  show ?case
  proof (cases bs)
    case Nil
    with 1(2) show ?thesis by simp
  next
    case bs: (Cons b r)
    show ?thesis
    proof (cases "char_at bs")
      case (Code c k)
      with 1(2) bs obtain t' where t: "decode_from char_at name final (pos + k + 1) (drop k r) = Inr (t', n)" "t = c # t'"
        by (auto simp: rbind_eq_Inr)
      have "k \<le> length r" using code_inside [OF Code] bs by simp
      moreover have "length (drop k r) < length bs" using bs by simp
      then have "pos + k + 1 + length t' \<le> n \<and> n \<le> pos + k + 1 + length (drop k r)"
        using 1(1) t(1) by blast
      ultimately show ?thesis using t(2) bs by simp
    qed (use 1(2) bs in \<open>auto split: if_splits\<close>)
  qed
qed

lemma decode_shift:
  "decode_from char_at name final pos bs = Inr (t, n) \<Longrightarrow> decode_from char_at name final q bs = Inr (t, n - pos + q)"
proof (induction bs arbitrary: pos q t n rule: length_induct)
  case (1 bs)
  show ?case
  proof (cases bs)
    case Nil
    with 1(2) show ?thesis by simp
  next
    case bs: (Cons b r)
    show ?thesis
    proof (cases "char_at bs")
      case (Code c k)
      with 1(2) bs obtain t' where t: "decode_from char_at name final (pos + k + 1) (drop k r) = Inr (t', n)" "t = c # t'"
        by (auto simp: rbind_eq_Inr)
      have "length (drop k r) < length bs" using bs by simp
      then have "decode_from char_at name final (q + k + 1) (drop k r) = Inr (t', n - (pos + k + 1) + (q + k + 1))"
        using 1(1) t(1) by blast
      moreover have "pos + k + 1 \<le> n" using decode_bound [OF t(1)] by simp
      ultimately show ?thesis using t(2) bs Code by simp
    qed (use 1(2) bs in \<open>auto split: if_splits\<close>)
  qed
qed

text \<open>Decoding a part, and later the rest with what the first call left, gives the whole text.\<close>

lemma decode_resume:
  "decode_from char_at name True pos (xs @ ys) = Inr (t, n) \<Longrightarrow>
   \<exists>t1 k t2 m. decode_from char_at name False p xs = Inr (t1, p + k) \<and> k \<le> length xs \<and>
     decode_from char_at name True q (drop k xs @ ys) = Inr (t2, m) \<and> t = t1 @ t2"
proof (induction xs arbitrary: pos p t n rule: length_induct)
  case (1 xs)
  show ?case
  proof (cases xs)
    case Nil
    with decode_shift [OF 1(2), of q] show ?thesis by auto
  next
    case xs: (Cons b r)
    show ?thesis
    proof (cases "char_at xs")
      case (Code c k)
      have all: "char_at (xs @ ys) = Code c k" using code_extends [OF Code] .
      have k: "k \<le> length r" using code_inside [OF Code] xs by simp
      with 1(2) xs all obtain t' where t: "decode_from char_at name True (pos + k + 1) (drop k r @ ys) = Inr (t', n)" "t = c # t'"
        by (auto simp: rbind_eq_Inr)
      have "length (drop k r) < length xs" using xs by simp
      then obtain t1 j t2 m where ih: "decode_from char_at name False (p + k + 1) (drop k r) = Inr (t1, p + k + 1 + j)"
        "j \<le> length (drop k r)" "decode_from char_at name True q (drop j (drop k r) @ ys) = Inr (t2, m)" "t' = t1 @ t2"
        using 1(1) t(1) by blast
      show ?thesis
        by (intro exI [of _ "c # t1"] exI [of _ "k + 1 + j"] exI [of _ t2] exI [of _ m])
           (use ih k t(2) xs Code in \<open>auto simp: add.commute add.left_commute\<close>)
    next
      case (Incomplete why)
      then have "decode_from char_at name False p xs = Inr ([], p + 0)" using xs by simp
      with decode_shift [OF 1(2), of q] show ?thesis by (metis append_Nil drop0 le0)
    next
      case (Bad k why)
      then have "char_at (xs @ ys) = Bad k why" by (rule bad_extends)
      with 1(2) xs show ?thesis by simp
    qed
  qed
qed

end

lemmas utf8_parts = utf8_char.simps utf8_two.simps utf8_three.simps utf8_four.simps bad_start_def bad_cont_def cut_short_def

interpretation utf8: resumable utf8_char
proof
  fix bs ys c k why
  show "utf8_char bs = Code c k \<Longrightarrow> k < length bs"
    by (cases bs; cases "tl bs"; cases "tl (tl bs)"; cases "tl (tl (tl bs))") (auto simp: utf8_parts split: if_splits)
  show "utf8_char bs = Code c k \<Longrightarrow> utf8_char (bs @ ys) = Code c k"
    by (cases bs; cases "tl bs"; cases "tl (tl bs)"; cases "tl (tl (tl bs))") (auto simp: utf8_parts split: if_splits)
  show "utf8_char bs = Bad k why \<Longrightarrow> utf8_char (bs @ ys) = Bad k why"
    by (cases bs; cases "tl bs"; cases "tl (tl bs)"; cases "tl (tl (tl bs))") (auto simp: utf8_parts split: if_splits)
qed

interpretation utf16: resumable "utf16_char unit" for unit
proof
  fix bs ys c k why
  show "utf16_char unit bs = Code c k \<Longrightarrow> k < length bs"
    by (cases bs; cases "tl bs"; cases "tl (tl bs)"; cases "tl (tl (tl bs))")
       (auto simp: cut_short_def Let_def split: if_splits)
  show "utf16_char unit bs = Code c k \<Longrightarrow> utf16_char unit (bs @ ys) = Code c k"
    by (cases bs; cases "tl bs"; cases "tl (tl bs)"; cases "tl (tl (tl bs))")
       (auto simp: cut_short_def Let_def split: if_splits)
  show "utf16_char unit bs = Bad k why \<Longrightarrow> utf16_char unit (bs @ ys) = Bad k why"
    by (cases bs; cases "tl bs"; cases "tl (tl bs)"; cases "tl (tl (tl bs))")
       (auto simp: cut_short_def Let_def split: if_splits)
qed

lemma resumable_codec: "resumable (codec_char cd)"
proof (cases cd)
  case Utf8
  have "codec_char cd = utf8_char" by (rule ext) (simp add: Utf8)
  then show ?thesis using utf8.resumable_axioms by simp
next
  case Utf16le
  have "codec_char cd = utf16_char (\<lambda>a b. a + 256 * b)" by (rule ext) (simp add: Utf16le)
  then show ?thesis using utf16.resumable_axioms by simp
next
  case Utf16be
  have "codec_char cd = utf16_char (\<lambda>a b. 256 * a + b)" by (rule ext) (simp add: Utf16be)
  then show ?thesis using utf16.resumable_axioms by simp
qed

interpretation codec: resumable "codec_char cd" for cd
  by (rule resumable_codec)

end
