(* ===== verification/Yaml_Reader.thy ===== *)
theory Yaml_Reader
  imports Py_Codecs Py_Loops Yaml_Data
begin

text \<open>
  The reader of the bundled YAML library (\<open>yaml/reader.py\<close>): a buffer of code points with a
  NUL at the end of the input, filled from a string, from bytes, or piece by piece from a file
  (whose \<open>read\<close> answers a given list of chunks, then empty ones), and the place in it.
\<close>

section \<open>Sources, errors and the state\<close>

datatype stream = ByteStream "bytes list" | TextStream "ucs list list"

datatype raw = RawBytes bytes | RawText "ucs list"

datatype source = StrSource "ucs list" | BytesSource bytes | FileSource "string option" stream

record reader_error =
  re_name :: string
  re_position :: nat
  re_character :: nat
  re_encoding :: string
  re_reason :: string

text \<open>
  \<open>Mark(name, index, line, column, buffer, pointer)\<close>; a mark of a stream has no buffer.
\<close>

record umark =
  um_name :: string
  um_index :: nat
  um_line :: nat
  um_column :: nat
  um_place :: "(ucs list \<times> nat) option"

text \<open>
  The text of a problem, and one made with \<open>%r\<close> of the character that was found.  A
  hexadecimal escape names the number of digits it wants as well.
\<close>

datatype problem = Says string | Found string ucs | FoundInEscape nat ucs

datatype scan_error =
    ReaderError reader_error
  | ScannerError "string option" "umark option" problem umark "string option"
  | Raised exn

record reader =
  rd_name :: string
  rd_stream :: "stream option"
  stream_pointer :: nat
  eof :: bool
  buffer :: "ucs list"
  pointer :: nat
  raw_buffer :: "raw option"
  raw_decode :: "codec option"
  encoding :: "string option"
  rd_index :: nat
  rd_line :: nat
  rd_column :: nat

type_synonym 'a reads = "(reader, scan_error, 'a) act"

fun raw_length :: "raw \<Rightarrow> nat" where
  "raw_length (RawBytes bs) = length bs"
| "raw_length (RawText t) = length t"

text \<open>The message of a \<open>ReaderError\<close>: its character is a number in both cases.\<close>

fun hex_digits :: "nat \<Rightarrow> string" where
  "hex_digits n = (if n < 16 then '''' else hex_digits (n div 16)) @
     [if n mod 16 < 10 then char_of (48 + n mod 16) else char_of (87 + n mod 16)]"

declare hex_digits.simps [simp del]

definition reader_error_str :: "reader_error \<Rightarrow> string" where
  "reader_error_str e =
     ''unacceptable character #x'' @ zero_pad 4 (hex_digits (re_character e)) @ '': '' @ re_reason e @ [nl] @
     ''  in '' @ [dquote] @ re_name e @ [dquote] @ '', position '' @ show_nat (re_position e)"

section \<open>Reading from the stream\<close>

definition printable :: "ucs \<Rightarrow> bool" where
  "printable c = (c = 9 \<or> c = 10 \<or> c = 13 \<or> (32 \<le> c \<and> c \<le> 126) \<or> c = 133 \<or>
     (160 \<le> c \<and> c \<le> 55295) \<or> (57344 \<le> c \<and> c \<le> 65533))"

fun first_odd :: "nat \<Rightarrow> ucs list \<Rightarrow> (nat \<times> ucs) option" where
  "first_odd n [] = None"
| "first_odd n (c # t) = (if printable c then first_odd (Suc n) t else Some (n, c))"

definition check_printable :: "ucs list \<Rightarrow> unit reads" where
  "check_printable t r =
     (case first_odd 0 t of None \<Rightarrow> (Inr (), r)
      | Some (n, c) \<Rightarrow> (Inl (ReaderError \<lparr>re_name = rd_name r, re_position = rd_index r + (length (buffer r) - pointer r) + n,
          re_character = c, re_encoding = ''unicode'', re_reason = ''special characters are not allowed''\<rparr>), r))"

fun read_chunk :: "stream \<Rightarrow> raw \<times> stream" where
  "read_chunk (ByteStream []) = (RawBytes [], ByteStream [])"
| "read_chunk (ByteStream (c # cs)) = (RawBytes c, ByteStream cs)"
| "read_chunk (TextStream []) = (RawText [], TextStream [])"
| "read_chunk (TextStream (c # cs)) = (RawText c, TextStream cs)"

fun raw_append :: "raw option \<Rightarrow> raw \<Rightarrow> scan_error + raw" where
  "raw_append None d = Inr d"
| "raw_append (Some (RawBytes a)) (RawBytes b) = Inr (RawBytes (a @ b))"
| "raw_append (Some (RawText a)) (RawText b) = Inr (RawText (a @ b))"
| "raw_append (Some _) _ = Inl (Raised TypeError)"

definition update_raw :: "unit reads" where
  "update_raw r =
     (case rd_stream r of None \<Rightarrow> (Inl (Raised AttributeError), r)
      | Some st \<Rightarrow> (case read_chunk st of (d, st') \<Rightarrow> (case raw_append (raw_buffer r) d of
            Inl e \<Rightarrow> (Inl e, r\<lparr>rd_stream := Some st'\<rparr>)
          | Inr raw \<Rightarrow> (Inr (), r\<lparr>rd_stream := Some st', raw_buffer := Some raw,
              stream_pointer := stream_pointer r + raw_length d, eof := eof r \<or> raw_length d = 0\<rparr>))))"

text \<open>What \<open>update\<close> takes out of the raw buffer: the text and what is left.\<close>

definition decode_raw :: "reader \<Rightarrow> scan_error + (ucs list \<times> raw)" where
  "decode_raw r =
     (case (raw_decode r, raw_buffer r) of
        (Some cd, Some (RawBytes bs)) \<Rightarrow> (case decode cd bs (eof r) of
            Inr (t, n) \<Rightarrow> Inr (t, RawBytes (drop n bs))
          | Inl d \<Rightarrow> Inl (ReaderError \<lparr>re_name = rd_name r,
              re_position = (case rd_stream r of Some _ \<Rightarrow> stream_pointer r - length bs + de_start d | None \<Rightarrow> de_start d),
              re_character = bs ! de_start d, re_encoding = de_encoding d, re_reason = de_reason d\<rparr>))
      | (None, Some (RawText t)) \<Rightarrow> Inr (t, RawText [])
      | _ \<Rightarrow> Inl (Raised TypeError))"

text \<open>One turn of the loop of \<open>update\<close>; the answer says whether it leaves the loop.\<close>

definition update_step :: "bool reads" where
  "update_step =
     sbind (gets eof) (\<lambda>ended.
     sbind (if ended then ret () else update_raw) (\<lambda>_.
     sbind (gets decode_raw) (\<lambda>d. sbind (lift_res d) (\<lambda>(t, rest).
     sbind (check_printable t) (\<lambda>_.
     sbind (gets eof) (\<lambda>ended.
     sbind (modify (\<lambda>r. if ended then r\<lparr>buffer := buffer r @ t @ [0], raw_buffer := None\<rparr>
                         else r\<lparr>buffer := buffer r @ t, raw_buffer := Some rest\<rparr>)) (\<lambda>_.
     ret ended)))))))"

definition chunks_left :: "reader \<Rightarrow> nat" where
  "chunks_left r = (case rd_stream r of None \<Rightarrow> 0 | Some (ByteStream cs) \<Rightarrow> length cs | Some (TextStream cs) \<Rightarrow> length cs)"

lemma update_raw_left:
  "update_raw r = (Inr (), r') \<Longrightarrow> eof r' \<or> chunks_left r' < chunks_left r"
  by (cases "rd_stream r"; cases "the (rd_stream r)" rule: read_chunk.cases)
     (auto simp: update_raw_def chunks_left_def split: sum.splits)

lemma update_raw_le: "update_raw r = (Inr (), r') \<Longrightarrow> chunks_left r' \<le> chunks_left r"
  by (cases "rd_stream r"; cases "the (rd_stream r)" rule: read_chunk.cases)
     (auto simp: update_raw_def chunks_left_def split: sum.splits)

lemma chunks_left_raw [simp]:
  "chunks_left (r\<lparr>buffer := b\<rparr>) = chunks_left r" "chunks_left (r\<lparr>raw_buffer := w\<rparr>) = chunks_left r"
  "chunks_left (r\<lparr>pointer := p\<rparr>) = chunks_left r"
  by (simp_all add: chunks_left_def)

lemma check_printable_state [simp]: "snd (check_printable t r) = r"
  by (auto simp: check_printable_def split: option.split)

lemma update_step_left:
  "update_step r = (Inr False, r') \<Longrightarrow> chunks_left r' < chunks_left r"
proof -
  assume *: "update_step r = (Inr False, r')"
  obtain q w where w: "\<not> eof r" "\<not> eof q" "update_raw r = (Inr (), q)" and r': "r' = q\<lparr>buffer := w, raw_buffer := raw_buffer r'\<rparr>"
    using * by (auto simp: update_step_def sbind_eq_Inr check_printable_def split: if_splits option.splits)
  from w update_raw_left [of r q] have "chunks_left q < chunks_left r" by auto
  then show ?thesis by (subst r') (simp add: chunks_left_def)
qed

function update_loop :: "nat \<Rightarrow> unit reads" where
  "update_loop n r =
     (if n \<le> length (buffer r) then (Inr (), r)
      else case update_step r of
        (Inl e, r') \<Rightarrow> (Inl e, r')
      | (Inr ended, r') \<Rightarrow> if ended then (Inr (), r') else update_loop n r')"
  by pat_completeness auto
termination
  by (relation "measure (\<lambda>(n, r). chunks_left r)") (auto dest!: sym [of "(_, _)"] dest: update_step_left)

definition update :: "nat \<Rightarrow> unit reads" where
  "update n r =
     (case raw_buffer r of None \<Rightarrow> (Inr (), r)
      | Some _ \<Rightarrow> update_loop n (r\<lparr>buffer := drop (pointer r) (buffer r), pointer := 0\<rparr>))"

section \<open>Reading characters\<close>

definition buffer_at :: "nat \<Rightarrow> reader \<Rightarrow> scan_error + ucs" where
  "buffer_at k r = (if pointer r + k < length (buffer r) then Inr (buffer r ! (pointer r + k)) else Inl (Raised IndexError))"

definition rd_peek :: "nat \<Rightarrow> ucs reads" where
  "rd_peek k r =
     (case buffer_at k r of
        Inr c \<Rightarrow> (Inr c, r)
      | Inl _ \<Rightarrow> sbind (update (k + 1)) (\<lambda>_. sbind (gets (buffer_at k)) lift_res) r)"

definition rd_prefix :: "nat \<Rightarrow> ucs list reads" where
  "rd_prefix n =
     sbind (gets (\<lambda>r. length (buffer r) \<le> pointer r + n)) (\<lambda>short.
     sbind (if short then update n else ret ()) (\<lambda>_.
     gets (\<lambda>r. take n (drop (pointer r) (buffer r)))))"

text \<open>
  One turn of the loop of \<open>forward\<close>.  The place after a carriage return depends on the
  character that follows.
\<close>

definition forward_one :: "unit reads" where
  "forward_one =
     sbind (gets (buffer_at 0)) (\<lambda>c. sbind (lift_res c) (\<lambda>c.
     sbind (modify (\<lambda>r. r\<lparr>pointer := pointer r + 1, rd_index := rd_index r + 1\<rparr>)) (\<lambda>_.
     sbind (if c \<in> {10, 133, 8232, 8233} then ret True
            else if c = 13 then sbind (gets (buffer_at 0)) (\<lambda>d. sbind (lift_res d) (\<lambda>d. ret (d \<noteq> 10)))
            else ret False) (\<lambda>line_ends.
     modify (\<lambda>r. if line_ends then r\<lparr>rd_line := rd_line r + 1, rd_column := 0\<rparr>
                 else if c \<noteq> 65279 then r\<lparr>rd_column := rd_column r + 1\<rparr> else r)))))"

primrec forward_loop :: "nat \<Rightarrow> unit reads" where
  "forward_loop 0 = ret ()"
| "forward_loop (Suc n) = sbind forward_one (\<lambda>_. forward_loop n)"

definition rd_forward :: "nat \<Rightarrow> unit reads" where
  "rd_forward n =
     sbind (gets (\<lambda>r. length (buffer r) \<le> pointer r + n + 1)) (\<lambda>short.
     sbind (if short then update (n + 1) else ret ()) (\<lambda>_. forward_loop n))"

definition rd_mark :: "reader \<Rightarrow> umark" where
  "rd_mark r = \<lparr>um_name = rd_name r, um_index = rd_index r, um_line = rd_line r, um_column = rd_column r,
     um_place = (if rd_stream r = None then Some (buffer r, pointer r) else None)\<rparr>"

section \<open>Making a reader\<close>

definition raw_short :: "reader \<Rightarrow> bool" where
  "raw_short r = (case raw_buffer r of None \<Rightarrow> True | Some w \<Rightarrow> raw_length w < 2)"

function fill_raw :: "unit reads" where
  "fill_raw r =
     (if \<not> eof r \<and> raw_short r then
        (case update_raw r of (Inl e, r') \<Rightarrow> (Inl e, r') | (Inr _, r') \<Rightarrow> fill_raw r')
      else (Inr (), r))"
  by pat_completeness auto
termination
  by (relation "measure (\<lambda>r. chunks_left r + (if eof r then 0 else 1))")
     (auto dest!: sym [of "(_, _)"] dest: update_raw_left update_raw_le)

fun bom_codec :: "bytes \<Rightarrow> codec" where
  "bom_codec (a # b # _) = (if a = 255 \<and> b = 254 then Utf16le else if a = 254 \<and> b = 255 then Utf16be else Utf8)"
| "bom_codec _ = Utf8"

definition determine_encoding :: "unit reads" where
  "determine_encoding =
     sbind fill_raw (\<lambda>_.
     sbind (modify (\<lambda>r. case raw_buffer r of
         Some (RawBytes bs) \<Rightarrow> r\<lparr>raw_decode := Some (bom_codec bs), encoding := Some (codec_name (bom_codec bs))\<rparr>
       | _ \<Rightarrow> r)) (\<lambda>_. update 1))"

definition blank_reader :: reader where
  "blank_reader = \<lparr>rd_name = '''', rd_stream = None, stream_pointer = 0, eof = True, buffer = [], pointer = 0,
     raw_buffer = None, raw_decode = None, encoding = None, rd_index = 0, rd_line = 0, rd_column = 0\<rparr>"

fun new_reader :: "source \<Rightarrow> scan_error + reader" where
  "new_reader (StrSource t) =
     (case check_printable t (blank_reader\<lparr>rd_name := ''<unicode string>''\<rparr>) of
        (Inl e, _) \<Rightarrow> Inl e | (Inr _, r) \<Rightarrow> Inr (r\<lparr>buffer := t @ [0]\<rparr>))"
| "new_reader (BytesSource bs) =
     (case determine_encoding (blank_reader\<lparr>rd_name := ''<byte string>'', raw_buffer := Some (RawBytes bs)\<rparr>) of
        (Inl e, _) \<Rightarrow> Inl e | (Inr _, r) \<Rightarrow> Inr r)"
| "new_reader (FileSource name st) =
     (case determine_encoding (blank_reader\<lparr>rd_stream := Some st,
          rd_name := (case name of None \<Rightarrow> ''<file>'' | Some s \<Rightarrow> s), eof := False\<rparr>) of
        (Inl e, _) \<Rightarrow> Inl e | (Inr _, r) \<Rightarrow> Inr r)"

end
