(* ===== verification/Yaml_Scan.thy ===== *)
theory Yaml_Scan
  imports Yaml_Reader
begin

text \<open>
  The text level of the scanner of the bundled YAML library: the functions \<open>scan_*\<close> of
  \<open>yaml/scanner.py\<close>, which read one directive, anchor, tag or scalar, or the space between
  tokens.  Characters are code points.  A loop of the code is \<open>ploop\<close> or \<open>pwhile\<close>, so that
  whether it ends is a theorem.
\<close>

section \<open>The state of the scanner\<close>

record simple_key =
  token_number :: nat
  required :: bool
  sk_index :: nat
  sk_line :: nat
  sk_column :: nat
  sk_mark :: umark

record utoken =
  utk :: "ucs token_of"
  ut_start :: umark
  ut_end :: umark

text \<open>The top of \<open>indents\<close> is in front; the keys of \<open>possible_simple_keys\<close> are flow levels.\<close>

record scanner =
  rd :: reader
  sc_done :: bool
  flow_level :: int
  sc_tokens :: "utoken list"
  tokens_taken :: nat
  indent :: int
  indents :: "int list"
  allow_simple_key :: bool
  possible_simple_keys :: "(int \<times> simple_key) list"

type_synonym 'a scan = "(scanner, scan_error, 'a) pact"

definition reading :: "'a reads \<Rightarrow> 'a scan" where
  "reading m s = (case m (rd s) of (x, r) \<Rightarrow> Some (x, s\<lparr>rd := r\<rparr>))"

definition peek :: "nat \<Rightarrow> ucs scan" where
  "peek k = reading (rd_peek k)"

definition take_prefix :: "nat \<Rightarrow> ucs list scan" where
  "take_prefix n = reading (rd_prefix n)"

definition forward :: "nat \<Rightarrow> unit scan" where
  "forward n = reading (rd_forward n)"

definition get_mark :: "umark scan" where
  "get_mark = pgets (\<lambda>s. rd_mark (rd s))"

definition column :: "scanner \<Rightarrow> int" where
  "column s = int (rd_column (rd s))"

definition in_flow :: "scanner \<Rightarrow> bool" where
  "in_flow s = (flow_level s \<noteq> 0)"

definition allow_key :: "bool \<Rightarrow> unit scan" where
  "allow_key b = pmodify (\<lambda>s. s\<lparr>allow_simple_key := b\<rparr>)"

text \<open>\<open>raise ScannerError(context, context_mark, problem, self.get_mark())\<close>\<close>

definition scan_fail :: "string \<Rightarrow> umark \<Rightarrow> problem \<Rightarrow> 'a scan" where
  "scan_fail ctx cm pr = pbind get_mark (\<lambda>m. pthrow (ScannerError (Some ctx) (Some cm) pr m None))"

section \<open>Characters\<close>

definition is_break :: "ucs \<Rightarrow> bool" where "is_break c = (c \<in> {13, 10, 133, 8232, 8233})"
definition is_breakz :: "ucs \<Rightarrow> bool" where "is_breakz c = (c = 0 \<or> is_break c)"
definition is_spacez :: "ucs \<Rightarrow> bool" where "is_spacez c = (c = 32 \<or> is_breakz c)"
definition is_blankz :: "ucs \<Rightarrow> bool" where "is_blankz c = (c = 9 \<or> is_spacez c)"
definition is_blank :: "ucs \<Rightarrow> bool" where "is_blank c = (c = 32 \<or> c = 9)"

definition among :: "string \<Rightarrow> ucs \<Rightarrow> bool" where
  "among cs c = (c \<in> set (uc cs))"

abbreviation is_chr :: "char \<Rightarrow> ucs \<Rightarrow> bool" where
  "is_chr c x \<equiv> x = of_char c"

definition dec_digit :: "ucs \<Rightarrow> bool" where "dec_digit c = (48 \<le> c \<and> c \<le> 57)"
definition letter :: "ucs \<Rightarrow> bool" where "letter c = ((65 \<le> c \<and> c \<le> 90) \<or> (97 \<le> c \<and> c \<le> 122))"
definition name_char :: "ucs \<Rightarrow> bool" where "name_char c = (dec_digit c \<or> letter c \<or> among ''-_'' c)"
definition uri_char :: "ucs \<Rightarrow> bool" where
  "uri_char c = (dec_digit c \<or> letter c \<or> among ''-;/?:@&=+$,_.!~*'()[]%'' c)"
definition hex_char :: "ucs \<Rightarrow> bool" where "hex_char c = among ''0123456789ABCDEFabcdef'' c"

definition hex_val :: "ucs \<Rightarrow> nat" where
  "hex_val c = (if dec_digit c then c - 48 else if 97 \<le> c then c - 87 else c - 55)"

definition digits_in :: "nat \<Rightarrow> ucs list \<Rightarrow> nat" where
  "digits_in base t = foldl (\<lambda>n c. n * base + hex_val c) 0 t"

text \<open>\<open>while self.peek() ...: self.forward()\<close>, and \<open>while self.peek(length) ...: length += 1\<close>\<close>

definition skip :: "(ucs \<Rightarrow> bool) \<Rightarrow> unit scan" where
  "skip p = pwhile (pbind (peek 0) (\<lambda>c. pret (p c))) (forward 1)"

definition count_chars :: "(ucs \<Rightarrow> bool) \<Rightarrow> nat \<Rightarrow> (nat \<times> ucs) scan" where
  "count_chars p = ploop (\<lambda>n. pbind (peek n) (\<lambda>c. if p c then again (n + 1) else leave (n, c)))"

text \<open>\<open>value = self.prefix(length); self.forward(length)\<close>\<close>

definition take_chars :: "nat \<Rightarrow> ucs list scan" where
  "take_chars n = pbind (take_prefix n) (\<lambda>v. pbind (forward n) (\<lambda>_. pret v))"

section \<open>Line breaks and the space between tokens\<close>

definition scan_line_break :: "ucs list scan" where
  "scan_line_break =
     pbind (peek 0) (\<lambda>c.
       if c \<in> {13, 10, 133} then
         pbind (take_prefix 2) (\<lambda>p. pbind (if p = [13, 10] then forward 2 else forward 1) (\<lambda>_. pret [10]))
       else if c \<in> {8232, 8233} then pbind (forward 1) (\<lambda>_. pret [c])
       else pret [])"

definition skip_comment :: "unit scan" where
  "skip_comment = pbind (peek 0) (\<lambda>c. if is_chr CHR ''#'' c then skip (\<lambda>c. \<not> is_breakz c) else pret ())"

definition scan_to_next_token :: "unit scan" where
  "scan_to_next_token =
     pbind (pgets (\<lambda>s. rd_index (rd s) = 0)) (\<lambda>first.
     pbind (if first then pbind (peek 0) (\<lambda>c. if c = 65279 then forward 1 else pret ()) else pret ()) (\<lambda>_.
     ploop (\<lambda>_.
       pbind (skip (\<lambda>c. c = 32)) (\<lambda>_.
       pbind skip_comment (\<lambda>_.
       pbind scan_line_break (\<lambda>b.
         if b \<noteq> [] then
           pbind (pgets in_flow) (\<lambda>flow. pbind (if \<not> flow then allow_key True else pret ()) (\<lambda>_. again ()))
         else leave ())))) ()))"

section \<open>Tags\<close>

definition tag_handle_length :: "string \<Rightarrow> umark \<Rightarrow> ucs \<Rightarrow> nat scan" where
  "tag_handle_length name m c =
     (if c \<noteq> 32 then
        pbind (count_chars name_char 1) (\<lambda>(n, c).
          if \<not> is_chr CHR ''!'' c then
            pbind (forward n) (\<lambda>_. scan_fail (''while scanning a '' @ name) m (Found ''expected '!', but found %r'' c))
          else pret (n + 1))
      else pret 1)"

definition scan_tag_handle :: "string \<Rightarrow> umark \<Rightarrow> ucs list scan" where
  "scan_tag_handle name m =
     pbind (peek 0) (\<lambda>c.
       if \<not> is_chr CHR ''!'' c then scan_fail (''while scanning a '' @ name) m (Found ''expected '!', but found %r'' c) else
     pbind (peek 1) (\<lambda>c.
     pbind (tag_handle_length name m c) take_chars))"

text \<open>The check of \<open>k\<close> hexadecimal digits in front; the error shows the character that is none.\<close>

fun check_hex :: "(ucs \<Rightarrow> unit scan) \<Rightarrow> nat list \<Rightarrow> unit scan" where
  "check_hex bad [] = pret ()"
| "check_hex bad (k # ks) = pbind (peek k) (\<lambda>c. if hex_char c then check_hex bad ks else bad c)"

text \<open>\<open>str(exc)\<close> of a \<open>UnicodeDecodeError\<close>\<close>

definition decode_error_str :: "decode_error \<Rightarrow> bytes \<Rightarrow> string" where
  "decode_error_str d bs =
     quote # de_encoding d @ [quote] @ '' codec can't decode '' @
     (if de_end d = de_start d + 1
      then ''byte 0x'' @ zero_pad 2 (hex_digits (bs ! de_start d)) @ '' in position '' @ show_nat (de_start d)
      else ''bytes in position '' @ show_nat (de_start d) @ ''-'' @ show_nat (de_end d - 1)) @
     '': '' @ de_reason d"

definition one_escape :: "string \<Rightarrow> umark \<Rightarrow> nat scan" where
  "one_escape name m =
     pbind (forward 1) (\<lambda>_.
     pbind (check_hex (\<lambda>c. scan_fail (''while scanning a '' @ name) m
       (Found ''expected URI escape sequence of 2 hexdecimal numbers, but found %r'' c)) [0, 1]) (\<lambda>_.
     pbind (take_chars 2) (\<lambda>h. pret (digits_in 16 h))))"

definition escape_turn :: "string \<Rightarrow> umark \<Rightarrow> nat list \<Rightarrow> (nat list + nat list) scan" where
  "escape_turn name m codes =
     pbind (peek 0) (\<lambda>c. if is_chr CHR ''%'' c then pbind (one_escape name m) (\<lambda>n. again (codes @ [n])) else leave codes)"

definition scan_uri_escapes :: "string \<Rightarrow> umark \<Rightarrow> ucs list scan" where
  "scan_uri_escapes name m =
     pbind get_mark (\<lambda>here.
     pbind (ploop (escape_turn name m) []) (\<lambda>codes.
     case decode Utf8 codes True of
       Inr (t, _) \<Rightarrow> pret t
     | Inl d \<Rightarrow> pthrow (ScannerError (Some (''while scanning a '' @ name)) (Some m) (Says (decode_error_str d codes)) here None)))"

definition tag_uri_turn ::
  "string \<Rightarrow> umark \<Rightarrow> ucs list list \<times> nat \<times> ucs \<Rightarrow>
   ((ucs list list \<times> nat \<times> ucs) + (ucs list list \<times> nat \<times> ucs)) scan" where
  "tag_uri_turn name m = (\<lambda>(chunks, n, c).
     if \<not> uri_char c then leave (chunks, n, c)
     else if is_chr CHR ''%'' c then
       pbind (take_chars n) (\<lambda>v. pbind (scan_uri_escapes name m) (\<lambda>e.
       pbind (peek 0) (\<lambda>c. again (chunks @ [v, e], 0, c))))
     else pbind (peek (n + 1)) (\<lambda>c. again (chunks, n + 1, c)))"

definition scan_tag_uri :: "string \<Rightarrow> umark \<Rightarrow> ucs list scan" where
  "scan_tag_uri name m =
     pbind (peek 0) (\<lambda>c.
     pbind (ploop (tag_uri_turn name m) ([], 0, c)) (\<lambda>(chunks, n, c).
     pbind (if n \<noteq> 0 then pbind (take_chars n) (\<lambda>v. pret (chunks @ [v])) else pret chunks) (\<lambda>chunks.
       if chunks = [] then scan_fail (''while parsing a '' @ name) m (Found ''expected URI, but found %r'' c)
       else pret (concat chunks))))"

definition utoken_at :: "ucs token_of \<Rightarrow> umark \<Rightarrow> umark \<Rightarrow> utoken" where
  "utoken_at k a b = \<lparr>utk = k, ut_start = a, ut_end = b\<rparr>"

definition find_bang :: "nat \<times> ucs \<Rightarrow> ((nat \<times> ucs) + bool) scan" where
  "find_bang = (\<lambda>(n, c).
     if is_spacez c then leave False
     else if is_chr CHR ''!'' c then leave True
     else pbind (peek (n + 1)) (\<lambda>c. again (n + 1, c)))"

definition scan_tag :: "utoken scan" where
  "scan_tag =
     pbind get_mark (\<lambda>m.
     pbind (peek 1) (\<lambda>c.
     pbind (if is_chr CHR ''<'' c then
              pbind (forward 2) (\<lambda>_.
              pbind (scan_tag_uri ''tag'' m) (\<lambda>suf.
              pbind (peek 0) (\<lambda>c.
                if \<not> is_chr CHR ''>'' c then scan_fail ''while parsing a tag'' m (Found ''expected '>', but found %r'' c)
                else pbind (forward 1) (\<lambda>_. pret (None, suf)))))
            else if is_blankz c then pbind (forward 1) (\<lambda>_. pret (None, uc ''!''))
            else
              pbind (ploop find_bang (1, c)) (\<lambda>use_handle.
              pbind (if use_handle then scan_tag_handle ''tag'' m
                     else pbind (forward 1) (\<lambda>_. pret (uc ''!''))) (\<lambda>h.
              pbind (scan_tag_uri ''tag'' m) (\<lambda>suf. pret (Some h, suf))))) (\<lambda>(h, suf).
     pbind (peek 0) (\<lambda>c.
       if \<not> is_spacez c then scan_fail ''while scanning a tag'' m (Found ''expected ' ', but found %r'' c)
       else pbind get_mark (\<lambda>e. pret (utoken_at (TagToken h suf) m e))))))"

section \<open>Directives\<close>

definition scan_directive_name :: "umark \<Rightarrow> ucs list scan" where
  "scan_directive_name m =
     pbind (count_chars name_char 0) (\<lambda>(n, c).
       if n = 0 then scan_fail ''while scanning a directive'' m (Found ''expected alphabetic or numeric character, but found %r'' c)
       else
     pbind (take_chars n) (\<lambda>v.
     pbind (peek 0) (\<lambda>c.
       if \<not> is_spacez c then scan_fail ''while scanning a directive'' m (Found ''expected alphabetic or numeric character, but found %r'' c)
       else pret v)))"

definition scan_yaml_directive_number :: "umark \<Rightarrow> int scan" where
  "scan_yaml_directive_number m =
     pbind (peek 0) (\<lambda>c.
       if \<not> dec_digit c then scan_fail ''while scanning a directive'' m (Found ''expected a digit, but found %r'' c)
       else
     pbind (count_chars dec_digit 0) (\<lambda>(n, _).
     pbind (take_chars n) (\<lambda>v. pret (int (digits_in 10 v)))))"

definition scan_yaml_directive_value :: "umark \<Rightarrow> (int \<times> int) scan" where
  "scan_yaml_directive_value m =
     pbind (skip (\<lambda>c. c = 32)) (\<lambda>_.
     pbind (scan_yaml_directive_number m) (\<lambda>major.
     pbind (peek 0) (\<lambda>c.
       if \<not> is_chr CHR ''.'' c then scan_fail ''while scanning a directive'' m (Found ''expected a digit or '.', but found %r'' c)
       else
     pbind (forward 1) (\<lambda>_.
     pbind (scan_yaml_directive_number m) (\<lambda>minor.
     pbind (peek 0) (\<lambda>c.
       if \<not> is_spacez c then scan_fail ''while scanning a directive'' m (Found ''expected a digit or ' ', but found %r'' c)
       else pret (major, minor)))))))"

definition scan_tag_directive_handle :: "umark \<Rightarrow> ucs list scan" where
  "scan_tag_directive_handle m =
     pbind (scan_tag_handle ''directive'' m) (\<lambda>v.
     pbind (peek 0) (\<lambda>c.
       if c \<noteq> 32 then scan_fail ''while scanning a directive'' m (Found ''expected ' ', but found %r'' c)
       else pret v))"

definition scan_tag_directive_prefix :: "umark \<Rightarrow> ucs list scan" where
  "scan_tag_directive_prefix m =
     pbind (scan_tag_uri ''directive'' m) (\<lambda>v.
     pbind (peek 0) (\<lambda>c.
       if \<not> is_spacez c then scan_fail ''while scanning a directive'' m (Found ''expected ' ', but found %r'' c)
       else pret v))"

definition scan_tag_directive_value :: "umark \<Rightarrow> (ucs list \<times> ucs list) scan" where
  "scan_tag_directive_value m =
     pbind (skip (\<lambda>c. c = 32)) (\<lambda>_.
     pbind (scan_tag_directive_handle m) (\<lambda>h.
     pbind (skip (\<lambda>c. c = 32)) (\<lambda>_.
     pbind (scan_tag_directive_prefix m) (\<lambda>p. pret (h, p)))))"

definition scan_directive_ignored_line :: "umark \<Rightarrow> unit scan" where
  "scan_directive_ignored_line m =
     pbind (skip (\<lambda>c. c = 32)) (\<lambda>_.
     pbind skip_comment (\<lambda>_.
     pbind (peek 0) (\<lambda>c.
       if \<not> is_breakz c then scan_fail ''while scanning a directive'' m (Found ''expected a comment or a line break, but found %r'' c)
       else pbind scan_line_break (\<lambda>_. pret ()))))"

definition scan_directive :: "utoken scan" where
  "scan_directive =
     pbind get_mark (\<lambda>m.
     pbind (forward 1) (\<lambda>_.
     pbind (scan_directive_name m) (\<lambda>name.
     pbind (if name = uc ''YAML'' then
              pbind (scan_yaml_directive_value m) (\<lambda>(a, b). pbind get_mark (\<lambda>e. pret (YamlDirective a b, e)))
            else if name = uc ''TAG'' then
              pbind (scan_tag_directive_value m) (\<lambda>(h, p). pbind get_mark (\<lambda>e. pret (TagDirective h p, e)))
            else
              pbind get_mark (\<lambda>e. pbind (skip (\<lambda>c. \<not> is_breakz c)) (\<lambda>_. pret (OtherDirective name, e)))) (\<lambda>(v, e).
     pbind (scan_directive_ignored_line m) (\<lambda>_.
     pret (utoken_at (DirectiveToken v) m e))))))"

section \<open>Anchors and aliases\<close>

definition scan_anchor :: "(ucs list \<Rightarrow> ucs token_of) \<Rightarrow> utoken scan" where
  "scan_anchor mk =
     pbind get_mark (\<lambda>m.
     pbind (peek 0) (\<lambda>c.
     let ctx = ''while scanning an '' @ (if is_chr CHR ''*'' c then ''alias'' else ''anchor'') in
     pbind (forward 1) (\<lambda>_.
     pbind (count_chars name_char 0) (\<lambda>(n, c).
       if n = 0 then scan_fail ctx m (Found ''expected alphabetic or numeric character, but found %r'' c)
       else
     pbind (take_chars n) (\<lambda>v.
     pbind (peek 0) (\<lambda>c.
       if \<not> (is_blankz c \<or> among ''?:,]}%@`'' c) then
         scan_fail ctx m (Found ''expected alphabetic or numeric character, but found %r'' c)
       else pbind get_mark (\<lambda>e. pret (utoken_at (mk v) m e))))))))"


section \<open>Block scalars\<close>

definition scan_block_scalar_indicators :: "umark \<Rightarrow> (bool option \<times> nat option) scan" where
  "scan_block_scalar_indicators m =
     (let chomp = (\<lambda>c. if is_chr CHR ''+'' c then Some True else Some False);
          digit = (\<lambda>c. if hex_val c = 0
                      then scan_fail ''while scanning a block scalar'' m
                             (Says ''expected indentation indicator in the range 1-9, but found 0'')
                      else pbind (forward 1) (\<lambda>_. pret (hex_val c)))
      in
     pbind (peek 0) (\<lambda>c.
     pbind (if among ''+-'' c then
              pbind (forward 1) (\<lambda>_.
              pbind (peek 0) (\<lambda>d.
                if dec_digit d then pbind (digit d) (\<lambda>n. pret (chomp c, Some n)) else pret (chomp c, None)))
            else if dec_digit c then
              pbind (digit c) (\<lambda>n.
              pbind (peek 0) (\<lambda>d.
                if among ''+-'' d then pbind (forward 1) (\<lambda>_. pret (chomp d, Some n)) else pret (None, Some n)))
            else pret (None, None)) (\<lambda>r.
     pbind (peek 0) (\<lambda>c.
       if \<not> is_spacez c then
         scan_fail ''while scanning a block scalar'' m (Found ''expected chomping or indentation indicators, but found %r'' c)
       else pret r))))"

definition scan_block_scalar_ignored_line :: "umark \<Rightarrow> unit scan" where
  "scan_block_scalar_ignored_line m =
     pbind (skip (\<lambda>c. c = 32)) (\<lambda>_.
     pbind skip_comment (\<lambda>_.
     pbind (peek 0) (\<lambda>c.
       if \<not> is_breakz c then
         scan_fail ''while scanning a block scalar'' m (Found ''expected a comment or a line break, but found %r'' c)
       else pbind scan_line_break (\<lambda>_. pret ()))))"

definition indentation_turn ::
  "ucs list list \<times> int \<times> umark \<Rightarrow> ((ucs list list \<times> int \<times> umark) + (ucs list list \<times> int \<times> umark)) scan" where
  "indentation_turn = (\<lambda>(chunks, max_indent, e).
     pbind (peek 0) (\<lambda>c.
       if c = 32 then
         pbind (forward 1) (\<lambda>_. pbind (pgets column) (\<lambda>k.
           again (chunks, if max_indent < k then k else max_indent, e)))
       else if is_break c then
         pbind scan_line_break (\<lambda>b. pbind get_mark (\<lambda>e. again (chunks @ [b], max_indent, e)))
       else leave (chunks, max_indent, e)))"

definition scan_block_scalar_indentation :: "(ucs list list \<times> int \<times> umark) scan" where
  "scan_block_scalar_indentation =
     pbind get_mark (\<lambda>e.
     ploop indentation_turn ([], 0, e))"

text \<open>\<open>while self.column < indent and self.peek() == ' ': self.forward()\<close>\<close>

definition skip_indent :: "int \<Rightarrow> unit scan" where
  "skip_indent n =
     pwhile (pbind (pgets column) (\<lambda>k. if k < n then pbind (peek 0) (\<lambda>c. pret (c = 32)) else pret False)) (forward 1)"

definition breaks_turn ::
  "int \<Rightarrow> ucs list list \<times> umark \<Rightarrow> ((ucs list list \<times> umark) + (ucs list list \<times> umark)) scan" where
  "breaks_turn n = (\<lambda>(chunks, e).
     pbind (peek 0) (\<lambda>c.
       if is_break c then
         pbind scan_line_break (\<lambda>b. pbind get_mark (\<lambda>e. pbind (skip_indent n) (\<lambda>_. again (chunks @ [b], e))))
       else leave (chunks, e)))"

definition scan_block_scalar_breaks :: "int \<Rightarrow> (ucs list list \<times> umark) scan" where
  "scan_block_scalar_breaks n =
     pbind get_mark (\<lambda>e.
     pbind (skip_indent n) (\<lambda>_.
     ploop (breaks_turn n) ([], e)))"

text \<open>\<open>self.column == indent and self.peek() != '\0'\<close>\<close>

definition at_indent :: "int \<Rightarrow> bool scan" where
  "at_indent n = pbind (pgets column) (\<lambda>k. if k = n then pbind (peek 0) (\<lambda>c. pret (c \<noteq> 0)) else pret False)"

text \<open>The loop of \<open>scan_block_scalar\<close>, from the breaks and the mark in front of it.\<close>

text \<open>A line up to its break, and the break.\<close>

definition block_line :: "(ucs list \<times> ucs list) scan" where
  "block_line =
     pbind (count_chars (\<lambda>c. \<not> is_breakz c) 0) (\<lambda>(k, _).
     pbind (take_chars k) (\<lambda>v.
     pbind scan_line_break (\<lambda>line_break. pret (v, line_break))))"

type_synonym block_state = "ucs list list \<times> ucs list \<times> ucs list list \<times> umark"

definition block_scalar_turn :: "bool \<Rightarrow> int \<Rightarrow> block_state \<Rightarrow> (block_state + block_state) scan" where
  "block_scalar_turn folded n = (\<lambda>(chunks, line_break, breaks, e).
     pbind (at_indent n) (\<lambda>go. if \<not> go then leave (chunks, line_break, breaks, e) else
     pbind (peek 0) (\<lambda>c.
     pbind block_line (\<lambda>(v, line_break).
     let chunks = chunks @ breaks @ [v] in
     pbind (scan_block_scalar_breaks n) (\<lambda>(breaks, e).
     pbind (at_indent n) (\<lambda>more. if \<not> more then leave (chunks, line_break, breaks, e) else
     pbind (peek 0) (\<lambda>d.
     let glue = (if folded \<and> line_break = [10] \<and> \<not> is_blank c \<and> \<not> is_blank d
                 then (if breaks = [] then [[32]] else []) else [line_break])
     in again (chunks @ glue, line_break, breaks, e))))))))"

definition block_scalar_lines :: "bool \<Rightarrow> int \<Rightarrow> ucs list list \<Rightarrow> umark \<Rightarrow> block_state scan" where
  "block_scalar_lines folded n breaks e = ploop (block_scalar_turn folded n) ([], [], breaks, e)"

definition scan_block_scalar :: "char \<Rightarrow> utoken scan" where
  "scan_block_scalar style =
     pbind get_mark (\<lambda>m.
     pbind (forward 1) (\<lambda>_.
     pbind (scan_block_scalar_indicators m) (\<lambda>(chomping, increment).
     pbind (scan_block_scalar_ignored_line m) (\<lambda>_.
     pbind (pgets indent) (\<lambda>i. let min_indent = (if i + 1 < 1 then 1 else i + 1) in
     pbind (case increment of
         None \<Rightarrow> pbind scan_block_scalar_indentation (\<lambda>(breaks, max_indent, e). pret (max min_indent max_indent, breaks, e))
       | Some k \<Rightarrow> let n = min_indent + int k - 1 in
           pbind (scan_block_scalar_breaks n) (\<lambda>(breaks, e). pret (n, breaks, e))) (\<lambda>(n, breaks, e).
     pbind (block_scalar_lines (style = CHR ''>'') n breaks e) (\<lambda>(chunks, line_break, breaks, e).
     let chunks = (if chomping \<noteq> Some False then chunks @ [line_break] else chunks);
         chunks = (if chomping = Some True then chunks @ breaks else chunks)
     in pret (utoken_at (ScalarToken (concat chunks) False (Some style)) m e))))))))"

section \<open>Flow scalars\<close>

definition escape_replacements :: "(ucs \<times> ucs) list" where
  "escape_replacements =
     [(of_char CHR ''0'', 0), (of_char CHR ''a'', 7), (of_char CHR ''b'', 8), (of_char CHR ''t'', 9), (9, 9),
      (of_char CHR ''n'', 10), (of_char CHR ''v'', 11), (of_char CHR ''f'', 12), (of_char CHR ''r'', 13),
      (of_char CHR ''e'', 27), (32, 32), (of_char dquote, of_char dquote), (92, 92), (of_char CHR ''N'', 133),
      (of_char CHR ''_'', 160), (of_char CHR ''L'', 8232), (of_char CHR ''P'', 8233)]"

definition escape_codes :: "(ucs \<times> nat) list" where
  "escape_codes = [(of_char CHR ''x'', 2), (of_char CHR ''u'', 4), (of_char CHR ''U'', 8)]"

text \<open>\<open>---\<close> or \<open>...\<close> in front of white space\<close>

definition at_separator :: "bool scan" where
  "at_separator =
     pbind (take_prefix 3) (\<lambda>p.
       if p = uc ''---'' \<or> p = uc ''...'' then pbind (peek 3) (\<lambda>c. pret (is_blankz c)) else pret False)"

definition flow_breaks_turn :: "umark \<Rightarrow> ucs list list \<Rightarrow> (ucs list list + ucs list list) scan" where
  "flow_breaks_turn m chunks =
     pbind at_separator (\<lambda>stop.
       if stop then scan_fail ''while scanning a quoted scalar'' m (Says ''found unexpected document separator'') else
     pbind (skip is_blank) (\<lambda>_.
     pbind (peek 0) (\<lambda>c.
       if is_break c then pbind scan_line_break (\<lambda>b. again (chunks @ [b])) else leave chunks)))"

definition scan_flow_scalar_breaks :: "umark \<Rightarrow> ucs list list scan" where
  "scan_flow_scalar_breaks m = ploop (flow_breaks_turn m) []"

definition scan_flow_scalar_spaces :: "umark \<Rightarrow> ucs list list scan" where
  "scan_flow_scalar_spaces m =
     pbind (count_chars is_blank 0) (\<lambda>(n, _).
     pbind (take_chars n) (\<lambda>whitespaces.
     pbind (peek 0) (\<lambda>c.
       if c = 0 then scan_fail ''while scanning a quoted scalar'' m (Says ''found unexpected end of stream'')
       else if is_break c then
         pbind scan_line_break (\<lambda>line_break.
         pbind (scan_flow_scalar_breaks m) (\<lambda>breaks.
         pret ((if line_break \<noteq> [10] then [line_break] else if breaks = [] then [[32]] else []) @ breaks)))
       else pret [whitespaces])))"

text \<open>A backslash escape; \<open>chr\<close> raises for a number that is no code point.\<close>

definition scan_escape :: "umark \<Rightarrow> ucs list list scan" where
  "scan_escape m =
     pbind (forward 1) (\<lambda>_.
     pbind (peek 0) (\<lambda>c.
       case map_of escape_replacements c of
         Some r \<Rightarrow> pbind (forward 1) (\<lambda>_. pret [[r]])
       | None \<Rightarrow> (case map_of escape_codes c of
           Some n \<Rightarrow>
             pbind (forward 1) (\<lambda>_.
             pbind (check_hex (\<lambda>c. scan_fail ''while scanning a double-quoted scalar'' m (FoundInEscape n c)) [0..<n]) (\<lambda>_.
             pbind (take_prefix n) (\<lambda>v.
               if 1114111 < digits_in 16 v then pthrow (Raised ValueError)
               else pbind (forward n) (\<lambda>_. pret [[digits_in 16 v]]))))
         | None \<Rightarrow>
             if is_break c then pbind scan_line_break (\<lambda>_. scan_flow_scalar_breaks m)
             else scan_fail ''while scanning a double-quoted scalar'' m (Found ''found unknown escape character %r'' c))))"

definition non_spaces_turn :: "bool \<Rightarrow> umark \<Rightarrow> ucs list list \<Rightarrow> (ucs list list + ucs list list) scan" where
  "non_spaces_turn double m chunks =
     pbind (count_chars (\<lambda>c. \<not> (c = 39 \<or> c = 34 \<or> c = 92 \<or> is_blankz c)) 0) (\<lambda>(n, _).
     pbind (if n \<noteq> 0 then pbind (take_chars n) (\<lambda>v. pret (chunks @ [v])) else pret chunks) (\<lambda>chunks.
     pbind (peek 0) (\<lambda>c.
     pbind (if \<not> double \<and> c = 39 then pbind (peek 1) (\<lambda>d. pret (d = 39)) else pret False) (\<lambda>doubled.
       if doubled then pbind (forward 2) (\<lambda>_. again (chunks @ [[39]]))
       else if (double \<and> c = 39) \<or> (\<not> double \<and> (c = 34 \<or> c = 92)) then pbind (forward 1) (\<lambda>_. again (chunks @ [[c]]))
       else if double \<and> c = 92 then pbind (scan_escape m) (\<lambda>t. again (chunks @ t))
       else leave chunks))))"

definition scan_flow_scalar_non_spaces :: "bool \<Rightarrow> umark \<Rightarrow> ucs list list scan" where
  "scan_flow_scalar_non_spaces double m = ploop (non_spaces_turn double m) []"

definition flow_scalar_turn :: "bool \<Rightarrow> umark \<Rightarrow> ucs \<Rightarrow> ucs list list \<Rightarrow> (ucs list list + ucs list list) scan" where
  "flow_scalar_turn double m q chunks =
     pbind (peek 0) (\<lambda>c.
       if c = q then leave chunks else
       pbind (scan_flow_scalar_spaces m) (\<lambda>a.
       pbind (scan_flow_scalar_non_spaces double m) (\<lambda>b. again (chunks @ a @ b))))"

definition scan_flow_scalar :: "char \<Rightarrow> utoken scan" where
  "scan_flow_scalar style =
     (let double = (style = dquote) in
     pbind get_mark (\<lambda>m.
     pbind (peek 0) (\<lambda>q.
     pbind (forward 1) (\<lambda>_.
     pbind (scan_flow_scalar_non_spaces double m) (\<lambda>chunks.
     pbind (ploop (flow_scalar_turn double m q) chunks) (\<lambda>chunks.
     pbind (forward 1) (\<lambda>_.
     pbind get_mark (\<lambda>e.
     pret (utoken_at (ScalarToken (concat chunks) False (Some style)) m e)))))))))"

section \<open>Plain scalars\<close>

text \<open>A bare \<open>return\<close> is \<open>None\<close>.\<close>

definition plain_breaks_turn :: "ucs list list \<Rightarrow> (ucs list list + ucs list list option) scan" where
  "plain_breaks_turn breaks =
     pbind (peek 0) (\<lambda>c.
       if c = 32 then pbind (forward 1) (\<lambda>_. again breaks)
       else if is_break c then
         pbind scan_line_break (\<lambda>b.
         pbind at_separator (\<lambda>stop. if stop then leave None else again (breaks @ [b])))
       else leave (Some breaks))"

definition scan_plain_spaces :: "ucs list list option scan" where
  "scan_plain_spaces =
     pbind (count_chars (\<lambda>c. c = 32) 0) (\<lambda>(n, _).
     pbind (take_chars n) (\<lambda>whitespaces.
     pbind (peek 0) (\<lambda>c.
       if is_break c then
         pbind scan_line_break (\<lambda>line_break.
         pbind (allow_key True) (\<lambda>_.
         pbind at_separator (\<lambda>stop. if stop then pret None else
         pbind (ploop plain_breaks_turn []) (\<lambda>r.
         pret (case r of None \<Rightarrow> None | Some breaks \<Rightarrow>
           Some ((if line_break \<noteq> [10] then [line_break] else if breaks = [] then [[32]] else []) @ breaks))))))
       else pret (Some (if whitespaces \<noteq> [] then [whitespaces] else [])))))"

text \<open>The inner loop: the length of a run without spaces, and the character behind it.\<close>

definition plain_stop :: "bool \<Rightarrow> nat \<Rightarrow> ucs \<Rightarrow> bool scan" where
  "plain_stop flow n c =
     (if is_blankz c then pret True
      else if \<not> flow \<and> is_chr CHR '':'' c then pbind (peek (n + 1)) (\<lambda>d. pret (is_blankz d))
      else pret (flow \<and> among '',:?[]{}'' c))"

definition plain_run :: "bool \<Rightarrow> (nat \<times> ucs) scan" where
  "plain_run flow =
     ploop (\<lambda>n. pbind (peek n) (\<lambda>c. pbind (plain_stop flow n c) (\<lambda>stop. if stop then leave (n, c) else again (n + 1)))) 0"

type_synonym plain_state = "ucs list list \<times> ucs list list \<times> umark"

definition plain_turn :: "umark \<Rightarrow> int \<Rightarrow> bool \<Rightarrow> plain_state \<Rightarrow> (plain_state + (ucs list list \<times> umark)) scan" where
  "plain_turn m n flow = (\<lambda>(chunks, spaces, e).
     pbind (peek 0) (\<lambda>c. if is_chr CHR ''#'' c then leave (chunks, e) else
     pbind (plain_run flow) (\<lambda>(k, c).
     pbind (if flow \<and> is_chr CHR '':'' c
            then pbind (peek (k + 1)) (\<lambda>d. pret (\<not> (is_blankz d \<or> among '',[]{}'' d))) else pret False) (\<lambda>bad.
       if bad then
         pbind (forward k) (\<lambda>_.
         pbind get_mark (\<lambda>here.
         pthrow (ScannerError (Some ''while scanning a plain scalar'') (Some m) (Says (''found unexpected '' @ [quote] @ '':'' @ [quote])) here
           (Some ''Please check http://pyyaml.org/wiki/YAMLColonInFlowContext for details.''))))
       else if k = 0 then leave (chunks, e)
       else
     pbind (allow_key False) (\<lambda>_.
     pbind (take_chars k) (\<lambda>v.
     pbind get_mark (\<lambda>e.
     pbind scan_plain_spaces (\<lambda>spaces'.
     let chunks = chunks @ spaces @ [v] in
     case spaces' of
       None \<Rightarrow> leave (chunks, e)
     | Some sp \<Rightarrow>
         if sp = [] then leave (chunks, e) else
         pbind (peek 0) (\<lambda>c.
         pbind (pgets column) (\<lambda>col.
           if is_chr CHR ''#'' c \<or> (\<not> flow \<and> col < n) then leave (chunks, e)
           else again (chunks, sp, e)))))))))))"

definition scan_plain :: "utoken scan" where
  "scan_plain =
     pbind get_mark (\<lambda>m.
     pbind (pgets (\<lambda>s. (indent s + 1, in_flow s))) (\<lambda>(n, flow).
     pbind (ploop (plain_turn m n flow) ([], [], m)) (\<lambda>(chunks, e).
     pret (utoken_at (ScalarToken (concat chunks) True None) m e))))"

end
