(* ===== verification/Yaml_Scanner.thy ===== *)
theory Yaml_Scanner
  imports Yaml_Scan
begin

text \<open>
  The scanner of the bundled YAML library (\<open>yaml/scanner.py\<close>): the queue of tokens, the
  indentation of block collections, the possible simple keys, and the fetcher of each token.
\<close>

section \<open>Tokens\<close>

definition add_token :: "utoken \<Rightarrow> unit scan" where
  "add_token t = pmodify (\<lambda>s. s\<lparr>sc_tokens := sc_tokens s @ [t]\<rparr>)"

text \<open>\<open>list.insert\<close>: a place below zero counts from the end, one out of range is cut to it.\<close>

definition list_insert :: "int \<Rightarrow> 'a \<Rightarrow> 'a list \<Rightarrow> 'a list" where
  "list_insert i x xs =
     (let k = nat (if i < 0 then i + int (length xs) else i) in take k xs @ x # drop k xs)"

definition insert_token :: "int \<Rightarrow> utoken \<Rightarrow> unit scan" where
  "insert_token i t = pmodify (\<lambda>s. s\<lparr>sc_tokens := list_insert i t (sc_tokens s)\<rparr>)"

text \<open>A token of the next \<open>n\<close> characters.\<close>

definition add_indicator :: "ucs token_of \<Rightarrow> nat \<Rightarrow> unit scan" where
  "add_indicator k n =
     pbind get_mark (\<lambda>m. pbind (forward n) (\<lambda>_. pbind get_mark (\<lambda>e. add_token (utoken_at k m e))))"

section \<open>Simple keys\<close>

fun min_token_number :: "(int \<times> simple_key) list \<Rightarrow> nat option \<Rightarrow> nat option" where
  "min_token_number [] m = m"
| "min_token_number ((_, k) # ks) m =
     min_token_number ks (case m of None \<Rightarrow> Some (token_number k)
                          | Some n \<Rightarrow> if token_number k < n then Some (token_number k) else m)"

definition next_possible_simple_key :: "scanner \<Rightarrow> nat option" where
  "next_possible_simple_key s = min_token_number (possible_simple_keys s) None"

definition missing_value :: "simple_key \<Rightarrow> unit scan" where
  "missing_value k = scan_fail ''while scanning a simple key'' (sk_mark k) (Says (''could not find expected '' @ [quote] @ '':'' @ [quote]))"

definition drop_key :: "int \<Rightarrow> unit scan" where
  "drop_key level = pmodify (\<lambda>s. s\<lparr>possible_simple_keys := dict_del level (possible_simple_keys s)\<rparr>)"

definition stale :: "simple_key \<Rightarrow> scanner \<Rightarrow> bool" where
  "stale k s = (sk_line k \<noteq> rd_line (rd s) \<or> 1024 < int (rd_index (rd s)) - int (sk_index k))"

fun stale_loop :: "(int \<times> simple_key) list \<Rightarrow> unit scan" where
  "stale_loop [] = pret ()"
| "stale_loop ((level, k) # ks) =
     pbind (pgets (stale k)) (\<lambda>old.
     pbind (if old then pbind (if required k then missing_value k else pret ()) (\<lambda>_. drop_key level) else pret ()) (\<lambda>_.
     stale_loop ks))"

definition stale_possible_simple_keys :: "unit scan" where
  "stale_possible_simple_keys = pbind (pgets possible_simple_keys) stale_loop"

definition remove_possible_simple_key :: "unit scan" where
  "remove_possible_simple_key =
     pbind (pgets (\<lambda>s. map_of (possible_simple_keys s) (flow_level s))) (\<lambda>k. case k of
         None \<Rightarrow> pret ()
       | Some k \<Rightarrow>
           pbind (if required k then missing_value k else pret ()) (\<lambda>_.
           pbind (pgets flow_level) drop_key))"

definition save_possible_simple_key :: "unit scan" where
  "save_possible_simple_key =
     pbind (pgets (\<lambda>s. \<not> in_flow s \<and> indent s = column s)) (\<lambda>needed.
     pbind (pgets allow_simple_key) (\<lambda>allowed. if \<not> allowed then pret () else
     pbind remove_possible_simple_key (\<lambda>_.
     pmodify (\<lambda>s. s\<lparr>possible_simple_keys := dict_set (possible_simple_keys s) (flow_level s)
       \<lparr>token_number = tokens_taken s + length (sc_tokens s), required = needed, sk_index = rd_index (rd s),
        sk_line = rd_line (rd s), sk_column = rd_column (rd s), sk_mark = rd_mark (rd s)\<rparr>\<rparr>))))"

section \<open>Indentation\<close>

definition pop_indent :: "unit scan" where
  "pop_indent s = (case indents s of [] \<Rightarrow> Some (Inl (Raised IndexError), s)
     | i # is \<Rightarrow> Some (Inr (), s\<lparr>indent := i, indents := is\<rparr>))"

definition unwind_indent :: "int \<Rightarrow> unit scan" where
  "unwind_indent col =
     pbind (pgets in_flow) (\<lambda>flow. if flow then pret () else
     pwhile (pgets (\<lambda>s. col < indent s))
       (pbind get_mark (\<lambda>m. pbind pop_indent (\<lambda>_. add_token (utoken_at BlockEndToken m m)))))"

definition add_indent :: "int \<Rightarrow> bool scan" where
  "add_indent col =
     pbind (pgets (\<lambda>s. indent s < col)) (\<lambda>deeper.
       if deeper then pbind (pmodify (\<lambda>s. s\<lparr>indents := indent s # indents s, indent := col\<rparr>)) (\<lambda>_. pret True)
       else pret False)"

section \<open>Fetchers\<close>

definition fetch_stream_start :: "unit scan" where
  "fetch_stream_start =
     pbind get_mark (\<lambda>m. pbind (pgets (\<lambda>s. encoding (rd s))) (\<lambda>enc. add_token (utoken_at (StreamStartToken enc) m m)))"

definition fetch_stream_end :: "unit scan" where
  "fetch_stream_end =
     pbind (unwind_indent (-1)) (\<lambda>_.
     pbind remove_possible_simple_key (\<lambda>_.
     pbind (pmodify (\<lambda>s. s\<lparr>allow_simple_key := False, possible_simple_keys := []\<rparr>)) (\<lambda>_.
     pbind get_mark (\<lambda>m.
     pbind (add_token (utoken_at StreamEndToken m m)) (\<lambda>_.
     pmodify (\<lambda>s. s\<lparr>sc_done := True\<rparr>))))))"

definition fetch_directive :: "unit scan" where
  "fetch_directive =
     pbind (unwind_indent (-1)) (\<lambda>_.
     pbind remove_possible_simple_key (\<lambda>_.
     pbind (allow_key False) (\<lambda>_.
     pbind scan_directive add_token)))"

definition fetch_document_indicator :: "ucs token_of \<Rightarrow> unit scan" where
  "fetch_document_indicator k =
     pbind (unwind_indent (-1)) (\<lambda>_.
     pbind remove_possible_simple_key (\<lambda>_.
     pbind (allow_key False) (\<lambda>_.
     add_indicator k 3)))"

definition fetch_flow_collection_start :: "ucs token_of \<Rightarrow> unit scan" where
  "fetch_flow_collection_start k =
     pbind save_possible_simple_key (\<lambda>_.
     pbind (pmodify (\<lambda>s. s\<lparr>flow_level := flow_level s + 1\<rparr>)) (\<lambda>_.
     pbind (allow_key True) (\<lambda>_.
     add_indicator k 1)))"

definition fetch_flow_collection_end :: "ucs token_of \<Rightarrow> unit scan" where
  "fetch_flow_collection_end k =
     pbind remove_possible_simple_key (\<lambda>_.
     pbind (pmodify (\<lambda>s. s\<lparr>flow_level := flow_level s - 1\<rparr>)) (\<lambda>_.
     pbind (allow_key False) (\<lambda>_.
     add_indicator k 1)))"

definition fetch_flow_entry :: "unit scan" where
  "fetch_flow_entry =
     pbind (allow_key True) (\<lambda>_.
     pbind remove_possible_simple_key (\<lambda>_.
     add_indicator FlowEntryToken 1))"

text \<open>
  The block context's check in front of an entry, a key or a value, which may open a block
  collection at the current column.
\<close>

definition not_allowed :: "string \<Rightarrow> unit scan" where
  "not_allowed what = pbind get_mark (\<lambda>m. pthrow (ScannerError None None (Says what) m None))"

definition open_block :: "ucs token_of \<Rightarrow> unit scan" where
  "open_block k =
     pbind (pgets column) (\<lambda>c. pbind (add_indent c) (\<lambda>b.
       if b then pbind get_mark (\<lambda>m. add_token (utoken_at k m m)) else pret ()))"

definition block_context :: "string \<Rightarrow> ucs token_of \<Rightarrow> unit scan" where
  "block_context what k =
     pbind (pgets in_flow) (\<lambda>flow. if flow then pret () else
     pbind (pgets allow_simple_key) (\<lambda>allowed. if \<not> allowed then not_allowed what else open_block k))"

definition fetch_block_entry :: "unit scan" where
  "fetch_block_entry =
     pbind (block_context ''sequence entries are not allowed here'' BlockSequenceStartToken) (\<lambda>_.
     pbind (allow_key True) (\<lambda>_.
     pbind remove_possible_simple_key (\<lambda>_.
     add_indicator BlockEntryToken 1)))"

definition fetch_key :: "unit scan" where
  "fetch_key =
     pbind (block_context ''mapping keys are not allowed here'' BlockMappingStartToken) (\<lambda>_.
     pbind (pgets in_flow) (\<lambda>flow.
     pbind (allow_key (\<not> flow)) (\<lambda>_.
     pbind remove_possible_simple_key (\<lambda>_.
     add_indicator KeyToken 1))))"

definition key_place :: "simple_key \<Rightarrow> scanner \<Rightarrow> int" where
  "key_place k s = int (token_number k) - int (tokens_taken s)"

definition fetch_simple_key :: "simple_key \<Rightarrow> unit scan" where
  "fetch_simple_key k =
     pbind (pgets flow_level) (\<lambda>level. pbind (drop_key level) (\<lambda>_.
     pbind (pgets (key_place k)) (\<lambda>i. pbind (insert_token i (utoken_at KeyToken (sk_mark k) (sk_mark k))) (\<lambda>_.
     pbind (pgets in_flow) (\<lambda>flow.
     pbind (if flow then pret () else
            pbind (add_indent (int (sk_column k))) (\<lambda>b.
              if b then pbind (pgets (key_place k)) (\<lambda>i.
                insert_token i (utoken_at BlockMappingStartToken (sk_mark k) (sk_mark k))) else pret ())) (\<lambda>_.
     allow_key False))))))"

definition fetch_value :: "unit scan" where
  "fetch_value =
     pbind (pgets (\<lambda>s. map_of (possible_simple_keys s) (flow_level s))) (\<lambda>k.
     pbind (case k of
         Some k \<Rightarrow> fetch_simple_key k
       | None \<Rightarrow>
           pbind (block_context ''mapping values are not allowed here'' BlockMappingStartToken) (\<lambda>_.
           pbind (pgets in_flow) (\<lambda>flow.
           pbind (allow_key (\<not> flow)) (\<lambda>_.
           remove_possible_simple_key)))) (\<lambda>_.
     add_indicator ValueToken 1))"

text \<open>An anchor, an alias, a tag, a quoted or a plain scalar, which may start a simple key.\<close>

definition fetch_key_part :: "utoken scan \<Rightarrow> unit scan" where
  "fetch_key_part m =
     pbind save_possible_simple_key (\<lambda>_. pbind (allow_key False) (\<lambda>_. pbind m add_token))"

definition fetch_alias :: "unit scan" where
  "fetch_alias = fetch_key_part (scan_anchor AliasToken)"

definition fetch_anchor :: "unit scan" where
  "fetch_anchor = fetch_key_part (scan_anchor AnchorToken)"

definition fetch_tag :: "unit scan" where
  "fetch_tag = fetch_key_part scan_tag"

definition fetch_flow_scalar :: "char \<Rightarrow> unit scan" where
  "fetch_flow_scalar style = fetch_key_part (scan_flow_scalar style)"

definition fetch_plain :: "unit scan" where
  "fetch_plain = fetch_key_part scan_plain"

definition fetch_block_scalar :: "char \<Rightarrow> unit scan" where
  "fetch_block_scalar style =
     pbind (allow_key True) (\<lambda>_.
     pbind remove_possible_simple_key (\<lambda>_.
     pbind (scan_block_scalar style) add_token))"

section \<open>Checkers\<close>

definition check_directive :: "bool scan" where
  "check_directive = pgets (\<lambda>s. column s = 0)"

definition check_document :: "string \<Rightarrow> bool scan" where
  "check_document indicator =
     pbind (pgets column) (\<lambda>c. if c \<noteq> 0 then pret False else
     pbind (take_prefix 3) (\<lambda>p. if p \<noteq> uc indicator then pret False else
     pbind (peek 3) (\<lambda>c. pret (is_blankz c))))"

definition check_block_entry :: "bool scan" where
  "check_block_entry = pbind (peek 1) (\<lambda>c. pret (is_blankz c))"

definition check_key :: "bool scan" where
  "check_key = pbind (pgets in_flow) (\<lambda>flow. if flow then pret True else pbind (peek 1) (\<lambda>c. pret (is_blankz c)))"

definition check_value :: "bool scan" where
  "check_value = pbind (pgets in_flow) (\<lambda>flow. if flow then pret True else pbind (peek 1) (\<lambda>c. pret (is_blankz c)))"

definition check_plain :: "bool scan" where
  "check_plain =
     pbind (peek 0) (\<lambda>c.
       if \<not> (is_blankz c \<or> among ''-?:,[]{}#&*!|>%@`'' c \<or> c = of_char quote \<or> c = of_char dquote) then pret True else
     pbind (peek 1) (\<lambda>d.
     pbind (pgets in_flow) (\<lambda>flow.
       pret (\<not> is_blankz d \<and> (is_chr CHR ''-'' c \<or> (\<not> flow \<and> among ''?:'' c))))))"

section \<open>The next token\<close>

text \<open>A check that the code makes only behind the test of the first character.\<close>

definition when_char :: "bool \<Rightarrow> bool scan \<Rightarrow> bool scan" where
  "when_char b m = (if b then m else pret False)"

text \<open>The dispatch on the next character, as the code orders it.\<close>

definition fetch_by_char :: "ucs \<Rightarrow> unit scan" where
  "fetch_by_char c =
     pbind (when_char (is_chr CHR ''%'' c) check_directive) (\<lambda>b. if b then fetch_directive else
     pbind (when_char (is_chr CHR ''-'' c) (check_document ''---'')) (\<lambda>b. if b then fetch_document_indicator DocumentStartToken else
     pbind (when_char (is_chr CHR ''.'' c) (check_document ''...'')) (\<lambda>b. if b then fetch_document_indicator DocumentEndToken else
     if is_chr CHR ''['' c then fetch_flow_collection_start FlowSequenceStartToken else
     if is_chr CHR ''{'' c then fetch_flow_collection_start FlowMappingStartToken else
     if is_chr CHR '']'' c then fetch_flow_collection_end FlowSequenceEndToken else
     if is_chr CHR ''}'' c then fetch_flow_collection_end FlowMappingEndToken else
     if is_chr CHR '','' c then fetch_flow_entry else
     pbind (when_char (is_chr CHR ''-'' c) check_block_entry) (\<lambda>b. if b then fetch_block_entry else
     pbind (when_char (is_chr CHR ''?'' c) check_key) (\<lambda>b. if b then fetch_key else
     pbind (when_char (is_chr CHR '':'' c) check_value) (\<lambda>b. if b then fetch_value else
     if is_chr CHR ''*'' c then fetch_alias else
     if is_chr CHR ''&'' c then fetch_anchor else
     if is_chr CHR ''!'' c then fetch_tag else
     pbind (pgets in_flow) (\<lambda>flow.
     if is_chr CHR ''|'' c \<and> \<not> flow then fetch_block_scalar CHR ''|'' else
     if is_chr CHR ''>'' c \<and> \<not> flow then fetch_block_scalar CHR ''>'' else
     if c = of_char quote then fetch_flow_scalar quote else
     if c = of_char dquote then fetch_flow_scalar dquote else
     pbind check_plain (\<lambda>b. if b then fetch_plain else
     pbind get_mark (\<lambda>m. pthrow (ScannerError (Some ''while scanning for the next token'') None
       (Found ''found character %r that cannot start any token'' c) m None))))))))))"

definition fetch_more_tokens :: "unit scan" where
  "fetch_more_tokens =
     pbind scan_to_next_token (\<lambda>_.
     pbind stale_possible_simple_keys (\<lambda>_.
     pbind (pgets column) (\<lambda>c.
     pbind (unwind_indent c) (\<lambda>_.
     pbind (peek 0) (\<lambda>c. if c = 0 then fetch_stream_end else fetch_by_char c)))))"

definition need_more_tokens :: "bool scan" where
  "need_more_tokens =
     pbind (pgets (\<lambda>s. (sc_done s, sc_tokens s = []))) (\<lambda>(fin, empty).
       if fin then pret False else if empty then pret True else
     pbind stale_possible_simple_keys (\<lambda>_.
     pgets (\<lambda>s. next_possible_simple_key s = Some (tokens_taken s))))"

definition fill_tokens :: "unit scan" where
  "fill_tokens = pwhile need_more_tokens fetch_more_tokens"

text \<open>\<open>check_token\<close> answers whether there is a token (of one of the kinds).\<close>

definition check_token :: "(ucs token_of \<Rightarrow> bool) \<Rightarrow> bool scan" where
  "check_token p = pbind fill_tokens (\<lambda>_. pgets (\<lambda>s. case sc_tokens s of [] \<Rightarrow> False | t # _ \<Rightarrow> p (utk t)))"

definition peek_token :: "utoken option scan" where
  "peek_token = pbind fill_tokens (\<lambda>_. pgets (\<lambda>s. case sc_tokens s of [] \<Rightarrow> None | t # _ \<Rightarrow> Some t))"

definition get_token :: "utoken option scan" where
  "get_token = pbind fill_tokens (\<lambda>_. (\<lambda>s. case sc_tokens s of
       [] \<Rightarrow> Some (Inr None, s)
     | t # ts \<Rightarrow> Some (Inr (Some t), s\<lparr>tokens_taken := tokens_taken s + 1, sc_tokens := ts\<rparr>)))"

text \<open>The scanner of a loader, and \<open>scan\<close>, which asks it for every token.\<close>

definition blank_scanner :: "reader \<Rightarrow> scanner" where
  "blank_scanner r = \<lparr>rd = r, sc_done = False, flow_level = 0, sc_tokens = [], tokens_taken = 0,
     indent = -1, indents = [], allow_simple_key = True, possible_simple_keys = []\<rparr>"

definition new_scanner :: "reader \<Rightarrow> scanner" where
  "new_scanner r = snd (the (fetch_stream_start (blank_scanner r)))"

definition scan_all :: "utoken list scan" where
  "scan_all = ploop (\<lambda>ts.
     pbind (check_token (\<lambda>_. True)) (\<lambda>b. if \<not> b then leave ts else
     pbind get_token (\<lambda>t. case t of Some t \<Rightarrow> again (ts @ [t]) | None \<Rightarrow> again ts))) []"

definition yaml_scan :: "source \<Rightarrow> (scan_error + utoken list) option" where
  "yaml_scan src = (case new_reader src of Inl e \<Rightarrow> Some (Inl e)
     | Inr r \<Rightarrow> map_option fst (scan_all (new_scanner r)))"

end
