(* ===== verification/Yaml_Reader_Props.thy ===== *)
theory Yaml_Reader_Props
  imports Yaml_Reader
begin

text \<open>
  What the operations of the reader do: \<open>rest\<close> is the text that is buffered in front of the
  pointer, which reading extends and \<open>forward\<close> shortens, and \<open>left\<close> bounds the number of
  characters that can still come.
\<close>

section \<open>Decoding\<close>

lemma decode_length: "decode cd bs final = Inr (t, n) \<Longrightarrow> length t \<le> n \<and> n \<le> length bs"
  using codec.decode_bound [of cd "codec_name cd" final 0 bs t n] by (simp add: decode_def)

section \<open>What is buffered, and what can still come\<close>

definition rest :: "reader \<Rightarrow> ucs list" where
  "rest r = drop (pointer r) (buffer r)"

fun stream_chars :: "stream option \<Rightarrow> nat" where
  "stream_chars None = 0"
| "stream_chars (Some (ByteStream cs)) = length (concat cs)"
| "stream_chars (Some (TextStream cs)) = length (concat cs)"

definition undecoded :: "reader \<Rightarrow> nat" where
  "undecoded r = (case raw_buffer r of None \<Rightarrow> 0 | Some w \<Rightarrow> raw_length w + 1) + stream_chars (rd_stream r)"

definition left :: "reader \<Rightarrow> nat" where
  "left r = length (rest r) + undecoded r"

lemma buffer_at_rest: "buffer_at k r = (if k < length (rest r) then Inr (rest r ! k) else Inl (Raised IndexError))"
  by (auto simp: buffer_at_def rest_def)

lemma rest_left: "length (rest r) \<le> left r"
  by (simp add: left_def)

text \<open>\<open>grows r r'\<close>: reading ahead, which moves nothing.\<close>

definition place_of :: "reader \<Rightarrow> nat \<times> nat \<times> nat" where
  "place_of r = (rd_index r, rd_line r, rd_column r)"

definition grows :: "reader \<Rightarrow> reader \<Rightarrow> bool" where
  "grows r r' = ((\<exists>new. rest r' = rest r @ new) \<and> left r' \<le> left r \<and> place_of r' = place_of r)"

lemma rd_grows_refl [simp]: "grows r r"
  by (simp add: grows_def)

lemma rd_grows_trans: "grows r r' \<Longrightarrow> grows r' r'' \<Longrightarrow> grows r r''"
  by (auto simp: grows_def)

lemma read_chunk_chars: "read_chunk st = (d, st') \<Longrightarrow> stream_chars (Some st') + raw_length d = stream_chars (Some st)"
  by (cases st rule: read_chunk.cases) auto

lemma raw_append_length: "raw_append w d = Inr w' \<Longrightarrow> raw_length w' = (case w of None \<Rightarrow> 0 | Some v \<Rightarrow> raw_length v) + raw_length d"
  by (cases "(w, d)" rule: raw_append.cases) auto

lemma update_raw_grows: "update_raw r = (x, r') \<Longrightarrow> raw_buffer r \<noteq> None \<Longrightarrow>
    grows r r' \<and> buffer r' = buffer r \<and> pointer r' = pointer r \<and> raw_buffer r' \<noteq> None"
  by (auto simp: update_raw_def grows_def left_def undecoded_def rest_def place_of_def
      dest!: read_chunk_chars raw_append_length split: option.splits prod.splits sum.splits)

lemma decode_raw_bound: "decode_raw r = Inr (t, w) \<Longrightarrow>
    \<exists>v. raw_buffer r = Some v \<and> length t + raw_length w \<le> raw_length v"
  by (auto simp: decode_raw_def dest: decode_length split: option.splits raw.splits sum.splits prod.splits)

lemma check_printable_cases: "check_printable t r = (x, r') \<Longrightarrow> r' = r"
  by (auto simp: check_printable_def split: option.splits)

lemma update_step_grows:
  assumes "update_step r = (x, r')" and "pointer r = 0" and "raw_buffer r \<noteq> None"
  shows "grows r r' \<and> pointer r' = 0 \<and> (x = Inr False \<longrightarrow> raw_buffer r' \<noteq> None)"
proof -
  obtain y q where q: "(if eof r then ret () else update_raw) r = (y, q)" by fastforce
  have g: "grows r q" "pointer q = 0" "raw_buffer q \<noteq> None"
    using q assms(2,3) update_raw_grows [of r y q] by (auto split: if_splits)
  show ?thesis
  proof (cases y)
    case (Inl e)
    with assms(1) q g show ?thesis by (auto simp: update_step_def sbind_def)
  next
    case (Inr u)
    show ?thesis
    proof (cases "decode_raw q")
      case (Inl e)
      with assms(1) q g Inr show ?thesis by (auto simp: update_step_def sbind_def)
    next
      case d: (Inr p)
      obtain t w where p: "p = (t, w)" by fastforce
      obtain v where v: "raw_buffer q = Some v" "length t + raw_length w \<le> raw_length v"
        using decode_raw_bound [of q t w] d p by auto
      obtain z where z: "check_printable t q = (z, q)" using check_printable_cases by (metis surj_pair)
      let ?r = "if eof q then q\<lparr>buffer := buffer q @ t @ [0], raw_buffer := None\<rparr>
                else q\<lparr>buffer := buffer q @ t, raw_buffer := Some w\<rparr>"
      have "grows q ?r \<and> pointer ?r = 0"
        using v g(2) by (auto simp: grows_def left_def undecoded_def rest_def place_of_def)
      then have "grows r ?r \<and> pointer ?r = 0" using g(1) rd_grows_trans by blast
      moreover have "r' = q \<or> (r' = ?r \<and> x = Inr (eof q))"
        using assms(1) q Inr d p z by (cases z) (auto simp: update_step_def sbind_def)
      ultimately show ?thesis using g by auto
    qed
  qed
qed

lemma update_loop_grows:
  "update_loop n r = (x, r') \<Longrightarrow> pointer r = 0 \<Longrightarrow> raw_buffer r \<noteq> None \<Longrightarrow> grows r r' \<and> pointer r' = 0"
proof (induction n r arbitrary: x r' rule: update_loop.induct)
  case (1 n r)
  show ?case
  proof (cases "n \<le> length (buffer r)")
    case True
    with 1(2,3) show ?thesis by (subst (asm) update_loop.simps) simp
  next
    case False
    obtain y q where q: "update_step r = (y, q)" by fastforce
    have g: "grows r q \<and> pointer q = 0 \<and> (y = Inr False \<longrightarrow> raw_buffer q \<noteq> None)"
      using update_step_grows [OF q 1(3,4)] .
    show ?thesis
    proof (cases y)
      case (Inl e)
      with 1(2) False q g show ?thesis by (subst (asm) update_loop.simps) simp
    next
      case (Inr ended)
      show ?thesis
      proof (cases ended)
        case True
        with 1(2) False q g Inr show ?thesis by (subst (asm) update_loop.simps) simp
      next
        case go: False
        have "update_loop n q = (x, r')" using 1(2) False q Inr go by (subst (asm) update_loop.simps) simp
        with 1(1) [OF False q [symmetric] Inr go] g Inr go show ?thesis by (auto intro: rd_grows_trans)
      qed
    qed
  qed
qed

lemma update_grows: "update n r = (x, r') \<Longrightarrow> grows r r'"
proof -
  assume *: "update n r = (x, r')"
  show ?thesis
  proof (cases "raw_buffer r")
    case None
    with * show ?thesis by (simp add: update_def)
  next
    case (Some w)
    let ?q = "r\<lparr>buffer := drop (pointer r) (buffer r), pointer := 0\<rparr>"
    have "grows r ?q" by (simp add: grows_def rest_def left_def undecoded_def place_of_def)
    moreover have "grows ?q r'"
      using * Some update_loop_grows [of n ?q x r'] by (simp add: update_def)
    ultimately show ?thesis by (rule rd_grows_trans)
  qed
qed

section \<open>The operations\<close>

lemma rd_peek_run:
  assumes "rd_peek k r = (x, r')"
  shows "grows r r'" and "x = Inr c \<Longrightarrow> k < length (rest r') \<and> c = rest r' ! k"
proof -
  have "grows r r' \<and> (\<forall>c. x = Inr c \<longrightarrow> k < length (rest r') \<and> c = rest r' ! k)"
  proof (cases "k < length (rest r)")
    case True
    with assms show ?thesis by (auto simp: rd_peek_def buffer_at_rest)
  next
    case False
    obtain y q where q: "update (k + 1) r = (y, q)" by fastforce
    from update_grows [OF q] assms False q show ?thesis
      by (cases y) (auto simp: rd_peek_def buffer_at_rest sbind_def split: if_splits)
  qed
  then show "grows r r'" and "x = Inr c \<Longrightarrow> k < length (rest r') \<and> c = rest r' ! k" by auto
qed

lemma rd_peek_at: "k < length (rest r) \<Longrightarrow> rd_peek k r = (Inr (rest r ! k), r)"
  by (simp add: rd_peek_def buffer_at_rest)

lemma rd_prefix_run:
  assumes "rd_prefix n r = (x, r')"
  shows "grows r r'" and "x = Inr p \<Longrightarrow> p = take n (rest r')"
proof -
  obtain y q where q: "(if length (buffer r) \<le> pointer r + n then update n else ret ()) r = (y, q)" by fastforce
  have "grows r q" using q update_grows [of n r y q] by (auto split: if_splits)
  with assms q show "grows r r'" and "x = Inr p \<Longrightarrow> p = take n (rest r')"
    by (cases y; auto simp: rd_prefix_def sbind_def rest_def)+
qed

text \<open>A state that reads on like \<open>r\<close> behind its first character, wherever the line ends.\<close>

definition moved :: "reader \<Rightarrow> reader \<Rightarrow> bool" where
  "moved r r' = (buffer r' = buffer r \<and> pointer r' = pointer r + 1 \<and> undecoded r' = undecoded r \<and> rd_index r' = rd_index r + 1)"

lemma forward_one_run:
  assumes "forward_one r = (Inr (), r')"
  shows "rest r \<noteq> [] \<and> rest r' = tl (rest r) \<and> undecoded r' = undecoded r \<and> rd_index r' = rd_index r + 1"
proof -
  let ?q = "r\<lparr>pointer := pointer r + 1, rd_index := rd_index r + 1\<rparr>"
  have m: "moved r ?q" by (simp add: moved_def undecoded_def)
  have keep: "moved r (q\<lparr>rd_line := l, rd_column := c\<rparr>)" "moved r (q\<lparr>rd_column := c\<rparr>)" if "moved r q" for q l c
    using that by (simp_all add: moved_def undecoded_def)
  obtain c where c: "buffer_at 0 r = Inr c"
    using assms by (auto simp: forward_one_def sbind_eq_Inr)
  have "moved r r'"
  proof (cases "c \<in> {10, 133, 8232, 8233}")
    case True
    with assms c keep(1) [OF m] show ?thesis by (auto simp: forward_one_def sbind_def)
  next
    case False
    show ?thesis
    proof (cases "c = 13")
      case True
      with assms c keep [OF m] show ?thesis
        by (cases "buffer_at 0 ?q") (auto simp: forward_one_def sbind_def split: if_splits)
    next
      case no_cr: False
      with assms c False keep(2) [OF m] m show ?thesis
        by (cases "c = 65279") (auto simp: forward_one_def sbind_def)
    qed
  qed
  moreover have "rest r \<noteq> []" using c by (auto simp: buffer_at_rest split: if_splits)
  ultimately show ?thesis by (simp add: moved_def rest_def drop_Suc tl_drop)
qed

lemma forward_loop_run: "forward_loop n r = (Inr (), r') \<Longrightarrow>
    n \<le> length (rest r) \<and> rest r' = drop n (rest r) \<and> undecoded r' = undecoded r \<and> rd_index r' = rd_index r + n"
proof (induction n arbitrary: r)
  case (Suc n)
  from Suc.prems obtain q where "forward_one r = (Inr (), q)" "forward_loop n q = (Inr (), r')"
    by (auto simp: sbind_eq_Inr)
  with Suc.IH [of q] forward_one_run [of r q] show ?case
    by (cases "rest r") auto
qed simp

lemma rd_forward_run:
  assumes "rd_forward n r = (Inr (), r')"
  obtains q where "grows r q" and "n \<le> length (rest q)" and "rest r' = drop n (rest q)"
    and "left r' + n = left q" and "rd_index r' = rd_index r + n"
proof -
  obtain y q where q: "(if length (buffer r) \<le> pointer r + n + 1 then update (n + 1) else ret ()) r = (y, q)" by fastforce
  have g: "grows r q" using q update_grows [of "n + 1" r y q] by (auto split: if_splits)
  have "forward_loop n q = (Inr (), r')" using assms q by (cases y) (auto simp: rd_forward_def sbind_def)
  from forward_loop_run [OF this] g show ?thesis
    by (intro that [of q]) (auto simp: left_def grows_def place_of_def)
qed

end
