(* ===== verification/Yaml_Scan_Ends.thy ===== *)
theory Yaml_Scan_Ends
  imports Yaml_Scanner Yaml_Reader_Props
begin

text \<open>
  The scanner ends on every input.  \<open>shrinks\<close> says of an action that it ends and reads no text
  twice, \<open>eats\<close> that it reads some, \<open>turns\<close> that a turn of a loop that goes on reads some; a
  named collection of rules carries each through the operations.
\<close>

definition lft :: "scanner \<Rightarrow> nat" where
  "lft s = left (rd s)"

definition shrinks :: "'a scan \<Rightarrow> bool" where
  "shrinks m = (\<forall>s. runs m s (\<lambda>_ s'. lft s' \<le> lft s) (\<lambda>_ _. True))"

definition eats :: "'a scan \<Rightarrow> bool" where
  "eats m = (\<forall>s. runs m s (\<lambda>_ s'. lft s' < lft s) (\<lambda>_ _. True))"

definition turns :: "('a + 'b) scan \<Rightarrow> bool" where
  "turns m = (\<forall>s. runs m s (\<lambda>r s'. lft s' \<le> lft s \<and> (\<forall>y. r = Inl y \<longrightarrow> lft s' < lft s)) (\<lambda>_ _. True))"

definition gives :: "'a scan \<Rightarrow> ('a \<Rightarrow> bool) \<Rightarrow> bool" where
  "gives m P = (\<forall>s. runs m s (\<lambda>x s'. lft s' \<le> lft s \<and> P x) (\<lambda>_ _. True))"

named_theorems ends

section \<open>Composition\<close>

lemma eats_shrinks: "eats m \<Longrightarrow> shrinks m"
  by (fastforce simp: eats_def shrinks_def elim: runs_conseq)

lemma gives_shrinks: "gives m P \<Longrightarrow> shrinks m"
  by (fastforce simp: gives_def shrinks_def elim: runs_conseq)

lemma shrinks_pret [ends]: "shrinks (pret x)"
  by (simp add: shrinks_def runs_pret)

lemma shrinks_again [ends]: "shrinks (again x)"
  by (simp add: shrinks_def runs_again)

lemma shrinks_leave [ends]: "shrinks (leave x)"
  by (simp add: shrinks_def runs_leave)

lemma turns_leave [ends]: "turns (leave x)"
  by (simp add: turns_def runs_leave)

lemma shrinks_pthrow [ends]: "shrinks (pthrow e)"
  by (simp add: shrinks_def runs_pthrow)

lemma turns_pthrow [ends]: "turns (pthrow e)"
  by (simp add: turns_def runs_pthrow)

lemma eats_pthrow [ends]: "eats (pthrow e)"
  by (simp add: eats_def runs_pthrow)

lemma shrinks_pgets [ends]: "shrinks (pgets f)"
  by (simp add: shrinks_def runs_pgets)

lemma shrinks_pmodify: "(\<And>s. rd (f s) = rd s) \<Longrightarrow> shrinks (pmodify f)"
  by (simp add: shrinks_def runs_pmodify lft_def)

lemma shrinks_pbind [ends]: "shrinks m \<Longrightarrow> (\<And>x. shrinks (f x)) \<Longrightarrow> shrinks (pbind m f)"
  unfolding shrinks_def
  by (intro allI runs_pbind_seq) (blast, fastforce elim: runs_conseq)

lemma eats_pbind: "eats m \<Longrightarrow> (\<And>x. shrinks (f x)) \<Longrightarrow> eats (pbind m f)"
  unfolding shrinks_def eats_def
  by (intro allI runs_pbind_seq) (blast, fastforce elim: runs_conseq)

lemma eats_after: "shrinks m \<Longrightarrow> (\<And>x. eats (f x)) \<Longrightarrow> eats (pbind m f)"
  unfolding shrinks_def eats_def
  by (intro allI runs_pbind_seq) (blast, fastforce elim: runs_conseq)

lemma turns_pbind: "eats m \<Longrightarrow> (\<And>x. shrinks (f x)) \<Longrightarrow> turns (pbind m f)"
  unfolding shrinks_def eats_def turns_def
  by (intro allI runs_pbind_seq) (blast, fastforce elim: runs_conseq)

lemma turns_after: "shrinks m \<Longrightarrow> (\<And>x. turns (f x)) \<Longrightarrow> turns (pbind m f)"
  unfolding shrinks_def turns_def
  by (intro allI runs_pbind_seq) (blast, fastforce elim: runs_conseq)

lemma gives_pbind: "gives m P \<Longrightarrow> (\<And>x. P x \<Longrightarrow> shrinks (f x)) \<Longrightarrow> shrinks (pbind m f)"
  unfolding shrinks_def gives_def
  by (intro allI runs_pbind_seq) (blast, fastforce elim: runs_conseq)

lemma gives_eats: "gives m P \<Longrightarrow> (\<And>x. P x \<Longrightarrow> eats (f x)) \<Longrightarrow> eats (pbind m f)"
  unfolding eats_def gives_def
  by (intro allI runs_pbind_seq) (blast, fastforce elim: runs_conseq)

lemma gives_after: "shrinks m \<Longrightarrow> (\<And>x. gives (f x) P) \<Longrightarrow> gives (pbind m f) P"
  unfolding shrinks_def gives_def
  by (intro allI runs_pbind_seq) (blast, fastforce elim: runs_conseq)

lemma gives_then: "gives m Q \<Longrightarrow> (\<And>x. Q x \<Longrightarrow> gives (f x) P) \<Longrightarrow> gives (pbind m f) P"
  unfolding gives_def
  by (intro allI runs_pbind_seq) (blast, fastforce elim: runs_conseq)

lemma gives_pret: "P x \<Longrightarrow> gives (pret x) P"
  by (simp add: gives_def runs_pret)

lemma gives_pthrow: "gives (pthrow e) P"
  by (simp add: gives_def runs_pthrow)

lemma ends_if [ends]:
  "(b \<Longrightarrow> shrinks m) \<Longrightarrow> (\<not> b \<Longrightarrow> shrinks m') \<Longrightarrow> shrinks (if b then m else m')"
  "(b \<Longrightarrow> eats n) \<Longrightarrow> (\<not> b \<Longrightarrow> eats n') \<Longrightarrow> eats (if b then n else n')"
  "(b \<Longrightarrow> turns t) \<Longrightarrow> (\<not> b \<Longrightarrow> turns t') \<Longrightarrow> turns (if b then t else t')"
  by simp_all

lemma ends_prod [ends]:
  "(\<And>a b. shrinks (f a b)) \<Longrightarrow> shrinks (case p of (a, b) \<Rightarrow> f a b)"
  "(\<And>a b. eats (g a b)) \<Longrightarrow> eats (case p of (a, b) \<Rightarrow> g a b)"
  "(\<And>a b. turns (h a b)) \<Longrightarrow> turns (case p of (a, b) \<Rightarrow> h a b)"
  by (simp_all split: prod.split)

lemma ends_option [ends]:
  "(p = None \<Longrightarrow> shrinks m) \<Longrightarrow> (\<And>a. p = Some a \<Longrightarrow> shrinks (f a)) \<Longrightarrow> shrinks (case p of None \<Rightarrow> m | Some a \<Rightarrow> f a)"
  "(p = None \<Longrightarrow> eats n) \<Longrightarrow> (\<And>a. p = Some a \<Longrightarrow> eats (g a)) \<Longrightarrow> eats (case p of None \<Rightarrow> n | Some a \<Rightarrow> g a)"
  "(p = None \<Longrightarrow> turns t) \<Longrightarrow> (\<And>a. p = Some a \<Longrightarrow> turns (h a)) \<Longrightarrow> turns (case p of None \<Rightarrow> t | Some a \<Rightarrow> h a)"
  by (simp_all split: option.split)

lemma ends_sum [ends]:
  "(\<And>e. shrinks (f e)) \<Longrightarrow> (\<And>a. shrinks (g a)) \<Longrightarrow> shrinks (case p of Inl e \<Rightarrow> f e | Inr a \<Rightarrow> g a)"
  by (simp split: sum.split)

lemma ends_let [ends]:
  "(\<And>x. shrinks (f x)) \<Longrightarrow> shrinks (let x = a in f x)"
  "(\<And>x. eats (g x)) \<Longrightarrow> eats (let x = a in g x)"
  "(\<And>x. turns (h x)) \<Longrightarrow> turns (let x = a in h x)"
  by simp_all

lemma ploop_shrinks [ends]: "(\<And>x. turns (body x)) \<Longrightarrow> shrinks (ploop body x)"
  unfolding shrinks_def
proof
  fix s
  assume t: "\<And>x. turns (body x)"
  show "runs (ploop body x) s (\<lambda>_ s'. lft s' \<le> lft s) (\<lambda>_ _. True)"
  proof (rule runs_ploop [where I = "\<lambda>_ s'. lft s' \<le> lft s" and m = "\<lambda>_. lft"])
    fix x s'
    assume le: "lft s' \<le> lft s"
    have "runs (body x) s' (\<lambda>r t. lft t \<le> lft s' \<and> (\<forall>y. r = Inl y \<longrightarrow> lft t < lft s')) (\<lambda>_ _. True)"
      using t by (simp add: turns_def)
    then show "runs (body x) s' (\<lambda>r t. case r of Inl y \<Rightarrow> lft t \<le> lft s \<and> lft t < lft s' | Inr z \<Rightarrow> lft t \<le> lft s) (\<lambda>_ _. True)"
      by (rule runs_conseq) (use le in \<open>auto split: sum.split\<close>)
  qed simp
qed

lemma pwhile_shrinks: "shrinks c \<Longrightarrow> eats b \<Longrightarrow> shrinks (pwhile c b)"
  unfolding pwhile_def
  by (rule ploop_shrinks, erule turns_after, rule ends_if(3), erule turns_pbind, rule shrinks_again, rule turns_leave)

section \<open>Reading characters\<close>

lemma reading_runs:
  "(\<And>x r'. m (rd s) = (x, r') \<Longrightarrow> case x of Inr y \<Rightarrow> Q y (s\<lparr>rd := r'\<rparr>) | Inl e \<Rightarrow> R e (s\<lparr>rd := r'\<rparr>)) \<Longrightarrow>
   runs (reading m) s Q R"
  by (auto simp: runs_def reading_def split: prod.split sum.splits)

abbreviation ahead :: "scanner \<Rightarrow> ucs list" where
  "ahead s \<equiv> rest (rd s)"

lemma peek_runs:
  "(\<And>c r'. grows (rd s) r' \<Longrightarrow> k < length (rest r') \<Longrightarrow> c = rest r' ! k \<Longrightarrow> Q c (s\<lparr>rd := r'\<rparr>)) \<Longrightarrow>
   runs (peek k) s Q (\<lambda>_ _. True)"
  unfolding peek_def using rd_peek_run by (intro reading_runs) (fastforce split: sum.split)

lemma take_prefix_runs:
  "(\<And>r'. grows (rd s) r' \<Longrightarrow> Q (take n (rest r')) (s\<lparr>rd := r'\<rparr>)) \<Longrightarrow>
   runs (take_prefix n) s Q (\<lambda>_ _. True)"
  unfolding take_prefix_def using rd_prefix_run by (intro reading_runs) (fastforce split: sum.split)

lemma forward_runs:
  "(\<And>q r'. grows (rd s) q \<Longrightarrow> n \<le> length (rest q) \<Longrightarrow> rest r' = drop n (rest q) \<Longrightarrow> left r' + n = left q \<Longrightarrow>
      rd_index r' = rd_index (rd s) + n \<Longrightarrow> Q () (s\<lparr>rd := r'\<rparr>)) \<Longrightarrow>
   runs (forward n) s Q (\<lambda>_ _. True)"
  unfolding forward_def by (intro reading_runs) (auto elim!: rd_forward_run split: sum.split)

lemma grows_left: "grows r r' \<Longrightarrow> left r' \<le> left r"
  by (simp add: grows_def)

lemma shrinks_peek [ends]: "shrinks (peek k)"
  by (simp add: shrinks_def lft_def peek_runs grows_left)

lemma shrinks_prefix [ends]: "shrinks (take_prefix n)"
  by (simp add: shrinks_def lft_def take_prefix_runs grows_left)

lemma shrinks_forward [ends]: "shrinks (forward n)"
  unfolding shrinks_def lft_def by (intro allI forward_runs) (auto dest: grows_left)

lemma eats_forward: "0 < n \<Longrightarrow> eats (forward n)"
  unfolding eats_def lft_def by (intro allI forward_runs) (auto dest: grows_left)

lemma shrinks_mark [ends]: "shrinks get_mark"
  by (simp add: get_mark_def ends)

lemma shrinks_allow [ends]: "shrinks (allow_key b)"
  by (simp add: allow_key_def shrinks_pmodify)

lemma scan_fail_ends [ends]: "shrinks (scan_fail c m p)" "turns (scan_fail c m p)" "eats (scan_fail c m p)"
  unfolding scan_fail_def by (intro ends turns_after eats_after; rule ends)+

lemma gives_fail: "gives (scan_fail c m p) P"
  unfolding scan_fail_def by (intro gives_after ends gives_pthrow)

lemma shrinks_take [ends]: "shrinks (take_chars n)"
  unfolding take_chars_def by (intro ends)

lemma eats_take: "0 < n \<Longrightarrow> eats (take_chars n)"
  unfolding take_chars_def by (intro eats_after ends eats_pbind eats_forward)

lemma shrinks_skip [ends]: "shrinks (skip p)"
  unfolding skip_def by (intro pwhile_shrinks ends eats_forward) simp

text \<open>Counting: the length of the run in front, and the character behind it.\<close>

lemma count_chars_runs:
  assumes "\<And>n c r'. k \<le> n \<Longrightarrow> grows (rd s) r' \<Longrightarrow> n < length (rest r') \<Longrightarrow> c = rest r' ! n \<Longrightarrow> \<not> p c \<Longrightarrow>
    Q (n, c) (s\<lparr>rd := r'\<rparr>)"
  shows "runs (count_chars p k) s Q (\<lambda>_ _. True)"
  unfolding count_chars_def
proof (rule runs_ploop [where I = "\<lambda>n s'. k \<le> n \<and> (\<exists>r'. grows (rd s) r' \<and> s' = s\<lparr>rd := r'\<rparr>)"
      and m = "\<lambda>n s'. lft s' - n"])
  fix n s'
  assume "k \<le> n \<and> (\<exists>r'. grows (rd s) r' \<and> s' = s\<lparr>rd := r'\<rparr>)"
  then obtain r1 where r1: "k \<le> n" "grows (rd s) r1" "s' = s\<lparr>rd := r1\<rparr>" by blast
  show "runs (pbind (peek n) (\<lambda>c. if p c then again (n + 1) else leave (n, c))) s'
    (\<lambda>r t. case r of Inl y \<Rightarrow> (k \<le> y \<and> (\<exists>r'. grows (rd s) r' \<and> t = s\<lparr>rd := r'\<rparr>)) \<and> lft t - y < lft s' - n
      | Inr z \<Rightarrow> Q z t) (\<lambda>_ _. True)"
  proof (intro runs_pbind peek_runs runs_if runs_again runs_leave)
    fix c r'
    assume r': "grows (rd s') r'" "n < length (rest r')" "c = rest r' ! n"
    then have g: "grows (rd s) r'" using r1 by (auto intro: rd_grows_trans)
    have l: "n < left r'" "left r' \<le> left r1" using r' rest_left [of r'] r1(3) by (auto dest: grows_left)
    show "case Inl (n + 1) of Inl y \<Rightarrow> (k \<le> y \<and> (\<exists>q. grows (rd s) q \<and> s'\<lparr>rd := r'\<rparr> = s\<lparr>rd := q\<rparr>)) \<and>
        lft (s'\<lparr>rd := r'\<rparr>) - y < lft s' - n | Inr z \<Rightarrow> Q z (s'\<lparr>rd := r'\<rparr>)"
      using r1 g l by (auto simp: lft_def)
    assume "\<not> p c"
    then show "case Inr (n, c) of Inl y \<Rightarrow> (k \<le> y \<and> (\<exists>q. grows (rd s) q \<and> s'\<lparr>rd := r'\<rparr> = s\<lparr>rd := q\<rparr>)) \<and>
        lft (s'\<lparr>rd := r'\<rparr>) - y < lft s' - n | Inr z \<Rightarrow> Q z (s'\<lparr>rd := r'\<rparr>)"
      using r1 g r' assms(1) by simp
  qed
qed (auto intro: exI [of _ "rd s"])

lemma shrinks_count [ends]: "shrinks (count_chars p k)"
  unfolding shrinks_def lft_def by (intro allI count_chars_runs) (simp add: grows_left)

section \<open>At a state\<close>

definition eats_at :: "scanner \<Rightarrow> 'a scan \<Rightarrow> bool" where
  "eats_at s m = runs m s (\<lambda>_ s'. lft s' < lft s) (\<lambda>_ _. True)"

definition turns_at :: "scanner \<Rightarrow> ('a + 'b) scan \<Rightarrow> bool" where
  "turns_at s m = runs m s (\<lambda>r s'. lft s' \<le> lft s \<and> (\<forall>y. r = Inl y \<longrightarrow> lft s' < lft s)) (\<lambda>_ _. True)"

lemma eats_eats_at: "eats m \<Longrightarrow> eats_at s m"
  by (simp add: eats_def eats_at_def)

lemma turns_turns_at: "turns m \<Longrightarrow> turns_at s m"
  by (simp add: turns_def turns_at_def)

lemma eats_at_pbind: "eats_at s m \<Longrightarrow> (\<And>x. shrinks (f x)) \<Longrightarrow> eats_at s (pbind m f)"
  unfolding shrinks_def eats_at_def
  by (intro allI runs_pbind_seq) (blast, fastforce elim: runs_conseq)

lemma turns_at_pbind: "eats_at s m \<Longrightarrow> (\<And>x. shrinks (f x)) \<Longrightarrow> turns_at s (pbind m f)"
  unfolding shrinks_def eats_at_def turns_at_def
  by (intro allI runs_pbind_seq) (blast, fastforce elim: runs_conseq)

text \<open>Behind an action whose result and state are known to satisfy \<open>P\<close>.\<close>

lemma eats_at_seq: "runs m s (\<lambda>x s'. lft s' \<le> lft s \<and> P x s') (\<lambda>_ _. True) \<Longrightarrow>
    (\<And>x s'. P x s' \<Longrightarrow> eats_at s' (f x)) \<Longrightarrow> eats_at s (pbind m f)"
  unfolding eats_at_def by (intro allI runs_pbind_seq) (blast, fastforce elim: runs_conseq)

lemma turns_at_seq: "runs m s (\<lambda>x s'. lft s' \<le> lft s \<and> P x s') (\<lambda>_ _. True) \<Longrightarrow>
    (\<And>x s'. P x s' \<Longrightarrow> turns_at s' (f x)) \<Longrightarrow> turns_at s (pbind m f)"
  unfolding turns_at_def by (intro allI runs_pbind_seq) (blast, fastforce elim: runs_conseq)

lemma turns_at_if:
  "(b \<Longrightarrow> turns_at s m) \<Longrightarrow> (\<not> b \<Longrightarrow> turns_at s m') \<Longrightarrow> turns_at s (if b then m else m')"
  by simp

lemma eats_at_if:
  "(b \<Longrightarrow> eats_at s m) \<Longrightarrow> (\<not> b \<Longrightarrow> eats_at s m') \<Longrightarrow> eats_at s (if b then m else m')"
  by simp

lemma turns_turns_at_iff: "turns m = (\<forall>s. turns_at s m)" "eats n = (\<forall>s. eats_at s n)"
  by (simp_all add: turns_def turns_at_def eats_def eats_at_def)

lemma peek_known: "runs (peek 0) s (\<lambda>c s'. lft s' \<le> lft s \<and> (ahead s' \<noteq> [] \<and> c = hd (ahead s'))) (\<lambda>_ _. True)"
  by (intro peek_runs) (auto simp: hd_conv_nth lft_def dest: grows_left)

lemma peek_turns: "(\<And>s. ahead s \<noteq> [] \<Longrightarrow> turns_at s (f (hd (ahead s)))) \<Longrightarrow> turns (pbind (peek 0) f)"
  unfolding turns_turns_at_iff by (intro allI turns_at_seq [OF peek_known]) auto

lemma peek_eats: "(\<And>s. ahead s \<noteq> [] \<Longrightarrow> eats_at s (f (hd (ahead s)))) \<Longrightarrow> eats (pbind (peek 0) f)"
  unfolding turns_turns_at_iff by (intro allI eats_at_seq [OF peek_known]) auto

text \<open>A loop that eats in its first turn.\<close>

lemma ploop_eats_at:
  assumes "\<And>x. turns (body x)" and "eats_at s (body x)"
  shows "eats_at s (ploop body x)"
proof -
  have "runs (ploop body y) s' (\<lambda>_ t. lft t \<le> lft s') (\<lambda>_ _. True)" for y s'
    using ploop_shrinks [of body y] assms(1) by (simp add: shrinks_def)
  with assms(2) show ?thesis
    unfolding eats_at_def runs_def ploop.simps [of body x s]
    by (fastforce split: option.splits sum.splits prod.splits)
qed

section \<open>Line breaks\<close>

lemma line_break_eats:
  "eats (pbind (take_prefix 2) (\<lambda>p. pbind (if p = [13, 10] then forward 2 else forward 1) (\<lambda>_. pret [10 :: ucs])))"
  by (rule eats_after, rule ends, rule eats_pbind) (auto intro: eats_forward ends)

lemma line_break_eats_at:
  assumes "ahead s \<noteq> []" and "is_break (hd (ahead s))"
  shows "eats_at s scan_line_break"
  unfolding scan_line_break_def
proof (rule eats_at_seq [where P = "\<lambda>c s'. is_break c"])
  have "grows (rd s) r' \<Longrightarrow> is_break (rest r' ! 0)" for r'
    using assms by (cases "rest (rd s)") (auto simp: grows_def)
  then show "runs (peek 0) s (\<lambda>c s'. lft s' \<le> lft s \<and> is_break c) (\<lambda>_ _. True)"
    by (intro peek_runs) (auto simp: lft_def grows_left)
next
  have e: "eats (pbind (take_prefix 2) (\<lambda>p. pbind (if p = [13, 10] then forward 2 else forward 1) (\<lambda>_. pret [10 :: ucs])))"
    by (rule line_break_eats)
  have e': "eats (pbind (forward 1) (\<lambda>_. pret [c]))" for c :: ucs by (intro eats_pbind eats_forward ends) simp
  fix s' and c :: ucs
  assume "is_break c"
  then show "eats_at s' (if c \<in> {13, 10, 133}
      then pbind (take_prefix 2) (\<lambda>p. pbind (if p = [13, 10] then forward 2 else forward 1) (\<lambda>_. pret [10]))
      else if c \<in> {8232, 8233} then pbind (forward 1) (\<lambda>_. pret [c]) else pret [])"
    by (intro eats_at_if eats_eats_at e e') (auto simp: is_break_def)
qed

lemma line_break_runs:
  "runs scan_line_break s (\<lambda>b s'. lft s' \<le> lft s \<and> (b \<noteq> [] \<longrightarrow> lft s' < lft s)) (\<lambda>_ _. True)"
  unfolding scan_line_break_def
proof (rule runs_pbind, rule peek_runs)
  fix r' and c :: ucs
  assume "grows (rd s) r'"
  then have l: "lft (s\<lparr>rd := r'\<rparr>) \<le> lft s" by (simp add: lft_def grows_left)
  have e: "eats (pbind (take_prefix 2) (\<lambda>p. pbind (if p = [13, 10] then forward 2 else forward 1) (\<lambda>_. pret [10 :: ucs])))"
    by (rule line_break_eats)
  have e': "eats (pbind (forward 1) (\<lambda>_. pret [c]))" by (intro eats_pbind eats_forward ends) simp
  show "runs (if c \<in> {13, 10, 133}
          then pbind (take_prefix 2) (\<lambda>p. pbind (if p = [13, 10] then forward 2 else forward 1) (\<lambda>_. pret [10]))
          else if c \<in> {8232, 8233} then pbind (forward 1) (\<lambda>_. pret [c]) else pret []) (s\<lparr>rd := r'\<rparr>)
        (\<lambda>b s'. lft s' \<le> lft s \<and> (b \<noteq> [] \<longrightarrow> lft s' < lft s)) (\<lambda>_ _. True)"
    by (intro runs_if runs_conseq [OF e [unfolded eats_def, rule_format]] runs_conseq [OF e' [unfolded eats_def, rule_format]] runs_pret)
       (use l in auto)
qed

lemma shrinks_line_break [ends]: "shrinks scan_line_break"
  unfolding shrinks_def by (intro allI runs_conseq [OF line_break_runs]) auto

lemma turns_line_break:
  assumes "\<And>b :: ucs list. b \<noteq> [] \<Longrightarrow> shrinks (f b)" and "turns (f [])"
  shows "turns (pbind scan_line_break f)"
  unfolding turns_def
proof (intro allI runs_pbind, rule runs_conseq [OF line_break_runs])
  fix s s' and b :: "ucs list"
  assume b: "lft s' \<le> lft s \<and> (b \<noteq> [] \<longrightarrow> lft s' < lft s)"
  show "runs (f b) s' (\<lambda>r t. lft t \<le> lft s \<and> (\<forall>y. r = Inl y \<longrightarrow> lft t < lft s)) (\<lambda>_ _. True)"
  proof (cases "b = []")
    case True
    with assms(2) have "runs (f b) s' (\<lambda>r t. lft t \<le> lft s' \<and> (\<forall>y. r = Inl y \<longrightarrow> lft t < lft s')) (\<lambda>_ _. True)"
      by (simp add: turns_def)
    then show ?thesis by (rule runs_conseq) (use b in auto)
  next
    case False
    with assms(1) have "runs (f b) s' (\<lambda>_ t. lft t \<le> lft s') (\<lambda>_ _. True)" by (simp add: shrinks_def)
    then show ?thesis by (rule runs_conseq) (use b False in auto)
  qed
qed simp

lemma shrinks_comment [ends]: "shrinks skip_comment"
  unfolding skip_comment_def by (intro ends)

lemma shrinks_next_token [ends]: "shrinks scan_to_next_token"
  unfolding scan_to_next_token_def
  by (intro ends turns_after turns_line_break) (auto intro: ends)

end
