(* ===== verification/Yaml_Scanner_Ends.thy ===== *)
theory Yaml_Scanner_Ends
  imports Yaml_Scan_Ends
begin

text \<open>
  The functions of the scanner one by one: each ends, and those that make a token read some
  text.  At the end the scanner as a whole: whatever the source holds, it returns.
\<close>

section \<open>Tags\<close>

lemma check_hex_shrinks [ends]: "(\<And>c. shrinks (bad c)) \<Longrightarrow> shrinks (check_hex bad ks)"
  by (induction ks) (auto intro: ends)

lemma tag_handle_length_gives: "gives (tag_handle_length name m c) (\<lambda>n. 0 < n)"
proof -
  have "gives (if \<not> is_chr CHR ''!'' c then
                pbind (forward n) (\<lambda>_. scan_fail (''while scanning a '' @ name) m (Found ''expected '!', but found %r'' c))
              else pret (n + 1)) (\<lambda>n. 0 < n)" for c n
    by (auto intro!: gives_after ends gives_fail gives_pret)
  then show ?thesis
    by (auto simp: tag_handle_length_def intro!: gives_after [OF shrinks_count] gives_pret)
qed

lemma eats_tag_handle: "eats (scan_tag_handle name m)"
  unfolding scan_tag_handle_def
  by (rule eats_after, rule ends, rule ends, rule ends, rule eats_after, rule ends,
      rule gives_eats [OF tag_handle_length_gives], rule eats_take)

text \<open>The escapes of a URI read some text where they stand at a percent sign.\<close>

lemma eats_one_escape: "eats (one_escape name m)"
  unfolding one_escape_def by (intro eats_pbind eats_forward ends) simp

lemma turns_escape: "turns (escape_turn name m codes)"
  unfolding escape_turn_def by (intro turns_after [OF shrinks_peek] ends turns_pbind eats_one_escape)

lemma shrinks_escapes [ends]: "shrinks (scan_uri_escapes name m)"
  unfolding scan_uri_escapes_def by (intro ends turns_escape)

lemma peek_at:
  assumes "ahead s \<noteq> []" and "\<And>s'. lft s' \<le> lft s \<Longrightarrow> ahead s' \<noteq> [] \<Longrightarrow> hd (ahead s') = hd (ahead s) \<Longrightarrow> Q (hd (ahead s)) s'"
  shows "runs (peek 0) s Q (\<lambda>_ _. True)"
proof (rule peek_runs)
  fix c r'
  assume g: "grows (rd s) r'" and c: "0 < length (rest r')" "c = rest r' ! 0"
  have "hd (rest r') = hd (ahead s)" using g assms(1) by (auto simp: grows_def)
  with c g show "Q c (s\<lparr>rd := r'\<rparr>)"
    using assms(2) [of "s\<lparr>rd := r'\<rparr>"] by (auto simp: hd_conv_nth lft_def dest: grows_left)
qed

lemma mark_known: "runs get_mark s (\<lambda>_ s'. lft s' \<le> lft s \<and> s' = s) (\<lambda>_ _. True)"
  by (simp add: get_mark_def runs_pgets)

lemma escapes_eat:
  assumes "ahead s \<noteq> []" and "is_chr CHR ''%'' (hd (ahead s))"
  shows "eats_at s (scan_uri_escapes name m)"
proof -
  have body: "eats_at s (escape_turn name m [])"
    unfolding escape_turn_def
  proof (rule eats_at_seq [where P = "\<lambda>c s'. is_chr CHR ''%'' c"])
    show "runs (peek 0) s (\<lambda>c s'. lft s' \<le> lft s \<and> is_chr CHR ''%'' c) (\<lambda>_ _. True)"
      using assms by (intro peek_at) auto
  qed (intro eats_at_if eats_eats_at eats_pbind eats_one_escape ends; simp)
  show ?thesis
    unfolding scan_uri_escapes_def
    by (rule eats_at_seq [OF mark_known]) (clarsimp, intro eats_at_pbind ploop_eats_at turns_escape body ends)
qed

lemma take_chars_runs:
  assumes "n < length (ahead s)"
  shows "runs (take_chars n) s (\<lambda>_ s'. lft s' + n \<le> lft s \<and> ahead s' \<noteq> [] \<and> hd (ahead s') = ahead s ! n) (\<lambda>_ _. True)"
  unfolding take_chars_def
proof (intro runs_pbind take_prefix_runs forward_runs runs_pret)
  fix r1 q r2
  assume g: "grows (rd s) r1" "grows (rd (s\<lparr>rd := r1\<rparr>)) q" "rest r2 = drop n (rest q)" "left r2 + n = left q"
  then have "grows (rd s) q" by (auto intro: rd_grows_trans)
  then obtain new where "rest q = ahead s @ new" "left q \<le> lft s" by (auto simp: grows_def lft_def)
  with g assms show "lft (s\<lparr>rd := r1, rd := r2\<rparr>) + n \<le> lft s \<and> ahead (s\<lparr>rd := r1, rd := r2\<rparr>) \<noteq> [] \<and>
      hd (ahead (s\<lparr>rd := r1, rd := r2\<rparr>)) = ahead s ! n"
    by (auto simp: lft_def hd_drop_conv_nth nth_append)
qed

lemma tag_uri_turn_runs:
  assumes "n < length (ahead s)" and "c = ahead s ! n"
  shows "runs (tag_uri_turn name m (chunks, n, c)) s
    (\<lambda>r s'. case r of
        Inl (_, n', c') \<Rightarrow> n' < length (ahead s') \<and> c' = ahead s' ! n' \<and> lft s' \<le> lft s \<and> lft s' - n' < lft s - n
      | Inr _ \<Rightarrow> lft s' \<le> lft s) (\<lambda>_ _. True)"
proof -
  have n: "n < lft s" using assms(1) rest_left [of "rd s"] by (simp add: lft_def)
  consider "\<not> uri_char c" | "uri_char c" "is_chr CHR ''%'' c" | "uri_char c" "\<not> is_chr CHR ''%'' c" by blast
  then show ?thesis
  proof cases
    case 1
    then show ?thesis by (simp add: tag_uri_turn_def runs_leave)
  next
    case 2
    note A = take_chars_runs [OF assms(1), folded assms(2)]
    have B: "runs (scan_uri_escapes name m) s1 (\<lambda>_ s'. lft s' < lft s1) (\<lambda>_ _. True)"
      if "lft s1 + n \<le> lft s \<and> ahead s1 \<noteq> [] \<and> hd (ahead s1) = c" for s1
      using that 2 escapes_eat [of s1 name m] by (simp add: eats_at_def)
    have "runs (pbind (take_chars n) (\<lambda>v. pbind (scan_uri_escapes name m) (\<lambda>e.
        pbind (peek 0) (\<lambda>c. again (chunks @ [v, e], 0, c))))) s
      (\<lambda>r s'. case r of
          Inl (_, n', c') \<Rightarrow> n' < length (ahead s') \<and> c' = ahead s' ! n' \<and> lft s' \<le> lft s \<and> lft s' - n' < lft s - n
        | Inr _ \<Rightarrow> lft s' \<le> lft s) (\<lambda>_ _. True)"
      by (rule runs_pbind_seq [OF A], rule runs_pbind_seq [OF B], assumption)
         (auto intro!: runs_pbind peek_runs runs_again simp: lft_def dest!: grows_left)
    with 2 show ?thesis by (simp add: tag_uri_turn_def)
  next
    case 3
    have "runs (pbind (peek (n + 1)) (\<lambda>c. again (chunks, n + 1, c))) s
      (\<lambda>r s'. case r of
          Inl (_, n', c') \<Rightarrow> n' < length (ahead s') \<and> c' = ahead s' ! n' \<and> lft s' \<le> lft s \<and> lft s' - n' < lft s - n
        | Inr _ \<Rightarrow> lft s' \<le> lft s) (\<lambda>_ _. True)"
      using n by (auto intro!: runs_pbind peek_runs runs_again simp: lft_def dest!: grows_left)
    with 3 show ?thesis by (simp add: tag_uri_turn_def)
  qed
qed

lemma shrinks_tag_uri [ends]: "shrinks (scan_tag_uri name m)"
proof -
  have loop: "runs (ploop (tag_uri_turn name m) (chunks, n, c)) s (\<lambda>_ s'. lft s' \<le> lft s) (\<lambda>_ _. True)"
    if "n < length (ahead s)" "c = ahead s ! n" for chunks n c s
  proof (rule runs_ploop [where I = "\<lambda>x s'. case x of (_, n, c) \<Rightarrow> n < length (ahead s') \<and> c = ahead s' ! n \<and> lft s' \<le> lft s"
        and m = "\<lambda>x s'. case x of (_, n, _) \<Rightarrow> lft s' - n"])
    fix x :: "ucs list list \<times> nat \<times> ucs" and s'
    assume I: "case x of (_, n, c) \<Rightarrow> n < length (ahead s') \<and> c = ahead s' ! n \<and> lft s' \<le> lft s"
    obtain ch k d where x: "x = (ch, k, d)" by (cases x)
    show "runs (tag_uri_turn name m x) s'
        (\<lambda>r t. case r of Inl y \<Rightarrow> (case y of (_, n, c) \<Rightarrow> n < length (ahead t) \<and> c = ahead t ! n \<and> lft t \<le> lft s) \<and>
             (case y of (_, n, _) \<Rightarrow> lft t - n) < (case x of (_, n, _) \<Rightarrow> lft s' - n)
           | Inr z \<Rightarrow> lft t \<le> lft s) (\<lambda>_ _. True)"
      using I unfolding x
      by (intro runs_conseq [OF tag_uri_turn_runs]) (auto split: sum.splits)
  qed (use that in auto)
  then have "runs (pbind (peek 0) (\<lambda>c. pbind (ploop (tag_uri_turn name m) ([], 0, c)) f)) s (\<lambda>_ s'. lft s' \<le> lft s) (\<lambda>_ _. True)"
    if "\<And>x. shrinks (f x)" for f :: "ucs list list \<times> nat \<times> ucs \<Rightarrow> ucs list scan" and s
  proof (intro runs_pbind peek_runs)
    fix c r'
    assume g: "grows (rd s) r'" "0 < length (rest r')" "c = rest r' ! 0"
    have "runs (ploop (tag_uri_turn name m) ([], 0, c)) (s\<lparr>rd := r'\<rparr>) (\<lambda>_ t. lft t \<le> lft (s\<lparr>rd := r'\<rparr>)) (\<lambda>_ _. True)"
      using g by (intro loop) auto
    then show "runs (ploop (tag_uri_turn name m) ([], 0, c)) (s\<lparr>rd := r'\<rparr>)
        (\<lambda>x t. runs (f x) t (\<lambda>_ s'. lft s' \<le> lft s) (\<lambda>_ _. True)) (\<lambda>_ _. True)"
    proof (rule runs_conseq)
      fix x t assume "lft t \<le> lft (s\<lparr>rd := r'\<rparr>)"
      moreover have "runs (f x) t (\<lambda>_ s'. lft s' \<le> lft t) (\<lambda>_ _. True)" using that by (simp add: shrinks_def)
      ultimately show "runs (f x) t (\<lambda>_ s'. lft s' \<le> lft s) (\<lambda>_ _. True)"
        using g by (elim runs_conseq) (auto simp: lft_def dest: grows_left)
    qed simp
  qed
  note uri = this
  show ?thesis
    unfolding scan_tag_uri_def by (subst shrinks_def, intro allI uri ends)
qed

lemma shrinks_find_bang [ends]: "shrinks (ploop find_bang (k, c))"
proof -
  have "runs (ploop find_bang x) s (\<lambda>_ s'. lft s' \<le> lft s) (\<lambda>_ _. True)" for x s
  proof (rule runs_ploop [where I = "\<lambda>x s'. lft s' \<le> lft s" and m = "\<lambda>x s'. lft s' - fst x"])
    fix x :: "nat \<times> ucs" and s'
    assume I: "lft s' \<le> lft s"
    obtain n c where x: "x = (n, c)" by (cases x)
    have "left r' - Suc n < left (rd s') - n \<and> left r' \<le> left (rd s')" if "grows (rd s') r'" "n + 1 < length (rest r')" for r'
      using that rest_left [of r'] grows_left [of "rd s'" r'] by auto
    with I show "runs (find_bang x) s' (\<lambda>r t. case r of Inl y \<Rightarrow> lft t \<le> lft s \<and> lft t - fst y < lft s' - fst x | Inr z \<Rightarrow> lft t \<le> lft s) (\<lambda>_ _. True)"
      unfolding x find_bang_def prod.case
      by (intro runs_if runs_leave runs_pbind peek_runs runs_again) (auto simp: lft_def dest: grows_left)
  qed simp
  then show ?thesis by (simp add: shrinks_def)
qed

lemma eats_tag: "eats scan_tag"
proof -
  have end_ok: "shrinks (pbind (peek 0) (\<lambda>c. if \<not> is_spacez c then scan_fail ''while scanning a tag'' m (Found ''expected ' ', but found %r'' c)
       else pbind get_mark (\<lambda>e. pret (utoken_at (TagToken h suf) m e))))" for m h suf
    by (intro ends)
  have key: "eats (if is_chr CHR ''<'' c then
              pbind (forward 2) (\<lambda>_.
              pbind (scan_tag_uri ''tag'' m) (\<lambda>suf.
              pbind (peek 0) (\<lambda>c.
                if \<not> is_chr CHR ''>'' c then scan_fail ''while parsing a tag'' m (Found ''expected '>', but found %r'' c)
                else pbind (forward 1) (\<lambda>_. pret (None, suf)))))
            else if is_blankz c then pbind (forward 1) (\<lambda>_. pret (None, uc ''!''))
            else
              pbind (ploop find_bang (1, c)) (\<lambda>use_handle.
              pbind (if use_handle then scan_tag_handle ''tag'' m
                     else pbind (forward 1) (\<lambda>_. pret (uc ''!''))) (\<lambda>h.
              pbind (scan_tag_uri ''tag'' m) (\<lambda>suf. pret (Some h, suf)))))" for m c
    by (auto intro!: ends eats_pbind eats_forward eats_tag_handle eats_after [OF shrinks_find_bang])
  show ?thesis
    unfolding scan_tag_def
    by (rule eats_after [OF shrinks_mark], rule eats_after [OF shrinks_peek], rule eats_pbind, rule key, intro ends end_ok)
qed

section \<open>Directives, anchors and aliases\<close>

lemma shrinks_directive_name [ends]: "shrinks (scan_directive_name m)"
  unfolding scan_directive_name_def by (intro ends)

lemma shrinks_directive_number [ends]: "shrinks (scan_yaml_directive_number m)"
  unfolding scan_yaml_directive_number_def by (intro ends)

lemma shrinks_yaml_directive [ends]: "shrinks (scan_yaml_directive_value m)"
  unfolding scan_yaml_directive_value_def by (intro ends)

lemma shrinks_tag_handle [ends]: "shrinks (scan_tag_handle name m)"
  by (rule eats_shrinks [OF eats_tag_handle])

lemma shrinks_tag_directive [ends]: "shrinks (scan_tag_directive_value m)"
  unfolding scan_tag_directive_value_def scan_tag_directive_handle_def scan_tag_directive_prefix_def by (intro ends)

lemma shrinks_ignored_line [ends]: "shrinks (scan_directive_ignored_line m)" "shrinks (scan_block_scalar_ignored_line m)"
  unfolding scan_directive_ignored_line_def scan_block_scalar_ignored_line_def by (intro ends)+

lemma eats_directive: "eats scan_directive"
  unfolding scan_directive_def
  by (intro eats_after [OF shrinks_mark] eats_pbind eats_forward ends) simp

lemma eats_anchor: "eats (scan_anchor mk)"
  unfolding scan_anchor_def
  by (rule eats_after [OF shrinks_mark], rule eats_after [OF shrinks_peek], simp only: Let_def,
      rule eats_pbind [OF eats_forward], simp, intro ends)

section \<open>Block scalars\<close>

lemma shrinks_indicators [ends]: "shrinks (scan_block_scalar_indicators m)"
  unfolding scan_block_scalar_indicators_def Let_def by (intro ends)

lemma turns_indentation: "turns (indentation_turn x)"
  unfolding indentation_turn_def
  by (cases x, simp only: prod.case, rule peek_turns)
     (auto intro!: turns_at_if turns_at_pbind line_break_eats_at eats_eats_at [OF eats_forward] ends turns_turns_at [OF turns_leave])

lemma shrinks_indentation [ends]: "shrinks scan_block_scalar_indentation"
  unfolding scan_block_scalar_indentation_def by (intro ends turns_indentation)

lemma shrinks_skip_indent [ends]: "shrinks (skip_indent n)"
  unfolding skip_indent_def by (intro pwhile_shrinks ends eats_forward) simp

lemma turns_breaks: "turns (breaks_turn n x)"
  unfolding breaks_turn_def
  by (cases x, simp only: prod.case, rule peek_turns)
     (auto intro!: turns_at_if turns_at_pbind line_break_eats_at ends turns_turns_at [OF turns_leave])

lemma shrinks_breaks [ends]: "shrinks (scan_block_scalar_breaks n)"
  unfolding scan_block_scalar_breaks_def by (intro ends turns_breaks)

lemma shrinks_at_indent [ends]: "shrinks (at_indent n)"
  unfolding at_indent_def by (intro ends)

text \<open>A turn of a block scalar reads at least the line break.\<close>

lemma at_indent_known:
  "runs (at_indent n) s (\<lambda>go s'. lft s' \<le> lft s \<and> (go \<longrightarrow> ahead s' \<noteq> [] \<and> hd (ahead s') \<noteq> 0)) (\<lambda>_ _. True)"
  unfolding at_indent_def
  by (intro runs_pbind runs_pgets runs_if runs_pret runs_conseq [OF peek_known]) auto

lemma count_at:
  assumes "ahead s \<noteq> []"
  shows "runs (count_chars p 0) s
    (\<lambda>(k, d) s'. lft s' \<le> lft s \<and> k < length (ahead s') \<and> d = ahead s' ! k \<and> \<not> p d \<and> hd (ahead s') = hd (ahead s)) (\<lambda>_ _. True)"
  by (intro count_chars_runs) (use assms in \<open>auto simp: lft_def grows_def\<close>)

lemma hd_is_nth: "0 < length xs \<Longrightarrow> xs ! 0 = hd xs"
  by (simp add: hd_conv_nth)

lemma block_line_eats_at:
  assumes "ahead s \<noteq> []" and "hd (ahead s) \<noteq> 0"
  shows "eats_at s block_line"
proof -
  have cnt: "runs (count_chars (\<lambda>c. \<not> is_breakz c) 0) s
      (\<lambda>x s'. lft s' \<le> lft s \<and> (case x of (k, _) \<Rightarrow> 0 < k \<or> (ahead s' \<noteq> [] \<and> is_break (hd (ahead s'))))) (\<lambda>_ _. True)"
    by (rule runs_conseq [OF count_at]) (use assms in \<open>auto simp: hd_is_nth is_breakz_def\<close>)
  have step: "eats_at s' (pbind (take_chars k) (\<lambda>v. pbind scan_line_break (\<lambda>line_break. pret (v, line_break))))"
    if k: "0 < k \<or> (ahead s' \<noteq> [] \<and> is_break (hd (ahead s')))" for k s'
  proof (cases "0 < k")
    case True
    then show ?thesis by (intro eats_at_pbind eats_eats_at [OF eats_take] ends)
  next
    case False
    with k have b: "ahead s' \<noteq> []" "is_break (hd (ahead s'))" by auto
    have "runs (take_chars k) s' (\<lambda>_ t. lft t \<le> lft s' \<and> (ahead t \<noteq> [] \<and> is_break (hd (ahead t)))) (\<lambda>_ _. True)"
      using False b take_chars_runs [of 0 s'] by (auto simp: hd_is_nth elim: runs_conseq)
    then show ?thesis by (rule eats_at_seq) (intro eats_at_pbind line_break_eats_at ends; simp)
  qed
  show ?thesis
    unfolding block_line_def by (rule eats_at_seq [OF cnt]) (clarsimp simp only: prod.case split_paired_all step)
qed

lemma turns_block_scalar: "turns (block_scalar_turn folded n x)"
proof -
  obtain chunks lb br e where x: "x = (chunks, lb, br, e)" by (cases x)
  have peeked: "runs (peek 0) s (\<lambda>c s'. lft s' \<le> lft s \<and> (ahead s' \<noteq> [] \<and> hd (ahead s') \<noteq> 0)) (\<lambda>_ _. True)"
    if "ahead s \<noteq> [] \<and> hd (ahead s) \<noteq> 0" for s
    using that by (intro peek_at) auto
  show ?thesis
    unfolding x block_scalar_turn_def prod.case turns_turns_at_iff Let_def
    apply (rule allI, rule turns_at_seq [OF at_indent_known], rule turns_at_if)
     apply (rule turns_turns_at [OF turns_leave])
    apply (rule turns_at_seq [OF peeked], simp)
    apply (rule turns_at_pbind [OF block_line_eats_at], simp, simp)
    apply (intro ends)
    done
qed

lemma shrinks_block_lines [ends]: "shrinks (block_scalar_lines folded n breaks e)"
  unfolding block_scalar_lines_def by (intro ends turns_block_scalar)

lemma eats_block_scalar: "eats (scan_block_scalar style)"
  unfolding scan_block_scalar_def
  by (rule eats_after [OF shrinks_mark], rule eats_pbind [OF eats_forward], simp, unfold Let_def, intro ends)

section \<open>Flow scalars\<close>

lemma shrinks_separator [ends]: "shrinks at_separator"
  unfolding at_separator_def by (intro ends)

lemma turns_flow_breaks: "turns (flow_breaks_turn m x)"
  unfolding flow_breaks_turn_def
  by (rule turns_after [OF shrinks_separator], rule ends_if(3), rule ends, rule turns_after [OF shrinks_skip], rule peek_turns)
     (auto intro!: turns_at_if turns_at_pbind line_break_eats_at ends turns_turns_at [OF turns_leave])

lemma shrinks_flow_breaks [ends]: "shrinks (scan_flow_scalar_breaks m)"
  unfolding scan_flow_scalar_breaks_def by (intro ends turns_flow_breaks)

text \<open>The spaces in a quoted scalar: some are read where one is in front.\<close>

lemma flow_spaces_eat_at:
  assumes "ahead s \<noteq> []" and "is_blankz (hd (ahead s))"
  shows "eats_at s (scan_flow_scalar_spaces m)"
proof -
  let ?f = "\<lambda>whitespaces c.
       if c = 0 then scan_fail ''while scanning a quoted scalar'' m (Says ''found unexpected end of stream'')
       else if is_break c then
         pbind scan_line_break (\<lambda>line_break.
         pbind (scan_flow_scalar_breaks m) (\<lambda>breaks.
         pret ((if line_break \<noteq> [10] then [line_break] else if breaks = [] then [[32]] else []) @ breaks)))
       else pret [whitespaces]"
  have shr: "shrinks (?f w c)" for w c by (intro ends)
  have cnt: "runs (count_chars is_blank 0) s
      (\<lambda>x s'. lft s' \<le> lft s \<and> (case x of (k, _) \<Rightarrow> 0 < k \<or> (ahead s' \<noteq> [] \<and> is_breakz (hd (ahead s'))))) (\<lambda>_ _. True)"
    by (rule runs_conseq [OF count_at])
       (use assms in \<open>auto simp: hd_is_nth is_breakz_def is_blankz_def is_spacez_def is_blank_def\<close>)
  have step: "eats_at s' (pbind (take_chars k) (\<lambda>w. pbind (peek 0) (?f w)))"
    if k: "0 < k \<or> (ahead s' \<noteq> [] \<and> is_breakz (hd (ahead s')))" for k s'
  proof (cases "0 < k")
    case True
    then show ?thesis by (intro eats_at_pbind eats_eats_at [OF eats_take] shrinks_pbind shr ends)
  next
    case False
    with k have b: "ahead s' \<noteq> []" "is_breakz (hd (ahead s'))" by auto
    have t: "runs (take_chars k) s' (\<lambda>_ t. lft t \<le> lft s' \<and> (ahead t \<noteq> [] \<and> is_breakz (hd (ahead t)))) (\<lambda>_ _. True)"
      using False b take_chars_runs [of 0 s'] by (auto simp: hd_is_nth elim: runs_conseq)
    have p: "runs (peek 0) t (\<lambda>c t'. lft t' \<le> lft t \<and> (c = hd (ahead t') \<and> ahead t' \<noteq> [] \<and> is_breakz (hd (ahead t')))) (\<lambda>_ _. True)"
      if "ahead t \<noteq> [] \<and> is_breakz (hd (ahead t))" for t
      using that by (intro peek_at) auto
    show ?thesis
      by (rule eats_at_seq [OF t], rule eats_at_seq [OF p], assumption)
         (auto simp: is_breakz_def intro!: eats_at_if eats_at_pbind line_break_eats_at eats_eats_at [OF scan_fail_ends(3)] ends)
  qed
  show ?thesis
    unfolding scan_flow_scalar_spaces_def by (rule eats_at_seq [OF cnt]) (clarsimp simp only: prod.case split_paired_all step)
qed

lemma shrinks_flow_spaces [ends]: "shrinks (scan_flow_scalar_spaces m)"
  unfolding scan_flow_scalar_spaces_def by (intro ends)

lemma eats_escape: "eats (scan_escape m)"
  unfolding scan_escape_def by (rule eats_pbind [OF eats_forward], simp, intro ends)

text \<open>The text between spaces: it stops at a space, at the end or at the closing quote.\<close>

definition stops :: "bool \<Rightarrow> scanner \<Rightarrow> bool" where
  "stops double s = (ahead s \<noteq> [] \<and> (is_blankz (hd (ahead s)) \<or> hd (ahead s) = (if double then 34 else 39)))"

lemma non_spaces_turn_runs:
  "runs (non_spaces_turn double m chunks) s
    (\<lambda>r s'. lft s' \<le> lft s \<and> (case r of Inl _ \<Rightarrow> lft s' < lft s | Inr _ \<Rightarrow> stops double s')) (\<lambda>_ _. True)"
proof -
  let ?word = "\<lambda>c. \<not> (c = 39 \<or> c = 34 \<or> c = 92 \<or> is_blankz c)"
  let ?Q = "\<lambda>s0 r s'. lft s' \<le> lft s0 \<and> (case r of Inl _ \<Rightarrow> lft s' < lft s0 | Inr _ \<Rightarrow> stops double s')"
  let ?rest = "\<lambda>chunks c.
     pbind (if \<not> double \<and> c = 39 then pbind (peek 1) (\<lambda>d. pret (d = 39)) else pret False) (\<lambda>doubled.
       if doubled then pbind (forward 2) (\<lambda>_. again (chunks @ [[39]]))
       else if (double \<and> c = 39) \<or> (\<not> double \<and> (c = 34 \<or> c = 92)) then pbind (forward 1) (\<lambda>_. again (chunks @ [[c]]))
       else if double \<and> c = 92 then pbind (scan_escape m) (\<lambda>t. again (chunks @ t))
       else leave chunks)"
  have last: "runs (if doubled then pbind (forward 2) (\<lambda>_. again (chunks @ [[39]]))
       else if (double \<and> c = 39) \<or> (\<not> double \<and> (c = 34 \<or> c = 92)) then pbind (forward 1) (\<lambda>_. again (chunks @ [[c]]))
       else if double \<and> c = 92 then pbind (scan_escape m) (\<lambda>t. again (chunks @ t))
       else leave chunks) s (?Q s) (\<lambda>_ _. True)"
    if c: "ahead s \<noteq> []" "hd (ahead s) = c" "\<not> ?word c" for doubled chunks c and s :: scanner
  proof -
    have e: "runs (pbind e (\<lambda>x. again (f x))) s (?Q s) (\<lambda>_ _. True)" if "eats e" for e :: "'z scan" and f
      using that unfolding eats_def by (intro runs_pbind runs_conseq [OF that [unfolded eats_def, rule_format]] runs_again) auto
    show ?thesis
      using c by (intro runs_if e eats_forward eats_escape runs_leave) (auto simp: stops_def)
  qed
  have rest: "runs (?rest chunks c) s (?Q s) (\<lambda>_ _. True)"
    if c: "ahead s \<noteq> []" "hd (ahead s) = c" "\<not> ?word c" for chunks c and s :: scanner
  proof (rule runs_pbind, rule runs_if)
    have "runs (peek 1) s (\<lambda>_ s'. ahead s' \<noteq> [] \<and> hd (ahead s') = c \<and> lft s' \<le> lft s) (\<lambda>_ _. True)"
      using c by (intro peek_runs) (auto simp: grows_def lft_def)
    then show "runs (pbind (peek 1) (\<lambda>d. pret (d = 39))) s (\<lambda>x s'. runs (if x then pbind (forward 2) (\<lambda>_. again (chunks @ [[39]]))
       else if (double \<and> c = 39) \<or> (\<not> double \<and> (c = 34 \<or> c = 92)) then pbind (forward 1) (\<lambda>_. again (chunks @ [[c]]))
       else if double \<and> c = 92 then pbind (scan_escape m) (\<lambda>t. again (chunks @ t))
       else leave chunks) s' (?Q s) (\<lambda>_ _. True)) (\<lambda>_ _. True)"
      by (rule runs_pbind_seq, intro runs_pret) (rule runs_conseq [OF last], use c in \<open>auto split: sum.splits\<close>)
  qed (intro runs_pret last c)
  have peeked: "runs (pbind (peek 0) (?rest chunks)) s (?Q s) (\<lambda>_ _. True)"
    if c: "ahead s \<noteq> []" "\<not> ?word (hd (ahead s))" for chunks and s :: scanner
  proof (rule runs_pbind, rule peek_at [OF c(1)])
    fix s'
    assume "lft s' \<le> lft s" "ahead s' \<noteq> []" "hd (ahead s') = hd (ahead s)"
    then show "runs (?rest chunks (hd (ahead s))) s' (?Q s) (\<lambda>_ _. True)"
      by (intro runs_conseq [OF rest]) (use c in \<open>auto split: sum.splits\<close>)
  qed
  have cnt: "runs (count_chars ?word 0) s
      (\<lambda>x s'. lft s' \<le> lft s \<and> fst x < length (ahead s') \<and> \<not> ?word (ahead s' ! fst x)) (\<lambda>_ _. True)"
    by (intro count_chars_runs) (auto simp: lft_def dest: grows_left)
  have taken: "runs (if k \<noteq> 0 then pbind (take_chars k) (\<lambda>v. pret (chunks @ [v])) else pret chunks) s1
      (\<lambda>_ s'. lft s' \<le> lft s1 \<and> ahead s' \<noteq> [] \<and> \<not> ?word (hd (ahead s'))) (\<lambda>_ _. True)"
    if "k < length (ahead s1) \<and> \<not> ?word (ahead s1 ! k)" for k s1
    using that by (intro runs_if runs_pbind runs_conseq [OF take_chars_runs] runs_pret) (auto simp: hd_is_nth)
  show ?thesis
    unfolding non_spaces_turn_def
  proof (rule runs_pbind_seq [OF cnt])
    fix x :: "nat \<times> ucs" and s1
    assume s1: "lft s1 \<le> lft s \<and> fst x < length (ahead s1) \<and> \<not> ?word (ahead s1 ! fst x)"
    obtain k d where x: "x = (k, d)" by (cases x)
    have k: "k < length (ahead s1) \<and> \<not> ?word (ahead s1 ! k)" using s1 x by simp
    show "runs (case x of (n, _) \<Rightarrow>
        pbind (if n \<noteq> 0 then pbind (take_chars n) (\<lambda>v. pret (chunks @ [v])) else pret chunks)
          (\<lambda>chunks. pbind (peek 0) (?rest chunks))) s1 (?Q s) (\<lambda>_ _. True)"
      unfolding x prod.case
      by (rule runs_pbind_seq [OF taken [OF k]], rule runs_conseq [OF peeked])
         (use s1 in \<open>auto split: sum.splits\<close>)
  qed
qed

lemma non_spaces_runs:
  "runs (scan_flow_scalar_non_spaces double m) s (\<lambda>_ s'. lft s' \<le> lft s \<and> stops double s') (\<lambda>_ _. True)"
  unfolding scan_flow_scalar_non_spaces_def
proof (rule runs_ploop [where I = "\<lambda>_ s'. lft s' \<le> lft s" and m = "\<lambda>_. lft"])
  fix x s' assume "lft s' \<le> lft s"
  then show "runs (non_spaces_turn double m x) s'
      (\<lambda>r t. case r of Inl y \<Rightarrow> lft t \<le> lft s \<and> lft t < lft s' | Inr z \<Rightarrow> lft t \<le> lft s \<and> stops double t) (\<lambda>_ _. True)"
    by (intro runs_conseq [OF non_spaces_turn_runs]) (auto split: sum.splits)
qed simp

lemma shrinks_non_spaces [ends]: "shrinks (scan_flow_scalar_non_spaces double m)"
  unfolding shrinks_def by (intro allI runs_conseq [OF non_spaces_runs]) auto

text \<open>A quoted scalar ends where it starts with its quote.\<close>

lemma flow_scalar_eats_at:
  assumes "ahead s \<noteq> []" and "hd (ahead s) = of_char style" and "style = quote \<or> style = dquote"
  shows "eats_at s (scan_flow_scalar style)"
proof -
  define double where "double = (style = dquote)"
  define q where "q = (if double then 34 else 39 :: ucs)"
  have q: "of_char style = q" using assms(3) by (auto simp: q_def double_def)
  have turn: "runs (flow_scalar_turn double m q x) s'
      (\<lambda>r t. case r of Inl y \<Rightarrow> stops double t \<and> lft t < lft s' | Inr z \<Rightarrow> lft t \<le> lft s') (\<lambda>_ _. True)"
    if st: "stops double s'" for m x s'
    unfolding flow_scalar_turn_def
  proof (rule runs_pbind, rule peek_at, use st in \<open>simp add: stops_def\<close>)
    fix t
    assume t: "lft t \<le> lft s'" "ahead t \<noteq> []" "hd (ahead t) = hd (ahead s')"
    show "runs (if hd (ahead s') = q then leave x else pbind (scan_flow_scalar_spaces m) (\<lambda>a.
        pbind (scan_flow_scalar_non_spaces double m) (\<lambda>b. again (x @ a @ b)))) t
      (\<lambda>r t. case r of Inl y \<Rightarrow> stops double t \<and> lft t < lft s' | Inr z \<Rightarrow> lft t \<le> lft s') (\<lambda>_ _. True)"
    proof (rule runs_if)
      assume "hd (ahead s') \<noteq> q"
      then have b: "is_blankz (hd (ahead t))" using st t by (auto simp: stops_def q_def)
      have sp: "runs (scan_flow_scalar_spaces m) t (\<lambda>_ t'. lft t' < lft t) (\<lambda>_ _. True)"
        using flow_spaces_eat_at [OF t(2) b] by (simp add: eats_at_def)
      show "runs (pbind (scan_flow_scalar_spaces m) (\<lambda>a. pbind (scan_flow_scalar_non_spaces double m) (\<lambda>b. again (x @ a @ b)))) t
        (\<lambda>r t. case r of Inl y \<Rightarrow> stops double t \<and> lft t < lft s' | Inr z \<Rightarrow> lft t \<le> lft s') (\<lambda>_ _. True)"
        by (rule runs_pbind_seq [OF sp], rule runs_pbind_seq [OF non_spaces_runs], rule runs_again) (use t in auto)
    qed (rule runs_leave, use t in simp)
  qed
  have loop: "runs (ploop (flow_scalar_turn double m q) x) s1 (\<lambda>_ t. lft t \<le> lft s1) (\<lambda>_ _. True)"
    if "stops double s1" for m x s1
  proof (rule runs_ploop [where I = "\<lambda>_ t. stops double t \<and> lft t \<le> lft s1" and m = "\<lambda>_. lft"])
    fix y t assume "stops double t \<and> lft t \<le> lft s1"
    then show "runs (flow_scalar_turn double m q y) t
        (\<lambda>r t'. case r of Inl y \<Rightarrow> (stops double t' \<and> lft t' \<le> lft s1) \<and> lft t' < lft t | Inr z \<Rightarrow> lft t' \<le> lft s1) (\<lambda>_ _. True)"
      by (intro runs_conseq [OF turn]) (auto split: sum.splits)
  qed (use that in simp)
  have body: "eats_at s (pbind (forward 1) (\<lambda>_. pbind (scan_flow_scalar_non_spaces double m) (\<lambda>chunks.
      pbind (ploop (flow_scalar_turn double m q) chunks) f)))" if "\<And>x. shrinks (f x)" for m and s :: scanner and f :: "ucs list list \<Rightarrow> utoken scan"
  proof (rule eats_at_pbind [OF eats_eats_at [OF eats_forward]], simp)
    show "shrinks (pbind (scan_flow_scalar_non_spaces double m) (\<lambda>chunks. pbind (ploop (flow_scalar_turn double m q) chunks) f))"
      unfolding shrinks_def
    proof (intro allI, rule runs_pbind_seq [OF non_spaces_runs], rule runs_pbind_seq [OF loop], blast)
      fix t c s1 d s2
      assume "lft s1 \<le> lft t \<and> stops double s1" "lft s2 \<le> lft s1"
      moreover have "runs (f d) s2 (\<lambda>_ s'. lft s' \<le> lft s2) (\<lambda>_ _. True)" using that by (simp add: shrinks_def)
      ultimately show "runs (f d) s2 (\<lambda>_ s'. lft s' \<le> lft t) (\<lambda>_ _. True)" by (elim runs_conseq) auto
    qed
  qed
  have p: "runs (peek 0) t (\<lambda>c t'. lft t' \<le> lft t \<and> c = q) (\<lambda>_ _. True)" if "t = s" for t
    using assms q that by (intro peek_at) auto
  show ?thesis
    unfolding scan_flow_scalar_def Let_def double_def [symmetric]
    by (rule eats_at_seq [OF mark_known], rule eats_at_seq [OF p], assumption) (hypsubst, intro body ends)
qed

section \<open>Plain scalars\<close>

lemma turns_plain_breaks: "turns (plain_breaks_turn x)"
  unfolding plain_breaks_turn_def
  by (rule peek_turns)
     (auto intro!: turns_at_if turns_at_pbind line_break_eats_at eats_eats_at [OF eats_forward] ends turns_turns_at [OF turns_leave])

lemma shrinks_plain_spaces [ends]: "shrinks scan_plain_spaces"
  unfolding scan_plain_spaces_def by (intro ends turns_plain_breaks)

definition plain_stops :: "bool \<Rightarrow> ucs list \<Rightarrow> bool" where
  "plain_stops flow t = (t \<noteq> [] \<and> (is_blankz (hd t) \<or> (\<not> flow \<and> is_chr CHR '':'' (hd t) \<and> 1 < length t \<and> is_blankz (t ! 1)) \<or>
     (flow \<and> among '',:?[]{}'' (hd t))))"

definition plain_starts :: "bool \<Rightarrow> ucs list \<Rightarrow> bool" where
  "plain_starts flow t = (t \<noteq> [] \<and>
     (\<not> (is_blankz (hd t) \<or> among ''-?:,[]{}#&*!|>%@`'' (hd t)) \<or>
      (1 < length t \<and> \<not> is_blankz (t ! 1) \<and> (is_chr CHR ''-'' (hd t) \<or> (\<not> flow \<and> among ''?:'' (hd t))))))"

lemma starts_not_stops: "plain_starts flow t \<Longrightarrow> \<not> plain_stops flow (t @ new) \<and> \<not> is_chr CHR ''#'' (hd t)"
  apply (cases t; cases "tl t")
  apply (simp_all add: plain_starts_def plain_stops_def among_def uc_def)
  apply (auto simp: is_blankz_def is_spacez_def is_breakz_def is_break_def)
  done

lemma plain_stop_runs:
  assumes "n < length (ahead s)" and "c = ahead s ! n"
  shows "runs (plain_stop flow n c) s (\<lambda>stop s'. (\<exists>r'. grows (rd s) r' \<and> s' = s\<lparr>rd := r'\<rparr>) \<and>
    (stop \<and> n = 0 \<longrightarrow> plain_stops flow (ahead s'))) (\<lambda>_ _. True)"
  unfolding plain_stop_def
  using assms
  by (intro runs_if runs_pret runs_pbind peek_runs)
     (auto simp: plain_stops_def hd_conv_nth nth_append grows_def intro: exI [of _ "rd s"])

lemma plain_run_runs:
  "runs (plain_run flow) s (\<lambda>(k, c) s'. (\<exists>r'. grows (rd s) r' \<and> s' = s\<lparr>rd := r'\<rparr>) \<and>
    (k = 0 \<longrightarrow> plain_stops flow (ahead s'))) (\<lambda>_ _. True)"
  unfolding plain_run_def
proof (rule runs_ploop [where I = "\<lambda>n s'. \<exists>r'. grows (rd s) r' \<and> s' = s\<lparr>rd := r'\<rparr>" and m = "\<lambda>n s'. lft s' - n"])
  fix n s'
  assume "\<exists>r'. grows (rd s) r' \<and> s' = s\<lparr>rd := r'\<rparr>"
  then obtain r1 where r1: "grows (rd s) r1" "s' = s\<lparr>rd := r1\<rparr>" by blast
  show "runs (pbind (peek n) (\<lambda>c. pbind (plain_stop flow n c) (\<lambda>stop. if stop then leave (n, c) else again (n + 1)))) s'
    (\<lambda>r t. case r of Inl y \<Rightarrow> (\<exists>r'. grows (rd s) r' \<and> t = s\<lparr>rd := r'\<rparr>) \<and> lft t - y < lft s' - n
      | Inr z \<Rightarrow> (case z of (k, c) \<Rightarrow> \<lambda>s'. (\<exists>r'. grows (rd s) r' \<and> s' = s\<lparr>rd := r'\<rparr>) \<and> (k = 0 \<longrightarrow> plain_stops flow (ahead s'))) t) (\<lambda>_ _. True)"
  proof (rule runs_pbind, rule peek_runs)
    fix c r2
    assume g: "grows (rd s') r2" "n < length (rest r2)" "c = rest r2 ! n"
    have at: "n < length (ahead (s'\<lparr>rd := r2\<rparr>))" "c = ahead (s'\<lparr>rd := r2\<rparr>) ! n" using g by auto
    have n: "n < left r2" using g(2) rest_left [of r2] by simp
    show "runs (pbind (plain_stop flow n c) (\<lambda>stop. if stop then leave (n, c) else again (n + 1))) (s'\<lparr>rd := r2\<rparr>)
      (\<lambda>r t. case r of Inl y \<Rightarrow> (\<exists>r'. grows (rd s) r' \<and> t = s\<lparr>rd := r'\<rparr>) \<and> lft t - y < lft s' - n
        | Inr z \<Rightarrow> (case z of (k, c) \<Rightarrow> \<lambda>s'. (\<exists>r'. grows (rd s) r' \<and> s' = s\<lparr>rd := r'\<rparr>) \<and> (k = 0 \<longrightarrow> plain_stops flow (ahead s'))) t) (\<lambda>_ _. True)"
    proof (rule runs_pbind_seq [OF plain_stop_runs [OF at]])
      fix stop t
      assume t: "(\<exists>r'. grows (rd (s'\<lparr>rd := r2\<rparr>)) r' \<and> t = s'\<lparr>rd := r2, rd := r'\<rparr>) \<and> (stop \<and> n = 0 \<longrightarrow> plain_stops flow (ahead t))"
      then obtain r3 where r3: "grows r2 r3" "t = s\<lparr>rd := r3\<rparr>" using r1 by auto
      have all: "grows (rd s) r3" using r1 g(1) r3 by (auto intro: rd_grows_trans)
      have "left r3 - Suc n < lft s' - n"
        using n g(1) r3 rest_left [of r2] grows_left [OF g(1)] grows_left [OF r3(1)] by (simp add: lft_def)
      with all r3 t show "runs (if stop then leave (n, c) else again (n + 1)) t
        (\<lambda>r t. case r of Inl y \<Rightarrow> (\<exists>r'. grows (rd s) r' \<and> t = s\<lparr>rd := r'\<rparr>) \<and> lft t - y < lft s' - n
          | Inr z \<Rightarrow> (case z of (k, c) \<Rightarrow> \<lambda>s'. (\<exists>r'. grows (rd s) r' \<and> s' = s\<lparr>rd := r'\<rparr>) \<and> (k = 0 \<longrightarrow> plain_stops flow (ahead s'))) t) (\<lambda>_ _. True)"
        by (intro runs_if runs_leave runs_again) (auto simp: lft_def)
    qed
  qed
qed (auto intro: exI [of _ "rd s"])

lemma shrinks_plain_run [ends]: "shrinks (plain_run flow)"
  unfolding shrinks_def by (intro allI runs_conseq [OF plain_run_runs]) (auto simp: lft_def dest: grows_left)

lemma turns_plain: "turns (plain_turn m n flow x)"
proof -
  obtain chunks spaces e where x: "x = (chunks, spaces, e)" by (cases x)
  show ?thesis
    unfolding x plain_turn_def prod.case Let_def
    apply (rule turns_after [OF shrinks_peek], rule ends_if(3), rule turns_leave)
    apply (rule turns_after [OF shrinks_plain_run], rule ends_prod(3))
    apply (rule turns_after, intro ends)
    apply (rule ends_if(3), rule turns_after [OF shrinks_forward], rule turns_after [OF shrinks_mark], rule turns_pthrow)
    apply (rule ends_if(3), rule turns_leave)
    apply (rule turns_after [OF shrinks_allow], rule turns_pbind [OF eats_take], simp)
    apply (intro ends)
    done
qed

lemma shrinks_plain [ends]: "shrinks scan_plain"
  unfolding scan_plain_def by (intro ends turns_plain)

lemma plain_turn_eats_at:
  assumes "plain_starts flow (ahead s)"
  shows "eats_at s (plain_turn m n flow x)"
proof -
  obtain chunks spaces e where x: "x = (chunks, spaces, e)" by (cases x)
  have peeked: "runs (peek 0) s (\<lambda>c s'. lft s' \<le> lft s \<and> (c = hd (ahead s) \<and> (\<exists>new. ahead s' = ahead s @ new))) (\<lambda>_ _. True)"
    using assms by (intro peek_runs) (auto simp: plain_starts_def lft_def grows_def nth_append hd_conv_nth)
  have run: "runs (plain_run flow) s' (\<lambda>x t. lft t \<le> lft s' \<and> fst x \<noteq> 0) (\<lambda>_ _. True)"
    if "\<exists>new. ahead s' = ahead s @ new" for s'
  proof (rule runs_conseq [OF plain_run_runs], clarsimp)
    fix r' and k c :: nat
    assume g: "grows (rd s') r'" "k = 0 \<longrightarrow> plain_stops flow (rest r')"
    from that obtain n1 where "ahead s' = ahead s @ n1" by blast
    moreover from g(1) obtain n2 where "rest r' = ahead s' @ n2" by (auto simp: grows_def)
    ultimately obtain new where "rest r' = ahead s @ new" by simp
    with starts_not_stops [OF assms, of new] g show "lft (s'\<lparr>rd := r'\<rparr>) \<le> lft s' \<and> 0 < k"
      by (auto simp: lft_def dest: grows_left)
  qed simp
  have no: "\<not> is_chr CHR ''#'' (hd (ahead s))" using starts_not_stops [OF assms] by blast
  show ?thesis
    unfolding x plain_turn_def prod.case Let_def
    apply (rule eats_at_seq [OF peeked], rule eats_at_if)
    using no apply simp
    apply (rule eats_at_seq [OF run], blast, rule eats_eats_at)
    apply (simp only: split_beta)
    apply (rule eats_after, intro ends)
    apply (rule ends_if(2), rule eats_after [OF shrinks_forward], rule eats_after [OF shrinks_mark], rule eats_pthrow)
    apply (rule ends_if(2), simp)
    apply (rule eats_after [OF shrinks_allow], rule eats_pbind [OF eats_take], simp)
    apply (intro ends)
    done
qed

lemma plain_eats_at:
  assumes "plain_starts (in_flow s) (ahead s)"
  shows "eats_at s scan_plain"
proof -
  have g: "runs (pgets (\<lambda>s. (indent s + 1, in_flow s))) t (\<lambda>x t'. lft t' \<le> lft t \<and> (snd x = in_flow s \<and> t' = s)) (\<lambda>_ _. True)" if "t = s" for t
    using that by (simp add: runs_pgets)
  show ?thesis
    unfolding scan_plain_def
    apply (rule eats_at_seq [OF mark_known], rule eats_at_seq [OF g], assumption)
    apply (clarsimp simp only: split_paired_all prod.case snd_conv)
    apply (rule eats_at_pbind [OF ploop_eats_at [OF turns_plain plain_turn_eats_at [OF assms]]])
    apply (intro ends)
    done
qed

end
