(* ===== verification/Yaml_Scanner_Total.thy ===== *)
theory Yaml_Scanner_Total
  imports Yaml_Scanner_Ends
begin

text \<open>
  The fetchers: each takes some text or ends the stream, so the queue of tokens is filled in
  finitely many steps and \<open>scan\<close> returns on every source.
\<close>

section \<open>Keys and indentation leave the reader alone\<close>

definition still :: "'a scan \<Rightarrow> bool" where
  "still m = (\<forall>s. runs m s (\<lambda>_ s'. rd s' = rd s \<and> flow_level s' = flow_level s) (\<lambda>_ _. True))"

named_theorems stills

lemma still_pret [stills]: "still (pret x)"
  by (simp add: still_def runs_pret)

lemma still_pthrow [stills]: "still (pthrow x)"
  by (simp add: still_def runs_pthrow)

lemma still_pgets [stills]: "still (pgets f)"
  by (simp add: still_def runs_pgets)

lemma still_pmodify: "(\<And>s. rd (f s) = rd s \<and> flow_level (f s) = flow_level s) \<Longrightarrow> still (pmodify f)"
  by (simp add: still_def runs_pmodify)

lemma still_pbind [stills]: "still m \<Longrightarrow> (\<And>x. still (f x)) \<Longrightarrow> still (pbind m f)"
  unfolding still_def
  by (intro allI runs_pbind_seq) (blast, fastforce elim: runs_conseq)

lemma still_if [stills]: "(b \<Longrightarrow> still m) \<Longrightarrow> (\<not> b \<Longrightarrow> still m') \<Longrightarrow> still (if b then m else m')"
  by simp

lemma still_option [stills]:
  "(p = None \<Longrightarrow> still m) \<Longrightarrow> (\<And>a. p = Some a \<Longrightarrow> still (f a)) \<Longrightarrow> still (case p of None \<Rightarrow> m | Some a \<Rightarrow> f a)"
  by (simp split: option.split)

lemma still_prod [stills]: "(\<And>a b. still (f a b)) \<Longrightarrow> still (case p of (a, b) \<Rightarrow> f a b)"
  by (simp split: prod.split)

lemma still_shrinks: "still m \<Longrightarrow> shrinks m"
  unfolding still_def shrinks_def lft_def by (fastforce elim: runs_conseq)

lemma still_mark [stills]: "still get_mark"
  unfolding get_mark_def by (intro stills)

lemma still_fail [stills]: "still (scan_fail c m p)"
  unfolding scan_fail_def by (intro stills)

lemma still_allow [stills]: "still (allow_key b)"
  unfolding allow_key_def by (intro still_pmodify) simp

lemma still_add [stills]: "still (add_token t)" "still (insert_token i t)" "still (drop_key l)"
  unfolding add_token_def insert_token_def drop_key_def by (intro still_pmodify; simp)+

lemma still_missing [stills]: "still (missing_value k)"
  unfolding missing_value_def by (intro stills)

lemma still_stale_loop [stills]: "still (stale_loop ks)"
  by (induction ks rule: stale_loop.induct) (auto intro!: stills)

lemma still_keys [stills]:
  "still stale_possible_simple_keys" "still remove_possible_simple_key" "still save_possible_simple_key"
proof -
  show "still stale_possible_simple_keys"
    unfolding stale_possible_simple_keys_def by (intro stills)
  show r: "still remove_possible_simple_key"
    unfolding remove_possible_simple_key_def by (intro stills)
  show "still save_possible_simple_key"
    unfolding save_possible_simple_key_def by (intro stills r still_pmodify) simp
qed

text \<open>Unwinding ends with the stack of indentations.\<close>

lemma unwind_runs: "runs (unwind_indent col) s (\<lambda>_ s'. rd s' = rd s \<and> flow_level s' = flow_level s) (\<lambda>_ _. True)"
  unfolding unwind_indent_def
  by (intro runs_pbind runs_pgets runs_if runs_pret
        runs_pwhile [where I = "\<lambda>s'. rd s' = rd s \<and> flow_level s' = flow_level s" and m = "\<lambda>s'. length (indents s')"])
     (auto simp: runs_def pgets_def pbind_def get_mark_def pop_indent_def add_token_def pmodify_def
        split: list.split)

lemma still_unwind [stills]: "still (unwind_indent col)"
  by (simp add: still_def unwind_runs)

lemma still_add_indent [stills]: "still (add_indent c)"
  unfolding add_indent_def by (intro stills still_pmodify) simp

lemma still_block_context [stills]: "still (block_context w k)"
  unfolding block_context_def not_allowed_def open_block_def by (intro stills)

lemma still_simple_key [stills]: "still (fetch_simple_key k)"
  unfolding fetch_simple_key_def by (intro stills)

lemmas still_ends [ends] = still_add [THEN still_shrinks] still_keys [THEN still_shrinks]
  still_unwind [THEN still_shrinks] still_block_context [THEN still_shrinks] still_simple_key [THEN still_shrinks]

section \<open>Fetchers read some text\<close>

lemma eats_indicator: "0 < n \<Longrightarrow> eats (add_indicator k n)"
  unfolding add_indicator_def
  by (rule eats_after [OF shrinks_mark], rule eats_pbind [OF eats_forward], assumption) (intro ends)

lemma eats_add: "eats m \<Longrightarrow> eats (pbind m add_token)"
  by (erule eats_pbind) (rule ends)

lemma shrinks_level [ends]: "shrinks (pmodify (\<lambda>s. s\<lparr>flow_level := f s\<rparr>))"
  by (intro shrinks_pmodify) simp

lemma eats_fetch_directive: "eats fetch_directive"
  unfolding fetch_directive_def by (rule eats_after, rule ends)+ (rule eats_add, rule eats_directive)

lemma eats_fetch_document: "eats (fetch_document_indicator k)"
  unfolding fetch_document_indicator_def by (rule eats_after, rule ends)+ (rule eats_indicator, simp)

lemma eats_fetch_flow_start: "eats (fetch_flow_collection_start k)"
  unfolding fetch_flow_collection_start_def by (rule eats_after, rule ends)+ (rule eats_indicator, simp)

lemma eats_fetch_flow_end: "eats (fetch_flow_collection_end k)"
  unfolding fetch_flow_collection_end_def by (rule eats_after, rule ends)+ (rule eats_indicator, simp)

lemma eats_fetch_entries: "eats fetch_flow_entry" "eats fetch_block_entry" "eats fetch_key"
  unfolding fetch_flow_entry_def fetch_block_entry_def fetch_key_def
  by ((rule eats_after, rule ends)+, rule eats_indicator, simp)+

lemma eats_fetch_value: "eats fetch_value"
  unfolding fetch_value_def
  by (rule eats_after, rule ends, rule eats_after, intro ends, rule eats_indicator, simp)

lemma eats_key_part: "eats m \<Longrightarrow> eats (fetch_key_part m)"
  unfolding fetch_key_part_def by (rule eats_after, rule ends)+ (erule eats_add)

lemma eats_fetch_names: "eats fetch_alias" "eats fetch_anchor" "eats fetch_tag"
  unfolding fetch_alias_def fetch_anchor_def fetch_tag_def
  by (rule eats_key_part eats_anchor eats_tag)+

lemma eats_fetch_block_scalar: "eats (fetch_block_scalar style)"
  unfolding fetch_block_scalar_def by (rule eats_after, rule ends)+ (rule eats_add, rule eats_block_scalar)

lemma still_same: "still m \<Longrightarrow> runs m s (\<lambda>_ s'. lft s' \<le> lft s \<and> (rd s' = rd s \<and> flow_level s' = flow_level s)) (\<lambda>_ _. True)"
  unfolding still_def lft_def by (rule runs_conseq, blast) auto

lemma key_part_eats_at:
  assumes "\<And>s'. rd s' = rd s \<Longrightarrow> flow_level s' = flow_level s \<Longrightarrow> eats_at s' m"
  shows "eats_at s (fetch_key_part m)"
  unfolding fetch_key_part_def
  apply (rule eats_at_seq [OF still_same [OF still_keys(3)]])
  apply (rule eats_at_seq [OF still_same [OF still_allow]])
  apply (rule eats_at_pbind [OF assms], simp, simp, rule ends)
  done

section \<open>The next token\<close>

text \<open>\<open>looks m\<close>: the action only reads ahead.\<close>

definition looked :: "scanner \<Rightarrow> scanner \<Rightarrow> bool" where
  "looked s s' = (grows (rd s) (rd s') \<and> s' = s\<lparr>rd := rd s'\<rparr>)"

definition looks :: "'a scan \<Rightarrow> bool" where
  "looks m = (\<forall>s. runs m s (\<lambda>_ s'. looked s s') (\<lambda>_ _. True))"

lemma looked_refl [simp]: "looked s s"
  by (simp add: looked_def)

lemma looked_rd [simp]: "looked s (s\<lparr>rd := r\<rparr>) = grows (rd s) r"
  by (simp add: looked_def)

lemma looked_trans: "looked s t \<Longrightarrow> looked t w \<Longrightarrow> looked s w"
  unfolding looked_def by (metis rd_grows_trans scanner.surjective scanner.update_convs(1))

lemma looks_basic: "looks (pret x)" "looks (pgets f)" "looks (peek k)" "looks (take_prefix k)"
  by (auto simp: looks_def intro!: runs_pret runs_pgets peek_runs take_prefix_runs)

lemma looks_pbind: "looks m \<Longrightarrow> (\<And>x. looks (f x)) \<Longrightarrow> looks (pbind m f)"
  unfolding looks_def
  by (intro allI runs_pbind_seq) (blast, fastforce elim: runs_conseq intro: looked_trans)

lemma looks_if: "looks m \<Longrightarrow> looks m' \<Longrightarrow> looks (if b then m else m')"
  by simp

lemma looks_checks: "looks check_directive" "looks (check_document i)" "looks check_block_entry" "looks check_key"
    "looks check_value" "looks check_plain" "looks m \<Longrightarrow> looks (when_char b m)"
  unfolding check_directive_def check_document_def check_block_entry_def check_key_def check_value_def check_plain_def when_char_def
  by (intro looks_pbind looks_if looks_basic; assumption?)+

text \<open>The next character stays what it is while the scanner looks ahead.\<close>

lemma look_eats_at:
  assumes "looks m" and "ahead s \<noteq> [] \<and> hd (ahead s) = c"
    and "\<And>x s'. ahead s' \<noteq> [] \<and> hd (ahead s') = c \<Longrightarrow> eats_at s' (f x)"
  shows "eats_at s (pbind m f)"
proof (rule eats_at_seq [where P = "\<lambda>_ s'. ahead s' \<noteq> [] \<and> hd (ahead s') = c"])
  show "runs m s (\<lambda>x s'. lft s' \<le> lft s \<and> (ahead s' \<noteq> [] \<and> hd (ahead s') = c)) (\<lambda>_ _. True)"
    using assms(1) unfolding looks_def
    by (intro runs_conseq [OF assms(1) [unfolded looks_def, rule_format]]) (use assms(2) in \<open>auto simp: looked_def grows_def lft_def\<close>)
qed (rule assms(3))

lemma check_plain_known:
  assumes "ahead s \<noteq> []"
  shows "runs check_plain s (\<lambda>b s'. lft s' \<le> lft s \<and> (b \<longrightarrow> plain_starts (in_flow s') (ahead s'))) (\<lambda>_ _. True)"
  unfolding check_plain_def
proof (rule runs_pbind, rule peek_at [OF assms])
  fix t
  assume t: "lft t \<le> lft s" "ahead t \<noteq> []" "hd (ahead t) = hd (ahead s)"
  show "runs (if \<not> (is_blankz (hd (ahead s)) \<or> among ''-?:,[]{}#&*!|>%@`'' (hd (ahead s)) \<or> hd (ahead s) = of_char quote \<or> hd (ahead s) = of_char dquote)
      then pret True else pbind (peek 1) (\<lambda>d. pbind (pgets in_flow) (\<lambda>flow.
        pret (\<not> is_blankz d \<and> (is_chr CHR ''-'' (hd (ahead s)) \<or> (\<not> flow \<and> among ''?:'' (hd (ahead s)))))))) t
    (\<lambda>b s'. lft s' \<le> lft s \<and> (b \<longrightarrow> plain_starts (in_flow s') (ahead s'))) (\<lambda>_ _. True)"
    using t by (intro runs_if runs_pret runs_pbind peek_runs runs_pgets)
      (auto simp: plain_starts_def lft_def grows_def)
qed

lemma plain_fetch_eats_at:
  assumes "ahead s \<noteq> []" and "\<And>s'. eats_at s' m"
  shows "eats_at s (pbind check_plain (\<lambda>b. if b then fetch_plain else m))"
  by (rule eats_at_seq [OF check_plain_known [OF assms(1)]], rule eats_at_if)
     (auto simp: fetch_plain_def in_flow_def intro!: key_part_eats_at plain_eats_at assms(2))

lemma fetch_by_char_eats_at:
  assumes s: "ahead s \<noteq> [] \<and> hd (ahead s) = c"
  shows "eats_at s (fetch_by_char c)"
proof -
  have flow: "eats_at s' (fetch_flow_scalar style)"
    if "ahead s' \<noteq> [] \<and> hd (ahead s') = c" "c = of_char style" "style = quote \<or> style = dquote" for s' style
    using that unfolding fetch_flow_scalar_def by (intro key_part_eats_at flow_scalar_eats_at) auto
  have fail: "eats_at s' (pbind get_mark (\<lambda>m. pthrow (f m)))" for s' and f :: "umark \<Rightarrow> scan_error"
    by (intro eats_eats_at eats_after [OF shrinks_mark] eats_pthrow)
  show ?thesis
    unfolding fetch_by_char_def
    apply (rule look_eats_at [OF looks_checks(7) [OF looks_checks(1)] s], rule eats_at_if, rule eats_eats_at [OF eats_fetch_directive])
    apply (rule look_eats_at [OF looks_checks(7) [OF looks_checks(2)]], assumption, rule eats_at_if, rule eats_eats_at [OF eats_fetch_document])
    apply (rule look_eats_at [OF looks_checks(7) [OF looks_checks(2)]], assumption, rule eats_at_if, rule eats_eats_at [OF eats_fetch_document])
    apply (rule eats_at_if, rule eats_eats_at [OF eats_fetch_flow_start])+
    apply (rule eats_at_if, rule eats_eats_at [OF eats_fetch_flow_end])+
    apply (rule eats_at_if, rule eats_eats_at [OF eats_fetch_entries(1)])
    apply (rule look_eats_at [OF looks_checks(7) [OF looks_checks(3)]], assumption, rule eats_at_if, rule eats_eats_at [OF eats_fetch_entries(2)])
    apply (rule look_eats_at [OF looks_checks(7) [OF looks_checks(4)]], assumption, rule eats_at_if, rule eats_eats_at [OF eats_fetch_entries(3)])
    apply (rule look_eats_at [OF looks_checks(7) [OF looks_checks(5)]], assumption, rule eats_at_if, rule eats_eats_at [OF eats_fetch_value])
    apply (rule eats_at_if, rule eats_eats_at [OF eats_fetch_names(1)])
    apply (rule eats_at_if, rule eats_eats_at [OF eats_fetch_names(2)])
    apply (rule eats_at_if, rule eats_eats_at [OF eats_fetch_names(3)])
    apply (rule look_eats_at [OF looks_basic(2)], assumption)
    apply (rule eats_at_if, rule eats_eats_at [OF eats_fetch_block_scalar])+
    apply (rule eats_at_if, erule flow, assumption, simp)+
    apply (rule plain_fetch_eats_at, blast, rule fail)
    done
qed

lemma stream_end_runs:
  "runs fetch_stream_end s (\<lambda>_ s'. lft s' \<le> lft s \<and> sc_done s') (\<lambda>_ _. True)"
  unfolding fetch_stream_end_def
  apply (rule runs_pbind_seq [OF still_same [OF still_unwind]])
  apply (rule runs_pbind_seq [OF still_same [OF still_keys(2)]])
  apply (auto simp: lft_def get_mark_def add_token_def intro!: runs_pbind runs_pmodify runs_pgets)
  done

lemma fetch_more_runs:
  "runs fetch_more_tokens s (\<lambda>_ s'. lft s' < lft s \<or> (lft s' \<le> lft s \<and> sc_done s')) (\<lambda>_ _. True)"
proof -
  have shr: "runs m s (\<lambda>_ s'. lft s' \<le> lft s) (\<lambda>_ _. True)" if "shrinks m" for m :: "unit scan" and s
    using that by (simp add: shrinks_def)
  have last: "runs (if c = 0 then fetch_stream_end else fetch_by_char c) s'
      (\<lambda>_ t. lft t < lft s' \<or> (lft t \<le> lft s' \<and> sc_done t)) (\<lambda>_ _. True)"
    if "ahead s' \<noteq> [] \<and> c = hd (ahead s')" for c s'
    using that fetch_by_char_eats_at [of s' c]
    by (auto simp: eats_at_def intro: runs_conseq [OF stream_end_runs] elim: runs_conseq)
  show ?thesis
    unfolding fetch_more_tokens_def
    apply (rule runs_pbind_seq [OF shr [OF shrinks_next_token]])
    apply (rule runs_pbind_seq [OF shr [OF still_shrinks [OF still_keys(1)]]])
    apply (rule runs_pbind, rule runs_pgets)
    apply (rule runs_pbind_seq [OF shr [OF still_shrinks [OF still_unwind]]])
    apply (rule runs_pbind_seq [OF peek_known])
    apply (rule runs_conseq [OF last])
    apply auto
    done
qed

section \<open>The queue and the whole scan\<close>

definition work :: "scanner \<Rightarrow> nat" where
  "work s = lft s + (if sc_done s then 0 else 1)"

definition keeps_queue :: "'a scan \<Rightarrow> bool" where
  "keeps_queue m = (\<forall>s. runs m s (\<lambda>_ s'. work s' = work s \<and> sc_tokens s' = sc_tokens s \<and> sc_done s' = sc_done s) (\<lambda>_ _. True))"

lemma keeps_queue_basic:
  "keeps_queue (pret x)" "keeps_queue (pgets f)" "keeps_queue (drop_key l)" "keeps_queue (scan_fail c m p)"
  by (auto simp: keeps_queue_def work_def lft_def drop_key_def scan_fail_def get_mark_def
      intro!: runs_pret runs_pgets runs_pmodify runs_pbind runs_pthrow)

lemma keeps_queue_pbind: "keeps_queue m \<Longrightarrow> (\<And>x. keeps_queue (f x)) \<Longrightarrow> keeps_queue (pbind m f)"
  unfolding keeps_queue_def
  by (intro allI runs_pbind_seq) (blast, fastforce elim: runs_conseq)

lemma keeps_queue_if: "keeps_queue m \<Longrightarrow> keeps_queue m' \<Longrightarrow> keeps_queue (if b then m else m')"
  by simp

lemma keeps_queue_stale: "keeps_queue stale_possible_simple_keys"
proof -
  have "keeps_queue (stale_loop ks)" for ks
    by (induction ks rule: stale_loop.induct)
       (auto simp: missing_value_def intro!: keeps_queue_basic keeps_queue_pbind)
  then show ?thesis
    unfolding stale_possible_simple_keys_def by (intro keeps_queue_pbind keeps_queue_basic)
qed

lemma need_more_runs:
  "runs need_more_tokens s (\<lambda>b s'. work s' = work s \<and> sc_tokens s' = sc_tokens s \<and> (b \<longrightarrow> \<not> sc_done s')) (\<lambda>_ _. True)"
  unfolding need_more_tokens_def
  by (rule runs_pbind, rule runs_pgets)
     (auto intro!: runs_pret runs_pgets runs_pbind_seq [OF keeps_queue_stale [unfolded keeps_queue_def, rule_format]])

text \<open>Filling the queue: nothing changes in it, or there is less work left.\<close>

lemma fill_runs:
  "runs fill_tokens s (\<lambda>_ s'. work s' \<le> work s \<and> (work s' = work s \<longrightarrow> sc_tokens s' = sc_tokens s)) (\<lambda>_ _. True)"
  unfolding fill_tokens_def
proof (rule runs_pwhile [where I = "\<lambda>s'. work s' \<le> work s \<and> (work s' = work s \<longrightarrow> sc_tokens s' = sc_tokens s)" and m = work])
  fix t
  assume t: "work t \<le> work s \<and> (work t = work s \<longrightarrow> sc_tokens t = sc_tokens s)"
  have fetch: "runs fetch_more_tokens t' (\<lambda>_ t''. (work t'' \<le> work s \<and> (work t'' = work s \<longrightarrow> sc_tokens t'' = sc_tokens s)) \<and> work t'' < work t) (\<lambda>_ _. True)"
    if "work t' = work t" "\<not> sc_done t'" for t'
    by (rule runs_conseq [OF fetch_more_runs]) (use that t in \<open>auto simp: work_def split: if_splits\<close>)
  show "runs need_more_tokens t (\<lambda>go s'. if go
      then runs fetch_more_tokens s' (\<lambda>_ s''. (work s'' \<le> work s \<and> (work s'' = work s \<longrightarrow> sc_tokens s'' = sc_tokens s)) \<and> work s'' < work t) (\<lambda>_ _. True)
      else work s' \<le> work s \<and> (work s' = work s \<longrightarrow> sc_tokens s' = sc_tokens s)) (\<lambda>_ _. True)"
    by (rule runs_conseq [OF need_more_runs]) (use t fetch in auto)
qed simp

lemma scan_all_returns: "runs scan_all s (\<lambda>_ _. True) (\<lambda>_ _. True)"
proof -
  define W where "W = inv_image (less_than <*lex*> less_than) (\<lambda>(x :: utoken list, s). (work s, length (sc_tokens s)))"
  have body: "runs (pbind (check_token (\<lambda>_. True)) (\<lambda>b. if \<not> b then leave ts else
       pbind get_token (\<lambda>t. case t of Some t \<Rightarrow> again (ts @ [t]) | None \<Rightarrow> again ts))) s
     (\<lambda>r s'. case r of Inl y \<Rightarrow> True \<and> ((y, s'), (ts, s)) \<in> W | Inr z \<Rightarrow> True) (\<lambda>_ _. True)" for ts s
  proof -
    have check: "runs (check_token (\<lambda>_. True)) s (\<lambda>b s'. work s' \<le> work s \<and> (work s' = work s \<longrightarrow> sc_tokens s' = sc_tokens s) \<and>
        (b \<longrightarrow> sc_tokens s' \<noteq> [])) (\<lambda>_ _. True)"
      unfolding check_token_def by (rule runs_pbind_seq [OF fill_runs]) (auto intro!: runs_pgets split: list.splits)
    have get: "runs get_token s' (\<lambda>_ t. work t < work s' \<or> (work t = work s' \<and> length (sc_tokens t) < length (sc_tokens s'))) (\<lambda>_ _. True)"
      if "sc_tokens s' \<noteq> []" for s'
      unfolding get_token_def using that
      by (intro runs_pbind_seq [OF fill_runs]) (auto simp: runs_def work_def lft_def split: list.splits if_splits dest!: sym [of "_ # _"])
    show ?thesis
      apply (rule runs_pbind_seq [OF check], rule runs_if, rule runs_leave, simp)
      apply (rule runs_pbind_seq [OF get], blast)
      apply (auto simp: W_def again_def runs_def pret_def split: option.splits)
      done
  qed
  show ?thesis
    unfolding scan_all_def
    by (rule runs_ploop_wf [where W = W and I = "\<lambda>_ _. True"]) (auto simp: W_def intro: body)
qed

lemma yaml_scan_ends: "\<exists>answer. yaml_scan src = Some answer"
proof (cases "new_reader src")
  case (Inr r)
  have "scan_all (new_scanner r) \<noteq> None" by (rule runs_returns [OF scan_all_returns])
  with Inr show ?thesis by (auto simp: yaml_scan_def)
qed (simp add: yaml_scan_def)

text \<open>
  C14. Scanning ends on every source: for a string, for bytes and for a file whose reads return
  any chunks, the generator \<open>scan\<close> comes to its end or raises, and is never stuck in one of
  the scanner's nested loops.
\<close>

theorem yaml_scan_terminates:
  "\<exists>answer. yaml_scan src = Some answer"
  by (rule yaml_scan_ends)

end
