(* ===== verification/Yaml_Scanner_Blocks.thy ===== *)
theory Yaml_Scanner_Blocks
  imports Yaml_Scanner_Total
begin

text \<open>
  The shape of the scanner's tokens: block collections are closed in the order of their
  indentation, every token of the stream's frame comes once, and the flow level counts the
  open brackets.  \<open>frames\<close> says of an action that it leaves the queue and the indentation
  alone, which is so for everything that reads text.
\<close>

definition booked :: "scanner \<Rightarrow> scanner \<Rightarrow> bool" where
  "booked s s' = (sc_tokens s' = sc_tokens s \<and> indent s' = indent s \<and> indents s' = indents s \<and>
     flow_level s' = flow_level s \<and> sc_done s' = sc_done s \<and> tokens_taken s' = tokens_taken s \<and>
     possible_simple_keys s' = possible_simple_keys s)"

lemma booked_refl [simp]: "booked s s"
  by (simp add: booked_def)

lemma booked_trans: "booked s t \<Longrightarrow> booked t w \<Longrightarrow> booked s w"
  by (simp add: booked_def)

definition frames :: "'a scan \<Rightarrow> bool" where
  "frames m = (\<forall>s. ensures m s (\<lambda>_ s'. booked s s'))"

named_theorems framed

lemma frames_basic [framed]: "frames (pret x)" "frames (pthrow e)" "frames (pgets f)" "frames (again x)" "frames (leave x)"
  by (auto simp: frames_def again_def leave_def intro!: ensures_pret ensures_pthrow ensures_pgets)

lemma frames_pmodify: "(\<And>s. booked s (f s)) \<Longrightarrow> frames (pmodify f)"
  by (simp add: frames_def ensures_pmodify)

lemma frames_pbind [framed]: "frames m \<Longrightarrow> (\<And>x. frames (f x)) \<Longrightarrow> frames (pbind m f)"
  unfolding frames_def
  by (intro allI ensures_seq) (blast, fastforce elim: ensures_conseq intro: booked_trans)

lemma frames_cases [framed]:
  "(b \<Longrightarrow> frames m) \<Longrightarrow> (\<not> b \<Longrightarrow> frames m') \<Longrightarrow> frames (if b then m else m')"
  "(\<And>a b. frames (f a b)) \<Longrightarrow> frames (case p of (a, b) \<Rightarrow> f a b)"
  "(p' = None \<Longrightarrow> frames n) \<Longrightarrow> (\<And>a. p' = Some a \<Longrightarrow> frames (g a)) \<Longrightarrow> frames (case p' of None \<Rightarrow> n | Some a \<Rightarrow> g a)"
  "(\<And>e. frames (h e)) \<Longrightarrow> (\<And>a. frames (k a)) \<Longrightarrow> frames (case q of Inl e \<Rightarrow> h e | Inr a \<Rightarrow> k a)"
  "(\<And>x. frames (l x)) \<Longrightarrow> frames (let x = a in l x)"
  by (simp_all split: prod.split option.split sum.split)

lemma frames_ploop [framed]: "(\<And>x. frames (body x)) \<Longrightarrow> frames (ploop body x)"
  unfolding frames_def
proof
  fix s
  assume b: "\<And>x. \<forall>s. ensures (body x) s (\<lambda>_ s'. booked s s')"
  show "ensures (ploop body x) s (\<lambda>_ s'. booked s s')"
  proof (rule ensures_ploop [where I = "\<lambda>_ s'. booked s s'"])
    fix y s' assume "booked s s'"
    then show "ensures (body y) s' (\<lambda>r t. case r of Inl y \<Rightarrow> booked s t | Inr z \<Rightarrow> booked s t)"
      by (intro ensures_conseq [OF b [rule_format]]) (auto intro: booked_trans split: sum.split)
  qed simp
qed

lemma frames_pwhile [framed]: "frames c \<Longrightarrow> frames b \<Longrightarrow> frames (pwhile c b)"
  unfolding pwhile_def by (intro framed)

lemma frames_reading: "frames (reading m)"
  by (auto simp: frames_def ensures_def reading_def booked_def split: prod.splits)

lemma frames_scan_ops [framed]:
  "frames (peek k)" "frames (take_prefix k)" "frames (forward k)" "frames get_mark" "frames (allow_key b)" "frames (scan_fail c m p)"
  unfolding peek_def take_prefix_def forward_def get_mark_def allow_key_def scan_fail_def
  by (intro frames_reading framed frames_pmodify; simp add: booked_def)+

section \<open>Reading text\<close>

lemma frames_chars [framed]: "frames (take_chars n)" "frames (skip p)" "frames (count_chars p k)" "frames scan_line_break"
    "frames skip_comment" "frames scan_to_next_token"
proof -
  show l: "frames scan_line_break" unfolding scan_line_break_def by (intro framed)
  show s: "frames (skip p)" for p unfolding skip_def by (intro framed)
  show c: "frames skip_comment" unfolding skip_comment_def by (intro framed s)
  show "frames (take_chars n)" "frames (count_chars p k)" unfolding take_chars_def count_chars_def by (intro framed)+
  show "frames scan_to_next_token" unfolding scan_to_next_token_def by (intro framed l s c)
qed

lemma frames_hex [framed]: "(\<And>c. frames (bad c)) \<Longrightarrow> frames (check_hex bad ks)"
  by (induction ks) (auto intro!: framed)

lemma frames_tag_parts [framed]: "frames (scan_tag_handle name m)" "frames (scan_tag_uri name m)" "frames (ploop find_bang x)"
proof -
  show "frames (scan_tag_handle name m)" unfolding scan_tag_handle_def tag_handle_length_def by (intro framed)
  have e: "frames (scan_uri_escapes name m)"
    unfolding scan_uri_escapes_def escape_turn_def one_escape_def by (intro framed)
  show "frames (scan_tag_uri name m)" unfolding scan_tag_uri_def tag_uri_turn_def by (intro framed e)
  show "frames (ploop find_bang x)" unfolding find_bang_def by (intro framed)
qed

lemma frames_directive_parts [framed]:
  "frames (scan_directive_name m)" "frames (scan_yaml_directive_value m)" "frames (scan_tag_directive_value m)"
  "frames (scan_directive_ignored_line m)" "frames (scan_block_scalar_ignored_line m)"
  unfolding scan_directive_name_def scan_yaml_directive_value_def scan_yaml_directive_number_def scan_tag_directive_value_def
    scan_tag_directive_handle_def scan_tag_directive_prefix_def scan_directive_ignored_line_def scan_block_scalar_ignored_line_def
  by (intro framed)+

lemma frames_block_parts [framed]:
  "frames (scan_block_scalar_indicators m)" "frames scan_block_scalar_indentation" "frames (scan_block_scalar_breaks n)"
  "frames (block_scalar_lines folded n breaks e)"
proof -
  show "frames (scan_block_scalar_indicators m)" unfolding scan_block_scalar_indicators_def Let_def by (intro framed)
  show "frames scan_block_scalar_indentation" unfolding scan_block_scalar_indentation_def indentation_turn_def by (intro framed)
  have i: "frames (at_indent k)" for k unfolding at_indent_def by (intro framed)
  show b: "frames (scan_block_scalar_breaks n)" for n
    unfolding scan_block_scalar_breaks_def breaks_turn_def skip_indent_def by (intro framed)
  show "frames (block_scalar_lines folded n breaks e)"
    unfolding block_scalar_lines_def block_scalar_turn_def block_line_def by (intro framed i b)
qed

lemma frames_flow_parts [framed]:
  "frames at_separator" "frames (scan_flow_scalar_spaces m)" "frames (scan_flow_scalar_non_spaces double m)"
proof -
  show a: "frames at_separator" unfolding at_separator_def by (intro framed)
  have b: "frames (scan_flow_scalar_breaks m)" for m unfolding scan_flow_scalar_breaks_def flow_breaks_turn_def by (intro framed a)
  show "frames (scan_flow_scalar_spaces m)" unfolding scan_flow_scalar_spaces_def by (intro framed b)
  show "frames (scan_flow_scalar_non_spaces double m)"
    unfolding scan_flow_scalar_non_spaces_def non_spaces_turn_def scan_escape_def by (intro framed b)
qed

lemma frames_plain_parts [framed]: "frames (plain_turn m n flow x)"
  unfolding plain_turn_def plain_run_def plain_stop_def scan_plain_spaces_def plain_breaks_turn_def by (intro framed)

section \<open>Kinds of tokens\<close>

definition opens_block :: "utoken \<Rightarrow> bool" where
  "opens_block t = (utk t = BlockSequenceStartToken \<or> utk t = BlockMappingStartToken)"

definition closes_block :: "utoken \<Rightarrow> bool" where
  "closes_block t = (utk t = BlockEndToken)"

definition opens_flow :: "utoken \<Rightarrow> bool" where
  "opens_flow t = (utk t = FlowSequenceStartToken \<or> utk t = FlowMappingStartToken)"

definition closes_flow :: "utoken \<Rightarrow> bool" where
  "closes_flow t = (utk t = FlowSequenceEndToken \<or> utk t = FlowMappingEndToken)"

fun frame_kind :: "ucs token_of \<Rightarrow> bool" where
  "frame_kind (StreamStartToken _) = True"
| "frame_kind StreamEndToken = True"
| "frame_kind _ = False"

definition count :: "(utoken \<Rightarrow> bool) \<Rightarrow> utoken list \<Rightarrow> nat" where
  "count p ts = length (filter p ts)"

text \<open>A token that is none of these.\<close>

definition ordinary :: "utoken \<Rightarrow> bool" where
  "ordinary t = (\<not> opens_block t \<and> \<not> closes_block t \<and> \<not> opens_flow t \<and> \<not> closes_flow t \<and> \<not> frame_kind (utk t))"

lemma ordinary_kinds [simp]:
  "ordinary (utoken_at (ScalarToken v p st) a b)" "ordinary (utoken_at (AliasToken v) a b)" "ordinary (utoken_at (AnchorToken v) a b)"
  "ordinary (utoken_at (TagToken h u) a b)" "ordinary (utoken_at (DirectiveToken d) a b)" "ordinary (utoken_at KeyToken a b)"
  "ordinary (utoken_at ValueToken a b)" "ordinary (utoken_at BlockEntryToken a b)" "ordinary (utoken_at FlowEntryToken a b)"
  "ordinary (utoken_at DocumentStartToken a b)" "ordinary (utoken_at DocumentEndToken a b)"
  by (simp_all add: ordinary_def opens_block_def closes_block_def opens_flow_def closes_flow_def utoken_at_def)

definition scans :: "utoken scan \<Rightarrow> bool" where
  "scans m = (\<forall>s. ensures m s (\<lambda>t s'. booked s s' \<and> ordinary t))"

lemma scans_pbind: "frames m \<Longrightarrow> (\<And>x. scans (f x)) \<Longrightarrow> scans (pbind m f)"
  unfolding frames_def scans_def
  by (intro allI ensures_seq) (blast, fastforce elim: ensures_conseq intro: booked_trans)

lemma scans_pret: "ordinary t \<Longrightarrow> scans (pret t)"
  by (simp add: scans_def ensures_pret)

lemma scans_fail: "scans (scan_fail c m p)"
  by (auto simp: scans_def scan_fail_def get_mark_def intro!: ensures_pbind ensures_pgets ensures_pthrow)

lemma scans_cases:
  "(b \<Longrightarrow> scans m) \<Longrightarrow> (\<not> b \<Longrightarrow> scans m') \<Longrightarrow> scans (if b then m else m')"
  "(\<And>a b. scans (f a b)) \<Longrightarrow> scans (case p of (a, b) \<Rightarrow> f a b)"
  "(\<And>x. scans (l x)) \<Longrightarrow> scans (let x = a in l x)"
  by (simp_all split: prod.split)

lemmas scans_intros = scans_cases scans_fail scans_pret scans_pbind ordinary_kinds

lemma scans_tokens:
  "scans scan_directive" "scans scan_tag" "scans (scan_anchor AliasToken)" "scans (scan_anchor AnchorToken)"
  "scans (scan_block_scalar style)" "scans (scan_flow_scalar style)" "scans scan_plain"
  unfolding scan_directive_def scan_tag_def scan_anchor_def scan_block_scalar_def scan_flow_scalar_def scan_plain_def
    flow_scalar_turn_def
  by (intro scans_intros framed)+

section \<open>The balance of a list of tokens\<close>

definition balance :: "utoken list \<Rightarrow> nat \<Rightarrow> bool" where
  "balance ts n = (count opens_block ts = count closes_block ts + n \<and>
     (\<forall>k. count closes_block (take k ts) \<le> count opens_block (take k ts)))"

lemma count_simps [simp]:
  "count p [] = 0" "count p (xs @ ys) = count p xs + count p ys" "count p (x # xs) = (if p x then 1 else 0) + count p xs"
  by (simp_all add: count_def)

lemma balance_append:
  assumes "balance ts n" and "closes_block t \<Longrightarrow> 0 < n"
  shows "balance (ts @ [t]) (n + (if opens_block t then 1 else 0) - (if closes_block t then 1 else 0))"
proof -
  have k: "count closes_block (take k (ts @ [t])) \<le> count opens_block (take k (ts @ [t]))" for k
    using assms by (cases "k \<le> length ts"; cases "k - length ts") (auto simp: balance_def)
  have "\<not> (opens_block t \<and> closes_block t)" by (auto simp: opens_block_def closes_block_def)
  with assms k show ?thesis by (auto simp: balance_def)
qed

text \<open>A token that closes nothing may be put anywhere.\<close>

lemma balance_insert:
  assumes "balance (xs @ ys) n" and "\<not> closes_block t"
  shows "balance (xs @ t # ys) (n + (if opens_block t then 1 else 0))"
proof -
  have all: "count closes_block (take k (xs @ ys)) \<le> count opens_block (take k (xs @ ys))" for k
    using assms(1) by (simp add: balance_def)
  have "count closes_block (take k (xs @ t # ys)) \<le> count opens_block (take k (xs @ t # ys))" for k
  proof (cases "k \<le> length xs")
    case True
    with all [of k] show ?thesis by simp
  next
    case False
    then obtain j where j: "k - length xs = Suc j" by (cases "k - length xs") auto
    have "k = length xs + Suc j" using j False by simp
    then show ?thesis using all [of "length xs + j"] assms(2) by simp
  qed
  with assms show ?thesis by (auto simp: balance_def)
qed

text \<open>The stack of indentations goes down to \<open>-1\<close>.\<close>

fun chain :: "int \<Rightarrow> int list \<Rightarrow> bool" where
  "chain i [] = (i = -1)"
| "chain i (j # js) = (j < i \<and> chain j js)"

lemma chain_bound: "chain i js \<Longrightarrow> -1 \<le> i \<and> (js \<noteq> [] \<longrightarrow> -1 < i)"
  by (induction i js rule: chain.induct) auto

section \<open>The invariant\<close>

definition flow_count :: "utoken list \<Rightarrow> int" where
  "flow_count ts = int (count opens_flow ts) - int (count closes_flow ts)"

definition started :: "utoken list \<Rightarrow> bool" where
  "started ts = (\<exists>t mid. ts = t # mid \<and> (\<exists>enc. utk t = StreamStartToken enc) \<and> (\<forall>x \<in> set mid. \<not> frame_kind (utk x)))"

text \<open>\<open>ts\<close> are the tokens that were taken; \<open>d\<close> is the flow level that has no token yet.\<close>

definition book :: "utoken list \<Rightarrow> int \<Rightarrow> scanner \<Rightarrow> bool" where
  "book ts d s = (balance (ts @ sc_tokens s) (length (indents s)) \<and> chain (indent s) (indents s) \<and>
     flow_level s = flow_count (ts @ sc_tokens s) + d \<and> tokens_taken s = length ts \<and> started (ts @ sc_tokens s) \<and>
     (\<forall>k \<in> snd ` set (possible_simple_keys s). 0 < token_number k) \<and> \<not> sc_done s)"

definition closed_book :: "utoken list \<Rightarrow> scanner \<Rightarrow> bool" where
  "closed_book ts s = (\<exists>all t. ts @ sc_tokens s = all @ [t] \<and> started all \<and> utk t = StreamEndToken \<and>
     balance all (length (indents s)) \<and> flow_level s = flow_count all \<and> (flow_level s = 0 \<longrightarrow> indents s = []) \<and>
     tokens_taken s = length ts \<and> sc_done s)"

lemma book_booked: "book ts d s \<Longrightarrow> booked s s' \<Longrightarrow> book ts d s'"
  by (simp add: book_def booked_def)

definition moves :: "int \<Rightarrow> 'a scan \<Rightarrow> bool" where
  "moves e m = (\<forall>ts d s. book ts d s \<longrightarrow> ensures m s (\<lambda>_ s'. book ts (d + e) s'))"

lemma frames_moves: "frames m \<Longrightarrow> moves 0 m"
  unfolding frames_def moves_def
  by (intro allI impI, rule ensures_conseq, blast) (simp add: book_booked)

lemma moves_pbind: "moves a m \<Longrightarrow> (\<And>x. moves b (f x)) \<Longrightarrow> c = a + b \<Longrightarrow> moves c (pbind m f)"
  unfolding moves_def
  by (intro allI impI ensures_seq, blast) (metis add.assoc)

lemma moves_then: "moves 0 m \<Longrightarrow> (\<And>x. moves b (f x)) \<Longrightarrow> moves b (pbind m f)"
  by (rule moves_pbind [where a = 0]) simp_all

lemma moves_cases:
  "(b \<Longrightarrow> moves e m) \<Longrightarrow> (\<not> b \<Longrightarrow> moves e m') \<Longrightarrow> moves e (if b then m else m')"
  "(p' = None \<Longrightarrow> moves e n) \<Longrightarrow> (\<And>a. p' = Some a \<Longrightarrow> moves e (g a)) \<Longrightarrow> moves e (case p' of None \<Rightarrow> n | Some a \<Rightarrow> g a)"
  by (simp_all split: option.split)

lemma moves_pthrow: "moves e (pthrow x)" "moves e (pbind get_mark (\<lambda>m. pthrow (f m)))"
  by (auto simp: moves_def get_mark_def intro!: ensures_pthrow ensures_pbind ensures_pgets)

lemma started_append: "started ts \<Longrightarrow> \<not> frame_kind (utk t) \<Longrightarrow> started (ts @ [t])"
  by (auto simp: started_def)

lemma flow_count_append: "flow_count (ts @ [t]) = flow_count ts + (if opens_flow t then 1 else 0) - (if closes_flow t then 1 else 0)"
  by (simp add: flow_count_def)

text \<open>Adding a token that opens and closes no block.\<close>

lemma moves_add:
  assumes "\<not> opens_block t" and "\<not> closes_block t" and "\<not> frame_kind (utk t)"
  shows "moves ((if closes_flow t then 1 else 0) - (if opens_flow t then 1 else 0)) (add_token t)"
  unfolding moves_def add_token_def
proof (intro allI impI ensures_pmodify)
  fix ts d s
  assume b: "book ts d s"
  have "balance ((ts @ sc_tokens s) @ [t]) (length (indents s))"
    using b balance_append [of "ts @ sc_tokens s" "length (indents s)" t] assms by (simp add: book_def)
  moreover have "started ((ts @ sc_tokens s) @ [t])"
    by (intro started_append) (use b assms(3) in \<open>auto simp: book_def\<close>)
  ultimately show "book ts (d + ((if closes_flow t then 1 else 0) - (if opens_flow t then 1 else 0))) (s\<lparr>sc_tokens := sc_tokens s @ [t]\<rparr>)"
    using b by (simp add: book_def flow_count_def)
qed

lemma moves_add_ordinary: "ordinary t \<Longrightarrow> moves 0 (add_token t)"
  using moves_add [of t] by (simp add: ordinary_def)

lemma scans_add: "scans m \<Longrightarrow> moves 0 (pbind m add_token)"
  unfolding moves_def scans_def
proof (intro allI impI ensures_pbind)
  fix ts d s
  assume m: "\<forall>s. ensures m s (\<lambda>t s'. booked s s' \<and> ordinary t)" and b: "book ts d s"
  show "ensures m s (\<lambda>x s'. ensures (add_token x) s' (\<lambda>_ s'. book ts (d + 0) s'))"
    using m [rule_format, of s]
  proof (rule ensures_conseq)
    fix t s'
    assume "booked s s' \<and> ordinary t"
    then show "ensures (add_token t) s' (\<lambda>_ s'. book ts (d + 0) s')"
      using moves_add_ordinary [of t] b book_booked [of ts d s s'] by (simp add: moves_def)
  qed
qed

lemma moves_indicator: "(\<And>a b. moves e (add_token (utoken_at k a b))) \<Longrightarrow> moves e (add_indicator k n)"
  unfolding add_indicator_def by (intro moves_then frames_moves framed)

lemma moves_flow_indicators:
  "moves (-1) (add_indicator FlowSequenceStartToken n)" "moves (-1) (add_indicator FlowMappingStartToken n)"
  "moves 1 (add_indicator FlowSequenceEndToken n)" "moves 1 (add_indicator FlowMappingEndToken n)"
proof -
  note kinds = opens_block_def closes_block_def opens_flow_def closes_flow_def utoken_at_def
  have "moves (-1) (add_token (utoken_at FlowSequenceStartToken a b))" "moves (-1) (add_token (utoken_at FlowMappingStartToken a b))"
    "moves 1 (add_token (utoken_at FlowSequenceEndToken a b))" "moves 1 (add_token (utoken_at FlowMappingEndToken a b))" for a b
    using moves_add [of "utoken_at FlowSequenceStartToken a b"] moves_add [of "utoken_at FlowMappingStartToken a b"]
      moves_add [of "utoken_at FlowSequenceEndToken a b"] moves_add [of "utoken_at FlowMappingEndToken a b"]
    by (simp_all add: kinds)
  then show "moves (-1) (add_indicator FlowSequenceStartToken n)" "moves (-1) (add_indicator FlowMappingStartToken n)"
    "moves 1 (add_indicator FlowSequenceEndToken n)" "moves 1 (add_indicator FlowMappingEndToken n)"
    by (intro moves_indicator; simp)+
qed

lemma moves_indicators:
  "moves 0 (add_indicator BlockEntryToken n)" "moves 0 (add_indicator FlowEntryToken n)" "moves 0 (add_indicator KeyToken n)"
  "moves 0 (add_indicator ValueToken n)" "moves 0 (add_indicator DocumentStartToken n)" "moves 0 (add_indicator DocumentEndToken n)"
  by (intro moves_indicator moves_add_ordinary ordinary_kinds)+

section \<open>Simple keys\<close>

lemma moves_modify: "(\<And>ts d s. book ts d s \<Longrightarrow> book ts (d + e) (f s)) \<Longrightarrow> moves e (pmodify f)"
  by (auto simp: moves_def intro!: ensures_pmodify)

lemma moves_drop_key: "moves 0 (drop_key l)"
  unfolding drop_key_def by (intro moves_modify) (auto simp: book_def dict_del_def)

lemma moves_missing: "moves 0 (missing_value k)"
  unfolding missing_value_def by (intro frames_moves framed)

lemma moves_stale: "moves 0 stale_possible_simple_keys"
proof -
  have "moves 0 (stale_loop ks)" for ks
    by (induction ks rule: stale_loop.induct)
       (auto intro!: moves_then moves_cases moves_drop_key moves_missing intro: frames_moves framed)
  then show ?thesis
    unfolding stale_possible_simple_keys_def by (intro moves_then [OF frames_moves]) (rule framed)
qed

lemma moves_remove_key: "moves 0 remove_possible_simple_key"
  unfolding remove_possible_simple_key_def
  by (intro moves_then moves_cases moves_drop_key moves_missing) (auto intro: frames_moves framed moves_drop_key)

lemma started_length: "started ts \<Longrightarrow> 0 < length ts"
  by (auto simp: started_def)

lemma moves_save_key: "moves 0 save_possible_simple_key"
proof -
  have "moves 0 (pmodify (\<lambda>s. s\<lparr>possible_simple_keys := dict_set (possible_simple_keys s) (flow_level s)
       \<lparr>token_number = tokens_taken s + length (sc_tokens s), required = needed, sk_index = rd_index (rd s),
        sk_line = rd_line (rd s), sk_column = rd_column (rd s), sk_mark = rd_mark (rd s)\<rparr>\<rparr>))" for needed
  proof (intro moves_modify)
    fix ts d s
    assume b: "book ts d s"
    have "k = v \<or> k \<in> snd ` set xs" if "k \<in> snd ` set (dict_set xs l v)" for k v l and xs :: "(int \<times> simple_key) list"
      using that by (induction xs l v rule: dict_set.induct) (auto split: if_splits)
    moreover have "0 < tokens_taken s + length (sc_tokens s)"
      using b started_length [of "ts @ sc_tokens s"] by (auto simp: book_def)
    ultimately show "book ts (d + 0) (s\<lparr>possible_simple_keys := dict_set (possible_simple_keys s) (flow_level s)
       \<lparr>token_number = tokens_taken s + length (sc_tokens s), required = needed, sk_index = rd_index (rd s),
        sk_line = rd_line (rd s), sk_column = rd_column (rd s), sk_mark = rd_mark (rd s)\<rparr>\<rparr>)"
      using b by (fastforce simp: book_def)
  qed
  then show ?thesis
    unfolding save_possible_simple_key_def
    by (intro moves_then moves_cases moves_remove_key) (auto intro: frames_moves framed)
qed

lemma moves_allow: "moves 0 (allow_key b)"
  by (intro frames_moves framed)

section \<open>Indentation\<close>

lemma unwind_step:
  assumes "book ts d s" and "indents s = j # js" and "utk t = BlockEndToken"
  shows "book ts d (s\<lparr>indent := j, indents := js, sc_tokens := sc_tokens s @ [t]\<rparr>)"
proof -
  have t: "closes_block t" "\<not> opens_block t" "\<not> frame_kind (utk t)" "\<not> opens_flow t" "\<not> closes_flow t"
    using assms(3) by (simp_all add: closes_block_def opens_block_def opens_flow_def closes_flow_def)
  have "balance ((ts @ sc_tokens s) @ [t]) (length js)"
    using balance_append [of "ts @ sc_tokens s" "length (indents s)" t] assms(1,2) t by (simp add: book_def)
  moreover have "started ((ts @ sc_tokens s) @ [t])"
    by (intro started_append) (use assms(1) t in \<open>auto simp: book_def\<close>)
  ultimately show ?thesis
    using assms(1,2) t by (simp add: book_def flow_count_def)
qed

lemma unwind_ensures:
  assumes "book ts d s"
  shows "ensures (unwind_indent col) s (\<lambda>_ s'. book ts d s' \<and> flow_level s' = flow_level s \<and>
    (flow_level s = 0 \<longrightarrow> indent s' \<le> col))"
proof -
  have body: "ensures (pbind get_mark (\<lambda>m. pbind pop_indent (\<lambda>_. add_token (utoken_at BlockEndToken m m)))) s'
      (\<lambda>_ t. book ts d t \<and> flow_level t = flow_level s)"
    if b: "book ts d s' \<and> flow_level s' = flow_level s" for s'
  proof (cases "indents s'")
    case Nil
    then show ?thesis by (simp add: ensures_def pbind_def get_mark_def pgets_def pop_indent_def)
  next
    case (Cons j js)
    then show ?thesis
      using unwind_step [OF _ Cons] b
      by (auto simp: ensures_def pbind_def get_mark_def pgets_def pop_indent_def add_token_def pmodify_def utoken_at_def)
  qed
  have loop: "ensures (pwhile (pgets (\<lambda>s. col < indent s))
      (pbind get_mark (\<lambda>m. pbind pop_indent (\<lambda>_. add_token (utoken_at BlockEndToken m m))))) s
      (\<lambda>_ s'. book ts d s' \<and> flow_level s' = flow_level s \<and> indent s' \<le> col)"
    by (rule ensures_pwhile [where I = "\<lambda>s'. book ts d s' \<and> flow_level s' = flow_level s"])
       (auto intro!: ensures_pgets body simp: assms)
  show ?thesis
    unfolding unwind_indent_def
    by (intro ensures_pbind ensures_pgets ensures_if ensures_pret ensures_conseq [OF loop])
       (auto simp: assms in_flow_def)
qed

lemma moves_unwind: "moves 0 (unwind_indent col)"
  unfolding moves_def by (intro allI impI ensures_conseq [OF unwind_ensures]) auto

text \<open>A deeper column opens a block collection, at the end of the queue or in its middle.\<close>

lemma open_step:
  assumes "book ts d s" and "indent s < col" and "sc_tokens s = xs @ ys" and "xs \<noteq> [] \<or> ts \<noteq> []"
    and "utk t = BlockSequenceStartToken \<or> utk t = BlockMappingStartToken"
  shows "book ts d (s\<lparr>indents := indent s # indents s, indent := col, sc_tokens := xs @ t # ys\<rparr>)"
proof -
  have t: "\<not> closes_block t" "opens_block t" "\<not> frame_kind (utk t)" "\<not> opens_flow t" "\<not> closes_flow t"
    using assms(5) by (auto simp: closes_block_def opens_block_def opens_flow_def closes_flow_def)
  have "balance ((ts @ xs) @ t # ys) (length (indents s) + 1)"
    using balance_insert [of "ts @ xs" ys "length (indents s)" t] assms(1,3) t by (simp add: book_def)
  moreover have "started (ts @ xs @ t # ys)"
    using assms(1,3,4) t by (cases ts; cases xs) (auto simp: book_def started_def)
  ultimately show ?thesis
    using assms(1-3) t by (simp add: book_def flow_count_def)
qed

lemma neutral_step:
  assumes "book ts d s" and "sc_tokens s = xs @ ys" and "xs \<noteq> [] \<or> ts \<noteq> []" and "ordinary t"
  shows "book ts d (s\<lparr>sc_tokens := xs @ t # ys\<rparr>)"
proof -
  have "balance ((ts @ xs) @ t # ys) (length (indents s))"
    using balance_insert [of "ts @ xs" ys "length (indents s)" t] assms by (simp add: book_def ordinary_def)
  moreover have "started (ts @ xs @ t # ys)"
    using assms by (cases ts; cases xs) (auto simp: book_def started_def ordinary_def)
  ultimately show ?thesis
    using assms by (simp add: book_def flow_count_def ordinary_def)
qed

lemma moves_open_block:
  assumes "k = BlockSequenceStartToken \<or> k = BlockMappingStartToken"
  shows "moves 0 (open_block k)"
proof -
  have "book ts d (s\<lparr>indents := indent s # indents s, indent := c, sc_tokens := sc_tokens s @ [utoken_at k m m]\<rparr>)"
    if "book ts d s" "indent s < c" for ts d s c m
    using open_step [OF that, of "sc_tokens s" "[]" "utoken_at k m m"] that(1) assms started_length
    by (auto simp: book_def utoken_at_def)
  then show ?thesis
    by (auto simp: moves_def ensures_def open_block_def pbind_def pgets_def add_indent_def pmodify_def pret_def
        get_mark_def add_token_def split: if_splits)
qed

lemma moves_block_context:
  "k = BlockSequenceStartToken \<or> k = BlockMappingStartToken \<Longrightarrow> moves 0 (block_context w k)"
  unfolding block_context_def not_allowed_def
  by (intro moves_then moves_cases moves_open_block moves_pthrow frames_moves framed)

lemma insert_splits:
  assumes "book ts d s" and "0 < token_number k"
  obtains xs ys where "sc_tokens s = xs @ ys" and "xs \<noteq> [] \<or> ts \<noteq> []"
    and "\<And>t. list_insert (key_place k s) t (sc_tokens s) = xs @ t # ys"
proof -
  define n where "n = nat (if key_place k s < 0 then key_place k s + int (length (sc_tokens s)) else key_place k s)"
  have "take n (sc_tokens s) \<noteq> [] \<or> ts \<noteq> []"
  proof (cases "ts = []")
    case True
    with assms have "key_place k s = int (token_number k)" "sc_tokens s \<noteq> []"
      using started_length [of "sc_tokens s"] by (auto simp: book_def key_place_def)
    with assms(2) show ?thesis by (simp add: n_def)
  qed simp
  then show ?thesis
    by (intro that [of "take n (sc_tokens s)" "drop n (sc_tokens s)"]) (simp_all add: list_insert_def n_def Let_def)
qed

lemma moves_insert_key:
  assumes "0 < token_number k"
  shows "moves 0 (pbind (pgets (key_place k)) (\<lambda>i. insert_token i (utoken_at KeyToken m m)))"
  unfolding moves_def insert_token_def
proof (intro allI impI ensures_pbind ensures_pgets ensures_pmodify)
  fix ts d s
  assume b: "book ts d s"
  obtain xs ys where "sc_tokens s = xs @ ys" "xs \<noteq> [] \<or> ts \<noteq> []"
    "\<And>t. list_insert (key_place k s) t (sc_tokens s) = xs @ t # ys" using insert_splits [OF b assms] by metis
  with neutral_step [OF b] show "book ts (d + 0) (s\<lparr>sc_tokens := list_insert (key_place k s) (utoken_at KeyToken m m) (sc_tokens s)\<rparr>)"
    by simp
qed

lemma moves_key_block:
  assumes "0 < token_number k"
  shows "moves 0 (pbind (add_indent c) (\<lambda>b. if b then pbind (pgets (key_place k))
    (\<lambda>i. insert_token i (utoken_at BlockMappingStartToken m m)) else pret ()))"
proof -
  have "book ts d (s\<lparr>indents := indent s # indents s, indent := c,
      sc_tokens := list_insert (key_place k s) (utoken_at BlockMappingStartToken m m) (sc_tokens s)\<rparr>)"
    if b: "book ts d s" "indent s < c" for ts d s
  proof -
    obtain xs ys where xy: "sc_tokens s = xs @ ys" "xs \<noteq> [] \<or> ts \<noteq> []"
      "\<And>t. list_insert (key_place k s) t (sc_tokens s) = xs @ t # ys" using insert_splits [OF b(1) assms] by metis
    show ?thesis
      using open_step [OF b xy(1,2), of "utoken_at BlockMappingStartToken m m"] xy(3) by (simp add: utoken_at_def)
  qed
  then show ?thesis
    by (auto simp: moves_def ensures_def pbind_def pgets_def add_indent_def pmodify_def pret_def insert_token_def
        key_place_def split: if_splits)
qed

lemma moves_simple_key:
  assumes "0 < token_number k"
  shows "moves 0 (fetch_simple_key k)"
proof -
  have tail: "moves 0 (pbind (pgets in_flow) (\<lambda>flow. pbind (if flow then pret () else
            pbind (add_indent (int (sk_column k))) (\<lambda>b.
              if b then pbind (pgets (key_place k)) (\<lambda>i.
                insert_token i (utoken_at BlockMappingStartToken (sk_mark k) (sk_mark k))) else pret ())) (\<lambda>_. allow_key False)))"
    by (rule moves_then, rule frames_moves, rule framed, rule moves_then, rule moves_cases, rule frames_moves, rule framed,
        rule moves_key_block [OF assms], rule moves_allow)
  have bind_assoc: "pbind m (\<lambda>i. pbind (f i) (\<lambda>_. g)) = pbind (pbind m f) (\<lambda>_. g)" for m :: "int scan" and f :: "int \<Rightarrow> unit scan" and g :: "unit scan"
    by (rule ext) (simp add: pbind_def split: option.split sum.split)
  show ?thesis
    unfolding fetch_simple_key_def bind_assoc
    apply (rule moves_then, rule moves_then, rule frames_moves, rule framed, rule moves_drop_key)
    apply (rule moves_then, rule moves_insert_key [OF assms], rule tail)
    done
qed

section \<open>Fetchers\<close>

lemma moves_fetch_directive: "moves 0 fetch_directive"
  unfolding fetch_directive_def
  by (rule moves_then, rule moves_unwind, rule moves_then, rule moves_remove_key, rule moves_then, rule moves_allow,
      rule scans_add, rule scans_tokens)

lemma moves_fetch_document: "k = DocumentStartToken \<or> k = DocumentEndToken \<Longrightarrow> moves 0 (fetch_document_indicator k)"
  unfolding fetch_document_indicator_def
  by (rule moves_then, rule moves_unwind, rule moves_then, rule moves_remove_key, rule moves_then, rule moves_allow)
     (auto intro: moves_indicators)

lemma moves_level: "moves e (pmodify (\<lambda>s. s\<lparr>flow_level := flow_level s + e\<rparr>))"
  by (intro moves_modify) (simp add: book_def)

lemma moves_flow_start:
  assumes "k = FlowSequenceStartToken \<or> k = FlowMappingStartToken"
  shows "moves 0 (fetch_flow_collection_start k)"
  unfolding fetch_flow_collection_start_def
  apply (rule moves_then, rule moves_save_key)
  apply (rule moves_pbind [where a = 1 and b = "-1"], rule moves_level)
   apply (rule moves_then, rule moves_allow)
  using assms apply (auto intro: moves_flow_indicators)
  done

lemma moves_flow_end:
  assumes "k = FlowSequenceEndToken \<or> k = FlowMappingEndToken"
  shows "moves 0 (fetch_flow_collection_end k)"
  unfolding fetch_flow_collection_end_def
  apply (rule moves_then, rule moves_remove_key)
  apply (rule moves_pbind [where a = "-1" and b = 1])
  using moves_level [of "-1"] apply simp
   apply (rule moves_then, rule moves_allow)
  using assms apply (auto intro: moves_flow_indicators)
  done

lemma moves_fetch_entries: "moves 0 fetch_flow_entry" "moves 0 fetch_block_entry" "moves 0 fetch_key"
proof -
  show "moves 0 fetch_flow_entry" unfolding fetch_flow_entry_def
    by (rule moves_then, rule moves_allow, rule moves_then, rule moves_remove_key, rule moves_indicators)
  show "moves 0 fetch_block_entry" unfolding fetch_block_entry_def
    by (rule moves_then, rule moves_block_context, simp, rule moves_then, rule moves_allow, rule moves_then,
        rule moves_remove_key, rule moves_indicators)
  show "moves 0 fetch_key" unfolding fetch_key_def
    by (rule moves_then, rule moves_block_context, simp, rule moves_then, rule frames_moves, rule framed, rule moves_then,
        rule moves_allow, rule moves_then, rule moves_remove_key, rule moves_indicators)
qed

lemma moves_fetch_value: "moves 0 fetch_value"
proof -
  let ?known = "\<lambda>k. case k of
         Some k \<Rightarrow> fetch_simple_key k
       | None \<Rightarrow>
           pbind (block_context ''mapping values are not allowed here'' BlockMappingStartToken) (\<lambda>_.
           pbind (pgets in_flow) (\<lambda>flow.
           pbind (allow_key (\<not> flow)) (\<lambda>_.
           remove_possible_simple_key)))"
  have none: "moves 0 (pbind (block_context ''mapping values are not allowed here'' BlockMappingStartToken) (\<lambda>_.
           pbind (pgets in_flow) (\<lambda>flow. pbind (allow_key (\<not> flow)) (\<lambda>_. remove_possible_simple_key))))"
    by (rule moves_then, rule moves_block_context, simp, rule moves_then, rule frames_moves, rule framed, rule moves_then,
        rule moves_allow, rule moves_remove_key)
  show ?thesis
    unfolding moves_def fetch_value_def
  proof (intro allI impI ensures_pbind ensures_pgets)
    fix ts d s
    assume b: "book ts d s"
    have pos: "0 < token_number k" if "map_of (possible_simple_keys s) (flow_level s) = Some k" for k
      using b map_of_SomeD [OF that] by (force simp: book_def)
    have "ensures (?known (map_of (possible_simple_keys s) (flow_level s))) s (\<lambda>_ s'. book ts (d + 0) s')"
      using b none moves_simple_key [OF pos] by (auto simp: moves_def split: option.split)
    then show "ensures (?known (map_of (possible_simple_keys s) (flow_level s))) s
        (\<lambda>x s'. ensures (add_indicator ValueToken 1) s' (\<lambda>_ s'. book ts (d + 0) s'))"
      using moves_indicators(4) [of 1] by (elim ensures_conseq) (auto simp: moves_def)
  qed
qed

lemma moves_key_part: "scans m \<Longrightarrow> moves 0 (fetch_key_part m)"
  unfolding fetch_key_part_def
  by (rule moves_then, rule moves_save_key, rule moves_then, rule moves_allow, rule scans_add)

lemma moves_fetch_parts: "moves 0 fetch_alias" "moves 0 fetch_anchor" "moves 0 fetch_tag" "moves 0 (fetch_flow_scalar style)" "moves 0 fetch_plain"
  unfolding fetch_alias_def fetch_anchor_def fetch_tag_def fetch_flow_scalar_def fetch_plain_def
  by (rule moves_key_part, rule scans_tokens)+

lemma moves_fetch_block_scalar: "moves 0 (fetch_block_scalar style)"
  unfolding fetch_block_scalar_def
  by (rule moves_then, rule moves_allow, rule moves_then, rule moves_remove_key, rule scans_add, rule scans_tokens)

lemma frames_checks [framed]: "frames check_directive" "frames (check_document i)" "frames check_block_entry" "frames check_key"
    "frames check_value" "frames check_plain" "frames m \<Longrightarrow> frames (when_char b m)"
  unfolding check_directive_def check_document_def check_block_entry_def check_key_def check_value_def check_plain_def when_char_def
  by (intro framed; assumption?)+

lemma moves_fetch_by_char: "moves 0 (fetch_by_char c)"
  unfolding fetch_by_char_def
  by (intro moves_then [OF frames_moves] framed moves_cases moves_fetch_directive moves_fetch_document moves_flow_start
      moves_flow_end moves_fetch_entries moves_fetch_value moves_fetch_parts moves_fetch_block_scalar moves_pthrow; simp)

section \<open>The whole scan\<close>

definition kept :: "utoken list \<Rightarrow> scanner \<Rightarrow> bool" where
  "kept ts s = (book ts 0 s \<or> closed_book ts s)"

lemma closed_book_kept_keys: "closed_book ts s \<Longrightarrow> closed_book ts (s\<lparr>possible_simple_keys := ks\<rparr>)"
  by (simp add: closed_book_def)

lemma stream_end_closes:
  assumes "book ts 0 s"
  shows "ensures fetch_stream_end s (\<lambda>_ s'. closed_book ts s')"
  unfolding fetch_stream_end_def
proof (rule ensures_seq [OF unwind_ensures [OF assms]])
  fix x s1
  assume s1: "book ts 0 s1 \<and> flow_level s1 = flow_level s \<and> (flow_level s = 0 \<longrightarrow> indent s1 \<le> -1)"
  then have e: "flow_level s1 = 0 \<longrightarrow> indents s1 = []" using chain_bound [of "indent s1" "indents s1"] by (auto simp: book_def)
  have rem: "ensures remove_possible_simple_key s1 (\<lambda>_ s2. book ts 0 s2 \<and> indents s2 = indents s1 \<and> flow_level s2 = flow_level s1)"
  proof -
    have "ensures remove_possible_simple_key s1 (\<lambda>_ s2. book ts 0 s2)"
      using moves_remove_key s1 by (auto simp: moves_def)
    moreover have "ensures remove_possible_simple_key s1 (\<lambda>_ s2. indents s2 = indents s1 \<and> flow_level s2 = flow_level s1)"
      by (auto simp: remove_possible_simple_key_def missing_value_def scan_fail_def get_mark_def drop_key_def
          intro!: ensures_pbind ensures_pgets ensures_if ensures_pret ensures_pmodify ensures_pthrow split: option.split)
    ultimately show ?thesis by (auto simp: ensures_def)
  qed
  show "ensures (pbind remove_possible_simple_key (\<lambda>_. pbind (pmodify (\<lambda>s. s\<lparr>allow_simple_key := False, possible_simple_keys := []\<rparr>)) (\<lambda>_.
     pbind get_mark (\<lambda>m. pbind (add_token (utoken_at StreamEndToken m m)) (\<lambda>_. pmodify (\<lambda>s. s\<lparr>sc_done := True\<rparr>)))))) s1
     (\<lambda>_ s'. closed_book ts s')"
    by (rule ensures_seq [OF rem])
       (use e in \<open>auto simp: get_mark_def add_token_def closed_book_def book_def utoken_at_def
          intro!: ensures_pbind ensures_pmodify ensures_pgets\<close>)
qed

lemma moves_ensures: "moves 0 m \<Longrightarrow> book ts 0 s \<Longrightarrow> ensures m s (\<lambda>_ s'. book ts 0 s')"
  by (fastforce simp: moves_def)

lemma fetch_more_kept:
  assumes "book ts 0 s"
  shows "ensures fetch_more_tokens s (\<lambda>_ s'. kept ts s')"
  unfolding fetch_more_tokens_def
  apply (rule ensures_seq [OF moves_ensures [OF frames_moves [OF frames_chars(6)] assms]])
  apply (rule ensures_seq [OF moves_ensures [OF moves_stale]], assumption)
  apply (rule ensures_pbind, rule ensures_pgets)
  apply (rule ensures_seq [OF moves_ensures [OF moves_unwind]], assumption)
  apply (rule ensures_seq [OF moves_ensures [OF frames_moves [OF frames_scan_ops(1)]]], assumption)
  apply (rule ensures_if)
   apply (erule ensures_conseq [OF stream_end_closes], simp add: kept_def)
  apply (erule ensures_conseq [OF moves_ensures [OF moves_fetch_by_char]], simp add: kept_def)
  done

lemma need_more_kept:
  assumes "kept ts s"
  shows "ensures need_more_tokens s (\<lambda>b s'. if b then book ts 0 s' else kept ts s' \<and> (sc_tokens s' = [] \<longrightarrow> sc_done s'))"
proof (cases "sc_done s")
  case True
  with assms show ?thesis by (simp add: need_more_tokens_def ensures_def pbind_def pgets_def pret_def)
next
  case False
  with assms have b: "book ts 0 s" by (simp add: kept_def closed_book_def)
  have tokens: "ensures stale_possible_simple_keys s (\<lambda>_ s'. sc_tokens s' = sc_tokens s)"
    using keeps_queue_stale [unfolded keeps_queue_def, rule_format, of s] by (auto simp: runs_def ensures_def)
  have "ensures stale_possible_simple_keys s (\<lambda>_ s'. book ts 0 s' \<and> sc_tokens s' = sc_tokens s)"
    using tokens moves_ensures [OF moves_stale b] by (simp add: ensures_def)
  with False b show ?thesis
    unfolding need_more_tokens_def
    by (intro ensures_pbind ensures_pgets)
       (auto simp: kept_def intro!: ensures_pret ensures_pbind ensures_pgets elim!: ensures_conseq)
qed

lemma fill_kept:
  assumes "kept ts s"
  shows "ensures fill_tokens s (\<lambda>_ s'. kept ts s' \<and> (sc_tokens s' = [] \<longrightarrow> sc_done s'))"
  unfolding fill_tokens_def
proof (rule ensures_pwhile [where I = "kept ts"])
  fix t assume "kept ts t"
  then show "ensures need_more_tokens t (\<lambda>go s'. if go then ensures fetch_more_tokens s' (\<lambda>_. kept ts)
      else kept ts s' \<and> (sc_tokens s' = [] \<longrightarrow> sc_done s'))"
    by (intro ensures_conseq [OF need_more_kept]) (auto intro: fetch_more_kept)
qed (rule assms)

lemma take_token_kept: "kept ts s \<Longrightarrow> sc_tokens s = t # q \<Longrightarrow>
    kept (ts @ [t]) (s\<lparr>tokens_taken := Suc (tokens_taken s), sc_tokens := q\<rparr>)"
  by (auto simp: kept_def book_def closed_book_def)

lemma scan_all_closed: "kept [] s \<Longrightarrow> ensures scan_all s (\<lambda>ts s'. closed_book ts s' \<and> sc_tokens s' = [])"
  unfolding scan_all_def
proof (rule ensures_ploop [where I = kept])
  fix ts s
  assume k: "kept ts s"
  have check: "ensures (check_token (\<lambda>_. True)) s (\<lambda>b s'. kept ts s' \<and> (\<not> b \<longrightarrow> sc_tokens s' = [] \<and> sc_done s'))"
    unfolding check_token_def
    by (rule ensures_seq [OF fill_kept [OF k]]) (auto intro!: ensures_pgets split: list.split)
  have get: "ensures get_token s' (\<lambda>t s''. case t of Some t \<Rightarrow> kept (ts @ [t]) s'' | None \<Rightarrow> kept ts s'')" if "kept ts s'" for s'
    unfolding get_token_def
    by (rule ensures_seq [OF fill_kept [OF that]]) (auto simp: ensures_def take_token_kept split: list.split)
  show "ensures (pbind (check_token (\<lambda>_. True)) (\<lambda>b. if \<not> b then leave ts else
       pbind get_token (\<lambda>t. case t of Some t \<Rightarrow> again (ts @ [t]) | None \<Rightarrow> again ts))) s
     (\<lambda>r s'. case r of Inl y \<Rightarrow> kept y s' | Inr z \<Rightarrow> closed_book z s' \<and> sc_tokens s' = [])"
    apply (rule ensures_seq [OF check], rule ensures_if)
     apply (simp add: leave_def ensures_def pret_def kept_def book_def)
     apply blast
    apply (rule ensures_seq [OF get], blast)
    apply (simp add: again_def ensures_def pret_def split: option.splits)
    done
qed

text \<open>The tokens of a whole stream.\<close>

definition well_blocked :: "utoken list \<Rightarrow> bool" where
  "well_blocked ts =
     ((\<exists>first mid final. ts = first # mid @ [final] \<and> (\<exists>enc. utk first = StreamStartToken enc) \<and>
        utk final = StreamEndToken \<and> (\<forall>t \<in> set mid. \<not> frame_kind (utk t))) \<and>
      (\<forall>k. count closes_block (take k ts) \<le> count opens_block (take k ts)) \<and>
      (count opens_flow ts = count closes_flow ts \<longrightarrow> count opens_block ts = count closes_block ts))"

lemma closed_well_blocked:
  assumes "closed_book ts s" and "sc_tokens s = []"
  shows "well_blocked ts"
proof -
  obtain all t where ts: "ts = all @ [t]" "started all" "utk t = StreamEndToken" "balance all (length (indents s))"
    "flow_level s = flow_count all" "flow_level s = 0 \<longrightarrow> indents s = []"
    using assms by (auto simp: closed_book_def)
  have t: "\<not> opens_block t" "\<not> closes_block t" "\<not> opens_flow t" "\<not> closes_flow t"
    using ts(3) by (simp_all add: opens_block_def closes_block_def opens_flow_def closes_flow_def)
  have "balance ts (length (indents s))" using balance_append [OF ts(4), of t] t ts(1) by simp
  moreover have "flow_count all = flow_count ts" using t ts(1) by (simp add: flow_count_def)
  ultimately show ?thesis
    using ts by (auto simp: well_blocked_def balance_def started_def flow_count_def)
qed

lemma new_scanner_kept: "kept [] (new_scanner r)"
proof -
  let ?t = "utoken_at (StreamStartToken (encoding r)) (rd_mark r) (rd_mark r)"
  have "count closes_block (take k [?t]) = 0" for k
    by (cases k) (simp_all add: closes_block_def utoken_at_def)
  then have "balance [?t] 0" by (simp add: balance_def opens_block_def closes_block_def utoken_at_def)
  then show ?thesis
    by (simp add: kept_def book_def new_scanner_def fetch_stream_start_def blank_scanner_def pbind_def get_mark_def
        pgets_def add_token_def pmodify_def started_def flow_count_def opens_flow_def closes_flow_def utoken_at_def)
qed

text \<open>
  C15. Every scan that returns its tokens frames them by one STREAM-START and one STREAM-END
  and nests the block collections: no BLOCK-END comes without an open collection before it,
  and when the flow brackets of the stream are matched in number, every block collection that
  was opened, also one whose start was put in front of tokens already queued when its first
  simple key was found, is closed by the end of the stream.
\<close>

theorem yaml_scan_blocks:
  "case yaml_scan src of Some (Inr ts) \<Rightarrow> well_blocked ts | Some (Inl e) \<Rightarrow> True | None \<Rightarrow> False"
proof (cases "new_reader src")
  case (Inr r)
  obtain a where a: "yaml_scan src = Some a" using yaml_scan_ends by blast
  show ?thesis
  proof (cases a)
    case (Inr ts)
    then obtain s' where "scan_all (new_scanner r) = Some (Inr ts, s')"
      using a \<open>new_reader src = Inr r\<close> by (auto simp: yaml_scan_def)
    with scan_all_closed [OF new_scanner_kept, of r] have "closed_book ts s' \<and> sc_tokens s' = []" by (simp add: ensures_def)
    then show ?thesis using closed_well_blocked a Inr by auto
  qed (simp add: a)
qed (simp add: yaml_scan_def)

end
