(* ===== verification/Yaml_Held.thy ===== *)
theory Yaml_Held
  imports Yaml_Scan Yaml_Reader_Props
begin

text \<open>
  The scanner on a text that is all in the buffer: what each operation reads of it and what
  is left behind, as rules for \<open>runs\<close>.
\<close>

section \<open>The text ahead\<close>

definition standing :: "ucs list \<Rightarrow> scanner \<Rightarrow> bool" where
  "standing t s = (raw_buffer (rd s) = None \<and> rest (rd s) = t)"

lemma peek_held: "standing t s \<Longrightarrow> k < length t \<Longrightarrow> Q (t ! k) s \<Longrightarrow> runs (peek k) s Q R"
  by (simp add: runs_def peek_def reading_def standing_def rd_peek_at)

lemma peek_first: "standing (c # t) s \<Longrightarrow> Q c s \<Longrightarrow> runs (peek 0) s Q R"
  by (rule peek_held) auto

lemma peek_second: "standing (b # c # t) s \<Longrightarrow> Q c s \<Longrightarrow> runs (peek 1) s Q R"
  by (rule peek_held) auto

lemma prefix_held: "standing t s \<Longrightarrow> Q (take n t) s \<Longrightarrow> runs (take_prefix n) s Q R"
  by (simp add: runs_def take_prefix_def reading_def rd_prefix_def sbind_def update_def standing_def rest_def)

lemma forward_one_held:
  assumes "raw_buffer r = None" and "1 < length (rest r)"
  shows "\<exists>r'. forward_one r = (Inr (), r') \<and> raw_buffer r' = None \<and> rest r' = tl (rest r)"
proof -
  obtain c d t where t: "rest r = c # d # t" using assms(2) by (cases "rest r" rule: remdups_adj.cases) auto
  have c: "buffer_at 0 r = Inr c" using t by (simp add: buffer_at_rest)
  have d: "buffer_at 0 (r\<lparr>pointer := pointer r + 1, rd_index := rd_index r + 1\<rparr>) = Inr d"
    using t by (simp add: buffer_at_rest rest_def drop_Suc tl_drop [symmetric])
  have "tl (rest r) = drop (Suc (pointer r)) (buffer r)" by (simp add: rest_def drop_Suc tl_drop)
  then show ?thesis using assms(1) c d
    by (auto simp: forward_one_def sbind_def rest_def)
qed

lemma forward_loop_held:
  "raw_buffer r = None \<Longrightarrow> n < length (rest r) \<Longrightarrow>
    \<exists>r'. forward_loop n r = (Inr (), r') \<and> raw_buffer r' = None \<and> rest r' = drop n (rest r)"
proof (induction n arbitrary: r)
  case (Suc n)
  obtain q where q: "forward_one r = (Inr (), q)" "raw_buffer q = None" "rest q = tl (rest r)"
    using forward_one_held [of r] Suc.prems by auto
  moreover have "n < length (rest q)" using q(3) Suc.prems(2) by (cases "rest r") auto
  ultimately obtain r' where "forward_loop n q = (Inr (), r')" "raw_buffer r' = None" "rest r' = drop n (rest q)"
    using Suc.IH [of q] by blast
  with q show ?case by (auto simp: sbind_def drop_Suc)
qed simp

lemma forward_held:
  assumes "standing t s" and "n < length t" and "\<And>s'. standing (drop n t) s' \<Longrightarrow> Q () s'"
  shows "runs (forward n) s Q R"
proof -
  obtain r' where r': "forward_loop n (rd s) = (Inr (), r')" "raw_buffer r' = None" "rest r' = drop n t"
    using forward_loop_held [of "rd s" n] assms(1,2) by (auto simp: standing_def)
  have "rd_forward n (rd s) = (Inr (), r')"
    using r'(1) assms(1) by (simp add: rd_forward_def sbind_def update_def standing_def)
  then show ?thesis using r' assms(3) [of "s\<lparr>rd := r'\<rparr>"]
    by (simp add: runs_def forward_def reading_def standing_def)
qed

lemma forward_first: "standing (c # t) s \<Longrightarrow> t \<noteq> [] \<Longrightarrow> (\<And>s'. standing t s' \<Longrightarrow> Q () s') \<Longrightarrow> runs (forward 1) s Q R"
  by (rule forward_held) auto

lemmas forward_next = forward_first [unfolded One_nat_def]

lemma mark_held: "standing t s \<Longrightarrow> (\<And>m. Q m s) \<Longrightarrow> runs get_mark s Q R"
  by (simp add: get_mark_def runs_pgets)

section \<open>Runs of characters\<close>

lemma count_held:
  assumes "standing (us @ xs @ c # t) s" and "\<forall>x \<in> set xs. p x" and "\<not> p c" and "Q (length (us @ xs), c) s"
  shows "runs (count_chars p (length us)) s Q R"
proof -
  have "runs (count_chars p (length us)) s (\<lambda>x s'. x = (length (us @ xs), c) \<and> s' = s) (\<lambda>_ _. False)"
    unfolding count_chars_def
  proof (rule runs_ploop [where I = "\<lambda>n s'. s' = s \<and> length us \<le> n \<and> n \<le> length (us @ xs)" and m = "\<lambda>n _. length (us @ xs) - n"])
    fix n s' assume I: "s' = s \<and> length us \<le> n \<and> n \<le> length (us @ xs)"
    let ?t = "us @ xs @ c # t"
    have in_xs: "n = length (us @ xs) \<or> ?t ! n \<in> set xs"
      using I by (cases "n = length (us @ xs)") (auto simp: nth_append less_diff_conv2)
    show "runs (pbind (peek n) (\<lambda>c. if p c then again (n + 1) else leave (n, c))) s'
      (\<lambda>r s'. case r of Inl y \<Rightarrow> (s' = s \<and> length us \<le> y \<and> y \<le> length (us @ xs)) \<and> length (us @ xs) - y < length (us @ xs) - n
        | Inr z \<Rightarrow> z = (length (us @ xs), c) \<and> s' = s) (\<lambda>_ _. False)"
    proof (rule runs_pbind, rule peek_held [OF _ _ runs_if])
      show "standing ?t s'" using I assms(1) by simp
      show "n < length ?t" using I by simp
      show "p (?t ! n) \<Longrightarrow> runs (again (n + 1)) s' (\<lambda>r s'. case r of Inl y \<Rightarrow> (s' = s \<and> length us \<le> y \<and> y \<le> length (us @ xs)) \<and>
          length (us @ xs) - y < length (us @ xs) - n | Inr z \<Rightarrow> z = (length (us @ xs), c) \<and> s' = s) (\<lambda>_ _. False)"
        using I assms(3) by (intro runs_again) (cases "n = length (us @ xs)"; auto simp: nth_append)
      show "\<not> p (?t ! n) \<Longrightarrow> runs (leave (n, ?t ! n)) s' (\<lambda>r s'. case r of Inl y \<Rightarrow> (s' = s \<and> length us \<le> y \<and> y \<le> length (us @ xs)) \<and>
          length (us @ xs) - y < length (us @ xs) - n | Inr z \<Rightarrow> z = (length (us @ xs), c) \<and> s' = s) (\<lambda>_ _. False)"
        using I assms(2) in_xs by (intro runs_leave) auto
    qed
  qed simp
  then show ?thesis by (rule runs_conseq) (use assms(4) in auto)
qed

lemma count_first:
  "standing (xs @ c # t) s \<Longrightarrow> \<forall>x \<in> set xs. p x \<Longrightarrow> \<not> p c \<Longrightarrow> Q (length xs, c) s \<Longrightarrow> runs (count_chars p 0) s Q R"
  using count_held [of "[]" xs c t s p Q R] by simp

lemma take_held:
  assumes "standing (xs @ t) s" and "t \<noteq> []" and "\<And>s'. standing t s' \<Longrightarrow> Q xs s'"
  shows "runs (take_chars (length xs)) s Q R"
  unfolding take_chars_def
  by (rule runs_pbind, rule prefix_held [OF assms(1)], rule runs_pbind, rule forward_held [OF assms(1)])
     (use assms(2,3) in \<open>auto intro: runs_pret\<close>)

lemma skip_held:
  assumes "standing (xs @ c # t) s" and "\<forall>x \<in> set xs. p x" and "\<not> p c" and "\<And>s'. standing (c # t) s' \<Longrightarrow> Q () s'"
  shows "runs (skip p) s Q R"
  unfolding skip_def
proof (rule runs_pwhile [where I = "\<lambda>s'. \<exists>k \<le> length xs. standing (drop k xs @ c # t) s'" and m = "\<lambda>s'. length (rest (rd s'))"])
  fix s' assume "\<exists>k \<le> length xs. standing (drop k xs @ c # t) s'"
  then obtain k where k: "k \<le> length xs" "standing (drop k xs @ c # t) s'" by blast
  show "runs (pbind (peek 0) (\<lambda>c. pret (p c))) s'
    (\<lambda>go s''. if go then runs (forward 1) s'' (\<lambda>_ s'''. (\<exists>k \<le> length xs. standing (drop k xs @ c # t) s''') \<and>
        length (rest (rd s''')) < length (rest (rd s'))) R else Q () s'') R"
  proof (cases "k = length xs")
    case True
    then show ?thesis using k assms(3,4) by (intro runs_pbind peek_first [of c t] runs_pret) auto
  next
    case False
    then have d: "drop k xs = xs ! k # drop (Suc k) xs" using k(1) by (simp add: Cons_nth_drop_Suc)
    have p: "p (xs ! k)" using assms(2) k(1) False by simp
    show ?thesis
    proof (intro runs_pbind peek_first [of "xs ! k" "drop (Suc k) xs @ c # t"] runs_pret)
      have "runs (forward 1) s' (\<lambda>_ s'''. (\<exists>k \<le> length xs. standing (drop k xs @ c # t) s''') \<and> length (rest (rd s''')) < length (rest (rd s'))) R"
        by (rule forward_first [of "xs ! k" "drop (Suc k) xs @ c # t"])
           (use k d False in \<open>auto simp: standing_def intro!: exI [of _ "Suc k"]\<close>)
      then show "if p (xs ! k) then runs (forward 1) s' (\<lambda>_ s'''. (\<exists>k \<le> length xs. standing (drop k xs @ c # t) s''') \<and>
          length (rest (rd s''')) < length (rest (rd s'))) R else Q () s'" using p by simp
    qed (use k d in simp)
  qed
qed (use assms(1) in \<open>auto intro: exI [of _ 0]\<close>)

section \<open>Line breaks\<close>

text \<open>A break as the emitter writes it, with its own line break for a line feed, and as the scanner reads it.\<close>

definition line_breaks :: "ucs list set" where
  "line_breaks = {[13], [10], [13, 10]}"

definition breaks_line :: "ucs \<Rightarrow> bool" where
  "breaks_line c = (c \<in> {10, 133, 8232, 8233})"

definition break_text :: "ucs list \<Rightarrow> ucs \<Rightarrow> ucs list" where
  "break_text lb b = (if b = 10 then lb else [b])"

definition read_break :: "ucs \<Rightarrow> ucs" where
  "read_break b = (if b = 133 then 10 else b)"

lemma break_text_first:
  assumes "lb \<in> line_breaks" and "breaks_line b"
  obtains c r where "break_text lb b = c # r" and "is_break c" and "lb = [13] \<Longrightarrow> c \<noteq> 10" and "c \<notin> {32, 9, 45, 46}"
    and "c \<notin> {34, 39, 92}"
  using assms by (auto simp: line_breaks_def breaks_line_def break_text_def is_break_def split: if_splits)

lemma line_break_held:
  assumes "standing (break_text lb b @ c # t) s" and "lb \<in> line_breaks" and "breaks_line b" and "lb = [13] \<Longrightarrow> c \<noteq> 10"
    and Q: "\<And>s'. standing (c # t) s' \<Longrightarrow> Q [read_break b] s'"
  shows "runs scan_line_break s Q R"
proof -
  let ?ends = "\<lambda>x. pbind (take_prefix 2) (\<lambda>p. pbind (if p = [13, 10] then forward 2 else forward 1) (\<lambda>_. pret [10]))"
  consider "break_text lb b = [10]" "read_break b = 10" | "break_text lb b = [13]" "c \<noteq> 10" "read_break b = 10"
    | "break_text lb b = [13, 10]" "read_break b = 10" | "break_text lb b = [133]" "read_break b = 10"
    | "break_text lb b = [8232]" "read_break b = 8232" | "break_text lb b = [8233]" "read_break b = 8233"
    using assms(2-4) by (auto simp: line_breaks_def breaks_line_def break_text_def read_break_def split: if_splits)
  then show ?thesis
  proof cases
    case 1
    then show ?thesis unfolding scan_line_break_def
      by (intro runs_pbind peek_first [OF assms(1) [unfolded 1 append_Cons append_Nil]])
         (auto intro!: runs_pbind prefix_held [OF assms(1)] forward_next [of 10 "c # t"] runs_pret Q [unfolded 1(2)] assms(1) [unfolded 1 append_Cons append_Nil])
  next
    case 2
    then show ?thesis unfolding scan_line_break_def
      by (intro runs_pbind peek_first [OF assms(1) [unfolded 2 append_Cons append_Nil]])
         (auto intro!: runs_pbind prefix_held [OF assms(1)] forward_next [of 13 "c # t"] runs_pret Q [unfolded 2(3)] assms(1) [unfolded 2 append_Cons append_Nil])
  next
    case 3
    then show ?thesis unfolding scan_line_break_def
      by (intro runs_pbind peek_first [OF assms(1) [unfolded 3 append_Cons append_Nil]])
         (auto intro!: runs_pbind prefix_held [OF assms(1)] forward_held [OF assms(1)] runs_pret Q [unfolded 3(2)])
  next
    case 4
    then show ?thesis unfolding scan_line_break_def
      by (intro runs_pbind peek_first [OF assms(1) [unfolded 4 append_Cons append_Nil]])
         (auto intro!: runs_pbind prefix_held [OF assms(1)] forward_next [of 133 "c # t"] runs_pret Q [unfolded 4(2)] assms(1) [unfolded 4 append_Cons append_Nil])
  next
    case 5
    then show ?thesis unfolding scan_line_break_def
      by (intro runs_pbind peek_first [OF assms(1) [unfolded 5 append_Cons append_Nil]])
         (auto intro!: runs_pbind forward_next [of 8232 "c # t"] runs_pret Q [unfolded 5(2)] assms(1) [unfolded 5 append_Cons append_Nil])
  next
    case 6
    then show ?thesis unfolding scan_line_break_def
      by (intro runs_pbind peek_first [OF assms(1) [unfolded 6 append_Cons append_Nil]])
         (auto intro!: runs_pbind forward_next [of 8233 "c # t"] runs_pret Q [unfolded 6(2)] assms(1) [unfolded 6 append_Cons append_Nil])
  qed
qed

lemma separator_held:
  assumes "standing (c # t) s" and "c \<notin> {45, 46}" and "Q False s"
  shows "runs at_separator s Q R"
  unfolding at_separator_def
  by (rule runs_pbind, rule prefix_held [OF assms(1)]) (use assms(2,3) in \<open>auto simp: uc_def intro: runs_pret\<close>)

text \<open>The breaks of a quoted scalar and the indentation behind them.\<close>

lemma flow_breaks_held:
  assumes lb: "lb \<in> line_breaks" and n: "0 < n" and c: "\<not> is_blank c" "\<not> is_break c"
  shows "standing (concat (map (break_text lb) bs) @ replicate n 32 @ c # t) s \<Longrightarrow> \<forall>b \<in> set bs. breaks_line b \<Longrightarrow>
    (\<And>s'. standing (c # t) s' \<Longrightarrow> Q (chunks @ map (\<lambda>b. [read_break b]) bs) s') \<Longrightarrow> runs (ploop (flow_breaks_turn m) chunks) s Q R"
proof (induction bs arbitrary: chunks s)
  case Nil
  obtain k where k: "replicate n (32 :: ucs) = 32 # replicate k 32" using n by (cases n) auto
  have s: "standing (32 # replicate k 32 @ c # t) s" using Nil(1) k by simp
  have turn: "runs (flow_breaks_turn m chunks) s (\<lambda>r s'. r = Inr chunks \<and> standing (c # t) s') (\<lambda>_ _. False)"
    unfolding flow_breaks_turn_def
  proof (rule runs_pbind, rule separator_held [OF s], simp, simp only: if_False, rule runs_pbind)
    show "runs (skip is_blank) s (\<lambda>_ s'. runs (pbind (peek 0) (\<lambda>c. if is_break c then pbind scan_line_break (\<lambda>b. again (chunks @ [b]))
        else leave chunks)) s' (\<lambda>r s'. r = Inr chunks \<and> standing (c # t) s') (\<lambda>_ _. False)) (\<lambda>_ _. False)"
    proof (rule skip_held [of "replicate n 32" c t])
      show "standing (replicate n 32 @ c # t) s" using Nil(1) by simp
      show "\<forall>x \<in> set (replicate n 32). is_blank x" by (simp add: is_blank_def)
      show "\<not> is_blank c" by (rule c(1))
      fix s' assume "standing (c # t) s'"
      then show "runs (pbind (peek 0) (\<lambda>c. if is_break c then pbind scan_line_break (\<lambda>b. again (chunks @ [b])) else leave chunks)) s'
          (\<lambda>r s'. r = Inr chunks \<and> standing (c # t) s') (\<lambda>_ _. False)"
        using c(2) by (intro runs_pbind peek_first) (auto intro: runs_leave)
    qed
  qed
  from runs_sure [OF turn] obtain s' where "flow_breaks_turn m chunks s = Some (Inr (Inr chunks), s')" "standing (c # t) s'" by auto
  then show ?case using Nil(3) by (simp add: runs_def ploop.simps)
next
  case (Cons b bs)
  have bb: "breaks_line b" using Cons.prems(2) by simp
  obtain x r where x: "break_text lb b = x # r" "is_break x" "lb = [13] \<Longrightarrow> x \<noteq> 10" "x \<notin> {32, 9, 45, 46}"
    using break_text_first [OF lb bb] by blast
  let ?rest = "concat (map (break_text lb) bs) @ replicate n 32 @ c # t"
  obtain d u where d: "?rest = d # u" "lb = [13] \<Longrightarrow> d \<noteq> 10"
  proof (cases bs)
    case Nil
    then show ?thesis using n that [of 32 "replicate (n - 1) 32 @ c # t"] by (cases n) auto
  next
    case more_breaks: (Cons b' bs')
    then have "breaks_line b'" using Cons.prems(2) by simp
    then obtain y q where "break_text lb b' = y # q" "lb = [13] \<Longrightarrow> y \<noteq> 10"
      using break_text_first [OF lb] by blast
    then show ?thesis using more_breaks that [of y "q @ concat (map (break_text lb) bs') @ replicate n 32 @ c # t"] by simp
  qed
  have s: "standing (x # r @ ?rest) s" "standing (break_text lb b @ d # u) s" using Cons.prems(1) x(1) d(1) by simp_all
  have turn: "runs (flow_breaks_turn m chunks) s (\<lambda>v s'. v = Inl (chunks @ [[read_break b]]) \<and> standing ?rest s') (\<lambda>_ _. False)"
    unfolding flow_breaks_turn_def
  proof (rule runs_pbind, rule separator_held [OF s(1)], use x(4) in simp, simp only: if_False, rule runs_pbind,
      rule skip_held [of "[]" x "r @ ?rest"])
    show "standing ([] @ x # r @ ?rest) s" using s(1) by simp
    show "\<not> is_blank x" using x(4) by (simp add: is_blank_def)
    fix s1 assume s1: "standing (x # r @ ?rest) s1"
    have s1': "standing (break_text lb b @ d # u) s1" using s1 x(1) d(1) by simp
    show "runs (pbind (peek 0) (\<lambda>c. if is_break c then pbind scan_line_break (\<lambda>b. again (chunks @ [b])) else leave chunks)) s1
        (\<lambda>v s'. v = Inl (chunks @ [[read_break b]]) \<and> standing ?rest s') (\<lambda>_ _. False)"
    proof (rule runs_pbind, rule peek_first [OF s1], use x(2) in simp, rule runs_pbind,
        rule line_break_held [OF s1' lb _ d(2)], use Cons.prems(2) in simp, simp)
      fix s2 assume "standing (d # u) s2"
      then show "runs (again (chunks @ [[read_break b]])) s2 (\<lambda>v s'. v = Inl (chunks @ [[read_break b]]) \<and> standing ?rest s') (\<lambda>_ _. False)"
        using d(1) by (intro runs_again) simp
    qed
  qed simp
  from runs_sure [OF turn] obtain s' where s': "flow_breaks_turn m chunks s = Some (Inr (Inl (chunks @ [[read_break b]])), s')"
    "standing ?rest s'" by auto
  have "runs (ploop (flow_breaks_turn m) (chunks @ [[read_break b]])) s' Q R"
    using Cons.prems by (intro Cons.IH [OF s'(2)]) auto
  then show ?case using s'(1) by (simp add: runs_def ploop.simps [of _ chunks])
qed

end

