(* ===== verification/Yaml_Emit.thy ===== *)
theory Yaml_Emit
  imports Yaml_Scan "HOL-Library.List_Lexorder"
begin

text \<open>
  The emitter of the bundled YAML library (\<open>yaml/emitter.py\<close>), its lower half: the state, the
  writers of indicators, line breaks and scalars, the analysis of a scalar and the texts of
  tags and anchors.  Characters are code points.
\<close>

section \<open>The state\<close>

text \<open>\<open>ScalarAnalysis\<close>, and the style of a scalar: plain, or the character it goes by.\<close>

record analysis =
  a_scalar :: "ucs list"
  a_empty :: bool
  a_multiline :: bool
  a_flow_plain :: bool
  a_block_plain :: bool
  a_single_quoted :: bool
  a_double_quoted :: bool
  a_block :: bool

datatype scalar_style = Plain | Styled char

datatype emit_problem =
    Told string
  | Got string "ucs event_of"
  | Invalid string ucs "ucs list"
  | Handle "ucs list"

datatype emit_error = EmitterError emit_problem | EmitRaised exn

datatype estate =
    ExpectStreamStart | ExpectNothing | ExpectFirstDocumentStart | ExpectDocumentStart
  | ExpectDocumentEnd | ExpectDocumentRoot
  | ExpectFirstFlowSequenceItem | ExpectFlowSequenceItem
  | ExpectFirstFlowMappingKey | ExpectFlowMappingKey | ExpectFlowMappingSimpleValue | ExpectFlowMappingValue
  | ExpectFirstBlockSequenceItem | ExpectBlockSequenceItem
  | ExpectFirstBlockMappingKey | ExpectBlockMappingKey | ExpectBlockMappingSimpleValue | ExpectBlockMappingValue

text \<open>
  The top of a stack is in front.  What \<open>str.encode\<close> gives for an encoding is an argument,
  \<open>e_encodes\<close>; a stream that has an \<open>encoding\<close> of its own is \<open>e_has_encoding\<close>.
\<close>

record emitter =
  e_encodes :: "string \<Rightarrow> ucs list \<Rightarrow> bytes res"
  e_has_encoding :: bool
  e_out :: "raw list"
  e_encoding :: "string option"
  e_states :: "estate list"
  e_state :: "estate option"
  e_events :: "ucs event_of list"
  e_indents :: "nat option list"
  e_indent :: "nat option"
  e_flow_level :: int
  e_root_context :: bool
  e_sequence_context :: bool
  e_mapping_context :: bool
  e_simple_key_context :: bool
  e_line :: nat
  e_column :: nat
  e_whitespace :: bool
  e_indention :: bool
  e_open_ended :: bool
  e_canonical :: bool
  e_allow_unicode :: bool
  e_best_indent :: nat
  e_best_width :: int
  e_best_line_break :: "ucs list"
  e_tag_prefixes :: "(ucs list \<times> ucs list) list option"
  e_prepared_anchor :: "ucs list option"
  e_prepared_tag :: "ucs list option"
  e_analysis :: "analysis option"
  e_style :: "scalar_style option"

type_synonym 'a emits = "(emitter, emit_error, 'a) act"

definition best_indent :: "int option \<Rightarrow> nat" where
  "best_indent ind = (case ind of Some i \<Rightarrow> if 1 < i \<and> i < 10 then nat i else 2 | None \<Rightarrow> 2)"

definition best_width :: "int option \<Rightarrow> int option \<Rightarrow> int" where
  "best_width ind width = (case width of Some w \<Rightarrow> if w \<noteq> 0 \<and> int (best_indent ind) * 2 < w then w else 80 | None \<Rightarrow> 80)"

definition best_line_break :: "ucs list option \<Rightarrow> ucs list" where
  "best_line_break b = (case b of Some b \<Rightarrow> if b \<in> {[13], [10], [13, 10]} then b else [10] | None \<Rightarrow> [10])"

definition new_emitter ::
  "(string \<Rightarrow> ucs list \<Rightarrow> bytes res) \<Rightarrow> bool \<Rightarrow> bool \<Rightarrow> int option \<Rightarrow> int option \<Rightarrow> bool \<Rightarrow> ucs list option \<Rightarrow> emitter" where
  "new_emitter encodes has_encoding canonical ind width allow_unicode line_break =
     \<lparr>e_encodes = encodes, e_has_encoding = has_encoding, e_out = [], e_encoding = None,
      e_states = [], e_state = Some ExpectStreamStart, e_events = [], e_indents = [], e_indent = None, e_flow_level = 0,
      e_root_context = False, e_sequence_context = False, e_mapping_context = False, e_simple_key_context = False,
      e_line = 0, e_column = 0, e_whitespace = True, e_indention = True, e_open_ended = False,
      e_canonical = canonical, e_allow_unicode = allow_unicode, e_best_indent = best_indent ind,
      e_best_width = best_width ind width, e_best_line_break = best_line_break line_break,
      e_tag_prefixes = None, e_prepared_anchor = None, e_prepared_tag = None, e_analysis = None, e_style = None\<rparr>"

definition emit_raise :: "exn \<Rightarrow> 'a emits" where
  "emit_raise x = throw (EmitRaised x)"

definition emit_fail :: "emit_problem \<Rightarrow> 'a emits" where
  "emit_fail p = throw (EmitterError p)"

definition of_res :: "'a res \<Rightarrow> 'a emits" where
  "of_res r = (case r of Inl x \<Rightarrow> emit_raise x | Inr v \<Rightarrow> ret v)"

text \<open>\<open>for x in xs\<close> with the local variables of the loop.\<close>

primrec sfold :: "('x \<Rightarrow> 'a \<Rightarrow> ('s, 'e, 'x) act) \<Rightarrow> 'x \<Rightarrow> 'a list \<Rightarrow> ('s, 'e, 'x) act" where
  "sfold f x [] = ret x"
| "sfold f x (a # as) = sbind (f x a) (\<lambda>y. sfold f y as)"

section \<open>Writers\<close>

text \<open>\<open>if self.encoding: data = data.encode(self.encoding)\<close> and \<open>self.stream.write(data)\<close>\<close>

definition put :: "ucs list \<Rightarrow> unit emits" where
  "put t =
     sbind (gets e_encoding) (\<lambda>enc. case enc of
         None \<Rightarrow> modify (\<lambda>e. e\<lparr>e_out := e_out e @ [RawText t]\<rparr>)
       | Some n \<Rightarrow> sbind (gets (\<lambda>e. e_encodes e n t)) (\<lambda>r. sbind (of_res r) (\<lambda>bs.
           modify (\<lambda>e. e\<lparr>e_out := e_out e @ [RawBytes bs]\<rparr>))))"

definition put_counted :: "ucs list \<Rightarrow> unit emits" where
  "put_counted t = sbind (modify (\<lambda>e. e\<lparr>e_column := e_column e + length t\<rparr>)) (\<lambda>_. put t)"

definition write_stream_start :: "unit emits" where
  "write_stream_start =
     sbind (gets e_encoding) (\<lambda>enc. case enc of
         Some n \<Rightarrow> if startswith ''utf-16'' n then put [65279] else ret ()
       | None \<Rightarrow> ret ())"

definition write_indicator :: "ucs list \<Rightarrow> bool \<Rightarrow> bool \<Rightarrow> bool \<Rightarrow> unit emits" where
  "write_indicator indicator need_whitespace whitespace indention =
     sbind (gets e_whitespace) (\<lambda>w.
     let data = (if w \<or> \<not> need_whitespace then indicator else 32 # indicator) in
     sbind (modify (\<lambda>e. e\<lparr>e_whitespace := whitespace, e_indention := e_indention e \<and> indention,
       e_column := e_column e + length data, e_open_ended := False\<rparr>)) (\<lambda>_.
     put data))"

definition write_line_break :: "ucs list option \<Rightarrow> unit emits" where
  "write_line_break b =
     sbind (gets e_best_line_break) (\<lambda>best.
     sbind (modify (\<lambda>e. e\<lparr>e_whitespace := True, e_indention := True, e_line := e_line e + 1, e_column := 0\<rparr>)) (\<lambda>_.
     put (case b of None \<Rightarrow> best | Some t \<Rightarrow> t)))"

definition indent_of :: "emitter \<Rightarrow> nat" where
  "indent_of e = (case e_indent e of None \<Rightarrow> 0 | Some i \<Rightarrow> i)"

definition write_indent :: "unit emits" where
  "write_indent =
     sbind (gets indent_of) (\<lambda>i.
     sbind (gets (\<lambda>e. \<not> e_indention e \<or> i < e_column e \<or> (e_column e = i \<and> \<not> e_whitespace e))) (\<lambda>new_line.
     sbind (if new_line then write_line_break None else ret ()) (\<lambda>_.
     sbind (gets e_column) (\<lambda>c.
       if c < i then sbind (modify (\<lambda>e. e\<lparr>e_whitespace := True, e_column := i\<rparr>)) (\<lambda>_. put (replicate (i - c) 32))
       else ret ()))))"

definition write_version_directive :: "ucs list \<Rightarrow> unit emits" where
  "write_version_directive t = sbind (put (uc ''%YAML '' @ t)) (\<lambda>_. write_line_break None)"

definition write_tag_directive :: "ucs list \<Rightarrow> ucs list \<Rightarrow> unit emits" where
  "write_tag_directive h p = sbind (put (uc ''%TAG '' @ h @ uc '' '' @ p)) (\<lambda>_. write_line_break None)"

section \<open>Writers of scalars\<close>

text \<open>
  The loops go over the places \<open>end\<close> of a text, one past its last included, where \<open>ch\<close> is
  \<open>None\<close>; \<open>start\<close> is where what has not been written begins.
\<close>

definition soft_break :: "ucs \<Rightarrow> bool" where
  "soft_break c = (c \<in> {10, 133, 8232, 8233})"

definition char_at :: "ucs list \<Rightarrow> nat \<Rightarrow> ucs option" where
  "char_at text k = (if k < length text then Some (text ! k) else None)"

definition slice :: "ucs list \<Rightarrow> nat \<Rightarrow> nat \<Rightarrow> ucs list" where
  "slice text start stop = drop start (take stop text)"

definition text_get :: "ucs list \<Rightarrow> nat \<Rightarrow> ucs emits" where
  "text_get text k = of_res (list_get text (int k))"

definition is_end :: "(ucs \<Rightarrow> bool) \<Rightarrow> ucs option \<Rightarrow> bool" where
  "is_end p ch = (case ch of None \<Rightarrow> True | Some c \<Rightarrow> p c)"

primrec write_breaks :: "ucs list \<Rightarrow> unit emits" where
  "write_breaks [] = ret ()"
| "write_breaks (b # bs) = sbind (write_line_break (if b = 10 then None else Some [b])) (\<lambda>_. write_breaks bs)"

text \<open>The width of a line is exceeded.\<close>

definition too_wide :: "emitter \<Rightarrow> bool" where
  "too_wide e = (e_best_width e < int (e_column e))"

type_synonym quoted_loop = "bool \<times> bool \<times> nat"

definition single_turn :: "ucs list \<Rightarrow> bool \<Rightarrow> quoted_loop \<Rightarrow> nat \<Rightarrow> quoted_loop emits" where
  "single_turn text split = (\<lambda>(spaces, breaks, start) stop.
     let ch = char_at text stop in
     sbind (if spaces then
              (if ch \<noteq> Some 32 then
                 sbind (gets too_wide) (\<lambda>wide.
                 sbind (if start + 1 = stop \<and> wide \<and> split \<and> start \<noteq> 0 \<and> stop \<noteq> length text then write_indent
                        else put_counted (slice text start stop)) (\<lambda>_. ret stop))
               else ret start)
            else if breaks then
              (if is_end (\<lambda>c. \<not> soft_break c) ch then
                 sbind (text_get text start) (\<lambda>c.
                 sbind (if c = 10 then write_line_break None else ret ()) (\<lambda>_.
                 sbind (write_breaks (slice text start stop)) (\<lambda>_.
                 sbind write_indent (\<lambda>_. ret stop))))
               else ret start)
            else
              (if is_end (\<lambda>c. c = 32 \<or> soft_break c \<or> c = 39) ch then
                 (if start < stop then sbind (put_counted (slice text start stop)) (\<lambda>_. ret stop) else ret start)
               else ret start)) (\<lambda>start.
     sbind (if ch = Some 39 then sbind (put_counted [39, 39]) (\<lambda>_. ret (stop + 1)) else ret start) (\<lambda>start.
     ret (case ch of None \<Rightarrow> (spaces, breaks, start) | Some c \<Rightarrow> (c = 32, soft_break c, start)))))"

definition write_single_quoted :: "ucs list \<Rightarrow> bool \<Rightarrow> unit emits" where
  "write_single_quoted text split =
     sbind (write_indicator [39] True False False) (\<lambda>_.
     sbind (sfold (single_turn text split) (False, False, 0) [0..<Suc (length text)]) (\<lambda>_.
     write_indicator [39] False False False))"

definition emit_escapes :: "(ucs \<times> char) list" where
  "emit_escapes =
     [(0, CHR ''0''), (7, CHR ''a''), (8, CHR ''b''), (9, CHR ''t''), (10, CHR ''n''), (11, CHR ''v''), (12, CHR ''f''),
      (13, CHR ''r''), (27, CHR ''e''), (34, dquote), (92, CHR 0x5C), (133, CHR ''N''), (160, CHR ''_''),
      (8232, CHR ''L''), (8233, CHR ''P'')]"

text \<open>\<open>%02X\<close>, \<open>%04X\<close> and \<open>%08X\<close>\<close>

definition upper_digit :: "nat \<Rightarrow> ucs" where
  "upper_digit d = (if d < 10 then 48 + d else 55 + d)"

fun upper_hex :: "nat \<Rightarrow> nat \<Rightarrow> ucs list" where
  "upper_hex 0 n = []"
| "upper_hex (Suc w) n = upper_hex w (n div 16) @ [upper_digit (n mod 16)]"

definition escape_of :: "ucs \<Rightarrow> ucs list" where
  "escape_of c =
     (case map_of emit_escapes c of
        Some r \<Rightarrow> [92, of_char r]
      | None \<Rightarrow> if c \<le> 255 then 92 # uc ''x'' @ upper_hex 2 c
          else if c \<le> 65535 then 92 # uc ''u'' @ upper_hex 4 c
          else 92 # uc ''U'' @ upper_hex 8 c)"

definition must_escape :: "bool \<Rightarrow> ucs \<Rightarrow> bool" where
  "must_escape unicode c =
     (c \<in> {34, 92, 133, 8232, 8233, 65279} \<or>
      \<not> (32 \<le> c \<and> c \<le> 126 \<or> unicode \<and> (160 \<le> c \<and> c \<le> 55295 \<or> 57344 \<le> c \<and> c \<le> 65533)))"

text \<open>What comes before a character that is escaped, and its escape.\<close>

definition double_chars :: "ucs list \<Rightarrow> nat \<Rightarrow> nat \<Rightarrow> nat emits" where
  "double_chars text start stop =
     (let ch = char_at text stop in
     sbind (gets e_allow_unicode) (\<lambda>unicode.
     if is_end (must_escape unicode) ch then
       sbind (if start < stop then sbind (put_counted (slice text start stop)) (\<lambda>_. ret stop) else ret start) (\<lambda>start.
       case ch of None \<Rightarrow> ret start
       | Some c \<Rightarrow> sbind (put_counted (escape_of c)) (\<lambda>_. ret (stop + 1)))
     else ret start))"

text \<open>A line that is too long goes on behind a backslash; a blank in front of it is escaped.\<close>

definition double_break :: "ucs list \<Rightarrow> nat \<Rightarrow> nat emits" where
  "double_break text start =
     sbind write_indent (\<lambda>_.
     sbind (modify (\<lambda>e. e\<lparr>e_whitespace := False, e_indention := False\<rparr>)) (\<lambda>_.
     sbind (text_get text start) (\<lambda>c.
     sbind (if c = 32 then put_counted [92] else ret ()) (\<lambda>_. ret start))))"

definition double_fold :: "ucs list \<Rightarrow> bool \<Rightarrow> nat \<Rightarrow> nat \<Rightarrow> nat emits" where
  "double_fold text split start stop =
     sbind (gets (\<lambda>e. e_best_width e < int (e_column e) + (int stop - int start))) (\<lambda>wide.
       if 0 < stop \<and> stop + 1 < length text \<and> (char_at text stop = Some 32 \<or> stop \<le> start) \<and> wide \<and> split then
         sbind (put_counted (slice text start stop @ [92])) (\<lambda>_.
         double_break text (if start < stop then stop else start))
       else ret start)"

definition double_turn :: "ucs list \<Rightarrow> bool \<Rightarrow> nat \<Rightarrow> nat \<Rightarrow> nat emits" where
  "double_turn text split start stop = sbind (double_chars text start stop) (\<lambda>start. double_fold text split start stop)"

definition write_double_quoted :: "ucs list \<Rightarrow> bool \<Rightarrow> unit emits" where
  "write_double_quoted text split =
     sbind (write_indicator [34] True False False) (\<lambda>_.
     sbind (sfold (double_turn text split) 0 [0..<Suc (length text)]) (\<lambda>_.
     write_indicator [34] False False False))"

definition determine_block_hints :: "nat \<Rightarrow> ucs list \<Rightarrow> ucs list" where
  "determine_block_hints best text =
     (if text = [] then [] else
        (if hd text = 32 \<or> soft_break (hd text) then uc (show_nat best) else []) @
        (if \<not> soft_break (last text) then uc ''-''
         else if length text = 1 \<or> soft_break (last (butlast text)) then uc ''+'' else []))"

definition block_header :: "ucs list \<Rightarrow> ucs list \<Rightarrow> unit emits" where
  "block_header indicator text =
     sbind (gets (\<lambda>e. determine_block_hints (e_best_indent e) text)) (\<lambda>hints.
     sbind (write_indicator (indicator @ hints) True False False) (\<lambda>_.
     sbind (if hints \<noteq> [] \<and> last hints = of_char CHR ''+'' then modify (\<lambda>e. e\<lparr>e_open_ended := True\<rparr>) else ret ()) (\<lambda>_.
     write_line_break None)))"

type_synonym folded_loop = "bool \<times> bool \<times> bool \<times> nat"

definition folded_turn :: "ucs list \<Rightarrow> folded_loop \<Rightarrow> nat \<Rightarrow> folded_loop emits" where
  "folded_turn text = (\<lambda>(leading_space, spaces, breaks, start) stop.
     let ch = char_at text stop in
     sbind (if breaks then
              (if is_end (\<lambda>c. \<not> soft_break c) ch then
                 sbind (if \<not> leading_space \<and> ch \<noteq> None \<and> ch \<noteq> Some 32
                        then sbind (text_get text start) (\<lambda>c. if c = 10 then write_line_break None else ret ()) else ret ()) (\<lambda>_.
                 sbind (write_breaks (slice text start stop)) (\<lambda>_.
                 sbind (if ch \<noteq> None then write_indent else ret ()) (\<lambda>_. ret (ch = Some 32, stop))))
               else ret (leading_space, start))
            else if spaces then
              (if ch \<noteq> Some 32 then
                 sbind (gets too_wide) (\<lambda>wide.
                 sbind (if start + 1 = stop \<and> wide then write_indent else put_counted (slice text start stop)) (\<lambda>_.
                 ret (leading_space, stop)))
               else ret (leading_space, start))
            else
              (if is_end (\<lambda>c. c = 32 \<or> soft_break c) ch then
                 sbind (put_counted (slice text start stop)) (\<lambda>_.
                 sbind (if ch = None then write_line_break None else ret ()) (\<lambda>_. ret (leading_space, stop)))
               else ret (leading_space, start))) (\<lambda>(leading_space, start).
     ret (case ch of None \<Rightarrow> (leading_space, spaces, breaks, start)
          | Some c \<Rightarrow> (leading_space, c = 32, soft_break c, start))))"

definition write_folded :: "ucs list \<Rightarrow> unit emits" where
  "write_folded text =
     sbind (block_header (uc ''>'') text) (\<lambda>_.
     sbind (sfold (folded_turn text) (True, False, True, 0) [0..<Suc (length text)]) (\<lambda>_. ret ()))"

definition literal_turn :: "ucs list \<Rightarrow> bool \<times> nat \<Rightarrow> nat \<Rightarrow> (bool \<times> nat) emits" where
  "literal_turn text = (\<lambda>(breaks, start) stop.
     let ch = char_at text stop in
     sbind (if breaks then
              (if is_end (\<lambda>c. \<not> soft_break c) ch then
                 sbind (write_breaks (slice text start stop)) (\<lambda>_.
                 sbind (if ch \<noteq> None then write_indent else ret ()) (\<lambda>_. ret stop))
               else ret start)
            else
              (if is_end soft_break ch then
                 sbind (put (slice text start stop)) (\<lambda>_.
                 sbind (if ch = None then write_line_break None else ret ()) (\<lambda>_. ret stop))
               else ret start)) (\<lambda>start.
     ret (case ch of None \<Rightarrow> (breaks, start) | Some c \<Rightarrow> (soft_break c, start))))"

definition write_literal :: "ucs list \<Rightarrow> unit emits" where
  "write_literal text =
     sbind (block_header (uc ''|'') text) (\<lambda>_.
     sbind (sfold (literal_turn text) (True, 0) [0..<Suc (length text)]) (\<lambda>_. ret ()))"

text \<open>In the breaks of a plain scalar \<open>None\<close> is looked for in a string, a \<open>TypeError\<close>.\<close>

definition plain_turn :: "ucs list \<Rightarrow> bool \<Rightarrow> quoted_loop \<Rightarrow> nat \<Rightarrow> quoted_loop emits" where
  "plain_turn text split = (\<lambda>(spaces, breaks, start) stop.
     let ch = char_at text stop; set_in = modify (\<lambda>e. e\<lparr>e_whitespace := False, e_indention := False\<rparr>) in
     sbind (if spaces then
              (if ch \<noteq> Some 32 then
                 sbind (gets too_wide) (\<lambda>wide.
                 sbind (if start + 1 = stop \<and> wide \<and> split then sbind write_indent (\<lambda>_. set_in)
                        else put_counted (slice text start stop)) (\<lambda>_. ret stop))
               else ret start)
            else if breaks then
              (case ch of None \<Rightarrow> emit_raise TypeError
               | Some c \<Rightarrow> if \<not> soft_break c then
                   sbind (text_get text start) (\<lambda>c.
                   sbind (if c = 10 then write_line_break None else ret ()) (\<lambda>_.
                   sbind (write_breaks (slice text start stop)) (\<lambda>_.
                   sbind write_indent (\<lambda>_. sbind set_in (\<lambda>_. ret stop)))))
                 else ret start)
            else
              (if is_end (\<lambda>c. c = 32 \<or> soft_break c) ch then
                 sbind (put_counted (slice text start stop)) (\<lambda>_. ret stop)
               else ret start)) (\<lambda>start.
     ret (case ch of None \<Rightarrow> (spaces, breaks, start) | Some c \<Rightarrow> (c = 32, soft_break c, start))))"

definition write_plain :: "ucs list \<Rightarrow> bool \<Rightarrow> unit emits" where
  "write_plain text split =
     sbind (modify (\<lambda>e. if e_root_context e then e\<lparr>e_open_ended := True\<rparr> else e)) (\<lambda>_.
     if text = [] then ret () else
     sbind (gets e_whitespace) (\<lambda>w.
     sbind (if \<not> w then put_counted [32] else ret ()) (\<lambda>_.
     sbind (modify (\<lambda>e. e\<lparr>e_whitespace := False, e_indention := False\<rparr>)) (\<lambda>_.
     sbind (sfold (plain_turn text split) (False, False, 0) [0..<Suc (length text)]) (\<lambda>_. ret ())))))"

section \<open>The analysis of a scalar\<close>

record flags =
  f_block_indicators :: bool
  f_flow_indicators :: bool
  f_line_breaks :: bool
  f_special_characters :: bool
  f_leading_space :: bool
  f_leading_break :: bool
  f_trailing_space :: bool
  f_trailing_break :: bool
  f_break_space :: bool
  f_space_break :: bool
  f_preceded :: bool
  f_followed :: bool
  f_previous_space :: bool
  f_previous_break :: bool

definition flow_flag :: "bool \<Rightarrow> flags \<Rightarrow> flags" where
  "flow_flag b f = f\<lparr>f_flow_indicators := f_flow_indicators f \<or> b\<rparr>"

definition block_flag :: "bool \<Rightarrow> flags \<Rightarrow> flags" where
  "block_flag b f = f\<lparr>f_block_indicators := f_block_indicators f \<or> b\<rparr>"

definition check_indicators :: "nat \<Rightarrow> ucs \<Rightarrow> flags \<Rightarrow> flags" where
  "check_indicators index c f =
     (if index = 0 then
        (let leading = among ''#,[]{}&*!|>%@`'' c \<or> c = 39 \<or> c = 34;
             dash = (is_chr CHR ''-'' c \<and> f_followed f) in
         block_flag (leading \<or> (among ''?:'' c \<and> f_followed f) \<or> dash) (flow_flag (leading \<or> among ''?:'' c \<or> dash) f))
      else
        (let comment = (is_chr CHR ''#'' c \<and> f_preceded f) in
         block_flag ((is_chr CHR '':'' c \<and> f_followed f) \<or> comment)
           (flow_flag (among '',?[]{}'' c \<or> is_chr CHR '':'' c \<or> comment) f)))"

definition check_character :: "bool \<Rightarrow> ucs \<Rightarrow> flags \<Rightarrow> flags" where
  "check_character unicode c f =
     f\<lparr>f_line_breaks := f_line_breaks f \<or> soft_break c,
       f_special_characters := f_special_characters f \<or>
         (\<not> (c = 10 \<or> 32 \<le> c \<and> c \<le> 126) \<and>
          (if (c = 133 \<or> 160 \<le> c \<and> c \<le> 55295 \<or> 57344 \<le> c \<and> c \<le> 65533) \<and> c \<noteq> 65279 then \<not> unicode else True))\<rparr>"

definition check_spaces :: "nat \<Rightarrow> nat \<Rightarrow> ucs \<Rightarrow> flags \<Rightarrow> flags" where
  "check_spaces len index c f =
     (if c = 32 then
        f\<lparr>f_leading_space := f_leading_space f \<or> index = 0, f_trailing_space := f_trailing_space f \<or> index + 1 = len,
          f_break_space := f_break_space f \<or> f_previous_break f, f_previous_space := True, f_previous_break := False\<rparr>
      else if soft_break c then
        f\<lparr>f_leading_break := f_leading_break f \<or> index = 0, f_trailing_break := f_trailing_break f \<or> index + 1 = len,
          f_space_break := f_space_break f \<or> f_previous_space f, f_previous_space := False, f_previous_break := True\<rparr>
      else f\<lparr>f_previous_space := False, f_previous_break := False\<rparr>)"

definition followed_by_white :: "ucs list \<Rightarrow> nat \<Rightarrow> bool" where
  "followed_by_white text index = is_end is_blankz (char_at text (index + 1))"

definition analyze_turn :: "bool \<Rightarrow> ucs list \<Rightarrow> flags \<Rightarrow> nat \<Rightarrow> flags" where
  "analyze_turn unicode text f index =
     (let c = text ! index;
          f = check_spaces (length text) index c (check_character unicode c (check_indicators index c f))
      in f\<lparr>f_preceded := is_blankz c, f_followed := followed_by_white text (index + 1)\<rparr>)"

definition first_flags :: "ucs list \<Rightarrow> flags" where
  "first_flags text =
     (let document = (take 3 text = uc ''---'' \<or> take 3 text = uc ''...'') in
      \<lparr>f_block_indicators = document, f_flow_indicators = document, f_line_breaks = False, f_special_characters = False,
       f_leading_space = False, f_leading_break = False, f_trailing_space = False, f_trailing_break = False,
       f_break_space = False, f_space_break = False, f_preceded = True, f_followed = followed_by_white text 0,
       f_previous_space = False, f_previous_break = False\<rparr>)"

definition decide :: "ucs list \<Rightarrow> flags \<Rightarrow> analysis" where
  "decide text f =
     (let outer = (f_leading_space f \<or> f_leading_break f \<or> f_trailing_space f \<or> f_trailing_break f);
          hard = (f_space_break f \<or> f_special_characters f);
          plain = (\<not> outer \<and> \<not> f_break_space f \<and> \<not> hard \<and> \<not> f_line_breaks f) in
      \<lparr>a_scalar = text, a_empty = False, a_multiline = f_line_breaks f,
       a_flow_plain = (plain \<and> \<not> f_flow_indicators f), a_block_plain = (plain \<and> \<not> f_block_indicators f),
       a_single_quoted = (\<not> f_break_space f \<and> \<not> hard), a_double_quoted = True,
       a_block = (\<not> f_trailing_space f \<and> \<not> hard)\<rparr>)"

definition analyze_scalar :: "bool \<Rightarrow> ucs list \<Rightarrow> analysis" where
  "analyze_scalar unicode text =
     (if text = [] then
        \<lparr>a_scalar = text, a_empty = True, a_multiline = False, a_flow_plain = False, a_block_plain = True,
         a_single_quoted = True, a_double_quoted = True, a_block = False\<rparr>
      else decide text (foldl (analyze_turn unicode text) (first_flags text) [0..<length text]))"

section \<open>Versions, tags and anchors\<close>

definition prepare_version :: "int \<times> int \<Rightarrow> ucs list emits" where
  "prepare_version v =
     (let t = uc (show_int (fst v)) @ uc ''.'' @ uc (show_int (snd v)) in
      if fst v \<noteq> 1 then emit_fail (Told (''unsupported YAML version: '' @ show_int (fst v) @ ''.'' @ show_int (snd v)))
      else ret t)"

definition prepare_tag_handle :: "ucs list \<Rightarrow> ucs list emits" where
  "prepare_tag_handle handle =
     (if handle = [] then emit_fail (Told ''tag handle must not be empty'')
      else if hd handle \<noteq> of_char CHR ''!'' \<or> last handle \<noteq> of_char CHR ''!'' then emit_fail (Handle handle)
      else case find (\<lambda>c. \<not> name_char c) (butlast (tl handle)) of
        Some c \<Rightarrow> emit_fail (Invalid ''tag handle'' c handle)
      | None \<Rightarrow> ret handle)"

text \<open>
  \<open>for ch in data: '%%%02X' % ord(ch)\<close> over the bytes of a character: its items are numbers,
  for which \<open>ord\<close> is a \<open>TypeError\<close>; a surrogate has no bytes in UTF-8.
\<close>

definition percent_error :: "ucs \<Rightarrow> exn" where
  "percent_error c = (if 55296 \<le> c \<and> c \<le> 57343 then UnicodeEncodeError else TypeError)"

definition tag_text :: "(ucs \<Rightarrow> bool) \<Rightarrow> ucs list \<Rightarrow> ucs list emits" where
  "tag_text allowed text = (case find (\<lambda>c. \<not> allowed c) text of Some c \<Rightarrow> emit_raise (percent_error c) | None \<Rightarrow> ret text)"

definition prefix_char :: "ucs \<Rightarrow> bool" where
  "prefix_char c = (dec_digit c \<or> letter c \<or> among ''-;/?!:@&=+$,_.~*()[]'' c \<or> c = 39)"

definition suffix_char :: "ucs list option \<Rightarrow> ucs \<Rightarrow> bool" where
  "suffix_char handle c = (dec_digit c \<or> letter c \<or> among ''-;/?:@&=+$,_.~*()[]'' c \<or> c = 39 \<or>
     (is_chr CHR ''!'' c \<and> handle \<noteq> Some (uc ''!'')))"

definition prepare_tag_prefix :: "ucs list \<Rightarrow> ucs list emits" where
  "prepare_tag_prefix pre = (if pre = [] then emit_fail (Told ''tag prefix must not be empty'') else tag_text prefix_char pre)"

definition default_tag_prefixes :: "(ucs list \<times> ucs list) list" where
  "default_tag_prefixes = [(uc ''!'', uc ''!''), (uc ''tag:yaml.org,2002:'', uc ''!!'')]"

text \<open>The last prefix in order that fits gives the handle and what is left of the tag.\<close>

definition fits_tag :: "ucs list \<Rightarrow> ucs list \<Rightarrow> bool" where
  "fits_tag tag pre = (take (length pre) tag = pre \<and> (pre = uc ''!'' \<or> length pre < length tag))"

definition split_tag :: "(ucs list \<times> ucs list) list \<Rightarrow> ucs list \<Rightarrow> ucs list option \<times> ucs list" where
  "split_tag table tag =
     foldl (\<lambda>(handle, rest) pre. if fits_tag tag pre then (map_of table pre, drop (length pre) tag) else (handle, rest))
       (None, tag) (sort (map fst table))"

definition prepare_tag :: "ucs list \<Rightarrow> ucs list emits" where
  "prepare_tag tag =
     (if tag = [] then emit_fail (Told ''tag must not be empty'')
      else if tag = uc ''!'' then ret tag
      else sbind (gets e_tag_prefixes) (\<lambda>p. case p of
          None \<Rightarrow> emit_raise AttributeError
        | Some table \<Rightarrow>
            (case split_tag table tag of (handle, rest) \<Rightarrow>
               sbind (tag_text (suffix_char handle) rest) (\<lambda>t. ret (case handle of
                   Some h \<Rightarrow> if h \<noteq> [] then h @ t else uc ''!<'' @ t @ uc ''>''
                 | None \<Rightarrow> uc ''!<'' @ t @ uc ''>'')))))"

definition prepare_anchor :: "ucs list \<Rightarrow> ucs list emits" where
  "prepare_anchor anchor =
     (if anchor = [] then emit_fail (Told ''anchor must not be empty'')
      else case find (\<lambda>c. \<not> name_char c) anchor of
        Some c \<Rightarrow> emit_fail (Invalid ''anchor'' c anchor)
      | None \<Rightarrow> ret anchor)"

end
