(* ===== verification/Yaml_Emitter.thy ===== *)
theory Yaml_Emitter
  imports Yaml_Emit
begin

text \<open>
  The emitter of the bundled YAML library (\<open>yaml/emitter.py\<close>), its upper half: the machine
  that takes one event at a time, with a stack of states, and the queue of events that waits
  until enough of what follows is known.  The event under way, \<open>self.event\<close>, is an argument.
\<close>

section \<open>The queue\<close>

definition opens_level :: "'c event_of \<Rightarrow> bool" where
  "opens_level k = (case k of DocumentStartEvent a b c \<Rightarrow> True | SequenceStartEvent a b c d \<Rightarrow> True
     | MappingStartEvent a b c d \<Rightarrow> True | _ \<Rightarrow> False)"

definition closes_level :: "'c event_of \<Rightarrow> bool" where
  "closes_level k = (case k of DocumentEndEvent a \<Rightarrow> True | SequenceEndEvent \<Rightarrow> True | MappingEndEvent \<Rightarrow> True | _ \<Rightarrow> False)"

text \<open>Whether the level falls below zero.\<close>

fun level_falls :: "int \<Rightarrow> 'c event_of list \<Rightarrow> bool" where
  "level_falls level [] = False"
| "level_falls level (k # evs) =
     (let level = (if opens_level k then level + 1 else if closes_level k then level - 1
                   else if k = StreamEndEvent then -1 else level)
      in level < 0 \<or> level_falls level evs)"

definition need_events :: "nat \<Rightarrow> 'c event_of list \<Rightarrow> bool" where
  "need_events count evs = (\<not> level_falls 0 (tl evs) \<and> length evs < count + 1)"

definition need_more_events :: "'c event_of list \<Rightarrow> bool" where
  "need_more_events evs =
     (case evs of [] \<Rightarrow> True
      | k # _ \<Rightarrow> (case k of DocumentStartEvent a b c \<Rightarrow> need_events 1 evs | SequenceStartEvent a b c d \<Rightarrow> need_events 2 evs
          | MappingStartEvent a b c d \<Rightarrow> need_events 3 evs | _ \<Rightarrow> False))"

section \<open>Stacks\<close>

definition to_state :: "estate \<Rightarrow> unit emits" where
  "to_state q = modify (\<lambda>e. e\<lparr>e_state := Some q\<rparr>)"

definition push_state :: "estate \<Rightarrow> unit emits" where
  "push_state q = modify (\<lambda>e. e\<lparr>e_states := q # e_states e\<rparr>)"

definition pop_state :: "unit emits" where
  "pop_state e = (case e_states e of [] \<Rightarrow> (Inl (EmitRaised IndexError), e)
     | q # qs \<Rightarrow> (Inr (), e\<lparr>e_states := qs, e_state := Some q\<rparr>))"

definition pop_indent :: "unit emits" where
  "pop_indent e = (case e_indents e of [] \<Rightarrow> (Inl (EmitRaised IndexError), e)
     | i # is \<Rightarrow> (Inr (), e\<lparr>e_indents := is, e_indent := i\<rparr>))"

definition increase_indent :: "bool \<Rightarrow> bool \<Rightarrow> unit emits" where
  "increase_indent flow indentless =
     modify (\<lambda>e. e\<lparr>e_indents := e_indent e # e_indents e,
       e_indent := (case e_indent e of
           None \<Rightarrow> Some (if flow then e_best_indent e else 0)
         | Some i \<Rightarrow> if \<not> indentless then Some (i + e_best_indent e) else Some i)\<rparr>)"

definition change_level :: "int \<Rightarrow> unit emits" where
  "change_level d = modify (\<lambda>e. e\<lparr>e_flow_level := e_flow_level e + d\<rparr>)"

section \<open>Checkers\<close>

fun event_anchor :: "'c event_of \<Rightarrow> 'c list option" where
  "event_anchor (AliasEvent a) = a"
| "event_anchor (ScalarEvent a t i v s) = a"
| "event_anchor (SequenceStartEvent a t i f) = a"
| "event_anchor (MappingStartEvent a t i f) = a"
| "event_anchor _ = None"

fun event_tag :: "'c event_of \<Rightarrow> 'c list option" where
  "event_tag (ScalarEvent a t i v s) = t"
| "event_tag (SequenceStartEvent a t i f) = t"
| "event_tag (MappingStartEvent a t i f) = t"
| "event_tag _ = None"

fun sequence_start :: "'c event_of \<Rightarrow> bool" where
  "sequence_start (SequenceStartEvent a t i f) = True"
| "sequence_start _ = False"

fun mapping_start :: "'c event_of \<Rightarrow> bool" where
  "mapping_start (MappingStartEvent a t i f) = True"
| "mapping_start _ = False"

definition next_is :: "ucs event_of \<Rightarrow> emitter \<Rightarrow> bool" where
  "next_is k e = (case e_events e of [] \<Rightarrow> False | x # _ \<Rightarrow> x = k)"

definition check_empty_sequence :: "ucs event_of \<Rightarrow> emitter \<Rightarrow> bool" where
  "check_empty_sequence k e = (sequence_start k \<and> next_is SequenceEndEvent e)"

definition check_empty_mapping :: "ucs event_of \<Rightarrow> emitter \<Rightarrow> bool" where
  "check_empty_mapping k e = (mapping_start k \<and> next_is MappingEndEvent e)"

text \<open>\<open>event.implicit\<close> is a pair, which is true whatever it holds.\<close>

definition check_empty_document :: "emitter \<Rightarrow> bool" where
  "check_empty_document e = (case e_events e of ScalarEvent None None i v s # _ \<Rightarrow> v = [] | _ \<Rightarrow> False)"

text \<open>\<open>if self.prepared_anchor is None: ...\<close>, and likewise for the tag and the analysis.\<close>

definition prepared_anchor :: "ucs list \<Rightarrow> ucs list emits" where
  "prepared_anchor anchor =
     sbind (gets e_prepared_anchor) (\<lambda>p. case p of
         Some a \<Rightarrow> ret a
       | None \<Rightarrow> sbind (prepare_anchor anchor) (\<lambda>a. sbind (modify (\<lambda>e. e\<lparr>e_prepared_anchor := Some a\<rparr>)) (\<lambda>_. ret a)))"

definition prepared_tag :: "ucs list \<Rightarrow> ucs list emits" where
  "prepared_tag tag =
     sbind (gets e_prepared_tag) (\<lambda>p. case p of
         Some t \<Rightarrow> ret t
       | None \<Rightarrow> sbind (prepare_tag tag) (\<lambda>t. sbind (modify (\<lambda>e. e\<lparr>e_prepared_tag := Some t\<rparr>)) (\<lambda>_. ret t)))"

definition analyzed :: "ucs list \<Rightarrow> analysis emits" where
  "analyzed value =
     sbind (gets e_analysis) (\<lambda>p. case p of
         Some a \<Rightarrow> ret a
       | None \<Rightarrow> sbind (gets (\<lambda>e. analyze_scalar (e_allow_unicode e) value)) (\<lambda>a.
           sbind (modify (\<lambda>e. e\<lparr>e_analysis := Some a\<rparr>)) (\<lambda>_. ret a)))"

definition check_simple_key :: "ucs event_of \<Rightarrow> bool emits" where
  "check_simple_key k =
     sbind (case event_anchor k of Some a \<Rightarrow> sbind (prepared_anchor a) (\<lambda>p. ret (length p)) | None \<Rightarrow> ret 0) (\<lambda>n.
     sbind (case event_tag k of Some t \<Rightarrow> sbind (prepared_tag t) (\<lambda>p. ret (n + length p)) | None \<Rightarrow> ret n) (\<lambda>n.
     case k of
       ScalarEvent a t i v s \<Rightarrow> sbind (analyzed v) (\<lambda>x. ret (n + length (a_scalar x) < 128 \<and> \<not> a_empty x \<and> \<not> a_multiline x))
     | AliasEvent a \<Rightarrow> ret (n < 128)
     | _ \<Rightarrow> gets (\<lambda>e. n < 128 \<and> (check_empty_sequence k e \<or> check_empty_mapping k e))))"

section \<open>Anchors, tags and scalars\<close>

definition process_anchor :: "ucs list \<Rightarrow> ucs event_of \<Rightarrow> unit emits" where
  "process_anchor indicator k =
     sbind (case event_anchor k of
         None \<Rightarrow> ret ()
       | Some a \<Rightarrow> sbind (prepared_anchor a) (\<lambda>p.
           if p \<noteq> [] then write_indicator (indicator @ p) True False False else ret ())) (\<lambda>_.
     modify (\<lambda>e. e\<lparr>e_prepared_anchor := None\<rparr>))"

definition choose_scalar_style :: "bool \<times> bool \<Rightarrow> char option \<Rightarrow> analysis \<Rightarrow> emitter \<Rightarrow> scalar_style" where
  "choose_scalar_style implicit style x e =
     (if style = Some dquote \<or> e_canonical e then Styled dquote
      else if style = None \<and> fst implicit \<and> \<not> (e_simple_key_context e \<and> (a_empty x \<or> a_multiline x)) \<and>
        (if e_flow_level e \<noteq> 0 then a_flow_plain x else a_block_plain x) then Plain
      else if (style = Some CHR ''|'' \<or> style = Some CHR ''>'') \<and> e_flow_level e = 0 \<and> \<not> e_simple_key_context e \<and> a_block x
        then Styled (the style)
      else if (style = None \<or> style = Some quote) \<and> a_single_quoted x \<and> \<not> (e_simple_key_context e \<and> a_multiline x)
        then Styled quote
      else Styled dquote)"

definition chosen_style :: "bool \<times> bool \<Rightarrow> ucs list \<Rightarrow> char option \<Rightarrow> scalar_style emits" where
  "chosen_style implicit value style =
     sbind (gets e_style) (\<lambda>q. case q of
         Some s \<Rightarrow> ret s
       | None \<Rightarrow> sbind (analyzed value) (\<lambda>x. sbind (gets (choose_scalar_style implicit style x)) (\<lambda>s.
           sbind (modify (\<lambda>e. e\<lparr>e_style := Some s\<rparr>)) (\<lambda>_. ret s))))"

text \<open>The part of \<open>process_tag\<close> after the tags that need not be written.\<close>

definition write_tag :: "ucs list option \<Rightarrow> unit emits" where
  "write_tag tag =
     (case tag of None \<Rightarrow> emit_fail (Told ''tag is not specified'')
      | Some t \<Rightarrow> sbind (prepared_tag t) (\<lambda>p.
          sbind (if p \<noteq> [] then write_indicator p True False False else ret ()) (\<lambda>_.
          modify (\<lambda>e. e\<lparr>e_prepared_tag := None\<rparr>))))"

definition no_tag :: "unit emits" where
  "no_tag = modify (\<lambda>e. e\<lparr>e_prepared_tag := None\<rparr>)"

definition collection_tag :: "ucs list option \<Rightarrow> bool \<Rightarrow> unit emits" where
  "collection_tag tag implicit =
     sbind (gets e_canonical) (\<lambda>canonical. if (\<not> canonical \<or> tag = None) \<and> implicit then no_tag else write_tag tag)"

definition process_tag :: "ucs event_of \<Rightarrow> unit emits" where
  "process_tag k =
     (case k of
        ScalarEvent a tag implicit value style \<Rightarrow>
          sbind (chosen_style implicit value style) (\<lambda>s.
          sbind (gets e_canonical) (\<lambda>canonical.
            if (\<not> canonical \<or> tag = None) \<and> (if s = Plain then fst implicit else snd implicit) then no_tag
            else if fst implicit \<and> tag = None then sbind no_tag (\<lambda>_. write_tag (Some (uc ''!'')))
            else write_tag tag))
      | SequenceStartEvent a tag implicit fl \<Rightarrow> collection_tag tag implicit
      | MappingStartEvent a tag implicit fl \<Rightarrow> collection_tag tag implicit
      | _ \<Rightarrow> ret ())"

definition process_scalar :: "bool \<times> bool \<Rightarrow> ucs list \<Rightarrow> char option \<Rightarrow> unit emits" where
  "process_scalar implicit value style =
     sbind (analyzed value) (\<lambda>x.
     sbind (chosen_style implicit value style) (\<lambda>s.
     sbind (gets (\<lambda>e. \<not> e_simple_key_context e)) (\<lambda>split.
     sbind (case s of
         Plain \<Rightarrow> write_plain (a_scalar x) split
       | Styled c \<Rightarrow> if c = dquote then write_double_quoted (a_scalar x) split
           else if c = quote then write_single_quoted (a_scalar x) split
           else if c = CHR ''>'' then write_folded (a_scalar x)
           else if c = CHR ''|'' then write_literal (a_scalar x)
           else write_plain (a_scalar x) split) (\<lambda>_.
     modify (\<lambda>e. e\<lparr>e_analysis := None, e_style := None\<rparr>)))))"

section \<open>Nodes\<close>

definition expect_alias :: "ucs event_of \<Rightarrow> unit emits" where
  "expect_alias k =
     (if event_anchor k = None then emit_fail (Told ''anchor is not specified for alias'')
      else sbind (process_anchor (uc ''*'') k) (\<lambda>_. pop_state))"

definition expect_scalar :: "bool \<times> bool \<Rightarrow> ucs list \<Rightarrow> char option \<Rightarrow> unit emits" where
  "expect_scalar implicit value style =
     sbind (increase_indent True False) (\<lambda>_.
     sbind (process_scalar implicit value style) (\<lambda>_.
     sbind pop_indent (\<lambda>_. pop_state)))"

definition expect_flow_sequence :: "unit emits" where
  "expect_flow_sequence =
     sbind (write_indicator (uc ''['') True True False) (\<lambda>_. sbind (change_level 1) (\<lambda>_.
     sbind (increase_indent True False) (\<lambda>_. to_state ExpectFirstFlowSequenceItem)))"

definition expect_flow_mapping :: "unit emits" where
  "expect_flow_mapping =
     sbind (write_indicator (uc ''{'') True True False) (\<lambda>_. sbind (change_level 1) (\<lambda>_.
     sbind (increase_indent True False) (\<lambda>_. to_state ExpectFirstFlowMappingKey)))"

definition expect_block_sequence :: "unit emits" where
  "expect_block_sequence =
     sbind (gets (\<lambda>e. e_mapping_context e \<and> \<not> e_indention e)) (\<lambda>indentless.
     sbind (increase_indent False indentless) (\<lambda>_. to_state ExpectFirstBlockSequenceItem))"

definition expect_block_mapping :: "unit emits" where
  "expect_block_mapping = sbind (increase_indent False False) (\<lambda>_. to_state ExpectFirstBlockMappingKey)"

definition in_flow_style :: "bool option \<Rightarrow> emitter \<Rightarrow> bool" where
  "in_flow_style fl e = (e_flow_level e \<noteq> 0 \<or> e_canonical e \<or> fl = Some True)"

definition expect_node :: "ucs event_of \<Rightarrow> bool \<Rightarrow> bool \<Rightarrow> bool \<Rightarrow> bool \<Rightarrow> unit emits" where
  "expect_node k root seq mapping simple_key =
     sbind (modify (\<lambda>e. e\<lparr>e_root_context := root, e_sequence_context := seq, e_mapping_context := mapping,
       e_simple_key_context := simple_key\<rparr>)) (\<lambda>_.
     let marks = sbind (process_anchor (uc ''&'') k) (\<lambda>_. process_tag k) in
     case k of
       AliasEvent a \<Rightarrow> expect_alias k
     | ScalarEvent a t i v s \<Rightarrow> sbind marks (\<lambda>_. expect_scalar i v s)
     | SequenceStartEvent a t i fl \<Rightarrow> sbind marks (\<lambda>_.
         sbind (gets (\<lambda>e. in_flow_style fl e \<or> check_empty_sequence k e)) (\<lambda>flow.
         if flow then expect_flow_sequence else expect_block_sequence))
     | MappingStartEvent a t i fl \<Rightarrow> sbind marks (\<lambda>_.
         sbind (gets (\<lambda>e. in_flow_style fl e \<or> check_empty_mapping k e)) (\<lambda>flow.
         if flow then expect_flow_mapping else expect_block_mapping))
     | _ \<Rightarrow> emit_fail (Got ''expected NodeEvent'' k))"

section \<open>Streams and documents\<close>

definition expect_stream_start :: "ucs event_of \<Rightarrow> unit emits" where
  "expect_stream_start k =
     (case k of
        StreamStartEvent enc \<Rightarrow>
          sbind (modify (\<lambda>e. case enc of Some n \<Rightarrow> if n \<noteq> [] \<and> \<not> e_has_encoding e then e\<lparr>e_encoding := Some n\<rparr> else e | None \<Rightarrow> e)) (\<lambda>_.
          sbind write_stream_start (\<lambda>_. to_state ExpectFirstDocumentStart))
      | _ \<Rightarrow> emit_fail (Got ''expected StreamStartEvent'' k))"

text \<open>\<open>if self.open_ended\<close>: the end of the document is marked.\<close>

definition close_open_end :: "bool \<Rightarrow> unit emits" where
  "close_open_end when =
     sbind (gets e_open_ended) (\<lambda>op. if when \<and> op then sbind (write_indicator (uc ''...'') True False False) (\<lambda>_. write_indent) else ret ())"

definition tag_directive :: "(ucs list \<times> ucs list) list \<Rightarrow> ucs list \<Rightarrow> unit emits" where
  "tag_directive tags handle =
     (case map_of tags handle of None \<Rightarrow> emit_raise KeyError
      | Some pre \<Rightarrow>
          sbind (modify (\<lambda>e. e\<lparr>e_tag_prefixes := map_option (\<lambda>d. dict_set d pre handle) (e_tag_prefixes e)\<rparr>)) (\<lambda>_.
          sbind (prepare_tag_handle handle) (\<lambda>h. sbind (prepare_tag_prefix pre) (\<lambda>p. write_tag_directive h p))))"

primrec tag_directives :: "(ucs list \<times> ucs list) list \<Rightarrow> ucs list list \<Rightarrow> unit emits" where
  "tag_directives tags [] = ret ()"
| "tag_directives tags (h # hs) = sbind (tag_directive tags h) (\<lambda>_. tag_directives tags hs)"

definition some_tags :: "(ucs list \<times> ucs list) list option \<Rightarrow> (ucs list \<times> ucs list) list" where
  "some_tags tags = (case tags of None \<Rightarrow> [] | Some d \<Rightarrow> d)"

definition write_document_start :: "bool \<Rightarrow> bool option \<Rightarrow> (int \<times> int) option \<Rightarrow> (ucs list \<times> ucs list) list option \<Rightarrow> unit emits" where
  "write_document_start first explicit version tags =
     sbind (close_open_end (version \<noteq> None \<or> some_tags tags \<noteq> [])) (\<lambda>_.
     sbind (case version of None \<Rightarrow> ret () | Some v \<Rightarrow> sbind (prepare_version v) write_version_directive) (\<lambda>_.
     sbind (modify (\<lambda>e. e\<lparr>e_tag_prefixes := Some default_tag_prefixes\<rparr>)) (\<lambda>_.
     sbind (tag_directives (some_tags tags) (sort (map fst (some_tags tags)))) (\<lambda>_.
     sbind (gets (\<lambda>e. first \<and> explicit \<noteq> Some True \<and> \<not> e_canonical e \<and> version = None \<and> some_tags tags = [] \<and>
       \<not> check_empty_document e)) (\<lambda>implicit.
     sbind (gets e_canonical) (\<lambda>canonical.
     if implicit then ret () else
       sbind write_indent (\<lambda>_. sbind (write_indicator (uc ''---'') True False False) (\<lambda>_.
       if canonical then write_indent else ret ()))))))))"

definition expect_document_start :: "bool \<Rightarrow> ucs event_of \<Rightarrow> unit emits" where
  "expect_document_start first k =
     (case k of
        DocumentStartEvent explicit version tags \<Rightarrow>
          sbind (write_document_start first explicit version tags) (\<lambda>_. to_state ExpectDocumentRoot)
      | StreamEndEvent \<Rightarrow> sbind (close_open_end True) (\<lambda>_. to_state ExpectNothing)
      | _ \<Rightarrow> emit_fail (Got ''expected DocumentStartEvent'' k))"

definition expect_document_end :: "ucs event_of \<Rightarrow> unit emits" where
  "expect_document_end k =
     (case k of
        DocumentEndEvent explicit \<Rightarrow>
          sbind write_indent (\<lambda>_.
          sbind (if explicit = Some True then sbind (write_indicator (uc ''...'') True False False) (\<lambda>_. write_indent) else ret ()) (\<lambda>_.
          to_state ExpectDocumentStart))
      | _ \<Rightarrow> emit_fail (Got ''expected DocumentEndEvent'' k))"

definition expect_document_root :: "ucs event_of \<Rightarrow> unit emits" where
  "expect_document_root k = sbind (push_state ExpectDocumentEnd) (\<lambda>_. expect_node k True False False False)"

section \<open>Flow collections\<close>

definition wrap_line :: "unit emits" where
  "wrap_line = sbind (gets (\<lambda>e. e_canonical e \<or> too_wide e)) (\<lambda>b. if b then write_indent else ret ())"

text \<open>The end of a flow collection, with the comma that a canonical one has after its last item.\<close>

definition close_flow :: "bool \<Rightarrow> ucs list \<Rightarrow> unit emits" where
  "close_flow first bracket =
     sbind pop_indent (\<lambda>_. sbind (change_level (-1)) (\<lambda>_.
     sbind (gets e_canonical) (\<lambda>canonical.
     sbind (if \<not> first \<and> canonical then sbind (write_indicator (uc '','') False False False) (\<lambda>_. write_indent) else ret ()) (\<lambda>_.
     sbind (write_indicator bracket False False False) (\<lambda>_. pop_state)))))"

definition comma :: "bool \<Rightarrow> unit emits" where
  "comma first = (if first then ret () else write_indicator (uc '','') False False False)"

definition expect_flow_sequence_item :: "bool \<Rightarrow> ucs event_of \<Rightarrow> unit emits" where
  "expect_flow_sequence_item first k =
     (if k = SequenceEndEvent then close_flow first (uc '']'')
      else sbind (comma first) (\<lambda>_. sbind wrap_line (\<lambda>_. sbind (push_state ExpectFlowSequenceItem) (\<lambda>_.
        expect_node k False True False False))))"

definition expect_flow_mapping_key :: "bool \<Rightarrow> ucs event_of \<Rightarrow> unit emits" where
  "expect_flow_mapping_key first k =
     (if k = MappingEndEvent then close_flow first (uc ''}'')
      else sbind (comma first) (\<lambda>_. sbind wrap_line (\<lambda>_.
        sbind (gets e_canonical) (\<lambda>canonical. sbind (if canonical then ret False else check_simple_key k) (\<lambda>simple.
        if simple then sbind (push_state ExpectFlowMappingSimpleValue) (\<lambda>_. expect_node k False False True True)
        else sbind (write_indicator (uc ''?'') True False False) (\<lambda>_. sbind (push_state ExpectFlowMappingValue) (\<lambda>_.
          expect_node k False False True False)))))))"

definition expect_flow_mapping_simple_value :: "ucs event_of \<Rightarrow> unit emits" where
  "expect_flow_mapping_simple_value k =
     sbind (write_indicator (uc '':'') False False False) (\<lambda>_. sbind (push_state ExpectFlowMappingKey) (\<lambda>_.
     expect_node k False False True False))"

definition expect_flow_mapping_value :: "ucs event_of \<Rightarrow> unit emits" where
  "expect_flow_mapping_value k =
     sbind wrap_line (\<lambda>_. sbind (write_indicator (uc '':'') True False False) (\<lambda>_. sbind (push_state ExpectFlowMappingKey) (\<lambda>_.
     expect_node k False False True False)))"

section \<open>Block collections\<close>

definition close_block :: "unit emits" where
  "close_block = sbind pop_indent (\<lambda>_. pop_state)"

definition expect_block_sequence_item :: "bool \<Rightarrow> ucs event_of \<Rightarrow> unit emits" where
  "expect_block_sequence_item first k =
     (if \<not> first \<and> k = SequenceEndEvent then close_block
      else sbind write_indent (\<lambda>_. sbind (write_indicator (uc ''-'') True False True) (\<lambda>_.
        sbind (push_state ExpectBlockSequenceItem) (\<lambda>_. expect_node k False True False False))))"

definition expect_block_mapping_key :: "bool \<Rightarrow> ucs event_of \<Rightarrow> unit emits" where
  "expect_block_mapping_key first k =
     (if \<not> first \<and> k = MappingEndEvent then close_block
      else sbind write_indent (\<lambda>_. sbind (check_simple_key k) (\<lambda>simple.
        if simple then sbind (push_state ExpectBlockMappingSimpleValue) (\<lambda>_. expect_node k False False True True)
        else sbind (write_indicator (uc ''?'') True False True) (\<lambda>_. sbind (push_state ExpectBlockMappingValue) (\<lambda>_.
          expect_node k False False True False)))))"

definition expect_block_mapping_simple_value :: "ucs event_of \<Rightarrow> unit emits" where
  "expect_block_mapping_simple_value k =
     sbind (write_indicator (uc '':'') False False False) (\<lambda>_. sbind (push_state ExpectBlockMappingKey) (\<lambda>_.
     expect_node k False False True False))"

definition expect_block_mapping_value :: "ucs event_of \<Rightarrow> unit emits" where
  "expect_block_mapping_value k =
     sbind write_indent (\<lambda>_. sbind (write_indicator (uc '':'') True False True) (\<lambda>_. sbind (push_state ExpectBlockMappingKey) (\<lambda>_.
     expect_node k False False True False)))"

section \<open>The machine\<close>

fun run_estate :: "estate \<Rightarrow> ucs event_of \<Rightarrow> unit emits" where
  "run_estate ExpectStreamStart k = expect_stream_start k"
| "run_estate ExpectNothing k = emit_fail (Got ''expected nothing'' k)"
| "run_estate ExpectFirstDocumentStart k = expect_document_start True k"
| "run_estate ExpectDocumentStart k = expect_document_start False k"
| "run_estate ExpectDocumentEnd k = expect_document_end k"
| "run_estate ExpectDocumentRoot k = expect_document_root k"
| "run_estate ExpectFirstFlowSequenceItem k = expect_flow_sequence_item True k"
| "run_estate ExpectFlowSequenceItem k = expect_flow_sequence_item False k"
| "run_estate ExpectFirstFlowMappingKey k = expect_flow_mapping_key True k"
| "run_estate ExpectFlowMappingKey k = expect_flow_mapping_key False k"
| "run_estate ExpectFlowMappingSimpleValue k = expect_flow_mapping_simple_value k"
| "run_estate ExpectFlowMappingValue k = expect_flow_mapping_value k"
| "run_estate ExpectFirstBlockSequenceItem k = expect_block_sequence_item True k"
| "run_estate ExpectBlockSequenceItem k = expect_block_sequence_item False k"
| "run_estate ExpectFirstBlockMappingKey k = expect_block_mapping_key True k"
| "run_estate ExpectBlockMappingKey k = expect_block_mapping_key False k"
| "run_estate ExpectBlockMappingSimpleValue k = expect_block_mapping_simple_value k"
| "run_estate ExpectBlockMappingValue k = expect_block_mapping_value k"

text \<open>\<open>dispose\<close> leaves no state, and calling it then is a \<open>TypeError\<close>.\<close>

definition dispose :: "unit emits" where
  "dispose = modify (\<lambda>e. e\<lparr>e_states := [], e_state := None\<rparr>)"

definition emit_one :: "ucs event_of \<Rightarrow> unit emits" where
  "emit_one k = sbind (gets e_state) (\<lambda>q. case q of None \<Rightarrow> emit_raise TypeError | Some q \<Rightarrow> run_estate q k)"

definition emit_turn :: "(emitter, emit_error, unit + unit) pact" where
  "emit_turn =
     pbind (pgets e_events) (\<lambda>evs.
       if need_more_events evs then leave () else
       pbind (pmodify (\<lambda>e. e\<lparr>e_events := tl evs\<rparr>)) (\<lambda>_. pbind (run (emit_one (hd evs))) (\<lambda>_. again ())))"

definition emit_event :: "ucs event_of \<Rightarrow> (emitter, emit_error, unit) pact" where
  "emit_event k =
     pbind (pmodify (\<lambda>e. e\<lparr>e_events := e_events e @ [k]\<rparr>)) (\<lambda>_. ploop (\<lambda>_. emit_turn) ())"

text \<open>\<open>yaml.emit\<close>: every event of a list, and the emitter is disposed of whether or not it raised.\<close>

definition yaml_emit :: "ucs event_of list \<Rightarrow> (emitter, emit_error, unit) pact" where
  "yaml_emit evs e =
     (case peach emit_event evs e of None \<Rightarrow> None | Some (r, e') \<Rightarrow> Some (r, snd (dispose e')))"

end
