(* ===== verification/Yaml_Quoted.thy ===== *)
theory Yaml_Quoted
  imports Yaml_Held Yaml_Emitter
begin

text \<open>
  What the emitter writes between double quotes the scanner reads back.  In between stands a
  list of pieces: characters as they are, escapes, and line breaks behind a backslash, whose
  indentation the scanner skips.
\<close>

section \<open>Pieces\<close>

datatype piece = Lit ucs | Esc ucs | Blank | Fold nat

fun render :: "ucs list \<Rightarrow> piece \<Rightarrow> ucs list" where
  "render lb (Lit c) = [c]"
| "render lb (Esc c) = escape_of c"
| "render lb Blank = [92, 32]"
| "render lb (Fold n) = 92 # lb @ replicate n 32"

fun meaning :: "piece \<Rightarrow> ucs list" where
  "meaning (Lit c) = [c]"
| "meaning (Esc c) = [c]"
| "meaning Blank = [32]"
| "meaning (Fold n) = []"

definition rendered :: "ucs list \<Rightarrow> piece list \<Rightarrow> ucs list" where
  "rendered lb ps = concat (map (render lb) ps)"

definition meant :: "piece list \<Rightarrow> ucs list" where
  "meant ps = concat (map meaning ps)"

fun piece_ok :: "piece \<Rightarrow> bool" where
  "piece_ok (Lit c) = (c \<notin> {34, 92} \<and> (c = 32 \<or> \<not> is_blankz c))"
| "piece_ok (Esc c) = (c \<le> 1114111)"
| "piece_ok Blank = True"
| "piece_ok (Fold n) = (0 < n)"

text \<open>Behind a fold there is no blank, which the scanner would skip.\<close>

fun pieces_ok :: "piece list \<Rightarrow> bool" where
  "pieces_ok [] = True"
| "pieces_ok (p # ps) = (piece_ok p \<and> pieces_ok ps \<and> ((\<exists>n. p = Fold n) \<longrightarrow> (case ps of Lit c # _ \<Rightarrow> c \<noteq> 32 | _ \<Rightarrow> True)))"

lemma rendered_simps [simp]: "rendered lb [] = []" "rendered lb (p # ps) = render lb p @ rendered lb ps"
  "rendered lb (ps @ qs) = rendered lb ps @ rendered lb qs"
  by (simp_all add: rendered_def)

lemma meant_simps [simp]: "meant [] = []" "meant (p # ps) = meaning p @ meant ps" "meant (ps @ qs) = meant ps @ meant qs"
  by (simp_all add: meant_def)

lemma pieces_ok_tail: "pieces_ok (ps @ qs) \<Longrightarrow> pieces_ok qs"
  by (induction ps) auto

section \<open>Escapes\<close>

lemma hex_digit: "d < 16 \<Longrightarrow> hex_char (upper_digit d) \<and> hex_val (upper_digit d) = d"
proof -
  assume "d < 16"
  then have "d \<in> {0, 1, 2, 3, 4, 5, 6, 7, 8, 9, 10, 11, 12, 13, 14, 15}" by simp presburger
  then show ?thesis
    by (auto simp: hex_char_def among_def uc_def upper_digit_def hex_val_def dec_digit_def)
qed

lemma upper_hex_chars: "length (upper_hex w n) = w" "\<forall>c \<in> set (upper_hex w n). hex_char c"
  by (induction w n rule: upper_hex.induct) (auto simp: hex_digit)

lemma upper_hex_value: "n < 16 ^ w \<Longrightarrow> digits_in 16 (upper_hex w n) = n"
proof (induction w n rule: upper_hex.induct)
  case (2 w n)
  then have "digits_in 16 (upper_hex w (n div 16)) = n div 16" by (simp add: less_mult_imp_div_less mult.commute)
  then show ?case by (simp add: digits_in_def hex_digit)
qed (simp add: digits_in_def)

lemma check_hex_held:
  "standing t s \<Longrightarrow> \<forall>k \<in> set ks. k < length t \<and> hex_char (t ! k) \<Longrightarrow> Q () s \<Longrightarrow> runs (check_hex bad ks) s Q R"
proof (induction ks)
  case (Cons k ks)
  then show ?case by (auto intro!: runs_pbind peek_held [OF Cons.prems(1)])
qed (simp add: runs_pret)

text \<open>An escape, behind its backslash.\<close>

definition escape_after :: "umark \<Rightarrow> ucs \<Rightarrow> ucs list list scan" where
  "escape_after m c =
     (case map_of escape_replacements c of
         Some r \<Rightarrow> pbind (forward 1) (\<lambda>_. pret [[r]])
       | None \<Rightarrow> (case map_of escape_codes c of
           Some n \<Rightarrow>
             pbind (forward 1) (\<lambda>_.
             pbind (check_hex (\<lambda>c. scan_fail ''while scanning a double-quoted scalar'' m (FoundInEscape n c)) [0..<n]) (\<lambda>_.
             pbind (take_prefix n) (\<lambda>v.
               if 1114111 < digits_in 16 v then pthrow (Raised ValueError)
               else pbind (forward n) (\<lambda>_. pret [[digits_in 16 v]]))))
         | None \<Rightarrow>
             if is_break c then pbind scan_line_break (\<lambda>_. scan_flow_scalar_breaks m)
             else scan_fail ''while scanning a double-quoted scalar'' m (Found ''found unknown escape character %r'' c)))"

lemma scan_escape_eq: "scan_escape m = pbind (forward 1) (\<lambda>_. pbind (peek 0) (escape_after m))"
  unfolding scan_escape_def escape_after_def [abs_def] ..

lemma scan_escape_held:
  assumes "standing (92 # c # t) s" and "\<And>s'. standing (c # t) s' \<Longrightarrow> runs (escape_after m c) s' Q R"
  shows "runs (scan_escape m) s Q R"
  unfolding scan_escape_eq
  by (rule runs_pbind, rule forward_first [OF assms(1)], simp, rule runs_pbind, rule peek_first, assumption, rule assms(2))

text \<open>A number after \<open>x\<close>, \<open>u\<close> or \<open>U\<close>.\<close>

lemma escape_number_held:
  assumes s: "standing (92 # c # h @ d # t) s" and c: "map_of escape_replacements c = None" "map_of escape_codes c = Some (length h)"
    and h: "\<forall>x \<in> set h. hex_char x" and v: "digits_in 16 h \<le> 1114111"
    and Q: "\<And>s'. standing (d # t) s' \<Longrightarrow> Q [[digits_in 16 h]] s'"
  shows "runs (scan_escape m) s Q R"
proof (rule scan_escape_held [OF s])
  fix s1 assume s1: "standing (c # h @ d # t) s1"
  show "runs (escape_after m c) s1 Q R"
    unfolding escape_after_def c option.case
  proof (rule runs_pbind, rule forward_first [OF s1], simp)
    fix s2 assume s2: "standing (h @ d # t) s2"
    show "runs (pbind (check_hex (\<lambda>c. scan_fail ''while scanning a double-quoted scalar'' m (FoundInEscape (length h) c)) [0..<length h]) (\<lambda>_.
        pbind (take_prefix (length h)) (\<lambda>v. if 1114111 < digits_in 16 v then pthrow (Raised ValueError)
          else pbind (forward (length h)) (\<lambda>_. pret [[digits_in 16 v]])))) s2 Q R"
    proof (rule runs_pbind, rule check_hex_held [OF s2])
      show "\<forall>k \<in> set [0..<length h]. k < length (h @ d # t) \<and> hex_char ((h @ d # t) ! k)" using h by (auto simp: nth_append)
      show "runs (pbind (take_prefix (length h)) (\<lambda>v. if 1114111 < digits_in 16 v then pthrow (Raised ValueError)
          else pbind (forward (length h)) (\<lambda>_. pret [[digits_in 16 v]]))) s2 Q R"
        by (rule runs_pbind, rule prefix_held [OF s2]) (use v in \<open>auto intro!: runs_pbind forward_held [OF s2] runs_pret Q\<close>)
    qed
  qed
qed

lemma escape_char_held:
  assumes s: "standing (92 # c # d # t) s" and c: "map_of escape_replacements c = Some r"
    and Q: "\<And>s'. standing (d # t) s' \<Longrightarrow> Q [[r]] s'"
  shows "runs (scan_escape m) s Q R"
proof (rule scan_escape_held [OF s])
  fix s1 assume s1: "standing (c # d # t) s1"
  have "runs (pbind (forward 1) (\<lambda>_. pret [[r]])) s1 Q R"
    by (rule runs_pbind, rule forward_first [OF s1]) (auto intro: runs_pret Q)
  then show "runs (escape_after m c) s1 Q R" by (simp add: escape_after_def c)
qed

lemma no_replacement: "map_of escape_replacements (of_char CHR ''x'') = None" "map_of escape_replacements (of_char CHR ''u'') = None"
  "map_of escape_replacements (of_char CHR ''U'') = None" "map_of escape_codes (of_char CHR ''x'') = Some 2"
  "map_of escape_codes (of_char CHR ''u'') = Some 4" "map_of escape_codes (of_char CHR ''U'') = Some 8"
  by (simp_all add: escape_replacements_def escape_codes_def)

lemma escape_of_held:
  assumes s: "standing (escape_of c @ d # t) s" and c: "c \<le> 1114111"
    and Q: "\<And>s'. standing (d # t) s' \<Longrightarrow> Q [[c]] s'"
  shows "runs (scan_escape m) s Q R"
proof (cases "map_of emit_escapes c")
  case None
  consider "c \<le> 255" | "\<not> c \<le> 255" "c \<le> 65535" | "\<not> c \<le> 255" "\<not> c \<le> 65535" by blast
  then show ?thesis
  proof cases
    case 1
    have h: "digits_in 16 (upper_hex 2 c) = c" by (rule upper_hex_value) (use 1 in simp)
    show ?thesis
      by (rule escape_number_held [of "of_char CHR ''x''" "upper_hex 2 c" d t])
         (use s None 1 c h Q no_replacement upper_hex_chars in \<open>simp_all add: escape_of_def uc_def\<close>)
  next
    case 2
    have h: "digits_in 16 (upper_hex 4 c) = c" by (rule upper_hex_value) (use 2 in simp)
    show ?thesis
      by (rule escape_number_held [of "of_char CHR ''u''" "upper_hex 4 c" d t])
         (use s None 2 c h Q no_replacement upper_hex_chars in \<open>simp_all add: escape_of_def uc_def\<close>)
  next
    case 3
    have h: "digits_in 16 (upper_hex 8 c) = c" by (rule upper_hex_value) (use 3 c in simp)
    show ?thesis
      by (rule escape_number_held [of "of_char CHR ''U''" "upper_hex 8 c" d t])
         (use s None 3 c h Q no_replacement upper_hex_chars in \<open>simp_all add: escape_of_def uc_def\<close>)
  qed
next
  case (Some r)
  then have "map_of escape_replacements (of_char r) = Some c"
    by (auto simp: emit_escapes_def escape_replacements_def split: if_splits)
  then show ?thesis using s Some Q by (intro escape_char_held [of "of_char r" d t]) (simp_all add: escape_of_def)
qed

text \<open>A line break behind a backslash, with the indentation of the next line.\<close>

lemma fold_held:
  assumes s: "standing (92 # lb @ replicate n 32 @ d # t) s" and lb: "lb \<in> line_breaks" and n: "0 < n"
    and d: "\<not> is_blank d" "\<not> is_break d" and Q: "\<And>s'. standing (d # t) s' \<Longrightarrow> Q [] s'"
  shows "runs (scan_escape m) s Q R"
proof -
  obtain c r where c: "lb = c # r" "c = 10 \<or> c = 13" using lb by (auto simp: line_breaks_def)
  obtain k where k: "replicate n (32 :: ucs) = 32 # replicate k 32" using n by (cases n) auto
  have esc: "map_of escape_replacements c = None" "map_of escape_codes c = None" "is_break c"
    using c(2) by (auto simp: escape_replacements_def escape_codes_def is_break_def)
  have s0: "standing (92 # c # r @ replicate n 32 @ d # t) s" using s c(1) by simp
  show ?thesis
  proof (rule scan_escape_held [OF s0])
    fix s1 assume s1: "standing (c # r @ replicate n 32 @ d # t) s1"
    have s1': "standing (break_text lb 10 @ 32 # replicate k 32 @ d # t) s1" using s1 c(1) k by (simp add: break_text_def)
    have "runs (pbind scan_line_break (\<lambda>_. scan_flow_scalar_breaks m)) s1 Q R"
    proof (rule runs_pbind, rule line_break_held [OF s1' lb])
      fix s2 assume "standing (32 # replicate k 32 @ d # t) s2"
      then have s2: "standing (concat (map (break_text lb) []) @ replicate n 32 @ d # t) s2" using k by simp
      show "runs (scan_flow_scalar_breaks m) s2 Q R"
        unfolding scan_flow_scalar_breaks_def by (rule flow_breaks_held [OF lb n d s2]) (use Q in auto)
    qed (simp_all add: breaks_line_def)
    then show "runs (escape_after m c) s1 Q R" using esc by (simp add: escape_after_def)
  qed
qed

section \<open>The scanner on pieces\<close>

text \<open>What the run of ordinary characters stops at.\<close>

definition ordinary :: "ucs \<Rightarrow> bool" where
  "ordinary c = (\<not> (c = 39 \<or> c = 34 \<or> c = 92 \<or> is_blankz c))"

lemma escape_of_first: "\<exists>r. escape_of c = 92 # r"
  by (auto simp: escape_of_def split: option.split)

fun first_char :: "piece list \<Rightarrow> ucs" where
  "first_char [] = 34"
| "first_char (Lit x # ps) = x"
| "first_char (p # ps) = 92"

lemma rendered_first: "\<exists>t. rendered lb ps @ 34 # z = first_char ps # t"
proof (cases ps)
  case (Cons p qs)
  show ?thesis
  proof (cases p)
    case (Esc c)
    then show ?thesis using Cons escape_of_first [of c] by auto
  qed (simp_all add: Cons)
qed simp

lemma first_after_fold: "pieces_ok (Fold n # ps) \<Longrightarrow> \<not> is_blank (first_char ps) \<and> \<not> is_break (first_char ps)"
  by (cases ps rule: first_char.cases) (auto simp: is_blank_def is_break_def is_blankz_def is_spacez_def is_breakz_def)

text \<open>One piece that the loop over non-spaces reads in a turn of its own.\<close>

lemma escape_piece_held:
  assumes s: "standing (render lb p @ rendered lb ps @ 34 # z) s" and ok: "pieces_ok (p # ps)" and lb: "lb \<in> line_breaks"
    and p: "\<nexists>c. p = Lit c" and Q: "\<And>s' t. standing (rendered lb ps @ 34 # z) s' \<Longrightarrow> concat t = meaning p \<Longrightarrow> Q t s'"
  shows "runs (scan_escape m) s Q R"
proof -
  obtain t where d: "rendered lb ps @ 34 # z = first_char ps # t" using rendered_first by blast
  show ?thesis
  proof (cases p)
    case (Esc c)
    then show ?thesis using s ok Q d by (intro escape_of_held [of c "first_char ps" t]) auto
  next
    case Blank
    then show ?thesis using s Q d
      by (intro escape_char_held [of 32 "first_char ps" t]) (auto simp: escape_replacements_def)
  next
    case (Fold n)
    then show ?thesis using s ok Q lb d first_after_fold [of n ps]
      by (intro fold_held [of lb n "first_char ps" t]) auto
  qed (use p in simp)
qed

definition starts_blank :: "piece list \<Rightarrow> bool" where
  "starts_blank ps = (\<exists>qs. ps = Lit 32 # qs)"

lemma lit_prefix:
  "\<exists>xs qs. ps = map Lit xs @ qs \<and> (\<forall>x \<in> set xs. p x) \<and> (\<forall>c rs. qs = Lit c # rs \<longrightarrow> \<not> p c)"
proof (induction ps)
  case (Cons q ps)
  then obtain xs qs where "ps = map Lit xs @ qs" "\<forall>x \<in> set xs. p x" "\<forall>c rs. qs = Lit c # rs \<longrightarrow> \<not> p c" by blast
  then show ?case
    by (cases "\<exists>c. q = Lit c \<and> p c") (auto intro: exI [of _ "_ # xs"] exI [of _ "[]"])
qed simp

lemma rendered_lits [simp]: "rendered lb (map Lit xs) = xs" "meant (map Lit xs) = xs"
  by (induction xs) auto

definition behind :: "ucs list \<Rightarrow> ucs list \<Rightarrow> piece list \<Rightarrow> ucs list \<Rightarrow> piece list \<Rightarrow> ucs list list \<Rightarrow> scanner \<Rightarrow> bool" where
  "behind lb z ps known rs cs s = (\<exists>qs. ps = qs @ rs \<and> concat cs = known @ meant qs \<and> standing (rendered lb rs @ 34 # z) s)"

lemma behind_step:
  "behind lb z ps known (qs @ rs) cs s \<Longrightarrow> concat ds = concat cs @ meant qs \<Longrightarrow> standing (rendered lb rs @ 34 # z) s' \<Longrightarrow>
    behind lb z ps known rs ds s'"
  by (fastforce simp: behind_def)

lemma behind_ok: "behind lb z ps known rs cs s \<Longrightarrow> pieces_ok ps \<Longrightarrow> pieces_ok rs"
  using pieces_ok_tail by (auto simp: behind_def)

lemma first_not_ordinary:
  assumes "pieces_ok qs" and "\<forall>c rs. qs = Lit c # rs \<longrightarrow> \<not> ordinary c"
  shows "\<not> ordinary (first_char qs)" and "qs = [] \<or> starts_blank qs \<or> (\<exists>rs. qs = Lit 39 # rs) \<or> (\<exists>p rs. qs = p # rs \<and> (\<nexists>c. p = Lit c))"
  using assms by (cases qs rule: first_char.cases; auto simp: ordinary_def starts_blank_def)+

text \<open>A turn of the loop: ordinary characters, then what they stop at.\<close>

definition stop_turn :: "umark \<Rightarrow> ucs list list \<Rightarrow> (ucs list list + ucs list list) scan" where
  "stop_turn m ds =
     pbind (peek 0) (\<lambda>c.
       if c = 39 then pbind (forward 1) (\<lambda>_. again (ds @ [[c]]))
       else if c = 92 then pbind (scan_escape m) (\<lambda>t. again (ds @ t))
       else leave ds)"

lemma non_spaces_turn_eq:
  "non_spaces_turn True m ds =
     pbind (count_chars (\<lambda>c. \<not> (c = 39 \<or> c = 34 \<or> c = 92 \<or> is_blankz c)) 0) (\<lambda>(n, _).
     pbind (if n \<noteq> 0 then pbind (take_chars n) (\<lambda>v. pret (ds @ [v])) else pret ds) (stop_turn m))"
proof -
  have pret_left: "pbind (pret x) f = f x" for x :: bool and f :: "bool \<Rightarrow> ('s, 'e, 'b) pact"
    by (simp add: fun_eq_iff pbind_def pret_def)
  show ?thesis unfolding non_spaces_turn_def stop_turn_def [abs_def] by (simp add: pret_left cong: if_cong)
qed

lemma stop_turn_held:
  assumes B: "behind lb z ps known qs ds s" and ok: "pieces_ok qs" and lb: "lb \<in> line_breaks"
    and o: "\<forall>c us. qs = Lit c # us \<longrightarrow> \<not> ordinary c"
  shows "runs (stop_turn m ds) s (\<lambda>r s'. case r of
      Inl es \<Rightarrow> \<exists>us. behind lb z ps known us es s' \<and> length us < length qs
    | Inr es \<Rightarrow> es = ds \<and> s' = s \<and> (qs = [] \<or> starts_blank qs)) (\<lambda>_ _. False)"
proof -
  obtain t where t: "rendered lb qs @ 34 # z = first_char qs # t" using rendered_first by blast
  have s: "standing (first_char qs # t) s" using B t by (auto simp: behind_def)
  from first_not_ordinary(2) [OF ok o] consider
    "qs = [] \<or> starts_blank qs" | us where "qs = Lit 39 # us" | p us where "qs = p # us" "\<nexists>c. p = Lit c" by blast
  then show ?thesis
  proof cases
    case 1
    then have "first_char qs = 34 \<or> first_char qs = 32" by (auto simp: starts_blank_def)
    then show ?thesis unfolding stop_turn_def
      using 1 by (intro runs_pbind peek_first [OF s]) (auto intro!: runs_leave)
  next
    case 2
    then have c: "first_char qs = 39" and t': "t = rendered lb us @ 34 # z" using t by auto
    have step: "behind lb z ps known us (ds @ [[39]]) s'" if "standing t s'" for s'
      using behind_step [of lb z ps known "[Lit 39]" us ds s "ds @ [[39]]" s'] B 2 that t' by simp
    show ?thesis unfolding stop_turn_def
      using step 2 c t' by (intro runs_pbind peek_first [OF s]) (auto intro!: runs_pbind runs_again forward_next [OF s] exI [of _ us])
  next
    case 3
    then have c: "first_char qs = 92" by (cases p) auto
    have s1: "standing (render lb p @ rendered lb us @ 34 # z) s" using s t 3 by simp
    have step: "behind lb z ps known us (ds @ u) s'" if "standing (rendered lb us @ 34 # z) s'" "concat u = meaning p" for s' u
      using behind_step [of lb z ps known "[p]" us ds s "ds @ u" s'] B 3 that by simp
    show ?thesis unfolding stop_turn_def
      using c ok 3 step
      by (intro runs_pbind peek_first [OF s]) (auto intro!: runs_pbind runs_again escape_piece_held [OF s1 _ lb 3(2)] exI [of _ us])
  qed
qed

lemma non_spaces_turn_held:
  assumes B: "behind lb z ps known rs cs s" and ok: "pieces_ok ps" and lb: "lb \<in> line_breaks"
  shows "runs (non_spaces_turn True m cs) s (\<lambda>r s'. case r of
      Inl ds \<Rightarrow> \<exists>us. behind lb z ps known us ds s' \<and> length us < length rs
    | Inr ds \<Rightarrow> \<exists>us. behind lb z ps known us ds s' \<and> length us \<le> length rs \<and> (us = [] \<or> starts_blank us)) (\<lambda>_ _. False)"
proof -
  obtain xs qs where rs: "rs = map Lit xs @ qs" "\<forall>x \<in> set xs. ordinary x" "\<forall>c us. qs = Lit c # us \<longrightarrow> \<not> ordinary c"
    using lit_prefix [of rs ordinary] by blast
  have qs: "pieces_ok qs" using behind_ok [OF B ok] rs(1) pieces_ok_tail by blast
  obtain t where t: "rendered lb qs @ 34 # z = first_char qs # t" using rendered_first by blast
  have s: "standing (xs @ first_char qs # t) s" using B rs(1) t by (auto simp: behind_def)
  have after: "runs (stop_turn m ds) s1 (\<lambda>r s'. case r of
      Inl ds \<Rightarrow> \<exists>us. behind lb z ps known us ds s' \<and> length us < length rs
    | Inr ds \<Rightarrow> \<exists>us. behind lb z ps known us ds s' \<and> length us \<le> length rs \<and> (us = [] \<or> starts_blank us)) (\<lambda>_ _. False)"
    if "standing (first_char qs # t) s1" "concat ds = concat cs @ xs" for ds s1
  proof -
    have Bq: "behind lb z ps known qs ds s1"
      using behind_step [of lb z ps known "map Lit xs" qs cs s ds s1] B rs(1) that t by simp
    from stop_turn_held [OF Bq qs lb rs(3)] show ?thesis
      by (rule runs_conseq) (use rs(1) Bq in \<open>auto split: sum.splits\<close>)
  qed
  show ?thesis unfolding non_spaces_turn_eq
  proof (rule runs_pbind, rule count_first [OF s])
    show "\<forall>x \<in> set xs. \<not> (x = 39 \<or> x = 34 \<or> x = 92 \<or> is_blankz x)" using rs(2) by (simp add: ordinary_def)
    show "\<not> \<not> (first_char qs = 39 \<or> first_char qs = 34 \<or> first_char qs = 92 \<or> is_blankz (first_char qs))"
      using first_not_ordinary(1) [OF qs rs(3)] by (simp add: ordinary_def)
    show "runs (case (length xs, first_char qs) of (n, uu) \<Rightarrow>
       pbind (if n \<noteq> 0 then pbind (take_chars n) (\<lambda>v. pret (cs @ [v])) else pret cs) (stop_turn m)) s
      (\<lambda>r s'. case r of
        Inl ds \<Rightarrow> \<exists>us. behind lb z ps known us ds s' \<and> length us < length rs
      | Inr ds \<Rightarrow> \<exists>us. behind lb z ps known us ds s' \<and> length us \<le> length rs \<and> (us = [] \<or> starts_blank us)) (\<lambda>_ _. False)"
      unfolding prod.case
      by (rule runs_pbind, rule runs_if, rule runs_pbind, rule take_held [OF s], simp)
         (use s in \<open>auto intro!: runs_pret after\<close>)
  qed
qed

lemma non_spaces_held:
  assumes B: "behind lb z ps known rs cs s" and ok: "pieces_ok ps" and lb: "lb \<in> line_breaks"
  shows "runs (ploop (non_spaces_turn True m) cs) s
    (\<lambda>ds s'. \<exists>us. behind lb z ps known us ds s' \<and> length us \<le> length rs \<and> (us = [] \<or> starts_blank us)) (\<lambda>_ _. False)"
  using B
proof (induction "length rs" arbitrary: rs cs s rule: less_induct)
  case less
  from runs_sure [OF non_spaces_turn_held [OF less.prems ok lb]] obtain r s' where
    r: "non_spaces_turn True m cs s = Some (Inr r, s')" and c: "case r of
      Inl ds \<Rightarrow> \<exists>us. behind lb z ps known us ds s' \<and> length us < length rs
    | Inr ds \<Rightarrow> \<exists>us. behind lb z ps known us ds s' \<and> length us \<le> length rs \<and> (us = [] \<or> starts_blank us)" by blast
  show ?case
  proof (cases r)
    case (Inl ds)
    then obtain us where us: "behind lb z ps known us ds s'" "length us < length rs" using c by auto
    have "runs (ploop (non_spaces_turn True m) cs) s Q R = runs (ploop (non_spaces_turn True m) ds) s' Q R" for Q R
      using r Inl by (simp add: runs_def ploop.simps [of _ cs])
    moreover from less.hyps [OF us(2,1)] have "runs (ploop (non_spaces_turn True m) ds) s' (\<lambda>ds s'. \<exists>us.
        behind lb z ps known us ds s' \<and> length us \<le> length rs \<and> (us = [] \<or> starts_blank us)) (\<lambda>_ _. False)"
      by (rule runs_conseq) (use us(2) in auto)
    ultimately show ?thesis by simp
  next
    case (Inr ds)
    then have "runs (ploop (non_spaces_turn True m) cs) s Q R = Q ds s'" for Q R
      using r by (simp add: runs_def ploop.simps [of _ cs])
    then show ?thesis using c Inr by simp
  qed
qed

text \<open>A run of blanks and what follows it up to the next.\<close>

lemma blanks_held:
  assumes B: "behind lb z ps known rs cs s" and ok: "pieces_ok rs" and rs: "starts_blank rs"
  shows "runs (scan_flow_scalar_spaces m) s
    (\<lambda>a s'. \<exists>us. behind lb z ps known us (cs @ a) s' \<and> length us < length rs) (\<lambda>_ _. False)"
proof -
  obtain xs qs where x: "rs = map Lit xs @ qs" "\<forall>x \<in> set xs. x = 32" "\<forall>c us. qs = Lit c # us \<longrightarrow> c \<noteq> 32"
    using lit_prefix [of rs "\<lambda>c. c = 32"] by blast
  have "xs \<noteq> []" using x rs by (cases xs) (auto simp: starts_blank_def)
  have qs: "pieces_ok qs" using ok x(1) pieces_ok_tail by blast
  obtain t where t: "rendered lb qs @ 34 # z = first_char qs # t" using rendered_first by blast
  have s: "standing (xs @ first_char qs # t) s" using B x(1) t by (auto simp: behind_def)
  have c: "\<not> is_blank (first_char qs)" "\<not> is_break (first_char qs)" "first_char qs \<noteq> 0"
    using qs x(3) by (cases qs rule: first_char.cases; auto simp: is_blank_def is_break_def is_blankz_def is_spacez_def is_breakz_def)+
  have step: "behind lb z ps known qs (cs @ [xs]) s'" if "standing (first_char qs # t) s'" for s'
    using behind_step [of lb z ps known "map Lit xs" qs cs s "cs @ [xs]" s'] B x(1) that t by simp
  have len: "length qs < length rs" using x(1) \<open>xs \<noteq> []\<close> by simp
  show ?thesis unfolding scan_flow_scalar_spaces_def
  proof (rule runs_pbind, rule count_first [OF s])
    show "\<forall>x \<in> set xs. is_blank x" using x(2) by (simp add: is_blank_def)
    show "runs (case (length xs, first_char qs) of (n, uu) \<Rightarrow> pbind (take_chars n) (\<lambda>whitespaces. pbind (peek 0) (\<lambda>c.
       if c = 0 then scan_fail ''while scanning a quoted scalar'' m (Says ''found unexpected end of stream'')
       else if is_break c then pbind scan_line_break (\<lambda>line_break. pbind (scan_flow_scalar_breaks m) (\<lambda>breaks.
         pret ((if line_break \<noteq> [10] then [line_break] else if breaks = [] then [[32]] else []) @ breaks)))
       else pret [whitespaces]))) s (\<lambda>a s'. \<exists>us. behind lb z ps known us (cs @ a) s' \<and> length us < length rs) (\<lambda>_ _. False)"
      unfolding prod.case
      by (rule runs_pbind, rule take_held [OF s], simp, rule runs_pbind, rule peek_first, assumption)
         (use c len step in \<open>auto intro!: runs_pret exI [of _ qs]\<close>)
  qed (rule c(1))
qed

lemma flow_scalar_turn_held:
  assumes B: "behind lb z ps known rs cs s" and ok: "pieces_ok ps" and lb: "lb \<in> line_breaks" and rs: "rs = [] \<or> starts_blank rs"
  shows "runs (flow_scalar_turn True m 34 cs) s (\<lambda>r s'. case r of
      Inl ds \<Rightarrow> \<exists>us. behind lb z ps known us ds s' \<and> length us < length rs \<and> (us = [] \<or> starts_blank us)
    | Inr ds \<Rightarrow> ds = cs \<and> s' = s \<and> rs = []) (\<lambda>_ _. False)"
proof (cases "rs = []")
  case True
  then have "standing (34 # z) s" using B by (auto simp: behind_def)
  then show ?thesis using True unfolding flow_scalar_turn_def
    by (intro runs_pbind peek_first) (auto intro: runs_leave)
next
  case False
  then have rs: "starts_blank rs" using assms(4) by simp
  obtain t where "standing (32 # t) s" using B rs by (auto simp: behind_def starts_blank_def)
  moreover have "runs (pbind (scan_flow_scalar_spaces m) (\<lambda>a. pbind (scan_flow_scalar_non_spaces True m) (\<lambda>b. again (cs @ a @ b)))) s
    (\<lambda>r s'. case r of
      Inl ds \<Rightarrow> \<exists>us. behind lb z ps known us ds s' \<and> length us < length rs \<and> (us = [] \<or> starts_blank us)
    | Inr ds \<Rightarrow> ds = cs \<and> s' = s \<and> rs = []) (\<lambda>_ _. False)"
  proof (rule runs_pbind_seq [OF blanks_held [OF B behind_ok [OF B ok] rs]])
    fix a s1 assume "\<exists>us. behind lb z ps known us (cs @ a) s1 \<and> length us < length rs"
    then obtain us where us: "behind lb z ps known us (cs @ a) s1" "length us < length rs" by blast
    obtain qs where qs: "ps = qs @ us" "concat (cs @ a) = known @ meant qs" "standing (rendered lb us @ 34 # z) s1"
      using us(1) by (auto simp: behind_def)
    have B2: "behind lb z us [] us [] s1" using qs(3) by (simp add: behind_def)
    have ok2: "pieces_ok us" using behind_ok [OF us(1) ok] .
    show "runs (pbind (scan_flow_scalar_non_spaces True m) (\<lambda>b. again (cs @ a @ b))) s1 (\<lambda>r s'. case r of
      Inl ds \<Rightarrow> \<exists>us. behind lb z ps known us ds s' \<and> length us < length rs \<and> (us = [] \<or> starts_blank us)
    | Inr ds \<Rightarrow> ds = cs \<and> s' = s \<and> rs = []) (\<lambda>_ _. False)"
      unfolding scan_flow_scalar_non_spaces_def
    proof (rule runs_pbind_seq [OF non_spaces_held [OF B2 ok2 lb]])
      fix b s2 assume "\<exists>vs. behind lb z us [] vs b s2 \<and> length vs \<le> length us \<and> (vs = [] \<or> starts_blank vs)"
      then obtain vs ws where v: "us = ws @ vs" "concat b = meant ws" "standing (rendered lb vs @ 34 # z) s2"
        "length vs \<le> length us" "vs = [] \<or> starts_blank vs" by (auto simp: behind_def)
      have "behind lb z ps known vs (cs @ a @ b) s2" unfolding behind_def
        by (rule exI [of _ "qs @ ws"]) (use qs(1,2) v in simp)
      then show "runs (again (cs @ a @ b)) s2 (\<lambda>r s'. case r of
          Inl ds \<Rightarrow> \<exists>us. behind lb z ps known us ds s' \<and> length us < length rs \<and> (us = [] \<or> starts_blank us)
        | Inr ds \<Rightarrow> ds = cs \<and> s' = s \<and> rs = []) (\<lambda>_ _. False)"
        using v(4,5) us(2) by (intro runs_again) (auto intro!: exI [of _ vs])
    qed
  qed
  ultimately show ?thesis unfolding flow_scalar_turn_def by (intro runs_pbind peek_first) auto
qed

lemma flow_scalar_held:
  assumes B: "behind lb z ps known rs cs s" and ok: "pieces_ok ps" and lb: "lb \<in> line_breaks" and rs: "rs = [] \<or> starts_blank rs"
  shows "runs (ploop (flow_scalar_turn True m 34) cs) s
    (\<lambda>ds s'. concat ds = known @ meant ps \<and> standing (34 # z) s') (\<lambda>_ _. False)"
  using B rs
proof (induction "length rs" arbitrary: rs cs s rule: less_induct)
  case less
  from runs_sure [OF flow_scalar_turn_held [OF less.prems(1) ok lb less.prems(2)]] obtain r s' where
    r: "flow_scalar_turn True m 34 cs s = Some (Inr r, s')" and c: "case r of
      Inl ds \<Rightarrow> \<exists>us. behind lb z ps known us ds s' \<and> length us < length rs \<and> (us = [] \<or> starts_blank us)
    | Inr ds \<Rightarrow> ds = cs \<and> s' = s \<and> rs = []" by blast
  show ?case
  proof (cases r)
    case (Inl ds)
    then obtain us where "behind lb z ps known us ds s'" "length us < length rs" "us = [] \<or> starts_blank us" using c by auto
    from less.hyps [OF this(2,1,3)] show ?thesis using r Inl by (simp add: runs_def ploop.simps [of _ cs])
  next
    case (Inr ds)
    then show ?thesis using r c less.prems(1) by (auto simp: runs_def ploop.simps [of _ cs] behind_def)
  qed
qed

text \<open>The scanner reads pieces between double quotes as what they mean.\<close>

lemma scan_pieces:
  assumes s: "standing (34 # rendered lb ps @ 34 # z) s" and ok: "pieces_ok ps" and lb: "lb \<in> line_breaks" and z: "z \<noteq> []"
  shows "runs (scan_flow_scalar dquote) s (\<lambda>t s'. utk t = ScalarToken (meant ps) False (Some dquote) \<and> standing z s') (\<lambda>_ _. False)"
  unfolding scan_flow_scalar_def Let_def scan_flow_scalar_non_spaces_def
proof (rule runs_pbind, rule mark_held [OF s], rule runs_pbind, rule peek_first [OF s], rule runs_pbind, rule forward_first [OF s], simp)
  fix m s1 assume "standing (rendered lb ps @ 34 # z) s1"
  then have B: "behind lb z ps [] ps [] s1" by (simp add: behind_def)
  have d: "(dquote = dquote) = True" by simp
  show "runs (pbind (ploop (non_spaces_turn (dquote = dquote) m) []) (\<lambda>chunks. pbind (ploop (flow_scalar_turn (dquote = dquote) m 34) chunks)
      (\<lambda>chunks. pbind (forward 1) (\<lambda>_. pbind get_mark (\<lambda>e. pret (utoken_at (ScalarToken (concat chunks) False (Some dquote)) m e)))))) s1
      (\<lambda>t s'. utk t = ScalarToken (meant ps) False (Some dquote) \<and> standing z s') (\<lambda>_ _. False)"
    unfolding d
  proof (rule runs_pbind_seq [OF non_spaces_held [OF B ok lb]])
    fix cs s2 assume "\<exists>us. behind lb z ps [] us cs s2 \<and> length us \<le> length ps \<and> (us = [] \<or> starts_blank us)"
    then obtain us where us: "behind lb z ps [] us cs s2" "us = [] \<or> starts_blank us" by blast
    show "runs (pbind (ploop (flow_scalar_turn True m 34) cs) (\<lambda>chunks. pbind (forward 1) (\<lambda>_. pbind get_mark
        (\<lambda>e. pret (utoken_at (ScalarToken (concat chunks) False (Some dquote)) m e))))) s2
        (\<lambda>t s'. utk t = ScalarToken (meant ps) False (Some dquote) \<and> standing z s') (\<lambda>_ _. False)"
    proof (rule runs_pbind_seq [OF flow_scalar_held [OF us(1) ok lb us(2)]])
      fix ds s3 assume ds: "concat ds = [] @ meant ps \<and> standing (34 # z) s3"
      then have s3: "standing (34 # z) s3" by simp
      show "runs (pbind (forward 1) (\<lambda>_. pbind get_mark (\<lambda>e. pret (utoken_at (ScalarToken (concat ds) False (Some dquote)) m e)))) s3
          (\<lambda>t s'. utk t = ScalarToken (meant ps) False (Some dquote) \<and> standing z s') (\<lambda>_ _. False)"
      proof (rule runs_pbind, rule forward_first [OF s3 z])
        fix s4 assume s4: "standing z s4"
        show "runs (pbind get_mark (\<lambda>e. pret (utoken_at (ScalarToken (concat ds) False (Some dquote)) m e))) s4
            (\<lambda>t s'. utk t = ScalarToken (meant ps) False (Some dquote) \<and> standing z s') (\<lambda>_ _. False)"
          using ds s4 by (intro runs_pbind mark_held [OF s4] runs_pret) (simp add: utoken_at_def)
      qed
    qed
  qed
qed

end
