(* ===== verification/Yaml_Double.thy ===== *)
theory Yaml_Double
  imports Yaml_Quoted
begin

text \<open>
  The writer of double-quoted scalars: what it writes is pieces that mean the text, so the
  scanner reads the text back, wherever the writer broke the line.
\<close>

section \<open>What writers change\<close>

text \<open>The state without what the writers change: the output and the place in it.\<close>

definition core :: "emitter \<Rightarrow> emitter" where
  "core e = e\<lparr>e_out := [], e_line := 0, e_column := 0, e_whitespace := True, e_indention := True, e_open_ended := False\<rparr>"

lemma core_simps [simp]:
  "core (e\<lparr>e_out := x\<rparr>) = core e" "core (e\<lparr>e_line := n\<rparr>) = core e" "core (e\<lparr>e_column := n\<rparr>) = core e"
  "core (e\<lparr>e_whitespace := b\<rparr>) = core e" "core (e\<lparr>e_indention := b\<rparr>) = core e" "core (e\<lparr>e_open_ended := b\<rparr>) = core e"
  by (simp_all add: core_def)

lemma core_fields:
  assumes "core e = core e'"
  shows "e_encoding e = e_encoding e'" "e_indent e = e_indent e'" "e_allow_unicode e = e_allow_unicode e'"
    "e_best_line_break e = e_best_line_break e'" "e_best_width e = e_best_width e'"
  using arg_cong [OF assms, of e_encoding] arg_cong [OF assms, of e_indent] arg_cong [OF assms, of e_allow_unicode]
    arg_cong [OF assms, of e_best_line_break] arg_cong [OF assms, of e_best_width]
  by (simp_all add: core_def)

fun raw_text :: "raw \<Rightarrow> ucs list" where
  "raw_text (RawText t) = t"
| "raw_text (RawBytes bs) = []"

definition written :: "emitter \<Rightarrow> ucs list" where
  "written e = concat (map raw_text (e_out e))"

lemma put_run: "e_encoding e = None \<Longrightarrow> put t e = (Inr (), e\<lparr>e_out := e_out e @ [RawText t]\<rparr>)"
  by (simp add: put_def)

lemma put_counted_run:
  assumes "e_encoding e = None"
  obtains e' where "put_counted t e = (Inr (), e')" and "core e' = core e" and "written e' = written e @ t"
    and "e_column e' = e_column e + length t" and "e_indention e' = e_indention e" and "e_whitespace e' = e_whitespace e"
proof -
  have "put_counted t e = put t (e\<lparr>e_column := e_column e + length t\<rparr>)" by (simp add: put_counted_def)
  then show ?thesis using assms that put_run [of "e\<lparr>e_column := e_column e + length t\<rparr>" t]
    by (simp add: written_def)
qed

lemma write_indicator_run:
  assumes "e_encoding e = None"
  obtains e' where "write_indicator t need w ind e = (Inr (), e')" and "core e' = core e"
    and "written e' = written e @ (if e_whitespace e \<or> \<not> need then t else 32 # t)"
    and "e_indention e' = (e_indention e \<and> ind)" and "e_whitespace e' = w"
    and "e_column e' = e_column e + length (if e_whitespace e \<or> \<not> need then t else 32 # t)"
proof -
  let ?d = "if e_whitespace e \<or> \<not> need then t else 32 # t"
  let ?e = "e\<lparr>e_whitespace := w, e_indention := e_indention e \<and> ind, e_column := e_column e + length ?d, e_open_ended := False\<rparr>"
  have "write_indicator t need w ind e = put ?d ?e" by (simp add: write_indicator_def)
  then show ?thesis using assms that put_run [of ?e ?d] by (simp add: written_def)
qed

lemma write_line_break_run:
  assumes "e_encoding e = None"
  obtains e' where "write_line_break b e = (Inr (), e')" and "core e' = core e"
    and "written e' = written e @ (case b of None \<Rightarrow> e_best_line_break e | Some t \<Rightarrow> t)"
    and "e_column e' = 0" and "e_whitespace e'" and "e_indention e'"
proof -
  let ?e = "e\<lparr>e_whitespace := True, e_indention := True, e_line := e_line e + 1, e_column := 0\<rparr>"
  have "write_line_break b e = put (case b of None \<Rightarrow> e_best_line_break e | Some t \<Rightarrow> t) ?e" by (simp add: write_line_break_def)
  then show ?thesis using assms that put_run [of ?e] by (simp add: written_def)
qed

text \<open>\<open>write_indent\<close> where a new line has to begin.\<close>

lemma write_indent_run:
  assumes "e_encoding e = None" and "e_indent e = Some i" and "\<not> e_indention e \<or> i < e_column e"
  obtains e' where "write_indent e = (Inr (), e')" and "core e' = core e"
    and "written e' = written e @ e_best_line_break e @ replicate i 32" and "e_column e' = i" and "e_whitespace e'" and "e_indention e'"
proof -
  obtain e1 where e1: "write_line_break None e = (Inr (), e1)" "core e1 = core e" "written e1 = written e @ e_best_line_break e"
    "e_column e1 = 0" "e_whitespace e1" "e_indention e1"
    using write_line_break_run [OF assms(1), of None] by auto
  have i: "indent_of e = i" using assms(2) by (simp add: indent_of_def)
  let ?e2 = "e1\<lparr>e_whitespace := True, e_column := i\<rparr>"
  have enc: "e_encoding ?e2 = None" using core_fields(1) [OF e1(2)] assms(1) by simp
  have "write_indent e = (if 0 < i then put (replicate i 32) ?e2 else (Inr (), e1))"
    using assms(3) e1(1,4) i by (auto simp: write_indent_def sbind_def)
  note run = this
  show ?thesis
  proof (cases "0 < i")
    case True
    then show ?thesis using that [of "?e2\<lparr>e_out := e_out ?e2 @ [RawText (replicate i 32)]\<rparr>"] run put_run [OF enc, of "replicate i 32"] e1
      by (simp add: written_def)
  next
    case False
    then show ?thesis using that [of e1] run e1 by simp
  qed
qed

section \<open>Pieces of a text\<close>

definition ends_fold :: "piece list \<Rightarrow> bool" where
  "ends_fold ps = (ps \<noteq> [] \<and> (\<exists>n. last ps = Fold n))"

text \<open>
  \<open>shows lb text start p W\<close>: what is written, \<open>W\<close>, means the text up to \<open>start\<close>, and if \<open>p\<close> a
  backslash is written that escapes the blank that comes next.
\<close>

definition shows_text :: "ucs list \<Rightarrow> ucs list \<Rightarrow> nat \<Rightarrow> bool \<Rightarrow> ucs list \<Rightarrow> bool" where
  "shows_text lb text start p W = (\<exists>ps. W = rendered lb ps @ (if p then [92] else []) \<and> meant ps = take start text \<and> pieces_ok ps \<and>
     (if p then start < length text \<and> text ! start = 32 else ends_fold ps \<longrightarrow> start < length text \<and> text ! start \<noteq> 32))"

lemma no_blank_next: "(case ps of Lit c # x \<Rightarrow> c \<noteq> 32 | _ \<Rightarrow> True) = (\<not> starts_blank ps)"
  by (cases ps rule: first_char.cases) (auto simp: starts_blank_def)

lemma pieces_ok_append:
  "pieces_ok ps \<Longrightarrow> pieces_ok qs \<Longrightarrow> (ends_fold ps \<longrightarrow> \<not> starts_blank qs) \<Longrightarrow> pieces_ok (ps @ qs)"
proof (induction ps)
  case (Cons p ps)
  have "pieces_ok (ps @ qs)" using Cons by (auto simp: ends_fold_def split: if_splits)
  moreover have "\<not> starts_blank (ps @ qs)" if "\<exists>n. p = Fold n"
  proof (cases ps)
    case Nil
    then have "ends_fold (p # ps)" using that by (simp add: ends_fold_def)
    then show ?thesis using Cons.prems(3) Nil by simp
  next
    case (Cons x xs)
    have "\<not> starts_blank ps" using \<open>pieces_ok (p # ps)\<close> that by (simp add: no_blank_next)
    then show ?thesis using Cons by (simp add: starts_blank_def)
  qed
  ultimately show ?case using Cons.prems(1) by (simp add: no_blank_next)
qed simp

lemma not_escaped: "\<not> must_escape u c \<Longrightarrow> piece_ok (Lit c)"
  by (auto simp: must_escape_def is_blankz_def is_spacez_def is_breakz_def is_break_def)

lemma lits_ok: "\<forall>c \<in> set xs. piece_ok (Lit c) \<Longrightarrow> pieces_ok (map Lit xs)"
  by (induction xs) auto

lemma take_slice: "start \<le> stop \<Longrightarrow> take start text @ slice text start stop = take stop text"
  unfolding slice_def by (metis append_take_drop_id min.absorb1 take_take)

lemma slice_first: "start < stop \<Longrightarrow> stop \<le> length text \<Longrightarrow> slice text start stop = text ! start # slice text (Suc start) stop"
  unfolding slice_def by (metis Cons_nth_drop_Suc length_take min.absorb2 nth_take)

lemma set_slice: "c \<in> set (slice text start stop) \<Longrightarrow> \<exists>k. start \<le> k \<and> k < stop \<and> k < length text \<and> c = text ! k"
proof -
  assume "c \<in> set (slice text start stop)"
  then obtain i where "i < length (slice text start stop)" "c = slice text start stop ! i" by (auto simp: in_set_conv_nth)
  then show ?thesis by (intro exI [of _ "start + i"]) (simp add: slice_def less_diff_conv add.commute)
qed

lemma shows_slice:
  assumes W: "shows_text lb text start p W" and k: "start < stop" "stop \<le> length text"
    and c: "\<And>k. start \<le> k \<Longrightarrow> k < stop \<Longrightarrow> \<not> must_escape u (text ! k)"
  shows "shows_text lb text stop False (W @ slice text start stop)"
proof -
  obtain ps where ps: "W = rendered lb ps @ (if p then [92] else [])" "meant ps = take start text" "pieces_ok ps"
    "if p then start < length text \<and> text ! start = 32 else ends_fold ps \<longrightarrow> start < length text \<and> text ! start \<noteq> 32"
    using W by (auto simp: shows_text_def)
  have first: "slice text start stop = text ! start # slice text (Suc start) stop" by (rule slice_first [OF k])
  have lits: "pieces_ok (map Lit (slice text (Suc start) stop))" "pieces_ok (map Lit (slice text start stop))"
    using c by (auto intro!: lits_ok not_escaped [of u] dest!: set_slice simp del: piece_ok.simps)
  have m: "take start text @ slice text start stop = take stop text" using k by (intro take_slice) simp
  show ?thesis
  proof (cases p)
    case True
    let ?qs = "Blank # map Lit (slice text (Suc start) stop)"
    have "pieces_ok ?qs" using lits by simp
    then have "pieces_ok (ps @ ?qs)" by (intro pieces_ok_append [OF ps(3)]) (auto simp: starts_blank_def)
    moreover have "meant (ps @ ?qs) = take stop text" using ps(2,4) True m first by simp
    moreover have "\<not> ends_fold (ps @ ?qs)" by (auto simp: ends_fold_def last_map)
    ultimately show ?thesis using ps(1,4) True first unfolding shows_text_def by (intro exI [of _ "ps @ ?qs"]) simp
  next
    case False
    let ?qs = "map Lit (slice text start stop)"
    have "pieces_ok (ps @ ?qs)" using lits ps(3,4) False first
      by (intro pieces_ok_append) (auto simp: starts_blank_def)
    moreover have "meant (ps @ ?qs) = take stop text" using ps(2) m by simp
    moreover have "\<not> ends_fold (ps @ ?qs)" using first by (auto simp: ends_fold_def last_map)
    ultimately show ?thesis using ps(1) False unfolding shows_text_def by (intro exI [of _ "ps @ ?qs"]) simp
  qed
qed

lemma shows_escape:
  assumes W: "shows_text lb text start False W" and k: "start < length text" and c: "text ! start \<le> 1114111"
  shows "shows_text lb text (Suc start) False (W @ escape_of (text ! start))"
proof -
  obtain ps where ps: "W = rendered lb ps" "meant ps = take start text" "pieces_ok ps"
    using W by (auto simp: shows_text_def)
  have "pieces_ok (ps @ [Esc (text ! start)])" using c by (intro pieces_ok_append [OF ps(3)]) (auto simp: starts_blank_def)
  moreover have "meant (ps @ [Esc (text ! start)]) = take (Suc start) text" using ps(2) k by (simp add: take_Suc_conv_app_nth)
  moreover have "\<not> ends_fold (ps @ [Esc (text ! start)])" by (simp add: ends_fold_def)
  ultimately show ?thesis using ps(1) unfolding shows_text_def by (intro exI [of _ "ps @ [Esc (text ! start)]"]) simp
qed

lemma shows_fold:
  assumes W: "shows_text lb text start False W" and k: "start < length text" and i: "0 < i"
  shows "shows_text lb text start (text ! start = 32) (W @ 92 # lb @ replicate i 32 @ (if text ! start = 32 then [92] else []))"
proof -
  obtain ps where ps: "W = rendered lb ps" "meant ps = take start text" "pieces_ok ps"
    using W by (auto simp: shows_text_def)
  have "pieces_ok (ps @ [Fold i])" using i by (intro pieces_ok_append [OF ps(3)]) (auto simp: starts_blank_def)
  then show ?thesis using ps(1,2) k unfolding shows_text_def by (intro exI [of _ "ps @ [Fold i]"]) auto
qed

section \<open>The writer\<close>

text \<open>
  The settings under which it is right: text output, an indentation that is neither zero (the
  scanner looks for document markers in the first column) nor beyond the width of a line
  (where a blank that is already escaped would be escaped again).
\<close>

definition quotable :: "emitter \<Rightarrow> nat \<Rightarrow> ucs list \<Rightarrow> bool" where
  "quotable e i text = (e_encoding e = None \<and> e_indent e = Some i \<and> 0 < i \<and> int i < e_best_width e \<and>
     e_best_line_break e \<in> line_breaks \<and> (\<forall>c \<in> set text. c \<le> 1114111))"

definition drawing :: "emitter \<Rightarrow> ucs list \<Rightarrow> ucs list \<Rightarrow> nat \<Rightarrow> bool \<Rightarrow> emitter \<Rightarrow> bool" where
  "drawing e0 O' text start p e = (core e = core e0 \<and> \<not> e_indention e \<and>
     (\<exists>W. written e = O' @ W \<and> shows_text (e_best_line_break e0) text start p W))"

lemma drawing_settings:
  assumes "drawing e0 O' text start p e"
  shows "e_encoding e = e_encoding e0" "e_indent e = e_indent e0" "e_allow_unicode e = e_allow_unicode e0"
    "e_best_line_break e = e_best_line_break e0" "e_best_width e = e_best_width e0"
  using core_fields [of e e0] assms by (simp_all add: drawing_def)

text \<open>The place where \<open>double_fold\<close> and the next turn start: nothing in between needs an escape.\<close>

definition clear_to :: "emitter \<Rightarrow> ucs list \<Rightarrow> nat \<Rightarrow> nat \<Rightarrow> bool" where
  "clear_to e0 text start stop = (\<forall>k. start \<le> k \<longrightarrow> k < stop \<longrightarrow> \<not> must_escape (e_allow_unicode e0) (text ! k))"

lemma put_slice:
  assumes D: "drawing e0 O' text start p e" and q: "quotable e0 i text" and k: "start < stop" "stop \<le> length text" "clear_to e0 text start stop"
  shows "\<exists>e'. put_counted (slice text start stop) e = (Inr (), e') \<and> drawing e0 O' text stop False e'"
proof -
  have "e_encoding e = None" using drawing_settings(1) [OF D] q by (simp add: quotable_def)
  from put_counted_run [OF this, of "slice text start stop"] obtain e' where e': "put_counted (slice text start stop) e = (Inr (), e')"
    "core e' = core e" "written e' = written e @ slice text start stop" "e_indention e' = e_indention e" by metis
  obtain W where W: "written e = O' @ W" "shows_text (e_best_line_break e0) text start p W" using D by (auto simp: drawing_def)
  have "shows_text (e_best_line_break e0) text stop False (W @ slice text start stop)"
    by (rule shows_slice [OF W(2) k(1,2), of "e_allow_unicode e0"]) (use k(3) in \<open>simp add: clear_to_def\<close>)
  then show ?thesis using e' D W(1) by (auto simp: drawing_def)
qed

lemma put_escape:
  assumes D: "drawing e0 O' text start False e" and q: "quotable e0 i text" and k: "start < length text"
  shows "\<exists>e'. put_counted (escape_of (text ! start)) e = (Inr (), e') \<and> drawing e0 O' text (Suc start) False e'"
proof -
  have "e_encoding e = None" using drawing_settings(1) [OF D] q by (simp add: quotable_def)
  from put_counted_run [OF this, of "escape_of (text ! start)"] obtain e' where e': "put_counted (escape_of (text ! start)) e = (Inr (), e')"
    "core e' = core e" "written e' = written e @ escape_of (text ! start)" "e_indention e' = e_indention e" by metis
  obtain W where W: "written e = O' @ W" "shows_text (e_best_line_break e0) text start False W" using D by (auto simp: drawing_def)
  have "text ! start \<le> 1114111" using q k by (simp add: quotable_def)
  from shows_escape [OF W(2) k this] show ?thesis using e' D W(1) by (auto simp: drawing_def)
qed

text \<open>Up to the place \<open>stop\<close> or, when the character there is escaped, behind it.\<close>

lemma double_chars_run:
  assumes D: "drawing e0 O' text start p e" and q: "quotable e0 i text" and k: "start \<le> stop" "stop \<le> length text"
    and c: "clear_to e0 text start stop"
  shows "\<exists>start' p' e'. double_chars text start stop e = (Inr start', e') \<and> drawing e0 O' text start' p' e' \<and>
    (if stop = length text then start' = stop \<and> \<not> p'
     else clear_to e0 text start' (Suc stop) \<and> start' \<le> Suc stop \<and> (start' = start \<and> p' = p \<and> e' = e \<or> start' = Suc stop \<and> \<not> p'))"
proof -
  have uni: "e_allow_unicode e = e_allow_unicode e0" by (rule drawing_settings(3) [OF D])
  obtain q1 e1 where e1: "(if start < stop then sbind (put_counted (slice text start stop)) (\<lambda>_. ret stop) else ret start) e = (Inr stop, e1)"
      "drawing e0 O' text stop q1 e1" "start < stop \<longrightarrow> \<not> q1" "\<not> start < stop \<longrightarrow> q1 = p \<and> start = stop"
  proof (cases "start < stop")
    case True
    obtain e' where "put_counted (slice text start stop) e = (Inr (), e')" "drawing e0 O' text stop False e'"
      using put_slice [OF D q True k(2) c] by blast
    then show ?thesis using True that [of e' False] by (simp add: sbind_def)
  next
    case False
    then show ?thesis using D k(1) that [of e p] by simp
  qed
  have run: "sbind (if start < stop then sbind (put_counted (slice text start stop)) (\<lambda>_. ret stop) else ret start) f e = f stop e1" for f
    by (rule sbind_Inr) (rule e1(1))
  have p: "p \<Longrightarrow> start < length text \<and> text ! start = 32" using D by (auto simp: drawing_def shows_text_def)
  have q1: "q1 \<Longrightarrow> stop < length text \<and> text ! stop = 32" using e1(3,4) p by (cases "start < stop") auto
  show ?thesis
  proof (cases "stop = length text")
    case True
    then have ch: "char_at text stop = None" by (simp add: char_at_def)
    then have "double_chars text start stop e = (Inr stop, e1)"
      using run [of "\<lambda>x. ret x"] by (simp add: double_chars_def is_end_def split del: if_split)
    moreover have "\<not> q1" using q1 True by blast
    ultimately show ?thesis using e1(2) True by (intro exI [of _ stop] exI [of _ q1] exI [of _ e1]) simp
  next
    case False
    then have ch: "char_at text stop = Some (text ! stop)" and kl: "stop < length text" using k(2) by (simp_all add: char_at_def)
    show ?thesis
    proof (cases "must_escape (e_allow_unicode e0) (text ! stop)")
      case True
      have "\<not> q1" using q1 True by (auto simp: must_escape_def)
      then obtain e2 where e2: "put_counted (escape_of (text ! stop)) e1 = (Inr (), e2)" "drawing e0 O' text (Suc stop) False e2"
        using put_escape [OF _ q kl, of O' e1] e1(2) by auto
      have "double_chars text start stop e = (Inr (Suc stop), e2)"
        using e2(1) ch uni True by (simp add: double_chars_def is_end_def run sbind_Inr split del: if_split)
      then show ?thesis using e2(2) False by (intro exI [of _ "Suc stop"] exI [of _ False] exI [of _ e2]) (simp add: clear_to_def)
    next
      case no: False
      then have "double_chars text start stop e = (Inr start, e)"
        using ch uni by (simp add: double_chars_def is_end_def)
      moreover have "clear_to e0 text start (Suc stop)" using c no by (auto simp: clear_to_def less_Suc_eq)
      ultimately show ?thesis using D False k(1) by (intro exI [of _ start] exI [of _ p] exI [of _ e]) simp
    qed
  qed
qed

lemma double_break_run:
  assumes e: "core e = core e0" "\<not> e_indention e" "written e = O' @ W @ [92]" and W: "shows_text (e_best_line_break e0) text start False W"
    and q: "quotable e0 i text" and k: "start < length text"
  shows "\<exists>e'. double_break text start e = (Inr start, e') \<and> drawing e0 O' text start (text ! start = 32) e' \<and>
    (text ! start = 32 \<longrightarrow> e_column e' = i + 1)"
proof -
  note s = core_fields [OF e(1)]
  have enc: "e_encoding e = None" "e_indent e = Some i" using s q by (simp_all add: quotable_def)
  obtain e1 where e1: "write_indent e = (Inr (), e1)" "core e1 = core e" "written e1 = written e @ e_best_line_break e @ replicate i 32"
    "e_column e1 = i" using write_indent_run [OF enc] e(2) by metis
  let ?e2 = "e1\<lparr>e_whitespace := False, e_indention := False\<rparr>"
  have "e_encoding ?e2 = None" using core_fields(1) [OF e1(2)] enc by simp
  from put_counted_run [OF this, of "[92]"] obtain e3 where e3: "put_counted [92] ?e2 = (Inr (), e3)" "core e3 = core ?e2"
    "written e3 = written ?e2 @ [92]" "e_column e3 = e_column ?e2 + length [92 :: ucs]" "e_indention e3 = e_indention ?e2" by metis
  have get: "text_get text start x = (Inr (text ! start), x)" for x using k by (simp add: text_get_def of_res_def)
  define e' where "e' = (if text ! start = 32 then e3 else ?e2)"
  have run: "double_break text start e = (Inr start, e')"
    using e1(1) e3(1) by (simp add: double_break_def sbind_def get e'_def)
  have w2: "written ?e2 = written e1" by (simp add: written_def)
  have "written e' = O' @ W @ 92 # e_best_line_break e0 @ replicate i 32 @ (if text ! start = 32 then [92] else [])"
    using e3(3) w2 e1(3) e(3) s(4) by (simp add: e'_def)
  moreover have "core e' = core e0" "\<not> e_indention e'" using e3(2,5) e1(2) e(1) by (simp_all add: e'_def)
  moreover have "shows_text (e_best_line_break e0) text start (text ! start = 32)
      (W @ 92 # e_best_line_break e0 @ replicate i 32 @ (if text ! start = 32 then [92] else []))"
    using shows_fold [OF W k] q by (simp add: quotable_def)
  moreover have "text ! start = 32 \<longrightarrow> e_column e' = i + 1" using e3(4) e1(4) by (simp add: e'_def)
  ultimately show ?thesis using run unfolding drawing_def by blast
qed

text \<open>A backslash in front of a blank stands in a column that leaves room for it.\<close>

lemma double_fold_run:
  assumes D: "drawing e0 O' text start p e" and q: "quotable e0 i text" and k: "start \<le> Suc stop" "stop < length text"
    and c: "clear_to e0 text start (Suc stop)" and p: "p \<Longrightarrow> start = stop \<Longrightarrow> e_column e = i + 1" and np: "start = Suc stop \<Longrightarrow> \<not> p"
  shows "\<exists>start' p' e'. double_fold text split start stop e = (Inr start', e') \<and> drawing e0 O' text start' p' e' \<and>
    start' \<le> Suc stop \<and> clear_to e0 text start' (Suc stop) \<and> (p' \<longrightarrow> start' = Suc stop \<longrightarrow> e_column e' = i + 1)"
proof (cases "0 < stop \<and> stop + 1 < length text \<and> (char_at text stop = Some 32 \<or> stop \<le> start) \<and>
    e_best_width e < int (e_column e) + (int stop - int start) \<and> split")
  case False
  then have "double_fold text split start stop e = (Inr start, e)" by (auto simp: double_fold_def)
  then show ?thesis using D k c np by blast
next
  case True
  note s = drawing_settings [OF D]
  have enc: "e_encoding e = None" using s(1) q by (simp add: quotable_def)
  have room: "\<not> (p \<and> start = stop)" using True p s(5) q by (auto simp: quotable_def)
  obtain W where W: "written e = O' @ W" "shows_text (e_best_line_break e0) text start p W" using D by (auto simp: drawing_def)
  from put_counted_run [OF enc, of "slice text start stop @ [92]"] obtain e1 where
    e1: "put_counted (slice text start stop @ [92]) e = (Inr (), e1)" "core e1 = core e"
    "written e1 = written e @ slice text start stop @ [92]" "e_indention e1 = e_indention e" by metis
  let ?s = "if start < stop then stop else start"
  have sl: "?s < length text" using True k by auto
  have W': "shows_text (e_best_line_break e0) text ?s False (W @ slice text start stop)"
  proof (cases "start < stop")
    case True
    then show ?thesis using shows_slice [OF W(2) True, of "e_allow_unicode e0"] c k(2) by (simp add: clear_to_def)
  next
    case no: False
    then have "\<not> p" using room np k(1) by (cases "start = stop") auto
    then show ?thesis using W(2) no by (simp add: slice_def)
  qed
  have "core e1 = core e0" "\<not> e_indention e1" "written e1 = O' @ (W @ slice text start stop) @ [92]"
    using D e1 W(1) by (simp_all add: drawing_def)
  from double_break_run [OF this W' q sl] obtain e' where e': "double_break text ?s e1 = (Inr ?s, e')"
    "drawing e0 O' text ?s (text ! ?s = 32) e'" "text ! ?s = 32 \<longrightarrow> e_column e' = i + 1" by blast
  have "double_fold text split start stop e = (Inr ?s, e')"
    using True e1(1) e'(1) by (simp add: double_fold_def sbind_def)
  moreover have "?s \<le> Suc stop" "clear_to e0 text ?s (Suc stop)" using k c by (auto simp: clear_to_def)
  ultimately show ?thesis using e'(2,3) by blast
qed

definition at_turn :: "emitter \<Rightarrow> ucs list \<Rightarrow> ucs list \<Rightarrow> nat \<Rightarrow> nat \<Rightarrow> nat \<Rightarrow> emitter \<Rightarrow> bool" where
  "at_turn e0 O' text i stop start e = (\<exists>p. drawing e0 O' text start p e \<and> start \<le> stop \<and> clear_to e0 text start stop \<and>
     (p \<longrightarrow> start = stop \<longrightarrow> e_column e = i + 1))"

lemma double_turn_run:
  assumes T: "at_turn e0 O' text i stop start e" and q: "quotable e0 i text" and k: "stop < length text"
  shows "\<exists>start' e'. double_turn text split start stop e = (Inr start', e') \<and> at_turn e0 O' text i (Suc stop) start' e'"
proof -
  obtain p where p: "drawing e0 O' text start p e" "start \<le> stop" "clear_to e0 text start stop" "p \<longrightarrow> start = stop \<longrightarrow> e_column e = i + 1"
    using T by (auto simp: at_turn_def)
  obtain start1 p1 e1 where e1: "double_chars text start stop e = (Inr start1, e1)" "drawing e0 O' text start1 p1 e1"
    "clear_to e0 text start1 (Suc stop)" "start1 \<le> Suc stop" "start1 = start \<and> p1 = p \<and> e1 = e \<or> start1 = Suc stop \<and> \<not> p1"
    using double_chars_run [OF p(1) q p(2) _ p(3)] k by force
  have "\<exists>start' p' e'. double_fold text split start1 stop e1 = (Inr start', e') \<and> drawing e0 O' text start' p' e' \<and>
    start' \<le> Suc stop \<and> clear_to e0 text start' (Suc stop) \<and> (p' \<longrightarrow> start' = Suc stop \<longrightarrow> e_column e' = i + 1)"
    by (rule double_fold_run [OF e1(2) q e1(4) k e1(3)]) (use e1(5) p(2,4) in auto)
  then show ?thesis using e1(1) by (auto simp: double_turn_def sbind_def at_turn_def)
qed

lemma double_loop_run:
  assumes q: "quotable e0 i text"
  shows "at_turn e0 O' text i stop start e \<Longrightarrow> stop \<le> length text \<Longrightarrow>
    \<exists>start' e'. sfold (double_turn text split) start [stop..<Suc (length text)] e = (Inr start', e') \<and>
      drawing e0 O' text (length text) False e'"
proof (induction "length text - stop" arbitrary: stop start e)
  case 0
  then have stop: "stop = length text" by simp
  obtain p where p: "drawing e0 O' text start p e" "start \<le> stop" "clear_to e0 text start stop"
    using 0(2) by (auto simp: at_turn_def)
  obtain e1 where e1: "double_chars text start stop e = (Inr stop, e1)" "drawing e0 O' text stop False e1"
    using double_chars_run [OF p(1) q p(2) _ p(3)] stop by force
  have "double_turn text split start stop e = (Inr stop, e1)"
    using e1(1) stop by (simp add: double_turn_def sbind_def double_fold_def)
  then show ?case using e1(2) stop by (simp add: sbind_def)
next
  case (Suc n)
  then have k: "stop < length text" by simp
  obtain start1 e1 where e1: "double_turn text split start stop e = (Inr start1, e1)" "at_turn e0 O' text i (Suc stop) start1 e1"
    using double_turn_run [OF Suc.prems(1) q k] by blast
  have "n = length text - Suc stop" using Suc(2) by simp
  from Suc.hyps(1) [OF this e1(2)] k obtain start' e' where
    "sfold (double_turn text split) start1 [Suc stop..<Suc (length text)] e1 = (Inr start', e')" "drawing e0 O' text (length text) False e'"
    by auto
  moreover have "[stop..<Suc (length text)] = stop # [Suc stop..<Suc (length text)]" using k by (simp add: upt_conv_Cons)
  ultimately show ?case using e1(1) by (simp add: sbind_def)
qed

lemma write_double_quoted_pieces:
  assumes q: "quotable e i text"
  shows "\<exists>e' ps. write_double_quoted text split e = (Inr (), e') \<and> core e' = core e \<and> \<not> e_indention e' \<and>
    written e' = written e @ (if e_whitespace e then [] else [32]) @ 34 # rendered (e_best_line_break e) ps @ [34] \<and>
    meant ps = text \<and> pieces_ok ps"
proof -
  have enc: "e_encoding e = None" using q by (simp add: quotable_def)
  from write_indicator_run [OF enc, of "[34]" True False False] obtain e1 where e1: "write_indicator [34] True False False e = (Inr (), e1)"
    "core e1 = core e" "written e1 = written e @ (if e_whitespace e \<or> \<not> True then [34] else 32 # [34])" "e_indention e1 = (e_indention e \<and> False)"
    by metis
  have "shows_text (e_best_line_break e) text 0 False []"
    unfolding shows_text_def by (rule exI [of _ "[]"]) (simp add: ends_fold_def)
  then have "at_turn e (written e1) text i 0 0 e1"
    using e1(2,4) by (auto simp: at_turn_def drawing_def clear_to_def)
  from double_loop_run [OF q this, of split] obtain start e2 where e2: "sfold (double_turn text split) 0 [0..<Suc (length text)] e1 = (Inr start, e2)"
    "drawing e (written e1) text (length text) False e2" by auto
  have "e_encoding e2 = None" using drawing_settings(1) [OF e2(2)] enc by simp
  from write_indicator_run [OF this, of "[34]" False False False] obtain e3 where e3: "write_indicator [34] False False False e2 = (Inr (), e3)"
    "core e3 = core e2" "written e3 = written e2 @ (if e_whitespace e2 \<or> \<not> False then [34] else 32 # [34])" "e_indention e3 = (e_indention e2 \<and> False)"
    by metis
  obtain ps where ps: "written e2 = written e1 @ rendered (e_best_line_break e) ps" "meant ps = text" "pieces_ok ps"
    using e2(2) by (auto simp: drawing_def shows_text_def)
  have "write_double_quoted text split e = (Inr (), e3)"
    using e1(1) e2(1) e3(1) by (simp only: write_double_quoted_def sbind_Inr)
  moreover have "core e3 = core e" using e3(2) e2(2) by (simp add: drawing_def)
  ultimately show ?thesis using e1(3) e3(3,4) ps by (intro exI [of _ e3] exI [of _ ps]) simp
qed


definition quoting_emitter :: emitter where
  "quoting_emitter = (new_emitter (\<lambda>_ _. Inl ValueError) False False None (Some 5) False None)\<lparr>e_indent := Some 2\<rparr>"


end
