(* ===== verification/Py_Texts.thy ===== *)
theory Py_Texts
  imports Yaml_Scalars
begin

text \<open>
  The texts of Python's values that are read back elsewhere: \<open>repr\<close> of a float, \<open>isoformat\<close>
  of dates and times, and base 64 in lines.
\<close>

section \<open>Floats\<close>

text \<open>
  \<open>repr\<close> gives the shortest decimal number that rounds to the float, and of these the nearest.
  \<open>decimal_exponent x\<close> is \<open>\<lfloor>log10 x\<rfloor>\<close> of a positive \<open>x\<close>.
\<close>

definition pow10 :: "int \<Rightarrow> rat" where
  "pow10 e = (if 0 \<le> e then 10 ^ nat e else 1 / 10 ^ nat (- e))"

definition decimal_exponent :: "rat \<Rightarrow> int" where
  "decimal_exponent x =
     (let (p, q) = quotient_of x; k = int (length (show_nat (nat p))) - int (length (show_nat (nat q)))
      in if pow10 k \<le> x then k else k - 1)"

text \<open>The two numbers of \<open>n\<close> digits next to \<open>x\<close>: the nearest one that rounds to \<open>x\<close>, if any does.\<close>

definition rounds_to :: "rat \<Rightarrow> nat \<Rightarrow> int \<Rightarrow> bool" where
  "rounds_to x d e = (to_double False (of_nat d * pow10 e) = FNum x)"

definition digits_for :: "rat \<Rightarrow> nat \<Rightarrow> (nat \<times> int) option" where
  "digits_for x n =
     (let e = decimal_exponent x - int n + 1; s = x / pow10 e; f = nat \<lfloor>s\<rfloor>; c = nat \<lceil>s\<rceil> in
      if rounds_to x f e \<and> (s - of_nat f \<le> of_nat c - s \<or> \<not> rounds_to x c e) then Some (f, e)
      else if rounds_to x c e then Some (c, e) else None)"

fun shortest_from :: "rat \<Rightarrow> nat list \<Rightarrow> (nat \<times> int) option" where
  "shortest_from x [] = None"
| "shortest_from x (n # ns) = (case digits_for x n of None \<Rightarrow> shortest_from x ns | Some r \<Rightarrow> Some r)"

text \<open>Seventeen digits are always enough for a double.\<close>

definition shortest_digits :: "rat \<Rightarrow> (nat \<times> int) option" where
  "shortest_digits x = shortest_from x [1..<18]"

function strip_zeros :: "nat \<Rightarrow> int \<Rightarrow> nat \<times> int" where
  "strip_zeros d e = (if d = 0 \<or> d mod 10 \<noteq> 0 then (d, e) else strip_zeros (d div 10) (e + 1))"
  by auto
termination by (relation "measure fst") auto

declare strip_zeros.simps [simp del]

definition exponent_text :: "int \<Rightarrow> string" where
  "exponent_text k = (if k < 0 then ''-'' else ''+'') @ zero_pad 2 (show_nat (nat \<bar>k\<bar>))"

text \<open>The digits \<open>ds\<close> with the decimal point after \<open>k\<close> of them.\<close>

definition point_text :: "string \<Rightarrow> int \<Rightarrow> string" where
  "point_text ds k =
     (if - 4 < k \<and> k \<le> 16 then
        (if k \<le> 0 then ''0.'' @ replicate (nat (- k)) (CHR ''0'') @ ds
         else if int (length ds) \<le> k then ds @ replicate (nat k - length ds) (CHR ''0'') @ ''.0''
         else take (nat k) ds @ ''.'' @ drop (nat k) ds)
      else take 1 ds @ (if length ds = 1 then [] else ''.'' @ drop 1 ds) @ ''e'' @ exponent_text (k - 1))"

definition positive_text :: "rat \<Rightarrow> string" where
  "positive_text x =
     (case shortest_digits x of
        None \<Rightarrow> []
      | Some (d, e) \<Rightarrow> let (d, e) = strip_zeros d e in point_text (show_nat d) (int (length (show_nat d)) + e))"

fun float_repr :: "pyfloat \<Rightarrow> string" where
  "float_repr FNan = ''nan''"
| "float_repr (FInf s) = (if s then ''-inf'' else ''inf'')"
| "float_repr (FZero s) = (if s then ''-0.0'' else ''0.0'')"
| "float_repr (FNum x) = (if x < 0 then CHR ''-'' # positive_text (- x) else positive_text x)"

section \<open>Dates\<close>

definition date_text :: "nat \<Rightarrow> nat \<Rightarrow> nat \<Rightarrow> string" where
  "date_text y m d = zero_pad 4 (show_nat y) @ ''-'' @ zero_pad 2 (show_nat m) @ ''-'' @ zero_pad 2 (show_nat d)"

definition date_isoformat :: "date \<Rightarrow> string" where
  "date_isoformat d = date_text (d_year d) (d_month d) (d_day d)"

text \<open>\<open>isoformat(sep)\<close> of a time without a zone: the microseconds are left out where they are 0.\<close>

definition datetime_isoformat :: "char \<Rightarrow> datetime \<Rightarrow> string" where
  "datetime_isoformat sep t =
     date_text (year t) (month t) (day t) @ sep # zero_pad 2 (show_nat (hour t)) @ '':'' @ zero_pad 2 (show_nat (minute t)) @
     '':'' @ zero_pad 2 (show_nat (second t)) @
     (if microsecond t = 0 then [] else ''.'' @ zero_pad 6 (show_nat (microsecond t)))"

section \<open>Base 64\<close>

definition base64_char :: "nat \<Rightarrow> char" where
  "base64_char v =
     (if v < 26 then char_of (65 + v) else if v < 52 then char_of (71 + v) else if v < 62 then char_of (v - 4)
      else if v = 62 then CHR ''+'' else CHR ''/'')"

fun base64_groups :: "string \<Rightarrow> string" where
  "base64_groups [] = []"
| "base64_groups [a] = [base64_char (ord a div 4), base64_char (ord a mod 4 * 16), CHR ''='', CHR ''='']"
| "base64_groups [a, b] =
     [base64_char (ord a div 4), base64_char (ord a mod 4 * 16 + ord b div 16), base64_char (ord b mod 16 * 4), CHR ''='']"
| "base64_groups (a # b # c # s) =
     base64_char (ord a div 4) # base64_char (ord a mod 4 * 16 + ord b div 16) #
     base64_char (ord b mod 16 * 4 + ord c div 64) # base64_char (ord c mod 64) # base64_groups s"

text \<open>\<open>base64.encodebytes\<close>: 57 bytes a line, with a line feed after each.\<close>

function base64_lines :: "string \<Rightarrow> string" where
  "base64_lines s = (if s = [] then [] else base64_groups (take 57 s) @ nl # base64_lines (drop 57 s))"
  by auto
termination by (relation "measure length") auto

declare base64_lines.simps [simp del]

end
