(* ===== verification/Yaml_Represent.thy ===== *)
theory Yaml_Represent
  imports Py_Texts Yaml_Construct
begin

text \<open>
  The representer of the bundled YAML library (\<open>yaml/representer.py\<close>): graphs of nodes from
  Python objects.  The objects are a heap, so that they can be shared and cyclic: an object
  is its class, as the names of its \<open>__mro__\<close>, and its value, whose parts are addresses.
\<close>

section \<open>Objects in a heap\<close>

type_synonym addr = nat

text \<open>
  \<open>PNamed\<close> is a class or a function with its module and name, \<open>PInstance\<close> an object of any
  other class.
\<close>

datatype pyvalue =
    PNone
  | PBool bool
  | PInt int
  | PFloat pyfloat
  | PComplex pyfloat pyfloat
  | PStr string
  | PBytes string
  | PList "addr list"
  | PTuple "addr list"
  | PDict "(addr \<times> addr) list"
  | PSet "addr list"
  | PDate timestamp
  | PNamed string string
  | PModule string
  | PInstance

record pyobject =
  py_class :: "string list"
  py_value :: pyvalue

text \<open>The classes of the values that the representer itself makes.\<close>

fun builtin_class :: "pyvalue \<Rightarrow> string list" where
  "builtin_class PNone = [''NoneType'', ''object'']"
| "builtin_class (PBool b) = [''bool'', ''int'', ''object'']"
| "builtin_class (PInt i) = [''int'', ''object'']"
| "builtin_class (PFloat x) = [''float'', ''object'']"
| "builtin_class (PComplex x y) = [''complex'', ''object'']"
| "builtin_class (PStr s) = [''str'', ''object'']"
| "builtin_class (PBytes s) = [''bytes'', ''object'']"
| "builtin_class (PList xs) = [''list'', ''object'']"
| "builtin_class (PTuple xs) = [''tuple'', ''object'']"
| "builtin_class (PDict ps) = [''dict'', ''object'']"
| "builtin_class (PSet xs) = [''set'', ''object'']"
| "builtin_class (PDate (OnlyDate d)) = [''datetime.date'', ''object'']"
| "builtin_class (PDate (DateAndTime t)) = [''datetime.datetime'', ''datetime.date'', ''object'']"
| "builtin_class (PNamed m n) = [''function'', ''object'']"
| "builtin_class (PModule m) = [''module'', ''object'']"
| "builtin_class PInstance = [''object'']"

definition builtin :: "pyvalue \<Rightarrow> pyobject" where
  "builtin v = \<lparr>py_class = builtin_class v, py_value = v\<rparr>"

section \<open>The order of the items of a dict\<close>

text \<open>
  \<open>sorted(mapping.items())\<close> compares pairs, the keys first.  \<open>None\<close> is the \<open>TypeError\<close> of two
  values that cannot be compared; it is raised if any two of the items cannot, since of the
  items between them in the order two neighbours cannot either.  With a NaN among the keys
  Python promises no order; here it stays where insertion meets it.
\<close>

primrec key_tree :: "pyobject list \<Rightarrow> nat \<Rightarrow> addr \<Rightarrow> obj" where
  "key_tree h 0 a = ORef a"
| "key_tree h (Suc n) a = (case py_value (h ! a) of
      PNone \<Rightarrow> ONone | PBool b \<Rightarrow> OBool b | PInt i \<Rightarrow> OInt i | PFloat x \<Rightarrow> OFloat x None | PStr s \<Rightarrow> OStr s
    | PBytes s \<Rightarrow> OBytes s | PDate t \<Rightarrow> ODate t | PTuple xs \<Rightarrow> OTuple (map (key_tree h n) xs) | _ \<Rightarrow> ORef a)"

fun str_less :: "string \<Rightarrow> string \<Rightarrow> bool" where
  "str_less s [] = False"
| "str_less [] (c # t) = True"
| "str_less (c # s) (d # t) = (ord c < ord d \<or> c = d \<and> str_less s t)"

fun float_less :: "pyfloat \<Rightarrow> pyfloat \<Rightarrow> bool" where
  "float_less FNan y = False"
| "float_less x FNan = False"
| "float_less (FInf s) (FInf t) = (s \<and> \<not> t)"
| "float_less (FInf s) y = s"
| "float_less x (FInf t) = (\<not> t)"
| "float_less (FZero s) (FZero t) = False"
| "float_less (FZero s) (FNum y) = (0 < y)"
| "float_less (FNum x) (FZero t) = (x < 0)"
| "float_less (FNum x) (FNum y) = (x < y)"

fun nats_less :: "nat list \<Rightarrow> nat list \<Rightarrow> bool" where
  "nats_less (a # as) (b # bs) = (a < b \<or> a = b \<and> nats_less as bs)"
| "nats_less as bs = False"

definition date_nats :: "date \<Rightarrow> nat list" where
  "date_nats d = [d_year d, d_month d, d_day d]"

definition datetime_nats :: "datetime \<Rightarrow> nat list" where
  "datetime_nats t = [year t, month t, day t, hour t, minute t, second t, microsecond t]"

definition atom_less :: "obj \<Rightarrow> obj \<Rightarrow> bool option" where
  "atom_less x y = (case (key_of x, key_of y) of
      (OFloat a m, OFloat b n) \<Rightarrow> Some (float_less a b)
    | (OStr s, OStr t) \<Rightarrow> Some (str_less s t)
    | (OBytes s, OBytes t) \<Rightarrow> Some (str_less s t)
    | (ODate (OnlyDate c), ODate (OnlyDate d)) \<Rightarrow> Some (nats_less (date_nats c) (date_nats d))
    | (ODate (DateAndTime c), ODate (DateAndTime d)) \<Rightarrow> Some (nats_less (datetime_nats c) (datetime_nats d))
    | _ \<Rightarrow> None)"

fun obj_less :: "obj \<Rightarrow> obj \<Rightarrow> bool option"
  and objs_less :: "obj list \<Rightarrow> obj list \<Rightarrow> bool option" where
  "obj_less (OTuple xs) (OTuple ys) = objs_less xs ys"
| "obj_less x y = atom_less x y"
| "objs_less xs [] = Some False"
| "objs_less [] (y # ys) = Some True"
| "objs_less (x # xs) (y # ys) = (if key_of x = key_of y then objs_less xs ys else obj_less x y)"

fun comparable :: "(obj list \<times> 'a) list \<Rightarrow> bool" where
  "comparable [] = True"
| "comparable (x # xs) = (list_all (\<lambda>y. objs_less (fst x) (fst y) \<noteq> None) xs \<and> comparable xs)"

fun insert_item :: "obj list \<times> 'a \<Rightarrow> (obj list \<times> 'a) list \<Rightarrow> (obj list \<times> 'a) list" where
  "insert_item x [] = [x]"
| "insert_item x (y # ys) = (if objs_less (fst y) (fst x) = Some True then y # insert_item x ys else x # y # ys)"

definition sorted_items :: "pyobject list \<Rightarrow> (addr \<times> addr) list \<Rightarrow> (addr \<times> addr) list option" where
  "sorted_items h ps =
     (let tagged = map (\<lambda>(k, v). ([key_tree h (length h) k, key_tree h (length h) v], (k, v))) ps in
      if comparable tagged then Some (map snd (foldr insert_item tagged [])) else None)"

section \<open>The state\<close>

record style_options =
  default_style :: "char option"
  default_flow_style :: "bool option"

record representer =
  r_heap :: "pyobject list"
  r_nodes :: "node list"
  represented_objects :: "(addr \<times> node_ref) list"
  object_keeper :: "addr list"
  alias_key :: "addr option"

type_synonym 'a rep = "(representer, yaml_error, 'a) pact"

type_synonym represent_call = "addr \<Rightarrow> node_ref rep"

datatype represent_fun =
    RepresentNone | RepresentStr | RepresentBinary | RepresentBool | RepresentInt | RepresentFloat | RepresentList
  | RepresentDict | RepresentSet | RepresentDate | RepresentDatetime | RepresentUndefined | RepresentComplex
  | RepresentTuple | RepresentName | RepresentModule | RepresentObject | RepresentOrderedDict

text \<open>
  The tables of a class; those of \<open>SafeRepresenter\<close> and below have an entry for \<open>None\<close>, which is
  \<open>for_none\<close>.
\<close>

record represent_tables =
  yaml_representers :: "(string \<times> represent_fun) list"
  yaml_multi_representers :: "(string \<times> represent_fun) list"
  for_none :: represent_fun

definition add_representer :: "string option \<Rightarrow> represent_fun \<Rightarrow> represent_tables \<Rightarrow> represent_tables" where
  "add_representer data_type f t =
     (case data_type of None \<Rightarrow> t\<lparr>for_none := f\<rparr>
      | Some c \<Rightarrow> t\<lparr>yaml_representers := dict_set (yaml_representers t) c f\<rparr>)"

definition add_multi_representer :: "string \<Rightarrow> represent_fun \<Rightarrow> represent_tables \<Rightarrow> represent_tables" where
  "add_multi_representer data_type f t = t\<lparr>yaml_multi_representers := dict_set (yaml_multi_representers t) data_type f\<rparr>"

definition safe_representers :: represent_tables where
  "safe_representers =
     foldl (\<lambda>t (c, f). add_representer (Some c) f t)
       \<lparr>yaml_representers = [], yaml_multi_representers = [], for_none = RepresentUndefined\<rparr>
       [(''NoneType'', RepresentNone), (''str'', RepresentStr), (''bytes'', RepresentBinary), (''bool'', RepresentBool),
        (''int'', RepresentInt), (''float'', RepresentFloat), (''list'', RepresentList), (''tuple'', RepresentList),
        (''dict'', RepresentDict), (''set'', RepresentSet), (''datetime.date'', RepresentDate),
        (''datetime.datetime'', RepresentDatetime)]"

definition python_representers :: represent_tables where
  "python_representers =
     add_multi_representer ''object'' RepresentObject
       (foldl (\<lambda>t (c, f). add_representer (Some c) f t) safe_representers
         [(''complex'', RepresentComplex), (''tuple'', RepresentTuple), (''type'', RepresentName),
          (''collections.OrderedDict'', RepresentOrderedDict), (''function'', RepresentName),
          (''builtin_function_or_method'', RepresentName), (''module'', RepresentModule)])"

definition find_representer :: "represent_tables \<Rightarrow> string list \<Rightarrow> represent_fun" where
  "find_representer t mro =
     (case map_of (yaml_representers t) (hd mro) of
        Some f \<Rightarrow> f
      | None \<Rightarrow> (case find (\<lambda>c. map_of (yaml_multi_representers t) c \<noteq> None) mro of
            Some c \<Rightarrow> the (map_of (yaml_multi_representers t) c)
          | None \<Rightarrow> for_none t))"

section \<open>Nodes\<close>

definition core_tag :: "string \<Rightarrow> string" where
  "core_tag name = ''tag:yaml.org,2002:'' @ name"

definition object_at_addr :: "addr \<Rightarrow> pyobject rep" where
  "object_at_addr a = pgets (\<lambda>s. r_heap s ! a)"

definition new_value :: "pyvalue \<Rightarrow> addr rep" where
  "new_value v = (\<lambda>s. Some (Inr (length (r_heap s)), s\<lparr>r_heap := r_heap s @ [builtin v]\<rparr>))"

text \<open>A new node is noted for the object that is being represented, if aliases to it can be made.\<close>

definition note_alias :: "node_ref \<Rightarrow> representer \<Rightarrow> representer" where
  "note_alias r s = (case alias_key s of None \<Rightarrow> s
     | Some k \<Rightarrow> s\<lparr>represented_objects := dict_set (represented_objects s) k r\<rparr>)"

definition new_node :: "string \<Rightarrow> node_value \<Rightarrow> node_ref rep" where
  "new_node tag v = (\<lambda>s. let r = length (r_nodes s) in
     Some (Inr r, note_alias r (s\<lparr>r_nodes := r_nodes s @ [\<lparr>node_tag = tag, node_value = v, node_start = None, node_end = None\<rparr>]\<rparr>)))"

definition change_node :: "node_ref \<Rightarrow> (node_value \<Rightarrow> node_value) \<Rightarrow> unit rep" where
  "change_node r f = pmodify (\<lambda>s. s\<lparr>r_nodes := (r_nodes s)[r := (r_nodes s ! r)\<lparr>node_value := f (node_value (r_nodes s ! r))\<rparr>]\<rparr>)"

fun add_entry :: "node_ref \<Rightarrow> node_value \<Rightarrow> node_value" where
  "add_entry x (SequenceNode items fl) = SequenceNode (items @ [x]) fl"
| "add_entry x v = v"

fun add_pair :: "node_ref \<times> node_ref \<Rightarrow> node_value \<Rightarrow> node_value" where
  "add_pair p (MappingNode pairs fl) = MappingNode (pairs @ [p]) fl"
| "add_pair p v = v"

fun set_flow :: "bool \<Rightarrow> node_value \<Rightarrow> node_value" where
  "set_flow b (SequenceNode items fl) = SequenceNode items (Some b)"
| "set_flow b (MappingNode pairs fl) = MappingNode pairs (Some b)"
| "set_flow b v = v"

text \<open>\<open>isinstance(node, ScalarNode) and not node.style\<close>\<close>

definition unstyled :: "node_ref \<Rightarrow> bool rep" where
  "unstyled r = pgets (\<lambda>s. case node_value (r_nodes s ! r) of ScalarNode v style \<Rightarrow> style = None | _ \<Rightarrow> False)"

definition represent_scalar :: "style_options \<Rightarrow> string \<Rightarrow> string \<Rightarrow> char option \<Rightarrow> node_ref rep" where
  "represent_scalar opts tag v style =
     new_node tag (ScalarNode v (case style of None \<Rightarrow> default_style opts | Some c \<Rightarrow> Some c))"

definition choose_flow :: "style_options \<Rightarrow> bool option \<Rightarrow> node_ref \<Rightarrow> bool \<Rightarrow> unit rep" where
  "choose_flow opts flow_style r best =
     (if flow_style = None
      then change_node r (set_flow (case default_flow_style opts of Some d \<Rightarrow> d | None \<Rightarrow> best))
      else pret ())"

fun sequence_loop :: "represent_call \<Rightarrow> node_ref \<Rightarrow> addr list \<Rightarrow> bool \<Rightarrow> bool rep" where
  "sequence_loop call r [] best = pret best"
| "sequence_loop call r (x # xs) best =
     pbind (call x) (\<lambda>n. pbind (unstyled n) (\<lambda>u.
     pbind (change_node r (add_entry n)) (\<lambda>_. sequence_loop call r xs (best \<and> u))))"

definition represent_sequence ::
  "represent_call \<Rightarrow> style_options \<Rightarrow> string \<Rightarrow> addr list \<Rightarrow> bool option \<Rightarrow> node_ref rep" where
  "represent_sequence call opts tag items flow_style =
     pbind (new_node tag (SequenceNode [] flow_style)) (\<lambda>r.
     pbind (sequence_loop call r items True) (\<lambda>best.
     pbind (choose_flow opts flow_style r best) (\<lambda>_. pret r)))"

fun mapping_items :: "represent_call \<Rightarrow> node_ref \<Rightarrow> (addr \<times> addr) list \<Rightarrow> bool \<Rightarrow> bool rep" where
  "mapping_items call r [] best = pret best"
| "mapping_items call r ((k, v) # ps) best =
     pbind (call k) (\<lambda>n. pbind (call v) (\<lambda>m. pbind (unstyled n) (\<lambda>u. pbind (unstyled m) (\<lambda>w.
     pbind (change_node r (add_pair (n, m))) (\<lambda>_. mapping_items call r ps (best \<and> u \<and> w))))))"

definition represent_mapping ::
  "represent_call \<Rightarrow> style_options \<Rightarrow> string \<Rightarrow> (addr \<times> addr) list \<Rightarrow> bool option \<Rightarrow> node_ref rep" where
  "represent_mapping call opts tag items flow_style =
     pbind (new_node tag (MappingNode [] flow_style)) (\<lambda>r.
     pbind (pgets (\<lambda>s. case sorted_items (r_heap s) items of Some ps \<Rightarrow> ps | None \<Rightarrow> items)) (\<lambda>ps.
     pbind (mapping_items call r ps True) (\<lambda>best.
     pbind (choose_flow opts flow_style r best) (\<lambda>_. pret r))))"

section \<open>The representers\<close>

text \<open>An object whose value is not of its class does not exist in Python; it is a \<open>TypeError\<close> here.\<close>

definition ill_formed :: "'a rep" where
  "ill_formed = pthrow (Raised TypeError)"

definition bool_text :: "bool \<Rightarrow> string" where
  "bool_text b = (if b then ''true'' else ''false'')"

text \<open>\<open>value.replace('e', '.0e', 1)\<close>\<close>

fun point_before_e :: "string \<Rightarrow> string" where
  "point_before_e [] = []"
| "point_before_e (c # s) = (if c = CHR ''e'' then ''.0e'' @ s else c # point_before_e s)"

definition float_text :: "pyfloat \<Rightarrow> string" where
  "float_text x =
     (case x of
        FNan \<Rightarrow> ''.nan''
      | FInf s \<Rightarrow> if s then ''-.inf'' else ''.inf''
      | _ \<Rightarrow> let v = lower (float_repr x) in
          if CHR ''.'' \<notin> set v \<and> CHR ''e'' \<in> set v then point_before_e v else v)"

definition is_zero :: "pyfloat \<Rightarrow> bool" where
  "is_zero x = (case x of FZero s \<Rightarrow> True | _ \<Rightarrow> False)"

definition complex_text :: "pyfloat \<Rightarrow> pyfloat \<Rightarrow> string" where
  "complex_text re im =
     (if is_zero im then float_repr re
      else if is_zero re then float_repr im @ ''j''
      else if float_less (FZero False) im then float_repr re @ ''+'' @ float_repr im @ ''j''
      else float_repr re @ float_repr im @ ''j'')"

definition timestamp_text :: "timestamp \<Rightarrow> string" where
  "timestamp_text t = (case t of OnlyDate d \<Rightarrow> date_isoformat d | DateAndTime u \<Rightarrow> datetime_isoformat (CHR '' '') u)"

definition date_of :: "timestamp \<Rightarrow> string" where
  "date_of t = (case t of OnlyDate d \<Rightarrow> date_isoformat d | DateAndTime u \<Rightarrow> datetime_isoformat (CHR ''T'') u)"

text \<open>What a \<open>for\<close> loop over a container goes through.\<close>

fun iterate :: "pyvalue \<Rightarrow> addr list option" where
  "iterate (PList xs) = Some xs"
| "iterate (PTuple xs) = Some xs"
| "iterate (PSet xs) = Some xs"
| "iterate (PDict ps) = Some (map fst ps)"
| "iterate v = None"

definition represent_list :: "represent_call \<Rightarrow> style_options \<Rightarrow> string \<Rightarrow> pyvalue \<Rightarrow> node_ref rep" where
  "represent_list call opts tag v =
     (case iterate v of None \<Rightarrow> ill_formed | Some xs \<Rightarrow> represent_sequence call opts tag xs None)"

definition represent_dict :: "represent_call \<Rightarrow> style_options \<Rightarrow> pyvalue \<Rightarrow> node_ref rep" where
  "represent_dict call opts v =
     (case v of PDict ps \<Rightarrow> represent_mapping call opts (core_tag ''map'') ps None | _ \<Rightarrow> ill_formed)"

text \<open>A set is represented as a new dict that maps its members to \<open>None\<close>.\<close>

definition represent_set :: "represent_call \<Rightarrow> style_options \<Rightarrow> pyvalue \<Rightarrow> node_ref rep" where
  "represent_set call opts v =
     (case iterate v of None \<Rightarrow> ill_formed | Some xs \<Rightarrow>
        pbind (new_value PNone) (\<lambda>none. represent_mapping call opts (core_tag ''set'') (map (\<lambda>x. (x, none)) xs) None))"

text \<open>
  \<open>"cannot represent an object: %s" % data\<close>: a tuple is taken as the list of arguments, and
  \<open>%\<close> raises unless it has one.  \<open>str_of\<close> is \<open>str\<close>.
\<close>

definition represent_undefined :: "(pyobject list \<Rightarrow> addr \<Rightarrow> string) \<Rightarrow> addr \<Rightarrow> node_ref rep" where
  "represent_undefined str_of a =
     pbind (object_at_addr a) (\<lambda>d. pbind (pgets r_heap) (\<lambda>h.
       case (case py_value d of PTuple xs \<Rightarrow> if length xs = 1 then Some (hd xs) else None | _ \<Rightarrow> Some a) of
         Some x \<Rightarrow> pthrow (RepresenterError (''cannot represent an object: '' @ str_of h x))
       | None \<Rightarrow> pthrow (Raised TypeError)))"

definition represent_name :: "style_options \<Rightarrow> string \<Rightarrow> string \<Rightarrow> node_ref rep" where
  "represent_name opts m n = represent_scalar opts (core_tag ''python/name:'' @ m @ ''.'' @ n) [] None"

definition represent_ordered_dict :: "represent_call \<Rightarrow> style_options \<Rightarrow> pyobject \<Rightarrow> node_ref rep" where
  "represent_ordered_dict call opts d =
     (case py_value d of
        PDict ps \<Rightarrow>
          pbind (pcollect (\<lambda>(k, v). new_value (PList [k, v])) ps) (\<lambda>items.
          pbind (new_value (PList items)) (\<lambda>all.
          represent_sequence call opts (core_tag ''python/object/apply:'' @ hd (py_class d)) [all] None))
      | _ \<Rightarrow> ill_formed)"

section \<open>Objects of other classes\<close>

text \<open>
  What \<open>copyreg\<close> or \<open>__reduce_ex__\<close> gives: a function, its arguments, the state, the items of
  a list and of a dict.  \<open>reduce\<close> is that protocol; it may make objects.
\<close>

record reduced =
  re_module :: string
  re_name :: string
  re_args :: "addr list"
  re_state :: "addr option"
  re_list :: "addr list option"
  re_dict :: "(addr \<times> addr) list option"

type_synonym reducer = "addr \<Rightarrow> pyobject list \<Rightarrow> (yaml_error + reduced) \<times> pyobject list"

definition call_reduce :: "reducer \<Rightarrow> addr \<Rightarrow> reduced rep" where
  "call_reduce reduce a = (\<lambda>s. case reduce a (r_heap s) of (x, h) \<Rightarrow> Some (x, s\<lparr>r_heap := h\<rparr>))"

text \<open>\<open>__newobj__\<close> is replaced by the class, its first argument.  The name, the arguments, and which it is.\<close>

definition reduced_function :: "reduced \<Rightarrow> (string \<times> addr list \<times> bool) rep" where
  "reduced_function r =
     (if re_name r = ''__newobj__'' then
        (case re_args r of
           [] \<Rightarrow> pthrow (Raised IndexError)
         | c # args \<Rightarrow> pbind (object_at_addr c) (\<lambda>d. case py_value d of
               PNamed m n \<Rightarrow> pret (m @ ''.'' @ n, args, True)
             | _ \<Rightarrow> pthrow (Raised AttributeError)))
      else pret (re_module r @ ''.'' @ re_name r, re_args r, False))"

definition field :: "bool \<Rightarrow> string \<Rightarrow> addr rep \<Rightarrow> (addr \<times> addr) list rep" where
  "field given name m =
     (if given then pbind (new_value (PStr name)) (\<lambda>k. pbind m (\<lambda>v. pret [(k, v)])) else pret [])"

definition items_given :: "'a list option \<Rightarrow> bool" where
  "items_given xs = (xs \<noteq> None \<and> xs \<noteq> Some [])"

definition represent_object :: "represent_call \<Rightarrow> style_options \<Rightarrow> reducer \<Rightarrow> addr \<Rightarrow> node_ref rep" where
  "represent_object call opts reduce a =
     pbind (call_reduce reduce a) (\<lambda>r.
     pbind (case re_state r of Some x \<Rightarrow> pret x | None \<Rightarrow> new_value (PDict [])) (\<lambda>state.
     pbind (object_at_addr state) (\<lambda>st.
     pbind (reduced_function r) (\<lambda>(name, args, newobj).
     let dict = (case py_value st of PDict ps \<Rightarrow> Some ps | _ \<Rightarrow> None);
         bare = (\<not> items_given (re_list r) \<and> \<not> items_given (re_dict r));
         tag = core_tag (if newobj then ''python/object/new:'' else ''python/object/apply:'') @ name in
     if args = [] \<and> bare \<and> dict \<noteq> None \<and> newobj
     then represent_mapping call opts (core_tag ''python/object:'' @ name) (the dict) None
     else if bare \<and> dict = Some [] then represent_sequence call opts tag args None
     else
       pbind (field (args \<noteq> []) ''args'' (new_value (PList args))) (\<lambda>f1.
       pbind (field (dict \<noteq> Some []) ''state'' (pret state)) (\<lambda>f2.
       pbind (field (items_given (re_list r)) ''listitems'' (new_value (PList (the (re_list r))))) (\<lambda>f3.
       pbind (field (items_given (re_dict r)) ''dictitems'' (new_value (PDict (the (re_dict r))))) (\<lambda>f4.
       represent_mapping call opts tag (f1 @ f2 @ f3 @ f4) None))))))))"

section \<open>represent_data\<close>

record represent_env =
  en_styles :: style_options
  en_tables :: represent_tables
  en_str :: "pyobject list \<Rightarrow> addr \<Rightarrow> string"
  en_reduce :: reducer

fun call_representer :: "represent_call \<Rightarrow> represent_env \<Rightarrow> represent_fun \<Rightarrow> addr \<Rightarrow> pyobject \<Rightarrow> node_ref rep" where
  "call_representer call en RepresentNone a d = represent_scalar (en_styles en) (core_tag ''null'') ''null'' None"
| "call_representer call en RepresentStr a d =
     (case py_value d of PStr s \<Rightarrow> represent_scalar (en_styles en) (core_tag ''str'') s None | _ \<Rightarrow> ill_formed)"
| "call_representer call en RepresentBinary a d =
     (case py_value d of PBytes s \<Rightarrow> represent_scalar (en_styles en) (core_tag ''binary'') (base64_lines s) (Some (CHR ''|'')) | _ \<Rightarrow> ill_formed)"
| "call_representer call en RepresentBool a d =
     (case py_value d of PBool b \<Rightarrow> represent_scalar (en_styles en) (core_tag ''bool'') (bool_text b) None | _ \<Rightarrow> ill_formed)"
| "call_representer call en RepresentInt a d =
     (case py_value d of PInt i \<Rightarrow> represent_scalar (en_styles en) (core_tag ''int'') (show_int i) None | _ \<Rightarrow> ill_formed)"
| "call_representer call en RepresentFloat a d =
     (case py_value d of PFloat x \<Rightarrow> represent_scalar (en_styles en) (core_tag ''float'') (float_text x) None | _ \<Rightarrow> ill_formed)"
| "call_representer call en RepresentList a d = represent_list call (en_styles en) (core_tag ''seq'') (py_value d)"
| "call_representer call en RepresentDict a d = represent_dict call (en_styles en) (py_value d)"
| "call_representer call en RepresentSet a d = represent_set call (en_styles en) (py_value d)"
| "call_representer call en RepresentDate a d =
     (case py_value d of PDate t \<Rightarrow> represent_scalar (en_styles en) (core_tag ''timestamp'') (date_of t) None | _ \<Rightarrow> ill_formed)"
| "call_representer call en RepresentDatetime a d =
     (case py_value d of PDate t \<Rightarrow> represent_scalar (en_styles en) (core_tag ''timestamp'') (timestamp_text t) None | _ \<Rightarrow> ill_formed)"
| "call_representer call en RepresentUndefined a d = represent_undefined (en_str en) a"
| "call_representer call en RepresentComplex a d =
     (case py_value d of PComplex x y \<Rightarrow> represent_scalar (en_styles en) (core_tag ''python/complex'') (complex_text x y) None | _ \<Rightarrow> ill_formed)"
| "call_representer call en RepresentTuple a d = represent_list call (en_styles en) (core_tag ''python/tuple'') (py_value d)"
| "call_representer call en RepresentName a d =
     (case py_value d of PNamed m n \<Rightarrow> represent_name (en_styles en) m n | _ \<Rightarrow> ill_formed)"
| "call_representer call en RepresentModule a d =
     (case py_value d of PModule m \<Rightarrow> represent_scalar (en_styles en) (core_tag ''python/module:'' @ m) [] None | _ \<Rightarrow> ill_formed)"
| "call_representer call en RepresentObject a d = represent_object call (en_styles en) (en_reduce en) a"
| "call_representer call en RepresentOrderedDict a d = represent_ordered_dict call (en_styles en) d"

text \<open>\<open>SafeRepresenter.ignore_aliases\<close>: an \<open>isinstance\<close> looks through the classes of an object.\<close>

definition ignore_aliases :: "pyobject \<Rightarrow> bool" where
  "ignore_aliases d =
     (py_value d = PNone \<or> py_value d = PTuple [] \<or>
      list_ex (\<lambda>c. c \<in> set [''str'', ''bytes'', ''bool'', ''int'', ''float'']) (py_class d))"

definition enter_data :: "addr \<Rightarrow> pyobject \<Rightarrow> node_ref option rep" where
  "enter_data a d =
     pbind (pmodify (\<lambda>s. s\<lparr>alias_key := (if ignore_aliases d then None else Some a)\<rparr>)) (\<lambda>_.
     pbind (pgets (\<lambda>s. if ignore_aliases d then None else map_of (represented_objects s) a)) (\<lambda>known.
     if known = None \<and> \<not> ignore_aliases d
     then pbind (pmodify (\<lambda>s. s\<lparr>object_keeper := object_keeper s @ [a]\<rparr>)) (\<lambda>_. pret None)
     else pret known))"

section \<open>Calls of represent_data are monotone\<close>

lemma sequence_loop_mono:
  assumes call: "\<And>x s. mono_option (\<lambda>f. call f x s)"
  shows "mono_option (\<lambda>f. sequence_loop (call f) r xs b s)"
  by (induction xs arbitrary: b s) (auto intro!: pbind_mono call option.const_mono)

lemma mapping_items_mono:
  assumes call: "\<And>x s. mono_option (\<lambda>f. call f x s)"
  shows "mono_option (\<lambda>f. mapping_items (call f) r ps b s)"
proof (induction ps arbitrary: b s)
  case (Cons p ps)
  then show ?case by (cases p) (auto intro!: pbind_mono call option.const_mono)
qed (simp add: option.const_mono)

lemma represent_sequence_mono:
  assumes call: "\<And>x s. mono_option (\<lambda>f. call f x s)"
  shows "mono_option (\<lambda>f. represent_sequence (call f) opts tag xs fl s)"
  unfolding represent_sequence_def by (intro pbind_mono sequence_loop_mono call option.const_mono)

lemma represent_mapping_mono:
  assumes call: "\<And>x s. mono_option (\<lambda>f. call f x s)"
  shows "mono_option (\<lambda>f. represent_mapping (call f) opts tag ps fl s)"
  unfolding represent_mapping_def by (intro pbind_mono mapping_items_mono call option.const_mono)

lemma represent_containers_mono:
  assumes call: "\<And>x s. mono_option (\<lambda>f. call f x s)"
  shows "mono_option (\<lambda>f. represent_list (call f) opts tag v s)"
    and "mono_option (\<lambda>f. represent_dict (call f) opts v s)"
    and "mono_option (\<lambda>f. represent_set (call f) opts v s)"
    and "mono_option (\<lambda>f. represent_ordered_dict (call f) opts d s)"
proof -
  note mono = represent_sequence_mono [OF call] represent_mapping_mono [OF call] option.const_mono
  show "mono_option (\<lambda>f. represent_list (call f) opts tag v s)"
    unfolding represent_list_def by (cases "iterate v") (simp_all add: mono)
  show "mono_option (\<lambda>f. represent_dict (call f) opts v s)"
    unfolding represent_dict_def by (cases v) (simp_all add: mono)
  show "mono_option (\<lambda>f. represent_set (call f) opts v s)"
    unfolding represent_set_def by (cases "iterate v") (simp_all add: mono pbind_mono)
  show "mono_option (\<lambda>f. represent_ordered_dict (call f) opts d s)"
    unfolding represent_ordered_dict_def by (cases "py_value d") (simp_all add: mono pbind_mono)
qed

lemma represent_object_mono:
  assumes call: "\<And>x s. mono_option (\<lambda>f. call f x s)"
  shows "mono_option (\<lambda>f. represent_object (call f) opts reduce a s)"
  unfolding represent_object_def Let_def case_prod_unfold
  by (intro pbind_mono if_act_mono represent_sequence_mono represent_mapping_mono call option.const_mono)

lemma call_representer_mono [partial_function_mono]:
  assumes call: "\<And>x s. mono_option (\<lambda>f. call f x s)"
  shows "mono_option (\<lambda>f. call_representer (call f) en g a d s)"
  by (cases g) (simp_all add: represent_containers_mono [OF call] represent_object_mono [OF call] option.const_mono)

partial_function (option) represent_data ::
  "represent_env \<Rightarrow> addr \<Rightarrow> representer \<Rightarrow> ((yaml_error + node_ref) \<times> representer) option" where
  "represent_data en a s =
     pbind (object_at_addr a) (\<lambda>d.
     pbind (enter_data a d) (\<lambda>known. case known of
         Some r \<Rightarrow> pret r
       | None \<Rightarrow> call_representer (represent_data en) en (find_representer (en_tables en) (py_class d)) a d)) s"

definition new_representer :: "pyobject list \<Rightarrow> representer" where
  "new_representer h = \<lparr>r_heap = h, r_nodes = [], represented_objects = [], object_keeper = [], alias_key = None\<rparr>"

end
