(* ===== verification/Yaml_Dump.thy ===== *)
theory Yaml_Dump
  imports Yaml_Represent Yaml_Serialize Yaml_Emitter
begin

text \<open>
  The dumpers (\<open>yaml/dumper.py\<close>, and \<open>dump_all\<close> and \<open>serialize_all\<close> of \<open>yaml/__init__.py\<close>):
  representer, serializer and emitter as one object.  Every event that the serializer emits
  goes to the emitter at once.
\<close>

record dumper =
  du_rep :: representer
  du_ser :: serializer
  du_emit :: emitter

datatype dump_error = YamlFailed yaml_error | EmitFailed emit_error

type_synonym 'a dumps = "(dumper, dump_error, 'a) pact"

definition representing :: "'a rep \<Rightarrow> 'a dumps" where
  "representing m = (\<lambda>s. case m (du_rep s) of
       None \<Rightarrow> None
     | Some (x, q) \<Rightarrow> Some (case x of Inl e \<Rightarrow> Inl (YamlFailed e) | Inr y \<Rightarrow> Inr y, s\<lparr>du_rep := q\<rparr>))"

text \<open>The emitter works on code points.\<close>

definition event_points :: "event_kind \<Rightarrow> ucs event_of" where
  "event_points k = map_event_of ord k"

text \<open>
  What the serializer does does not depend on the emitter, so its events are collected and
  then emitted: if the emitter refuses one, the serializer has not got further.
\<close>

definition serializing :: "unit serial \<Rightarrow> unit dumps" where
  "serializing m = (\<lambda>s. case m ((du_ser s)\<lparr>se_events := []\<rparr>) of
       None \<Rightarrow> None
     | Some (x, q) \<Rightarrow>
         (case peach emit_event (map event_points (se_events q)) (du_emit s) of
            None \<Rightarrow> None
          | Some (Inl e, em) \<Rightarrow> Some (Inl (EmitFailed e), s\<lparr>du_ser := q, du_emit := em\<rparr>)
          | Some (Inr _, em) \<Rightarrow>
              Some (case x of Inl e \<Rightarrow> Inl (YamlFailed e) | Inr _ \<Rightarrow> Inr (), s\<lparr>du_ser := q, du_emit := em\<rparr>)))"

text \<open>\<open>BaseRepresenter.represent\<close>\<close>

definition forget_objects :: "representer \<Rightarrow> representer" where
  "forget_objects s = s\<lparr>represented_objects := [], object_keeper := [], alias_key := None\<rparr>"

definition represent :: "represent_env \<Rightarrow> serializer_options \<Rightarrow> addr \<Rightarrow> unit dumps" where
  "represent en opts a =
     pbind (representing (represent_data en a)) (\<lambda>r.
     pbind (\<lambda>s. serializing (serialize opts (r_nodes (du_rep s)) r) s) (\<lambda>_.
     representing (pmodify forget_objects)))"

definition dump_documents :: "represent_env \<Rightarrow> serializer_options \<Rightarrow> addr list \<Rightarrow> unit dumps" where
  "dump_documents en opts documents =
     pbind (serializing (open_serializer opts)) (\<lambda>_.
     pbind (peach (represent en opts) documents) (\<lambda>_.
     serializing close_serializer))"

definition dispose_emitter :: "dumper \<Rightarrow> dumper" where
  "dispose_emitter s = s\<lparr>du_emit := snd (dispose (du_emit s))\<rparr>"

definition yaml_dump_all :: "represent_env \<Rightarrow> serializer_options \<Rightarrow> addr list \<Rightarrow> unit dumps" where
  "yaml_dump_all en opts documents s =
     map_option (\<lambda>(x, t). (x, dispose_emitter t)) (dump_documents en opts documents s)"

definition yaml_dump :: "represent_env \<Rightarrow> serializer_options \<Rightarrow> addr \<Rightarrow> unit dumps" where
  "yaml_dump en opts data = yaml_dump_all en opts [data]"

definition new_dumper :: "pyobject list \<Rightarrow> resolver \<Rightarrow> emitter \<Rightarrow> dumper" where
  "new_dumper h q em = \<lparr>du_rep = new_representer h, du_ser = new_serializer q, du_emit = em\<rparr>"

text \<open>\<open>safe_dump\<close> and \<open>dump\<close>: the tables of \<open>SafeDumper\<close> and of \<open>Dumper\<close>.\<close>

definition safe_env :: "style_options \<Rightarrow> (pyobject list \<Rightarrow> addr \<Rightarrow> string) \<Rightarrow> reducer \<Rightarrow> represent_env" where
  "safe_env styles str_of reduce = \<lparr>en_styles = styles, en_tables = safe_representers, en_str = str_of, en_reduce = reduce\<rparr>"

definition python_env :: "style_options \<Rightarrow> (pyobject list \<Rightarrow> addr \<Rightarrow> string) \<Rightarrow> reducer \<Rightarrow> represent_env" where
  "python_env styles str_of reduce = \<lparr>en_styles = styles, en_tables = python_representers, en_str = str_of, en_reduce = reduce\<rparr>"

text \<open>\<open>serialize_all\<close> with the emitter.\<close>

definition serialize_documents_text :: "serializer_options \<Rightarrow> node list \<Rightarrow> node_ref list \<Rightarrow> unit dumps" where
  "serialize_documents_text opts g roots s =
     map_option (\<lambda>(x, t). (x, dispose_emitter t))
       (pbind (serializing (open_serializer opts)) (\<lambda>_.
        pbind (peach (\<lambda>r. serializing (serialize opts g r)) roots) (\<lambda>_. serializing close_serializer)) s)"

end
