(* ===== verification/Yaml_Emitter_Props.thy ===== *)
theory Yaml_Emitter_Props
  imports Yaml_Emitter
begin

text \<open>
  The emitter follows the grammar of events: the state and the stack of states stand for what
  may still come, each event that is taken from the queue is one that may come, and a stream
  that follows the grammar is written to its end.
\<close>

section \<open>What an action leads to\<close>

definition goes :: "('s, 'e, 'a) act \<Rightarrow> 's \<Rightarrow> ('a \<Rightarrow> 's \<Rightarrow> bool) \<Rightarrow> ('e \<Rightarrow> 's \<Rightarrow> bool) \<Rightarrow> bool" where
  "goes m s Q R = (case m s of (Inl x, t) \<Rightarrow> R x t | (Inr x, t) \<Rightarrow> Q x t)"

named_theorems goes_simps

lemma goes_sbind [goes_simps]: "goes (sbind m f) s Q R = goes m s (\<lambda>x t. goes (f x) t Q R) R"
  by (auto simp: goes_def sbind_def split: prod.splits sum.splits)

lemma goes_ret [goes_simps]: "goes (ret x) s Q R = Q x s"
  by (simp add: goes_def)

lemma goes_throw [goes_simps]: "goes (throw x) s Q R = R x s"
  by (simp add: goes_def)

lemma goes_gets [goes_simps]: "goes (gets f) s Q R = Q (f s) s"
  by (simp add: goes_def)

lemma goes_modify [goes_simps]: "goes (modify f) s Q R = Q () (f s)"
  by (simp add: goes_def)

lemma goes_emit_fail [goes_simps]: "goes (emit_fail p) s Q R = R (EmitterError p) s"
  by (simp add: emit_fail_def goes_throw)

lemma goes_emit_raise [goes_simps]: "goes (emit_raise x) s Q R = R (EmitRaised x) s"
  by (simp add: emit_raise_def goes_throw)

lemma goes_conseq:
  "goes m s Q R \<Longrightarrow> (\<And>x t. Q x t \<Longrightarrow> Q' x t) \<Longrightarrow> (\<And>x t. R x t \<Longrightarrow> R' x t) \<Longrightarrow> goes m s Q' R'"
  by (auto simp: goes_def split: prod.splits sum.splits)

lemma runs_run: "goes m s Q R \<Longrightarrow> runs (run m) s Q R"
  by (auto simp: goes_def runs_def run_def split: prod.splits sum.splits)

section \<open>Writers are quiet\<close>

text \<open>
  The fields that decide which events are taken and which are refused; \<open>quiet ok V m\<close>: \<open>m\<close>
  changes other fields only and gives a value with \<open>V\<close>; where \<open>ok\<close>, on a
  text stream, it does not raise.
\<close>

definition frame :: "emitter \<Rightarrow> _" where
  "frame e = (e_encoding e, e_has_encoding e, e_states e, e_state e, e_events e, e_indents e, e_tag_prefixes e,
     e_analysis e, e_style e, e_allow_unicode e)"

lemma frame_simps [simp]:
  "frame (e\<lparr>e_out := a\<rparr>) = frame e" "frame (e\<lparr>e_line := b\<rparr>) = frame e" "frame (e\<lparr>e_column := b\<rparr>) = frame e"
  "frame (e\<lparr>e_whitespace := c\<rparr>) = frame e" "frame (e\<lparr>e_indention := c\<rparr>) = frame e" "frame (e\<lparr>e_open_ended := c\<rparr>) = frame e"
  "frame (e\<lparr>e_indent := i\<rparr>) = frame e" "frame (e\<lparr>e_flow_level := l\<rparr>) = frame e" "frame (e\<lparr>e_prepared_anchor := t\<rparr>) = frame e"
  "frame (e\<lparr>e_prepared_tag := t\<rparr>) = frame e" "frame (e\<lparr>e_root_context := c\<rparr>) = frame e" "frame (e\<lparr>e_sequence_context := c\<rparr>) = frame e"
  "frame (e\<lparr>e_mapping_context := c\<rparr>) = frame e" "frame (e\<lparr>e_simple_key_context := c\<rparr>) = frame e"
  by (simp_all add: frame_def)

definition quiet :: "bool \<Rightarrow> ('a \<Rightarrow> bool) \<Rightarrow> 'a emits \<Rightarrow> bool" where
  "quiet ok V m = (\<forall>e. (ok \<longrightarrow> e_encoding e = None) \<longrightarrow> goes m e (\<lambda>x t. frame t = frame e \<and> V x) (\<lambda>_ _. \<not> ok))"

named_theorems quiets

lemma quiet_sbind: "quiet ok W m \<Longrightarrow> (\<And>x. W x \<Longrightarrow> quiet ok V (f x)) \<Longrightarrow> quiet ok V (sbind m f)"
  unfolding quiet_def goes_sbind
proof (intro allI impI)
  fix e :: emitter
  assume m: "\<forall>e. (ok \<longrightarrow> e_encoding e = None) \<longrightarrow> goes m e (\<lambda>x t. frame t = frame e \<and> W x) (\<lambda>_ _. \<not> ok)"
    and f: "\<And>x. W x \<Longrightarrow> \<forall>e. (ok \<longrightarrow> e_encoding e = None) \<longrightarrow> goes (f x) e (\<lambda>x t. frame t = frame e \<and> V x) (\<lambda>_ _. \<not> ok)"
    and e: "ok \<longrightarrow> e_encoding e = None"
  show "goes m e (\<lambda>x t. goes (f x) t (\<lambda>x t. frame t = frame e \<and> V x) (\<lambda>_ _. \<not> ok)) (\<lambda>_ _. \<not> ok)"
  proof (rule goes_conseq [OF m [rule_format, OF e [rule_format]]])
    fix x t assume t: "frame t = frame e \<and> W x"
    then have "ok \<longrightarrow> e_encoding t = None" using e by (simp add: frame_def)
    then have "goes (f x) t (\<lambda>y u. frame u = frame t \<and> V y) (\<lambda>_ _. \<not> ok)" using f [of x] t by blast
    then show "goes (f x) t (\<lambda>x t. frame t = frame e \<and> V x) (\<lambda>_ _. \<not> ok)" using t by simp
  qed
qed

lemma quiet_then: "quiet ok (\<lambda>_. True) m \<Longrightarrow> (\<And>x. quiet ok V (f x)) \<Longrightarrow> quiet ok V (sbind m f)"
  by (rule quiet_sbind)

lemma quiet_mono: "quiet ok W m \<Longrightarrow> (\<And>x. W x \<Longrightarrow> V x) \<Longrightarrow> quiet ok V m"
  unfolding quiet_def by (blast intro: goes_conseq)

lemma quiet_ret: "V x \<Longrightarrow> quiet ok V (ret x)"
  by (simp add: quiet_def goes_ret)

lemma quiet_gets: "(\<And>e. V (f e)) \<Longrightarrow> quiet ok V (gets f)"
  by (simp add: quiet_def goes_gets)

lemma quiet_modify: "(\<And>e. frame (f e) = frame e) \<Longrightarrow> V () \<Longrightarrow> quiet ok V (modify f)"
  by (simp add: quiet_def goes_modify)

lemma quiet_if: "(b \<Longrightarrow> quiet ok V m) \<Longrightarrow> (\<not> b \<Longrightarrow> quiet ok V m') \<Longrightarrow> quiet ok V (if b then m else m')"
  by simp

lemma quiet_put: "V () \<Longrightarrow> quiet ok V (put t)"
  unfolding quiet_def put_def
  by (auto simp: goes_simps of_res_def split: option.split sum.split)

lemma quiet_counted: "V () \<Longrightarrow> quiet ok V (put_counted t)"
  unfolding put_counted_def by (intro quiet_then quiet_modify quiet_put) simp_all

lemma quiet_indicator: "V () \<Longrightarrow> quiet ok V (write_indicator t need w ind)"
  unfolding write_indicator_def Let_def by (intro quiet_then quiet_gets quiet_modify quiet_put) simp_all

lemma quiet_line_break: "V () \<Longrightarrow> quiet ok V (write_line_break b)"
  unfolding write_line_break_def by (intro quiet_then quiet_gets quiet_modify quiet_put) simp_all

lemma quiet_indent: "V () \<Longrightarrow> quiet ok V write_indent"
  unfolding write_indent_def
  by (intro quiet_then quiet_gets quiet_if quiet_modify quiet_put quiet_line_break quiet_ret) simp_all

lemma quiet_breaks: "V () \<Longrightarrow> quiet ok V (write_breaks bs)"
  by (induction bs) (auto intro!: quiet_then quiet_line_break quiet_ret)

lemma quiet_get: "k < length text \<Longrightarrow> quiet ok (\<lambda>_. True) (text_get text k)"
  by (simp add: text_get_def of_res_def quiet_ret)

lemmas quiet_writers = quiet_put quiet_counted quiet_indicator quiet_line_break quiet_indent quiet_breaks quiet_ret quiet_gets quiet_modify

lemma quiet_sfold:
  assumes "\<And>x k. a \<le> k \<Longrightarrow> k < b \<Longrightarrow> I k x \<Longrightarrow> quiet ok (I (Suc k)) (f x k)"
  shows "a \<le> b \<Longrightarrow> I a x \<Longrightarrow> quiet ok (I b) (sfold f x [a..<b])"
  using assms
proof (induction "b - a" arbitrary: a x)
  case 0
  then have "[a..<b] = []" "b = a" by simp_all
  then show ?case using 0(3) quiet_ret [of "I a" x ok] by (simp only: sfold.simps)
next
  case (Suc n)
  then have list: "[a..<b] = a # [Suc a..<b]" by (simp add: upt_conv_Cons)
  have "quiet ok (I b) (sbind (f x a) (\<lambda>y. sfold f y [Suc a..<b]))"
  proof (rule quiet_sbind)
    show "quiet ok (I (Suc a)) (f x a)" using Suc.prems Suc.hyps(2) by simp
    show "quiet ok (I b) (sfold f y [Suc a..<b])" if "I (Suc a) y" for y
      using Suc.hyps(2) that Suc.prems by (intro Suc.hyps(1)) simp_all
  qed
  then show ?case by (simp add: list)
qed

text \<open>The loops look into the text only where there is one.\<close>

lemma single_quiet:
  "quiet ok (\<lambda>_. True) (write_single_quoted text split)"
proof -
  let ?I = "\<lambda>stop (spaces, breaks, start). start \<le> stop \<and> (spaces \<or> breaks \<longrightarrow> start < stop)"
  have turn: "quiet ok (?I (Suc stop)) (single_turn text split (spaces, breaks, start) stop)"
    if "stop < Suc (length text)" "?I stop (spaces, breaks, start)" for spaces breaks start stop
  proof -
    have get: "breaks \<Longrightarrow> quiet ok (\<lambda>_. True) (text_get text start)" using that by (intro quiet_get) simp
    let ?ch = "char_at text stop"
    have ch39: "?ch = Some 39 \<Longrightarrow> \<not> soft_break 39" by (simp add: soft_break_def)
    let ?J = "\<lambda>s. s \<le> stop \<and> (?ch \<noteq> None \<and> ?ch \<noteq> Some 39 \<longrightarrow> s \<le> stop)"
    show ?thesis
      unfolding single_turn_def Let_def prod.case
      apply (rule quiet_sbind [where W = "\<lambda>s. s \<le> stop"])
       apply (intro quiet_if quiet_then quiet_writers get; use that in simp)
      apply (rule quiet_sbind [where W = "\<lambda>s. s \<le> (if ?ch = Some 39 then Suc stop else stop)"])
       apply (intro quiet_if quiet_then quiet_writers; simp)
      apply (rule quiet_ret)
      apply (auto simp: soft_break_def split: option.split if_splits)
      done
  qed
  have "quiet ok (?I (Suc (length text))) (sfold (single_turn text split) (False, False, 0) [0..<Suc (length text)])"
  proof (rule quiet_sfold [where I = ?I])
    fix x k
    assume "k < Suc (length text)" "?I k x"
    then show "quiet ok (?I (Suc k)) (single_turn text split x k)" using turn by (cases x) blast
  qed simp_all
  then have "quiet ok (\<lambda>_. True) (sfold (single_turn text split) (False, False, 0) [0..<Suc (length text)])"
    by (rule quiet_mono) simp
  then show ?thesis unfolding write_single_quoted_def by (intro quiet_then quiet_indicator) simp_all
qed


lemma double_quiet: "quiet ok (\<lambda>_. True) (write_double_quoted text split)"
proof -
  let ?I = "\<lambda>stop start. start \<le> stop"
  have turn: "quiet ok (?I (Suc stop)) (double_turn text split start stop)" if "?I stop start" for start stop
  proof -
    have chars: "quiet ok (?I (Suc stop)) (double_chars text start stop)"
    proof -
      have "quiet ok (\<lambda>s. s \<le> stop) (if start < stop then sbind (put_counted (slice text start stop)) (\<lambda>_. ret stop) else ret start)"
        using that by (intro quiet_if quiet_then quiet_writers) simp_all
      then show ?thesis using that unfolding double_chars_def Let_def
        by (intro quiet_then [OF quiet_gets] quiet_if quiet_sbind [where W = "\<lambda>s. s \<le> stop"])
           (auto split: option.split intro!: quiet_ret quiet_then quiet_counted)
    qed
    have fold: "quiet ok (?I (Suc stop)) (double_fold text split s stop)" if s: "s \<le> Suc stop" for s
    proof -
      have get: "Suc stop < length text \<Longrightarrow> quiet ok (\<lambda>_. True) (text_get text (if s < stop then stop else s))"
        using s by (intro quiet_get) simp
      show ?thesis
        unfolding double_fold_def double_break_def
        apply (rule quiet_then [OF quiet_gets], simp)
        apply (rule quiet_if)
         apply (rule quiet_then [OF quiet_counted], simp)
         apply (rule quiet_then [OF quiet_indent], simp)
         apply (rule quiet_then [OF quiet_modify], simp_all only: frame_simps)
         apply (rule quiet_then [OF get], simp)
         apply (intro quiet_then quiet_if quiet_writers; use s in simp)
        apply (rule quiet_ret, rule s)
        done
    qed
    show ?thesis unfolding double_turn_def by (rule quiet_sbind [OF chars fold])
  qed
  have "quiet ok (?I (Suc (length text))) (sfold (double_turn text split) 0 [0..<Suc (length text)])"
  proof (rule quiet_sfold [where I = ?I])
    fix x k :: nat
    assume "?I k x"
    then show "quiet ok (?I (Suc k)) (double_turn text split x k)" by (rule turn)
  qed simp_all
  then have "quiet ok (\<lambda>_. True) (sfold (double_turn text split) 0 [0..<Suc (length text)])"
    by (rule quiet_mono) simp
  then show ?thesis unfolding write_double_quoted_def by (intro quiet_then quiet_indicator) simp_all
qed


lemma header_quiet: "quiet ok (\<lambda>_. True) (block_header indicator text)"
  unfolding block_header_def by (intro quiet_then quiet_if quiet_writers) simp_all

lemma folded_quiet: "quiet ok (\<lambda>_. True) (write_folded text)"
proof -
  let ?I = "\<lambda>stop x. snd (snd (snd x)) \<le> (stop :: nat)"
  have turn: "quiet ok (?I (Suc stop)) (folded_turn text (leading, spaces, breaks, start) stop)" if "start \<le> stop"
    for leading spaces breaks start stop
  proof -
    have get: "char_at text stop \<noteq> None \<Longrightarrow> quiet ok (\<lambda>_. True) (text_get text start)"
      using that by (intro quiet_get) (auto simp: char_at_def split: if_splits)
    show ?thesis
      unfolding folded_turn_def Let_def prod.case
      apply (rule quiet_sbind [where W = "\<lambda>x. snd x \<le> stop"])
       apply (intro quiet_if quiet_then quiet_writers get; use that in simp)
      apply (auto intro!: quiet_ret split: option.split)
      done
  qed
  have "quiet ok (?I (Suc (length text))) (sfold (folded_turn text) (True, False, True, 0) [0..<Suc (length text)])"
  proof (rule quiet_sfold [where I = ?I])
    fix x :: folded_loop and k
    assume "?I k x"
    then show "quiet ok (?I (Suc k)) (folded_turn text x k)" by (cases x) (simp add: turn)
  qed simp_all
  then have "quiet ok (\<lambda>_. True) (sfold (folded_turn text) (True, False, True, 0) [0..<Suc (length text)])"
    by (rule quiet_mono) simp
  then show ?thesis unfolding write_folded_def by (intro quiet_then header_quiet quiet_ret) simp_all
qed

lemma literal_quiet: "quiet ok (\<lambda>_. True) (write_literal text)"
proof -
  have turn: "quiet ok (\<lambda>_. True) (literal_turn text (breaks, start) stop)" for breaks start stop
    unfolding literal_turn_def Let_def prod.case
    by (intro quiet_then quiet_if quiet_writers; simp)
  have "quiet ok (\<lambda>_. True) (sfold (literal_turn text) (True, 0) [0..<Suc (length text)])"
  proof (rule quiet_sfold [where I = "\<lambda>_ _. True"])
    fix x k
    show "quiet ok (\<lambda>_. True) (literal_turn text x k)" by (cases x) (simp add: turn)
  qed simp_all
  then show ?thesis unfolding write_literal_def by (intro quiet_then header_quiet quiet_ret) simp_all
qed

text \<open>A plain text without line breaks.\<close>

lemma plain_quiet:
  assumes "\<forall>c \<in> set text. \<not> soft_break c"
  shows "quiet ok (\<lambda>_. True) (sfold (plain_turn text split) (False, False, 0) [0..<Suc (length text)])"
proof -
  let ?I = "\<lambda>stop x. \<not> fst (snd x)"
  have turn: "quiet ok (?I (Suc stop)) (plain_turn text split (spaces, False, start) stop)" for spaces start and stop :: nat
  proof -
    have ch: "char_at text stop = Some c \<Longrightarrow> \<not> soft_break c" for c
      using assms by (auto simp: char_at_def split: if_splits)
    show ?thesis
      unfolding plain_turn_def Let_def prod.case
      apply (rule quiet_sbind [where W = "\<lambda>_. True"])
       apply (simp only: if_False)
       apply (intro quiet_if quiet_then quiet_writers; simp)
      apply (auto intro!: quiet_ret simp: ch split: option.split)
      done
  qed
  have "quiet ok (?I (Suc (length text))) (sfold (plain_turn text split) (False, False, 0) [0..<Suc (length text)])"
  proof (rule quiet_sfold [where I = ?I])
    fix x :: quoted_loop and k :: nat
    assume "?I k x"
    then show "quiet ok (?I (Suc k)) (plain_turn text split x k)" using turn by (cases x) auto
  qed simp_all
  then show ?thesis by (rule quiet_mono) simp
qed


lemma quiet_goes:
  assumes "quiet ok V m" and "ok \<longrightarrow> e_encoding e = None"
    and "\<And>x t. frame t = frame e \<Longrightarrow> V x \<Longrightarrow> Q x t" and "\<And>x t. \<not> ok \<Longrightarrow> R x t"
  shows "goes m e Q R"
  using assms unfolding quiet_def by (blast intro: goes_conseq)

section \<open>The analysis\<close>

lemma analyze_turn_breaks: "f_line_breaks (analyze_turn u text f k) = (f_line_breaks f \<or> soft_break (text ! k))"
  by (simp add: analyze_turn_def check_spaces_def check_character_def check_indicators_def block_flag_def flow_flag_def Let_def)

lemma analyze_loop_breaks:
  "f_line_breaks (foldl (analyze_turn u text) f ks) = (f_line_breaks f \<or> (\<exists>k \<in> set ks. soft_break (text ! k)))"
  by (induction ks arbitrary: f) (auto simp: analyze_turn_breaks)

lemma plain_no_breaks:
  assumes "a_flow_plain (analyze_scalar u text) \<or> a_block_plain (analyze_scalar u text)"
  shows "\<forall>c \<in> set text. \<not> soft_break c"
proof (cases "text = []")
  case False
  then have "\<not> f_line_breaks (foldl (analyze_turn u text) (first_flags text) [0..<length text])"
    using assms by (auto simp: analyze_scalar_def decide_def Let_def)
  then show ?thesis by (auto simp: analyze_loop_breaks in_set_conv_nth)
qed simp

lemma analyzed_text: "a_scalar (analyze_scalar u text) = text"
  by (simp add: analyze_scalar_def decide_def Let_def)

text \<open>The styles that are written as such; a plain text has no line break.\<close>

definition style_fits :: "ucs list \<Rightarrow> scalar_style \<Rightarrow> bool" where
  "style_fits text q = (case q of Plain \<Rightarrow> \<forall>c \<in> set text. \<not> soft_break c
     | Styled c \<Rightarrow> c \<in> {dquote, quote, CHR ''>'', CHR ''|''})"

lemma chosen_fits: "style_fits text (choose_scalar_style i s (analyze_scalar u text) e)"
  using plain_no_breaks [of u "text"]
  by (auto simp: choose_scalar_style_def style_fits_def)

lemma plain_needs_implicit: "choose_scalar_style i s x e = Plain \<Longrightarrow> fst i"
  by (auto simp: choose_scalar_style_def split: if_splits)

text \<open>The analysis and the style that are kept belong to the text.\<close>

definition cached :: "bool \<Rightarrow> ucs list \<Rightarrow> emitter \<Rightarrow> bool" where
  "cached i text e =
     ((e_analysis e = None \<or> e_analysis e = Some (analyze_scalar (e_allow_unicode e) text)) \<and>
      (\<forall>q. e_style e = Some q \<longrightarrow> style_fits text q \<and> (q = Plain \<longrightarrow> i)))"

definition clean :: "emitter \<Rightarrow> bool" where
  "clean e = (e_analysis e = None \<and> e_style e = None)"

text \<open>The state but for the analysis and the style.\<close>

definition outline :: "emitter \<Rightarrow> _" where
  "outline e = (e_encoding e, e_has_encoding e, e_states e, e_state e, e_events e, e_indents e, e_tag_prefixes e, e_allow_unicode e)"

lemma frame_outline: "frame t = frame e \<Longrightarrow> outline t = outline e"
  by (simp add: frame_def outline_def)

lemma frame_cached: "frame t = frame e \<Longrightarrow> cached i text t = cached i text e"
  by (simp add: frame_def cached_def)

lemma frame_clean: "frame t = frame e \<Longrightarrow> clean t = clean e"
  by (simp add: frame_def clean_def)

lemma clean_cached: "clean e \<Longrightarrow> cached i text e"
  by (simp add: clean_def cached_def)

lemma analyzed_goes:
  assumes "cached i text e"
    and "\<And>t. outline t = outline e \<Longrightarrow> cached i text t \<Longrightarrow> Q (analyze_scalar (e_allow_unicode e) text) t"
  shows "goes (analyzed text) e Q R"
proof (cases "e_analysis e")
  case None
  then show ?thesis using assms(1) by (auto simp: analyzed_def goes_simps intro!: assms(2) simp: outline_def cached_def)
next
  case (Some a)
  then show ?thesis using assms by (auto simp: analyzed_def goes_simps cached_def outline_def)
qed

lemma chosen_goes:
  assumes c: "cached (fst i) text e"
    and Q: "\<And>q t. outline t = outline e \<Longrightarrow> cached (fst i) text t \<Longrightarrow> style_fits text q \<Longrightarrow> (q = Plain \<longrightarrow> fst i) \<Longrightarrow> Q q t"
  shows "goes (chosen_style i text s) e Q R"
proof (cases "e_style e")
  case None
  have "goes (analyzed text) e (\<lambda>x t. goes (sbind (gets (choose_scalar_style i s x)) (\<lambda>s.
      sbind (modify (\<lambda>e. e\<lparr>e_style := Some s\<rparr>)) (\<lambda>_. ret s))) t Q R) R"
  proof (rule analyzed_goes [OF c])
    fix t assume t: "outline t = outline e" "cached (fst i) text t"
    let ?q = "choose_scalar_style i s (analyze_scalar (e_allow_unicode e) text) t"
    have "outline (t\<lparr>e_style := Some ?q\<rparr>) = outline e" using t by (simp add: outline_def)
    moreover have "cached (fst i) text (t\<lparr>e_style := Some ?q\<rparr>)"
      using t chosen_fits plain_needs_implicit by (simp add: cached_def)
    ultimately show "goes (sbind (gets (choose_scalar_style i s (analyze_scalar (e_allow_unicode e) text)))
        (\<lambda>s. sbind (modify (\<lambda>e. e\<lparr>e_style := Some s\<rparr>)) (\<lambda>_. ret s))) t Q R"
      using chosen_fits plain_needs_implicit by (simp add: goes_simps Q)
  qed
  then show ?thesis using None by (simp add: chosen_style_def goes_simps)
next
  case (Some q)
  then show ?thesis using c Q [of e q] by (auto simp: chosen_style_def goes_simps cached_def)
qed


section \<open>Events that can be written\<close>

text \<open>
  The properties an event must have beyond its place in the grammar: anchors and tags of
  allowed characters, a tag where none can be left out, a version the emitter supports, text
  output.
\<close>

definition writable_anchor :: "ucs list \<Rightarrow> bool" where
  "writable_anchor a = (a \<noteq> [] \<and> (\<forall>c \<in> set a. name_char c))"

definition writable_tag :: "ucs list \<Rightarrow> bool" where
  "writable_tag t = (t \<noteq> [] \<and> suffix_char None (hd t) \<and> (\<forall>c \<in> set (tl t). suffix_char (Some (uc ''!'')) c))"

definition optional :: "('a \<Rightarrow> bool) \<Rightarrow> 'a option \<Rightarrow> bool" where
  "optional p x = (case x of None \<Rightarrow> True | Some y \<Rightarrow> p y)"

definition writable_handle :: "ucs list \<Rightarrow> bool" where
  "writable_handle h = (h \<noteq> [] \<and> hd h = of_char CHR ''!'' \<and> last h = of_char CHR ''!'' \<and> (\<forall>c \<in> set (butlast (tl h)). name_char c))"

definition writable_prefix :: "ucs list \<Rightarrow> bool" where
  "writable_prefix p = (p \<noteq> [] \<and> (\<forall>c \<in> set p. prefix_char c))"

fun writable :: "bool \<Rightarrow> ucs event_of \<Rightarrow> bool" where
  "writable has (StreamStartEvent enc) = (enc = None \<or> has)"
| "writable has (DocumentStartEvent b version tags) =
     (optional (\<lambda>v. fst v = 1) version \<and> (\<forall>(h, p) \<in> set (some_tags tags). writable_handle h \<and> writable_prefix p))"
| "writable has (AliasEvent a) = (a \<noteq> None \<and> optional writable_anchor a)"
| "writable has (ScalarEvent a t i v s) = (optional writable_anchor a \<and> optional writable_tag t \<and> (t = None \<longrightarrow> fst i \<or> snd i))"
| "writable has (SequenceStartEvent a t i f) = (optional writable_anchor a \<and> optional writable_tag t \<and> (t = None \<longrightarrow> i))"
| "writable has (MappingStartEvent a t i f) = (optional writable_anchor a \<and> optional writable_tag t \<and> (t = None \<longrightarrow> i))"
| "writable has k = True"

text \<open>The prefixes of tags are set, and none is empty.\<close>

definition tables :: "emitter \<Rightarrow> bool" where
  "tables e = (\<exists>d. e_tag_prefixes e = Some d \<and> (\<forall>p \<in> fst ` set d. p \<noteq> []))"

lemma outline_tables: "outline t = outline e \<Longrightarrow> tables t = tables e"
  by (simp add: outline_def tables_def)

lemma tag_text_written: "\<forall>c \<in> set t. p c \<Longrightarrow> tag_text p t = ret t"
proof -
  assume "\<forall>c \<in> set t. p c"
  then have "find (\<lambda>c. \<not> p c) t = None" by (auto simp: find_None_iff)
  then show ?thesis by (simp add: tag_text_def)
qed

lemma split_tag_suffix:
  assumes "\<forall>p \<in> fst ` set d. p \<noteq> []"
  shows "split_tag d tag = (None, tag) \<or> (\<exists>n. snd (split_tag d tag) = drop (Suc n) tag)"
proof -
  let ?f = "\<lambda>(handle, rest) pre. if fits_tag tag pre then (map_of d pre, drop (length pre) tag) else (handle, rest)"
  have "foldl ?f x ps = x \<or> (\<exists>n. snd (foldl ?f x ps) = drop (Suc n) tag)" if "\<forall>p \<in> set ps. p \<noteq> []" for x ps
    using that
  proof (induction ps arbitrary: x)
    case (Cons p ps)
    then obtain n where n: "length p = Suc n" by (cases p) auto
    show ?case using Cons.IH [of "?f x p"] Cons.prems n by (cases x) (auto split: if_splits)
  qed simp
  then show ?thesis using assms by (simp add: split_tag_def)
qed

lemma suffix_char_any: "suffix_char (Some (uc ''!'')) c \<Longrightarrow> suffix_char h c"
  by (auto simp: suffix_char_def)

lemma suffix_char_none: "suffix_char None c \<Longrightarrow> h \<noteq> Some (uc ''!'') \<Longrightarrow> suffix_char h c"
  by (auto simp: suffix_char_def)

lemma prepare_tag_written:
  assumes t: "writable_tag t" and e: "tables e"
  shows "\<exists>p. prepare_tag t e = (Inr p, e)"
proof -
  obtain d where d: "e_tag_prefixes e = Some d" "\<forall>p \<in> fst ` set d. p \<noteq> []" using e by (auto simp: tables_def)
  obtain handle suffix where s: "split_tag d t = (handle, suffix)" by fastforce
  have "\<forall>c \<in> set suffix. suffix_char handle c"
    using split_tag_suffix [OF d(2), of t]
  proof
    assume "split_tag d t = (None, t)"
    then show ?thesis using s t suffix_char_any [of _ None]
      by (cases t) (auto simp: writable_tag_def)
  next
    assume "\<exists>n. snd (split_tag d t) = drop (Suc n) t"
    then show ?thesis using s t
      by (cases t) (auto simp: writable_tag_def intro: suffix_char_any dest: in_set_dropD)
  qed
  then have "tag_text (suffix_char handle) suffix = ret suffix" by (rule tag_text_written)
  then show ?thesis using t d(1) s by (auto simp: prepare_tag_def writable_tag_def sbind_def split: option.split)
qed

lemma prepare_anchor_written: "writable_anchor a \<Longrightarrow> prepare_anchor a = ret a"
proof -
  assume a: "writable_anchor a"
  then have "find (\<lambda>c. \<not> name_char c) a = None" by (auto simp: find_None_iff writable_anchor_def)
  then show ?thesis using a by (simp add: prepare_anchor_def writable_anchor_def)
qed


section \<open>Anchors, tags and scalars\<close>

lemma prepare_tag_state: "goes (prepare_tag t) e (\<lambda>_ u. u = e) (\<lambda>_ _. True)"
  by (auto simp: prepare_tag_def tag_text_def goes_simps split: option.split prod.split)

lemma prepare_anchor_state: "goes (prepare_anchor a) e (\<lambda>_ u. u = e) (\<lambda>_ _. True)"
  by (auto simp: prepare_anchor_def goes_simps split: option.split)

lemma prepared_tag_goes:
  assumes ok: "ok \<longrightarrow> writable_tag tag \<and> tables e" and Q: "\<And>x t. frame t = frame e \<Longrightarrow> Q x t" and R: "\<And>x t. \<not> ok \<Longrightarrow> R x t"
  shows "goes (prepared_tag tag) e Q R"
proof -
  have "goes (prepare_tag tag) e (\<lambda>_ u. u = e) R"
  proof (cases ok)
    case True
    then show ?thesis using ok prepare_tag_written [of tag e] by (auto simp: goes_def)
  next
    case False
    show ?thesis by (rule goes_conseq [OF prepare_tag_state]) (simp_all add: False R)
  qed
  then have "goes (prepare_tag tag) e (\<lambda>x u. Q x (u\<lparr>e_prepared_tag := Some x\<rparr>)) R"
    by (rule goes_conseq) (auto intro: Q)
  then show ?thesis using Q [of e] by (auto simp: prepared_tag_def goes_simps split: option.split)
qed

lemma prepared_anchor_goes:
  assumes ok: "ok \<longrightarrow> writable_anchor a" and Q: "\<And>x t. frame t = frame e \<Longrightarrow> Q x t" and R: "\<And>x t. \<not> ok \<Longrightarrow> R x t"
  shows "goes (prepared_anchor a) e Q R"
proof -
  have "goes (prepare_anchor a) e (\<lambda>_ u. u = e) R"
  proof (cases ok)
    case True
    then show ?thesis using ok prepare_anchor_written [of a] by (auto simp: goes_def)
  next
    case False
    show ?thesis by (rule goes_conseq [OF prepare_anchor_state]) (simp_all add: False R)
  qed
  then have "goes (prepare_anchor a) e (\<lambda>x u. Q x (u\<lparr>e_prepared_anchor := Some x\<rparr>)) R"
    by (rule goes_conseq) (auto intro: Q)
  then show ?thesis using Q [of e] by (auto simp: prepared_anchor_def goes_simps split: option.split)
qed

lemma process_anchor_goes:
  assumes ok: "ok \<longrightarrow> e_encoding e = None \<and> optional writable_anchor (event_anchor k)"
    and Q: "\<And>t. frame t = frame e \<Longrightarrow> Q () t" and R: "\<And>x t. \<not> ok \<Longrightarrow> R x t"
  shows "goes (process_anchor indicator k) e Q R"
proof (cases "event_anchor k")
  case None
  then show ?thesis by (simp add: process_anchor_def goes_simps Q)
next
  case (Some a)
  have "goes (prepared_anchor a) e (\<lambda>p t. goes (if p \<noteq> [] then write_indicator (indicator @ p) True False False else ret ()) t
      (\<lambda>_ t. Q () (t\<lparr>e_prepared_anchor := None\<rparr>)) R) R"
  proof (rule prepared_anchor_goes)
    show "ok \<longrightarrow> writable_anchor a" using ok Some by (simp add: optional_def)
    fix p t assume t: "frame t = frame e"
    have "quiet ok (\<lambda>_. True) (if p \<noteq> [] then write_indicator (indicator @ p) True False False else ret ())"
      by (intro quiet_if quiet_writers) simp_all
    moreover have "ok \<longrightarrow> e_encoding t = None" using ok t by (simp add: frame_def)
    ultimately show "goes (if p \<noteq> [] then write_indicator (indicator @ p) True False False else ret ()) t
        (\<lambda>_ t. Q () (t\<lparr>e_prepared_anchor := None\<rparr>)) R"
      by (rule quiet_goes) (use t R in \<open>auto intro: Q\<close>)
  qed (rule R)
  then show ?thesis using Some by (simp add: process_anchor_def goes_simps)
qed

lemma write_tag_goes:
  assumes ok: "ok \<longrightarrow> e_encoding e = None \<and> tables e \<and> (\<exists>t. tag = Some t \<and> writable_tag t)"
    and Q: "\<And>t. frame t = frame e \<Longrightarrow> Q () t" and R: "\<And>x t. \<not> ok \<Longrightarrow> R x t"
  shows "goes (write_tag tag) e Q R"
proof (cases tag)
  case None
  then show ?thesis using ok R by (auto simp: write_tag_def goes_simps)
next
  case (Some a)
  have "goes (prepared_tag a) e (\<lambda>p t. goes (if p \<noteq> [] then write_indicator p True False False else ret ()) t
      (\<lambda>_ t. Q () (t\<lparr>e_prepared_tag := None\<rparr>)) R) R"
  proof (rule prepared_tag_goes)
    show "ok \<longrightarrow> writable_tag a \<and> tables e" using ok Some by simp
    fix p t assume t: "frame t = frame e"
    have "quiet ok (\<lambda>_. True) (if p \<noteq> [] then write_indicator p True False False else ret ())"
      by (intro quiet_if quiet_writers) simp_all
    moreover have "ok \<longrightarrow> e_encoding t = None" using ok t by (simp add: frame_def)
    ultimately show "goes (if p \<noteq> [] then write_indicator p True False False else ret ()) t
        (\<lambda>_ t. Q () (t\<lparr>e_prepared_tag := None\<rparr>)) R"
      by (rule quiet_goes) (use t R in \<open>auto intro: Q\<close>)
  qed (rule R)
  then show ?thesis using Some by (simp add: write_tag_def goes_simps)
qed

lemma collection_tag_goes:
  assumes ok: "ok \<longrightarrow> e_encoding e = None \<and> tables e \<and> optional writable_tag tag \<and> (tag = None \<longrightarrow> implicit)"
    and Q: "\<And>t. frame t = frame e \<Longrightarrow> Q () t" and R: "\<And>x t. \<not> ok \<Longrightarrow> R x t"
  shows "goes (collection_tag tag implicit) e Q R"
proof (cases "(\<not> e_canonical e \<or> tag = None) \<and> implicit")
  case True
  then show ?thesis by (simp add: collection_tag_def no_tag_def goes_simps Q)
next
  case False
  have "goes (write_tag tag) e Q R"
  proof (rule write_tag_goes)
    show "ok \<longrightarrow> e_encoding e = None \<and> tables e \<and> (\<exists>t. tag = Some t \<and> writable_tag t)"
      using ok False by (cases tag) (auto simp: optional_def)
  qed (fact Q R)+
  then show ?thesis using False by (auto simp: collection_tag_def goes_simps)
qed


lemma outline_encoding: "outline t = outline e \<Longrightarrow> e_encoding t = e_encoding e"
  by (simp add: outline_def)

lemma bang_writable: "writable_tag (uc ''!'')"
  by (simp add: writable_tag_def suffix_char_def uc_def)

lemma scalar_tag_goes:
  assumes ok: "ok \<longrightarrow> e_encoding e = None \<and> tables e \<and> optional writable_tag tag \<and> (tag = None \<longrightarrow> fst i \<or> snd i)"
    and c: "cached (fst i) v e"
    and Q: "\<And>t. outline t = outline e \<Longrightarrow> cached (fst i) v t \<Longrightarrow> Q () t" and R: "\<And>x t. \<not> ok \<Longrightarrow> R x t"
  shows "goes (process_tag (ScalarEvent a tag i v s)) e Q R"
proof -
  let ?m = "\<lambda>q canonical. if (\<not> canonical \<or> tag = None) \<and> (if q = Plain then fst i else snd i) then no_tag
      else if fst i \<and> tag = None then sbind no_tag (\<lambda>_. write_tag (Some (uc ''!''))) else write_tag tag"
  have "goes (chosen_style i v s) e (\<lambda>q t. goes (?m q (e_canonical t)) t Q R) R"
  proof (rule chosen_goes [OF c])
    fix q t assume t: "outline t = outline e" "cached (fst i) v t" and q: "q = Plain \<longrightarrow> fst i"
    have ok': "ok \<longrightarrow> e_encoding t = None \<and> tables t" using ok outline_encoding [OF t(1)] outline_tables [OF t(1)] by simp
    have Q': "Q () u" if "frame u = frame t" for u
      using that t frame_outline [of u t] frame_cached [of u t] by (intro Q) simp_all
    consider "(\<not> e_canonical t \<or> tag = None) \<and> (if q = Plain then fst i else snd i)"
      | "\<not> ((\<not> e_canonical t \<or> tag = None) \<and> (if q = Plain then fst i else snd i))" "fst i \<and> tag = None"
      | "\<not> ((\<not> e_canonical t \<or> tag = None) \<and> (if q = Plain then fst i else snd i))" "\<not> (fst i \<and> tag = None)" by blast
    then show "goes (?m q (e_canonical t)) t Q R"
    proof cases
      case 1
      then show ?thesis using Q' by (simp add: no_tag_def goes_simps)
    next
      case 2
      let ?t = "t\<lparr>e_prepared_tag := None\<rparr>"
      have "goes (write_tag (Some (uc ''!''))) ?t Q R"
      proof (rule write_tag_goes)
        show "ok \<longrightarrow> e_encoding ?t = None \<and> tables ?t \<and> (\<exists>x. Some (uc ''!'') = Some x \<and> writable_tag x)"
          using ok' bang_writable by (simp add: tables_def)
        show "Q () u" if "frame u = frame ?t" for u using that by (intro Q') simp
      qed (fact R)
      then show ?thesis using 2 by (simp add: no_tag_def goes_simps)
    next
      case 3
      have "goes (write_tag tag) t Q R"
      proof (rule write_tag_goes)
        show "ok \<longrightarrow> e_encoding t = None \<and> tables t \<and> (\<exists>x. tag = Some x \<and> writable_tag x)"
          using ok ok' 3 q by (cases tag) (auto simp: optional_def)
      qed (fact Q' R)+
      moreover have "?m q (e_canonical t) = write_tag tag" using 3 by auto
      ultimately show ?thesis by simp
    qed
  qed
  then show ?thesis by (simp add: process_tag_def goes_simps)
qed

lemma write_plain_quiet:
  assumes "\<forall>c \<in> set text. \<not> soft_break c"
  shows "quiet ok (\<lambda>_. True) (write_plain text split)"
  unfolding write_plain_def using plain_quiet [OF assms]
  by (intro quiet_then quiet_if quiet_writers) simp_all

lemma process_scalar_goes:
  assumes ok: "ok \<longrightarrow> e_encoding e = None" and c: "cached (fst i) v e"
    and Q: "\<And>t. outline t = outline e \<Longrightarrow> clean t \<Longrightarrow> Q () t" and R: "\<And>x t. \<not> ok \<Longrightarrow> R x t"
  shows "goes (process_scalar i v s) e Q R"
proof -
  let ?w = "\<lambda>v q split. case q of Plain \<Rightarrow> write_plain v split
      | Styled c \<Rightarrow> if c = dquote then write_double_quoted v split else if c = quote then write_single_quoted v split
          else if c = CHR ''>'' then write_folded v else if c = CHR ''|'' then write_literal v else write_plain v split"
  let ?Q = "\<lambda>t. Q () (t\<lparr>e_analysis := None, e_style := None\<rparr>)"
  have writes: "goes (?w v q split) u (\<lambda>_ t. ?Q t) R" if u: "outline u = outline e" and q: "style_fits v q" for q split u
  proof (rule quiet_goes)
    show "quiet ok (\<lambda>_. True) (?w v q split)"
    proof (cases q)
      case Plain
      then show ?thesis using q by (simp add: style_fits_def write_plain_quiet)
    next
      case (Styled c)
      then consider "c = dquote" | "c = quote" | "c = CHR ''>''" | "c = CHR ''|''" using q by (auto simp: style_fits_def)
      then show ?thesis by cases (simp_all add: Styled double_quiet single_quiet folded_quiet literal_quiet)
    qed
    show "ok \<longrightarrow> e_encoding u = None" using ok outline_encoding [OF u] by simp
    show "?Q t" if "frame t = frame u" for t
      using frame_outline [OF that] u by (intro Q) (simp_all add: outline_def clean_def)
  qed (rule R)
  have "goes (analyzed v) e (\<lambda>x t. goes (chosen_style i v s) t (\<lambda>q u. goes (?w (a_scalar x) q (\<not> e_simple_key_context u)) u (\<lambda>_ t. ?Q t) R) R) R"
  proof (rule analyzed_goes [OF c], unfold analyzed_text)
    fix t assume t: "outline t = outline e" "cached (fst i) v t"
    show "goes (chosen_style i v s) t (\<lambda>q u. goes (?w v q (\<not> e_simple_key_context u)) u (\<lambda>_ t. ?Q t) R) R"
    proof (rule chosen_goes [OF t(2)])
      fix q u assume "outline u = outline t" "style_fits v q"
      then show "goes (?w v q (\<not> e_simple_key_context u)) u (\<lambda>_ t. ?Q t) R" using t(1) by (intro writes) simp_all
    qed
  qed
  then show ?thesis by (simp add: process_scalar_def goes_simps)
qed


section \<open>What the states stand for\<close>

fun awaits :: "estate \<Rightarrow> expect list" where
  "awaits ExpectStreamStart = [AStream]"
| "awaits ExpectNothing = []"
| "awaits ExpectFirstDocumentStart = [ADocs]"
| "awaits ExpectDocumentStart = [ADocs]"
| "awaits ExpectDocumentEnd = [ADocEnd, ADocs]"
| "awaits ExpectDocumentRoot = [ANode, ADocEnd, ADocs]"
| "awaits ExpectFirstFlowSequenceItem = [AEntry]"
| "awaits ExpectFlowSequenceItem = [AEntry]"
| "awaits ExpectFirstFlowMappingKey = [AKey]"
| "awaits ExpectFlowMappingKey = [AKey]"
| "awaits ExpectFlowMappingSimpleValue = [AValue]"
| "awaits ExpectFlowMappingValue = [AValue]"
| "awaits ExpectFirstBlockSequenceItem = [AEntry]"
| "awaits ExpectBlockSequenceItem = [AEntry]"
| "awaits ExpectFirstBlockMappingKey = [AKey]"
| "awaits ExpectBlockMappingKey = [AKey]"
| "awaits ExpectBlockMappingSimpleValue = [AValue]"
| "awaits ExpectBlockMappingValue = [AValue]"

definition in_collection :: "estate \<Rightarrow> bool" where
  "in_collection q = (\<exists>a \<in> {AEntry, AKey, AValue}. awaits q = [a])"

text \<open>The states that are pushed, and stacks of them below a state.\<close>

definition pushable :: "estate \<Rightarrow> bool" where
  "pushable q = (q \<in> {ExpectDocumentEnd, ExpectFlowSequenceItem, ExpectFlowMappingKey, ExpectFlowMappingSimpleValue,
     ExpectFlowMappingValue, ExpectBlockSequenceItem, ExpectBlockMappingKey, ExpectBlockMappingSimpleValue, ExpectBlockMappingValue})"

fun stack_ok :: "estate \<Rightarrow> estate list \<Rightarrow> bool" where
  "stack_ok q [] = (\<not> in_collection q)"
| "stack_ok q (p # ps) = (in_collection q \<and> pushable p \<and> stack_ok p ps)"

definition expects :: "estate list \<Rightarrow> expect list" where
  "expects qs = concat (map awaits qs)"

definition emitter_expects :: "emitter \<Rightarrow> expect list" where
  "emitter_expects e = (case e_state e of None \<Rightarrow> [] | Some q \<Rightarrow> expects (q # e_states e))"

text \<open>States behind the start of a document.\<close>

definition in_document :: "estate \<Rightarrow> bool" where
  "in_document q = (q \<notin> {ExpectStreamStart, ExpectNothing, ExpectFirstDocumentStart, ExpectDocumentStart})"

definition next_event :: "(ucs event_of \<Rightarrow> bool) \<Rightarrow> emitter \<Rightarrow> bool" where
  "next_event p e = (case e_events e of [] \<Rightarrow> False | k # _ \<Rightarrow> p k)"

text \<open>The invariant between two events.\<close>

definition emitter_inv :: "bool \<Rightarrow> ucs event_of list \<Rightarrow> emitter \<Rightarrow> bool" where
  "emitter_inv ok ks e =
     ((ok \<longrightarrow> e_encoding e = None) \<and> e_events e = ks \<and> clean e \<and>
      (\<exists>q. e_state e = Some q \<and> stack_ok q (e_states e) \<and> length (e_indents e) = length (e_states e) \<and>
         (ok \<longrightarrow> in_document q \<longrightarrow> tables e) \<and>
         (q = ExpectFirstBlockSequenceItem \<longrightarrow> next_event (\<lambda>k. k \<noteq> SequenceEndEvent) e) \<and>
         (q = ExpectFirstBlockMappingKey \<longrightarrow> next_event (\<lambda>k. k \<noteq> MappingEndEvent) e)))"

text \<open>Where a node is written: the state it returns to is on the stack.\<close>

definition node_inv :: "bool \<Rightarrow> ucs event_of list \<Rightarrow> ucs event_of \<Rightarrow> estate \<Rightarrow> estate list \<Rightarrow> emitter \<Rightarrow> bool" where
  "node_inv ok ks k p qs e =
     ((ok \<longrightarrow> e_encoding e = None) \<and> e_events e = ks \<and> (ok \<longrightarrow> tables e) \<and> e_states e = p # qs \<and> pushable p \<and> stack_ok p qs \<and>
      length (e_indents e) = length qs \<and> (sequence_start k \<or> mapping_start k \<longrightarrow> ks \<noteq> []) \<and>
      (case k of ScalarEvent a t i v s \<Rightarrow> cached (fst i) v e | _ \<Rightarrow> clean e))"

lemma pushable_in_document: "pushable p \<Longrightarrow> in_document p"
  by (auto simp: pushable_def in_document_def)

lemma pushable_not_first: "pushable p \<Longrightarrow> p \<noteq> ExpectFirstBlockSequenceItem \<and> p \<noteq> ExpectFirstBlockMappingKey"
  by (auto simp: pushable_def)

lemma goes_pop_state: "e_states e = p # qs \<Longrightarrow> goes pop_state e Q R = Q () (e\<lparr>e_states := qs, e_state := Some p\<rparr>)"
  by (simp add: goes_def pop_state_def)

lemma goes_pop_indent: "e_indents e = i # is \<Longrightarrow> goes pop_indent e Q R = Q () (e\<lparr>e_indents := is, e_indent := i\<rparr>)"
  by (simp add: goes_def pop_indent_def)

text \<open>The node is written: what is left is what the states stand for.\<close>

definition returned :: "bool \<Rightarrow> ucs event_of list \<Rightarrow> estate \<Rightarrow> estate list \<Rightarrow> emitter \<Rightarrow> bool" where
  "returned ok ks p qs t = (emitter_inv ok ks t \<and> emitter_expects t = expects (p # qs))"

lemma pop_returns:
  assumes "(ok \<longrightarrow> e_encoding e = None) \<and> e_events e = ks \<and> clean e \<and> (ok \<longrightarrow> tables e)"
    and "e_states e = p # qs" and "pushable p" and "stack_ok p qs" and "length (e_indents e) = length qs"
  shows "goes pop_state e (\<lambda>_. returned ok ks p qs) R"
  using assms pushable_not_first [OF assms(3)]
  by (simp add: goes_pop_state returned_def emitter_inv_def emitter_expects_def clean_def tables_def)

lemma alias_goes:
  assumes n: "node_inv ok ks (AliasEvent a) p qs e" and w: "ok \<longrightarrow> writable has (AliasEvent a)"
  shows "goes (expect_alias (AliasEvent a)) e (\<lambda>_. returned ok ks p qs) (\<lambda>_ _. \<not> ok)"
proof (cases a)
  case None
  then show ?thesis using w by (simp add: expect_alias_def goes_simps)
next
  case (Some x)
  have "goes (process_anchor (uc ''*'') (AliasEvent a)) e (\<lambda>_ t. goes pop_state t (\<lambda>_. returned ok ks p qs) (\<lambda>_ _. \<not> ok)) (\<lambda>_ _. \<not> ok)"
  proof (rule process_anchor_goes)
    show "ok \<longrightarrow> e_encoding e = None \<and> optional writable_anchor (event_anchor (AliasEvent a))" using n w by (simp add: node_inv_def)
    show "goes pop_state t (\<lambda>_. returned ok ks p qs) (\<lambda>_ _. \<not> ok)" if t: "frame t = frame e" for t
      by (rule pop_returns) (use n t in \<open>simp_all add: node_inv_def frame_def clean_def tables_def\<close>)
  qed simp
  then show ?thesis using Some by (simp add: expect_alias_def goes_simps)
qed


definition ready :: "bool \<Rightarrow> ucs event_of list \<Rightarrow> estate \<Rightarrow> estate list \<Rightarrow> emitter \<Rightarrow> bool" where
  "ready ok ks p qs e =
     ((ok \<longrightarrow> e_encoding e = None) \<and> e_events e = ks \<and> clean e \<and> (ok \<longrightarrow> tables e) \<and> e_states e = p # qs \<and> pushable p \<and> stack_ok p qs \<and>
      length (e_indents e) = length qs)"

lemma ready_frame: "ready ok ks p qs e \<Longrightarrow> frame t = frame e \<Longrightarrow> ready ok ks p qs t"
  by (simp add: ready_def frame_def clean_def tables_def)

lemma ready_quiet:
  assumes e: "ready ok ks p qs e" and m: "quiet ok (\<lambda>_. True) m"
    and Q: "\<And>x t. ready ok ks p qs t \<Longrightarrow> goes (f x) t Q (\<lambda>_ _. \<not> ok)"
  shows "goes (sbind m f) e Q (\<lambda>_ _. \<not> ok)"
  unfolding goes_sbind
proof (rule quiet_goes [OF m])
  show "ok \<longrightarrow> e_encoding e = None" using e by (simp add: ready_def)
  show "goes (f x) t Q (\<lambda>_ _. \<not> ok)" if "frame t = frame e" for x t
    using ready_frame [OF e that] by (intro Q) simp_all
qed simp

lemma opened:
  assumes e: "ready ok ks p qs e" and q: "in_collection q" "in_document q"
    and nx: "q = ExpectFirstBlockSequenceItem \<Longrightarrow> next_event (\<lambda>k. k \<noteq> SequenceEndEvent) e"
      "q = ExpectFirstBlockMappingKey \<Longrightarrow> next_event (\<lambda>k. k \<noteq> MappingEndEvent) e"
  shows "goes (sbind (increase_indent f b) (\<lambda>_. to_state q)) e
    (\<lambda>_ t. emitter_inv ok ks t \<and> emitter_expects t = awaits q @ expects (p # qs)) R"
  using assms
  by (simp add: goes_simps increase_indent_def to_state_def ready_def emitter_inv_def emitter_expects_def expects_def
      clean_def tables_def next_event_def)

lemma flow_goes:
  assumes e: "ready ok ks p qs e" and q: "q = ExpectFirstFlowSequenceItem \<or> q = ExpectFirstFlowMappingKey"
  shows "goes (sbind (write_indicator b True True False) (\<lambda>_. sbind (change_level 1) (\<lambda>_.
      sbind (increase_indent True False) (\<lambda>_. to_state q)))) e
    (\<lambda>_ t. emitter_inv ok ks t \<and> emitter_expects t = awaits q @ expects (p # qs)) (\<lambda>_ _. \<not> ok)"
proof (rule ready_quiet [OF e quiet_indicator], simp)
  fix t assume "ready ok ks p qs t"
  then show "goes (sbind (change_level 1) (\<lambda>_. sbind (increase_indent True False) (\<lambda>_. to_state q))) t
      (\<lambda>_ t. emitter_inv ok ks t \<and> emitter_expects t = awaits q @ expects (p # qs)) (\<lambda>_ _. \<not> ok)"
  proof (rule ready_quiet)
    show "quiet ok (\<lambda>_. True) (change_level 1)" unfolding change_level_def by (rule quiet_modify) simp_all
    show "goes (sbind (increase_indent True False) (\<lambda>_. to_state q)) u
      (\<lambda>_ t. emitter_inv ok ks t \<and> emitter_expects t = awaits q @ expects (p # qs)) (\<lambda>_ _. \<not> ok)" if "ready ok ks p qs u" for u
      by (rule opened [OF that]) (use q in \<open>auto simp: in_collection_def in_document_def\<close>)
  qed
qed

lemma block_sequence_goes:
  assumes e: "ready ok ks p qs e" "next_event (\<lambda>k. k \<noteq> SequenceEndEvent) e"
  shows "goes expect_block_sequence e (\<lambda>_ t. emitter_inv ok ks t \<and> emitter_expects t = AEntry # expects (p # qs)) (\<lambda>_ _. \<not> ok)"
  using opened [OF e(1), of ExpectFirstBlockSequenceItem] e(2)
  unfolding expect_block_sequence_def goes_sbind [of "gets _"] goes_gets by (simp add: in_collection_def in_document_def)

lemma block_mapping_goes:
  assumes e: "ready ok ks p qs e" "next_event (\<lambda>k. k \<noteq> MappingEndEvent) e"
  shows "goes expect_block_mapping e (\<lambda>_ t. emitter_inv ok ks t \<and> emitter_expects t = AKey # expects (p # qs)) (\<lambda>_ _. \<not> ok)"
  using opened [OF e(1), of ExpectFirstBlockMappingKey] e(2)
  unfolding expect_block_mapping_def by (simp add: in_collection_def in_document_def)


lemma scalar_goes:
  assumes e: "(ok \<longrightarrow> e_encoding e = None) \<and> e_events e = ks" "(ok \<longrightarrow> tables e)" "e_states e = p # qs" "pushable p" "stack_ok p qs"
      "length (e_indents e) = length qs" and c: "cached (fst i) v e"
  shows "goes (expect_scalar i v s) e (\<lambda>_. returned ok ks p qs) (\<lambda>_ _. \<not> ok)"
proof -
  let ?m = "sbind (process_scalar i v s) (\<lambda>_. sbind pop_indent (\<lambda>_. pop_state))"
  have "goes ?m u (\<lambda>_. returned ok ks p qs) (\<lambda>_ _. \<not> ok)"
    if u: "e_indents u = x # e_indents e" "e_states u = e_states e" "e_encoding u = e_encoding e \<and> e_events u = e_events e" "e_tag_prefixes u = e_tag_prefixes e"
      "cached (fst i) v u" for u x
    unfolding goes_sbind
  proof (rule process_scalar_goes [OF _ u(5)])
    show "ok \<longrightarrow> e_encoding u = None" using e u by simp
    fix t assume t: "outline t = outline u" "clean t"
    have i: "e_indents t = x # e_indents e" using t(1) u(1) by (simp add: outline_def)
    have "goes pop_state (t\<lparr>e_indents := e_indents e, e_indent := x\<rparr>) (\<lambda>_. returned ok ks p qs) (\<lambda>_ _. \<not> ok)"
      by (rule pop_returns) (use e t u in \<open>simp_all add: outline_def clean_def tables_def\<close>)
    then show "goes pop_indent t (\<lambda>x t. goes pop_state t (\<lambda>_. returned ok ks p qs) (\<lambda>_ _. \<not> ok)) (\<lambda>_ _. \<not> ok)"
      by (simp add: goes_pop_indent [OF i])
  qed simp
  note run = this
  show ?thesis
    unfolding expect_scalar_def increase_indent_def goes_sbind [of "modify _"] goes_modify
    by (rule run) (use c in \<open>simp_all add: cached_def\<close>)
qed

lemma expects_Cons: "expects (q # qs) = awaits q @ expects qs"
  by (simp add: expects_def)

lemma node_clean: "node_inv ok ks k p qs e \<Longrightarrow> sequence_start k \<or> mapping_start k \<Longrightarrow> ready ok ks p qs e"
  by (cases k) (auto simp: node_inv_def ready_def)

text \<open>A node is taken, or refused where the grammar does not have it.\<close>

definition took :: "bool \<Rightarrow> ucs event_of list \<Rightarrow> expect list option \<Rightarrow> emitter \<Rightarrow> bool" where
  "took ok ks s t = (emitter_inv ok ks t \<and> s = Some (emitter_expects t))"

definition takes :: "bool \<Rightarrow> ucs event_of list \<Rightarrow> expect list option \<Rightarrow> unit emits \<Rightarrow> emitter \<Rightarrow> bool" where
  "takes ok ks s m e = goes m e (\<lambda>_. took ok ks s) (\<lambda>_ _. ok \<longrightarrow> s = None)"

lemma takesI: "goes m e (\<lambda>_. took ok ks s) (\<lambda>_ _. \<not> ok) \<Longrightarrow> takes ok ks s m e"
  unfolding takes_def by (erule goes_conseq) simp_all

lemma returned_takes: "goes m e (\<lambda>_. returned ok ks p qs) (\<lambda>_ _. \<not> ok) \<Longrightarrow> takes ok ks (Some (expects (p # qs))) m e"
  by (rule takesI, erule goes_conseq) (simp_all add: returned_def took_def)

lemma scalar_node_goes:
  assumes n: "node_inv ok ks k p qs e" and w: "ok \<longrightarrow> writable has k" and k: "k = ScalarEvent a tag i v s"
  shows "goes (sbind (sbind (process_anchor (uc ''&'') k) (\<lambda>_. process_tag k)) (\<lambda>_. expect_scalar i v s)) e
    (\<lambda>_. returned ok ks p qs) (\<lambda>_ _. \<not> ok)"
  unfolding goes_sbind
proof (rule process_anchor_goes)
  show "ok \<longrightarrow> e_encoding e = None \<and> optional writable_anchor (event_anchor k)" using n w k by (simp add: node_inv_def)
  fix t assume t: "frame t = frame e"
  show "goes (process_tag k) t (\<lambda>x t. goes (expect_scalar i v s) t (\<lambda>_. returned ok ks p qs) (\<lambda>_ _. \<not> ok)) (\<lambda>_ _. \<not> ok)"
    unfolding k
  proof (rule scalar_tag_goes)
    show "ok \<longrightarrow> e_encoding t = None \<and> tables t \<and> optional writable_tag tag \<and> (tag = None \<longrightarrow> fst i \<or> snd i)"
      using n w t k by (simp add: node_inv_def frame_def tables_def)
    show "cached (fst i) v t" using n frame_cached [OF t] k by (simp add: node_inv_def)
    show "goes (expect_scalar i v s) u (\<lambda>_. returned ok ks p qs) (\<lambda>_ _. \<not> ok)"
      if "outline u = outline t" "cached (fst i) v u" for u
      by (rule scalar_goes [OF _ _ _ _ _ _ that(2)])
         (use n that(1) t in \<open>simp_all add: node_inv_def outline_def frame_def tables_def\<close>)
  qed simp
qed simp

text \<open>A collection: its anchor and its tag, then the start of its entries.\<close>

lemma collection_goes:
  assumes e: "ready ok ks p qs e"
    and w: "ok \<longrightarrow> optional writable_anchor (event_anchor k) \<and> optional writable_tag tag \<and> (tag = None \<longrightarrow> i)"
    and start: "\<And>t. ready ok ks p qs t \<Longrightarrow> goes m t Q (\<lambda>_ _. \<not> ok)"
  shows "goes (sbind (sbind (process_anchor (uc ''&'') k) (\<lambda>_. collection_tag tag i)) (\<lambda>_. m)) e Q (\<lambda>_ _. \<not> ok)"
  unfolding goes_sbind
proof (rule process_anchor_goes)
  show "ok \<longrightarrow> e_encoding e = None \<and> optional writable_anchor (event_anchor k)" using e w by (simp add: ready_def)
  fix t assume t: "frame t = frame e"
  have rt: "ready ok ks p qs t" by (rule ready_frame [OF e t])
  show "goes (collection_tag tag i) t (\<lambda>x t. goes m t Q (\<lambda>_ _. \<not> ok)) (\<lambda>_ _. \<not> ok)"
  proof (rule collection_tag_goes)
    show "ok \<longrightarrow> e_encoding t = None \<and> tables t \<and> optional writable_tag tag \<and> (tag = None \<longrightarrow> i)"
      using rt w by (simp add: ready_def)
    show "goes m u Q (\<lambda>_ _. \<not> ok)" if "frame u = frame t" for u
      by (rule start [OF ready_frame [OF rt that]])
  qed simp
qed simp

text \<open>In flow style or, where it is not empty, in block style.\<close>

lemma styles_goes:
  assumes e: "ready ok ks p qs e" and q: "awaits q = [a]" "q = ExpectFirstFlowSequenceItem \<or> q = ExpectFirstFlowMappingKey"
    and block: "\<And>t. ready ok ks p qs t \<Longrightarrow> \<not> bare t \<Longrightarrow>
      goes m t (\<lambda>_ u. emitter_inv ok ks u \<and> emitter_expects u = a # expects (p # qs)) (\<lambda>_ _. \<not> ok)"
    and t: "ready ok ks p qs t"
  shows "goes (sbind (gets (\<lambda>e. in_flow_style fl e \<or> bare e)) (\<lambda>flow. if flow then
      sbind (write_indicator b True True False) (\<lambda>_. sbind (change_level 1) (\<lambda>_.
      sbind (increase_indent True False) (\<lambda>_. to_state q))) else m)) t
    (\<lambda>_. took ok ks (Some (a # expects (p # qs)))) (\<lambda>_ _. \<not> ok)"
proof (cases "in_flow_style fl t \<or> bare t")
  case True
  have "goes (sbind (write_indicator b True True False) (\<lambda>_. sbind (change_level 1) (\<lambda>_.
      sbind (increase_indent True False) (\<lambda>_. to_state q)))) t (\<lambda>_. took ok ks (Some (a # expects (p # qs)))) (\<lambda>_ _. \<not> ok)"
    by (rule goes_conseq [OF flow_goes [OF t q(2)]]) (simp_all add: took_def q(1))
  then show ?thesis unfolding goes_sbind [of "gets _"] goes_gets by (simp only: True if_True)
next
  case False
  then have "goes m t (\<lambda>_ u. emitter_inv ok ks u \<and> emitter_expects u = a # expects (p # qs)) (\<lambda>_ _. \<not> ok)"
    by (intro block t) simp
  then have "goes m t (\<lambda>_. took ok ks (Some (a # expects (p # qs)))) (\<lambda>_ _. \<not> ok)"
    by (rule goes_conseq) (simp_all add: took_def)
  then show ?thesis unfolding goes_sbind [of "gets _"] goes_gets by (simp only: False if_False)
qed

lemma node_goes:
  assumes n: "node_inv ok ks k p qs e" and w: "ok \<longrightarrow> writable has k"
  shows "takes ok ks (node_shape (expects (p # qs)) k) (expect_node k root seq mapping simple_key) e"
proof -
  let ?e = "e\<lparr>e_root_context := root, e_sequence_context := seq, e_mapping_context := mapping, e_simple_key_context := simple_key\<rparr>"
  have n': "node_inv ok ks k p qs ?e" using n by (auto simp: node_inv_def clean_def cached_def tables_def split: event_of.split)
  show ?thesis
  proof (cases k)
    case (AliasEvent a)
    have "takes ok ks (Some (expects (p # qs))) (expect_alias k) ?e"
      by (rule returned_takes) (use alias_goes n' w AliasEvent in blast)
    then show ?thesis using AliasEvent by (simp add: expect_node_def takes_def goes_simps Let_def)
  next
    case (ScalarEvent a tag i v s)
    have "takes ok ks (Some (expects (p # qs))) (sbind (sbind (process_anchor (uc ''&'') k) (\<lambda>_. process_tag k)) (\<lambda>_. expect_scalar i v s)) ?e"
      by (rule returned_takes) (rule scalar_node_goes [OF n' w ScalarEvent])
    then show ?thesis using ScalarEvent by (simp add: expect_node_def takes_def goes_simps Let_def)
  next
    case (SequenceStartEvent a tag i fl)
    have r: "ready ok ks p qs ?e" "ks \<noteq> []" using n' SequenceStartEvent node_clean [OF n'] by (simp_all add: node_inv_def)
    have block: "goes expect_block_sequence t (\<lambda>_ u. emitter_inv ok ks u \<and> emitter_expects u = AEntry # expects (p # qs)) (\<lambda>_ _. \<not> ok)"
      if "ready ok ks p qs t" "\<not> check_empty_sequence k t" for t
      using that r(2) SequenceStartEvent
      by (intro block_sequence_goes) (auto simp: ready_def next_event_def check_empty_sequence_def next_is_def split: list.splits)
    let ?m = "sbind (gets (\<lambda>e. in_flow_style fl e \<or> check_empty_sequence k e)) (\<lambda>flow. if flow then expect_flow_sequence else expect_block_sequence)"
    have m: "goes ?m t (\<lambda>_. took ok ks (Some (AEntry # expects (p # qs)))) (\<lambda>_ _. \<not> ok)"
      if "ready ok ks p qs t" for t
      unfolding expect_flow_sequence_def by (rule styles_goes [OF r(1) _ _ block that]) simp_all
    have "takes ok ks (Some (AEntry # expects (p # qs))) (sbind (sbind (process_anchor (uc ''&'') k) (\<lambda>_. collection_tag tag i)) (\<lambda>_. ?m)) ?e"
      by (intro takesI collection_goes [OF r(1) _ m]) (use w SequenceStartEvent in simp)
    then show ?thesis using SequenceStartEvent by (simp add: expect_node_def takes_def goes_simps Let_def process_tag_def)
  next
    case (MappingStartEvent a tag i fl)
    have r: "ready ok ks p qs ?e" "ks \<noteq> []" using n' MappingStartEvent node_clean [OF n'] by (simp_all add: node_inv_def)
    have block: "goes expect_block_mapping t (\<lambda>_ u. emitter_inv ok ks u \<and> emitter_expects u = AKey # expects (p # qs)) (\<lambda>_ _. \<not> ok)"
      if "ready ok ks p qs t" "\<not> check_empty_mapping k t" for t
      using that r(2) MappingStartEvent
      by (intro block_mapping_goes) (auto simp: ready_def next_event_def check_empty_mapping_def next_is_def split: list.splits)
    let ?m = "sbind (gets (\<lambda>e. in_flow_style fl e \<or> check_empty_mapping k e)) (\<lambda>flow. if flow then expect_flow_mapping else expect_block_mapping)"
    have m: "goes ?m t (\<lambda>_. took ok ks (Some (AKey # expects (p # qs)))) (\<lambda>_ _. \<not> ok)"
      if "ready ok ks p qs t" for t
      unfolding expect_flow_mapping_def by (rule styles_goes [OF r(1) _ _ block that]) simp_all
    have "takes ok ks (Some (AKey # expects (p # qs))) (sbind (sbind (process_anchor (uc ''&'') k) (\<lambda>_. collection_tag tag i)) (\<lambda>_. ?m)) ?e"
      by (intro takesI collection_goes [OF r(1) _ m]) (use w MappingStartEvent in simp)
    then show ?thesis using MappingStartEvent by (simp add: expect_node_def takes_def goes_simps Let_def process_tag_def)
  qed (simp_all add: expect_node_def takes_def goes_simps Let_def)
qed


section \<open>Keys, and the states of collections\<close>

definition kept :: "ucs event_of \<Rightarrow> emitter \<Rightarrow> bool" where
  "kept k e = (case k of ScalarEvent a t i v s \<Rightarrow> cached (fst i) v e | _ \<Rightarrow> clean e)"

lemma clean_kept: "clean e \<Longrightarrow> kept k e"
  by (auto simp: kept_def clean_cached split: event_of.split)

lemma frame_kept: "frame t = frame e \<Longrightarrow> kept k t = kept k e"
  by (cases k) (simp_all add: kept_def frame_clean [of t e] frame_cached [of t e])

lemma writable_marks:
  "writable has k \<Longrightarrow> optional writable_anchor (event_anchor k) \<and> optional writable_tag (event_tag k)"
  by (cases k) (auto simp: optional_def)

text \<open>The queue, the stacks and what is kept, where a node or the end of a collection is next.\<close>

definition placed :: "bool \<Rightarrow> ucs event_of list \<Rightarrow> ucs event_of \<Rightarrow> estate list \<Rightarrow> emitter \<Rightarrow> bool" where
  "placed ok ks k qs e =
     ((ok \<longrightarrow> e_encoding e = None) \<and> e_events e = ks \<and> (ok \<longrightarrow> tables e) \<and> e_states e = qs \<and> length (e_indents e) = length qs \<and>
      (sequence_start k \<or> mapping_start k \<longrightarrow> ks \<noteq> []) \<and> kept k e)"

lemma placed_frame: "placed ok ks k qs e \<Longrightarrow> frame t = frame e \<Longrightarrow> placed ok ks k qs t"
  using frame_kept [of t e k] by (simp add: placed_def frame_def tables_def)

lemma placed_quiet:
  assumes e: "placed ok ks k qs e" and m: "quiet ok V m" and f: "\<And>x t. V x \<Longrightarrow> placed ok ks k qs t \<Longrightarrow> takes ok ks s (f x) t"
  shows "takes ok ks s (sbind m f) e"
  unfolding takes_def goes_sbind
proof (rule quiet_goes [OF m])
  show "ok \<longrightarrow> e_encoding e = None" using e by (simp add: placed_def)
  show "goes (f x) t (\<lambda>_. took ok ks s) (\<lambda>_ _. ok \<longrightarrow> s = None)" if "frame t = frame e" "V x" for x t
    using f [OF that(2) placed_frame [OF e that(1)]] by (simp add: takes_def)
qed simp

lemma placed_writes:
  assumes "placed ok ks k qs e" and "quiet ok (\<lambda>_. True) m" and "\<And>x t. placed ok ks k qs t \<Longrightarrow> takes ok ks s (f x) t"
  shows "takes ok ks s (sbind m f) e"
  using assms by (rule placed_quiet)

lemma simple_key_goes:
  assumes e: "ok \<longrightarrow> e_encoding e = None \<and> tables e" "clean e" and w: "ok \<longrightarrow> writable has k"
    and Q: "\<And>b t. outline t = outline e \<Longrightarrow> kept k t \<Longrightarrow> Q b t" and R: "\<And>x t. \<not> ok \<Longrightarrow> R x t"
  shows "goes (check_simple_key k) e Q R"
proof -
  let ?a = "case event_anchor k of Some a \<Rightarrow> sbind (prepared_anchor a) (\<lambda>p. ret (length p)) | None \<Rightarrow> ret 0"
  let ?t = "\<lambda>n. case event_tag k of Some t \<Rightarrow> sbind (prepared_tag t) (\<lambda>p. ret (n + length p)) | None \<Rightarrow> ret n"
  let ?v = "\<lambda>n. case k of
       ScalarEvent a t i v s \<Rightarrow> sbind (analyzed v) (\<lambda>x. ret (n + length (a_scalar x) < 128 \<and> \<not> a_empty x \<and> \<not> a_multiline x))
     | AliasEvent a \<Rightarrow> ret (n < 128)
     | _ \<Rightarrow> gets (\<lambda>e. n < 128 \<and> (check_empty_sequence k e \<or> check_empty_mapping k e))"
  have v: "goes (?v n) t Q R" if t: "frame t = frame e" for n t
  proof (cases k)
    case (ScalarEvent a tag i v s)
    have "goes (analyzed v) t (\<lambda>x u. goes (ret (n + length (a_scalar x) < 128 \<and> \<not> a_empty x \<and> \<not> a_multiline x)) u Q R) R"
    proof (rule analyzed_goes)
      show "cached (fst i) v t" using e(2) frame_clean [OF t] by (simp add: clean_cached)
      fix u assume u: "outline u = outline t" "cached (fst i) v u"
      have "Q b u" for b using u frame_outline [OF t] ScalarEvent by (intro Q) (simp_all add: kept_def)
      then show "goes (ret (n + length (a_scalar (analyze_scalar (e_allow_unicode t) v)) < 128 \<and>
          \<not> a_empty (analyze_scalar (e_allow_unicode t) v) \<and> \<not> a_multiline (analyze_scalar (e_allow_unicode t) v))) u Q R"
        by (simp only: goes_ret)
    qed
    then show ?thesis using ScalarEvent by (simp add: goes_simps)
  qed (use Q [OF frame_outline [OF t]] frame_kept [OF t, of k] clean_kept [OF e(2), of k] in \<open>auto simp: goes_simps\<close>)
  have tag: "goes (?t n) t (\<lambda>n u. goes (?v n) u Q R) R" if t: "frame t = frame e" for n t
  proof (cases "event_tag k")
    case None
    then show ?thesis using v [OF t] by (simp add: goes_ret)
  next
    case (Some x)
    have "goes (prepared_tag x) t (\<lambda>p u. goes (?v (n + length p)) u Q R) R"
    proof (rule prepared_tag_goes)
      show "ok \<longrightarrow> writable_tag x \<and> tables t" using writable_marks [of has k] w e(1) Some t by (auto simp: optional_def tables_def frame_def)
      show "goes (?v (n + length p)) u Q R" if "frame u = frame t" for p u using v that t by simp
    qed (rule R)
    then show ?thesis using Some by (simp add: goes_sbind goes_ret)
  qed
  have "goes ?a e (\<lambda>n t. goes (?t n) t (\<lambda>n u. goes (?v n) u Q R) R) R"
  proof (cases "event_anchor k")
    case None
    then show ?thesis using tag by (simp add: goes_ret)
  next
    case (Some x)
    have "goes (prepared_anchor x) e (\<lambda>p t. goes (?t (length p)) t (\<lambda>n u. goes (?v n) u Q R) R) R"
      by (rule prepared_anchor_goes) (use writable_marks [of has k] w Some tag R in \<open>auto simp: optional_def\<close>)
    then show ?thesis using Some by (simp add: goes_sbind goes_ret)
  qed
  then show ?thesis unfolding check_simple_key_def goes_sbind .
qed


lemma push_node_takes:
  assumes e: "placed ok ks k qs e" and p: "pushable p" "stack_ok p qs" and w: "ok \<longrightarrow> writable has k"
  shows "takes ok ks (node_shape (expects (p # qs)) k) (sbind (push_state p) (\<lambda>_. expect_node k root seq mapping simple_key)) e"
proof -
  let ?e = "e\<lparr>e_states := p # e_states e\<rparr>"
  have "node_inv ok ks k p qs ?e"
    using e p by (cases k) (auto simp: placed_def node_inv_def kept_def clean_def cached_def tables_def)
  from node_goes [OF this w] show ?thesis by (simp add: takes_def goes_simps push_state_def)
qed

lemma close_takes:
  assumes e: "placed ok ks k (p # qs) e" "clean e" and p: "pushable p" "stack_ok p qs"
  shows "takes ok ks (Some (expects (p # qs))) close_block e" "takes ok ks (Some (expects (p # qs))) (close_flow first bracket) e"
proof -
  obtain i "is" where i: "e_indents e = i # is" using e(1) by (cases "e_indents e") (auto simp: placed_def)
  let ?e = "e\<lparr>e_indents := is, e_indent := i\<rparr>"
  have r: "ready ok ks p qs ?e" using e p i by (auto simp: placed_def ready_def clean_def tables_def)
  have pop: "goes pop_state t (\<lambda>_. returned ok ks p qs) (\<lambda>_ _. \<not> ok)" if "ready ok ks p qs t" for t
    by (rule pop_returns) (use that in \<open>simp_all add: ready_def\<close>)
  show "takes ok ks (Some (expects (p # qs))) close_block e"
    using pop [OF r] by (intro returned_takes) (simp add: close_block_def goes_sbind goes_pop_indent [OF i])
  have "goes (sbind (change_level (-1)) (\<lambda>_. sbind (gets e_canonical) (\<lambda>canonical.
      sbind (if \<not> first \<and> canonical then sbind (write_indicator (uc '','') False False False) (\<lambda>_. write_indent) else ret ()) (\<lambda>_.
      sbind (write_indicator bracket False False False) (\<lambda>_. pop_state))))) ?e (\<lambda>_. returned ok ks p qs) (\<lambda>_ _. \<not> ok)"
    unfolding change_level_def
    by (rule ready_quiet [OF r quiet_modify], simp, simp, erule ready_quiet, rule quiet_gets, simp,
        erule ready_quiet, intro quiet_if quiet_then quiet_writers, simp_all,
        erule ready_quiet, intro quiet_writers, simp, erule pop)
  then show "takes ok ks (Some (expects (p # qs))) (close_flow first bracket) e"
    by (intro returned_takes) (simp add: close_flow_def goes_sbind goes_pop_indent [OF i])
qed

lemma keyed_takes:
  assumes e: "placed ok ks k qs e" "clean e" and w: "ok \<longrightarrow> writable has k"
    and p: "pushable p" "stack_ok p qs" "pushable p'" "stack_ok p' qs" "awaits p' = awaits p" and m: "quiet ok (\<lambda>_. True) m"
  shows "takes ok ks (node_shape (expects (p # qs)) k) (sbind (check_simple_key k) (\<lambda>simple.
    if simple then sbind (push_state p) (\<lambda>_. expect_node k False False True True)
    else sbind m (\<lambda>_. sbind (push_state p') (\<lambda>_. expect_node k False False True False)))) e"
  unfolding takes_def goes_sbind [of "check_simple_key k"]
proof (rule simple_key_goes [OF _ e(2) w])
  show "ok \<longrightarrow> e_encoding e = None \<and> tables e" using e(1) by (simp add: placed_def)
  fix b t assume t: "outline t = outline e" "kept k t"
  then have pl: "placed ok ks k qs t" using e(1) by (simp add: placed_def outline_def tables_def)
  have same: "expects (p' # qs) = expects (p # qs)" using p(5) by (simp add: expects_def)
  have simple: "takes ok ks (node_shape (expects (p # qs)) k) (sbind (push_state p) (\<lambda>_. expect_node k False False True True)) t"
    by (rule push_node_takes [OF pl p(1,2) w])
  have other: "takes ok ks (node_shape (expects (p # qs)) k) (sbind m (\<lambda>_. sbind (push_state p') (\<lambda>_. expect_node k False False True False))) t"
    by (rule placed_writes [OF pl m], unfold same [symmetric], rule push_node_takes [OF _ p(3,4) w])
  show "goes (if b then sbind (push_state p) (\<lambda>_. expect_node k False False True True)
      else sbind m (\<lambda>_. sbind (push_state p') (\<lambda>_. expect_node k False False True False))) t
      (\<lambda>_. took ok ks (node_shape (expects (p # qs)) k)) (\<lambda>_ _. ok \<longrightarrow> node_shape (expects (p # qs)) k = None)"
    using simple other by (simp add: takes_def)
qed simp

lemma stack_swap: "in_collection q \<Longrightarrow> in_collection p \<Longrightarrow> stack_ok q qs \<Longrightarrow> stack_ok p qs"
  by (cases qs) auto

lemma comma_quiet: "quiet ok (\<lambda>_. True) (comma first)"
  unfolding comma_def by (intro quiet_if quiet_writers) simp_all

lemma wrap_quiet: "quiet ok (\<lambda>_. True) wrap_line"
  unfolding wrap_line_def by (intro quiet_then quiet_if quiet_writers) simp_all

lemma placed_clean_writes:
  assumes "placed ok ks k qs e" "clean e" and "quiet ok (\<lambda>_. True) m" and "\<And>x t. placed ok ks k qs t \<Longrightarrow> clean t \<Longrightarrow> takes ok ks s (f x) t"
  shows "takes ok ks s (sbind m f) e"
  unfolding takes_def goes_sbind
proof (rule quiet_goes [OF assms(3)])
  show "ok \<longrightarrow> e_encoding e = None" using assms(1) by (simp add: placed_def)
  show "goes (f x) t (\<lambda>_. took ok ks s) (\<lambda>_ _. ok \<longrightarrow> s = None)" if "frame t = frame e" for x t
    using assms(4) placed_frame [OF assms(1) that] frame_clean [OF that] assms(2) by (simp add: takes_def)
qed simp


lemma entry_step: "shape_step (AEntry # r) k = (if k = SequenceEndEvent then Some r else node_shape (AEntry # r) k)"
  by (cases k) simp_all

lemma key_step: "shape_step (AKey # r) k = (if k = MappingEndEvent then Some r else node_shape (AValue # r) k)"
  by (cases k) simp_all

lemma value_step: "shape_step (AValue # r) k = node_shape (AKey # r) k"
  by (cases k) simp_all

lemma collection_kinds: "awaits q = [AEntry] \<Longrightarrow> in_collection q" "awaits q = [AKey] \<Longrightarrow> in_collection q"
  "awaits q = [AValue] \<Longrightarrow> in_collection q"
  by (simp_all add: in_collection_def)

text \<open>An event in the place of an entry, a key or a value of a collection.\<close>

definition inside :: "bool \<Rightarrow> ucs event_of list \<Rightarrow> bool \<Rightarrow> ucs event_of \<Rightarrow> estate \<Rightarrow> estate list \<Rightarrow> emitter \<Rightarrow> bool" where
  "inside ok ks has k q qs e =
     (placed ok ks k qs e \<and> clean e \<and> (ok \<longrightarrow> writable has k) \<and> stack_ok q qs \<and> in_collection q)"

lemma insideD:
  assumes "inside ok ks has k q qs e"
  shows "placed ok ks k qs e" "clean e" "ok \<longrightarrow> writable has k" "stack_ok q qs" "in_collection q"
  using assms by (simp_all add: inside_def)

lemma pushed:
  assumes I: "inside ok ks has k q qs e"
  shows "pushable p \<Longrightarrow> in_collection p \<Longrightarrow> stack_ok p qs"
  using stack_swap [OF insideD(5) [OF I] _ insideD(4) [OF I]] by blast

lemma closes:
  assumes I: "inside ok ks has k q qs e"
  shows "takes ok ks (Some (expects qs)) close_block e" "takes ok ks (Some (expects qs)) (close_flow first bracket) e"
  using insideD [OF I] close_takes by (cases qs; simp)+

lemma sequence_item:
  assumes I: "inside ok ks has k q qs e"
    and "p = ExpectFlowSequenceItem \<or> p = ExpectBlockSequenceItem" and "placed ok ks k qs t"
  shows "takes ok ks (node_shape (AEntry # expects qs) k) (sbind (push_state p) (\<lambda>_. expect_node k False True False False)) t"
proof -
  have p: "pushable p" "in_collection p" "awaits p = [AEntry]" using assms(2) by (auto simp: pushable_def in_collection_def)
  show ?thesis using push_node_takes [OF assms(3) p(1) pushed [OF I p(1,2)] insideD(3) [OF I]] p(3) by (simp add: expects_def)
qed

lemma mapping_value:
  assumes I: "inside ok ks has k q qs e"
    and "p = ExpectFlowMappingKey \<or> p = ExpectBlockMappingKey" and "placed ok ks k qs t"
  shows "takes ok ks (node_shape (AKey # expects qs) k) (sbind (push_state p) (\<lambda>_. expect_node k False False True False)) t"
proof -
  have p: "pushable p" "in_collection p" "awaits p = [AKey]" using assms(2) by (auto simp: pushable_def in_collection_def)
  show ?thesis using push_node_takes [OF assms(3) p(1) pushed [OF I p(1,2)] insideD(3) [OF I]] p(3) by (simp add: expects_def)
qed

lemma mapping_key:
  assumes I: "inside ok ks has k q qs e"
    and "p = ExpectFlowMappingSimpleValue \<and> p' = ExpectFlowMappingValue \<or> p = ExpectBlockMappingSimpleValue \<and> p' = ExpectBlockMappingValue"
    and t: "placed ok ks k qs t" "clean t" and m: "quiet ok (\<lambda>_. True) m"
  shows "takes ok ks (node_shape (AValue # expects qs) k) (sbind (check_simple_key k) (\<lambda>simple.
    if simple then sbind (push_state p) (\<lambda>_. expect_node k False False True True)
    else sbind m (\<lambda>_. sbind (push_state p') (\<lambda>_. expect_node k False False True False)))) t"
proof -
  have p: "pushable p" "in_collection p" "awaits p = [AValue]" "pushable p'" "in_collection p'" "awaits p' = awaits p"
    using assms(2) by (auto simp: pushable_def in_collection_def)
  show ?thesis using keyed_takes [OF t insideD(3) [OF I] p(1) pushed [OF I p(1,2)] p(4) pushed [OF I p(4,5)] p(6) m] p(3) by (simp add: expects_def)
qed

lemma flow_sequence_step:
  assumes I: "inside ok ks has k q qs e"
  shows "takes ok ks (shape_step (AEntry # expects qs) k) (expect_flow_sequence_item first k) e"
proof (cases "k = SequenceEndEvent")
  case True
  then show ?thesis using closes [OF I] by (simp add: entry_step expect_flow_sequence_item_def)
next
  case False
  have "takes ok ks (node_shape (AEntry # expects qs) k) (sbind (comma first) (\<lambda>_. sbind wrap_line (\<lambda>_.
      sbind (push_state ExpectFlowSequenceItem) (\<lambda>_. expect_node k False True False False)))) e"
    by (rule placed_writes [OF insideD(1) [OF I] comma_quiet], erule placed_writes [OF _ wrap_quiet], rule sequence_item [OF I]) simp
  then show ?thesis using False by (simp add: entry_step expect_flow_sequence_item_def)
qed

lemma block_sequence_step:
  assumes I: "inside ok ks has k q qs e"
    and "first \<Longrightarrow> k \<noteq> SequenceEndEvent"
  shows "takes ok ks (shape_step (AEntry # expects qs) k) (expect_block_sequence_item first k) e"
proof (cases "k = SequenceEndEvent")
  case True
  then show ?thesis using closes [OF I] assms(2) by (auto simp: entry_step expect_block_sequence_item_def)
next
  case False
  have "takes ok ks (node_shape (AEntry # expects qs) k) (sbind write_indent (\<lambda>_. sbind (write_indicator (uc ''-'') True False True) (\<lambda>_.
      sbind (push_state ExpectBlockSequenceItem) (\<lambda>_. expect_node k False True False False)))) e"
    by (rule placed_writes [OF insideD(1) [OF I] quiet_indent], simp, erule placed_writes [OF _ quiet_indicator], simp, rule sequence_item [OF I]) simp
  then show ?thesis using False by (simp add: entry_step expect_block_sequence_item_def)
qed

lemma flow_key_step:
  assumes I: "inside ok ks has k q qs e"
  shows "takes ok ks (shape_step (AKey # expects qs) k) (expect_flow_mapping_key first k) e"
proof (cases "k = MappingEndEvent")
  case True
  then show ?thesis using closes [OF I] by (simp add: key_step expect_flow_mapping_key_def)
next
  case False
  let ?key = "\<lambda>simple. if simple then sbind (push_state ExpectFlowMappingSimpleValue) (\<lambda>_. expect_node k False False True True)
      else sbind (write_indicator (uc ''?'') True False False) (\<lambda>_. sbind (push_state ExpectFlowMappingValue) (\<lambda>_. expect_node k False False True False))"
  have q: "quiet ok (\<lambda>_. True) (write_indicator (uc ''?'') True False False)" by (rule quiet_indicator) simp
  have key: "takes ok ks (node_shape (AValue # expects qs) k) (sbind (if canonical then ret False else check_simple_key k) ?key) t"
    if t: "placed ok ks k qs t" "clean t" for canonical t
  proof (cases canonical)
    case True
    have p: "pushable ExpectFlowMappingValue" "in_collection ExpectFlowMappingValue" by (simp_all add: pushable_def in_collection_def)
    have "takes ok ks (node_shape (AValue # expects qs) k) (?key False) t"
      unfolding if_False by (rule placed_writes [OF t(1) q])
        (use push_node_takes [OF _ p(1) pushed [OF I p] insideD(3) [OF I]] in \<open>simp add: expects_def\<close>)
    then show ?thesis using True by (simp add: takes_def goes_simps)
  next
    case False
    then show ?thesis using mapping_key [OF I _ t q] by simp
  qed
  have "takes ok ks (node_shape (AValue # expects qs) k) (sbind (comma first) (\<lambda>_. sbind wrap_line (\<lambda>_. sbind (gets e_canonical) (\<lambda>canonical.
      sbind (if canonical then ret False else check_simple_key k) ?key)))) e"
    by (rule placed_clean_writes [OF insideD(1) [OF I] insideD(2) [OF I] comma_quiet], erule placed_clean_writes [OF _ _ wrap_quiet], assumption,
        erule placed_clean_writes [OF _ _ quiet_gets], assumption, simp, rule key)
  then show ?thesis using False by (simp add: key_step expect_flow_mapping_key_def)
qed

lemma block_key_step:
  assumes I: "inside ok ks has k q qs e"
    and "first \<Longrightarrow> k \<noteq> MappingEndEvent"
  shows "takes ok ks (shape_step (AKey # expects qs) k) (expect_block_mapping_key first k) e"
proof (cases "k = MappingEndEvent")
  case True
  then show ?thesis using closes [OF I] assms(2) by (auto simp: key_step expect_block_mapping_key_def)
next
  case False
  have "takes ok ks (node_shape (AValue # expects qs) k) (sbind write_indent (\<lambda>_. sbind (check_simple_key k) (\<lambda>simple.
      if simple then sbind (push_state ExpectBlockMappingSimpleValue) (\<lambda>_. expect_node k False False True True)
      else sbind (write_indicator (uc ''?'') True False True) (\<lambda>_. sbind (push_state ExpectBlockMappingValue) (\<lambda>_.
        expect_node k False False True False))))) e"
    by (rule placed_clean_writes [OF insideD(1) [OF I] insideD(2) [OF I] quiet_indent], simp, rule mapping_key [OF I], simp_all add: quiet_indicator)
  then show ?thesis using False by (simp add: key_step expect_block_mapping_key_def)
qed

lemma value_steps:
  assumes I: "inside ok ks has k q qs e"
  shows "takes ok ks (shape_step (AValue # expects qs) k) (expect_flow_mapping_simple_value k) e"
  "takes ok ks (shape_step (AValue # expects qs) k) (expect_flow_mapping_value k) e"
  "takes ok ks (shape_step (AValue # expects qs) k) (expect_block_mapping_simple_value k) e"
  "takes ok ks (shape_step (AValue # expects qs) k) (expect_block_mapping_value k) e"
  unfolding value_step expect_flow_mapping_simple_value_def expect_flow_mapping_value_def
    expect_block_mapping_simple_value_def expect_block_mapping_value_def
  by (rule placed_writes [OF insideD(1) [OF I]], (intro quiet_writers wrap_quiet; simp), (rule mapping_value [OF I] | erule placed_writes),
      simp_all add: quiet_indicator mapping_value [OF I])+

end
