(* ===== verification/Yaml_Emitter_Grammar.thy ===== *)
theory Yaml_Emitter_Grammar
  imports Yaml_Emitter_Props
begin

text \<open>
  The states of the emitter outside nodes, the step of the machine, its queue, and the two
  properties of whole streams: what the emitter takes follows the grammar, and a stream that
  follows the grammar is written to its end.
\<close>

section \<open>Streams and documents\<close>

text \<open>No collection is open.\<close>

definition ground :: "bool \<Rightarrow> ucs event_of list \<Rightarrow> bool \<Rightarrow> emitter \<Rightarrow> bool" where
  "ground ok ks doc e = ((ok \<longrightarrow> e_encoding e = None) \<and> e_events e = ks \<and> clean e \<and> e_states e = [] \<and> e_indents e = [] \<and> (ok \<longrightarrow> doc \<longrightarrow> tables e))"

lemma ground_frame: "ground ok ks doc e \<Longrightarrow> frame t = frame e \<Longrightarrow> ground ok ks doc t"
  by (simp add: ground_def frame_def clean_def tables_def)

definition grounded :: "bool \<Rightarrow> ucs event_of list \<Rightarrow> bool \<Rightarrow> 'a emits \<Rightarrow> emitter \<Rightarrow> bool" where
  "grounded ok ks doc m e = goes m e (\<lambda>_. ground ok ks doc) (\<lambda>_ _. \<not> ok)"

lemma ground_quiet:
  assumes e: "ground ok ks doc e" and m: "quiet ok (\<lambda>_. True) m"
    and f: "\<And>x t. ground ok ks doc t \<Longrightarrow> goes (f x) t Q (\<lambda>_ _. \<not> ok)"
  shows "goes (sbind m f) e Q (\<lambda>_ _. \<not> ok)"
  unfolding goes_sbind
proof (rule quiet_goes [OF m])
  show "ok \<longrightarrow> e_encoding e = None" using e by (simp add: ground_def)
qed (use ground_frame [OF e] f in simp_all)

lemma to_base:
  assumes "ground ok ks doc e" and "\<not> in_collection q" and "in_document q \<longrightarrow> doc"
  shows "goes (to_state q) e (\<lambda>_. took ok ks (Some (awaits q))) R"
  using assms
  by (auto simp: to_state_def goes_simps took_def ground_def emitter_inv_def emitter_expects_def expects_def clean_def
      tables_def in_collection_def)

lemma stream_start_takes:
  assumes e: "ground ok ks False e" and w: "ok \<longrightarrow> writable (e_has_encoding e) k"
  shows "takes ok ks (shape_step [AStream] k) (expect_stream_start k) e"
proof (cases k)
  case (StreamStartEvent enc)
  let ?e = "case enc of Some n \<Rightarrow> if n \<noteq> [] \<and> \<not> e_has_encoding e then e\<lparr>e_encoding := Some n\<rparr> else e | None \<Rightarrow> e"
  have "ground ok ks False ?e" using e w StreamStartEvent by (auto simp: ground_def clean_def split: option.split)
  then have "goes (sbind write_stream_start (\<lambda>_. to_state ExpectFirstDocumentStart)) ?e
      (\<lambda>_. took ok ks (Some (awaits ExpectFirstDocumentStart))) (\<lambda>_ _. \<not> ok)"
  proof (rule ground_quiet)
    show "quiet ok (\<lambda>_. True) write_stream_start"
      unfolding write_stream_start_def
      by (rule quiet_then [OF quiet_gets], simp) (auto split: option.split intro!: quiet_put quiet_ret quiet_if)
    show "goes (to_state ExpectFirstDocumentStart) t (\<lambda>_. took ok ks (Some (awaits ExpectFirstDocumentStart))) (\<lambda>_ _. \<not> ok)"
      if "ground ok ks False t" for t
      by (rule to_base [OF that]) (simp_all add: in_collection_def in_document_def)
  qed
  then show ?thesis using StreamStartEvent by (intro takesI) (simp add: expect_stream_start_def goes_sbind [of "modify _"] goes_modify)
qed (simp_all add: takes_def expect_stream_start_def goes_simps)

lemma document_end_takes:
  assumes e: "ground ok ks True e"
  shows "takes ok ks (shape_step [ADocEnd, ADocs] k) (expect_document_end k) e"
proof (cases k)
  case (DocumentEndEvent x)
  have "goes (sbind write_indent (\<lambda>_. sbind (if x = Some True then sbind (write_indicator (uc ''...'') True False False) (\<lambda>_. write_indent) else ret ())
      (\<lambda>_. to_state ExpectDocumentStart))) e (\<lambda>_. took ok ks (Some (awaits ExpectDocumentStart))) (\<lambda>_ _. \<not> ok)"
  proof (rule ground_quiet [OF e])
    fix t assume "ground ok ks True t"
    then show "goes (sbind (if x = Some True then sbind (write_indicator (uc ''...'') True False False) (\<lambda>_. write_indent) else ret ())
        (\<lambda>_. to_state ExpectDocumentStart)) t (\<lambda>_. took ok ks (Some (awaits ExpectDocumentStart))) (\<lambda>_ _. \<not> ok)"
    proof (rule ground_quiet)
      show "quiet ok (\<lambda>_. True) (if x = Some True then sbind (write_indicator (uc ''...'') True False False) (\<lambda>_. write_indent) else ret ())"
        by (intro quiet_if quiet_then quiet_writers) simp_all
    qed (erule to_base, simp_all add: in_collection_def in_document_def)
  qed (simp add: quiet_indent)
  then show ?thesis using DocumentEndEvent by (intro takesI) (simp add: expect_document_end_def)
qed (simp_all add: takes_def expect_document_end_def goes_simps)

lemma document_root_takes:
  assumes e: "ground ok ks True e" and w: "ok \<longrightarrow> writable has k" and q: "sequence_start k \<or> mapping_start k \<longrightarrow> ks \<noteq> []"
  shows "takes ok ks (shape_step [ANode, ADocEnd, ADocs] k) (expect_document_root k) e"
proof -
  have "placed ok ks k [] e" using e q by (simp add: placed_def ground_def clean_kept)
  from push_node_takes [OF this _ _ w, of ExpectDocumentEnd]
  show ?thesis by (simp add: expect_document_root_def pushable_def in_collection_def expects_def)
qed

subsection \<open>The start of a document\<close>

lemma close_open_quiet: "quiet ok (\<lambda>_. True) (close_open_end b)"
  unfolding close_open_end_def by (intro quiet_then quiet_if quiet_writers) simp_all

lemma quiet_fail: "\<not> ok \<Longrightarrow> quiet ok V (emit_fail p)"
  by (simp add: quiet_def goes_simps)

lemma version_quiet:
  assumes "ok \<longrightarrow> optional (\<lambda>v. fst v = 1) version"
  shows "quiet ok (\<lambda>_. True) (case version of None \<Rightarrow> ret () | Some v \<Rightarrow> sbind (prepare_version v) write_version_directive)"
proof (cases version)
  case None
  then show ?thesis by (simp only: option.case) (rule quiet_ret, simp)
next
  case (Some v)
  have "quiet ok (\<lambda>_. True) (prepare_version v)" unfolding prepare_version_def Let_def
    by (intro quiet_if quiet_fail quiet_ret) (use assms Some in \<open>auto simp: optional_def\<close>)
  moreover have "quiet ok (\<lambda>_. True) (write_version_directive x)" for x
    unfolding write_version_directive_def by (intro quiet_then quiet_writers) simp_all
  ultimately show ?thesis using Some by (simp only: option.case) (rule quiet_then)
qed

lemma prepare_handle_written: "writable_handle h \<Longrightarrow> prepare_tag_handle h = ret h"
proof -
  assume h: "writable_handle h"
  then have "find (\<lambda>c. \<not> name_char c) (butlast (tl h)) = None" by (auto simp: find_None_iff writable_handle_def)
  then show ?thesis using h by (simp add: prepare_tag_handle_def writable_handle_def)
qed

lemma prepare_prefix_written: "writable_prefix p \<Longrightarrow> prepare_tag_prefix p = ret p"
  by (simp add: prepare_tag_prefix_def writable_prefix_def tag_text_written)

lemma handle_quiet: "ok \<longrightarrow> writable_handle h \<Longrightarrow> quiet ok (\<lambda>_. True) (prepare_tag_handle h)"
  by (cases ok) (auto simp: prepare_handle_written quiet_ret, auto simp: quiet_def prepare_tag_handle_def goes_simps split: option.split)

lemma prefix_quiet: "ok \<longrightarrow> writable_prefix p \<Longrightarrow> quiet ok (\<lambda>_. True) (prepare_tag_prefix p)"
  by (cases ok) (auto simp: prepare_prefix_written quiet_ret, auto simp: quiet_def prepare_tag_prefix_def tag_text_def goes_simps split: option.split)


lemma tag_directive_ground:
  assumes e: "ground ok ks True e" and h: "ok \<longrightarrow> (\<exists>p. map_of tags h = Some p \<and> writable_handle h \<and> writable_prefix p)"
  shows "grounded ok ks True (tag_directive tags h) e"
proof (cases "map_of tags h")
  case None
  then show ?thesis using h by (simp add: grounded_def tag_directive_def goes_simps)
next
  case (Some p)
  let ?e = "e\<lparr>e_tag_prefixes := map_option (\<lambda>d. dict_set d p h) (e_tag_prefixes e)\<rparr>"
  have "tables ?e" if k: "ok"
  proof -
    obtain d where d: "e_tag_prefixes e = Some d" "\<forall>x \<in> fst ` set d. x \<noteq> []" using e k by (auto simp: ground_def tables_def)
    have "p \<noteq> []" using h Some k by (simp add: writable_prefix_def)
    then have "\<forall>x \<in> fst ` set (dict_set d p h). x \<noteq> []" using d(2) by (simp only: keys_dict_set) blast
    moreover have "e_tag_prefixes ?e = Some (dict_set d p h)" using d(1) by simp
    ultimately show ?thesis unfolding tables_def by blast
  qed
  then have "ground ok ks True ?e" using e by (auto simp: ground_def clean_def)
  then have "goes (sbind (prepare_tag_handle h) (\<lambda>h. sbind (prepare_tag_prefix p) (write_tag_directive h))) ?e (\<lambda>_. ground ok ks True) (\<lambda>_ _. \<not> ok)"
  proof (rule ground_quiet)
    show "quiet ok (\<lambda>_. True) (prepare_tag_handle h)" using h by (intro handle_quiet) blast
    fix x t assume "ground ok ks True t"
    then show "goes (sbind (prepare_tag_prefix p) (write_tag_directive x)) t (\<lambda>_. ground ok ks True) (\<lambda>_ _. \<not> ok)"
    proof (rule ground_quiet)
      show "quiet ok (\<lambda>_. True) (prepare_tag_prefix p)" using h Some by (intro prefix_quiet) simp
      fix y u assume u: "ground ok ks True u"
      have "quiet ok (\<lambda>_. True) (write_tag_directive x y)" unfolding write_tag_directive_def by (intro quiet_then quiet_writers) simp_all
      then show "goes (write_tag_directive x y) u (\<lambda>_. ground ok ks True) (\<lambda>_ _. \<not> ok)"
        by (rule quiet_goes) (use u ground_frame [OF u] in \<open>simp_all add: ground_def [of _ _ _ u]\<close>)
    qed
  qed
  then show ?thesis using Some by (simp add: grounded_def tag_directive_def goes_sbind [of "modify _"] goes_modify)
qed

lemma tag_directives_ground:
  "ground ok ks True e \<Longrightarrow> (\<And>h. h \<in> set hs \<Longrightarrow> ok \<longrightarrow> (\<exists>p. map_of tags h = Some p \<and> writable_handle h \<and> writable_prefix p)) \<Longrightarrow>
   grounded ok ks True (tag_directives tags hs) e"
proof (induction hs arbitrary: e)
  case Nil
  then show ?case by (simp add: grounded_def goes_simps del: ret_apply)
next
  case (Cons h hs)
  have "grounded ok ks True (tag_directive tags h) e" using Cons.prems by (intro tag_directive_ground) simp_all
  then show ?case unfolding grounded_def tag_directives.simps goes_sbind
    by (rule goes_conseq) (use Cons in \<open>simp_all add: grounded_def\<close>)
qed

lemma document_start_ground:
  assumes e: "ground ok ks False e" and w: "ok \<longrightarrow> writable has (DocumentStartEvent explicit version tags)"
  shows "grounded ok ks True (write_document_start first explicit version tags) e"
proof -
  let ?rest = "\<lambda>implicit canonical. if implicit then ret () else
       sbind write_indent (\<lambda>_. sbind (write_indicator (uc ''---'') True False False) (\<lambda>_. if canonical then write_indent else ret ()))"
  let ?implicit = "\<lambda>e. first \<and> explicit \<noteq> Some True \<and> \<not> e_canonical e \<and> version = None \<and> some_tags tags = [] \<and> \<not> check_empty_document e"
  let ?dirs = "tag_directives (some_tags tags) (sort (map fst (some_tags tags)))"
  have rest: "goes (sbind (gets ?implicit) (\<lambda>implicit. sbind (gets e_canonical) (?rest implicit))) t (\<lambda>_. ground ok ks True) (\<lambda>_ _. \<not> ok)"
    if t: "ground ok ks True t" for t
  proof -
    have "quiet ok (\<lambda>_. True) (sbind (gets ?implicit) (\<lambda>implicit. sbind (gets e_canonical) (?rest implicit)))"
      by (intro quiet_then quiet_if quiet_writers) simp_all
    then show ?thesis by (rule quiet_goes) (use t ground_frame [OF t] in \<open>simp_all add: ground_def [of _ _ _ t]\<close>)
  qed
  have dirs: "goes (sbind ?dirs (\<lambda>_. sbind (gets ?implicit) (\<lambda>implicit. sbind (gets e_canonical) (?rest implicit)))) t (\<lambda>_. ground ok ks True) (\<lambda>_ _. \<not> ok)"
    if t: "ground ok ks True t" for t
  proof -
    have "ok \<longrightarrow> (\<exists>p. map_of (some_tags tags) h = Some p \<and> writable_handle h \<and> writable_prefix p)"
      if "h \<in> set (sort (map fst (some_tags tags)))" for h
      using that w by (cases "map_of (some_tags tags) h") (auto simp: map_of_eq_None_iff dest!: map_of_SomeD)
    then have "grounded ok ks True ?dirs t" by (intro tag_directives_ground t) simp
    then show ?thesis unfolding grounded_def goes_sbind [of ?dirs]
      by (rule goes_conseq) (rule rest, simp_all)
  qed
  let ?reset = "\<lambda>t. t\<lparr>e_tag_prefixes := Some default_tag_prefixes\<rparr>"
  have reset: "ground ok ks True (?reset t)" if "ground ok ks False t" for t
    using that by (auto simp: ground_def clean_def tables_def default_tag_prefixes_def uc_def)
  have "goes (sbind (close_open_end (version \<noteq> None \<or> some_tags tags \<noteq> [])) (\<lambda>_.
      sbind (case version of None \<Rightarrow> ret () | Some v \<Rightarrow> sbind (prepare_version v) write_version_directive) (\<lambda>_.
      sbind (modify ?reset) (\<lambda>_. sbind ?dirs (\<lambda>_. sbind (gets ?implicit) (\<lambda>implicit. sbind (gets e_canonical) (?rest implicit))))))) e
      (\<lambda>_. ground ok ks True) (\<lambda>_ _. \<not> ok)"
  proof (rule ground_quiet [OF e close_open_quiet], erule ground_quiet)
    show "quiet ok (\<lambda>_. True) (case version of None \<Rightarrow> ret () | Some v \<Rightarrow> sbind (prepare_version v) write_version_directive)"
      using w by (intro version_quiet) simp
    show "goes (sbind (modify ?reset) (\<lambda>_. sbind ?dirs (\<lambda>_. sbind (gets ?implicit) (\<lambda>implicit. sbind (gets e_canonical) (?rest implicit))))) t
        (\<lambda>_. ground ok ks True) (\<lambda>_ _. \<not> ok)" if "ground ok ks False t" for t
      unfolding goes_sbind [of "modify _"] goes_modify by (rule dirs [OF reset [OF that]])
  qed
  then show ?thesis unfolding grounded_def write_document_start_def .
qed

lemma document_start_takes:
  assumes e: "ground ok ks False e" and w: "ok \<longrightarrow> writable has k"
  shows "takes ok ks (shape_step [ADocs] k) (expect_document_start first k) e"
proof (cases k)
  case (DocumentStartEvent explicit version tags)
  have "goes (sbind (write_document_start first explicit version tags) (\<lambda>_. to_state ExpectDocumentRoot)) e
      (\<lambda>_. took ok ks (Some (awaits ExpectDocumentRoot))) (\<lambda>_ _. \<not> ok)"
    using document_start_ground [OF e w [unfolded DocumentStartEvent], of first] unfolding grounded_def goes_sbind
    by (rule goes_conseq) (rule to_base [where doc = True], simp_all add: in_collection_def)
  then show ?thesis using DocumentStartEvent by (intro takesI) (simp add: expect_document_start_def)
next
  case StreamEndEvent
  have "goes (sbind (close_open_end True) (\<lambda>_. to_state ExpectNothing)) e (\<lambda>_. took ok ks (Some (awaits ExpectNothing))) (\<lambda>_ _. \<not> ok)"
    by (rule ground_quiet [OF e close_open_quiet], erule to_base) (simp_all add: in_collection_def in_document_def)
  then show ?thesis using StreamEndEvent by (intro takesI) (simp add: expect_document_start_def)
qed (simp_all add: takes_def expect_document_start_def goes_simps)


section \<open>The machine\<close>

text \<open>An event is taken from the queue and handled in the state of the emitter.\<close>

lemma step_takes:
  assumes e: "emitter_inv ok (k # ks) e" and w: "ok \<longrightarrow> writable has k"
    and q: "\<not> need_more_events (k # ks)" and has: "e_state e = Some ExpectStreamStart \<longrightarrow> e_has_encoding e = has"
  shows "takes ok ks (shape_step (emitter_expects e) k) (emit_one k) (e\<lparr>e_events := ks\<rparr>)"
proof -
  let ?e = "e\<lparr>e_events := ks\<rparr>"
  obtain q where s: "e_state e = Some q" "stack_ok q (e_states e)" "length (e_indents e) = length (e_states e)"
      "ok \<longrightarrow> in_document q \<longrightarrow> tables e" "q = ExpectFirstBlockSequenceItem \<longrightarrow> next_event (\<lambda>k. k \<noteq> SequenceEndEvent) e"
      "q = ExpectFirstBlockMappingKey \<longrightarrow> next_event (\<lambda>k. k \<noteq> MappingEndEvent) e"
    using e by (auto simp: emitter_inv_def)
  have c: "clean e" "ok \<longrightarrow> e_encoding e = None" "e_events e = k # ks" using e by (simp_all add: emitter_inv_def)
  have more: "sequence_start k \<or> mapping_start k \<longrightarrow> ks \<noteq> []"
    using q by (cases k) (auto simp: need_more_events_def need_events_def)
  have run: "emit_one k ?e = run_estate q k ?e" using s(1) by (simp add: emit_one_def)
  have ex: "emitter_expects e = expects (q # e_states e)" using s(1) by (simp add: emitter_expects_def)
  have "takes ok ks (shape_step (expects (q # e_states e)) k) (run_estate q k) ?e"
  proof (cases "in_collection q")
    case True
    have d: "in_document q" using True by (auto simp: in_collection_def in_document_def)
    have I: "inside ok ks has k q (e_states e) ?e"
      using True d s c w more clean_kept [of ?e k]
      by (auto simp: inside_def placed_def clean_def tables_def)
    from flow_sequence_step [OF I] block_sequence_step [OF I] flow_key_step [OF I] block_key_step [OF I] value_steps [OF I]
    show ?thesis using True s(5,6) c(3)
      by (cases q) (simp_all add: expects_def next_event_def in_collection_def)
  next
    case False
    then have st: "e_states e = []" using s(2) by (cases "e_states e") auto
    have g: "ground ok ks (in_document q) ?e" using st s(3,4) c by (simp add: ground_def clean_def tables_def)
    have g': "ground ok ks False ?e" using g by (simp add: ground_def)
    show ?thesis
    proof (cases q)
      case ExpectStreamStart
      then show ?thesis using stream_start_takes [OF g', of k] w has s(1) st by (simp add: expects_def)
    next
      case ExpectNothing
      then show ?thesis using st by (simp add: expects_def takes_def goes_simps)
    next
      case ExpectFirstDocumentStart
      then show ?thesis using document_start_takes [OF g' w] st by (simp add: expects_def)
    next
      case ExpectDocumentStart
      then show ?thesis using document_start_takes [OF g' w] st by (simp add: expects_def)
    next
      case ExpectDocumentEnd
      then show ?thesis using document_end_takes [of ok ks ?e k] g st by (simp add: expects_def in_document_def)
    next
      case ExpectDocumentRoot
      then show ?thesis using document_root_takes [of ok ks ?e has k] g st w more by (simp add: expects_def in_document_def)
    qed (use False in \<open>simp_all add: in_collection_def\<close>)
  qed
  then show ?thesis using run ex by (simp add: takes_def goes_def)
qed


section \<open>Streams that are under way\<close>

definition under_way :: "expect list \<Rightarrow> bool" where
  "under_way es = (AStream \<notin> set es \<and> (es = [] \<or> last es = ADocs))"

lemma under_way_step: "under_way es \<Longrightarrow> shape_step es k = Some es' \<Longrightarrow> under_way es' \<and> (k \<noteq> StreamEndEvent \<longrightarrow> es' \<noteq> [])"
proof (induction es k rule: shape_step.induct)
qed (auto simp: under_way_def split: if_splits elim: node_shape.elims)

lemma shape_under_way:
  "shape [AStream] evs = Some es \<Longrightarrow> evs = [] \<and> es = [AStream] \<or> evs \<noteq> [] \<and> under_way es"
proof (induction evs arbitrary: es rule: rev_induct)
  case (snoc k evs)
  obtain s where s: "shape [AStream] evs = Some s" "shape_step s k = Some es"
    using snoc.prems by (auto simp: shape_append split: option.splits)
  from snoc.IH [OF s(1)] show ?case
  proof
    assume "evs = [] \<and> s = [AStream]"
    then show ?thesis using s(2) by (cases k) (auto simp: under_way_def)
  next
    assume "evs \<noteq> [] \<and> under_way s"
    then show ?thesis using under_way_step s(2) by blast
  qed
qed simp

text \<open>A stream that is under way ends with the end of the stream.\<close>

lemma stream_end_comes: "shape es ks = Some [] \<Longrightarrow> under_way es \<Longrightarrow> es \<noteq> [] \<Longrightarrow> StreamEndEvent \<in> set ks"
proof (induction ks arbitrary: es)
  case (Cons k ks)
  obtain s where s: "shape_step es k = Some s" "shape s ks = Some []" using Cons.prems(1) by (auto split: option.splits)
  then show ?case using under_way_step [OF Cons.prems(2) s(1)] Cons.IH [OF s(2)] by auto
qed simp

lemma level_falls_at_end: "StreamEndEvent \<in> set ks \<Longrightarrow> level_falls l ks"
  by (induction ks arbitrary: l) (auto simp: opens_level_def closes_level_def Let_def)

text \<open>The queue does not wait for events that are already there.\<close>

lemma queue_empty:
  assumes "shape es ks = Some []" and "es = [AStream] \<or> under_way es" and "need_more_events ks"
  shows "ks = []"
proof (cases ks)
  case (Cons k rest)
  then obtain s where s: "shape_step es k = Some s" "shape s rest = Some []" using assms(1) by (auto split: option.splits)
  have k: "opens_level k" "\<not> level_falls 0 rest"
    using assms(3) Cons by (auto simp: need_more_events_def need_events_def opens_level_def split: event_of.splits)
  have u: "under_way es" using assms(2) s(1) k(1) by (cases k) (auto simp: opens_level_def)
  have "k \<noteq> StreamEndEvent" using k(1) by (auto simp: opens_level_def)
  then have "StreamEndEvent \<in> set rest" using under_way_step [OF u s(1)] stream_end_comes [OF s(2)] by blast
  then show ?thesis using level_falls_at_end k(2) by blast
qed simp

section \<open>The queue and the stream\<close>

text \<open>The events that came are the ones that were taken, in order, and those in the queue.\<close>

definition following :: "bool \<Rightarrow> bool \<Rightarrow> ucs event_of list \<Rightarrow> emitter \<Rightarrow> bool" where
  "following ok has evs e =
     (emitter_inv ok (e_events e) e \<and> (e_state e = Some ExpectStreamStart \<longrightarrow> e_has_encoding e = has) \<and>
      (\<exists>taken. evs = taken @ e_events e \<and> shape [AStream] taken = Some (emitter_expects e)))"

lemma turn_runs:
  assumes e: "following ok has evs e" and w: "ok \<longrightarrow> (\<forall>k \<in> set evs. writable has k)"
  shows "runs emit_turn e (\<lambda>r t. following ok has evs t \<and> (case r of Inl _ \<Rightarrow> length (e_events t) < length (e_events e)
      | Inr _ \<Rightarrow> need_more_events (e_events t)))
    (\<lambda>_ _. ok \<longrightarrow> shape [AStream] evs = None)"
proof (cases "need_more_events (e_events e)")
  case True
  then show ?thesis using e unfolding emit_turn_def
    by (intro runs_pbind runs_pgets) (simp add: leave_def pret_def runs_def)
next
  case False
  then obtain k ks where k: "e_events e = k # ks" by (cases "e_events e") (auto simp: need_more_events_def)
  obtain taken where t: "evs = taken @ k # ks" "shape [AStream] taken = Some (emitter_expects e)"
    using e k by (auto simp: following_def)
  let ?Q = "\<lambda>_ u. following ok has evs u \<and> length (e_events u) < length (e_events e)"
  let ?s = "shape_step (emitter_expects e) k"
  have all: "shape [AStream] evs = (case ?s of None \<Rightarrow> None | Some es \<Rightarrow> shape es ks)" using t by (simp add: shape_append)
  have "takes ok ks ?s (emit_one k) (e\<lparr>e_events := ks\<rparr>)"
    by (rule step_takes [of _ _ _ _ has]) (use e w t(1) False k in \<open>simp_all add: following_def\<close>)
  then have "goes (emit_one k) (e\<lparr>e_events := ks\<rparr>) ?Q (\<lambda>_ _. ok \<longrightarrow> shape [AStream] evs = None)"
    unfolding takes_def
  proof (rule goes_conseq)
    fix x u assume u: "took ok ks ?s u"
    then have ev: "e_events u = ks" and s: "?s = Some (emitter_expects u)" and i: "emitter_inv ok ks u"
      by (simp_all add: took_def emitter_inv_def)
    have "shape [AStream] (taken @ [k]) = Some (emitter_expects u)" using t(2) s by (simp add: shape_append)
    moreover have "e_state u \<noteq> Some ExpectStreamStart"
      using shape_under_way [OF calculation] by (auto simp: under_way_def emitter_expects_def expects_def)
    ultimately show "?Q x u" using t(1) ev i k by (auto simp: following_def)
  qed (simp add: all)
  from runs_run [OF this] k False show ?thesis
    unfolding emit_turn_def
    by (intro runs_pbind runs_pgets) (simp, rule runs_pbind, rule runs_pmodify, rule runs_pbind, erule runs_conseq,
        simp_all add: again_def pret_def runs_def)
qed

lemma event_runs:
  assumes e: "following ok has evs e" and w: "ok \<longrightarrow> (\<forall>k \<in> set (evs @ [k]). writable has k)"
  shows "runs (emit_event k) e (\<lambda>_ t. following ok has (evs @ [k]) t \<and> need_more_events (e_events t))
    (\<lambda>_ _. ok \<longrightarrow> shape [AStream] (evs @ [k]) = None)"
proof -
  have I: "following ok has (evs @ [k]) (e\<lparr>e_events := e_events e @ [k]\<rparr>)"
    using e by (auto simp: following_def emitter_inv_def emitter_expects_def clean_def tables_def next_event_def split: list.splits)
  have "runs (ploop (\<lambda>_. emit_turn) ()) (e\<lparr>e_events := e_events e @ [k]\<rparr>)
      (\<lambda>_ t. following ok has (evs @ [k]) t \<and> need_more_events (e_events t)) (\<lambda>_ _. ok \<longrightarrow> shape [AStream] (evs @ [k]) = None)"
    by (rule runs_ploop [where I = "\<lambda>_. following ok has (evs @ [k])" and m = "\<lambda>_ t. length (e_events t)"])
       (rule runs_conseq [OF turn_runs [OF _ w]], simp_all add: I split: sum.splits)
  then show ?thesis unfolding emit_event_def by (intro runs_pbind runs_pmodify)
qed

lemma stream_runs:
  assumes "following ok has evs e" and "ok \<longrightarrow> (\<forall>k \<in> set (evs @ ks). writable has k)" and "need_more_events (e_events e)"
  shows "runs (peach emit_event ks) e (\<lambda>_ t. following ok has (evs @ ks) t \<and> need_more_events (e_events t))
    (\<lambda>_ _. ok \<longrightarrow> shape [AStream] (evs @ ks) = None)"
  using assms
proof (induction ks arbitrary: evs e)
  case Nil
  then show ?case by (simp add: runs_pret)
next
  case (Cons k ks)
  have "runs (emit_event k) e (\<lambda>_ t. following ok has (evs @ [k]) t \<and> need_more_events (e_events t))
      (\<lambda>_ _. ok \<longrightarrow> shape [AStream] (evs @ [k]) = None)"
    using Cons.prems by (intro event_runs) simp_all
  then have "runs (emit_event k) e (\<lambda>_ t. following ok has (evs @ [k]) t \<and> need_more_events (e_events t))
      (\<lambda>_ _. ok \<longrightarrow> shape [AStream] (evs @ k # ks) = None)"
    by (rule runs_conseq) (auto simp: shape_append split: option.splits)
  then show ?case unfolding peach.simps
  proof (rule runs_pbind_seq)
    fix x t assume "following ok has (evs @ [k]) t \<and> need_more_events (e_events t)"
    then show "runs (peach emit_event ks) t (\<lambda>_ t. following ok has (evs @ k # ks) t \<and> need_more_events (e_events t))
        (\<lambda>_ _. ok \<longrightarrow> shape [AStream] (evs @ k # ks) = None)"
      using Cons.IH [of "evs @ [k]" t] Cons.prems(2) by simp
  qed
qed

lemma new_following: "following ok has [] (new_emitter encodes has canonical ind width unicode lb)"
  by (simp add: following_def new_emitter_def emitter_inv_def emitter_expects_def expects_def clean_def in_collection_def in_document_def)

text \<open>
  C16. The emitter takes exactly what the grammar of events allows.  Given any events, \<open>emit\<close>
  always returns; when it does not raise, the events it has taken from its queue follow the
  grammar, in the order they came, and its state and its stack of states stand for what the
  grammar still expects, the rest waits in the queue; when it raises, the stream breaks the
  grammar or holds an event that cannot be written: a tag or anchor of other characters, a
  missing tag, another version than 1, an encoding for a stream of bytes.
\<close>

theorem emitter_follows_grammar:
  "\<exists>r e. peach emit_event evs (new_emitter encodes has canonical ind width unicode lb) = Some (r, e) \<and>
     (case r of
        Inr _ \<Rightarrow> \<exists>taken. evs = taken @ e_events e \<and> shape [AStream] taken = Some (emitter_expects e) \<and> need_more_events (e_events e)
      | Inl _ \<Rightarrow> shape [AStream] evs = None \<or> (\<exists>k \<in> set evs. \<not> writable has k))"
proof -
  let ?ok = "\<forall>k \<in> set evs. writable has k"
  let ?e = "new_emitter encodes has canonical ind width unicode lb"
  have "need_more_events (e_events ?e)" by (simp add: new_emitter_def need_more_events_def)
  from stream_runs [OF new_following _ this, of ?ok evs]
  have "runs (peach emit_event evs) ?e (\<lambda>_ t. following ?ok has evs t \<and> need_more_events (e_events t))
      (\<lambda>_ _. ?ok \<longrightarrow> shape [AStream] evs = None)" by simp
  note run = this
  then obtain r e where e: "peach emit_event evs ?e = Some (r, e)" using runs_returns [OF run] by fastforce
  show ?thesis
  proof (cases r)
    case (Inl x)
    then show ?thesis using run e unfolding runs_def by (intro exI [of _ r] exI [of _ e]) auto
  next
    case (Inr x)
    then have "following ?ok has evs e \<and> need_more_events (e_events e)" using run e unfolding runs_def by simp
    then show ?thesis using e Inr unfolding following_def by (intro exI [of _ r] exI [of _ e]) simp
  qed
qed

lemma emit_succeeds:
  assumes "shape [AStream] evs = Some []" and "\<forall>k \<in> set evs. writable has k"
  shows "\<exists>e. peach emit_event evs (new_emitter encodes has canonical ind width unicode lb) = Some (Inr (), e) \<and>
    e_events e = [] \<and> e_indents e = []"
proof -
  let ?e = "new_emitter encodes has canonical ind width unicode lb"
  have "need_more_events (e_events ?e)" by (simp add: new_emitter_def need_more_events_def)
  from stream_runs [OF new_following _ this, of True evs] assms
  have "runs (peach emit_event evs) ?e (\<lambda>_ t. following True has evs t \<and> need_more_events (e_events t)) (\<lambda>_ _. False)"
    by simp
  from runs_sure [OF this] obtain e where e: "peach emit_event evs ?e = Some (Inr (), e)" "following True has evs e"
    "need_more_events (e_events e)" by auto
  obtain taken where t: "evs = taken @ e_events e" "shape [AStream] taken = Some (emitter_expects e)"
    using e(2) by (auto simp: following_def)
  have rest: "shape (emitter_expects e) (e_events e) = Some []" using assms(1) t by (simp add: shape_append)
  then have q: "e_events e = []"
    using queue_empty [OF rest _ e(3)] shape_under_way [OF t(2)] by blast
  then have "emitter_expects e = []" using rest by simp
  moreover obtain q where "e_state e = Some q" "stack_ok q (e_states e)" "length (e_indents e) = length (e_states e)"
    using e(2) by (auto simp: following_def emitter_inv_def)
  ultimately have "e_indents e = []" by (cases "e_states e") (auto simp: emitter_expects_def expects_def in_collection_def)
  then show ?thesis using e(1) q by blast
qed

text \<open>
  C17. A stream that follows the grammar is written to its end: when the events are a whole
  stream of the grammar and each can be written, \<open>yaml.emit\<close> ends without an error, nothing
  is left in the queue, and every indentation has been closed.
\<close>

theorem yaml_emit_succeeds:
  assumes "shape [AStream] evs = Some []" and "\<forall>k \<in> set evs. writable has k"
  shows "\<exists>e. yaml_emit evs (new_emitter encodes has canonical ind width unicode lb) = Some (Inr (), e) \<and>
    e_events e = [] \<and> e_indents e = []"
proof -
  let ?e = "new_emitter encodes has canonical ind width unicode lb"
  obtain e where "peach emit_event evs ?e = Some (Inr (), e)" "e_events e = []" "e_indents e = []"
    using emit_succeeds [OF assms] by blast
  then show ?thesis by (simp add: yaml_emit_def dispose_def)
qed

definition emitted_events :: "ucs event_of list" where
  "emitted_events =
     [StreamStartEvent None, DocumentStartEvent (Some True) (Some (1, 1)) (Some [(uc ''!e!'', uc ''tag:example,2000:'')]),
      MappingStartEvent (Some (uc ''a'')) (Some (uc ''tag:example,2000:m'')) False (Some False),
      ScalarEvent None None (True, False) (uc ''key'') None, SequenceStartEvent None None True (Some True),
      AliasEvent (Some (uc ''a'')), ScalarEvent None None (False, True) [10, 120] (Some dquote), SequenceEndEvent,
      MappingEndEvent, DocumentEndEvent None, StreamEndEvent]"

lemma yaml_emit_succeeds_witness:
  "\<exists>e. yaml_emit emitted_events (new_emitter (\<lambda>_ _. Inl ValueError) False False (Some 4) None False None) = Some (Inr (), e) \<and>
    e_events e = [] \<and> e_indents e = []"
proof (rule yaml_emit_succeeds)
  show "shape [AStream] emitted_events = Some []" by (simp add: emitted_events_def)
  show "\<forall>k \<in> set emitted_events. writable False k"
    by (simp add: emitted_events_def optional_def writable_anchor_def writable_tag_def writable_handle_def writable_prefix_def
        some_tags_def uc_def prefix_char_def suffix_char_def name_char_def among_def dec_digit_def letter_def)
qed

end
