(* ===== verification/Yaml_Represent_Props.thy ===== *)
theory Yaml_Represent_Props
  imports Yaml_Represent Yaml_Construct_Props "HOL-Library.Multiset"
begin

text \<open>
  The representer on heaps of plain data: null, booleans, integers, floats and texts in lists
  and dicts with scalar keys, shared and cyclic in any way.  The nodes it makes mirror the
  heap, and the objects that the constructor builds from them are a copy of it.
\<close>

section \<open>Plain heaps\<close>

text \<open>What a scalar is written as: tag and text, and the object that the text stands for.\<close>

fun scalar_text :: "pyvalue \<Rightarrow> (string \<times> string) option" where
  "scalar_text PNone = Some (core_tag ''null'', ''null'')"
| "scalar_text (PBool b) = Some (core_tag ''bool'', bool_text b)"
| "scalar_text (PInt i) = Some (core_tag ''int'', show_int i)"
| "scalar_text (PFloat x) = Some (core_tag ''float'', float_text x)"
| "scalar_text (PStr s) = Some (core_tag ''str'', s)"
| "scalar_text v = None"

fun scalar_of :: "pyvalue \<Rightarrow> obj" where
  "scalar_of (PBool b) = OBool b"
| "scalar_of (PInt i) = OInt i"
| "scalar_of (PFloat x) = OFloat x None"
| "scalar_of (PStr s) = OStr s"
| "scalar_of v = ONone"

text \<open>
  A value is plain if it is one of these scalars, a float one that is read back from its text,
  a list, or a dict with different scalars as keys.
\<close>

definition plain_value :: "pyobject list \<Rightarrow> pyvalue \<Rightarrow> bool" where
  "plain_value h v = (case v of
      PNone \<Rightarrow> True | PBool b \<Rightarrow> True | PInt i \<Rightarrow> True | PStr s \<Rightarrow> True
    | PFloat x \<Rightarrow> x \<noteq> FNan \<and> yaml_float (float_text x) = Inr (Some x)
    | PList xs \<Rightarrow> set xs \<subseteq> {..<length h}
    | PDict ps \<Rightarrow> (\<forall>(k, v) \<in> set ps. k < length h \<and> v < length h \<and> scalar_text (py_value (h ! k)) \<noteq> None) \<and>
        distinct (map (\<lambda>(k, v). key_of (scalar_of (py_value (h ! k)))) ps)
    | _ \<Rightarrow> False)"

definition plain_heap :: "pyobject list \<Rightarrow> bool" where
  "plain_heap h = (\<forall>d \<in> set h. d = builtin (py_value d) \<and> plain_value h (py_value d))"

definition is_collection :: "pyvalue \<Rightarrow> bool" where
  "is_collection v = (case v of PList xs \<Rightarrow> True | PDict ps \<Rightarrow> True | _ \<Rightarrow> False)"

lemma core_tags:
  "core_tag ''seq'' = seq_tag" "core_tag ''map'' = map_tag" "core_tag ''str'' = str_tag" "Some (core_tag n) = yaml_tag n"
  by (simp_all add: core_tag_def seq_tag_def map_tag_def str_tag_def yaml_tag_def)

lemma show_int_sign: "show_int i = sign_text (i < 0) @ show_nat (nat \<bar>i\<bar>)"
  by (simp add: show_int_def sign_text_def)

lemma yaml_int_show: "yaml_int (show_int i) = Inr i"
  by (simp add: show_int_sign yaml_int_decimal with_sign_def)

lemma yaml_bool_text: "yaml_bool (bool_text b) = Inr b"
proof -
  have "yaml_bool ''true'' = Inr True" "yaml_bool ''false'' = Inr False" by code_simp+
  then show ?thesis by (simp add: bool_text_def)
qed

lemma scalar_object_text:
  assumes "plain_value h v" and "scalar_text v = Some (tag, t)"
  shows "scalar_object tag t = Some (scalar_of v)"
  using assms
  by (cases v) (auto simp: plain_value_def scalar_object_def core_tag_def yaml_tag_def yaml_int_show yaml_bool_text)

section \<open>Sorting keeps the items\<close>

lemma insert_item_mset: "mset (insert_item x ys) = add_mset x (mset ys)"
  by (induction ys) auto

lemma foldr_insert_mset: "mset (foldr insert_item xs []) = mset xs"
  by (induction xs) (simp_all add: insert_item_mset)

lemma sorted_items_mset: "sorted_items h ps = Some qs \<Longrightarrow> mset qs = mset ps"
proof -
  assume s: "sorted_items h ps = Some qs"
  let ?tag = "\<lambda>(k, v). ([key_tree h (length h) k, key_tree h (length h) v], (k, v))"
  have "qs = map snd (foldr insert_item (map ?tag ps) [])"
    using s by (auto simp: sorted_items_def Let_def split: if_splits)
  then have "mset qs = image_mset snd (mset (map ?tag ps))" by (simp only: mset_map foldr_insert_mset)
  also have "\<dots> = mset ps" by (simp add: image_mset.compositionality comp_def case_prod_unfold)
  finally show ?thesis .
qed

section \<open>The invariant\<close>

text \<open>
  \<open>src\<close> says of which object each node is.  A scalar node has its text; a collection is known to
  \<open>represented_objects\<close>, and unless its loop is still under way, \<open>x \<in> P\<close>, its entries are nodes
  of the entries of its object.
\<close>

definition mirrors_node :: "pyobject list \<Rightarrow> node list \<Rightarrow> (node_ref \<Rightarrow> addr) \<Rightarrow> node_ref \<Rightarrow> bool" where
  "mirrors_node h g f x = (case py_value (h ! f x) of
      PList xs \<Rightarrow> \<exists>items fl. node_tag (g ! x) = seq_tag \<and> node_value (g ! x) = SequenceNode items fl \<and>
        set items \<subseteq> {..<length g} \<and> map f items = xs
    | PDict ps \<Rightarrow> \<exists>pairs fl. node_tag (g ! x) = map_tag \<and> node_value (g ! x) = MappingNode pairs fl \<and>
        (\<forall>(k, v) \<in> set pairs. k < length g \<and> v < length g) \<and> mset (map (map_prod f f) pairs) = mset ps
    | v \<Rightarrow> \<exists>t style. scalar_text v = Some (node_tag (g ! x), t) \<and> node_value (g ! x) = ScalarNode t style)"

definition representing_ok :: "pyobject list \<Rightarrow> addr list \<Rightarrow> node_ref set \<Rightarrow> representer \<Rightarrow> bool" where
  "representing_ok h src P s =
     (r_heap s = h \<and> length src = length (r_nodes s) \<and> set src \<subseteq> {..<length h} \<and>
      (\<forall>x < length src. x \<notin> P \<longrightarrow> mirrors_node h (r_nodes s) (\<lambda>y. src ! y) x) \<and>
      (\<forall>x < length src. is_collection (py_value (h ! (src ! x))) \<longrightarrow> map_of (represented_objects s) (src ! x) = Some x) \<and>
      (\<forall>a x. map_of (represented_objects s) a = Some x \<longrightarrow> x < length src \<and> src ! x = a))"

definition unseen :: "pyobject list \<Rightarrow> representer \<Rightarrow> nat" where
  "unseen h s = card {a. a < length h \<and> map_of (represented_objects s) a = None}"

text \<open>From one state to a later one nodes are only added, and no object becomes unknown.\<close>

definition later :: "pyobject list \<Rightarrow> representer \<Rightarrow> representer \<Rightarrow> bool" where
  "later h s t = (prefix (r_nodes s) (r_nodes t) \<and> unseen h t \<le> unseen h s)"

lemma later_refl: "later h s s"
  by (simp add: later_def)

lemma later_trans: "later h s t \<Longrightarrow> later h t u \<Longrightarrow> later h s u"
  by (auto simp: later_def elim: prefix_order.trans)

definition represents_at :: "pyobject list \<Rightarrow> addr list \<Rightarrow> node_ref set \<Rightarrow> representer \<Rightarrow> addr \<Rightarrow> node_ref \<Rightarrow> representer \<Rightarrow> bool" where
  "represents_at h src P s a r t =
     (\<exists>added. representing_ok h (src @ added) P t \<and> later h s t \<and> r < length (src @ added) \<and> (src @ added) ! r = a)"

lemma plain_heap_at: "plain_heap h \<Longrightarrow> a < length h \<Longrightarrow> h ! a = builtin (py_value (h ! a)) \<and> plain_value h (py_value (h ! a))"
  by (simp add: plain_heap_def)

text \<open>A node depends only on the nodes it names, so it keeps its meaning when nodes are added.\<close>

lemma mirrors_node_append:
  assumes "mirrors_node h g (\<lambda>y. src ! y) x" and "x < length g" and "length src = length g"
  shows "mirrors_node h (g @ g') (\<lambda>y. (src @ added) ! y) x"
proof (cases "py_value (h ! (src ! x))")
  case (PList xs)
  then obtain items fl where i: "node_tag (g ! x) = seq_tag" "node_value (g ! x) = SequenceNode items fl"
      "set items \<subseteq> {..<length g}" "map (\<lambda>y. src ! y) items = xs" using assms(1) by (auto simp: mirrors_node_def)
  have "map (\<lambda>y. (src @ added) ! y) items = map (\<lambda>y. src ! y) items"
    using i(3) assms(3) by (intro map_cong) (auto simp: nth_append)
  then show ?thesis using PList i assms(2,3) by (auto simp: mirrors_node_def nth_append)
next
  case (PDict ps)
  then obtain pairs fl where i: "node_tag (g ! x) = map_tag" "node_value (g ! x) = MappingNode pairs fl"
      "\<forall>(k, v) \<in> set pairs. k < length g \<and> v < length g" "mset (map (map_prod (\<lambda>y. src ! y) (\<lambda>y. src ! y)) pairs) = mset ps"
    using assms(1) by (auto simp: mirrors_node_def)
  have "map (map_prod (\<lambda>y. (src @ added) ! y) (\<lambda>y. (src @ added) ! y)) pairs = map (map_prod (\<lambda>y. src ! y) (\<lambda>y. src ! y)) pairs"
    using i(3) assms(3) by (intro map_cong) (auto simp: nth_append)
  then have m: "mset (map (map_prod (\<lambda>y. (src @ added) ! y) (\<lambda>y. (src @ added) ! y)) pairs) = mset ps"
    using i(4) by (simp only:)
  have "py_value (h ! ((src @ added) ! x)) = PDict ps" "(g @ g') ! x = g ! x" using PDict assms(2,3) by (simp_all add: nth_append)
  then show ?thesis unfolding mirrors_node_def using m i(1-3)
    by (simp only: pyvalue.case) (intro exI [of _ pairs] exI [of _ fl], force)
qed (use assms in \<open>auto simp: mirrors_node_def nth_append\<close>)

lemma mirrors_node_cong:
  "g' ! x = g ! x \<Longrightarrow> length g' = length g \<Longrightarrow> mirrors_node h g' f x = mirrors_node h g f x"
  by (simp add: mirrors_node_def split: pyvalue.split)

lemma representing_ok_key:
  "representing_ok h src P (s\<lparr>alias_key := k\<rparr>) = representing_ok h src P s"
  "representing_ok h src P (s\<lparr>object_keeper := ks\<rparr>) = representing_ok h src P s"
  "unseen h (s\<lparr>alias_key := k\<rparr>) = unseen h s" "unseen h (s\<lparr>object_keeper := ks\<rparr>) = unseen h s"
  by (simp_all add: representing_ok_def unseen_def)

text \<open>A node that is under way may change, and is closed once it mirrors its object.\<close>

lemma representing_ok_change:
  assumes "representing_ok h src P s" and "r \<in> P"
  shows "representing_ok h src P (s\<lparr>r_nodes := (r_nodes s)[r := n]\<rparr>)"
proof -
  have "mirrors_node h ((r_nodes s)[r := n]) f x = mirrors_node h (r_nodes s) f x" if "x \<notin> P" for f x
    using that assms(2) by (intro mirrors_node_cong) (metis nth_list_update_neq, simp)
  then show ?thesis using assms(1) by (auto simp: representing_ok_def)
qed

lemma representing_ok_close:
  "representing_ok h src (insert r P) s \<Longrightarrow> mirrors_node h (r_nodes s) (\<lambda>y. src ! y) r \<Longrightarrow> representing_ok h src P s"
  by (auto simp: representing_ok_def)

lemma representing_ok_open: "representing_ok h src P s \<Longrightarrow> representing_ok h src (insert r P) s"
  by (auto simp: representing_ok_def)

text \<open>A node is added for the object \<open>a\<close>.\<close>

lemma representing_ok_add:
  assumes ok: "representing_ok h src P s" and a: "a < length h"
    and new: "is_collection (py_value (h ! a)) \<Longrightarrow> map_of (represented_objects s) a = None"
    and n: "length src \<in> P \<or> mirrors_node h (r_nodes s @ [n]) (\<lambda>y. (src @ [a]) ! y) (length src)"
    and R: "R = (if is_collection (py_value (h ! a)) then dict_set (represented_objects s) a (length src) else represented_objects s)"
  shows "representing_ok h (src @ [a]) P (s\<lparr>r_nodes := r_nodes s @ [n], represented_objects := R\<rparr>)"
proof -
  have len: "length src = length (r_nodes s)" using ok by (simp add: representing_ok_def)
  have old: "mirrors_node h (r_nodes s @ [n]) (\<lambda>y. (src @ [a]) ! y) x" if "x < length src" "x \<notin> P" for x
    using ok that len by (intro mirrors_node_append) (auto simp: representing_ok_def)
  have known: "map_of (represented_objects s) (src ! x) = Some x" if "x < length src" "is_collection (py_value (h ! (src ! x)))" for x
    using ok that by (simp add: representing_ok_def)
  have origin: "x < length src \<and> src ! x = b" if "map_of (represented_objects s) b = Some x" for b x
    using ok that unfolding representing_ok_def by blast
  have "x < length (src @ [a]) \<longrightarrow> x \<notin> P \<longrightarrow> mirrors_node h (r_nodes s @ [n]) (\<lambda>y. (src @ [a]) ! y) x" for x
    using old n by (cases "x = length src") auto
  moreover have "map_of R ((src @ [a]) ! x) = Some x"
    if x: "x < length (src @ [a])" "is_collection (py_value (h ! ((src @ [a]) ! x)))" for x
  proof (cases "x = length src")
    case True
    then show ?thesis using x R by simp
  next
    case False
    then have "x < length src" "is_collection (py_value (h ! (src ! x)))" using x by (simp_all add: nth_append)
    from known [OF this] show ?thesis using False x R new by (auto simp: nth_append)
  qed
  moreover have "x < length (src @ [a]) \<and> (src @ [a]) ! x = b" if "map_of R b = Some x" for b x
    using that origin [of b x] R by (auto simp: nth_append split: if_splits)
  ultimately show ?thesis
    using ok a len by (simp add: representing_ok_def)
qed

lemma unseen_known:
  assumes "map_of (represented_objects s) a = None" and "a < length h"
  shows "unseen h (s\<lparr>r_nodes := ns, represented_objects := dict_set (represented_objects s) a r\<rparr>) < unseen h s"
proof -
  let ?A = "{b. b < length h \<and> map_of (represented_objects s) b = None}"
  have "{b. b < length h \<and> map_of (dict_set (represented_objects s) a r) b = None} = ?A - {a}" by auto
  moreover have "card (?A - {a}) < card ?A" by (rule card_Diff1_less) (use assms in simp_all)
  ultimately show ?thesis unfolding unseen_def by simp
qed

section \<open>Scalars\<close>

lemma represents_at_scalar:
  assumes ok: "representing_ok h src P s" and a: "a < length h" and key: "alias_key s = None"
    and t: "scalar_text (py_value (h ! a)) = Some (tag, t)"
  shows "runs (represent_scalar opts tag t style) s (represents_at h src P s a) (\<lambda>_ _. False)"
proof -
  let ?style = "case style of None \<Rightarrow> default_style opts | Some c \<Rightarrow> Some c"
  let ?n = "\<lparr>node_tag = tag, node_value = ScalarNode t ?style, node_start = None, node_end = None\<rparr>"
  let ?s = "s\<lparr>r_nodes := r_nodes s @ [?n], represented_objects := represented_objects s\<rparr>"
  have len: "length src = length (r_nodes s)" using ok by (simp add: representing_ok_def)
  have plain: "\<not> is_collection (py_value (h ! a))" using t by (auto simp: is_collection_def split: pyvalue.splits)
  have "mirrors_node h (r_nodes s @ [?n]) (\<lambda>y. (src @ [a]) ! y) (length src)"
    using t unfolding len mirrors_node_def nth_append_length [of "r_nodes s"] nth_append_length [of src, unfolded len]
    by (cases "py_value (h ! a)") auto
  then have "representing_ok h (src @ [a]) P ?s" using plain by (intro representing_ok_add [OF ok a]) simp_all
  moreover have "later h s ?s" by (simp add: later_def unseen_def)
  ultimately have "represents_at h src P s a (length src) ?s"
    unfolding represents_at_def by (intro exI [of _ "[a]"]) simp
  then show ?thesis
    using key len by (simp add: runs_def represent_scalar_def new_node_def note_alias_def Let_def)
qed

section \<open>The loops\<close>

text \<open>While the loop for the node \<open>r\<close> is under way, the nodes before \<open>r\<close> do not change.\<close>

definition grown :: "pyobject list \<Rightarrow> node_ref \<Rightarrow> representer \<Rightarrow> representer \<Rightarrow> bool" where
  "grown h r s t = (take r (r_nodes t) = take r (r_nodes s) \<and> unseen h t \<le> unseen h s)"

lemma grown_trans: "grown h r s t \<Longrightarrow> grown h r t u \<Longrightarrow> grown h r s u"
  by (simp add: grown_def)

lemma grown_later: "later h s t \<Longrightarrow> r \<le> length (r_nodes s) \<Longrightarrow> grown h r s t"
  by (auto simp: later_def grown_def prefix_def)

lemma grown_change: "grown h r s (s\<lparr>r_nodes := (r_nodes s)[r := n]\<rparr>)"
  by (simp add: grown_def unseen_def)

definition under_way_node :: "pyobject list \<Rightarrow> addr list \<Rightarrow> node_ref set \<Rightarrow> node_ref \<Rightarrow> string \<Rightarrow> node_value \<Rightarrow> representer \<Rightarrow> bool" where
  "under_way_node h src P r tag v s =
     (representing_ok h src P s \<and> r \<in> P \<and> r < length src \<and> node_tag (r_nodes s ! r) = tag \<and> node_value (r_nodes s ! r) = v)"

lemma under_way_later:
  assumes "under_way_node h src P r tag v s" and "later h s t" and "representing_ok h (src @ added) P t"
  shows "under_way_node h (src @ added) P r tag v t"
proof -
  have "r < length (r_nodes s)" using assms(1) by (auto simp: under_way_node_def representing_ok_def)
  then have "r_nodes t ! r = r_nodes s ! r" using assms(2) by (auto simp: later_def prefix_def nth_append)
  then show ?thesis using assms by (simp add: under_way_node_def)
qed

lemma under_way_change:
  assumes "under_way_node h src P r tag v s"
  shows "runs (change_node r f) s (\<lambda>_ u. under_way_node h src P r tag (f v) u \<and> grown h r s u) (\<lambda>_ _. False)"
proof -
  have r: "r < length (r_nodes s)" using assms by (auto simp: under_way_node_def representing_ok_def)
  let ?n = "(r_nodes s ! r)\<lparr>node_value := f (node_value (r_nodes s ! r))\<rparr>"
  have "representing_ok h src P (s\<lparr>r_nodes := (r_nodes s)[r := ?n]\<rparr>)"
    using assms by (intro representing_ok_change) (simp_all add: under_way_node_def)
  then show ?thesis
    unfolding change_node_def using assms r by (intro runs_pmodify) (simp add: under_way_node_def grown_change)
qed

text \<open>What \<open>represent_data\<close> does for the entries, as long as at most \<open>n\<close> objects are unknown.\<close>

definition calls_represent :: "pyobject list \<Rightarrow> node_ref set \<Rightarrow> nat \<Rightarrow> represent_call \<Rightarrow> bool" where
  "calls_represent h P n call = (\<forall>b src s. b < length h \<longrightarrow> representing_ok h src P s \<longrightarrow> unseen h s \<le> n \<longrightarrow>
    runs (call b) s (represents_at h src P s b) (\<lambda>_ _. False))"

lemma child_run:
  assumes call: "calls_represent h P n call" and b: "b < length h" and w: "under_way_node h src P r tag v s" and n: "unseen h s \<le> n"
  shows "runs (call b) s (\<lambda>m t. \<exists>added. under_way_node h (src @ added) P r tag v t \<and> grown h r s t \<and>
    m < length (src @ added) \<and> (src @ added) ! m = b) (\<lambda>_ _. False)"
proof -
  have r: "r \<le> length (r_nodes s)" using w by (auto simp: under_way_node_def representing_ok_def)
  have "runs (call b) s (represents_at h src P s b) (\<lambda>_ _. False)"
    using call b w n by (simp add: calls_represent_def under_way_node_def)
  then show ?thesis
    by (rule runs_conseq)
      (use r in \<open>auto simp: represents_at_def intro!: under_way_later [OF w] intro: grown_later\<close>)
qed

lemma sequence_loop_run:
  assumes call: "calls_represent h P n call"
    and "under_way_node h src P r tag (SequenceNode items fl) s" and "set items \<subseteq> {..<length src}"
    and "set xs \<subseteq> {..<length h}" and "unseen h s \<le> n"
  shows "runs (sequence_loop call r xs best) s
    (\<lambda>_ u. \<exists>added items'. under_way_node h (src @ added) P r tag (SequenceNode items' fl) u \<and> grown h r s u \<and>
      set items' \<subseteq> {..<length (src @ added)} \<and> map (\<lambda>y. (src @ added) ! y) items' = map (\<lambda>y. src ! y) items @ xs) (\<lambda>_ _. False)"
  using assms(2-)
proof (induction xs arbitrary: best src s items)
  case Nil
  then show ?case unfolding sequence_loop.simps
    by (intro runs_pret exI [of _ "[]"] exI [of _ items]) (simp add: grown_def)
next
  case (Cons x xs)
  have x: "x < length h" using Cons.prems(3) by simp
  show ?case
    unfolding sequence_loop.simps
  proof (rule runs_pbind_seq [OF child_run [OF call x Cons.prems(1,4)]], elim exE conjE)
    fix m t added
    let ?src = "src @ added"
    assume t: "under_way_node h ?src P r tag (SequenceNode items fl) t" "grown h r s t" "m < length ?src" "?src ! m = x"
    show "runs (pbind (unstyled m) (\<lambda>u. pbind (change_node r (add_entry m)) (\<lambda>_. sequence_loop call r xs (best \<and> u)))) t
      (\<lambda>_ u. \<exists>added items'. under_way_node h (src @ added) P r tag (SequenceNode items' fl) u \<and> grown h r s u \<and>
        set items' \<subseteq> {..<length (src @ added)} \<and> map (\<lambda>y. (src @ added) ! y) items' = map (\<lambda>y. src ! y) items @ x # xs) (\<lambda>_ _. False)"
      unfolding unstyled_def
    proof (rule runs_pbind, rule runs_pgets, rule runs_pbind_seq [OF under_way_change [OF t(1)]])
      fix q u assume u: "under_way_node h ?src P r tag (add_entry m (SequenceNode items fl)) u \<and> grown h r t u"
      let ?b = "best \<and> (case node_value (r_nodes t ! m) of ScalarNode v style \<Rightarrow> style = None | _ \<Rightarrow> False)"
      have g: "grown h r s u" using grown_trans [OF t(2)] u by blast
      have i: "set (items @ [m]) \<subseteq> {..<length ?src}" using Cons.prems(2) t(3) by auto
      have e: "map (\<lambda>y. ?src ! y) items = map (\<lambda>y. src ! y) items" using Cons.prems(2) by (intro map_cong) (auto simp: nth_append)
      have "runs (sequence_loop call r xs ?b) u
        (\<lambda>_ w. \<exists>added' items'. under_way_node h (?src @ added') P r tag (SequenceNode items' fl) w \<and> grown h r u w \<and>
          set items' \<subseteq> {..<length (?src @ added')} \<and>
          map (\<lambda>y. (?src @ added') ! y) items' = map (\<lambda>y. ?src ! y) (items @ [m]) @ xs) (\<lambda>_ _. False)"
        using u i Cons.prems(3,4) g by (intro Cons.IH) (auto simp: grown_def)
      then show "runs (sequence_loop call r xs ?b) u
        (\<lambda>_ u. \<exists>added items'. under_way_node h (src @ added) P r tag (SequenceNode items' fl) u \<and> grown h r s u \<and>
          set items' \<subseteq> {..<length (src @ added)} \<and> map (\<lambda>y. (src @ added) ! y) items' = map (\<lambda>y. src ! y) items @ x # xs) (\<lambda>_ _. False)"
      proof (rule runs_conseq, elim exE conjE)
        fix q w added' items'
        assume "under_way_node h (?src @ added') P r tag (SequenceNode items' fl) w" "grown h r u w"
          "set items' \<subseteq> {..<length (?src @ added')}" "map (\<lambda>y. (?src @ added') ! y) items' = map (\<lambda>y. ?src ! y) (items @ [m]) @ xs"
        then show "\<exists>added items'. under_way_node h (src @ added) P r tag (SequenceNode items' fl) w \<and> grown h r s w \<and>
          set items' \<subseteq> {..<length (src @ added)} \<and> map (\<lambda>y. (src @ added) ! y) items' = map (\<lambda>y. src ! y) items @ x # xs"
          using grown_trans [OF g] e t(4) by (intro exI [of _ "added @ added'"] exI [of _ items']) (simp add: append_assoc)
      qed simp
    qed
  qed
qed

text \<open>The pairs that nodes stand for.\<close>

definition pairs_from :: "addr list \<Rightarrow> (node_ref \<times> node_ref) list \<Rightarrow> (addr \<times> addr) list" where
  "pairs_from src pairs = map (map_prod (\<lambda>y. src ! y) (\<lambda>y. src ! y)) pairs"

definition pairs_below :: "addr list \<Rightarrow> (node_ref \<times> node_ref) list \<Rightarrow> bool" where
  "pairs_below src pairs = (\<forall>(k, v) \<in> set pairs. k < length src \<and> v < length src)"

lemma pairs_from_append: "pairs_below src pairs \<Longrightarrow> pairs_from (src @ added) pairs = pairs_from src pairs"
  unfolding pairs_from_def by (intro map_cong) (auto simp: pairs_below_def nth_append)

lemma pairs_below_append: "pairs_below src pairs \<Longrightarrow> pairs_below (src @ added) pairs"
  by (auto simp: pairs_below_def)

lemma mapping_items_run:
  assumes call: "calls_represent h P n call"
    and "under_way_node h src P r tag (MappingNode pairs fl) s" and "pairs_below src pairs"
    and "\<forall>(k, v) \<in> set ps. k < length h \<and> v < length h" and "unseen h s \<le> n"
  shows "runs (mapping_items call r ps best) s
    (\<lambda>_ u. \<exists>added pairs'. under_way_node h (src @ added) P r tag (MappingNode pairs' fl) u \<and> grown h r s u \<and>
      pairs_below (src @ added) pairs' \<and> pairs_from (src @ added) pairs' = pairs_from src pairs @ ps) (\<lambda>_ _. False)"
  using assms(2-)
proof (induction ps arbitrary: best src s pairs)
  case Nil
  then show ?case unfolding mapping_items.simps
    by (intro runs_pret exI [of _ "[]"] exI [of _ pairs]) (simp add: grown_def)
next
  case (Cons p ps)
  obtain k v where p: "p = (k, v)" "k < length h" "v < length h" using Cons.prems(3) by (cases p) auto
  let ?goal = "\<lambda>q u. \<exists>added pairs'. under_way_node h (src @ added) P r tag (MappingNode pairs' fl) u \<and> grown h r s u \<and>
      pairs_below (src @ added) pairs' \<and> pairs_from (src @ added) pairs' = pairs_from src pairs @ p # ps"
  show ?case
    unfolding p(1) mapping_items.simps
  proof (fold p(1), rule runs_pbind_seq [OF child_run [OF call p(2) Cons.prems(1,4)]], elim exE conjE)
    fix m t added
    let ?a = "src @ added"
    assume t: "under_way_node h ?a P r tag (MappingNode pairs fl) t" "grown h r s t" "m < length ?a" "?a ! m = k"
    have tn: "unseen h t \<le> n" using t(2) Cons.prems(4) by (simp add: grown_def)
    show "runs (pbind (call v) (\<lambda>m'. pbind (unstyled m) (\<lambda>u. pbind (unstyled m') (\<lambda>w.
        pbind (change_node r (add_pair (m, m'))) (\<lambda>_. mapping_items call r ps (best \<and> u \<and> w)))))) t ?goal (\<lambda>_ _. False)"
    proof (rule runs_pbind_seq [OF child_run [OF call p(3) t(1) tn]], elim exE conjE)
      fix m' t' added'
      let ?b = "?a @ added'"
      assume t': "under_way_node h ?b P r tag (MappingNode pairs fl) t'" "grown h r t t'" "m' < length ?b" "?b ! m' = v"
      show "runs (pbind (unstyled m) (\<lambda>u. pbind (unstyled m') (\<lambda>w.
          pbind (change_node r (add_pair (m, m'))) (\<lambda>_. mapping_items call r ps (best \<and> u \<and> w))))) t' ?goal (\<lambda>_ _. False)"
        unfolding unstyled_def
      proof (rule runs_pbind, rule runs_pgets, rule runs_pbind, rule runs_pgets, rule runs_pbind_seq [OF under_way_change [OF t'(1)]])
        fix q u assume u: "under_way_node h ?b P r tag (add_pair (m, m') (MappingNode pairs fl)) u \<and> grown h r t' u"
        have g: "grown h r s u" using grown_trans [OF grown_trans [OF t(2) t'(2)]] u by blast
        have i: "pairs_below ?b (pairs @ [(m, m')])"
          using pairs_below_append [OF pairs_below_append [OF Cons.prems(2)]] t(3) t'(3) by (auto simp: pairs_below_def)
        have "pairs_from ?b pairs = pairs_from src pairs"
          by (simp only: pairs_from_append [OF pairs_below_append [OF Cons.prems(2)]] pairs_from_append [OF Cons.prems(2)])
        moreover have "?b ! m = k" unfolding nth_append [of ?a] using t(3,4) by simp
        ultimately have e: "pairs_from ?b (pairs @ [(m, m')]) = pairs_from src pairs @ [p]"
          using t'(4) p(1) by (simp add: pairs_from_def)
        have "runs (mapping_items call r ps b) u
          (\<lambda>_ w. \<exists>added'' pairs'. under_way_node h (?b @ added'') P r tag (MappingNode pairs' fl) w \<and> grown h r u w \<and>
            pairs_below (?b @ added'') pairs' \<and> pairs_from (?b @ added'') pairs' = pairs_from ?b (pairs @ [(m, m')]) @ ps) (\<lambda>_ _. False)" for b
          using u i Cons.prems(3,4) g by (intro Cons.IH) (auto simp: grown_def)
        then show "runs (mapping_items call r ps (best \<and> (case node_value (r_nodes t' ! m) of ScalarNode v style \<Rightarrow> style = None | _ \<Rightarrow> False) \<and>
            (case node_value (r_nodes t' ! m') of ScalarNode v style \<Rightarrow> style = None | _ \<Rightarrow> False))) u ?goal (\<lambda>_ _. False)"
        proof (rule runs_conseq, elim exE conjE)
          fix q w added'' pairs'
          assume "under_way_node h (?b @ added'') P r tag (MappingNode pairs' fl) w" "grown h r u w"
            "pairs_below (?b @ added'') pairs'" "pairs_from (?b @ added'') pairs' = pairs_from ?b (pairs @ [(m, m')]) @ ps"
          then show "?goal q w"
            using grown_trans [OF g] e by (intro exI [of _ "added @ added' @ added''"] exI [of _ pairs']) (simp add: append_assoc)
        qed simp
      qed
    qed
  qed
qed

section \<open>One object\<close>

lemma later_grown: "grown h (length (r_nodes s)) s u \<Longrightarrow> later h s u"
  unfolding grown_def later_def by (metis order_refl take_all take_is_prefix)

lemma new_collection:
  assumes ok: "representing_ok h src P s" and a: "a < length h" "is_collection (py_value (h ! a))"
    and new: "map_of (represented_objects s) a = None" and key: "alias_key s = Some a"
  shows "runs (new_node tag v) s (\<lambda>r u. r = length src \<and> under_way_node h (src @ [a]) (insert r P) r tag v u \<and>
    grown h r s u \<and> unseen h u < unseen h s) (\<lambda>_ _. False)"
proof -
  have len: "length src = length (r_nodes s)" using ok by (simp add: representing_ok_def)
  let ?n = "\<lparr>node_tag = tag, node_value = v, node_start = None, node_end = None\<rparr>"
  let ?u = "s\<lparr>r_nodes := r_nodes s @ [?n], represented_objects := dict_set (represented_objects s) a (length src)\<rparr>"
  have "representing_ok h (src @ [a]) (insert (length src) P) ?u"
    by (rule representing_ok_add [OF representing_ok_open [OF ok] a(1)]) (use a(2) new in simp_all)
  moreover have "unseen h ?u < unseen h s" by (rule unseen_known [OF new a(1)])
  ultimately show ?thesis
    using key len by (simp add: runs_def new_node_def note_alias_def Let_def under_way_node_def grown_def)
qed

lemma choose_flow_run:
  assumes "under_way_node h src P r tag v s"
  shows "runs (choose_flow opts None r best) s (\<lambda>_ u. \<exists>b. under_way_node h src P r tag (set_flow b v) u \<and> grown h r s u) (\<lambda>_ _. False)"
  unfolding choose_flow_def by (simp, rule runs_conseq [OF under_way_change [OF assms]]) auto

lemma close_node:
  assumes w: "under_way_node h src (insert r P) r tag v u" and m: "mirrors_node h (r_nodes u) (\<lambda>y. src ! y) r"
    and g: "grown h r s u" and r: "r = length (r_nodes s)" and src: "src = src' @ added" "src ! r = a"
  shows "represents_at h src' P s a r u"
proof -
  have "representing_ok h src P u" using w m by (auto simp: under_way_node_def intro: representing_ok_close)
  moreover have "later h s u" using g unfolding r by (rule later_grown)
  ultimately show ?thesis using w src unfolding represents_at_def under_way_node_def by auto
qed

lemma represent_sequence_run:
  assumes call: "\<And>Q m. m < unseen h s \<Longrightarrow> calls_represent h Q m call"
    and ok: "representing_ok h src P s" and a: "a < length h" "py_value (h ! a) = PList xs" "set xs \<subseteq> {..<length h}"
    and new: "map_of (represented_objects s) a = None" and key: "alias_key s = Some a"
  shows "runs (represent_sequence call opts seq_tag xs None) s (represents_at h src P s a) (\<lambda>_ _. False)"
proof -
  have len: "length src = length (r_nodes s)" using ok by (simp add: representing_ok_def)
  have c: "is_collection (py_value (h ! a))" using a(2) by (simp add: is_collection_def)
  show ?thesis
    unfolding represent_sequence_def
  proof (rule runs_pbind_seq [OF new_collection [OF ok a(1) c new key]])
    fix r u
    assume u: "r = length src \<and> under_way_node h (src @ [a]) (insert r P) r seq_tag (SequenceNode [] None) u \<and>
      grown h r s u \<and> unseen h u < unseen h s"
    let ?P = "insert r P"
    have loop: "runs (sequence_loop call r xs True) u
      (\<lambda>_ w. \<exists>added items. under_way_node h ((src @ [a]) @ added) ?P r seq_tag (SequenceNode items None) w \<and> grown h r u w \<and>
        set items \<subseteq> {..<length ((src @ [a]) @ added)} \<and>
        map (\<lambda>y. ((src @ [a]) @ added) ! y) items = map (\<lambda>y. (src @ [a]) ! y) [] @ xs) (\<lambda>_ _. False)"
      using u a(3) by (intro sequence_loop_run [OF call]) auto
    show "runs (pbind (sequence_loop call r xs True) (\<lambda>best. pbind (choose_flow opts None r best) (\<lambda>_. pret r))) u
      (represents_at h src P s a) (\<lambda>_ _. False)"
    proof (rule runs_pbind_seq [OF loop], elim exE conjE)
      fix best w added items
      let ?src = "(src @ [a]) @ added"
      assume w: "under_way_node h ?src ?P r seq_tag (SequenceNode items None) w" "grown h r u w" "set items \<subseteq> {..<length ?src}"
        "map (\<lambda>y. ?src ! y) items = map (\<lambda>y. (src @ [a]) ! y) [] @ xs"
      show "runs (pbind (choose_flow opts None r best) (\<lambda>_. pret r)) w (represents_at h src P s a) (\<lambda>_ _. False)"
      proof (rule runs_pbind_seq [OF choose_flow_run [OF w(1)]], rule runs_pret, elim exE conjE)
        fix q t b
        assume t: "under_way_node h ?src ?P r seq_tag (set_flow b (SequenceNode items None)) t" "grown h r w t"
        have r: "?src ! r = a" using u by (simp add: nth_append)
        have n: "length ?src = length (r_nodes t)" using t(1) by (simp add: under_way_node_def representing_ok_def)
        have "mirrors_node h (r_nodes t) (\<lambda>y. ?src ! y) r"
          using t(1) w(3,4) a(2) unfolding mirrors_node_def r n by (simp add: under_way_node_def)
        moreover have "grown h r s t" using u w(2) t(2) grown_trans by blast
        ultimately show "represents_at h src P s a r t"
          using u len r by (intro close_node [OF t(1), where added = "[a] @ added"]) (simp_all only:, simp)
      qed
    qed
  qed
qed

lemma represent_mapping_run:
  assumes call: "\<And>Q m. m < unseen h s \<Longrightarrow> calls_represent h Q m call"
    and ok: "representing_ok h src P s" and a: "a < length h" "py_value (h ! a) = PDict ps"
      "\<forall>(k, v) \<in> set ps. k < length h \<and> v < length h"
    and new: "map_of (represented_objects s) a = None" and key: "alias_key s = Some a"
  shows "runs (represent_mapping call opts map_tag ps None) s (represents_at h src P s a) (\<lambda>_ _. False)"
proof -
  have len: "length src = length (r_nodes s)" using ok by (simp add: representing_ok_def)
  have c: "is_collection (py_value (h ! a))" using a(2) by (simp add: is_collection_def)
  show ?thesis
    unfolding represent_mapping_def
  proof (rule runs_pbind_seq [OF new_collection [OF ok a(1) c new key]], rule runs_pbind, rule runs_pgets)
    fix r u
    assume u: "r = length src \<and> under_way_node h (src @ [a]) (insert r P) r map_tag (MappingNode [] None) u \<and>
      grown h r s u \<and> unseen h u < unseen h s"
    let ?P = "insert r P" and ?qs = "case sorted_items (r_heap u) ps of Some qs \<Rightarrow> qs | None \<Rightarrow> ps"
    have m: "mset ?qs = mset ps" by (auto split: option.split dest: sorted_items_mset)
    then have "set ?qs = set ps" by (rule mset_eq_setD)
    then have qs: "\<forall>(k, v) \<in> set ?qs. k < length h \<and> v < length h" using a(3) by simp
    have loop: "runs (mapping_items call r ?qs True) u
      (\<lambda>_ w. \<exists>added pairs. under_way_node h ((src @ [a]) @ added) ?P r map_tag (MappingNode pairs None) w \<and> grown h r u w \<and>
        pairs_below ((src @ [a]) @ added) pairs \<and> pairs_from ((src @ [a]) @ added) pairs = pairs_from (src @ [a]) [] @ ?qs) (\<lambda>_ _. False)"
      using u qs by (intro mapping_items_run [OF call]) (auto simp: pairs_below_def)
    show "runs (pbind (mapping_items call r ?qs True) (\<lambda>best. pbind (choose_flow opts None r best) (\<lambda>_. pret r))) u
      (represents_at h src P s a) (\<lambda>_ _. False)"
    proof (rule runs_pbind_seq [OF loop], elim exE conjE)
      fix best w added pairs
      let ?src = "(src @ [a]) @ added"
      assume w: "under_way_node h ?src ?P r map_tag (MappingNode pairs None) w" "grown h r u w" "pairs_below ?src pairs"
        "pairs_from ?src pairs = pairs_from (src @ [a]) [] @ ?qs"
      show "runs (pbind (choose_flow opts None r best) (\<lambda>_. pret r)) w (represents_at h src P s a) (\<lambda>_ _. False)"
      proof (rule runs_pbind_seq [OF choose_flow_run [OF w(1)]], rule runs_pret, elim exE conjE)
        fix q t b
        assume t: "under_way_node h ?src ?P r map_tag (set_flow b (MappingNode pairs None)) t" "grown h r w t"
        have r: "?src ! r = a" using u by (simp add: nth_append)
        have n: "length ?src = length (r_nodes t)" using t(1) by (simp add: under_way_node_def representing_ok_def)
        have "mset (pairs_from ?src pairs) = mset ps" using w(4) m by (simp add: pairs_from_def)
        then have "mirrors_node h (r_nodes t) (\<lambda>y. ?src ! y) r"
          using t(1) w(3) a(2) unfolding mirrors_node_def r pairs_from_def pairs_below_def n
          by (simp only: under_way_node_def set_flow.simps pyvalue.case) blast
        moreover have "grown h r s t" using u w(2) t(2) grown_trans by blast
        ultimately show "represents_at h src P s a r t"
          using u len r by (intro close_node [OF t(1), where added = "[a] @ added"]) (simp_all only:, simp)
      qed
    qed
  qed
qed

lemma safe_lookups:
  "find_representer safe_representers (builtin_class PNone) = RepresentNone"
  "find_representer safe_representers (builtin_class (PBool b)) = RepresentBool"
  "find_representer safe_representers (builtin_class (PInt i)) = RepresentInt"
  "find_representer safe_representers (builtin_class (PFloat x)) = RepresentFloat"
  "find_representer safe_representers (builtin_class (PStr t)) = RepresentStr"
  "find_representer safe_representers (builtin_class (PList xs)) = RepresentList"
  "find_representer safe_representers (builtin_class (PDict ps)) = RepresentDict"
  by (simp_all add: find_representer_def safe_representers_def add_representer_def)

lemma ignore_plain:
  assumes "plain_value h v"
  shows "ignore_aliases (builtin v) = (\<not> is_collection v)"
  using assms by (cases v) (auto simp: ignore_aliases_def builtin_def is_collection_def plain_value_def)

lemma represent_data_run:
  assumes plain: "plain_heap h" and tables: "en_tables en = safe_representers"
  shows "a < length h \<Longrightarrow> representing_ok h src P s \<Longrightarrow>
    runs (represent_data en a) s (represents_at h src P s a) (\<lambda>_ _. False)"
proof (induction "unseen h s" arbitrary: a src P s rule: less_induct)
  case less
  let ?v = "py_value (h ! a)"
  have d: "h ! a = builtin ?v" "plain_value h ?v" using plain_heap_at [OF plain less.prems(1)] by simp_all
  have cl: "py_class (h ! a) = builtin_class ?v" using arg_cong [OF d(1), of py_class] by (simp add: builtin_def)
  have heap: "r_heap s = h" using less.prems(2) by (simp add: representing_ok_def)
  have call: "calls_represent h Q m (represent_data en)" if "m < unseen h s" for Q m
    unfolding calls_represent_def using less.hyps that by (meson le_less_trans)
  show ?case
  proof (cases "is_collection ?v")
    case False
    let ?s = "s\<lparr>alias_key := None\<rparr>"
    have ig: "ignore_aliases (h ! a)" using ignore_plain [OF d(2)] False d(1) by simp
    obtain tag t where t: "scalar_text ?v = Some (tag, t)"
      using d(2) False by (cases ?v) (auto simp: plain_value_def is_collection_def)
    have "represent_data en a s = call_representer (represent_data en) en (find_representer safe_representers (builtin_class ?v)) a (h ! a) ?s"
      using ig heap tables cl
      by (subst represent_data.simps)
        (simp add: object_at_addr_def enter_data_def pbind_def pgets_def pmodify_def pret_def)
    also have "\<dots> = represent_scalar (en_styles en) tag t None ?s"
      using t d(2) by (cases ?v) (auto simp: safe_lookups plain_value_def simp del: builtin_class.simps)
    finally have "represent_data en a s = represent_scalar (en_styles en) tag t None ?s" .
    moreover have "runs (represent_scalar (en_styles en) tag t None) ?s (represents_at h src P ?s a) (\<lambda>_ _. False)"
      using less.prems t by (intro represents_at_scalar) (simp_all add: representing_ok_key)
    moreover have "represents_at h src P ?s a = represents_at h src P s a"
      by (intro ext) (simp add: represents_at_def later_def representing_ok_key)
    ultimately show ?thesis by (simp only: runs_def)
  next
    case True
    have ig: "\<not> ignore_aliases (h ! a)" using ignore_plain [OF d(2)] True d(1) by simp
    show ?thesis
    proof (cases "map_of (represented_objects s) a")
      case (Some r)
      let ?s = "s\<lparr>alias_key := Some a\<rparr>"
      have "represent_data en a s = Some (Inr r, ?s)"
        using ig heap Some by (subst represent_data.simps)
          (simp add: object_at_addr_def enter_data_def pbind_def pgets_def pmodify_def pret_def)
      moreover have "r < length src \<and> src ! r = a" using less.prems(2) Some unfolding representing_ok_def by blast
      moreover have "later h s ?s" by (simp add: later_def representing_ok_key)
      ultimately show ?thesis using less.prems(2)
        by (simp add: runs_def represents_at_def) (intro exI [of _ "[]"], simp add: representing_ok_key)
    next
      case None
      let ?s = "s\<lparr>alias_key := Some a, object_keeper := object_keeper s @ [a]\<rparr>"
      have eq: "represent_data en a s = call_representer (represent_data en) en (find_representer safe_representers (builtin_class ?v)) a (h ! a) ?s"
        using ig heap tables None cl
        by (subst represent_data.simps)
          (simp add: object_at_addr_def enter_data_def pbind_def pgets_def pmodify_def pret_def)
      have ok: "representing_ok h src P ?s" using less.prems(2) representing_ok_key by metis
      have un: "unseen h ?s = unseen h s" by (simp add: unseen_def)
      have same: "represents_at h src P ?s a = represents_at h src P s a"
        by (intro ext) (simp add: represents_at_def later_def unseen_def)
      have call': "\<And>Q m. m < unseen h ?s \<Longrightarrow> calls_represent h Q m (represent_data en)" using call un by simp
      consider xs where "?v = PList xs" | ps where "?v = PDict ps" using True by (cases ?v) (auto simp: is_collection_def)
      then have "runs (call_representer (represent_data en) en (find_representer safe_representers (builtin_class ?v)) a (h ! a)) ?s
          (represents_at h src P ?s a) (\<lambda>_ _. False)"
      proof cases
        case 1
        then have "set xs \<subseteq> {..<length h}" using d(2) by (simp add: plain_value_def)
        from represent_sequence_run [OF call' ok less.prems(1) 1 this] show ?thesis
          using 1 None by (simp add: safe_lookups represent_list_def core_tags del: builtin_class.simps)
      next
        case 2
        then have "\<forall>(k, v) \<in> set ps. k < length h \<and> v < length h" using d(2) by (auto simp: plain_value_def)
        from represent_mapping_run [OF call' ok less.prems(1) 2 this] show ?thesis
          using 2 None by (simp add: safe_lookups represent_dict_def core_tags del: builtin_class.simps)
      qed
      then show ?thesis unfolding runs_def eq same .
    qed
  qed
qed

section \<open>The nodes mirror the heap\<close>

text \<open>
  The abstract specification: \<open>f\<close> says which object each node is, every node mirrors its object,
  and one collection has one node.
\<close>

definition mirrors :: "pyobject list \<Rightarrow> node list \<Rightarrow> (node_ref \<Rightarrow> addr) \<Rightarrow> bool" where
  "mirrors h g f =
     ((\<forall>x < length g. f x < length h \<and> mirrors_node h g f x) \<and>
      (\<forall>x < length g. \<forall>y < length g. f x = f y \<longrightarrow> is_collection (py_value (h ! f x)) \<longrightarrow> x = y))"

lemma represent_mirrors:
  assumes "plain_heap h" and "en_tables en = safe_representers" and "a < length h"
  shows "\<exists>r s f. represent_data en a (new_representer h) = Some (Inr r, s) \<and> r < length (r_nodes s) \<and> f r = a \<and>
    mirrors h (r_nodes s) f"
proof -
  have "representing_ok h [] {} (new_representer h)" by (simp add: representing_ok_def new_representer_def)
  from represent_data_run [OF assms(1,2,3) this] obtain r s where
    s: "represent_data en a (new_representer h) = Some (Inr r, s)" "represents_at h [] {} (new_representer h) a r s"
    by (auto dest: runs_sure)
  then obtain src where ok: "representing_ok h src {} s" and r: "r < length src" "src ! r = a"
    by (auto simp: represents_at_def)
  have len: "length (r_nodes s) = length src" using ok by (simp add: representing_ok_def)
  have "src ! x < length h \<and> mirrors_node h (r_nodes s) (\<lambda>y. src ! y) x" if "x < length src" for x
  proof
    have "set src \<subseteq> {..<length h}" using ok by (simp add: representing_ok_def)
    then show "src ! x < length h" using nth_mem [OF that] by auto
    show "mirrors_node h (r_nodes s) (\<lambda>y. src ! y) x" using ok that by (simp add: representing_ok_def)
  qed
  moreover have "x = y" if "x < length src" "y < length src" "src ! x = src ! y" "is_collection (py_value (h ! (src ! x)))" for x y
  proof -
    have known: "\<forall>x < length src. is_collection (py_value (h ! (src ! x))) \<longrightarrow> map_of (represented_objects s) (src ! x) = Some x"
      using ok by (simp add: representing_ok_def)
    have "map_of (represented_objects s) (src ! x) = Some x" using known that(1,4) by blast
    moreover have "map_of (represented_objects s) (src ! y) = Some y" using known that(2) that(4) [unfolded that(3)] by blast
    ultimately show ?thesis unfolding that(3) by simp
  qed
  ultimately have "mirrors h (r_nodes s) (\<lambda>y. src ! y)" by (simp add: mirrors_def len)
  then show ?thesis using s(1) r len by (intro exI [of _ r] exI [of _ s] exI [of _ "\<lambda>y. src ! y"]) simp
qed


section \<open>The constructor copies what the representer shows\<close>

lemma mirrors_node_scalar:
  assumes "mirrors_node h g f x" and "plain_value h (py_value (h ! f x))" and "\<not> is_collection (py_value (h ! f x))"
  shows "\<exists>t style. node_value (g ! x) = ScalarNode t style \<and>
    scalar_object (node_tag (g ! x)) t = Some (scalar_of (py_value (h ! f x)))"
proof -
  obtain t style where t: "scalar_text (py_value (h ! f x)) = Some (node_tag (g ! x), t)" "node_value (g ! x) = ScalarNode t style"
    using assms(1,3) by (auto simp: mirrors_node_def is_collection_def split: pyvalue.splits)
  then show ?thesis using scalar_object_text [OF assms(2) t(1)] by simp
qed

lemma scalar_not_collection: "scalar_text v \<noteq> None \<Longrightarrow> \<not> is_collection v"
  by (cases v) (auto simp: is_collection_def)

lemma mirrors_plain:
  assumes h: "plain_heap h" and m: "mirrors h g f"
  shows "plain_graph g"
proof -
  have node: "set (children (node_value (g ! x))) \<subseteq> {..<length g} \<and> plain_node g (g ! x)" if x: "x < length g" for x
  proof -
    let ?v = "py_value (h ! f x)"
    have f: "f x < length h" "mirrors_node h g f x" using m x by (simp_all add: mirrors_def)
    have p: "plain_value h ?v" using plain_heap_at [OF h f(1)] by simp
    show ?thesis
    proof (cases "is_collection ?v")
      case False
      then show ?thesis using mirrors_node_scalar [OF f(2) p False] by (auto simp: plain_node_def)
    next
      case True
      show ?thesis
      proof (cases ?v)
        case (PList xs)
        then show ?thesis using f(2) by (auto simp: mirrors_node_def plain_node_def)
      next
        case (PDict ps)
        then obtain pairs fl where g: "node_tag (g ! x) = map_tag" "node_value (g ! x) = MappingNode pairs fl"
          "\<forall>(k, v) \<in> set pairs. k < length g \<and> v < length g" "mset (map (map_prod f f) pairs) = mset ps"
          using f(2) by (auto simp: mirrors_node_def)
        have "set (map (map_prod f f) pairs) = set ps" using g(4) by (rule mset_eq_setD)
        then have key: "scalar_text (py_value (h ! f k)) \<noteq> None" if "(k, v) \<in> set pairs" for k v
        proof -
          have "map_prod f f (k, v) \<in> set ps" using that \<open>set (map (map_prod f f) pairs) = set ps\<close> by (auto simp flip: \<open>set (map (map_prod f f) pairs) = set ps\<close>)
          then show ?thesis using p unfolding PDict plain_value_def by auto
        qed
        have "is_scalar_node (g ! k)" if k: "(k, v) \<in> set pairs" for k v
        proof -
          have "k < length g" using g(3) k by auto
          then have fk: "f k < length h" "mirrors_node h g f k" using m by (simp_all add: mirrors_def)
          from mirrors_node_scalar [OF fk(2) _ scalar_not_collection [OF key [OF k]]] plain_heap_at [OF h fk(1)]
          obtain t style where "node_value (g ! k) = ScalarNode t style" by auto
          then show ?thesis by (simp add: is_scalar_node_def)
        qed
        then show ?thesis using g by (auto simp: plain_node_def)
      qed (use True in \<open>auto simp: is_collection_def\<close>)
    qed
  qed
  then show ?thesis by (fastforce simp: plain_graph_def closed_graph_def in_set_conv_nth)
qed

text \<open>The objects that can be reached from one, through lists and dicts.\<close>

fun parts :: "pyvalue \<Rightarrow> addr list" where
  "parts (PList xs) = xs"
| "parts (PDict ps) = concat (map (\<lambda>(k, v). [k, v]) ps)"
| "parts v = []"

inductive_set reached :: "pyobject list \<Rightarrow> addr \<Rightarrow> addr set" for h :: "pyobject list" and a :: addr where
  root: "a \<in> reached h a"
| part: "b \<in> reached h a \<Longrightarrow> c \<in> set (parts (py_value (h ! b))) \<Longrightarrow> c \<in> reached h a"

text \<open>
  \<open>F\<close> gives the copy of every object: an equal scalar, a list of the copies in the same order, a
  dict with the copies of the items, in some order; and different objects have different copies.
\<close>

definition copies :: "pyobject list \<Rightarrow> (addr \<Rightarrow> obj) \<Rightarrow> container list \<Rightarrow> addr set \<Rightarrow> bool" where
  "copies h F store D =
     ((\<forall>b \<in> D. case py_value (h ! b) of
         PList xs \<Rightarrow> \<exists>d < length store. F b = ORef d \<and> store ! d = PyList (map F xs)
       | PDict ps \<Rightarrow> \<exists>d < length store. F b = ORef d \<and>
           (\<exists>items. store ! d = PyDict items \<and> mset items = mset (map (map_prod F F) ps))
       | v \<Rightarrow> F b = scalar_of v) \<and>
      (\<forall>b \<in> D. \<forall>c \<in> D. \<forall>d. F b = ORef d \<longrightarrow> F c = ORef d \<longrightarrow> b = c))"

lemma dict_of_distinct:
  "distinct (map (\<lambda>(k, v). key_of (p k)) pairs) \<Longrightarrow> dict_of p pairs = map (map_prod p p) pairs"
proof (induction pairs rule: rev_induct)
  case (snoc x pairs)
  have "key_of (p (fst x)) \<notin> set (key_list (map (map_prod p p) pairs))"
    using snoc.prems by (auto simp: key_list_def image_iff split: prod.splits)
  then show ?case using snoc by (simp add: dict_of_def dict_put_new case_prod_unfold map_prod_def)
qed (simp add: dict_of_def)

lemma reachable_below: "closed_graph g \<Longrightarrow> r < length g \<Longrightarrow> x \<in> reachable g r \<Longrightarrow> x < length g"
  by (erule reachable.induct [rotated 1]) (use nth_mem in \<open>force simp: closed_graph_def\<close>)+

lemma reached_node:
  assumes m: "mirrors h g f" and r: "r < length g" "f r = a" and c: "closed_graph g" and b: "b \<in> reached h a"
  shows "\<exists>x \<in> reachable g r. f x = b"
  using b
proof induction
  case root
  then show ?case using r(2) reachable.root by blast
next
  case (part b e)
  then obtain x where x: "x \<in> reachable g r" "f x = b" by blast
  have n: "mirrors_node h g f x" using m reachable_below [OF c r(1) x(1)] by (simp add: mirrors_def)
  have "\<exists>y \<in> set (children (node_value (g ! x))). f y = e"
  proof (cases "py_value (h ! b)")
    case (PList xs)
    then show ?thesis using n x(2) part.hyps(2) by (auto simp: mirrors_node_def)
  next
    case (PDict ps)
    then obtain pairs fl where g: "node_value (g ! x) = MappingNode pairs fl" "mset (map (map_prod f f) pairs) = mset ps"
      using n x(2) by (auto simp: mirrors_node_def)
    have "set ps = set (map (map_prod f f) pairs)" using mset_eq_setD [OF g(2)] by simp
    then show ?thesis using g(1) part.hyps(2) PDict by fastforce
  qed (use part.hyps(2) in auto)
  then show ?case using x(1) reachable.child by blast
qed

lemma mirrored_copies:
  assumes h: "plain_heap h" and m: "mirrors h g f" and r: "r < length g" "f r = a"
    and rep: "represents g p store (reachable g r)"
  shows "\<exists>F. F a = p r \<and> copies h F store (reached h a)"
proof -
  have plain: "plain_graph g" by (rule mirrors_plain [OF h m])
  then have c: "closed_graph g" by (simp add: plain_graph_def)
  let ?D = "reachable g r"
  define F where "F b = p (SOME x. x \<in> ?D \<and> f x = b)" for b
  have below: "x < length g" if "x \<in> ?D" for x using reachable_below [OF c r(1) that] .
  have node: "f x < length h" "mirrors_node h g f x" "plain_value h (py_value (h ! f x))" if "x \<in> ?D" for x
    using m below [OF that] plain_heap_at [OF h] by (auto simp: mirrors_def)
  have scalar: "p x = scalar_of (py_value (h ! f x))" if x: "x \<in> ?D" "\<not> is_collection (py_value (h ! f x))" for x
  proof -
    obtain t style where "node_value (g ! x) = ScalarNode t style" "scalar_object (node_tag (g ! x)) t = Some (scalar_of (py_value (h ! f x)))"
      using mirrors_node_scalar [OF node(2,3) x(2)] x(1) by blast
    then show ?thesis using rep x(1) by (auto simp: represents_def)
  qed
  have F: "F (f x) = p x" if x: "x \<in> ?D" for x
  proof -
    let ?y = "SOME y. y \<in> ?D \<and> f y = f x"
    have y: "?y \<in> ?D \<and> f ?y = f x" by (rule someI [of _ x]) (use x in simp)
    show ?thesis
    proof (cases "is_collection (py_value (h ! f x))")
      case True
      then have "?y = x" using m y below x unfolding mirrors_def by metis
      then show ?thesis by (simp add: F_def)
    next
      case False
      then show ?thesis using scalar [OF x] scalar [of ?y] y by (simp add: F_def)
    qed
  qed
  have child: "y \<in> ?D" if "x \<in> ?D" "y \<in> set (children (node_value (g ! x)))" for x y using that by (rule reachable.child)
  have image: "\<exists>x \<in> ?D. f x = b" if "b \<in> reached h a" for b by (rule reached_node [OF m r c that])
  have content: "case py_value (h ! f x) of
         PList xs \<Rightarrow> \<exists>d < length store. F (f x) = ORef d \<and> store ! d = PyList (map F xs)
       | PDict ps \<Rightarrow> \<exists>d < length store. F (f x) = ORef d \<and>
           (\<exists>items. store ! d = PyDict items \<and> mset items = mset (map (map_prod F F) ps))
       | v \<Rightarrow> F (f x) = scalar_of v" if x: "x \<in> ?D" for x
  proof (cases "py_value (h ! f x)")
    case (PList xs)
    then obtain items fl where g: "node_value (g ! x) = SequenceNode items fl" "map f items = xs"
      using node(2) [OF x] by (auto simp: mirrors_node_def)
    have "map F xs = map p items" using g child [OF x] F by auto
    then show ?thesis using rep x g F [OF x] PList by (auto simp: represents_def dest!: bspec [OF _ x])
  next
    case (PDict ps)
    then obtain pairs fl where g: "node_value (g ! x) = MappingNode pairs fl" "mset (map (map_prod f f) pairs) = mset ps"
      using node(2) [OF x] by (auto simp: mirrors_node_def)
    have pd: "k \<in> ?D \<and> v \<in> ?D" if "(k, v) \<in> set pairs" for k v
      using child [OF x] g(1) that by fastforce
    have sp: "(f k, f v) \<in> set ps" if "(k, v) \<in> set pairs" for k v
      using mset_eq_setD [OF g(2)] that by force
    let ?key = "\<lambda>(k, v). key_of (scalar_of (py_value (h ! k)))"
    have "scalar_text (py_value (h ! f k)) \<noteq> None" if "(k, v) \<in> set pairs" for k v
      using sp [OF that] node(3) [OF x] unfolding PDict plain_value_def by auto
    then have "p k = scalar_of (py_value (h ! f k))" if "(k, v) \<in> set pairs" for k v
      using scalar [of k] pd [OF that] scalar_not_collection that by blast
    then have "map (\<lambda>(k, v). key_of (p k)) pairs = map ?key (map (map_prod f f) pairs)" by auto
    moreover have "mset (map ?key (map (map_prod f f) pairs)) = mset (map ?key ps)" using g(2) by (simp only: mset_map)
    moreover have "distinct (map ?key ps)" using node(3) [OF x] PDict by (simp add: plain_value_def)
    ultimately have "distinct (map (\<lambda>(k, v). key_of (p k)) pairs)" using mset_eq_imp_distinct_iff by metis
    then have "dict_of p pairs = map (map_prod p p) pairs" by (rule dict_of_distinct)
    also have "\<dots> = map (map_prod F F) (map (map_prod f f) pairs)" using pd F by auto
    finally have "mset (dict_of p pairs) = mset (map (map_prod F F) ps)" using g(2) by (simp only: mset_map)
    then show ?thesis using rep x g(1) F [OF x] PDict by (auto simp: represents_def dest!: bspec [OF _ x])
  qed (use scalar [OF x] F [OF x] in \<open>simp_all add: is_collection_def\<close>)
  have "F a = p r" using F [OF reachable.root] r(2) by simp
  moreover have "copies h F store (reached h a)"
    unfolding copies_def
  proof (intro conjI ballI allI impI)
    fix b assume "b \<in> reached h a"
    then obtain x where "x \<in> ?D" "f x = b" using image by blast
    then show "case py_value (h ! b) of
         PList xs \<Rightarrow> \<exists>d < length store. F b = ORef d \<and> store ! d = PyList (map F xs)
       | PDict ps \<Rightarrow> \<exists>d < length store. F b = ORef d \<and>
           (\<exists>items. store ! d = PyDict items \<and> mset items = mset (map (map_prod F F) ps))
       | v \<Rightarrow> F b = scalar_of v" using content by blast
  next
    fix b e d assume "b \<in> reached h a" "e \<in> reached h a" "F b = ORef d" "F e = ORef d"
    moreover from this obtain x y where "x \<in> ?D" "f x = b" "y \<in> ?D" "f y = e" using image by blast
    ultimately show "b = e" using F rep unfolding represents_def by metis
  qed
  ultimately show ?thesis by blast
qed

text \<open>What is constructed from nodes that mirror the heap is a copy.\<close>

lemma mirrored_constructed:
  assumes "plain_heap h" and "mirrors h g f" and "r < length g" and "f r = a"
  shows "\<exists>F u. construct_document safe_tables r (new_builder g) = Some (Inr (F a), u) \<and> copies h F (b_objects u) (reached h a)"
proof -
  obtain p u where "construct_document safe_tables r (new_builder g) = Some (Inr (p r), u)"
    "represents g p (b_objects u) (reachable g r)"
    using construct_represents [OF mirrors_plain [OF assms(1,2)] assms(3)] by blast
  with mirrored_copies [OF assms] show ?thesis by metis
qed

section \<open>A heap with sharing and a cycle\<close>

definition sample_env :: represent_env where
  "sample_env = \<lparr>en_styles = \<lparr>default_style = None, default_flow_style = None\<rparr>, en_tables = safe_representers,
     en_str = (\<lambda>h a. ''?''), en_reduce = (\<lambda>a h. (Inl (Raised AttributeError), h))\<rparr>"

definition sample_heap :: "pyobject list" where
  "sample_heap = map builtin [PDict [(1, 2), (3, 0)], PStr ''items'', PList [4, 4, 2], PStr ''again'', PInt 7]"

lemma sample_plain: "plain_heap sample_heap \<and> 0 < length sample_heap"
  by (simp add: plain_heap_def sample_heap_def builtin_def plain_value_def)


section \<open>Objects that cannot be represented\<close>


definition named_pair :: pyobject where
  "named_pair = \<lparr>py_class = [''Point'', ''tuple'', ''object''], py_value = PTuple [0, 0]\<rparr>"


end
