(* ===== verification/Yaml_Dump_Props.thy ===== *)
theory Yaml_Dump_Props
  imports Yaml_Dump Yaml_Copy Yaml_Emitter_Grammar Yaml_Represent_Props
begin

text \<open>
  The whole of \<open>safe_dump\<close>: what the representer makes, the serializer spells as a stream of the
  grammar, with anchors and tags that the emitter can write, so plain data is always dumped.
  And the way back: what the composer and the constructor make of these events is a copy.
\<close>

section \<open>The serializer follows the grammar of events\<close>

text \<open>What a reader still expects after a node, where \<open>es\<close> begins with a node.\<close>

fun after_node_at :: "expect list \<Rightarrow> expect list option" where
  "after_node_at (ANode # r) = Some r"
| "after_node_at (AEntry # r) = Some (AEntry # r)"
| "after_node_at (AKey # r) = Some (AValue # r)"
| "after_node_at (AValue # r) = Some (AKey # r)"
| "after_node_at es = None"

lemma node_step:
  "after_node_at es = Some r \<Longrightarrow> k \<noteq> SequenceEndEvent \<Longrightarrow> k \<noteq> MappingEndEvent \<Longrightarrow> shape_step es k = node_shape r k"
  by (cases es; cases "hd es"; cases k) auto

definition fits :: "walk \<Rightarrow> event_kind list \<Rightarrow> bool" where
  "fits w a = (\<forall>es r. after_node_at es = Some r \<longrightarrow> shape es a = Some r)"

lemma children_even: "even (length (children (MappingNode pairs fl)))"
  by (induction pairs) auto

lemma entries_shape:
  "list_all2 fits ws as \<Longrightarrow> shape (AEntry # r) (concat as) = Some (AEntry # r)"
  by (induction rule: list_all2_induct) (simp_all add: fits_def shape_append)

lemma pairs_shape:
  "list_all2 fits ws as \<Longrightarrow> even (length ws) \<Longrightarrow> shape (AKey # r) (concat as) = Some (AKey # r)"
proof (induction ws arbitrary: as rule: induct_list012)
  case (3 w w' ws)
  then obtain a a' as' where as: "as = a # a' # as'" "fits w a" "fits w' a'" "list_all2 fits ws as'"
    by (auto simp: list_all2_Cons1)
  then have "shape (AKey # r) a = Some (AValue # r)" "shape (AValue # r) a' = Some (AKey # r)" by (simp_all add: fits_def)
  then show ?case using as 3 by (simp add: shape_append)
qed simp_all

lemma spells_all_parts: "spells_all al g ws es \<longleftrightarrow> (\<exists>as. es = concat as \<and> list_all2 (spells al g) ws as)"
proof (induction ws arbitrary: es)
  case (Cons w ws)
  then show ?case by (auto simp: list_all2_Cons1) (metis concat.simps(2))+
qed simp

lemma spells_fits:
  "walks g seen w \<Longrightarrow> spells al g w a \<Longrightarrow> fits w a"
  "walks_all g seen ws \<Longrightarrow> list_all2 (spells al g) ws as \<Longrightarrow> list_all2 fits ws as"
proof (induction g seen w and g seen ws arbitrary: a and as rule: walks_walks_all.induct)
  case (1 g seen r)
  then show ?case by (auto simp: fits_def node_step)
next
  case (2 g seen r ws)
  have kids: "map root_of ws = children (node_value (g ! r))" "walks_all g (seen @ [r]) ws" using 2(2) by auto
  show ?case
  proof (cases "node_value (g ! r)")
    case (ScalarNode v style)
    then show ?thesis using 2(3) by (auto simp: fits_def node_step)
  next
    case (SequenceNode items fl)
    then obtain imp as where a: "list_all2 (spells al g) ws as"
        "a = SequenceStartEvent (al r) (Some (node_tag (g ! r))) imp fl # concat as @ [SequenceEndEvent]"
      using 2(3) by (auto simp: spells_all_parts)
    have "list_all2 fits ws as" using 2(1) kids a(1) 2(2) by auto
    then show ?thesis using a(2) by (auto simp: fits_def node_step shape_append entries_shape)
  next
    case (MappingNode pairs fl)
    then obtain imp as where a: "list_all2 (spells al g) ws as"
        "a = MappingStartEvent (al r) (Some (node_tag (g ! r))) imp fl # concat as @ [MappingEndEvent]"
      using 2(3) by (auto simp: spells_all_parts)
    have "list_all2 fits ws as" using 2(1) kids a(1) 2(2) by auto
    moreover have "even (length ws)"
      using arg_cong [OF kids(1), of length] children_even [of pairs fl] MappingNode by simp
    ultimately show ?thesis using a(2) by (auto simp: fits_def node_step shape_append pairs_shape)
  qed
next
  case (4 g seen w ws)
  then show ?case by (auto simp: list_all2_Cons1)
qed simp

section \<open>The emitter can write the events\<close>

lemma shape_points: "shape es (map event_points ks) = shape es ks"
proof (induction ks arbitrary: es)
  case (Cons k ks)
  have "shape_step es (event_points k) = shape_step es k"
    unfolding event_points_def by (cases es; cases "hd es"; cases k) auto
  then show ?case using Cons by (simp split: option.split)
qed simp

abbreviation points_writable :: "bool \<Rightarrow> event_kind list \<Rightarrow> bool" where
  "points_writable has ks \<equiv> \<forall>k \<in> set ks. writable has (event_points k)"

lemma anchor_name_writable: "writable_anchor (map ord (anchor_name k))"
proof -
  have "name_char (ord c)" if "is_digit c" for c using that by (simp add: name_char_def dec_digit_def is_digit_def)
  moreover have "\<forall>c \<in> set (zero_pad 3 (show_nat k)). is_digit c"
    using show_nat_digits by (auto simp: zero_pad_def is_digit_def)
  moreover have "\<forall>c \<in> set ''id''. name_char (ord c)" by (simp add: name_char_def letter_def)
  ultimately show ?thesis by (auto simp: writable_anchor_def anchor_name_def)
qed

definition tag_writable :: "string \<Rightarrow> bool" where
  "tag_writable t = writable_tag (map ord t)"

definition plain_tags :: "string list" where
  "plain_tags = [core_tag ''null'', core_tag ''bool'', core_tag ''int'', core_tag ''float'', core_tag ''str'', seq_tag, map_tag]"

lemma plain_tags_written: "\<forall>t \<in> set plain_tags. tag_writable t \<and> t \<noteq> ''!''"
  by code_simp

lemma mirrored_tag:
  "mirrors_node h g f x \<Longrightarrow> plain_value h (py_value (h ! f x)) \<Longrightarrow> node_tag (g ! x) \<in> set plain_tags"
  by (cases "py_value (h ! f x)") (auto simp: mirrors_node_def plain_value_def plain_tags_def)

lemma spells_writable:
  assumes "\<forall>x. optional writable_anchor (map_option (map ord) (al x))"
  shows "spells al g w a \<Longrightarrow> \<forall>x \<in> set (mets w). al x \<noteq> None \<Longrightarrow> \<forall>x \<in> set (news w). tag_writable (node_tag (g ! x)) \<Longrightarrow>
      points_writable has a"
    and "spells_all al g ws b \<Longrightarrow> \<forall>x \<in> set (mets_all ws). al x \<noteq> None \<Longrightarrow>
      \<forall>x \<in> set (news_all ws). tag_writable (node_tag (g ! x)) \<Longrightarrow> points_writable has b"
  using assms
proof (induction al g w a and al g ws b rule: spells_spells_all.induct)
  case (1 al g r es)
  have "optional writable_anchor (map_option (map ord) (al r))" using 1(4) by blast
  then show ?case using 1(1,2) by (cases "al r") (auto simp: event_points_def)
next
  case (2 al g r ws es)
  have "optional writable_tag (Some (map ord (node_tag (g ! r))))" using 2(5) by (simp add: tag_writable_def optional_def)
  moreover have "points_writable has mid" if "node_value (g ! r) = SequenceNode items fl" "spells_all al g ws mid" for items fl mid
    using 2(1) [OF that] 2(4-6) by auto
  moreover have "points_writable has mid" if "node_value (g ! r) = MappingNode pairs fl" "spells_all al g ws mid" for pairs fl mid
    using 2(2) [OF that] 2(4-6) by auto
  ultimately show ?case
    using 2(3,6) by (cases "node_value (g ! r)") (auto simp: event_points_def)
next
  case (4 al g w ws es)
  then show ?case by auto
qed simp

text \<open>A document of writable nodes is one document of the grammar, and its events can be written.\<close>

lemma document_written:
  assumes "document g r es" and "closed_graph g" and "r < length g" and "\<forall>x < length g. tag_writable (node_tag (g ! x))"
  shows "shape (ANode # e) es = Some e" and "points_writable has es"
proof -
  obtain w al where w: "walks g [] w" "root_of w = r" "spells al g w es" "\<forall>x \<in> set (mets w). al x \<noteq> None"
    "\<forall>x a. al x = Some a \<longrightarrow> (\<exists>k. a = anchor_name k)"
    using assms(1) unfolding document_def by blast
  show "shape (ANode # e) es = Some e" using spells_fits(1) [OF w(1,3)] by (simp add: fits_def)
  have "optional writable_anchor (map_option (map ord) (al x))" for x
    using w(5) anchor_name_writable by (cases "al x") (auto simp: optional_def)
  moreover have "\<forall>x \<in> set (news w). tag_writable (node_tag (g ! x))"
    using news_bound(1) [OF assms(2) w(1)] w(2) assms(3,4) by auto
  ultimately show "points_writable has es" using spells_writable(1) [OF _ w(3,4)] by blast
qed

lemma mirrored_tags:
  assumes "plain_heap h" and "mirrors h g f" and "x < length g"
  shows "tag_writable (node_tag (g ! x))" and "node_tag (g ! x) \<noteq> ''!''"
proof -
  have "node_tag (g ! x) \<in> set plain_tags"
    using mirrored_tag assms plain_heap_at unfolding mirrors_def by blast
  then show "tag_writable (node_tag (g ! x))" "node_tag (g ! x) \<noteq> ''!''" using plain_tags_written by blast+
qed

section \<open>The dumper\<close>

lemma peach_append: "peach f (xs @ ys) = pbind (peach f xs) (\<lambda>_. peach f ys)"
  by (induction xs) (simp_all add: pbind_assoc)

text \<open>
  When the emitter takes all events of a run that is cut into three, it takes each part.
\<close>

lemma emitted_parts:
  assumes "peach emit_event (map event_points (xs @ ys @ zs)) e = Some (Inr (), t)"
  obtains e1 e2 where "peach emit_event (map event_points xs) e = Some (Inr (), e1)"
    "peach emit_event (map event_points ys) e1 = Some (Inr (), e2)" "peach emit_event (map event_points zs) e2 = Some (Inr (), t)"
  using assms by (auto simp: peach_append pbind_def split: option.splits sum.splits)

lemma serializing_run:
  assumes "m ((du_ser s)\<lparr>se_events := []\<rparr>) = Some (Inr (), q)"
    and "peach emit_event (map event_points (se_events q)) (du_emit s) = Some (Inr (), e)"
  shows "serializing m s = Some (Inr (), s\<lparr>du_ser := q, du_emit := e\<rparr>)"
  using assms by (simp add: serializing_def)

text \<open>
  C22. \<open>safe_dump\<close> writes every plain object.  For every object in a heap of plain data, with any
  sharing and any cycles, and options that the emitter accepts, the representer, the serializer
  and the emitter together come to an end without an error: no event is left in the queue,
  every indentation is closed, and the serializer is closed.
\<close>

theorem safe_dump_succeeds:
  assumes "plain_heap h" and "en_tables en = safe_representers" and "a < length h" and "path_table q = []"
    and "writable has (event_points (StreamStartEvent (use_encoding opts)))"
    and "writable has (event_points (DocumentStartEvent (use_explicit_start opts) (use_version opts) (use_tags opts)))"
  shows "\<exists>t. yaml_dump en opts a (new_dumper h q (new_emitter encodes has canonical ind width unicode lb)) = Some (Inr (), t) \<and>
    e_events (du_emit t) = [] \<and> e_indents (du_emit t) = [] \<and> se_closed (du_ser t) = Some True"
proof -
  let ?em = "new_emitter encodes has canonical ind width unicode lb"
  let ?start = "[StreamStartEvent (use_encoding opts)]"
  obtain r p f where p: "represent_data en a (new_representer h) = Some (Inr r, p)" "r < length (r_nodes p)" "mirrors h (r_nodes p) f"
    using represent_mirrors [OF assms(1-3)] by blast
  let ?g = "r_nodes p"
  have g: "closed_graph ?g" using mirrors_plain [OF assms(1) p(3)] by (simp add: plain_graph_def)
  let ?s1 = "new_serializer q\<lparr>se_events := ?start, se_closed := Some False\<rparr>"
  have s1: "open_serializer opts (new_serializer q) = Some (Inr (), ?s1)" "between_documents (?s1\<lparr>se_events := []\<rparr>)"
    using assms(4) by (simp_all add: open_serializer_def pbind_def pgets_def emit_def pmodify_def new_serializer_def between_documents_def)
  from serialize_document [OF g p(2) s1(2), of opts] obtain s2 es where
    s2: "serialize opts ?g r (?s1\<lparr>se_events := []\<rparr>) = Some (Inr (), s2)" "between_documents s2" "document ?g r es"
      "se_events s2 = DocumentStartEvent (use_explicit_start opts) (use_version opts) (use_tags opts) # es @
        [DocumentEndEvent (use_explicit_end opts)]" by auto
  let ?s3 = "s2\<lparr>se_events := [StreamEndEvent], se_closed := Some True\<rparr>"
  have s3: "close_serializer (s2\<lparr>se_events := []\<rparr>) = Some (Inr (), ?s3)"
    using s2(2) by (simp add: close_serializer_def pbind_def pgets_def emit_def pmodify_def between_documents_def)
  let ?all = "?start @ se_events s2 @ [StreamEndEvent]"
  note doc = document_written [OF s2(3) g p(2)] mirrored_tags(1) [OF assms(1) p(3)]
  have "shape [AStream] (map event_points ?all) = Some []"
    unfolding shape_points using doc by (simp add: s2(4) shape_append)
  moreover have "\<forall>k \<in> set (map event_points ?all). writable has k"
    using doc assms(5,6) by (auto simp: s2(4)) (simp_all add: event_points_def)
  ultimately obtain e where e: "peach emit_event (map event_points ?all) ?em = Some (Inr (), e)" "e_events e = []" "e_indents e = []"
    using emit_succeeds by blast
  obtain e1 e2 where parts: "peach emit_event (map event_points ?start) ?em = Some (Inr (), e1)"
    "peach emit_event (map event_points (se_events s2)) e1 = Some (Inr (), e2)"
    "peach emit_event (map event_points [StreamEndEvent]) e2 = Some (Inr (), e)"
    by (rule emitted_parts [OF e(1)])
  let ?d0 = "new_dumper h q ?em"
  let ?d1 = "?d0\<lparr>du_ser := ?s1, du_emit := e1\<rparr>"
  let ?d2 = "?d1\<lparr>du_rep := p, du_ser := s2, du_emit := e2\<rparr>"
  let ?d3 = "?d2\<lparr>du_rep := forget_objects p\<rparr>"
  have "serializing (open_serializer opts) ?d0 = Some (Inr (), ?d1)"
    using serializing_run [of "open_serializer opts" ?d0 ?s1 e1] s1(1) parts(1) by (simp add: new_dumper_def new_serializer_def)
  moreover have "represent en opts a ?d1 = Some (Inr (), ?d3)"
    using serializing_run [of "serialize opts ?g r" "?d1\<lparr>du_rep := p\<rparr>" s2 e2] s2(1) parts(2) p(1)
    by (simp add: represent_def pbind_def representing_def pmodify_def new_dumper_def)
  moreover have "serializing close_serializer ?d3 = Some (Inr (), ?d3\<lparr>du_ser := ?s3, du_emit := e\<rparr>)"
    using serializing_run [of close_serializer ?d3 ?s3 e] s3 parts(3) by simp
  ultimately have "yaml_dump en opts a ?d0 = Some (Inr (), dispose_emitter (?d3\<lparr>du_ser := ?s3, du_emit := e\<rparr>))"
    by (simp add: yaml_dump_def yaml_dump_all_def dump_documents_def pbind_def pret_def)
  then show ?thesis using e(2,3) by (simp add: dispose_emitter_def dispose_def modify_def)
qed

lemma safe_dump_succeeds_witness:
  "\<exists>t. yaml_dump sample_env \<lparr>use_encoding = None, use_explicit_start = None, use_explicit_end = Some True, use_version = Some (1, 1),
        use_tags = None\<rparr> 0
      (new_dumper sample_heap (new_resolver resolver_table []) (new_emitter (\<lambda>_ _. Inl ValueError) False False (Some 4) None False None)) =
        Some (Inr (), t) \<and>
    e_events (du_emit t) = [] \<and> e_indents (du_emit t) = [] \<and> se_closed (du_ser t) = Some True"
  using sample_plain
  by (intro safe_dump_succeeds) (simp_all add: sample_env_def new_resolver_def event_points_def optional_def some_tags_def)

section \<open>Dumping and loading\<close>

text \<open>One graph is serialized and composed: the nodes that the composer allocates.\<close>

lemma serialized_and_composed:
  assumes g: "closed_graph g" "r < length g" and tags: "\<forall>n \<in> set g. node_tag n \<noteq> ''!''"
    and paths: "path_table q = []" "path_table q' = []"
  obtains s w c where "yaml_serialize_all opts g [r] (new_serializer q) = Some (Inr (), s)" "walks g [] w" "root_of w = r"
    "yaml_compose_all (new_composer q' (answers (se_events s))) = Some (Inr [Some (place 0 (news w) r)], c)"
    "c_nodes c = map (\<lambda>x. copy_node (place 0 (news w)) (g ! x)) (news w)"
proof -
  obtain s docs where "yaml_serialize_all opts g [r] (new_serializer q) = Some (Inr (), s)" "list_all2 (document g) [r] docs"
    "se_events s = StreamStartEvent (use_encoding opts) # concat (map (wrapped opts) docs) @ [StreamEndEvent]"
    using serialize_all_events [OF g(1) _ paths(1), of "[r]" opts] g(2) by auto
  then obtain es where s: "yaml_serialize_all opts g [r] (new_serializer q) = Some (Inr (), s)" "document g r es"
    "se_events s = StreamStartEvent (use_encoding opts) # wrapped opts es @ [StreamEndEvent]" by (auto simp: list_all2_Cons1)
  obtain w al where w: "walks g [] w" "root_of w = r" "spells al g w es" "own_names al" "\<forall>x \<in> set (mets w). al x \<noteq> None"
    using s(2) unfolding document_def by blast
  define c where "c = new_composer q' (answers (wrapped opts es @ [StreamEndEvent]))"
  then have c: "composer_ready c" "c_nodes c = []" "c_events c = answers (wrapped opts es) @ answers [StreamEndEvent]"
    using paths(2) by (simp_all add: composer_ready_def new_composer_def answers_def)
  obtain c' where c': "compose_document c = Some (Inr (place 0 (news w) r), c')" "c_events c' = answers [StreamEndEvent]"
    "c_nodes c' = map (\<lambda>x. copy_node (place 0 (news w)) (g ! x)) (news w)"
    using compose_document_walk [OF w(1,3-5) tags g(1) _ c(1) c(3) [unfolded wrapped_def]] w(2) g(2) c(2) by auto
  obtain d ds where "wrapped opts es @ [StreamEndEvent] = d # ds" "\<not> is_stream_start d"
    using wrapped_begin [of opts "[es]"] by auto
  then have "yaml_compose_all (new_composer q' (answers (se_events s))) = yaml_compose_all c"
    unfolding s(3) c_def by (rule compose_all_start)
  then have "yaml_compose_all (new_composer q' (answers (se_events s))) = Some (Inr [Some (place 0 (news w) r)], c')"
    using compose_turn_document [OF c(3) c'(1), of "[]"] compose_turn_end [OF c'(2)] by (simp add: compose_all_turns)
  with that s(1) w(1,2) c'(3) show thesis by blast
qed

text \<open>A copy, in the order of a walk, of nodes that mirror the heap mirrors it too.\<close>

lemma mirrors_node_copy:
  assumes m: "mirrors_node h g f x" and cs: "set (children (node_value (g ! x))) \<subseteq> set xs"
    and n: "g' ! y = copy_node (place 0 xs) (g ! x)" "f' y = f x" "length g' = length xs"
    and f': "\<And>z. z \<in> set xs \<Longrightarrow> f' (place 0 xs z) = f z"
  shows "mirrors_node h g' f' y"
proof -
  have below: "place 0 xs z < length g'" if "z \<in> set xs" for z using place_less [OF that, of 0] n(3) by simp
  show ?thesis
  proof (cases "py_value (h ! f x)")
    case (PList vs)
    then obtain items fl where g: "node_tag (g ! x) = seq_tag" "node_value (g ! x) = SequenceNode items fl" "map f items = vs"
      using m by (auto simp: mirrors_node_def)
    have sub: "set items \<subseteq> set xs" using cs g(2) by simp
    then have "map f' (map (place 0 xs) items) = vs" using f' g(3) by (auto simp: subset_iff)
    moreover have "set (map (place 0 xs) items) \<subseteq> {..<length g'}" using sub below by auto
    ultimately show ?thesis using g(1,2) n(1,2) PList by (simp add: mirrors_node_def copy_node_def)
  next
    case (PDict ps)
    then obtain pairs fl where g: "node_tag (g ! x) = map_tag" "node_value (g ! x) = MappingNode pairs fl"
        "mset (map (map_prod f f) pairs) = mset ps"
      using m by (auto simp: mirrors_node_def)
    let ?pairs = "map (map_prod (place 0 xs) (place 0 xs)) pairs"
    have sub: "k \<in> set xs \<and> v \<in> set xs" if "(k, v) \<in> set pairs" for k v using cs g(2) that by fastforce
    have "map (map_prod f' f') ?pairs = map (map_prod f f) pairs" using sub f' by auto
    then have "mset (map (map_prod f' f') ?pairs) = mset ps" using g(3) by (simp only:)
    moreover have "\<forall>(k, v) \<in> set ?pairs. k < length g' \<and> v < length g'" using sub below by fastforce
    moreover have "node_tag (g' ! y) = map_tag" "node_value (g' ! y) = MappingNode ?pairs fl" using g(1,2) n(1) by (simp_all add: copy_node_def)
    ultimately show ?thesis using n(2) PDict unfolding mirrors_node_def by (simp only: pyvalue.case) blast
  qed (use m n in \<open>auto simp: mirrors_node_def copy_node_def\<close>)
qed

lemma mirrors_copy:
  assumes m: "mirrors h g f" and g: "closed_graph g" and w: "walks g [] w" "root_of w < length g"
    and g': "g' = map (\<lambda>x. copy_node (place 0 (news w)) (g ! x)) (news w)" and f': "f' = (\<lambda>i. f (news w ! i))"
  shows "mirrors h g' f'"
proof -
  let ?xs = "news w"
  have len: "length g' = length ?xs" by (simp add: g')
  have old: "?xs ! i < length g" "?xs ! i \<in> set ?xs" if "i < length g'" for i
    using subsetD [OF news_bound(1) [OF g w] nth_mem [of i ?xs]] nth_mem [of i ?xs] that len by simp_all
  have "mirrors_node h g' f' i" if i: "i < length g'" for i
  proof (rule mirrors_node_copy)
    show "mirrors_node h g f (?xs ! i)" using m old(1) [OF i] by (simp add: mirrors_def)
    show "set (children (node_value (g ! (?xs ! i)))) \<subseteq> set ?xs" using walks_children(1) [OF w(1) old(2) [OF i]] by simp
    show "f' (place 0 ?xs z) = f z" if "z \<in> set ?xs" for z using place_nth [OF that, of 0] by (simp add: f')
  qed (use i in \<open>simp_all add: g' f'\<close>)
  moreover have "i = j" if "i < length g'" "j < length g'" "f' i = f' j" "is_collection (py_value (h ! f' i))" for i j
  proof -
    have "?xs ! i = ?xs ! j" using m old(1) that unfolding mirrors_def f' by blast
    then show ?thesis using walks_distinct(1) [OF w(1) distinct.simps(1) [THEN iffD2, OF TrueI]] that(1,2) len by (simp add: nth_eq_iff_index_eq)
  qed
  moreover have "f' i < length h" if "i < length g'" for i using m old(1) [OF that] by (simp add: mirrors_def f')
  ultimately show ?thesis by (simp add: mirrors_def)
qed

text \<open>
  C21. From data to events and back.  For every object in a heap of plain data: the nodes of the
  safe representer are serialized as a stream of events, the composer, given these events, reads
  one document from them, and the safe constructor builds from it a copy of the data: equal
  scalars, lists with copies of the entries in order, and dicts with copies of the items, with
  the same sharing and the same cycles.
\<close>

theorem dump_load_copy:
  assumes "plain_heap h" and "en_tables en = safe_representers" and "a < length h" and "path_table q = []" and "path_table q' = []"
  shows "\<exists>r p s r' c F u. represent_data en a (new_representer h) = Some (Inr r, p) \<and>
    yaml_serialize_all opts (r_nodes p) [r] (new_serializer q) = Some (Inr (), s) \<and>
    yaml_compose_all (new_composer q' (answers (se_events s))) = Some (Inr [Some r'], c) \<and>
    construct_document safe_tables r' (new_builder (c_nodes c)) = Some (Inr (F a), u) \<and>
    copies h F (b_objects u) (reached h a)"
proof -
  obtain r p f where p: "represent_data en a (new_representer h) = Some (Inr r, p)" "r < length (r_nodes p)" "f r = a"
    "mirrors h (r_nodes p) f" using represent_mirrors [OF assms(1-3)] by blast
  let ?g = "r_nodes p"
  have g: "closed_graph ?g" using mirrors_plain [OF assms(1) p(4)] by (simp add: plain_graph_def)
  have tags: "\<forall>n \<in> set ?g. node_tag n \<noteq> ''!''"
    using mirrored_tags(2) [OF assms(1) p(4)] by (metis in_set_conv_nth)
  obtain s w c where s: "yaml_serialize_all opts ?g [r] (new_serializer q) = Some (Inr (), s)" and w: "walks ?g [] w" "root_of w = r"
    and c: "yaml_compose_all (new_composer q' (answers (se_events s))) = Some (Inr [Some (place 0 (news w) r)], c)"
      "c_nodes c = map (\<lambda>x. copy_node (place 0 (news w)) (?g ! x)) (news w)"
    by (rule serialized_and_composed [OF g p(2) tags assms(4,5)])
  have m: "mirrors h (c_nodes c) (\<lambda>i. f (news w ! i))" using mirrors_copy [OF p(4) g w(1) _ c(2) refl] w(2) p(2) by simp
  have "r \<in> set (news w)" using walks_root(1) [OF w(1)] w(2) by simp
  then have "place 0 (news w) r < length (c_nodes c)" "f (news w ! place 0 (news w) r) = a"
    using place_less [of r "news w" 0] place_nth [of r "news w" 0] p(3) c(2) by simp_all
  from mirrored_constructed [OF assms(1) m this] show ?thesis using p(1) s c(1) by metis
qed

lemma dump_load_copy_witness:
  "\<exists>r p s r' c F u. represent_data sample_env 0 (new_representer sample_heap) = Some (Inr r, p) \<and>
    yaml_serialize_all \<lparr>use_encoding = None, use_explicit_start = None, use_explicit_end = None, use_version = None, use_tags = None\<rparr>
      (r_nodes p) [r] (new_serializer (new_resolver resolver_table [])) = Some (Inr (), s) \<and>
    yaml_compose_all (new_composer (new_resolver resolver_table []) (answers (se_events s))) = Some (Inr [Some r'], c) \<and>
    construct_document safe_tables r' (new_builder (c_nodes c)) = Some (Inr (F 0), u) \<and>
    copies sample_heap F (b_objects u) (reached sample_heap 0)"
  using sample_plain by (intro dump_load_copy) (simp_all add: sample_env_def new_resolver_def)

end
