(* ===== verification/Spec2Isabelle.thy ===== *)
theory Spec2Isabelle
  imports Ingest_Theorems Dashboard Pool_Threads Pg_Range Sql_Compose Tz Batch Pg_Types Cursors Pg_Connect Pg_Replication Pg_Errors Yaml_Parser_Props Yaml_Copy Yaml_Merge Yaml_Construct_Props Yaml_Scanner_Blocks Yaml_Double Yaml_Dump_Props
begin

text \<open>
  Data Freeway: a Lambda that ingests Dutch traffic data, its dashboard, and the Python
  packages the Lambda carries with it.

  Parts and how they interact.  \<open>src/src/lambda_xml/lambda_function_xml.py\<close> is called by S3
  for every uploaded object.  A schema file (yml) is decoded by the bundled YAML library and
  saved by \<open>schemas_xml.add_schema\<close>; a traffic file (xml, gz) is parsed, its schema found by
  \<open>schemas_xml.find_schema\<close>, its records extracted by \<open>schemas_xml.extract_data\<close> and sent to
  DynamoDB in chunks.  Every stage commits a row to the table \<open>xml_log\<close> through \<open>logs.py\<close>,
  over a bundled psycopg2; \<open>src/src/dash/app.py\<close> reads that table and draws a grid of minutes.

  Theories.
  \<^item> \<open>Py_Prelude\<close>, \<open>Py_Strings\<close>, \<open>Py_Json\<close>: exceptions and results, state passing where the
    state survives an exception, dictionaries in insertion order, indexing; \<open>str\<close> methods,
    \<open>int()\<close>, \<open>Decimal()\<close>, \<open>strptime\<close>; \<open>json.dumps\<close> and \<open>repr\<close>.
  \<^item> \<open>Sql_Text\<close>, \<open>Meta_Db\<close>: the SQL texts the code pastes together and a lexer of their string
    literals; the two tables with a transaction as the locale \<open>pg_connection\<close>, interpreted on
    a reference connection.
  \<^item> \<open>Logs\<close>, \<open>Schemas\<close>, \<open>Extract\<close>, \<open>Ingest\<close>: \<open>logs.py\<close>, \<open>schemas_xml.py\<close>, and \<open>main\<close>.
    \<open>Extract_Props\<close>, \<open>Ingest_Props\<close> and \<open>Ingest_Theorems\<close> hold their lemmas and properties; the
    locale \<open>extraction_contract\<close> is what schemas, documents and \<open>find\<close> must satisfy.
  \<^item> \<open>Dashboard\<close>: \<open>app.py\<close> with its grid, connections and callbacks.
  \<^item> \<open>Pool\<close>, \<open>Pool_Threads\<close>: \<open>psycopg2/pool.py\<close>; threads are the step relation
    \<open>locked_step\<close>, one step per acquire, body and release, under the locale \<open>guarded\<close>.
  \<^item> \<open>Pg_Range\<close>, \<open>Sql_Compose\<close>, \<open>Tz\<close>: \<open>_range.py\<close>, \<open>sql.py\<close>, \<open>tz.py\<close>.
  \<^item> \<open>Batch\<close>, \<open>Pg_Types\<close>, \<open>Cursors\<close>: \<open>extras.py\<close>: paging and \<open>execute_values\<close>, hstore and
    composite values, dict and named-tuple cursors.  \<open>Pg_Replication\<close>: the logging cursors, the
    commands of replication, UUIDs and inet.
  \<^item> \<open>Pg_Connect\<close>: \<open>connect\<close> and \<open>make_dsn\<close>, with the syntax of connection strings as a reader;
    \<open>_json.py\<close>, \<open>_ipaddress.py\<close>, \<open>psycopg1.py\<close>.  \<open>Pg_Errors\<close>: the table of \<open>errorcodes.py\<close>.
  \<^item> \<open>Py_Loops\<close>, \<open>Py_Codecs\<close>, \<open>Py_Regex\<close>: calls that may not return, with the rules
    for loops (\<open>runs\<close>: the call returns; \<open>ensures\<close>: what holds when it does); the decoders of
    UTF-8 and UTF-16 over code points, under the locale \<open>resumable\<close>; regular expressions.
  \<^item> \<open>Yaml_Data\<close>, \<open>Yaml_Reader\<close>, \<open>Yaml_Scan\<close>, \<open>Yaml_Scanner\<close>, \<open>Yaml_Parser\<close>,
    \<open>Yaml_Resolver\<close>, \<open>Yaml_Compose\<close>: the stages of the YAML library.  Marks, errors, tokens,
    events and nodes; the reader with its buffer; the scanner's \<open>scan_\<close> methods, then its
    queue, simple keys, indentation and fetchers; the parser as a machine over tokens; the
    resolver's tables; the composer with its anchors.
  \<^item> \<open>Yaml_Serialize\<close>, \<open>Yaml_Copy\<close>: the serializer with its anchors, over a graph of nodes that
    may share and be cyclic; the composer reads what it writes as a copy.
  \<^item> \<open>Yaml_Emit\<close>, \<open>Yaml_Emitter\<close>: \<open>emitter.py\<close>: the writers, the analysis of scalars, tags
    and anchors; then the machine of states with its queue of events.  \<open>Yaml_Held\<close> gives the
    scanner on a text that is in the buffer, \<open>Yaml_Quoted\<close> what it reads of the pieces of a
    double-quoted text, and \<open>Yaml_Double\<close> that the emitter writes just such pieces.
    \<open>Yaml_Emitter_Props\<close> relates the states of the machine to what the grammar of events
    still expects, and \<open>Yaml_Emitter_Grammar\<close> follows whole streams.
  \<^item> \<open>Py_Texts\<close>, \<open>Yaml_Represent\<close>, \<open>Yaml_Dump\<close>: \<open>repr\<close> of floats, ISO dates and base 64 in
    lines; \<open>representer.py\<close> over a heap of Python objects with its table of the objects that
    have a node; the dumpers, which join representer, serializer and emitter.
    \<open>Yaml_Represent_Props\<close> shows that the nodes mirror the heap and are constructed as a copy,
    \<open>Yaml_Dump_Props\<close> that plain data is always dumped, and that what the composer and the
    constructor make of the events is a copy of it.
  \<^item> \<open>Py_Values\<close>, \<open>Yaml_Scalars\<close>, \<open>Yaml_Construct\<close>: \<open>int\<close> with a base, floats as rounded
    rationals, dates, base 64; the texts of scalars as values; the constructor with its store
    of objects and its generators as tasks.  \<open>Yaml_Merge\<close> shows that merge keys are always
    resolved, \<open>Yaml_Construct_Props\<close> that the objects represent the graph.
  \<^item> \<open>Yaml_Reader_Props\<close>, \<open>Yaml_Scan_Ends\<close>, \<open>Yaml_Scanner_Ends\<close>,
    \<open>Yaml_Scanner_Total\<close>, \<open>Yaml_Scanner_Blocks\<close>, \<open>Yaml_Parser_Props\<close>: what the
    reader has left as a measure, every loop of the scanner ends, the scanner as a whole ends,
    its block tokens nest; the parser ends and its events nest.

  What the lemmas show.  Invariants of the log, of the pool under any interleaving, of caches
  and of the parser's stacks; functional behaviour on every branch, errors included; round
  trips of ranges, hstore, connection strings, nodes and objects; termination and divergence
  of the loops; bounds of chunks, pages and log positions.

  Bounds and fuel.  Loops that may not end are \<^theory_text>\<open>partial_function (option)\<close>: \<open>paginate\<close>,
  what calls it, and \<open>ploop\<close>, the loop of the reader and the scanner, each of which is shown
  to end; so are the recursions over graphs of the composer, the serializer, the
  constructor and the representer.  Other loops recurse on their data or have a termination proof.

  Strings are lists of characters with the code points 0 to 255; in the reader, the scanner
  and the emitter, where the coding matters, they are lists of code points.  Parameters stand for what is not
  in the repository: S3, gzip, ElementTree's parser and \<open>find\<close>, DynamoDB, the C library of
  psycopg2 and the server behind it, the clock, the tables of \<open>time\<close>.

  Not modelled: page layout of the dashboard, registration of hstore, range and composite types
  with the C library, the YAML constructors that import modules, \<open>YAMLObject\<close>.
\<close>

end
